(* ===== verification/Prelude.thy ===== *)
theory Prelude
  imports Main "HOL-Library.Word"
begin

text \<open>
  Shared vocabulary of the development: the machine integer types of
  \<^verbatim>\<open>Common/Platform.h\<close>, the object representation of an integer in memory on the
  little-endian x86-64 target the build files select, truncated integer division as C has
  it, and the list lemmas that the components share.

  Convention used everywhere: a definition whose C++ original can run into undefined
  behaviour (an access out of range, a null dereference, an assertion) or can fail to
  return has an \<open>option\<close> result, and \<open>None\<close> stands for exactly that.
\<close>

type_synonym u8 = "8 word"
type_synonym u16 = "16 word"
type_synonym u32 = "32 word"
type_synonym u64 = "64 word"

text \<open>Rules that decode what an encoder of this development wrote.\<close>
named_theorems codec_simps

text \<open>Preservation of component invariants, one rule per operation.\<close>
named_theorems inv_intros

section \<open>Integers in memory\<close>

text \<open>The \<open>n\<close> low bytes of a value, least significant first.\<close>

fun le_bytes :: "nat \<Rightarrow> nat \<Rightarrow> u8 list" where
  "le_bytes 0 v = []"
| "le_bytes (Suc n) v = of_nat v # le_bytes n (v div 256)"

fun le_val :: "u8 list \<Rightarrow> nat" where
  "le_val [] = 0"
| "le_val (b # bs) = unat b + 256 * le_val bs"

text \<open>\<^verbatim>\<open>sizeof(T)\<close> and the bytes of an object of an unsigned integer type.\<close>

definition size_of :: "'a::len itself \<Rightarrow> nat" where
  "size_of _ = LENGTH('a) div 8"

definition obj_bytes :: "'a::len word \<Rightarrow> u8 list" where
  "obj_bytes w = le_bytes (LENGTH('a) div 8) (unat w)"

definition obj_val :: "u8 list \<Rightarrow> 'a::len word" where
  "obj_val bs = of_nat (le_val bs)"

lemma unat_less_256: "unat (b :: u8) < 256"
  using unsigned_less [of b, where ?'a = nat] by simp

lemma unat_ucast: "unat (ucast (w :: 'a::len word) :: 'b::len word) = unat w mod 2 ^ LENGTH('b)"
  by (simp add: unsigned_ucast_eq take_bit_eq_mod)

lemma unat_less_2p: "unat (w :: 'a::len word) < 2 ^ LENGTH('a)"
  by (rule unsigned_less)

lemma unat_drop_bit_div: "unat (drop_bit k (w :: 'a::len word)) = unat w div 2 ^ k"
  by (simp only: unat_drop_bit_eq drop_bit_eq_div [where 'a = nat])

lemma unat_take_bit_mod: "unat (take_bit k (w :: 'a::len word)) = unat w mod 2 ^ k"
  by (simp only: unsigned_take_bit_eq take_bit_eq_mod [where 'a = nat])

lemma and_FF: "and (w :: 'a::len word) 0xFF = take_bit 8 w"
  by (simp only: take_bit_eq_mask mask_eq_exp_minus_1) simp

lemma length_le_bytes [simp]: "length (le_bytes n v) = n"
  by (induction n arbitrary: v) auto

lemma le_val_le_bytes [codec_simps]: "le_val (le_bytes n v) = v mod 256 ^ n"
proof (induction n arbitrary: v)
  case 0
  then show ?case by simp
next
  case (Suc n)
  have "v mod 256 ^ Suc n = v mod 256 + 256 * (v div 256 mod 256 ^ n)"
    by (simp add: mod_mult2_eq)
  with Suc show ?case by (simp add: unat_of_nat)
qed

lemma le_val_less: "le_val bs < 256 ^ length bs"
proof (induction bs)
  case Nil
  then show ?case by simp
next
  case (Cons b bs)
  have "unat b < 256" by (rule unat_less_256)
  moreover have "le_val bs + 1 \<le> 256 ^ length bs" using Cons by simp
  then have "256 * le_val bs + 256 \<le> 256 * 256 ^ length bs"
    using mult_le_mono2 [of "le_val bs + 1" "256 ^ length bs" 256] by simp
  ultimately show ?case by simp
qed

lemma le_bytes_le_val [codec_simps]: "length bs = n \<Longrightarrow> le_bytes n (le_val bs) = bs"
proof (induction bs arbitrary: n)
  case Nil
  then show ?case by simp
next
  case (Cons b bs)
  have b: "unat b < 256" by (rule unat_less_256)
  have "(unat b + 256 * le_val bs) div 256 = le_val bs" using b by simp
  moreover have "(of_nat (unat b + 256 * le_val bs) :: u8) = b"
  proof -
    have "(of_nat (256 * le_val bs) :: u8) = 0"
      by (subst word_of_nat_eq_0_iff) simp
    then show ?thesis by (simp only: of_nat_add of_nat_unat unsigned_ucast_eq, simp)
  qed
  ultimately show ?case using Cons by auto
qed

lemma length_obj_bytes [simp]: "length (obj_bytes (w :: 'a::len word)) = LENGTH('a) div 8"
  by (simp add: obj_bytes_def)

lemma pow256: "(256::nat) ^ k = 2 ^ (8 * k)"
  by (simp add: power_mult)

lemma le_val_obj_bytes [codec_simps]:
  fixes w :: "'a::len word"
  assumes "8 dvd LENGTH('a)"
  shows "le_val (obj_bytes w) = unat w"
proof -
  have "(256::nat) ^ (LENGTH('a) div 8) = 2 ^ LENGTH('a)"
    using assms by (simp add: pow256)
  then show ?thesis
    using unsigned_less [of w, where ?'a = nat] by (simp add: obj_bytes_def le_val_le_bytes)
qed

lemma obj_val_obj_bytes [codec_simps]:
  fixes w :: "'a::len word"
  assumes "8 dvd LENGTH('a)"
  shows "obj_val (obj_bytes w) = w"
  using assms by (simp add: obj_val_def le_val_obj_bytes)

lemma obj_bytes_u16: "obj_bytes (w :: u16) = [of_nat (unat w), of_nat (unat w div 256)]"
  by (simp add: obj_bytes_def numeral_2_eq_2)

section \<open>Network byte order\<close>

text \<open>
  The server writes and reads the fields of a packet header with shifts. These lemmas join
  the bytes that \<^verbatim>\<open>(x >> k) & 0xFF\<close> cut off.
\<close>

lemma radix_sum4:
  "n = 256 * q1 + r0 \<Longrightarrow> q1 = 256 * q2 + r1 \<Longrightarrow> q2 = 256 * q3 + r2 \<Longrightarrow>
     q3 * 16777216 + r2 * 65536 + r1 * 256 + r0 = (n :: nat)"
  by simp

lemma nat_bytes4:
  fixes n :: nat
  shows "n div 16777216 * 16777216 + (n div 65536 mod 256) * 65536 + (n div 256 mod 256) * 256
    + n mod 256 = n"
proof -
  have "n div 65536 = n div 256 div 256" "n div 16777216 = n div 256 div 256 div 256"
    by (simp_all flip: div_mult2_eq)
  then show ?thesis
    by (simp only:) (rule radix_sum4; rule mult_div_mod_eq [symmetric])
qed

lemma byte_hi16: "unat (ucast (drop_bit 8 (w :: u16)) :: u8) = unat w div 256"
  using unat_less_2p [of w] by (simp only: unat_ucast unat_drop_bit_div) simp

lemma byte_hi32: "unat (ucast (drop_bit 24 (w :: u32)) :: u8) = unat w div 16777216"
  using unat_less_2p [of w] by (simp only: unat_ucast unat_drop_bit_div) simp

lemma byte_lo: "unat (ucast (and (w :: 'a::len word) 0xFF) :: u8) = unat w mod 256"
  by (simp only: unat_ucast and_FF unat_take_bit_mod) simp

lemma byte_mid:
  "unat (ucast (and (drop_bit k (w :: 'a::len word)) 0xFF) :: u8) = unat w div 2 ^ k mod 256"
  by (simp only: byte_lo unat_drop_bit_div)

lemma be16_join:
  "push_bit 8 (uint (ucast (drop_bit 8 (w :: u16)) :: u8)) + uint (ucast (and w 0xFF) :: u8) = uint w"
proof -
  have "int (unat w div 256) * 256 + int (unat w mod 256) = int (unat w)"
    by (metis div_mult_mod_eq of_nat_add of_nat_mult of_nat_numeral)
  then show ?thesis
    by (simp only: uint_nat byte_hi16 byte_lo push_bit_eq_mult) simp
qed

lemma be32_join:
  fixes w :: u32
  shows "push_bit 24 (ucast (ucast (drop_bit 24 w) :: u8)) + push_bit 16 (ucast (ucast (and (drop_bit 16 w) 0xFF) :: u8))
    + push_bit 8 (ucast (ucast (and (drop_bit 8 w) 0xFF) :: u8)) + ucast (ucast (and w 0xFF) :: u8) = w"
proof -
  let ?n = "unat w"
  have up: "ucast b = (of_nat (unat b) :: u32)" for b :: u8
    by simp
  have "(of_nat (?n div 16777216 * 16777216 + (?n div 65536 mod 256) * 65536
      + (?n div 256 mod 256) * 256 + ?n mod 256) :: u32) = w"
    unfolding nat_bytes4 by simp
  then show ?thesis
    unfolding up byte_hi32 byte_mid byte_lo unat_drop_bit_div push_bit_eq_mult
    by (simp only: of_nat_add of_nat_mult of_nat_numeral) simp
qed
section \<open>Lists\<close>

text \<open>Overwriting a run of elements in place, as \<^verbatim>\<open>memcpy\<close> into an array does.\<close>

definition overwrite :: "'a list \<Rightarrow> nat \<Rightarrow> 'a list \<Rightarrow> 'a list" where
  "overwrite xs i ys = take i xs @ ys @ drop (i + length ys) xs"

lemma length_overwrite [simp]:
  "i + length ys \<le> length xs \<Longrightarrow> length (overwrite xs i ys) = length xs"
  by (simp add: overwrite_def)

lemma overwrite_append_left [simp]:
  "length ys \<le> length as \<Longrightarrow> overwrite (as @ bs) 0 ys = overwrite as 0 ys @ bs"
  by (simp add: overwrite_def)

lemma overwrite_Nil [simp]: "overwrite xs i [] = xs"
  by (simp add: overwrite_def)

lemma overwrite_all [simp]: "length ys = length xs \<Longrightarrow> overwrite xs 0 ys = ys"
  by (simp add: overwrite_def)

section \<open>Truncated division\<close>

text \<open>C's integer division and remainder, which round towards zero.\<close>

definition c_div :: "int \<Rightarrow> int \<Rightarrow> int" where
  "c_div a b = sgn a * sgn b * (\<bar>a\<bar> div \<bar>b\<bar>)"

definition c_mod :: "int \<Rightarrow> int \<Rightarrow> int" where
  "c_mod a b = a - b * c_div a b"

lemma c_div_nonneg [simp]: "0 \<le> a \<Longrightarrow> 0 < b \<Longrightarrow> c_div a b = a div b"
  by (cases "a = 0") (simp_all add: c_div_def)

lemma c_mod_nonneg [simp]: "0 \<le> a \<Longrightarrow> 0 < b \<Longrightarrow> c_mod a b = a mod b"
  by (simp add: c_mod_def minus_mult_div_eq_mod)

text \<open>Conversion of an integer to a 32-bit signed \<^verbatim>\<open>int\<close> (two's complement).\<close>

definition to_int32 :: "int \<Rightarrow> int" where
  "to_int32 n = sint (word_of_int n :: u32)"

lemma to_int32_id [simp]: "- (2 ^ 31) \<le> n \<Longrightarrow> n < 2 ^ 31 \<Longrightarrow> to_int32 n = n"
  by (simp add: to_int32_def int_word_sint)

end
