(* ===== verification/Msg_Types.thy ===== *)
theory Msg_Types
  imports Prelude
begin

text \<open>
  \<^verbatim>\<open>MsgHandler/MsgTypes.h\<close> and \<^verbatim>\<open>Common/Queue.h\<close>: the headers that precede a message
  body in a message block, with their layout in memory on x86-64 (\<open>sizeof\<close> 16 and 20), and
  the queue of blocks between the network threads and the logic thread. A message block is
  written as one header type and read back through a cast to another, so the layout is part
  of the model.
\<close>

definition CLIENT_MSGTYPE :: u8 where "CLIENT_MSGTYPE = 0"
definition SERVER_MSGTYPE :: u8 where "SERVER_MSGTYPE = 1"
definition PROXY_MSGTYPE :: u8 where "PROXY_MSGTYPE = 2"

lemmas msgtype_defs = CLIENT_MSGTYPE_def SERVER_MSGTYPE_def PROXY_MSGTYPE_def

text \<open>\<^verbatim>\<open>MsgHdr\<close>; the session id is a 32-bit \<^verbatim>\<open>int\<close>, kept as its bit pattern.\<close>

record msg_hdr =
  msgType :: u8
  cmdID :: u32
  bodyLen :: u32
  sessionID :: u32

definition MsgHdr :: "u32 \<Rightarrow> u8 \<Rightarrow> u32 \<Rightarrow> u32 \<Rightarrow> msg_hdr" where
  "MsgHdr cid ty blen sid = \<lparr>msgType = ty, cmdID = cid, bodyLen = blen, sessionID = sid\<rparr>"

text \<open>The two header types a message is pushed with.\<close>

datatype hdr =
    ClientMsgHdr msg_hdr
  | ProxyMsgHdr msg_hdr (target_type: u8) (target_id: u8) (source_type: u8) (source_id: u8)

primrec msgHdr :: "hdr \<Rightarrow> msg_hdr" where
  "msgHdr (ClientMsgHdr h) = h"
| "msgHdr (ProxyMsgHdr h tt ti st si) = h"

text \<open>The constructors; \<^verbatim>\<open>target >> 8\<close> is an \<^verbatim>\<open>int\<close> that the member truncates to 8 bits.\<close>

definition mk_client_hdr :: "u32 \<Rightarrow> u8 \<Rightarrow> u32 \<Rightarrow> u32 \<Rightarrow> hdr" where
  "mk_client_hdr cid ty blen sid = ClientMsgHdr (MsgHdr cid ty blen sid)"

definition mk_proxy_hdr :: "u32 \<Rightarrow> u8 \<Rightarrow> u32 \<Rightarrow> u32 \<Rightarrow> int \<Rightarrow> int \<Rightarrow> hdr" where
  "mk_proxy_hdr cid ty blen sid target source =
     ProxyMsgHdr (MsgHdr cid ty blen sid)
       (word_of_int (drop_bit 8 target)) (word_of_int target)
       (word_of_int (drop_bit 8 source)) (word_of_int source)"

section \<open>Layout\<close>

primrec sizeof_hdr :: "hdr \<Rightarrow> nat" where
  "sizeof_hdr (ClientMsgHdr h) = 16"
| "sizeof_hdr (ProxyMsgHdr h tt ti st si) = 20"

text \<open>
  The bytes of a header object. The three bytes after \<^verbatim>\<open>msgType\<close> are padding, with
  whatever values \<open>pad\<close> they have in the source object.
\<close>

definition msg_hdr_bytes :: "u8 list \<Rightarrow> msg_hdr \<Rightarrow> u8 list" where
  "msg_hdr_bytes pad h =
     [msgType h] @ take 3 (pad @ [0, 0, 0]) @ obj_bytes (cmdID h) @ obj_bytes (bodyLen h)
       @ obj_bytes (sessionID h)"

primrec hdr_bytes :: "u8 list \<Rightarrow> hdr \<Rightarrow> u8 list" where
  "hdr_bytes pad (ClientMsgHdr h) = msg_hdr_bytes pad h"
| "hdr_bytes pad (ProxyMsgHdr h tt ti st si) = msg_hdr_bytes pad h @ [tt, ti, st, si]"

text \<open>The cast \<^verbatim>\<open>(MsgHdr*)\<close> of a block read member by member.\<close>

definition read_msg_hdr :: "u8 list \<Rightarrow> msg_hdr" where
  "read_msg_hdr bs =
     \<lparr>msgType = bs ! 0, cmdID = obj_val (take 4 (drop 4 bs)),
      bodyLen = obj_val (take 4 (drop 8 bs)), sessionID = obj_val (take 4 (drop 12 bs))\<rparr>"

lemma length_msg_hdr_bytes [simp]: "length (msg_hdr_bytes pad h) = 16"
  by (simp add: msg_hdr_bytes_def)

lemma length_hdr_bytes [simp]: "length (hdr_bytes pad h) = sizeof_hdr h"
  by (cases h) simp_all

lemma sizeof_hdr_bounds: "16 \<le> sizeof_hdr h \<and> sizeof_hdr h \<le> 20"
  by (cases h) simp_all

lemma obtain3:
  assumes "length xs = 3"
  obtains a b c where "xs = [a, b, c]"
  using assms by (metis (no_types) length_0_conv length_Suc_conv numeral_3_eq_3)

lemma read_msg_hdr_bytes [codec_simps]: "read_msg_hdr (msg_hdr_bytes pad h @ rest) = h"
proof -
  obtain a b c where "take 3 (pad @ [0, 0, 0]) = [a, b, c :: u8]"
    by (rule obtain3 [of "take 3 (pad @ [0, 0, 0])"]) simp_all
  then show ?thesis by (simp add: read_msg_hdr_def msg_hdr_bytes_def obj_val_obj_bytes)
qed

text \<open>Whatever the header type, the first 16 bytes of the block are its \<^verbatim>\<open>MsgHdr\<close>.\<close>

lemma read_hdr_bytes [codec_simps]: "read_msg_hdr (hdr_bytes pad h @ rest) = msgHdr h"
  by (cases h) (simp_all add: codec_simps)

lemma hdr_bytes_tail [codec_simps]:
  "drop 16 (hdr_bytes pad (ProxyMsgHdr h tt ti st si) @ rest) = [tt, ti, st, si] @ rest"
  by simp

section \<open>The queue\<close>

text \<open>
  \<^verbatim>\<open>Queue<Type>\<close> wraps a deque: the front of the list is the front of the queue. Popping
  an empty queue is an assertion failure.
\<close>

type_synonym 'a queue = "'a list"

definition queue_Push :: "'a \<Rightarrow> 'a queue \<Rightarrow> 'a queue" where
  "queue_Push e q = q @ [e]"

definition queue_PushAll :: "'a queue \<Rightarrow> 'a queue \<Rightarrow> 'a queue" where
  "queue_PushAll other q = q @ other"

definition queue_Pop :: "'a queue \<Rightarrow> ('a \<times> 'a queue) option" where
  "queue_Pop q = (case q of [] \<Rightarrow> None | e # es \<Rightarrow> Some (e, es))"

definition queue_Empty :: "'a queue \<Rightarrow> bool" where
  "queue_Empty q \<longleftrightarrow> q = []"

definition queue_Clear :: "'a queue \<Rightarrow> 'a queue" where
  "queue_Clear q = []"

text \<open>\<^verbatim>\<open>Size\<close> converts the deque's size to \<^verbatim>\<open>int\<close>.\<close>

definition queue_Size :: "'a queue \<Rightarrow> int" where
  "queue_Size q = to_int32 (int (length q))"

section \<open>The queue as an interface\<close>

text \<open>
  What the producers and the consumer rely on: a first-in first-out sequence. The consumer
  side of the contract, that draining a queue yields what was pushed in order, is proved
  once from the laws.
\<close>

locale fifo =
  fixes push :: "'e \<Rightarrow> 'q \<Rightarrow> 'q"
    and pop :: "'q \<Rightarrow> ('e \<times> 'q) option"
    and clear :: "'q \<Rightarrow> 'q"
    and elems :: "'q \<Rightarrow> 'e list"
  assumes elems_push: "elems (push e q) = elems q @ [e]"
    and pop_None: "elems q = [] \<Longrightarrow> pop q = None"
    and pop_Some: "elems q = e # es \<Longrightarrow> \<exists>q'. pop q = Some (e, q') \<and> elems q' = es"
    and elems_clear: "elems (clear q) = []"
begin

fun drain :: "nat \<Rightarrow> 'q \<Rightarrow> 'e list" where
  "drain 0 q = []"
| "drain (Suc n) q = (case pop q of None \<Rightarrow> [] | Some (e, q') \<Rightarrow> e # drain n q')"

lemma drain_elems: "length (elems q) \<le> n \<Longrightarrow> drain n q = elems q"
proof (induction n arbitrary: q)
  case 0
  then show ?case by simp
next
  case (Suc n)
  show ?case
  proof (cases "elems q")
    case Nil
    then show ?thesis by (simp add: pop_None)
  next
    case (Cons e es)
    then obtain q' where "pop q = Some (e, q')" "elems q' = es" using pop_Some by blast
    with Suc Cons show ?thesis by simp
  qed
qed

lemma elems_fold_push: "elems (fold push xs q) = elems q @ xs"
  by (induction xs arbitrary: q) (simp_all add: elems_push)

lemma drain_pushes:
  "length xs \<le> n \<Longrightarrow> drain n (fold push xs (clear q)) = xs"
  by (simp add: drain_elems elems_fold_push elems_clear)

end

interpretation msgq: fifo queue_Push queue_Pop queue_Clear "\<lambda>q. q"
  by unfold_locales (auto simp: queue_Push_def queue_Pop_def queue_Clear_def)

end
