(* ===== verification/Wire_Stream.thy ===== *)
theory Wire_Stream
  imports Prelude
begin

text \<open>
  \<^verbatim>\<open>Common/Stream.h\<close>: the byte buffer with a read cursor in which every message of
  the server is composed and read back. A \<open>wstream\<close> is the object's two members; a
  member function that may touch memory outside \<open>buf\<close> returns an option, with \<open>None\<close>
  for that access. Sizes are \<open>nat\<close>; the one subtraction of sizes that can wrap
  (\<^verbatim>\<open>_buf.size() - _pos\<close> once \<^verbatim>\<open>pop_front\<close> has left the cursor behind the end) is
  written out modulo \<open>2 ^ 64\<close>.
\<close>

record wstream =
  wpos :: nat
  wbuf :: "u8 list"

definition sub_size :: "nat \<Rightarrow> nat \<Rightarrow> nat" where
  "sub_size a b = nat ((int a - int b) mod 2 ^ 64)"

lemma sub_size_le [simp]: "b \<le> a \<Longrightarrow> a < 2 ^ 64 \<Longrightarrow> sub_size a b = a - b"
  by (simp add: sub_size_def nat_mod_distrib of_nat_diff [symmetric] del: of_nat_diff)

section \<open>Construction and the simple members\<close>

definition stream_empty :: wstream where
  "stream_empty = \<lparr>wpos = 0, wbuf = []\<rparr>"

definition stream_of_bytes :: "u8 list \<Rightarrow> wstream" where
  "stream_of_bytes bs = \<lparr>wpos = 0, wbuf = bs\<rparr>"

text \<open>
  The message constructor: ten header bytes, the length field still zero, the command and
  the two addresses most significant byte first.
\<close>

definition stream_msg :: "u32 \<Rightarrow> u16 \<Rightarrow> u16 \<Rightarrow> wstream" where
  "stream_msg cmd target source = \<lparr>wpos = 0, wbuf =
     [0, 0, ucast (drop_bit 24 cmd), ucast (and (drop_bit 16 cmd) 0xFF),
      ucast (and (drop_bit 8 cmd) 0xFF), ucast (and cmd 0xFF),
      ucast (drop_bit 8 target), ucast (and target 0xFF),
      ucast (drop_bit 8 source), ucast (and source 0xFF)]\<rparr>"

definition stream_size :: "wstream \<Rightarrow> nat" where
  "stream_size s = length (wbuf s)"

definition stream_left :: "wstream \<Rightarrow> nat" where
  "stream_left s = sub_size (length (wbuf s)) (wpos s)"

definition stream_is_empty :: "wstream \<Rightarrow> bool" where
  "stream_is_empty s \<longleftrightarrow> wbuf s = []"

definition stream_reset :: "wstream \<Rightarrow> wstream" where
  "stream_reset s = s\<lparr>wpos := 0\<rparr>"

definition stream_clear :: "wstream \<Rightarrow> wstream" where
  "stream_clear s = stream_reset (s\<lparr>wbuf := []\<rparr>)"

text \<open>\<^verbatim>\<open>first_of\<close>: the loop over the indices, and \<open>(size_t)-1\<close> where it finds nothing.\<close>

fun first_of_loop :: "u8 \<Rightarrow> u8 list \<Rightarrow> nat \<Rightarrow> nat" where
  "first_of_loop b [] i = 2 ^ 64 - 1"
| "first_of_loop b (x # xs) i = (if x = b then i else first_of_loop b xs (Suc i))"

definition stream_first_of :: "u8 \<Rightarrow> wstream \<Rightarrow> nat" where
  "stream_first_of b s = first_of_loop b (wbuf s) 0"

section \<open>Editing\<close>

definition stream_pop_front :: "nat \<Rightarrow> wstream \<Rightarrow> wstream" where
  "stream_pop_front n s =
     (if n \<ge> length (wbuf s) then s\<lparr>wbuf := []\<rparr> else s\<lparr>wbuf := drop n (wbuf s)\<rparr>)"

definition stream_remove :: "nat \<Rightarrow> nat \<Rightarrow> wstream \<Rightarrow> wstream" where
  "stream_remove i n s =
     (if i \<ge> length (wbuf s) then s
      else let n' = (if i + n > length (wbuf s) then length (wbuf s) - i else n)
           in s\<lparr>wbuf := take i (wbuf s) @ drop (i + n') (wbuf s)\<rparr>)"

definition stream_append_zero :: "nat \<Rightarrow> wstream \<Rightarrow> wstream" where
  "stream_append_zero n s = (if n > 0 then s\<lparr>wbuf := wbuf s @ replicate n 0\<rparr> else s)"

definition stream_append :: "u8 list \<Rightarrow> wstream \<Rightarrow> wstream" where
  "stream_append bs s = s\<lparr>wbuf := wbuf s @ bs\<rparr>"

definition stream_prepend :: "u8 list \<Rightarrow> wstream \<Rightarrow> wstream" where
  "stream_prepend bs s = s\<lparr>wbuf := bs @ wbuf s\<rparr>"

text \<open>\<^verbatim>\<open>operator+=\<close> and \<^verbatim>\<open>operator-=\<close> move the cursor, clamped to the buffer.\<close>

definition stream_skip :: "u32 \<Rightarrow> wstream \<Rightarrow> wstream" where
  "stream_skip n s =
     (let p = wpos s + unat n
      in s\<lparr>wpos := (if p > length (wbuf s) then length (wbuf s) else p)\<rparr>)"

definition stream_back :: "u32 \<Rightarrow> wstream \<Rightarrow> wstream" where
  "stream_back n s = (if wpos s < unat n then s\<lparr>wpos := 0\<rparr> else s\<lparr>wpos := wpos s - unat n\<rparr>)"

section \<open>Reading\<close>

text \<open>
  \<^verbatim>\<open>read\<close>: at most \<open>len\<close> bytes from the cursor. The clamp is the code's own subtraction,
  so with a cursor behind the end the copy runs out of the buffer: \<open>None\<close>.
\<close>

definition stream_read :: "nat \<Rightarrow> wstream \<Rightarrow> (u8 list \<times> wstream) option" where
  "stream_read len s =
     (let len' = (if wpos s + len > length (wbuf s)
                  then sub_size (length (wbuf s)) (wpos s) else len)
      in if len' = 0 then Some ([], s)
         else if wpos s + len' > length (wbuf s) then None
         else Some (take len' (drop (wpos s) (wbuf s)), s\<lparr>wpos := wpos s + len'\<rparr>))"

text \<open>
  \<^verbatim>\<open>operator>>(T&)\<close> for an integer object: the bytes read replace the first bytes of the
  object \<open>old\<close>; a short read leaves the others.
\<close>

definition stream_get :: "'a::len word \<Rightarrow> wstream \<Rightarrow> ('a word \<times> wstream) option" where
  "stream_get old s =
     (case stream_read (size_of TYPE('a)) s of
        None \<Rightarrow> None
      | Some (bs, s') \<Rightarrow> Some (obj_val (overwrite (obj_bytes old) 0 bs), s'))"

text \<open>\<^verbatim>\<open>operator>>(std::vector<UInt8>&)\<close> fills a vector of the caller's size.\<close>

definition stream_get_bytes :: "u8 list \<Rightarrow> wstream \<Rightarrow> (u8 list \<times> wstream) option" where
  "stream_get_bytes old s =
     (case stream_read (length old) s of
        None \<Rightarrow> None
      | Some (bs, s') \<Rightarrow> Some (overwrite old 0 bs, s'))"

text \<open>
  \<^verbatim>\<open>operator>>(std::vector<T>&)\<close>: an element count, then the elements. \<open>n0\<close> is the
  indeterminate value of the local count before it is read; fresh elements are zero.
\<close>

fun split_objs :: "nat \<Rightarrow> u8 list \<Rightarrow> ('a::len) word list" where
  "split_objs 0 bs = []"
| "split_objs (Suc n) bs =
     obj_val (take (LENGTH('a) div 8) bs) # split_objs n (drop (LENGTH('a) div 8) bs)"

definition stream_get_vec ::
    "u32 \<Rightarrow> wstream \<Rightarrow> (('a::len) word list \<times> wstream) option" where
  "stream_get_vec n0 s =
     (case stream_get n0 s of
        None \<Rightarrow> None
      | Some (n, s1) \<Rightarrow>
          if n = 0 then Some ([], s1)
          else (case stream_read (size_of TYPE('a) * unat n) s1 of
                  None \<Rightarrow> None
                | Some (bs, s2) \<Rightarrow>
                    Some (split_objs (unat n)
                      (overwrite (replicate (size_of TYPE('a) * unat n) 0) 0 bs), s2)))"

text \<open>
  \<^verbatim>\<open>operator>>(std::string&)\<close>: a 16-bit length (\<open>l0\<close> its indeterminate first value),
  clamped to what is left, then that many bytes without a further check.
\<close>

definition stream_get_str :: "u16 \<Rightarrow> wstream \<Rightarrow> (u8 list \<times> wstream) option" where
  "stream_get_str l0 s =
     (case stream_get l0 s of
        None \<Rightarrow> None
      | Some (l, s1) \<Rightarrow>
          (let lft = (of_nat (stream_left s1) :: u32);
               l' = (if (ucast l :: u32) > lft then ucast lft else l)
           in if unat l' > 0 \<and> wpos s1 + unat l' > length (wbuf s1) then None
              else Some (take (unat l') (drop (wpos s1) (wbuf s1)),
                         s1\<lparr>wpos := wpos s1 + unat l'\<rparr>)))"

section \<open>Writing\<close>

definition stream_put :: "'a::len word \<Rightarrow> wstream \<Rightarrow> wstream" where
  "stream_put v s = stream_append (obj_bytes v) s"

definition stream_put_bytes :: "u8 list \<Rightarrow> wstream \<Rightarrow> wstream" where
  "stream_put_bytes v s = s\<lparr>wbuf := wbuf s @ v\<rparr>"

definition stream_put_vec :: "('a::len) word list \<Rightarrow> wstream \<Rightarrow> wstream" where
  "stream_put_vec v s =
     stream_append (concat (map obj_bytes v)) (stream_put (of_nat (length v) :: u32) s)"

text \<open>The string writer stores the length in 16 bits and then every byte.\<close>

definition stream_put_str :: "u8 list \<Rightarrow> wstream \<Rightarrow> wstream" where
  "stream_put_str v s = stream_put_bytes v (stream_put (of_nat (length v) :: u16) s)"

text \<open>A C string: \<open>None\<close> is the null pointer; its length is truncated before both uses.\<close>

definition stream_put_cstr :: "u8 list option \<Rightarrow> wstream \<Rightarrow> wstream" where
  "stream_put_cstr v s =
     (case v of
        None \<Rightarrow> stream_put (0 :: u16) s
      | Some cs \<Rightarrow>
          (let len = (of_nat (length cs) :: u16)
           in stream_put_bytes (take (unat len) cs) (stream_put len s)))"

definition stream_put_stream :: "wstream \<Rightarrow> wstream \<Rightarrow> wstream" where
  "stream_put_stream v s = stream_put_bytes (wbuf v) s"

text \<open>
  \<^verbatim>\<open>data<T>(offset) = v\<close>: a store into the buffer, or into the function's static
  temporary where the object would not fit.
\<close>

definition stream_set_data :: "nat \<Rightarrow> 'a::len word \<Rightarrow> wstream \<Rightarrow> wstream" where
  "stream_set_data off v s =
     (if off + size_of TYPE('a) > length (wbuf s) then s
      else s\<lparr>wbuf := overwrite (wbuf s) off (obj_bytes v)\<rparr>)"

text \<open>\<^verbatim>\<open>eos\<close> completes a message: the payload length goes into the first two bytes.\<close>

definition stream_eos :: "wstream \<Rightarrow> wstream" where
  "stream_eos s = stream_set_data 0 (of_nat (sub_size (stream_size s) 10) :: u16) s"

section \<open>The cursor invariant\<close>

definition stream_ok :: "wstream \<Rightarrow> bool" where
  "stream_ok s \<longleftrightarrow> wpos s \<le> length (wbuf s) \<and> length (wbuf s) < 2 ^ 64"

lemma stream_okI [intro]:
  "wpos s \<le> length (wbuf s) \<Longrightarrow> length (wbuf s) < 2 ^ 64 \<Longrightarrow> stream_ok s"
  by (simp add: stream_ok_def)

lemma stream_ok_left [simp]: "stream_ok s \<Longrightarrow> stream_left s = length (wbuf s) - wpos s"
  by (simp add: stream_ok_def stream_left_def)

text \<open>With the cursor inside the buffer a read returns a prefix of the rest, never \<open>None\<close>.\<close>

lemma stream_read_ok:
  assumes "stream_ok s"
  shows "stream_read n s =
    Some (take n (drop (wpos s) (wbuf s)), s\<lparr>wpos := wpos s + min n (length (wbuf s) - wpos s)\<rparr>)"
  using assms by (auto simp: stream_read_def stream_ok_def Let_def min_def)

lemma stream_ok_read [inv_intros]:
  "stream_ok s \<Longrightarrow> stream_read n s = Some (bs, s') \<Longrightarrow> stream_ok s'"
  by (auto simp: stream_read_ok stream_ok_def)

lemma stream_ok_get [inv_intros]:
  "stream_ok s \<Longrightarrow> stream_get old s = Some (v, s') \<Longrightarrow> stream_ok s'"
  by (auto simp: stream_get_def split: option.splits dest: stream_ok_read)

text \<open>The length the string reader settles on is the smaller of the two.\<close>

lemma str_len_clamp:
  "unat (if (ucast (l :: u16) :: u32) > lft then (ucast lft :: u16) else l) = min (unat l) (unat lft)"
proof -
  have l: "unat l < 65536" using unat_less_2p [of l] by simp
  then have up: "unat (ucast l :: u32) = unat l" by (simp add: unat_ucast)
  show ?thesis using l by (auto simp: word_less_nat_alt up unat_ucast min_def)
qed

lemma stream_get_str_eq:
  assumes "stream_ok s"
  shows "stream_get_str l0 s =
    (case stream_get l0 s of None \<Rightarrow> None
     | Some (l, s1) \<Rightarrow>
        (let n = min (unat l) ((length (wbuf s1) - wpos s1) mod 2 ^ 32)
         in Some (take n (drop (wpos s1) (wbuf s1)), s1\<lparr>wpos := wpos s1 + n\<rparr>)))"
proof (cases "stream_get l0 s")
  case None
  then show ?thesis by (simp add: stream_get_str_def)
next
  case (Some p)
  obtain l s1 where p: "p = (l, s1)" by force
  have ok: "stream_ok s1" using stream_ok_get [OF assms] Some p by simp
  let ?left = "length (wbuf s1) - wpos s1"
  have "?left mod 2 ^ 32 \<le> ?left" by (rule mod_less_eq_dividend)
  then have "wpos s1 + min (unat l) (?left mod 2 ^ 32) \<le> length (wbuf s1)"
    using ok by (auto simp: stream_ok_def)
  moreover have "unat (of_nat ?left :: u32) = ?left mod 2 ^ 32"
    by (simp add: unat_of_nat del: of_nat_diff)
  ultimately show ?thesis
    by (simp add: stream_get_str_def Some p Let_def str_len_clamp ok
        del: of_nat_diff split del: if_split cong: if_cong)
qed

lemma stream_ok_get_str [inv_intros]:
  assumes "stream_ok s" "stream_get_str l0 s = Some (v, s')"
  shows "stream_ok s'"
proof -
  from assms obtain l s1 where get: "stream_get l0 s = Some (l, s1)"
    and s': "s' = s1\<lparr>wpos := wpos s1 + min (unat l) ((length (wbuf s1) - wpos s1) mod 2 ^ 32)\<rparr>"
    by (auto simp: stream_get_str_eq Let_def split: option.splits)
  have "(length (wbuf s1) - wpos s1) mod 2 ^ 32 \<le> length (wbuf s1) - wpos s1"
    by (rule mod_less_eq_dividend)
  then show ?thesis using stream_ok_get [OF assms(1) get] by (auto simp: stream_ok_def s')
qed

lemma stream_ok_skip [inv_intros]: "stream_ok s \<Longrightarrow> stream_ok (stream_skip n s)"
  by (auto simp: stream_skip_def stream_ok_def Let_def)

lemma stream_ok_back [inv_intros]: "stream_ok s \<Longrightarrow> stream_ok (stream_back n s)"
  by (auto simp: stream_back_def stream_ok_def)

lemma stream_ok_reset [inv_intros]: "stream_ok s \<Longrightarrow> stream_ok (stream_reset s)"
  by (auto simp: stream_reset_def stream_ok_def)

lemma stream_ok_clear [inv_intros]: "stream_ok (stream_clear s)"
  by (auto simp: stream_clear_def stream_reset_def stream_ok_def)

section \<open>Round trips\<close>

lemma wbuf_put [simp]: "wbuf (stream_put v s) = wbuf s @ obj_bytes v"
  by (simp add: stream_put_def stream_append_def)

lemma wpos_put [simp]: "wpos (stream_put v s) = wpos s"
  by (simp add: stream_put_def stream_append_def)

lemma wbuf_put_bytes [simp]: "wbuf (stream_put_bytes v s) = wbuf s @ v"
  by (simp add: stream_put_bytes_def)

lemma wpos_put_bytes [simp]: "wpos (stream_put_bytes v s) = wpos s"
  by (simp add: stream_put_bytes_def)

text \<open>An integer is read back from any buffer that has its bytes at the cursor.\<close>

lemma stream_get_at [codec_simps]:
  fixes v :: "'a::len word"
  assumes "8 dvd LENGTH('a)" and "stream_ok s"
    and "drop (wpos s) (wbuf s) = obj_bytes v @ rest"
  shows "stream_get old s = Some (v, s\<lparr>wpos := wpos s + LENGTH('a) div 8\<rparr>)"
proof -
  have "length (wbuf s) - wpos s = LENGTH('a) div 8 + length rest"
    using arg_cong [OF assms(3), of length] by simp
  with assms show ?thesis
    by (simp add: stream_get_def stream_read_ok size_of_def obj_val_obj_bytes)
qed

text \<open>
  A string written with its 16-bit length is read back whole, provided what is left of the
  buffer fits the 32-bit count the reader keeps.
\<close>

lemma stream_get_str_at [codec_simps]:
  assumes "stream_ok s" and "length v < 2 ^ 16" and "length (wbuf s) < 2 ^ 32"
    and "drop (wpos s) (wbuf s) = obj_bytes (of_nat (length v) :: u16) @ v @ rest"
  shows "stream_get_str l0 s = Some (v, s\<lparr>wpos := wpos s + 2 + length v\<rparr>)"
proof -
  have len: "length (wbuf s) - wpos s = 2 + length v + length rest"
    using arg_cong [OF assms(4), of length] by simp
  have get: "stream_get l0 s = Some (of_nat (length v), s\<lparr>wpos := wpos s + 2\<rparr>)"
    using stream_get_at [OF _ assms(1,4), of l0] by simp
  have "drop (wpos s + 2) (wbuf s) = v @ rest"
    using arg_cong [OF assms(4), of "drop 2"] by (simp add: add.commute)
  moreover have "(length (wbuf s) - (wpos s + 2)) mod 2 ^ 32 = length v + length rest"
    using len assms(3) by simp
  ultimately show ?thesis
    using assms(2) by (simp add: stream_get_str_eq [OF assms(1)] get Let_def unat_of_nat)
qed

section \<open>Messages\<close>

text \<open>
  A message as the server composes it: header, payload, then the length filled in. Its
  bytes are the 16-bit payload length, the eight address bytes and the payload.
\<close>

definition frame :: "u32 \<Rightarrow> u16 \<Rightarrow> u16 \<Rightarrow> u8 list \<Rightarrow> u8 list" where
  "frame cmd target source p = wbuf (stream_eos (stream_append p (stream_msg cmd target source)))"

lemma wbuf_eos:
  assumes "wbuf s = [a, b] @ tail" and "8 \<le> length tail" and "length tail + 2 < 2 ^ 64"
  shows "wbuf (stream_eos s) = obj_bytes (of_nat (length tail - 8) :: u16) @ tail"
proof -
  have size: "stream_size s = length tail + 2" by (simp add: stream_size_def assms(1))
  have "sub_size (length tail + 2) 10 = length tail + 2 - 10"
    using assms(2,3) by (intro sub_size_le) simp_all
  then have "sub_size (stream_size s) 10 = length tail - 8" using size by simp
  then show ?thesis
    by (simp add: stream_eos_def stream_set_data_def overwrite_def size_of_def assms(1)
        del: of_nat_diff)
qed

lemma frame_eq:
  assumes "length p + 10 < 2 ^ 64"
  shows "frame cmd target source p =
    obj_bytes (of_nat (length p) :: u16) @
    [ucast (drop_bit 24 cmd), ucast (and (drop_bit 16 cmd) 0xFF),
      ucast (and (drop_bit 8 cmd) 0xFF), ucast (and cmd 0xFF),
      ucast (drop_bit 8 target), ucast (and target 0xFF),
      ucast (drop_bit 8 source), ucast (and source 0xFF)] @ p"
    (is "_ = _ @ ?h @ p")
proof -
  have "wbuf (stream_append p (stream_msg cmd target source)) = [0, 0] @ (?h @ p)"
    by (simp add: stream_append_def stream_msg_def)
  from wbuf_eos [OF this] assms show ?thesis by (simp add: frame_def)
qed

lemma length_frame [simp]: "length p + 10 < 2 ^ 64 \<Longrightarrow> length (frame c t s p) = length p + 10"
  by (simp add: frame_eq)

end
