(* ===== verification/Conduit.thy ===== *)
theory Conduit
  imports Msg_Types Wire_Stream
begin

text \<open>
  \<^verbatim>\<open>Network/TcpConduit\<close>, \<^verbatim>\<open>GameClient\<close> and \<^verbatim>\<open>ClientConn\<close>: one connection. The
  receiving side cuts the byte stream of the socket into packets and hands each one to the
  message queue; the sending side buffers and closes. libevent is outside the sources: its
  input buffer is the list of bytes received and not yet consumed, and
  \<^verbatim>\<open>evbuffer_pullup\<close> is a parameter \<open>pull\<close> giving the memory behind the pointer it
  returns.
\<close>

section \<open>Cutting packets\<close>

text \<open>
  Packet layout: two bytes of payload length (host order), four of command, two of target
  and two of source (network order). \<open>mem\<close> is the memory at the pulled-up pointer and \<open>l\<close>
  the number of bytes in the buffer. The results are the returned command and the
  out-parameters \<open>off\<close>, \<open>len\<close>, \<open>target\<close> and \<open>source\<close>; the last two keep their
  values \<open>t0\<close> and \<open>s0\<close> when the packet is incomplete.
\<close>

type_synonym parse_out = "int \<times> nat \<times> nat \<times> int \<times> int"

definition GameClient_parsePacket :: "(nat \<Rightarrow> u8) \<Rightarrow> nat \<Rightarrow> int \<Rightarrow> int \<Rightarrow> parse_out" where
  "GameClient_parsePacket mem l t0 s0 =
     (if l < 10 then (0, 0, 0, t0, s0)
      else
        let len2 = unat (obj_val [mem 0, mem 1] :: u16)
        in if len2 + 10 > l then (0, 0, 0, t0, s0)
           else
             (to_int32 (uint ((push_bit 24 (ucast (mem 2)) + push_bit 16 (ucast (mem 3))
                + push_bit 8 (ucast (mem 4)) + ucast (mem 5)) :: u32)),
              10, len2 + 10,
              push_bit 8 (uint (mem 6)) + uint (mem 7),
              push_bit 8 (uint (mem 8)) + uint (mem 9)))"

definition ClientConn_parsePacket :: "(nat \<Rightarrow> u8) \<Rightarrow> nat \<Rightarrow> int \<Rightarrow> int \<Rightarrow> parse_out" where
  "ClientConn_parsePacket mem l t0 s0 =
     (if l < 10 then (0, 0, 0, t0, s0)
      else
        let len2 = unat (obj_val [mem 0, mem 1] :: u16)
        in if len2 + 10 > l then (0, 0, 0, t0, s0)
           else
             (to_int32 (uint ((push_bit 24 (ucast (mem 2)) + push_bit 16 (ucast (mem 3))
                + push_bit 8 (ucast (mem 4)) + ucast (mem 5)) :: u32)),
              10, len2 + 10,
              push_bit 8 (uint (mem 6)) + uint (mem 7),
              push_bit 8 (uint (mem 8)) + uint (mem 9)))"

section \<open>Connections\<close>

text \<open>
  The classes of connection: one accepted from a client or a peer server (\<^verbatim>\<open>GameClient\<close>)
  and one opened to another server (\<^verbatim>\<open>ClientConn\<close>), which remembers the peer's number
  \<^verbatim>\<open>_ss\<close>.
\<close>

datatype conduit_class = GameClient | ClientConn (conn_ss: int)

datatype client_status = UNVERIFIED | NORMAL

record conduit =
  c_class :: conduit_class
  c_uid :: int
  c_bev :: bool
  c_out :: "u8 list"
  c_write_on :: bool
  c_shut :: bool
  c_pendclose :: bool
  c_status :: client_status
  c_now :: u32
  c_create :: u32
  c_recv :: u32

definition parsePacket ::
    "conduit_class \<Rightarrow> (nat \<Rightarrow> u8) \<Rightarrow> nat \<Rightarrow> int \<Rightarrow> int \<Rightarrow> parse_out" where
  "parsePacket cls mem l t0 s0 =
     (case cls of
        GameClient \<Rightarrow> GameClient_parsePacket mem l t0 s0
      | ClientConn ss \<Rightarrow> ClientConn_parsePacket mem l t0 s0)"

text \<open>
  \<^verbatim>\<open>onRecv\<close> chooses the header a packet is queued with: a client connection's packet is
  relayed when it has a target and does not come from a client (type \<open>0xFF\<close>).
\<close>

definition GameClient_onRecv :: "int \<Rightarrow> int \<Rightarrow> nat \<Rightarrow> int \<Rightarrow> int \<Rightarrow> hdr" where
  "GameClient_onRecv uid cmd len target source =
     (if target > 0 \<and> drop_bit 8 source \<noteq> 0xFF
      then mk_proxy_hdr (word_of_int cmd) PROXY_MSGTYPE (of_nat len) (word_of_int uid) target source
      else mk_client_hdr (word_of_int cmd) CLIENT_MSGTYPE (of_nat len) (word_of_int uid))"

definition ClientConn_onRecv :: "int \<Rightarrow> int \<Rightarrow> nat \<Rightarrow> int \<Rightarrow> int \<Rightarrow> hdr" where
  "ClientConn_onRecv uid cmd len target source =
     mk_proxy_hdr (word_of_int cmd) SERVER_MSGTYPE (of_nat len) (word_of_int uid) target source"

definition onRecv :: "conduit_class \<Rightarrow> int \<Rightarrow> int \<Rightarrow> nat \<Rightarrow> int \<Rightarrow> int \<Rightarrow> hdr" where
  "onRecv cls uid cmd len target source =
     (case cls of
        GameClient \<Rightarrow> GameClient_onRecv uid cmd len target source
      | ClientConn ss \<Rightarrow> ClientConn_onRecv uid cmd len target source)"

section \<open>The read callback\<close>

lemma parsePacket_len:
  "parsePacket cls mem l t0 s0 = (cmd, off, len, t, s) \<Longrightarrow>
     len = 0 \<and> off = 0 \<and> cmd = 0 \<or> off = 10 \<and> 10 \<le> len \<and> len \<le> l"
  by (cases cls)
    (auto simp: parsePacket_def GameClient_parsePacket_def ClientConn_parsePacket_def Let_def
      split: if_splits)

text \<open>
  \<^verbatim>\<open>TcpConduit::on_read\<close>. The result is the list of messages pushed, the bytes left in the
  buffer and whether the connection was forcibly closed. \<open>alloc n\<close> says whether the
  \<^verbatim>\<open>new(std::nothrow)\<close> made with \<open>n\<close> bytes in the buffer succeeds; where it fails the
  packet is drained unread.
\<close>

function on_read ::
    "conduit_class \<Rightarrow> (u8 list \<Rightarrow> nat \<Rightarrow> nat \<Rightarrow> u8) \<Rightarrow> (nat \<Rightarrow> bool) \<Rightarrow> int \<Rightarrow> u8 list
      \<Rightarrow> (hdr \<times> u8 list) list \<times> u8 list \<times> bool" where
  "on_read cls pull alloc uid buffer =
     (case parsePacket cls (pull buffer 8) (length buffer) 0 0 of
        (cmd, off, len, target, source) \<Rightarrow>
          if cmd < 0 then ([], buffer, True)
          else if len \<le> 0 then ([], buffer, False)
          else
            (case on_read cls pull alloc uid (drop len buffer) of
               (ms, buffer', closed) \<Rightarrow>
                 (if alloc (length buffer)
                  then ((onRecv cls uid cmd (len - off) target source,
                         drop off (take len buffer)) # ms, buffer', closed)
                  else (ms, buffer', closed))))"
  by pat_completeness auto
termination
  by (relation "measure (\<lambda>(cls, pull, alloc, uid, buffer). length buffer)")
    (auto dest: parsePacket_len [OF sym])

declare on_read.simps [simp del]

section \<open>Sending and closing\<close>

text \<open>What a closing connection asks of the server that holds it.\<close>

datatype host_call = CallLostConnection int | CallRemove int

text \<open>\<^verbatim>\<open>send\<close>: \<^verbatim>\<open>bufferevent_write\<close> appends to the output buffer.\<close>

definition conduit_send :: "u8 list \<Rightarrow> conduit \<Rightarrow> conduit" where
  "conduit_send bs c = (if \<not> c_bev c then c else c\<lparr>c_out := c_out c @ bs\<rparr>)"

definition closeConn :: "conduit \<Rightarrow> conduit" where
  "closeConn c = c\<lparr>c_write_on := False, c_shut := True\<rparr>"

definition onDisconnected :: "conduit \<Rightarrow> host_call list" where
  "onDisconnected c =
     (case c_class c of GameClient \<Rightarrow> [] | ClientConn ss \<Rightarrow> [CallLostConnection ss])"

definition forceClose :: "conduit \<Rightarrow> conduit \<times> host_call list" where
  "forceClose c = (c\<lparr>c_write_on := False\<rparr>, onDisconnected c @ [CallRemove (c_uid c)])"

definition pendClose :: "conduit \<Rightarrow> conduit" where
  "pendClose c =
     (if c_out c = [] then closeConn (c\<lparr>c_pendclose := False\<rparr>)
      else c\<lparr>c_pendclose := True\<rparr>)"

definition on_write :: "conduit \<Rightarrow> conduit" where
  "on_write c =
     (if c_pendclose c
      then if c_out c \<noteq> [] then c
           else closeConn (c\<lparr>c_pendclose := False\<rparr>)
      else c)"

text \<open>\<^verbatim>\<open>on_event\<close>: \<open>wht\<close> has one of the end-of-file, error and timeout bits.\<close>

definition BEV_CLOSING :: int where
  "BEV_CLOSING = 0x10 + 0x20 + 0x40"

definition on_event :: "int \<Rightarrow> conduit \<Rightarrow> conduit \<times> host_call list" where
  "on_event wht c = (if and wht BEV_CLOSING > 0 then forceClose c else (c, []))"

text \<open>
  The socket takes some of the pending output; this is the event loop's step, after which
  it calls the write callback once the buffer is empty.
\<close>

definition socket_accepts :: "nat \<Rightarrow> conduit \<Rightarrow> u8 list \<times> conduit" where
  "socket_accepts n c =
     (if c_write_on c \<and> \<not> c_shut c
      then (take n (c_out c),
            (let c' = c\<lparr>c_out := drop n (c_out c)\<rparr>
             in if c_out c' = [] then on_write c' else c'))
      else ([], c))"

text \<open>\<^verbatim>\<open>GameClient::OnTick\<close>: both timeouts are computed, but the closing is commented out.\<close>

definition VERIFY_TIMEOUT :: u32 where "VERIFY_TIMEOUT = 120"
definition HEARTBEAT_TIMEOUT :: u32 where "HEARTBEAT_TIMEOUT = 180"

definition OnTick :: "u32 \<Rightarrow> conduit \<Rightarrow> conduit" where
  "OnTick now c =
     (case c_class c of
        ClientConn ss \<Rightarrow> c
      | GameClient \<Rightarrow>
          (let c' = c\<lparr>c_now := now\<rparr>
           in if c_status c' = UNVERIFIED
              then (if c_now c' > c_create c' + VERIFY_TIMEOUT then c' else c')
              else (if c_now c' > c_recv c' + HEARTBEAT_TIMEOUT then c' else c')))"

text \<open>The constructors; \<open>t\<close> is the time read for a new client connection.\<close>

definition new_conduit :: "conduit_class \<Rightarrow> int \<Rightarrow> u32 \<Rightarrow> conduit" where
  "new_conduit cls uid t =
     \<lparr>c_class = cls, c_uid = uid, c_bev = True, c_out = [], c_write_on = True, c_shut = False,
      c_pendclose = False, c_status = UNVERIFIED, c_now = t, c_create = t, c_recv = t\<rparr>"

definition conduit_active :: "conduit \<Rightarrow> bool" where
  "conduit_active c = (case c_class c of GameClient \<Rightarrow> True | ClientConn ss \<Rightarrow> False)"

section \<open>What the parser sees\<close>

text \<open>
  libevent documents that \<^verbatim>\<open>evbuffer_pullup(buf, n)\<close> makes the first \<open>n\<close> bytes
  contiguous, so that the memory at the pointer agrees with the buffer below \<open>n\<close>. Nothing
  is promised at and beyond \<open>n\<close>. The code pulls up 8 bytes.
\<close>

definition pulled :: "nat \<Rightarrow> (u8 list \<Rightarrow> nat \<Rightarrow> nat \<Rightarrow> u8) \<Rightarrow> u8 list \<Rightarrow> bool" where
  "pulled n pull b \<longleftrightarrow> (\<forall>i < n. i < length b \<longrightarrow> pull b 8 i = b ! i)"

lemma pulledD: "pulled n pull b \<Longrightarrow> i < n \<Longrightarrow> i < length b \<Longrightarrow> pull b 8 i = b ! i"
  by (simp add: pulled_def)

lemma pulled_mono: "pulled n pull b \<Longrightarrow> m \<le> n \<Longrightarrow> pulled m pull b"
  by (simp add: pulled_def)

lemma parsePacket_eq:
  "parsePacket cls mem l t0 s0 = GameClient_parsePacket mem l t0 s0"
  by (simp add: parsePacket_def GameClient_parsePacket_def ClientConn_parsePacket_def
      split: conduit_class.split)

lemmas parse_defs = parsePacket_eq GameClient_parsePacket_def

lemma parsePacket_cong:
  assumes "\<And>i. i < 10 \<Longrightarrow> mem i = mem' i"
  shows "parsePacket cls mem l t0 s0 = parsePacket cls mem' l t0 s0"
  using assms by (simp add: parse_defs Let_def)

text \<open>A complete packet is parsed the same when more bytes have arrived behind it.\<close>

lemma parsePacket_more:
  assumes "parsePacket cls mem l t0 s0 = (cmd, off, len, t, s)" and "0 < len" and "l \<le> l'"
  shows "parsePacket cls mem l' t0 s0 = (cmd, off, len, t, s)"
  using assms by (auto simp: parse_defs Let_def split: if_splits)

lemma parsePacket_append:
  assumes "parsePacket cls (pull b 8) (length b) t0 s0 = (cmd, off, len, t, s)" and "0 < len"
    and "pulled 10 pull b" and "pulled 10 pull (b @ b')"
  shows "parsePacket cls (pull (b @ b') 8) (length (b @ b')) t0 s0 = (cmd, off, len, t, s)"
proof -
  have "10 \<le> length b" using parsePacket_len [OF assms(1)] assms(2) by auto
  then have "pull (b @ b') 8 i = pull b 8 i" if "i < 10" for i
    using pulledD [OF assms(3), of i] pulledD [OF assms(4), of i] that by (simp add: nth_append)
  then have "parsePacket cls (pull (b @ b') 8) (length (b @ b')) t0 s0
      = parsePacket cls (pull b 8) (length (b @ b')) t0 s0"
    by (rule parsePacket_cong)
  also have "\<dots> = (cmd, off, len, t, s)"
    using assms(1,2) by (rule parsePacket_more) simp
  finally show ?thesis .
qed

text \<open>
  The source that is read: the two bytes behind what was asked to be contiguous.
\<close>

definition seen_source :: "(u8 list \<Rightarrow> nat \<Rightarrow> nat \<Rightarrow> u8) \<Rightarrow> u8 list \<Rightarrow> u16" where
  "seen_source pull b = push_bit 8 (ucast (pull b 8 8)) + ucast (pull b 8 9)"

lemma uint_seen_source: "uint (seen_source pull b) = push_bit 8 (uint (pull b 8 8)) + uint (pull b 8 9)"
proof -
  have "uint (push_bit 8 (ucast x :: u16) + ucast y) = push_bit 8 (uint x) + uint y" for x y :: u8
  proof -
    have l: "uint x < 256" "uint y < 256" "0 \<le> uint x" "0 \<le> uint y"
      using uint_lt2p [of x] uint_lt2p [of y] by simp_all
    have "uint (ucast x :: u16) = uint x" "uint (ucast y :: u16) = uint y"
      using l by (simp_all add: unsigned_ucast_eq take_bit_eq_mod)
    then show ?thesis using l by (simp add: push_bit_eq_mult uint_word_ariths mod_simps)
  qed
  then show ?thesis by (simp add: seen_source_def)
qed

lemma parsePacket_frame:
  assumes "length p < 2 ^ 16" and "pulled 8 pull (frame cmd t s p @ rest)"
  shows "parsePacket cls (pull (frame cmd t s p @ rest) 8) (length (frame cmd t s p @ rest)) t0 s0
    = (to_int32 (uint cmd), 10, length p + 10, uint t, uint (seen_source pull (frame cmd t s p @ rest)))"
proof -
  let ?b = "frame cmd t s p @ rest"
  let ?bytes = "obj_bytes (of_nat (length p) :: u16)"
  have lp: "length p + 10 < 2 ^ 64" using assms(1) by simp
  obtain x y where xy: "?bytes = [x, y]" by (simp add: obj_bytes_u16)
  have b: "?b = [x, y, ucast (drop_bit 24 cmd), ucast (and (drop_bit 16 cmd) 0xFF),
      ucast (and (drop_bit 8 cmd) 0xFF), ucast (and cmd 0xFF),
      ucast (drop_bit 8 t), ucast (and t 0xFF),
      ucast (drop_bit 8 s), ucast (and s 0xFF)] @ p @ rest"
    by (simp add: frame_eq [OF lp] xy)
  have mem: "pull ?b 8 i = ?b ! i" if "i < 8" for i
    using pulledD [OF assms(2) that] that by (simp add: length_frame [OF lp])
  then have m: "pull ?b 8 0 = x" "pull ?b 8 1 = y" "pull ?b 8 2 = ucast (drop_bit 24 cmd)"
    "pull ?b 8 3 = ucast (and (drop_bit 16 cmd) 0xFF)" "pull ?b 8 4 = ucast (and (drop_bit 8 cmd) 0xFF)"
    "pull ?b 8 5 = ucast (and cmd 0xFF)" "pull ?b 8 6 = ucast (drop_bit 8 t)" "pull ?b 8 7 = ucast (and t 0xFF)"
    using mem [of 0] mem [of 1] mem [of 2] mem [of 3] mem [of 4] mem [of 5] mem [of 6] mem [of 7]
    unfolding b by simp_all
  have "obj_val [x, y] = (of_nat (length p) :: u16)"
    using obj_val_obj_bytes [of "of_nat (length p) :: u16"] xy by simp
  then have len2: "unat (obj_val [x, y] :: u16) = length p"
    using assms(1) by (simp add: unat_of_nat)
  have len: "length ?b = length p + 10 + length rest" by (simp add: length_frame [OF lp])
  show ?thesis
    unfolding parse_defs Let_def m len uint_seen_source by (simp add: len2 be16_join be32_join)
qed

lemma seen_source_exact:
  assumes "length p < 2 ^ 16" and "pulled 10 pull (frame cmd t s p @ rest)"
  shows "seen_source pull (frame cmd t s p @ rest) = s"
proof -
  have lp: "length p + 10 < 2 ^ 64" using assms(1) by simp
  obtain x y where xy: "obj_bytes (of_nat (length p) :: u16) = [x, y]" by (simp add: obj_bytes_u16)
  have "pull (frame cmd t s p @ rest) 8 i = (frame cmd t s p @ rest) ! i" if "i < 10" for i
    using pulledD [OF assms(2) that] that by (simp add: length_frame [OF lp])
  from this [of 8] this [of 9]
  have "pull (frame cmd t s p @ rest) 8 8 = ucast (drop_bit 8 s)"
    "pull (frame cmd t s p @ rest) 8 9 = ucast (and s 0xFF)" by (simp_all add: frame_eq [OF lp] xy)
  then have "uint (seen_source pull (frame cmd t s p @ rest)) = uint s"
    by (simp only: uint_seen_source be16_join)
  then show ?thesis by (rule word_uint_eq_iff [THEN iffD2])
qed

section \<open>The read loop\<close>

text \<open>One turn of the loop, in the three ways it can go.\<close>

lemma on_read_incomplete:
  "parsePacket cls (pull b 8) (length b) 0 0 = (0, 0, 0, t, s) \<Longrightarrow>
     on_read cls pull alloc uid b = ([], b, False)"
  by (subst on_read.simps) simp

lemma on_read_negative:
  "parsePacket cls (pull b 8) (length b) 0 0 = (cmd, off, len, t, s) \<Longrightarrow> cmd < 0 \<Longrightarrow>
     on_read cls pull alloc uid b = ([], b, True)"
  by (subst on_read.simps) simp

lemma on_read_packet:
  "parsePacket cls (pull b 8) (length b) 0 0 = (cmd, off, len, t, s) \<Longrightarrow> 0 \<le> cmd \<Longrightarrow> 0 < len \<Longrightarrow>
     on_read cls pull alloc uid b =
       (case on_read cls pull alloc uid (drop len b) of (ms, b', closed) \<Rightarrow>
          ((if alloc (length b)
            then [(onRecv cls uid cmd (len - off) t s, drop off (take len b))] else []) @ ms,
           b', closed))"
  by (subst on_read.simps) (simp split: prod.split)

text \<open>
  How the sender's bytes arrive does not matter: reading a prefix and later what is left of
  it together with the rest gives the messages of the whole.
\<close>

lemma on_read_append:
  assumes "\<And>b. pulled 10 pull b" and "on_read cls pull (\<lambda>_. True) uid b = (ms, r, False)"
  shows "on_read cls pull (\<lambda>_. True) uid (b @ b') =
    (case on_read cls pull (\<lambda>_. True) uid (r @ b') of (ms', r', closed) \<Rightarrow> (ms @ ms', r', closed))"
  using assms(2)
proof (induction "length b" arbitrary: b ms rule: less_induct)
  case less
  obtain cmd off len t s where
    parse: "parsePacket cls (pull b 8) (length b) 0 0 = (cmd, off, len, t, s)"
    by (metis prod_cases5)
  note len = parsePacket_len [OF parse]
  have "\<not> cmd < 0"
    using less.prems
      on_read_negative [where cls = cls and pull = pull and b = b, OF parse] by auto
  show ?case
  proof (cases "len = 0")
    case True
    with len parse have "on_read cls pull (\<lambda>_. True) uid b = ([], b, False)"
      by (intro on_read_incomplete) auto
    with less.prems show ?thesis by (simp split: prod.split)
  next
    case False
    then have pos: "0 < len" and le: "len \<le> length b" using len by auto
    obtain ms1 where
      rec: "on_read cls pull (\<lambda>_. True) uid (drop len b) = (ms1, r, False)" and
      ms: "ms = (onRecv cls uid cmd (len - off) t s, drop off (take len b)) # ms1"
      using less.prems \<open>\<not> cmd < 0\<close> pos on_read_packet [where cls = cls and pull = pull and b = b,
        OF parse, of "\<lambda>_. True" uid]
      by (auto split: prod.splits)
    have "length (drop len b) < length b" using pos le by simp
    from less.hyps [OF this rec]
    have IH: "on_read cls pull (\<lambda>_. True) uid (drop len b @ b') =
      (case on_read cls pull (\<lambda>_. True) uid (r @ b') of (ms', r', closed) \<Rightarrow> (ms1 @ ms', r', closed))" .
    have "parsePacket cls (pull (b @ b') 8) (length (b @ b')) 0 0 = (cmd, off, len, t, s)"
      by (rule parsePacket_append [OF parse pos assms(1) assms(1)])
    from on_read_packet [where cls = cls and pull = pull and b = "b @ b'", OF this _ pos] \<open>\<not> cmd < 0\<close> le
    show ?thesis by (simp add: IH ms split: prod.split)
  qed
qed

text \<open>A whole number of messages at the front of the buffer is delivered in order.\<close>

type_synonym message = "u32 \<times> u16 \<times> u16 \<times> u8 list"

definition frame_of :: "message \<Rightarrow> u8 list" where
  "frame_of m = (case m of (cmd, t, s, p) \<Rightarrow> frame cmd t s p)"

lemma frame_of_tuple: "frame_of (cmd, t, s, p) = frame cmd t s p"
  by (simp add: frame_of_def)

definition delivered :: "conduit_class \<Rightarrow> int \<Rightarrow> message \<Rightarrow> hdr \<times> u8 list" where
  "delivered cls uid m =
     (case m of (cmd, t, s, p) \<Rightarrow>
        (onRecv cls uid (to_int32 (uint cmd)) (length p) (uint t) (uint s), p))"

definition sendable :: "message \<Rightarrow> bool" where
  "sendable m = (case m of (cmd, t, s, p) \<Rightarrow> cmd < 2 ^ 31 \<and> length p < 2 ^ 16)"

lemma to_int32_nonneg: "(cmd :: u32) < 2 ^ 31 \<Longrightarrow> to_int32 (uint cmd) = uint cmd"
proof (rule to_int32_id)
  have "0 \<le> uint cmd" by simp
  from order_trans [OF _ this] show "- (2 ^ 31) \<le> uint cmd" by simp
qed (simp add: word_less_def)

lemma on_read_frame:
  assumes "sendable (cmd, t, s, p)" and "\<And>b. pulled 8 pull b"
  shows "on_read cls pull alloc uid (frame cmd t s p @ rest) =
    (case on_read cls pull alloc uid rest of (ms, r, closed) \<Rightarrow>
       ((if alloc (length (frame cmd t s p @ rest))
         then [delivered cls uid (cmd, t, seen_source pull (frame cmd t s p @ rest), p)] else []) @ ms, r, closed))"
proof -
  from assms(1) have cmd: "cmd < 2 ^ 31" and p: "length p < 2 ^ 16" by (auto simp: sendable_def)
  have lp: "length p + 10 < 2 ^ 64" using p by simp
  note parse = parsePacket_frame [OF p assms(2), of cls cmd t s rest 0 0]
  obtain pre where pre: "frame cmd t s p = pre @ p" "length pre = 10"
    using frame_eq [OF lp] by (auto simp: obj_bytes_u16)
  have "0 \<le> to_int32 (uint cmd)" by (simp add: to_int32_nonneg [OF cmd])
  from on_read_packet [where cls = cls and pull = pull and b = "frame cmd t s p @ rest",
      OF parse this, of alloc uid] show ?thesis
    by (simp add: delivered_def pre)
qed

text \<open>
  The messages that are taken out of a buffer of complete ones with \<open>rest\<close> behind: those
  for which there is memory, each with the source that is read for it.
\<close>

fun taken :: "(u8 list \<Rightarrow> nat \<Rightarrow> nat \<Rightarrow> u8) \<Rightarrow> (nat \<Rightarrow> bool) \<Rightarrow> u8 list \<Rightarrow> message list \<Rightarrow> message list" where
  "taken pull alloc rest [] = []"
| "taken pull alloc rest ((cmd, t, s, p) # msgs) =
     (let b = concat (map frame_of ((cmd, t, s, p) # msgs)) @ rest
      in (if alloc (length b) then [(cmd, t, seen_source pull b, p)] else []) @ taken pull alloc rest msgs)"

lemma on_read_frames:
  assumes "\<forall>m \<in> set msgs. sendable m" and "\<And>b. pulled 8 pull b"
  shows "on_read cls pull alloc uid (concat (map frame_of msgs) @ rest) =
    (case on_read cls pull alloc uid rest of (ms, r, closed) \<Rightarrow>
       (map (delivered cls uid) (taken pull alloc rest msgs) @ ms, r, closed))"
  using assms(1)
proof (induction msgs)
  case Nil
  then show ?case by (simp split: prod.split)
next
  case (Cons m msgs)
  obtain cmd t s p where m: "m = (cmd, t, s, p)" by (metis prod_cases4)
  then have "sendable (cmd, t, s, p)" using Cons.prems by simp
  from on_read_frame [OF this assms(2), of cls alloc uid "concat (map frame_of msgs) @ rest"] Cons
  show ?case by (simp add: m frame_of_tuple Let_def add.assoc split: prod.split)
qed

lemma taken_sendable:
  "(\<forall>m \<in> set (taken pull (\<lambda>_. True) rest msgs). sendable m) \<longleftrightarrow> (\<forall>m \<in> set msgs. sendable m)"
  by (induction msgs) (auto simp: sendable_def Let_def)

lemma taken_exact:
  assumes "\<forall>m \<in> set msgs. sendable m" and "\<And>b. pulled 10 pull b"
  shows "taken pull (\<lambda>_. True) rest msgs = msgs"
  using assms(1)
  by (induction msgs) (auto simp: Let_def frame_of_def sendable_def seen_source_exact assms(2))

lemma taken_rest: "map (\<lambda>(cmd, t, s, p). (cmd, t, p)) (taken pull (\<lambda>_. True) rest msgs) = map (\<lambda>(cmd, t, s, p). (cmd, t, p)) msgs"
  by (induction msgs) (auto simp: Let_def)

section \<open>Arrival in pieces\<close>

lemma on_read_closed_append:
  assumes "\<And>b. pulled 10 pull b" and "on_read cls pull (\<lambda>_. True) uid b = (ms, r, True)"
  shows "on_read cls pull (\<lambda>_. True) uid (b @ b') = (ms, r @ b', True)"
  using assms(2)
proof (induction "length b" arbitrary: b ms rule: less_induct)
  case less
  obtain cmd off len t s where
    parse: "parsePacket cls (pull b 8) (length b) 0 0 = (cmd, off, len, t, s)"
    by (metis prod_cases5)
  note len = parsePacket_len [OF parse]
  have pos: "0 < len"
  proof (rule ccontr)
    assume "\<not> 0 < len"
    with len parse have "on_read cls pull (\<lambda>_. True) uid b = ([], b, False)"
      by (intro on_read_incomplete) auto
    with less.prems show False by simp
  qed
  then have le: "len \<le> length b" using len by auto
  have parse': "parsePacket cls (pull (b @ b') 8) (length (b @ b')) 0 0 = (cmd, off, len, t, s)"
    by (rule parsePacket_append [OF parse pos assms(1) assms(1)])
  show ?case
  proof (cases "cmd < 0")
    case True
    with less.prems on_read_negative [where cls = cls and pull = pull and b = b, OF parse]
      on_read_negative [where cls = cls and pull = pull and b = "b @ b'", OF parse'] show ?thesis
      by auto
  next
    case False
    then have nn: "0 \<le> cmd" by simp
    obtain ms1 where
      rec: "on_read cls pull (\<lambda>_. True) uid (drop len b) = (ms1, r, True)" and
      ms: "ms = (onRecv cls uid cmd (len - off) t s, drop off (take len b)) # ms1"
      using less.prems pos on_read_packet [where cls = cls and pull = pull and b = b,
        OF parse nn, of "\<lambda>_. True" uid]
      by (auto split: prod.splits)
    have "length (drop len b) < length b" using pos le by simp
    from less.hyps [OF this rec]
    have IH: "on_read cls pull (\<lambda>_. True) uid (drop len b @ b') = (ms1, r @ b', True)" .
    from on_read_packet [where cls = cls and pull = pull and b = "b @ b'", OF parse' nn pos] le
    show ?thesis by (simp add: IH ms)
  qed
qed

text \<open>
  The bytes of a connection arrive in pieces; each arrival runs the read callback on what
  was left with the new bytes behind it, until the connection is closed. Each time the memory behind
  the pointer may be another.
\<close>

fun feed ::
    "conduit_class \<Rightarrow> int \<Rightarrow> u8 list \<Rightarrow> ((u8 list \<Rightarrow> nat \<Rightarrow> nat \<Rightarrow> u8) \<times> u8 list) list
      \<Rightarrow> (hdr \<times> u8 list) list \<times> u8 list \<times> bool" where
  "feed cls uid b [] = ([], b, False)"
| "feed cls uid b ((pull, c) # cs) =
     (case on_read cls pull (\<lambda>_. True) uid (b @ c) of
        (ms, r, closed) \<Rightarrow>
          if closed then (ms, r @ concat (map snd cs), True)
          else (case feed cls uid r cs of (ms', r', closed') \<Rightarrow> (ms @ ms', r', closed')))"

text \<open>The buffer in one piece.\<close>

definition whole_buffer :: "u8 list \<Rightarrow> nat \<Rightarrow> nat \<Rightarrow> u8" where
  "whole_buffer b n i = b ! i"

lemma pulled_whole: "pulled n whole_buffer b"
  by (simp add: pulled_def whole_buffer_def)

text \<open>Two deliveries that are the same but for the source address.\<close>

definition but_source :: "conduit_class \<Rightarrow> int \<Rightarrow> hdr \<times> u8 list \<Rightarrow> hdr \<times> u8 list \<Rightarrow> bool" where
  "but_source cls uid x y \<longleftrightarrow>
     (\<exists>cmd len t s s' p. x = (onRecv cls uid cmd len t s, p) \<and> y = (onRecv cls uid cmd len t s', p))"

lemma parse_but_source:
  assumes "pulled 8 pull b" and "parsePacket cls (whole_buffer b 8) (length b) t0 s0 = (cmd, off, len, t, s)"
  shows "\<exists>s'. parsePacket cls (pull b 8) (length b) t0 s0 = (cmd, off, len, t, s')"
proof (cases "length b < 10")
  case False
  then have "pull b 8 i = whole_buffer b 8 i" if "i < 8" for i
    using pulledD [OF assms(1) that] that by (simp add: whole_buffer_def)
  then show ?thesis using assms(2) by (auto simp: parse_defs Let_def split: if_splits)
qed (use assms(2) in \<open>simp add: parse_defs\<close>)

lemma on_read_but_source:
  assumes "\<And>b. pulled 8 pull b" and "on_read cls whole_buffer (\<lambda>_. True) uid b = (ms, r, closed)"
  shows "\<exists>ms'. on_read cls pull (\<lambda>_. True) uid b = (ms', r, closed) \<and> list_all2 (but_source cls uid) ms' ms"
  using assms(2)
proof (induction "length b" arbitrary: b ms rule: less_induct)
  case less
  obtain cmd off len t s where
    parse: "parsePacket cls (whole_buffer b 8) (length b) 0 0 = (cmd, off, len, t, s)" by (metis prod_cases5)
  obtain s' where parse': "parsePacket cls (pull b 8) (length b) 0 0 = (cmd, off, len, t, s')"
    using parse_but_source [OF assms(1) parse] by blast
  note len = parsePacket_len [OF parse]
  consider "len = 0" | "0 < len" "cmd < 0" | "0 < len" "0 \<le> cmd" by linarith
  then show ?case
  proof cases
    case 1
    then have "off = 0" "cmd = 0" using len by auto
    then show ?thesis
      using less.prems 1 on_read_incomplete [where pull = pull and b = b and cls = cls] parse'
        on_read_incomplete [where pull = whole_buffer and b = b and cls = cls] parse by auto
  next
    case 2
    then show ?thesis
      using less.prems on_read_negative [where pull = pull and b = b, OF parse']
        on_read_negative [where pull = whole_buffer and b = b, OF parse] by auto
  next
    case 3
    obtain ms1 where rec: "on_read cls whole_buffer (\<lambda>_. True) uid (drop len b) = (ms1, r, closed)"
      and ms: "ms = (onRecv cls uid cmd (len - off) t s, drop off (take len b)) # ms1"
      using less.prems 3 on_read_packet [where cls = cls and pull = whole_buffer and b = b, OF parse, of "\<lambda>_. True" uid]
      by (auto split: prod.splits)
    have "length (drop len b) < length b" using 3 len by auto
    from less.hyps [OF this rec] obtain ms2 where
      "on_read cls pull (\<lambda>_. True) uid (drop len b) = (ms2, r, closed)" "list_all2 (but_source cls uid) ms2 ms1" by blast
    then show ?thesis
      using on_read_packet [where cls = cls and pull = pull and b = b, OF parse', of "\<lambda>_. True" uid] 3 ms
      by (auto simp: but_source_def)
  qed
qed

lemma on_read_same:
  assumes "\<And>b. pulled 10 pull b"
  shows "on_read cls pull (\<lambda>_. True) uid b = on_read cls whole_buffer (\<lambda>_. True) uid b"
proof (induction "length b" arbitrary: b rule: less_induct)
  case less
  have "parsePacket cls (pull b 8) (length b) 0 0 = parsePacket cls (whole_buffer b 8) (length b) 0 0"
  proof (cases "length b < 10")
    case False
    then show ?thesis using assms [of b] by (intro parsePacket_cong) (simp add: pulled_def whole_buffer_def)
  qed (simp add: parse_defs)
  moreover obtain cmd off len t s where
    parse: "parsePacket cls (whole_buffer b 8) (length b) 0 0 = (cmd, off, len, t, s)" by (metis prod_cases5)
  moreover have "0 < len \<Longrightarrow> on_read cls pull (\<lambda>_. True) uid (drop len b) = on_read cls whole_buffer (\<lambda>_. True) uid (drop len b)"
    using parsePacket_len [OF parse] by (intro less) auto
  ultimately show ?case
    by (subst (1 2) on_read.simps) (simp split: prod.split)
qed

lemma feed_whole:
  assumes "\<forall>(pull, c) \<in> set cs. \<forall>b. pulled 8 pull b"
    and "feed cls uid b (map (\<lambda>x. (whole_buffer, snd x)) cs) = (ms, r, closed)"
  shows "\<exists>ms'. feed cls uid b cs = (ms', r, closed) \<and> list_all2 (but_source cls uid) ms' ms \<and>
    ((\<forall>(pull, c) \<in> set cs. \<forall>b. pulled 10 pull b) \<longrightarrow> ms' = ms)"
  using assms
proof (induction cs arbitrary: b ms)
  case (Cons x cs)
  obtain pull c where x: "x = (pull, c)" by force
  obtain ms1 r1 closed1 where rd: "on_read cls whole_buffer (\<lambda>_. True) uid (b @ c) = (ms1, r1, closed1)" by (metis prod_cases3)
  have p: "pulled 8 pull b" for b using Cons.prems(1) x by simp
  obtain ms1' where rd': "on_read cls pull (\<lambda>_. True) uid (b @ c) = (ms1', r1, closed1)"
    "list_all2 (but_source cls uid) ms1' ms1" using on_read_but_source [OF p rd] by blast
  have same: "ms1' = ms1" if "\<forall>b. pulled 10 pull b" using on_read_same [of pull cls uid "b @ c"] that rd rd'(1) by simp
  show ?case
  proof (cases closed1)
    case True
    then show ?thesis using Cons.prems(2) x rd rd' same by (auto simp: comp_def)
  next
    case False
    obtain ms2 where f: "feed cls uid r1 (map (\<lambda>x. (whole_buffer, snd x)) cs) = (ms2, r, closed)" "ms = ms1 @ ms2"
      using Cons.prems(2) x rd False by (auto split: prod.splits)
    have "\<forall>(pull, c) \<in> set cs. \<forall>b. pulled 8 pull b" using Cons.prems(1) by simp
    from Cons.IH [OF this f(1)] obtain ms2' where
      "feed cls uid r1 cs = (ms2', r, closed)" "list_all2 (but_source cls uid) ms2' ms2"
      "(\<forall>(pull, c) \<in> set cs. \<forall>b. pulled 10 pull b) \<longrightarrow> ms2' = ms2" by blast
    then show ?thesis using x rd' False f(2) same by (auto intro: list_all2_appendI)
  qed
qed simp

lemma feed_on_read:
  "cs \<noteq> [] \<Longrightarrow> feed cls uid b (map (Pair whole_buffer) cs) = on_read cls whole_buffer (\<lambda>_. True) uid (b @ concat cs)"
proof (induction cs arbitrary: b)
  case Nil
  then show ?case by simp
next
  case (Cons c cs)
  obtain ms r closed where rd: "on_read cls whole_buffer (\<lambda>_. True) uid (b @ c) = (ms, r, closed)"
    by (metis prod_cases3)
  have m: "concat (map snd (map (Pair whole_buffer) cs)) = concat cs" by (simp add: comp_def)
  show ?case
  proof (cases closed)
    case True
    with rd on_read_closed_append [OF pulled_whole, of cls uid "b @ c" ms r "concat cs"] m
    show ?thesis by (simp add: comp_def)
  next
    case False
    note app = on_read_append [OF pulled_whole, of cls uid "b @ c" ms r "concat cs"]
    show ?thesis
    proof (cases "cs = []")
      case True
      have "on_read cls whole_buffer (\<lambda>_. True) uid r = ([], r, False)"
        using app rd \<open>\<not> closed\<close> True on_read_append [OF pulled_whole, of cls uid "b @ c" ms r "[]"]
        by (auto split: prod.splits)
      with rd False True show ?thesis by simp
    next
      case ne: False
      with Cons.IH [OF ne] rd False app show ?thesis by simp
    qed
  qed
qed

section \<open>Properties\<close>


definition short_pull :: "u8 list \<Rightarrow> nat \<Rightarrow> nat \<Rightarrow> u8" where
  "short_pull b n i = (if i < n then b ! i else 0)"


text \<open>
  C3: With what libevent documents about \<^verbatim>\<open>evbuffer_pullup\<close>, the packet cutter takes messages with
  commands below \<open>2 ^ 31\<close> and payloads below \<open>2 ^ 16\<close> bytes out of the stream in order, each with its command,
  target and payload, drops those for which there is no memory, and leaves an incomplete message in the buffer.
  The source is what lies in the two bytes behind the eight that it asks for: the source that was sent, if
  they are contiguous with them.
\<close>

theorem messages_received:
  assumes "\<forall>m \<in> set msgs. sendable m" and "sendable m" and "\<And>b. pulled 8 pull b"
    and "n < length (frame_of m)"
  shows "on_read cls pull alloc uid (concat (map frame_of msgs) @ take n (frame_of m))
      = (map (delivered cls uid) (taken pull alloc (take n (frame_of m)) msgs), take n (frame_of m), False) \<and>
    ((\<forall>k. alloc k) \<longrightarrow> map (\<lambda>(cmd, t, s, p). (cmd, t, p)) (taken pull alloc (take n (frame_of m)) msgs)
      = map (\<lambda>(cmd, t, s, p). (cmd, t, p)) msgs) \<and>
    ((\<forall>k. alloc k) \<and> (\<forall>b. pulled 10 pull b) \<longrightarrow> taken pull alloc (take n (frame_of m)) msgs = msgs)"
proof -
  obtain cmd t s p where m: "m = (cmd, t, s, p)" by (metis prod_cases4)
  have p: "length p < 2 ^ 16" "length p + 10 < 2 ^ 64" using assms(2) by (auto simp: sendable_def m)
  let ?b = "take n (frame_of m)"
  have len: "length (frame_of m) = length p + 10" using p(2) by (simp add: frame_of_def m)
  have "\<exists>a c. parsePacket cls (pull ?b 8) (length ?b) 0 0 = (0, 0, 0, a, c)"
  proof (cases "n < 10")
    case True
    then show ?thesis using assms(4) by (simp add: parse_defs)
  next
    case False
    have "pull ?b 8 i = frame_of m ! i" if "i < 8" for i
      using pulledD [OF assms(3), of i ?b] that False assms(4) by simp
    then have e: "pull ?b 8 0 = frame_of m ! 0" "pull ?b 8 1 = frame_of m ! 1" by simp_all
    obtain x y where xy: "obj_bytes (of_nat (length p) :: u16) = [x, y]" by (simp add: obj_bytes_u16)
    have "frame_of m ! 0 = x" "frame_of m ! 1 = y"
      using frame_eq [OF p(2)] by (simp_all add: frame_of_def m xy)
    moreover have "unat (obj_val [x, y] :: u16) = length p"
      using obj_val_obj_bytes [of "of_nat (length p) :: u16"] p(1) by (simp add: xy unat_of_nat)
    ultimately show ?thesis using e assms(4) len by (simp add: parse_defs Let_def)
  qed
  then have "on_read cls pull alloc uid ?b = ([], ?b, False)"
    using on_read_incomplete by blast
  moreover have "alloc = (\<lambda>_. True)" if "\<forall>k. alloc k" using that by auto
  ultimately show ?thesis
    using on_read_frames [OF assms(1,3), where rest = ?b and cls = cls and uid = uid] taken_rest
      taken_exact [OF assms(1)] by auto
qed

theorem messages_received_witness:
  "on_read GameClient short_pull (\<lambda>_. True) 4
      (concat (map frame_of [(7, 0, 0, [1])]) @ take 3 (frame_of (8, 0, 0, [])))
    = (map (delivered GameClient 4) (taken short_pull (\<lambda>_. True) (take 3 (frame_of (8, 0, 0, []))) [(7, 0, 0, [1])]),
       take 3 (frame_of (8, 0, 0, [])), False)"
  by (rule messages_received [THEN conjunct1]) (simp_all add: sendable_def pulled_def short_pull_def frame_of_def)

text \<open>
  The parser asks libevent to make 8 bytes contiguous but reads 10. What it promises
  (the first 8 bytes) is not enough: there is a buffer memory that keeps the promise and for
  which a well-formed message is delivered with another source address.
\<close>

theorem pullup_too_short:
  "\<exists>pull m. (\<forall>b. pulled 8 pull b) \<and> sendable m \<and>
     on_read (ClientConn 5) pull (\<lambda>_. True) uid (frame_of m) \<noteq> ([delivered (ClientConn 5) uid m], [], False)"
proof -
  let ?pull = "\<lambda>b n i. if i < n then b ! i else (0 :: u8)"
  let ?m = "(7, 0x0101, 0x0203, []) :: message"
  have f: "frame_of ?m = [0, 0, 0, 0, 0, 7, 1, 1, 2, 3]"
    using frame_eq [where p = "[]" and cmd = 7 and target = "0x0101" and source = "0x0203"] by (simp add: frame_of_def obj_bytes_u16)
  have p: "parsePacket (ClientConn 5) (?pull (frame_of ?m) 8) (length (frame_of ?m)) 0 0 = (7, 10, 10, 257, 0)"
    unfolding f by (simp add: parse_defs Let_def obj_val_def to_int32_def)
  have "on_read (ClientConn 5) ?pull (\<lambda>_. True) uid [] = ([], [], False)"
    by (rule on_read_incomplete) (simp add: parse_defs)
  then have "on_read (ClientConn 5) ?pull (\<lambda>_. True) uid (frame_of ?m)
      = ([(onRecv (ClientConn 5) uid 7 0 257 0, [])], [], False)"
    using on_read_packet [where cls = "ClientConn 5" and pull = ?pull and b = "frame_of ?m", OF p] f by simp
  moreover have "(onRecv (ClientConn 5) uid 7 0 257 0, []) \<noteq> delivered (ClientConn 5) uid ?m"
    by (simp add: onRecv_def ClientConn_onRecv_def mk_proxy_hdr_def delivered_def drop_bit_eq_div)
  ultimately have "on_read (ClientConn 5) ?pull (\<lambda>_. True) uid (frame_of ?m)
      \<noteq> ([delivered (ClientConn 5) uid ?m], [], False)" by simp
  moreover have "\<forall>b. pulled 8 ?pull b" by (simp add: pulled_def)
  moreover have "sendable ?m" by (simp add: sendable_def)
  ultimately show ?thesis by blast
qed

text \<open>The socket takes the pending output in several steps.\<close>

fun socket_drain :: "nat list \<Rightarrow> conduit \<Rightarrow> u8 list \<times> conduit" where
  "socket_drain [] c = ([], c)"
| "socket_drain (n # ns) c =
     (case socket_accepts n c of
        (bs, c') \<Rightarrow> (case socket_drain ns c' of (bs', c'') \<Rightarrow> (bs @ bs', c'')))"

lemma socket_drain_shut: "c_shut c \<Longrightarrow> socket_drain ns c = ([], c)"
  by (induction ns) (simp_all add: socket_accepts_def)

text \<open>
  C16: Closing a connection with \<^verbatim>\<open>pendClose\<close> loses no output: the bytes the socket has
  taken and those still pending are the output there was, in order, and the connection is
  shut down exactly when nothing is pending any more.
\<close>

theorem pendClose_sends_all:
  assumes "c_write_on c" and "\<not> c_shut c" and "socket_drain ns (pendClose c) = (sent, c')"
  shows "sent @ c_out c' = c_out c \<and> (c_shut c' \<longleftrightarrow> c_out c' = [])"
proof -
  have gen: "sent @ c_out c' = c_out d \<and> (c_shut c' \<longleftrightarrow> c_out c' = [])"
    if "c_write_on d" "\<not> c_shut d" "c_pendclose d" "c_out d \<noteq> []" "socket_drain ns d = (sent, c')" for d
    using that
  proof (induction ns arbitrary: d sent)
    case Nil
    then show ?case by auto
  next
    case (Cons n ns)
    show ?case
    proof (cases "n < length (c_out d)")
      case True
      then have "socket_accepts n d = (take n (c_out d), d\<lparr>c_out := drop n (c_out d)\<rparr>)"
        using Cons.prems by (simp add: socket_accepts_def Let_def)
      moreover obtain s2 where s2: "socket_drain ns (d\<lparr>c_out := drop n (c_out d)\<rparr>) = (s2, c')" "sent = take n (c_out d) @ s2"
        using Cons.prems(5) calculation by (auto split: prod.splits)
      ultimately show ?thesis
        using Cons.IH [OF _ _ _ _ s2(1)] Cons.prems True by simp
    next
      case False
      let ?e = "closeConn (d\<lparr>c_out := [], c_pendclose := False\<rparr>)"
      have "socket_accepts n d = (c_out d, ?e)"
        using Cons.prems False by (simp add: socket_accepts_def Let_def on_write_def closeConn_def)
      moreover have "c_shut ?e" "c_out ?e = []" by (simp_all add: closeConn_def)
      ultimately show ?thesis using Cons.prems(5) socket_drain_shut [of ?e ns] by auto
    qed
  qed
  show ?thesis
  proof (cases "c_out c = []")
    case True
    have "c_shut (pendClose c)" "c_out (pendClose c) = []"
      using True by (simp_all add: pendClose_def closeConn_def)
    then show ?thesis using assms(3) socket_drain_shut [of "pendClose c" ns] True by auto
  next
    case False
    then show ?thesis using gen [of "pendClose c"] assms by (simp add: pendClose_def)
  qed
qed

theorem pendClose_sends_all_witness:
  "(case socket_drain [2, 5] (pendClose ((new_conduit GameClient 4 0)\<lparr>c_out := [1, 2, 3]\<rparr>)) of
     (sent, c') \<Rightarrow> sent @ c_out c' = [1, 2, 3] \<and> (c_shut c' \<longleftrightarrow> c_out c' = []))"
proof -
  let ?c = "(new_conduit GameClient 4 0)\<lparr>c_out := [1, 2, 3]\<rparr>"
  obtain sent c' where d: "socket_drain [2, 5] (pendClose ?c) = (sent, c')" by fastforce
  have "c_write_on ?c" "\<not> c_shut ?c" by (simp_all add: new_conduit_def)
  from pendClose_sends_all [OF this d] show ?thesis unfolding d prod.case by simp
qed

end
