(* ===== verification/Server_Config.thy ===== *)
theory Server_Config
  imports Prelude
begin

text \<open>
  \<^verbatim>\<open>Common/ServerCommon.h\<close>: what a server process knows of itself and of the servers it
  connects to, keyed by \<open>type * 256 + uid\<close>. The
  connect map is a \<^verbatim>\<open>std::map\<close>, iterated in key order.
\<close>

type_synonym addr = "string \<times> u16"

record server_config =
  m_ServerType :: u8
  m_ServerUID :: u8
  m_ServerListenPort :: u16
  m_ServerConnectMap :: "(u16 \<times> addr) list"

text \<open>The map as a list sorted by key; \<open>map_put\<close> is \<^verbatim>\<open>m[k] = v\<close>.\<close>

fun map_put :: "u16 \<Rightarrow> addr \<Rightarrow> (u16 \<times> addr) list \<Rightarrow> (u16 \<times> addr) list" where
  "map_put k v [] = [(k, v)]"
| "map_put k v ((k', v') # m) =
     (if k < k' then (k, v) # (k', v') # m
      else if k = k' then (k, v) # m
      else (k', v') # map_put k v m)"

definition ServerCommonConfig :: "u8 \<Rightarrow> u8 \<Rightarrow> u16 \<Rightarrow> server_config" where
  "ServerCommonConfig type uid port =
     \<lparr>m_ServerType = type, m_ServerUID = uid, m_ServerListenPort = port, m_ServerConnectMap = []\<rparr>"

text \<open>
  Both forms of \<^verbatim>\<open>AddConnectList\<close>. In the first the sum \<open>UInt16(type << 8) + uid\<close> is an
  \<^verbatim>\<open>int\<close> that the key type truncates.
\<close>

definition AddConnectList :: "u8 \<Rightarrow> u8 \<Rightarrow> string \<Rightarrow> u16 \<Rightarrow> server_config \<Rightarrow> server_config" where
  "AddConnectList type uid ip port c =
     c\<lparr>m_ServerConnectMap :=
         map_put (push_bit 8 (ucast type) + ucast uid) (ip, port) (m_ServerConnectMap c)\<rparr>"

definition AddConnectList_id :: "u16 \<Rightarrow> string \<Rightarrow> u16 \<Rightarrow> server_config \<Rightarrow> server_config" where
  "AddConnectList_id uid ip port c =
     c\<lparr>m_ServerConnectMap := map_put uid (ip, port) (m_ServerConnectMap c)\<rparr>"

text \<open>
  The assignment operator adds the other's entries to the map, splitting each key into type
  and uid; the entries already present stay.
\<close>

fun config_add_all :: "(u16 \<times> addr) list \<Rightarrow> server_config \<Rightarrow> server_config" where
  "config_add_all [] c = c"
| "config_add_all ((k, (ip, port)) # m) c =
     config_add_all m (AddConnectList (ucast (drop_bit 8 k)) (ucast (and k 0xFF)) ip port c)"

definition config_assign :: "server_config \<Rightarrow> server_config \<Rightarrow> server_config" where
  "config_assign c other =
     config_add_all (m_ServerConnectMap other)
       (c\<lparr>m_ServerType := m_ServerType other, m_ServerUID := m_ServerUID other,
          m_ServerListenPort := m_ServerListenPort other\<rparr>)"

definition GetIpFromConnectMap :: "u16 \<Rightarrow> server_config \<Rightarrow> string" where
  "GetIpFromConnectMap uid c =
     (case map_of (m_ServerConnectMap c) uid of None \<Rightarrow> ''127.0.0.1'' | Some (ip, port) \<Rightarrow> ip)"

definition GetPortFromConnectMap :: "u16 \<Rightarrow> server_config \<Rightarrow> u16" where
  "GetPortFromConnectMap uid c =
     (case map_of (m_ServerConnectMap c) uid of None \<Rightarrow> 0 | Some (ip, port) \<Rightarrow> port)"

section \<open>The map\<close>

definition config_sorted :: "server_config \<Rightarrow> bool" where
  "config_sorted c \<longleftrightarrow> sorted_wrt (<) (map fst (m_ServerConnectMap c))"

lemma set_map_put: "set (map fst (map_put k v m)) = insert k (set (map fst m))"
  by (induction k v m rule: map_put.induct) auto

lemma sorted_map_put:
  "sorted_wrt (<) (map fst m) \<Longrightarrow> sorted_wrt (<) (map fst (map_put k v m))"
proof (induction k v m rule: map_put.induct)
  case (2 k v k' v' m)
  then show ?case using set_map_put [of k v m] by (auto dest: less_trans)
qed simp

lemma map_of_map_put:
  "sorted_wrt (<) (map fst m) \<Longrightarrow> map_of (map_put k v m) = (map_of m)(k \<mapsto> v)"
proof (induction k v m rule: map_put.induct)
  case (2 k v k' v' m)
  then show ?case by (auto simp: fun_eq_iff)
qed simp

lemma config_sorted_add [inv_intros]:
  "config_sorted c \<Longrightarrow> config_sorted (AddConnectList type uid ip port c)"
  "config_sorted c \<Longrightarrow> config_sorted (AddConnectList_id k ip port c)"
  by (simp_all add: config_sorted_def AddConnectList_def AddConnectList_id_def sorted_map_put)

lemma config_sorted_new [inv_intros]: "config_sorted (ServerCommonConfig type uid port)"
  by (simp add: config_sorted_def ServerCommonConfig_def)

lemma key_split: "push_bit 8 (ucast (ucast (drop_bit 8 (k :: u16)) :: u8)) + ucast (ucast (and k 0xFF) :: u8) = k"
proof -
  have up: "ucast b = (of_nat (unat b) :: u16)" for b :: u8 by simp
  have "unat k div 256 * 256 + unat k mod 256 = unat k" by (rule div_mult_mod_eq)
  then have "(of_nat (unat k div 256 * 256 + unat k mod 256) :: u16) = k" by simp
  then show ?thesis
    unfolding up byte_hi16 byte_lo push_bit_eq_mult
    by (simp only: of_nat_add of_nat_mult of_nat_numeral) simp
qed

lemma config_add_all_map:
  "config_sorted c \<Longrightarrow> config_sorted (config_add_all m c) \<and>
     map_of (m_ServerConnectMap (config_add_all m c)) = map_of (m_ServerConnectMap c) ++ map_of (rev m)"
proof (induction m c rule: config_add_all.induct)
  case (1 c)
  then show ?case by simp
next
  case (2 k ip port m c)
  let ?c = "AddConnectList (ucast (drop_bit 8 k)) (ucast (and k 0xFF)) ip port c"
  have "map_of (m_ServerConnectMap ?c) = (map_of (m_ServerConnectMap c))(k \<mapsto> (ip, port))"
    using 2(2) by (simp add: AddConnectList_def key_split map_of_map_put config_sorted_def)
  moreover have "config_sorted ?c" using 2(2) by (rule config_sorted_add)
  ultimately show ?case using 2(1) by (auto simp: map_add_def fun_eq_iff split: option.split)
qed

text \<open>Assigning a configuration to a fresh one copies it exactly.\<close>

lemma config_assign_map:
  assumes "config_sorted c" and "config_sorted other"
  shows "map_of (m_ServerConnectMap (config_assign c other))
    = map_of (m_ServerConnectMap c) ++ map_of (m_ServerConnectMap other)"
proof -
  have "distinct (map fst (m_ServerConnectMap other))"
    using assms(2) by (auto simp: config_sorted_def strict_sorted_iff)
  then have "map_of (rev (m_ServerConnectMap other)) = map_of (m_ServerConnectMap other)"
    by (intro map_of_inject_set [THEN iffD2]) (simp_all add: rev_map [symmetric])
  then show ?thesis
    using assms(1) by (simp add: config_assign_def config_add_all_map config_sorted_def)
qed

section \<open>Properties\<close>

text \<open>
  Copying a configuration into a new one by assignment keeps every address: each server
  number finds the same host and port in the copy, and the own numbers are copied too.
\<close>

theorem config_copy_exact:
  assumes "config_sorted other"
  shows "GetIpFromConnectMap k (config_assign (ServerCommonConfig a b p) other) = GetIpFromConnectMap k other \<and>
    GetPortFromConnectMap k (config_assign (ServerCommonConfig a b p) other) = GetPortFromConnectMap k other \<and>
    m_ServerType (config_assign (ServerCommonConfig a b p) other) = m_ServerType other \<and>
    m_ServerUID (config_assign (ServerCommonConfig a b p) other) = m_ServerUID other"
proof -
  have "map_of (m_ServerConnectMap (config_assign (ServerCommonConfig a b p) other))
      = map_of (m_ServerConnectMap other)"
    using config_assign_map [OF config_sorted_new assms] by (simp add: ServerCommonConfig_def)
  moreover have "m_ServerType (config_add_all m c) = m_ServerType c \<and>
      m_ServerUID (config_add_all m c) = m_ServerUID c" for m c
    by (induction m c rule: config_add_all.induct) (simp_all add: AddConnectList_def)
  ultimately show ?thesis
    by (simp add: GetIpFromConnectMap_def GetPortFromConnectMap_def config_assign_def)
qed

theorem config_copy_exact_witness:
  "GetPortFromConnectMap 258 (config_assign (ServerCommonConfig 0 0 0)
      (AddConnectList 1 2 ''10.0.0.1'' 9000 (ServerCommonConfig 1 1 8889))) = 9000"
proof -
  have "config_sorted (AddConnectList 1 2 ''10.0.0.1'' 9000 (ServerCommonConfig 1 1 8889))"
    by (intro config_sorted_add config_sorted_new)
  from config_copy_exact [OF this, of 258] show ?thesis
    by (simp add: GetPortFromConnectMap_def AddConnectList_def ServerCommonConfig_def)
qed

end
