(* ===== verification/Tcp_Server.thy ===== *)
theory Tcp_Server
  imports Conduit Server_Config
begin

text \<open>
  \<^verbatim>\<open>Network/TcpServer\<close>: two worker loops (slaves) each own a vector of connections; the
  master distributes accepted sockets and finds connections by id. Other threads only append
  to a slave's list of pending operations, which its own loop executes.

  A connection in slot \<open>i\<close> of slave \<open>k\<close> has the id \<open>i * WORKERS + k\<close>. Freed slots below
  the last connection are remembered in \<open>emptySet\<close> and reused, smallest first; the vector is
  trimmed when its last connection goes.
\<close>

definition WORKERS :: nat where "WORKERS = 2"
definition TCP_CONN_IDX_MAX :: int where "TCP_CONN_IDX_MAX = 2"

datatype slave_op = OpAccept int | OpRemove int

record slave =
  slave_idx :: nat
  conduits :: "conduit option list"
  emptySet :: "nat set"
  connUp :: "int \<Rightarrow> int option"
  conn_count :: u32
  opList :: "slave_op list"
  s_running :: bool
  s_cfg :: server_config

definition new_slave :: "nat \<Rightarrow> slave" where
  "new_slave idx =
     \<lparr>slave_idx = idx, conduits = [], emptySet = {}, connUp = Map.empty, conn_count = 0,
      opList = [], s_running = False, s_cfg = ServerCommonConfig 0 0 0\<rparr>"

definition setServerConfig :: "server_config \<Rightarrow> slave \<Rightarrow> slave" where
  "setServerConfig cfg s = s\<lparr>s_cfg := config_assign (s_cfg s) cfg\<rparr>"

section \<open>Requests from other threads\<close>

text \<open>\<^verbatim>\<open>operator[]\<close> of a map inserts 0 for a missing key.\<close>

definition up_get :: "int \<Rightarrow> slave \<Rightarrow> int \<times> slave" where
  "up_get k s =
     (case connUp s k of Some v \<Rightarrow> (v, s) | None \<Rightarrow> (0, s\<lparr>connUp := (connUp s)(k \<mapsto> 0)\<rparr>))"

definition up_set :: "int \<Rightarrow> int \<Rightarrow> slave \<Rightarrow> slave" where
  "up_set k v s = s\<lparr>connUp := (connUp s)(k \<mapsto> v)\<rparr>"

definition initConnection :: "int \<Rightarrow> slave \<Rightarrow> slave" where
  "initConnection stype s =
     (if (case connUp s stype of Some v \<Rightarrow> v \<ge> 0 | None \<Rightarrow> False) then s
      else (let s' = up_set stype 0 s in s'\<lparr>opList := opList s' @ [OpAccept (- stype)]\<rparr>))"

definition lostConnection :: "int \<Rightarrow> slave \<Rightarrow> slave" where
  "lostConnection stype s = up_set stype (-1) s"

definition accepted :: "int \<Rightarrow> slave \<Rightarrow> slave" where
  "accepted ss s = s\<lparr>opList := opList s @ [OpAccept ss]\<rparr>"

definition slave_remove :: "int \<Rightarrow> slave \<Rightarrow> slave" where
  "slave_remove cid s = s\<lparr>opList := opList s @ [OpRemove cid]\<rparr>"

section \<open>Taking a connection in\<close>

text \<open>
  What making the connection object came to: \<open>Made c\<close>, a null pointer (no memory, no such
  server, no socket), or an exception. For an outgoing connection \<open>dial\<close> is
  \<^verbatim>\<open>initConnection\<close>, \<open>None\<close> where it throws; the object is then deleted again.
\<close>

datatype creation = Made conduit | NullConduit | Threw

type_synonym maker = "int \<Rightarrow> int \<Rightarrow> creation"
type_synonym dialer = "conduit \<Rightarrow> conduit option"

definition make_conduit :: "maker \<Rightarrow> dialer \<Rightarrow> int \<Rightarrow> int \<Rightarrow> conduit option" where
  "make_conduit mk dial ss uid =
     (if ss < 0
      then (case mk ss uid of
              Made c \<Rightarrow> dial c
            | NullConduit \<Rightarrow> None
            | Threw \<Rightarrow> None)
      else (case mk ss uid of Made c \<Rightarrow> Some c | NullConduit \<Rightarrow> None | Threw \<Rightarrow> None))"

definition slot_uid :: "nat \<Rightarrow> nat \<Rightarrow> int" where
  "slot_uid idx i = to_int32 (int (i * WORKERS + idx))"

definition conn_failed :: "int \<Rightarrow> slave \<Rightarrow> slave" where
  "conn_failed ss s = (if ss < 0 then up_set (- ss) (-1) s else s)"

text \<open>
  \<^verbatim>\<open>_accepted\<close>. The loop runs as long as there are empty slots and ends inside its body
  when the smallest one is a slot of the vector; otherwise nothing changes and it goes on.
\<close>

partial_function (option) accepted_loop ::
    "maker \<Rightarrow> dialer \<Rightarrow> int \<Rightarrow> slave \<Rightarrow> slave option" where
  "accepted_loop mk dial ss s =
     (if emptySet s \<noteq> {} then
        (let i = Min (emptySet s)
         in if i < length (conduits s) then
              (case make_conduit mk dial ss (slot_uid (slave_idx s) i) of
                 None \<Rightarrow> Some (conn_failed ss s)
               | Some c \<Rightarrow>
                   (let s1 = s\<lparr>emptySet := emptySet s - {i}, conduits := (conduits s)[i := Some c]\<rparr>;
                        s2 = (if ss < 0 then up_set (- ss) (slot_uid (slave_idx s) i) s1 else s1)
                    in Some (s2\<lparr>conn_count := conn_count s2 + 1\<rparr>)))
            else accepted_loop mk dial ss s)
      else
        (let i = length (conduits s)
         in case make_conduit mk dial ss (slot_uid (slave_idx s) i) of
              None \<Rightarrow> Some (conn_failed ss s)
            | Some c \<Rightarrow>
                (let s1 = s\<lparr>conduits := conduits s @ [Some c], conn_count := conn_count s + 1\<rparr>
                 in Some (if ss < 0 then up_set (- ss) (slot_uid (slave_idx s) i) s1 else s1))))"

section \<open>Letting a connection go\<close>

text \<open>
  The trimming loop of \<^verbatim>\<open>_remove\<close>: \<open>r\<close> is \<^verbatim>\<open>rrid\<close> before the body; the result is the
  new set and \<^verbatim>\<open>rrid + 1\<close>, the new size of the vector.
\<close>

fun trim_loop :: "conduit option list \<Rightarrow> nat set \<Rightarrow> nat \<Rightarrow> nat set \<times> nat" where
  "trim_loop cs es 0 = ((if es \<noteq> {} then es - {0} else es), 0)"
| "trim_loop cs es (Suc r) =
     (let es' = (if es \<noteq> {} then es - {Suc r} else es)
      in if cs ! r = None then trim_loop cs es' r else (es', Suc r))"

definition rid_of :: "int \<Rightarrow> nat" where
  "rid_of cid = unat (word_of_int (c_div cid (int WORKERS)) :: u32)"

definition remove_conduit :: "int \<Rightarrow> slave \<Rightarrow> slave" where
  "remove_conduit cid s =
     (let rid = rid_of cid
      in if rid < length (conduits s) \<and> conduits s ! rid \<noteq> None then
           (let cs = (conduits s)[rid := None];
                s' = (if rid = length cs - 1
                      then (case trim_loop cs (emptySet s) rid of
                              (es, n) \<Rightarrow> s\<lparr>conduits := take n cs, emptySet := es\<rparr>)
                      else s\<lparr>conduits := cs, emptySet := insert rid (emptySet s)\<rparr>)
            in if conn_count s' > 0 then s'\<lparr>conn_count := conn_count s' - 1\<rparr> else s')
         else s)"

section \<open>The slave's loop\<close>

definition slave_broadcast :: "(conduit \<Rightarrow> bool) \<Rightarrow> u8 list \<Rightarrow> slave \<Rightarrow> slave" where
  "slave_broadcast pred bs s =
     s\<lparr>conduits := map (map_option (\<lambda>c. if conduit_active c \<and> pred c then conduit_send bs c else c))
         (conduits s)\<rparr>"

text \<open>\<^verbatim>\<open>enumerate\<close> stops at the first connection for which the visitor returns false.\<close>

fun enumerate_loop :: "(conduit \<Rightarrow> bool) \<Rightarrow> conduit option list \<Rightarrow> conduit list" where
  "enumerate_loop p [] = []"
| "enumerate_loop p (None # cs) = enumerate_loop p cs"
| "enumerate_loop p (Some c # cs) = c # (if p c then enumerate_loop p cs else [])"

definition slave_destroy :: "slave \<Rightarrow> slave" where
  "slave_destroy s = s\<lparr>conduits := [], conn_count := 0\<rparr>"

fun op_loop :: "(slave_op \<Rightarrow> maker \<times> dialer) \<Rightarrow> slave_op list \<Rightarrow> slave \<Rightarrow> slave option" where
  "op_loop env [] s = Some s"
| "op_loop env (OpAccept ss # ops) s =
     (case env (OpAccept ss) of
        (mk, dial) \<Rightarrow>
          (case accepted_loop mk dial ss s of None \<Rightarrow> None | Some s' \<Rightarrow> op_loop env ops s'))"
| "op_loop env (OpRemove cid # ops) s = op_loop env ops (remove_conduit cid s)"

text \<open>
  \<^verbatim>\<open>onOpCheck\<close> takes the pending operations and executes them; the flag tells that the
  event loop is to be left.
\<close>

definition onOpCheck ::
    "(slave_op \<Rightarrow> maker \<times> dialer) \<Rightarrow> slave \<Rightarrow> (bool \<times> slave) option" where
  "onOpCheck env s =
     (let brk = \<not> s_running s
      in if opList s = [] then Some (brk, s)
         else map_option (\<lambda>s'. (brk, s')) (op_loop env (opList s) (s\<lparr>opList := []\<rparr>)))"

definition slave_onTick :: "u32 \<Rightarrow> slave \<Rightarrow> slave" where
  "slave_onTick now s = s\<lparr>conduits := map (map_option (OnTick now)) (conduits s)\<rparr>"

section \<open>The factories\<close>

text \<open>
  \<^verbatim>\<open>TcpSlaveServerT::newConduit\<close> and \<^verbatim>\<open>TcpSlaveWrapper::newConnection\<close>. \<open>mem\<close> says
  whether \<^verbatim>\<open>new\<close> succeeds, \<open>sock\<close> what \<^verbatim>\<open>socket\<close> returns.
\<close>

definition newConduit :: "bool \<Rightarrow> u32 \<Rightarrow> maker" where
  "newConduit mem now ss uid = (if mem then Made (new_conduit GameClient uid now) else NullConduit)"

definition newConnection :: "server_config \<Rightarrow> int \<Rightarrow> bool \<Rightarrow> u32 \<Rightarrow> maker" where
  "newConnection cfg sock mem now ss uid =
     (if ss < 0 then
        if GetPortFromConnectMap (word_of_int (- ss)) cfg \<le> 0 then NullConduit
        else if sock < 0 then NullConduit
        else if mem then Made (new_conduit (ClientConn (- ss)) uid now) else NullConduit
      else NullConduit)"

text \<open>
  \<^verbatim>\<open>ClientConn::initConnection\<close>: on a successful connect the registration message is
  sent; otherwise it throws.
\<close>

definition register_text :: "u8 list" where
  "register_text = map (\<lambda>c. of_char c) ''register_protocol!''"

definition conn_init :: "int \<Rightarrow> server_config \<Rightarrow> dialer" where
  "conn_init connect_result cfg c =
     (case c_class c of
        GameClient \<Rightarrow> Some c
      | ClientConn ss \<Rightarrow>
          if connect_result < 0 then None
          else
            (let ss' = (word_of_int ss :: u16);
                 st = stream_msg 1 (push_bit 8 ss' + and ss' 0xFF)
                   (push_bit 8 (ucast (m_ServerType cfg)) + ucast (m_ServerUID cfg));
                 st' = stream_eos (stream_put_cstr (Some register_text) st)
             in Some (conduit_send (wbuf st') c)))"

section \<open>The slot invariant\<close>

definition free_slots :: "conduit option list \<Rightarrow> nat set" where
  "free_slots cs = {i. i < length cs \<and> cs ! i = None}"

definition live_count :: "conduit option list \<Rightarrow> nat" where
  "live_count cs = length (filter (\<lambda>x. x \<noteq> None) cs)"

text \<open>The id a slot gives, without the conversion to \<^verbatim>\<open>int\<close>.\<close>

definition uid_at :: "nat \<Rightarrow> nat \<Rightarrow> int" where
  "uid_at idx i = int (2 * i + idx)"

text \<open>
  The bound \<open>2 ^ 30\<close> keeps ids positive \<^verbatim>\<open>int\<close>s; the process limits its open files to
  \<open>262144\<close>.
\<close>

definition max_conns :: nat where "max_conns = 2 ^ 30"

definition slave_inv :: "slave \<Rightarrow> bool" where
  "slave_inv s \<longleftrightarrow>
     slave_idx s < WORKERS \<and> length (conduits s) \<le> max_conns \<and>
     emptySet s = free_slots (conduits s) \<and>
     (conduits s \<noteq> [] \<longrightarrow> last (conduits s) \<noteq> None) \<and>
     conn_count s = of_nat (live_count (conduits s)) \<and>
     (\<forall>i c. i < length (conduits s) \<longrightarrow> conduits s ! i = Some c \<longrightarrow> c_uid c = uid_at (slave_idx s) i)"

lemma slot_uid_exact: "idx < WORKERS \<Longrightarrow> i < max_conns \<Longrightarrow> slot_uid idx i = uid_at idx i"
  unfolding slot_uid_def uid_at_def WORKERS_def max_conns_def
  by (subst to_int32_id) (simp_all add: mult.commute)

lemma slave_inv_new: "idx < WORKERS \<Longrightarrow> slave_inv (new_slave idx)"
  by (simp add: slave_inv_def new_slave_def free_slots_def live_count_def max_conns_def)

lemma slave_inv_up [simp]: "slave_inv (s\<lparr>connUp := u\<rparr>) = slave_inv s"
  by (simp add: slave_inv_def)

lemma slave_inv_ops [simp]: "slave_inv (s\<lparr>opList := u\<rparr>) = slave_inv s"
  by (simp add: slave_inv_def)

lemma slave_inv_up_set [simp]: "slave_inv (up_set k v s) = slave_inv s"
  by (simp add: up_set_def)

lemma slave_inv_requests [inv_intros]:
  "slave_inv s \<Longrightarrow> slave_inv (initConnection k s)"
  "slave_inv s \<Longrightarrow> slave_inv (lostConnection k s)"
  "slave_inv s \<Longrightarrow> slave_inv (accepted ss s)"
  "slave_inv s \<Longrightarrow> slave_inv (slave_remove cid s)"
  by (auto simp: initConnection_def lostConnection_def accepted_def slave_remove_def Let_def
      split: option.splits)

subsection \<open>The abstract view\<close>

text \<open>The connections of a slave by id.\<close>

definition slave_map :: "slave \<Rightarrow> int \<Rightarrow> conduit option" where
  "slave_map s u =
     (if 0 \<le> u \<and> u mod 2 = int (slave_idx s) \<and> nat (u div 2) < length (conduits s)
      then conduits s ! nat (u div 2) else None)"

lemma slave_map_at [simp]:
  "slave_idx s < WORKERS \<Longrightarrow> i < length (conduits s) \<Longrightarrow>
     slave_map s (uid_at (slave_idx s) i) = conduits s ! i"
  by (auto simp: slave_map_def uid_at_def WORKERS_def)

lemma uid_at_cases:
  assumes "0 \<le> u" "u mod 2 = int idx"
  shows "u = uid_at idx (nat (u div 2))"
  using assms by (simp add: uid_at_def) presburger

lemma slave_map_update:
  assumes "slave_idx s < WORKERS" "i < length (conduits s)"
  shows "slave_map (s\<lparr>conduits := (conduits s)[i := x]\<rparr>) = (slave_map s)(uid_at (slave_idx s) i := x)"
proof
  fix u
  have "nat (u div 2) = i \<longleftrightarrow> u = uid_at (slave_idx s) i"
    if "0 \<le> u" "u mod 2 = int (slave_idx s)"
    using uid_at_cases [OF that] that by (auto simp: uid_at_def)
  then show "slave_map (s\<lparr>conduits := (conduits s)[i := x]\<rparr>) u
      = ((slave_map s)(uid_at (slave_idx s) i := x)) u"
    using assms by (auto simp: slave_map_def uid_at_def WORKERS_def nth_list_update)
qed

lemma slave_map_append:
  assumes "slave_idx s < WORKERS"
  shows "slave_map (s\<lparr>conduits := conduits s @ [x]\<rparr>)
    = (slave_map s)(uid_at (slave_idx s) (length (conduits s)) := x)"
proof
  fix u
  have "nat (u div 2) = length (conduits s) \<longleftrightarrow> u = uid_at (slave_idx s) (length (conduits s))"
    if "0 \<le> u" "u mod 2 = int (slave_idx s)"
    using uid_at_cases [OF that] that by (auto simp: uid_at_def)
  then show "slave_map (s\<lparr>conduits := conduits s @ [x]\<rparr>) u
      = ((slave_map s)(uid_at (slave_idx s) (length (conduits s)) := x)) u"
    using assms by (auto simp: slave_map_def uid_at_def WORKERS_def nth_append)
qed

text \<open>Dropping a tail of free slots changes nothing.\<close>

lemma slave_map_take:
  assumes "\<forall>i. n \<le> i \<longrightarrow> i < length (conduits s) \<longrightarrow> conduits s ! i = None"
  shows "slave_map (s\<lparr>conduits := take n (conduits s), emptySet := E\<rparr>) = slave_map s"
  using assms by (auto simp: slave_map_def fun_eq_iff)

lemma slave_map_frame [simp]:
  "slave_map (s\<lparr>connUp := u\<rparr>) = slave_map s"
  "slave_map (s\<lparr>emptySet := E\<rparr>) = slave_map s"
  "slave_map (s\<lparr>conn_count := k\<rparr>) = slave_map s"
  "slave_map (s\<lparr>opList := l\<rparr>) = slave_map s"
  by (simp_all add: slave_map_def fun_eq_iff)

subsection \<open>Counting\<close>

lemma live_count_append: "live_count (cs @ [Some c]) = Suc (live_count cs)"
  by (simp add: live_count_def)

lemma live_count_le: "live_count cs \<le> length cs"
  by (simp add: live_count_def)

lemma live_count_split:
  "i < length cs \<Longrightarrow> live_count cs =
     live_count (take i cs) + (if cs ! i = None then 0 else 1) + live_count (drop (Suc i) cs)"
  by (subst id_take_nth_drop [of i cs]) (simp_all add: live_count_def)

lemma live_count_update:
  assumes "i < length cs"
  shows "live_count (cs[i := x]) =
    live_count (take i cs) + (if x = None then 0 else 1) + live_count (drop (Suc i) cs)"
  using live_count_split [of i "cs[i := x]"] assms by simp

lemma live_count_take:
  assumes "\<forall>i. n \<le> i \<longrightarrow> i < length cs \<longrightarrow> cs ! i = None"
  shows "live_count (take n cs) = live_count cs"
proof -
  have "filter (\<lambda>x. x \<noteq> None) (drop n cs) = []"
    using assms by (auto simp: filter_empty_conv in_set_conv_nth)
  then show ?thesis
    by (metis append_take_drop_id append_Nil2 filter_append live_count_def)
qed

subsection \<open>Accepting\<close>

definition mk_ok :: "maker \<Rightarrow> dialer \<Rightarrow> bool" where
  "mk_ok mk dial \<longleftrightarrow> (\<forall>ss uid c. mk ss uid = Made c \<longrightarrow> c_uid c = uid) \<and>
     (\<forall>c c'. dial c = Some c' \<longrightarrow> c_uid c' = c_uid c)"

lemma make_conduit_uid: "mk_ok mk dial \<Longrightarrow> make_conduit mk dial ss uid = Some c \<Longrightarrow> c_uid c = uid"
  by (auto simp: mk_ok_def make_conduit_def split: creation.splits if_splits)

text \<open>The slot a new connection gets: the smallest free one, or a new one at the end.\<close>

definition next_slot :: "slave \<Rightarrow> nat" where
  "next_slot s = (if emptySet s \<noteq> {} then Min (emptySet s) else length (conduits s))"

lemma next_slot_free:
  assumes "slave_inv s"
  shows "next_slot s \<le> length (conduits s)"
    and "next_slot s < length (conduits s) \<Longrightarrow> conduits s ! next_slot s = None"
    and "emptySet s \<noteq> {} \<Longrightarrow> next_slot s < length (conduits s)"
proof -
  have fin: "finite (free_slots (conduits s))" by (simp add: free_slots_def)
  have es: "emptySet s = free_slots (conduits s)" using assms by (simp add: slave_inv_def)
  have m: "emptySet s \<noteq> {} \<Longrightarrow> Min (emptySet s) \<in> free_slots (conduits s)"
    using fin es Min_in by metis
  show "emptySet s \<noteq> {} \<Longrightarrow> next_slot s < length (conduits s)"
    using m by (simp add: next_slot_def free_slots_def)
  show "next_slot s \<le> length (conduits s)"
    using m by (cases "emptySet s = {}") (simp_all add: next_slot_def free_slots_def)
  show "next_slot s < length (conduits s) \<Longrightarrow> conduits s ! next_slot s = None"
    using m by (cases "emptySet s = {}") (simp_all add: next_slot_def free_slots_def)
qed

text \<open>
  The two endings of \<^verbatim>\<open>_accepted\<close> as one equation: under the invariant the loop body
  returns in its first turn.
\<close>

definition install :: "int \<Rightarrow> nat \<Rightarrow> conduit \<Rightarrow> slave \<Rightarrow> slave" where
  "install ss i c s =
     (let cs = (if i < length (conduits s) then (conduits s)[i := Some c] else conduits s @ [Some c]);
          s1 = s\<lparr>conduits := cs, emptySet := emptySet s - {i}, conn_count := conn_count s + 1\<rparr>
      in if ss < 0 then up_set (- ss) (slot_uid (slave_idx s) i) s1 else s1)"

lemma accepted_loop_eq:
  assumes "slave_inv s"
  shows "accepted_loop mk dial ss s =
    Some (case make_conduit mk dial ss (slot_uid (slave_idx s) (next_slot s)) of
            None \<Rightarrow> conn_failed ss s
          | Some c \<Rightarrow> install ss (next_slot s) c s)"
proof (cases "emptySet s = {}")
  case True
  then show ?thesis
    by (subst accepted_loop.simps)
      (simp add: next_slot_def install_def Let_def up_set_def split: option.split)
next
  case False
  with next_slot_free(3) [OF assms] have "Min (emptySet s) < length (conduits s)"
    by (simp add: next_slot_def)
  with False show ?thesis
    by (subst accepted_loop.simps)
      (simp add: next_slot_def install_def Let_def up_set_def split: option.split)
qed

lemma slave_inv_install:
  assumes inv: "slave_inv s" and room: "length (conduits s) < max_conns"
    and uid: "c_uid c = slot_uid (slave_idx s) (next_slot s)"
  shows "slave_inv (install ss (next_slot s) c s)"
proof -
  let ?i = "next_slot s" and ?cs = "conduits s"
  have idx: "slave_idx s < WORKERS" and es: "emptySet s = free_slots ?cs"
    and uids: "\<And>i c. i < length ?cs \<Longrightarrow> ?cs ! i = Some c \<Longrightarrow> c_uid c = uid_at (slave_idx s) i"
    and cnt: "conn_count s = of_nat (live_count ?cs)"
    and lst: "?cs \<noteq> [] \<longrightarrow> last ?cs \<noteq> None"
    using inv by (auto simp: slave_inv_def)
  have "?i < max_conns" using next_slot_free(1) [OF inv] room by simp
  with uid have u: "c_uid c = uid_at (slave_idx s) ?i" by (simp add: slot_uid_exact idx)
  let ?cs' = "if ?i < length ?cs then ?cs[?i := Some c] else ?cs @ [Some c]"
  have base: "slave_inv (s\<lparr>conduits := ?cs', emptySet := emptySet s - {?i}, conn_count := conn_count s + 1\<rparr>)"
  proof (cases "?i < length ?cs")
    case True
    have free: "?cs ! ?i = None" using next_slot_free(2) [OF inv True] .
    have "free_slots (?cs[?i := Some c]) = free_slots ?cs - {?i}"
      by (auto simp: free_slots_def nth_list_update True)
    moreover have "live_count (?cs[?i := Some c]) = Suc (live_count ?cs)"
      using live_count_split [OF True] live_count_update [OF True, of "Some c"] free by simp
    moreover have "?cs[?i := Some c] \<noteq> [] \<longrightarrow> last (?cs[?i := Some c]) \<noteq> None"
      using lst True by (auto simp: last_list_update)
    ultimately show ?thesis
      using inv True uids u es cnt by (auto simp: slave_inv_def nth_list_update)
  next
    case False
    then have i: "?i = length ?cs" using next_slot_free(1) [OF inv] by simp
    have "free_slots (?cs @ [Some c]) = free_slots ?cs - {?i}"
      by (auto simp: free_slots_def nth_append i)
    then show ?thesis
      using inv i uids u es cnt room
      by (auto simp: slave_inv_def nth_append live_count_append less_Suc_eq)
  qed
  then show ?thesis by (simp add: install_def Let_def)
qed

lemma slave_map_install:
  assumes "slave_inv s"
  shows "slave_map (install ss (next_slot s) c s)
    = (slave_map s)(uid_at (slave_idx s) (next_slot s) \<mapsto> c)"
proof -
  have idx: "slave_idx s < WORKERS" using assms by (simp add: slave_inv_def)
  show ?thesis
  proof (cases "next_slot s < length (conduits s)")
    case True
    have "slave_map (install ss (next_slot s) c s)
      = slave_map (s\<lparr>conduits := (conduits s)[next_slot s := Some c]\<rparr>)"
      using True by (simp add: install_def Let_def up_set_def slave_map_def fun_eq_iff)
    with slave_map_update [OF idx True] show ?thesis by simp
  next
    case False
    then have i: "next_slot s = length (conduits s)" using next_slot_free(1) [OF assms] by simp
    have "slave_map (install ss (next_slot s) c s) = slave_map (s\<lparr>conduits := conduits s @ [Some c]\<rparr>)"
      by (simp add: install_def Let_def up_set_def slave_map_def fun_eq_iff i)
    with slave_map_append [OF idx] i show ?thesis by simp
  qed
qed

lemma slave_map_next_slot:
  assumes "slave_inv s"
  shows "slave_map s (uid_at (slave_idx s) (next_slot s)) = None"
proof -
  have idx: "slave_idx s < WORKERS" using assms by (simp add: slave_inv_def)
  show ?thesis
  proof (cases "next_slot s < length (conduits s)")
    case True
    with next_slot_free(2) [OF assms True] idx show ?thesis by simp
  next
    case False
    then show ?thesis by (auto simp: slave_map_def uid_at_def WORKERS_def)
  qed
qed

subsection \<open>Removal\<close>

text \<open>
  What the trimming loop leaves: the vector ends at a live connection, every slot cut off
  was free, and exactly the indices from the cut up to the removed slot leave the set.
\<close>

lemma trim_loop_spec:
  assumes "trim_loop cs es r = (es', n)"
  shows "n \<le> r" and "es' = es - {n..r}"
    and "\<forall>i. n \<le> i \<longrightarrow> i < r \<longrightarrow> cs ! i = None"
    and "n > 0 \<Longrightarrow> cs ! (n - 1) \<noteq> None"
proof -
  have "n \<le> r \<and> es' = es - {n..r} \<and> (\<forall>i. n \<le> i \<longrightarrow> i < r \<longrightarrow> cs ! i = None)
      \<and> (n > 0 \<longrightarrow> cs ! (n - 1) \<noteq> None)"
    using assms
  proof (induction cs es r rule: trim_loop.induct)
    case (1 cs es)
    then show ?case by (auto split: if_splits)
  next
    case (2 cs es r)
    show ?case
    proof (cases "cs ! r = None")
      case True
      then have "trim_loop cs (es - {Suc r}) r = (es', n)"
        using 2(2) by (cases "es = {}") (simp_all add: Let_def)
      then have IH: "n \<le> r" "es' = (es - {Suc r}) - {n..r}"
        "\<forall>i. n \<le> i \<longrightarrow> i < r \<longrightarrow> cs ! i = None" "n > 0 \<longrightarrow> cs ! (n - 1) \<noteq> None"
        using 2(1) [OF refl True] by (cases "es = {}"; simp)+
      have "(es - {Suc r}) - {n..r} = es - {n..Suc r}" using IH(1) by auto
      with IH True show ?thesis by (auto simp: less_Suc_eq)
    next
      case False
      then have "n = Suc r" "es' = es - {Suc r}"
        using 2(2) by (auto simp: Let_def split: if_splits)
      with False show ?thesis by simp
    qed
  qed
  then show "n \<le> r" "es' = es - {n..r}"
    "\<forall>i. n \<le> i \<longrightarrow> i < r \<longrightarrow> cs ! i = None" "n > 0 \<Longrightarrow> cs ! (n - 1) \<noteq> None"
    by blast+
qed

lemma rid_of_uid_at:
  assumes "idx < WORKERS" "i < max_conns"
  shows "rid_of (uid_at idx i) = i"
proof -
  have "c_div (uid_at idx i) (int WORKERS) = int i"
    using assms by (auto simp: c_div_def uid_at_def WORKERS_def sgn_if)
  moreover have "unat (word_of_nat i :: u32) = i"
    using assms(2) by (simp add: max_conns_def unat_of_nat)
  ultimately show ?thesis by (simp add: rid_of_def)
qed

lemma conn_count_pos:
  assumes inv: "slave_inv s" and i: "i < length (conduits s)" "conduits s ! i \<noteq> None"
  shows "conn_count s > 0" and "live_count ((conduits s)[i := None]) = live_count (conduits s) - 1"
    and "conn_count s - 1 = of_nat (live_count (conduits s) - 1)"
proof -
  have l: "live_count (conduits s) > 0"
    using live_count_split [OF i(1)] i(2) by simp
  have b: "live_count (conduits s) < 2 ^ 32"
    using inv live_count_le [of "conduits s"] by (simp add: slave_inv_def max_conns_def)
  have c: "conn_count s = of_nat (live_count (conduits s))"
    using inv by (simp add: slave_inv_def)
  have "unat (conn_count s) = live_count (conduits s)"
    using b by (simp add: c unat_of_nat)
  then show "conn_count s > 0" using l by (metis word_gt_0 unat_0 less_irrefl)
  show "live_count ((conduits s)[i := None]) = live_count (conduits s) - 1"
    using live_count_split [OF i(1)] live_count_update [OF i(1), of None] i(2) by simp
  show "conn_count s - 1 = of_nat (live_count (conduits s) - 1)"
    using l by (simp add: c)
qed

lemma remove_conduit_cases:
  assumes inv: "slave_inv s" and i: "i < length (conduits s)" "conduits s ! i \<noteq> None"
    and rid: "rid_of cid = i"
  obtains n where "n \<le> length (conduits s)"
    "remove_conduit cid s = s\<lparr>conduits := take n ((conduits s)[i := None]),
       emptySet := free_slots (take n ((conduits s)[i := None])),
       conn_count := of_nat (live_count (take n ((conduits s)[i := None])))\<rparr>"
    "\<forall>j. n \<le> j \<longrightarrow> j < length (conduits s) \<longrightarrow> (conduits s)[i := None] ! j = None"
    "n > 0 \<longrightarrow> (conduits s)[i := None] ! (n - 1) \<noteq> None"
proof (cases "i = length (conduits s) - 1")
  case True
  let ?cs = "(conduits s)[i := None]"
  obtain es n where tr: "trim_loop ?cs (emptySet s) i = (es, n)" by fastforce
  note sp = trim_loop_spec [OF tr]
  have len: "length (conduits s) = Suc i" using True i by simp
  have tail: "\<forall>j. n \<le> j \<longrightarrow> j < length (conduits s) \<longrightarrow> ?cs ! j = None"
    using sp(3) len by (auto simp: less_Suc_eq)
  have es0: "emptySet s = free_slots (conduits s)" using inv by (simp add: slave_inv_def)
  have "es = free_slots (take n ?cs)"
    using sp(1) len i by (auto simp: sp(2) es0 free_slots_def nth_list_update)
  moreover have "live_count (take n ?cs) = live_count (conduits s) - 1"
    using live_count_take [of n ?cs] tail conn_count_pos(2) [OF inv i] by simp
  moreover have "rid_of cid < length (conduits s)" "conduits s ! rid_of cid \<noteq> None"
    using i rid by simp_all
  ultimately have "remove_conduit cid s = s\<lparr>conduits := take n ?cs,
       emptySet := free_slots (take n ?cs), conn_count := of_nat (live_count (take n ?cs))\<rparr>"
    using conn_count_pos(1,3) [OF inv i] True tr i
    by (simp add: remove_conduit_def rid Let_def)
  then show thesis using that [of n] sp(1) sp(4) len tail by simp
next
  case False
  let ?cs = "(conduits s)[i := None]"
  have es0: "emptySet s = free_slots (conduits s)" using inv by (simp add: slave_inv_def)
  have fs: "insert i (emptySet s) = free_slots ?cs"
    using i by (auto simp: es0 free_slots_def nth_list_update)
  have "remove_conduit cid s = s\<lparr>conduits := ?cs, emptySet := free_slots ?cs,
      conn_count := of_nat (live_count ?cs)\<rparr>"
    using conn_count_pos [OF inv i] False i fs by (simp add: remove_conduit_def rid Let_def)
  moreover have "?cs ! (length (conduits s) - 1) \<noteq> None"
  proof -
    have ne: "conduits s \<noteq> []" using i by auto
    then have "conduits s ! (length (conduits s) - 1) \<noteq> None"
      using inv by (simp add: slave_inv_def last_conv_nth)
    with False show ?thesis by simp
  qed
  ultimately show thesis using that [of "length (conduits s)"] by simp
qed

lemma slave_inv_remove_conduit:
  assumes inv: "slave_inv s"
  shows "slave_inv (remove_conduit cid s)"
proof (cases "rid_of cid < length (conduits s) \<and> conduits s ! rid_of cid \<noteq> None")
  case True
  then obtain n where n: "n \<le> length (conduits s)"
    "remove_conduit cid s = s\<lparr>conduits := take n ((conduits s)[rid_of cid := None]),
       emptySet := free_slots (take n ((conduits s)[rid_of cid := None])),
       conn_count := of_nat (live_count (take n ((conduits s)[rid_of cid := None])))\<rparr>"
    "n > 0 \<longrightarrow> (conduits s)[rid_of cid := None] ! (n - 1) \<noteq> None"
    using remove_conduit_cases [OF inv _ _ refl] by metis
  let ?cs = "take n ((conduits s)[rid_of cid := None])"
  have lst: "?cs \<noteq> [] \<longrightarrow> last ?cs \<noteq> None"
    using n(1,3) by (auto simp: last_conv_nth)
  have "\<forall>i c. i < length ?cs \<longrightarrow> ?cs ! i = Some c \<longrightarrow> c_uid c = uid_at (slave_idx s) i"
  proof (intro allI impI)
    fix i c assume i: "i < length ?cs" and c: "?cs ! i = Some c"
    with n(1) have "i < length (conduits s)" "conduits s ! i = Some c"
      by (cases "i = rid_of cid"; simp)+
    then show "c_uid c = uid_at (slave_idx s) i" using inv by (simp add: slave_inv_def)
  qed
  with lst inv n show ?thesis by (simp add: slave_inv_def)
next
  case False
  then have "remove_conduit cid s = s" by (auto simp: remove_conduit_def Let_def)
  then show ?thesis using inv by simp
qed

text \<open>Removal deletes exactly the named connection.\<close>

lemma slave_map_remove_conduit:
  assumes inv: "slave_inv s" and i: "i < max_conns"
  shows "slave_map (remove_conduit (uid_at (slave_idx s) i) s)
    = (slave_map s)(uid_at (slave_idx s) i := None)"
proof -
  have idx: "slave_idx s < WORKERS" using inv by (simp add: slave_inv_def)
  have rid: "rid_of (uid_at (slave_idx s) i) = i" using rid_of_uid_at [OF idx i] .
  show ?thesis
  proof (cases "i < length (conduits s) \<and> conduits s ! i \<noteq> None")
    case True
    then obtain n where n: "n \<le> length (conduits s)"
      "remove_conduit (uid_at (slave_idx s) i) s = s\<lparr>conduits := take n ((conduits s)[i := None]),
         emptySet := free_slots (take n ((conduits s)[i := None])),
         conn_count := of_nat (live_count (take n ((conduits s)[i := None])))\<rparr>"
      "\<forall>j. n \<le> j \<longrightarrow> j < length (conduits s) \<longrightarrow> (conduits s)[i := None] ! j = None"
      using remove_conduit_cases [OF inv _ _ rid] by metis
    have "slave_map (remove_conduit (uid_at (slave_idx s) i) s)
        = slave_map (s\<lparr>conduits := take n ((conduits s)[i := None])\<rparr>)"
      by (simp add: n(2) slave_map_def fun_eq_iff)
    also have "\<dots> = slave_map (s\<lparr>conduits := (conduits s)[i := None]\<rparr>)"
      using n(1,3) by (auto simp: slave_map_def fun_eq_iff)
    finally show ?thesis using slave_map_update [OF idx] True by simp
  next
    case False
    then have "slave_map s (uid_at (slave_idx s) i) = None"
      using idx by (auto simp: slave_map_def uid_at_def WORKERS_def)
    moreover have "remove_conduit (uid_at (slave_idx s) i) s = s"
      using False by (auto simp: remove_conduit_def rid)
    ultimately show ?thesis by (auto simp: fun_eq_iff)
  qed
qed


subsection \<open>A round of the slave's loop\<close>

lemma install_frame [simp]:
  "slave_idx (install ss i c s) = slave_idx s"
  "length (conduits (install ss i c s)) = max (length (conduits s)) (if i < length (conduits s) then 0 else Suc (length (conduits s)))"
  by (simp_all add: install_def Let_def up_set_def)

lemma conn_failed_frame [simp]:
  "slave_inv (conn_failed ss s) = slave_inv s" "slave_map (conn_failed ss s) = slave_map s"
  "conduits (conn_failed ss s) = conduits s" "slave_idx (conn_failed ss s) = slave_idx s"
  by (simp_all add: conn_failed_def up_set_def)

text \<open>
  Every operation keeps the invariant as long as the vector has room for the pending
  acceptances; the process cannot have \<open>2 ^ 30\<close> open sockets.
\<close>

lemma accepted_loop_inv:
  assumes inv: "slave_inv s" and room: "length (conduits s) < max_conns" and mk: "mk_ok mk dial"
  obtains s' where "accepted_loop mk dial ss s = Some s'" "slave_inv s'"
    "length (conduits s') \<le> Suc (length (conduits s))" "slave_idx s' = slave_idx s"
proof (cases "make_conduit mk dial ss (slot_uid (slave_idx s) (next_slot s))")
  case None
  then show thesis using that [of "conn_failed ss s"] inv by (simp add: accepted_loop_eq [OF inv])
next
  case (Some c)
  have "slave_inv (install ss (next_slot s) c s)"
    using slave_inv_install [OF inv room] make_conduit_uid [OF mk Some] by simp
  then show thesis
    using that [of "install ss (next_slot s) c s"] Some by (simp add: accepted_loop_eq [OF inv])
qed

lemma remove_conduit_frame [simp]:
  "slave_idx (remove_conduit cid s) = slave_idx s" "connUp (remove_conduit cid s) = connUp s"
  "opList (remove_conduit cid s) = opList s" "s_running (remove_conduit cid s) = s_running s"
  by (simp_all add: remove_conduit_def Let_def split: prod.split)

lemma remove_conduit_length: "length (conduits (remove_conduit cid s)) \<le> length (conduits s)"
  by (simp add: remove_conduit_def Let_def split: prod.split)

fun accepts :: "slave_op list \<Rightarrow> nat" where
  "accepts [] = 0"
| "accepts (OpAccept ss # ops) = Suc (accepts ops)"
| "accepts (OpRemove cid # ops) = accepts ops"

lemma op_loop_inv:
  assumes "slave_inv s" and "length (conduits s) + accepts ops \<le> max_conns"
    and "\<And>op mk dial. env op = (mk, dial) \<Longrightarrow> mk_ok mk dial"
  shows "\<exists>s'. op_loop env ops s = Some s' \<and> slave_inv s' \<and> slave_idx s' = slave_idx s"
  using assms(1,2)
proof (induction ops arbitrary: s)
  case Nil
  then show ?case by simp
next
  case (Cons op ops)
  show ?case
  proof (cases op)
    case (OpAccept ss)
    obtain mk dial where env: "env (OpAccept ss) = (mk, dial)" by fastforce
    have room: "length (conduits s) < max_conns" using Cons.prems(2) OpAccept by simp
    obtain s' where s': "accepted_loop mk dial ss s = Some s'" "slave_inv s'"
      "length (conduits s') \<le> Suc (length (conduits s))" "slave_idx s' = slave_idx s"
      using accepted_loop_inv [OF Cons.prems(1) room assms(3) [OF env]] by blast
    have "length (conduits s') + accepts ops \<le> max_conns"
      using s'(3) Cons.prems(2) OpAccept by simp
    from Cons.IH [OF s'(2) this] s' show ?thesis by (auto simp: OpAccept env)
  next
    case (OpRemove cid)
    have "length (conduits (remove_conduit cid s)) + accepts ops \<le> max_conns"
      using remove_conduit_length [of cid s] Cons.prems(2) OpRemove by simp
    from Cons.IH [OF slave_inv_remove_conduit [OF Cons.prems(1)] this]
    show ?thesis by (simp add: OpRemove)
  qed
qed

text \<open>A tick and a broadcast touch the connections, not the slots.\<close>

lemma slave_inv_map:
  assumes inv: "slave_inv s" and f: "\<And>c. c_uid (f c) = c_uid c"
  shows "slave_inv (s\<lparr>conduits := map (map_option f) (conduits s)\<rparr>)"
proof -
  have "free_slots (map (map_option f) (conduits s)) = free_slots (conduits s)"
    by (auto simp: free_slots_def)
  moreover have "live_count (map (map_option f) cs) = live_count cs" for cs
    by (induction cs) (auto simp: live_count_def)
  moreover have "last (map (map_option f) (conduits s)) \<noteq> None" if "conduits s \<noteq> []"
    using that inv by (auto simp: last_map slave_inv_def)
  ultimately show ?thesis using inv f by (auto simp: slave_inv_def)
qed

subsection \<open>A stale set of free slots\<close>

text \<open>
  Where the smallest remembered slot is not a slot of the vector, the loop of
  \<^verbatim>\<open>_accepted\<close> changes nothing and never ends.
\<close>

lemma accepted_loop_diverges:
  assumes "emptySet s \<noteq> {}" "length (conduits s) \<le> Min (emptySet s)"
  shows "accepted_loop mk dial ss s = None"
proof -
  have "\<not> (emptySet s \<noteq> {} \<and> length (conduits s) \<le> Min (emptySet s))"
    if "accepted_loop mk dial ss s = Some s'" for s'
    by (rule accepted_loop.raw_induct [where P = "\<lambda>_ _ _ s _. \<not> (emptySet s \<noteq> {} \<and> length (conduits s) \<le> Min (emptySet s))", OF _ that])
      (fastforce simp: Let_def split: if_splits)
  with assms show ?thesis by (cases "accepted_loop mk dial ss s") auto
qed

subsection \<open>The slave as a table of connections\<close>

text \<open>
  The contract of a pending operation, on the connections by id and the ids recorded for dialled servers:
  an acceptance adds the connection that is made for it under the smallest id of the slave that is
  not in use, and nothing exactly where making it fails; a removal takes the named connection out.
\<close>

type_synonym conn_table = "(int \<Rightarrow> conduit option) \<times> (int \<Rightarrow> int option)"

definition free_id :: "nat \<Rightarrow> (int \<Rightarrow> conduit option) \<Rightarrow> int" where
  "free_id idx f = uid_at idx (LEAST i. f (uid_at idx i) = None)"

fun table_op :: "(slave_op \<Rightarrow> maker \<times> dialer) \<Rightarrow> nat \<Rightarrow> slave_op \<Rightarrow> conn_table \<Rightarrow> conn_table" where
  "table_op env idx (OpAccept ss) (f, up) =
     (let u = free_id idx f
      in case make_conduit (fst (env (OpAccept ss))) (snd (env (OpAccept ss))) ss u of
           None \<Rightarrow> (f, if ss < 0 then up(- ss \<mapsto> -1) else up)
         | Some c \<Rightarrow> (f(u \<mapsto> c), if ss < 0 then up(- ss \<mapsto> u) else up))"
| "table_op env idx (OpRemove cid) (f, up) = (f(cid := None), up)"

definition slave_table :: "slave \<Rightarrow> conn_table" where
  "slave_table s = (slave_map s, connUp s)"

fun op_valid :: "nat \<Rightarrow> slave_op \<Rightarrow> bool" where
  "op_valid idx (OpAccept ss) = True"
| "op_valid idx (OpRemove cid) = (\<exists>i < max_conns. cid = uid_at idx i)"

lemma free_id_next_slot:
  assumes "slave_inv s"
  shows "free_id (slave_idx s) (slave_map s) = uid_at (slave_idx s) (next_slot s)"
proof -
  have idx: "slave_idx s < WORKERS" and es: "emptySet s = free_slots (conduits s)"
    using assms by (simp_all add: slave_inv_def)
  have "next_slot s \<le> k" if k: "slave_map s (uid_at (slave_idx s) k) = None" for k
  proof (cases "k < length (conduits s)")
    case True
    then have "k \<in> emptySet s" using k idx es by (simp add: free_slots_def)
    moreover have "finite (emptySet s)" using es by (simp add: free_slots_def)
    ultimately show ?thesis by (auto simp: next_slot_def)
  next
    case False
    then show ?thesis using next_slot_free(1) [OF assms] by simp
  qed
  then have "(LEAST i. slave_map s (uid_at (slave_idx s) i) = None) = next_slot s"
    by (intro Least_equality slave_map_next_slot [OF assms]) 
  then show ?thesis by (simp add: free_id_def)
qed

lemma accepted_loop_table:
  assumes inv: "slave_inv s" and room: "length (conduits s) < max_conns"
    and env: "env (OpAccept ss) = (mk, dial)" and mk: "mk_ok mk dial"
    and run: "accepted_loop mk dial ss s = Some s'"
  shows "slave_table s' = table_op env (slave_idx s) (OpAccept ss) (slave_table s)"
proof -
  have i: "next_slot s < max_conns" using next_slot_free(1) [OF inv] room by simp
  have idx: "slave_idx s < WORKERS" using inv by (simp add: slave_inv_def)
  have u: "slot_uid (slave_idx s) (next_slot s) = free_id (slave_idx s) (slave_map s)"
    using slot_uid_exact [OF idx i] free_id_next_slot [OF inv] by simp
  show ?thesis
  proof (cases "make_conduit mk dial ss (slot_uid (slave_idx s) (next_slot s))")
    case None
    then have "s' = conn_failed ss s" using run by (simp add: accepted_loop_eq [OF inv])
    then show ?thesis using None env u by (simp add: slave_table_def conn_failed_def up_set_def)
  next
    case (Some c)
    then have "s' = install ss (next_slot s) c s" using run by (simp add: accepted_loop_eq [OF inv])
    moreover have "slave_map (install ss (next_slot s) c s) = (slave_map s)(free_id (slave_idx s) (slave_map s) \<mapsto> c)"
      using slave_map_install [OF inv] free_id_next_slot [OF inv] by simp
    ultimately show ?thesis
      using Some env u by (simp add: slave_table_def) (simp add: install_def Let_def up_set_def)
  qed
qed

lemma op_loop_refines:
  assumes "slave_inv s" "length (conduits s) + accepts ops \<le> max_conns"
    and "\<And>op mk dial. env op = (mk, dial) \<Longrightarrow> mk_ok mk dial"
    and "\<And>op. op \<in> set ops \<Longrightarrow> op_valid (slave_idx s) op"
  shows "\<exists>s'. op_loop env ops s = Some s' \<and> slave_inv s' \<and> slave_idx s' = slave_idx s \<and>
    slave_table s' = fold (table_op env (slave_idx s)) ops (slave_table s)"
  using assms(1,2,4)
proof (induction ops arbitrary: s)
  case Nil
  then show ?case by simp
next
  case (Cons op ops)
  show ?case
  proof (cases op)
    case (OpAccept ss)
    obtain mk dial where env: "env (OpAccept ss) = (mk, dial)" by fastforce
    have room: "length (conduits s) < max_conns" using Cons.prems(2) OpAccept by simp
    obtain s' where s': "accepted_loop mk dial ss s = Some s'" "slave_inv s'"
      "length (conduits s') \<le> Suc (length (conduits s))" "slave_idx s' = slave_idx s"
      using accepted_loop_inv [OF Cons.prems(1) room assms(3) [OF env]] by blast
    have "length (conduits s') + accepts ops \<le> max_conns"
      using s'(3) Cons.prems(2) OpAccept by simp
    then obtain s2 where s2: "op_loop env ops s' = Some s2" "slave_inv s2" "slave_idx s2 = slave_idx s'"
      "slave_table s2 = fold (table_op env (slave_idx s')) ops (slave_table s')"
      using Cons.IH [OF s'(2)] Cons.prems(3) s'(4) by auto
    have "slave_table s' = table_op env (slave_idx s) op (slave_table s)"
      using accepted_loop_table [where env = env, OF Cons.prems(1) room env assms(3) [OF env] s'(1)] OpAccept by simp
    with s' s2 show ?thesis unfolding OpAccept by (auto simp: env)
  next
    case (OpRemove cid)
    obtain i where i: "i < max_conns" "cid = uid_at (slave_idx s) i"
      using Cons.prems(3) [of op] OpRemove by auto
    have "length (conduits (remove_conduit cid s)) + accepts ops \<le> max_conns"
      using remove_conduit_length [of cid s] Cons.prems(2) OpRemove by simp
    then obtain s2 where s2: "op_loop env ops (remove_conduit cid s) = Some s2" "slave_inv s2"
      "slave_idx s2 = slave_idx s" "slave_table s2 = fold (table_op env (slave_idx s)) ops (slave_table (remove_conduit cid s))"
      using Cons.IH [OF slave_inv_remove_conduit [OF Cons.prems(1)]] Cons.prems(3) by auto
    have "slave_map (remove_conduit cid s) = (slave_map s)(cid := None)"
      using slave_map_remove_conduit [OF Cons.prems(1) i(1)] i(2) by simp
    then have "slave_table (remove_conduit cid s) = table_op env (slave_idx s) op (slave_table s)"
      by (simp add: slave_table_def OpRemove)
    with s2 show ?thesis by (auto simp: OpRemove)
  qed
qed

text \<open>\<^verbatim>\<open>onOpCheck\<close> executes the pending operations and empties the list.\<close>

lemma up_set_frame [simp]:
  "opList (up_set k v s) = opList s" "s_running (up_set k v s) = s_running s"
  by (simp_all add: up_set_def)

lemma accepted_loop_ops:
  assumes "accepted_loop mk dial ss s = Some s'" "slave_inv s"
  shows "opList s' = opList s"
proof -
  have "opList (conn_failed ss s) = opList s" "opList (install ss i c s) = opList s" for i c
    by (simp_all add: conn_failed_def install_def Let_def)
  then show ?thesis
    using assms(1) by (auto simp: accepted_loop_eq [OF assms(2)] split: option.splits)
qed

lemma op_loop_ops:
  assumes "slave_inv s" "length (conduits s) + accepts ops \<le> max_conns"
    and "\<And>op mk dial. env op = (mk, dial) \<Longrightarrow> mk_ok mk dial" and "op_loop env ops s = Some s'"
  shows "opList s' = opList s"
  using assms(1,2,4)
proof (induction ops arbitrary: s)
  case Nil
  then show ?case by simp
next
  case (Cons op ops)
  show ?case
  proof (cases op)
    case (OpAccept ss)
    obtain mk dial where env: "env (OpAccept ss) = (mk, dial)" by fastforce
    have room: "length (conduits s) < max_conns" using Cons.prems(2) OpAccept by simp
    obtain s1 where s1: "accepted_loop mk dial ss s = Some s1" "slave_inv s1"
      "length (conduits s1) \<le> Suc (length (conduits s))"
      using accepted_loop_inv [OF Cons.prems(1) room assms(3) [OF env]] by blast
    have "length (conduits s1) + accepts ops \<le> max_conns"
      using s1(3) Cons.prems(2) OpAccept by simp
    from Cons.IH [OF s1(2) this] Cons.prems(3) s1(1) accepted_loop_ops [OF s1(1) Cons.prems(1)]
    show ?thesis by (simp add: OpAccept env)
  next
    case (OpRemove cid)
    have "length (conduits (remove_conduit cid s)) + accepts ops \<le> max_conns"
      using remove_conduit_length [of cid s] Cons.prems(2) OpRemove by simp
    from Cons.IH [OF slave_inv_remove_conduit [OF Cons.prems(1)] this] Cons.prems(3)
    show ?thesis by (simp add: OpRemove)
  qed
qed

lemma onOpCheck_refines:
  assumes "slave_inv s" "length (conduits s) + accepts (opList s) \<le> max_conns"
    and "\<And>op mk dial. env op = (mk, dial) \<Longrightarrow> mk_ok mk dial"
    and "\<And>op. op \<in> set (opList s) \<Longrightarrow> op_valid (slave_idx s) op"
  shows "\<exists>s'. onOpCheck env s = Some (\<not> s_running s, s') \<and> slave_inv s' \<and> opList s' = [] \<and>
    slave_table s' = fold (table_op env (slave_idx s)) (opList s) (slave_table s)"
proof (cases "opList s = []")
  case True
  then show ?thesis using assms(1) by (simp add: onOpCheck_def)
next
  case False
  let ?s = "s\<lparr>opList := []\<rparr>"
  obtain s' where s': "op_loop env (opList s) ?s = Some s'" "slave_inv s'"
    "slave_table s' = fold (table_op env (slave_idx s)) (opList s) (slave_table ?s)"
    using op_loop_refines [of ?s "opList s" env] assms by auto
  moreover have "opList s' = opList ?s"
    using op_loop_ops [OF _ _ assms(3) s'(1)] assms(1,2) by simp
  moreover have "slave_table ?s = slave_table s" by (simp add: slave_table_def)
  ultimately show ?thesis using False by (simp add: onOpCheck_def)
qed

section \<open>Properties\<close>

text \<open>
  C4: A round of the slave's loop always ends, empties the list of pending operations, keeps
  the slots consistent and computes the table of connections that the operations ask for: an
  acceptance adds the connection made for it under the smallest id not in use and records the id if the
  connection was dialled, or changes nothing but this record exactly where making it fails; a removal takes
  out the named connection and no other. Making a connection gives it the id it is asked for, removals name ids of
  the slave, and there are at most \<open>2 ^ 30\<close> connections.
\<close>

theorem slave_round_refines:
  assumes "slave_inv s" and "length (conduits s) + accepts (opList s) \<le> max_conns"
    and "\<And>op mk dial. env op = (mk, dial) \<Longrightarrow> mk_ok mk dial"
    and "\<And>op. op \<in> set (opList s) \<Longrightarrow> op_valid (slave_idx s) op"
  shows "\<exists>s'. onOpCheck env s = Some (\<not> s_running s, s') \<and> slave_inv s' \<and> opList s' = [] \<and>
    slave_table s' = fold (table_op env (slave_idx s)) (opList s) (slave_table s)"
  by (rule onOpCheck_refines [OF assms])

theorem slave_round_refines_witness:
  "\<exists>s'. onOpCheck (\<lambda>_. (newConduit True 5, Some)) (accepted 9 (new_slave 1)) = Some (True, s') \<and> slave_inv s' \<and>
    slave_table s' = table_op (\<lambda>_. (newConduit True 5, Some)) 1 (OpAccept 9) (slave_table (new_slave 1))"
proof -
  let ?s = "accepted 9 (new_slave 1)"
  have "slave_inv ?s" using slave_inv_new [of 1] slave_inv_requests(3) by (simp add: WORKERS_def)
  moreover have "mk_ok (newConduit True 5) Some"
    by (simp add: mk_ok_def newConduit_def new_conduit_def)
  moreover have "opList ?s = [OpAccept 9]" "length (conduits ?s) = 0" "slave_table ?s = slave_table (new_slave 1)"
    "s_running ?s = False" "slave_idx ?s = 1"
    by (simp_all add: accepted_def new_slave_def slave_table_def slave_map_def fun_eq_iff)
  ultimately show ?thesis
    using slave_round_refines [of ?s "\<lambda>_. (newConduit True 5, Some)"] by (auto simp: max_conns_def)
qed

text \<open>
  A new connection reuses the smallest free slot, and the vector grows only when no slot
  is free; its id is the one the slot's number gives, and dialling a server records this id
  for the server.
\<close>

theorem accept_smallest_slot:
  assumes "slave_inv s" and "length (conduits s) < max_conns" and "mk_ok mk dial" and "ss < 0"
    and "accepted_loop mk dial ss s = Some s'" and "make_conduit mk dial ss (slot_uid (slave_idx s) (next_slot s)) = Some c"
  shows "slave_map s' = (slave_map s)(c_uid c \<mapsto> c) \<and> connUp s' (- ss) = Some (c_uid c) \<and>
    (\<forall>i < next_slot s. conduits s ! i \<noteq> None)"
proof -
  have i: "next_slot s < max_conns" using next_slot_free(1) [OF assms(1)] assms(2) by simp
  have idx: "slave_idx s < WORKERS" and es: "emptySet s = free_slots (conduits s)"
    using assms(1) by (simp_all add: slave_inv_def)
  have u: "c_uid c = uid_at (slave_idx s) (next_slot s)" "slot_uid (slave_idx s) (next_slot s) = c_uid c"
    using make_conduit_uid [OF assms(3,6)] slot_uid_exact [OF idx i] by simp_all
  have s': "s' = install ss (next_slot s) c s"
    using assms(5,6) by (simp add: accepted_loop_eq [OF assms(1)])
  have "conduits s ! k \<noteq> None" if "k < next_slot s" for k
  proof
    assume none: "conduits s ! k = None"
    have "k < length (conduits s)" using that next_slot_free(1) [OF assms(1)] by simp
    then have k: "k \<in> emptySet s" using none es by (simp add: free_slots_def)
    have "finite (emptySet s)" using es by (simp add: free_slots_def)
    then have "Min (emptySet s) \<le> k" using k by simp
    with k that show False by (auto simp: next_slot_def split: if_splits)
  qed
  then show ?thesis
    using slave_map_install [OF assms(1), of ss c] u assms(4)
    by (simp add: s' install_def Let_def up_set_def)
qed

theorem accept_smallest_slot_witness:
  "\<exists>s' c. accepted_loop (newConnection (AddConnectList_id 258 ''h'' 80 (ServerCommonConfig 1 1 9)) 3 True 5)
      (conn_init 0 (ServerCommonConfig 1 1 9)) (-258) (new_slave 0) = Some s' \<and>
    connUp s' 258 = Some (c_uid (c :: conduit))"
proof -
  let ?mk = "newConnection (AddConnectList_id 258 ''h'' 80 (ServerCommonConfig 1 1 9)) 3 True 5"
    and ?dial = "conn_init 0 (ServerCommonConfig 1 1 9)"
  have inv: "slave_inv (new_slave 0)" by (rule slave_inv_new) (simp add: WORKERS_def)
  have mk: "mk_ok ?mk ?dial"
    by (auto simp: mk_ok_def newConnection_def new_conduit_def conn_init_def conduit_send_def Let_def
        split: if_splits conduit_class.splits)
  have "make_conduit ?mk ?dial (-258) (slot_uid (slave_idx (new_slave 0)) (next_slot (new_slave 0))) \<noteq> None"
    by (simp add: make_conduit_def newConnection_def GetPortFromConnectMap_def AddConnectList_id_def
        ServerCommonConfig_def new_conduit_def conn_init_def Let_def)
  then obtain c where c: "make_conduit ?mk ?dial (-258)
      (slot_uid (slave_idx (new_slave 0)) (next_slot (new_slave 0))) = Some c" by blast
  then have run: "accepted_loop ?mk ?dial (-258) (new_slave 0)
      = Some (install (-258) (next_slot (new_slave 0)) c (new_slave 0))"
    by (simp add: accepted_loop_eq [OF inv])
  have "connUp (install (-258) (next_slot (new_slave 0)) c (new_slave 0)) (- (-258)) = Some (c_uid c)"
    using accept_smallest_slot [OF inv _ mk _ run c] by (simp add: new_slave_def max_conns_def)
  with run show ?thesis by (intro exI conjI) simp_all
qed

text \<open>
  C37: \<^verbatim>\<open>destroy\<close> clears the vector but not the set of free slots. A slave that is run
  again after it had free slots never returns from its first acceptance.
\<close>

theorem restarted_slave_hangs:
  assumes "emptySet s \<noteq> {}"
  shows "accepted_loop mk dial ss (slave_destroy s) = None"
  using assms by (intro accepted_loop_diverges) (simp_all add: slave_destroy_def)

theorem restarted_slave_hangs_witness:
  "accepted_loop (newConduit True 5) Some 9 (slave_destroy ((new_slave 0)\<lparr>emptySet := {0}\<rparr>)) = None"
  by (rule restarted_slave_hangs) simp

end
