(* ===== verification/Tcp_Master.thy ===== *)
theory Tcp_Master
  imports Tcp_Server
begin

text \<open>
  The services in front of the slaves: \<^verbatim>\<open>TcpMasterServer\<close>, which spreads accepted sockets
  over two slaves, and \<^verbatim>\<open>TcpClientService\<close>, which has a single slave and only dials out
  (\<^verbatim>\<open>Network/TcpServer\<close>); and the wrappers the rest of the program calls
  (\<^verbatim>\<open>Network/TcpServerWrapper.h\<close>).

  A connection object is shared between its slave and whoever found it, so a found
  connection is given as its place, a worker and a slot, and changed there. \<open>None\<close> as the
  result of an operation is an access outside the vector of workers.
\<close>

type_synonym place = "nat \<times> nat"

record service =
  workers :: "slave list"
  svc_cfg :: server_config
  svc_running :: bool

record master = service +
  m_socket :: int

definition update_conn :: "place \<Rightarrow> (conduit \<Rightarrow> conduit) \<Rightarrow> slave list \<Rightarrow> slave list" where
  "update_conn pl f ws =
     (case pl of (k, i) \<Rightarrow>
        ws[k := (ws ! k)\<lparr>conduits := (conduits (ws ! k))[i := map_option f (conduits (ws ! k) ! i)]\<rparr>])"

text \<open>The slot of a slave an id names, \<open>None\<close> for a null pointer.\<close>

definition slot_of :: "nat \<Rightarrow> slave \<Rightarrow> nat option" where
  "slot_of rid s =
     (if rid \<ge> length (conduits s) then None
      else if conduits s ! rid = None then None else Some rid)"

definition worker_index :: "int \<Rightarrow> slave list \<Rightarrow> nat option" where
  "worker_index cid ws =
     (let k = c_mod cid (int WORKERS)
      in if 0 \<le> k \<and> nat k < length ws then Some (nat k) else None)"

section \<open>The master\<close>

definition new_master :: "server_config \<Rightarrow> int \<Rightarrow> master" where
  "new_master cfg sock = \<lparr>workers = [], svc_cfg = cfg, svc_running = False, m_socket = sock\<rparr>"

definition postInitServer :: "master \<Rightarrow> master" where
  "postInitServer m =
     m\<lparr>workers := workers m @ map (\<lambda>i. setServerConfig (svc_cfg m) (new_slave i)) [0..<WORKERS]\<rparr>"

definition master_find :: "int \<Rightarrow> master \<Rightarrow> place option option" where
  "master_find cid m =
     (if cid = -1 then Some None
      else (case worker_index cid (workers m) of
              None \<Rightarrow> None
            | Some k \<Rightarrow> Some (map_option (Pair k) (slot_of (rid_of cid) (workers m ! k)))))"

definition master_findConn :: "int \<Rightarrow> master \<Rightarrow> (place option \<times> master) option" where
  "master_findConn cid m =
     (if cid > 0 then map_option (\<lambda>p. (p, m)) (master_find cid m)
      else if workers m = [] then None
      else
        (case up_get (- cid) (workers m ! 0) of
           (v, s) \<Rightarrow>
             (let m' = m\<lparr>workers := (workers m)[0 := s]\<rparr>
              in map_option (\<lambda>p. (p, m')) (master_find v m'))))"

definition master_remove :: "int \<Rightarrow> master \<Rightarrow> master option" where
  "master_remove cid m =
     map_option (\<lambda>k. m\<lparr>workers := (workers m)[k := slave_remove cid (workers m ! k)]\<rparr>)
       (worker_index cid (workers m))"

definition master_close :: "int \<Rightarrow> master \<Rightarrow> master option" where
  "master_close cid m =
     (if cid = -1 then Some m
      else (case worker_index cid (workers m) of
              None \<Rightarrow> None
            | Some k \<Rightarrow>
                (case slot_of (rid_of cid) (workers m ! k) of
                   None \<Rightarrow> Some m
                 | Some i \<Rightarrow> Some (m\<lparr>workers := update_conn (k, i) closeConn (workers m)\<rparr>))))"

definition master_closeConn :: "int \<Rightarrow> master \<Rightarrow> master option" where
  "master_closeConn cid m =
     (let rid = -1 - cid
      in if rid \<ge> TCP_CONN_IDX_MAX then Some m
         else if rid < 0 then master_close cid m
         else if workers m = [] then None
         else (case up_get rid (workers m ! 0) of
                 (v, s) \<Rightarrow> master_close v (m\<lparr>workers := (workers m)[0 := s]\<rparr>)))"

definition master_broadcast :: "(conduit \<Rightarrow> bool) \<Rightarrow> u8 list \<Rightarrow> master \<Rightarrow> master" where
  "master_broadcast pred bs m = m\<lparr>workers := map (slave_broadcast pred bs) (workers m)\<rparr>"

definition master_enumerate :: "(conduit \<Rightarrow> bool) \<Rightarrow> master \<Rightarrow> conduit list" where
  "master_enumerate p m = concat (map (\<lambda>s. enumerate_loop p (conduits s)) (workers m))"

definition master_getCount :: "master \<Rightarrow> u32" where
  "master_getCount m = fold (\<lambda>s n. n + conn_count s) (workers m) 0"

text \<open>
  \<^verbatim>\<open>on_server_read\<close>: the loop over the workers from the second on, then one round per
  accepted socket.
\<close>

fun least_loop :: "slave list \<Rightarrow> nat \<Rightarrow> u32 \<Rightarrow> nat \<Rightarrow> nat" where
  "least_loop [] i min_cap idx = idx"
| "least_loop (s # ws) i min_cap idx =
     (if conn_count s < min_cap then least_loop ws (Suc i) (conn_count s) i
      else least_loop ws (Suc i) min_cap idx)"

definition choose_worker :: "slave list \<Rightarrow> nat" where
  "choose_worker ws = least_loop (tl ws) 1 (conn_count (ws ! 0)) 0"

fun on_server_read :: "int list \<Rightarrow> master \<Rightarrow> master option" where
  "on_server_read [] m = Some m"
| "on_server_read (sock # socks) m =
     (if workers m = [] then None
      else
        (let idx = choose_worker (workers m)
         in on_server_read socks
              (m\<lparr>workers := (workers m)[idx := accepted sock (workers m ! idx)]\<rparr>)))"

fun init_connections :: "u16 list \<Rightarrow> slave \<Rightarrow> slave" where
  "init_connections [] s = s"
| "init_connections (k # ks) s = init_connections ks (initConnection (uint k) s)"

text \<open>\<^verbatim>\<open>onTimerCheck\<close>; the flag tells that the event loop is to be left.\<close>

definition master_onTimerCheck :: "master \<Rightarrow> bool \<times> master" where
  "master_onTimerCheck m =
     (if svc_running m
      then (False, m\<lparr>workers :=
              (workers m)[0 := init_connections (map fst (m_ServerConnectMap (svc_cfg m))) (workers m ! 0)]\<rparr>)
      else (True, m))"

definition master_uninit :: "master \<Rightarrow> master" where
  "master_uninit m =
     m\<lparr>svc_running := False, workers := map (\<lambda>s. s\<lparr>s_running := False\<rparr>) (workers m)\<rparr>"

text \<open>
  \<^verbatim>\<open>TcpMasterServer::destroy\<close>. Inside the class \<^verbatim>\<open>close(_socket)\<close> is the member function,
  which takes a connection id, and not the system call.
\<close>

definition master_destroy :: "master \<Rightarrow> master option" where
  "master_destroy m =
     (if m_socket m \<noteq> 0 then map_option (\<lambda>m'. m'\<lparr>m_socket := 0\<rparr>) (master_close (m_socket m) m)
      else Some m)"

section \<open>The client service\<close>

definition new_client_service :: service where
  "new_client_service =
     \<lparr>workers = [], svc_cfg = ServerCommonConfig 0xFF 1 0, svc_running = False\<rparr>"

definition client_postInitServer :: "service \<Rightarrow> service" where
  "client_postInitServer c =
     c\<lparr>workers := workers c @ [setServerConfig (svc_cfg c) (new_slave 0)]\<rparr>"

definition client_remove :: "int \<Rightarrow> service \<Rightarrow> service option" where
  "client_remove cid c =
     (if workers c = [] then None
      else Some (c\<lparr>workers := (workers c)[0 := slave_remove cid (workers c ! 0)]\<rparr>))"

definition client_close :: "int \<Rightarrow> service \<Rightarrow> service option" where
  "client_close cid c =
     (if cid = -1 then Some c
      else if workers c = [] then None
      else
        (case slot_of (unat (word_of_int cid :: u32)) (workers c ! 0) of
           None \<Rightarrow> Some c
         | Some i \<Rightarrow> Some (c\<lparr>workers := update_conn (0, i) closeConn (workers c)\<rparr>)))"

definition client_closeConn :: "int \<Rightarrow> service \<Rightarrow> service option" where
  "client_closeConn cid c =
     (let rid = -1 - cid
      in if rid \<ge> TCP_CONN_IDX_MAX then Some c
         else if rid < 0 then client_close cid c
         else if workers c = [] then None
         else (case up_get rid (workers c ! 0) of
                 (v, s) \<Rightarrow> client_close v (c\<lparr>workers := (workers c)[0 := s]\<rparr>)))"

definition client_find :: "int \<Rightarrow> service \<Rightarrow> place option option" where
  "client_find cid c =
     (if cid = -1 then Some None
      else if workers c = [] then None
      else Some (map_option (Pair 0) (slot_of (rid_of cid) (workers c ! 0))))"

definition client_findConn :: "int \<Rightarrow> service \<Rightarrow> (place option \<times> service) option" where
  "client_findConn cid c =
     (if cid > 0 then map_option (\<lambda>p. (p, c)) (client_find cid c)
      else if workers c = [] then None
      else
        (case up_get (- cid) (workers c ! 0) of
           (v, s) \<Rightarrow>
             (let c' = c\<lparr>workers := (workers c)[0 := s]\<rparr>
              in map_option (\<lambda>p. (p, c')) (client_find v c'))))"

definition AddConnectServer :: "u16 \<Rightarrow> string \<Rightarrow> u16 \<Rightarrow> service \<Rightarrow> service" where
  "AddConnectServer uid ip port c = c\<lparr>svc_cfg := AddConnectList_id uid ip port (svc_cfg c)\<rparr>"

definition client_getCount :: "service \<Rightarrow> u32 option" where
  "client_getCount c = (if workers c = [] then None else Some (0 + conn_count (workers c ! 0)))"

definition client_onTimerCheck :: "service \<Rightarrow> bool \<times> service" where
  "client_onTimerCheck c =
     (if svc_running c
      then (False, c\<lparr>workers :=
              (workers c)[0 := init_connections (map fst (m_ServerConnectMap (svc_cfg c))) (workers c ! 0)]\<rparr>)
      else (True, c))"

definition client_uninit :: "service \<Rightarrow> service option" where
  "client_uninit c =
     (if workers c = [] then None
      else Some (c\<lparr>svc_running := False,
                 workers := (workers c)[0 := (workers c ! 0)\<lparr>s_running := False\<rparr>]\<rparr>))"

section \<open>The wrappers\<close>

record server_wrapper =
  m_Active :: bool
  m_TcpService :: master

definition wrapper_UnInit :: "server_wrapper \<Rightarrow> server_wrapper" where
  "wrapper_UnInit w = \<lparr>m_Active = False, m_TcpService = master_uninit (m_TcpService w)\<rparr>"

definition wrapper_Close :: "int \<Rightarrow> server_wrapper \<Rightarrow> server_wrapper option" where
  "wrapper_Close sid w =
     (if \<not> m_Active w then Some w
      else map_option (\<lambda>m. w\<lparr>m_TcpService := m\<rparr>) (master_close sid (m_TcpService w)))"

definition GetConn :: "int \<Rightarrow> server_wrapper \<Rightarrow> place option option" where
  "GetConn sid w = (if \<not> m_Active w then Some None else master_find sid (m_TcpService w))"

definition send_at :: "place option \<Rightarrow> u8 list \<Rightarrow> master \<Rightarrow> master" where
  "send_at p bs m =
     (case p of None \<Rightarrow> m
      | Some pl \<Rightarrow> m\<lparr>workers := update_conn pl (conduit_send bs) (workers m)\<rparr>)"

definition SendMsgToClient :: "int \<Rightarrow> u8 list \<Rightarrow> server_wrapper \<Rightarrow> server_wrapper option" where
  "SendMsgToClient sid bs w =
     (if \<not> m_Active w then Some w
      else (case master_findConn sid (m_TcpService w) of
              None \<Rightarrow> None
            | Some (p, m) \<Rightarrow> Some (w\<lparr>m_TcpService := send_at p bs m\<rparr>)))"

definition SendMsgToClient_stream ::
    "int \<Rightarrow> wstream \<Rightarrow> server_wrapper \<Rightarrow> server_wrapper option" where
  "SendMsgToClient_stream sid st w =
     (if \<not> m_Active w then Some w
      else if stream_size st = 0 then Some w
      else (case master_findConn sid (m_TcpService w) of
              None \<Rightarrow> None
            | Some (p, m) \<Rightarrow>
                Some (w\<lparr>m_TcpService := send_at p (wbuf st) m\<rparr>)))"

definition Broadcast :: "(conduit \<Rightarrow> bool) \<Rightarrow> u8 list \<Rightarrow> server_wrapper \<Rightarrow> server_wrapper" where
  "Broadcast pred bs w =
     (if \<not> m_Active w then w else w\<lparr>m_TcpService := master_broadcast pred bs (m_TcpService w)\<rparr>)"

definition getOnlineNum :: "server_wrapper \<Rightarrow> u32" where
  "getOnlineNum w = (if \<not> m_Active w then 0 else master_getCount (m_TcpService w))"

record client_wrapper =
  cw_Active :: bool
  cw_Service :: service

definition client_Close :: "int \<Rightarrow> client_wrapper \<Rightarrow> client_wrapper option" where
  "client_Close sid w =
     (if \<not> cw_Active w then Some w
      else map_option (\<lambda>c. w\<lparr>cw_Service := c\<rparr>) (client_close sid (cw_Service w)))"

definition client_SendMsg :: "int \<Rightarrow> u8 list \<Rightarrow> client_wrapper \<Rightarrow> client_wrapper option" where
  "client_SendMsg sid bs w =
     (if \<not> cw_Active w then Some w
      else (case client_findConn (- sid) (cw_Service w) of
              None \<Rightarrow> None
            | Some (None, c) \<Rightarrow> Some (w\<lparr>cw_Service := c\<rparr>)
            | Some (Some pl, c) \<Rightarrow>
                Some (w\<lparr>cw_Service := c\<lparr>workers := update_conn pl (conduit_send bs) (workers c)\<rparr>\<rparr>)))"

definition client_SendMsg_stream ::
    "int \<Rightarrow> wstream \<Rightarrow> client_wrapper \<Rightarrow> client_wrapper option" where
  "client_SendMsg_stream sid st w =
     (if \<not> cw_Active w then Some w
      else if stream_size st = 0 then Some w
      else (case client_findConn sid (cw_Service w) of
              None \<Rightarrow> None
            | Some (None, c) \<Rightarrow> Some (w\<lparr>cw_Service := c\<rparr>)
            | Some (Some pl, c) \<Rightarrow>
                Some (w\<lparr>cw_Service := c\<lparr>workers := update_conn pl
                  (conduit_send (wbuf st)) (workers c)\<rparr>\<rparr>)))"

definition GetLoginSession :: int where "GetLoginSession = 0xFF00"

definition GetConnStatus :: "int \<Rightarrow> client_wrapper \<Rightarrow> (bool \<times> client_wrapper) option" where
  "GetConnStatus sid w =
     map_option (\<lambda>(p, c). (p \<noteq> None, w\<lparr>cw_Service := c\<rparr>)) (client_findConn (- sid) (cw_Service w))"

section \<open>Ids and places\<close>

definition master_inv :: "slave list \<Rightarrow> bool" where
  "master_inv ws \<longleftrightarrow>
     length ws = WORKERS \<and> (\<forall>k < WORKERS. slave_idx (ws ! k) = k \<and> slave_inv (ws ! k))"

text \<open>The connections of the service by id, and the connection at a place.\<close>

definition conn_map :: "slave list \<Rightarrow> int \<Rightarrow> conduit option" where
  "conn_map ws u = (if 0 \<le> u then slave_map (ws ! nat (u mod 2)) u else None)"

definition place_of :: "int \<Rightarrow> place" where
  "place_of u = (nat (u mod 2), nat (u div 2))"

definition conn_at :: "slave list \<Rightarrow> place \<Rightarrow> conduit option" where
  "conn_at ws pl = conduits (ws ! fst pl) ! snd pl"

lemma rid_of_nonneg: "0 \<le> cid \<Longrightarrow> cid < 2 ^ 32 \<Longrightarrow> rid_of cid = nat (cid div 2)"
proof -
  assume "0 \<le> cid" "cid < 2 ^ 32"
  then have "0 \<le> cid div 2" "cid div 2 < 2 ^ 32" by auto
  then show ?thesis using \<open>0 \<le> cid\<close>
    by (simp add: rid_of_def WORKERS_def unat_eq_nat_uint uint_word_of_int)
qed

lemma worker_index_nonneg:
  "0 \<le> cid \<Longrightarrow> length ws = WORKERS \<Longrightarrow> worker_index cid ws = Some (nat (cid mod 2))"
  by (simp add: worker_index_def Let_def WORKERS_def nat_less_iff)

lemma master_inv_at:
  assumes "master_inv ws" "0 \<le> cid"
  shows "slave_inv (ws ! nat (cid mod 2))" "int (slave_idx (ws ! nat (cid mod 2))) = cid mod 2"
    "nat (cid mod 2) < length ws"
proof -
  have "nat (cid mod 2) < WORKERS" by (simp add: WORKERS_def nat_less_iff)
  then show "slave_inv (ws ! nat (cid mod 2))" "nat (cid mod 2) < length ws"
    using assms by (simp_all add: master_inv_def)
  have "slave_idx (ws ! nat (cid mod 2)) = nat (cid mod 2)"
    using assms \<open>nat (cid mod 2) < WORKERS\<close> by (simp add: master_inv_def)
  then show "int (slave_idx (ws ! nat (cid mod 2))) = cid mod 2" by simp
qed

lemma conn_map_slot:
  assumes "master_inv ws" "0 \<le> cid"
  shows "conn_map ws cid =
    (if nat (cid div 2) < length (conduits (ws ! nat (cid mod 2)))
     then conduits (ws ! nat (cid mod 2)) ! nat (cid div 2) else None)"
  using master_inv_at [OF assms] assms(2) by (simp add: conn_map_def slave_map_def)

lemma slot_of_conn_map:
  assumes "master_inv ws" "0 \<le> cid" "cid < 2 ^ 32"
  shows "map_option (Pair (nat (cid mod 2))) (slot_of (rid_of cid) (ws ! nat (cid mod 2))) =
    (if conn_map ws cid = None then None else Some (place_of cid))"
  using assms by (auto simp: slot_of_def rid_of_nonneg conn_map_slot place_of_def)

lemma conn_map_uid:
  assumes inv: "master_inv ws" and c: "conn_map ws cid = Some c"
  shows "c_uid c = cid"
proof -
  have pos: "0 \<le> cid" using c by (simp add: conn_map_def split: if_splits)
  note at = master_inv_at [OF inv pos]
  have i: "nat (cid div 2) < length (conduits (ws ! nat (cid mod 2)))"
    "conduits (ws ! nat (cid mod 2)) ! nat (cid div 2) = Some c"
    using c conn_map_slot [OF inv pos] by (auto split: if_splits)
  have "c_uid c = uid_at (slave_idx (ws ! nat (cid mod 2))) (nat (cid div 2))"
    using at(1) i by (simp add: slave_inv_def)
  with uid_at_cases [OF pos at(2) [symmetric]] show ?thesis by simp
qed

lemma conn_at_place:
  assumes "master_inv ws" "conn_map ws cid = Some c"
  shows "conn_at ws (place_of cid) = Some c"
proof -
  have pos: "0 \<le> cid" using assms by (simp add: conn_map_def split: if_splits)
  then show ?thesis
    using conn_map_slot [OF assms(1) pos] assms(2)
    by (auto simp: conn_at_def place_of_def split: if_splits)
qed

text \<open>Changing a found connection changes it alone.\<close>

lemma slave_map_at_slot:
  assumes s: "slave_idx s < WORKERS" and i: "i < length (conduits s)"
  shows "slave_map (s\<lparr>conduits := (conduits s)[i := map_option f (conduits s ! i)]\<rparr>)
    = (slave_map s)(uid_at (slave_idx s) i := map_option f (slave_map s (uid_at (slave_idx s) i)))"
  using slave_map_update [OF assms] slave_map_at [OF assms] by simp

lemma conn_map_update:
  assumes inv: "master_inv ws" and c: "conn_map ws cid = Some c"
  shows "conn_map (update_conn (place_of cid) f ws) = (conn_map ws)(cid \<mapsto> f c)"
proof
  fix u
  have pos: "0 \<le> cid" using c by (simp add: conn_map_def split: if_splits)
  note at = master_inv_at [OF inv pos]
  let ?s = "ws ! nat (cid mod 2)" and ?i = "nat (cid div 2)"
  have i: "?i < length (conduits ?s)"
    using c conn_map_slot [OF inv pos] by (auto split: if_splits)
  have idx: "slave_idx ?s < WORKERS" using at(1) by (simp add: slave_inv_def)
  have uid: "uid_at (slave_idx ?s) ?i = cid" using uid_at_cases [OF pos at(2) [symmetric]] by simp
  have cm: "slave_map ?s cid = Some c" using c pos by (simp add: conn_map_def)
  have upd: "slave_map (?s\<lparr>conduits := (conduits ?s)[?i := map_option f (conduits ?s ! ?i)]\<rparr>)
      = (slave_map ?s)(cid \<mapsto> f c)"
    using slave_map_at_slot [OF idx i] uid cm by simp
  show "conn_map (update_conn (place_of cid) f ws) u = ((conn_map ws)(cid \<mapsto> f c)) u"
  proof (cases "0 \<le> u \<and> nat (u mod 2) = nat (cid mod 2)")
    case True
    then show ?thesis using upd at(3) pos
      by (simp add: conn_map_def update_conn_def place_of_def)
  next
    case False
    then show ?thesis using pos
      by (auto simp: conn_map_def update_conn_def place_of_def)
  qed
qed

lemma master_inv_update:
  assumes inv: "master_inv ws" and k: "k < WORKERS" and s: "slave_inv s" "slave_idx s = k"
  shows "master_inv (ws[k := s])"
  using assms by (auto simp: master_inv_def nth_list_update)

lemma slave_inv_update_slot:
  assumes inv: "slave_inv s" and i: "i < length (conduits s)" and f: "\<And>c. c_uid (f c) = c_uid c"
  shows "slave_inv (s\<lparr>conduits := (conduits s)[i := map_option f (conduits s ! i)]\<rparr>)"
proof -
  let ?cs = "(conduits s)[i := map_option f (conduits s ! i)]"
  have "free_slots ?cs = free_slots (conduits s)"
    using i by (auto simp: free_slots_def nth_list_update)
  moreover have "live_count ?cs = live_count (conduits s)"
    using live_count_update [OF i] live_count_split [OF i] by simp
  moreover have "?cs \<noteq> [] \<longrightarrow> last ?cs \<noteq> None"
    using inv i by (cases "i = length (conduits s) - 1")
      (auto simp: slave_inv_def last_conv_nth nth_list_update)
  ultimately show ?thesis using inv f i
    by (auto simp: slave_inv_def nth_list_update)
qed

lemma master_inv_update_conn:
  assumes inv: "master_inv ws" and c: "conn_map ws cid = Some c" and f: "\<And>c. c_uid (f c) = c_uid c"
  shows "master_inv (update_conn (place_of cid) f ws)"
proof -
  have pos: "0 \<le> cid" using c by (simp add: conn_map_def split: if_splits)
  note at = master_inv_at [OF inv pos]
  have "nat (cid div 2) < length (conduits (ws ! nat (cid mod 2)))"
    using c conn_map_slot [OF inv pos] by (auto split: if_splits)
  from slave_inv_update_slot [OF at(1) this f] show ?thesis
    using inv at(3) by (auto simp: update_conn_def place_of_def master_inv_def nth_list_update)
qed


section \<open>Finding\<close>

lemma master_find_spec:
  assumes "master_inv (workers m)" "0 \<le> cid" "cid < 2 ^ 32"
  shows "master_find cid m
    = Some (if conn_map (workers m) cid = None then None else Some (place_of cid))"
proof -
  have "length (workers m) = WORKERS" using assms(1) by (simp add: master_inv_def)
  from worker_index_nonneg [OF assms(2) this] slot_of_conn_map [OF assms] assms(2)
  show ?thesis by (simp add: master_find_def)
qed

text \<open>The entry for a peer that was never dialled reads as 0.\<close>

definition peer_id :: "int \<Rightarrow> slave list \<Rightarrow> int" where
  "peer_id k ws = (case connUp (ws ! 0) k of None \<Rightarrow> 0 | Some v \<Rightarrow> v)"

lemma up_get_peer: "\<exists>u. up_get k (ws ! 0) = (peer_id k ws, (ws ! 0)\<lparr>connUp := u\<rparr>)"
proof (cases "connUp (ws ! 0) k")
  case None
  then show ?thesis by (auto simp: up_get_def peer_id_def)
next
  case (Some v)
  have "ws ! 0 = (ws ! 0)\<lparr>connUp := connUp (ws ! 0)\<rparr>" by simp
  with Some show ?thesis unfolding up_get_def peer_id_def by (metis option.case(2))
qed

lemma conn_map_connUp [simp]:
  assumes "ws \<noteq> []"
  shows "conn_map (ws[0 := (ws ! 0)\<lparr>connUp := u\<rparr>]) = conn_map ws"
  using assms by (auto simp: conn_map_def fun_eq_iff nth_list_update)

lemma master_inv_connUp:
  "master_inv ws \<Longrightarrow> master_inv (ws[0 := (ws ! 0)\<lparr>connUp := u\<rparr>])"
  by (auto simp: master_inv_def nth_list_update)

lemma master_findConn_pos:
  "cid > 0 \<Longrightarrow> master_findConn cid m = map_option (\<lambda>p. (p, m)) (master_find cid m)"
  by (simp add: master_findConn_def)

lemma master_findConn_peer:
  assumes inv: "master_inv (workers m)" and k: "0 \<le> k"
    and v: "peer_id k (workers m) = -1 \<or> 0 \<le> peer_id k (workers m) \<and> peer_id k (workers m) < 2 ^ 32"
  shows "\<exists>u. master_findConn (- k) m =
    Some (if conn_map (workers m) (peer_id k (workers m)) = None then None
          else Some (place_of (peer_id k (workers m))),
          m\<lparr>workers := (workers m)[0 := (workers m ! 0)\<lparr>connUp := u\<rparr>]\<rparr>)"
proof -
  obtain u where u: "up_get k (workers m ! 0) = (peer_id k (workers m), (workers m ! 0)\<lparr>connUp := u\<rparr>)"
    using up_get_peer by blast
  have ne: "workers m \<noteq> []" using inv by (auto simp: master_inv_def WORKERS_def)
  let ?m = "m\<lparr>workers := (workers m)[0 := (workers m ! 0)\<lparr>connUp := u\<rparr>]\<rparr>"
  have inv': "master_inv (workers ?m)" using master_inv_connUp [OF inv] by simp
  have cm: "conn_map (workers ?m) = conn_map (workers m)" using conn_map_connUp [OF ne] by simp
  have "master_find (peer_id k (workers m)) ?m = Some (if conn_map (workers m) (peer_id k (workers m)) = None
      then None else Some (place_of (peer_id k (workers m))))"
  proof (cases "peer_id k (workers m) = -1")
    case True
    then show ?thesis by (simp add: master_find_def conn_map_def)
  next
    case False
    with v have "0 \<le> peer_id k (workers m)" "peer_id k (workers m) < 2 ^ 32" by simp_all
    from master_find_spec [OF inv' this] cm show ?thesis by simp
  qed
  with u k ne show ?thesis by (auto simp: master_findConn_def Let_def)
qed

section \<open>Closing and sending\<close>

lemma place_of_pair: "place_of cid = (nat (cid mod 2), nat (cid div 2))"
  by (simp add: place_of_def)

lemma master_close_spec:
  assumes inv: "master_inv (workers m)" and cid: "0 \<le> cid" "cid < 2 ^ 32"
  shows "master_close cid m =
    Some (if conn_map (workers m) cid = None then m
          else m\<lparr>workers := update_conn (place_of cid) closeConn (workers m)\<rparr>)"
proof -
  have "length (workers m) = WORKERS" using inv by (simp add: master_inv_def)
  note wi = worker_index_nonneg [OF cid(1) this]
  show ?thesis
    using slot_of_conn_map [OF inv cid] wi cid
    by (cases "slot_of (rid_of cid) (workers m ! nat (cid mod 2))")
      (auto simp: master_close_def place_of_pair split: if_splits)
qed

lemma c_uid_frame [simp]: "c_uid (closeConn c) = c_uid c" "c_uid (conduit_send bs c) = c_uid c"
  by (simp_all add: closeConn_def conduit_send_def)

lemma master_close_map:
  assumes inv: "master_inv (workers m)" and cid: "0 \<le> cid" "cid < 2 ^ 32"
  shows "\<exists>m'. master_close cid m = Some m' \<and> master_inv (workers m') \<and>
    conn_map (workers m') =
      (conn_map (workers m))(cid := map_option closeConn (conn_map (workers m) cid))"
proof (cases "conn_map (workers m) cid")
  case None
  then show ?thesis using master_close_spec [OF assms] inv by (simp add: fun_upd_idem)
next
  case (Some c)
  then show ?thesis
    using master_close_spec [OF assms] conn_map_update [OF inv Some] master_inv_update_conn [OF inv Some]
    by simp
qed

lemma send_at_map:
  assumes inv: "master_inv (workers m)"
  shows "conn_map (workers (send_at (if conn_map (workers m) cid = None then None
      else Some (place_of cid)) bs m)) =
    (conn_map (workers m))(cid := map_option (conduit_send bs) (conn_map (workers m) cid))"
proof (cases "conn_map (workers m) cid")
  case None
  then show ?thesis by (simp add: send_at_def fun_upd_idem)
next
  case (Some c)
  then show ?thesis using conn_map_update [OF inv Some] by (simp add: send_at_def)
qed

section \<open>Distributing accepted sockets\<close>

lemma least_loop_spec:
  assumes "\<forall>k < i. mc \<le> conn_count (ws ! k)" "idx < i" "conn_count (ws ! idx) = mc"
    "i + length rest = length ws" "\<And>k. k < length rest \<Longrightarrow> rest ! k = ws ! (i + k)"
  shows "least_loop rest i mc idx < length ws \<and>
    (\<forall>k < length ws. conn_count (ws ! least_loop rest i mc idx) \<le> conn_count (ws ! k))"
  using assms
proof (induction rest i mc idx rule: least_loop.induct)
  case (1 i mc idx)
  then show ?case by simp
next
  case (2 s rest i mc idx)
  have s: "s = ws ! i" using "2.prems"(5) [of 0] by simp
  have rest: "rest ! k = ws ! (Suc i + k)" if "k < length rest" for k
    using "2.prems"(5) [of "Suc k"] that by simp
  show ?case
  proof (cases "conn_count s < mc")
    case True
    have "\<forall>k < Suc i. conn_count s \<le> conn_count (ws ! k)"
      using True "2.prems"(1) s by (auto simp: less_Suc_eq)
    from "2.IH"(1) [OF True this] "2.prems"(4) s rest
    show ?thesis unfolding least_loop.simps if_P [OF True] by simp
  next
    case False
    have "\<forall>k < Suc i. mc \<le> conn_count (ws ! k)"
      using False "2.prems"(1) s by (auto simp: less_Suc_eq)
    from "2.IH"(2) [OF False this] "2.prems"(2-4) rest
    show ?thesis unfolding least_loop.simps if_not_P [OF False] by simp
  qed
qed

lemma choose_worker_spec:
  assumes "ws \<noteq> []"
  shows "choose_worker ws < length ws"
    and "k < length ws \<Longrightarrow> conn_count (ws ! choose_worker ws) \<le> conn_count (ws ! k)"
proof -
  have "least_loop (tl ws) 1 (conn_count (ws ! 0)) 0 < length ws \<and>
    (\<forall>k < length ws. conn_count (ws ! least_loop (tl ws) 1 (conn_count (ws ! 0)) 0) \<le> conn_count (ws ! k))"
    using assms by (intro least_loop_spec) (auto simp: nth_tl)
  then show "choose_worker ws < length ws"
    "k < length ws \<Longrightarrow> conn_count (ws ! choose_worker ws) \<le> conn_count (ws ! k)"
    by (auto simp: choose_worker_def)
qed

lemma least_loop_cong:
  "map conn_count ws = map conn_count ws' \<Longrightarrow> least_loop ws i mc idx = least_loop ws' i mc idx"
proof (induction ws arbitrary: ws' i mc idx)
  case Nil
  then show ?case by simp
next
  case (Cons s ws)
  then obtain s' rest where "ws' = s' # rest" "conn_count s = conn_count s'"
    "map conn_count ws = map conn_count rest" by (auto simp: map_eq_Cons_conv)
  with Cons.IH [of rest] show ?case by simp
qed

lemma choose_worker_cong:
  assumes "map conn_count ws = map conn_count ws'" "ws \<noteq> []"
  shows "choose_worker ws = choose_worker ws'"
proof -
  have "ws' \<noteq> []" using assms by auto
  moreover have "map conn_count (tl ws) = map conn_count (tl ws')"
    using assms(1) by (metis map_tl)
  moreover have "conn_count (ws ! 0) = conn_count (ws' ! 0)"
    using assms \<open>ws' \<noteq> []\<close> by (metis length_greater_0_conv nth_map)
  ultimately show ?thesis using least_loop_cong [of "tl ws" "tl ws'"] by (simp add: choose_worker_def)
qed

lemma accepted_frame [simp]:
  "conn_count (accepted ss s) = conn_count s" "opList (accepted ss s) = opList s @ [OpAccept ss]"
  "slave_map (accepted ss s) = slave_map s"
  by (simp_all add: accepted_def)

text \<open>One burst of sockets goes to one worker: the counts change only in the worker's loop.\<close>

lemma on_server_read_burst:
  assumes "workers m \<noteq> []"
  shows "on_server_read socks m = Some (m\<lparr>workers :=
    (workers m)[choose_worker (workers m) := fold accepted socks (workers m ! choose_worker (workers m))]\<rparr>)"
  using assms
proof (induction socks arbitrary: m)
  case Nil
  then show ?case by simp
next
  case (Cons sock socks)
  let ?i = "choose_worker (workers m)"
  let ?m = "m\<lparr>workers := (workers m)[?i := accepted sock (workers m ! ?i)]\<rparr>"
  have i: "?i < length (workers m)" using choose_worker_spec(1) [OF Cons.prems] .
  have "map conn_count (workers ?m) = map conn_count (workers m)"
    using i by (simp add: map_update) (metis list_update_id nth_map)
  then have same: "choose_worker (workers ?m) = ?i"
    using choose_worker_cong [of "workers ?m" "workers m"] Cons.prems by simp
  have "workers ?m \<noteq> []" using Cons.prems by simp
  from Cons.IH [OF this] same i Cons.prems show ?case by (simp add: Let_def)
qed

section \<open>Delivering through a directory of connections\<close>

text \<open>
  What the wrappers rely on in either service: ids find the connection of that id, and a
  change at the place found changes this connection alone.
\<close>

locale directory =
  fixes find :: "int \<Rightarrow> 's \<Rightarrow> place option option"
    and view :: "'s \<Rightarrow> int \<Rightarrow> conduit option"
    and upd :: "place \<Rightarrow> (conduit \<Rightarrow> conduit) \<Rightarrow> 's \<Rightarrow> 's"
    and inv :: "'s \<Rightarrow> bool"
    and own :: "int \<Rightarrow> bool"
  assumes find_none: "inv s \<Longrightarrow> own cid \<Longrightarrow> view s cid = None \<Longrightarrow> find cid s = Some None"
    and find_some: "inv s \<Longrightarrow> own cid \<Longrightarrow> view s cid = Some c \<Longrightarrow>
      \<exists>pl. find cid s = Some (Some pl) \<and> view (upd pl f s) = (view s)(cid \<mapsto> f c) \<and>
        ((\<forall>c. c_uid (f c) = c_uid c) \<longrightarrow> inv (upd pl f s))"
    and view_uid: "inv s \<Longrightarrow> view s cid = Some c \<Longrightarrow> c_uid c = cid"
begin

definition deliver :: "int \<times> u8 list \<Rightarrow> 's \<Rightarrow> 's" where
  "deliver m s =
     (case find (fst m) s of
        Some (Some pl) \<Rightarrow> upd pl (conduit_send (snd m)) s
      | _ \<Rightarrow> s)"

lemma deliver_view:
  assumes "inv s" "own (fst m)"
  shows "view (deliver m s) = (view s)(fst m := map_option (conduit_send (snd m)) (view s (fst m)))"
    and "inv (deliver m s)"
proof -
  have "view (deliver m s) = (view s)(fst m := map_option (conduit_send (snd m)) (view s (fst m)))
      \<and> inv (deliver m s)"
  proof (cases "view s (fst m)")
    case None
    with find_none [OF assms None] show ?thesis using assms(1) by (auto simp: deliver_def fun_upd_idem)
  next
    case (Some c)
    obtain pl where pl: "find (fst m) s = Some (Some pl)"
      "view (upd pl (conduit_send (snd m)) s) = (view s)(fst m \<mapsto> conduit_send (snd m) c)"
      "(\<forall>c. c_uid (conduit_send (snd m) c) = c_uid c) \<longrightarrow> inv (upd pl (conduit_send (snd m)) s)"
      using find_some [OF assms Some, of "conduit_send (snd m)"] by blast
    then show ?thesis using Some by (simp add: deliver_def)
  qed
  then show "view (deliver m s) = (view s)(fst m := map_option (conduit_send (snd m)) (view s (fst m)))"
    "inv (deliver m s)" by blast+
qed

text \<open>Each connection gets exactly the messages addressed to it, in their order.\<close>

lemma deliver_all:
  assumes "inv s" "\<And>m. m \<in> set ms \<Longrightarrow> own (fst m)"
  shows "inv (fold deliver ms s) \<and> view (fold deliver ms s) u =
    map_option (fold conduit_send (map snd (filter (\<lambda>m. fst m = u) ms))) (view s u)"
  using assms
proof (induction ms arbitrary: s)
  case Nil
  then show ?case by (simp add: option.map_id0 [unfolded id_def])
next
  case (Cons m ms)
  have own: "own (fst m)" using Cons.prems by simp
  note d = deliver_view [OF Cons.prems(1) own]
  from Cons.IH [OF d(2)] Cons.prems show ?case
    by (auto simp: d(1) option.map_comp comp_def)
qed

lemma deliver_out:
  assumes "inv s" "\<And>m. m \<in> set ms \<Longrightarrow> own (fst m)" and c: "view s u = Some c" "c_bev c"
  shows "\<exists>c'. view (fold deliver ms s) u = Some c' \<and>
    c_out c' = c_out c @ concat (map snd (filter (\<lambda>m. fst m = u) ms))"
proof -
  have "c_bev c \<Longrightarrow> c_out (fold conduit_send bss c) = c_out c @ concat bss" for bss and c :: conduit
    by (induction bss arbitrary: c) (simp_all add: conduit_send_def)
  with deliver_all [OF assms(1,2), of ms u] c show ?thesis by auto
qed

end

interpretation master_dir: directory master_find "\<lambda>m. conn_map (workers m)"
  "\<lambda>pl f m. m\<lparr>workers := update_conn pl f (workers m)\<rparr>" "\<lambda>m. master_inv (workers m)"
  "\<lambda>cid. 0 \<le> cid \<and> cid < 2 ^ 32"
proof (unfold_locales, goal_cases)
  case (1 s cid)
  then show ?case using master_find_spec by simp
next
  case (2 s cid c f)
  then have "master_find cid s = Some (Some (place_of cid))" using master_find_spec by simp
  with 2 conn_map_update [of "workers s" cid c f] master_inv_update_conn [of "workers s" cid c f]
  show ?case by auto
next
  case (3 s cid c)
  then show ?case using conn_map_uid by blast
qed

text \<open>The client service has one slave, so its ids are even.\<close>

definition client_inv :: "slave list \<Rightarrow> bool" where
  "client_inv ws \<longleftrightarrow> (\<exists>s. ws = [s] \<and> slave_idx s = 0 \<and> slave_inv s)"

interpretation client_dir: directory client_find "\<lambda>c. slave_map (workers c ! 0)"
  "\<lambda>pl f c. c\<lparr>workers := update_conn pl f (workers c)\<rparr>" "\<lambda>c. client_inv (workers c)"
  "\<lambda>cid. 0 \<le> cid \<and> cid < 2 ^ 32 \<and> cid mod 2 = 0"
proof (unfold_locales, goal_cases)
  case (1 c cid)
  then obtain s where s: "workers c = [s]" "slave_idx s = 0" by (auto simp: client_inv_def)
  have "slave_map s cid = None" using 1(3) s(1) by simp
  then have "\<not> (nat (cid div 2) < length (conduits s) \<and> conduits s ! nat (cid div 2) \<noteq> None)"
    using 1(2) s(2) by (auto simp: slave_map_def)
  then show ?case using 1 s by (auto simp: client_find_def slot_of_def rid_of_nonneg)
next
  case (2 c cid d f)
  then obtain s where s: "workers c = [s]" "slave_idx s = 0" "slave_inv s" by (auto simp: client_inv_def)
  let ?i = "nat (cid div 2)"
  have d: "slave_map s cid = Some d" using 2(3) s(1) by simp
  then have i: "?i < length (conduits s)" "conduits s ! ?i = Some d"
    by (auto simp: slave_map_def split: if_splits)
  have uid: "uid_at (slave_idx s) ?i = cid"
    using uid_at_cases [of cid "slave_idx s"] 2(2) s(2) by simp
  have "client_find cid c = Some (Some (0, ?i))"
    using 2 s i by (auto simp: client_find_def slot_of_def rid_of_nonneg)
  moreover have "slave_map (s\<lparr>conduits := (conduits s)[?i := map_option f (conduits s ! ?i)]\<rparr>)
      = (slave_map s)(cid \<mapsto> f d)"
    using slave_map_at_slot [of s ?i f] i uid d s(2) by (simp add: WORKERS_def)
  moreover have "slave_inv (s\<lparr>conduits := (conduits s)[?i := map_option f (conduits s ! ?i)]\<rparr>)"
    if "\<forall>c. c_uid (f c) = c_uid c"
    using slave_inv_update_slot [OF s(3) i(1), of f] that by blast
  ultimately show ?case
    by (auto simp: s update_conn_def client_inv_def)
next
  case (3 c cid d)
  then obtain s where s: "workers c = [s]" "slave_idx s = 0" "slave_inv s" by (auto simp: client_inv_def)
  have d: "slave_map s cid = Some d" using 3(2) s(1) by simp
  then have i: "0 \<le> cid" "cid mod 2 = 0" "nat (cid div 2) < length (conduits s)"
    "conduits s ! nat (cid div 2) = Some d"
    by (auto simp: slave_map_def s(2) split: if_splits)
  have "c_uid d = uid_at (slave_idx s) (nat (cid div 2))" using s(3) i by (simp add: slave_inv_def)
  then show ?case using uid_at_cases [of cid "slave_idx s"] i(1,2) s(2) by simp
qed

text \<open>
  \<^verbatim>\<open>TcpClientService::close\<close> takes the id for the slot: for the connection in slot \<open>i\<close>
  (id \<open>2 * i\<close>) it closes the connection in slot \<open>2 * i\<close>.
\<close>

lemma client_close_slot:
  assumes inv: "client_inv (workers c)" and cid: "0 \<le> cid" "cid < 2 ^ 31"
  shows "\<exists>c'. client_close cid c = Some c' \<and> slave_map (workers c' ! 0) =
    (slave_map (workers c ! 0))(2 * cid := map_option closeConn (slave_map (workers c ! 0) (2 * cid)))"
proof -
  obtain s where s: "workers c = [s]" "slave_idx s = 0" "slave_inv s"
    using inv by (auto simp: client_inv_def)
  let ?i = "nat cid"
  have w: "unat (word_of_int cid :: u32) = ?i"
    using cid by (simp add: unat_eq_nat_uint uint_word_of_int)
  have uid: "uid_at (slave_idx s) ?i = 2 * cid" using cid by (simp add: uid_at_def s(2))
  have sm: "slave_map s (2 * cid) = (if ?i < length (conduits s) then conduits s ! ?i else None)"
    using cid by (simp add: slave_map_def s(2))
  show ?thesis
  proof (cases "slave_map s (2 * cid)")
    case None
    then have "slot_of ?i s = None" using sm by (simp add: slot_of_def split: if_splits)
    then have "client_close cid c = Some c" using cid by (simp add: client_close_def s(1) w)
    with None show ?thesis by (simp add: s(1) fun_upd_idem)
  next
    case (Some d)
    then have i: "?i < length (conduits s)" "conduits s ! ?i = Some d" using sm by (auto split: if_splits)
    have "client_close cid c = Some (c\<lparr>workers := update_conn (0, ?i) closeConn (workers c)\<rparr>)"
      using cid i by (simp add: client_close_def s(1) w slot_of_def)
    moreover have "slave_map (s\<lparr>conduits := (conduits s)[?i := map_option closeConn (conduits s ! ?i)]\<rparr>)
      = (slave_map s)(2 * cid \<mapsto> closeConn d)"
      using slave_map_at_slot [of s ?i closeConn] i uid Some s(2) by (simp add: WORKERS_def)
    ultimately show ?thesis using Some by (simp add: s(1) update_conn_def)
  qed
qed

section \<open>An example service\<close>

text \<open>
  A service with client connections 0 and 2 in the two slots of its first worker, and a
  client service with the same slave.
\<close>

definition ex_slave :: slave where
  "ex_slave = (new_slave 0)\<lparr>conduits := [Some (new_conduit GameClient 0 0), Some (new_conduit GameClient 2 0)],
     conn_count := 2, s_running := True\<rparr>"

definition ex_master :: master where
  "ex_master = \<lparr>workers = [ex_slave, new_slave 1], svc_cfg = ServerCommonConfig 1 1 8889,
     svc_running = True, m_socket = 5\<rparr>"

definition ex_client :: service where
  "ex_client = \<lparr>workers = [ex_slave], svc_cfg = ServerCommonConfig 0xFF 1 0, svc_running = True\<rparr>"

lemma ex_slave_inv: "slave_inv ex_slave" "slave_idx ex_slave = 0"
proof -
  have "free_slots (conduits ex_slave) = {}"
    by (auto simp: free_slots_def ex_slave_def less_Suc_eq)
  moreover have "c_uid c = uid_at 0 i"
    if "i < length (conduits ex_slave)" "conduits ex_slave ! i = Some c" for i c
    using that by (auto simp: ex_slave_def less_Suc_eq new_conduit_def uid_at_def)
  ultimately show "slave_inv ex_slave"
    by (auto simp: slave_inv_def ex_slave_def new_slave_def WORKERS_def max_conns_def live_count_def)
  show "slave_idx ex_slave = 0" by (simp add: ex_slave_def new_slave_def)
qed

lemma ex_master_inv: "master_inv (workers ex_master)"
  using ex_slave_inv slave_inv_new [of 1]
  by (auto simp: master_inv_def ex_master_def WORKERS_def less_Suc_eq numeral_2_eq_2 new_slave_def)

lemma ex_conn_map: "conn_map (workers ex_master) 2 = Some (new_conduit GameClient 2 0)"
  by (simp add: conn_map_def ex_master_def slave_map_def ex_slave_def new_slave_def)

lemma ex_conn_map0: "conn_map (workers ex_master) 0 = Some (new_conduit GameClient 0 0)"
  by (simp add: conn_map_def ex_master_def slave_map_def ex_slave_def new_slave_def)

lemma ex_client_inv: "client_inv (workers ex_client)"
  using ex_slave_inv by (simp add: client_inv_def ex_client_def)


section \<open>Properties\<close>

text \<open>
  Looking a connection up by a non-negative id gives the connection with exactly this
  id, or none when the id is not in use, whichever worker it belongs to.
\<close>

theorem find_is_exact:
  assumes "master_inv (workers m)" and "0 \<le> cid" and "cid < 2 ^ 31"
  shows "(case conn_map (workers m) cid of
      None \<Rightarrow> master_find cid m = Some None
    | Some c \<Rightarrow> c_uid c = cid \<and>
        (\<exists>pl. master_find cid m = Some (Some pl) \<and> conn_at (workers m) pl = Some c))"
  using master_find_spec [OF assms(1,2)] assms(3) conn_map_uid [OF assms(1)] conn_at_place [OF assms(1)]
  by (auto split: option.split)

theorem find_is_exact_witness:
  "\<exists>pl. master_find 2 ex_master = Some (Some pl) \<and>
     conn_at (workers ex_master) pl = Some (new_conduit GameClient 2 0)"
  using find_is_exact [OF ex_master_inv, of 2] by (simp add: ex_conn_map)

text \<open>
  Closing by id shuts down the connection with this id and leaves every other connection
  as it was.
\<close>

theorem close_is_exact:
  assumes "master_inv (workers m)" and "0 \<le> cid" and "cid < 2 ^ 31"
  shows "\<exists>m'. master_close cid m = Some m' \<and> master_inv (workers m') \<and>
    conn_map (workers m') = (conn_map (workers m))(cid := map_option closeConn (conn_map (workers m) cid))"
  using master_close_map [OF assms(1,2)] assms(3) by simp

theorem close_is_exact_witness:
  "\<exists>m'. master_close 2 ex_master = Some m' \<and> conn_map (workers m') =
    (conn_map (workers ex_master))(2 \<mapsto> closeConn (new_conduit GameClient 2 0))"
  using close_is_exact [OF ex_master_inv, of 2] by (auto simp: ex_conn_map)

text \<open>
  A burst of accepted sockets goes to a single worker, one that had no more connections
  than any other when the burst was read.
\<close>

theorem accept_least_loaded:
  assumes "workers m \<noteq> []"
  shows "\<exists>k < length (workers m).
    on_server_read socks m
      = Some (m\<lparr>workers := (workers m)[k := fold accepted socks (workers m ! k)]\<rparr>) \<and>
    (\<forall>j < length (workers m). conn_count (workers m ! k) \<le> conn_count (workers m ! j))"
  using on_server_read_burst [OF assms] choose_worker_spec [OF assms] by blast

theorem accept_least_loaded_witness:
  "\<exists>k < length (workers ex_master). on_server_read [7, 8] ex_master
      = Some (ex_master\<lparr>workers := (workers ex_master)[k := fold accepted [7, 8] (workers ex_master ! k)]\<rparr>)"
  using accept_least_loaded [of ex_master "[7, 8]"] by (auto simp: ex_master_def)

text \<open>
  As long as a server has not been dialled (or its dialling is still pending), a message
  sent to it by its number is queued on the connection with id 0, whoever that is.
\<close>

theorem pending_peer_misrouted:
  assumes "m_Active w" and "master_inv (workers (m_TcpService w))" and "0 < k"
    and "connUp (workers (m_TcpService w) ! 0) k \<in> {None, Some 0}"
    and "conn_map (workers (m_TcpService w)) 0 = Some c"
  shows "\<exists>w'. SendMsgToClient (- k) bs w = Some w' \<and>
    conn_map (workers (m_TcpService w')) 0 = Some (conduit_send bs c)"
proof -
  let ?m = "m_TcpService w"
  have p: "peer_id k (workers ?m) = 0" using assms(4) by (auto simp: peer_id_def)
  then obtain u where f: "master_findConn (- k) ?m = Some (Some (place_of 0),
      ?m\<lparr>workers := (workers ?m)[0 := (workers ?m ! 0)\<lparr>connUp := u\<rparr>]\<rparr>)"
    using master_findConn_peer [OF assms(2), of k] assms(3,5) by auto
  let ?m' = "?m\<lparr>workers := (workers ?m)[0 := (workers ?m ! 0)\<lparr>connUp := u\<rparr>]\<rparr>"
  have inv: "master_inv (workers ?m')" using master_inv_connUp [OF assms(2)] by simp
  have "workers ?m \<noteq> []" using assms(2) by (auto simp: master_inv_def WORKERS_def)
  then have c: "conn_map (workers ?m') 0 = Some c" using assms(5) by simp
  have "conn_map (workers (send_at (Some (place_of 0)) bs ?m')) 0 = Some (conduit_send bs c)"
    using send_at_map [OF inv, of 0 bs] c by simp
  then show ?thesis using f assms(1) by (simp add: SendMsgToClient_def)
qed

theorem pending_peer_misrouted_witness:
  "\<exists>w'. SendMsgToClient (-5) [1, 2] \<lparr>m_Active = True, m_TcpService = ex_master\<rparr> = Some w' \<and>
    conn_map (workers (m_TcpService w')) 0 = Some (conduit_send [1, 2] (new_conduit GameClient 0 0))"
proof -
  have "connUp (workers ex_master ! 0) 5 = None"
    by (simp add: ex_master_def ex_slave_def new_slave_def)
  then show ?thesis
    using pending_peer_misrouted [of "\<lparr>m_Active = True, m_TcpService = ex_master\<rparr>" 5
        "new_conduit GameClient 0 0" "[1, 2]"] ex_master_inv ex_conn_map0 by simp
qed

text \<open>
  The client service closes the wrong connection: asked to close the connection with id
  \<open>cid\<close> it shuts down the one with id \<open>2 * cid\<close> instead, if there is one.
\<close>

theorem client_close_wrong_connection:
  assumes "client_inv (workers c)" and "0 < cid" and "cid < 2 ^ 31"
  shows "\<exists>c'. client_close cid c = Some c' \<and>
    slave_map (workers c' ! 0) cid = slave_map (workers c ! 0) cid \<and>
    slave_map (workers c' ! 0) (2 * cid) = map_option closeConn (slave_map (workers c ! 0) (2 * cid))"
  using client_close_slot [OF assms(1) _ assms(3)] assms(2) by auto

theorem client_close_wrong_connection_witness:
  "\<exists>c'. client_close 1 ex_client = Some c' \<and>
    slave_map (workers c' ! 0) 2 = Some (closeConn (new_conduit GameClient 2 0))"
proof -
  have "slave_map (workers ex_client ! 0) 2 = Some (new_conduit GameClient 2 0)"
    by (simp add: slave_map_def ex_client_def ex_slave_def new_slave_def)
  then show ?thesis using client_close_wrong_connection [OF ex_client_inv, of 1] by auto
qed

text \<open>
  \<^verbatim>\<open>TcpMasterServer::destroy\<close> means to close the listening socket but calls its own
  \<^verbatim>\<open>close\<close>: it shuts down the client connection whose id is the descriptor's number.
\<close>

theorem destroy_closes_connection:
  assumes "master_inv (workers m)" and "0 < m_socket m" and "m_socket m < 2 ^ 31"
  shows "\<exists>m'. master_destroy m = Some m' \<and> m_socket m' = 0 \<and>
    conn_map (workers m') = (conn_map (workers m))
      (m_socket m := map_option closeConn (conn_map (workers m) (m_socket m)))"
proof -
  obtain m' where "master_close (m_socket m) m = Some m'" "conn_map (workers m')
      = (conn_map (workers m))(m_socket m := map_option closeConn (conn_map (workers m) (m_socket m)))"
    using master_close_map [OF assms(1), of "m_socket m"] assms(2,3) by auto
  then show ?thesis using assms(2) by (simp add: master_destroy_def)
qed

theorem destroy_closes_connection_witness:
  "\<exists>m'. master_destroy (ex_master\<lparr>m_socket := 2\<rparr>) = Some m' \<and>
    conn_map (workers m') 2 = Some (closeConn (new_conduit GameClient 2 0))"
  using destroy_closes_connection [of "ex_master\<lparr>m_socket := 2\<rparr>"] ex_master_inv ex_conn_map by auto

end
