(* ===== verification/Msg_Pool.thy ===== *)
theory Msg_Pool
  imports Msg_Types
begin

text \<open>
  \<^verbatim>\<open>Common/MemBlockPool\<close> and the allocator of \<^verbatim>\<open>Server/GlobalObject\<close>: message blocks
  come from ten pools of doubling block size, or from \<^verbatim>\<open>malloc\<close> when they are larger than
  the largest pool; the requested size, stored in front of the user's data, says on release
  where the block goes.

  A block of the heap is an identifier with the bytes from its \<^verbatim>\<open>data\<close> member (pool blocks)
  or its start (direct blocks) on; the user's pointer is 8 bytes behind that, so a block and
  the user's pointer into it have the same identifier here. \<^verbatim>\<open>malloc\<close> is a parameter: for a
  size it yields the indeterminate bytes of the new block, or nothing.
\<close>

type_synonym ptr = nat
type_synonym malloc = "nat \<Rightarrow> u8 list option"

definition malloc_ok :: "malloc \<Rightarrow> bool" where
  "malloc_ok mal \<longleftrightarrow> (\<forall>n bs. mal n = Some bs \<longrightarrow> length bs = n)"

record heap =
  h_blocks :: "ptr \<Rightarrow> u8 list option"
  h_fresh :: ptr

section \<open>One pool\<close>

text \<open>The list of free blocks is the linked list from \<^verbatim>\<open>m_pBlockList\<close>.\<close>

record mem_pool =
  m_Size :: nat
  m_BlockList :: "ptr list"

definition MemBlockPool :: "nat \<Rightarrow> mem_pool" where
  "MemBlockPool sz = \<lparr>m_Size = sz, m_BlockList = []\<rparr>"

definition heap_new :: "u8 list \<Rightarrow> heap \<Rightarrow> ptr \<times> heap" where
  "heap_new bs h =
     (h_fresh h, h\<lparr>h_blocks := (h_blocks h)(h_fresh h \<mapsto> bs), h_fresh := Suc (h_fresh h)\<rparr>)"

text \<open>
  \<^verbatim>\<open>Alloc\<close>: the head of the free list, or a new block of \<open>sizeof(MemBlock) + m_Size\<close>
  bytes, of which those after the 8-byte \<^verbatim>\<open>next\<close> pointer are the data.
\<close>

definition pool_Alloc :: "malloc \<Rightarrow> mem_pool \<Rightarrow> heap \<Rightarrow> ptr option \<times> mem_pool \<times> heap" where
  "pool_Alloc mal p h =
     (case m_BlockList p of
        b # bs \<Rightarrow> (Some b, p\<lparr>m_BlockList := bs\<rparr>, h)
      | [] \<Rightarrow>
          (case mal (16 + m_Size p) of
             None \<Rightarrow> (None, p, h)
           | Some raw \<Rightarrow> (case heap_new (drop 8 raw) h of (b, h') \<Rightarrow> (Some b, p, h'))))"

definition pool_Free :: "ptr option \<Rightarrow> mem_pool \<Rightarrow> mem_pool" where
  "pool_Free ptr p =
     (case ptr of None \<Rightarrow> p | Some b \<Rightarrow> p\<lparr>m_BlockList := b # m_BlockList p\<rparr>)"

text \<open>The destructor releases the free blocks.\<close>

fun pool_destroy :: "ptr list \<Rightarrow> heap \<Rightarrow> heap" where
  "pool_destroy [] h = h"
| "pool_destroy (b # bs) h = pool_destroy bs (h\<lparr>h_blocks := (h_blocks h)(b := None)\<rparr>)"

section \<open>The allocator of GlobalObject\<close>

definition MIN_MEMBLOCK_SIZE :: nat where "MIN_MEMBLOCK_SIZE = 128"
definition MEMPOOL_NUM :: nat where "MEMPOOL_NUM = 10"

text \<open>The object: its pools (null until \<^verbatim>\<open>Init\<close>), the largest pool size and the one queue.\<close>

record gobj =
  g_heap :: heap
  g_pools :: "mem_pool option list"
  m_MaxPoolSize :: nat
  m_MsgQueue :: "ptr queue"

definition GlobalObject :: "heap \<Rightarrow> gobj" where
  "GlobalObject h =
     \<lparr>g_heap = h, g_pools = replicate MEMPOOL_NUM None, m_MaxPoolSize = 0, m_MsgQueue = []\<rparr>"

fun Init_loop :: "nat \<Rightarrow> nat \<Rightarrow> nat \<Rightarrow> gobj \<Rightarrow> gobj" where
  "Init_loop 0 i sz g = g"
| "Init_loop (Suc n) i sz g =
     Init_loop n (Suc i) (sz * 2)
       (g\<lparr>m_MaxPoolSize := sz, g_pools := (g_pools g)[i := Some (MemBlockPool sz)]\<rparr>)"

definition gobj_Init :: "gobj \<Rightarrow> gobj" where
  "gobj_Init g = Init_loop MEMPOOL_NUM 0 MIN_MEMBLOCK_SIZE g"

text \<open>
  The search for the pool, shared by both directions:
  \<^verbatim>\<open>while(size > poolSize){ ++index; poolSize *= 2; }\<close> on \<^verbatim>\<open>size_t\<close> values.
\<close>

partial_function (option) pool_index :: "nat \<Rightarrow> nat \<Rightarrow> nat \<Rightarrow> nat option" where
  "pool_index sz index poolSize =
     (if sz > poolSize then pool_index sz (Suc index) (poolSize * 2 mod 2 ^ 64)
      else Some index)"

text \<open>A store of the \<^verbatim>\<open>size_t\<close> in front of the block.\<close>

definition store_size :: "ptr \<Rightarrow> nat \<Rightarrow> heap \<Rightarrow> heap option" where
  "store_size b sz h =
     (case h_blocks h b of
        None \<Rightarrow> None
      | Some bs \<Rightarrow>
          if length bs < 8 then None
          else Some (h\<lparr>h_blocks := (h_blocks h)(b \<mapsto> overwrite bs 0 (obj_bytes (of_nat sz :: u64)))\<rparr>))"

definition load_size :: "ptr \<Rightarrow> heap \<Rightarrow> nat option" where
  "load_size b h =
     (case h_blocks h b of
        None \<Rightarrow> None
      | Some bs \<Rightarrow> if length bs < 8 then None else Some (le_val (take 8 bs)))"

definition AllocMsgBlock :: "malloc \<Rightarrow> nat \<Rightarrow> gobj \<Rightarrow> (ptr option \<times> gobj) option" where
  "AllocMsgBlock mal size0 g =
     (let sz = (size0 + 8) mod 2 ^ 64;
          got =
            (if sz > m_MaxPoolSize g then
               (case mal sz of
                  None \<Rightarrow> Some (None, g)
                | Some bs \<Rightarrow>
                    (case heap_new bs (g_heap g) of (b, h) \<Rightarrow> Some (Some b, g\<lparr>g_heap := h\<rparr>)))
             else
               (case pool_index sz 0 MIN_MEMBLOCK_SIZE of
                  None \<Rightarrow> None
                | Some index \<Rightarrow>
                    if index \<ge> length (g_pools g) then None
                    else (case g_pools g ! index of
                            None \<Rightarrow> None
                          | Some p \<Rightarrow>
                              (case pool_Alloc mal p (g_heap g) of
                                 (b, p', h) \<Rightarrow>
                                   Some (b, g\<lparr>g_heap := h, g_pools := (g_pools g)[index := Some p']\<rparr>)))))
      in (case got of
            None \<Rightarrow> None
          | Some (None, g') \<Rightarrow> Some (None, g')
          | Some (Some b, g') \<Rightarrow>
              (case store_size b sz (g_heap g') of
                 None \<Rightarrow> None
               | Some h \<Rightarrow> Some (Some b, g'\<lparr>g_heap := h\<rparr>))))"

definition FreeMsgBlock :: "ptr option \<Rightarrow> gobj \<Rightarrow> gobj option" where
  "FreeMsgBlock ptr g =
     (case ptr of
        None \<Rightarrow> Some g
      | Some mem \<Rightarrow>
          (case load_size mem (g_heap g) of
             None \<Rightarrow> None
           | Some sz \<Rightarrow>
               if sz > m_MaxPoolSize g then
                 Some (g\<lparr>g_heap := (g_heap g)\<lparr>h_blocks := (h_blocks (g_heap g))(mem := None)\<rparr>\<rparr>)
               else
                 (case pool_index sz 0 MIN_MEMBLOCK_SIZE of
                    None \<Rightarrow> None
                  | Some index \<Rightarrow>
                      if index \<ge> length (g_pools g) then None
                      else (case g_pools g ! index of
                              None \<Rightarrow> None
                            | Some p \<Rightarrow>
                                Some (g\<lparr>g_pools := (g_pools g)[index := Some (pool_Free (Some mem) p)]\<rparr>)))))"

section \<open>Queueing a message\<close>

text \<open>
  \<^verbatim>\<open>memcpy\<close> into a block, \<open>off\<close> bytes behind the user's pointer: outside the block it is
  undefined.
\<close>

definition store_bytes :: "ptr \<Rightarrow> nat \<Rightarrow> u8 list \<Rightarrow> heap \<Rightarrow> heap option" where
  "store_bytes b off xs h =
     (case h_blocks h b of
        None \<Rightarrow> None
      | Some bs \<Rightarrow>
          if 8 + off + length xs > length bs then None
          else Some (h\<lparr>h_blocks := (h_blocks h)(b \<mapsto> overwrite bs (8 + off) xs)\<rparr>))"

text \<open>
  \<^verbatim>\<open>PushMsg\<close>. \<open>body\<close> is the memory behind \<^verbatim>\<open>msgBody\<close>, \<open>None\<close> for a null pointer; the
  copy reads \<^verbatim>\<open>bodyLen\<close> bytes of it. The test of the worker id is against constants and
  never fails.
\<close>

definition PushMsg :: "malloc \<Rightarrow> u8 list \<Rightarrow> hdr \<Rightarrow> u8 list option \<Rightarrow> gobj \<Rightarrow> gobj option" where
  "PushMsg mal pad hh body g =
     (let n = unat (bodyLen (msgHdr hh))
      in case AllocMsgBlock mal (sizeof_hdr hh + n) g of
           None \<Rightarrow> None
         | Some (None, g') \<Rightarrow> Some g'
         | Some (Some b, g') \<Rightarrow>
             (case store_bytes b 0 (hdr_bytes pad hh) (g_heap g') of
                None \<Rightarrow> None
              | Some h1 \<Rightarrow>
                  (case (case body of
                           None \<Rightarrow> Some h1
                         | Some bs \<Rightarrow>
                             if n > 0
                             then (if n > length bs then None
                                   else store_bytes b (sizeof_hdr hh) (take n bs) h1)
                             else Some h1) of
                     None \<Rightarrow> None
                   | Some h2 \<Rightarrow>
                       Some (g'\<lparr>g_heap := h2, m_MsgQueue := queue_Push b (m_MsgQueue g')\<rparr>))))"

text \<open>\<^verbatim>\<open>GetMsgQueue\<close> takes the whole queue, or reports that there is nothing.\<close>

definition GetMsgQueue :: "gobj \<Rightarrow> (ptr queue \<times> gobj) option" where
  "GetMsgQueue g =
     (if queue_Empty (m_MsgQueue g) then None
      else Some (m_MsgQueue g, g\<lparr>m_MsgQueue := queue_Clear (m_MsgQueue g)\<rparr>))"

text \<open>\<^verbatim>\<open>UnInit\<close>: the queued blocks are released, then the pools.\<close>

fun free_all :: "ptr list \<Rightarrow> gobj \<Rightarrow> gobj option" where
  "free_all [] g = Some g"
| "free_all (b # bs) g = (case FreeMsgBlock (Some b) g of None \<Rightarrow> None | Some g' \<Rightarrow> free_all bs g')"

fun delete_pools :: "mem_pool option list \<Rightarrow> heap \<Rightarrow> heap" where
  "delete_pools [] h = h"
| "delete_pools (None # ps) h = delete_pools ps h"
| "delete_pools (Some p # ps) h = delete_pools ps (pool_destroy (m_BlockList p) h)"

definition gobj_UnInit :: "gobj \<Rightarrow> gobj option" where
  "gobj_UnInit g =
     (case free_all (m_MsgQueue g) g of
        None \<Rightarrow> None
      | Some g' \<Rightarrow>
          Some (g'\<lparr>m_MsgQueue := queue_Clear (m_MsgQueue g'),
                   g_heap := delete_pools (g_pools g') (g_heap g'),
                   g_pools := replicate (length (g_pools g')) None\<rparr>))"

section \<open>The pool search\<close>

lemma pool_index_step:
  assumes "i + Suc k \<le> 9" and "\<not> sz \<le> 128 * 2 ^ i"
  shows "pool_index sz i (128 * 2 ^ i) = pool_index sz (Suc i) (128 * 2 ^ Suc i)"
proof -
  have "(2::nat) ^ Suc i \<le> 2 ^ 9" using assms(1) by (intro power_increasing) simp_all
  then have "128 * 2 ^ i * 2 mod 2 ^ 64 = 128 * (2::nat) ^ Suc i" by simp
  with assms(2) show ?thesis by (subst pool_index.simps) simp
qed

lemma pool_index_found:
  assumes "sz \<le> 128 * 2 ^ (i + k)" and "i + k \<le> 9"
  shows "\<exists>j. pool_index sz i (128 * 2 ^ i) = Some j \<and> j \<le> i + k \<and> sz \<le> 128 * 2 ^ j"
  using assms
proof (induction k arbitrary: i)
  case 0
  then show ?case by (subst pool_index.simps) simp
next
  case (Suc k)
  show ?case
  proof (cases "sz \<le> 128 * 2 ^ i")
    case True
    then show ?thesis by (subst pool_index.simps) simp
  next
    case False
    have "\<exists>j. pool_index sz (Suc i) (128 * 2 ^ Suc i) = Some j \<and> j \<le> Suc i + k \<and> sz \<le> 128 * 2 ^ j"
      using Suc.prems by (intro Suc.IH) simp_all
    with False pool_index_step [OF Suc.prems(2) False] show ?thesis by simp
  qed
qed

text \<open>Every size up to that of the largest pool has its pool, and the block is big enough.\<close>

lemma pool_index_total:
  assumes "sz \<le> 65536"
  obtains i where "pool_index sz 0 MIN_MEMBLOCK_SIZE = Some i" "i < 10" "sz \<le> 128 * 2 ^ i"
proof -
  have "\<exists>j. pool_index sz 0 (128 * 2 ^ 0) = Some j \<and> j \<le> 0 + 9 \<and> sz \<le> 128 * 2 ^ j"
    using assms by (intro pool_index_found) simp_all
  then obtain j where "pool_index sz 0 128 = Some j" "j \<le> 9" "sz \<le> 128 * 2 ^ j" by auto
  then show thesis using that [of j] by (simp add: MIN_MEMBLOCK_SIZE_def)
qed

section \<open>The heap invariant\<close>

definition blk_ok :: "heap \<Rightarrow> ptr \<Rightarrow> bool" where
  "blk_ok h b \<longleftrightarrow> (\<exists>bs S. h_blocks h b = Some bs \<and> load_size b h = Some S \<and> 8 \<le> S \<and> S \<le> length bs \<and>
     (S \<le> 65536 \<longrightarrow>
        (\<exists>i < 10. pool_index S 0 MIN_MEMBLOCK_SIZE = Some i \<and> length bs = 128 * 2 ^ i + 8)))"

definition free_ok :: "heap \<Rightarrow> nat \<Rightarrow> ptr \<Rightarrow> bool" where
  "free_ok h i b \<longleftrightarrow> (\<exists>bs. h_blocks h b = Some bs \<and> length bs = 128 * 2 ^ i + 8)"

definition pool_ok :: "ptr set \<Rightarrow> heap \<Rightarrow> nat \<Rightarrow> mem_pool option \<Rightarrow> bool" where
  "pool_ok L h i po \<longleftrightarrow> (\<exists>p. po = Some p \<and> m_Size p = 128 * 2 ^ i \<and> distinct (m_BlockList p) \<and>
     set (m_BlockList p) \<inter> L = {} \<and> (\<forall>b \<in> set (m_BlockList p). free_ok h i b))"

definition gobj_inv :: "ptr set \<Rightarrow> gobj \<Rightarrow> bool" where
  "gobj_inv L g \<longleftrightarrow> m_MaxPoolSize g = 65536 \<and> length (g_pools g) = 10 \<and>
     (\<forall>i < 10. pool_ok L (g_heap g) i (g_pools g ! i)) \<and>
     (\<forall>b \<in> L. blk_ok (g_heap g) b) \<and>
     (\<forall>b. h_blocks (g_heap g) b \<noteq> None \<longrightarrow> b < h_fresh (g_heap g))"

lemma gobj_inv_pool:
  "gobj_inv L g \<Longrightarrow> i < 10 \<Longrightarrow> pool_ok L (g_heap g) i (g_pools g ! i)"
  by (simp add: gobj_inv_def)

lemma free_ok_unique: "free_ok h i b \<Longrightarrow> free_ok h j b \<Longrightarrow> i = j"
  by (auto simp: free_ok_def)

text \<open>What an invariant-preserving heap change keeps: the sizes of all blocks but \<open>b\<close>'s contents.\<close>

definition heap_same :: "ptr \<Rightarrow> heap \<Rightarrow> heap \<Rightarrow> bool" where
  "heap_same b h h' \<longleftrightarrow> (\<forall>c. c \<noteq> b \<longrightarrow> h_blocks h' c = h_blocks h c)"

lemma blk_ok_same: "heap_same b h h' \<Longrightarrow> c \<noteq> b \<Longrightarrow> blk_ok h c \<Longrightarrow> blk_ok h' c"
  by (simp add: heap_same_def blk_ok_def load_size_def)

lemma free_ok_same: "heap_same b h h' \<Longrightarrow> c \<noteq> b \<Longrightarrow> free_ok h i c \<Longrightarrow> free_ok h' i c"
  by (simp add: heap_same_def free_ok_def)

lemma pool_ok_same:
  assumes "pool_ok L h i po" and "heap_same b h h'" and "\<forall>p. po = Some p \<longrightarrow> b \<notin> set (m_BlockList p)"
  shows "pool_ok (insert b L) h' i po"
  using assms by (force simp: pool_ok_def intro: free_ok_same)

lemma store_size_ok:
  assumes "h_blocks h b = Some bs" "8 \<le> length bs" "sz < 2 ^ 64"
  obtains h' bs' where "store_size b sz h = Some h'" "heap_same b h h'" "h_fresh h' = h_fresh h"
    "h_blocks h' b = Some bs'" "length bs' = length bs" "load_size b h' = Some sz"
proof -
  let ?bs' = "overwrite bs 0 (obj_bytes (of_nat sz :: u64))"
  let ?h' = "h\<lparr>h_blocks := (h_blocks h)(b \<mapsto> ?bs')\<rparr>"
  have "take 8 ?bs' = obj_bytes (of_nat sz :: u64)" by (simp add: overwrite_def)
  then have "le_val (take 8 ?bs') = sz"
    using assms(3) by (simp add: le_val_obj_bytes unat_of_nat)
  moreover have "length ?bs' = length bs" using assms(2) by simp
  ultimately show thesis
    using assms that [of ?h' ?bs'] by (simp add: store_size_def load_size_def heap_same_def)
qed

section \<open>Allocation and release keep the invariant\<close>

lemma Init_loop_pools:
  "length (g_pools g) = i + n \<Longrightarrow>
     g_pools (Init_loop n i sz g) = take i (g_pools g) @ map (\<lambda>k. Some (MemBlockPool (sz * 2 ^ k))) [0..<n]"
proof (induction n arbitrary: i sz g)
  case 0
  then show ?case by simp
next
  case (Suc n)
  let ?g = "g\<lparr>m_MaxPoolSize := sz, g_pools := (g_pools g)[i := Some (MemBlockPool sz)]\<rparr>"
  have "length (g_pools ?g) = Suc i + n" using Suc.prems by simp
  from Suc.IH [OF this, of "sz * 2"]
  have "g_pools (Init_loop (Suc n) i sz g) = take (Suc i) (g_pools ?g) @
      map (\<lambda>k. Some (MemBlockPool (sz * 2 * 2 ^ k))) [0..<n]" by simp
  also have "take (Suc i) (g_pools ?g) = take i (g_pools g) @ [Some (MemBlockPool sz)]"
    using Suc.prems by (simp add: take_Suc_conv_app_nth)
  also have "map (\<lambda>k. Some (MemBlockPool (sz * 2 * 2 ^ k))) [0..<n]
      = map (\<lambda>k. Some (MemBlockPool (sz * 2 ^ k))) [Suc 0..<Suc n]"
    by (simp add: map_Suc_upt [symmetric] mult.assoc del: upt_Suc)
  finally show ?case by (simp add: upt_conv_Cons del: upt_Suc)
qed

lemma Init_loop_frame:
  "g_heap (Init_loop n i sz g) = g_heap g \<and> m_MsgQueue (Init_loop n i sz g) = m_MsgQueue g"
  by (induction n arbitrary: i sz g) simp_all

lemma Init_loop_max:
  "m_MaxPoolSize (Init_loop n i sz g) = (if n = 0 then m_MaxPoolSize g else sz * 2 ^ (n - 1))"
proof (induction n arbitrary: i sz g)
  case 0
  then show ?case by simp
next
  case (Suc n)
  show ?case by (simp only: Init_loop.simps Suc.IH) (cases n; simp)
qed

lemma gobj_inv_Init:
  assumes "\<forall>b. h_blocks h b \<noteq> None \<longrightarrow> b < h_fresh h"
  shows "gobj_inv {} (gobj_Init (GlobalObject h))"
proof -
  let ?g = "gobj_Init (GlobalObject h)"
  have "g_pools ?g = map (\<lambda>k. Some (MemBlockPool (128 * 2 ^ k))) [0..<10]"
    by (simp add: gobj_Init_def Init_loop_pools GlobalObject_def MEMPOOL_NUM_def MIN_MEMBLOCK_SIZE_def
        del: upt_Suc)
  moreover have "m_MaxPoolSize ?g = 65536"
    by (simp add: gobj_Init_def Init_loop_max MEMPOOL_NUM_def MIN_MEMBLOCK_SIZE_def)
  moreover have "g_heap ?g = h"
    by (simp add: gobj_Init_def Init_loop_frame GlobalObject_def)
  ultimately show ?thesis
    using assms by (simp add: gobj_inv_def pool_ok_def MemBlockPool_def del: upt_Suc)
qed

lemma gobj_inv_newblock:
  assumes inv: "gobj_inv L g" and b: "b \<notin> L"
    and notfree: "\<And>i p. i < 10 \<Longrightarrow> g_pools g ! i = Some p \<Longrightarrow> b \<notin> set (m_BlockList p)"
    and same: "heap_same b (g_heap g) h'" and ok: "blk_ok h' b"
    and fresh: "h_fresh (g_heap g) \<le> h_fresh h'" "b < h_fresh h'"
  shows "gobj_inv (insert b L) (g\<lparr>g_heap := h'\<rparr>)"
proof -
  have "pool_ok (insert b L) h' i (g_pools g ! i)" if "i < 10" for i
    using gobj_inv_pool [OF inv that] same notfree [OF that] by (intro pool_ok_same) auto
  moreover have "blk_ok h' c" if "c \<in> L" for c
    using inv that b by (intro blk_ok_same [OF same]) (auto simp: gobj_inv_def)
  moreover have "c < h_fresh h'" if "h_blocks h' c \<noteq> None" for c
  proof (cases "c = b")
    case False
    with same that have "h_blocks (g_heap g) c \<noteq> None" by (simp add: heap_same_def)
    with inv fresh show ?thesis by (auto simp: gobj_inv_def intro: less_le_trans)
  qed (use fresh in simp)
  ultimately show ?thesis using inv ok by (auto simp: gobj_inv_def)
qed

text \<open>A block that leaves a free list is in no free list any more.\<close>

lemma pop_free:
  assumes inv: "gobj_inv L g" and i: "i < 10" and p: "g_pools g ! i = Some p"
    and bs: "m_BlockList p = b # bs"
  shows "gobj_inv L (g\<lparr>g_pools := (g_pools g)[i := Some (p\<lparr>m_BlockList := bs\<rparr>)]\<rparr>)"
    and "b \<notin> L" and "free_ok (g_heap g) i b"
    and "j < 10 \<Longrightarrow> (g_pools g)[i := Some (p\<lparr>m_BlockList := bs\<rparr>)] ! j = Some q \<Longrightarrow>
      b \<notin> set (m_BlockList q)"
proof -
  have ok: "pool_ok L (g_heap g) j (g_pools g ! j)" if "j < 10" for j
    using inv that by (rule gobj_inv_pool)
  from ok [OF i] p bs show b: "b \<notin> L" and free: "free_ok (g_heap g) i b"
    by (auto simp: pool_ok_def)
  have len: "length (g_pools g) = 10" using inv by (simp add: gobj_inv_def)
  have "pool_ok L (g_heap g) i (Some (p\<lparr>m_BlockList := bs\<rparr>))"
    using ok [OF i] p bs by (auto simp: pool_ok_def)
  then have "pool_ok L (g_heap g) j ((g_pools g)[i := Some (p\<lparr>m_BlockList := bs\<rparr>)] ! j)" if "j < 10" for j
    using ok [OF that] by (cases "j = i") (simp_all add: len i)
  with inv show "gobj_inv L (g\<lparr>g_pools := (g_pools g)[i := Some (p\<lparr>m_BlockList := bs\<rparr>)]\<rparr>)"
    by (simp add: gobj_inv_def)
  show "b \<notin> set (m_BlockList q)"
    if j: "j < 10" and q: "(g_pools g)[i := Some (p\<lparr>m_BlockList := bs\<rparr>)] ! j = Some q"
  proof (cases "j = i")
    case True
    with q ok [OF i] p bs len i show ?thesis by (auto simp: pool_ok_def)
  next
    case False
    with q have "g_pools g ! j = Some q" by simp
    with ok [OF j] free_ok_unique [OF free, of j] False show ?thesis
      by (auto simp: pool_ok_def)
  qed
qed

lemma fresh_block:
  assumes inv: "gobj_inv L g"
  shows "h_fresh (g_heap g) \<notin> L"
    and "i < 10 \<Longrightarrow> g_pools g ! i = Some p \<Longrightarrow> h_fresh (g_heap g) \<notin> set (m_BlockList p)"
proof -
  have none: "h_blocks (g_heap g) (h_fresh (g_heap g)) = None"
    using inv by (auto simp: gobj_inv_def)
  then show "h_fresh (g_heap g) \<notin> L"
    using inv by (auto simp: gobj_inv_def blk_ok_def)
  show "h_fresh (g_heap g) \<notin> set (m_BlockList p)" if "i < 10" "g_pools g ! i = Some p"
    using gobj_inv_pool [OF inv that(1)] that(2) none by (auto simp: pool_ok_def free_ok_def)
qed

text \<open>
  The three sources of a block (free list, pool \<^verbatim>\<open>malloc\<close>, direct \<^verbatim>\<open>malloc\<close>) share the
  ending: the size is stored, and the block is live from then on.
\<close>

lemma finish_alloc:
  assumes inv: "gobj_inv L g" and b: "b \<notin> L"
    and notfree: "\<And>i p. i < 10 \<Longrightarrow> g_pools g ! i = Some p \<Longrightarrow> b \<notin> set (m_BlockList p)"
    and same: "heap_same b (g_heap g) h"
    and blk: "h_blocks h b = Some bs" and sz: "8 \<le> sz" "sz \<le> length bs" "sz < 2 ^ 64"
    and cls: "sz \<le> 65536 \<Longrightarrow>
      \<exists>i < 10. pool_index sz 0 MIN_MEMBLOCK_SIZE = Some i \<and> length bs = 128 * 2 ^ i + 8"
    and fresh: "h_fresh (g_heap g) \<le> h_fresh h" "b < h_fresh h"
  shows "\<exists>h'. store_size b sz h = Some h' \<and> gobj_inv (insert b L) (g\<lparr>g_heap := h'\<rparr>) \<and>
    load_size b h' = Some sz \<and> (\<exists>bs'. h_blocks h' b = Some bs' \<and> length bs' = length bs) \<and>
    heap_same b (g_heap g) h'"
proof -
  have "8 \<le> length bs" using sz by linarith
  from store_size_ok [OF blk this sz(3)] obtain h' bs' where
    st: "store_size b sz h = Some h'" and same': "heap_same b h h'"
    and fr: "h_fresh h' = h_fresh h" and bl: "h_blocks h' b = Some bs'"
    and len: "length bs' = length bs" and ld: "load_size b h' = Some sz" .
  have same2: "heap_same b (g_heap g) h'" using same same' by (simp add: heap_same_def)
  have "blk_ok h' b" using bl ld len sz cls by (auto simp: blk_ok_def)
  from gobj_inv_newblock [OF inv b notfree same2 this] fresh fr st ld bl len same2
  show ?thesis by auto
qed

definition room :: "ptr \<Rightarrow> nat \<Rightarrow> heap \<Rightarrow> bool" where
  "room b n h \<longleftrightarrow> (\<exists>bs. h_blocks h b = Some bs \<and> n + 8 \<le> length bs)"

text \<open>What a successful allocation of \<open>n\<close> bytes gives.\<close>

definition allocated :: "ptr set \<Rightarrow> gobj \<Rightarrow> nat \<Rightarrow> ptr \<Rightarrow> gobj \<Rightarrow> bool" where
  "allocated L g n b g' \<longleftrightarrow> b \<notin> L \<and> gobj_inv (insert b L) g' \<and> room b n (g_heap g') \<and>
     heap_same b (g_heap g) (g_heap g') \<and> m_MsgQueue g' = m_MsgQueue g"

lemma Alloc_large:
  assumes inv: "gobj_inv L g" and mal: "malloc_ok mal" and n: "n + 8 < 2 ^ 64" and big: "65536 < n + 8"
  shows "AllocMsgBlock mal n g = Some (None, g) \<or>
    (\<exists>b g'. AllocMsgBlock mal n g = Some (Some b, g') \<and> allocated L g n b g')"
proof (cases "mal (n + 8)")
  case None
  with inv n big show ?thesis by (simp add: AllocMsgBlock_def Let_def gobj_inv_def)
next
  case (Some bs)
  with mal have len: "length bs = n + 8" by (simp add: malloc_ok_def)
  let ?b = "h_fresh (g_heap g)"
  let ?h = "snd (heap_new bs (g_heap g))"
  have "\<exists>h'. store_size ?b (n + 8) ?h = Some h' \<and> gobj_inv (insert ?b L) (g\<lparr>g_heap := h'\<rparr>) \<and>
    load_size ?b h' = Some (n + 8) \<and> (\<exists>bs'. h_blocks h' ?b = Some bs' \<and> length bs' = length bs) \<and>
    heap_same ?b (g_heap g) h'"
    using fresh_block [OF inv] n big len
    by (intro finish_alloc [OF inv]) (auto simp: heap_new_def heap_same_def)
  then obtain h' where "store_size ?b (n + 8) ?h = Some h'" "gobj_inv (insert ?b L) (g\<lparr>g_heap := h'\<rparr>)"
    "\<exists>bs'. h_blocks h' ?b = Some bs' \<and> length bs' = length bs" "heap_same ?b (g_heap g) h'" by blast
  then show ?thesis using Some inv n big len fresh_block(1) [OF inv]
    by (auto simp: AllocMsgBlock_def Let_def gobj_inv_def heap_new_def allocated_def room_def)
qed

lemma Alloc_pool:
  assumes inv: "gobj_inv L g" and mal: "malloc_ok mal" and small: "n + 8 \<le> 65536"
  shows "AllocMsgBlock mal n g = Some (None, g) \<or>
    (\<exists>b g'. AllocMsgBlock mal n g = Some (Some b, g') \<and> allocated L g n b g')"
proof -
  obtain i where idx: "pool_index (n + 8) 0 MIN_MEMBLOCK_SIZE = Some i" and i: "i < 10"
    and fit: "n + 8 \<le> 128 * 2 ^ i" using small by (rule pool_index_total)
  have len: "length (g_pools g) = 10" and max: "m_MaxPoolSize g = 65536"
    using inv by (auto simp: gobj_inv_def)
  obtain p where p: "g_pools g ! i = Some p" and sz: "m_Size p = 128 * 2 ^ i"
    using gobj_inv_pool [OF inv i] by (auto simp: pool_ok_def)
  have cls: "\<exists>i < 10. pool_index (n + 8) 0 MIN_MEMBLOCK_SIZE = Some i \<and> length bs = 128 * 2 ^ i + 8"
    if "length bs = 128 * 2 ^ i + 8" for bs :: "u8 list" using idx i that by auto
  have small64: "n + 8 < 2 ^ 64" using small by simp
  note unf = AllocMsgBlock_def Let_def pool_Alloc_def
  show ?thesis
  proof (cases "m_BlockList p")
    case (Cons b bs)
    let ?g = "g\<lparr>g_pools := (g_pools g)[i := Some (p\<lparr>m_BlockList := bs\<rparr>)]\<rparr>"
    note pop = pop_free [OF inv i p Cons]
    obtain bytes where bytes: "h_blocks (g_heap g) b = Some bytes" "length bytes = 128 * 2 ^ i + 8"
      using pop(3) by (auto simp: free_ok_def)
    have "b < h_fresh (g_heap g)" using inv bytes(1) by (auto simp: gobj_inv_def)
    then have "\<exists>h'. store_size b (n + 8) (g_heap g) = Some h' \<and>
      gobj_inv (insert b L) (?g\<lparr>g_heap := h'\<rparr>) \<and> load_size b h' = Some (n + 8) \<and>
      (\<exists>bs'. h_blocks h' b = Some bs' \<and> length bs' = length bytes) \<and> heap_same b (g_heap ?g) h'"
      using pop(2,4) bytes fit small64 cls [OF bytes(2)]
      by (intro finish_alloc [OF pop(1)]) (auto simp: heap_same_def)
    then obtain h' where "store_size b (n + 8) (g_heap g) = Some h'"
      "gobj_inv (insert b L) (?g\<lparr>g_heap := h'\<rparr>)"
      "\<exists>bs'. h_blocks h' b = Some bs' \<and> length bs' = length bytes" "heap_same b (g_heap g) h'"
      by auto
    then show ?thesis using pop(2) small64 small max len i idx p Cons bytes fit
      by (auto simp: unf allocated_def room_def)
  next
    case Nil
    show ?thesis
    proof (cases "mal (16 + m_Size p)")
      case None
      with Nil small64 small max len i idx p show ?thesis
        by (simp add: unf list_update_same_conv)
    next
      case (Some raw)
      with mal sz have raw: "length (drop 8 raw) = 128 * 2 ^ i + 8"
        by (simp add: malloc_ok_def)
      let ?b = "h_fresh (g_heap g)"
      let ?h = "snd (heap_new (drop 8 raw) (g_heap g))"
      have "\<exists>h'. store_size ?b (n + 8) ?h = Some h' \<and> gobj_inv (insert ?b L) (g\<lparr>g_heap := h'\<rparr>) \<and>
        load_size ?b h' = Some (n + 8) \<and>
        (\<exists>bs'. h_blocks h' ?b = Some bs' \<and> length bs' = length (drop 8 raw)) \<and>
        heap_same ?b (g_heap g) h'"
        using fresh_block [OF inv] raw fit small64 cls [OF raw]
        by (intro finish_alloc [OF inv]) (auto simp: heap_new_def heap_same_def)
      then obtain h' where "store_size ?b (n + 8) ?h = Some h'"
        "gobj_inv (insert ?b L) (g\<lparr>g_heap := h'\<rparr>)"
        "\<exists>bs'. h_blocks h' ?b = Some bs' \<and> length bs' = length (drop 8 raw)"
        "heap_same ?b (g_heap g) h'" by auto
      moreover have "(g_pools g)[i := Some p] = g_pools g" using p by (simp add: list_update_same_conv len i)
      ultimately show ?thesis using small64 small max len i idx p Nil Some raw fit
          fresh_block(1) [OF inv] sz
        by (auto simp: unf allocated_def room_def heap_new_def)
    qed
  qed
qed

lemma Alloc_spec:
  assumes "gobj_inv L g" and "malloc_ok mal" and "n + 8 < 2 ^ 64"
  shows "AllocMsgBlock mal n g = Some (None, g) \<or>
    (\<exists>b g'. AllocMsgBlock mal n g = Some (Some b, g') \<and> allocated L g n b g')"
  using assms Alloc_large [of L g mal n] Alloc_pool [of L g mal n] by (cases "n + 8 \<le> 65536") auto

lemma heap_freed:
  "gobj_inv L g \<Longrightarrow> b \<in> L \<Longrightarrow>
     gobj_inv (L - {b}) (g\<lparr>g_heap := (g_heap g)\<lparr>h_blocks := (h_blocks (g_heap g))(b := None)\<rparr>\<rparr>)"
  by (fastforce simp: gobj_inv_def pool_ok_def free_ok_def blk_ok_def load_size_def)

lemma Free_spec:
  assumes inv: "gobj_inv L g" and b: "b \<in> L"
  shows "\<exists>g'. FreeMsgBlock (Some b) g = Some g' \<and> gobj_inv (L - {b}) g' \<and>
    heap_same b (g_heap g) (g_heap g') \<and> m_MsgQueue g' = m_MsgQueue g"
proof -
  from inv b obtain bs S where blk: "h_blocks (g_heap g) b = Some bs" and ld: "load_size b (g_heap g) = Some S"
    and S: "8 \<le> S" "S \<le> length bs"
    and cls: "S \<le> 65536 \<Longrightarrow> \<exists>i < 10. pool_index S 0 MIN_MEMBLOCK_SIZE = Some i \<and> length bs = 128 * 2 ^ i + 8"
    unfolding gobj_inv_def blk_ok_def by blast
  have len: "length (g_pools g) = 10" and max: "m_MaxPoolSize g = 65536"
    using inv by (auto simp: gobj_inv_def)
  show ?thesis
  proof (cases "S \<le> 65536")
    case False
    with heap_freed [OF inv b] ld max show ?thesis by (simp add: FreeMsgBlock_def heap_same_def)
  next
    case True
    then obtain i where i: "i < 10" and idx: "pool_index S 0 MIN_MEMBLOCK_SIZE = Some i"
      and lbs: "length bs = 128 * 2 ^ i + 8" using cls by auto
    have ok: "pool_ok L (g_heap g) j (g_pools g ! j)" if "j < 10" for j
      using inv that by (rule gobj_inv_pool)
    obtain p where p: "g_pools g ! i = Some p" using ok [OF i] by (auto simp: pool_ok_def)
    have "pool_ok (L - {b}) (g_heap g) j ((g_pools g)[i := Some (pool_Free (Some b) p)] ! j)"
      if j: "j < 10" for j
    proof (cases "j = i")
      case True
      with ok [OF i] p b blk lbs len i show ?thesis
        by (auto simp: pool_ok_def pool_Free_def free_ok_def)
    next
      case False
      with ok [OF j] show ?thesis by (auto simp: pool_ok_def)
    qed
    with inv have "gobj_inv (L - {b}) (g\<lparr>g_pools := (g_pools g)[i := Some (pool_Free (Some b) p)]\<rparr>)"
      by (simp add: gobj_inv_def)
    with ld max True idx len i p show ?thesis by (simp add: FreeMsgBlock_def heap_same_def)
  qed
qed

section \<open>The allocator as an interface\<close>

text \<open>
  What the message queue needs of an allocator: allocating never gives out a live block and
  releasing a live block never fails. \<open>inv L s\<close> says that exactly the blocks of \<open>L\<close> are
  in use.
\<close>

locale block_allocator =
  fixes alloc :: "nat \<Rightarrow> 's \<Rightarrow> ('p option \<times> 's) option"
    and release :: "'p \<Rightarrow> 's \<Rightarrow> 's option"
    and inv :: "'p set \<Rightarrow> 's \<Rightarrow> bool"
    and limit :: nat
  assumes alloc_ok: "inv L s \<Longrightarrow> n < limit \<Longrightarrow>
      alloc n s = Some (None, s) \<or>
      (\<exists>b s'. alloc n s = Some (Some b, s') \<and> b \<notin> L \<and> inv (insert b L) s')"
    and release_ok: "inv L s \<Longrightarrow> b \<in> L \<Longrightarrow> \<exists>s'. release b s = Some s' \<and> inv (L - {b}) s'"
begin

fun alloc_seq :: "nat list \<Rightarrow> 's \<Rightarrow> ('p list \<times> 's) option" where
  "alloc_seq [] s = Some ([], s)"
| "alloc_seq (n # ns) s =
     (case alloc n s of
        None \<Rightarrow> None
      | Some (None, s') \<Rightarrow> alloc_seq ns s'
      | Some (Some b, s') \<Rightarrow> map_option (\<lambda>(bs, s''). (b # bs, s'')) (alloc_seq ns s'))"

fun release_seq :: "'p list \<Rightarrow> 's \<Rightarrow> 's option" where
  "release_seq [] s = Some s"
| "release_seq (b # bs) s = (case release b s of None \<Rightarrow> None | Some s' \<Rightarrow> release_seq bs s')"

lemma release_seq_ok:
  "inv L s \<Longrightarrow> distinct bs \<Longrightarrow> set bs \<subseteq> L \<Longrightarrow> \<exists>s'. release_seq bs s = Some s' \<and> inv (L - set bs) s'"
proof (induction bs arbitrary: L s)
  case Nil
  then show ?case by simp
next
  case (Cons b bs)
  then obtain s' where s': "release b s = Some s'" "inv (L - {b}) s'"
    using release_ok [of L s b] by auto
  have "\<exists>s''. release_seq bs s' = Some s'' \<and> inv (L - {b} - set bs) s''"
    using Cons.prems s'(2) by (intro Cons.IH) auto
  moreover have "L - {b} - set bs = L - set (b # bs)" by auto
  ultimately show ?case using s'(1) by simp
qed

text \<open>Blocks handed out by a run of allocations are pairwise different and all live.\<close>

lemma alloc_seq_ok:
  "inv L s \<Longrightarrow> \<forall>n \<in> set ns. n < limit \<Longrightarrow>
     \<exists>bs s'. alloc_seq ns s = Some (bs, s') \<and> distinct bs \<and> set bs \<inter> L = {} \<and> inv (L \<union> set bs) s'"
proof (induction ns arbitrary: L s)
  case Nil
  then show ?case by simp
next
  case (Cons n ns)
  from alloc_ok [OF Cons.prems(1), of n] Cons.prems(2)
  consider "alloc n s = Some (None, s)"
    | b s' where "alloc n s = Some (Some b, s')" "b \<notin> L" "inv (insert b L) s'" by auto
  then show ?case
  proof cases
    case 1
    with Cons show ?thesis by simp
  next
    case 2
    obtain bs s'' where "alloc_seq ns s' = Some (bs, s'')" "distinct bs"
      "set bs \<inter> insert b L = {}" "inv (insert b L \<union> set bs) s''"
      using Cons.IH [OF 2(3)] Cons.prems(2) by auto
    with 2 show ?thesis by (intro exI [of _ "b # bs"] exI [of _ s'']) auto
  qed
qed

lemma alloc_release_all:
  assumes "inv L s" and "\<forall>n \<in> set ns. n < limit"
  obtains bs s' s'' where "alloc_seq ns s = Some (bs, s')" "release_seq bs s' = Some s''" "inv L s''"
proof -
  from alloc_seq_ok [OF assms] obtain bs s' where
    a: "alloc_seq ns s = Some (bs, s')" "distinct bs" "set bs \<inter> L = {}" "inv (L \<union> set bs) s'" by blast
  from release_seq_ok [OF a(4,2)] obtain s'' where
    "release_seq bs s' = Some s''" "inv (L \<union> set bs - set bs) s''" by auto
  moreover have "L \<union> set bs - set bs = L" using a(3) by auto
  ultimately show thesis using a(1) that by simp
qed

end

interpretation msg_alloc: block_allocator "AllocMsgBlock mal" "\<lambda>b. FreeMsgBlock (Some b)"
    "\<lambda>L g. malloc_ok mal \<and> gobj_inv L g" "2 ^ 64 - 8" for mal
proof
  fix L g n
  assume "malloc_ok mal \<and> gobj_inv L g" "n < (2 :: nat) ^ 64 - 8"
  then show "AllocMsgBlock mal n g = Some (None, g) \<or>
    (\<exists>b s'. AllocMsgBlock mal n g = Some (Some b, s') \<and> b \<notin> L \<and> malloc_ok mal \<and> gobj_inv (insert b L) s')"
    using Alloc_spec [of L g mal n] by (auto simp: allocated_def)
next
  fix L g b
  assume "malloc_ok mal \<and> gobj_inv L g" "b \<in> L"
  then show "\<exists>s'. FreeMsgBlock (Some b) g = Some s' \<and> malloc_ok mal \<and> gobj_inv (L - {b}) s'"
    using Free_spec [of L g b] by blast
qed

section \<open>Runs of allocations and releases\<close>

text \<open>
  A client of the allocator that holds a list of blocks: it asks for another one, or gives
  the one at an index back.
\<close>

datatype block_cmd = Get nat | Put nat

context block_allocator begin

fun run :: "block_cmd list \<Rightarrow> 'p list \<Rightarrow> 's \<Rightarrow> ('p list \<times> 's) option" where
  "run [] held s = Some (held, s)"
| "run (Get n # cs) held s =
     (case alloc n s of
        None \<Rightarrow> None
      | Some (None, s') \<Rightarrow> run cs held s'
      | Some (Some b, s') \<Rightarrow> run cs (held @ [b]) s')"
| "run (Put i # cs) held s =
     (if i < length held then
        (case release (held ! i) s of
           None \<Rightarrow> None
         | Some s' \<Rightarrow> run cs (take i held @ drop (Suc i) held) s')
      else run cs held s)"

lemma run_ok:
  assumes "\<forall>n. Get n \<in> set cs \<longrightarrow> n < limit" and "inv (set held) s" and "distinct held"
  shows "\<exists>held' s'. run cs held s = Some (held', s') \<and> distinct held' \<and> inv (set held') s'"
  using assms
proof (induction cs arbitrary: held s)
  case Nil
  then show ?case by simp
next
  case (Cons c cs)
  show ?case
  proof (cases c)
    case (Get n)
    from alloc_ok [OF Cons.prems(2), of n] Cons.prems(1) Get consider "alloc n s = Some (None, s)"
      | b s' where "alloc n s = Some (Some b, s')" "b \<notin> set held" "inv (insert b (set held)) s'" by auto
    then show ?thesis
    proof cases
      case 1
      with Cons.IH [of held s] Cons.prems Get show ?thesis by simp
    next
      case 2
      with Cons.IH [of "held @ [b]" s'] Cons.prems Get show ?thesis by simp
    qed
  next
    case (Put i)
    show ?thesis
    proof (cases "i < length held")
      case True
      let ?rest = "take i held @ drop (Suc i) held"
      have eq: "held = take i held @ held ! i # drop (Suc i) held" by (rule id_take_nth_drop [OF True])
      obtain s' where s': "release (held ! i) s = Some s'" "inv (set held - {held ! i}) s'"
        using release_ok [OF Cons.prems(2), of "held ! i"] True by auto
      have d: "distinct (take i held @ held ! i # drop (Suc i) held)" using Cons.prems(3) eq by simp
      have "set held = insert (held ! i) (set ?rest)"
        by (metis eq list.simps(15) set_append Un_insert_right)
      then have "set held - {held ! i} = set ?rest" using d by auto
      moreover have "distinct ?rest" using d by auto
      ultimately show ?thesis
        using Cons.IH [of ?rest s'] Cons.prems(1) s' True Put by simp
    next
      case False
      with Cons.IH [of held s] Cons.prems Put show ?thesis by simp
    qed
  qed
qed

end

fun block_run :: "malloc \<Rightarrow> block_cmd list \<Rightarrow> ptr list \<Rightarrow> gobj \<Rightarrow> (ptr list \<times> gobj) option" where
  "block_run mal [] held g = Some (held, g)"
| "block_run mal (Get n # cs) held g =
     (case AllocMsgBlock mal n g of
        None \<Rightarrow> None
      | Some (None, g') \<Rightarrow> block_run mal cs held g'
      | Some (Some b, g') \<Rightarrow> block_run mal cs (held @ [b]) g')"
| "block_run mal (Put i # cs) held g =
     (if i < length held then
        (case FreeMsgBlock (Some (held ! i)) g of
           None \<Rightarrow> None
         | Some g' \<Rightarrow> block_run mal cs (take i held @ drop (Suc i) held) g')
      else block_run mal cs held g)"

lemma block_run_eq: "block_run mal cs held g = msg_alloc.run mal cs held g"
proof (induction cs arbitrary: held g)
  case (Cons c cs)
  then show ?case by (cases c) (auto split: option.split)
qed simp

lemma heap_sameD: "heap_same b h h' \<Longrightarrow> c \<noteq> b \<Longrightarrow> h_blocks h' c = h_blocks h c"
  by (simp add: heap_same_def)

section \<open>Properties\<close>

text \<open>
  C5: From initialisation on, however a client mixes requests and releases of the blocks it
  holds, no operation touches memory outside its block, the blocks held are pairwise
  different and the pools stay consistent.
\<close>

theorem allocator_runs_safe:
  assumes "malloc_ok mal" and "\<forall>n. Get n \<in> set cs \<longrightarrow> n + 8 < 2 ^ 64"
    and "\<forall>b. h_blocks h b \<noteq> None \<longrightarrow> b < h_fresh h"
  shows "\<exists>held g. block_run mal cs [] (gobj_Init (GlobalObject h)) = Some (held, g) \<and>
    distinct held \<and> gobj_inv (set held) g"
proof -
  have "malloc_ok mal \<and> gobj_inv (set []) (gobj_Init (GlobalObject h))"
    using gobj_inv_Init [OF assms(3)] assms(1) by simp
  from msg_alloc.run_ok [OF _ this] assms(2) show ?thesis unfolding block_run_eq by fastforce
qed

theorem allocator_runs_safe_witness:
  "\<exists>held g. block_run (\<lambda>n. Some (replicate n 0)) [Get 10, Get 100000, Put 0, Get 20] []
      (gobj_Init (GlobalObject \<lparr>h_blocks = Map.empty, h_fresh = 0\<rparr>)) = Some (held, g) \<and>
    distinct held \<and> gobj_inv (set held) g"
  by (rule allocator_runs_safe) (auto simp: malloc_ok_def)

text \<open>
  A block that is handed out is not one in use and has the room asked for; handing it
  out changes the contents of no block in use, and neither does a release.
\<close>

theorem allocator_step_safe:
  assumes "gobj_inv L g" and "malloc_ok mal" and "n + 8 < 2 ^ 64"
  shows "(AllocMsgBlock mal n g = Some (None, g) \<or>
      (\<exists>b g'. AllocMsgBlock mal n g = Some (Some b, g') \<and> b \<notin> L \<and> gobj_inv (insert b L) g' \<and>
         room b n (g_heap g') \<and> (\<forall>c \<in> L. h_blocks (g_heap g') c = h_blocks (g_heap g) c))) \<and>
    (\<forall>b \<in> L. \<exists>g'. FreeMsgBlock (Some b) g = Some g' \<and> gobj_inv (L - {b}) g' \<and>
       (\<forall>c \<in> L - {b}. h_blocks (g_heap g') c = h_blocks (g_heap g) c))"
proof (intro conjI ballI)
  from Alloc_spec [OF assms] show "AllocMsgBlock mal n g = Some (None, g) \<or>
      (\<exists>b g'. AllocMsgBlock mal n g = Some (Some b, g') \<and> b \<notin> L \<and> gobj_inv (insert b L) g' \<and>
         room b n (g_heap g') \<and> (\<forall>c \<in> L. h_blocks (g_heap g') c = h_blocks (g_heap g) c))"
  proof (elim disjE exE conjE)
    fix b g' assume a: "AllocMsgBlock mal n g = Some (Some b, g')" "allocated L g n b g'"
    then have s: "b \<notin> L" "gobj_inv (insert b L) g'" "room b n (g_heap g')" "heap_same b (g_heap g) (g_heap g')"
      by (simp_all add: allocated_def)
    then have "\<forall>c \<in> L. h_blocks (g_heap g') c = h_blocks (g_heap g) c"
      using heap_sameD [OF s(4)] by metis
    with a s show ?thesis by blast
  qed simp
next
  fix b assume b: "b \<in> L"
  from Free_spec [OF assms(1) b] obtain g' where g': "FreeMsgBlock (Some b) g = Some g'"
    "gobj_inv (L - {b}) g'" "heap_same b (g_heap g) (g_heap g')" by blast
  then have "\<forall>c \<in> L - {b}. h_blocks (g_heap g') c = h_blocks (g_heap g) c"
    using heap_sameD [OF g'(3)] by blast
  with g' show "\<exists>g'. FreeMsgBlock (Some b) g = Some g' \<and> gobj_inv (L - {b}) g' \<and>
       (\<forall>c \<in> L - {b}. h_blocks (g_heap g') c = h_blocks (g_heap g) c)" by blast
qed

theorem allocator_step_safe_witness:
  "AllocMsgBlock (\<lambda>n. Some (replicate n 0)) 10 (gobj_Init (GlobalObject \<lparr>h_blocks = Map.empty, h_fresh = 0\<rparr>))
     = Some (None, gobj_Init (GlobalObject \<lparr>h_blocks = Map.empty, h_fresh = 0\<rparr>)) \<or>
   (\<exists>b g'. AllocMsgBlock (\<lambda>n. Some (replicate n 0)) 10 (gobj_Init (GlobalObject \<lparr>h_blocks = Map.empty, h_fresh = 0\<rparr>))
     = Some (Some b, g') \<and> room b 10 (g_heap g'))"
  using allocator_step_safe [OF gobj_inv_Init, of "\<lparr>h_blocks = Map.empty, h_fresh = 0\<rparr>" "\<lambda>n. Some (replicate n 0)" 10]
  by (auto simp: malloc_ok_def)

end
