(* ===== verification/Msg_Handler.thy ===== *)
theory Msg_Handler
  imports Msg_Pool
begin

text \<open>
  \<^verbatim>\<open>MsgHandler/MsgPopHandler\<close> and \<^verbatim>\<open>MsgHandler/MsgHandler\<close>: the logic thread's side of the
  message queue. It takes the whole queue, looks at each block through a \<^verbatim>\<open>MsgHdr*\<close>,
  hands the message on and releases the block.
\<close>

section \<open>MsgPopHandler\<close>

text \<open>
  What the handler calls. The body pointer is given as the bytes the callee may read, the
  message's \<^verbatim>\<open>bodyLen\<close> bytes behind the header.
\<close>

datatype logic_call =
    ProcessLogic u32 "u8 list" u32 u32
  | ProcessProxyLogic u32 "u8 list" u32 u8 u8 u8 u8 u32

text \<open>Reading \<open>n\<close> bytes at the user's pointer plus \<open>off\<close>.\<close>

definition load_bytes :: "ptr \<Rightarrow> nat \<Rightarrow> nat \<Rightarrow> heap \<Rightarrow> u8 list option" where
  "load_bytes b off n h =
     (case h_blocks h b of
        None \<Rightarrow> None
      | Some bs \<Rightarrow> if 8 + off + n > length bs then None else Some (take n (drop (8 + off) bs)))"

text \<open>The switch on the message type; an unknown type is ignored.\<close>

definition dispatch :: "ptr \<Rightarrow> heap \<Rightarrow> logic_call list option" where
  "dispatch b h =
     (case load_bytes b 0 16 h of
        None \<Rightarrow> None
      | Some raw \<Rightarrow>
          (let hh = read_msg_hdr raw; n = unat (bodyLen hh)
           in if msgType hh = CLIENT_MSGTYPE then
                (case load_bytes b 16 n h of
                   None \<Rightarrow> None
                 | Some body \<Rightarrow> Some [ProcessLogic (cmdID hh) body (bodyLen hh) (sessionID hh)])
              else if msgType hh = SERVER_MSGTYPE then
                (case load_bytes b 20 n h of
                   None \<Rightarrow> None
                 | Some body \<Rightarrow> Some [ProcessLogic (cmdID hh) body (bodyLen hh) (sessionID hh)])
              else if msgType hh = PROXY_MSGTYPE then
                (case (load_bytes b 16 4 h, load_bytes b 20 n h) of
                   (Some [tt, ti, st, si], Some body) \<Rightarrow>
                     Some [ProcessProxyLogic (cmdID hh) body (bodyLen hh) tt ti st si (sessionID hh)]
                 | _ \<Rightarrow> None)
              else Some []))"

fun process_loop :: "ptr queue \<Rightarrow> gobj \<Rightarrow> (logic_call list \<times> gobj) option" where
  "process_loop [] g = None"
| "process_loop (b # q) g =
     (case dispatch b (g_heap g) of
        None \<Rightarrow> None
      | Some calls \<Rightarrow>
          (case FreeMsgBlock (Some b) g of
             None \<Rightarrow> None
           | Some g' \<Rightarrow>
               if queue_Empty q then Some (calls, g')
               else (case process_loop q g' of
                       None \<Rightarrow> None
                     | Some (cs, g'') \<Rightarrow> Some (calls @ cs, g''))))"

definition ProcessMsg :: "gobj \<Rightarrow> (bool \<times> logic_call list \<times> gobj) option" where
  "ProcessMsg g =
     (case GetMsgQueue g of
        None \<Rightarrow> Some (False, [], g)
      | Some (q, g') \<Rightarrow>
          (case process_loop q g' of
             None \<Rightarrow> None
           | Some (cs, g'') \<Rightarrow> Some (True, cs, g'')))"

section \<open>MsgHandler\<close>

text \<open>
  The table of handlers, indexed by command; a handler is an opaque value, as the function
  pointers it holds belong to the message classes. Registering checks both assertions.
\<close>

definition MAX_MSG_NUM :: nat where "MAX_MSG_NUM = 0x500"

record 'h msg_handler =
  m_HandlerList :: "'h option list"
  m_Worker :: u8
  m_RunnerShutdown :: bool

definition new_MsgHandler :: "u8 \<Rightarrow> 'h msg_handler" where
  "new_MsgHandler worker =
     \<lparr>m_HandlerList = replicate MAX_MSG_NUM None, m_Worker = worker, m_RunnerShutdown = False\<rparr>"

definition DeregisterAllMsg :: "'h msg_handler \<Rightarrow> 'h msg_handler" where
  "DeregisterAllMsg m = m\<lparr>m_HandlerList := map (\<lambda>_. None) (m_HandlerList m)\<rparr>"

definition RegisterMsgHandler :: "u32 \<Rightarrow> 'h \<Rightarrow> 'h msg_handler \<Rightarrow> 'h msg_handler option" where
  "RegisterMsgHandler msgId f m =
     (if \<not> unat msgId < MAX_MSG_NUM then None
      else if m_HandlerList m ! unat msgId \<noteq> None then None
      else Some (m\<lparr>m_HandlerList := (m_HandlerList m)[unat msgId := Some f]\<rparr>))"

text \<open>
  The loop of \<^verbatim>\<open>MsgHandler::ProcessMsg\<close>: the handler of the block's command, if there is
  one, is called with the block. The calls are listed as handler and header.
\<close>

fun handler_loop ::
    "'h msg_handler \<Rightarrow> ptr queue \<Rightarrow> gobj \<Rightarrow> (('h \<times> msg_hdr) list \<times> gobj) option" where
  "handler_loop m [] g = None"
| "handler_loop m (b # q) g =
     (case load_bytes b 0 16 (g_heap g) of
        None \<Rightarrow> None
      | Some raw \<Rightarrow>
          (let hh = read_msg_hdr raw
           in if \<not> unat (cmdID hh) < MAX_MSG_NUM then None
              else
                (let calls = (case m_HandlerList m ! unat (cmdID hh) of
                                None \<Rightarrow> [] | Some f \<Rightarrow> [(f, hh)])
                 in case FreeMsgBlock (Some b) g of
                      None \<Rightarrow> None
                    | Some g' \<Rightarrow>
                        if queue_Empty q then Some (calls, g')
                        else (case handler_loop m q g' of
                                None \<Rightarrow> None
                              | Some (cs, g'') \<Rightarrow> Some (calls @ cs, g'')))))"

definition handler_ProcessMsg ::
    "'h msg_handler \<Rightarrow> gobj \<Rightarrow> (bool \<times> ('h \<times> msg_hdr) list \<times> gobj) option" where
  "handler_ProcessMsg m g =
     (case GetMsgQueue g of
        None \<Rightarrow> Some (False, [], g)
      | Some (q, g') \<Rightarrow>
          (case handler_loop m q g' of
             None \<Rightarrow> None
           | Some (cs, g'') \<Rightarrow> Some (True, cs, g'')))"

section \<open>What the queue holds\<close>

text \<open>
  Abstractly the queue is a list of messages (header and body). \<open>queue_rep\<close> relates it to
  the blocks: each queued block holds its message, all blocks are different, and they are
  exactly the live ones.
\<close>

type_synonym msg = "hdr \<times> u8 list"

definition holds :: "heap \<Rightarrow> ptr \<Rightarrow> msg \<Rightarrow> bool" where
  "holds h b m \<longleftrightarrow> (\<exists>hd8 pad rest. h_blocks h b = Some (hd8 @ hdr_bytes pad (fst m) @ snd m @ rest)
     \<and> length hd8 = 8 \<and> length (snd m) = unat (bodyLen (msgHdr (fst m))))"

definition queue_rep :: "msg list \<Rightarrow> gobj \<Rightarrow> bool" where
  "queue_rep ms g \<longleftrightarrow> list_all2 (holds (g_heap g)) (m_MsgQueue g) ms \<and> distinct (m_MsgQueue g) \<and>
     gobj_inv (set (m_MsgQueue g)) g"

lemma holds_same: "heap_same b h h' \<Longrightarrow> c \<noteq> b \<Longrightarrow> holds h c m \<Longrightarrow> holds h' c m"
  by (simp add: heap_same_def holds_def)

lemma holds_all_same:
  "heap_same b h h' \<Longrightarrow> b \<notin> set q \<Longrightarrow> list_all2 (holds h) q ms \<Longrightarrow> list_all2 (holds h') q ms"
  by (erule list.rel_mono_strong) (metis holds_same)

text \<open>A store behind the size field keeps the invariant: only the block's payload changes.\<close>

lemma store_bytes_inv:
  assumes inv: "gobj_inv L g" and b: "b \<in> L" and bs: "h_blocks (g_heap g) b = Some bs"
    and fit: "8 + off + length xs \<le> length bs"
  shows "\<exists>h'. store_bytes b off xs (g_heap g) = Some h' \<and> gobj_inv L (g\<lparr>g_heap := h'\<rparr>) \<and>
    heap_same b (g_heap g) h' \<and> h_blocks h' b = Some (overwrite bs (8 + off) xs)"
proof -
  let ?bs = "overwrite bs (8 + off) xs"
  let ?h = "(g_heap g)\<lparr>h_blocks := (h_blocks (g_heap g))(b \<mapsto> ?bs)\<rparr>"
  have len: "length ?bs = length bs" using fit by simp
  have "take 8 ?bs = take 8 bs" using fit by (simp add: overwrite_def)
  then have "load_size b ?h = load_size b (g_heap g)" by (simp add: load_size_def bs len)
  then have blk: "blk_ok ?h b" using inv b bs len by (auto simp: gobj_inv_def blk_ok_def)
  have same: "heap_same b (g_heap g) ?h" by (simp add: heap_same_def)
  have "b \<notin> set (m_BlockList p)" if "i < 10" "g_pools g ! i = Some p" for i p
    using gobj_inv_pool [OF inv that(1)] that(2) b by (auto simp: pool_ok_def)
  then have "pool_ok L ?h i (g_pools g ! i)" if "i < 10" for i
    using pool_ok_same [OF gobj_inv_pool [OF inv that] same] that b by (simp add: insert_absorb)
  moreover have "blk_ok ?h c" if "c \<in> L" for c
    using blk blk_ok_same [OF same] inv that by (cases "c = b") (auto simp: gobj_inv_def)
  ultimately have "gobj_inv L (g\<lparr>g_heap := ?h\<rparr>)" using inv bs by (auto simp: gobj_inv_def)
  then show ?thesis using fit bs same by (auto simp: store_bytes_def)
qed

lemma gobj_inv_queue [simp]: "gobj_inv L (g\<lparr>m_MsgQueue := q\<rparr>) = gobj_inv L g"
  by (simp add: gobj_inv_def)

section \<open>Pushing\<close>

lemma overwrite_at: "length as = i \<Longrightarrow> length ys \<le> length bs \<Longrightarrow>
    overwrite (as @ bs) i ys = as @ ys @ drop (length ys) bs"
  by (simp add: overwrite_def)

text \<open>The two copies of \<^verbatim>\<open>PushMsg\<close> leave the message in the block.\<close>

lemma overwrite_message:
  assumes "8 + length hb + length body \<le> length bs"
  shows "\<exists>hd8 rest. overwrite (overwrite bs 8 hb) (8 + length hb) body = hd8 @ hb @ body @ rest
    \<and> length hd8 = 8"
proof -
  obtain a c where bs: "bs = a @ c" "length a = 8"
    using assms by (metis append_take_drop_id length_take min.absorb2 add_leD1)
  have c: "length hb + length body \<le> length c" using assms bs by simp
  have "overwrite bs 8 hb = (a @ hb) @ drop (length hb) c"
    using overwrite_at [of a 8 hb c] bs c by simp
  then have "overwrite (overwrite bs 8 hb) (8 + length hb) body
      = (a @ hb) @ body @ drop (length body) (drop (length hb) c)"
    using overwrite_at [of "a @ hb" "8 + length hb" body "drop (length hb) c"] bs c by simp
  then show ?thesis
    using bs(2) by (intro exI [of _ a] exI [of _ "drop (length body) (drop (length hb) c)"]) simp
qed

lemma PushMsg_live:
  assumes inv: "gobj_inv (insert b L) g" and room: "room b (sizeof_hdr hh + length body) (g_heap g)"
    and n: "length body = unat (bodyLen (msgHdr hh))"
  shows "\<exists>h1 h2. store_bytes b 0 (hdr_bytes pad hh) (g_heap g) = Some h1 \<and>
    (if length body > 0 then store_bytes b (sizeof_hdr hh) body h1 else Some h1) = Some h2 \<and>
    gobj_inv (insert b L) (g\<lparr>g_heap := h2\<rparr>) \<and> heap_same b (g_heap g) h2 \<and> holds h2 b (hh, body)"
proof -
  obtain bs where bs: "h_blocks (g_heap g) b = Some bs" and len: "8 + sizeof_hdr hh + length body \<le> length bs"
    using room by (auto simp: room_def)
  have "8 + 0 + length (hdr_bytes pad hh) \<le> length bs" using len by simp
  from store_bytes_inv [OF inv insertI1 bs this] obtain h1 where
    h1: "store_bytes b 0 (hdr_bytes pad hh) (g_heap g) = Some h1" "gobj_inv (insert b L) (g\<lparr>g_heap := h1\<rparr>)"
      "heap_same b (g_heap g) h1" "h_blocks h1 b = Some (overwrite bs 8 (hdr_bytes pad hh))" by auto
  have "8 + sizeof_hdr hh + length body \<le> length (overwrite bs 8 (hdr_bytes pad hh))"
    using len by simp
  with store_bytes_inv [OF h1(2) insertI1, of "overwrite bs 8 (hdr_bytes pad hh)" "sizeof_hdr hh" body] h1(4)
  obtain h2 where
    h2: "store_bytes b (sizeof_hdr hh) body h1 = Some h2" "gobj_inv (insert b L) (g\<lparr>g_heap := h2\<rparr>)"
      "heap_same b h1 h2"
      "h_blocks h2 b = Some (overwrite (overwrite bs 8 (hdr_bytes pad hh)) (8 + sizeof_hdr hh) body)"
    by auto
  have hl: "8 + length (hdr_bytes pad hh) + length body \<le> length bs" using len by simp
  have hold2: "holds h2 b (hh, body)"
    using h2(4) overwrite_message [OF hl] n by (auto simp: holds_def)
  have same2: "heap_same b (g_heap g) h2" using h1(3) h2(3) by (simp add: heap_same_def)
  show ?thesis
  proof (cases "body = []")
    case False
    then show ?thesis using h1 h2 hold2 same2 by auto
  next
    case True
    with h2(4) h1(4) True have "h_blocks h2 b = h_blocks h1 b" by simp
    with hold2 have "holds h1 b (hh, body)" by (simp add: holds_def)
    then show ?thesis using h1 True by auto
  qed
qed

lemma PushMsg_spec:
  assumes rep: "queue_rep ms g" and mal: "malloc_ok mal"
    and body: "unat (bodyLen (msgHdr hh)) \<le> length body"
  shows "PushMsg mal pad hh (Some body) g = Some g \<or>
    (\<exists>g'. PushMsg mal pad hh (Some body) g = Some g' \<and>
       queue_rep (ms @ [(hh, take (unat (bodyLen (msgHdr hh))) body)]) g')"
proof -
  let ?n = "unat (bodyLen (msgHdr hh))"
  let ?L = "set (m_MsgQueue g)"
  have inv: "gobj_inv ?L g" using rep by (simp add: queue_rep_def)
  have "?n < 2 ^ 32" using unat_less_2p [of "bodyLen (msgHdr hh)"] by simp
  then have lim: "sizeof_hdr hh + ?n + 8 < 2 ^ 64" using sizeof_hdr_bounds [of hh] by simp
  from Alloc_spec [OF inv mal lim] consider
      "AllocMsgBlock mal (sizeof_hdr hh + ?n) g = Some (None, g)"
    | b g' where "AllocMsgBlock mal (sizeof_hdr hh + ?n) g = Some (Some b, g')"
      "allocated ?L g (sizeof_hdr hh + ?n) b g'" by blast
  then show ?thesis
  proof cases
    case 1
    then show ?thesis by (simp add: PushMsg_def Let_def)
  next
    case 2
    let ?body = "take ?n body"
    have len: "length ?body = ?n" using body by simp
    from 2(2) have al: "b \<notin> ?L" "gobj_inv (insert b ?L) g'" "room b (sizeof_hdr hh + length ?body) (g_heap g')"
      "heap_same b (g_heap g) (g_heap g')" "m_MsgQueue g' = m_MsgQueue g"
      unfolding allocated_def len by blast+
    from PushMsg_live [OF al(2,3) len, of pad] obtain h1 h2 where
      st: "store_bytes b 0 (hdr_bytes pad hh) (g_heap g') = Some h1"
        "(if ?n > 0 then store_bytes b (sizeof_hdr hh) ?body h1 else Some h1) = Some h2"
      and post: "gobj_inv (insert b ?L) (g'\<lparr>g_heap := h2\<rparr>)" "heap_same b (g_heap g') h2"
        "holds h2 b (hh, ?body)"
      unfolding len by blast
    let ?g = "g'\<lparr>g_heap := h2, m_MsgQueue := queue_Push b (m_MsgQueue g')\<rparr>"
    have "PushMsg mal pad hh (Some body) g = Some ?g"
    proof (cases "?n > 0")
      case True
      with st(2) have "store_bytes b (sizeof_hdr hh) ?body h1 = Some h2" by simp
      with True body 2(1) st(1) show ?thesis by (simp add: PushMsg_def)
    next
      case False
      with st(2) have "h1 = h2" by simp
      with False 2(1) st(1) show ?thesis by (simp add: PushMsg_def)
    qed
    moreover have "queue_rep (ms @ [(hh, ?body)]) ?g"
    proof -
      have "heap_same b (g_heap g) h2" using al(4) post(2) by (simp add: heap_same_def)
      then have "list_all2 (holds h2) (m_MsgQueue g) ms"
        by (rule holds_all_same [OF _ al(1)]) (use rep in \<open>simp add: queue_rep_def\<close>)
      then have "list_all2 (holds h2) (m_MsgQueue g @ [b]) (ms @ [(hh, ?body)])"
        using post(3) by (intro list_all2_appendI) simp_all
      moreover have "distinct (m_MsgQueue g @ [b])" using rep al(1) by (simp add: queue_rep_def)
      ultimately show ?thesis
        using post(1) by (simp add: queue_rep_def queue_Push_def al(5))
    qed
    ultimately show ?thesis by blast
  qed
qed

section \<open>With memory to spare\<close>

definition malloc_total :: "malloc \<Rightarrow> bool" where
  "malloc_total mal \<longleftrightarrow> malloc_ok mal \<and> (\<forall>n. mal n \<noteq> None)"

lemma Alloc_never_fails:
  assumes "\<And>n. mal n \<noteq> None"
  shows "AllocMsgBlock mal n g \<noteq> Some (None, g')"
proof -
  have "pool_Alloc mal p h \<noteq> (None, p', h')" for p h p' h'
    by (auto simp: assms pool_Alloc_def heap_new_def simp del: not_None_eq split: list.splits option.splits)
  then show ?thesis
    by (auto simp: assms AllocMsgBlock_def Let_def heap_new_def simp del: not_None_eq
        split: option.splits prod.splits if_splits)
qed

lemma PushMsg_total:
  assumes "queue_rep ms g" "malloc_total mal" "length body = unat (bodyLen (msgHdr hh))"
  shows "\<exists>g'. PushMsg mal pad hh (Some body) g = Some g' \<and> queue_rep (ms @ [(hh, body)]) g'"
proof -
  let ?n = "unat (bodyLen (msgHdr hh))"
  have inv: "gobj_inv (set (m_MsgQueue g)) g" using assms(1) by (simp add: queue_rep_def)
  have "malloc_ok mal" using assms(2) by (simp add: malloc_total_def)
  note push = PushMsg_spec [OF assms(1) this, of hh body pad]
  have "PushMsg mal pad hh (Some body) g \<noteq> Some g"
  proof
    assume eq: "PushMsg mal pad hh (Some body) g = Some g"
    show False
    proof (cases "AllocMsgBlock mal (sizeof_hdr hh + ?n) g")
      case None
      with eq show False by (simp add: PushMsg_def Let_def)
    next
      case (Some r)
      obtain b g' where r: "r = (Some b, g')"
        using Some Alloc_never_fails [of mal] assms(2)
        by (metis malloc_total_def option.exhaust surj_pair)
      have "?n < 2 ^ 32" using unat_less_2p [of "bodyLen (msgHdr hh)"] by simp
      then have lim: "sizeof_hdr hh + ?n + 8 < 2 ^ 64" using sizeof_hdr_bounds [of hh] by simp
      have "m_MsgQueue g' = m_MsgQueue g"
        using Alloc_spec [OF inv \<open>malloc_ok mal\<close> lim] Some r by (auto simp: allocated_def)
      with eq Some r show False
        by (auto simp: PushMsg_def Let_def queue_Push_def split: option.splits if_splits
            dest!: arg_cong [where f = m_MsgQueue])
    qed
  qed
  with push assms(3) show ?thesis by auto
qed

section \<open>Processing\<close>

text \<open>Messages are pushed with the type their header class stands for.\<close>

primrec hdr_consistent :: "hdr \<Rightarrow> bool" where
  "hdr_consistent (ClientMsgHdr h) = (msgType h = CLIENT_MSGTYPE)"
| "hdr_consistent (ProxyMsgHdr h tt ti st si) = (msgType h = SERVER_MSGTYPE \<or> msgType h = PROXY_MSGTYPE)"

text \<open>The call a message stands for, without any memory.\<close>

fun call_of :: "msg \<Rightarrow> logic_call" where
  "call_of (ClientMsgHdr h, body) = ProcessLogic (cmdID h) body (bodyLen h) (sessionID h)"
| "call_of (ProxyMsgHdr h tt ti st si, body) =
     (if msgType h = SERVER_MSGTYPE then ProcessLogic (cmdID h) body (bodyLen h) (sessionID h)
      else ProcessProxyLogic (cmdID h) body (bodyLen h) tt ti st si (sessionID h))"

lemma load_bytes_at:
  "h_blocks h b = Some (hd8 @ pre @ xs @ rest) \<Longrightarrow> length hd8 = 8 \<Longrightarrow> length pre = off \<Longrightarrow>
     length xs = n \<Longrightarrow> load_bytes b off n h = Some xs"
  by (simp add: load_bytes_def)

lemma dispatch_holds:
  assumes "holds h b (hh, body)" and "hdr_consistent hh"
  shows "dispatch b h = Some [call_of (hh, body)]"
proof -
  obtain hd8 pad rest where blk: "h_blocks h b = Some (hd8 @ hdr_bytes pad hh @ body @ rest)"
    and hd8: "length hd8 = 8" and body: "length body = unat (bodyLen (msgHdr hh))"
    using assms(1) by (auto simp: holds_def)
  show ?thesis
  proof (cases hh)
    case (ClientMsgHdr m)
    have "load_bytes b 0 16 h = Some (msg_hdr_bytes pad m)"
      using load_bytes_at [of h b hd8 "[]" "msg_hdr_bytes pad m"] blk hd8 ClientMsgHdr by simp
    moreover have "load_bytes b 16 (unat (bodyLen m)) h = Some body"
      using load_bytes_at [of h b hd8 "msg_hdr_bytes pad m" body] blk hd8 body ClientMsgHdr by simp
    moreover have "read_msg_hdr (msg_hdr_bytes pad m) = m"
      using read_msg_hdr_bytes [of pad m "[]"] by simp
    ultimately show ?thesis using assms(2) ClientMsgHdr by (simp add: dispatch_def)
  next
    case (ProxyMsgHdr m tt ti st si)
    have "load_bytes b 0 16 h = Some (msg_hdr_bytes pad m)"
      using load_bytes_at [of h b hd8 "[]" "msg_hdr_bytes pad m"] blk hd8 ProxyMsgHdr by simp
    moreover have "load_bytes b 20 (unat (bodyLen m)) h = Some body"
      using load_bytes_at [of h b hd8 "hdr_bytes pad hh" body] blk hd8 body ProxyMsgHdr by simp
    moreover have "load_bytes b 16 4 h = Some [tt, ti, st, si]"
      using load_bytes_at [of h b hd8 "msg_hdr_bytes pad m" "[tt, ti, st, si]"] blk hd8 ProxyMsgHdr
      by simp
    moreover have "read_msg_hdr (msg_hdr_bytes pad m) = m"
      using read_msg_hdr_bytes [of pad m "[]"] by simp
    ultimately show ?thesis using assms(2) ProxyMsgHdr
      by (auto simp: dispatch_def Let_def msgtype_defs)
  qed
qed

text \<open>
  The loop over a queue that holds \<open>ms\<close>, with \<open>q\<close> the live blocks still to come: every
  message is dispatched once, in order, and its block released.
\<close>

lemma process_loop_spec:
  assumes "q \<noteq> []" and "list_all2 (holds (g_heap g)) q ms" and "distinct q" and "gobj_inv (set q) g"
    and "\<forall>m \<in> set ms. hdr_consistent (fst m)"
  shows "\<exists>g'. process_loop q g = Some (map call_of ms, g') \<and> gobj_inv {} g' \<and>
    m_MsgQueue g' = m_MsgQueue g"
  using assms
proof (induction q arbitrary: g ms)
  case Nil
  then show ?case by simp
next
  case (Cons b q)
  then obtain m ms' where ms: "ms = m # ms'" and hm: "holds (g_heap g) b m"
    and rest: "list_all2 (holds (g_heap g)) q ms'" by (auto simp: list_all2_Cons1)
  obtain hh body where m: "m = (hh, body)" by force
  have disp: "dispatch b (g_heap g) = Some [call_of m]"
    using dispatch_holds [of "g_heap g" b hh body] hm Cons.prems(5) by (simp add: ms m)
  have "b \<in> set (b # q)" by simp
  from Free_spec [OF Cons.prems(4) this] obtain g' where
    free: "FreeMsgBlock (Some b) g = Some g'" and inv: "gobj_inv (set (b # q) - {b}) g'"
    and same: "heap_same b (g_heap g) (g_heap g')" and mq: "m_MsgQueue g' = m_MsgQueue g" by blast
  have bq: "b \<notin> set q" using Cons.prems(3) by simp
  then have inv': "gobj_inv (set q) g'" using inv by simp
  show ?case
  proof (cases "q = []")
    case True
    with rest have "ms' = []" by simp
    with True disp free inv' mq show ?thesis by (simp add: ms queue_Empty_def)
  next
    case False
    have "list_all2 (holds (g_heap g')) q ms'" by (rule holds_all_same [OF same bq rest])
    with Cons.IH [OF False this _ inv'] Cons.prems(3,5) obtain g'' where
      "process_loop q g' = Some (map call_of ms', g'')" "gobj_inv {} g''" "m_MsgQueue g'' = m_MsgQueue g'"
      by (auto simp: ms)
    with False disp free mq show ?thesis by (simp add: ms queue_Empty_def)
  qed
qed

lemma ProcessMsg_spec:
  assumes rep: "queue_rep ms g" and ms: "ms \<noteq> []" and "\<forall>m \<in> set ms. hdr_consistent (fst m)"
  shows "\<exists>g'. ProcessMsg g = Some (True, map call_of ms, g') \<and> queue_rep [] g'"
proof -
  let ?q = "m_MsgQueue g"
  have q: "list_all2 (holds (g_heap g)) ?q ms" "distinct ?q" "gobj_inv (set ?q) g"
    using rep by (simp_all add: queue_rep_def)
  have ne: "?q \<noteq> []" using q(1) ms by auto
  let ?g = "g\<lparr>m_MsgQueue := []\<rparr>"
  have "list_all2 (holds (g_heap ?g)) ?q ms" using q(1) by simp
  from process_loop_spec [OF ne this q(2) _ assms(3)] q(3) obtain g' where
    "process_loop ?q ?g = Some (map call_of ms, g')" "gobj_inv {} g'" "m_MsgQueue g' = []" by auto
  then show ?thesis using ne
    by (simp add: ProcessMsg_def GetMsgQueue_def queue_Empty_def queue_Clear_def queue_rep_def)
qed

lemma ProcessMsg_empty: "queue_rep [] g \<Longrightarrow> ProcessMsg g = Some (False, [], g)"
  by (simp add: ProcessMsg_def GetMsgQueue_def queue_Empty_def queue_rep_def)

section \<open>Registration\<close>

definition handlers_ok :: "'h msg_handler \<Rightarrow> bool" where
  "handlers_ok m \<longleftrightarrow> length (m_HandlerList m) = MAX_MSG_NUM"

lemma handlers_ok_new [inv_intros]: "handlers_ok (new_MsgHandler w)"
  by (simp add: handlers_ok_def new_MsgHandler_def)

lemma handlers_ok_register [inv_intros]:
  "handlers_ok m \<Longrightarrow> RegisterMsgHandler i f m = Some m' \<Longrightarrow> handlers_ok m'"
  by (auto simp: handlers_ok_def RegisterMsgHandler_def split: if_splits)

lemma register_lookup:
  "handlers_ok m \<Longrightarrow> RegisterMsgHandler i f m = Some m' \<Longrightarrow>
     m_HandlerList m' ! j = (if j = unat i then Some f else m_HandlerList m ! j)"
  by (auto simp: handlers_ok_def RegisterMsgHandler_def split: if_splits)

section \<open>The table of handlers at work\<close>

text \<open>The call a queued message leads to: the handler registered for its command, if any.\<close>

definition handled :: "'h msg_handler \<Rightarrow> msg \<Rightarrow> ('h \<times> msg_hdr) list" where
  "handled m x =
     (case m_HandlerList m ! unat (cmdID (msgHdr (fst x))) of
        None \<Rightarrow> [] | Some f \<Rightarrow> [(f, msgHdr (fst x))])"

lemma load_hdr_holds:
  assumes "holds h b x"
  shows "\<exists>raw. load_bytes b 0 16 h = Some raw \<and> read_msg_hdr raw = msgHdr (fst x)"
proof -
  obtain hd8 pad rest where blk: "h_blocks h b = Some (hd8 @ hdr_bytes pad (fst x) @ snd x @ rest)"
    and hd8: "length hd8 = 8" using assms by (auto simp: holds_def)
  obtain tl where tl: "hdr_bytes pad (fst x) = msg_hdr_bytes pad (msgHdr (fst x)) @ tl"
    by (cases "fst x") auto
  have "load_bytes b 0 16 h = Some (msg_hdr_bytes pad (msgHdr (fst x)))"
    using load_bytes_at [of h b hd8 "[]" "msg_hdr_bytes pad (msgHdr (fst x))"] blk hd8 tl by simp
  then show ?thesis using read_msg_hdr_bytes [of pad "msgHdr (fst x)" "[]"] by auto
qed

lemma handler_loop_spec:
  assumes "q \<noteq> []" and "list_all2 (holds (g_heap g)) q ms" and "distinct q" and "gobj_inv (set q) g"
    and "\<forall>x \<in> set ms. unat (cmdID (msgHdr (fst x))) < MAX_MSG_NUM"
  shows "\<exists>g'. handler_loop m q g = Some (concat (map (handled m) ms), g') \<and> gobj_inv {} g' \<and>
    m_MsgQueue g' = m_MsgQueue g"
  using assms
proof (induction q arbitrary: g ms)
  case Nil
  then show ?case by simp
next
  case (Cons b q)
  then obtain x ms' where ms: "ms = x # ms'" and hx: "holds (g_heap g) b x"
    and rest: "list_all2 (holds (g_heap g)) q ms'" by (auto simp: list_all2_Cons1)
  obtain raw where raw: "load_bytes b 0 16 (g_heap g) = Some raw" "read_msg_hdr raw = msgHdr (fst x)"
    using load_hdr_holds [OF hx] by blast
  have cmd: "unat (cmdID (msgHdr (fst x))) < MAX_MSG_NUM" using Cons.prems(5) ms by simp
  have "b \<in> set (b # q)" by simp
  from Free_spec [OF Cons.prems(4) this] obtain g' where
    free: "FreeMsgBlock (Some b) g = Some g'" and inv: "gobj_inv (set (b # q) - {b}) g'"
    and same: "heap_same b (g_heap g) (g_heap g')" and mq: "m_MsgQueue g' = m_MsgQueue g" by blast
  have bq: "b \<notin> set q" using Cons.prems(3) by simp
  then have inv': "gobj_inv (set q) g'" using inv by simp
  have hd: "(case m_HandlerList m ! unat (cmdID (msgHdr (fst x))) of
      None \<Rightarrow> [] | Some f \<Rightarrow> [(f, msgHdr (fst x))]) = handled m x"
    by (simp add: handled_def)
  show ?case
  proof (cases "q = []")
    case True
    with rest have "ms' = []" by simp
    with True raw free inv' mq cmd hd show ?thesis by (simp add: ms queue_Empty_def)
  next
    case False
    have "list_all2 (holds (g_heap g')) q ms'" by (rule holds_all_same [OF same bq rest])
    with Cons.IH [OF False this _ inv'] Cons.prems(3,5) obtain g'' where
      "handler_loop m q g' = Some (concat (map (handled m) ms'), g'')" "gobj_inv {} g''"
      "m_MsgQueue g'' = m_MsgQueue g'"
      by (auto simp: ms)
    with False raw free mq cmd hd show ?thesis by (simp add: ms queue_Empty_def)
  qed
qed

lemma queued_example:
  "\<exists>g. queue_rep [(mk_client_hdr c 0 0 0, [])] g"
proof -
  let ?h = "\<lparr>h_blocks = Map.empty, h_fresh = 0\<rparr>"
  have "queue_rep [] (gobj_Init (GlobalObject ?h))"
    using gobj_inv_Init [of ?h]
    by (simp add: queue_rep_def gobj_Init_def Init_loop_frame GlobalObject_def)
  moreover have "malloc_total (\<lambda>n. Some (replicate n 0))"
    by (simp add: malloc_total_def malloc_ok_def)
  ultimately show ?thesis
    using PushMsg_total [of "[]" "gobj_Init (GlobalObject ?h)" "\<lambda>n. Some (replicate n 0)" "[]" "mk_client_hdr c 0 0 0" "[]"]
    by (auto simp: mk_client_hdr_def MsgHdr_def)
qed

section \<open>Properties\<close>

text \<open>
  One round of the handler table's loop calls, for every queued message in order, the
  handler registered for its command (none where there is none), and releases every block.
\<close>

theorem handler_round:
  assumes "queue_rep ms g" and "ms \<noteq> []"
    and "\<forall>x \<in> set ms. unat (cmdID (msgHdr (fst x))) < MAX_MSG_NUM"
  shows "\<exists>g'. handler_ProcessMsg m g = Some (True, concat (map (handled m) ms), g') \<and> queue_rep [] g'"
proof -
  let ?q = "m_MsgQueue g" and ?g = "g\<lparr>m_MsgQueue := []\<rparr>"
  have q: "list_all2 (holds (g_heap g)) ?q ms" "distinct ?q" "gobj_inv (set ?q) g"
    using assms(1) by (simp_all add: queue_rep_def)
  have ne: "?q \<noteq> []" using q(1) assms(2) by auto
  have "list_all2 (holds (g_heap ?g)) ?q ms" using q(1) by simp
  from handler_loop_spec [OF ne this q(2) _ assms(3)] q(3) obtain g' where
    "handler_loop m ?q ?g = Some (concat (map (handled m) ms), g')" "gobj_inv {} g'" "m_MsgQueue g' = []"
    by auto
  then show ?thesis using ne
    by (simp add: handler_ProcessMsg_def GetMsgQueue_def queue_Empty_def queue_Clear_def queue_rep_def)
qed

theorem handler_round_witness:
  "\<exists>g g'. queue_rep [(mk_client_hdr 7 0 0 0, [])] g \<and>
    handler_ProcessMsg (new_MsgHandler 0 :: nat msg_handler) g
      = Some (True, concat (map (handled (new_MsgHandler 0)) [(mk_client_hdr 7 0 0 0, [])]), g') \<and> queue_rep [] g'"
proof -
  obtain g where g: "queue_rep [(mk_client_hdr 7 0 0 0, [])] g" using queued_example by blast
  then show ?thesis
    using handler_round [OF g, of "new_MsgHandler 0 :: nat msg_handler"]
    by (fastforce simp: mk_client_hdr_def MsgHdr_def MAX_MSG_NUM_def)
qed

text \<open>
  A queued command of \<open>0x500\<close> or more, which any peer can send, ends the handler loop
  in its failing assertion (without assertions, in an access outside the table).
\<close>

theorem handler_bad_command:
  assumes "queue_rep (x # ms) g" and "\<not> unat (cmdID (msgHdr (fst x))) < MAX_MSG_NUM"
  shows "handler_ProcessMsg m g = None"
proof -
  obtain b q where q: "m_MsgQueue g = b # q" "holds (g_heap g) b x"
    using assms(1) by (auto simp: queue_rep_def list_all2_Cons2)
  obtain raw where "load_bytes b 0 16 (g_heap g) = Some raw" "read_msg_hdr raw = msgHdr (fst x)"
    using load_hdr_holds [OF q(2)] by blast
  with q assms(2) show ?thesis
    by (simp add: handler_ProcessMsg_def GetMsgQueue_def queue_Empty_def)
qed

theorem handler_bad_command_witness:
  "\<exists>g. queue_rep [(mk_client_hdr 0x500 0 0 0, [])] g \<and>
    handler_ProcessMsg (new_MsgHandler 0 :: nat msg_handler) g = None"
proof -
  obtain g where g: "queue_rep [(mk_client_hdr 0x500 0 0 0, [])] g" using queued_example by blast
  then show ?thesis
    using handler_bad_command [OF g, of "new_MsgHandler 0 :: nat msg_handler"]
    by (auto simp: mk_client_hdr_def MsgHdr_def MAX_MSG_NUM_def)
qed

text \<open>
  Registering handlers for different commands fills the table: every registered command
  finds its own handler and no other entry changes; a command can be registered once.
\<close>

theorem register_handlers:
  assumes "handlers_ok m" and "unat i < MAX_MSG_NUM" and "m_HandlerList m ! unat i = None"
  shows "\<exists>m'. RegisterMsgHandler i f m = Some m' \<and> handlers_ok m' \<and>
    m_HandlerList m' ! unat i = Some f \<and> (\<forall>j. j \<noteq> unat i \<longrightarrow> m_HandlerList m' ! j = m_HandlerList m ! j) \<and>
    RegisterMsgHandler i f' m' = None"
proof -
  obtain m' where m': "RegisterMsgHandler i f m = Some m'"
    using assms(2,3) by (simp add: RegisterMsgHandler_def)
  note at = register_lookup [OF assms(1) m']
  have "RegisterMsgHandler i f' m' = None" using assms(2) at by (simp add: RegisterMsgHandler_def)
  with m' at handlers_ok_register [OF assms(1) m'] show ?thesis by simp
qed

theorem register_handlers_witness:
  "\<exists>m'. RegisterMsgHandler 7 (1 :: nat) (new_MsgHandler 0) = Some m' \<and> m_HandlerList m' ! 7 = Some 1"
  using register_handlers [of "new_MsgHandler 0 :: nat msg_handler" 7 1]
  by (auto simp: handlers_ok_def new_MsgHandler_def MAX_MSG_NUM_def)

end
