(* ===== verification/Logic_Thread.thy ===== *)
theory Logic_Thread
  imports Tcp_Master Msg_Handler
begin

text \<open>
  \<^verbatim>\<open>Server/Logic.cpp\<close>: what the logic thread does with the messages the queue hands it. It
  passes them on to the managed program, answers registrations of other servers and relays
  messages between them. The managed runtime is outside the sources: \<open>search\<close> is the lookup
  of a method and an invocation is recorded with its arguments. \<open>None\<close> as a result is
  undefined behaviour: a read or write outside an object, or a shift by the width or more.
\<close>

datatype mono_args =
    ArgTick u64
  | ArgProxy int
  | ArgConfig int int int
  | ArgMsg int u32 "u8 list" u32

record 'm logic =
  cfg_serverType :: u8
  cfg_serverUID :: u8
  m_mLinkedServer :: "u32 \<Rightarrow> u32 option"
  m_mInvokeMethods :: "u8 \<Rightarrow> 'm option option"
  l_net :: server_wrapper
  l_invoked :: "('m option \<times> mono_args) list"

definition MM_PRINTMONO :: u8 where "MM_PRINTMONO = 1"
definition MM_TICK :: u8 where "MM_TICK = 2"
definition MM_PROCESSMSG :: u8 where "MM_PROCESSMSG = 3"
definition MM_SETPROXY :: u8 where "MM_SETPROXY = 4"
definition MM_SETSERVICECONFIG :: u8 where "MM_SETSERVICECONFIG = 5"

definition GetInvokeMethod :: "(u8 \<Rightarrow> 'm option) \<Rightarrow> u8 \<Rightarrow> 'm logic \<Rightarrow> 'm option \<times> 'm logic" where
  "GetInvokeMethod search name l =
     (case m_mInvokeMethods l name of
        Some (Some m) \<Rightarrow> (Some m, l)
      | _ \<Rightarrow>
          if name \<in> {MM_PRINTMONO, MM_TICK, MM_PROCESSMSG, MM_SETPROXY, MM_SETSERVICECONFIG}
          then (search name, l\<lparr>m_mInvokeMethods := (m_mInvokeMethods l)(name \<mapsto> search name)\<rparr>)
          else (None, l))"

definition invoke :: "'m option \<Rightarrow> mono_args \<Rightarrow> 'm logic \<Rightarrow> 'm logic" where
  "invoke m a l = l\<lparr>l_invoked := l_invoked l @ [(m, a)]\<rparr>"

definition Tick :: "(u8 \<Rightarrow> 'm option) \<Rightarrow> u64 \<Rightarrow> 'm logic \<Rightarrow> 'm logic" where
  "Tick search now l =
     (case GetInvokeMethod search MM_TICK l of (m, l') \<Rightarrow> invoke m (ArgTick now) l')"

section \<open>Composing and sending\<close>

text \<open>\<^verbatim>\<open>NETWORK()->SendMsgToClient(id, &st[0], st.size())\<close>: the size parameter has 16 bits.\<close>

definition send_stream :: "int \<Rightarrow> wstream \<Rightarrow> 'm logic \<Rightarrow> 'm logic option" where
  "send_stream sid st l =
     map_option (\<lambda>w. l\<lparr>l_net := w\<rparr>)
       (SendMsgToClient sid (take (unat (of_nat (stream_size st) :: u16)) (wbuf st)) (l_net l))"

definition SPLIT_ID :: "u8 \<Rightarrow> u8 \<Rightarrow> u16" where
  "SPLIT_ID type i = push_bit 8 (ucast type) + ucast i"

text \<open>The expression \<open>serverType << 8 + serverUID\<close> of the two send functions.\<close>

definition source_expr :: "u8 \<Rightarrow> u8 \<Rightarrow> u16 option" where
  "source_expr type uid =
     (let n = 8 + unat uid
      in if n \<ge> 32 then None else Some (word_of_int (push_bit n (uint type))))"

text \<open>
  The managed array is \<open>buf\<close>; \<^verbatim>\<open>size\<close> bytes are copied from its start, so a size beyond
  its end (or a negative one) reads outside it.
\<close>

definition SendMsg :: "int \<Rightarrow> int \<Rightarrow> u8 list \<Rightarrow> int \<Rightarrow> 'm logic \<Rightarrow> 'm logic option" where
  "SendMsg sid cmdid buf sz l =
     (case source_expr (cfg_serverType l) (cfg_serverUID l) of
        None \<Rightarrow> None
      | Some src \<Rightarrow>
          if sz < 0 \<or> nat sz > length buf then None
          else
            (let st = stream_msg (word_of_int cmdid) (push_bit 8 1 + 1) src;
                 st1 = stream_put (word_of_int sz :: u16) st;
                 st2 = stream_append (take (nat sz) buf) st1
             in send_stream sid (stream_eos st2) l))"

definition SendMsg2Server ::
    "int \<Rightarrow> int \<Rightarrow> u8 list \<Rightarrow> int \<Rightarrow> int \<Rightarrow> 'm logic \<Rightarrow> 'm logic option" where
  "SendMsg2Server sid cmdid buf sz target l =
     (case source_expr (cfg_serverType l) (cfg_serverUID l) of
        None \<Rightarrow> None
      | Some src \<Rightarrow>
          if sz < 0 \<or> nat sz > length buf then None
          else
            (let st = stream_msg (word_of_int cmdid) (word_of_int target) src;
                 st1 = stream_put (word_of_int sz :: u16) st;
                 st2 = stream_append (take (nat sz) buf) st1
             in send_stream sid (stream_eos st2) l))"

definition ProxyMsg2Server ::
    "int \<Rightarrow> int \<Rightarrow> u8 list \<Rightarrow> int \<Rightarrow> int \<Rightarrow> int \<Rightarrow> 'm logic \<Rightarrow> 'm logic option" where
  "ProxyMsg2Server sid cmdid buf sz target source l =
     (if sz < 0 \<or> nat sz > length buf then None
      else
        (let st = stream_msg (word_of_int cmdid) (word_of_int target) (word_of_int source);
             st1 = stream_append (take (nat sz) buf) st
         in send_stream sid (stream_eos st1) l))"

section \<open>Processing\<close>

text \<open>A store into a local array.\<close>

definition arr_set :: "nat \<Rightarrow> 'a \<Rightarrow> 'a list \<Rightarrow> 'a list option" where
  "arr_set i x xs = (if i < length xs then Some (xs[i := x]) else None)"

text \<open>\<^verbatim>\<open>args1\<close> is declared with one element and gets three.\<close>

definition ProcessRegisteredProtocol :: "(u8 \<Rightarrow> 'm option) \<Rightarrow> int \<Rightarrow> 'm logic \<Rightarrow> 'm logic option" where
  "ProcessRegisteredProtocol search sid l =
     (case GetInvokeMethod search MM_SETPROXY l of
        (m, l1) \<Rightarrow>
          (case GetInvokeMethod search MM_SETSERVICECONFIG (invoke m (ArgProxy sid) l1) of
             (m1, l2) \<Rightarrow>
               (let service_id = uint (SPLIT_ID (cfg_serverType l) (cfg_serverUID l));
                    args1 = [0 :: int]
                in case arr_set 0 service_id args1 of
                     None \<Rightarrow> None
                   | Some a1 \<Rightarrow>
                       (case arr_set 1 1 a1 of
                          None \<Rightarrow> None
                        | Some a2 \<Rightarrow>
                            (case arr_set 2 257 a2 of
                               None \<Rightarrow> None
                             | Some a3 \<Rightarrow>
                                 Some (invoke m1 (ArgConfig (a3 ! 0) (a3 ! 1) (a3 ! 2)) l2))))))"

definition do_ProcessLogic ::
    "(u8 \<Rightarrow> 'm option) \<Rightarrow> u32 \<Rightarrow> u8 list \<Rightarrow> u32 \<Rightarrow> int \<Rightarrow> 'm logic \<Rightarrow> 'm logic option" where
  "do_ProcessLogic search cmd_id msgBody len sid l =
     (if cmd_id = 2 then ProcessRegisteredProtocol search sid l
      else
        (case GetInvokeMethod search MM_PROCESSMSG l of
           (None, l1) \<Rightarrow> Some l1
         | (Some m, l1) \<Rightarrow>
             if len \<le> 2 then Some l1
             else if length msgBody < unat len then None
             else
               (let body = take (unat len - 2) (drop 2 msgBody);
                    packet_len = ucast (obj_val (take 2 msgBody) :: u16)
                in Some (invoke (Some m) (ArgMsg sid cmd_id body packet_len) l1))))"

definition linked_get :: "u32 \<Rightarrow> 'm logic \<Rightarrow> u32 \<times> 'm logic" where
  "linked_get k l =
     (case m_mLinkedServer l k of
        Some v \<Rightarrow> (v, l)
      | None \<Rightarrow> (0, l\<lparr>m_mLinkedServer := (m_mLinkedServer l)(k \<mapsto> 0)\<rparr>))"

definition okay_text :: "u8 list" where
  "okay_text = map (\<lambda>c. of_char c) ''register_okay_protocol!''"

definition do_ProcessProxyLogic ::
    "u32 \<Rightarrow> u8 list \<Rightarrow> u32 \<Rightarrow> u8 \<Rightarrow> u8 \<Rightarrow> u8 \<Rightarrow> u8 \<Rightarrow> int \<Rightarrow> 'm logic \<Rightarrow> 'm logic option" where
  "do_ProcessProxyLogic cmd_id msgBody len tt ti st si sid l =
     (if cmd_id = 1 then
        (let l1 = l\<lparr>m_mLinkedServer :=
                     (m_mLinkedServer l)(ucast (SPLIT_ID st si) \<mapsto> word_of_int sid)\<rparr>;
             strm = stream_msg 2 (SPLIT_ID st si) (SPLIT_ID tt ti)
         in send_stream sid (stream_eos (stream_put_cstr (Some okay_text) strm)) l1)
      else
        (case linked_get (ucast (SPLIT_ID tt ti)) l of
           (v, l1) \<Rightarrow>
             ProxyMsg2Server (to_int32 (uint v)) (to_int32 (uint cmd_id)) msgBody
               (to_int32 (uint len)) (uint (SPLIT_ID tt ti)) (uint (SPLIT_ID st si)) l1))"

text \<open>The calls of one round of the message loop, on the logic object.\<close>

definition run_call :: "(u8 \<Rightarrow> 'm option) \<Rightarrow> logic_call \<Rightarrow> 'm logic \<Rightarrow> 'm logic option" where
  "run_call search c l =
     (case c of
        ProcessLogic cmd body len sid \<Rightarrow>
          do_ProcessLogic search cmd body len (to_int32 (uint sid)) l
      | ProcessProxyLogic cmd body len tt ti st si sid \<Rightarrow>
          do_ProcessProxyLogic cmd body len tt ti st si (to_int32 (uint sid)) l)"

fun run_calls :: "(u8 \<Rightarrow> 'm option) \<Rightarrow> logic_call list \<Rightarrow> 'm logic \<Rightarrow> 'm logic option" where
  "run_calls search [] l = Some l"
| "run_calls search (c # cs) l =
     (case run_call search c l of None \<Rightarrow> None | Some l' \<Rightarrow> run_calls search cs l')"

section \<open>Pushing a connection's messages\<close>

text \<open>
  \<^verbatim>\<open>TcpConduit::on_read\<close> hands each message to \<^verbatim>\<open>GLOBAL().PushMsg\<close>; \<open>pad\<close> are the
  padding bytes of the header objects.
\<close>

fun push_all :: "malloc \<Rightarrow> u8 list \<Rightarrow> msg list \<Rightarrow> gobj \<Rightarrow> gobj option" where
  "push_all mal pad [] g = Some g"
| "push_all mal pad ((hh, body) # ms) g =
     (case PushMsg mal pad hh (Some body) g of None \<Rightarrow> None | Some g' \<Rightarrow> push_all mal pad ms g')"

section \<open>The queue between the threads\<close>

lemma push_all_spec:
  assumes "queue_rep ms0 g" "malloc_total mal"
    and "\<forall>m \<in> set ms. length (snd m) = unat (bodyLen (msgHdr (fst m)))"
  shows "\<exists>g'. push_all mal pad ms g = Some g' \<and> queue_rep (ms0 @ ms) g'"
  using assms
proof (induction ms arbitrary: ms0 g)
  case Nil
  then show ?case by simp
next
  case (Cons m ms)
  obtain hh body where m: "m = (hh, body)" by force
  have "length body = unat (bodyLen (msgHdr hh))" using Cons.prems(3) m by simp
  from PushMsg_total [OF Cons.prems(1,2) this, of pad] obtain g' where
    g': "PushMsg mal pad hh (Some body) g = Some g'" "queue_rep (ms0 @ [(hh, body)]) g'" by blast
  from Cons.IH [OF g'(2) Cons.prems(2)] Cons.prems(3) g'(1) show ?case by (simp add: m)
qed

section \<open>Header fields\<close>

lemma SPLIT_ID_split: "SPLIT_ID (ucast (drop_bit 8 t)) (ucast t) = t"
proof -
  have "unat (push_bit 8 (ucast (ucast (drop_bit 8 t) :: u8)) + ucast (ucast t :: u8) :: u16)
      = (unat t div 256 * 256 + unat t mod 256) mod 2 ^ 16"
  proof -
    have a: "(ucast b :: u16) = of_nat (unat b)" for b :: u8 by simp
    have b: "unat (ucast t :: u8) = unat t mod 256" by (simp add: unat_ucast)
    show ?thesis unfolding a byte_hi16 b push_bit_eq_mult
      by (simp add: unat_word_ariths unat_of_nat mod_simps)
  qed
  also have "\<dots> = unat t" using unat_less_2p [of t] by simp
  finally show ?thesis unfolding SPLIT_ID_def by (simp add: word_unat_eq_iff)
qed

lemma uint_hi8: "(word_of_int (drop_bit 8 (uint (t :: u16))) :: u8) = ucast (drop_bit 8 t)"
  by (simp add: ucast_eq unsigned_drop_bit_eq bintr_uint)


lemma split_target: "SPLIT_ID (word_of_int (drop_bit 8 (uint t))) (ucast t) = t"
  unfolding uint_hi8 by (rule SPLIT_ID_split)

section \<open>Relaying\<close>

text \<open>A message of a client connection that is to be relayed.\<close>

definition relayed :: "message \<Rightarrow> bool" where
  "relayed m = (case m of (cmd, t, s, p) \<Rightarrow> t > 0 \<and> drop_bit 8 (uint s) \<noteq> 0xFF)"

lemma call_of_delivered:
  assumes "length p < 2 ^ 16"
  shows "call_of (delivered GameClient uid (cmd, t, s, p)) =
    (if t > 0 \<and> drop_bit 8 (uint s) \<noteq> 0xFF
     then ProcessProxyLogic (word_of_int (to_int32 (uint cmd))) p (of_nat (length p))
            (word_of_int (drop_bit 8 (uint t))) (word_of_int (uint t))
            (word_of_int (drop_bit 8 (uint s))) (word_of_int (uint s)) (word_of_int uid)
     else ProcessLogic (word_of_int (to_int32 (uint cmd))) p (of_nat (length p)) (word_of_int uid))"
proof -
  have "uint t > 0 \<longleftrightarrow> t > 0" by (simp add: word_less_def)
  then show ?thesis
    by (simp add: delivered_def onRecv_def GameClient_onRecv_def mk_proxy_hdr_def mk_client_hdr_def
        MsgHdr_def msgtype_defs)
qed

lemma word_to_int32: "(word_of_int (to_int32 (uint (w :: u32))) :: u32) = w"
  by (simp add: to_int32_def)

text \<open>Sending a composed message through the wrapper.\<close>

lemma send_stream_conn:
  assumes act: "m_Active (l_net l)" and inv: "master_inv (workers (m_TcpService (l_net l)))"
    and sid: "0 < sid" "sid < 2 ^ 31" and len: "length (wbuf st) < 2 ^ 16"
  shows "send_stream sid st l = Some (l\<lparr>l_net := (l_net l)\<lparr>m_TcpService :=
    master_dir.deliver (sid, wbuf st) (m_TcpService (l_net l))\<rparr>\<rparr>)"
proof -
  let ?m = "m_TcpService (l_net l)"
  have sz: "take (unat (of_nat (stream_size st) :: u16)) (wbuf st) = wbuf st"
    using len by (simp add: stream_size_def unat_of_nat)
  have f: "master_find sid ?m
      = Some (if conn_map (workers ?m) sid = None then None else Some (place_of sid))"
    using master_find_spec [OF inv] sid by simp
  show ?thesis using act sid(1) f
    by (auto simp: send_stream_def sz SendMsgToClient_def master_findConn_pos master_dir.deliver_def
        send_at_def)
qed

lemma ProxyMsg2Server_frame:
  assumes "length p + 10 < 2 ^ 16"
  shows "ProxyMsg2Server sid (to_int32 (uint cmd)) p (int (length p)) (uint t) (uint s) l
    = send_stream sid \<lparr>wpos = 0, wbuf = frame cmd t s p\<rparr> l"
proof -
  have "stream_eos (stream_append p (stream_msg cmd t s)) = \<lparr>wpos = 0, wbuf = frame cmd t s p\<rparr>"
    by (simp add: frame_def stream_eos_def stream_set_data_def stream_append_def stream_msg_def)
  then show ?thesis by (simp add: ProxyMsg2Server_def Let_def word_to_int32)
qed

text \<open>
  A message for a registered server goes out on that server's connection byte for byte as it
  came in.
\<close>

lemma relay_call:
  assumes act: "m_Active (l_net l)" and inv: "master_inv (workers (m_TcpService (l_net l)))"
    and link: "m_mLinkedServer l (ucast t) = Some (word_of_int sid)" and sid: "0 < sid" "sid < 2 ^ 31"
    and p: "length p + 10 < 2 ^ 16" and r: "relayed (cmd, t, s, p)" and cmd: "cmd \<noteq> 1"
  shows "run_call search (call_of (delivered GameClient uid (cmd, t, s, p))) l =
    Some (l\<lparr>l_net := (l_net l)\<lparr>m_TcpService :=
      master_dir.deliver (sid, frame_of (cmd, t, s, p)) (m_TcpService (l_net l))\<rparr>\<rparr>)"
proof -
  have lp: "length p < 2 ^ 16" "length p + 10 < 2 ^ 64" using p by simp_all
  have n: "to_int32 (uint (of_nat (length p) :: u32)) = int (length p)"
  proof -
    have "uint (of_nat (length p) :: u32) = int (length p)"
      using lp by (simp add: uint_nat unat_of_nat)
    then show ?thesis using lp by simp
  qed
  have sd: "to_int32 (uint (word_of_int sid :: u32)) = sid"
    using sid by (simp add: to_int32_def int_word_sint)
  have c: "call_of (delivered GameClient uid (cmd, t, s, p)) =
      ProcessProxyLogic cmd p (of_nat (length p)) (word_of_int (drop_bit 8 (uint t)))
        (word_of_int (uint t)) (word_of_int (drop_bit 8 (uint s))) (word_of_int (uint s)) (word_of_int uid)"
    using r by (simp add: call_of_delivered [OF lp(1)] relayed_def word_to_int32)
  have "length (wbuf \<lparr>wpos = 0, wbuf = frame cmd t s p\<rparr>) < 2 ^ 16"
    using p length_frame [OF lp(2)] by simp
  note send = send_stream_conn [OF act inv sid this]
  have "linked_get (ucast t) l = (word_of_int sid, l)" using link by (simp add: linked_get_def)
  then show ?thesis
    unfolding c run_call_def
    by (simp add: do_ProcessProxyLogic_def cmd split_target n sd ProxyMsg2Server_frame [OF p]
        send frame_of_def)
qed

definition target_of :: "message \<Rightarrow> u16" where
  "target_of m = (case m of (cmd, t, s, p) \<Rightarrow> t)"

definition link_of :: "'m logic \<Rightarrow> message \<Rightarrow> int" where
  "link_of l m = (case m_mLinkedServer l (ucast (target_of m)) of
     None \<Rightarrow> 0 | Some v \<Rightarrow> to_int32 (uint v))"

text \<open>
  A message the relay handles in full: well formed, for a server that has registered over a
  connection other than number 0, and small enough for the 16-bit size of the send call.
\<close>

definition relayable :: "'m logic \<Rightarrow> message \<Rightarrow> bool" where
  "relayable l m =
     (case m of (cmd, t, s, p) \<Rightarrow>
        sendable m \<and> relayed m \<and> cmd \<noteq> 1 \<and> length p + 10 < 2 ^ 16 \<and>
        m_mLinkedServer l (ucast t) \<noteq> None \<and> 0 < link_of l m)"

lemma link_of_relayable:
  assumes "relayable l (cmd, t, s, p)"
  shows "m_mLinkedServer l (ucast t) = Some (word_of_int (link_of l (cmd, t, s, p)))"
    and "link_of l (cmd, t, s, p) < 2 ^ 31"
proof -
  obtain v where v: "m_mLinkedServer l (ucast t) = Some v"
    using assms by (auto simp: relayable_def)
  then have k: "link_of l (cmd, t, s, p) = to_int32 (uint v)" by (simp add: link_of_def target_of_def)
  then show "m_mLinkedServer l (ucast t) = Some (word_of_int (link_of l (cmd, t, s, p)))"
    using v by (simp add: word_to_int32)
  show "link_of l (cmd, t, s, p) < 2 ^ 31"
    using sint_lt [of v] by (simp add: k to_int32_def)
qed

lemma run_calls_relay:
  assumes "m_Active (l_net l)" "master_inv (workers (m_TcpService (l_net l)))"
    and "\<forall>m \<in> set msgs. relayable l m"
  shows "run_calls search (map (\<lambda>m. call_of (delivered GameClient uid m)) msgs) l =
    Some (l\<lparr>l_net := (l_net l)\<lparr>m_TcpService :=
      fold master_dir.deliver (map (\<lambda>m. (link_of l m, frame_of m)) msgs) (m_TcpService (l_net l))\<rparr>\<rparr>)"
  using assms
proof (induction msgs arbitrary: l)
  case Nil
  then show ?case by simp
next
  case (Cons m msgs)
  obtain cmd t s p where m: "m = (cmd, t, s, p)" by (metis prod_cases4)
  have r: "relayable l (cmd, t, s, p)" using Cons.prems(3) m by simp
  note lk = link_of_relayable [OF r]
  have rel: "0 < link_of l m" "length p + 10 < 2 ^ 16" "relayed (cmd, t, s, p)" "cmd \<noteq> 1"
    using r by (auto simp: relayable_def m)
  let ?l = "l\<lparr>l_net := (l_net l)\<lparr>m_TcpService :=
      master_dir.deliver (link_of l m, frame_of m) (m_TcpService (l_net l))\<rparr>\<rparr>"
  have step: "run_call search (call_of (delivered GameClient uid m)) l = Some ?l"
    using relay_call [OF Cons.prems(1,2) lk(1) _ lk(2) rel(2-4)] rel(1) by (simp add: m)
  have link: "link_of ?l = link_of l" by (simp add: link_of_def fun_eq_iff)
  then have ok: "\<forall>m \<in> set msgs. relayable ?l m"
    using Cons.prems(3) by (auto simp: relayable_def)
  have "master_inv (workers (m_TcpService (l_net ?l)))"
    using master_dir.deliver_view(2) [OF Cons.prems(2), of "(link_of l m, frame_of m)"] rel(1) lk(2)
    by (simp add: m)
  from Cons.IH [OF _ this ok] Cons.prems(1) step link show ?case by simp
qed

lemma delivered_length: "sendable m \<Longrightarrow>
    length (snd (delivered cls uid m)) = unat (bodyLen (msgHdr (fst (delivered cls uid m))))"
  by (cases cls) (auto simp: sendable_def delivered_def onRecv_def GameClient_onRecv_def
      ClientConn_onRecv_def mk_client_hdr_def mk_proxy_hdr_def MsgHdr_def unat_of_nat split: prod.splits)

lemma delivered_consistent: "hdr_consistent (fst (delivered cls uid m))"
  by (cases cls) (auto simp: delivered_def onRecv_def GameClient_onRecv_def ClientConn_onRecv_def
      mk_client_hdr_def mk_proxy_hdr_def MsgHdr_def split: prod.splits)

text \<open>From the socket's bytes to the calls the logic thread makes.\<close>

lemma network_to_calls:
  assumes msgs: "\<forall>m \<in> set msgs. sendable m" "msgs \<noteq> []" and pull: "\<And>b. pulled 8 pull b"
    and rep: "queue_rep [] g" and mal: "malloc_total mal"
  defines "seen \<equiv> taken pull (\<lambda>_. True) [] msgs"
  shows "\<exists>g1 g2. on_read cls pull (\<lambda>_. True) uid (concat (map frame_of msgs))
      = (map (delivered cls uid) seen, [], False) \<and>
    push_all mal pad (map (delivered cls uid) seen) g = Some g1 \<and>
    ProcessMsg g1 = Some (True, map (\<lambda>m. call_of (delivered cls uid m)) seen, g2) \<and> queue_rep [] g2"
proof -
  have "on_read cls pull (\<lambda>_. True) uid [] = ([], [], False)"
    by (rule on_read_incomplete) (simp add: parse_defs)
  then have rd: "on_read cls pull (\<lambda>_. True) uid (concat (map frame_of msgs))
      = (map (delivered cls uid) seen, [], False)"
    using on_read_frames [OF msgs(1) pull, where rest = "[]" and cls = cls and uid = uid] by (simp add: seen_def)
  have seen: "\<forall>m \<in> set seen. sendable m" "seen \<noteq> []"
    using msgs taken_sendable [of pull "[]" msgs] taken_rest [of pull "[]" msgs] by (auto simp: seen_def)
  have "\<forall>d \<in> set (map (delivered cls uid) seen). length (snd d) = unat (bodyLen (msgHdr (fst d)))"
    using seen(1) delivered_length by auto
  from push_all_spec [OF rep mal this, of pad] obtain g1 where
    g1: "push_all mal pad (map (delivered cls uid) seen) g = Some g1"
      "queue_rep (map (delivered cls uid) seen) g1" by auto
  have "\<forall>d \<in> set (map (delivered cls uid) seen). hdr_consistent (fst d)"
    using delivered_consistent by auto
  from ProcessMsg_spec [OF g1(2) _ this] seen(2) obtain g2 where
    "ProcessMsg g1 = Some (True, map call_of (map (delivered cls uid) seen), g2)" "queue_rep [] g2"
    by auto
  with rd g1(1) show ?thesis by (auto simp: comp_def)
qed

section \<open>Registrations and defects\<close>

lemma okay_frame:
  "stream_eos (stream_put_cstr (Some okay_text) (stream_msg cmd t s))
    = \<lparr>wpos = 0, wbuf = frame cmd t s (obj_bytes (of_nat (length okay_text) :: u16) @ okay_text)\<rparr>"
proof -
  have "take (unat (of_nat (length okay_text) :: u16)) okay_text = okay_text"
    by (simp add: okay_text_def)
  then show ?thesis
    by (simp add: frame_def stream_put_cstr_def stream_put_def stream_put_bytes_def stream_append_def
        Let_def stream_eos_def stream_set_data_def stream_msg_def)
qed

lemma register_call:
  assumes act: "m_Active (l_net l)" and inv: "master_inv (workers (m_TcpService (l_net l)))"
    and sid: "0 < sid" "sid < 2 ^ 31"
  shows "do_ProcessProxyLogic 1 body len tt ti st si sid l =
    Some (l\<lparr>m_mLinkedServer := (m_mLinkedServer l)(ucast (SPLIT_ID st si) \<mapsto> word_of_int sid),
       l_net := (l_net l)\<lparr>m_TcpService := master_dir.deliver (sid, frame 2 (SPLIT_ID st si) (SPLIT_ID tt ti)
           (obj_bytes (of_nat (length okay_text) :: u16) @ okay_text)) (m_TcpService (l_net l))\<rparr>\<rparr>)"
proof -
  let ?l = "l\<lparr>m_mLinkedServer := (m_mLinkedServer l)(ucast (SPLIT_ID st si) \<mapsto> word_of_int sid)\<rparr>"
  let ?st = "stream_eos (stream_put_cstr (Some okay_text) (stream_msg 2 (SPLIT_ID st si) (SPLIT_ID tt ti)))"
  have len: "length (wbuf ?st) < 2 ^ 16"
    unfolding okay_frame by (simp add: okay_text_def obj_bytes_u16)
  have act': "m_Active (l_net ?l)" and inv': "master_inv (workers (m_TcpService (l_net ?l)))"
    using act inv by simp_all
  from send_stream_conn [OF act' inv' sid len] show ?thesis
    by (simp add: do_ProcessProxyLogic_def okay_frame)
qed

lemma uint_SPLIT_ID: "uint (SPLIT_ID type uid) = uint type * 256 + uint uid"
proof -
  have "uint type < 256" "uint uid < 256" using uint_lt2p [of type] uint_lt2p [of uid] by simp_all
  then have "uint type * 256 + uint uid < 65536" by simp
  moreover have "uint (SPLIT_ID type uid) = (uint type * 256 + uint uid) mod 65536"
    by (simp add: SPLIT_ID_def push_bit_eq_mult uint_word_ariths unsigned_ucast_eq take_bit_eq_mod mod_simps)
  ultimately show ?thesis by simp
qed

text \<open>The source address of \<^verbatim>\<open>SendMsg\<close> is right for uid 0 only.\<close>

lemma source_expr_value:
  "unat uid < 24 \<Longrightarrow> \<exists>w. source_expr type uid = Some w \<and> uint w = (uint type * 256 * 2 ^ unat uid) mod 65536"
proof -
  assume u: "unat uid < 24"
  have w: "uint (word_of_int k :: u16) = k mod 65536" for k by (simp add: uint_word_of_int)
  have "push_bit (8 + unat uid) (uint type) = uint type * 256 * 2 ^ unat uid"
    by (simp add: push_bit_eq_mult power_add)
  then have "source_expr type uid = Some (word_of_int (uint type * 256 * 2 ^ unat uid))"
    using u by (simp only: source_expr_def Let_def) simp
  with w [of "uint type * 256 * 2 ^ unat uid"] show ?thesis by metis
qed

lemma source_expr_right_iff: "source_expr type uid = Some (SPLIT_ID type uid) \<longleftrightarrow> uid = 0"
proof
  assume "uid = 0"
  then have "\<exists>w. source_expr type uid = Some w \<and> uint w = (uint type * 256) mod 65536"
    using source_expr_value [of uid type] by simp
  moreover have "uint type * 256 < 65536" using uint_lt2p [of type] by simp
  ultimately show "source_expr type uid = Some (SPLIT_ID type uid)"
    unfolding \<open>uid = 0\<close> by (auto simp: word_uint_eq_iff uint_SPLIT_ID)
next
  assume *: "source_expr type uid = Some (SPLIT_ID type uid)"
  then have "unat uid < 24" by (auto simp: source_expr_def Let_def split: if_splits)
  with * source_expr_value have "uint type * 256 + uint uid = (uint type * 256 * 2 ^ unat uid) mod 65536"
    by (metis option.inject uint_SPLIT_ID)
  then have "(uint type * 256 + uint uid) mod 256 = ((uint type * 2 ^ unat uid * 256) mod 65536) mod 256"
    by (simp add: ac_simps)
  also have "\<dots> = 0" by (simp add: mod_mod_cancel)
  finally have "uint uid mod 256 = 0" by simp
  moreover have "uint uid < 256" using uint_lt2p [of uid] by simp
  ultimately show "uid = 0" by (simp add: word_uint_eq_iff)
qed

lemma source_expr_lost: "8 \<le> unat uid \<Longrightarrow> unat uid < 24 \<Longrightarrow> source_expr type uid = Some 0"
proof -
  assume u: "8 \<le> unat uid" "unat uid < 24"
  then obtain k where "unat uid = 8 + k" using le_Suc_ex by blast
  then have "(uint type * 256 * 2 ^ unat uid) mod 65536 = (uint type * 2 ^ k * 65536) mod 65536"
    by (simp add: power_add ac_simps)
  then show ?thesis
    using source_expr_value [OF u(2), of type] by (auto simp: word_uint_eq_iff)
qed

text \<open>The local array of \<^verbatim>\<open>ProcessRegisteredProtocol\<close> is too small for its three arguments.\<close>

lemma ProcessRegisteredProtocol_overflow: "ProcessRegisteredProtocol search sid l = None"
  by (simp add: ProcessRegisteredProtocol_def Let_def arr_set_def split: prod.split)

lemma do_ProcessLogic_managed:
  assumes "cmd \<noteq> 2" "search MM_PROCESSMSG = Some meth" "m_mInvokeMethods l MM_PROCESSMSG \<in> {None, Some (Some meth)}"
    and "length data < 2 ^ 16" "0 < length data"
  shows "\<exists>l'. do_ProcessLogic search cmd (obj_bytes (of_nat (length data) :: u16) @ data)
      (of_nat (length data + 2)) sid l = Some l' \<and>
    l_invoked l' = l_invoked l @ [(Some meth, ArgMsg sid cmd data (of_nat (length data)))] \<and>
    l_net l' = l_net l"
proof -
  obtain l1 where g: "GetInvokeMethod search MM_PROCESSMSG l = (Some meth, l1)"
    "l_invoked l1 = l_invoked l" "l_net l1 = l_net l"
    using assms(2,3) by (auto simp: GetInvokeMethod_def)
  have b: "\<exists>x y. obj_bytes (of_nat (length data) :: u16) = [x, y] \<and> obj_val [x, y] = (of_nat (length data) :: u16)"
    using obj_val_obj_bytes [of "of_nat (length data) :: u16"] by (simp add: obj_bytes_u16)
  then obtain x y where xy: "obj_bytes (of_nat (length data) :: u16) = [x, y]"
    "obj_val [x, y] = (of_nat (length data) :: u16)" by blast
  have n: "unat (of_nat (length data + 2) :: u32) = length data + 2"
    using assms(4) by (subst unat_of_nat) simp
  have gt: "\<not> (of_nat (length data + 2) :: u32) \<le> 2"
    using assms(5) n by (simp add: word_le_nat_alt del: of_nat_add)
  have pk: "(ucast (of_nat (length data) :: u16) :: u32) = of_nat (length data)"
    using assms(4) by (simp add: word_unat_eq_iff unat_ucast unat_of_nat)
  show ?thesis
    using g assms(1) gt n xy pk
    by (simp add: do_ProcessLogic_def invoke_def del: of_nat_add)
qed

end
