(* ===== verification/Examples.thy ===== *)
theory Examples
  imports Logic_Thread
begin

text \<open>
  Concrete states of the program on which the properties are applied.
\<close>


text \<open>The logic thread of such a service after server \<open>0x0203\<close> registered over connection 2.\<close>

definition ex_logic :: "nat logic" where
  "ex_logic = \<lparr>cfg_serverType = 1, cfg_serverUID = 1, m_mLinkedServer = [0x0203 \<mapsto> 2],
     m_mInvokeMethods = Map.empty, l_net = \<lparr>m_Active = True, m_TcpService = ex_master\<rparr>, l_invoked = []\<rparr>"

definition ex_gobj :: gobj where
  "ex_gobj = gobj_Init (GlobalObject \<lparr>h_blocks = Map.empty, h_fresh = 0\<rparr>)"

definition ex_pull :: "u8 list \<Rightarrow> nat \<Rightarrow> nat \<Rightarrow> u8" where
  "ex_pull b n i = b ! i"

definition ex_malloc :: malloc where
  "ex_malloc n = Some (replicate n 0)"

lemma ex_queue_rep: "queue_rep [] ex_gobj"
  using gobj_inv_Init [of "\<lparr>h_blocks = Map.empty, h_fresh = 0\<rparr>"]
  by (simp add: queue_rep_def ex_gobj_def gobj_Init_def Init_loop_frame GlobalObject_def)

lemma ex_pulled: "pulled n ex_pull b" by (simp add: pulled_def ex_pull_def)

lemma ex_malloc_total: "malloc_total ex_malloc"
  by (simp add: malloc_total_def malloc_ok_def ex_malloc_def)

lemma ex_logic_net:
  "m_Active (l_net ex_logic)" "m_TcpService (l_net ex_logic) = ex_master"
  by (simp_all add: ex_logic_def)

lemma ex_relayable: "relayable ex_logic (7, 0x0203, 0x0301, [1, 2, 3])"
  by (simp add: relayable_def ex_logic_def link_of_def target_of_def relayed_def sendable_def to_int32_def
      drop_bit_eq_div)

end
