(* ===== verification/Hash_List.thy ===== *)
theory Hash_List
  imports Prelude
begin

text \<open>
  \<^verbatim>\<open>Common/HashList.h\<close> and \<^verbatim>\<open>Common/HashTable.h\<close>: a hash table with linear probing, and an
  array of them. A slot holds no entry, an entry, or the mark of a removed one. The hasher is
  a template parameter: the argument \<open>hash\<close>. \<open>None\<close> as a result is undefined behaviour (a
  division by the capacity 0, an index outside the array).
\<close>

datatype ('k, 'v) slot = Null | Corpse | Entry (e_hash: int) (e_key: 'k) (e_value: 'v)

record ('k, 'v) hlist =
  entryList :: "('k, 'v) slot list"
  capacity :: nat
  h_count :: int

definition HashList :: "('k, 'v) hlist" where
  "HashList = \<lparr>entryList = [], capacity = 0, h_count = 0\<rparr>"

section \<open>Insertion\<close>

text \<open>The first slot probed; the remainder takes the sign of the hash.\<close>

definition probe_start :: "int \<Rightarrow> nat \<Rightarrow> nat option" where
  "probe_start hs cap =
     (if cap = 0 then None
      else (let p = c_mod hs (int cap) in if p < 0 then None else Some (nat p)))"

fun insert_loop ::
    "nat \<Rightarrow> nat \<Rightarrow> int \<Rightarrow> 'k \<Rightarrow> 'v \<Rightarrow> ('k, 'v) hlist \<Rightarrow> bool \<times> ('k, 'v) hlist" where
  "insert_loop 0 pos hs key val h = (False, h)"
| "insert_loop (Suc n) pos hs key val h =
     (case entryList h ! pos of
        Null \<Rightarrow> (True, h\<lparr>entryList := (entryList h)[pos := Entry hs key val], h_count := h_count h + 1\<rparr>)
      | Corpse \<Rightarrow> (True, h\<lparr>entryList := (entryList h)[pos := Entry hs key val], h_count := h_count h + 1\<rparr>)
      | Entry hs' k' v' \<Rightarrow>
          if hs' = hs \<and> k' = key then (False, h)
          else insert_loop n ((pos + 1) mod capacity h) hs key val h)"

definition insertInternal ::
    "int \<Rightarrow> 'k \<Rightarrow> 'v \<Rightarrow> ('k, 'v) hlist \<Rightarrow> (bool \<times> ('k, 'v) hlist) option" where
  "insertInternal hs key val h =
     (case probe_start hs (capacity h) of
        None \<Rightarrow> None
      | Some pos \<Rightarrow> Some (insert_loop (capacity h) pos hs key val h))"

definition stepSize :: "nat list" where
  "stepSize =
     [17, 37, 79, 163, 331, 673, 1361, 2729, 5471, 10949, 21911, 43853, 87719, 175447, 350899,
      701819, 1403641, 2807303, 5614657, 11229331, 22458671, 44917381, 89834777, 179669557,
      359339171, 718678369, 1437356741, 2147483647]"

text \<open>\<^verbatim>\<open>while(stepSize[i] <= _capacity) ++ i\<close>, \<open>None\<close> behind the end of the array.\<close>

fun next_step :: "nat list \<Rightarrow> nat \<Rightarrow> nat option" where
  "next_step [] cap = None"
| "next_step (s # ss) cap = (if s \<le> cap then next_step ss cap else Some s)"

fun rehash_loop :: "('k, 'v) slot list \<Rightarrow> ('k, 'v) hlist \<Rightarrow> ('k, 'v) hlist option" where
  "rehash_loop [] h = Some h"
| "rehash_loop (Null # es) h = rehash_loop es h"
| "rehash_loop (Corpse # es) h = rehash_loop es h"
| "rehash_loop (Entry hs k v # es) h =
     (case insertInternal hs k v h of None \<Rightarrow> None | Some (b, h') \<Rightarrow> rehash_loop es h')"

definition checkupSpace :: "('k, 'v) hlist \<Rightarrow> ('k, 'v) hlist option" where
  "checkupSpace h =
     (if h_count h + drop_bit 2 (h_count h) \<ge> int (capacity h) then
        (case next_step stepSize (capacity h) of
           None \<Rightarrow> None
         | Some cap \<Rightarrow>
             rehash_loop (entryList h) \<lparr>entryList = replicate cap Null, capacity = cap, h_count = 0\<rparr>)
      else Some h)"

definition hl_insert ::
    "('k \<Rightarrow> int) \<Rightarrow> 'k \<Rightarrow> 'v \<Rightarrow> ('k, 'v) hlist \<Rightarrow> (bool \<times> ('k, 'v) hlist) option" where
  "hl_insert hash key val h =
     (case checkupSpace h of
        None \<Rightarrow> None
      | Some h1 \<Rightarrow> insertInternal (hash key) key val h1)"

section \<open>Lookup and removal\<close>

definition prev_pos :: "nat \<Rightarrow> nat \<Rightarrow> nat" where
  "prev_pos pos cap = (if pos = 0 then cap - 1 else pos - 1)"

text \<open>
  The loop that turns the marks before a freed slot into free slots. It stops at the first
  slot that is no mark; \<open>n\<close> bounds it by the capacity, as the freed slot itself stops it.
\<close>

fun trim_corpses :: "nat \<Rightarrow> nat \<Rightarrow> nat \<Rightarrow> ('k, 'v) slot list \<Rightarrow> ('k, 'v) slot list" where
  "trim_corpses 0 pos cap es = es"
| "trim_corpses (Suc n) pos cap es =
     (if es ! pos = Corpse then trim_corpses n (prev_pos pos cap) cap (es[pos := Null]) else es)"

text \<open>Emptying the slot at \<open>pos\<close>, as \<^verbatim>\<open>remove\<close> and \<^verbatim>\<open>take\<close> both do.\<close>

definition free_entry :: "nat \<Rightarrow> ('k, 'v) hlist \<Rightarrow> ('k, 'v) hlist" where
  "free_entry pos h =
     (let es = entryList h; cap = capacity h
      in if es ! ((pos + 1) mod cap) = Null
         then h\<lparr>entryList := trim_corpses cap (prev_pos pos cap) cap (es[pos := Null])\<rparr>
         else h\<lparr>entryList := es[pos := Corpse]\<rparr>)"

text \<open>
  The loops leave \<open>pos\<close> where it is when they meet the mark of a removed entry.
\<close>

fun remove_loop :: "nat \<Rightarrow> nat \<Rightarrow> int \<Rightarrow> 'k \<Rightarrow> ('k, 'v) hlist \<Rightarrow> bool \<times> ('k, 'v) hlist" where
  "remove_loop 0 pos hs key h = (False, h)"
| "remove_loop (Suc n) pos hs key h =
     (case entryList h ! pos of
        Null \<Rightarrow> (False, h)
      | Corpse \<Rightarrow> remove_loop n pos hs key h
      | Entry hs' k' v' \<Rightarrow>
          if hs' = hs \<and> k' = key
          then (True, free_entry pos (h\<lparr>h_count := h_count h - 1\<rparr>))
          else remove_loop n ((pos + 1) mod capacity h) hs key h)"

definition hl_remove ::
    "('k \<Rightarrow> int) \<Rightarrow> 'k \<Rightarrow> ('k, 'v) hlist \<Rightarrow> (bool \<times> ('k, 'v) hlist) option" where
  "hl_remove hash key h =
     (case probe_start (hash key) (capacity h) of
        None \<Rightarrow> None
      | Some pos \<Rightarrow> Some (remove_loop (capacity h) pos (hash key) key h))"

text \<open>\<^verbatim>\<open>take\<close> counts a removal twice.\<close>

fun take_loop ::
    "nat \<Rightarrow> nat \<Rightarrow> int \<Rightarrow> 'k \<Rightarrow> bool \<Rightarrow> ('k, 'v) hlist \<Rightarrow> 'v option \<times> ('k, 'v) hlist" where
  "take_loop 0 pos hs key rm h = (None, h)"
| "take_loop (Suc n) pos hs key rm h =
     (case entryList h ! pos of
        Null \<Rightarrow> (None, h)
      | Corpse \<Rightarrow> take_loop n pos hs key rm h
      | Entry hs' k' v' \<Rightarrow>
          if hs' = hs \<and> k' = key
          then (Some v',
                if rm then (let h1 = free_entry pos (h\<lparr>h_count := h_count h - 1\<rparr>)
                            in h1\<lparr>h_count := h_count h1 - 1\<rparr>)
                else h)
          else take_loop n ((pos + 1) mod capacity h) hs key rm h)"

definition hl_take ::
    "('k \<Rightarrow> int) \<Rightarrow> 'k \<Rightarrow> bool \<Rightarrow> ('k, 'v) hlist \<Rightarrow> ('v option \<times> ('k, 'v) hlist) option" where
  "hl_take hash key rm h =
     (case probe_start (hash key) (capacity h) of
        None \<Rightarrow> None
      | Some pos \<Rightarrow> Some (take_loop (capacity h) pos (hash key) key rm h))"

text \<open>\<^verbatim>\<open>reset\<close> empties the slots and leaves the count.\<close>

definition hl_reset :: "('k, 'v) hlist \<Rightarrow> ('k, 'v) hlist" where
  "hl_reset h = h\<lparr>entryList := map (\<lambda>_. Null) (entryList h)\<rparr>"

definition hl_destroy :: "('k, 'v) hlist \<Rightarrow> ('k, 'v) hlist" where
  "hl_destroy h = h\<lparr>entryList := [], capacity := 0\<rparr>"

section \<open>HashTable\<close>

text \<open>
  The table is indexed with the hasher's \<^verbatim>\<open>doHash1\<close>, its lists with \<^verbatim>\<open>doHash2\<close>; the default
  hasher converts the key to \<^verbatim>\<open>int\<close> in both.
\<close>

definition HashTableHasher :: "int \<Rightarrow> int" where
  "HashTableHasher val = to_int32 val"

definition HashTable :: "nat \<Rightarrow> ('k, 'v) hlist list" where
  "HashTable cap = replicate cap HashList"

definition ht_index :: "int \<Rightarrow> ('k, 'v) hlist list \<Rightarrow> nat option" where
  "ht_index hs t = probe_start hs (length t)"

definition ht_insert ::
    "('k \<Rightarrow> int) \<Rightarrow> ('k \<Rightarrow> int) \<Rightarrow> 'k \<Rightarrow> 'v \<Rightarrow> ('k, 'v) hlist list \<Rightarrow> (bool \<times> ('k, 'v) hlist list) option" where
  "ht_insert hash1 hash2 key val t =
     (case ht_index (hash1 key) t of
        None \<Rightarrow> None
      | Some i \<Rightarrow> map_option (\<lambda>(b, h). (b, t[i := h])) (hl_insert hash2 key val (t ! i)))"

definition ht_remove ::
    "('k \<Rightarrow> int) \<Rightarrow> ('k \<Rightarrow> int) \<Rightarrow> 'k \<Rightarrow> ('k, 'v) hlist list \<Rightarrow> (bool \<times> ('k, 'v) hlist list) option" where
  "ht_remove hash1 hash2 key t =
     (case ht_index (hash1 key) t of
        None \<Rightarrow> None
      | Some i \<Rightarrow> map_option (\<lambda>(b, h). (b, t[i := h])) (hl_remove hash2 key (t ! i)))"

definition ht_take ::
    "('k \<Rightarrow> int) \<Rightarrow> ('k \<Rightarrow> int) \<Rightarrow> 'k \<Rightarrow> bool \<Rightarrow> ('k, 'v) hlist list \<Rightarrow> ('v option \<times> ('k, 'v) hlist list) option" where
  "ht_take hash1 hash2 key rm t =
     (case ht_index (hash1 key) t of
        None \<Rightarrow> None
      | Some i \<Rightarrow> map_option (\<lambda>(v, h). (v, t[i := h])) (hl_take hash2 key rm (t ! i)))"

definition ht_reset :: "('k, 'v) hlist list \<Rightarrow> ('k, 'v) hlist list" where
  "ht_reset t = map hl_reset t"

section \<open>Probing\<close>

definition probe :: "nat \<Rightarrow> nat \<Rightarrow> nat \<Rightarrow> nat" where
  "probe cap start j = (start + j) mod cap"

lemma probe_less [simp]: "0 < cap \<Longrightarrow> probe cap start j < cap"
  by (simp add: probe_def)

lemma probe_0: "start < cap \<Longrightarrow> probe cap start 0 = start"
  by (simp add: probe_def)

lemma probe_Suc: "(probe cap start j + 1) mod cap = probe cap start (Suc j)"
  by (simp add: probe_def mod_simps)

lemma probe_inj_le:
  assumes "i \<le> j" "j < cap" "probe cap start i = probe cap start j"
  shows "i = j"
proof -
  have "cap dvd (start + j) - (start + i)"
    using assms by (intro mod_eq_dvd_iff_nat [THEN iffD1]) (simp_all add: probe_def)
  then have "cap dvd j - i" by simp
  moreover have "j - i < cap" using assms by simp
  ultimately have "j - i = 0" using nat_dvd_not_less by blast
  with assms(1) show ?thesis by simp
qed

lemma probe_inj: "i < cap \<Longrightarrow> j < cap \<Longrightarrow> probe cap start i = probe cap start j \<Longrightarrow> i = j"
  by (metis probe_inj_le nat_le_linear)

lemma probe_surj:
  assumes "q < cap"
  obtains j where "j < cap" "probe cap start j = q"
proof -
  have "inj_on (probe cap start) {..<cap}" using probe_inj by (auto intro!: inj_onI)
  then have "probe cap start ` {..<cap} = {..<cap}"
    using assms by (intro card_subset_eq) (auto simp: card_image)
  with assms that show thesis by (metis imageE lessThan_iff)
qed

text \<open>Both loops as a search for the first slot that ends them.\<close>

definition matches :: "int \<Rightarrow> 'k \<Rightarrow> ('k, 'v) slot \<Rightarrow> bool" where
  "matches hs key s = (case s of Entry hs' k' v' \<Rightarrow> hs' = hs \<and> k' = key | _ \<Rightarrow> False)"

lemma insert_loop_find:
  assumes "length (entryList h) = capacity h" "j \<le> capacity h"
  shows "insert_loop (capacity h - j) (probe (capacity h) start j) hs key val h =
    (case find (\<lambda>i. let s = entryList h ! probe (capacity h) start i in s = Null \<or> s = Corpse \<or> matches hs key s)
            [j..<capacity h] of
       None \<Rightarrow> (False, h)
     | Some i \<Rightarrow>
         (if matches hs key (entryList h ! probe (capacity h) start i) then (False, h)
          else (True, h\<lparr>entryList := (entryList h)[probe (capacity h) start i := Entry hs key val],
                       h_count := h_count h + 1\<rparr>)))"
  using assms(2)
proof (induction "capacity h - j" arbitrary: j)
  case 0
  then show ?case by simp
next
  case (Suc n)
  let ?cap = "capacity h" and ?s = "entryList h ! probe (capacity h) start j"
  have j: "j < ?cap" using Suc.hyps(2) by simp
  have n: "?cap - j = Suc (?cap - Suc j)" using j by simp
  have up: "[j..<?cap] = j # [Suc j..<?cap]" using j by (rule upt_conv_Cons)
  have IH: "insert_loop (?cap - Suc j) (probe ?cap start (Suc j)) hs key val h =
    (case find (\<lambda>i. let s = entryList h ! probe ?cap start i in s = Null \<or> s = Corpse \<or> matches hs key s)
            [Suc j..<?cap] of
       None \<Rightarrow> (False, h)
     | Some i \<Rightarrow>
         (if matches hs key (entryList h ! probe ?cap start i) then (False, h)
          else (True, h\<lparr>entryList := (entryList h)[probe ?cap start i := Entry hs key val],
                       h_count := h_count h + 1\<rparr>)))"
    using Suc.hyps j by (intro Suc.hyps(1)) auto
  show ?case
    unfolding n up
    by (cases ?s) (simp_all add: matches_def Let_def IH probe_Suc [simplified])
qed

lemma take_loop_find:
  assumes "length (entryList h) = capacity h" "j \<le> capacity h" "Corpse \<notin> set (entryList h)"
  shows "take_loop (capacity h - j) (probe (capacity h) start j) hs key False h =
    (case find (\<lambda>i. let s = entryList h ! probe (capacity h) start i in s = Null \<or> matches hs key s)
            [j..<capacity h] of
       None \<Rightarrow> (None, h)
     | Some i \<Rightarrow>
         (case entryList h ! probe (capacity h) start i of
            Entry hs' k' v' \<Rightarrow> (Some v', h) | _ \<Rightarrow> (None, h)))"
  using assms(2)
proof (induction "capacity h - j" arbitrary: j)
  case 0
  then show ?case by simp
next
  case (Suc n)
  let ?cap = "capacity h" and ?s = "entryList h ! probe (capacity h) start j"
  have j: "j < ?cap" using Suc.hyps(2) by simp
  have n: "?cap - j = Suc (?cap - Suc j)" using j by simp
  have up: "[j..<?cap] = j # [Suc j..<?cap]" using j by (rule upt_conv_Cons)
  have "probe ?cap start j < length (entryList h)" using j assms(1) by simp
  then have nc: "?s \<noteq> Corpse" using assms(3) nth_mem by metis
  have IH: "take_loop (?cap - Suc j) (probe ?cap start (Suc j)) hs key False h =
    (case find (\<lambda>i. let s = entryList h ! probe ?cap start i in s = Null \<or> matches hs key s)
            [Suc j..<?cap] of
       None \<Rightarrow> (None, h)
     | Some i \<Rightarrow>
         (case entryList h ! probe ?cap start i of
            Entry hs' k' v' \<Rightarrow> (Some v', h) | _ \<Rightarrow> (None, h)))"
    using Suc.hyps j by (intro Suc.hyps(1)) auto
  show ?case
    unfolding n up using nc
    by (cases ?s) (simp_all add: matches_def Let_def IH probe_Suc [simplified])
qed

lemma find_upt_SomeD:
  "find P [0..<n] = Some i \<Longrightarrow> i < n \<and> P i \<and> (\<forall>j < i. \<not> P j)"
  by (auto simp: find_Some_iff)

lemma find_upt_ex: "i < n \<Longrightarrow> P i \<Longrightarrow> \<exists>k. find P [0..<n] = Some k"
  by (cases "find P [0..<n]") (auto simp: find_None_iff)

section \<open>The table invariant\<close>

text \<open>
  A table that only insertions have touched: no marks; every entry is stored under its own
  hash, under one key only once, and no free slot lies between where its probing starts and
  where it is.
\<close>

definition reachable :: "('k \<Rightarrow> int) \<Rightarrow> ('k, 'v) slot list \<Rightarrow> nat \<Rightarrow> 'k \<Rightarrow> 'v \<Rightarrow> bool" where
  "reachable hash es p k v \<longleftrightarrow> es ! p = Entry (hash k) k v \<and>
     (\<exists>d < length es. p = probe (length es) (nat (hash k) mod length es) d \<and>
        (\<forall>j < d. es ! probe (length es) (nat (hash k) mod length es) j \<noteq> Null))"

definition entry_count :: "('k, 'v) slot list \<Rightarrow> nat" where
  "entry_count es = length (filter (\<lambda>s. s \<noteq> Null) es)"

definition hl_inv :: "('k \<Rightarrow> int) \<Rightarrow> ('k, 'v) hlist \<Rightarrow> bool" where
  "hl_inv hash h \<longleftrightarrow> length (entryList h) = capacity h \<and> Corpse \<notin> set (entryList h) \<and>
     h_count h = int (entry_count (entryList h)) \<and> (\<forall>k. 0 \<le> hash k) \<and>
     (\<forall>p < capacity h. \<forall>hs k v. entryList h ! p = Entry hs k v \<longrightarrow> reachable hash (entryList h) p k v) \<and>
     (\<forall>p < capacity h. \<forall>q < capacity h. \<forall>hs k v hs' v'.
        entryList h ! p = Entry hs k v \<longrightarrow> entryList h ! q = Entry hs' k v' \<longrightarrow> p = q)"

definition hl_map :: "('k, 'v) hlist \<Rightarrow> 'k \<Rightarrow> 'v option" where
  "hl_map h k = map_of (concat (map (\<lambda>s. case s of Entry hs k v \<Rightarrow> [(k, v)] | _ \<Rightarrow> []) (entryList h))) k"


lemma hl_invD:
  assumes "hl_inv hash h"
  shows "length (entryList h) = capacity h" "Corpse \<notin> set (entryList h)" "0 \<le> hash k"
    "h_count h = int (entry_count (entryList h))"
    "p < capacity h \<Longrightarrow> entryList h ! p = Entry hs k v \<Longrightarrow> reachable hash (entryList h) p k v"
    "p < capacity h \<Longrightarrow> q < capacity h \<Longrightarrow> entryList h ! p = Entry hs k v \<Longrightarrow>
       entryList h ! q = Entry hs' k v' \<Longrightarrow> p = q"
  using assms unfolding hl_inv_def by blast+

lemma hl_map_Some:
  assumes "hl_inv hash h"
  shows "hl_map h k = Some v \<longleftrightarrow> (\<exists>p < capacity h. entryList h ! p = Entry (hash k) k v)"
proof -
  let ?f = "\<lambda>s. case s of Entry hs k v \<Rightarrow> [(k, v)] | _ \<Rightarrow> []"
  let ?xs = "concat (map ?f (entryList h))"
  have mem: "(k, v) \<in> set ?xs \<longleftrightarrow> (\<exists>p < capacity h. entryList h ! p = Entry (hash k) k v)" for k v
  proof -
    have "(k, v) \<in> set ?xs \<longleftrightarrow> (\<exists>s \<in> set (entryList h). (k, v) \<in> set (?f s))" by simp
    also have "\<dots> \<longleftrightarrow> (\<exists>p < capacity h. (k, v) \<in> set (?f (entryList h ! p)))"
      using hl_invD(1) [OF assms] by (metis in_set_conv_nth)
    also have "\<dots> \<longleftrightarrow> (\<exists>p < capacity h. \<exists>hs. entryList h ! p = Entry hs k v)"
      by (auto split: slot.splits) metis
    also have "\<dots> \<longleftrightarrow> (\<exists>p < capacity h. entryList h ! p = Entry (hash k) k v)"
      using hl_invD(5) [OF assms] by (metis reachable_def)
    finally show ?thesis .
  qed
  show ?thesis
  proof
    assume "hl_map h k = Some v"
    then show "\<exists>p < capacity h. entryList h ! p = Entry (hash k) k v"
      unfolding hl_map_def using map_of_SomeD mem by fast
  next
    assume r: "\<exists>p < capacity h. entryList h ! p = Entry (hash k) k v"
    then obtain v' where v': "hl_map h k = Some v'"
      unfolding hl_map_def using mem by (metis weak_map_of_SomeI)
    then have "\<exists>q < capacity h. entryList h ! q = Entry (hash k) k v'"
      unfolding hl_map_def using map_of_SomeD mem by fast
    with r hl_invD(6) [OF assms] have "v' = v" by (metis slot.inject)
    with v' show "hl_map h k = Some v" by simp
  qed
qed

lemma probe_start_ok:
  "0 \<le> hs \<Longrightarrow> 0 < cap \<Longrightarrow> probe_start hs cap = Some (nat hs mod cap)"
  by (simp add: probe_start_def Let_def nat_mod_distrib not_less)

lemma probe_full:
  "length (entryList h) = capacity h \<Longrightarrow> start < capacity h \<Longrightarrow>
     insert_loop (capacity h) start hs key val h
       = insert_loop (capacity h - 0) (probe (capacity h) start 0) hs key val h"
  by (simp add: probe_0)

lemma exists_free:
  assumes "entry_count es < length es"
  obtains q where "q < length es" "es ! q = Null"
proof -
  have "\<exists>s \<in> set es. s = Null"
  proof (rule ccontr)
    assume "\<not> (\<exists>s \<in> set es. s = Null)"
    then have "filter (\<lambda>s. s \<noteq> Null) es = es" by (intro filter_True) auto
    with assms show False by (simp add: entry_count_def)
  qed
  then show thesis using that by (metis in_set_conv_nth)
qed

text \<open>The slot where the search for a key ends, present or not.\<close>

lemma search_ends:
  assumes inv: "hl_inv hash h" and free: "entry_count (entryList h) < capacity h"
    and st_def: "st = nat (hash k) mod capacity h"
  obtains i where "i < capacity h" "\<forall>j < i. entryList h ! probe (capacity h) st j \<noteq> Null"
    "\<forall>j < i. \<not> matches (hash k) k (entryList h ! probe (capacity h) st j)"
    "hl_map h k = None \<and> entryList h ! probe (capacity h) st i = Null \<or>
     (\<exists>v. hl_map h k = Some v \<and> entryList h ! probe (capacity h) st i = Entry (hash k) k v)"
proof -
  let ?cap = "capacity h" and ?es = "entryList h"
  note len = hl_invD(1) [OF inv]
  let ?P = "\<lambda>i. ?es ! probe ?cap st i = Null \<or> matches (hash k) k (?es ! probe ?cap st i)"
  obtain q where q: "q < ?cap" "?es ! q = Null" using exists_free [of ?es] free len by auto
  obtain j where "j < ?cap" "probe ?cap st j = q" using probe_surj [OF q(1)] by blast
  with q obtain i where i: "find ?P [0..<?cap] = Some i" using find_upt_ex [of j ?cap ?P] by auto
  from find_upt_SomeD [OF i] have i: "i < ?cap" "?P i" "\<forall>j < i. \<not> ?P j" by blast+
  show thesis
  proof (cases "matches (hash k) k (?es ! probe ?cap st i)")
    case True
    then obtain v where v: "?es ! probe ?cap st i = Entry (hash k) k v"
      by (auto simp: matches_def split: slot.splits)
    moreover have "hl_map h k = Some v"
      unfolding hl_map_Some [OF inv] using v i(1) by (intro exI [of _ "probe ?cap st i"]) auto
    ultimately show thesis using that [of i] i by auto
  next
    case False
    then have null: "?es ! probe ?cap st i = Null" using i(2) by simp
    have "hl_map h k = None"
    proof (rule ccontr)
      assume "hl_map h k \<noteq> None"
      then obtain v p where p: "p < ?cap" "?es ! p = Entry (hash k) k v"
        using hl_map_Some [OF inv] by (metis not_None_eq)
      from hl_invD(5) [OF inv p] obtain d where d: "d < ?cap" "p = probe ?cap st d"
        "\<forall>j < d. ?es ! probe ?cap st j \<noteq> Null"
        unfolding reachable_def st_def len by blast
      have "matches (hash k) k (?es ! probe ?cap st d)" using p d(2) by (simp add: matches_def)
      then have "\<not> d < i" using i(3) by blast
      moreover have "\<not> i < d" using d(3) null by blast
      ultimately have "d = i" by simp
      with null p d(2) show False by simp
    qed
    with null show thesis using that [of i] i by auto
  qed
qed

lemma find_first:
  assumes "i < n" "P i" "\<forall>j < i. \<not> P j"
  shows "find P [0..<n] = Some i"
  using assms by (auto simp: find_Some_iff)

lemma no_corpse_at: "hl_inv hash h \<Longrightarrow> p < capacity h \<Longrightarrow> entryList h ! p \<noteq> Corpse"
  by (metis hl_invD(1,2) nth_mem)

section \<open>Lookup\<close>

lemma take_spec:
  assumes inv: "hl_inv hash h" and free: "entry_count (entryList h) < capacity h"
  shows "hl_take hash k False h = Some (hl_map h k, h)"
proof -
  let ?cap = "capacity h" and ?es = "entryList h" and ?st = "nat (hash k) mod capacity h"
  note len = hl_invD(1) [OF inv]
  have cap: "0 < ?cap" using free by simp
  obtain i where i: "i < ?cap" "\<forall>j < i. ?es ! probe ?cap ?st j \<noteq> Null"
    "\<forall>j < i. \<not> matches (hash k) k (?es ! probe ?cap ?st j)"
    "hl_map h k = None \<and> ?es ! probe ?cap ?st i = Null \<or>
     (\<exists>v. hl_map h k = Some v \<and> ?es ! probe ?cap ?st i = Entry (hash k) k v)"
    using search_ends [OF inv free refl, of k] by blast
  have "find (\<lambda>i. let s = ?es ! probe ?cap ?st i in s = Null \<or> matches (hash k) k s) [0..<?cap] = Some i"
    using i by (intro find_first) (auto simp: matches_def)
  then have "take_loop (?cap - 0) (probe ?cap ?st 0) (hash k) k False h =
      (case ?es ! probe ?cap ?st i of Entry hs' k' v' \<Rightarrow> (Some v', h) | _ \<Rightarrow> (None, h))"
    using take_loop_find [OF len _ hl_invD(2) [OF inv], of 0 ?st "hash k" k] by simp
  moreover have "probe ?cap ?st 0 = ?st" using cap by (simp add: probe_0)
  moreover have "probe_start (hash k) ?cap = Some ?st"
    using probe_start_ok [OF hl_invD(3) [OF inv] cap] .
  ultimately show ?thesis using i(4) by (auto simp: hl_take_def)
qed


section \<open>Insertion\<close>

lemma entry_count_update:
  assumes "i < length es" "es ! i = Null" "x \<noteq> Null"
  shows "entry_count (es[i := x]) = Suc (entry_count es)"
proof -
  have e: "entry_count es = length (filter (\<lambda>s. s \<noteq> Null) (take i es)) + length (filter (\<lambda>s. s \<noteq> Null) (drop (Suc i) es))"
    using assms(1,2) by (subst id_take_nth_drop [OF assms(1)]) (simp add: entry_count_def)
  have "es[i := x] = take i es @ x # drop (Suc i) es" by (rule upd_conv_take_nth_drop [OF assms(1)])
  with e assms(3) show ?thesis by (simp add: entry_count_def)
qed

lemma reachable_other:
  assumes "reachable hash es p k v" "es ! q = Null" "q < length es" "x \<noteq> Null"
  shows "reachable hash (es[q := x]) p k v"
proof -
  let ?st = "nat (hash k) mod length es"
  obtain d where d: "es ! p = Entry (hash k) k v" "d < length es" "p = probe (length es) ?st d"
    "\<forall>j < d. es ! probe (length es) ?st j \<noteq> Null"
    using assms(1) by (auto simp: reachable_def)
  have "p \<noteq> q" using d(1) assms(2) by auto
  with d assms(3,4) show ?thesis
    unfolding reachable_def by (intro conjI exI [of _ d]) (auto simp: nth_list_update)
qed

lemma insertInternal_spec:
  assumes inv: "hl_inv hash h" and free: "entry_count (entryList h) < capacity h"
  shows "\<exists>b h'. insertInternal (hash k) k v h = Some (b, h') \<and> hl_inv hash h' \<and>
    capacity h' = capacity h \<and> b = (hl_map h k = None) \<and>
    hl_map h' = (if b then (hl_map h)(k \<mapsto> v) else hl_map h) \<and>
    entry_count (entryList h') = entry_count (entryList h) + (if b then 1 else 0)"
proof -
  let ?cap = "capacity h" and ?es = "entryList h" and ?st = "nat (hash k) mod capacity h"
  note len = hl_invD(1) [OF inv]
  have cap: "0 < ?cap" using free by simp
  obtain i where i: "i < ?cap" "\<forall>j < i. ?es ! probe ?cap ?st j \<noteq> Null"
    "\<forall>j < i. \<not> matches (hash k) k (?es ! probe ?cap ?st j)"
    "hl_map h k = None \<and> ?es ! probe ?cap ?st i = Null \<or>
     (\<exists>v. hl_map h k = Some v \<and> ?es ! probe ?cap ?st i = Entry (hash k) k v)"
    using search_ends [OF inv free refl, of k] by blast
  let ?q = "probe ?cap ?st i"
  have q: "?q < ?cap" using cap by simp
  have nc: "\<forall>j. ?es ! probe ?cap ?st j \<noteq> Corpse" using no_corpse_at [OF inv] cap by simp
  have "find (\<lambda>i. let s = ?es ! probe ?cap ?st i in s = Null \<or> s = Corpse \<or> matches (hash k) k s) [0..<?cap] = Some i"
    using i nc by (intro find_first) (auto simp: matches_def)
  then have loop: "insert_loop (?cap - 0) (probe ?cap ?st 0) (hash k) k v h =
      (if matches (hash k) k (?es ! ?q) then (False, h)
       else (True, h\<lparr>entryList := ?es[?q := Entry (hash k) k v], h_count := h_count h + 1\<rparr>))"
    using insert_loop_find [OF len, of 0 ?st "hash k" k v] by simp
  have run: "insertInternal (hash k) k v h = Some (insert_loop (?cap - 0) (probe ?cap ?st 0) (hash k) k v h)"
    using probe_start_ok [OF hl_invD(3) [OF inv] cap] cap by (simp add: insertInternal_def probe_0)
  show ?thesis
  proof (cases "hl_map h k")
    case (Some w)
    then have "matches (hash k) k (?es ! ?q)" using i(4) by (auto simp: matches_def)
    with run loop Some inv show ?thesis by (intro exI [of _ False] exI [of _ h]) simp
  next
    case None
    then have null: "?es ! ?q = Null" using i(4) by simp
    let ?e = "Entry (hash k) k v"
    let ?h = "h\<lparr>entryList := ?es[?q := ?e], h_count := h_count h + 1\<rparr>"
    have run': "insertInternal (hash k) k v h = Some (True, ?h)"
      using run loop null by (simp add: matches_def)
    have lenq: "?q < length ?es" using q len by simp
    have cnt: "entry_count (?es[?q := ?e]) = Suc (entry_count ?es)"
      using entry_count_update [OF lenq null, of ?e] by simp
    have absent: "k' \<noteq> k" if "p < ?cap" "?es ! p = Entry hs k' w" for p hs k' w
    proof
      assume "k' = k"
      moreover have "?es ! p = Entry (hash k') k' w"
        using hl_invD(5) [OF inv that] that(2) by (simp add: reachable_def)
      ultimately have "hl_map h k = Some w" using hl_map_Some [OF inv] that(1) by blast
      with None show False by simp
    qed
    have inv': "hl_inv hash ?h"
      unfolding hl_inv_def
    proof (intro conjI allI impI)
      show "length (entryList ?h) = capacity ?h" using len by simp
      show "Corpse \<notin> set (entryList ?h)"
        using hl_invD(2) [OF inv] set_update_subset_insert [of ?es ?q ?e] by auto
      show "h_count ?h = int (entry_count (entryList ?h))"
        using hl_invD(4) [OF inv] cnt by simp
      show "0 \<le> hash k'" for k' by (rule hl_invD(3) [OF inv])
    next
      fix p hs k' w assume p: "p < capacity ?h" "entryList ?h ! p = Entry hs k' w"
      show "reachable hash (entryList ?h) p k' w"
      proof (cases "p = ?q")
        case True
        then have kw: "k' = k" "w = v" using p lenq by simp_all
        have "?es[?q := ?e] ! probe ?cap ?st j \<noteq> Null" if "j < i" for j
          using i(2) that lenq by (cases "probe ?cap ?st j = ?q") auto
        then show ?thesis
          unfolding reachable_def kw True using lenq len i(1)
          by (intro conjI exI [of _ i]) auto
      next
        case False
        then have "reachable hash ?es p k' w" using p hl_invD(5) [OF inv] by simp
        from reachable_other [OF this null lenq] show ?thesis by simp
      qed
    next
      fix p q' hs k' w hs' w'
      assume "p < capacity ?h" "q' < capacity ?h" "entryList ?h ! p = Entry hs k' w"
        "entryList ?h ! q' = Entry hs' k' w'"
      then show "p = q'"
        using absent hl_invD(6) [OF inv, of p q'] lenq
        by (cases "p = ?q"; cases "q' = ?q") auto
    qed
    have "hl_map ?h k' = ((hl_map h)(k \<mapsto> v)) k'" for k'
    proof -
      have "hl_map ?h k' = Some w \<longleftrightarrow> ((hl_map h)(k \<mapsto> v)) k' = Some w" for w
      proof (cases "k' = k")
        case True
        have "(\<exists>p < ?cap. ?es[?q := ?e] ! p = Entry (hash k) k w) \<longleftrightarrow> w = v"
        proof
          assume "\<exists>p < ?cap. ?es[?q := ?e] ! p = Entry (hash k) k w"
          then obtain p where p: "p < ?cap" "?es[?q := ?e] ! p = Entry (hash k) k w" by blast
          then have "p = ?q" using absent [OF p(1), of "hash k" k w] by (cases "p = ?q") auto
          with p lenq show "w = v" by simp
        next
          assume "w = v"
          then show "\<exists>p < ?cap. ?es[?q := ?e] ! p = Entry (hash k) k w"
            using q lenq by (intro exI [of _ ?q]) simp
        qed
        then show ?thesis using hl_map_Some [OF inv', of k'] True by auto
      next
        case False
        have "(\<exists>p < ?cap. ?es[?q := ?e] ! p = Entry (hash k') k' w)
            \<longleftrightarrow> (\<exists>p < ?cap. ?es ! p = Entry (hash k') k' w)"
        proof
          assume "\<exists>p < ?cap. ?es[?q := ?e] ! p = Entry (hash k') k' w"
          then obtain p where p: "p < ?cap" "?es[?q := ?e] ! p = Entry (hash k') k' w" by blast
          then have "p \<noteq> ?q" using False lenq by auto
          with p show "\<exists>p < ?cap. ?es ! p = Entry (hash k') k' w" by auto
        next
          assume "\<exists>p < ?cap. ?es ! p = Entry (hash k') k' w"
          then obtain p where p: "p < ?cap" "?es ! p = Entry (hash k') k' w" by blast
          then have "p \<noteq> ?q" using null by auto
          with p show "\<exists>p < ?cap. ?es[?q := ?e] ! p = Entry (hash k') k' w" by auto
        qed
        then show ?thesis using hl_map_Some [OF inv', of k'] hl_map_Some [OF inv, of k'] False by simp
      qed
      then show ?thesis by (metis option.exhaust)
    qed
    then have "hl_map ?h = (hl_map h)(k \<mapsto> v)" by blast
    with run' inv' cnt None show ?thesis by (intro exI [of _ True] exI [of _ ?h]) simp
  qed
qed


definition slot_pairs :: "('k, 'v) slot list \<Rightarrow> ('k \<times> 'v) list" where
  "slot_pairs es = concat (map (\<lambda>s. case s of Entry hs k v \<Rightarrow> [(k, v)] | _ \<Rightarrow> []) es)"

lemma slot_pairs_simps [simp]:
  "slot_pairs [] = []" "slot_pairs (Null # es) = slot_pairs es" "slot_pairs (Corpse # es) = slot_pairs es"
  "slot_pairs (Entry hs k v # es) = (k, v) # slot_pairs es"
  by (simp_all add: slot_pairs_def)

lemma hl_map_pairs: "hl_map h = map_of (slot_pairs (entryList h))"
  by (simp add: hl_map_def slot_pairs_def fun_eq_iff)

lemma entry_count_simps [simp]:
  "entry_count [] = 0" "entry_count (Null # es) = entry_count es"
  "entry_count (Corpse # es) = Suc (entry_count es)" "entry_count (Entry hs k v # es) = Suc (entry_count es)"
  by (simp_all add: entry_count_def)

lemma rehash_spec:
  assumes "hl_inv hash h" "\<forall>hs k v. Entry hs k v \<in> set es \<longrightarrow> hs = hash k"
    and "entry_count (entryList h) + entry_count es < capacity h"
  shows "\<exists>h'. rehash_loop es h = Some h' \<and> hl_inv hash h' \<and> capacity h' = capacity h \<and>
    hl_map h' = map_of (slot_pairs es) ++ hl_map h \<and>
    entry_count (entryList h') \<le> entry_count (entryList h) + entry_count es"
  using assms
proof (induction es h rule: rehash_loop.induct)
  case (1 h)
  then show ?case by simp
next
  case (2 es h)
  then show ?case by simp
next
  case (3 es h)
  from 3(2-4) 3(1) show ?case by fastforce
next
  case (4 hs k v es h)
  have hs: "hs = hash k" using "4.prems"(2) by simp
  have "entry_count (entryList h) < capacity h" using "4.prems"(3) by simp
  from insertInternal_spec [OF "4.prems"(1) this, of k v] obtain b h1 where
    h1: "insertInternal (hash k) k v h = Some (b, h1)" "hl_inv hash h1" "capacity h1 = capacity h"
      "b = (hl_map h k = None)" "hl_map h1 = (if b then (hl_map h)(k \<mapsto> v) else hl_map h)"
      "entry_count (entryList h1) = entry_count (entryList h) + (if b then 1 else 0)" by blast
  have c: "entry_count (entryList h1) + entry_count es < capacity h1"
    using h1(3,6) "4.prems"(3) by (cases b) simp_all
  have e: "\<forall>hs k v. Entry hs k v \<in> set es \<longrightarrow> hs = hash k" using "4.prems"(2) by simp
  from "4.IH" [OF h1(1) [folded hs] refl h1(2) e c] obtain h' where
    h': "rehash_loop es h1 = Some h'" "hl_inv hash h'" "capacity h' = capacity h1"
      "hl_map h' = map_of (slot_pairs es) ++ hl_map h1"
      "entry_count (entryList h') \<le> entry_count (entryList h1) + entry_count es" by blast
  have "hl_map h' = map_of (slot_pairs (Entry hs k v # es)) ++ hl_map h"
    unfolding h'(4) h1(5) using h1(4) by (auto simp: map_add_def fun_eq_iff split: option.split)
  moreover have "rehash_loop (Entry hs k v # es) h = Some h'" using h1(1) h'(1) hs by simp
  ultimately show ?case using h' h1(3,6) by (intro exI [of _ h'] conjI) (simp_all add: fun_upd_def split: if_splits)
qed

lemma hl_inv_empty:
  assumes "\<forall>k. 0 \<le> hash k"
  shows "hl_inv hash \<lparr>entryList = replicate cap Null, capacity = cap, h_count = 0\<rparr>"
    and "entry_count (replicate cap (Null :: ('k, 'v) slot)) = 0"
proof -
  show c: "entry_count (replicate cap (Null :: ('k, 'v) slot)) = 0"
    by (simp add: entry_count_def)
  show "hl_inv hash \<lparr>entryList = replicate cap Null, capacity = cap, h_count = 0\<rparr>"
    using assms by (auto simp: hl_inv_def entry_count_def)
qed

lemma slot_pairs_empty [simp]: "slot_pairs (replicate n Null) = []"
  by (induction n) simp_all

lemma next_step_gt: "next_step ss cap = Some s \<Longrightarrow> cap < s \<and> s \<in> set ss"
  by (induction ss cap rule: next_step.induct) (auto split: if_splits)

lemma next_step_total: "cap < 2147483647 \<Longrightarrow> next_step stepSize cap \<noteq> None"
proof -
  have "(\<exists>s \<in> set ss. cap < s) \<Longrightarrow> next_step ss cap \<noteq> None" for ss
    by (induction ss) auto
  moreover assume "cap < 2147483647"
  then have "\<exists>s \<in> set stepSize. cap < s" by (simp add: stepSize_def)
  ultimately show ?thesis by blast
qed

lemma checkupSpace_spec:
  assumes inv: "hl_inv hash h" and cap: "capacity h < 2147483647"
  shows "\<exists>h'. checkupSpace h = Some h' \<and> hl_inv hash h' \<and> hl_map h' = hl_map h \<and>
    entry_count (entryList h') < capacity h' \<and> entry_count (entryList h') \<le> entry_count (entryList h) \<and>
    (h' = h \<and> h_count h + drop_bit 2 (h_count h) < int (capacity h) \<or>
     next_step stepSize (capacity h) = Some (capacity h') \<and>
       int (capacity h) \<le> h_count h + drop_bit 2 (h_count h))"
proof (cases "h_count h + drop_bit 2 (h_count h) \<ge> int (capacity h)")
  case True
  obtain c where c: "next_step stepSize (capacity h) = Some c" using next_step_total [OF cap] by blast
  have gt: "capacity h < c" using next_step_gt [OF c] by simp
  have pos: "\<forall>k. 0 \<le> hash k" using hl_invD(3) [OF inv] by blast
  have "entry_count (entryList h) \<le> capacity h"
    using hl_invD(1) [OF inv] by (metis entry_count_def length_filter_le)
  let ?e = "\<lparr>entryList = replicate c Null, capacity = c, h_count = 0\<rparr> :: ('a, 'b) hlist"
  have hs: "\<forall>hs k v. Entry hs k v \<in> set (entryList h) \<longrightarrow> hs = hash k"
    using hl_invD(1,5) [OF inv] by (metis in_set_conv_nth reachable_def slot.inject)
  have "entry_count (entryList ?e) + entry_count (entryList h) < capacity ?e"
    using \<open>entry_count (entryList h) \<le> capacity h\<close> gt by (simp add: hl_inv_empty(2) [OF pos])
  from rehash_spec [OF hl_inv_empty(1) [OF pos] hs this] obtain h' where
    h': "rehash_loop (entryList h) ?e = Some h'" "hl_inv hash h'" "capacity h' = c"
      "hl_map h' = map_of (slot_pairs (entryList h)) ++ hl_map ?e"
      "entry_count (entryList h') \<le> entry_count (entryList ?e) + entry_count (entryList h)" by auto
  have "hl_map ?e = Map.empty" by (simp add: hl_map_pairs)
  then have "hl_map h' = hl_map h" using h'(4) by (simp add: hl_map_pairs)
  moreover have "entry_count (entryList h') < capacity h'"
    using h'(3,5) \<open>entry_count (entryList h) \<le> capacity h\<close> gt by (simp add: hl_inv_empty(2) [OF pos])
  ultimately show ?thesis using True c h' by (simp add: checkupSpace_def hl_inv_empty(2) [OF pos])
next
  case False
  have "0 \<le> drop_bit 2 (h_count h)" using hl_invD(4) [OF inv] by simp
  then have "entry_count (entryList h) < capacity h" using False hl_invD(4) [OF inv] by linarith
  then show ?thesis using False inv by (simp add: checkupSpace_def)
qed

lemma hl_insert_spec:
  assumes inv: "hl_inv hash h" and cap: "capacity h < 2147483647"
  shows "\<exists>h'. hl_insert hash k v h = Some (hl_map h k = None, h') \<and> hl_inv hash h' \<and>
    hl_map h' = (if hl_map h k = None then (hl_map h)(k \<mapsto> v) else hl_map h)"
proof -
  obtain h1 where h1: "checkupSpace h = Some h1" "hl_inv hash h1" "hl_map h1 = hl_map h"
    "entry_count (entryList h1) < capacity h1"
    using checkupSpace_spec [OF assms] by blast
  from insertInternal_spec [OF h1(2,4), of k v] h1 show ?thesis
    by (auto simp: hl_insert_def)
qed

lemma hl_inv_HashList: "\<forall>k. 0 \<le> hash k \<Longrightarrow> hl_inv hash HashList"
  using hl_inv_empty(1) [of hash 0] by (simp add: HashList_def)

lemma hl_map_HashList: "hl_map HashList = Map.empty"
  by (simp add: hl_map_pairs HashList_def)


section \<open>Filling a map\<close>

text \<open>
  The contract of a map that is filled by insertions: \<open>inv n\<close> holds after \<open>n\<close> of them. A
  lookup may be asked for once something was inserted.
\<close>

locale filled_map =
  fixes ins :: "'k \<Rightarrow> 'v \<Rightarrow> 's \<Rightarrow> (bool \<times> 's) option"
    and look :: "'k \<Rightarrow> 's \<Rightarrow> ('v option \<times> 's) option"
    and abs :: "'s \<Rightarrow> 'k \<Rightarrow> 'v option" and inv :: "nat \<Rightarrow> 's \<Rightarrow> bool" and limit :: nat
  assumes ins_ok: "inv n s \<Longrightarrow> n < limit \<Longrightarrow>
      \<exists>s'. ins k v s = Some (abs s k = None, s') \<and> inv (Suc n) s' \<and>
        abs s' = (if abs s k = None then (abs s)(k \<mapsto> v) else abs s)"
    and look_ok: "inv (Suc n) s \<Longrightarrow> look k s = Some (abs s k, s)"
begin

fun ins_all :: "('k \<times> 'v) list \<Rightarrow> 's \<Rightarrow> (bool list \<times> 's) option" where
  "ins_all [] s = Some ([], s)"
| "ins_all ((k, v) # kvs) s =
     (case ins k v s of
        None \<Rightarrow> None
      | Some (b, s') \<Rightarrow> map_option (\<lambda>(bs, s''). (b # bs, s'')) (ins_all kvs s'))"

lemma ins_all_ok:
  assumes "inv n s" "n + length kvs \<le> limit"
  shows "\<exists>bs s'. ins_all kvs s = Some (bs, s') \<and> inv (n + length kvs) s' \<and>
    abs s' = map_of kvs ++ abs s \<and> length bs = length kvs \<and>
    (\<forall>i < length kvs. bs ! i \<longleftrightarrow> abs s (fst (kvs ! i)) = None \<and> fst (kvs ! i) \<notin> fst ` set (take i kvs))"
  using assms
proof (induction kvs arbitrary: n s)
  case Nil
  then show ?case by simp
next
  case (Cons kv kvs)
  obtain k v where kv: "kv = (k, v)" by force
  obtain s1 where s1: "ins k v s = Some (abs s k = None, s1)" "inv (Suc n) s1"
    "abs s1 = (if abs s k = None then (abs s)(k \<mapsto> v) else abs s)"
    using ins_ok [OF Cons.prems(1), of k v] Cons.prems(2) by auto
  obtain bs s' where r: "ins_all kvs s1 = Some (bs, s')" "inv (Suc n + length kvs) s'"
    "abs s' = map_of kvs ++ abs s1" "length bs = length kvs"
    "\<forall>i < length kvs. bs ! i \<longleftrightarrow> abs s1 (fst (kvs ! i)) = None \<and> fst (kvs ! i) \<notin> fst ` set (take i kvs)"
    using Cons.IH [OF s1(2)] Cons.prems(2) by auto
  have dom: "abs s1 x = None \<longleftrightarrow> abs s x = None \<and> x \<noteq> k" for x
    using s1(3) by auto
  have flags: "(((abs s k = None) # bs) ! i) \<longleftrightarrow> abs s (fst ((kv # kvs) ! i)) = None \<and>
      fst ((kv # kvs) ! i) \<notin> fst ` set (take i (kv # kvs))" if "i < length (kv # kvs)" for i
    using that r(5) dom by (cases i) (auto simp: kv)
  have "abs s' x = (map_of (kv # kvs) ++ abs s) x" for x
    using r(3) s1(3) by (auto simp: kv map_add_def split: option.split)
  then have "abs s' = map_of (kv # kvs) ++ abs s" by blast
  moreover have "ins_all (kv # kvs) s = Some ((abs s k = None) # bs, s')"
    using s1(1) r(1) by (simp add: kv)
  ultimately show ?case using r(2,4) flags
    by (intro exI [of _ "(abs s k = None) # bs"] exI [of _ s']) (simp add: fun_upd_def)
qed

end


text \<open>
  The capacity stays in proportion to the insertions, so it does not outgrow the array of
  step sizes before \<open>2 ^ 28\<close> of them.
\<close>

definition hl_filled :: "('k \<Rightarrow> int) \<Rightarrow> nat \<Rightarrow> ('k, 'v) hlist \<Rightarrow> bool" where
  "hl_filled hash n h \<longleftrightarrow> hl_inv hash h \<and> entry_count (entryList h) \<le> n \<and>
     (capacity h \<le> 17 \<or> capacity h \<le> 4 * n) \<and>
     (n = 0 \<and> capacity h = 0 \<or> 17 \<le> capacity h \<and> entry_count (entryList h) < capacity h)"

lemma next_step_ratio: "next_step stepSize cap = Some s \<Longrightarrow> s = 17 \<or> s \<le> 3 * cap"
  by (auto simp: stepSize_def split: if_splits)

lemma next_step_ge: "next_step stepSize cap = Some s \<Longrightarrow> 17 \<le> s"
  using next_step_gt [of stepSize cap s] by (auto simp: stepSize_def)

lemma hl_insert_filled:
  assumes "hl_filled hash n h" "n < 2 ^ 28"
  shows "\<exists>h'. hl_insert hash k v h = Some (hl_map h k = None, h') \<and> hl_filled hash (Suc n) h' \<and>
    hl_map h' = (if hl_map h k = None then (hl_map h)(k \<mapsto> v) else hl_map h)"
proof -
  have inv: "hl_inv hash h" and cnt: "entry_count (entryList h) \<le> n"
    and cap: "capacity h \<le> 17 \<or> capacity h \<le> 4 * n"
    and sz: "n = 0 \<and> capacity h = 0 \<or> 17 \<le> capacity h \<and> entry_count (entryList h) < capacity h"
    using assms(1) by (auto simp: hl_filled_def)
  have lim: "capacity h < 2147483647" using cap assms(2) by auto
  obtain h1 where h1: "checkupSpace h = Some h1" "hl_inv hash h1" "hl_map h1 = hl_map h"
    "entry_count (entryList h1) < capacity h1" "entry_count (entryList h1) \<le> entry_count (entryList h)"
    "h1 = h \<and> h_count h + drop_bit 2 (h_count h) < int (capacity h) \<or>
     next_step stepSize (capacity h) = Some (capacity h1) \<and> int (capacity h) \<le> h_count h + drop_bit 2 (h_count h)"
    using checkupSpace_spec [OF inv lim] by blast
  have c: "h_count h + drop_bit 2 (h_count h)
      = int (entry_count (entryList h)) + int (entry_count (entryList h)) div 4"
    using hl_invD(4) [OF inv] by (simp add: drop_bit_eq_div)
  have sized: "(capacity h1 \<le> 17 \<or> capacity h1 \<le> 4 * n) \<and> 17 \<le> capacity h1 \<and>
      Suc (entry_count (entryList h1)) < capacity h1"
    using h1(6)
  proof (elim disjE conjE)
    assume h: "h1 = h" "h_count h + drop_bit 2 (h_count h) < int (capacity h)"
    then have "17 \<le> capacity h" using c sz by auto
    moreover have "Suc (entry_count (entryList h)) < capacity h"
      using h(2) c \<open>17 \<le> capacity h\<close> by linarith
    ultimately show ?thesis using cap h(1) by simp
  next
    assume g: "next_step stepSize (capacity h) = Some (capacity h1)"
      "int (capacity h) \<le> h_count h + drop_bit 2 (h_count h)"
    have "4 * capacity h \<le> 5 * n" using g(2) c cnt by linarith
    moreover have "17 \<le> capacity h1" "capacity h1 = 17 \<or> capacity h1 \<le> 3 * capacity h"
      "capacity h < capacity h1"
      using next_step_ge [OF g(1)] next_step_ratio [OF g(1)] next_step_gt [OF g(1)] by simp_all
    moreover have "Suc (entry_count (entryList h1)) < capacity h1"
      using h1(5) sz cnt calculation by linarith
    ultimately show ?thesis by linarith
  qed
  obtain b h' where h': "insertInternal (hash k) k v h1 = Some (b, h')" "hl_inv hash h'"
    "capacity h' = capacity h1" "b = (hl_map h1 k = None)"
    "hl_map h' = (if b then (hl_map h1)(k \<mapsto> v) else hl_map h1)"
    "entry_count (entryList h') = entry_count (entryList h1) + (if b then 1 else 0)"
    using insertInternal_spec [OF h1(2,4), of k v] by blast
  have "hl_insert hash k v h = Some (hl_map h k = None, h')"
    using h1(1,3) h'(1,4) by (simp add: hl_insert_def)
  moreover have "hl_filled hash (Suc n) h'"
    using h' sized h1(5) cnt by (auto simp: hl_filled_def)
  moreover have "hl_map h' = (if hl_map h k = None then (hl_map h)(k \<mapsto> v) else hl_map h)"
    using h'(4,5) h1(3) by simp
  ultimately show ?thesis by blast
qed

interpretation hl_fill: filled_map "hl_insert hash" "\<lambda>k. hl_take hash k False" hl_map "hl_filled hash" "2 ^ 28"
  for hash :: "'k \<Rightarrow> int"
proof (unfold_locales, goal_cases)
  case (1 n h k v)
  then show ?case using hl_insert_filled [of hash n h k v] by blast
next
  case (2 n h k)
  then show ?case using take_spec [of hash h k] by (auto simp: hl_filled_def)
qed

section \<open>Properties\<close>

text \<open>Insertions one after the other, with their results.\<close>

fun hl_insert_all ::
    "('k \<Rightarrow> int) \<Rightarrow> ('k \<times> 'v) list \<Rightarrow> ('k, 'v) hlist \<Rightarrow> (bool list \<times> ('k, 'v) hlist) option" where
  "hl_insert_all hash [] h = Some ([], h)"
| "hl_insert_all hash ((k, v) # kvs) h =
     (case hl_insert hash k v h of
        None \<Rightarrow> None
      | Some (b, h') \<Rightarrow> map_option (\<lambda>(bs, h''). (b # bs, h'')) (hl_insert_all hash kvs h'))"

lemma hl_insert_all_eq: "hl_insert_all hash kvs h = hl_fill.ins_all hash kvs h"
  by (induction kvs arbitrary: h) (auto split: option.split)



lemma c_mod_less: "0 < b \<Longrightarrow> c_mod a b < b"
proof (cases "0 \<le> a")
  case False
  assume b: "0 < b"
  have "b * (\<bar>a\<bar> div b) \<le> \<bar>a\<bar>" using b by (metis mult_div_mod_eq le_add_same_cancel1 pos_mod_sign)
  moreover have "c_mod a b = a + b * (\<bar>a\<bar> div b)" using False b by (simp add: c_mod_def c_div_def)
  ultimately show ?thesis using False b by simp
qed simp

text \<open>
  For a negative hash the remainder is negative, and every operation indexes in front of the array.
\<close>

theorem negative_hash_outside:
  assumes "hash k < 0" and "\<not> int (capacity h) dvd hash k" and "0 < capacity h"
  shows "hl_take hash k rm h = None \<and> hl_remove hash k h = None \<and> insertInternal (hash k) k v h = None"
proof -
  let ?c = "int (capacity h)"
  have a: "?c * (\<bar>hash k\<bar> div ?c) \<le> \<bar>hash k\<bar>" using assms(3)
    by (metis mult_div_mod_eq le_add_same_cancel1 of_nat_0_less_iff pos_mod_sign)
  have "c_mod (hash k) ?c = hash k + ?c * (\<bar>hash k\<bar> div ?c)" using assms by (simp add: c_mod_def c_div_def)
  moreover have "?c * (\<bar>hash k\<bar> div ?c) \<noteq> \<bar>hash k\<bar>" using assms(2) by (metis dvd_abs_iff dvd_triv_left)
  ultimately have "c_mod (hash k) ?c < 0" using a assms(1) by linarith
  then show ?thesis
    by (simp add: hl_take_def hl_remove_def insertInternal_def probe_start_def Let_def)
qed

theorem negative_hash_outside_witness:
  "hl_take (\<lambda>k. k) (- 3) False \<lparr>entryList = replicate 17 Null, capacity = 17, h_count = 0\<rparr> = (None :: (nat option \<times> (int, nat) hlist) option)"
  using negative_hash_outside [of "\<lambda>k. k" "- 3" "\<lparr>entryList = replicate 17 Null, capacity = 17, h_count = 0\<rparr>" False "0 :: nat"]
  by simp

text \<open>
  Looking up or removing in a list that was never filled divides by its capacity 0, in
  the hash table for every key whose list is still unused.
\<close>

theorem empty_lookup_divides_by_zero:
  "hl_take hash k rm (HashList :: ('k, 'v) hlist) = None \<and>
   hl_remove hash k (HashList :: ('k, 'v) hlist) = None \<and>
   ht_take hash1 hash2 k rm (HashTable n :: ('k, 'v) hlist list) = None \<and>
   ht_remove hash1 hash2 k (HashTable n :: ('k, 'v) hlist list) = None"
proof -
  have e: "hl_take h x r (HashList :: ('k, 'v) hlist) = None" "hl_remove h x (HashList :: ('k, 'v) hlist) = None"
    for h x r
    by (simp_all add: hl_take_def hl_remove_def HashList_def probe_start_def)
  have "(HashTable n :: ('k, 'v) hlist list) ! i = HashList" if "ht_index hs (HashTable n) = Some i" for hs i
  proof -
    have "i < n" if "0 < n" "\<not> c_mod hs (int n) < 0" "i = nat (c_mod hs (int n))"
    proof -
      have "c_mod hs (int n) < int n" by (rule c_mod_less) (use that in simp)
      then show ?thesis using that by simp
    qed
    then show ?thesis using that by (auto simp: ht_index_def probe_start_def HashTable_def Let_def split: if_splits)
  qed
  note at = this
  show ?thesis
  proof (cases "ht_index (hash1 k) (HashTable n :: ('k, 'v) hlist list)")
    case None
    with e show ?thesis by (simp add: ht_take_def ht_remove_def)
  next
    case (Some i)
    with e at [OF Some] show ?thesis by (simp add: ht_take_def ht_remove_def)
  qed
qed

lemma mark_stops:
  assumes "entryList h ! p = Corpse"
  shows "take_loop n p hs key rm h = (None, h)" "remove_loop n p hs key h = (False, h)"
  by (induction n) (simp_all add: assms)

text \<open>
  The search loops do not step over the mark of a removed entry. Once the first slot of
  a key's probing carries a mark, the key cannot be found or removed any more, wherever it is.
\<close>

theorem mark_blocks_search:
  assumes "probe_start (hash k) (capacity h) = Some p" and "entryList h ! p = Corpse"
  shows "hl_take hash k rm h = Some (None, h) \<and> hl_remove hash k h = Some (False, h)"
  using assms(1) mark_stops [OF assms(2)] by (simp add: hl_take_def hl_remove_def)

definition ex_table :: "(nat, nat) hlist" where
  "ex_table = \<lparr>entryList = (replicate 17 Null)[3 := Entry 3 3 10, 4 := Entry 20 20 20],
     capacity = 17, h_count = 2\<rparr>"

lemma insert_loop_null:
  "entryList h ! pos = Null \<Longrightarrow> 0 < n \<Longrightarrow> insert_loop n pos hs key val h =
     (True, h\<lparr>entryList := (entryList h)[pos := Entry hs key val], h_count := h_count h + 1\<rparr>)"
  by (cases n) simp_all

lemma insert_loop_corpse:
  "entryList h ! pos = Corpse \<Longrightarrow> 0 < n \<Longrightarrow> insert_loop n pos hs key val h =
     (True, h\<lparr>entryList := (entryList h)[pos := Entry hs key val], h_count := h_count h + 1\<rparr>)"
  by (cases n) simp_all

lemma insert_loop_other:
  "entryList h ! pos = Entry hs' k' v' \<Longrightarrow> hs' \<noteq> hs \<Longrightarrow> insert_loop (Suc n) pos hs key val h =
     insert_loop n ((pos + 1) mod capacity h) hs key val h"
  by simp

lemma remove_loop_found:
  "entryList h ! pos = Entry hs key v \<Longrightarrow> 0 < n \<Longrightarrow> remove_loop n pos hs key h =
     (True, free_entry pos (h\<lparr>h_count := h_count h - 1\<rparr>))"
  by (cases n) simp_all

lemma ex_table_filled:
  "hl_insert_all int [(3, 10), (20, 20)] HashList = Some ([True, True], ex_table)"
proof -
  have c0: "checkupSpace (HashList :: (nat, nat) hlist)
      = Some \<lparr>entryList = replicate 17 Null, capacity = 17, h_count = 0\<rparr>"
    by (simp add: checkupSpace_def HashList_def stepSize_def)
  let ?h1 = "\<lparr>entryList = (replicate 17 Null)[3 := Entry 3 3 10], capacity = 17, h_count = 1\<rparr> :: (nat, nat) hlist"
  have p3: "probe_start (int 3) 17 = Some 3" "probe_start (int 20) 17 = Some 3" by (simp_all add: probe_start_def)
  let ?h0 = "\<lparr>entryList = replicate 17 Null, capacity = 17, h_count = 0\<rparr> :: (nat, nat) hlist"
  have l0: "insert_loop 17 3 (int 3) 3 10 ?h0 = (True, ?h1)"
    by (subst insert_loop_null) simp_all
  have i1: "hl_insert int 3 10 HashList = Some (True, ?h1)"
    unfolding hl_insert_def c0 option.case insertInternal_def using l0 p3(1) by simp
  have c1: "checkupSpace ?h1 = Some ?h1" by (simp add: checkupSpace_def drop_bit_eq_div)
  have "insert_loop (Suc 16) 3 (int 20) 20 20 ?h1 = insert_loop 16 ((3 + 1) mod capacity ?h1) (int 20) 20 20 ?h1"
    by (rule insert_loop_other [where hs' = 3 and k' = 3 and v' = 10]) simp_all
  also have "\<dots> = (True, ex_table)"
    by (subst insert_loop_null) (simp_all add: ex_table_def)
  finally have l: "insert_loop 17 3 (int 20) 20 20 ?h1 = (True, ex_table)" by simp
  have i2: "hl_insert int 20 20 ?h1 = Some (True, ex_table)"
    unfolding hl_insert_def c1 option.case insertInternal_def using l p3(2) by simp
  show ?thesis using i1 i2 by simp
qed

lemma ex_table_removed:
  "hl_remove int 3 ex_table = Some (True, ex_table\<lparr>entryList := (entryList ex_table)[3 := Corpse], h_count := 1\<rparr>)"
  by (simp add: hl_remove_def ex_table_def probe_start_def remove_loop_found Let_def free_entry_def)

theorem mark_blocks_search_witness:
  "hl_take int 20 True (ex_table\<lparr>entryList := (entryList ex_table)[3 := Corpse]\<rparr>) =
     Some (None, ex_table\<lparr>entryList := (entryList ex_table)[3 := Corpse]\<rparr>)"
proof -
  let ?h = "ex_table\<lparr>entryList := (entryList ex_table)[3 := Corpse]\<rparr>"
  have p: "probe_start (int 20) (capacity ?h) = Some 3" by (simp add: probe_start_def ex_table_def)
  have c: "entryList ?h ! 3 = Corpse" by (simp add: ex_table_def)
  show ?thesis using mark_blocks_search [of int 20 ?h 3, OF p c] by blast
qed

text \<open>
  This happens in use: after inserting the keys 3 and 20, which start at the same slot,
  and removing 3, key 20 is still stored but not found, and it can be inserted a second time.
\<close>

theorem removal_hides_other_key:
  "\<exists>h h' h''. hl_insert_all int [(3 :: nat, 10 :: nat), (20, 20)] HashList = Some ([True, True], h) \<and>
     hl_remove int 3 h = Some (True, h') \<and> Entry 20 20 20 \<in> set (entryList h') \<and>
     hl_take int 20 False h' = Some (None, h') \<and> hl_insert int 20 30 h' = Some (True, h'')"
proof -
  let ?h = "ex_table\<lparr>entryList := (entryList ex_table)[3 := Corpse], h_count := 1\<rparr>"
  have len: "length (entryList ?h) = 17" by (simp add: ex_table_def)
  have "Entry 20 20 20 = entryList ?h ! 4" by (simp add: ex_table_def)
  then have m: "Entry 20 20 20 \<in> set (entryList ?h)" using len nth_mem [of 4 "entryList ?h"] by simp
  have p: "probe_start (int 20) (capacity ?h) = Some 3" by (simp add: probe_start_def ex_table_def)
  have c: "entryList ?h ! 3 = Corpse" by (simp add: ex_table_def)
  have t: "hl_take int 20 False ?h = Some (None, ?h)"
    by (simp only: hl_take_def p option.case mark_stops [OF c])
  have "checkupSpace ?h = Some ?h" by (simp add: checkupSpace_def ex_table_def drop_bit_eq_div)
  then have "\<exists>h''. hl_insert int 20 30 ?h = Some (True, h'')"
    using c p by (simp add: hl_insert_def insertInternal_def insert_loop_corpse ex_table_def)
  with m t ex_table_filled ex_table_removed show ?thesis by blast
qed

end
