(* ===== verification/Binary_Reader.thy ===== *)
theory Binary_Reader
  imports Wire_Stream
begin

text \<open>
  \<^verbatim>\<open>Common/BinaryReader.h\<close>: a read cursor over a block of memory it does not own. \<open>br_mem\<close>
  is the memory at \<^verbatim>\<open>_buf\<close>; a copy that runs out of it gives \<open>None\<close>. The second half
  states what a reader of typed fields promises, as a locale, and shows that both readers of
  the program (this one and \<^verbatim>\<open>Stream\<close>) keep the promise.
\<close>

record breader =
  br_pos :: nat
  br_len :: nat
  br_mem :: "u8 list"

definition BinaryReader :: "u8 list \<Rightarrow> nat \<Rightarrow> breader" where
  "BinaryReader mem len = \<lparr>br_pos = 0, br_len = len, br_mem = mem\<rparr>"

definition reader_size :: "breader \<Rightarrow> nat" where "reader_size r = br_len r"
definition reader_left :: "breader \<Rightarrow> nat" where "reader_left r = sub_size (br_len r) (br_pos r)"
definition reader_is_empty :: "breader \<Rightarrow> bool" where "reader_is_empty r \<longleftrightarrow> br_len r = 0"
definition reader_reset :: "breader \<Rightarrow> breader" where "reader_reset r = r\<lparr>br_pos := 0\<rparr>"

definition reader_read :: "nat \<Rightarrow> breader \<Rightarrow> (u8 list \<times> breader) option" where
  "reader_read len r =
     (let len' = (if br_pos r + len > br_len r then sub_size (br_len r) (br_pos r) else len)
      in if len' = 0 then Some ([], r)
         else if br_pos r + len' > length (br_mem r) then None
         else Some (take len' (drop (br_pos r) (br_mem r)), r\<lparr>br_pos := br_pos r + len'\<rparr>))"

definition reader_get :: "'a::len word \<Rightarrow> breader \<Rightarrow> ('a word \<times> breader) option" where
  "reader_get old r =
     (case reader_read (size_of TYPE('a)) r of
        None \<Rightarrow> None
      | Some (bs, r') \<Rightarrow> Some (obj_val (overwrite (obj_bytes old) 0 bs), r'))"

definition reader_get_bytes :: "u8 list \<Rightarrow> breader \<Rightarrow> (u8 list \<times> breader) option" where
  "reader_get_bytes old r =
     (case reader_read (length old) r of
        None \<Rightarrow> None
      | Some (bs, r') \<Rightarrow> Some (overwrite old 0 bs, r'))"

definition reader_get_vec :: "u32 \<Rightarrow> breader \<Rightarrow> (('a::len) word list \<times> breader) option" where
  "reader_get_vec n0 r =
     (case reader_get n0 r of
        None \<Rightarrow> None
      | Some (n, r1) \<Rightarrow>
          if n = 0 then Some ([], r1)
          else (case reader_read (size_of TYPE('a) * unat n) r1 of
                  None \<Rightarrow> None
                | Some (bs, r2) \<Rightarrow>
                    Some (split_objs (unat n)
                      (overwrite (replicate (size_of TYPE('a) * unat n) 0) 0 bs), r2)))"

definition reader_get_str :: "u16 \<Rightarrow> breader \<Rightarrow> (u8 list \<times> breader) option" where
  "reader_get_str l0 r =
     (case reader_get l0 r of
        None \<Rightarrow> None
      | Some (l, r1) \<Rightarrow>
          (let lft = (of_nat (reader_left r1) :: u32);
               l' = (if (ucast l :: u32) > lft then ucast lft else l)
           in if l' > 0
              then (if br_pos r1 + unat l' > length (br_mem r1) then None
                    else Some (take (unat l') (drop (br_pos r1) (br_mem r1)),
                               r1\<lparr>br_pos := br_pos r1 + unat l'\<rparr>))
              else Some ([], r1)))"

definition reader_skip :: "u32 \<Rightarrow> breader \<Rightarrow> breader" where
  "reader_skip n r =
     (let p = br_pos r + unat n in r\<lparr>br_pos := (if p > br_len r then br_len r else p)\<rparr>)"

definition reader_back :: "u32 \<Rightarrow> breader \<Rightarrow> breader" where
  "reader_back n r = (if br_pos r < unat n then r\<lparr>br_pos := 0\<rparr> else r\<lparr>br_pos := br_pos r - unat n\<rparr>)"

text \<open>\<^verbatim>\<open>data<T>(offset)\<close> yields a static zero where the object would not fit.\<close>

definition reader_data :: "nat \<Rightarrow> breader \<Rightarrow> ('a::len word) option" where
  "reader_data off r =
     (if off + size_of TYPE('a) > br_len r then Some 0
      else if off + size_of TYPE('a) > length (br_mem r) then None
      else Some (obj_val (take (size_of TYPE('a)) (drop off (br_mem r)))))"

definition reader_at :: "nat \<Rightarrow> breader \<Rightarrow> u8 option" where
  "reader_at i r =
     (let k = (if i < br_len r then i else 0)
      in if k < length (br_mem r) then Some (br_mem r ! k) else None)"

section \<open>The invariant\<close>

definition reader_ok :: "breader \<Rightarrow> bool" where
  "reader_ok r \<longleftrightarrow> br_pos r \<le> br_len r \<and> br_len r \<le> length (br_mem r) \<and> length (br_mem r) < 2 ^ 64"

definition reader_rest :: "breader \<Rightarrow> u8 list" where
  "reader_rest r = take (br_len r - br_pos r) (drop (br_pos r) (br_mem r))"

lemma length_reader_rest: "reader_ok r \<Longrightarrow> length (reader_rest r) = br_len r - br_pos r"
  by (auto simp: reader_ok_def reader_rest_def min_def)

lemma reader_read_ok:
  assumes "reader_ok r"
  shows "reader_read n r =
    Some (take n (reader_rest r), r\<lparr>br_pos := br_pos r + min n (br_len r - br_pos r)\<rparr>)"
  using assms by (auto simp: reader_read_def reader_ok_def reader_rest_def Let_def min_def)

lemma reader_rest_advance:
  "reader_ok r \<Longrightarrow> n \<le> br_len r - br_pos r \<Longrightarrow>
     reader_rest (r\<lparr>br_pos := br_pos r + n\<rparr>) = drop n (reader_rest r) \<and> reader_ok (r\<lparr>br_pos := br_pos r + n\<rparr>)"
  by (auto simp: reader_rest_def reader_ok_def drop_take add.commute)

lemma reader_ok_intros [inv_intros]:
  "len \<le> length mem \<Longrightarrow> length mem < 2 ^ 64 \<Longrightarrow> reader_ok (BinaryReader mem len)"
  "reader_ok r \<Longrightarrow> reader_ok (reader_reset r)" "reader_ok r \<Longrightarrow> reader_ok (reader_skip n r)"
  "reader_ok r \<Longrightarrow> reader_ok (reader_back n r)"
  by (auto simp: reader_ok_def BinaryReader_def reader_reset_def reader_skip_def reader_back_def Let_def)

lemma reader_ok_read [inv_intros]:
  "reader_ok r \<Longrightarrow> reader_read n r = Some (bs, r') \<Longrightarrow> reader_ok r'"
  by (auto simp: reader_read_ok reader_ok_def)

lemma reader_get_at:
  fixes v :: "'a::len word"
  assumes "8 dvd LENGTH('a)" and "reader_ok r" and "reader_rest r = obj_bytes v @ rest"
  shows "\<exists>r'. reader_get old r = Some (v, r') \<and> reader_ok r' \<and> reader_rest r' = rest"
proof -
  have len: "LENGTH('a) div 8 \<le> br_len r - br_pos r"
    using arg_cong [OF assms(3), of length] length_reader_rest [OF assms(2)] by simp
  have "reader_read (LENGTH('a) div 8) r
      = Some (obj_bytes v, r\<lparr>br_pos := br_pos r + LENGTH('a) div 8\<rparr>)"
    using len by (simp add: reader_read_ok [OF assms(2)] assms(3) min_def)
  then show ?thesis
    using reader_rest_advance [OF assms(2) len] assms(1,3)
    by (simp add: reader_get_def size_of_def obj_val_obj_bytes)
qed

lemma reader_get_str_at:
  assumes "reader_ok r" and "length v < 2 ^ 16" and "br_len r < 2 ^ 32"
    and "reader_rest r = obj_bytes (of_nat (length v) :: u16) @ v @ rest"
  shows "\<exists>r'. reader_get_str l0 r = Some (v, r') \<and> reader_ok r' \<and> reader_rest r' = rest"
proof -
  obtain r1 where r1: "reader_get l0 r = Some (of_nat (length v), r1)" "reader_ok r1"
    "reader_rest r1 = v @ rest"
    using reader_get_at [OF _ assms(1,4), of l0] by auto
  have "br_len r1 = br_len r"
    using r1(1) by (auto simp: reader_get_def reader_read_ok [OF assms(1)])
  then have left: "length v + length rest = br_len r1 - br_pos r1" "br_len r1 - br_pos r1 < 2 ^ 32"
    using length_reader_rest [OF r1(2)] r1(3) assms(3) by simp_all
  have "reader_left r1 = br_len r1 - br_pos r1"
    using r1(2) by (simp add: reader_left_def reader_ok_def)
  then have lft: "unat (of_nat (reader_left r1) :: u32) = br_len r1 - br_pos r1"
    using left(2) by (simp add: unat_of_nat)
  have n: "unat (of_nat (length v) :: u16) = length v" using assms(2) by (simp add: unat_of_nat)
  have l': "unat (if (ucast (of_nat (length v) :: u16) :: u32) > of_nat (reader_left r1)
      then ucast (of_nat (reader_left r1) :: u32) else (of_nat (length v) :: u16)) = length v"
    unfolding str_len_clamp n lft using left(1) by simp
  have pos: "br_pos r1 + length v \<le> length (br_mem r1)"
    using left(1) r1(2) by (auto simp: reader_ok_def)
  have v: "take (length v) (drop (br_pos r1) (br_mem r1)) = v"
  proof -
    have "v = take (length v) (reader_rest r1)" using r1(3) by simp
    also have "\<dots> = take (length v) (drop (br_pos r1) (br_mem r1))"
      using left(1) by (simp add: reader_rest_def min_def)
    finally show ?thesis by simp
  qed
  have adv: "reader_rest (r1\<lparr>br_pos := br_pos r1 + length v\<rparr>) = rest
      \<and> reader_ok (r1\<lparr>br_pos := br_pos r1 + length v\<rparr>)"
    using reader_rest_advance [OF r1(2), of "length v"] left(1) r1(3) by simp
  let ?l = "if (ucast (of_nat (length v) :: u16) :: u32) > of_nat (reader_left r1)
      then ucast (of_nat (reader_left r1) :: u32) else (of_nat (length v) :: u16)"
  have "reader_get_str l0 r = (if ?l > 0
      then (if br_pos r1 + unat ?l > length (br_mem r1) then None
            else Some (take (unat ?l) (drop (br_pos r1) (br_mem r1)), r1\<lparr>br_pos := br_pos r1 + unat ?l\<rparr>))
      else Some ([], r1))"
    unfolding reader_get_str_def r1(1) by (simp only: option.case prod.case Let_def)
  also have "\<dots> = Some (v, r1\<lparr>br_pos := br_pos r1 + length v\<rparr>)"
  proof (cases "length v = 0")
    case True
    then have "\<not> ?l > 0" using l' by (metis unat_eq_zero word_gt_0)
    with True show ?thesis by simp
  next
    case False
    then have "?l > 0" using l' by (metis unat_eq_zero word_gt_0)
    with pos v l' show ?thesis by (simp only: if_True if_False not_less) simp
  qed
  finally show ?thesis using adv by blast
qed

section \<open>Readers of typed fields\<close>

text \<open>The fields a message body is made of, and their bytes.\<close>

datatype field = F8 u8 | F16 u16 | F32 u32 | F64 u64 | FStr "u8 list"

primrec field_bytes :: "field \<Rightarrow> u8 list" where
  "field_bytes (F8 v) = obj_bytes v"
| "field_bytes (F16 v) = obj_bytes v"
| "field_bytes (F32 v) = obj_bytes v"
| "field_bytes (F64 v) = obj_bytes v"
| "field_bytes (FStr v) = obj_bytes (of_nat (length v) :: u16) @ v"

primrec field_ok :: "field \<Rightarrow> bool" where
  "field_ok (F8 v) = True"
| "field_ok (F16 v) = True"
| "field_ok (F32 v) = True"
| "field_ok (F64 v) = True"
| "field_ok (FStr v) = (length v < 2 ^ 16)"

text \<open>
  What the users of a reader need: whatever field the rest of the input starts with, reading
  that field returns its value and leaves what follows.
\<close>

locale field_reader =
  fixes get8 :: "'s \<Rightarrow> (u8 \<times> 's) option" and get16 :: "'s \<Rightarrow> (u16 \<times> 's) option"
    and get32 :: "'s \<Rightarrow> (u32 \<times> 's) option" and get64 :: "'s \<Rightarrow> (u64 \<times> 's) option"
    and get_str :: "'s \<Rightarrow> (u8 list \<times> 's) option"
    and rest :: "'s \<Rightarrow> u8 list" and ok :: "'s \<Rightarrow> bool"
  assumes get8: "ok s \<Longrightarrow> rest s = obj_bytes v8 @ r \<Longrightarrow> \<exists>s'. get8 s = Some (v8, s') \<and> ok s' \<and> rest s' = r"
    and get16: "ok s \<Longrightarrow> rest s = obj_bytes v16 @ r \<Longrightarrow> \<exists>s'. get16 s = Some (v16, s') \<and> ok s' \<and> rest s' = r"
    and get32: "ok s \<Longrightarrow> rest s = obj_bytes v32 @ r \<Longrightarrow> \<exists>s'. get32 s = Some (v32, s') \<and> ok s' \<and> rest s' = r"
    and get64: "ok s \<Longrightarrow> rest s = obj_bytes v64 @ r \<Longrightarrow> \<exists>s'. get64 s = Some (v64, s') \<and> ok s' \<and> rest s' = r"
    and get_str: "ok s \<Longrightarrow> length v < 2 ^ 16 \<Longrightarrow> rest s = obj_bytes (of_nat (length v) :: u16) @ v @ r \<Longrightarrow>
      \<exists>s'. get_str s = Some (v, s') \<and> ok s' \<and> rest s' = r"
begin

text \<open>Reading a field of the type that the given field has.\<close>

primrec get_field :: "field \<Rightarrow> 's \<Rightarrow> (field \<times> 's) option" where
  "get_field (F8 v) s = map_option (map_prod F8 id) (get8 s)"
| "get_field (F16 v) s = map_option (map_prod F16 id) (get16 s)"
| "get_field (F32 v) s = map_option (map_prod F32 id) (get32 s)"
| "get_field (F64 v) s = map_option (map_prod F64 id) (get64 s)"
| "get_field (FStr v) s = map_option (map_prod FStr id) (get_str s)"

lemma get_field_ok:
  "ok s \<Longrightarrow> field_ok f \<Longrightarrow> rest s = field_bytes f @ r \<Longrightarrow>
     \<exists>s'. get_field f s = Some (f, s') \<and> ok s' \<and> rest s' = r"
  using get8 get16 get32 get64 get_str by (cases f) fastforce+

primrec get_fields :: "field list \<Rightarrow> 's \<Rightarrow> (field list \<times> 's) option" where
  "get_fields [] s = Some ([], s)"
| "get_fields (f # fs) s =
     (case get_field f s of
        None \<Rightarrow> None
      | Some (v, s') \<Rightarrow> map_option (\<lambda>(vs, s''). (v # vs, s'')) (get_fields fs s'))"

lemma get_fields_ok:
  "ok s \<Longrightarrow> \<forall>f \<in> set fs. field_ok f \<Longrightarrow> rest s = concat (map field_bytes fs) @ r \<Longrightarrow>
     \<exists>s'. get_fields fs s = Some (fs, s') \<and> ok s' \<and> rest s' = r"
proof (induction fs arbitrary: s)
  case Nil
  then show ?case by simp
next
  case (Cons f fs)
  then obtain s1 where s1: "get_field f s = Some (f, s1)" "ok s1" "rest s1 = concat (map field_bytes fs) @ r"
    using get_field_ok [of s f "concat (map field_bytes fs) @ r"] by auto
  with Cons.IH [OF s1(2) _ s1(3)] Cons.prems(2) show ?case by auto
qed

end

text \<open>
  Both readers of the program are such readers. The indeterminate values of the reading
  functions' locals are given as zero here; the laws hold for every value of them.
\<close>

definition stream_reads :: "wstream \<Rightarrow> bool" where
  "stream_reads s \<longleftrightarrow> stream_ok s \<and> length (wbuf s) < 2 ^ 32"

definition reader_reads :: "breader \<Rightarrow> bool" where
  "reader_reads r \<longleftrightarrow> reader_ok r \<and> br_len r < 2 ^ 32"

lemma stream_get_reads:
  fixes v :: "'a::len word"
  assumes "8 dvd LENGTH('a)" "stream_reads s" "drop (wpos s) (wbuf s) = obj_bytes v @ r"
  shows "\<exists>s'. stream_get old s = Some (v, s') \<and> stream_reads s' \<and> drop (wpos s') (wbuf s') = r"
proof -
  have "stream_ok s" using assms(2) by (simp add: stream_reads_def)
  from stream_get_at [OF assms(1) this assms(3), of old] stream_ok_get [OF this]
  have "stream_get old s = Some (v, s\<lparr>wpos := wpos s + LENGTH('a) div 8\<rparr>)"
    "stream_ok (s\<lparr>wpos := wpos s + LENGTH('a) div 8\<rparr>)" by blast+
  moreover have "drop (wpos s + LENGTH('a) div 8) (wbuf s) = r"
    using arg_cong [OF assms(3), of "drop (LENGTH('a) div 8)"] by (simp add: add.commute)
  ultimately show ?thesis using assms(2) by (simp add: stream_reads_def)
qed

lemma stream_get_str_reads:
  assumes "stream_reads s" "length v < 2 ^ 16"
    "drop (wpos s) (wbuf s) = obj_bytes (of_nat (length v) :: u16) @ v @ r"
  shows "\<exists>s'. stream_get_str l0 s = Some (v, s') \<and> stream_reads s' \<and> drop (wpos s') (wbuf s') = r"
proof -
  have ok: "stream_ok s" "length (wbuf s) < 2 ^ 32" using assms(1) by (simp_all add: stream_reads_def)
  from stream_get_str_at [OF ok(1) assms(2) ok(2) assms(3), of l0] stream_ok_get_str [OF ok(1)]
  have "stream_get_str l0 s = Some (v, s\<lparr>wpos := wpos s + 2 + length v\<rparr>)"
    "stream_ok (s\<lparr>wpos := wpos s + 2 + length v\<rparr>)" by blast+
  moreover have "drop (wpos s + 2 + length v) (wbuf s) = r"
  proof -
    have "drop (2 + length v) (drop (wpos s) (wbuf s)) = r" by (simp add: assms(3) obj_bytes_u16)
    then show ?thesis by (simp add: ac_simps)
  qed
  ultimately show ?thesis using ok(2) by (simp add: stream_reads_def)
qed

interpretation stream_fields: field_reader "stream_get 0" "stream_get 0" "stream_get 0" "stream_get 0"
    "stream_get_str 0" "\<lambda>s. drop (wpos s) (wbuf s)" stream_reads
  by unfold_locales (rule stream_get_reads stream_get_str_reads; simp)+

lemma reader_get_reads:
  fixes v :: "'a::len word"
  assumes "8 dvd LENGTH('a)" "reader_reads r" "reader_rest r = obj_bytes v @ rest"
  shows "\<exists>r'. reader_get old r = Some (v, r') \<and> reader_reads r' \<and> reader_rest r' = rest"
proof -
  have ok: "reader_ok r" using assms(2) by (simp add: reader_reads_def)
  from reader_get_at [OF assms(1) ok assms(3), of old] obtain r' where
    r': "reader_get old r = Some (v, r')" "reader_ok r'" "reader_rest r' = rest" by blast
  have "br_len r' = br_len r" using r'(1) by (auto simp: reader_get_def reader_read_ok [OF ok])
  with r' assms(2) show ?thesis by (simp add: reader_reads_def)
qed

lemma reader_get_str_len: "reader_ok r \<Longrightarrow> reader_get_str l0 r = Some (v, r') \<Longrightarrow> br_len r' = br_len r"
  by (auto simp: reader_get_str_def reader_get_def reader_read_ok Let_def split: if_splits)

lemma reader_get_str_reads:
  assumes "reader_reads r" "length v < 2 ^ 16"
    "reader_rest r = obj_bytes (of_nat (length v) :: u16) @ v @ rest"
  shows "\<exists>r'. reader_get_str l0 r = Some (v, r') \<and> reader_reads r' \<and> reader_rest r' = rest"
proof -
  have ok: "reader_ok r" "br_len r < 2 ^ 32" using assms(1) by (simp_all add: reader_reads_def)
  from reader_get_str_at [OF ok(1) assms(2) ok(2) assms(3), of l0] obtain r' where
    r': "reader_get_str l0 r = Some (v, r')" "reader_ok r'" "reader_rest r' = rest" by blast
  with reader_get_str_len [OF ok(1) r'(1)] ok(2) show ?thesis by (simp add: reader_reads_def)
qed

interpretation reader_fields: field_reader "reader_get 0" "reader_get 0" "reader_get 0" "reader_get 0"
    "reader_get_str 0" reader_rest reader_reads
  by unfold_locales (rule reader_get_reads reader_get_str_reads; simp)+

section \<open>Writing fields\<close>

primrec put_field :: "field \<Rightarrow> wstream \<Rightarrow> wstream" where
  "put_field (F8 v) s = stream_put v s"
| "put_field (F16 v) s = stream_put v s"
| "put_field (F32 v) s = stream_put v s"
| "put_field (F64 v) s = stream_put v s"
| "put_field (FStr v) s = stream_put_str v s"

lemma put_fields:
  "wbuf (fold put_field fs s) = wbuf s @ concat (map field_bytes fs) \<and> wpos (fold put_field fs s) = wpos s"
proof (induction fs arbitrary: s)
  case (Cons f fs)
  have "wbuf (put_field f s) = wbuf s @ field_bytes f" "wpos (put_field f s) = wpos s"
    by (cases f; simp add: stream_put_str_def)+
  with Cons show ?case by simp
qed simp

text \<open>The program's reads of a list of fields, in the two readers.\<close>

primrec stream_get_field :: "field \<Rightarrow> wstream \<Rightarrow> (field \<times> wstream) option" where
  "stream_get_field (F8 v) s = map_option (map_prod F8 id) (stream_get 0 s)"
| "stream_get_field (F16 v) s = map_option (map_prod F16 id) (stream_get 0 s)"
| "stream_get_field (F32 v) s = map_option (map_prod F32 id) (stream_get 0 s)"
| "stream_get_field (F64 v) s = map_option (map_prod F64 id) (stream_get 0 s)"
| "stream_get_field (FStr v) s = map_option (map_prod FStr id) (stream_get_str 0 s)"

primrec reader_get_field :: "field \<Rightarrow> breader \<Rightarrow> (field \<times> breader) option" where
  "reader_get_field (F8 v) s = map_option (map_prod F8 id) (reader_get 0 s)"
| "reader_get_field (F16 v) s = map_option (map_prod F16 id) (reader_get 0 s)"
| "reader_get_field (F32 v) s = map_option (map_prod F32 id) (reader_get 0 s)"
| "reader_get_field (F64 v) s = map_option (map_prod F64 id) (reader_get 0 s)"
| "reader_get_field (FStr v) s = map_option (map_prod FStr id) (reader_get_str 0 s)"

fun read_seq :: "('f \<Rightarrow> 's \<Rightarrow> ('f \<times> 's) option) \<Rightarrow> 'f list \<Rightarrow> 's \<Rightarrow> ('f list \<times> 's) option" where
  "read_seq rd [] s = Some ([], s)"
| "read_seq rd (f # fs) s =
     (case rd f s of
        None \<Rightarrow> None
      | Some (v, s') \<Rightarrow> map_option (\<lambda>(vs, s''). (v # vs, s'')) (read_seq rd fs s'))"

lemma stream_get_field_eq: "stream_get_field = stream_fields.get_field"
proof (intro ext)
  show "stream_get_field f s = stream_fields.get_field f s" for f s by (cases f) simp_all
qed

lemma reader_get_field_eq: "reader_get_field = reader_fields.get_field"
proof (intro ext)
  show "reader_get_field f s = reader_fields.get_field f s" for f s by (cases f) simp_all
qed

lemma read_seq_stream: "read_seq stream_get_field fs s = stream_fields.get_fields fs s"
  unfolding stream_get_field_eq by (induction fs arbitrary: s) (auto split: option.split)

lemma read_seq_reader: "read_seq reader_get_field fs s = reader_fields.get_fields fs s"
  unfolding reader_get_field_eq by (induction fs arbitrary: s) (auto split: option.split)

section \<open>Properties\<close>

text \<open>
  C6: Whatever integers of 8 to 64 bits and strings shorter than \<open>2 ^ 16\<close> bytes are written to a message
  stream, in any order and less than \<open>2 ^ 32\<close> bytes in all, a stream positioned at its payload
  reads the same fields back and stops exactly at the end. (A longer string is not read back, see
  \<open>stream_long_string_desync\<close>.)
\<close>

theorem stream_fields_roundtrip:
  assumes "\<forall>f \<in> set fs. field_ok f" and "length (concat (map field_bytes fs)) + 10 < 2 ^ 32"
  shows "\<exists>s'. read_seq stream_get_field fs
      (stream_skip 10 (stream_eos (fold put_field fs (stream_msg cmd target source)))) = Some (fs, s') \<and>
    wpos s' = length (wbuf s')"
proof -
  let ?p = "concat (map field_bytes fs)"
  let ?s = "stream_eos (fold put_field fs (stream_msg cmd target source))"
  have "wbuf (fold put_field fs (stream_msg cmd target source)) = wbuf (stream_append ?p (stream_msg cmd target source))"
    "wpos (fold put_field fs (stream_msg cmd target source)) = 0"
    by (simp_all add: put_fields stream_append_def) (simp add: stream_msg_def)
  then have s: "wbuf ?s = frame cmd target source ?p" "wpos ?s = 0"
    by (simp_all add: frame_def stream_eos_def stream_set_data_def stream_size_def)
  have lp: "length ?p + 10 < 2 ^ 64" using assms(2) by simp
  have len: "length (wbuf ?s) = length ?p + 10" unfolding s by (rule length_frame [OF lp])
  have rest: "drop 10 (wbuf ?s) = ?p @ []"
    unfolding s frame_eq [OF lp] by (simp add: obj_bytes_u16)
  let ?t = "stream_skip 10 ?s"
  have t: "wpos ?t = 10" "wbuf ?t = wbuf ?s" using len s(2) by (simp_all add: stream_skip_def Let_def)
  have "stream_reads ?t" using len assms(2) by (auto simp: stream_reads_def stream_ok_def t)
  moreover have "drop (wpos ?t) (wbuf ?t) = ?p @ []" using rest by (simp add: t)
  ultimately obtain s' where s': "stream_fields.get_fields fs ?t = Some (fs, s')" "stream_reads s'"
    "drop (wpos s') (wbuf s') = []"
    using stream_fields.get_fields_ok [OF _ assms(1)] by blast
  then have "wpos s' = length (wbuf s')" by (simp add: stream_reads_def stream_ok_def)
  with s'(1) show ?thesis by (auto simp: read_seq_stream)
qed

theorem stream_fields_roundtrip_witness:
  "\<exists>s'. read_seq stream_get_field [F16 513, FStr [104, 105], F32 7]
      (stream_skip 10 (stream_eos (fold put_field [F16 513, FStr [104, 105], F32 7] (stream_msg 3 257 258))))
    = Some ([F16 513, FStr [104, 105], F32 7], s') \<and> wpos s' = length (wbuf s')"
  by (rule stream_fields_roundtrip) simp_all

text \<open>
  The payload the stream composes is understood by \<^verbatim>\<open>BinaryReader\<close>, the reader the
  message classes use: over the payload bytes it reads the same fields and consumes them all.
\<close>

theorem reader_fields_roundtrip:
  assumes "\<forall>f \<in> set fs. field_ok f" and "length (concat (map field_bytes fs)) < 2 ^ 32"
    and "payload = wbuf (fold put_field fs stream_empty)"
  shows "\<exists>r. read_seq reader_get_field fs (BinaryReader payload (length payload)) = Some (fs, r) \<and>
    reader_left r = 0"
proof -
  let ?p = "concat (map field_bytes fs)"
  have p: "payload = ?p" by (simp add: assms(3) put_fields stream_empty_def)
  have "reader_reads (BinaryReader payload (length payload))"
    using assms(2) by (simp add: reader_reads_def reader_ok_def BinaryReader_def p)
  moreover have "reader_rest (BinaryReader payload (length payload)) = ?p @ []"
    by (simp add: reader_rest_def BinaryReader_def p)
  ultimately obtain r where r: "reader_fields.get_fields fs (BinaryReader payload (length payload)) = Some (fs, r)"
    "reader_reads r" "reader_rest r = []"
    using reader_fields.get_fields_ok [OF _ assms(1)] by blast
  then have "br_len r = br_pos r" using length_reader_rest [of r] by (auto simp: reader_reads_def reader_ok_def)
  then have "reader_left r = 0" by (simp add: reader_left_def sub_size_def)
  with r(1) show ?thesis by (auto simp: read_seq_reader)
qed

theorem reader_fields_roundtrip_witness:
  "\<exists>r. read_seq reader_get_field [F8 1, FStr [65], F64 9]
      (BinaryReader (wbuf (fold put_field [F8 1, FStr [65], F64 9] stream_empty))
        (length (wbuf (fold put_field [F8 1, FStr [65], F64 9] stream_empty))))
    = Some ([F8 1, FStr [65], F64 9], r) \<and> reader_left r = 0"
  by (rule reader_fields_roundtrip) (simp_all add: put_fields stream_empty_def)

text \<open>
  \<^verbatim>\<open>pop_front\<close> does not move the cursor. Reading one byte and then dropping the
  whole buffer leaves the cursor behind the end, and the next read copies from outside it.
\<close>

theorem stream_pop_front_escapes:
  assumes "wbuf s = b # bs" and "wpos s = 0" and "length (wbuf s) < 2 ^ 64"
  shows "\<exists>s1. stream_read 1 s = Some ([b], s1) \<and>
    stream_read k (stream_pop_front (length (wbuf s)) s1) = None"
proof -
  have ok: "stream_ok s" using assms by (simp add: stream_ok_def)
  have r: "stream_read 1 s = Some ([b], s\<lparr>wpos := 1\<rparr>)"
    using assms by (simp add: stream_read_ok [OF ok])
  have "stream_read k (s\<lparr>wpos := 1, wbuf := []\<rparr>) = None"
    by (simp add: stream_read_def Let_def sub_size_def)
  with r assms(1) show ?thesis by (simp add: stream_pop_front_def)
qed

theorem stream_pop_front_escapes_witness:
  "\<exists>s1. stream_read 1 (stream_of_bytes [1, 2]) = Some ([1], s1) \<and>
    stream_read 4 (stream_pop_front (length [1, 2 :: u8]) s1) = None"
  using stream_pop_front_escapes [of "stream_of_bytes [1, 2]" 1 "[2]" 4]
  by (simp add: stream_of_bytes_def)

text \<open>
  A string of \<open>2 ^ 16\<close> bytes or more is written whole behind a length that has lost its
  high bits, so the reader stops inside it and takes its tail for the next field.
\<close>

theorem stream_long_string_desync:
  assumes "2 ^ 16 \<le> length v" and "length v + 2 < 2 ^ 32"
  shows "stream_get_str 0 (stream_put_str v stream_empty)
    = Some (take (length v mod 2 ^ 16) v, \<lparr>wpos = 2 + length v mod 2 ^ 16,
        wbuf = wbuf (stream_put_str v stream_empty)\<rparr>)"
proof -
  let ?s = "stream_put_str v stream_empty" and ?n = "length v mod 2 ^ 16"
  have b: "wbuf ?s = obj_bytes (of_nat (length v) :: u16) @ v" "wpos ?s = 0"
    by (simp_all add: stream_put_str_def stream_empty_def)
  have same: "(of_nat ?n :: u16) = of_nat (length v)"
    by (simp add: word_unat_eq_iff unat_of_nat)
  have "length (wbuf ?s) = 2 + length v" by (simp add: b)
  then have "stream_reads ?s" using assms(2) by (simp add: stream_reads_def stream_ok_def b)
  moreover have "drop (wpos ?s) (wbuf ?s)
      = obj_bytes (of_nat (length (take ?n v)) :: u16) @ take ?n v @ drop ?n v"
    using same by (simp add: b min_def)
  moreover have "length (take ?n v) < 2 ^ 16" by simp
  moreover have "stream_ok ?s" "length (wbuf ?s) < 2 ^ 32"
    using \<open>stream_reads ?s\<close> by (simp_all add: stream_reads_def)
  ultimately have "stream_get_str 0 ?s = Some (take ?n v, ?s\<lparr>wpos := wpos ?s + 2 + length (take ?n v)\<rparr>)"
    using stream_get_str_at [of ?s "take ?n v" "drop ?n v" 0] by blast
  moreover have "length (take ?n v) = ?n" using assms(1) by simp
  ultimately show ?thesis by (simp add: b)
qed

theorem stream_long_string_desync_witness:
  "stream_get_str 0 (stream_put_str (replicate 65537 7) stream_empty)
    = Some (take 1 (replicate 65537 7), \<lparr>wpos = 3,
        wbuf = wbuf (stream_put_str (replicate 65537 7) stream_empty)\<rparr>)"
  using stream_long_string_desync [of "replicate 65537 7"] by simp

end
