(* ===== verification/Serialize.thy ===== *)
theory Serialize
  imports Wire_Stream
begin

text \<open>
  \<^verbatim>\<open>Common/Serialize.h\<close>: how message classes are written to and read from bytes. The template
  specialisation \<^verbatim>\<open>S11NTraits<T>\<close> is a record of its three functions. \<^verbatim>\<open>Unserialize\<close>
  gets a pointer and a size: the list of bytes is the memory from that pointer to the end of
  its block, whatever the size says, and \<open>None\<close> as a result is a read behind that end. The
  result \<open>-1\<close> means that the bytes do not fit the type.
\<close>

record 'a s11n =
  t_Size :: "'a \<Rightarrow> u32"
  t_Serialize :: "'a \<Rightarrow> u8 list \<Rightarrow> u32 \<times> u8 list"
  t_Unserialize :: "'a \<Rightarrow> u8 list \<Rightarrow> u32 \<Rightarrow> (u32 \<times> 'a) option"

definition mem_read :: "nat \<Rightarrow> u8 list \<Rightarrow> u8 list option" where
  "mem_read n buf = (if n \<le> length buf then Some (take n buf) else None)"

section \<open>The basic types\<close>

text \<open>The primary template: types without a specialisation are not serialised at all.\<close>

definition S11NTraits_other :: "'a s11n" where
  "S11NTraits_other =
     \<lparr>t_Size = (\<lambda>_. 0), t_Serialize = (\<lambda>_ buf. (0, buf)), t_Unserialize = (\<lambda>m _ _. Some (0, m))\<rparr>"

definition S11NTraits_integer :: "('a::len) word s11n" where
  "S11NTraits_integer =
     \<lparr>t_Size = (\<lambda>_. of_nat (size_of TYPE('a))),
      t_Serialize = (\<lambda>w buf. (of_nat (size_of TYPE('a)), buf @ obj_bytes w)),
      t_Unserialize = (\<lambda>w buf size.
        if size_of TYPE('a) > unat size then Some (- 1, w)
        else (case mem_read (size_of TYPE('a)) buf of
                None \<Rightarrow> None
              | Some bs \<Rightarrow> Some (of_nat (size_of TYPE('a)), obj_val bs)))\<rparr>"

text \<open>
  Pointers, \<^verbatim>\<open>float\<close> and \<^verbatim>\<open>double\<close> have the same three functions over their
  representation.
\<close>

definition S11NTraits_pointer :: "u64 s11n" where "S11NTraits_pointer = S11NTraits_integer"
definition S11NTraits_float :: "u32 s11n" where "S11NTraits_float = S11NTraits_integer"
definition S11NTraits_double :: "u64 s11n" where "S11NTraits_double = S11NTraits_integer"

text \<open>
  An array member with \<open>n\<close> elements. \<^verbatim>\<open>Unserialize\<close> compares the number of elements, not
  of bytes, with the size.
\<close>

definition S11NTraits_Array :: "nat \<Rightarrow> ('a::len) word list s11n" where
  "S11NTraits_Array n =
     \<lparr>t_Size = (\<lambda>_. of_nat (size_of TYPE('a) * n)),
      t_Serialize = (\<lambda>xs buf. (of_nat (size_of TYPE('a) * n), buf @ concat (map obj_bytes xs))),
      t_Unserialize = (\<lambda>xs buf size.
        if n > unat size then Some (- 1, xs)
        else (case mem_read (size_of TYPE('a) * n) buf of
                None \<Rightarrow> None
              | Some bs \<Rightarrow> Some (of_nat (size_of TYPE('a) * n), split_objs n bs)))\<rparr>"

definition S11NTraits_string :: "u8 list s11n" where
  "S11NTraits_string =
     \<lparr>t_Size = (\<lambda>s. of_nat (length s + 2)),
      t_Serialize = (\<lambda>s buf.
        let l = of_nat (length s) :: u16;
            buf1 = buf @ obj_bytes l;
            buf2 = (if l > 0 then buf1 @ s else buf1)
        in (of_nat (unat l + 2), buf2)),
      t_Unserialize = (\<lambda>s buf size.
        if unat size < 2 then Some (- 1, s)
        else (case mem_read 2 buf of
                None \<Rightarrow> None
              | Some lb \<Rightarrow>
                  let l = obj_val lb :: u16
                  in if size < ucast l + 2 then Some (- 1, s)
                     else (case mem_read (unat l) (drop 2 buf) of
                             None \<Rightarrow> None
                           | Some bs \<Rightarrow> Some (of_nat (2 + unat l), bs))))\<rparr>"

section \<open>Vectors\<close>

text \<open>
  The count written and the count returned by \<^verbatim>\<open>Serialize\<close> share a 16-bit variable.
  \<^verbatim>\<open>resize\<close> keeps the elements the vector has and fills up with \<open>d\<close>, the value of a
  default-constructed element.
\<close>

definition vec_resize :: "'a \<Rightarrow> nat \<Rightarrow> 'a list \<Rightarrow> 'a list" where
  "vec_resize d n xs = take n xs @ replicate (n - length xs) d"

fun vec_write :: "'a s11n \<Rightarrow> 'a list \<Rightarrow> u16 \<Rightarrow> u8 list \<Rightarrow> u16 \<times> u8 list" where
  "vec_write t [] l buf = (l, buf)"
| "vec_write t (x # xs) l buf =
     (let (r, buf') = t_Serialize t x buf in vec_write t xs (ucast (ucast l + r)) buf')"

fun vec_read :: "'a s11n \<Rightarrow> u8 list \<Rightarrow> u32 \<Rightarrow> u32 \<Rightarrow> 'a list \<Rightarrow> 'a list \<Rightarrow> (u32 \<times> 'a list) option" where
  "vec_read t buf sz consumed done [] = Some (consumed, done)"
| "vec_read t buf sz consumed done (x # xs) =
     (case t_Unserialize t x (drop (unat consumed) buf) (sz - consumed) of
        None \<Rightarrow> None
      | Some (r, x') \<Rightarrow>
          if r = - 1 then Some (- 1, [])
          else vec_read t buf sz (consumed + r) (done @ [x']) xs)"

definition S11NTraits_vector :: "'a \<Rightarrow> 'a s11n \<Rightarrow> 'a list s11n" where
  "S11NTraits_vector d t =
     \<lparr>t_Size = (\<lambda>xs. fold (\<lambda>x sz. sz + t_Size t x) xs 2),
      t_Serialize = (\<lambda>xs buf.
        let (l, buf') = vec_write t xs 2 (buf @ obj_bytes (of_nat (length xs) :: u16))
        in (ucast l, buf')),
      t_Unserialize = (\<lambda>xs buf size.
        if unat size < 2 then Some (- 1, xs)
        else (case mem_read 2 buf of
                None \<Rightarrow> None
              | Some lb \<Rightarrow>
                  let l = obj_val lb :: u16
                  in if l > 1024 then Some (- 1, xs)
                     else vec_read t buf size 2 [] (vec_resize d (unat l) xs)))\<rparr>"

section \<open>Structures and messages\<close>

text \<open>
  The body of \<^verbatim>\<open>SllN_TRAITS_MEMBER\<close> (and \<^verbatim>\<open>MSG_SllN_MEMBER\<close>): reading one member at
  \<open>len\<close>. On failure the function returns with this member as its reader left it; otherwise
  it goes on (\<open>k\<close>) with the new \<open>len\<close> and member.
\<close>

definition SllN_TRAITS_MEMBER ::
    "'m s11n \<Rightarrow> 'm \<Rightarrow> u8 list \<Rightarrow> u32 \<Rightarrow> u32 \<Rightarrow> ('m \<Rightarrow> 'a) \<Rightarrow> (u32 \<Rightarrow> 'm \<Rightarrow> (u32 \<times> 'a) option)
       \<Rightarrow> (u32 \<times> 'a) option" where
  "SllN_TRAITS_MEMBER t m buf sz len upd k =
     (case t_Unserialize t m (drop (unat len) buf) (sz - len) of
        None \<Rightarrow> None
      | Some (r, m') \<Rightarrow> if r = - 1 then Some (r, upd m') else k (len + r) m')"

text \<open>
  One definition for each macro: the traits of a structure with \<open>n\<close> members (of a message
  class, for the \<^verbatim>\<open>MSG\<close> macros), from those of its members.
\<close>

definition S11N_TRAITS_1 :: "'a s11n \<Rightarrow> 'a s11n" where
  "S11N_TRAITS_1 t1 =
     \<lparr>t_Size = (\<lambda>m1. t_Size t1 m1),
      t_Serialize = (\<lambda>m1 buf. t_Serialize t1 m1 buf),
      t_Unserialize = (\<lambda>m1 buf size. t_Unserialize t1 m1 buf size)\<rparr>"

definition S11N_TRAITS_2 ::
    "'a s11n \<Rightarrow> 'b s11n
       \<Rightarrow> ('a \<times> 'b) s11n" where
  "S11N_TRAITS_2 t1 t2 =
     \<lparr>t_Size = (\<lambda>(m1, m2).
        0 + t_Size t1 m1 + t_Size t2 m2),
      t_Serialize = (\<lambda>(m1, m2) buf0.
        let (r1, buf1) = t_Serialize t1 m1 buf0 in
        let (r2, buf2) = t_Serialize t2 m2 buf1 in
        (0 + r1 + r2, buf2)),
      t_Unserialize = (\<lambda>(m1, m2) buf size.
        SllN_TRAITS_MEMBER t1 m1 buf size 0 (\<lambda>x. (x, m2)) (\<lambda>len m1.
        SllN_TRAITS_MEMBER t2 m2 buf size len (\<lambda>x. (m1, x)) (\<lambda>len m2.
        Some (len, (m1, m2)))))\<rparr>"

definition S11N_TRAITS_3 ::
    "'a s11n \<Rightarrow> 'b s11n \<Rightarrow> 'c s11n
       \<Rightarrow> ('a \<times> 'b \<times> 'c) s11n" where
  "S11N_TRAITS_3 t1 t2 t3 =
     \<lparr>t_Size = (\<lambda>(m1, m2, m3).
        0 + t_Size t1 m1 + t_Size t2 m2 + t_Size t3 m3),
      t_Serialize = (\<lambda>(m1, m2, m3) buf0.
        let (r1, buf1) = t_Serialize t1 m1 buf0 in
        let (r2, buf2) = t_Serialize t2 m2 buf1 in
        let (r3, buf3) = t_Serialize t3 m3 buf2 in
        (0 + r1 + r2 + r3, buf3)),
      t_Unserialize = (\<lambda>(m1, m2, m3) buf size.
        SllN_TRAITS_MEMBER t1 m1 buf size 0 (\<lambda>x. (x, m2, m3)) (\<lambda>len m1.
        SllN_TRAITS_MEMBER t2 m2 buf size len (\<lambda>x. (m1, x, m3)) (\<lambda>len m2.
        SllN_TRAITS_MEMBER t3 m3 buf size len (\<lambda>x. (m1, m2, x)) (\<lambda>len m3.
        Some (len, (m1, m2, m3))))))\<rparr>"

definition S11N_TRAITS_4 ::
    "'a s11n \<Rightarrow> 'b s11n \<Rightarrow> 'c s11n \<Rightarrow> 'd s11n
       \<Rightarrow> ('a \<times> 'b \<times> 'c \<times> 'd) s11n" where
  "S11N_TRAITS_4 t1 t2 t3 t4 =
     \<lparr>t_Size = (\<lambda>(m1, m2, m3, m4).
        0 + t_Size t1 m1 + t_Size t2 m2 + t_Size t3 m3 + t_Size t4 m4),
      t_Serialize = (\<lambda>(m1, m2, m3, m4) buf0.
        let (r1, buf1) = t_Serialize t1 m1 buf0 in
        let (r2, buf2) = t_Serialize t2 m2 buf1 in
        let (r3, buf3) = t_Serialize t3 m3 buf2 in
        let (r4, buf4) = t_Serialize t4 m4 buf3 in
        (0 + r1 + r2 + r3 + r4, buf4)),
      t_Unserialize = (\<lambda>(m1, m2, m3, m4) buf size.
        SllN_TRAITS_MEMBER t1 m1 buf size 0 (\<lambda>x. (x, m2, m3, m4)) (\<lambda>len m1.
        SllN_TRAITS_MEMBER t2 m2 buf size len (\<lambda>x. (m1, x, m3, m4)) (\<lambda>len m2.
        SllN_TRAITS_MEMBER t3 m3 buf size len (\<lambda>x. (m1, m2, x, m4)) (\<lambda>len m3.
        SllN_TRAITS_MEMBER t4 m4 buf size len (\<lambda>x. (m1, m2, m3, x)) (\<lambda>len m4.
        Some (len, (m1, m2, m3, m4)))))))\<rparr>"

definition S11N_TRAITS_5 ::
    "'a s11n \<Rightarrow> 'b s11n \<Rightarrow> 'c s11n \<Rightarrow> 'd s11n \<Rightarrow> 'e s11n
       \<Rightarrow> ('a \<times> 'b \<times> 'c \<times> 'd \<times> 'e) s11n" where
  "S11N_TRAITS_5 t1 t2 t3 t4 t5 =
     \<lparr>t_Size = (\<lambda>(m1, m2, m3, m4, m5).
        0 + t_Size t1 m1 + t_Size t2 m2 + t_Size t3 m3 + t_Size t4 m4 + t_Size t5 m5),
      t_Serialize = (\<lambda>(m1, m2, m3, m4, m5) buf0.
        let (r1, buf1) = t_Serialize t1 m1 buf0 in
        let (r2, buf2) = t_Serialize t2 m2 buf1 in
        let (r3, buf3) = t_Serialize t3 m3 buf2 in
        let (r4, buf4) = t_Serialize t4 m4 buf3 in
        let (r5, buf5) = t_Serialize t5 m5 buf4 in
        (0 + r1 + r2 + r3 + r4 + r5, buf5)),
      t_Unserialize = (\<lambda>(m1, m2, m3, m4, m5) buf size.
        SllN_TRAITS_MEMBER t1 m1 buf size 0 (\<lambda>x. (x, m2, m3, m4, m5)) (\<lambda>len m1.
        SllN_TRAITS_MEMBER t2 m2 buf size len (\<lambda>x. (m1, x, m3, m4, m5)) (\<lambda>len m2.
        SllN_TRAITS_MEMBER t3 m3 buf size len (\<lambda>x. (m1, m2, x, m4, m5)) (\<lambda>len m3.
        SllN_TRAITS_MEMBER t4 m4 buf size len (\<lambda>x. (m1, m2, m3, x, m5)) (\<lambda>len m4.
        SllN_TRAITS_MEMBER t5 m5 buf size len (\<lambda>x. (m1, m2, m3, m4, x)) (\<lambda>len m5.
        Some (len, (m1, m2, m3, m4, m5))))))))\<rparr>"

definition S11N_TRAITS_6 ::
    "'a s11n \<Rightarrow> 'b s11n \<Rightarrow> 'c s11n \<Rightarrow> 'd s11n \<Rightarrow> 'e s11n \<Rightarrow> 'f s11n
       \<Rightarrow> ('a \<times> 'b \<times> 'c \<times> 'd \<times> 'e \<times> 'f) s11n" where
  "S11N_TRAITS_6 t1 t2 t3 t4 t5 t6 =
     \<lparr>t_Size = (\<lambda>(m1, m2, m3, m4, m5, m6).
        0 + t_Size t1 m1 + t_Size t2 m2 + t_Size t3 m3 + t_Size t4 m4 + t_Size t5 m5 +
        t_Size t6 m6),
      t_Serialize = (\<lambda>(m1, m2, m3, m4, m5, m6) buf0.
        let (r1, buf1) = t_Serialize t1 m1 buf0 in
        let (r2, buf2) = t_Serialize t2 m2 buf1 in
        let (r3, buf3) = t_Serialize t3 m3 buf2 in
        let (r4, buf4) = t_Serialize t4 m4 buf3 in
        let (r5, buf5) = t_Serialize t5 m5 buf4 in
        let (r6, buf6) = t_Serialize t6 m6 buf5 in
        (0 + r1 + r2 + r3 + r4 + r5 + r6, buf6)),
      t_Unserialize = (\<lambda>(m1, m2, m3, m4, m5, m6) buf size.
        SllN_TRAITS_MEMBER t1 m1 buf size 0 (\<lambda>x. (x, m2, m3, m4, m5, m6)) (\<lambda>len m1.
        SllN_TRAITS_MEMBER t2 m2 buf size len (\<lambda>x. (m1, x, m3, m4, m5, m6)) (\<lambda>len m2.
        SllN_TRAITS_MEMBER t3 m3 buf size len (\<lambda>x. (m1, m2, x, m4, m5, m6)) (\<lambda>len m3.
        SllN_TRAITS_MEMBER t4 m4 buf size len (\<lambda>x. (m1, m2, m3, x, m5, m6)) (\<lambda>len m4.
        SllN_TRAITS_MEMBER t5 m5 buf size len (\<lambda>x. (m1, m2, m3, m4, x, m6)) (\<lambda>len m5.
        SllN_TRAITS_MEMBER t6 m6 buf size len (\<lambda>x. (m1, m2, m3, m4, m5, x)) (\<lambda>len m6.
        Some (len, (m1, m2, m3, m4, m5, m6)))))))))\<rparr>"

definition S11N_TRAITS_7 ::
    "'a s11n \<Rightarrow> 'b s11n \<Rightarrow> 'c s11n \<Rightarrow> 'd s11n \<Rightarrow> 'e s11n \<Rightarrow> 'f s11n \<Rightarrow> 'g s11n
       \<Rightarrow> ('a \<times> 'b \<times> 'c \<times> 'd \<times> 'e \<times> 'f \<times> 'g) s11n" where
  "S11N_TRAITS_7 t1 t2 t3 t4 t5 t6 t7 =
     \<lparr>t_Size = (\<lambda>(m1, m2, m3, m4, m5, m6, m7).
        0 + t_Size t1 m1 + t_Size t2 m2 + t_Size t3 m3 + t_Size t4 m4 + t_Size t5 m5 +
        t_Size t6 m6 + t_Size t7 m7),
      t_Serialize = (\<lambda>(m1, m2, m3, m4, m5, m6, m7) buf0.
        let (r1, buf1) = t_Serialize t1 m1 buf0 in
        let (r2, buf2) = t_Serialize t2 m2 buf1 in
        let (r3, buf3) = t_Serialize t3 m3 buf2 in
        let (r4, buf4) = t_Serialize t4 m4 buf3 in
        let (r5, buf5) = t_Serialize t5 m5 buf4 in
        let (r6, buf6) = t_Serialize t6 m6 buf5 in
        let (r7, buf7) = t_Serialize t7 m7 buf6 in
        (0 + r1 + r2 + r3 + r4 + r5 + r6 + r7, buf7)),
      t_Unserialize = (\<lambda>(m1, m2, m3, m4, m5, m6, m7) buf size.
        SllN_TRAITS_MEMBER t1 m1 buf size 0 (\<lambda>x. (x, m2, m3, m4, m5, m6, m7)) (\<lambda>len m1.
        SllN_TRAITS_MEMBER t2 m2 buf size len (\<lambda>x. (m1, x, m3, m4, m5, m6, m7)) (\<lambda>len m2.
        SllN_TRAITS_MEMBER t3 m3 buf size len (\<lambda>x. (m1, m2, x, m4, m5, m6, m7)) (\<lambda>len m3.
        SllN_TRAITS_MEMBER t4 m4 buf size len (\<lambda>x. (m1, m2, m3, x, m5, m6, m7)) (\<lambda>len m4.
        SllN_TRAITS_MEMBER t5 m5 buf size len (\<lambda>x. (m1, m2, m3, m4, x, m6, m7)) (\<lambda>len m5.
        SllN_TRAITS_MEMBER t6 m6 buf size len (\<lambda>x. (m1, m2, m3, m4, m5, x, m7)) (\<lambda>len m6.
        SllN_TRAITS_MEMBER t7 m7 buf size len (\<lambda>x. (m1, m2, m3, m4, m5, m6, x)) (\<lambda>len m7.
        Some (len, (m1, m2, m3, m4, m5, m6, m7))))))))))\<rparr>"

definition S11N_TRAITS_8 ::
    "'a s11n \<Rightarrow> 'b s11n \<Rightarrow> 'c s11n \<Rightarrow> 'd s11n \<Rightarrow> 'e s11n \<Rightarrow> 'f s11n \<Rightarrow> 'g s11n \<Rightarrow> 'h s11n
       \<Rightarrow> ('a \<times> 'b \<times> 'c \<times> 'd \<times> 'e \<times> 'f \<times> 'g \<times> 'h) s11n" where
  "S11N_TRAITS_8 t1 t2 t3 t4 t5 t6 t7 t8 =
     \<lparr>t_Size = (\<lambda>(m1, m2, m3, m4, m5, m6, m7, m8).
        0 + t_Size t1 m1 + t_Size t2 m2 + t_Size t3 m3 + t_Size t4 m4 + t_Size t5 m5 +
        t_Size t6 m6 + t_Size t7 m7 + t_Size t8 m8),
      t_Serialize = (\<lambda>(m1, m2, m3, m4, m5, m6, m7, m8) buf0.
        let (r1, buf1) = t_Serialize t1 m1 buf0 in
        let (r2, buf2) = t_Serialize t2 m2 buf1 in
        let (r3, buf3) = t_Serialize t3 m3 buf2 in
        let (r4, buf4) = t_Serialize t4 m4 buf3 in
        let (r5, buf5) = t_Serialize t5 m5 buf4 in
        let (r6, buf6) = t_Serialize t6 m6 buf5 in
        let (r7, buf7) = t_Serialize t7 m7 buf6 in
        let (r8, buf8) = t_Serialize t8 m8 buf7 in
        (0 + r1 + r2 + r3 + r4 + r5 + r6 + r7 + r8, buf8)),
      t_Unserialize = (\<lambda>(m1, m2, m3, m4, m5, m6, m7, m8) buf size.
        SllN_TRAITS_MEMBER t1 m1 buf size 0 (\<lambda>x. (x, m2, m3, m4, m5, m6, m7, m8)) (\<lambda>len m1.
        SllN_TRAITS_MEMBER t2 m2 buf size len (\<lambda>x. (m1, x, m3, m4, m5, m6, m7, m8)) (\<lambda>len m2.
        SllN_TRAITS_MEMBER t3 m3 buf size len (\<lambda>x. (m1, m2, x, m4, m5, m6, m7, m8)) (\<lambda>len m3.
        SllN_TRAITS_MEMBER t4 m4 buf size len (\<lambda>x. (m1, m2, m3, x, m5, m6, m7, m8)) (\<lambda>len m4.
        SllN_TRAITS_MEMBER t5 m5 buf size len (\<lambda>x. (m1, m2, m3, m4, x, m6, m7, m8)) (\<lambda>len m5.
        SllN_TRAITS_MEMBER t6 m6 buf size len (\<lambda>x. (m1, m2, m3, m4, m5, x, m7, m8)) (\<lambda>len m6.
        SllN_TRAITS_MEMBER t7 m7 buf size len (\<lambda>x. (m1, m2, m3, m4, m5, m6, x, m8)) (\<lambda>len m7.
        SllN_TRAITS_MEMBER t8 m8 buf size len (\<lambda>x. (m1, m2, m3, m4, m5, m6, m7, x)) (\<lambda>len m8.
        Some (len, (m1, m2, m3, m4, m5, m6, m7, m8)))))))))))\<rparr>"

definition S11N_TRAITS_9 ::
    "'a s11n \<Rightarrow> 'b s11n \<Rightarrow> 'c s11n \<Rightarrow> 'd s11n \<Rightarrow> 'e s11n \<Rightarrow> 'f s11n \<Rightarrow> 'g s11n \<Rightarrow> 'h s11n \<Rightarrow> 'i s11n
       \<Rightarrow> ('a \<times> 'b \<times> 'c \<times> 'd \<times> 'e \<times> 'f \<times> 'g \<times> 'h \<times> 'i) s11n" where
  "S11N_TRAITS_9 t1 t2 t3 t4 t5 t6 t7 t8 t9 =
     \<lparr>t_Size = (\<lambda>(m1, m2, m3, m4, m5, m6, m7, m8, m9).
        0 + t_Size t1 m1 + t_Size t2 m2 + t_Size t3 m3 + t_Size t4 m4 + t_Size t5 m5 +
        t_Size t6 m6 + t_Size t7 m7 + t_Size t8 m8 + t_Size t9 m9),
      t_Serialize = (\<lambda>(m1, m2, m3, m4, m5, m6, m7, m8, m9) buf0.
        let (r1, buf1) = t_Serialize t1 m1 buf0 in
        let (r2, buf2) = t_Serialize t2 m2 buf1 in
        let (r3, buf3) = t_Serialize t3 m3 buf2 in
        let (r4, buf4) = t_Serialize t4 m4 buf3 in
        let (r5, buf5) = t_Serialize t5 m5 buf4 in
        let (r6, buf6) = t_Serialize t6 m6 buf5 in
        let (r7, buf7) = t_Serialize t7 m7 buf6 in
        let (r8, buf8) = t_Serialize t8 m8 buf7 in
        let (r9, buf9) = t_Serialize t9 m9 buf8 in
        (0 + r1 + r2 + r3 + r4 + r5 + r6 + r7 + r8 + r9, buf9)),
      t_Unserialize = (\<lambda>(m1, m2, m3, m4, m5, m6, m7, m8, m9) buf size.
        SllN_TRAITS_MEMBER t1 m1 buf size 0 (\<lambda>x. (x, m2, m3, m4, m5, m6, m7, m8, m9)) (\<lambda>len m1.
        SllN_TRAITS_MEMBER t2 m2 buf size len (\<lambda>x. (m1, x, m3, m4, m5, m6, m7, m8, m9)) (\<lambda>len m2.
        SllN_TRAITS_MEMBER t3 m3 buf size len (\<lambda>x. (m1, m2, x, m4, m5, m6, m7, m8, m9)) (\<lambda>len m3.
        SllN_TRAITS_MEMBER t4 m4 buf size len (\<lambda>x. (m1, m2, m3, x, m5, m6, m7, m8, m9)) (\<lambda>len m4.
        SllN_TRAITS_MEMBER t5 m5 buf size len (\<lambda>x. (m1, m2, m3, m4, x, m6, m7, m8, m9)) (\<lambda>len m5.
        SllN_TRAITS_MEMBER t6 m6 buf size len (\<lambda>x. (m1, m2, m3, m4, m5, x, m7, m8, m9)) (\<lambda>len m6.
        SllN_TRAITS_MEMBER t7 m7 buf size len (\<lambda>x. (m1, m2, m3, m4, m5, m6, x, m8, m9)) (\<lambda>len m7.
        SllN_TRAITS_MEMBER t8 m8 buf size len (\<lambda>x. (m1, m2, m3, m4, m5, m6, m7, x, m9)) (\<lambda>len m8.
        SllN_TRAITS_MEMBER t9 m9 buf size len (\<lambda>x. (m1, m2, m3, m4, m5, m6, m7, m8, x)) (\<lambda>len m9.
        Some (len, (m1, m2, m3, m4, m5, m6, m7, m8, m9))))))))))))\<rparr>"

text \<open>
  \<^verbatim>\<open>MSG_SllN_12\<close> ends its sum after the eleventh member: the twelfth is a statement behind
  the \<^verbatim>\<open>return\<close>.
\<close>

definition MSG_SllN_0 :: "unit s11n" where
  "MSG_SllN_0 =
     \<lparr>t_Size = (\<lambda>_. 0), t_Serialize = (\<lambda>_ buf. (0, buf)), t_Unserialize = (\<lambda>m _ _. Some (0, m))\<rparr>"

definition MSG_SllN_1 :: "'a s11n \<Rightarrow> 'a s11n" where
  "MSG_SllN_1 t1 =
     \<lparr>t_Size = (\<lambda>m1. t_Size t1 m1),
      t_Serialize = (\<lambda>m1 buf. t_Serialize t1 m1 buf),
      t_Unserialize = (\<lambda>m1 buf size. t_Unserialize t1 m1 buf size)\<rparr>"

definition MSG_SllN_2 ::
    "'a s11n \<Rightarrow> 'b s11n
       \<Rightarrow> ('a \<times> 'b) s11n" where
  "MSG_SllN_2 t1 t2 =
     \<lparr>t_Size = (\<lambda>(m1, m2).
        t_Size t1 m1 + t_Size t2 m2),
      t_Serialize = (\<lambda>(m1, m2) buf0.
        let (r1, buf1) = t_Serialize t1 m1 buf0 in
        let (r2, buf2) = t_Serialize t2 m2 buf1 in
        (0 + r1 + r2, buf2)),
      t_Unserialize = (\<lambda>(m1, m2) buf size.
        SllN_TRAITS_MEMBER t1 m1 buf size 0 (\<lambda>x. (x, m2)) (\<lambda>len m1.
        SllN_TRAITS_MEMBER t2 m2 buf size len (\<lambda>x. (m1, x)) (\<lambda>len m2.
        Some (len, (m1, m2)))))\<rparr>"

definition MSG_SllN_3 ::
    "'a s11n \<Rightarrow> 'b s11n \<Rightarrow> 'c s11n
       \<Rightarrow> ('a \<times> 'b \<times> 'c) s11n" where
  "MSG_SllN_3 t1 t2 t3 =
     \<lparr>t_Size = (\<lambda>(m1, m2, m3).
        t_Size t1 m1 + t_Size t2 m2 + t_Size t3 m3),
      t_Serialize = (\<lambda>(m1, m2, m3) buf0.
        let (r1, buf1) = t_Serialize t1 m1 buf0 in
        let (r2, buf2) = t_Serialize t2 m2 buf1 in
        let (r3, buf3) = t_Serialize t3 m3 buf2 in
        (0 + r1 + r2 + r3, buf3)),
      t_Unserialize = (\<lambda>(m1, m2, m3) buf size.
        SllN_TRAITS_MEMBER t1 m1 buf size 0 (\<lambda>x. (x, m2, m3)) (\<lambda>len m1.
        SllN_TRAITS_MEMBER t2 m2 buf size len (\<lambda>x. (m1, x, m3)) (\<lambda>len m2.
        SllN_TRAITS_MEMBER t3 m3 buf size len (\<lambda>x. (m1, m2, x)) (\<lambda>len m3.
        Some (len, (m1, m2, m3))))))\<rparr>"

definition MSG_SllN_4 ::
    "'a s11n \<Rightarrow> 'b s11n \<Rightarrow> 'c s11n \<Rightarrow> 'd s11n
       \<Rightarrow> ('a \<times> 'b \<times> 'c \<times> 'd) s11n" where
  "MSG_SllN_4 t1 t2 t3 t4 =
     \<lparr>t_Size = (\<lambda>(m1, m2, m3, m4).
        t_Size t1 m1 + t_Size t2 m2 + t_Size t3 m3 + t_Size t4 m4),
      t_Serialize = (\<lambda>(m1, m2, m3, m4) buf0.
        let (r1, buf1) = t_Serialize t1 m1 buf0 in
        let (r2, buf2) = t_Serialize t2 m2 buf1 in
        let (r3, buf3) = t_Serialize t3 m3 buf2 in
        let (r4, buf4) = t_Serialize t4 m4 buf3 in
        (0 + r1 + r2 + r3 + r4, buf4)),
      t_Unserialize = (\<lambda>(m1, m2, m3, m4) buf size.
        SllN_TRAITS_MEMBER t1 m1 buf size 0 (\<lambda>x. (x, m2, m3, m4)) (\<lambda>len m1.
        SllN_TRAITS_MEMBER t2 m2 buf size len (\<lambda>x. (m1, x, m3, m4)) (\<lambda>len m2.
        SllN_TRAITS_MEMBER t3 m3 buf size len (\<lambda>x. (m1, m2, x, m4)) (\<lambda>len m3.
        SllN_TRAITS_MEMBER t4 m4 buf size len (\<lambda>x. (m1, m2, m3, x)) (\<lambda>len m4.
        Some (len, (m1, m2, m3, m4)))))))\<rparr>"

definition MSG_SllN_5 ::
    "'a s11n \<Rightarrow> 'b s11n \<Rightarrow> 'c s11n \<Rightarrow> 'd s11n \<Rightarrow> 'e s11n
       \<Rightarrow> ('a \<times> 'b \<times> 'c \<times> 'd \<times> 'e) s11n" where
  "MSG_SllN_5 t1 t2 t3 t4 t5 =
     \<lparr>t_Size = (\<lambda>(m1, m2, m3, m4, m5).
        t_Size t1 m1 + t_Size t2 m2 + t_Size t3 m3 + t_Size t4 m4 + t_Size t5 m5),
      t_Serialize = (\<lambda>(m1, m2, m3, m4, m5) buf0.
        let (r1, buf1) = t_Serialize t1 m1 buf0 in
        let (r2, buf2) = t_Serialize t2 m2 buf1 in
        let (r3, buf3) = t_Serialize t3 m3 buf2 in
        let (r4, buf4) = t_Serialize t4 m4 buf3 in
        let (r5, buf5) = t_Serialize t5 m5 buf4 in
        (0 + r1 + r2 + r3 + r4 + r5, buf5)),
      t_Unserialize = (\<lambda>(m1, m2, m3, m4, m5) buf size.
        SllN_TRAITS_MEMBER t1 m1 buf size 0 (\<lambda>x. (x, m2, m3, m4, m5)) (\<lambda>len m1.
        SllN_TRAITS_MEMBER t2 m2 buf size len (\<lambda>x. (m1, x, m3, m4, m5)) (\<lambda>len m2.
        SllN_TRAITS_MEMBER t3 m3 buf size len (\<lambda>x. (m1, m2, x, m4, m5)) (\<lambda>len m3.
        SllN_TRAITS_MEMBER t4 m4 buf size len (\<lambda>x. (m1, m2, m3, x, m5)) (\<lambda>len m4.
        SllN_TRAITS_MEMBER t5 m5 buf size len (\<lambda>x. (m1, m2, m3, m4, x)) (\<lambda>len m5.
        Some (len, (m1, m2, m3, m4, m5))))))))\<rparr>"

definition MSG_SllN_6 ::
    "'a s11n \<Rightarrow> 'b s11n \<Rightarrow> 'c s11n \<Rightarrow> 'd s11n \<Rightarrow> 'e s11n \<Rightarrow> 'f s11n
       \<Rightarrow> ('a \<times> 'b \<times> 'c \<times> 'd \<times> 'e \<times> 'f) s11n" where
  "MSG_SllN_6 t1 t2 t3 t4 t5 t6 =
     \<lparr>t_Size = (\<lambda>(m1, m2, m3, m4, m5, m6).
        t_Size t1 m1 + t_Size t2 m2 + t_Size t3 m3 + t_Size t4 m4 + t_Size t5 m5 +
        t_Size t6 m6),
      t_Serialize = (\<lambda>(m1, m2, m3, m4, m5, m6) buf0.
        let (r1, buf1) = t_Serialize t1 m1 buf0 in
        let (r2, buf2) = t_Serialize t2 m2 buf1 in
        let (r3, buf3) = t_Serialize t3 m3 buf2 in
        let (r4, buf4) = t_Serialize t4 m4 buf3 in
        let (r5, buf5) = t_Serialize t5 m5 buf4 in
        let (r6, buf6) = t_Serialize t6 m6 buf5 in
        (0 + r1 + r2 + r3 + r4 + r5 + r6, buf6)),
      t_Unserialize = (\<lambda>(m1, m2, m3, m4, m5, m6) buf size.
        SllN_TRAITS_MEMBER t1 m1 buf size 0 (\<lambda>x. (x, m2, m3, m4, m5, m6)) (\<lambda>len m1.
        SllN_TRAITS_MEMBER t2 m2 buf size len (\<lambda>x. (m1, x, m3, m4, m5, m6)) (\<lambda>len m2.
        SllN_TRAITS_MEMBER t3 m3 buf size len (\<lambda>x. (m1, m2, x, m4, m5, m6)) (\<lambda>len m3.
        SllN_TRAITS_MEMBER t4 m4 buf size len (\<lambda>x. (m1, m2, m3, x, m5, m6)) (\<lambda>len m4.
        SllN_TRAITS_MEMBER t5 m5 buf size len (\<lambda>x. (m1, m2, m3, m4, x, m6)) (\<lambda>len m5.
        SllN_TRAITS_MEMBER t6 m6 buf size len (\<lambda>x. (m1, m2, m3, m4, m5, x)) (\<lambda>len m6.
        Some (len, (m1, m2, m3, m4, m5, m6)))))))))\<rparr>"

definition MSG_SllN_7 ::
    "'a s11n \<Rightarrow> 'b s11n \<Rightarrow> 'c s11n \<Rightarrow> 'd s11n \<Rightarrow> 'e s11n \<Rightarrow> 'f s11n \<Rightarrow> 'g s11n
       \<Rightarrow> ('a \<times> 'b \<times> 'c \<times> 'd \<times> 'e \<times> 'f \<times> 'g) s11n" where
  "MSG_SllN_7 t1 t2 t3 t4 t5 t6 t7 =
     \<lparr>t_Size = (\<lambda>(m1, m2, m3, m4, m5, m6, m7).
        t_Size t1 m1 + t_Size t2 m2 + t_Size t3 m3 + t_Size t4 m4 + t_Size t5 m5 +
        t_Size t6 m6 + t_Size t7 m7),
      t_Serialize = (\<lambda>(m1, m2, m3, m4, m5, m6, m7) buf0.
        let (r1, buf1) = t_Serialize t1 m1 buf0 in
        let (r2, buf2) = t_Serialize t2 m2 buf1 in
        let (r3, buf3) = t_Serialize t3 m3 buf2 in
        let (r4, buf4) = t_Serialize t4 m4 buf3 in
        let (r5, buf5) = t_Serialize t5 m5 buf4 in
        let (r6, buf6) = t_Serialize t6 m6 buf5 in
        let (r7, buf7) = t_Serialize t7 m7 buf6 in
        (0 + r1 + r2 + r3 + r4 + r5 + r6 + r7, buf7)),
      t_Unserialize = (\<lambda>(m1, m2, m3, m4, m5, m6, m7) buf size.
        SllN_TRAITS_MEMBER t1 m1 buf size 0 (\<lambda>x. (x, m2, m3, m4, m5, m6, m7)) (\<lambda>len m1.
        SllN_TRAITS_MEMBER t2 m2 buf size len (\<lambda>x. (m1, x, m3, m4, m5, m6, m7)) (\<lambda>len m2.
        SllN_TRAITS_MEMBER t3 m3 buf size len (\<lambda>x. (m1, m2, x, m4, m5, m6, m7)) (\<lambda>len m3.
        SllN_TRAITS_MEMBER t4 m4 buf size len (\<lambda>x. (m1, m2, m3, x, m5, m6, m7)) (\<lambda>len m4.
        SllN_TRAITS_MEMBER t5 m5 buf size len (\<lambda>x. (m1, m2, m3, m4, x, m6, m7)) (\<lambda>len m5.
        SllN_TRAITS_MEMBER t6 m6 buf size len (\<lambda>x. (m1, m2, m3, m4, m5, x, m7)) (\<lambda>len m6.
        SllN_TRAITS_MEMBER t7 m7 buf size len (\<lambda>x. (m1, m2, m3, m4, m5, m6, x)) (\<lambda>len m7.
        Some (len, (m1, m2, m3, m4, m5, m6, m7))))))))))\<rparr>"

definition MSG_SllN_8 ::
    "'a s11n \<Rightarrow> 'b s11n \<Rightarrow> 'c s11n \<Rightarrow> 'd s11n \<Rightarrow> 'e s11n \<Rightarrow> 'f s11n \<Rightarrow> 'g s11n \<Rightarrow> 'h s11n
       \<Rightarrow> ('a \<times> 'b \<times> 'c \<times> 'd \<times> 'e \<times> 'f \<times> 'g \<times> 'h) s11n" where
  "MSG_SllN_8 t1 t2 t3 t4 t5 t6 t7 t8 =
     \<lparr>t_Size = (\<lambda>(m1, m2, m3, m4, m5, m6, m7, m8).
        t_Size t1 m1 + t_Size t2 m2 + t_Size t3 m3 + t_Size t4 m4 + t_Size t5 m5 +
        t_Size t6 m6 + t_Size t7 m7 + t_Size t8 m8),
      t_Serialize = (\<lambda>(m1, m2, m3, m4, m5, m6, m7, m8) buf0.
        let (r1, buf1) = t_Serialize t1 m1 buf0 in
        let (r2, buf2) = t_Serialize t2 m2 buf1 in
        let (r3, buf3) = t_Serialize t3 m3 buf2 in
        let (r4, buf4) = t_Serialize t4 m4 buf3 in
        let (r5, buf5) = t_Serialize t5 m5 buf4 in
        let (r6, buf6) = t_Serialize t6 m6 buf5 in
        let (r7, buf7) = t_Serialize t7 m7 buf6 in
        let (r8, buf8) = t_Serialize t8 m8 buf7 in
        (0 + r1 + r2 + r3 + r4 + r5 + r6 + r7 + r8, buf8)),
      t_Unserialize = (\<lambda>(m1, m2, m3, m4, m5, m6, m7, m8) buf size.
        SllN_TRAITS_MEMBER t1 m1 buf size 0 (\<lambda>x. (x, m2, m3, m4, m5, m6, m7, m8)) (\<lambda>len m1.
        SllN_TRAITS_MEMBER t2 m2 buf size len (\<lambda>x. (m1, x, m3, m4, m5, m6, m7, m8)) (\<lambda>len m2.
        SllN_TRAITS_MEMBER t3 m3 buf size len (\<lambda>x. (m1, m2, x, m4, m5, m6, m7, m8)) (\<lambda>len m3.
        SllN_TRAITS_MEMBER t4 m4 buf size len (\<lambda>x. (m1, m2, m3, x, m5, m6, m7, m8)) (\<lambda>len m4.
        SllN_TRAITS_MEMBER t5 m5 buf size len (\<lambda>x. (m1, m2, m3, m4, x, m6, m7, m8)) (\<lambda>len m5.
        SllN_TRAITS_MEMBER t6 m6 buf size len (\<lambda>x. (m1, m2, m3, m4, m5, x, m7, m8)) (\<lambda>len m6.
        SllN_TRAITS_MEMBER t7 m7 buf size len (\<lambda>x. (m1, m2, m3, m4, m5, m6, x, m8)) (\<lambda>len m7.
        SllN_TRAITS_MEMBER t8 m8 buf size len (\<lambda>x. (m1, m2, m3, m4, m5, m6, m7, x)) (\<lambda>len m8.
        Some (len, (m1, m2, m3, m4, m5, m6, m7, m8)))))))))))\<rparr>"

definition MSG_SllN_9 ::
    "'a s11n \<Rightarrow> 'b s11n \<Rightarrow> 'c s11n \<Rightarrow> 'd s11n \<Rightarrow> 'e s11n \<Rightarrow> 'f s11n \<Rightarrow> 'g s11n \<Rightarrow> 'h s11n \<Rightarrow> 'i s11n
       \<Rightarrow> ('a \<times> 'b \<times> 'c \<times> 'd \<times> 'e \<times> 'f \<times> 'g \<times> 'h \<times> 'i) s11n" where
  "MSG_SllN_9 t1 t2 t3 t4 t5 t6 t7 t8 t9 =
     \<lparr>t_Size = (\<lambda>(m1, m2, m3, m4, m5, m6, m7, m8, m9).
        t_Size t1 m1 + t_Size t2 m2 + t_Size t3 m3 + t_Size t4 m4 + t_Size t5 m5 +
        t_Size t6 m6 + t_Size t7 m7 + t_Size t8 m8 + t_Size t9 m9),
      t_Serialize = (\<lambda>(m1, m2, m3, m4, m5, m6, m7, m8, m9) buf0.
        let (r1, buf1) = t_Serialize t1 m1 buf0 in
        let (r2, buf2) = t_Serialize t2 m2 buf1 in
        let (r3, buf3) = t_Serialize t3 m3 buf2 in
        let (r4, buf4) = t_Serialize t4 m4 buf3 in
        let (r5, buf5) = t_Serialize t5 m5 buf4 in
        let (r6, buf6) = t_Serialize t6 m6 buf5 in
        let (r7, buf7) = t_Serialize t7 m7 buf6 in
        let (r8, buf8) = t_Serialize t8 m8 buf7 in
        let (r9, buf9) = t_Serialize t9 m9 buf8 in
        (0 + r1 + r2 + r3 + r4 + r5 + r6 + r7 + r8 + r9, buf9)),
      t_Unserialize = (\<lambda>(m1, m2, m3, m4, m5, m6, m7, m8, m9) buf size.
        SllN_TRAITS_MEMBER t1 m1 buf size 0 (\<lambda>x. (x, m2, m3, m4, m5, m6, m7, m8, m9)) (\<lambda>len m1.
        SllN_TRAITS_MEMBER t2 m2 buf size len (\<lambda>x. (m1, x, m3, m4, m5, m6, m7, m8, m9)) (\<lambda>len m2.
        SllN_TRAITS_MEMBER t3 m3 buf size len (\<lambda>x. (m1, m2, x, m4, m5, m6, m7, m8, m9)) (\<lambda>len m3.
        SllN_TRAITS_MEMBER t4 m4 buf size len (\<lambda>x. (m1, m2, m3, x, m5, m6, m7, m8, m9)) (\<lambda>len m4.
        SllN_TRAITS_MEMBER t5 m5 buf size len (\<lambda>x. (m1, m2, m3, m4, x, m6, m7, m8, m9)) (\<lambda>len m5.
        SllN_TRAITS_MEMBER t6 m6 buf size len (\<lambda>x. (m1, m2, m3, m4, m5, x, m7, m8, m9)) (\<lambda>len m6.
        SllN_TRAITS_MEMBER t7 m7 buf size len (\<lambda>x. (m1, m2, m3, m4, m5, m6, x, m8, m9)) (\<lambda>len m7.
        SllN_TRAITS_MEMBER t8 m8 buf size len (\<lambda>x. (m1, m2, m3, m4, m5, m6, m7, x, m9)) (\<lambda>len m8.
        SllN_TRAITS_MEMBER t9 m9 buf size len (\<lambda>x. (m1, m2, m3, m4, m5, m6, m7, m8, x)) (\<lambda>len m9.
        Some (len, (m1, m2, m3, m4, m5, m6, m7, m8, m9))))))))))))\<rparr>"

definition MSG_SllN_10 ::
    "'a s11n \<Rightarrow> 'b s11n \<Rightarrow> 'c s11n \<Rightarrow> 'd s11n \<Rightarrow> 'e s11n \<Rightarrow> 'f s11n \<Rightarrow> 'g s11n \<Rightarrow> 'h s11n \<Rightarrow> 'i s11n \<Rightarrow> 'j s11n
       \<Rightarrow> ('a \<times> 'b \<times> 'c \<times> 'd \<times> 'e \<times> 'f \<times> 'g \<times> 'h \<times> 'i \<times> 'j) s11n" where
  "MSG_SllN_10 t1 t2 t3 t4 t5 t6 t7 t8 t9 t10 =
     \<lparr>t_Size = (\<lambda>(m1, m2, m3, m4, m5, m6, m7, m8, m9, m10).
        t_Size t1 m1 + t_Size t2 m2 + t_Size t3 m3 + t_Size t4 m4 + t_Size t5 m5 +
        t_Size t6 m6 + t_Size t7 m7 + t_Size t8 m8 + t_Size t9 m9 + t_Size t10 m10),
      t_Serialize = (\<lambda>(m1, m2, m3, m4, m5, m6, m7, m8, m9, m10) buf0.
        let (r1, buf1) = t_Serialize t1 m1 buf0 in
        let (r2, buf2) = t_Serialize t2 m2 buf1 in
        let (r3, buf3) = t_Serialize t3 m3 buf2 in
        let (r4, buf4) = t_Serialize t4 m4 buf3 in
        let (r5, buf5) = t_Serialize t5 m5 buf4 in
        let (r6, buf6) = t_Serialize t6 m6 buf5 in
        let (r7, buf7) = t_Serialize t7 m7 buf6 in
        let (r8, buf8) = t_Serialize t8 m8 buf7 in
        let (r9, buf9) = t_Serialize t9 m9 buf8 in
        let (r10, buf10) = t_Serialize t10 m10 buf9 in
        (0 + r1 + r2 + r3 + r4 + r5 + r6 + r7 + r8 + r9 + r10, buf10)),
      t_Unserialize = (\<lambda>(m1, m2, m3, m4, m5, m6, m7, m8, m9, m10) buf size.
        SllN_TRAITS_MEMBER t1 m1 buf size 0 (\<lambda>x. (x, m2, m3, m4, m5, m6, m7, m8, m9, m10)) (\<lambda>len m1.
        SllN_TRAITS_MEMBER t2 m2 buf size len (\<lambda>x. (m1, x, m3, m4, m5, m6, m7, m8, m9, m10)) (\<lambda>len m2.
        SllN_TRAITS_MEMBER t3 m3 buf size len (\<lambda>x. (m1, m2, x, m4, m5, m6, m7, m8, m9, m10)) (\<lambda>len m3.
        SllN_TRAITS_MEMBER t4 m4 buf size len (\<lambda>x. (m1, m2, m3, x, m5, m6, m7, m8, m9, m10)) (\<lambda>len m4.
        SllN_TRAITS_MEMBER t5 m5 buf size len (\<lambda>x. (m1, m2, m3, m4, x, m6, m7, m8, m9, m10)) (\<lambda>len m5.
        SllN_TRAITS_MEMBER t6 m6 buf size len (\<lambda>x. (m1, m2, m3, m4, m5, x, m7, m8, m9, m10)) (\<lambda>len m6.
        SllN_TRAITS_MEMBER t7 m7 buf size len (\<lambda>x. (m1, m2, m3, m4, m5, m6, x, m8, m9, m10)) (\<lambda>len m7.
        SllN_TRAITS_MEMBER t8 m8 buf size len (\<lambda>x. (m1, m2, m3, m4, m5, m6, m7, x, m9, m10)) (\<lambda>len m8.
        SllN_TRAITS_MEMBER t9 m9 buf size len (\<lambda>x. (m1, m2, m3, m4, m5, m6, m7, m8, x, m10)) (\<lambda>len m9.
        SllN_TRAITS_MEMBER t10 m10 buf size len (\<lambda>x. (m1, m2, m3, m4, m5, m6, m7, m8, m9, x)) (\<lambda>len m10.
        Some (len, (m1, m2, m3, m4, m5, m6, m7, m8, m9, m10)))))))))))))\<rparr>"

definition MSG_SllN_11 ::
    "'a s11n \<Rightarrow> 'b s11n \<Rightarrow> 'c s11n \<Rightarrow> 'd s11n \<Rightarrow> 'e s11n \<Rightarrow> 'f s11n \<Rightarrow> 'g s11n \<Rightarrow> 'h s11n \<Rightarrow> 'i s11n \<Rightarrow> 'j s11n \<Rightarrow> 'k s11n
       \<Rightarrow> ('a \<times> 'b \<times> 'c \<times> 'd \<times> 'e \<times> 'f \<times> 'g \<times> 'h \<times> 'i \<times> 'j \<times> 'k) s11n" where
  "MSG_SllN_11 t1 t2 t3 t4 t5 t6 t7 t8 t9 t10 t11 =
     \<lparr>t_Size = (\<lambda>(m1, m2, m3, m4, m5, m6, m7, m8, m9, m10, m11).
        t_Size t1 m1 + t_Size t2 m2 + t_Size t3 m3 + t_Size t4 m4 + t_Size t5 m5 +
        t_Size t6 m6 + t_Size t7 m7 + t_Size t8 m8 + t_Size t9 m9 + t_Size t10 m10 +
        t_Size t11 m11),
      t_Serialize = (\<lambda>(m1, m2, m3, m4, m5, m6, m7, m8, m9, m10, m11) buf0.
        let (r1, buf1) = t_Serialize t1 m1 buf0 in
        let (r2, buf2) = t_Serialize t2 m2 buf1 in
        let (r3, buf3) = t_Serialize t3 m3 buf2 in
        let (r4, buf4) = t_Serialize t4 m4 buf3 in
        let (r5, buf5) = t_Serialize t5 m5 buf4 in
        let (r6, buf6) = t_Serialize t6 m6 buf5 in
        let (r7, buf7) = t_Serialize t7 m7 buf6 in
        let (r8, buf8) = t_Serialize t8 m8 buf7 in
        let (r9, buf9) = t_Serialize t9 m9 buf8 in
        let (r10, buf10) = t_Serialize t10 m10 buf9 in
        let (r11, buf11) = t_Serialize t11 m11 buf10 in
        (0 + r1 + r2 + r3 + r4 + r5 + r6 + r7 + r8 + r9 + r10 + r11, buf11)),
      t_Unserialize = (\<lambda>(m1, m2, m3, m4, m5, m6, m7, m8, m9, m10, m11) buf size.
        SllN_TRAITS_MEMBER t1 m1 buf size 0 (\<lambda>x. (x, m2, m3, m4, m5, m6, m7, m8, m9, m10, m11)) (\<lambda>len m1.
        SllN_TRAITS_MEMBER t2 m2 buf size len (\<lambda>x. (m1, x, m3, m4, m5, m6, m7, m8, m9, m10, m11)) (\<lambda>len m2.
        SllN_TRAITS_MEMBER t3 m3 buf size len (\<lambda>x. (m1, m2, x, m4, m5, m6, m7, m8, m9, m10, m11)) (\<lambda>len m3.
        SllN_TRAITS_MEMBER t4 m4 buf size len (\<lambda>x. (m1, m2, m3, x, m5, m6, m7, m8, m9, m10, m11)) (\<lambda>len m4.
        SllN_TRAITS_MEMBER t5 m5 buf size len (\<lambda>x. (m1, m2, m3, m4, x, m6, m7, m8, m9, m10, m11)) (\<lambda>len m5.
        SllN_TRAITS_MEMBER t6 m6 buf size len (\<lambda>x. (m1, m2, m3, m4, m5, x, m7, m8, m9, m10, m11)) (\<lambda>len m6.
        SllN_TRAITS_MEMBER t7 m7 buf size len (\<lambda>x. (m1, m2, m3, m4, m5, m6, x, m8, m9, m10, m11)) (\<lambda>len m7.
        SllN_TRAITS_MEMBER t8 m8 buf size len (\<lambda>x. (m1, m2, m3, m4, m5, m6, m7, x, m9, m10, m11)) (\<lambda>len m8.
        SllN_TRAITS_MEMBER t9 m9 buf size len (\<lambda>x. (m1, m2, m3, m4, m5, m6, m7, m8, x, m10, m11)) (\<lambda>len m9.
        SllN_TRAITS_MEMBER t10 m10 buf size len (\<lambda>x. (m1, m2, m3, m4, m5, m6, m7, m8, m9, x, m11)) (\<lambda>len m10.
        SllN_TRAITS_MEMBER t11 m11 buf size len (\<lambda>x. (m1, m2, m3, m4, m5, m6, m7, m8, m9, m10, x)) (\<lambda>len m11.
        Some (len, (m1, m2, m3, m4, m5, m6, m7, m8, m9, m10, m11))))))))))))))\<rparr>"

definition MSG_SllN_12 ::
    "'a s11n \<Rightarrow> 'b s11n \<Rightarrow> 'c s11n \<Rightarrow> 'd s11n \<Rightarrow> 'e s11n \<Rightarrow> 'f s11n \<Rightarrow> 'g s11n \<Rightarrow> 'h s11n \<Rightarrow> 'i s11n \<Rightarrow> 'j s11n \<Rightarrow> 'k s11n \<Rightarrow> 'l s11n
       \<Rightarrow> ('a \<times> 'b \<times> 'c \<times> 'd \<times> 'e \<times> 'f \<times> 'g \<times> 'h \<times> 'i \<times> 'j \<times> 'k \<times> 'l) s11n" where
  "MSG_SllN_12 t1 t2 t3 t4 t5 t6 t7 t8 t9 t10 t11 t12 =
     \<lparr>t_Size = (\<lambda>(m1, m2, m3, m4, m5, m6, m7, m8, m9, m10, m11, m12).
        t_Size t1 m1 + t_Size t2 m2 + t_Size t3 m3 + t_Size t4 m4 + t_Size t5 m5 +
        t_Size t6 m6 + t_Size t7 m7 + t_Size t8 m8 + t_Size t9 m9 + t_Size t10 m10 +
        t_Size t11 m11),
      t_Serialize = (\<lambda>(m1, m2, m3, m4, m5, m6, m7, m8, m9, m10, m11, m12) buf0.
        let (r1, buf1) = t_Serialize t1 m1 buf0 in
        let (r2, buf2) = t_Serialize t2 m2 buf1 in
        let (r3, buf3) = t_Serialize t3 m3 buf2 in
        let (r4, buf4) = t_Serialize t4 m4 buf3 in
        let (r5, buf5) = t_Serialize t5 m5 buf4 in
        let (r6, buf6) = t_Serialize t6 m6 buf5 in
        let (r7, buf7) = t_Serialize t7 m7 buf6 in
        let (r8, buf8) = t_Serialize t8 m8 buf7 in
        let (r9, buf9) = t_Serialize t9 m9 buf8 in
        let (r10, buf10) = t_Serialize t10 m10 buf9 in
        let (r11, buf11) = t_Serialize t11 m11 buf10 in
        let (r12, buf12) = t_Serialize t12 m12 buf11 in
        (0 + r1 + r2 + r3 + r4 + r5 + r6 + r7 + r8 + r9 + r10 + r11 + r12, buf12)),
      t_Unserialize = (\<lambda>(m1, m2, m3, m4, m5, m6, m7, m8, m9, m10, m11, m12) buf size.
        SllN_TRAITS_MEMBER t1 m1 buf size 0 (\<lambda>x. (x, m2, m3, m4, m5, m6, m7, m8, m9, m10, m11, m12)) (\<lambda>len m1.
        SllN_TRAITS_MEMBER t2 m2 buf size len (\<lambda>x. (m1, x, m3, m4, m5, m6, m7, m8, m9, m10, m11, m12)) (\<lambda>len m2.
        SllN_TRAITS_MEMBER t3 m3 buf size len (\<lambda>x. (m1, m2, x, m4, m5, m6, m7, m8, m9, m10, m11, m12)) (\<lambda>len m3.
        SllN_TRAITS_MEMBER t4 m4 buf size len (\<lambda>x. (m1, m2, m3, x, m5, m6, m7, m8, m9, m10, m11, m12)) (\<lambda>len m4.
        SllN_TRAITS_MEMBER t5 m5 buf size len (\<lambda>x. (m1, m2, m3, m4, x, m6, m7, m8, m9, m10, m11, m12)) (\<lambda>len m5.
        SllN_TRAITS_MEMBER t6 m6 buf size len (\<lambda>x. (m1, m2, m3, m4, m5, x, m7, m8, m9, m10, m11, m12)) (\<lambda>len m6.
        SllN_TRAITS_MEMBER t7 m7 buf size len (\<lambda>x. (m1, m2, m3, m4, m5, m6, x, m8, m9, m10, m11, m12)) (\<lambda>len m7.
        SllN_TRAITS_MEMBER t8 m8 buf size len (\<lambda>x. (m1, m2, m3, m4, m5, m6, m7, x, m9, m10, m11, m12)) (\<lambda>len m8.
        SllN_TRAITS_MEMBER t9 m9 buf size len (\<lambda>x. (m1, m2, m3, m4, m5, m6, m7, m8, x, m10, m11, m12)) (\<lambda>len m9.
        SllN_TRAITS_MEMBER t10 m10 buf size len (\<lambda>x. (m1, m2, m3, m4, m5, m6, m7, m8, m9, x, m11, m12)) (\<lambda>len m10.
        SllN_TRAITS_MEMBER t11 m11 buf size len (\<lambda>x. (m1, m2, m3, m4, m5, m6, m7, m8, m9, m10, x, m12)) (\<lambda>len m11.
        SllN_TRAITS_MEMBER t12 m12 buf size len (\<lambda>x. (m1, m2, m3, m4, m5, m6, m7, m8, m9, m10, m11, x)) (\<lambda>len m12.
        Some (len, (m1, m2, m3, m4, m5, m6, m7, m8, m9, m10, m11, m12)))))))))))))))\<rparr>"

section \<open>Message headers\<close>

text \<open>\<^verbatim>\<open>MESSAGE_HEAD_DEF(msgid)\<close>: the header the typed send functions put in front.\<close>

definition BuildHeader :: "u8 \<Rightarrow> u8 list \<Rightarrow> u8 list" where
  "BuildHeader msgid buffer = [0, 0, 0xFF, msgid]"

definition FixHeader :: "u8 list \<Rightarrow> u8 list" where
  "FixHeader buffer =
     (if length buffer < 4 then buffer
      else overwrite buffer 0 (obj_bytes (of_nat (length buffer - 4) :: u16)))"

section \<open>The contract of a serialised type\<close>

text \<open>
  The interface the templates rely on: \<open>Serialize\<close> appends the encoding of a valid value,
  and \<open>Unserialize\<close> gets it back from a memory that starts with it, whatever follows and
  whatever the instance held before.
\<close>

locale s11n_codec =
  fixes t :: "'a s11n" and ok :: "'a \<Rightarrow> bool" and enc :: "'a \<Rightarrow> u8 list"
  assumes written: "ok x \<Longrightarrow> snd (t_Serialize t x buf) = buf @ enc x"
    and read_back: "ok x \<Longrightarrow> length (enc x) < 2 ^ 32 - 1 \<Longrightarrow> length (enc x) \<le> unat sz \<Longrightarrow>
      t_Unserialize t m (enc x @ rest) sz = Some (of_nat (length (enc x)), x)"

text \<open>The types whose \<open>Size\<close> is the length of the encoding.\<close>

locale s11n_sized = s11n_codec +
  assumes sized: "ok x \<Longrightarrow> t_Size t x = of_nat (length (enc x))"

text \<open>
  Safety: over any memory that has the announced size, \<open>Unserialize\<close> reads nothing behind
  it and either fails or reports at most this size.
\<close>

definition consumes :: "u32 \<Rightarrow> (u32 \<times> 'a) option \<Rightarrow> bool" where
  "consumes sz res = (case res of None \<Rightarrow> False | Some (r, m) \<Rightarrow> r = - 1 \<or> r \<le> sz)"

lemma consumesI [intro]: "r = - 1 \<or> r \<le> sz \<Longrightarrow> consumes sz (Some (r, m))"
  by (simp add: consumes_def)

lemma consumesE [elim]:
  assumes "consumes sz res"
  obtains r m where "res = Some (r, m)" "r = - 1 \<or> r \<le> sz"
  using assms by (auto simp: consumes_def split: option.splits)

locale s11n_safe =
  fixes t :: "'a s11n"
  assumes safe: "unat sz \<le> length buf \<Longrightarrow> consumes sz (t_Unserialize t m buf sz)"

section \<open>Basic types\<close>

lemma integer_codec:
  assumes "8 dvd LENGTH('a::len)" and "LENGTH('a) \<le> 64"
  shows "s11n_sized (S11NTraits_integer :: 'a word s11n) (\<lambda>_. True) obj_bytes"
proof
  fix x m :: "'a word" and sz :: u32 and buf rest :: "u8 list"
  show "snd (t_Serialize S11NTraits_integer x buf) = buf @ obj_bytes x"
    by (simp add: S11NTraits_integer_def)
  show "t_Size S11NTraits_integer x = of_nat (length (obj_bytes x))"
    by (simp add: S11NTraits_integer_def size_of_def)
  assume "length (obj_bytes x) \<le> unat sz"
  then show "t_Unserialize S11NTraits_integer m (obj_bytes x @ rest) sz
      = Some (of_nat (length (obj_bytes x)), x)"
    using assms by (simp add: S11NTraits_integer_def size_of_def mem_read_def obj_val_obj_bytes)
qed

lemma integer_safe: "s11n_safe (S11NTraits_integer :: ('a::len) word s11n)"
proof
  fix sz :: u32 and buf :: "u8 list" and m :: "'a word"
  assume le: "unat sz \<le> length buf"
  show "consumes sz (t_Unserialize S11NTraits_integer m buf sz)"
  proof (cases "size_of TYPE('a) > unat sz")
    case False
    then have s: "size_of TYPE('a) \<le> unat sz" by simp
    then have "of_nat (size_of TYPE('a)) \<le> sz"
      by (metis le_unat_uoi word_le_nat_alt)
    then show ?thesis
      using s le by (auto simp: S11NTraits_integer_def mem_read_def)
  qed (auto simp: S11NTraits_integer_def)
qed

lemma string_codec: "s11n_sized S11NTraits_string (\<lambda>s. length s < 2 ^ 16)
  (\<lambda>s. obj_bytes (of_nat (length s) :: u16) @ s)"
proof
  fix x m buf rest :: "u8 list" and sz :: u32
  assume x: "length x < 2 ^ 16"
  have z: "(of_nat (length x) :: u16) > 0 \<longleftrightarrow> x \<noteq> []"
    using x by (simp add: word_less_nat_alt take_bit_nat_eq_self unsigned_of_nat)
  show "snd (t_Serialize S11NTraits_string x buf) = buf @ obj_bytes (of_nat (length x) :: u16) @ x"
    using z by (auto simp: S11NTraits_string_def Let_def)
  show "t_Size S11NTraits_string x = of_nat (length (obj_bytes (of_nat (length x) :: u16) @ x))"
    by (simp add: S11NTraits_string_def)
  assume le: "length (obj_bytes (of_nat (length x) :: u16) @ x) \<le> unat sz"
  have un: "unat (of_nat (length x) :: u16) = length x"
    using x by (simp add: unsigned_of_nat take_bit_nat_eq_self)
  have v: "(obj_val (obj_bytes (of_nat (length x) :: u16)) :: u16) = of_nat (length x)"
    by (simp add: obj_val_obj_bytes)
  have "unat (ucast (of_nat (length x) :: u16) + 2 :: u32) = length x + 2"
    using x by (simp add: unat_word_ariths unat_ucast un)
  then have "\<not> sz < ucast (of_nat (length x) :: u16) + 2"
    using le by (simp add: word_less_nat_alt)
  then show "t_Unserialize S11NTraits_string m ((obj_bytes (of_nat (length x) :: u16) @ x) @ rest) sz
      = Some (of_nat (length (obj_bytes (of_nat (length x) :: u16) @ x)), x)"
    using le un by (simp add: S11NTraits_string_def mem_read_def v Let_def)
qed

lemma string_safe: "s11n_safe S11NTraits_string"
proof
  fix sz :: u32 and buf m :: "u8 list"
  assume le: "unat sz \<le> length buf"
  show "consumes sz (t_Unserialize S11NTraits_string m buf sz)"
  proof (cases "unat sz < 2")
    case False
    define l :: u16 where "l = obj_val (take 2 buf)"
    have two: "2 \<le> length buf" using False le by simp
    have "unat (ucast l + 2 :: u32) = unat l + 2"
      using unat_less_2p [of l] by (simp add: unat_word_ariths unat_ucast)
    then have "\<not> sz < ucast l + 2 \<Longrightarrow> unat l + 2 \<le> unat sz" by (simp add: word_less_nat_alt)
    moreover have "unat l + 2 \<le> unat sz \<Longrightarrow> of_nat (2 + unat l) \<le> sz"
      by (metis add.commute le_unat_uoi word_le_nat_alt)
    ultimately show ?thesis
      using False le two
      by (auto simp: S11NTraits_string_def mem_read_def l_def [symmetric] Let_def)
  qed (auto simp: S11NTraits_string_def)
qed

section \<open>Reading one value after the other\<close>

text \<open>The memory holds \<open>bs\<close> at position \<open>len\<close>, inside the announced size.\<close>

definition holds_at :: "u8 list \<Rightarrow> u32 \<Rightarrow> u32 \<Rightarrow> u8 list \<Rightarrow> bool" where
  "holds_at buf sz len bs \<longleftrightarrow>
     unat len + length bs \<le> unat sz \<and> unat len + length bs < 2 ^ 32 - 1 \<and>
     (\<exists>rest. drop (unat len) buf = bs @ rest)"

lemma holds_at_start: "length bs \<le> unat sz \<Longrightarrow> length bs < 2 ^ 32 - 1 \<Longrightarrow> holds_at (bs @ rest) sz 0 bs"
  by (simp add: holds_at_def)

lemma unat_add_small: "unat len + n < 2 ^ 32 \<Longrightarrow> unat (len + of_nat n :: u32) = unat len + n"
  by (simp add: unat_word_ariths unsigned_of_nat take_bit_nat_eq_self mod_add_right_eq)

lemma read_member:
  assumes "s11n_codec t ok enc" and "ok x" and "holds_at buf sz len (enc x @ bs)"
  shows "t_Unserialize t m (drop (unat len) buf) (sz - len) = Some (of_nat (length (enc x)), x)"
    and "(of_nat (length (enc x)) :: u32) \<noteq> - 1"
    and "holds_at buf sz (len + of_nat (length (enc x))) bs"
proof -
  obtain rest where h: "unat len + length (enc x @ bs) \<le> unat sz"
    "unat len + length (enc x @ bs) < 2 ^ 32 - 1" "drop (unat len) buf = (enc x @ bs) @ rest"
    using assms(3) by (auto simp: holds_at_def)
  have "unat (sz - len) = unat sz - unat len"
    using h(1) by (intro unat_sub) (simp add: word_le_nat_alt)
  then show "t_Unserialize t m (drop (unat len) buf) (sz - len) = Some (of_nat (length (enc x)), x)"
    using h s11n_codec.read_back [OF assms(1,2), of "sz - len" m "bs @ rest"] by simp
  have "unat (of_nat (length (enc x)) :: u32) = length (enc x)"
    using h(2) by (simp add: unsigned_of_nat take_bit_nat_eq_self)
  moreover have "unat (- 1 :: u32) = 2 ^ 32 - 1" by (simp add: unsigned_minus_1_eq_mask mask_eq_exp_minus_1)
  ultimately show "(of_nat (length (enc x)) :: u32) \<noteq> - 1" using h(2) by (metis length_append nat_less_le trans_less_add2 add.commute)
  have a: "unat (len + of_nat (length (enc x))) = unat len + length (enc x)"
    using h(2) by (intro unat_add_small) simp
  have "drop (unat len + length (enc x)) buf = drop (length (enc x)) (drop (unat len) buf)"
    by (simp add: add.commute)
  also have "\<dots> = bs @ rest" unfolding h(3) by simp
  finally show "holds_at buf sz (len + of_nat (length (enc x))) bs"
    using h(1,2) by (auto simp: holds_at_def a)
qed

lemma member_codec:
  assumes "s11n_codec t ok enc" and "ok x" and "holds_at buf sz len (enc x @ bs)"
    and "holds_at buf sz (len + of_nat (length (enc x))) bs \<Longrightarrow> k (len + of_nat (length (enc x))) x = R"
  shows "SllN_TRAITS_MEMBER t m buf sz len upd k = R"
  using read_member [OF assms(1-3)] assms(4) by (simp add: SllN_TRAITS_MEMBER_def)

lemma member_safe:
  assumes "s11n_safe t" and "unat sz \<le> length buf" and "len \<le> sz"
    and "\<And>len' m'. len' \<le> sz \<Longrightarrow> consumes sz (k len' m')"
  shows "consumes sz (SllN_TRAITS_MEMBER t m buf sz len upd k)"
proof -
  have s: "unat (sz - len) = unat sz - unat len" "unat len \<le> unat sz"
    using assms(3) by (simp_all add: unat_sub word_le_nat_alt)
  have "unat (sz - len) \<le> length (drop (unat len) buf)" using s assms(2) by simp
  then have "consumes (sz - len) (t_Unserialize t m (drop (unat len) buf) (sz - len))"
    by (rule s11n_safe.safe [OF assms(1)])
  then obtain r m' where r: "t_Unserialize t m (drop (unat len) buf) (sz - len) = Some (r, m')"
    "r = - 1 \<or> r \<le> sz - len" by (rule consumesE)
  have "len + r \<le> sz" if "r \<le> sz - len"
  proof -
    have "unat r \<le> unat sz - unat len" using that s by (simp add: word_le_nat_alt)
    moreover have "unat sz < 2 ^ 32" using unat_less_2p [of sz] by simp
    ultimately have "unat (len + of_nat (unat r)) = unat len + unat r"
      using s(2) by (intro unat_add_small) linarith
    then show ?thesis using \<open>unat r \<le> unat sz - unat len\<close> s(2) by (simp add: word_le_nat_alt)
  qed
  then show ?thesis using r assms(4) by (auto simp: SllN_TRAITS_MEMBER_def)
qed

section \<open>Vectors\<close>

lemma vec_write_codec:
  assumes "s11n_codec t ok enc" and "\<forall>x \<in> set xs. ok x"
  shows "snd (vec_write t xs l buf) = buf @ concat (map enc xs)"
  using assms(2) s11n_codec.written [OF assms(1)]
  by (induction xs arbitrary: l buf) (auto split: prod.split, metis snd_conv)

lemma vec_read_codec:
  assumes "s11n_codec t ok enc" and "\<forall>x \<in> set xs. ok x" and "length ms = length xs"
    and "holds_at buf sz c (concat (map enc xs))"
  shows "vec_read t buf sz c acc ms = Some (c + of_nat (length (concat (map enc xs))), acc @ xs)"
  using assms(2-4)
proof (induction xs arbitrary: c acc ms)
  case (Cons x xs)
  then obtain m ms' where ms: "ms = m # ms'" "length ms' = length xs" by (cases ms) auto
  have ok: "ok x" "\<forall>x \<in> set xs. ok x" and h: "holds_at buf sz c (enc x @ concat (map enc xs))"
    using Cons.prems by simp_all
  note r = read_member [OF assms(1) ok(1) h]
  from Cons.IH [OF ok(2) ms(2) r(3), of "acc @ [x]"] show ?case
    using r(1,2) by (simp add: ms(1) add.assoc)
qed simp

lemma length_vec_resize [simp]: "length (vec_resize d n xs) = n"
  by (simp add: vec_resize_def)

lemma fold_sizes:
  assumes "s11n_sized t ok enc" and "\<forall>x \<in> set xs. ok x"
  shows "fold (\<lambda>x sz. sz + t_Size t x) xs s = s + of_nat (length (concat (map enc xs)))"
  using assms(2) s11n_sized.sized [OF assms(1)] by (induction xs arbitrary: s) (simp_all add: add.assoc)

lemma vector_codec:
  assumes "s11n_codec t ok enc"
  shows "s11n_codec (S11NTraits_vector d t) (\<lambda>xs. length xs \<le> 1024 \<and> (\<forall>x \<in> set xs. ok x))
    (\<lambda>xs. obj_bytes (of_nat (length xs) :: u16) @ concat (map enc xs))"
proof
  fix xs m buf rest and sz :: u32
  assume "length xs \<le> 1024 \<and> (\<forall>x \<in> set xs. ok x)"
  then have n: "length xs \<le> 1024" and ok: "\<forall>x \<in> set xs. ok x" by simp_all
  show "snd (t_Serialize (S11NTraits_vector d t) xs buf)
      = buf @ obj_bytes (of_nat (length xs) :: u16) @ concat (map enc xs)"
    using vec_write_codec [OF assms ok, of 2 "buf @ obj_bytes (of_nat (length xs) :: u16)"]
    by (auto simp: S11NTraits_vector_def split: prod.splits)
  let ?lb = "obj_bytes (of_nat (length xs) :: u16)"
  let ?bs = "?lb @ concat (map enc xs)"
  assume le: "length ?bs < 2 ^ 32 - 1" "length ?bs \<le> unat sz"
  have v: "(obj_val ?lb :: u16) = of_nat (length xs)" by (simp add: obj_val_obj_bytes)
  have un: "unat (of_nat (length xs) :: u16) = length xs"
    using n by (simp add: unsigned_of_nat take_bit_nat_eq_self)
  then have small: "\<not> (of_nat (length xs) :: u16) > 1024" using n by (simp add: word_less_nat_alt)
  have "holds_at (?bs @ rest) sz 2 (concat (map enc xs))"
    using le by (auto simp: holds_at_def)
  from vec_read_codec [OF assms ok _ this, of "vec_resize d (length xs) m" "[]"]
  show "t_Unserialize (S11NTraits_vector d t) m (?bs @ rest) sz = Some (of_nat (length ?bs), xs)"
    using le small by (simp add: S11NTraits_vector_def mem_read_def v un Let_def)
qed

lemma vector_sized:
  assumes "s11n_sized t ok enc"
  shows "s11n_sized (S11NTraits_vector d t) (\<lambda>xs. length xs \<le> 1024 \<and> (\<forall>x \<in> set xs. ok x))
    (\<lambda>xs. obj_bytes (of_nat (length xs) :: u16) @ concat (map enc xs))"
proof (intro s11n_sized.intro vector_codec s11n_sized_axioms.intro)
  show "s11n_codec t ok enc" using assms by (rule s11n_sized.axioms(1))
  fix xs
  assume "length xs \<le> 1024 \<and> (\<forall>x \<in> set xs. ok x)"
  then show "t_Size (S11NTraits_vector d t) xs
      = of_nat (length (obj_bytes (of_nat (length xs) :: u16) @ concat (map enc xs)))"
    using fold_sizes [OF assms, of xs 2] by (simp add: S11NTraits_vector_def)
qed

lemma vec_read_safe:
  assumes "s11n_safe t" and "unat sz \<le> length buf"
  shows "c \<le> sz \<Longrightarrow> consumes sz (vec_read t buf sz c acc ms)"
proof (induction ms arbitrary: c acc)
  case (Cons m ms)
  have "consumes sz (SllN_TRAITS_MEMBER t m buf sz c (\<lambda>_. []) (\<lambda>c' m'. vec_read t buf sz c' (acc @ [m']) ms))"
    using assms Cons by (intro member_safe) auto
  then show ?case
    by (auto simp: SllN_TRAITS_MEMBER_def consumes_def split: option.splits if_splits)
qed auto

lemma vector_safe:
  assumes "s11n_safe t"
  shows "s11n_safe (S11NTraits_vector d t)"
proof
  fix sz :: u32 and buf :: "u8 list" and m
  assume le: "unat sz \<le> length buf"
  show "consumes sz (t_Unserialize (S11NTraits_vector d t) m buf sz)"
  proof (cases "unat sz < 2")
    case False
    then have "2 \<le> sz" by (simp add: word_le_nat_alt)
    from vec_read_safe [OF assms le this] show ?thesis
      using False le by (auto simp: S11NTraits_vector_def mem_read_def Let_def)
  qed (auto simp: S11NTraits_vector_def)
qed

section \<open>Structures\<close>

lemma last_codec:
  assumes "s11n_codec t ok enc" and "ok x" and "holds_at buf sz len (enc x)"
    and "k (len + of_nat (length (enc x))) x = R"
  shows "SllN_TRAITS_MEMBER t m buf sz len upd k = R"
  using member_codec [OF assms(1,2), of buf sz len "[]"] assms(3,4) by simp

lemma struct_codecI:
  assumes "\<And>x buf. ok x \<Longrightarrow> snd (t_Serialize t x buf) = buf @ enc x"
    and "\<And>x m buf sz. ok x \<Longrightarrow> holds_at buf sz 0 (enc x) \<Longrightarrow>
      t_Unserialize t m buf sz = Some (of_nat (length (enc x)), x)"
  shows "s11n_codec t ok enc"
  using assms holds_at_start by unfold_locales blast+

lemmas struct_simps = case_prod_beta Let_def

text \<open>
  The structure macros and the message macros read and write their members alike, so what is
  shown for the message macros holds for both.
\<close>

lemma S11N_TRAITS_1: "S11N_TRAITS_1 t1 = MSG_SllN_1 t1"
  by (simp add: S11N_TRAITS_1_def MSG_SllN_1_def)

lemma S11N_TRAITS_2: "S11N_TRAITS_2 t1 t2 = MSG_SllN_2 t1 t2"
  by (simp add: S11N_TRAITS_2_def MSG_SllN_2_def)

lemma S11N_TRAITS_3: "S11N_TRAITS_3 t1 t2 t3 = MSG_SllN_3 t1 t2 t3"
  by (simp add: S11N_TRAITS_3_def MSG_SllN_3_def)

lemma S11N_TRAITS_4: "S11N_TRAITS_4 t1 t2 t3 t4 = MSG_SllN_4 t1 t2 t3 t4"
  by (simp add: S11N_TRAITS_4_def MSG_SllN_4_def)

lemma S11N_TRAITS_5: "S11N_TRAITS_5 t1 t2 t3 t4 t5 = MSG_SllN_5 t1 t2 t3 t4 t5"
  by (simp add: S11N_TRAITS_5_def MSG_SllN_5_def)

lemma S11N_TRAITS_6: "S11N_TRAITS_6 t1 t2 t3 t4 t5 t6 = MSG_SllN_6 t1 t2 t3 t4 t5 t6"
  by (simp add: S11N_TRAITS_6_def MSG_SllN_6_def)

lemma S11N_TRAITS_7: "S11N_TRAITS_7 t1 t2 t3 t4 t5 t6 t7 = MSG_SllN_7 t1 t2 t3 t4 t5 t6 t7"
  by (simp add: S11N_TRAITS_7_def MSG_SllN_7_def)

lemma S11N_TRAITS_8: "S11N_TRAITS_8 t1 t2 t3 t4 t5 t6 t7 t8 = MSG_SllN_8 t1 t2 t3 t4 t5 t6 t7 t8"
  by (simp add: S11N_TRAITS_8_def MSG_SllN_8_def)

lemma S11N_TRAITS_9: "S11N_TRAITS_9 t1 t2 t3 t4 t5 t6 t7 t8 t9 = MSG_SllN_9 t1 t2 t3 t4 t5 t6 t7 t8 t9"
  by (simp add: S11N_TRAITS_9_def MSG_SllN_9_def)

lemmas S11N_TRAITS_eqs =
  S11N_TRAITS_1 S11N_TRAITS_2 S11N_TRAITS_3 S11N_TRAITS_4 S11N_TRAITS_5 S11N_TRAITS_6
  S11N_TRAITS_7 S11N_TRAITS_8 S11N_TRAITS_9

text \<open>A message written and read back is the same message.\<close>

lemma MSG_SllN_1_codec: "s11n_codec t1 ok1 e1 \<Longrightarrow> s11n_codec (MSG_SllN_1 t1) ok1 e1"
  by (simp add: MSG_SllN_1_def s11n_codec_def)

lemma MSG_SllN_2_codec:
  assumes "s11n_codec t1 ok1 e1" "s11n_codec t2 ok2 e2"
  shows "s11n_codec (MSG_SllN_2 t1 t2)
    (\<lambda>(m1, m2).
      ok1 m1 \<and> ok2 m2)
    (\<lambda>(m1, m2).
      e1 m1 @ e2 m2)"
  by (rule struct_codecI)
    (auto simp: MSG_SllN_2_def struct_simps assms [THEN s11n_codec.written]
      intro!: assms [THEN member_codec] assms(2) [THEN last_codec])

lemma MSG_SllN_3_codec:
  assumes "s11n_codec t1 ok1 e1" "s11n_codec t2 ok2 e2" "s11n_codec t3 ok3 e3"
  shows "s11n_codec (MSG_SllN_3 t1 t2 t3)
    (\<lambda>(m1, m2, m3).
      ok1 m1 \<and> ok2 m2 \<and> ok3 m3)
    (\<lambda>(m1, m2, m3).
      e1 m1 @ e2 m2 @ e3 m3)"
  by (rule struct_codecI)
    (auto simp: MSG_SllN_3_def struct_simps assms [THEN s11n_codec.written]
      intro!: assms [THEN member_codec] assms(3) [THEN last_codec])

lemma MSG_SllN_4_codec:
  assumes "s11n_codec t1 ok1 e1" "s11n_codec t2 ok2 e2" "s11n_codec t3 ok3 e3" "s11n_codec t4 ok4 e4"
  shows "s11n_codec (MSG_SllN_4 t1 t2 t3 t4)
    (\<lambda>(m1, m2, m3, m4).
      ok1 m1 \<and> ok2 m2 \<and> ok3 m3 \<and> ok4 m4)
    (\<lambda>(m1, m2, m3, m4).
      e1 m1 @ e2 m2 @ e3 m3 @ e4 m4)"
  by (rule struct_codecI)
    (auto simp: MSG_SllN_4_def struct_simps assms [THEN s11n_codec.written]
      intro!: assms [THEN member_codec] assms(4) [THEN last_codec])

lemma MSG_SllN_5_codec:
  assumes "s11n_codec t1 ok1 e1" "s11n_codec t2 ok2 e2" "s11n_codec t3 ok3 e3"
    "s11n_codec t4 ok4 e4" "s11n_codec t5 ok5 e5"
  shows "s11n_codec (MSG_SllN_5 t1 t2 t3 t4 t5)
    (\<lambda>(m1, m2, m3, m4, m5).
      ok1 m1 \<and> ok2 m2 \<and> ok3 m3 \<and> ok4 m4 \<and> ok5 m5)
    (\<lambda>(m1, m2, m3, m4, m5).
      e1 m1 @ e2 m2 @ e3 m3 @ e4 m4 @ e5 m5)"
  by (rule struct_codecI)
    (auto simp: MSG_SllN_5_def struct_simps assms [THEN s11n_codec.written]
      intro!: assms [THEN member_codec] assms(5) [THEN last_codec])

lemma MSG_SllN_6_codec:
  assumes "s11n_codec t1 ok1 e1" "s11n_codec t2 ok2 e2" "s11n_codec t3 ok3 e3"
    "s11n_codec t4 ok4 e4" "s11n_codec t5 ok5 e5" "s11n_codec t6 ok6 e6"
  shows "s11n_codec (MSG_SllN_6 t1 t2 t3 t4 t5 t6)
    (\<lambda>(m1, m2, m3, m4, m5, m6).
      ok1 m1 \<and> ok2 m2 \<and> ok3 m3 \<and> ok4 m4 \<and> ok5 m5 \<and> ok6 m6)
    (\<lambda>(m1, m2, m3, m4, m5, m6).
      e1 m1 @ e2 m2 @ e3 m3 @ e4 m4 @ e5 m5 @ e6 m6)"
  by (rule struct_codecI)
    (auto simp: MSG_SllN_6_def struct_simps assms [THEN s11n_codec.written]
      intro!: assms [THEN member_codec] assms(6) [THEN last_codec])

lemma MSG_SllN_7_codec:
  assumes "s11n_codec t1 ok1 e1" "s11n_codec t2 ok2 e2" "s11n_codec t3 ok3 e3"
    "s11n_codec t4 ok4 e4" "s11n_codec t5 ok5 e5" "s11n_codec t6 ok6 e6" "s11n_codec t7 ok7 e7"
  shows "s11n_codec (MSG_SllN_7 t1 t2 t3 t4 t5 t6 t7)
    (\<lambda>(m1, m2, m3, m4, m5, m6, m7).
      ok1 m1 \<and> ok2 m2 \<and> ok3 m3 \<and> ok4 m4 \<and> ok5 m5 \<and> ok6 m6 \<and>
      ok7 m7)
    (\<lambda>(m1, m2, m3, m4, m5, m6, m7).
      e1 m1 @ e2 m2 @ e3 m3 @ e4 m4 @ e5 m5 @ e6 m6 @ e7 m7)"
  by (rule struct_codecI)
    (auto simp: MSG_SllN_7_def struct_simps assms [THEN s11n_codec.written]
      intro!: assms [THEN member_codec] assms(7) [THEN last_codec])

lemma MSG_SllN_8_codec:
  assumes "s11n_codec t1 ok1 e1" "s11n_codec t2 ok2 e2" "s11n_codec t3 ok3 e3"
    "s11n_codec t4 ok4 e4" "s11n_codec t5 ok5 e5" "s11n_codec t6 ok6 e6"
    "s11n_codec t7 ok7 e7" "s11n_codec t8 ok8 e8"
  shows "s11n_codec (MSG_SllN_8 t1 t2 t3 t4 t5 t6 t7 t8)
    (\<lambda>(m1, m2, m3, m4, m5, m6, m7, m8).
      ok1 m1 \<and> ok2 m2 \<and> ok3 m3 \<and> ok4 m4 \<and> ok5 m5 \<and> ok6 m6 \<and>
      ok7 m7 \<and> ok8 m8)
    (\<lambda>(m1, m2, m3, m4, m5, m6, m7, m8).
      e1 m1 @ e2 m2 @ e3 m3 @ e4 m4 @ e5 m5 @ e6 m6 @ e7 m7 @ e8 m8)"
  by (rule struct_codecI)
    (auto simp: MSG_SllN_8_def struct_simps assms [THEN s11n_codec.written]
      intro!: assms [THEN member_codec] assms(8) [THEN last_codec])

lemma MSG_SllN_9_codec:
  assumes "s11n_codec t1 ok1 e1" "s11n_codec t2 ok2 e2" "s11n_codec t3 ok3 e3"
    "s11n_codec t4 ok4 e4" "s11n_codec t5 ok5 e5" "s11n_codec t6 ok6 e6"
    "s11n_codec t7 ok7 e7" "s11n_codec t8 ok8 e8" "s11n_codec t9 ok9 e9"
  shows "s11n_codec (MSG_SllN_9 t1 t2 t3 t4 t5 t6 t7 t8 t9)
    (\<lambda>(m1, m2, m3, m4, m5, m6, m7, m8, m9).
      ok1 m1 \<and> ok2 m2 \<and> ok3 m3 \<and> ok4 m4 \<and> ok5 m5 \<and> ok6 m6 \<and>
      ok7 m7 \<and> ok8 m8 \<and> ok9 m9)
    (\<lambda>(m1, m2, m3, m4, m5, m6, m7, m8, m9).
      e1 m1 @ e2 m2 @ e3 m3 @ e4 m4 @ e5 m5 @ e6 m6 @ e7 m7 @ e8 m8 @ e9 m9)"
  by (rule struct_codecI)
    (auto simp: MSG_SllN_9_def struct_simps assms [THEN s11n_codec.written]
      intro!: assms [THEN member_codec] assms(9) [THEN last_codec])

lemma MSG_SllN_10_codec:
  assumes "s11n_codec t1 ok1 e1" "s11n_codec t2 ok2 e2" "s11n_codec t3 ok3 e3"
    "s11n_codec t4 ok4 e4" "s11n_codec t5 ok5 e5" "s11n_codec t6 ok6 e6"
    "s11n_codec t7 ok7 e7" "s11n_codec t8 ok8 e8" "s11n_codec t9 ok9 e9"
    "s11n_codec t10 ok10 e10"
  shows "s11n_codec (MSG_SllN_10 t1 t2 t3 t4 t5 t6 t7 t8 t9 t10)
    (\<lambda>(m1, m2, m3, m4, m5, m6, m7, m8, m9, m10).
      ok1 m1 \<and> ok2 m2 \<and> ok3 m3 \<and> ok4 m4 \<and> ok5 m5 \<and> ok6 m6 \<and>
      ok7 m7 \<and> ok8 m8 \<and> ok9 m9 \<and> ok10 m10)
    (\<lambda>(m1, m2, m3, m4, m5, m6, m7, m8, m9, m10).
      e1 m1 @ e2 m2 @ e3 m3 @ e4 m4 @ e5 m5 @ e6 m6 @ e7 m7 @ e8 m8 @ e9 m9 @ e10 m10)"
  by (rule struct_codecI)
    (auto simp: MSG_SllN_10_def struct_simps assms [THEN s11n_codec.written]
      intro!: assms [THEN member_codec] assms(10) [THEN last_codec])

lemma MSG_SllN_11_codec:
  assumes "s11n_codec t1 ok1 e1" "s11n_codec t2 ok2 e2" "s11n_codec t3 ok3 e3"
    "s11n_codec t4 ok4 e4" "s11n_codec t5 ok5 e5" "s11n_codec t6 ok6 e6"
    "s11n_codec t7 ok7 e7" "s11n_codec t8 ok8 e8" "s11n_codec t9 ok9 e9"
    "s11n_codec t10 ok10 e10" "s11n_codec t11 ok11 e11"
  shows "s11n_codec (MSG_SllN_11 t1 t2 t3 t4 t5 t6 t7 t8 t9 t10 t11)
    (\<lambda>(m1, m2, m3, m4, m5, m6, m7, m8, m9, m10, m11).
      ok1 m1 \<and> ok2 m2 \<and> ok3 m3 \<and> ok4 m4 \<and> ok5 m5 \<and> ok6 m6 \<and>
      ok7 m7 \<and> ok8 m8 \<and> ok9 m9 \<and> ok10 m10 \<and> ok11 m11)
    (\<lambda>(m1, m2, m3, m4, m5, m6, m7, m8, m9, m10, m11).
      e1 m1 @ e2 m2 @ e3 m3 @ e4 m4 @ e5 m5 @ e6 m6 @ e7 m7 @ e8 m8 @ e9 m9 @ e10 m10 @ e11 m11)"
  by (rule struct_codecI)
    (auto simp: MSG_SllN_11_def struct_simps assms [THEN s11n_codec.written]
      intro!: assms [THEN member_codec] assms(11) [THEN last_codec])

lemma MSG_SllN_12_codec:
  assumes "s11n_codec t1 ok1 e1" "s11n_codec t2 ok2 e2" "s11n_codec t3 ok3 e3"
    "s11n_codec t4 ok4 e4" "s11n_codec t5 ok5 e5" "s11n_codec t6 ok6 e6"
    "s11n_codec t7 ok7 e7" "s11n_codec t8 ok8 e8" "s11n_codec t9 ok9 e9"
    "s11n_codec t10 ok10 e10" "s11n_codec t11 ok11 e11" "s11n_codec t12 ok12 e12"
  shows "s11n_codec (MSG_SllN_12 t1 t2 t3 t4 t5 t6 t7 t8 t9 t10 t11 t12)
    (\<lambda>(m1, m2, m3, m4, m5, m6, m7, m8, m9, m10, m11, m12).
      ok1 m1 \<and> ok2 m2 \<and> ok3 m3 \<and> ok4 m4 \<and> ok5 m5 \<and> ok6 m6 \<and>
      ok7 m7 \<and> ok8 m8 \<and> ok9 m9 \<and> ok10 m10 \<and> ok11 m11 \<and> ok12 m12)
    (\<lambda>(m1, m2, m3, m4, m5, m6, m7, m8, m9, m10, m11, m12).
      e1 m1 @ e2 m2 @ e3 m3 @ e4 m4 @ e5 m5 @ e6 m6 @ e7 m7 @ e8 m8 @ e9 m9 @ e10 m10 @
      e11 m11 @ e12 m12)"
  by (rule struct_codecI)
    (auto simp: MSG_SllN_12_def struct_simps assms [THEN s11n_codec.written]
      intro!: assms [THEN member_codec] assms(12) [THEN last_codec])

text \<open>No input, however broken, makes them read behind the announced size.\<close>

lemma MSG_SllN_1_safe: "s11n_safe t1 \<Longrightarrow> s11n_safe (MSG_SllN_1 t1)"
  by (simp add: MSG_SllN_1_def s11n_safe_def)

lemma MSG_SllN_2_safe:
  assumes "s11n_safe t1" "s11n_safe t2"
  shows "s11n_safe (MSG_SllN_2 t1 t2)"
  using assms by (intro s11n_safe.intro) (auto simp: MSG_SllN_2_def intro!: member_safe)

lemma MSG_SllN_3_safe:
  assumes "s11n_safe t1" "s11n_safe t2" "s11n_safe t3"
  shows "s11n_safe (MSG_SllN_3 t1 t2 t3)"
  using assms by (intro s11n_safe.intro) (auto simp: MSG_SllN_3_def intro!: member_safe)

lemma MSG_SllN_4_safe:
  assumes "s11n_safe t1" "s11n_safe t2" "s11n_safe t3" "s11n_safe t4"
  shows "s11n_safe (MSG_SllN_4 t1 t2 t3 t4)"
  using assms by (intro s11n_safe.intro) (auto simp: MSG_SllN_4_def intro!: member_safe)

lemma MSG_SllN_5_safe:
  assumes "s11n_safe t1" "s11n_safe t2" "s11n_safe t3" "s11n_safe t4" "s11n_safe t5"
  shows "s11n_safe (MSG_SllN_5 t1 t2 t3 t4 t5)"
  using assms by (intro s11n_safe.intro) (auto simp: MSG_SllN_5_def intro!: member_safe)

lemma MSG_SllN_6_safe:
  assumes "s11n_safe t1" "s11n_safe t2" "s11n_safe t3" "s11n_safe t4" "s11n_safe t5" "s11n_safe t6"
  shows "s11n_safe (MSG_SllN_6 t1 t2 t3 t4 t5 t6)"
  using assms by (intro s11n_safe.intro) (auto simp: MSG_SllN_6_def intro!: member_safe)

lemma MSG_SllN_7_safe:
  assumes "s11n_safe t1" "s11n_safe t2" "s11n_safe t3" "s11n_safe t4" "s11n_safe t5" "s11n_safe t6"
    "s11n_safe t7"
  shows "s11n_safe (MSG_SllN_7 t1 t2 t3 t4 t5 t6 t7)"
  using assms by (intro s11n_safe.intro) (auto simp: MSG_SllN_7_def intro!: member_safe)

lemma MSG_SllN_8_safe:
  assumes "s11n_safe t1" "s11n_safe t2" "s11n_safe t3" "s11n_safe t4" "s11n_safe t5" "s11n_safe t6"
    "s11n_safe t7" "s11n_safe t8"
  shows "s11n_safe (MSG_SllN_8 t1 t2 t3 t4 t5 t6 t7 t8)"
  using assms by (intro s11n_safe.intro) (auto simp: MSG_SllN_8_def intro!: member_safe)

lemma MSG_SllN_9_safe:
  assumes "s11n_safe t1" "s11n_safe t2" "s11n_safe t3" "s11n_safe t4" "s11n_safe t5" "s11n_safe t6"
    "s11n_safe t7" "s11n_safe t8" "s11n_safe t9"
  shows "s11n_safe (MSG_SllN_9 t1 t2 t3 t4 t5 t6 t7 t8 t9)"
  using assms by (intro s11n_safe.intro) (auto simp: MSG_SllN_9_def intro!: member_safe)

lemma MSG_SllN_10_safe:
  assumes "s11n_safe t1" "s11n_safe t2" "s11n_safe t3" "s11n_safe t4" "s11n_safe t5" "s11n_safe t6"
    "s11n_safe t7" "s11n_safe t8" "s11n_safe t9" "s11n_safe t10"
  shows "s11n_safe (MSG_SllN_10 t1 t2 t3 t4 t5 t6 t7 t8 t9 t10)"
  using assms by (intro s11n_safe.intro) (auto simp: MSG_SllN_10_def intro!: member_safe)

lemma MSG_SllN_11_safe:
  assumes "s11n_safe t1" "s11n_safe t2" "s11n_safe t3" "s11n_safe t4" "s11n_safe t5" "s11n_safe t6"
    "s11n_safe t7" "s11n_safe t8" "s11n_safe t9" "s11n_safe t10" "s11n_safe t11"
  shows "s11n_safe (MSG_SllN_11 t1 t2 t3 t4 t5 t6 t7 t8 t9 t10 t11)"
  using assms by (intro s11n_safe.intro) (auto simp: MSG_SllN_11_def intro!: member_safe)

lemma MSG_SllN_12_safe:
  assumes "s11n_safe t1" "s11n_safe t2" "s11n_safe t3" "s11n_safe t4" "s11n_safe t5" "s11n_safe t6"
    "s11n_safe t7" "s11n_safe t8" "s11n_safe t9" "s11n_safe t10" "s11n_safe t11"
    "s11n_safe t12"
  shows "s11n_safe (MSG_SllN_12 t1 t2 t3 t4 t5 t6 t7 t8 t9 t10 t11 t12)"
  using assms by (intro s11n_safe.intro) (auto simp: MSG_SllN_12_def intro!: member_safe)

text \<open>The announced size is the size written, except for twelve members.\<close>

lemma struct_sizedI:
  "s11n_codec t ok enc \<Longrightarrow> (\<And>x. ok x \<Longrightarrow> t_Size t x = of_nat (length (enc x))) \<Longrightarrow> s11n_sized t ok enc"
  by (simp add: s11n_sized_def s11n_sized_axioms_def)

lemma MSG_SllN_1_sized: "s11n_sized t1 ok1 e1 \<Longrightarrow> s11n_sized (MSG_SllN_1 t1) ok1 e1"
  by (simp add: MSG_SllN_1_def s11n_sized_def s11n_sized_axioms_def s11n_codec_def)

lemma MSG_SllN_2_sized:
  assumes "s11n_sized t1 ok1 e1" "s11n_sized t2 ok2 e2"
  shows "s11n_sized (MSG_SllN_2 t1 t2)
    (\<lambda>(m1, m2).
      ok1 m1 \<and> ok2 m2)
    (\<lambda>(m1, m2).
      e1 m1 @ e2 m2)"
  by (intro struct_sizedI MSG_SllN_2_codec assms [THEN s11n_sized.axioms(1)])
    (auto simp: MSG_SllN_2_def assms [THEN s11n_sized.sized])

lemma MSG_SllN_3_sized:
  assumes "s11n_sized t1 ok1 e1" "s11n_sized t2 ok2 e2" "s11n_sized t3 ok3 e3"
  shows "s11n_sized (MSG_SllN_3 t1 t2 t3)
    (\<lambda>(m1, m2, m3).
      ok1 m1 \<and> ok2 m2 \<and> ok3 m3)
    (\<lambda>(m1, m2, m3).
      e1 m1 @ e2 m2 @ e3 m3)"
  by (intro struct_sizedI MSG_SllN_3_codec assms [THEN s11n_sized.axioms(1)])
    (auto simp: MSG_SllN_3_def assms [THEN s11n_sized.sized])

lemma MSG_SllN_4_sized:
  assumes "s11n_sized t1 ok1 e1" "s11n_sized t2 ok2 e2" "s11n_sized t3 ok3 e3" "s11n_sized t4 ok4 e4"
  shows "s11n_sized (MSG_SllN_4 t1 t2 t3 t4)
    (\<lambda>(m1, m2, m3, m4).
      ok1 m1 \<and> ok2 m2 \<and> ok3 m3 \<and> ok4 m4)
    (\<lambda>(m1, m2, m3, m4).
      e1 m1 @ e2 m2 @ e3 m3 @ e4 m4)"
  by (intro struct_sizedI MSG_SllN_4_codec assms [THEN s11n_sized.axioms(1)])
    (auto simp: MSG_SllN_4_def assms [THEN s11n_sized.sized])

lemma MSG_SllN_5_sized:
  assumes "s11n_sized t1 ok1 e1" "s11n_sized t2 ok2 e2" "s11n_sized t3 ok3 e3"
    "s11n_sized t4 ok4 e4" "s11n_sized t5 ok5 e5"
  shows "s11n_sized (MSG_SllN_5 t1 t2 t3 t4 t5)
    (\<lambda>(m1, m2, m3, m4, m5).
      ok1 m1 \<and> ok2 m2 \<and> ok3 m3 \<and> ok4 m4 \<and> ok5 m5)
    (\<lambda>(m1, m2, m3, m4, m5).
      e1 m1 @ e2 m2 @ e3 m3 @ e4 m4 @ e5 m5)"
  by (intro struct_sizedI MSG_SllN_5_codec assms [THEN s11n_sized.axioms(1)])
    (auto simp: MSG_SllN_5_def assms [THEN s11n_sized.sized])

lemma MSG_SllN_6_sized:
  assumes "s11n_sized t1 ok1 e1" "s11n_sized t2 ok2 e2" "s11n_sized t3 ok3 e3"
    "s11n_sized t4 ok4 e4" "s11n_sized t5 ok5 e5" "s11n_sized t6 ok6 e6"
  shows "s11n_sized (MSG_SllN_6 t1 t2 t3 t4 t5 t6)
    (\<lambda>(m1, m2, m3, m4, m5, m6).
      ok1 m1 \<and> ok2 m2 \<and> ok3 m3 \<and> ok4 m4 \<and> ok5 m5 \<and> ok6 m6)
    (\<lambda>(m1, m2, m3, m4, m5, m6).
      e1 m1 @ e2 m2 @ e3 m3 @ e4 m4 @ e5 m5 @ e6 m6)"
  by (intro struct_sizedI MSG_SllN_6_codec assms [THEN s11n_sized.axioms(1)])
    (auto simp: MSG_SllN_6_def assms [THEN s11n_sized.sized])

lemma MSG_SllN_7_sized:
  assumes "s11n_sized t1 ok1 e1" "s11n_sized t2 ok2 e2" "s11n_sized t3 ok3 e3"
    "s11n_sized t4 ok4 e4" "s11n_sized t5 ok5 e5" "s11n_sized t6 ok6 e6" "s11n_sized t7 ok7 e7"
  shows "s11n_sized (MSG_SllN_7 t1 t2 t3 t4 t5 t6 t7)
    (\<lambda>(m1, m2, m3, m4, m5, m6, m7).
      ok1 m1 \<and> ok2 m2 \<and> ok3 m3 \<and> ok4 m4 \<and> ok5 m5 \<and> ok6 m6 \<and>
      ok7 m7)
    (\<lambda>(m1, m2, m3, m4, m5, m6, m7).
      e1 m1 @ e2 m2 @ e3 m3 @ e4 m4 @ e5 m5 @ e6 m6 @ e7 m7)"
  by (intro struct_sizedI MSG_SllN_7_codec assms [THEN s11n_sized.axioms(1)])
    (auto simp: MSG_SllN_7_def assms [THEN s11n_sized.sized])

lemma MSG_SllN_8_sized:
  assumes "s11n_sized t1 ok1 e1" "s11n_sized t2 ok2 e2" "s11n_sized t3 ok3 e3"
    "s11n_sized t4 ok4 e4" "s11n_sized t5 ok5 e5" "s11n_sized t6 ok6 e6"
    "s11n_sized t7 ok7 e7" "s11n_sized t8 ok8 e8"
  shows "s11n_sized (MSG_SllN_8 t1 t2 t3 t4 t5 t6 t7 t8)
    (\<lambda>(m1, m2, m3, m4, m5, m6, m7, m8).
      ok1 m1 \<and> ok2 m2 \<and> ok3 m3 \<and> ok4 m4 \<and> ok5 m5 \<and> ok6 m6 \<and>
      ok7 m7 \<and> ok8 m8)
    (\<lambda>(m1, m2, m3, m4, m5, m6, m7, m8).
      e1 m1 @ e2 m2 @ e3 m3 @ e4 m4 @ e5 m5 @ e6 m6 @ e7 m7 @ e8 m8)"
  by (intro struct_sizedI MSG_SllN_8_codec assms [THEN s11n_sized.axioms(1)])
    (auto simp: MSG_SllN_8_def assms [THEN s11n_sized.sized])

lemma MSG_SllN_9_sized:
  assumes "s11n_sized t1 ok1 e1" "s11n_sized t2 ok2 e2" "s11n_sized t3 ok3 e3"
    "s11n_sized t4 ok4 e4" "s11n_sized t5 ok5 e5" "s11n_sized t6 ok6 e6"
    "s11n_sized t7 ok7 e7" "s11n_sized t8 ok8 e8" "s11n_sized t9 ok9 e9"
  shows "s11n_sized (MSG_SllN_9 t1 t2 t3 t4 t5 t6 t7 t8 t9)
    (\<lambda>(m1, m2, m3, m4, m5, m6, m7, m8, m9).
      ok1 m1 \<and> ok2 m2 \<and> ok3 m3 \<and> ok4 m4 \<and> ok5 m5 \<and> ok6 m6 \<and>
      ok7 m7 \<and> ok8 m8 \<and> ok9 m9)
    (\<lambda>(m1, m2, m3, m4, m5, m6, m7, m8, m9).
      e1 m1 @ e2 m2 @ e3 m3 @ e4 m4 @ e5 m5 @ e6 m6 @ e7 m7 @ e8 m8 @ e9 m9)"
  by (intro struct_sizedI MSG_SllN_9_codec assms [THEN s11n_sized.axioms(1)])
    (auto simp: MSG_SllN_9_def assms [THEN s11n_sized.sized])

lemma MSG_SllN_10_sized:
  assumes "s11n_sized t1 ok1 e1" "s11n_sized t2 ok2 e2" "s11n_sized t3 ok3 e3"
    "s11n_sized t4 ok4 e4" "s11n_sized t5 ok5 e5" "s11n_sized t6 ok6 e6"
    "s11n_sized t7 ok7 e7" "s11n_sized t8 ok8 e8" "s11n_sized t9 ok9 e9"
    "s11n_sized t10 ok10 e10"
  shows "s11n_sized (MSG_SllN_10 t1 t2 t3 t4 t5 t6 t7 t8 t9 t10)
    (\<lambda>(m1, m2, m3, m4, m5, m6, m7, m8, m9, m10).
      ok1 m1 \<and> ok2 m2 \<and> ok3 m3 \<and> ok4 m4 \<and> ok5 m5 \<and> ok6 m6 \<and>
      ok7 m7 \<and> ok8 m8 \<and> ok9 m9 \<and> ok10 m10)
    (\<lambda>(m1, m2, m3, m4, m5, m6, m7, m8, m9, m10).
      e1 m1 @ e2 m2 @ e3 m3 @ e4 m4 @ e5 m5 @ e6 m6 @ e7 m7 @ e8 m8 @ e9 m9 @ e10 m10)"
  by (intro struct_sizedI MSG_SllN_10_codec assms [THEN s11n_sized.axioms(1)])
    (auto simp: MSG_SllN_10_def assms [THEN s11n_sized.sized])

lemma MSG_SllN_11_sized:
  assumes "s11n_sized t1 ok1 e1" "s11n_sized t2 ok2 e2" "s11n_sized t3 ok3 e3"
    "s11n_sized t4 ok4 e4" "s11n_sized t5 ok5 e5" "s11n_sized t6 ok6 e6"
    "s11n_sized t7 ok7 e7" "s11n_sized t8 ok8 e8" "s11n_sized t9 ok9 e9"
    "s11n_sized t10 ok10 e10" "s11n_sized t11 ok11 e11"
  shows "s11n_sized (MSG_SllN_11 t1 t2 t3 t4 t5 t6 t7 t8 t9 t10 t11)
    (\<lambda>(m1, m2, m3, m4, m5, m6, m7, m8, m9, m10, m11).
      ok1 m1 \<and> ok2 m2 \<and> ok3 m3 \<and> ok4 m4 \<and> ok5 m5 \<and> ok6 m6 \<and>
      ok7 m7 \<and> ok8 m8 \<and> ok9 m9 \<and> ok10 m10 \<and> ok11 m11)
    (\<lambda>(m1, m2, m3, m4, m5, m6, m7, m8, m9, m10, m11).
      e1 m1 @ e2 m2 @ e3 m3 @ e4 m4 @ e5 m5 @ e6 m6 @ e7 m7 @ e8 m8 @ e9 m9 @ e10 m10 @ e11 m11)"
  by (intro struct_sizedI MSG_SllN_11_codec assms [THEN s11n_sized.axioms(1)])
    (auto simp: MSG_SllN_11_def assms [THEN s11n_sized.sized])

end
