(* ===== verification/Message_Kinds.thy ===== *)
theory Message_Kinds
  imports Serialize
begin

text \<open>
  All message classes that the macros of \<^verbatim>\<open>Common/Serialize.h\<close> can declare over the types with a
  specialisation of \<^verbatim>\<open>S11NTraits\<close>: a kind describes the type of a member, a value of type \<open>val\<close> is an object of any of
  these types, and \<open>traits_of\<close> puts the templates together as the compiler does. So a statement about all
  kinds is one about every message class.
\<close>

section \<open>Types and values\<close>

text \<open>The integers by their width (signed and unsigned ones are serialised alike), and arrays of them.\<close>

datatype kind = KInt8 | KInt16 | KInt32 | KInt64 | KFloat | KDouble | KPointer | KString
  | KVector kind | KArray8 nat | KArray16 nat | KArray32 nat | KArray64 nat | KStruct "kind list"

datatype val = V8 u8 | V16 u16 | V32 u32 | V64 u64 | VString "u8 list" | VVector "val list"
  | VArray8 "u8 list" | VArray16 "u16 list" | VArray32 "u32 list" | VArray64 "u64 list" | VStruct "val list"

definition as8 :: "val \<Rightarrow> u8" where "as8 v = (case v of V8 w \<Rightarrow> w | _ \<Rightarrow> 0)"
definition as16 :: "val \<Rightarrow> u16" where "as16 v = (case v of V16 w \<Rightarrow> w | _ \<Rightarrow> 0)"
definition as32 :: "val \<Rightarrow> u32" where "as32 v = (case v of V32 w \<Rightarrow> w | _ \<Rightarrow> 0)"
definition as64 :: "val \<Rightarrow> u64" where "as64 v = (case v of V64 w \<Rightarrow> w | _ \<Rightarrow> 0)"
definition as_string :: "val \<Rightarrow> u8 list" where "as_string v = (case v of VString xs \<Rightarrow> xs | _ \<Rightarrow> [])"
definition as_vector :: "val \<Rightarrow> val list" where "as_vector v = (case v of VVector xs \<Rightarrow> xs | _ \<Rightarrow> [])"
definition as_array8 :: "val \<Rightarrow> u8 list" where "as_array8 v = (case v of VArray8 xs \<Rightarrow> xs | _ \<Rightarrow> [])"
definition as_array16 :: "val \<Rightarrow> u16 list" where "as_array16 v = (case v of VArray16 xs \<Rightarrow> xs | _ \<Rightarrow> [])"
definition as_array32 :: "val \<Rightarrow> u32 list" where "as_array32 v = (case v of VArray32 xs \<Rightarrow> xs | _ \<Rightarrow> [])"
definition as_array64 :: "val \<Rightarrow> u64 list" where "as_array64 v = (case v of VArray64 xs \<Rightarrow> xs | _ \<Rightarrow> [])"

definition member :: "nat \<Rightarrow> val \<Rightarrow> val" where
  "member i v = (case v of VStruct xs \<Rightarrow> (if i < length xs then xs ! i else V8 0) | _ \<Rightarrow> V8 0)"

lemmas val_selectors = as8_def as16_def as32_def as64_def as_string_def as_vector_def
  as_array8_def as_array16_def as_array32_def as_array64_def member_def

section \<open>The templates of a class\<close>

text \<open>The functions of a type, on the values that stand for its objects.\<close>

definition via :: "('a \<Rightarrow> val) \<Rightarrow> (val \<Rightarrow> 'a) \<Rightarrow> 'a s11n \<Rightarrow> val s11n" where
  "via emb prj t =
     \<lparr>t_Size = (\<lambda>v. t_Size t (prj v)), t_Serialize = (\<lambda>v buf. t_Serialize t (prj v) buf),
      t_Unserialize = (\<lambda>v buf size. map_option (\<lambda>(r, x). (r, emb x)) (t_Unserialize t (prj v) buf size))\<rparr>"

text \<open>A structure has up to nine members, a message up to twelve.\<close>

fun struct_traits :: "val s11n list \<Rightarrow> val s11n" where
  "struct_traits [a] =
     via (\<lambda>x1. VStruct [x1])
       (\<lambda>v. member 0 v) (S11N_TRAITS_1 a)"
| "struct_traits [a, b] =
     via (\<lambda>(x1, x2). VStruct [x1, x2])
       (\<lambda>v. (member 0 v, member 1 v)) (S11N_TRAITS_2 a b)"
| "struct_traits [a, b, c] =
     via (\<lambda>(x1, x2, x3). VStruct [x1, x2, x3])
       (\<lambda>v. (member 0 v, member 1 v, member 2 v)) (S11N_TRAITS_3 a b c)"
| "struct_traits [a, b, c, d] =
     via (\<lambda>(x1, x2, x3, x4). VStruct [x1, x2, x3, x4])
       (\<lambda>v. (member 0 v, member 1 v, member 2 v, member 3 v)) (S11N_TRAITS_4 a b c d)"
| "struct_traits [a, b, c, d, e] =
     via (\<lambda>(x1, x2, x3, x4, x5). VStruct [x1, x2, x3, x4, x5])
       (\<lambda>v. (member 0 v, member 1 v, member 2 v, member 3 v, member 4 v)) (S11N_TRAITS_5 a b c d e)"
| "struct_traits [a, b, c, d, e, f] =
     via (\<lambda>(x1, x2, x3, x4, x5, x6). VStruct [x1, x2, x3, x4, x5, x6])
       (\<lambda>v. (member 0 v, member 1 v, member 2 v, member 3 v, member 4 v, member 5 v)) (S11N_TRAITS_6 a b c d e f)"
| "struct_traits [a, b, c, d, e, f, g] =
     via (\<lambda>(x1, x2, x3, x4, x5, x6, x7). VStruct [x1, x2, x3, x4, x5, x6, x7])
       (\<lambda>v. (member 0 v, member 1 v, member 2 v, member 3 v, member 4 v, member 5 v, member 6 v)) (S11N_TRAITS_7 a b c d e f g)"
| "struct_traits [a, b, c, d, e, f, g, h] =
     via (\<lambda>(x1, x2, x3, x4, x5, x6, x7, x8). VStruct [x1, x2, x3, x4, x5, x6, x7, x8])
       (\<lambda>v. (member 0 v, member 1 v, member 2 v, member 3 v, member 4 v, member 5 v, member 6 v, member 7 v)) (S11N_TRAITS_8 a b c d e f g h)"
| "struct_traits [a, b, c, d, e, f, g, h, i] =
     via (\<lambda>(x1, x2, x3, x4, x5, x6, x7, x8, x9). VStruct [x1, x2, x3, x4, x5, x6, x7, x8, x9])
       (\<lambda>v. (member 0 v, member 1 v, member 2 v, member 3 v, member 4 v, member 5 v, member 6 v, member 7 v, member 8 v)) (S11N_TRAITS_9 a b c d e f g h i)"
| "struct_traits _ = S11NTraits_other"

fun class_traits :: "val s11n list \<Rightarrow> val s11n" where
  "class_traits [a] =
     via (\<lambda>x1. VStruct [x1])
       (\<lambda>v. member 0 v) (MSG_SllN_1 a)"
| "class_traits [a, b] =
     via (\<lambda>(x1, x2). VStruct [x1, x2])
       (\<lambda>v. (member 0 v, member 1 v)) (MSG_SllN_2 a b)"
| "class_traits [a, b, c] =
     via (\<lambda>(x1, x2, x3). VStruct [x1, x2, x3])
       (\<lambda>v. (member 0 v, member 1 v, member 2 v)) (MSG_SllN_3 a b c)"
| "class_traits [a, b, c, d] =
     via (\<lambda>(x1, x2, x3, x4). VStruct [x1, x2, x3, x4])
       (\<lambda>v. (member 0 v, member 1 v, member 2 v, member 3 v)) (MSG_SllN_4 a b c d)"
| "class_traits [a, b, c, d, e] =
     via (\<lambda>(x1, x2, x3, x4, x5). VStruct [x1, x2, x3, x4, x5])
       (\<lambda>v. (member 0 v, member 1 v, member 2 v, member 3 v, member 4 v)) (MSG_SllN_5 a b c d e)"
| "class_traits [a, b, c, d, e, f] =
     via (\<lambda>(x1, x2, x3, x4, x5, x6). VStruct [x1, x2, x3, x4, x5, x6])
       (\<lambda>v. (member 0 v, member 1 v, member 2 v, member 3 v, member 4 v, member 5 v)) (MSG_SllN_6 a b c d e f)"
| "class_traits [a, b, c, d, e, f, g] =
     via (\<lambda>(x1, x2, x3, x4, x5, x6, x7). VStruct [x1, x2, x3, x4, x5, x6, x7])
       (\<lambda>v. (member 0 v, member 1 v, member 2 v, member 3 v, member 4 v, member 5 v, member 6 v)) (MSG_SllN_7 a b c d e f g)"
| "class_traits [a, b, c, d, e, f, g, h] =
     via (\<lambda>(x1, x2, x3, x4, x5, x6, x7, x8). VStruct [x1, x2, x3, x4, x5, x6, x7, x8])
       (\<lambda>v. (member 0 v, member 1 v, member 2 v, member 3 v, member 4 v, member 5 v, member 6 v, member 7 v)) (MSG_SllN_8 a b c d e f g h)"
| "class_traits [a, b, c, d, e, f, g, h, i] =
     via (\<lambda>(x1, x2, x3, x4, x5, x6, x7, x8, x9). VStruct [x1, x2, x3, x4, x5, x6, x7, x8, x9])
       (\<lambda>v. (member 0 v, member 1 v, member 2 v, member 3 v, member 4 v, member 5 v, member 6 v, member 7 v, member 8 v)) (MSG_SllN_9 a b c d e f g h i)"
| "class_traits [a, b, c, d, e, f, g, h, i, j] =
     via (\<lambda>(x1, x2, x3, x4, x5, x6, x7, x8, x9, x10). VStruct [x1, x2, x3, x4, x5, x6, x7, x8, x9, x10])
       (\<lambda>v. (member 0 v, member 1 v, member 2 v, member 3 v, member 4 v, member 5 v, member 6 v, member 7 v, member 8 v, member 9 v)) (MSG_SllN_10 a b c d e f g h i j)"
| "class_traits [a, b, c, d, e, f, g, h, i, j, k] =
     via (\<lambda>(x1, x2, x3, x4, x5, x6, x7, x8, x9, x10, x11). VStruct [x1, x2, x3, x4, x5, x6, x7, x8, x9, x10, x11])
       (\<lambda>v. (member 0 v, member 1 v, member 2 v, member 3 v, member 4 v, member 5 v, member 6 v, member 7 v, member 8 v, member 9 v, member 10 v)) (MSG_SllN_11 a b c d e f g h i j k)"
| "class_traits [a, b, c, d, e, f, g, h, i, j, k, l] =
     via (\<lambda>(x1, x2, x3, x4, x5, x6, x7, x8, x9, x10, x11, x12). VStruct [x1, x2, x3, x4, x5, x6, x7, x8, x9, x10, x11, x12])
       (\<lambda>v. (member 0 v, member 1 v, member 2 v, member 3 v, member 4 v, member 5 v, member 6 v, member 7 v, member 8 v, member 9 v, member 10 v, member 11 v)) (MSG_SllN_12 a b c d e f g h i j k l)"
| "class_traits _ = S11NTraits_other"

text \<open>A default-constructed object; elements that a vector gains are such objects.\<close>

primrec init :: "kind \<Rightarrow> val" where
  "init KInt8 = V8 0"
| "init KInt16 = V16 0"
| "init KInt32 = V32 0"
| "init KInt64 = V64 0"
| "init KFloat = V32 0"
| "init KDouble = V64 0"
| "init KPointer = V64 0"
| "init KString = VString []"
| "init (KVector k) = VVector []"
| "init (KArray8 n) = VArray8 (replicate n 0)"
| "init (KArray16 n) = VArray16 (replicate n 0)"
| "init (KArray32 n) = VArray32 (replicate n 0)"
| "init (KArray64 n) = VArray64 (replicate n 0)"
| "init (KStruct ks) = VStruct (map init ks)"

primrec traits_of :: "kind \<Rightarrow> val s11n" where
  "traits_of KInt8 = via V8 as8 S11NTraits_integer"
| "traits_of KInt16 = via V16 as16 S11NTraits_integer"
| "traits_of KInt32 = via V32 as32 S11NTraits_integer"
| "traits_of KInt64 = via V64 as64 S11NTraits_integer"
| "traits_of KFloat = via V32 as32 S11NTraits_float"
| "traits_of KDouble = via V64 as64 S11NTraits_double"
| "traits_of KPointer = via V64 as64 S11NTraits_pointer"
| "traits_of KString = via VString as_string S11NTraits_string"
| "traits_of (KVector k) = via VVector as_vector (S11NTraits_vector (init k) (traits_of k))"
| "traits_of (KArray8 n) = via VArray8 as_array8 (S11NTraits_Array n)"
| "traits_of (KArray16 n) = via VArray16 as_array16 (S11NTraits_Array n)"
| "traits_of (KArray32 n) = via VArray32 as_array32 (S11NTraits_Array n)"
| "traits_of (KArray64 n) = via VArray64 as_array64 (S11NTraits_Array n)"
| "traits_of (KStruct ks) = struct_traits (map traits_of ks)"

text \<open>A message class: the types of its members.\<close>

definition message_traits :: "kind list \<Rightarrow> val s11n" where
  "message_traits ks = class_traits (map traits_of ks)"

section \<open>Objects that can be sent\<close>

text \<open>What the macros can declare.\<close>

primrec kind_ok :: "kind \<Rightarrow> bool" where
  "kind_ok KInt8 = True" | "kind_ok KInt16 = True" | "kind_ok KInt32 = True" | "kind_ok KInt64 = True"
| "kind_ok KFloat = True" | "kind_ok KDouble = True" | "kind_ok KPointer = True" | "kind_ok KString = True"
| "kind_ok (KVector k) = kind_ok k"
| "kind_ok (KArray8 n) = True" | "kind_ok (KArray16 n) = True" | "kind_ok (KArray32 n) = True" | "kind_ok (KArray64 n) = True"
| "kind_ok (KStruct ks) = (1 \<le> length ks \<and> length ks \<le> 9 \<and> list_all (\<lambda>b. b) (map kind_ok ks))"

definition class_ok :: "kind list \<Rightarrow> bool" where
  "class_ok ks \<longleftrightarrow> 1 \<le> length ks \<and> length ks \<le> 12 \<and> list_all kind_ok ks"

text \<open>
  The objects of a type whose texts are shorter than 65536 bytes and whose vectors have at most 1024
  elements, which is what the reader accepts.
\<close>

definition fits_vector :: "(val \<Rightarrow> bool) \<Rightarrow> val \<Rightarrow> bool" where
  "fits_vector ok v = (case v of VVector xs \<Rightarrow> length xs \<le> 1024 \<and> list_all ok xs | _ \<Rightarrow> False)"

definition fits_members :: "(val \<Rightarrow> bool) list \<Rightarrow> val \<Rightarrow> bool" where
  "fits_members oks v = (case v of VStruct xs \<Rightarrow> list_all2 (\<lambda>ok x. ok x) oks xs | _ \<Rightarrow> False)"

primrec fits_kind :: "kind \<Rightarrow> val \<Rightarrow> bool" where
  "fits_kind KInt8 = (\<lambda>v. case v of V8 w \<Rightarrow> True | _ \<Rightarrow> False)"
| "fits_kind KInt16 = (\<lambda>v. case v of V16 w \<Rightarrow> True | _ \<Rightarrow> False)"
| "fits_kind KInt32 = (\<lambda>v. case v of V32 w \<Rightarrow> True | _ \<Rightarrow> False)"
| "fits_kind KInt64 = (\<lambda>v. case v of V64 w \<Rightarrow> True | _ \<Rightarrow> False)"
| "fits_kind KFloat = (\<lambda>v. case v of V32 w \<Rightarrow> True | _ \<Rightarrow> False)"
| "fits_kind KDouble = (\<lambda>v. case v of V64 w \<Rightarrow> True | _ \<Rightarrow> False)"
| "fits_kind KPointer = (\<lambda>v. case v of V64 w \<Rightarrow> True | _ \<Rightarrow> False)"
| "fits_kind KString = (\<lambda>v. case v of VString xs \<Rightarrow> length xs < 2 ^ 16 | _ \<Rightarrow> False)"
| "fits_kind (KVector k) = fits_vector (fits_kind k)"
| "fits_kind (KArray8 n) = (\<lambda>v. case v of VArray8 xs \<Rightarrow> length xs = n | _ \<Rightarrow> False)"
| "fits_kind (KArray16 n) = (\<lambda>v. case v of VArray16 xs \<Rightarrow> length xs = n | _ \<Rightarrow> False)"
| "fits_kind (KArray32 n) = (\<lambda>v. case v of VArray32 xs \<Rightarrow> length xs = n | _ \<Rightarrow> False)"
| "fits_kind (KArray64 n) = (\<lambda>v. case v of VArray64 xs \<Rightarrow> length xs = n | _ \<Rightarrow> False)"
| "fits_kind (KStruct ks) = fits_members (map fits_kind ks)"

definition fits_class :: "kind list \<Rightarrow> val \<Rightarrow> bool" where
  "fits_class ks = fits_members (map fits_kind ks)"

text \<open>The format: fixed-width values as they lie in memory, counts in two bytes, members one after another.\<close>

primrec encoding :: "val \<Rightarrow> u8 list" where
  "encoding (V8 w) = obj_bytes w"
| "encoding (V16 w) = obj_bytes w"
| "encoding (V32 w) = obj_bytes w"
| "encoding (V64 w) = obj_bytes w"
| "encoding (VString xs) = obj_bytes (of_nat (length xs) :: u16) @ xs"
| "encoding (VVector xs) = obj_bytes (of_nat (length xs) :: u16) @ concat (map encoding xs)"
| "encoding (VArray8 xs) = concat (map obj_bytes xs)"
| "encoding (VArray16 xs) = concat (map obj_bytes xs)"
| "encoding (VArray32 xs) = concat (map obj_bytes xs)"
| "encoding (VArray64 xs) = concat (map obj_bytes xs)"
| "encoding (VStruct xs) = concat (map encoding xs)"

section \<open>Round trips\<close>

lemma via_codec:
  assumes "s11n_codec t ok enc" "\<And>v. ok' v \<Longrightarrow> ok (prj v) \<and> emb (prj v) = v \<and> enc (prj v) = enc' v"
  shows "s11n_codec (via emb prj t) ok' enc'"
proof
  fix v m buf rest and sz :: u32
  assume v: "ok' v"
  note p = assms(2) [OF v]
  show "snd (t_Serialize (via emb prj t) v buf) = buf @ enc' v"
    using s11n_codec.written [OF assms(1), of "prj v" buf] p by (simp add: via_def)
  assume "length (enc' v) < 2 ^ 32 - 1" "length (enc' v) \<le> unat sz"
  then show "t_Unserialize (via emb prj t) m (enc' v @ rest) sz = Some (of_nat (length (enc' v)), v)"
    using s11n_codec.read_back [OF assms(1), of "prj v" sz "prj m" rest] p by (simp add: via_def)
qed

lemma fits_membersD: "fits_members oks v \<Longrightarrow> \<exists>xs. v = VStruct xs \<and> list_all2 (\<lambda>ok x. ok x) oks xs"
  by (auto simp: fits_members_def split: val.splits)

lemma array_codec:
  assumes "8 dvd LENGTH('a::len)" and "LENGTH('a) \<le> 64"
  shows "s11n_codec (S11NTraits_Array n :: 'a word list s11n) (\<lambda>xs. length xs = n) (\<lambda>xs. concat (map obj_bytes xs))"
proof
  fix xs m :: "'a word list" and sz :: u32 and buf rest :: "u8 list"
  let ?bs = "concat (map obj_bytes xs)"
  assume n: "length xs = n"
  show "snd (t_Serialize (S11NTraits_Array n) xs buf) = buf @ ?bs" by (simp add: S11NTraits_Array_def)
  assume le: "length ?bs < 2 ^ 32 - 1" "length ?bs \<le> unat sz"
  have l: "length (concat (map obj_bytes ys)) = LENGTH('a) div 8 * length ys" for ys :: "'a word list"
    by (induction ys) simp_all
  have s: "split_objs (length ys) (concat (map obj_bytes ys)) = ys" for ys :: "'a word list"
    by (induction ys) (simp_all add: obj_val_obj_bytes assms)
  have "0 < LENGTH('a) div 8" using assms(1) by (simp add: div_greater_zero_iff dvd_imp_le)
  then have "n \<le> LENGTH('a) div 8 * n" by simp
  moreover have "LENGTH('a) div 8 * n \<le> unat sz" using le(2) n unfolding l by simp
  ultimately have "n \<le> unat sz" by (rule le_trans)
  then show "t_Unserialize (S11NTraits_Array n) m (?bs @ rest) sz = Some (of_nat (length ?bs), xs)"
    using s [of xs] l [of xs] n by (simp add: S11NTraits_Array_def mem_read_def size_of_def)
qed

lemma via_1_codec:
  "\<lbrakk>s11n_codec a p1 encoding\<rbrakk> \<Longrightarrow>
    s11n_codec (via (\<lambda>x1. VStruct [x1]) (\<lambda>v. member 0 v)
      (MSG_SllN_1 a)) (fits_members [p1]) encoding"
  by (rule via_codec, rule MSG_SllN_1_codec, assumption+)
    (auto dest!: fits_membersD simp: member_def list_all2_Cons1)

lemma via_2_codec:
  "\<lbrakk>s11n_codec a p1 encoding; s11n_codec b p2 encoding\<rbrakk> \<Longrightarrow>
    s11n_codec (via (\<lambda>(x1, x2). VStruct [x1, x2]) (\<lambda>v. (member 0 v, member 1 v))
      (MSG_SllN_2 a b)) (fits_members [p1, p2]) encoding"
  by (rule via_codec, rule MSG_SllN_2_codec, assumption+)
    (auto dest!: fits_membersD simp: member_def list_all2_Cons1)

lemma via_3_codec:
  "\<lbrakk>s11n_codec a p1 encoding; s11n_codec b p2 encoding; s11n_codec c p3 encoding\<rbrakk> \<Longrightarrow>
    s11n_codec (via (\<lambda>(x1, x2, x3). VStruct [x1, x2, x3]) (\<lambda>v. (member 0 v, member 1 v, member 2 v))
      (MSG_SllN_3 a b c)) (fits_members [p1, p2, p3]) encoding"
  by (rule via_codec, rule MSG_SllN_3_codec, assumption+)
    (auto dest!: fits_membersD simp: member_def list_all2_Cons1)

lemma via_4_codec:
  "\<lbrakk>s11n_codec a p1 encoding; s11n_codec b p2 encoding; s11n_codec c p3 encoding; s11n_codec d p4 encoding\<rbrakk> \<Longrightarrow>
    s11n_codec (via (\<lambda>(x1, x2, x3, x4). VStruct [x1, x2, x3, x4]) (\<lambda>v. (member 0 v, member 1 v, member 2 v, member 3 v))
      (MSG_SllN_4 a b c d)) (fits_members [p1, p2, p3, p4]) encoding"
  by (rule via_codec, rule MSG_SllN_4_codec, assumption+)
    (auto dest!: fits_membersD simp: member_def list_all2_Cons1)

lemma via_5_codec:
  "\<lbrakk>s11n_codec a p1 encoding; s11n_codec b p2 encoding; s11n_codec c p3 encoding; s11n_codec d p4 encoding; s11n_codec e p5 encoding\<rbrakk> \<Longrightarrow>
    s11n_codec (via (\<lambda>(x1, x2, x3, x4, x5). VStruct [x1, x2, x3, x4, x5]) (\<lambda>v. (member 0 v, member 1 v, member 2 v, member 3 v, member 4 v))
      (MSG_SllN_5 a b c d e)) (fits_members [p1, p2, p3, p4, p5]) encoding"
  by (rule via_codec, rule MSG_SllN_5_codec, assumption+)
    (auto dest!: fits_membersD simp: member_def list_all2_Cons1)

lemma via_6_codec:
  "\<lbrakk>s11n_codec a p1 encoding; s11n_codec b p2 encoding; s11n_codec c p3 encoding; s11n_codec d p4 encoding; s11n_codec e p5 encoding; s11n_codec f p6 encoding\<rbrakk> \<Longrightarrow>
    s11n_codec (via (\<lambda>(x1, x2, x3, x4, x5, x6). VStruct [x1, x2, x3, x4, x5, x6]) (\<lambda>v. (member 0 v, member 1 v, member 2 v, member 3 v, member 4 v, member 5 v))
      (MSG_SllN_6 a b c d e f)) (fits_members [p1, p2, p3, p4, p5, p6]) encoding"
  by (rule via_codec, rule MSG_SllN_6_codec, assumption+)
    (auto dest!: fits_membersD simp: member_def list_all2_Cons1)

lemma via_7_codec:
  "\<lbrakk>s11n_codec a p1 encoding; s11n_codec b p2 encoding; s11n_codec c p3 encoding; s11n_codec d p4 encoding; s11n_codec e p5 encoding; s11n_codec f p6 encoding; s11n_codec g p7 encoding\<rbrakk> \<Longrightarrow>
    s11n_codec (via (\<lambda>(x1, x2, x3, x4, x5, x6, x7). VStruct [x1, x2, x3, x4, x5, x6, x7]) (\<lambda>v. (member 0 v, member 1 v, member 2 v, member 3 v, member 4 v, member 5 v, member 6 v))
      (MSG_SllN_7 a b c d e f g)) (fits_members [p1, p2, p3, p4, p5, p6, p7]) encoding"
  by (rule via_codec, rule MSG_SllN_7_codec, assumption+)
    (auto dest!: fits_membersD simp: member_def list_all2_Cons1)

lemma via_8_codec:
  "\<lbrakk>s11n_codec a p1 encoding; s11n_codec b p2 encoding; s11n_codec c p3 encoding; s11n_codec d p4 encoding; s11n_codec e p5 encoding; s11n_codec f p6 encoding; s11n_codec g p7 encoding; s11n_codec h p8 encoding\<rbrakk> \<Longrightarrow>
    s11n_codec (via (\<lambda>(x1, x2, x3, x4, x5, x6, x7, x8). VStruct [x1, x2, x3, x4, x5, x6, x7, x8]) (\<lambda>v. (member 0 v, member 1 v, member 2 v, member 3 v, member 4 v, member 5 v, member 6 v, member 7 v))
      (MSG_SllN_8 a b c d e f g h)) (fits_members [p1, p2, p3, p4, p5, p6, p7, p8]) encoding"
  by (rule via_codec, rule MSG_SllN_8_codec, assumption+)
    (auto dest!: fits_membersD simp: member_def list_all2_Cons1)

lemma via_9_codec:
  "\<lbrakk>s11n_codec a p1 encoding; s11n_codec b p2 encoding; s11n_codec c p3 encoding; s11n_codec d p4 encoding; s11n_codec e p5 encoding; s11n_codec f p6 encoding; s11n_codec g p7 encoding; s11n_codec h p8 encoding; s11n_codec i p9 encoding\<rbrakk> \<Longrightarrow>
    s11n_codec (via (\<lambda>(x1, x2, x3, x4, x5, x6, x7, x8, x9). VStruct [x1, x2, x3, x4, x5, x6, x7, x8, x9]) (\<lambda>v. (member 0 v, member 1 v, member 2 v, member 3 v, member 4 v, member 5 v, member 6 v, member 7 v, member 8 v))
      (MSG_SllN_9 a b c d e f g h i)) (fits_members [p1, p2, p3, p4, p5, p6, p7, p8, p9]) encoding"
  by (rule via_codec, rule MSG_SllN_9_codec, assumption+)
    (auto dest!: fits_membersD simp: member_def list_all2_Cons1)

lemma via_10_codec:
  "\<lbrakk>s11n_codec a p1 encoding; s11n_codec b p2 encoding; s11n_codec c p3 encoding; s11n_codec d p4 encoding; s11n_codec e p5 encoding; s11n_codec f p6 encoding; s11n_codec g p7 encoding; s11n_codec h p8 encoding; s11n_codec i p9 encoding; s11n_codec j p10 encoding\<rbrakk> \<Longrightarrow>
    s11n_codec (via (\<lambda>(x1, x2, x3, x4, x5, x6, x7, x8, x9, x10). VStruct [x1, x2, x3, x4, x5, x6, x7, x8, x9, x10]) (\<lambda>v. (member 0 v, member 1 v, member 2 v, member 3 v, member 4 v, member 5 v, member 6 v, member 7 v, member 8 v, member 9 v))
      (MSG_SllN_10 a b c d e f g h i j)) (fits_members [p1, p2, p3, p4, p5, p6, p7, p8, p9, p10]) encoding"
  by (rule via_codec, rule MSG_SllN_10_codec, assumption+)
    (auto dest!: fits_membersD simp: member_def list_all2_Cons1)

lemma via_11_codec:
  "\<lbrakk>s11n_codec a p1 encoding; s11n_codec b p2 encoding; s11n_codec c p3 encoding; s11n_codec d p4 encoding; s11n_codec e p5 encoding; s11n_codec f p6 encoding; s11n_codec g p7 encoding; s11n_codec h p8 encoding; s11n_codec i p9 encoding; s11n_codec j p10 encoding; s11n_codec k p11 encoding\<rbrakk> \<Longrightarrow>
    s11n_codec (via (\<lambda>(x1, x2, x3, x4, x5, x6, x7, x8, x9, x10, x11). VStruct [x1, x2, x3, x4, x5, x6, x7, x8, x9, x10, x11]) (\<lambda>v. (member 0 v, member 1 v, member 2 v, member 3 v, member 4 v, member 5 v, member 6 v, member 7 v, member 8 v, member 9 v, member 10 v))
      (MSG_SllN_11 a b c d e f g h i j k)) (fits_members [p1, p2, p3, p4, p5, p6, p7, p8, p9, p10, p11]) encoding"
  by (rule via_codec, rule MSG_SllN_11_codec, assumption+)
    (auto dest!: fits_membersD simp: member_def list_all2_Cons1)

lemma via_12_codec:
  "\<lbrakk>s11n_codec a p1 encoding; s11n_codec b p2 encoding; s11n_codec c p3 encoding; s11n_codec d p4 encoding; s11n_codec e p5 encoding; s11n_codec f p6 encoding; s11n_codec g p7 encoding; s11n_codec h p8 encoding; s11n_codec i p9 encoding; s11n_codec j p10 encoding; s11n_codec k p11 encoding; s11n_codec l p12 encoding\<rbrakk> \<Longrightarrow>
    s11n_codec (via (\<lambda>(x1, x2, x3, x4, x5, x6, x7, x8, x9, x10, x11, x12). VStruct [x1, x2, x3, x4, x5, x6, x7, x8, x9, x10, x11, x12]) (\<lambda>v. (member 0 v, member 1 v, member 2 v, member 3 v, member 4 v, member 5 v, member 6 v, member 7 v, member 8 v, member 9 v, member 10 v, member 11 v))
      (MSG_SllN_12 a b c d e f g h i j k l)) (fits_members [p1, p2, p3, p4, p5, p6, p7, p8, p9, p10, p11, p12]) encoding"
  by (rule via_codec, rule MSG_SllN_12_codec, assumption+)
    (auto dest!: fits_membersD simp: member_def list_all2_Cons1)

lemmas via_codecs = via_1_codec via_2_codec via_3_codec via_4_codec via_5_codec via_6_codec via_7_codec via_8_codec
  via_9_codec via_10_codec via_11_codec via_12_codec

lemma struct_traits_codec:
  assumes "list_all2 (\<lambda>t ok. s11n_codec t ok encoding) ts oks" "1 \<le> length ts" "length ts \<le> 9"
  shows "s11n_codec (struct_traits ts) (fits_members oks) encoding"
  using assms
  by (cases ts rule: struct_traits.cases) (auto simp: list_all2_Cons1 S11N_TRAITS_eqs simp del: One_nat_def intro!: via_codecs)

lemma class_traits_codec:
  assumes "list_all2 (\<lambda>t ok. s11n_codec t ok encoding) ts oks" "1 \<le> length ts" "length ts \<le> 12"
  shows "s11n_codec (class_traits ts) (fits_members oks) encoding"
  using assms
  by (cases ts rule: class_traits.cases) (auto simp: list_all2_Cons1 simp del: One_nat_def intro!: via_codecs)

lemma members_ok:
  assumes "\<And>k. k \<in> set ks \<Longrightarrow> P (traits_of k) (fits_kind k)"
  shows "list_all2 P (map traits_of ks) (map fits_kind ks)"
  using assms by (simp add: list_all2_conv_all_nth)

lemma fits_vectorD: "fits_vector ok v \<Longrightarrow> \<exists>xs. v = VVector xs \<and> length xs \<le> 1024 \<and> (\<forall>x\<in>set xs. ok x)"
  by (auto simp: fits_vector_def list_all_iff split: val.splits)

lemma kind_codec: "kind_ok k \<Longrightarrow> s11n_codec (traits_of k) (fits_kind k) encoding"
proof (induction k)
  case KString
  show ?case unfolding traits_of.simps
    by (rule via_codec [OF string_codec [THEN s11n_sized.axioms(1)]]) (auto simp: val_selectors split: val.splits)
next
  case (KVector k)
  then have "s11n_codec (traits_of k) (fits_kind k) encoding" by simp
  from vector_codec [OF this] show ?case unfolding traits_of.simps
    by (rule via_codec) (auto simp: val_selectors dest!: fits_vectorD)
next
  case (KStruct ks)
  then have "list_all2 (\<lambda>t ok. s11n_codec t ok encoding) (map traits_of ks) (map fits_kind ks)"
    by (intro members_ok) (simp add: list_all_iff)
  from struct_traits_codec [OF this] show ?case using KStruct.prems by simp
qed (unfold traits_of.simps S11NTraits_float_def S11NTraits_double_def S11NTraits_pointer_def,
  (rule via_codec [OF integer_codec [THEN s11n_sized.axioms(1)]] via_codec [OF array_codec],
   auto simp: val_selectors split: val.splits)+)

text \<open>The contract of a message class.\<close>

lemma message_codec: "class_ok ks \<Longrightarrow> s11n_codec (message_traits ks) (fits_class ks) encoding"
  unfolding message_traits_def fits_class_def
  by (rule class_traits_codec [OF members_ok]) (auto simp: class_ok_def list_all_iff intro: kind_codec)

section \<open>Safety\<close>

text \<open>Classes without an array member, also inside of vectors and structures.\<close>

primrec no_array :: "kind \<Rightarrow> bool" where
  "no_array KInt8 = True" | "no_array KInt16 = True" | "no_array KInt32 = True" | "no_array KInt64 = True"
| "no_array KFloat = True" | "no_array KDouble = True" | "no_array KPointer = True" | "no_array KString = True"
| "no_array (KVector k) = no_array k"
| "no_array (KArray8 n) = False" | "no_array (KArray16 n) = False" | "no_array (KArray32 n) = False" | "no_array (KArray64 n) = False"
| "no_array (KStruct ks) = list_all (\<lambda>b. b) (map no_array ks)"

lemma via_safe: "s11n_safe t \<Longrightarrow> s11n_safe (via emb prj t)"
  by (auto simp: s11n_safe_def via_def consumes_def split: option.splits)
     (metis option.distinct(1) option.inject prod.inject surj_pair)+

lemma other_safe: "s11n_safe S11NTraits_other"
  by (simp add: s11n_safe_def S11NTraits_other_def consumes_def)

lemmas members_safe = MSG_SllN_1_safe MSG_SllN_2_safe MSG_SllN_3_safe MSG_SllN_4_safe MSG_SllN_5_safe MSG_SllN_6_safe
  MSG_SllN_7_safe MSG_SllN_8_safe MSG_SllN_9_safe MSG_SllN_10_safe MSG_SllN_11_safe MSG_SllN_12_safe

lemma struct_traits_safe: "list_all s11n_safe ts \<Longrightarrow> s11n_safe (struct_traits ts)"
  by (cases ts rule: struct_traits.cases) (auto simp: S11N_TRAITS_eqs other_safe intro!: via_safe members_safe)

lemma class_traits_safe: "list_all s11n_safe ts \<Longrightarrow> s11n_safe (class_traits ts)"
  by (cases ts rule: class_traits.cases) (auto simp: other_safe intro!: via_safe members_safe)

lemma kind_safe: "no_array k \<Longrightarrow> s11n_safe (traits_of k)"
proof (induction k)
  case (KStruct ks)
  then have "list_all s11n_safe (map traits_of ks)" by (simp add: list_all_iff)
  then show ?case by (simp add: struct_traits_safe)
qed (simp_all add: via_safe integer_safe string_safe vector_safe S11NTraits_float_def S11NTraits_double_def S11NTraits_pointer_def)

lemma message_safe: "list_all no_array ks \<Longrightarrow> s11n_safe (message_traits ks)"
  unfolding message_traits_def by (rule class_traits_safe) (auto simp: list_all_iff intro: kind_safe)

end
