(* ===== verification/Typed_Messages.thy ===== *)
theory Typed_Messages
  imports Message_Kinds Tcp_Master Msg_Handler Examples
begin

text \<open>
  Messages as objects of message classes: the typed send functions of
  \<^verbatim>\<open>Network/TcpServerWrapper.h\<close> and the typed handlers of \<^verbatim>\<open>MsgHandler/MsgHandler.h\<close>,
  which are templates over the classes that \<^verbatim>\<open>Common/Serialize.h\<close> generates. The message
  class is a parameter: its traits \<open>t\<close> and its number.
\<close>

section \<open>Sending and handling\<close>

definition typed_bytes :: "u8 \<Rightarrow> 'a s11n \<Rightarrow> 'a \<Rightarrow> u8 list" where
  "typed_bytes msgid t msg = FixHeader (snd (t_Serialize t msg (BuildHeader msgid [])))"

definition SendMsgToClient_typed ::
    "int \<Rightarrow> u8 \<Rightarrow> 'a s11n \<Rightarrow> 'a \<Rightarrow> server_wrapper \<Rightarrow> server_wrapper option" where
  "SendMsgToClient_typed sid msgid t msg w =
     (if \<not> m_Active w then Some w
      else (case GetConn sid w of
              None \<Rightarrow> None
            | Some p \<Rightarrow> Some (w\<lparr>m_TcpService := send_at p (typed_bytes msgid t msg) (m_TcpService w)\<rparr>)))"

definition SendMsgToConduit_typed ::
    "u8 \<Rightarrow> 'a s11n \<Rightarrow> 'a \<Rightarrow> server_wrapper \<Rightarrow> conduit \<Rightarrow> conduit" where
  "SendMsgToConduit_typed msgid t msg w c =
     (if \<not> m_Active w then c else conduit_send (typed_bytes msgid t msg) c)"

text \<open>
  \<^verbatim>\<open>HandlerWrapper\<close>: the memory behind the header is read into a default-constructed message
  \<open>d\<close>; the handler is called (the header and message it gets) unless the bytes do not fit.
\<close>

definition HandlerWrapper ::
    "'a s11n \<Rightarrow> 'a \<Rightarrow> hdr \<Rightarrow> u8 list \<Rightarrow> (bool \<times> (hdr \<times> 'a) option) option" where
  "HandlerWrapper t d h mem =
     (case t_Unserialize t d mem (bodyLen (msgHdr h)) of
        None \<Rightarrow> None
      | Some (r, msg1) \<Rightarrow> Some (True, if r \<noteq> - 1 then Some (h, msg1) else None))"

section \<open>Properties\<close>

lemma minus_one_unat: "unat (- 1 :: u32) = 2 ^ 32 - 1"
  by (simp add: unsigned_minus_1_eq_mask mask_eq_exp_minus_1)

text \<open>
  C7: For every message class that the macros can declare (one to twelve members: integers, floating-point numbers,
  pointers, texts, fixed arrays of integers, vectors and structures of up to nine members, nested in any way): an
  object whose texts are shorter than 65536 bytes and whose vectors have at most 1024 elements, written by its class into a
  body of fewer than \<open>2 ^ 32 - 1\<close> bytes and handed to a typed handler, calls the handler with exactly this
  object, whatever memory follows the body and whatever the fresh message object held. (Longer vectors are written but
  refused by the reader: \<open>long_vector_refused\<close>.)
\<close>

theorem handler_gets_message:
  assumes "class_ok ks" and "fits_class ks msg" and "snd (t_Serialize (message_traits ks) msg []) = body"
    and "length body < 2 ^ 32 - 1" and "unat (bodyLen (msgHdr h)) = length body"
  shows "HandlerWrapper (message_traits ks) d h (body @ rest) = Some (True, Some (h, msg))"
proof -
  note c = message_codec [OF assms(1)]
  have b: "body = encoding msg" using s11n_codec.written [OF c assms(2), of "[]"] assms(3) by simp
  have n: "bodyLen (msgHdr h) = of_nat (length body)"
    using assms(5) [symmetric] by simp
  have "(of_nat (length body) :: u32) \<noteq> - 1"
    using assms(4,5) n minus_one_unat by (metis nat_less_le)
  then show ?thesis
    using s11n_codec.read_back [OF c assms(2), of "bodyLen (msgHdr h)" d rest] assms(4,5)
    by (simp add: HandlerWrapper_def b [symmetric])
qed

text \<open>A class with members of all kinds, and an object of it.\<close>

definition ex_class :: "kind list" where
  "ex_class = [KInt8, KInt16, KInt32, KInt64, KFloat, KDouble, KPointer, KString, KVector KInt32, KArray16 2,
     KStruct [KInt16, KString], KVector (KStruct [KInt16, KString])]"

definition ex_object :: val where
  "ex_object = VStruct [V8 1, V16 2, V32 3, V64 4, V32 5, V64 6, V64 7, VString [97], VVector [V32 8, V32 9], VArray16 [10, 11],
     VStruct [V16 12, VString [98, 99]], VVector [VStruct [V16 13, VString []]]]"

lemma ex_object_fits: "class_ok ex_class" "fits_class ex_class ex_object"
  by (simp_all add: class_ok_def ex_class_def fits_class_def fits_members_def fits_vector_def ex_object_def)

lemma ex_object_bytes: "length (snd (t_Serialize (message_traits ex_class) ex_object [])) = 64"
  unfolding s11n_codec.written [OF message_codec [OF ex_object_fits(1)] ex_object_fits(2)]
  by (simp add: ex_object_def)

theorem handler_gets_message_witness:
  "HandlerWrapper (message_traits ex_class) (VStruct (map init ex_class)) (mk_client_hdr 7 0 64 1)
     (snd (t_Serialize (message_traits ex_class) ex_object []) @ [1, 2])
   = Some (True, Some (mk_client_hdr 7 0 64 1, ex_object))"
  by (rule handler_gets_message [OF ex_object_fits refl]) (simp_all add: ex_object_bytes mk_client_hdr_def MsgHdr_def)

text \<open>
  C8: For every message class without array members (also inside of vectors and structures): no message body, however
  broken, makes its typed handler read behind the body's announced length: over a memory of just this length the
  call succeeds, and the handler is called or not. What the reader reports is \<open>-1\<close> or no more than
  that length. (An array member can make it read outside: \<open>array_reads_outside\<close>.)
\<close>

theorem handler_input_safe:
  assumes "list_all no_array ks" and "unat (bodyLen (msgHdr h)) \<le> length mem"
  shows "\<exists>r msg1. t_Unserialize (message_traits ks) d mem (bodyLen (msgHdr h)) = Some (r, msg1) \<and>
    (r = - 1 \<or> r \<le> bodyLen (msgHdr h)) \<and>
    HandlerWrapper (message_traits ks) d h mem = Some (True, if r = - 1 then None else Some (h, msg1))"
  using s11n_safe.safe [OF message_safe [OF assms(1)] assms(2), of d]
  by (auto simp: HandlerWrapper_def consumes_def split: option.splits)

theorem handler_input_safe_witness:
  "HandlerWrapper (message_traits [KString, KVector KInt64]) (VStruct [VString [], VVector []]) (mk_client_hdr 7 0 2 1) [255, 255] \<noteq> None"
proof -
  have "list_all no_array [KString, KVector KInt64]" by simp
  moreover have "unat (bodyLen (msgHdr (mk_client_hdr 7 0 2 1))) \<le> length [255 :: u8, 255]"
    by (simp add: mk_client_hdr_def MsgHdr_def)
  ultimately show ?thesis
    using handler_input_safe [of "[KString, KVector KInt64]" "mk_client_hdr 7 0 2 1" "[255, 255]" "VStruct [VString [], VVector []]"]
    by (metis option.distinct(1))
qed

text \<open>
  The size of a message with twelve members lacks exactly its last member, so the buffer
  reserved for it is too small whenever this member takes any room.
\<close>

theorem twelve_member_size:
  "t_Size (MSG_SllN_12 t1 t2 t3 t4 t5 t6 t7 t8 t9 t10 t11 t12)
     (m1, m2, m3, m4, m5, m6, m7, m8, m9, m10, m11, m12) + t_Size t12 m12
   = t_Size (S11N_TRAITS_2 (MSG_SllN_11 t1 t2 t3 t4 t5 t6 t7 t8 t9 t10 t11) t12)
       ((m1, m2, m3, m4, m5, m6, m7, m8, m9, m10, m11), m12)"
  by (simp add: MSG_SllN_12_def MSG_SllN_11_def S11N_TRAITS_2_def)

text \<open>
  Reading an array member checks the announced size against the number of elements and
  not of bytes: with 32-bit elements, a size that lies between them makes it read behind the
  memory it was given.
\<close>

theorem array_reads_outside:
  assumes "n \<le> unat sz" and "unat sz < 4 * n" and "length mem = unat sz"
  shows "t_Unserialize (S11NTraits_Array n :: u32 list s11n) xs mem sz = None"
  using assms by (simp add: S11NTraits_Array_def mem_read_def size_of_def)

theorem array_reads_outside_witness:
  "t_Unserialize (S11NTraits_Array 2 :: u32 list s11n) [0, 0] [1, 2, 3, 4, 5] 5 = None"
  by (rule array_reads_outside) simp_all

text \<open>
  A vector of more than 1024 elements is written without complaint but never read: the
  reader refuses every message that contains it.
\<close>

theorem long_vector_refused:
  assumes "1024 < length xs" and "length xs < 2 ^ 16" and "2 \<le> unat sz"
    and "s11n_codec t ok enc" and "\<forall>x \<in> set xs. ok x"
  shows "snd (t_Serialize (S11NTraits_vector d t) xs buf)
      = buf @ obj_bytes (of_nat (length xs) :: u16) @ concat (map enc xs) \<and>
    t_Unserialize (S11NTraits_vector d t) m
      (obj_bytes (of_nat (length xs) :: u16) @ concat (map enc xs)) sz = Some (- 1, m)"
proof -
  have w: "snd (t_Serialize (S11NTraits_vector d t) xs buf)
      = buf @ obj_bytes (of_nat (length xs) :: u16) @ concat (map enc xs)"
    using vec_write_codec [OF assms(4,5), of 2 "buf @ obj_bytes (of_nat (length xs) :: u16)"]
    by (auto simp: S11NTraits_vector_def split: prod.splits)
  have v: "(obj_val (obj_bytes (of_nat (length xs) :: u16)) :: u16) = of_nat (length xs)"
    by (simp add: obj_val_obj_bytes)
  have "unat (of_nat (length xs) :: u16) = length xs"
    using assms(2) by (simp add: unsigned_of_nat take_bit_nat_eq_self)
  then have "(of_nat (length xs) :: u16) > 1024" using assms(1) by (simp add: word_less_nat_alt)
  with w assms(3) v show ?thesis by (simp add: S11NTraits_vector_def mem_read_def Let_def)
qed

theorem long_vector_refused_witness:
  "t_Unserialize (S11NTraits_vector 0 S11NTraits_integer) [1 :: u8]
     (obj_bytes (1025 :: u16) @ concat (map obj_bytes (replicate 1025 (0 :: u8)))) 1027 = Some (- 1, [1])"
proof -
  have n: "1024 < length (replicate 1025 (0 :: u8))" "length (replicate 1025 (0 :: u8)) < 2 ^ 16"
    "2 \<le> unat (1027 :: u32)" "\<forall>x \<in> set (replicate 1025 (0 :: u8)). (\<lambda>_. True) x" by simp_all
  have c: "s11n_codec (S11NTraits_integer :: u8 s11n) (\<lambda>_. True) obj_bytes"
    using integer_codec [where 'a = 8, THEN s11n_sized.axioms(1)] by simp
  from long_vector_refused [OF n(1,2,3) c n(4), of 0 "[]" "[1]"]
  show ?thesis by simp
qed

text \<open>
  What the typed send functions send is not understood by the program's own packet
  cutter: their header has four bytes, the cutter's ten. A message sent alone is never taken
  out of the receiver's buffer.
\<close>

theorem typed_message_not_understood:
  assumes "s11n_codec t ok enc" and "ok msg" and "length (enc msg) < 2 ^ 16"
    and "\<And>b. pulled 8 pull b"
  shows "on_read cls pull (\<lambda>_. True) uid (typed_bytes msgid t msg) = ([], typed_bytes msgid t msg, False)"
proof -
  let ?lb = "obj_bytes (of_nat (length (enc msg)) :: u16)"
  obtain x y where xy: "?lb = [x, y]" by (simp add: obj_bytes_u16)
  have b: "typed_bytes msgid t msg = [x, y, 0xFF, msgid] @ enc msg"
    using s11n_codec.written [OF assms(1,2)]
    by (simp add: typed_bytes_def BuildHeader_def FixHeader_def overwrite_def xy)
  let ?b = "[x, y, 0xFF, msgid] @ enc msg"
  have mem: "pull ?b 8 0 = x" "pull ?b 8 1 = y"
    using pulledD [OF assms(4), of 0 ?b] pulledD [OF assms(4), of 1 ?b] by simp_all
  have "unat (obj_val [x, y] :: u16) = length (enc msg)"
    using assms(3) by (simp add: xy [symmetric] obj_val_obj_bytes unsigned_of_nat take_bit_nat_eq_self)
  then have "parsePacket cls (pull ?b 8) (length ?b) 0 0 = (0, 0, 0, 0, 0)"
    using mem by (simp add: parse_defs Let_def)
  then show ?thesis unfolding b by (rule on_read_incomplete)
qed

theorem typed_message_not_understood_witness:
  "on_read GameClient ex_pull (\<lambda>_. True) 1 (typed_bytes 5 S11NTraits_string [7 :: u8])
    = ([], typed_bytes 5 S11NTraits_string [7], False)"
proof (rule typed_message_not_understood [OF string_codec [THEN s11n_sized.axioms(1)]])
  show "pulled 8 ex_pull b" for b by (simp add: pulled_def ex_pull_def)
qed simp_all

end
