(* ===== verification/Node_Lists.thy ===== *)
theory Node_Lists
  imports Prelude
begin

text \<open>
  \<^verbatim>\<open>Common/Node.h\<close>: the intrusive lists. The macros work on the link fields that the user's
  structures contain; the memory is a record of these fields by node. \<open>None\<close> as a pointer
  is \<^verbatim>\<open>NULL\<close>; \<open>None\<close> as the result of an operation is an access through it.
\<close>

section \<open>Free lists\<close>

record 'n freelist =
  m_Size :: nat
  m_Count :: nat
  m_Nodes :: "nat \<Rightarrow> 'n"

definition INET_FREELIST_INIT :: "nat \<Rightarrow> 'n freelist \<Rightarrow> 'n freelist" where
  "INET_FREELIST_INIT n h = h\<lparr>m_Size := n, m_Count := 0\<rparr>"

text \<open>The value of the expression is the node stored, or 0 when the list is full.\<close>

definition INET_FREELIST_PUSH :: "'n \<Rightarrow> 'n freelist \<Rightarrow> 'n option \<times> 'n freelist" where
  "INET_FREELIST_PUSH node h =
     (if m_Count h = m_Size h then (None, h)
      else (Some node, h\<lparr>m_Nodes := (m_Nodes h)(m_Count h := node), m_Count := m_Count h + 1\<rparr>))"

definition INET_FREELIST_POP :: "'n freelist \<Rightarrow> 'n option \<times> 'n freelist" where
  "INET_FREELIST_POP h =
     (if m_Count h = 0 then (None, h)
      else (Some (m_Nodes h (m_Count h - 1)), h\<lparr>m_Count := m_Count h - 1\<rparr>))"

definition INET_FREELIST_EMPTY :: "'n freelist \<Rightarrow> bool" where
  "INET_FREELIST_EMPTY h \<longleftrightarrow> m_Count h = 0"

section \<open>Single lists\<close>

record 'n slist_mem =
  s_First :: "'n option"
  s_Next :: "'n \<Rightarrow> 'n option"

definition INET_LIST_EMPTY :: "'n slist_mem \<Rightarrow> bool" where
  "INET_LIST_EMPTY m \<longleftrightarrow> s_First m = None"

definition INET_LIST_INIT :: "'n slist_mem \<Rightarrow> 'n slist_mem" where
  "INET_LIST_INIT m = m\<lparr>s_First := None\<rparr>"

definition INET_LIST_INSERT_AFTER :: "'n \<Rightarrow> 'n \<Rightarrow> 'n slist_mem \<Rightarrow> 'n slist_mem" where
  "INET_LIST_INSERT_AFTER slistelm elm m =
     (let m1 = m\<lparr>s_Next := (s_Next m)(elm := s_Next m slistelm)\<rparr>
      in m1\<lparr>s_Next := (s_Next m1)(slistelm := Some elm)\<rparr>)"

definition INET_LIST_INSERT_HEAD :: "'n \<Rightarrow> 'n slist_mem \<Rightarrow> 'n slist_mem" where
  "INET_LIST_INSERT_HEAD elm m = m\<lparr>s_Next := (s_Next m)(elm := s_First m), s_First := Some elm\<rparr>"

definition INET_LIST_REMOVE_HEAD :: "'n slist_mem \<Rightarrow> 'n slist_mem option" where
  "INET_LIST_REMOVE_HEAD m =
     (case s_First m of None \<Rightarrow> None | Some x \<Rightarrow> Some (m\<lparr>s_First := s_Next m x\<rparr>))"

section \<open>Double lists\<close>

text \<open>
  A double list links every node to the \<^emph>\<open>field\<close> that points to it: the first pointer of the
  head, or the next pointer of the node before. The head keeps the address of the last next
  pointer.
\<close>

datatype 'n link = First | NextOf 'n

record 'n dlist_mem =
  d_First :: "'n option"
  d_Last :: "'n link"
  d_Next :: "'n \<Rightarrow> 'n option"
  d_Prev :: "'n \<Rightarrow> 'n link"

text \<open>\<^verbatim>\<open>*l\<close> and \<^verbatim>\<open>*l = p\<close>.\<close>

definition deref :: "'n link \<Rightarrow> 'n dlist_mem \<Rightarrow> 'n option" where
  "deref l m = (case l of First \<Rightarrow> d_First m | NextOf x \<Rightarrow> d_Next m x)"

definition assign :: "'n link \<Rightarrow> 'n option \<Rightarrow> 'n dlist_mem \<Rightarrow> 'n dlist_mem" where
  "assign l p m =
     (case l of First \<Rightarrow> m\<lparr>d_First := p\<rparr> | NextOf x \<Rightarrow> m\<lparr>d_Next := (d_Next m)(x := p)\<rparr>)"

text \<open>
  \<^verbatim>\<open>((struct headname *) l)->m_Last\<close>: the cast reads the field behind the pointer at \<open>l\<close>,
  which is \<^verbatim>\<open>m_Last\<close> in the head and \<^verbatim>\<open>m_Prev\<close> in a node.
\<close>

definition behind :: "'n link \<Rightarrow> 'n dlist_mem \<Rightarrow> 'n link" where
  "behind l m = (case l of First \<Rightarrow> d_Last m | NextOf x \<Rightarrow> d_Prev m x)"

definition INET_DLIST_LAST :: "'n dlist_mem \<Rightarrow> 'n option" where
  "INET_DLIST_LAST m = deref (behind (d_Last m) m) m"

definition INET_DLIST_PREV :: "'n \<Rightarrow> 'n dlist_mem \<Rightarrow> 'n option" where
  "INET_DLIST_PREV elm m = deref (behind (d_Prev m elm) m) m"

definition INET_DLIST_EMPTY :: "'n dlist_mem \<Rightarrow> bool" where
  "INET_DLIST_EMPTY m \<longleftrightarrow> d_First m = None"

definition INET_DLIST_INIT :: "'n dlist_mem \<Rightarrow> 'n dlist_mem" where
  "INET_DLIST_INIT m = m\<lparr>d_First := None, d_Last := First\<rparr>"

definition INET_DLIST_INSERT_HEAD :: "'n \<Rightarrow> 'n dlist_mem \<Rightarrow> 'n dlist_mem" where
  "INET_DLIST_INSERT_HEAD elm m =
     (let m1 = m\<lparr>d_Next := (d_Next m)(elm := d_First m)\<rparr>;
          m2 = (case d_First m1 of
                  Some f \<Rightarrow> m1\<lparr>d_Prev := (d_Prev m1)(f := NextOf elm)\<rparr>
                | None \<Rightarrow> m1\<lparr>d_Last := NextOf elm\<rparr>);
          m3 = m2\<lparr>d_First := Some elm\<rparr>
      in m3\<lparr>d_Prev := (d_Prev m3)(elm := First)\<rparr>)"

definition INET_DLIST_INSERT_TAIL :: "'n \<Rightarrow> 'n dlist_mem \<Rightarrow> 'n dlist_mem" where
  "INET_DLIST_INSERT_TAIL elm m =
     (let m1 = m\<lparr>d_Next := (d_Next m)(elm := None)\<rparr>;
          m2 = m1\<lparr>d_Prev := (d_Prev m1)(elm := d_Last m1)\<rparr>;
          m3 = assign (d_Last m2) (Some elm) m2
      in m3\<lparr>d_Last := NextOf elm\<rparr>)"

definition INET_DLIST_INSERT_AFTER :: "'n \<Rightarrow> 'n \<Rightarrow> 'n dlist_mem \<Rightarrow> 'n dlist_mem" where
  "INET_DLIST_INSERT_AFTER listelm elm m =
     (let m1 = m\<lparr>d_Next := (d_Next m)(elm := d_Next m listelm)\<rparr>;
          m2 = (case d_Next m1 elm of
                  Some n \<Rightarrow> m1\<lparr>d_Prev := (d_Prev m1)(n := NextOf elm)\<rparr>
                | None \<Rightarrow> m1\<lparr>d_Last := NextOf elm\<rparr>);
          m3 = m2\<lparr>d_Next := (d_Next m2)(listelm := Some elm)\<rparr>
      in m3\<lparr>d_Prev := (d_Prev m3)(elm := NextOf listelm)\<rparr>)"

definition INET_DLIST_INSERT_BEFORE :: "'n \<Rightarrow> 'n \<Rightarrow> 'n dlist_mem \<Rightarrow> 'n dlist_mem" where
  "INET_DLIST_INSERT_BEFORE listelm elm m =
     (let m1 = m\<lparr>d_Prev := (d_Prev m)(elm := d_Prev m listelm)\<rparr>;
          m2 = m1\<lparr>d_Next := (d_Next m1)(elm := Some listelm)\<rparr>;
          m3 = assign (d_Prev m2 listelm) (Some elm) m2
      in m3\<lparr>d_Prev := (d_Prev m3)(listelm := NextOf elm)\<rparr>)"

definition INET_DLIST_REMOVE :: "'n \<Rightarrow> 'n dlist_mem \<Rightarrow> 'n dlist_mem" where
  "INET_DLIST_REMOVE elm m =
     (let m1 = (case d_Next m elm of
                  Some n \<Rightarrow> m\<lparr>d_Prev := (d_Prev m)(n := d_Prev m elm)\<rparr>
                | None \<Rightarrow> m\<lparr>d_Last := d_Prev m elm\<rparr>)
      in assign (d_Prev m1 elm) (d_Next m1 elm) m1)"

text \<open>\<^verbatim>\<open>INET_DLIST_FOREACH\<close>: the nodes visited, with at most \<open>n\<close> steps.\<close>

fun INET_DLIST_FOREACH :: "nat \<Rightarrow> 'n option \<Rightarrow> 'n dlist_mem \<Rightarrow> 'n list" where
  "INET_DLIST_FOREACH 0 p m = []"
| "INET_DLIST_FOREACH (Suc n) None m = []"
| "INET_DLIST_FOREACH (Suc n) (Some x) m = x # INET_DLIST_FOREACH n (d_Next m x) m"

section \<open>Double lists as lists\<close>

text \<open>The nodes \<open>xs\<close> are chained from the field \<open>l\<close> on; \<open>endl l xs\<close> is the last field.\<close>

fun path :: "'n link \<Rightarrow> 'n list \<Rightarrow> 'n dlist_mem \<Rightarrow> bool" where
  "path l [] m \<longleftrightarrow> True"
| "path l (x # xs) m \<longleftrightarrow> deref l m = Some x \<and> d_Prev m x = l \<and> path (NextOf x) xs m"

fun endl :: "'n link \<Rightarrow> 'n list \<Rightarrow> 'n link" where
  "endl l [] = l"
| "endl l (x # xs) = endl (NextOf x) xs"

text \<open>The fields that hold the nodes of the chain.\<close>

fun links :: "'n link \<Rightarrow> 'n list \<Rightarrow> 'n link set" where
  "links l [] = {}"
| "links l (x # xs) = insert l (links (NextOf x) xs)"

definition dlist :: "'n list \<Rightarrow> 'n dlist_mem \<Rightarrow> bool" where
  "dlist xs m \<longleftrightarrow>
     distinct xs \<and> path First xs m \<and> deref (endl First xs) m = None \<and> d_Last m = endl First xs"

lemma endl_cases: "endl l xs = (if xs = [] then l else NextOf (last xs))"
  by (induction l xs rule: endl.induct) auto

lemma endl_append [simp]: "endl l (xs @ ys) = endl (endl l xs) ys"
  by (induction l xs rule: endl.induct) auto

lemma path_append [simp]: "path l (xs @ ys) m \<longleftrightarrow> path l xs m \<and> path (endl l xs) ys m"
  by (induction l xs m rule: path.induct) auto

lemma links_subset: "links l xs \<subseteq> insert l (NextOf ` set xs)"
  by (induction l xs rule: links.induct) auto

lemma links_not_end: "distinct xs \<Longrightarrow> l \<notin> NextOf ` set xs \<Longrightarrow> l' \<in> links l xs \<Longrightarrow> l' \<noteq> endl l xs"
proof (induction l xs arbitrary: l' rule: links.induct)
  case (2 l x xs)
  show ?case
  proof (cases "l' = l")
    case True
    then show ?thesis using 2(3) by (auto simp: endl_cases)
  next
    case False
    with 2 show ?thesis by auto
  qed
qed simp

lemma path_frame:
  "path l xs m \<Longrightarrow> (\<And>l'. l' \<in> links l xs \<Longrightarrow> deref l' m' = deref l' m) \<Longrightarrow>
    (\<And>x. x \<in> set xs \<Longrightarrow> d_Prev m' x = d_Prev m x) \<Longrightarrow> path l xs m'"
  by (induction l xs m rule: path.induct) auto

lemma deref_NextOf [simp]: "deref (NextOf x) m = d_Next m x" by (simp add: deref_def)

text \<open>The part of a chain before a changed field, and the part behind the changed nodes.\<close>

lemma front_frame:
  assumes "path First as m" and "distinct as" and "elm \<notin> set as"
    and "\<And>l. l \<noteq> endl First as \<Longrightarrow> l \<noteq> NextOf elm \<Longrightarrow> deref l m' = deref l m"
    and "\<And>x. x \<in> set as \<Longrightarrow> d_Prev m' x = d_Prev m x"
  shows "path First as m'"
proof (rule path_frame [OF assms(1)])
  fix l assume l: "l \<in> links First as"
  have "l \<noteq> endl First as" by (rule links_not_end [OF assms(2) _ l]) auto
  moreover have "l \<noteq> NextOf elm" using links_subset [of First as] l assms(3) by auto
  ultimately show "deref l m' = deref l m" by (rule assms(4))
qed (rule assms(5))

lemma back_frame:
  assumes "path (NextOf b) bs m" and "deref (endl (NextOf b) bs) m = None"
    and "\<And>x. x \<in> set (b # bs) \<Longrightarrow> d_Next m' x = d_Next m x"
    and "\<And>x. x \<in> set bs \<Longrightarrow> d_Prev m' x = d_Prev m x"
  shows "path (NextOf b) bs m' \<and> deref (endl (NextOf b) bs) m' = None"
proof
  show "path (NextOf b) bs m'"
  proof (rule path_frame [OF assms(1)])
    fix l assume "l \<in> links (NextOf b) bs"
    then have "l \<in> NextOf ` set (b # bs)" using links_subset [of "NextOf b" bs] by auto
    then show "deref l m' = deref l m" using assms(3) by auto
  qed (rule assms(4))
  have "endl (NextOf b) bs \<in> NextOf ` set (b # bs)" by (auto simp: endl_cases)
  then show "deref (endl (NextOf b) bs) m' = None" using assms(2,3) by auto
qed

lemma end_not_in: "set as \<inter> set bs = {} \<Longrightarrow> x \<in> set bs \<Longrightarrow> NextOf x \<noteq> endl First as"
  using last_in_set [of as] disjoint_iff [of "set as" "set bs"] by (cases as) (simp_all add: endl_cases, metis)

text \<open>Putting \<open>elm\<close> between \<open>as\<close> and \<open>bs\<close>: which fields must hold what, and what must stay.\<close>

lemma splice_in:
  assumes "dlist (as @ bs) m" and "elm \<notin> set (as @ bs)"
    and "\<And>l. l \<noteq> endl First as \<Longrightarrow> l \<noteq> NextOf elm \<Longrightarrow> deref l m' = deref l m"
    and "deref (endl First as) m' = Some elm" and "d_Next m' elm = deref (endl First as) m"
    and "d_Prev m' elm = endl First as"
    and "\<And>x. x \<noteq> elm \<Longrightarrow> x \<notin> set (take 1 bs) \<Longrightarrow> d_Prev m' x = d_Prev m x"
    and "\<And>b bs'. bs = b # bs' \<Longrightarrow> d_Prev m' b = NextOf elm"
    and "d_Last m' = (if bs = [] then NextOf elm else d_Last m)"
  shows "dlist (as @ elm # bs) m'"
proof -
  have d: "distinct as" "distinct bs" "set as \<inter> set bs = {}" "path First as m" "path (endl First as) bs m"
    "deref (endl (endl First as) bs) m = None" "d_Last m = endl (endl First as) bs"
    using assms(1) by (auto simp: dlist_def)
  have prev: "d_Prev m' x = d_Prev m x" if "x \<in> set as" for x
    using that d(3) assms(2) set_take_subset [of 1 bs] by (intro assms(7)) auto
  have "elm \<notin> set as" using assms(2) by simp
  then have "path First as m'" by (rule front_frame [OF d(4,1) _ assms(3) prev])
  moreover have "path (NextOf elm) bs m' \<and> deref (endl (NextOf elm) bs) m' = None \<and>
      d_Last m' = endl (NextOf elm) bs"
  proof (cases bs)
    case Nil
    with d(6) assms(5,9) show ?thesis by simp
  next
    case (Cons b bs')
    have nx: "d_Next m' x = d_Next m x" if "x \<in> set (b # bs')" for x
      using assms(3) [of "NextOf x"] end_not_in [OF d(3), of x] that assms(2) Cons by auto
    have pv: "d_Prev m' x = d_Prev m x" if "x \<in> set bs'" for x
      using that d(2) assms(2) Cons by (intro assms(7)) auto
    have "path (NextOf b) bs' m" "deref (endl (NextOf b) bs') m = None" using d(5,6) Cons by simp_all
    then have "path (NextOf b) bs' m' \<and> deref (endl (NextOf b) bs') m' = None"
      using nx pv by (rule back_frame)
    then show ?thesis using Cons assms(5,8,9) d(5,7) by simp
  qed
  ultimately show ?thesis using assms(2,4,6) d(1-3) by (simp add: dlist_def)
qed

text \<open>Taking \<open>elm\<close> out.\<close>

lemma splice_out:
  assumes "dlist (as @ elm # bs) m"
    and "\<And>l. l \<noteq> endl First as \<Longrightarrow> l \<noteq> NextOf elm \<Longrightarrow> deref l m' = deref l m"
    and "deref (endl First as) m' = d_Next m elm"
    and "\<And>x. x \<noteq> elm \<Longrightarrow> x \<notin> set (take 1 bs) \<Longrightarrow> d_Prev m' x = d_Prev m x"
    and "\<And>b bs'. bs = b # bs' \<Longrightarrow> d_Prev m' b = endl First as"
    and "d_Last m' = (if bs = [] then endl First as else d_Last m)"
  shows "dlist (as @ bs) m'"
proof -
  have d: "distinct as" "distinct bs" "set as \<inter> set bs = {}" "elm \<notin> set as" "elm \<notin> set bs"
    "path First as m" "path (NextOf elm) bs m"
    "deref (endl (NextOf elm) bs) m = None" "d_Last m = endl (NextOf elm) bs"
    using assms(1) by (auto simp: dlist_def)
  have prev: "d_Prev m' x = d_Prev m x" if "x \<in> set as" for x
    using that d(3,4) set_take_subset [of 1 bs] by (intro assms(4)) auto
  have "path First as m'" by (rule front_frame [OF d(6,1,4) assms(2) prev])
  moreover have "path (endl First as) bs m' \<and> deref (endl (endl First as) bs) m' = None \<and>
      d_Last m' = endl (endl First as) bs"
  proof (cases bs)
    case Nil
    with d(8) assms(3,6) show ?thesis by simp
  next
    case (Cons b bs')
    have nx: "d_Next m' x = d_Next m x" if "x \<in> set (b # bs')" for x
      using assms(2) [of "NextOf x"] end_not_in [OF d(3), of x] that d(5) Cons by auto
    have pv: "d_Prev m' x = d_Prev m x" if "x \<in> set bs'" for x
      using that d(2,5) Cons by (intro assms(4)) auto
    have "path (NextOf b) bs' m" "deref (endl (NextOf b) bs') m = None" using d(7,8) Cons by simp_all
    then have "path (NextOf b) bs' m' \<and> deref (endl (NextOf b) bs') m' = None"
      using nx pv by (rule back_frame)
    then show ?thesis using Cons assms(3,5,6) d(7,9) by simp
  qed
  ultimately show ?thesis using d(1-3) by (simp add: dlist_def)
qed

section \<open>The operations\<close>

lemma dlist_init: "dlist [] (INET_DLIST_INIT m)"
  by (simp add: dlist_def INET_DLIST_INIT_def deref_def)

lemma dlist_empty: "dlist xs m \<Longrightarrow> INET_DLIST_EMPTY m \<longleftrightarrow> xs = []"
  by (cases xs) (auto simp: dlist_def INET_DLIST_EMPTY_def deref_def)

lemma dlist_first: "dlist xs m \<Longrightarrow> d_First m = (case xs of [] \<Rightarrow> None | x # _ \<Rightarrow> Some x)"
  by (cases xs) (auto simp: dlist_def deref_def)

lemma dlist_next:
  assumes "dlist (as @ x # bs) m"
  shows "d_Next m x = (case bs of [] \<Rightarrow> None | b # _ \<Rightarrow> Some b)" and "d_Prev m x = endl First as"
  using assms by (cases bs; simp add: dlist_def)+

lemma deref_link:
  "d_First m' = d_First m \<Longrightarrow> d_Next m' x = d_Next m x \<Longrightarrow> l \<in> {First, NextOf x} \<Longrightarrow> deref l m' = deref l m"
  by (auto simp: deref_def)

lemmas link_cases = deref_def assign_def
lemmas dlist_ops = INET_DLIST_INSERT_HEAD_def INET_DLIST_INSERT_TAIL_def INET_DLIST_INSERT_AFTER_def
  INET_DLIST_INSERT_BEFORE_def INET_DLIST_REMOVE_def

lemma dlist_insert_head:
  assumes "dlist xs m" and "elm \<notin> set xs"
  shows "dlist (elm # xs) (INET_DLIST_INSERT_HEAD elm m)"
proof -
  have f: "d_First m = (case xs of [] \<Rightarrow> None | x # _ \<Rightarrow> Some x)" by (rule dlist_first [OF assms(1)])
  have "dlist ([] @ elm # xs) (INET_DLIST_INSERT_HEAD elm m)"
    using assms f
    by (intro splice_in [where m = m and as = "[]" and bs = xs])
      (auto simp: INET_DLIST_INSERT_HEAD_def Let_def link_cases split: link.splits list.splits option.splits)
  then show ?thesis by simp
qed

lemma dlist_insert_tail:
  assumes "dlist xs m" and "elm \<notin> set xs"
  shows "dlist (xs @ [elm]) (INET_DLIST_INSERT_TAIL elm m)"
proof -
  have l: "d_Last m = endl First xs" "deref (endl First xs) m = None" using assms(1) by (simp_all add: dlist_def)
  have "NextOf elm \<noteq> endl First xs" using assms(2) last_in_set [of xs] by (auto simp: endl_cases)
  then show ?thesis
    using assms l
    by (intro splice_in [where m = m and as = xs and bs = "[]"])
      (auto simp: INET_DLIST_INSERT_TAIL_def Let_def link_cases split: link.splits)
qed

lemma dlist_insert_after:
  assumes "dlist (as @ x # bs) m" and "elm \<notin> set (as @ x # bs)"
  shows "dlist (as @ x # elm # bs) (INET_DLIST_INSERT_AFTER x elm m)"
proof -
  have n: "d_Next m x = (case bs of [] \<Rightarrow> None | b # _ \<Rightarrow> Some b)" by (rule dlist_next(1) [OF assms(1)])
  have "dlist ((as @ [x]) @ elm # bs) (INET_DLIST_INSERT_AFTER x elm m)"
    using assms n
    by (intro splice_in [where m = m and as = "as @ [x]" and bs = bs])
      (auto simp: INET_DLIST_INSERT_AFTER_def Let_def link_cases dlist_def split: link.splits list.splits option.splits)
  then show ?thesis by simp
qed

lemma dlist_insert_before:
  assumes "dlist (as @ x # bs) m" and "elm \<notin> set (as @ x # bs)"
  shows "dlist (as @ elm # x # bs) (INET_DLIST_INSERT_BEFORE x elm m)"
proof -
  have p: "d_Prev m x = endl First as" "deref (endl First as) m = Some x"
    using assms(1) by (simp_all add: dlist_def)
  have "NextOf elm \<noteq> endl First as" using assms(2) last_in_set [of as] by (auto simp: endl_cases)
  moreover have "NextOf x \<noteq> endl First as"
    using assms(1) last_in_set [of as] by (auto simp: endl_cases dlist_def)
  ultimately show ?thesis
    using assms p
    by (intro splice_in [where m = m and as = as and bs = "x # bs"])
      (auto simp: INET_DLIST_INSERT_BEFORE_def Let_def link_cases split: link.splits)
qed

lemma dlist_remove:
  assumes "dlist (as @ x # bs) m"
  shows "dlist (as @ bs) (INET_DLIST_REMOVE x m)"
proof -
  have n: "d_Next m x = (case bs of [] \<Rightarrow> None | b # _ \<Rightarrow> Some b)" "d_Prev m x = endl First as"
    using dlist_next [OF assms] by simp_all
  have d: "x \<notin> set bs" using assms by (simp add: dlist_def)
  show ?thesis
    using n d
    by (intro splice_out [OF assms])
      (auto simp: INET_DLIST_REMOVE_def Let_def link_cases split: link.splits list.splits option.splits)
qed

lemma dlist_foreach:
  assumes "path l xs m" and "deref (endl l xs) m = None"
  shows "INET_DLIST_FOREACH n (deref l m) m = take n xs"
  using assms
proof (induction n arbitrary: l xs)
  case (Suc n)
  then show ?case by (cases xs) (auto simp flip: deref_NextOf)
qed simp

lemma dlist_prev:
  assumes "dlist (as @ x # bs) m"
  shows "INET_DLIST_PREV x m = (if as = [] then None else Some (last as))"
proof -
  have p: "d_Prev m x = endl First as" "deref (d_Last m) m = None" using assms by (auto simp: dlist_def)
  show ?thesis
  proof (cases as rule: rev_cases)
    case Nil
    with p show ?thesis by (simp add: INET_DLIST_PREV_def behind_def)
  next
    case (snoc ys y)
    have "d_Prev m y = endl First ys" "deref (endl First ys) m = Some y"
      using assms snoc by (auto simp: dlist_def)
    with p snoc show ?thesis by (simp add: INET_DLIST_PREV_def behind_def)
  qed
qed

lemma dlist_last:
  assumes "dlist xs m"
  shows "INET_DLIST_LAST m = (if xs = [] then None else Some (last xs))"
proof (cases xs rule: rev_cases)
  case Nil
  with assms show ?thesis by (simp add: INET_DLIST_LAST_def behind_def dlist_def)
next
  case (snoc ys y)
  then have "d_Last m = NextOf y" "d_Prev m y = endl First ys" "deref (endl First ys) m = Some y"
    using assms by (auto simp: dlist_def)
  with snoc show ?thesis by (simp add: INET_DLIST_LAST_def behind_def)
qed

section \<open>Single lists and free lists as lists\<close>

fun spath :: "'n option \<Rightarrow> 'n list \<Rightarrow> 'n slist_mem \<Rightarrow> bool" where
  "spath p [] m \<longleftrightarrow> p = None"
| "spath p (x # xs) m \<longleftrightarrow> p = Some x \<and> spath (s_Next m x) xs m"

definition slist :: "'n list \<Rightarrow> 'n slist_mem \<Rightarrow> bool" where
  "slist xs m \<longleftrightarrow> distinct xs \<and> spath (s_First m) xs m"

lemma spath_frame:
  "spath p xs m \<Longrightarrow> (\<And>x. x \<in> set xs \<Longrightarrow> s_Next m' x = s_Next m x) \<Longrightarrow> spath p xs m'"
  by (induction p xs m rule: spath.induct) auto

lemma slist_insert_head: "slist xs m \<Longrightarrow> elm \<notin> set xs \<Longrightarrow> slist (elm # xs) (INET_LIST_INSERT_HEAD elm m)"
  by (auto simp: slist_def INET_LIST_INSERT_HEAD_def elim: spath_frame)

lemma slist_remove_head:
  "slist (x # xs) m \<Longrightarrow> \<exists>m'. INET_LIST_REMOVE_HEAD m = Some m' \<and> slist xs m'"
  by (auto simp: slist_def INET_LIST_REMOVE_HEAD_def elim: spath_frame)

lemma spath_insert_after:
  "spath p (as @ x # bs) m \<Longrightarrow> elm \<notin> set (as @ x # bs) \<Longrightarrow> distinct (as @ x # bs) \<Longrightarrow>
     spath p (as @ x # elm # bs) (INET_LIST_INSERT_AFTER x elm m)"
proof (induction as arbitrary: p)
  case Nil
  then show ?case by (auto simp: INET_LIST_INSERT_AFTER_def Let_def elim: spath_frame)
next
  case (Cons a as)
  then show ?case by (auto simp: INET_LIST_INSERT_AFTER_def Let_def)
qed

lemma slist_insert_after:
  "slist (as @ x # bs) m \<Longrightarrow> elm \<notin> set (as @ x # bs) \<Longrightarrow>
     slist (as @ x # elm # bs) (INET_LIST_INSERT_AFTER x elm m)"
  using spath_insert_after [of "s_First m" as x bs m elm]
  by (auto simp: slist_def INET_LIST_INSERT_AFTER_def Let_def)

definition free_stack :: "'n list \<Rightarrow> 'n freelist \<Rightarrow> bool" where
  "free_stack xs h \<longleftrightarrow> m_Count h = length xs \<and> length xs \<le> m_Size h \<and> (\<forall>i < length xs. m_Nodes h i = rev xs ! i)"

lemma free_push:
  assumes "free_stack xs h"
  shows "INET_FREELIST_PUSH x h = (if length xs = m_Size h then (None, h) else (Some x, snd (INET_FREELIST_PUSH x h)))"
    and "length xs \<noteq> m_Size h \<Longrightarrow> free_stack (x # xs) (snd (INET_FREELIST_PUSH x h))"
  using assms by (auto simp: free_stack_def INET_FREELIST_PUSH_def nth_append less_Suc_eq)

lemma free_pop:
  assumes "free_stack (x # xs) h"
  shows "fst (INET_FREELIST_POP h) = Some x" and "free_stack xs (snd (INET_FREELIST_POP h))"
  using assms by (auto simp: free_stack_def INET_FREELIST_POP_def nth_append)

section \<open>Programs over a double list\<close>

datatype 'n dcmd = PutHead 'n | PutTail 'n | PutAfter 'n 'n | PutBefore 'n 'n | TakeOut 'n

primrec dcmd_run :: "'n dcmd \<Rightarrow> 'n dlist_mem \<Rightarrow> 'n dlist_mem" where
  "dcmd_run (PutHead x) m = INET_DLIST_INSERT_HEAD x m"
| "dcmd_run (PutTail x) m = INET_DLIST_INSERT_TAIL x m"
| "dcmd_run (PutAfter y x) m = INET_DLIST_INSERT_AFTER y x m"
| "dcmd_run (PutBefore y x) m = INET_DLIST_INSERT_BEFORE y x m"
| "dcmd_run (TakeOut x) m = INET_DLIST_REMOVE x m"

text \<open>
  What the commands do to the list; \<open>None\<close> for a misuse: putting in a node that is already
  in the list, or naming one that is not.
\<close>

fun put_after :: "'n \<Rightarrow> 'n \<Rightarrow> 'n list \<Rightarrow> 'n list" where
  "put_after y x [] = []"
| "put_after y x (z # zs) = (if z = y then z # x # zs else z # put_after y x zs)"

fun put_before :: "'n \<Rightarrow> 'n \<Rightarrow> 'n list \<Rightarrow> 'n list" where
  "put_before y x [] = []"
| "put_before y x (z # zs) = (if z = y then x # z # zs else z # put_before y x zs)"

primrec dcmd_spec :: "'n dcmd \<Rightarrow> 'n list \<Rightarrow> 'n list option" where
  "dcmd_spec (PutHead x) xs = (if x \<in> set xs then None else Some (x # xs))"
| "dcmd_spec (PutTail x) xs = (if x \<in> set xs then None else Some (xs @ [x]))"
| "dcmd_spec (PutAfter y x) xs = (if y \<in> set xs \<and> x \<notin> set xs then Some (put_after y x xs) else None)"
| "dcmd_spec (PutBefore y x) xs = (if y \<in> set xs \<and> x \<notin> set xs then Some (put_before y x xs) else None)"
| "dcmd_spec (TakeOut x) xs = (if x \<in> set xs then Some (remove1 x xs) else None)"

fun dcmds_spec :: "'n dcmd list \<Rightarrow> 'n list \<Rightarrow> 'n list option" where
  "dcmds_spec [] xs = Some xs"
| "dcmds_spec (c # cs) xs = (case dcmd_spec c xs of None \<Rightarrow> None | Some xs' \<Rightarrow> dcmds_spec cs xs')"

lemma put_split:
  "y \<notin> set as \<Longrightarrow> put_after y x (as @ y # bs) = as @ y # x # bs"
  "y \<notin> set as \<Longrightarrow> put_before y x (as @ y # bs) = as @ x # y # bs"
  "y \<notin> set as \<Longrightarrow> remove1 y (as @ y # bs) = as @ bs"
  by (induction as) auto

lemma dcmd_refines:
  assumes "dlist xs m" and "dcmd_spec c xs = Some xs'"
  shows "dlist xs' (dcmd_run c m)"
proof (cases c)
  case (PutAfter y x)
  with assms(2) obtain as bs where "xs = as @ y # bs" "y \<notin> set as" "x \<notin> set xs"
    by (auto split: if_splits dest: split_list_first)
  with assms PutAfter dlist_insert_after [of as y bs m x] show ?thesis by (simp add: put_split)
next
  case (PutBefore y x)
  with assms(2) obtain as bs where "xs = as @ y # bs" "y \<notin> set as" "x \<notin> set xs"
    by (auto split: if_splits dest: split_list_first)
  with assms PutBefore dlist_insert_before [of as y bs m x] show ?thesis by (simp add: put_split)
next
  case (TakeOut x)
  with assms(2) obtain as bs where "xs = as @ x # bs" "x \<notin> set as"
    by (auto split: if_splits dest: split_list_first)
  with assms TakeOut dlist_remove [of as x bs m] show ?thesis by (simp add: put_split)
qed (use assms in \<open>auto intro: dlist_insert_head dlist_insert_tail split: if_splits\<close>)

lemma dcmds_refine:
  "dlist xs m \<Longrightarrow> dcmds_spec cs xs = Some xs' \<Longrightarrow> dlist xs' (fold dcmd_run cs m)"
  by (induction cs arbitrary: xs m) (auto split: option.splits intro: dcmd_refines)

text \<open>
  C17: The double list macros implement lists: after any sequence of insertions at both ends,
  before and after a node, and removals, the links followed forwards visit exactly the nodes
  of the list these operations describe, and the backward links (read through the cast of a
  link field to a list head) lead from every node to the one before it.
\<close>

theorem double_list_refines:
  assumes "dcmds_spec cs [] = Some xs" and "m' = fold dcmd_run cs (INET_DLIST_INIT m)"
  shows "INET_DLIST_FOREACH n (d_First m') m' = take n xs \<and>
    (INET_DLIST_EMPTY m' \<longleftrightarrow> xs = []) \<and>
    INET_DLIST_LAST m' = (if xs = [] then None else Some (last xs)) \<and>
    (\<forall>as x bs. xs = as @ x # bs \<longrightarrow> INET_DLIST_PREV x m' = (if as = [] then None else Some (last as)))"
proof -
  have d: "dlist xs m'" unfolding assms(2) using dcmds_refine [OF dlist_init assms(1)] .
  then have "path First xs m'" "deref (endl First xs) m' = None" by (simp_all add: dlist_def)
  from dlist_foreach [OF this, of n] have "INET_DLIST_FOREACH n (d_First m') m' = take n xs"
    by (simp add: deref_def)
  moreover have "INET_DLIST_PREV x m' = (if as = [] then None else Some (last as))" if "xs = as @ x # bs" for as x bs
    by (rule dlist_prev [of as x bs]) (use d that in simp)
  ultimately show ?thesis using dlist_empty [OF d] dlist_last [OF d] by blast
qed

definition ex_links :: "nat dlist_mem" where
  "ex_links = \<lparr>d_First = None, d_Last = First, d_Next = (\<lambda>_. None), d_Prev = (\<lambda>_. First)\<rparr>"

theorem double_list_refines_witness:
  "\<exists>m'. m' = fold dcmd_run [PutHead 5, PutTail 7, PutBefore 7 6, TakeOut 5, PutAfter 7 (9 :: nat)] (INET_DLIST_INIT ex_links) \<and>
    INET_DLIST_FOREACH 10 (d_First m') m' = [6, 7, 9] \<and> INET_DLIST_PREV 9 m' = Some 7"
proof -
  let ?cs = "[PutHead 5, PutTail 7, PutBefore 7 6, TakeOut 5, PutAfter 7 (9 :: nat)]"
  have s: "dcmds_spec ?cs [] = Some [6, 7, 9]" by simp
  obtain m' where m': "m' = fold dcmd_run ?cs (INET_DLIST_INIT ex_links)" by blast
  note r = double_list_refines [OF s m', of 10]
  have f: "INET_DLIST_FOREACH 10 (d_First m') m' = take 10 [6, 7, 9]" using r by (rule conjunct1)
  have "\<forall>as x bs. [6, 7, 9] = as @ x # bs \<longrightarrow>
      INET_DLIST_PREV x m' = (if as = [] then None else Some (last as))"
    using r by (elim conjE)
  from this [rule_format, of "[6, 7]" 9 "[]"] have "INET_DLIST_PREV 9 m' = Some 7" by simp
  with f m' show ?thesis by (intro exI [of _ m'] conjI) simp_all
qed

end
