(* ===== verification/Time_Util.thy ===== *)
theory Time_Util
  imports Prelude
begin

text \<open>
  \<^verbatim>\<open>Common/TimeUtil.h\<close>: days, weeks, months and years of a time stamp. The C library's
  \<^verbatim>\<open>localtime_r\<close> and \<^verbatim>\<open>mktime\<close> are modelled for a time zone without daylight saving: the
  argument \<open>off\<close> is its distance from UTC in seconds. The current time is an argument.
  \<open>None\<close> as a result is an overflow of the signed arithmetic on the argument \<open>c\<close>.
\<close>

section \<open>The C library's calendar\<close>

record tm =
  tm_sec :: int
  tm_min :: int
  tm_hour :: int
  tm_mday :: int
  tm_mon :: int
  tm_year :: int
  tm_wday :: int
  tm_yday :: int

definition leap :: "int \<Rightarrow> bool" where
  "leap y \<longleftrightarrow> y mod 4 = 0 \<and> y mod 100 \<noteq> 0 \<or> y mod 400 = 0"

text \<open>The days from 1 January 1970 to 1 January of the year \<open>y\<close>.\<close>

definition days_before :: "int \<Rightarrow> int" where
  "days_before y = 365 * (y - 1970) + (y - 1) div 4 - (y - 1) div 100 + (y - 1) div 400 - 477"

definition month_lens :: "int \<Rightarrow> int list" where
  "month_lens y = [31, if leap y then 29 else 28, 31, 30, 31, 30, 31, 31, 30, 31, 30, 31]"

text \<open>The month (from 0) and the day in it (from 0) of a day in the year.\<close>

fun month_of :: "int list \<Rightarrow> int \<Rightarrow> int \<times> int" where
  "month_of [] d = (0, d)"
| "month_of (n # ns) d = (if d < n then (0, d) else (let (m, r) = month_of ns (d - n) in (m + 1, r)))"

lemma div_pred: "0 < n \<Longrightarrow> (y - 1) div n = y div n - (if y mod n = 0 then 1 else 0)" for y n :: int
proof (cases "y mod n = 0")
  case True
  assume n: "0 < n"
  have "y - 1 = n * (y div n - 1) + (n - 1)" using True div_mult_mod_eq [of y n] by (simp add: algebra_simps)
  then show ?thesis using True n by (intro int_div_pos_eq [of _ _ _ "n - 1"]) simp_all
next
  case False
  assume n: "0 < n"
  have "0 < y mod n" "y mod n < n" using False n pos_mod_bound [of n y] pos_mod_sign [of n y] by linarith+
  moreover have "y - 1 = n * (y div n) + (y mod n - 1)" using div_mult_mod_eq [of y n] by (simp add: algebra_simps)
  ultimately show ?thesis using False by (intro int_div_pos_eq [of _ _ _ "y mod n - 1"]) simp_all
qed

lemma days_before_step: "days_before (y + 1) = days_before y + (if leap y then 366 else 365)"
proof -
  have d: "y mod 400 = 0 \<Longrightarrow> y mod 100 = 0" "y mod 100 = 0 \<Longrightarrow> y mod 4 = 0"
    using mod_mod_cancel [of 100 400 y] mod_mod_cancel [of 4 100 y] by simp_all
  have 1: "(y - 1) div 4 = y div 4 - (if y mod 4 = 0 then 1 else 0)"
    and 2: "(y - 1) div 100 = y div 100 - (if y mod 100 = 0 then 1 else 0)"
    and 3: "(y - 1) div 400 = y div 400 - (if y mod 400 = 0 then 1 else 0)" by (simp_all add: div_pred)
  show ?thesis using d unfolding days_before_def leap_def 1 2 3 by (auto simp: algebra_simps)
qed

text \<open>The year of a day: search upwards from a year that is not too late.\<close>

function year_loop :: "int \<Rightarrow> int \<Rightarrow> int" where
  "year_loop y d = (if days_before (y + 1) \<le> d then year_loop (y + 1) d else y)"
  by pat_completeness auto
termination
  by (relation "measure (\<lambda>(y, d). nat (d - days_before y))") (auto simp: days_before_step split: if_splits)

declare year_loop.simps [simp del]

definition year_of :: "int \<Rightarrow> int" where
  "year_of d = year_loop (1969 + d div 366) d"

definition localtime_r :: "int \<Rightarrow> int \<Rightarrow> tm" where
  "localtime_r off t =
     (let d = (t + off) div 86400; s = (t + off) mod 86400; y = year_of d;
          yd = d - days_before y; (m, r) = month_of (month_lens y) yd
      in \<lparr>tm_sec = s mod 60, tm_min = s div 60 mod 60, tm_hour = s div 3600, tm_mday = r + 1,
          tm_mon = m, tm_year = y - 1900, tm_wday = (d + 4) mod 7, tm_yday = yd\<rparr>)"

text \<open>
  \<^verbatim>\<open>mktime\<close> accepts fields outside their ranges and ignores the days of the week and year.
\<close>

definition mktime :: "int \<Rightarrow> tm \<Rightarrow> int" where
  "mktime off t =
     (let y = tm_year t + 1900 + tm_mon t div 12;
          d = days_before y + sum_list (take (nat (tm_mon t mod 12)) (month_lens y)) + tm_mday t - 1
      in d * 86400 + tm_hour t * 3600 + tm_min t * 60 + tm_sec t - off)"

section \<open>TimeUtil\<close>

definition int_ok :: "int \<Rightarrow> int option" where
  "int_ok n = (if - (2 ^ 31) \<le> n \<and> n < 2 ^ 31 then Some n else None)"

text \<open>
  The fields are reduced as the code does it: zero as a remainder selects the smallest value,
  and hours, minutes and seconds lose one.
\<close>

definition MkTime :: "int \<Rightarrow> u32 \<Rightarrow> u32 \<Rightarrow> u32 \<Rightarrow> u32 \<Rightarrow> u32 \<Rightarrow> u32 \<Rightarrow> u32" where
  "MkTime off y m d hh mm ss =
     word_of_int (mktime off
       \<lparr>tm_sec = (if ss mod 61 \<noteq> 0 then sint (ss mod 61 - 1) else 0),
        tm_min = (if mm mod 61 \<noteq> 0 then sint (mm mod 61 - 1) else 0),
        tm_hour = (if hh mod 25 \<noteq> 0 then sint (hh mod 24 - 1) else 0),
        tm_mday = (if d mod 32 \<noteq> 0 then sint (d mod 32) else 1),
        tm_mon = (if m mod 13 \<noteq> 0 then sint (m mod 13 - 1) else 0),
        tm_year = (if y < 1900 then 0 else sint (y - 1900)), tm_wday = 0, tm_yday = 0\<rparr>)"

definition Now :: "u32 \<Rightarrow> u32 \<Rightarrow> u32" where
  "Now time timeAdd = time + timeAdd"

definition Day :: "int \<Rightarrow> u32 \<Rightarrow> u8" where
  "Day off now = word_of_int (tm_wday (localtime_r off (uint now)))"

definition MonthDay :: "int \<Rightarrow> u32 \<Rightarrow> u8" where
  "MonthDay off now = word_of_int (tm_mday (localtime_r off (uint now)))"

definition Month :: "int \<Rightarrow> u32 \<Rightarrow> u8" where
  "Month off now = word_of_int (tm_mon (localtime_r off (uint now)) + 1)"

definition SharpDayT :: "int \<Rightarrow> int \<Rightarrow> u32 \<Rightarrow> u32 option" where
  "SharpDayT off c cur =
     (let t = localtime_r off (uint cur);
          t2 = mktime off (t\<lparr>tm_hour := 0, tm_min := 0, tm_sec := 0\<rparr>)
      in map_option (\<lambda>n. word_of_int (t2 + n)) (int_ok (c * 24 * 60 * 60)))"

definition SameDay :: "int \<Rightarrow> u32 \<Rightarrow> u32 \<Rightarrow> bool" where
  "SameDay off a b \<longleftrightarrow> tm_yday (localtime_r off (uint a)) = tm_yday (localtime_r off (uint b))"

text \<open>
  \<^verbatim>\<open>"%d%d%d"\<close> read back by \<^verbatim>\<open>atoi\<close>: the digits of the numbers put together.
\<close>

definition cat10 :: "int \<Rightarrow> int \<Rightarrow> int" where
  "cat10 a b = a * (if b < 10 then 10 else 100) + b"

definition GetYYMMDD :: "int \<Rightarrow> u32 \<Rightarrow> int" where
  "GetYYMMDD off now =
     (let t = localtime_r off (uint now)
      in cat10 (cat10 (tm_year t + 1900) (tm_mon t + 1)) (tm_mday t))"

definition GetWeekDay :: "int \<Rightarrow> u32 \<Rightarrow> u32" where
  "GetWeekDay off time =
     (let w = tm_wday (localtime_r off (uint time)) in word_of_int (if w = 0 then 7 else w))"

definition SharpWeek :: "int \<Rightarrow> int \<Rightarrow> u32 \<Rightarrow> u32 option" where
  "SharpWeek off c cur =
     (let w0 = tm_wday (localtime_r off (uint cur)); w = (if w0 = 0 then 7 else w0)
      in case int_ok ((7 * c + 1 - w) * 86400) of
           None \<Rightarrow> None
         | Some n \<Rightarrow> SharpDayT off 0 (word_of_int (uint cur + n)))"

definition SharpMonth :: "int \<Rightarrow> int \<Rightarrow> u32 \<Rightarrow> u32 option" where
  "SharpMonth off c cur =
     (let t = localtime_r off (uint cur)
      in map_option (\<lambda>mon. word_of_int (mktime off
           (t\<lparr>tm_year := tm_year t + c_div mon 12, tm_mon := c_mod mon 12, tm_mday := 1,
              tm_hour := 0, tm_min := 0, tm_sec := 0\<rparr>)))
         (int_ok (tm_mon t + c)))"

definition SharpYear :: "int \<Rightarrow> int \<Rightarrow> u32 \<Rightarrow> u32 option" where
  "SharpYear off c cur =
     (let t = localtime_r off (uint cur)
      in map_option (\<lambda>y. word_of_int (mktime off
           (t\<lparr>tm_year := y, tm_mon := 0, tm_mday := 1, tm_hour := 0, tm_min := 0, tm_sec := 0\<rparr>)))
         (int_ok (tm_year t + c)))"

definition SharpDay :: "int \<Rightarrow> int \<Rightarrow> u32 \<Rightarrow> u32 option" where
  "SharpDay off c cur =
     (let t = localtime_r off (uint cur)
      in map_option (\<lambda>n. word_of_int
           (mktime off (t\<lparr>tm_sec := 0, tm_min := 0, tm_hour := 0\<rparr>) + n))
         (int_ok (c * 24 * 60 * 60)))"

definition SharpHour :: "int \<Rightarrow> u32 \<Rightarrow> u32 option" where
  "SharpHour c tm = map_option (\<lambda>n. (tm + word_of_int n) div 3600 * 3600) (int_ok (c * 3600))"

definition SharpFourtyMin :: "int \<Rightarrow> u32 \<Rightarrow> u32 option" where
  "SharpFourtyMin c tm = map_option (\<lambda>n. (tm + word_of_int n) div 2400 * 2400) (int_ok (c * 2400))"

definition SharpMinute :: "int \<Rightarrow> u32 \<Rightarrow> u32 option" where
  "SharpMinute c tm = map_option (\<lambda>n. (tm + word_of_int n) div 60 * 60) (int_ok (c * 60))"

text \<open>\<^verbatim>\<open>gettimeofday\<close>'s result is an argument, \<open>None\<close> where it fails.\<close>

definition GetTick :: "(int \<times> int) option \<Rightarrow> u64" where
  "GetTick tv = (case tv of None \<Rightarrow> 0 | Some (sec, usec) \<Rightarrow> word_of_int (sec * 1000000 + usec))"

definition GetDMY :: "int \<Rightarrow> u32 \<Rightarrow> u32 \<times> u32 \<times> u32" where
  "GetDMY off now =
     (let t = localtime_r off (uint now)
      in (word_of_int (tm_mday t), word_of_int (tm_mon t + 1), word_of_int (tm_year t + 1900)))"

definition GetNextMY :: "u32 \<Rightarrow> u32 option \<Rightarrow> u32 \<times> u32 option" where
  "GetNextMY m pY = (if m \<ge> 1 \<and> m < 12 then (m + 1, pY) else (1, map_option (\<lambda>y. y + 1) pY))"

definition GetOneMonthDays :: "int \<Rightarrow> u32 \<Rightarrow> u8" where
  "GetOneMonthDays off nowTime =
     (let t = localtime_r off (uint nowTime);
          mon = word_of_int (tm_mon t + 1) :: u32;
          year = word_of_int (tm_year t + 1900) :: u32;
          leapYear = (year mod 4 = 0 \<and> year mod 100 \<noteq> 0 \<or> year mod 400 = 0)
      in if mon = 2 then (if leapYear then 29 else 28)
         else if mon = 1 \<or> mon = 3 \<or> mon = 5 \<or> mon = 7 \<or> mon = 8 \<or> mon = 10 \<or> mon = 12 then 31
         else if mon = 4 \<or> mon = 6 \<or> mon = 9 \<or> mon = 11 then 30
         else 30)"

section \<open>The calendar is consistent\<close>

lemma days_before_mono: "y \<le> y' \<Longrightarrow> days_before y \<le> days_before y'"
proof (induction y' rule: int_ge_induct)
  case (step i)
  then show ?case by (simp add: days_before_step)
qed simp

lemma days_before_mono_strict:
  assumes "y < y'"
  shows "days_before (y + 1) \<le> days_before y'"
  using assms by (intro days_before_mono) simp

lemma year_loop_spec:
  "days_before y \<le> d \<Longrightarrow> days_before (year_loop y d) \<le> d \<and> d < days_before (year_loop y d + 1)"
proof (induction y d rule: year_loop.induct)
  case (1 y d)
  then show ?case by (subst (1 2) year_loop.simps) simp
qed

lemma days_before_le: "1968 \<le> y \<Longrightarrow> days_before y \<le> 366 * (y - 1970) + 3"
proof (induction y rule: int_ge_induct)
  case base
  show ?case by (simp add: days_before_def)
next
  case (step i)
  then show ?case by (simp add: days_before_step)
qed

lemma year_of_spec:
  assumes "- 366 \<le> d"
  shows "days_before (year_of d) \<le> d" and "d < days_before (year_of d + 1)"
proof -
  have "366 * (d div 366) \<le> d" by (simp add: mult.commute)
  moreover have "- 1 \<le> d div 366" using zdiv_mono1 [OF assms, of 366] by simp
  ultimately have "days_before (1969 + d div 366) \<le> d" using days_before_le [of "1969 + d div 366"] by simp
  from year_loop_spec [OF this]
  show "days_before (year_of d) \<le> d" "d < days_before (year_of d + 1)" by (simp_all add: year_of_def)
qed

lemma year_of_unique:
  assumes "days_before y \<le> d" and "d < days_before (y + 1)" and "- 366 \<le> d"
  shows "year_of d = y"
proof (rule ccontr)
  assume "year_of d \<noteq> y"
  then consider "year_of d < y" | "y < year_of d" by linarith
  then show False
    using year_of_spec [OF assms(3)] assms(1,2) days_before_mono_strict [of "year_of d" y]
      days_before_mono_strict [of y "year_of d"] by cases simp_all
qed

lemma month_of_spec:
  "month_of ns d = (m, r) \<Longrightarrow> 0 \<le> d \<Longrightarrow> d < sum_list ns \<Longrightarrow>
     0 \<le> m \<and> nat m < length ns \<and> d = sum_list (take (nat m) ns) + r \<and> 0 \<le> r \<and> r < ns ! nat m"
proof (induction ns d arbitrary: m r rule: month_of.induct)
  case (2 n ns d)
  show ?case
  proof (cases "d < n")
    case False
    obtain m' r' where mr: "month_of ns (d - n) = (m', r')" by force
    with 2 False have "0 \<le> m' \<and> nat m' < length ns \<and> d - n = sum_list (take (nat m') ns) + r' \<and> 0 \<le> r' \<and> r' < ns ! nat m'"
      by simp
    moreover from this have "nat (m' + 1) = Suc (nat m')" by (simp add: nat_add_distrib)
    ultimately show ?thesis using 2(2) False mr by auto
  qed (use 2 in auto)
qed simp

lemma sum_month_lens: "sum_list (month_lens y) = (if leap y then 366 else 365)" "length (month_lens y) = 12"
  by (simp_all add: month_lens_def)

text \<open>The fields of a broken-down time, without the definition's search loops.\<close>

lemma localtime_fields:
  assumes "- 366 \<le> (t + off) div 86400"
  obtains y m r where
    "localtime_r off t = \<lparr>tm_sec = (t + off) mod 86400 mod 60, tm_min = (t + off) mod 86400 div 60 mod 60,
       tm_hour = (t + off) mod 86400 div 3600, tm_mday = r + 1, tm_mon = m, tm_year = y - 1900,
       tm_wday = ((t + off) div 86400 + 4) mod 7, tm_yday = (t + off) div 86400 - days_before y\<rparr>"
    "days_before y \<le> (t + off) div 86400" "(t + off) div 86400 < days_before (y + 1)"
    "0 \<le> m" "m < 12" "0 \<le> r" "r < month_lens y ! nat m"
    "(t + off) div 86400 = days_before y + sum_list (take (nat m) (month_lens y)) + r"
proof -
  let ?d = "(t + off) div 86400"
  define y where "y = year_of ?d"
  obtain m r where mr: "month_of (month_lens y) (?d - days_before y) = (m, r)" by force
  have y: "days_before y \<le> ?d" "?d < days_before (y + 1)" using year_of_spec [OF assms] by (simp_all add: y_def)
  then have "?d - days_before y < sum_list (month_lens y)"
    by (simp add: days_before_step sum_month_lens split: if_splits)
  with month_of_spec [OF mr] y(1)
  have f: "0 \<le> m" "nat m < 12" "?d - days_before y = sum_list (take (nat m) (month_lens y)) + r"
    "0 \<le> r" "r < month_lens y ! nat m" by (simp_all add: sum_month_lens)
  show thesis
  proof (rule that [of r m y, OF _ y])
    show "localtime_r off t = \<lparr>tm_sec = (t + off) mod 86400 mod 60, tm_min = (t + off) mod 86400 div 60 mod 60,
       tm_hour = (t + off) mod 86400 div 3600, tm_mday = r + 1, tm_mon = m, tm_year = y - 1900,
       tm_wday = (?d + 4) mod 7, tm_yday = ?d - days_before y\<rparr>"
      by (simp add: localtime_r_def Let_def y_def [symmetric] mr)
  qed (use f in auto)
qed

lemma clock: "s div 3600 * 3600 + s div 60 mod 60 * 60 + s mod 60 = s" for s :: int
proof -
  have "s div 3600 = s div 60 div 60" by (simp add: zdiv_zmult2_eq [symmetric])
  then show ?thesis
    using div_mult_mod_eq [of s 60] div_mult_mod_eq [of "s div 60" 60] by linarith
qed

text \<open>\<^verbatim>\<open>mktime\<close> undoes \<^verbatim>\<open>localtime_r\<close>, also with other times of the day.\<close>

lemma mktime_clock:
  assumes "- 366 \<le> (t + off) div 86400"
  shows "mktime off ((localtime_r off t)\<lparr>tm_hour := h, tm_min := mi, tm_sec := s\<rparr>)
    = (t + off) div 86400 * 86400 + h * 3600 + mi * 60 + s - off"
  by (rule localtime_fields [OF assms]) (simp add: mktime_def Let_def)

lemma mktime_localtime:
  assumes "- 366 \<le> (t + off) div 86400"
  shows "mktime off (localtime_r off t) = t"
proof -
  have "mktime off ((localtime_r off t)\<lparr>tm_hour := (t + off) mod 86400 div 3600,
      tm_min := (t + off) mod 86400 div 60 mod 60, tm_sec := (t + off) mod 86400 mod 60\<rparr>) = t"
    using clock [of "(t + off) mod 86400"] div_mult_mod_eq [of "t + off" 86400]
    unfolding mktime_clock [OF assms] by linarith
  moreover have "(localtime_r off t)\<lparr>tm_hour := (t + off) mod 86400 div 3600,
      tm_min := (t + off) mod 86400 div 60 mod 60, tm_sec := (t + off) mod 86400 mod 60\<rparr> = localtime_r off t"
    by (rule localtime_fields [OF assms]) simp
  ultimately show ?thesis by simp
qed

text \<open>The fields depend on the day and the second in it.\<close>

definition day_fields :: "int \<Rightarrow> tm" where
  "day_fields d =
     (let y = year_of d; yd = d - days_before y; (m, r) = month_of (month_lens y) yd
      in \<lparr>tm_sec = 0, tm_min = 0, tm_hour = 0, tm_mday = r + 1,
          tm_mon = m, tm_year = y - 1900, tm_wday = (d + 4) mod 7, tm_yday = yd\<rparr>)"

lemma localtime_day:
  "localtime_r off t = (let s = (t + off) mod 86400
     in (day_fields ((t + off) div 86400))\<lparr>tm_hour := s div 3600, tm_min := s div 60 mod 60, tm_sec := s mod 60\<rparr>)"
  by (cases "month_of (month_lens (year_of ((t + off) div 86400)))
        ((t + off) div 86400 - days_before (year_of ((t + off) div 86400)))")
    (simp only: localtime_r_def day_fields_def Let_def prod.case tm.update_convs)

lemma localtime_midnight:
  "localtime_r off ((t + off) div 86400 * 86400 - off)
     = (localtime_r off t)\<lparr>tm_hour := 0, tm_min := 0, tm_sec := 0\<rparr>"
proof -
  define d where "d = (t + off) div 86400"
  have "d * 86400 - off + off = d * 86400" by simp
  moreover have "day_fields d = (day_fields d)\<lparr>tm_hour := 0, tm_min := 0, tm_sec := 0\<rparr>"
    by (simp add: day_fields_def Let_def split: prod.split)
  ultimately show ?thesis
    unfolding d_def [symmetric] localtime_day [of off t] localtime_day [of off "d * 86400 - off"]
    by (simp add: Let_def)
qed

section \<open>Properties\<close>

lemma day_index:
  fixes t off :: int
  assumes "\<bar>off\<bar> \<le> 50400" and "86400 \<le> t"
  shows "0 \<le> (t + off) div 86400" and "(t + off) div 86400 * 86400 - off \<le> t"
    and "t < (t + off) div 86400 * 86400 - off + 86400" and "0 \<le> (t + off) div 86400 * 86400 - off"
proof -
  show "0 \<le> (t + off) div 86400" using assms by (simp add: pos_imp_zdiv_nonneg_iff)
  have d: "(t + off) div 86400 * 86400 + (t + off) mod 86400 = t + off" by (rule div_mult_mod_eq)
  have m: "0 \<le> (t + off) mod 86400" "(t + off) mod 86400 < 86400" by simp_all
  show "(t + off) div 86400 * 86400 - off \<le> t" "t < (t + off) div 86400 * 86400 - off + 86400"
    using d m by linarith+
  then show "0 \<le> (t + off) div 86400 * 86400 - off" using assms(2) by linarith
qed

lemma mktime_midnight:
  assumes "\<bar>off\<bar> \<le> 50400" and "86400 \<le> t"
  shows "mktime off ((localtime_r off t)\<lparr>tm_hour := 0, tm_min := 0, tm_sec := 0\<rparr>)
    = (t + off) div 86400 * 86400 - off"
  using mktime_clock [of t off 0 0 0] day_index(1) [OF assms] by simp

lemma uint_of_small: "0 \<le> n \<Longrightarrow> n \<le> uint (w :: u32) \<Longrightarrow> uint (word_of_int n :: u32) = n"
  using uint_lt2p [of w] by (simp add: word_of_int_inverse)

text \<open>
  \<^verbatim>\<open>SharpDay\<close> (and \<^verbatim>\<open>SharpDayT\<close>, which computes the same) gives the last midnight that
  is not after the time stamp: less than a day before it, on the same date, with the clock at
  zero. For another \<open>c\<close> the result is this midnight moved by \<open>c\<close> days.
\<close>

theorem sharp_day_is_midnight:
  assumes "\<bar>off\<bar> \<le> 50400" and "86400 \<le> uint cur" and "\<bar>c\<bar> \<le> 24855"
  shows "\<exists>s. SharpDay off 0 cur = Some s \<and> s \<le> cur \<and> uint cur < uint s + 86400 \<and>
    localtime_r off (uint s) = (localtime_r off (uint cur))\<lparr>tm_hour := 0, tm_min := 0, tm_sec := 0\<rparr> \<and>
    SharpDay off c cur = Some (s + word_of_int (c * 86400)) \<and> SharpDayT off c cur = SharpDay off c cur"
proof -
  let ?m = "(uint cur + off) div 86400 * 86400 - off"
  note d = day_index [OF assms(1,2)]
  have mk: "mktime off ((localtime_r off (uint cur))\<lparr>tm_hour := 0, tm_min := 0, tm_sec := 0\<rparr>) = ?m"
    by (rule mktime_midnight [OF assms(1,2)])
  have mk': "mktime off ((localtime_r off (uint cur))\<lparr>tm_sec := 0, tm_min := 0, tm_hour := 0\<rparr>) = ?m"
    using mk by (simp add: mktime_def)
  have c: "int_ok (c * 24 * 60 * 60) = Some (c * 86400)" 
    using assms(3) unfolding int_ok_def by (simp, arith)
  have u: "uint (word_of_int ?m :: u32) = ?m" using d(2,4) by (rule uint_of_small [rotated])
  have e: "SharpDay off c cur = Some (word_of_int ?m + word_of_int (c * 86400))"
    "SharpDayT off c cur = Some (word_of_int ?m + word_of_int (c * 86400))"
    "SharpDay off 0 cur = Some (word_of_int ?m)"
    unfolding SharpDay_def SharpDayT_def Let_def mk mk' c by simp_all (simp add: int_ok_def)
  show ?thesis
  proof (intro exI [of _ "word_of_int ?m"] conjI)
    show "(word_of_int ?m :: u32) \<le> cur" using u d(2) by (simp add: word_le_def)
    show "uint cur < uint (word_of_int ?m :: u32) + 86400" using u d(3) by simp
    show "localtime_r off (uint (word_of_int ?m :: u32))
        = (localtime_r off (uint cur))\<lparr>tm_hour := 0, tm_min := 0, tm_sec := 0\<rparr>"
      unfolding u by (rule localtime_midnight)
  qed (use e in simp_all)
qed

theorem sharp_day_is_midnight_witness:
  "\<exists>s. SharpDay 28800 0 1600000000 = Some s \<and> s \<le> 1600000000 \<and> tm_hour (localtime_r 28800 (uint s)) = 0"
proof -
  have "\<bar>28800\<bar> \<le> (50400 :: int)" "86400 \<le> uint (1600000000 :: u32)" "\<bar>1\<bar> \<le> (24855 :: int)" by simp_all
  from sharp_day_is_midnight [OF this] obtain s where s: "SharpDay 28800 0 1600000000 = Some s"
    "s \<le> 1600000000" "localtime_r 28800 (uint s)
      = (localtime_r 28800 (uint (1600000000 :: u32)))\<lparr>tm_hour := 0, tm_min := 0, tm_sec := 0\<rparr>" by blast
  have "tm_hour (r\<lparr>tm_hour := 0, tm_min := 0, tm_sec := 0\<rparr>) = 0" for r :: tm by simp
  then have "tm_hour (localtime_r 28800 (uint s)) = 0" unfolding s(3) .
  with s show ?thesis by blast
qed

text \<open>Dates with their year, as the fields show it.\<close>

lemma next_year_fields:
  assumes "- 366 \<le> (t + off) div 86400" and "\<not> leap (tm_year (localtime_r off t) + 1900)"
  shows "tm_yday (localtime_r off (t + 365 * 86400)) = tm_yday (localtime_r off t)"
    and "tm_year (localtime_r off (t + 365 * 86400)) = tm_year (localtime_r off t) + 1"
proof -
  define d where "d = (t + off) div 86400"
  define y where "y = year_of d"
  have f: "tm_yday (localtime_r off u) = (u + off) div 86400 - days_before (year_of ((u + off) div 86400))"
    "tm_year (localtime_r off u) = year_of ((u + off) div 86400) - 1900" for u
    by (simp_all add: localtime_day day_fields_def Let_def split: prod.split)
  have "(t + 365 * 86400 + off) div 86400 = d + 365" unfolding d_def
    using div_mult_self1 [of 86400 "t + off" 365] by (simp add: add.commute add.left_commute)
  moreover have "\<not> leap y" using assms(2) f(2) [of t] by (simp add: d_def y_def)
  moreover have "days_before y \<le> d" "d < days_before (y + 1)"
    using year_of_spec [of d] assms(1) by (simp_all add: d_def y_def)
  moreover from calculation have "year_of (d + 365) = y + 1"
    using assms(1) days_before_step [of y] days_before_step [of "y + 1"]
    by (intro year_of_unique) (auto simp: d_def)
  ultimately show "tm_yday (localtime_r off (t + 365 * 86400)) = tm_yday (localtime_r off t)"
    "tm_year (localtime_r off (t + 365 * 86400)) = tm_year (localtime_r off t) + 1"
    using days_before_step [of y] by (simp_all add: f d_def [symmetric] y_def [symmetric])
qed

text \<open>
  \<^verbatim>\<open>SameDay\<close> compares the days within the year only: a time stamp and the one 365 days
  later are the same day for it whenever the first lies in a common year.
\<close>

theorem same_day_ignores_year:
  assumes "\<bar>off\<bar> \<le> 50400" and "86400 \<le> uint a" and "uint a + 365 * 86400 < 2 ^ 32"
    and "\<not> leap (tm_year (localtime_r off (uint a)) + 1900)"
  shows "SameDay off a (a + 365 * 86400) \<and>
    tm_year (localtime_r off (uint (a + 365 * 86400))) = tm_year (localtime_r off (uint a)) + 1"
proof -
  have "- 366 \<le> (uint a + off) div 86400" using day_index(1) [OF assms(1,2)] by simp
  note n = next_year_fields [OF this assms(4)]
  have "uint (a + 365 * 86400) = uint a + 365 * 86400"
    using assms(3) by (subst uint_plus_simple) (simp_all add: no_plus_overflow_uint_size word_size)
  with n show ?thesis by (simp add: SameDay_def)
qed

theorem same_day_ignores_year_witness:
  "SameDay 0 1609545600 1641081600 \<and>
   tm_year (localtime_r 0 1641081600) = tm_year (localtime_r 0 1609545600) + 1"
proof -
  have y: "tm_year (localtime_r 0 1609545600) = 121"
  proof -
    have "year_of 18629 = 2021" by (rule year_of_unique) (simp_all add: days_before_def)
    then show ?thesis by (simp add: localtime_day day_fields_def Let_def split: prod.split)
  qed
  have "SameDay 0 1609545600 (1609545600 + 365 * 86400) \<and>
    tm_year (localtime_r 0 (uint (1609545600 + 365 * 86400 :: u32))) = tm_year (localtime_r 0 (uint (1609545600 :: u32))) + 1"
    by (rule same_day_ignores_year) (simp_all add: y leap_def)
  then show ?thesis by simp
qed

lemma year_bounds:
  assumes "\<bar>off\<bar> \<le> 50400" and "86400 \<le> uint (w :: u32)"
  shows "1970 \<le> tm_year (localtime_r off (uint w)) + 1900" and "tm_year (localtime_r off (uint w)) + 1900 < 2200"
proof -
  let ?d = "(uint w + off) div 86400"
  have y: "tm_year (localtime_r off (uint w)) + 1900 = year_of ?d"
    by (simp add: localtime_day day_fields_def Let_def split: prod.split)
  have d: "0 \<le> ?d" by (rule day_index(1) [OF assms])
  have c: "days_before 1970 = 0" "days_before 2200 = 84006" by (simp_all add: days_before_def)
  have s: "days_before (year_of ?d) \<le> ?d" "?d < days_before (year_of ?d + 1)"
    using year_of_spec [of ?d] d by simp_all
  have "uint w + off < 2 ^ 32 + 50400" using uint_lt2p [of w] assms(1) by simp
  then have u: "?d \<le> 49711" using zdiv_mono1 [of "uint w + off" "2 ^ 32 + 50400" 86400] by simp
  show "1970 \<le> tm_year (localtime_r off (uint w)) + 1900"
  proof (rule ccontr)
    assume "\<not> ?thesis"
    then have "days_before (year_of ?d + 1) \<le> days_before 1970" unfolding y by (intro days_before_mono) simp
    then show False using s(2) c(1) d by linarith
  qed
  show "tm_year (localtime_r off (uint w)) + 1900 < 2200"
  proof (rule ccontr)
    assume "\<not> ?thesis"
    then have "days_before 2200 \<le> days_before (year_of ?d)" unfolding y by (intro days_before_mono) simp
    then show False using s(1) c(2) u by linarith
  qed
qed

lemma month_index: "0 \<le> m \<Longrightarrow> m < 12 \<Longrightarrow> m \<in> {0, 1, 2, 3, 4, 5, 6, 7, 8, 9, 10, 11}" for m :: int
proof -
  assume "0 \<le> m" "m < 12"
  then have "m \<in> set [0..11]" by simp
  then show ?thesis by (simp add: upto.simps)
qed

text \<open>
  \<^verbatim>\<open>GetOneMonthDays\<close>, which tests the month's number and the year for itself, agrees with
  the calendar: it is the length of the month in which the time stamp lies.
\<close>

theorem month_days_exact:
  assumes "\<bar>off\<bar> \<le> 50400" and "86400 \<le> uint w"
  shows "uint (GetOneMonthDays off w)
    = month_lens (tm_year (localtime_r off (uint w)) + 1900) ! nat (tm_mon (localtime_r off (uint w)))"
proof -
  define t where "t = localtime_r off (uint w)"
  define y where "y = tm_year t + 1900"
  have yb: "1970 \<le> y" "y < 2200" using year_bounds [OF assms] by (simp_all add: y_def t_def)
  have "- 366 \<le> (uint w + off) div 86400" using day_index(1) [OF assms] by simp
  then have "0 \<le> tm_mon t \<and> tm_mon t < 12" unfolding t_def by (rule localtime_fields) simp
  then have mon: "tm_mon t \<in> {0, 1, 2, 3, 4, 5, 6, 7, 8, 9, 10, 11}" using month_index by blast
  have u: "uint (word_of_int y :: u32) = y" using yb by (simp add: word_of_int_inverse)
  have md: "(word_of_int y :: u32) mod n = 0 \<longleftrightarrow> y mod uint n = 0" for n
    by (simp add: word_uint_eq_iff uint_mod u)
  have l: "((word_of_int y :: u32) mod 4 = 0 \<and> (word_of_int y :: u32) mod 100 \<noteq> 0 \<or>
      (word_of_int y :: u32) mod 400 = 0) = leap y"
    by (simp add: md leap_def)
  show ?thesis
    unfolding GetOneMonthDays_def Let_def t_def [symmetric] y_def [symmetric] l
    using mon by (auto simp: month_lens_def)
qed

theorem month_days_exact_witness:
  "uint (GetOneMonthDays 0 1582934400) = month_lens 2020 ! 1"
proof -
  have "year_of 18321 = 2020" by (rule year_of_unique) (simp_all add: days_before_def)
  then have "tm_year (localtime_r 0 1582934400) = 120" "tm_mon (localtime_r 0 1582934400) = 1"
    by (simp_all add: localtime_day day_fields_def Let_def days_before_def month_lens_def leap_def)
  then show ?thesis using month_days_exact [of 0 1582934400] by simp
qed

end
