(* ===== verification/Worker_Runner.thy ===== *)
theory Worker_Runner
  imports Prelude
begin

text \<open>
  \<^verbatim>\<open>Server/WorkerRunner.h\<close>: the thread loop with its timers. libevent keeps a set of events;
  which of its calls fail is an argument of the operations. The functions of the derived class
  leave a mark in a trace; a callback of a timer is a function on the state, as it may call the
  runner again. \<open>None\<close> as a result is an access through a \<^verbatim>\<open>NULL\<close> pointer or to freed memory.
\<close>

section \<open>State\<close>

datatype 'cb callback = MsgProcess | TimerProcess | User 'cb

text \<open>A \<^verbatim>\<open>TimerEvent\<close>, and libevent's own part of an event.\<close>

record 'cb timer_event =
  timer_cb :: "'cb callback"
  te_interval :: u32

record levent =
  ev_persist :: bool
  ev_first :: bool
  ev_timeout :: "(u32 \<times> u32) option"

datatype 'cb mark = DidProcessMsg | DidOnTimer | DidOnPause | DidCall "'cb callback" | DidLoopBreak

record 'cb runner =
  m_IsActive :: bool
  m_IsPause :: bool
  m_CheckPause :: bool
  m_MsgHandler :: bool
  handler_shutdown :: bool
  m_Log :: bool
  event_base :: bool
  m_Timerinterval :: u32
  timers :: "nat \<rightharpoonup> 'cb timer_event"
  levents :: "nat \<rightharpoonup> levent"
  next_event :: nat
  trace :: "'cb mark list"

definition WorkerRunner :: "u32 \<Rightarrow> 'cb runner" where
  "WorkerRunner tv =
     \<lparr>m_IsActive = False, m_IsPause = False, m_CheckPause = False, m_MsgHandler = False,
      handler_shutdown = False, m_Log = False, event_base = False, m_Timerinterval = tv, timers = Map.empty,
      levents = Map.empty, next_event = 0, trace = []\<rparr>"

definition emit :: "'cb mark \<Rightarrow> 'cb runner \<Rightarrow> 'cb runner" where
  "emit k s = s\<lparr>trace := trace s @ [k]\<rparr>"

section \<open>Control\<close>

definition Pause :: "'cb runner \<Rightarrow> 'cb runner" where
  "Pause s = (if m_IsPause s then s else s\<lparr>m_CheckPause := True, m_IsPause := True\<rparr>)"

definition Resume :: "'cb runner \<Rightarrow> 'cb runner" where
  "Resume s = (if \<not> m_IsPause s then s else s\<lparr>m_IsPause := False\<rparr>)"

definition SetActive :: "bool \<Rightarrow> 'cb runner \<Rightarrow> 'cb runner" where
  "SetActive active s = s\<lparr>m_IsActive := active\<rparr>"

definition runner_Shutdown :: "'cb runner \<Rightarrow> 'cb runner" where
  "runner_Shutdown s =
     (let s1 = SetActive False s in if m_MsgHandler s1 then s1\<lparr>handler_shutdown := True\<rparr> else s1)"

text \<open>
  The two timers of the runner itself. An inactive runner asks for the end of the loop and
  goes on; a paused one reports the pause once.
\<close>

definition do_process :: "'cb mark \<Rightarrow> 'cb runner \<Rightarrow> 'cb runner" where
  "do_process work s =
     (let s1 = (if \<not> m_IsActive s then emit DidLoopBreak s else s)
      in if m_IsPause s1
         then (if m_CheckPause s1 then (emit DidOnPause s1)\<lparr>m_CheckPause := False\<rparr> else s1)
         else emit work s1)"

definition DoProcessMsg :: "'cb runner \<Rightarrow> 'cb runner" where "DoProcessMsg s = do_process DidProcessMsg s"
definition DoProcessTimer :: "'cb runner \<Rightarrow> 'cb runner" where "DoProcessTimer s = do_process DidOnTimer s"

definition call_back :: "('cb \<Rightarrow> 'cb runner \<Rightarrow> 'cb runner) \<Rightarrow> 'cb callback \<Rightarrow> 'cb runner \<Rightarrow> 'cb runner" where
  "call_back act cb s =
     (case cb of
        MsgProcess \<Rightarrow> DoProcessMsg s
      | TimerProcess \<Rightarrow> DoProcessTimer s
      | User c \<Rightarrow> act c (emit (DidCall cb) s))"

section \<open>Timers\<close>

definition timeval_of :: "u32 \<Rightarrow> u32 \<times> u32" where
  "timeval_of ms = (ms div 1000, (ms mod 1000) * 1000)"

text \<open>
  \<^verbatim>\<open>AddTimer\<close>: \<open>ok_te\<close>, \<open>ok_new\<close> and \<open>ok_add\<close> say whether \<^verbatim>\<open>new\<close>, \<^verbatim>\<open>event_new\<close> and
  \<^verbatim>\<open>event_add\<close> succeed. The result is the event, \<open>None\<close> standing for \<^verbatim>\<open>NULL\<close>.
\<close>

definition AddTimer ::
    "('cb \<Rightarrow> 'cb runner \<Rightarrow> 'cb runner) \<Rightarrow> bool \<Rightarrow> bool \<Rightarrow> bool \<Rightarrow> u32 \<Rightarrow> 'cb callback \<Rightarrow> u32
       \<Rightarrow> 'cb runner \<Rightarrow> nat option \<times> 'cb runner" where
  "AddTimer act ok_te ok_new ok_add interval cb fisrtInterval s =
     (if \<not> ok_te \<or> \<not> ok_new then (None, s)
      else
        (let ev = next_event s;
             te = \<lparr>timer_cb = cb, te_interval = interval\<rparr>;
             immediate = (fisrtInterval = 0 \<or> fisrtInterval = 0xFFFFFFFF);
             e = (if immediate
                  then \<lparr>ev_persist = True, ev_first = False, ev_timeout = Some (timeval_of interval)\<rparr>
                  else \<lparr>ev_persist = False, ev_first = True, ev_timeout = Some (timeval_of fisrtInterval)\<rparr>);
             s1 = s\<lparr>next_event := ev + 1\<rparr>
         in if \<not> ok_add then (None, s1)
            else
              (let s2 = s1\<lparr>levents := (levents s1)(ev \<mapsto> e)\<rparr>;
                   s3 = (if fisrtInterval = 0 then call_back act cb s2 else s2)
               in (Some ev, s3\<lparr>timers := (timers s3)(ev \<mapsto> te)\<rparr>))))"

definition RemoveTimer :: "nat \<Rightarrow> 'cb runner \<Rightarrow> bool \<times> 'cb runner" where
  "RemoveTimer ev s =
     (case timers s ev of
        Some te \<Rightarrow> (True, s\<lparr>levents := (levents s)(ev := None), timers := (timers s)(ev := None)\<rparr>)
      | None \<Rightarrow> (False, s))"

text \<open>
  The events' own callbacks. The first firing of a delayed timer calls the callback and then
  turns the event into a persistent one; \<open>ok_add\<close> says whether adding it again succeeds.
\<close>

definition event_timer_process ::
    "('cb \<Rightarrow> 'cb runner \<Rightarrow> 'cb runner) \<Rightarrow> nat \<Rightarrow> 'cb runner \<Rightarrow> 'cb runner option" where
  "event_timer_process act ev s = map_option (\<lambda>te. call_back act (timer_cb te) s) (timers s ev)"

definition event_timer_process_firsttime ::
    "('cb \<Rightarrow> 'cb runner \<Rightarrow> 'cb runner) \<Rightarrow> bool \<Rightarrow> nat \<Rightarrow> 'cb runner \<Rightarrow> 'cb runner option" where
  "event_timer_process_firsttime act ok_add ev s =
     (case timers s ev of
        None \<Rightarrow> None
      | Some te \<Rightarrow>
          (let s1 = call_back act (timer_cb te) s
           in case timers s1 ev of
                None \<Rightarrow> None
              | Some te' \<Rightarrow>
                  if ok_add
                  then Some (s1\<lparr>levents := (levents s1)(ev \<mapsto>
                    \<lparr>ev_persist = True, ev_first = False, ev_timeout = Some (timeval_of (te_interval te'))\<rparr>)\<rparr>)
                  else Some (s1\<lparr>timers := (timers s1)(ev := None), levents := (levents s1)(ev := None)\<rparr>)))"

text \<open>libevent fires an event: it calls the function the event was made with.\<close>

definition fire ::
    "('cb \<Rightarrow> 'cb runner \<Rightarrow> 'cb runner) \<Rightarrow> bool \<Rightarrow> nat \<Rightarrow> 'cb runner \<Rightarrow> 'cb runner option" where
  "fire act ok_add ev s =
     (case levents s ev of
        None \<Rightarrow> Some s
      | Some e \<Rightarrow>
          if ev_first e then event_timer_process_firsttime act ok_add ev s
          else event_timer_process act ev s)"

section \<open>Running\<close>

definition Run ::
    "('cb \<Rightarrow> 'cb runner \<Rightarrow> 'cb runner) \<Rightarrow> bool \<Rightarrow> bool \<Rightarrow> 'cb runner \<Rightarrow> 'cb runner" where
  "Run act ok1 ok2 s =
     (let s1 = snd (AddTimer act True True ok1 25 MsgProcess 0 s);
          s2 = (if m_Timerinterval s1 > 0
                then snd (AddTimer act True True ok2 (m_Timerinterval s1) TimerProcess 0 s1) else s1)
      in s2\<lparr>m_IsActive := True\<rparr>)"

text \<open>
  \<^verbatim>\<open>Destroy\<close> writes to the log when it frees timers, the event base or the handler. The test
  in front of \<^verbatim>\<open>event_base_free\<close> is inverted: the base is freed when there is none.
\<close>

definition Destroy :: "'cb runner \<Rightarrow> 'cb runner option" where
  "Destroy s =
     (if timers s \<noteq> Map.empty \<and> \<not> m_Log s then None
      else
        (let s1 = s\<lparr>levents := (\<lambda>ev. if timers s ev = None then levents s ev else None),
                    timers := Map.empty\<rparr>
         in if \<not> event_base s1 \<and> \<not> m_Log s1 then None
            else if m_MsgHandler s1 \<and> \<not> m_Log s1 then None
            else Some (s1\<lparr>m_MsgHandler := False, m_Log := False\<rparr>)))"

text \<open>
  \<^verbatim>\<open>RunnerProc\<close>: \<open>ok_log\<close>, \<open>ok_base\<close> and \<open>ok_init\<close> say whether the log could be opened, the
  event base made and the derived class initialised; \<open>loop\<close> is what happens in the event
  loop. The result's flag says that \<^verbatim>\<open>OutOfMemoryException\<close> is thrown.
\<close>

definition RunnerProc ::
    "('cb \<Rightarrow> 'cb runner \<Rightarrow> 'cb runner) \<Rightarrow> bool \<Rightarrow> bool \<Rightarrow> bool \<Rightarrow> ('cb runner \<Rightarrow> 'cb runner option)
       \<Rightarrow> 'cb runner \<Rightarrow> (bool \<times> 'cb runner) option" where
  "RunnerProc act ok_log ok_base ok_init loop s =
     (let s1 = s\<lparr>m_Log := ok_log, event_base := ok_base\<rparr>
      in if \<not> ok_base then map_option (\<lambda>s'. (True, s')) (Destroy s1)
         else if \<not> ok_init then map_option (\<lambda>s'. (False, s')) (Destroy s1)
         else (case loop (Run act True True (s1\<lparr>m_MsgHandler := True\<rparr>)) of
                 None \<Rightarrow> None
               | Some s2 \<Rightarrow> map_option (\<lambda>s'. (False, s')) (Destroy s2)))"

section \<open>Invariant\<close>

text \<open>
  Every event libevent holds belongs to a registered timer, except those (\<open>P\<close>) of the calls
  of \<^verbatim>\<open>AddTimer\<close> that are still in their first callback.
\<close>

definition runner_inv :: "nat set \<Rightarrow> 'cb runner \<Rightarrow> bool" where
  "runner_inv P s \<longleftrightarrow>
     dom (levents s) = dom (timers s) \<union> P \<and> dom (timers s) \<inter> P = {} \<and>
     (\<forall>ev \<in> dom (levents s). ev < next_event s) \<and>
     (\<forall>ev e. levents s ev = Some e \<longrightarrow> ev_timeout e \<noteq> None)"

text \<open>What a callback may do: use the runner's functions, which keep the invariant.\<close>

definition act_ok :: "('cb \<Rightarrow> 'cb runner \<Rightarrow> 'cb runner) \<Rightarrow> bool" where
  "act_ok act \<longleftrightarrow> (\<forall>c P s. runner_inv P s \<longrightarrow> runner_inv P (act c s))"

lemma inv_control [intro]:
  "runner_inv P s \<Longrightarrow> runner_inv P (Pause s)"
  "runner_inv P s \<Longrightarrow> runner_inv P (Resume s)"
  "runner_inv P s \<Longrightarrow> runner_inv P (runner_Shutdown s)"
  "runner_inv P s \<Longrightarrow> runner_inv P (emit k s)"
  "runner_inv P s \<Longrightarrow> runner_inv P (do_process w s)"
  by (simp_all add: runner_inv_def Pause_def Resume_def runner_Shutdown_def SetActive_def emit_def
      do_process_def Let_def)

lemma inv_call_back:
  "act_ok act \<Longrightarrow> runner_inv P s \<Longrightarrow> runner_inv P (call_back act cb s)"
  by (cases cb) (simp_all add: call_back_def DoProcessMsg_def DoProcessTimer_def act_ok_def inv_control)

lemma inv_AddTimer:
  assumes "act_ok act" and "runner_inv P s"
  shows "runner_inv P (snd (AddTimer act ok_te ok_new ok_add iv cb first s))"
proof (cases "ok_te \<and> ok_new \<and> ok_add")
  case True
  define e where "e = (if first = 0 \<or> first = 0xFFFFFFFF
    then \<lparr>ev_persist = True, ev_first = False, ev_timeout = Some (timeval_of iv)\<rparr>
    else \<lparr>ev_persist = False, ev_first = True, ev_timeout = Some (timeval_of first)\<rparr>)"
  define s2 where "s2 = s\<lparr>next_event := next_event s + 1, levents := (levents s)(next_event s \<mapsto> e)\<rparr>"
  define s3 where "s3 = (if first = 0 then call_back act cb s2 else s2)"
  have new: "next_event s \<notin> dom (levents s)" using assms(2) by (auto simp: runner_inv_def)
  have "ev_timeout e \<noteq> None" by (simp add: e_def)
  with new assms(2) have "runner_inv (insert (next_event s) P) s2"
    by (auto simp: runner_inv_def s2_def less_Suc_eq)
  then have "runner_inv (insert (next_event s) P) s3"
    using inv_call_back [OF assms(1)] by (simp add: s3_def)
  moreover have "next_event s \<notin> P" using new assms(2) by (auto simp: runner_inv_def)
  ultimately have "runner_inv P (s3\<lparr>timers := (timers s3)(next_event s \<mapsto> \<lparr>timer_cb = cb, te_interval = iv\<rparr>)\<rparr>)"
    by (auto simp: runner_inv_def)
  moreover have "snd (AddTimer act ok_te ok_new ok_add iv cb first s)
      = s3\<lparr>timers := (timers s3)(next_event s \<mapsto> \<lparr>timer_cb = cb, te_interval = iv\<rparr>)\<rparr>"
    using True unfolding AddTimer_def Let_def s3_def s2_def e_def by simp
  ultimately show ?thesis by simp
qed (use assms(2) in \<open>auto simp: AddTimer_def Let_def runner_inv_def less_Suc_eq\<close>)

lemma inv_RemoveTimer: "runner_inv P s \<Longrightarrow> runner_inv P (snd (RemoveTimer ev s))"
  by (auto simp: RemoveTimer_def runner_inv_def split: option.split)

lemma inv_rearmed:
  "runner_inv P s \<Longrightarrow> timers s ev = Some te \<Longrightarrow> ev_timeout e \<noteq> None \<Longrightarrow>
     runner_inv P (s\<lparr>levents := (levents s)(ev \<mapsto> e)\<rparr>)"
  by (auto simp: runner_inv_def)

lemma inv_dropped:
  "runner_inv P s \<Longrightarrow> timers s ev = Some te \<Longrightarrow>
     runner_inv P (s\<lparr>timers := (timers s)(ev := None), levents := (levents s)(ev := None)\<rparr>)"
  by (auto simp: runner_inv_def)

lemma inv_fire:
  assumes "act_ok act" and "runner_inv P s" and "fire act ok ev s = Some s'"
  shows "runner_inv P s'"
proof -
  have cb: "runner_inv P (call_back act cb s)" for cb by (rule inv_call_back [OF assms(1,2)])
  show ?thesis
    using assms(2,3)
    by (auto simp: fire_def event_timer_process_def event_timer_process_firsttime_def Let_def
        intro: cb inv_rearmed [OF cb] inv_dropped [OF cb] split: option.splits if_splits)
qed

section \<open>The runner as a state machine\<close>

inductive runner_step :: "('cb \<Rightarrow> 'cb runner \<Rightarrow> 'cb runner) \<Rightarrow> 'cb runner \<Rightarrow> 'cb runner \<Rightarrow> bool"
  for act where
  step_Pause: "runner_step act s (Pause s)"
| step_Resume: "runner_step act s (Resume s)"
| step_Shutdown: "runner_step act s (runner_Shutdown s)"
| step_Add: "runner_step act s (snd (AddTimer act ok_te ok_new ok_add iv cb first s))"
| step_Remove: "runner_step act s (snd (RemoveTimer ev s))"
| step_Fire: "fire act ok ev s = Some s' \<Longrightarrow> runner_step act s s'"

inductive runner_steps :: "('cb \<Rightarrow> 'cb runner \<Rightarrow> 'cb runner) \<Rightarrow> 'cb runner \<Rightarrow> 'cb runner \<Rightarrow> bool"
  for act where
  steps_refl: "runner_steps act s s"
| steps_step: "runner_steps act s s' \<Longrightarrow> runner_step act s' s'' \<Longrightarrow> runner_steps act s s''"

lemma inv_step: "runner_step act s s' \<Longrightarrow> act_ok act \<Longrightarrow> runner_inv {} s \<Longrightarrow> runner_inv {} s'"
  by (induction rule: runner_step.induct) (auto intro: inv_AddTimer inv_RemoveTimer inv_fire)

lemma inv_steps: "runner_steps act s s' \<Longrightarrow> act_ok act \<Longrightarrow> runner_inv {} s \<Longrightarrow> runner_inv {} s'"
  by (induction rule: runner_steps.induct) (auto intro: inv_step)

lemma log_do_process [simp]: "m_Log (do_process w s) = m_Log s" "event_base (do_process w s) = event_base s"
  by (simp_all add: do_process_def emit_def Let_def)

lemma inv_Run:
  assumes "act_ok act" and "runner_inv {} s"
  shows "runner_inv {} (Run act ok1 ok2 s)"
proof -
  have "runner_inv {} (t\<lparr>m_IsActive := b\<rparr>)" if "runner_inv {} t" for t :: "'a runner" and b
    using that by (simp add: runner_inv_def)
  then show ?thesis using assms by (simp add: Run_def Let_def inv_AddTimer)
qed

section \<open>Properties\<close>

lemma fire_undefined:
  assumes "runner_inv {} s" and "fire act ok ev s = None"
  shows "\<exists>e te. levents s ev = Some e \<and> ev_first e \<and> timers s ev = Some te \<and> timers (call_back act (timer_cb te) s) ev = None"
proof -
  obtain e where e: "levents s ev = Some e" using assms(2) by (auto simp: fire_def split: option.splits)
  then have "ev \<in> dom (timers s)" using assms(1) by (auto simp: runner_inv_def)
  then obtain te where te: "timers s ev = Some te" by auto
  show ?thesis
    using assms(2) e te
    by (auto simp: fire_def event_timer_process_def event_timer_process_firsttime_def Let_def split: if_splits option.splits)
qed

text \<open>
  C18: No timer is leaked by a run without a memory error, and only one step makes one. Timers are added, fire (once or
  persistently), fail to be added or are removed, and the runner is paused and resumed in between, by callbacks
  that keep the runner's timers and libevent's events in step, as the runner's own functions do: when it is
  destroyed at the end, libevent holds none of its events any more. The one step that touches freed
  memory, after which nothing is said, is the first firing of a delayed timer whose callback removes this
  very timer.
\<close>

theorem runner_frees_its_timers:
  assumes "act_ok act" and "runner_inv {} s" and "runner_steps act (Run act ok1 ok2 s) s'"
  shows "(\<forall>s''. Destroy s' = Some s'' \<longrightarrow> timers s'' = Map.empty \<and> levents s'' = Map.empty) \<and>
    (\<forall>ok ev. fire act ok ev s' = None \<longrightarrow> (\<exists>e te. levents s' ev = Some e \<and> ev_first e \<and> timers s' ev = Some te \<and>
       timers (call_back act (timer_cb te) s') ev = None))"
proof -
  have inv: "runner_inv {} s'" by (rule inv_steps [OF assms(3,1) inv_Run [OF assms(1,2)]])
  then have "dom (levents s') = dom (timers s')" by (simp add: runner_inv_def)
  then have "(\<lambda>ev. if timers s' ev = None then levents s' ev else None) = Map.empty"
    by (intro ext) (auto simp: domIff)
  then have "timers s'' = Map.empty \<and> levents s'' = Map.empty" if "Destroy s' = Some s''" for s''
    using that by (auto simp: Destroy_def Let_def split: if_splits)
  then show ?thesis using fire_undefined [OF inv] by blast
qed

theorem runner_frees_its_timers_witness:
  "\<exists>s'. Destroy (Run (\<lambda>_ s. s) True True ((WorkerRunner 1000 :: nat runner)\<lparr>m_Log := True, event_base := True\<rparr>)) = Some s' \<and>
     levents s' = Map.empty"
proof -
  let ?s = "(WorkerRunner 1000 :: nat runner)\<lparr>m_Log := True, event_base := True\<rparr>"
  let ?r = "Run (\<lambda>_ s. s) True True ?s"
  have l: "m_Log ?r" "event_base ?r"
    by (simp_all add: Run_def AddTimer_def call_back_def DoProcessMsg_def DoProcessTimer_def do_process_def
        emit_def Let_def WorkerRunner_def)
  then obtain s' where s': "Destroy ?r = Some s'" by (simp add: Destroy_def Let_def)
  have "act_ok (\<lambda>_ s. s)" by (simp add: act_ok_def)
  moreover have "runner_inv {} ?s" by (simp add: runner_inv_def WorkerRunner_def)
  ultimately show ?thesis using runner_frees_its_timers [OF _ _ steps_refl] s' by blast
qed

text \<open>
  A paused runner does none of its work: however often its timers fire, they report the
  pause once and nothing else until it is resumed.
\<close>

theorem paused_runner_rests:
  assumes "m_IsActive s" and "m_IsPause s"
  shows "trace ((do_process work ^^ n) s) = trace s @ (if m_CheckPause s \<and> 0 < n then [DidOnPause] else []) \<and>
    m_IsPause ((do_process work ^^ n) s)"
proof -
  have "m_IsActive ((do_process work ^^ n) s) \<and> m_IsPause ((do_process work ^^ n) s) \<and>
      m_CheckPause ((do_process work ^^ n) s) = (m_CheckPause s \<and> n = 0) \<and>
      trace ((do_process work ^^ n) s) = trace s @ (if m_CheckPause s \<and> 0 < n then [DidOnPause] else [])"
  proof (induction n)
    case (Suc n)
    then show ?case by (auto simp: do_process_def emit_def Let_def)
  qed (use assms in simp)
  then show ?thesis by blast
qed

theorem paused_runner_rests_witness:
  "trace ((do_process DidProcessMsg ^^ 3) (Pause (SetActive True (WorkerRunner 5 :: nat runner)))) = [DidOnPause]"
proof -
  let ?s = "Pause (SetActive True (WorkerRunner 5 :: nat runner))"
  have s: "m_IsActive ?s" "m_IsPause ?s" "m_CheckPause ?s" "trace ?s = []"
    by (simp_all add: Pause_def SetActive_def WorkerRunner_def)
  from paused_runner_rests [OF s(1,2), where work = DidProcessMsg and n = 3] s(3,4) show ?thesis by simp
qed

text \<open>
  The inverted test in \<^verbatim>\<open>Destroy\<close>: a runner that never ran cannot be destroyed (the log
  is used through a null pointer), one whose event base could not be made survives the first
  call but not the destructor's, and one that ran keeps its event base for ever.
\<close>

theorem destroy_test_inverted:
  "Destroy (WorkerRunner tv :: 'cb runner) = None \<and>
   (\<exists>s'. RunnerProc act True False ok_init loop (WorkerRunner tv) = Some (True, s') \<and> Destroy s' = None) \<and>
   (\<exists>s'. RunnerProc act True True False loop (WorkerRunner tv) = Some (False, s') \<and> event_base s')"
  by (simp add: Destroy_def WorkerRunner_def RunnerProc_def Let_def)

text \<open>
  A delayed timer whose callback removes it the first time it fires is used after it has
  been freed.
\<close>

theorem self_removing_timer_used_after_free:
  assumes "levents s ev = Some e" and "ev_first e" and "timers s ev = Some te" and "timer_cb te = User c"
    and "\<And>t. act c t = snd (RemoveTimer ev t)"
  shows "fire act ok_add ev s = None"
  using assms
  by (simp add: fire_def event_timer_process_firsttime_def call_back_def emit_def RemoveTimer_def)

theorem self_removing_timer_used_after_free_witness:
  "fire (\<lambda>c t. snd (RemoveTimer c t)) True 0
     (snd (AddTimer (\<lambda>c t. snd (RemoveTimer c t)) True True True 50 (User 0) 10 (WorkerRunner 0))) = None"
  by (rule self_removing_timer_used_after_free [where
        e = "\<lparr>ev_persist = False, ev_first = True, ev_timeout = Some (timeval_of 10)\<rparr>" and
        te = "\<lparr>timer_cb = User 0, te_interval = 50\<rparr>" and c = 0])
    (simp_all add: AddTimer_def WorkerRunner_def Let_def)

end
