(* ===== verification/Tinf.thy ===== *)
theory Tinf
  imports Prelude
begin

text \<open>
  \<^verbatim>\<open>Common/TInf.cpp\<close>: decompression of deflate and zlib streams. The source is the list of
  bytes from the read pointer to the end of its block; the output is the list of bytes written
  so far, in a block with room for \<open>room\<close> bytes. \<open>None\<close> as a result is an access outside an
  array or block, or to bytes not written yet. The 16-bit counts and offsets of the code tables
  are natural numbers: there are at most 288 symbols, so they cannot wrap.
\<close>

unbundle bit_operations_syntax

section \<open>State\<close>

record tinf_tree =
  t_table :: "nat list"
  t_trans :: "nat list"

record tinf_data =
  d_source :: "u8 list"
  d_tag :: nat
  d_bitcount :: nat
  d_dest :: "u8 list"
  d_room :: nat
  d_destLen :: u32
  d_ltree :: tinf_tree
  d_dtree :: tinf_tree

record tinf_tables =
  sltree :: tinf_tree
  sdtree :: tinf_tree
  length_bits :: "nat list"
  length_base :: "nat list"
  dist_bits :: "nat list"
  dist_base :: "nat list"

definition TINF_OK :: int where "TINF_OK = 0"
definition TINF_DATA_ERROR :: int where "TINF_DATA_ERROR = - 3"

definition clcidx :: "nat list" where
  "clcidx = [16, 17, 18, 0, 8, 7, 9, 6, 10, 5, 11, 4, 12, 3, 13, 2, 14, 1, 15]"

text \<open>Memory that the code never reads before it writes it.\<close>

definition no_tree :: tinf_tree where
  "no_tree = \<lparr>t_table = replicate 16 0, t_trans = replicate 288 0\<rparr>"

section \<open>Tables\<close>

fun base_loop :: "nat list \<Rightarrow> nat \<Rightarrow> nat list" where
  "base_loop [] sm = []"
| "base_loop (b # bs) sm = sm # base_loop bs (sm + 2 ^ b)"

definition tinf_build_bits_base :: "nat \<Rightarrow> nat \<Rightarrow> nat list \<times> nat list" where
  "tinf_build_bits_base delta first =
     (let bits = replicate delta 0 @ map (\<lambda>i. i div delta) [0..<30 - delta]
      in (bits, base_loop bits first))"

definition tinf_build_fixed_trees :: "tinf_tree \<times> tinf_tree" where
  "tinf_build_fixed_trees =
     (\<lparr>t_table = replicate 7 0 @ [24, 152, 112] @ replicate 6 0,
       t_trans = map (\<lambda>i. 256 + i) [0..<24] @ [0..<144] @ map (\<lambda>i. 280 + i) [0..<8] @
         map (\<lambda>i. 144 + i) [0..<112]\<rparr>,
      \<lparr>t_table = replicate 5 0 @ [32] @ replicate 10 0,
       t_trans = [0..<32] @ replicate 256 0\<rparr>)"

definition tinf_init :: tinf_tables where
  "tinf_init =
     (let (lt, dt) = tinf_build_fixed_trees;
          (lb, la) = tinf_build_bits_base 4 3;
          (db, da) = tinf_build_bits_base 2 1
      in \<lparr>sltree = lt, sdtree = dt, length_bits = lb[28 := 0], length_base = la[28 := 258],
          dist_bits = db, dist_base = da\<rparr>)"

fun count_lengths :: "nat list \<Rightarrow> nat list \<Rightarrow> nat list option" where
  "count_lengths [] tb = Some tb"
| "count_lengths (l # ls) tb = (if l \<ge> 16 then None else count_lengths ls (tb[l := tb ! l + 1]))"

fun offsets :: "nat list \<Rightarrow> nat \<Rightarrow> nat list" where
  "offsets [] sm = []"
| "offsets (c # cs) sm = sm # offsets cs (sm + c)"

fun place_symbols :: "nat \<Rightarrow> nat list \<Rightarrow> nat list \<Rightarrow> nat list \<Rightarrow> nat list option" where
  "place_symbols i [] offs tr = Some tr"
| "place_symbols i (l # ls) offs tr =
     (if l = 0 then place_symbols (i + 1) ls offs tr
      else if offs ! l \<ge> 288 then None
      else place_symbols (i + 1) ls (offs[l := offs ! l + 1]) (tr[offs ! l := i]))"

definition tinf_build_tree :: "nat list \<Rightarrow> nat \<Rightarrow> tinf_tree \<Rightarrow> tinf_tree option" where
  "tinf_build_tree lengths num t =
     (if num > length lengths then None
      else (case count_lengths (take num lengths) (replicate 16 0) of
              None \<Rightarrow> None
            | Some tb0 \<Rightarrow>
                (let tb = tb0[0 := 0]
                 in map_option (\<lambda>tr. \<lparr>t_table = tb, t_trans = tr\<rparr>)
                      (place_symbols 0 (take num lengths) (offsets tb 0) (t_trans t)))))"

section \<open>Bits and symbols\<close>

definition tinf_getbit :: "tinf_data \<Rightarrow> (nat \<times> tinf_data) option" where
  "tinf_getbit d =
     (if d_bitcount d = 0 then
        (case d_source d of
           [] \<Rightarrow> None
         | b # bs \<Rightarrow>
             Some (unat b mod 2, d\<lparr>d_source := bs, d_bitcount := 7, d_tag := unat b div 2\<rparr>))
      else Some (d_tag d mod 2, d\<lparr>d_bitcount := d_bitcount d - 1, d_tag := d_tag d div 2\<rparr>))"

fun read_bits_loop :: "nat \<Rightarrow> nat \<Rightarrow> nat \<Rightarrow> tinf_data \<Rightarrow> (nat \<times> tinf_data) option" where
  "read_bits_loop 0 msk val d = Some (val, d)"
| "read_bits_loop (Suc n) msk val d =
     (case tinf_getbit d of
        None \<Rightarrow> None
      | Some (bt, d1) \<Rightarrow> read_bits_loop n (msk * 2) (if bt \<noteq> 0 then val + msk else val) d1)"

definition tinf_read_bits :: "nat \<Rightarrow> nat \<Rightarrow> tinf_data \<Rightarrow> (nat \<times> tinf_data) option" where
  "tinf_read_bits num base d = map_option (\<lambda>(v, d1). (v + base, d1)) (read_bits_loop num 1 0 d)"

function decode_loop ::
    "tinf_tree \<Rightarrow> int \<Rightarrow> int \<Rightarrow> nat \<Rightarrow> tinf_data \<Rightarrow> (nat \<times> tinf_data) option" where
  "decode_loop t sm cur len d =
     (case tinf_getbit d of
        None \<Rightarrow> None
      | Some (bt, d1) \<Rightarrow>
          if len + 1 \<ge> 16 then None
          else
            (let n = int (t_table t ! (len + 1));
                 sm1 = sm + n;
                 cur1 = 2 * cur + int bt - n
             in if cur1 \<ge> 0 then decode_loop t sm1 cur1 (len + 1) d1
                else if sm1 + cur1 < 0 \<or> nat (sm1 + cur1) \<ge> length (t_trans t) then None
                else Some (t_trans t ! nat (sm1 + cur1), d1)))"
  by pat_completeness auto
termination by (relation "measure (\<lambda>(t, sm, cur, len, d). 16 - len)") auto

declare decode_loop.simps [simp del]

definition tinf_decode_symbol :: "tinf_tree \<Rightarrow> tinf_data \<Rightarrow> (nat \<times> tinf_data) option" where
  "tinf_decode_symbol t d = decode_loop t 0 0 0 d"

text \<open>The bits that are left, as a measure: every symbol takes one at least.\<close>

definition bits_left :: "tinf_data \<Rightarrow> nat" where
  "bits_left d = 8 * length (d_source d) + d_bitcount d"

lemma getbit_left: "tinf_getbit d = Some (b, d') \<Longrightarrow> bits_left d' < bits_left d"
  by (auto simp: tinf_getbit_def bits_left_def split: if_splits list.splits)

lemma read_bits_loop_left: "read_bits_loop n msk val d = Some (v, d') \<Longrightarrow> bits_left d' \<le> bits_left d"
proof (induction n arbitrary: msk val d)
  case (Suc n)
  then show ?case
    by (fastforce split: option.splits prod.splits dest: getbit_left)
qed simp

lemma read_bits_left: "tinf_read_bits n base d = Some (v, d') \<Longrightarrow> bits_left d' \<le> bits_left d"
  by (auto simp: tinf_read_bits_def dest: read_bits_loop_left)

lemma decode_loop_left: "decode_loop t sm cur len d = Some (s, d') \<Longrightarrow> bits_left d' < bits_left d"
proof (induction t sm cur len d rule: decode_loop.induct)
  case (1 t sm cur len d)
  then show ?case
    by (subst (asm) (2) decode_loop.simps)
      (fastforce simp: Let_def split: option.splits if_splits dest: getbit_left)
qed

lemma decode_left: "tinf_decode_symbol t d = Some (s, d') \<Longrightarrow> bits_left d' < bits_left d"
  unfolding tinf_decode_symbol_def by (rule decode_loop_left)

lemma bits_left_with [simp]:
  "bits_left (d\<lparr>d_dest := out\<rparr>) = bits_left d"
  "bits_left (d\<lparr>d_destLen := n\<rparr>) = bits_left d"
  "bits_left (d\<lparr>d_ltree := lt, d_dtree := dt\<rparr>) = bits_left d"
  by (simp_all add: bits_left_def)

section \<open>Dynamic trees\<close>

fun fill :: "nat \<Rightarrow> nat \<Rightarrow> nat list \<Rightarrow> nat \<Rightarrow> (nat list \<times> nat) option" where
  "fill 0 v lengths num = Some (lengths, num)"
| "fill (Suc n) v lengths num =
     (if num \<ge> length lengths then None else fill n v (lengths[num := v]) (num + 1))"

fun clen_loop :: "nat list \<Rightarrow> nat list \<Rightarrow> tinf_data \<Rightarrow> (nat list \<times> tinf_data) option" where
  "clen_loop [] lengths d = Some (lengths, d)"
| "clen_loop (c # cs) lengths d =
     (case tinf_read_bits 3 0 d of
        None \<Rightarrow> None
      | Some (clen, d1) \<Rightarrow> clen_loop cs (lengths[c := clen]) d1)"

text \<open>The cases of the switch: how many times which length is stored.\<close>

definition length_run ::
    "nat \<Rightarrow> nat list \<Rightarrow> nat \<Rightarrow> tinf_data \<Rightarrow> (nat \<times> nat \<times> tinf_data) option" where
  "length_run sm lengths num d =
     (if sm = 16 then
        (if num = 0 \<or> num > length lengths then None
         else map_option (\<lambda>(n, d1). (n, lengths ! (num - 1), d1)) (tinf_read_bits 2 3 d))
      else if sm = 17 then map_option (\<lambda>(n, d1). (n, 0, d1)) (tinf_read_bits 3 3 d)
      else if sm = 18 then map_option (\<lambda>(n, d1). (n, 0, d1)) (tinf_read_bits 7 11 d)
      else Some (1, sm, d))"

lemma length_run_left: "length_run sm ls num d = Some (n, v, d') \<Longrightarrow> bits_left d' \<le> bits_left d"
  by (auto simp: length_run_def dest: read_bits_left split: if_splits)

function lengths_loop ::
    "tinf_tree \<Rightarrow> nat \<Rightarrow> nat list \<Rightarrow> nat \<Rightarrow> tinf_data \<Rightarrow> (nat list \<times> tinf_data) option" where
  "lengths_loop t tot lengths num d =
     (if num \<ge> tot then Some (lengths, d)
      else
        (case tinf_decode_symbol t d of
           None \<Rightarrow> None
         | Some (sm, d1) \<Rightarrow>
        (case length_run sm lengths num d1 of
           None \<Rightarrow> None
         | Some (n, v, d2) \<Rightarrow>
        (case fill n v lengths num of
           None \<Rightarrow> None
         | Some (ls, num') \<Rightarrow> lengths_loop t tot ls num' d2))))"
  by pat_completeness auto
termination
  by (relation "measure (\<lambda>(t, tot, lengths, num, d). bits_left d)")
    (auto dest!: decode_left length_run_left)

declare lengths_loop.simps [simp del]

definition tinf_decode_trees ::
    "tinf_tree \<Rightarrow> tinf_tree \<Rightarrow> tinf_data \<Rightarrow> (tinf_tree \<times> tinf_tree \<times> tinf_data) option" where
  "tinf_decode_trees lt dt d =
     (case tinf_read_bits 5 257 d of None \<Rightarrow> None | Some (hlit, d1) \<Rightarrow>
     (case tinf_read_bits 5 1 d1 of None \<Rightarrow> None | Some (hdist, d2) \<Rightarrow>
     (case tinf_read_bits 4 4 d2 of None \<Rightarrow> None | Some (hclen, d3) \<Rightarrow>
     (case clen_loop (take hclen clcidx) (replicate 320 0) d3 of None \<Rightarrow> None | Some (ls, d4) \<Rightarrow>
     (case tinf_build_tree ls 19 no_tree of None \<Rightarrow> None | Some code_tree \<Rightarrow>
     (case lengths_loop code_tree (hlit + hdist) ls 0 d4 of None \<Rightarrow> None | Some (ls', d5) \<Rightarrow>
     (case tinf_build_tree ls' hlit lt of None \<Rightarrow> None | Some lt' \<Rightarrow>
     (case tinf_build_tree (drop hlit ls') hdist dt of None \<Rightarrow> None | Some dt' \<Rightarrow>
        Some (lt', dt', d5)))))))))"

section \<open>Blocks\<close>

text \<open>
  The match is copied byte by byte to the end of the output, so it may overlap itself. An offset
  that reaches before the output, or the byte about to be written, is not readable.
\<close>

fun copy_match :: "nat \<Rightarrow> nat \<Rightarrow> nat \<Rightarrow> u8 list \<Rightarrow> u8 list option" where
  "copy_match room 0 offs out = Some out"
| "copy_match room (Suc n) offs out =
     (if length out \<ge> room \<or> offs = 0 \<or> offs > length out then None
      else copy_match room n offs (out @ [out ! (length out - offs)]))"

function tinf_inflate_block_data ::
    "tinf_tables \<Rightarrow> nat \<Rightarrow> tinf_tree \<Rightarrow> tinf_tree \<Rightarrow> tinf_data \<Rightarrow> (int \<times> tinf_data) option" where
  "tinf_inflate_block_data g start lt dt d =
     (case tinf_decode_symbol lt d of
        None \<Rightarrow> None
      | Some (sm, d1) \<Rightarrow>
          if sm = 256 then
            Some (TINF_OK,
              d1\<lparr>d_destLen := d_destLen d1 + of_nat (length (d_dest d1) - start)\<rparr>)
          else if sm < 256 then
            (if length (d_dest d1) \<ge> d_room d1 then None
             else tinf_inflate_block_data g start lt dt (d1\<lparr>d_dest := d_dest d1 @ [of_nat sm]\<rparr>))
          else if sm - 257 \<ge> 30 then None
          else
            (case tinf_read_bits (length_bits g ! (sm - 257)) (length_base g ! (sm - 257)) d1 of
               None \<Rightarrow> None
             | Some (len, d2) \<Rightarrow>
            (case tinf_decode_symbol dt d2 of
               None \<Rightarrow> None
             | Some (dist, d3) \<Rightarrow>
               if dist \<ge> 30 then None
               else
            (case tinf_read_bits (dist_bits g ! dist) (dist_base g ! dist) d3 of
               None \<Rightarrow> None
             | Some (offs, d4) \<Rightarrow>
            (case copy_match (d_room d4) len offs (d_dest d4) of
               None \<Rightarrow> None
             | Some out \<Rightarrow> tinf_inflate_block_data g start lt dt (d4\<lparr>d_dest := out\<rparr>))))))"
  by pat_completeness auto
termination
  by (relation "measure (\<lambda>(g, start, lt, dt, d). bits_left d)")
    (auto dest!: decode_left read_bits_left)

declare tinf_inflate_block_data.simps [simp del]

definition tinf_inflate_uncompressed_block :: "tinf_data \<Rightarrow> (int \<times> tinf_data) option" where
  "tinf_inflate_uncompressed_block d =
     (case d_source d of
        b0 # b1 # b2 # b3 # rest \<Rightarrow>
          (let len = 256 * ucast b1 + ucast b0 :: u32;
               invlength = 256 * ucast b3 + ucast b2 :: u32
           in if len \<noteq> (NOT invlength AND 0xffff) then Some (TINF_DATA_ERROR, d)
              else if unat len > length rest \<or> length (d_dest d) + unat len > d_room d then None
              else Some (TINF_OK,
                d\<lparr>d_source := drop (unat len) rest, d_dest := d_dest d @ take (unat len) rest,
                  d_bitcount := 0, d_destLen := d_destLen d + len\<rparr>))
      | _ \<Rightarrow> None)"

definition tinf_inflate_fixed_block :: "tinf_tables \<Rightarrow> tinf_data \<Rightarrow> (int \<times> tinf_data) option" where
  "tinf_inflate_fixed_block g d =
     tinf_inflate_block_data g (length (d_dest d)) (sltree g) (sdtree g) d"

definition tinf_inflate_dynamic_block :: "tinf_tables \<Rightarrow> tinf_data \<Rightarrow> (int \<times> tinf_data) option" where
  "tinf_inflate_dynamic_block g d =
     (case tinf_decode_trees (d_ltree d) (d_dtree d) d of
        None \<Rightarrow> None
      | Some (lt, dt, d1) \<Rightarrow>
          tinf_inflate_block_data g (length (d_dest d1)) lt dt (d1\<lparr>d_ltree := lt, d_dtree := dt\<rparr>))"

lemma block_data_left:
  "tinf_inflate_block_data g start lt dt d = Some (r, d') \<Longrightarrow> bits_left d' < bits_left d"
proof (induction d rule: measure_induct_rule [of bits_left])
  case (less d)
  from less.prems show ?case
    by (subst (asm) tinf_inflate_block_data.simps)
      (auto split: option.splits if_splits prod.splits
        dest!: decode_left read_bits_left less.IH [rotated])
qed

lemma uncompressed_left:
  "tinf_inflate_uncompressed_block d = Some (r, d') \<Longrightarrow> bits_left d' \<le> bits_left d"
  by (auto simp: tinf_inflate_uncompressed_block_def bits_left_def Let_def
      split: list.splits if_splits)

lemma fill_len: "fill n v ls num = Some (ls', num') \<Longrightarrow> length ls' = length ls"
  by (induction n arbitrary: ls num) (auto split: if_splits)

lemma clen_loop_left: "clen_loop cs ls d = Some (ls', d') \<Longrightarrow> bits_left d' \<le> bits_left d"
proof (induction cs arbitrary: ls d)
  case (Cons c cs)
  then show ?case
    by (fastforce split: option.splits prod.splits dest: read_bits_left)
qed simp

lemma lengths_loop_left:
  "lengths_loop t tot ls num d = Some (ls', d') \<Longrightarrow> bits_left d' \<le> bits_left d"
proof (induction d arbitrary: ls num rule: measure_induct_rule [of bits_left])
  case (less d)
  from less.prems show ?case
    by (subst (asm) lengths_loop.simps)
      (auto split: option.splits if_splits prod.splits
        dest!: decode_left length_run_left less.IH [rotated])
qed

lemma decode_trees_left:
  "tinf_decode_trees lt dt d = Some (lt', dt', d') \<Longrightarrow> bits_left d' \<le> bits_left d"
  unfolding tinf_decode_trees_def
  by (auto split: option.splits if_splits prod.splits
      dest!: read_bits_left clen_loop_left lengths_loop_left)

lemma dynamic_left: "tinf_inflate_dynamic_block g d = Some (r, d') \<Longrightarrow> bits_left d' < bits_left d"
  unfolding tinf_inflate_dynamic_block_def
  by (auto split: option.splits prod.splits dest!: block_data_left decode_trees_left)

section \<open>Streams\<close>

text \<open>
  One round of the loop reads at least a bit, so the loop ends. The announced length of the
  source is not used: the end of the source is the end of its block.
\<close>

function uncompress_loop :: "tinf_tables \<Rightarrow> tinf_data \<Rightarrow> (int \<times> tinf_data) option" where
  "uncompress_loop g d =
     (case tinf_getbit d of
        None \<Rightarrow> None
      | Some (bfinal, d1) \<Rightarrow>
     (case tinf_read_bits 2 0 d1 of
        None \<Rightarrow> None
      | Some (btype, d2) \<Rightarrow>
         if btype > 2 then Some (TINF_DATA_ERROR, d2)
         else
     (case (if btype = 0 then tinf_inflate_uncompressed_block d2
            else if btype = 1 then tinf_inflate_fixed_block g d2
            else tinf_inflate_dynamic_block g d2) of
        None \<Rightarrow> None
      | Some (res, d3) \<Rightarrow>
          if res \<noteq> TINF_OK then Some (TINF_DATA_ERROR, d3)
          else if bfinal \<noteq> 0 then Some (TINF_OK, d3)
          else uncompress_loop g d3)))"
  by pat_completeness auto
termination
  by (relation "measure (\<lambda>(g, d). bits_left d)")
    (auto dest!: getbit_left read_bits_left uncompressed_left dynamic_left
      block_data_left simp: tinf_inflate_fixed_block_def split: if_splits)

declare uncompress_loop.simps [simp del]

definition tinf_uncompress ::
    "tinf_tables \<Rightarrow> nat \<Rightarrow> u8 list \<Rightarrow> (int \<times> u8 list \<times> u32) option" where
  "tinf_uncompress g room source =
     map_option (\<lambda>(r, d). (r, d_dest d, d_destLen d))
       (uncompress_loop g
          \<lparr>d_source = source, d_tag = 0, d_bitcount = 0, d_dest = [], d_room = room,
            d_destLen = 0, d_ltree = no_tree, d_dtree = no_tree\<rparr>)"

section \<open>Checksums\<close>

definition A32_BASE :: u32 where "A32_BASE = 65521"
definition A32_NMAX :: nat where "A32_NMAX = 5552"

fun adler_bytes :: "u8 list \<Rightarrow> u32 \<times> u32 \<Rightarrow> u32 \<times> u32" where
  "adler_bytes [] (s1, s2) = (s1, s2)"
| "adler_bytes (b # bs) (s1, s2) =
     (let s1' = s1 + ucast b in adler_bytes bs (s1', s2 + s1'))"

fun adler_blocks :: "nat \<Rightarrow> u8 list \<Rightarrow> u32 \<times> u32 \<Rightarrow> u8 list \<times> u32 \<times> u32" where
  "adler_blocks 0 buf s = (buf, s)"
| "adler_blocks (Suc i) buf s = adler_blocks i (drop 16 buf) (adler_bytes (take 16 buf) s)"

function adler_loop :: "u8 list \<Rightarrow> nat \<Rightarrow> u32 \<Rightarrow> u32 \<Rightarrow> u32 \<times> u32" where
  "adler_loop buf len s1 s2 =
     (if len = 0 then (s1, s2)
      else
        (let k = (if len < A32_NMAX then len else A32_NMAX);
             (buf1, s) = adler_blocks (k div 16) buf (s1, s2);
             (s1', s2') = adler_bytes (take (k mod 16) buf1) s
         in adler_loop (drop (k mod 16) buf1) (len - k) (s1' mod A32_BASE) (s2' mod A32_BASE)))"
  by pat_completeness auto
termination by (relation "measure (\<lambda>(buf, len, s1, s2). len)") (auto simp: A32_NMAX_def)

declare adler_loop.simps [simp del]

definition tinf_adler32 :: "u8 list \<Rightarrow> u32 \<Rightarrow> u32 option" where
  "tinf_adler32 data len =
     (if unat len > length data then None
      else (let (s1, s2) = adler_loop data (unat len) 1 0 in Some (push_bit 16 s2 OR s1)))"

definition tinf_zlib_uncompress ::
    "tinf_tables \<Rightarrow> nat \<Rightarrow> u32 \<Rightarrow> u8 list \<Rightarrow> u32 \<Rightarrow> (int \<times> u8 list \<times> u32) option" where
  "tinf_zlib_uncompress g room destLen0 src sourceLen =
     (if length src < 2 then None
      else
        (let cmf = src ! 0; flg = src ! 1
         in if (256 * uint cmf + uint flg) mod 31 \<noteq> 0 then Some (TINF_DATA_ERROR, [], destLen0)
            else if cmf AND 0x0f \<noteq> 8 then Some (TINF_DATA_ERROR, [], destLen0)
            else if drop_bit 4 cmf > 7 then Some (TINF_DATA_ERROR, [], destLen0)
            else if flg AND 0x20 \<noteq> 0 then Some (TINF_DATA_ERROR, [], destLen0)
            else if unat (sourceLen - 4) + 3 \<ge> length src then None
            else
              (let i = unat (sourceLen - 4);
                   a0 = ucast (src ! i) :: u32;
                   a1 = 256 * a0 + ucast (src ! (i + 1));
                   a2 = 256 * a1 + ucast (src ! (i + 2));
                   a32 = 256 * a2 + ucast (src ! (i + 3))
               in case tinf_uncompress g room (drop 2 src) of
                    None \<Rightarrow> None
                  | Some (res, out, destLen) \<Rightarrow>
                      if res \<noteq> TINF_OK then Some (TINF_DATA_ERROR, out, destLen)
                      else
                        (case tinf_adler32 out destLen of
                           None \<Rightarrow> None
                         | Some b32 \<Rightarrow>
                             if a32 \<noteq> b32 then Some (TINF_DATA_ERROR, out, destLen)
                             else Some (TINF_OK, out, destLen)))))"

end
