(* ===== verification/Deflate.thy ===== *)
theory Deflate
  imports Tinf
begin

text \<open>
  The deflate format (RFC 1951) as a specification, and the proof that the decompressor of
  \<^verbatim>\<open>Common/TInf.cpp\<close> decodes it: bit sequences, canonical Huffman codes, tokens and blocks.
\<close>

section \<open>Bits\<close>

fun low_bits :: "nat \<Rightarrow> nat \<Rightarrow> nat list" where
  "low_bits 0 v = []"
| "low_bits (Suc n) v = v mod 2 # low_bits n (v div 2)"

definition byte_bits :: "u8 \<Rightarrow> nat list" where
  "byte_bits b = low_bits 8 (unat b)"

definition bits_of :: "tinf_data \<Rightarrow> nat list" where
  "bits_of d = low_bits (d_bitcount d) (d_tag d) @ concat (map byte_bits (d_source d))"

definition out_of :: "tinf_data \<Rightarrow> u8 list \<times> nat \<times> u32 \<times> tinf_tree \<times> tinf_tree" where
  "out_of d = (d_dest d, d_room d, d_destLen d, d_ltree d, d_dtree d)"

text \<open>\<open>gives f d bs v\<close>: the reader takes the bits \<open>bs\<close> off the source, and returns \<open>v\<close>.\<close>

definition gives :: "(tinf_data \<Rightarrow> ('a \<times> tinf_data) option) \<Rightarrow> nat list \<Rightarrow> 'a \<Rightarrow> bool" where
  "gives f bs v \<longleftrightarrow>
     (\<forall>d rest. d_bitcount d < 8 \<longrightarrow> bits_of d = bs @ rest \<longrightarrow>
        (\<exists>d'. f d = Some (v, d') \<and> bits_of d' = rest \<and> out_of d' = out_of d \<and> d_bitcount d' < 8))"

lemma length_low_bits [simp]: "length (low_bits n v) = n"
  by (induction n arbitrary: v) auto

lemma givesD:
  assumes "gives f bs v" "d_bitcount d < 8" "bits_of d = bs @ rest"
  obtains d' where "f d = Some (v, d')" "bits_of d' = rest" "out_of d' = out_of d" "d_bitcount d' < 8"
  using assms unfolding gives_def by blast

lemma givesI:
  assumes "\<And>d rest. d_bitcount d < 8 \<Longrightarrow> bits_of d = bs @ rest \<Longrightarrow>
     \<exists>d'. f d = Some (v, d') \<and> bits_of d' = rest \<and> out_of d' = out_of d \<and> d_bitcount d' < 8"
  shows "gives f bs v"
  using assms unfolding gives_def by blast

lemma gives_none: "gives (\<lambda>d. Some (v, d)) [] v"
  by (rule givesI) auto

lemma gives_bind:
  assumes "gives f bs v" "gives (g v) cs w"
  shows "gives (\<lambda>d. case f d of None \<Rightarrow> None | Some (x, d1) \<Rightarrow> g x d1) (bs @ cs) w"
proof (rule givesI)
  fix d rest assume "d_bitcount d < 8" "bits_of d = (bs @ cs) @ rest"
  then obtain d1 where 1: "f d = Some (v, d1)" "bits_of d1 = cs @ rest" "out_of d1 = out_of d"
    "d_bitcount d1 < 8"
    using givesD [OF assms(1), of d "cs @ rest"] by auto
  obtain d2 where "g v d1 = Some (w, d2)" "bits_of d2 = rest" "out_of d2 = out_of d1"
    "d_bitcount d2 < 8"
    using givesD [OF assms(2), of d1 rest] 1 by auto
  with 1 show "\<exists>d'. (case f d of None \<Rightarrow> None | Some (x, d1) \<Rightarrow> g x d1) = Some (w, d') \<and>
     bits_of d' = rest \<and> out_of d' = out_of d \<and> d_bitcount d' < 8" by auto
qed

lemma gives_map:
  assumes "gives f bs v"
  shows "gives (\<lambda>d. map_option (\<lambda>(x, d1). (h x, d1)) (f d)) bs (h v)"
proof (rule givesI)
  fix d rest assume "d_bitcount d < 8" "bits_of d = bs @ rest"
  then obtain d1 where "f d = Some (v, d1)" "bits_of d1 = rest" "out_of d1 = out_of d"
    "d_bitcount d1 < 8"
    using givesD [OF assms, of d rest] by auto
  then show "\<exists>d'. map_option (\<lambda>(x, d1). (h x, d1)) (f d) = Some (h v, d') \<and>
     bits_of d' = rest \<and> out_of d' = out_of d \<and> d_bitcount d' < 8" by auto
qed

lemma gives_getbit: "gives tinf_getbit [b] b"
proof (rule givesI)
  fix d rest assume d: "d_bitcount d < 8" "bits_of d = [b] @ rest"
  show "\<exists>d'. tinf_getbit d = Some (b, d') \<and> bits_of d' = rest \<and> out_of d' = out_of d \<and>
    d_bitcount d' < 8"
  proof (cases "d_bitcount d")
    case 0
    with d show ?thesis
      by (cases "d_source d")
        (auto simp: bits_of_def byte_bits_def out_of_def tinf_getbit_def numeral_eq_Suc)
  next
    case (Suc n)
    with d show ?thesis
      by (auto simp: bits_of_def out_of_def tinf_getbit_def)
  qed
qed

lemma gives_read_bits_loop:
  "e < 2 ^ n \<Longrightarrow> gives (read_bits_loop n msk val) (low_bits n e) (val + msk * e)"
proof (induction n arbitrary: msk val e)
  case 0
  then show ?case by (auto simp: gives_def)
next
  case (Suc n)
  let ?g = "\<lambda>bt. read_bits_loop n (msk * 2) (if bt \<noteq> 0 then val + msk else val)"
  have e: "e div 2 < 2 ^ n" using Suc.prems by auto
  have "val + msk * e = val + msk * (e mod 2) + msk * 2 * (e div 2)"
    by (metis ab_semigroup_add_class.add_ac(1) distrib_left mod_mult_div_eq mult.assoc)
  also have "val + msk * (e mod 2) = (if e mod 2 \<noteq> 0 then val + msk else val)"
    by (cases "e mod 2 = 0") (auto simp: odd_iff_mod_2_eq_one)
  finally have v: "val + msk * e = (if e mod 2 \<noteq> 0 then val + msk else val) + msk * 2 * (e div 2)" .
  have "gives (?g (e mod 2)) (low_bits n (e div 2)) (val + msk * e)"
    unfolding v by (rule Suc.IH [OF e])
  from gives_bind [where g = ?g, OF gives_getbit this] show ?case by simp
qed

lemma gives_read_bits:
  assumes "e < 2 ^ n" shows "gives (tinf_read_bits n base) (low_bits n e) (base + e)"
  using gives_map [OF gives_read_bits_loop [OF assms, of 1 0], of "\<lambda>v. v + base"]
  by (simp add: tinf_read_bits_def [abs_def] add.commute)

section \<open>Canonical codes\<close>

text \<open>The first code of a length, and the code of a symbol, as in section 3.2.2 of the RFC.\<close>

fun cnt :: "nat list \<Rightarrow> nat \<Rightarrow> nat" where
  "cnt ls 0 = 0"
| "cnt ls (Suc l) = count_list ls (Suc l)"

fun first_code :: "nat list \<Rightarrow> nat \<Rightarrow> nat" where
  "first_code ls 0 = 0"
| "first_code ls (Suc l) = 2 * (first_code ls l + cnt ls l)"

definition rank :: "nat list \<Rightarrow> nat \<Rightarrow> nat" where
  "rank ls s = count_list (take s ls) (ls ! s)"

definition sym_code :: "nat list \<Rightarrow> nat \<Rightarrow> nat" where
  "sym_code ls s = first_code ls (ls ! s) + rank ls s"

definition sym_bits :: "nat list \<Rightarrow> nat \<Rightarrow> nat list" where
  "sym_bits ls s = rev (low_bits (ls ! s) (sym_code ls s))"

text \<open>Lengths that a code exists for: no length has more codes than it has room for.\<close>

definition code_ok :: "nat list \<Rightarrow> bool" where
  "code_ok ls \<longleftrightarrow> length ls \<le> 288 \<and> (\<forall>l\<in>set ls. l < 16) \<and>
     (\<forall>l\<in>{0..15}. first_code ls l + cnt ls l \<le> 2 ^ l)"

definition start_of :: "nat list \<Rightarrow> nat \<Rightarrow> nat" where
  "start_of ls l = (\<Sum>i<l. cnt ls i)"

text \<open>The tables of a tree represent these lengths.\<close>

definition tree_for :: "tinf_tree \<Rightarrow> nat list \<Rightarrow> bool" where
  "tree_for t ls \<longleftrightarrow> length (t_trans t) = 288 \<and>
     (\<forall>l\<in>{1..15}. t_table t ! l = cnt ls l) \<and>
     (\<forall>s<length ls. 0 < ls ! s \<longrightarrow> t_trans t ! (start_of ls (ls ! s) + rank ls s) = s)"

lemma count_list_take_less: "s < length ls \<Longrightarrow> count_list (take s ls) (ls ! s) < count_list ls (ls ! s)"
proof -
  assume s: "s < length ls"
  have "ls = take s ls @ ls ! s # drop (Suc s) ls" using s by (simp add: id_take_nth_drop)
  then have "count_list ls (ls ! s) = count_list (take s ls @ ls ! s # drop (Suc s) ls) (ls ! s)"
    by simp
  then show ?thesis by (simp only: count_list_append) simp
qed

lemma rank_less: "s < length ls \<Longrightarrow> 0 < ls ! s \<Longrightarrow> rank ls s < cnt ls (ls ! s)"
  using count_list_take_less [of s ls] by (cases "ls ! s") (auto simp: rank_def)

lemma sum_filter_le: "start_of ls l + cnt ls l \<le> length ls"
proof -
  have "start_of ls l + cnt ls l \<le> length (filter (\<lambda>x. x \<le> l) ls)" for l
  proof (induction l)
    case (Suc l)
    have "length (filter (\<lambda>x. x \<le> Suc l) ls) =
      length (filter (\<lambda>x. x \<le> l) ls) + count_list ls (Suc l)"
      by (induction ls) auto
    with Suc show ?case by (simp add: start_of_def)
  qed (simp add: start_of_def)
  then show ?thesis using length_filter_le le_trans by blast
qed

lemma start_rank_less:
  "s < length ls \<Longrightarrow> 0 < ls ! s \<Longrightarrow> start_of ls (ls ! s) + rank ls s < length ls"
  using sum_filter_le [of ls "ls ! s"] rank_less [of s ls] by linarith

lemma first_code_shift:
  "j < l \<Longrightarrow> 2 ^ (l - j) * (first_code ls j + cnt ls j) \<le> first_code ls l"
proof (induction l)
  case (Suc l)
  show ?case
  proof (cases "j = l")
    case False
    then have "2 ^ (l - j) * (first_code ls j + cnt ls j) \<le> first_code ls l" using Suc by auto
    moreover have "(2::nat) ^ (Suc l - j) = 2 * 2 ^ (l - j)"
      using False Suc.prems by (simp add: Suc_diff_le)
    ultimately show ?thesis by auto
  qed auto
qed simp

lemma rev_low_bits:
  "rev (low_bits (Suc n) v) = (v div 2 ^ n) mod 2 # rev (low_bits n v)"
proof (induction n arbitrary: v)
  case (Suc n)
  have "rev (low_bits (Suc (Suc n)) v) = rev (low_bits (Suc n) (v div 2)) @ [v mod 2]" by simp
  also have "\<dots> = (v div 2 div 2 ^ n mod 2) # rev (low_bits n (v div 2)) @ [v mod 2]"
    by (simp only: Suc) simp
  finally show ?case by (simp add: div_mult2_eq)
qed simp

lemma cur_step:
  "V = 2 * v + b \<Longrightarrow> F = 2 * (f + c) \<Longrightarrow> 2 * (v - f - c) + b - k = V - F - (k::int)"
  by simp

text \<open>The state of the loop after \<open>len\<close> bits of the code of \<open>s\<close>.\<close>

lemma gives_decode_loop:
  assumes "code_ok ls" "tree_for t ls" "s < length ls" "0 < ls ! s"
    and "n = ls ! s - len" "len < ls ! s"
    and "v = sym_code ls s div 2 ^ n"
  shows "gives (decode_loop t (int (\<Sum>i\<le>len. cnt ls i)) (int v - int (first_code ls len) - int (cnt ls len)) len)
    (rev (low_bits n (sym_code ls s))) s"
  using assms
proof (induction n arbitrary: len v)
  case (Suc n)
  let ?c = "sym_code ls s" and ?l = "ls ! s"
  let ?b = "?c div 2 ^ n mod 2" and ?v = "?c div 2 ^ n"
  have l15: "?l < 16" using Suc.prems(1,3) unfolding code_ok_def by auto
  have v: "?v = 2 * v + ?b"
    using Suc.prems(7) by (simp add: div_mult2_eq mult.commute [of 2 "2 ^ n"])
  have tb: "t_table t ! (Suc len) = cnt ls (Suc len)"
    using Suc.prems(2,6) l15 unfolding tree_for_def by auto
  have fc: "first_code ls (Suc len) = 2 * (first_code ls len + cnt ls len)" by simp
  have cur: "2 * (int v - int (first_code ls len) - int (cnt ls len)) + int ?b - int (cnt ls (Suc len))
     = int ?v - int (first_code ls (Suc len)) - int (cnt ls (Suc len))"
  proof -
    have "int ?v = 2 * int v + int ?b" using arg_cong [OF v, of int] by (simp only: of_nat_add of_nat_mult of_nat_numeral)
    moreover have "int (first_code ls (Suc len)) = 2 * (int (first_code ls len) + int (cnt ls len))"
      unfolding fc by (simp only: of_nat_add of_nat_mult of_nat_numeral)
    ultimately show ?thesis by (rule cur_step)
  qed
  have sm: "int (\<Sum>i\<le>len. cnt ls i) + int (cnt ls (Suc len)) = int (\<Sum>i\<le>Suc len. cnt ls i)" by simp
  let ?cur = "int ?v - int (first_code ls (Suc len)) - int (cnt ls (Suc len))"
  let ?g = "\<lambda>bt d1. let k = int (t_table t ! (len + 1));
                 sm1 = int (\<Sum>i\<le>len. cnt ls i) + k;
                 cur1 = 2 * (int v - int (first_code ls len) - int (cnt ls len)) + int bt - k
             in if cur1 \<ge> 0 then decode_loop t sm1 cur1 (len + 1) d1
                else if sm1 + cur1 < 0 \<or> nat (sm1 + cur1) \<ge> length (t_trans t) then None
                else Some (t_trans t ! nat (sm1 + cur1), d1)"
  have lenlt: "\<not> len + 1 \<ge> 16" using Suc.prems(6) l15 by simp
  have step: "decode_loop t (int (\<Sum>i\<le>len. cnt ls i)) (int v - int (first_code ls len) - int (cnt ls len)) len
    = (\<lambda>d. case tinf_getbit d of None \<Rightarrow> None | Some (bt, d1) \<Rightarrow> ?g bt d1)"
    using lenlt by (subst decode_loop.simps [abs_def]) (auto split: option.splits)
  have gb: "?g ?b = (\<lambda>d1.
      if ?cur \<ge> 0 then decode_loop t (int (\<Sum>i\<le>Suc len. cnt ls i)) ?cur (Suc len) d1
      else if int (\<Sum>i\<le>Suc len. cnt ls i) + ?cur < 0 \<or>
        nat (int (\<Sum>i\<le>Suc len. cnt ls i) + ?cur) \<ge> length (t_trans t) then None
      else Some (t_trans t ! nat (int (\<Sum>i\<le>Suc len. cnt ls i) + ?cur), d1))"
    by (simp only: Let_def Suc_eq_plus1 [symmetric] tb cur sm)
  have "gives (?g ?b) (rev (low_bits n ?c)) s"
  proof (cases "Suc len = ?l")
    case True
    then have n: "n = 0" using Suc.prems(5) by simp
    have cur0: "?cur = int (rank ls s) - int (cnt ls ?l)"
      unfolding n True sym_code_def by simp
    have neg: "?cur < 0" using rank_less [OF Suc.prems(3,4)] unfolding cur0 by simp
    have idx: "int (\<Sum>i\<le>Suc len. cnt ls i) + ?cur = int (start_of ls ?l + rank ls s)"
      unfolding cur0 start_of_def True [symmetric] by (simp add: lessThan_Suc_atMost)
    have "start_of ls ?l + rank ls s < length (t_trans t)"
      using start_rank_less [OF Suc.prems(3,4)] Suc.prems(1,2)
      unfolding code_ok_def tree_for_def by simp
    moreover have "t_trans t ! (start_of ls ?l + rank ls s) = s"
      using Suc.prems(2,3,4) unfolding tree_for_def by simp
    ultimately have "?g ?b = (\<lambda>d1. Some (s, d1))"
      using linorder_not_le [THEN iffD2, OF neg]
      unfolding gb idx nat_int by (simp only: if_False of_nat_0_le_iff linorder_not_le [symmetric] simp_thms)
    then show ?thesis unfolding n by (simp add: gives_none)
  next
    case False
    then have lt: "Suc len < ?l" using Suc.prems(6) by simp
    have nl: "?l - Suc len = n" using Suc.prems(5) by simp
    have "2 ^ n * (first_code ls (Suc len) + cnt ls (Suc len)) \<le> first_code ls ?l"
      using first_code_shift [OF lt, of ls] nl by (simp only:)
    also have "\<dots> \<le> ?c" by (simp add: sym_code_def)
    finally have "first_code ls (Suc len) + cnt ls (Suc len) \<le> ?v"
      by (simp add: less_eq_div_iff_mult_less_eq mult.commute)
    then have nn: "?cur \<ge> 0" by linarith
    have "gives (decode_loop t (int (\<Sum>i\<le>Suc len. cnt ls i)) ?cur (Suc len)) (rev (low_bits n ?c)) s"
      by (rule Suc.IH [OF Suc.prems(1,2,3,4) _ lt refl]) (use Suc.prems(5) in simp)
    moreover have "?g ?b = decode_loop t (int (\<Sum>i\<le>Suc len. cnt ls i)) ?cur (Suc len)"
      unfolding gb using nn by simp
    ultimately show ?thesis by (simp only:)
  qed
  from gives_bind [where g = ?g, OF gives_getbit this]
  have "gives (\<lambda>d. case tinf_getbit d of None \<Rightarrow> None | Some (bt, d1) \<Rightarrow> ?g bt d1)
    (rev (low_bits (Suc n) ?c)) s"
    by (simp only: rev_low_bits append.simps)
  then show ?case by (simp only: step)
qed simp

lemma gives_decode_symbol:
  assumes "code_ok ls" "tree_for t ls" "s < length ls" "0 < ls ! s"
  shows "gives (tinf_decode_symbol t) (sym_bits ls s) s"
proof -
  have l: "ls ! s < 16" using assms unfolding code_ok_def by auto
  have "first_code ls (ls ! s) + cnt ls (ls ! s) \<le> 2 ^ (ls ! s)"
    using assms(1) l unfolding code_ok_def by auto
  then have "sym_code ls s < 2 ^ (ls ! s)"
    using rank_less [OF assms(3,4)] by (simp add: sym_code_def)
  then have z: "0 = sym_code ls s div 2 ^ (ls ! s)" by simp
  have "gives (decode_loop t (int (\<Sum>i\<le>0. cnt ls i)) (int 0 - int (first_code ls 0) - int (cnt ls 0)) 0)
    (rev (low_bits (ls ! s) (sym_code ls s))) s"
    by (rule gives_decode_loop [OF assms _ assms(4) z]) simp
  then show ?thesis
    by (simp add: tinf_decode_symbol_def [abs_def] sym_bits_def)
qed

section \<open>Building the trees\<close>

lemma count_lengths_spec:
  "\<forall>l\<in>set ls. l < length tb \<and> l < 16 \<Longrightarrow>
   \<exists>tb'. count_lengths ls tb = Some tb' \<and> length tb' = length tb \<and>
     (\<forall>l<length tb. tb' ! l = tb ! l + count_list ls l)"
proof (induction ls arbitrary: tb)
  case (Cons a ls)
  then show ?case
    using Cons.IH [of "tb[a := tb ! a + 1]"] by (fastforce simp: nth_list_update)
qed simp

lemma offsets_nth: "i < length cs \<Longrightarrow> offsets cs sm ! i = sm + (\<Sum>j<i. cs ! j)"
proof (induction cs arbitrary: sm i)
  case (Cons c cs)
  show ?case
  proof (cases i)
    case (Suc k)
    have "(\<Sum>j<Suc k. (c # cs) ! j) = c + (\<Sum>j<k. cs ! j)"
      by (subst sum.lessThan_Suc_shift) simp
    then show ?thesis using Cons Suc by simp
  qed simp
qed simp

lemma length_offsets [simp]: "length (offsets cs sm) = length cs"
  by (induction cs arbitrary: sm) auto

lemma place_symbols_spec:
  assumes "length offs = 16" "\<forall>l\<in>set ls. l < 16" "length tr = 288"
    and "\<forall>l\<in>{1..15}. offs ! l + count_list ls l \<le> 288"
    and "\<forall>l\<in>{1..15}. \<forall>m\<in>{1..15}. l < m \<longrightarrow> offs ! l + count_list ls l \<le> offs ! m"
  shows "\<exists>tr'. place_symbols i ls offs tr = Some tr' \<and> length tr' = 288 \<and>
     (\<forall>j<length ls. 0 < ls ! j \<longrightarrow> tr' ! (offs ! (ls ! j) + rank ls j) = i + j) \<and>
     (\<forall>p. (\<forall>l\<in>{1..15}. \<not> (offs ! l \<le> p \<and> p < offs ! l + count_list ls l)) \<longrightarrow> tr' ! p = tr ! p)"
  using assms
proof (induction ls arbitrary: i offs tr)
  case (Cons a ls)
  show ?case
  proof (cases "a = 0")
    case True
    have c: "l \<in> {1..15} \<Longrightarrow> count_list (a # ls) l = count_list ls l" for l using True by simp
    obtain tr' where 1: "place_symbols (i + 1) ls offs tr = Some tr'" "length tr' = 288"
      "\<forall>j<length ls. 0 < ls ! j \<longrightarrow> tr' ! (offs ! (ls ! j) + rank ls j) = i + 1 + j"
      "\<forall>p. (\<forall>l\<in>{1..15}. \<not> (offs ! l \<le> p \<and> p < offs ! l + count_list ls l)) \<longrightarrow> tr' ! p = tr ! p"
      using Cons.IH [of offs tr "i + 1"] Cons.prems True by (fastforce simp: c)
    have "tr' ! (offs ! ((a # ls) ! j) + rank (a # ls) j) = i + j"
      if "j < length (a # ls)" "0 < (a # ls) ! j" for j
      using 1(3) that True by (cases j) (auto simp: rank_def)
    moreover have "place_symbols i (a # ls) offs tr = Some tr'" using 1(1) True by simp
    ultimately show ?thesis using 1(2,4) c by fastforce
  next
    case False
    let ?o = "offs[a := offs ! a + 1]" and ?t = "tr[offs ! a := i]"
    have a: "a \<in> {1..15}" "a < 16" using False Cons.prems(2) by auto
    have o: "?o ! l = (if l = a then offs ! a + 1 else offs ! l)" for l
      using a(2) Cons.prems(1) by (cases "l = a") auto
    have sm: "?o ! l + count_list ls l = offs ! l + count_list (a # ls) l" for l
      using o [of l] by (cases "l = a") (simp_all del: nth_list_update_eq)
    have lt: "offs ! a < 288" using Cons.prems(4) a by fastforce
    have inc: "offs ! l \<le> ?o ! l" for l using o [of l] by (simp split: if_splits)
    obtain tr' where 1: "place_symbols (i + 1) ls ?o ?t = Some tr'" "length tr' = 288"
      "\<forall>j<length ls. 0 < ls ! j \<longrightarrow> tr' ! (?o ! (ls ! j) + rank ls j) = i + 1 + j"
      "\<forall>p. (\<forall>l\<in>{1..15}. \<not> (?o ! l \<le> p \<and> p < ?o ! l + count_list ls l)) \<longrightarrow> tr' ! p = ?t ! p"
    proof (atomize_elim, rule Cons.IH)
      show "length ?o = 16" "\<forall>l\<in>set ls. l < 16" "length ?t = 288" using Cons.prems by auto
      show "\<forall>l\<in>{1..15}. ?o ! l + count_list ls l \<le> 288" unfolding sm by (rule Cons.prems(4))
      show "\<forall>l\<in>{1..15}. \<forall>m\<in>{1..15}. l < m \<longrightarrow> ?o ! l + count_list ls l \<le> ?o ! m"
        unfolding sm using Cons.prems(5) inc le_trans by blast
    qed
    have apart: "\<not> (?o ! l \<le> offs ! a \<and> offs ! a < ?o ! l + count_list ls l)" if "l \<in> {1..15}" for l
    proof (cases l a rule: linorder_cases)
      case less
      then show ?thesis unfolding sm using Cons.prems(5) that a by fastforce
    next
      case equal
      then show ?thesis using o [of l] by simp
    next
      case greater
      then have "offs ! a + count_list (a # ls) a \<le> offs ! l" using Cons.prems(5) that a by fastforce
      then show ?thesis using inc [of l] by simp
    qed
    have "tr' ! (offs ! ((a # ls) ! j) + rank (a # ls) j) = i + j"
      if j: "j < length (a # ls)" "0 < (a # ls) ! j" for j
    proof (cases j)
      case 0
      have "tr' ! (offs ! a) = ?t ! (offs ! a)" using 1(4) apart by blast
      then show ?thesis using 0 lt Cons.prems(3) by (simp add: rank_def)
    next
      case (Suc k)
      then have "tr' ! (?o ! (ls ! k) + rank ls k) = i + 1 + k" using 1(3) j by auto
      moreover have "?o ! (ls ! k) + rank ls k = offs ! ((a # ls) ! j) + rank (a # ls) j"
        unfolding Suc o by (auto simp: rank_def)
      ultimately show ?thesis using Suc by simp
    qed
    moreover have "tr' ! p = tr ! p"
      if p: "\<forall>l\<in>{1..15}. \<not> (offs ! l \<le> p \<and> p < offs ! l + count_list (a # ls) l)" for p
    proof -
      have "tr' ! p = ?t ! p"
        using 1(4) p inc le_trans unfolding sm by blast
      moreover have "p \<noteq> offs ! a" using p a by fastforce
      ultimately show ?thesis by simp
    qed
    moreover have "place_symbols i (a # ls) offs tr = Some tr'" using 1(1) False lt by simp
    ultimately show ?thesis using 1(2) by blast
  qed
qed (auto simp: rank_def)

lemma start_of_mono: "l < m \<Longrightarrow> start_of ls l + cnt ls l \<le> start_of ls m"
  unfolding start_of_def
  by (induction m) (auto simp: less_Suc_eq)

lemma build_tree_for:
  assumes ls: "\<forall>l\<in>set ls. l < 16" "length ls \<le> 288" and t: "length (t_trans t) = 288"
  shows "\<exists>t'. tinf_build_tree (ls @ xs) (length ls) t = Some t' \<and> tree_for t' ls"
proof -
  obtain tb0 where tb0: "count_lengths ls (replicate 16 0) = Some tb0" "length tb0 = 16"
    "\<forall>l<16. tb0 ! l = count_list ls l"
    using count_lengths_spec [of ls "replicate 16 0"] ls(1) by auto
  define tb where "tb = tb0[0 := 0]"
  have tb: "length tb = 16" "\<And>l. l < 16 \<Longrightarrow> tb ! l = cnt ls l"
  proof -
    fix l :: nat assume "l < 16"
    then show "tb ! l = cnt ls l" using tb0 by (cases l) (auto simp: tb_def)
  qed (simp add: tb_def tb0)
  have offs: "offsets tb 0 ! l = start_of ls l" if "l \<in> {1..15}" for l
    using that tb by (auto simp: offsets_nth start_of_def intro!: sum.cong)
  have cl: "count_list ls l = cnt ls l" if "l \<in> {1..15}" for l
    using that by (cases l) auto
  obtain tr' where tr': "place_symbols 0 ls (offsets tb 0) (t_trans t) = Some tr'" "length tr' = 288"
    "\<forall>j<length ls. 0 < ls ! j \<longrightarrow> tr' ! (offsets tb 0 ! (ls ! j) + rank ls j) = 0 + j"
  proof -
    have "\<forall>l\<in>{1..15}. offsets tb 0 ! l + count_list ls l \<le> 288"
      using offs cl sum_filter_le ls(2) le_trans by (metis (no_types, lifting))
    moreover have "\<forall>l\<in>{1..15}. \<forall>m\<in>{1..15}. l < m \<longrightarrow>
        offsets tb 0 ! l + count_list ls l \<le> offsets tb 0 ! m"
      using start_of_mono by (simp add: offs cl)
    ultimately show thesis
      using place_symbols_spec [of "offsets tb 0" ls "t_trans t" 0] ls(1) t tb(1) that by auto
  qed
  have "tinf_build_tree (ls @ xs) (length ls) t = Some \<lparr>t_table = tb, t_trans = tr'\<rparr>"
    using tb0(1) tr'(1) by (simp add: tinf_build_tree_def tb_def)
  moreover have "tree_for \<lparr>t_table = tb, t_trans = tr'\<rparr> ls"
    unfolding tree_for_def
  proof (intro conjI ballI allI impI)
    fix s assume s: "s < length ls" "0 < ls ! s"
    then have "ls ! s < 16" using ls(1) nth_mem by blast
    then have "ls ! s \<in> {1..15}" using s(2) by auto
    then show "t_trans \<lparr>t_table = tb, t_trans = tr'\<rparr> ! (start_of ls (ls ! s) + rank ls s) = s"
      using tr'(3) s offs by fastforce
  qed (use tb tr' in auto)
  ultimately show ?thesis by blast
qed

section \<open>The fixed code and the tables\<close>

definition fixed_lengths :: "nat list" where
  "fixed_lengths = replicate 144 8 @ replicate 112 9 @ replicate 24 7 @ replicate 8 8"

definition fixed_dists :: "nat list" where
  "fixed_dists = replicate 32 5"

definition rfc_length_bits :: "nat list" where
  "rfc_length_bits =
     [0, 0, 0, 0, 0, 0, 0, 0, 1, 1, 1, 1, 2, 2, 2, 2, 3, 3, 3, 3, 4, 4, 4, 4, 5, 5, 5, 5, 0]"

definition rfc_length_base :: "nat list" where
  "rfc_length_base =
     [3, 4, 5, 6, 7, 8, 9, 10, 11, 13, 15, 17, 19, 23, 27, 31, 35, 43, 51, 59, 67, 83, 99, 115,
      131, 163, 195, 227, 258]"

definition rfc_dist_bits :: "nat list" where
  "rfc_dist_bits =
     [0, 0, 0, 0, 1, 1, 2, 2, 3, 3, 4, 4, 5, 5, 6, 6, 7, 7, 8, 8, 9, 9, 10, 10, 11, 11, 12, 12,
      13, 13]"

definition rfc_dist_base :: "nat list" where
  "rfc_dist_base =
     [1, 2, 3, 4, 5, 7, 9, 13, 17, 25, 33, 49, 65, 97, 129, 193, 257, 385, 513, 769, 1025, 1537,
      2049, 3073, 4097, 6145, 8193, 12289, 16385, 24577]"

lemma replicate_24: "replicate 2 x = [x, x]" "replicate 4 x = [x, x, x, x]"
  by (simp_all add: numeral_eq_Suc)

lemma init_dist: "dist_bits tinf_init = rfc_dist_bits" "dist_base tinf_init = rfc_dist_base"
  by (simp_all add: tinf_init_def tinf_build_bits_base_def Let_def case_prod_beta rfc_dist_bits_def
      rfc_dist_base_def upt_rec replicate_24)

lemma init_length:
  "take 29 (length_bits tinf_init) = rfc_length_bits" "take 29 (length_base tinf_init) = rfc_length_base"
  by (simp_all add: tinf_init_def tinf_build_bits_base_def Let_def case_prod_beta rfc_length_bits_def
      rfc_length_base_def upt_rec replicate_24)

lemma init_length_nth:
  "k < 29 \<Longrightarrow> length_bits tinf_init ! k = rfc_length_bits ! k"
  "k < 29 \<Longrightarrow> length_base tinf_init ! k = rfc_length_base ! k"
  using init_length by (metis nth_take)+

lemma count_list_replicate: "count_list (replicate n x) y = (if x = y then n else 0)"
  by (induction n) auto

lemma cnt_numeral: "cnt ls (numeral k) = count_list ls (numeral k)"
  by (simp add: numeral_eq_Suc)

lemma first_code_numeral:
  "first_code ls (numeral k) = 2 * (first_code ls (pred_numeral k) + cnt ls (pred_numeral k))"
  by (simp add: numeral_eq_Suc)

lemma cnt_fixed:
  "cnt fixed_lengths l = (if l = 7 then 24 else if l = 8 then 152 else if l = 9 then 112 else 0)"
  by (cases l) (auto simp: fixed_lengths_def count_list_replicate)

lemma cnt_fixed_dists: "cnt fixed_dists l = (if l = 5 then 32 else 0)"
  by (cases l) (auto simp: fixed_dists_def count_list_replicate)

lemma upto15: "(\<forall>l\<in>{0..15}. P l) \<longleftrightarrow> P 0 \<and> P 1 \<and> P 2 \<and> P 3 \<and> P 4 \<and> P 5 \<and> P 6 \<and> P 7 \<and> P 8 \<and>
    P 9 \<and> P 10 \<and> P 11 \<and> P 12 \<and> P 13 \<and> P 14 \<and> P (15::nat)"
proof -
  have "{0..15} = set [0..<16::nat]" by auto
  also have "[0..<16::nat] = [0, 1, 2, 3, 4, 5, 6, 7, 8, 9, 10, 11, 12, 13, 14, 15]"
    by (simp add: upt_rec)
  finally show ?thesis by simp
qed

lemma first_code_1: "first_code ls (Suc 0) = 0" "first_code ls 1 = 0" by simp_all

lemma fixed_code_ok: "code_ok fixed_lengths" "code_ok fixed_dists"
proof -
  show "code_ok fixed_lengths"
    unfolding code_ok_def upto15
    by (simp add: first_code_numeral first_code_1 cnt_fixed del: first_code.simps(2) cnt.simps)
       (simp add: fixed_lengths_def)
  show "code_ok fixed_dists"
    unfolding code_ok_def upto15
    by (simp add: first_code_numeral first_code_1 cnt_fixed_dists del: first_code.simps(2) cnt.simps)
       (simp add: fixed_dists_def)
qed

lemma start_fixed:
  "start_of fixed_lengths 7 = 0" "start_of fixed_lengths 8 = 24" "start_of fixed_lengths 9 = 176"
  "start_of fixed_dists 5 = 0"
  by (simp_all add: start_of_def lessThan_nat_numeral cnt_fixed cnt_fixed_dists)

lemma fixed_trees: "tree_for (sltree tinf_init) fixed_lengths" "tree_for (sdtree tinf_init) fixed_dists"
proof -
  have "t_trans (sltree tinf_init) ! (start_of fixed_lengths (fixed_lengths ! s) + rank fixed_lengths s) = s"
    if "s < 288" for s
  proof -
    consider "s < 144" | "144 \<le> s" "s < 256" | "256 \<le> s" "s < 280" | "280 \<le> s" using that by linarith
    then show ?thesis
    proof cases
      case 1
      then have "fixed_lengths ! s = 8" "rank fixed_lengths s = s"
        by (simp_all add: fixed_lengths_def rank_def nth_append count_list_replicate)
      then show ?thesis using 1
        by (simp add: start_fixed tinf_init_def tinf_build_fixed_trees_def nth_append case_prod_beta)
    next
      case 2
      then have "s - 144 < 112" by simp
      with 2 have "fixed_lengths ! s = 9" "rank fixed_lengths s = s - 144"
        by (simp_all add: fixed_lengths_def rank_def nth_append count_list_replicate)
      then show ?thesis using 2 \<open>s - 144 < 112\<close>
        by (simp add: start_fixed tinf_init_def tinf_build_fixed_trees_def nth_append case_prod_beta) arith
    next
      case 3
      then have d: "s - 256 < 24" "\<not> s - 144 < 112" "\<not> s - 136 < 8" by arith+
      with 3 have "fixed_lengths ! s = 7" "rank fixed_lengths s = s - 256"
        by (simp_all add: fixed_lengths_def rank_def nth_append count_list_replicate)
      then show ?thesis using 3 d
        by (simp add: start_fixed tinf_init_def tinf_build_fixed_trees_def nth_append case_prod_beta) arith?
    next
      case 4
      then have d: "s - 256 \<ge> 24" "\<not> s - 144 < 112" "s - 280 < 8" "\<not> s - 256 < 24" using that by arith+
      with 4 have "fixed_lengths ! s = 8" "rank fixed_lengths s = s - 136"
        using that
        by (simp_all add: fixed_lengths_def rank_def nth_append count_list_replicate)
      then show ?thesis using 4 d that
        by (simp add: start_fixed tinf_init_def tinf_build_fixed_trees_def nth_append case_prod_beta) arith?
    qed
  qed
  moreover have "t_table (sltree tinf_init) ! l = cnt fixed_lengths l" if "l \<in> {0..15}" for l
  proof -
    have "\<forall>l\<in>{0..15}. t_table (sltree tinf_init) ! l = cnt fixed_lengths l"
      unfolding upto15 by (simp add: cnt_fixed tinf_init_def tinf_build_fixed_trees_def case_prod_beta
          nth_append del: cnt.simps)
    then show ?thesis using that by blast
  qed
  moreover have "length (t_trans (sltree tinf_init)) = 288" "length fixed_lengths = 288"
    by (simp_all add: tinf_init_def tinf_build_fixed_trees_def case_prod_beta fixed_lengths_def)
  ultimately show "tree_for (sltree tinf_init) fixed_lengths"
    unfolding tree_for_def by auto
  have "t_trans (sdtree tinf_init) ! (start_of fixed_dists (fixed_dists ! s) + rank fixed_dists s) = s"
    if "s < 32" for s
  proof -
    have "fixed_dists ! s = 5" "rank fixed_dists s = s"
      using that by (simp_all add: fixed_dists_def rank_def count_list_replicate)
    then show ?thesis using that
      by (simp add: start_fixed tinf_init_def tinf_build_fixed_trees_def nth_append case_prod_beta)
  qed
  moreover have "t_table (sdtree tinf_init) ! l = cnt fixed_dists l" if "l \<in> {0..15}" for l
  proof -
    have "\<forall>l\<in>{0..15}. t_table (sdtree tinf_init) ! l = cnt fixed_dists l"
      unfolding upto15 by (simp add: cnt_fixed_dists tinf_init_def tinf_build_fixed_trees_def
          case_prod_beta nth_append del: cnt.simps)
    then show ?thesis using that by blast
  qed
  moreover have "length (t_trans (sdtree tinf_init)) = 288" "length fixed_dists = 32"
    by (simp_all add: tinf_init_def tinf_build_fixed_trees_def case_prod_beta fixed_dists_def)
  ultimately show "tree_for (sdtree tinf_init) fixed_dists"
    unfolding tree_for_def by auto
qed

section \<open>Tokens\<close>

datatype token = Lit u8 | Match nat nat

fun token_ok :: "token \<Rightarrow> u8 list \<Rightarrow> bool" where
  "token_ok (Lit b) out = True"
| "token_ok (Match n dist) out = (0 < dist \<and> dist \<le> length out)"

text \<open>A match repeats the last \<open>dist\<close> bytes until there are \<open>n\<close> new ones.\<close>

fun token_out :: "token \<Rightarrow> u8 list \<Rightarrow> u8 list" where
  "token_out (Lit b) out = out @ [b]"
| "token_out (Match n dist) out =
     out @ map (\<lambda>i. out ! (length out - dist + i mod dist)) [0..<n]"

fun tokens_ok :: "token list \<Rightarrow> u8 list \<Rightarrow> bool" where
  "tokens_ok [] out = True"
| "tokens_ok (t # ts) out = (token_ok t out \<and> tokens_ok ts (token_out t out))"

definition tokens_out :: "token list \<Rightarrow> u8 list \<Rightarrow> u8 list" where
  "tokens_out ts out = fold token_out ts out"

inductive token_enc :: "nat list \<Rightarrow> nat list \<Rightarrow> token \<Rightarrow> nat list \<Rightarrow> bool" for ls ds where
  enc_lit: "\<lbrakk>unat b < length ls; 0 < ls ! unat b\<rbrakk> \<Longrightarrow> token_enc ls ds (Lit b) (sym_bits ls (unat b))"
| enc_match:
    "\<lbrakk>k < 29; 257 + k < length ls; 0 < ls ! (257 + k); e < 2 ^ (rfc_length_bits ! k);
      j < 30; j < length ds; 0 < ds ! j; f < 2 ^ (rfc_dist_bits ! j)\<rbrakk> \<Longrightarrow>
     token_enc ls ds (Match (rfc_length_base ! k + e) (rfc_dist_base ! j + f))
       (sym_bits ls (257 + k) @ low_bits (rfc_length_bits ! k) e @ sym_bits ds j @
        low_bits (rfc_dist_bits ! j) f)"

inductive tokens_enc :: "nat list \<Rightarrow> nat list \<Rightarrow> token list \<Rightarrow> nat list \<Rightarrow> bool" for ls ds where
  enc_end: "\<lbrakk>256 < length ls; 0 < ls ! 256\<rbrakk> \<Longrightarrow> tokens_enc ls ds [] (sym_bits ls 256)"
| enc_token: "\<lbrakk>token_enc ls ds t bs; tokens_enc ls ds ts cs\<rbrakk> \<Longrightarrow> tokens_enc ls ds (t # ts) (bs @ cs)"

lemma copy_match_spec:
  assumes "0 < offs" "offs \<le> length out" "length out + m + n \<le> room"
  shows "copy_match room n offs (out @ map (\<lambda>i. out ! (length out - offs + i mod offs)) [0..<m]) =
    Some (out @ map (\<lambda>i. out ! (length out - offs + i mod offs)) [0..<m + n])"
  using assms
proof (induction n arbitrary: m)
  case (Suc n)
  let ?f = "\<lambda>i. out ! (length out - offs + i mod offs)"
  let ?o = "out @ map ?f [0..<m]"
  have "?o ! (length ?o - offs) = ?f m"
  proof (cases "m < offs")
    case True
    then have "length ?o - offs < length out" "length ?o - offs = length out - offs + m"
      using Suc.prems by auto
    then show ?thesis using True by (simp add: nth_append)
  next
    case False
    then have "length ?o - offs = length out + (m - offs)" using Suc.prems by simp
    moreover have "m - offs < m" using False Suc.prems(1) by simp
    ultimately show ?thesis using False by (simp add: nth_append mod_if [of m])
  qed
  then have "copy_match room (Suc n) offs ?o = copy_match room n offs (out @ map ?f [0..<Suc m])"
    using Suc.prems by (simp del: upt_Suc add: upt_Suc_append)
  also have "\<dots> = Some (out @ map ?f [0..<Suc m + n])"
    by (rule Suc.IH) (use Suc.prems in auto)
  finally show ?case by simp
qed simp

lemma token_out_grows: "length out \<le> length (token_out t out)"
  by (cases t) auto

lemma tokens_out_grows: "length out \<le> length (tokens_out ts out)"
  unfolding tokens_out_def
  by (induction ts arbitrary: out) (auto intro: le_trans [OF token_out_grows])

lemma tokens_out_simps [simp]:
  "tokens_out [] out = out" "tokens_out (t # ts) out = tokens_out ts (token_out t out)"
  by (simp_all add: tokens_out_def)

lemma bits_of_with [simp]:
  "bits_of (d\<lparr>d_dest := x\<rparr>) = bits_of d" "bits_of (d\<lparr>d_destLen := y\<rparr>) = bits_of d"
  "bits_of (d\<lparr>d_ltree := lt, d_dtree := dt\<rparr>) = bits_of d"
  by (simp_all add: bits_of_def)

text \<open>The bit reader up to the output: what a run of tokens leaves.\<close>

definition same_trees :: "tinf_data \<Rightarrow> tinf_data \<Rightarrow> bool" where
  "same_trees d d' \<longleftrightarrow> d_room d' = d_room d \<and> d_ltree d' = d_ltree d \<and> d_dtree d' = d_dtree d"

lemma inflate_block_data_spec:
  assumes "tokens_enc ls ds ts bs" "code_ok ls" "tree_for lt ls" "code_ok ds" "tree_for dt ds"
    and "d_bitcount d < 8" "bits_of d = bs @ rest"
    and "tokens_ok ts (d_dest d)" "length (tokens_out ts (d_dest d)) \<le> d_room d"
  shows "\<exists>d'. tinf_inflate_block_data tinf_init start lt dt d = Some (TINF_OK, d') \<and>
     bits_of d' = rest \<and> d_bitcount d' < 8 \<and> d_dest d' = tokens_out ts (d_dest d) \<and>
     d_destLen d' = d_destLen d + of_nat (length (d_dest d') - start) \<and> same_trees d d'"
  using assms
proof (induction arbitrary: d rest)
  case enc_end
  obtain d1 where "tinf_decode_symbol lt d = Some (256, d1)" "bits_of d1 = rest"
    "out_of d1 = out_of d" "d_bitcount d1 < 8"
    using givesD [OF gives_decode_symbol [OF enc_end(3,4,1,2)] enc_end(7,8)] by blast
  then show ?case
    by (subst tinf_inflate_block_data.simps) (auto simp: out_of_def same_trees_def)
next
  case (enc_token t bs ts cs)
  note IH = enc_token.IH [OF enc_token.prems(1-4)]
  from enc_token(1) show ?case
  proof cases
    case (enc_lit b)
    have d: "bits_of d = sym_bits ls (unat b) @ cs @ rest" using enc_token.prems(6) enc_lit by simp
    obtain d1 where d1: "tinf_decode_symbol lt d = Some (unat b, d1)" "bits_of d1 = cs @ rest"
      "out_of d1 = out_of d" "d_bitcount d1 < 8"
      using givesD [OF gives_decode_symbol [OF enc_token.prems(1,2) enc_lit(3,4)]
          enc_token.prems(5) d] by blast
    let ?d = "d1\<lparr>d_dest := d_dest d1 @ [b]\<rparr>"
    have o: "d_dest d1 = d_dest d" "d_room d1 = d_room d" "d_destLen d1 = d_destLen d"
      "d_ltree d1 = d_ltree d" "d_dtree d1 = d_dtree d"
      using d1(3) by (auto simp: out_of_def)
    note b = unat_less_256 [of b]
    have "length (d_dest d) < d_room d"
      using enc_token.prems(8) tokens_out_grows [of "d_dest d @ [b]" ts] enc_lit by simp
    then have "tinf_inflate_block_data tinf_init start lt dt d =
        tinf_inflate_block_data tinf_init start lt dt ?d"
      using b by (subst tinf_inflate_block_data.simps) (simp add: d1(1) o)
    with IH [of ?d rest] show ?thesis
      using enc_token.prems(7,8) d1(2,4) enc_lit(1) by (auto simp: o same_trees_def)
  next
    case (enc_match k e j f)
    let ?n = "rfc_length_base ! k + e" and ?o = "rfc_dist_base ! j + f"
    have d: "bits_of d = sym_bits ls (257 + k) @ low_bits (rfc_length_bits ! k) e @ sym_bits ds j @
       low_bits (rfc_dist_bits ! j) f @ cs @ rest" using enc_token.prems(6) enc_match by simp
    obtain d1 where d1: "tinf_decode_symbol lt d = Some (257 + k, d1)"
      "bits_of d1 = low_bits (rfc_length_bits ! k) e @ sym_bits ds j @
       low_bits (rfc_dist_bits ! j) f @ cs @ rest" "out_of d1 = out_of d" "d_bitcount d1 < 8"
      using givesD [OF gives_decode_symbol [OF enc_token.prems(1,2) enc_match(4,5)]
          enc_token.prems(5) d] by blast
    obtain d2 where d2: "tinf_read_bits (rfc_length_bits ! k) (rfc_length_base ! k) d1 = Some (?n, d2)"
      "bits_of d2 = sym_bits ds j @ low_bits (rfc_dist_bits ! j) f @ cs @ rest"
      "out_of d2 = out_of d1" "d_bitcount d2 < 8"
      using givesD [OF gives_read_bits [OF enc_match(6)] d1(4,2)] by blast
    obtain d3 where d3: "tinf_decode_symbol dt d2 = Some (j, d3)"
      "bits_of d3 = low_bits (rfc_dist_bits ! j) f @ cs @ rest" "out_of d3 = out_of d2" "d_bitcount d3 < 8"
      using givesD [OF gives_decode_symbol [OF enc_token.prems(3,4) enc_match(8,9)] d2(4,2)] by blast
    obtain d4 where d4: "tinf_read_bits (rfc_dist_bits ! j) (rfc_dist_base ! j) d3 = Some (?o, d4)"
      "bits_of d4 = cs @ rest" "out_of d4 = out_of d3" "d_bitcount d4 < 8"
      using givesD [OF gives_read_bits [OF enc_match(10)] d3(4,2)] by blast
    have o: "d_dest d4 = d_dest d" "d_room d4 = d_room d" "d_destLen d4 = d_destLen d"
      "d_ltree d4 = d_ltree d" "d_dtree d4 = d_dtree d"
      using d1(3) d2(3) d3(3) d4(3) by (auto simp: out_of_def)
    let ?out = "token_out t (d_dest d)" and ?d = "d4\<lparr>d_dest := token_out t (d_dest d)\<rparr>"
    have "length (d_dest d) + ?n \<le> d_room d" "0 < ?o" "?o \<le> length (d_dest d)"
      using enc_token.prems(7,8) tokens_out_grows [of ?out ts] enc_match by auto
    then have "copy_match (d_room d4) ?n ?o (d_dest d4) = Some ?out"
      using copy_match_spec [of ?o "d_dest d" 0 ?n "d_room d"] enc_match by (simp add: o)
    then have "tinf_inflate_block_data tinf_init start lt dt d =
        tinf_inflate_block_data tinf_init start lt dt ?d"
      using enc_match(3,7)
      by (subst tinf_inflate_block_data.simps)
        (simp add: d1(1) d2(1) d3(1) d4(1) init_length_nth init_dist)
    with IH [of ?d rest] show ?thesis
      using enc_token.prems(7,8) d4(2,4) by (auto simp: o same_trees_def)
  qed
qed

section \<open>Dynamic codes\<close>

text \<open>
  The code lengths as they are transmitted: \<open>cl\<close> is the code of the 19 length symbols,
  and the lengths already known are extended up to \<open>tot\<close> of them.
\<close>

definition used :: "nat list \<Rightarrow> nat \<Rightarrow> bool" where
  "used ls s \<longleftrightarrow> s < length ls \<and> 0 < ls ! s"

text \<open>Symbol, extra bits, number and value of the lengths they stand for.\<close>

definition run_syms :: "nat list \<Rightarrow> (nat \<times> nat list \<times> nat \<times> nat) set" where
  "run_syms ls =
      {(s, [], 1, s) | s. s < 16} \<union>
      {(16, low_bits 2 e, 3 + e, last ls) | e. e < 4 \<and> ls \<noteq> []} \<union>
      {(17, low_bits 3 e, 3 + e, 0) | e. e < 8} \<union> {(18, low_bits 7 e, 11 + e, 0) | e. e < 128}"

inductive lengths_enc :: "nat list \<Rightarrow> nat \<Rightarrow> nat list \<Rightarrow> nat list \<Rightarrow> nat list \<Rightarrow> bool" for cl tot where
  len_done: "length ls = tot \<Longrightarrow> lengths_enc cl tot ls ls []"
| len_run: "\<lbrakk>length ls < tot; used cl s; (s, ex, n, v) \<in> run_syms ls;
      lengths_enc cl tot (ls @ replicate n v) res bs\<rbrakk> \<Longrightarrow>
    lengths_enc cl tot ls res (sym_bits cl s @ ex @ bs)"

lemma fill_spec:
  "num + n \<le> length ls \<Longrightarrow>
   fill n v ls num = Some (take num ls @ replicate n v @ drop (num + n) ls, num + n)"
proof (induction n arbitrary: ls num)
  case (Suc n)
  then have "fill (Suc n) v ls num = fill n v (ls[num := v]) (num + 1)" by simp
  also have "\<dots> = Some (take (num + 1) (ls[num := v]) @ replicate n v @ drop (num + 1 + n) (ls[num := v]),
      num + 1 + n)"
    by (rule Suc.IH) (use Suc.prems in simp)
  also have "take (num + 1) (ls[num := v]) = take num ls @ [v]"
    using Suc.prems by (simp add: take_Suc_conv_app_nth)
  finally show ?case by simp
qed simp

lemma length_run_gives:
  assumes "(s, ex, n, v) \<in> run_syms ls"
    and "take (length ls) arr = ls" "length ls \<le> length arr"
    and "d_bitcount d < 8" "bits_of d = ex @ rest"
  shows "\<exists>d'. length_run s arr (length ls) d = Some (n, v, d') \<and> bits_of d' = rest \<and>
    out_of d' = out_of d \<and> d_bitcount d' < 8"
proof -
  have lst: "ls \<noteq> [] \<Longrightarrow> arr ! (length ls - 1) = last ls"
    using assms(2,3) by (metis diff_less last_conv_nth length_greater_0_conv less_one nth_take)
  have *: "\<exists>d'. map_option (\<lambda>(n, d1). (n, x, d1)) (tinf_read_bits k base d) = Some (base + e, x, d') \<and>
      bits_of d' = rest \<and> out_of d' = out_of d \<and> d_bitcount d' < 8"
    if ex: "ex = low_bits k e" "e < 2 ^ k" for k e base and x :: nat
  proof -
    obtain d' where "tinf_read_bits k base d = Some (base + e, d')" "bits_of d' = rest"
      "out_of d' = out_of d" "d_bitcount d' < 8"
      using givesD [OF gives_read_bits [OF ex(2)] assms(4)] assms(5) ex(1) by metis
    then show ?thesis by simp
  qed
  from assms(1) [unfolded run_syms_def] consider "s < 16" "ex = []" "n = 1" "v = s"
    | e where "s = 16" "ex = low_bits 2 e" "n = 3 + e" "v = last ls" "e < 4" "ls \<noteq> []"
    | e where "s = 17" "ex = low_bits 3 e" "n = 3 + e" "v = 0" "e < 8"
    | e where "s = 18" "ex = low_bits 7 e" "n = 11 + e" "v = 0" "e < 128"
    by blast
  then show ?thesis
  proof cases
    case 1
    with assms(4,5) show ?thesis by (simp add: length_run_def)
  next
    case 2
    with *[of 2 e "last ls" 3] lst assms(3) show ?thesis by (simp add: length_run_def)
  next
    case 3
    with *[of 3 e 0 3] show ?thesis by (simp add: length_run_def)
  next
    case 4
    with *[of 7 e 0 11] show ?thesis by (simp add: length_run_def)
  qed
qed

lemma lengths_enc_length:
  "lengths_enc cl tot ls res bs \<Longrightarrow> length res = tot \<and> length ls \<le> tot \<and> take (length ls) res = ls"
  by (induction rule: lengths_enc.induct) (auto, (metis append_eq_conv_conj append_take_drop_id take_take)?)

lemma lengths_loop_spec:
  assumes "lengths_enc cl tot ls res bs" "code_ok cl" "tree_for t cl"
    and "take (length ls) arr = ls" "tot \<le> length arr"
    and "d_bitcount d < 8" "bits_of d = bs @ rest"
  shows "\<exists>arr' d'. lengths_loop t tot arr (length ls) d = Some (arr', d') \<and> take tot arr' = res \<and>
    length arr' = length arr \<and> bits_of d' = rest \<and> out_of d' = out_of d \<and> d_bitcount d' < 8"
  using assms
proof (induction arbitrary: arr d rest)
  case (len_done ls)
  then show ?case by (subst lengths_loop.simps) simp
next
  case (len_run ls s ex n v res bs)
  have le: "length ls + n \<le> tot" using lengths_enc_length [OF len_run(4)] by simp
  have "bits_of d = sym_bits cl s @ ex @ bs @ rest" using len_run.prems(6) by simp
  then obtain d1 where d1: "tinf_decode_symbol t d = Some (s, d1)" "bits_of d1 = ex @ bs @ rest"
    "out_of d1 = out_of d" "d_bitcount d1 < 8"
    using givesD [OF gives_decode_symbol [OF len_run.prems(1,2)] len_run.prems(5)] len_run(2)
    unfolding used_def by blast
  obtain d2 where d2: "length_run s arr (length ls) d1 = Some (n, v, d2)" "bits_of d2 = bs @ rest"
    "out_of d2 = out_of d1" "d_bitcount d2 < 8"
    using length_run_gives [OF len_run(3) len_run.prems(3) _ d1(4,2)] len_run(1) len_run.prems(4) by auto
  let ?arr = "take (length ls) arr @ replicate n v @ drop (length ls + n) arr"
  have f: "fill n v arr (length ls) = Some (?arr, length (ls @ replicate n v))"
    using fill_spec [of "length ls" n arr v] le len_run.prems(4) by simp
  have "lengths_loop t tot arr (length ls) d =
      lengths_loop t tot ?arr (length (ls @ replicate n v)) d2"
    using len_run(1) by (subst lengths_loop.simps) (simp add: d1(1) d2(1) f del: length_append)
  moreover have "length ?arr = length arr" using le len_run.prems(4) by simp
  moreover have "take (length (ls @ replicate n v)) ?arr = ls @ replicate n v"
    using len_run.prems(3) by simp
  ultimately show ?case
    using len_run.IH [OF len_run.prems(1,2), of ?arr d2 rest] len_run.prems(4) d1(3) d2(2-4)
    by (simp only:)
qed

text \<open>
  The header of a dynamic block: the three numbers, the lengths of the length symbols in their
  order, then the lengths of both codes. Symbols behind the transmitted ones have length 0.
\<close>

inductive header_enc :: "nat list \<Rightarrow> nat list \<Rightarrow> nat list \<Rightarrow> bool" for ls ds where
  enc_header:
    "\<lbrakk>257 \<le> length ls; length ls \<le> 288; 1 \<le> length ds; length ds \<le> 32; 4 \<le> hclen; hclen \<le> 19;
      length cl = 19; \<forall>l\<in>set cl. l < 8; code_ok cl; \<forall>c\<in>set (drop hclen clcidx). cl ! c = 0;
      lengths_enc cl (length ls + length ds) [] (ls @ ds) bs\<rbrakk> \<Longrightarrow>
     header_enc ls ds (low_bits 5 (length ls - 257) @ low_bits 5 (length ds - 1) @
       low_bits 4 (hclen - 4) @ concat (map (\<lambda>c. low_bits 3 (cl ! c)) (take hclen clcidx)) @ bs)"

lemma clen_loop_spec:
  assumes "\<forall>c\<in>set cs. c < length cl \<and> cl ! c < 8"
    and "d_bitcount d < 8" "bits_of d = concat (map (\<lambda>c. low_bits 3 (cl ! c)) cs) @ rest"
  shows "\<exists>d'. clen_loop cs arr d = Some (fold (\<lambda>c a. a[c := cl ! c]) cs arr, d') \<and>
    bits_of d' = rest \<and> out_of d' = out_of d \<and> d_bitcount d' < 8"
  using assms
proof (induction cs arbitrary: arr d)
  case (Cons c cs)
  obtain d1 where d1: "tinf_read_bits 3 0 d = Some (0 + cl ! c, d1)"
    "bits_of d1 = concat (map (\<lambda>c. low_bits 3 (cl ! c)) cs) @ rest" "out_of d1 = out_of d"
    "d_bitcount d1 < 8"
    using givesD [OF gives_read_bits [of "cl ! c" 3 0] Cons.prems(2)] Cons.prems(1,3) by auto
  with Cons.IH [of d1 "arr[c := cl ! c]"] Cons.prems(1) show ?case by auto
qed simp

lemma fold_update_nth:
  "c < length arr \<Longrightarrow>
   fold (\<lambda>c a. a[c := f c]) cs arr ! c = (if c \<in> set cs then f c else arr ! c)"
  by (induction cs arbitrary: arr) (auto simp: nth_list_update)

lemma length_fold_update [simp]: "length (fold (\<lambda>c a. a[c := f c]) cs arr) = length arr"
  by (induction cs arbitrary: arr) auto

lemma clcidx_all: "set clcidx = {0..18}" "length clcidx = 19"
proof -
  have sub: "set clcidx \<subseteq> {0..18}" by (simp add: clcidx_def)
  have "distinct clcidx" by (simp add: clcidx_def)
  then have "card (set clcidx) = 19" by (simp add: distinct_card clcidx_def)
  with sub show "set clcidx = {0..18}" by (intro card_subset_eq) auto
qed (simp add: clcidx_def)

lemma decode_trees_spec:
  assumes "header_enc ls ds bs" "code_ok ls" "code_ok ds"
    and "length (t_trans lt) = 288" "length (t_trans dt) = 288"
    and "d_bitcount d < 8" "bits_of d = bs @ rest"
  shows "\<exists>lt' dt' d'. tinf_decode_trees lt dt d = Some (lt', dt', d') \<and> tree_for lt' ls \<and>
    tree_for dt' ds \<and> bits_of d' = rest \<and> out_of d' = out_of d \<and> d_bitcount d' < 8"
  using assms(1)
proof cases
  case (enc_header hclen cl bs')
  let ?cb = "concat (map (\<lambda>c. low_bits 3 (cl ! c)) (take hclen clcidx))"
  have b: "length ls - 257 < 2 ^ 5" "length ds - 1 < 2 ^ 5" "hclen - 4 < 2 ^ 4"
    using enc_header by auto
  have "bits_of d = low_bits 5 (length ls - 257) @ low_bits 5 (length ds - 1) @
    low_bits 4 (hclen - 4) @ ?cb @ bs' @ rest"
    using assms(7) enc_header(1) by simp
  then obtain d1 where d1: "tinf_read_bits 5 257 d = Some (257 + (length ls - 257), d1)"
    "bits_of d1 = low_bits 5 (length ds - 1) @ low_bits 4 (hclen - 4) @ ?cb @ bs' @ rest"
    "out_of d1 = out_of d" "d_bitcount d1 < 8"
    using givesD [OF gives_read_bits [OF b(1)] assms(6)] by blast
  obtain d2 where d2: "tinf_read_bits 5 1 d1 = Some (1 + (length ds - 1), d2)"
    "bits_of d2 = low_bits 4 (hclen - 4) @ ?cb @ bs' @ rest" "out_of d2 = out_of d1" "d_bitcount d2 < 8"
    using givesD [OF gives_read_bits [OF b(2)] d1(4,2)] by blast
  obtain d3 where d3: "tinf_read_bits 4 4 d2 = Some (4 + (hclen - 4), d3)"
    "bits_of d3 = ?cb @ bs' @ rest" "out_of d3 = out_of d2" "d_bitcount d3 < 8"
    using givesD [OF gives_read_bits [OF b(3)] d2(4,2)] by blast
  let ?arr = "fold (\<lambda>c a. a[c := cl ! c]) (take hclen clcidx) (replicate 320 0)"
  have in19: "c < 19" if "c \<in> set clcidx" for c using that clcidx_all by auto
  have "\<forall>c\<in>set (take hclen clcidx). c < length cl \<and> cl ! c < 8"
  proof
    fix c assume "c \<in> set (take hclen clcidx)"
    then have "c < length cl" using in19 [OF in_set_takeD] enc_header(8) by simp
    then show "c < length cl \<and> cl ! c < 8" using enc_header(9) by simp
  qed
  then obtain d4 where d4: "clen_loop (take hclen clcidx) (replicate 320 0) d3 = Some (?arr, d4)"
    "bits_of d4 = bs' @ rest" "out_of d4 = out_of d3" "d_bitcount d4 < 8"
    using clen_loop_spec [OF _ d3(4,2)] by blast
  have "?arr ! c = cl ! c" if c: "c < 19" for c
  proof -
    have "c \<in> set (take hclen clcidx @ drop hclen clcidx)"
      unfolding append_take_drop_id using c clcidx_all by auto
    then have "c \<in> set (take hclen clcidx) \<or> c \<in> set (drop hclen clcidx)"
      unfolding set_append by blast
    then show ?thesis using enc_header(11) c by (auto simp: fold_update_nth)
  qed
  then have take: "take 19 ?arr = cl"
    using enc_header(8) by (intro nth_equalityI) auto
  have cl16: "\<forall>l\<in>set cl. l < 16" using enc_header(9) by auto
  obtain ct where ct: "tinf_build_tree ?arr 19 no_tree = Some ct" "tree_for ct cl"
  proof -
    have a: "cl @ drop 19 ?arr = ?arr" using append_take_drop_id [of 19 ?arr] take by simp
    have "length cl \<le> 288" "length (t_trans no_tree) = 288"
      using enc_header(8) by (simp_all add: no_tree_def)
    from build_tree_for [OF cl16 this, of "drop 19 ?arr"] show thesis
      unfolding a enc_header(8) using that by blast
  qed
  obtain arr d5 where d5: "lengths_loop ct (length ls + length ds) ?arr 0 d4 = Some (arr, d5)"
    "take (length ls + length ds) arr = ls @ ds" "bits_of d5 = rest" "out_of d5 = out_of d4"
    "d_bitcount d5 < 8"
    using lengths_loop_spec [OF enc_header(12,10) ct(2) _ _ d4(4,2), of ?arr] enc_header(3,5)
    by auto
  have arr: "arr = (ls @ ds) @ drop (length ls + length ds) arr"
    using append_take_drop_id [of "length ls + length ds" arr] d5(2) by simp
  have ok: "\<forall>l\<in>set ls. l < 16" "\<forall>l\<in>set ds. l < 16" "length ds \<le> 288"
    using assms(2,3) by (simp_all add: code_ok_def)
  obtain lt' where lt': "tinf_build_tree arr (length ls) lt = Some lt'" "tree_for lt' ls"
    using build_tree_for [OF ok(1) enc_header(3) assms(4), of "ds @ drop (length ls + length ds) arr"]
      arr by auto
  have "drop (length ls) arr = ds @ drop (length ls + length ds) arr"
    by (subst arr) simp
  then obtain dt' where dt': "tinf_build_tree (drop (length ls) arr) (length ds) dt = Some dt'"
    "tree_for dt' ds"
    using build_tree_for [OF ok(2,3) assms(5)] by metis
  have n: "257 + (length ls - 257) = length ls" "1 + (length ds - 1) = length ds"
    "4 + (hclen - 4) = hclen"
    using enc_header by auto
  have "tinf_decode_trees lt dt d = Some (lt', dt', d5)"
    unfolding tinf_decode_trees_def
    by (simp only: d1(1) d2(1) d3(1) n d4(1) ct(1) d5(1) lt'(1) dt'(1) option.case prod.case)
  moreover have "out_of d5 = out_of d" using d1(3) d2(3) d3(3) d4(3) d5(4) by simp
  ultimately show ?thesis using lt'(2) dt'(2) d5(3,5) by blast
qed

section \<open>Blocks and streams\<close>

text \<open>
  A block at bit position \<open>pos\<close> (behind its three bits), the output before and after it, its
  type and its bits. A stored block starts at a byte boundary.
\<close>

inductive block_enc :: "nat \<Rightarrow> u8 list \<Rightarrow> u8 list \<Rightarrow> nat \<Rightarrow> nat list \<Rightarrow> bool" where
  enc_stored:
    "\<lbrakk>length data < 65536; length pad < 8; (pos + length pad) mod 8 = 0\<rbrakk> \<Longrightarrow>
     block_enc pos out (out @ data) 0
       (pad @ low_bits 16 (length data) @ low_bits 16 (65535 - length data) @
        concat (map byte_bits data))"
| enc_fixed:
    "\<lbrakk>tokens_enc fixed_lengths fixed_dists ts bs; tokens_ok ts out\<rbrakk> \<Longrightarrow>
     block_enc pos out (tokens_out ts out) 1 bs"
| enc_dynamic:
    "\<lbrakk>header_enc ls ds hs; code_ok ls; code_ok ds; tokens_enc ls ds ts bs; tokens_ok ts out\<rbrakk> \<Longrightarrow>
     block_enc pos out (tokens_out ts out) 2 (hs @ bs)"

inductive stream_enc :: "nat \<Rightarrow> u8 list \<Rightarrow> u8 list \<Rightarrow> nat list \<Rightarrow> bool" where
  enc_last: "block_enc (pos + 3) out res ty bs \<Longrightarrow> stream_enc pos out res (1 # low_bits 2 ty @ bs)"
| enc_more: "\<lbrakk>block_enc (pos + 3) out mid ty bs; stream_enc (pos + 3 + length bs) mid res cs\<rbrakk> \<Longrightarrow>
     stream_enc pos out res (0 # low_bits 2 ty @ bs @ cs)"

lemma low_bits_add: "low_bits (m + k) v = low_bits m v @ low_bits k (v div 2 ^ m)"
  by (induction m arbitrary: v) (auto simp: div_mult2_eq)

lemma low_bits_mod: "low_bits n (v mod 2 ^ n) = low_bits n v"
proof (induction n arbitrary: v)
  case (Suc n)
  have "v mod 2 ^ Suc n = 2 * (v div 2 mod 2 ^ n) + v mod 2" by (simp add: mod_mult2_eq)
  then have "v mod 2 ^ Suc n mod 2 = v mod 2" "v mod 2 ^ Suc n div 2 = v div 2 mod 2 ^ n" by simp_all
  then show ?case using Suc by (simp del: power_Suc)
qed simp

lemma low_bits_inj: "low_bits n v = low_bits n w \<Longrightarrow> v < 2 ^ n \<Longrightarrow> w < 2 ^ n \<Longrightarrow> v = w"
proof (induction n arbitrary: v w)
  case (Suc n)
  then have "v div 2 = w div 2" "v mod 2 = w mod 2" by auto
  then show ?case by (metis div_mult_mod_eq)
qed simp

lemma byte_bits_of_nat: "byte_bits (of_nat n) = low_bits 8 n"
  using low_bits_mod [of 8 n] by (simp add: byte_bits_def unat_of_nat)

lemma low_bits_16: "low_bits 16 n = byte_bits (of_nat n) @ byte_bits (of_nat (n div 256))"
  using low_bits_add [of 8 8 n] by (simp add: byte_bits_of_nat)

lemma byte_bits_inj: "byte_bits b = byte_bits c \<Longrightarrow> b = c"
  using low_bits_inj [of 8 "unat b" "unat c"] unat_less_256 [of b] unat_less_256 [of c]
  by (simp add: byte_bits_def word_unat_eq_iff)

lemma length_byte_bits [simp]: "length (byte_bits b) = 8"
  by (simp add: byte_bits_def)

lemma byte_bits_split:
  "concat (map byte_bits src) = concat (map byte_bits bs) @ rest \<Longrightarrow>
   \<exists>rs. src = bs @ rs \<and> concat (map byte_bits rs) = rest"
proof (induction bs arbitrary: src)
  case (Cons b bs)
  then show ?case
  proof (cases src)
    case Nil
    have "length (byte_bits b) = 8" by simp
    with Cons.prems Nil show ?thesis by auto
  next
    case (Cons c cs)
    with Cons.prems have "byte_bits c = byte_bits b"
      "concat (map byte_bits cs) = concat (map byte_bits bs) @ rest" by auto
    with Cons.IH [of cs] show ?thesis using Cons byte_bits_inj by auto
  qed
qed simp

lemma length_bytes_bits: "length (concat (map byte_bits bs)) = 8 * length bs"
  by (induction bs) auto

lemma length_bits_of: "length (bits_of d) = d_bitcount d + 8 * length (d_source d)"
  by (simp add: bits_of_def length_bytes_bits)

lemma word_16:
  assumes "n < 65536"
  shows "256 * ucast (of_nat (n div 256) :: u8) + ucast (of_nat n :: u8) = (of_nat n :: u32)"
proof -
  have u: "unat (of_nat n :: u8) = n mod 256" "unat (of_nat (n div 256) :: u8) = n div 256"
    using assms by (simp_all add: unat_of_nat)
  have c: "ucast (w :: u8) = (of_nat (unat w) :: u32)" for w by (simp only: of_nat_unat)
  have "256 * ucast (of_nat (n div 256) :: u8) + ucast (of_nat n :: u8) =
      (of_nat (256 * (n div 256) + n mod 256) :: u32)"
    unfolding c u by (simp only: of_nat_add of_nat_mult of_nat_numeral)
  then show ?thesis by (simp only: mult_div_mod_eq)
qed

lemma stored_complement:
  assumes "n < 65536"
  shows "(NOT (of_nat (65535 - n)) AND 0xffff) = (of_nat n :: u32)"
proof -
  have m: "(0xffff :: u32) = mask 16" by (simp add: mask_eq_exp_minus_1)
  have n: "NOT (of_nat (65535 - n)) = (of_nat n - 65536 :: u32)"
    using assms by (simp add: not_eq_complement)
  have "uint (NOT (of_nat (65535 - n)) AND 0xffff :: u32) = uint (of_nat n - 65536 :: u32) mod 65536"
    unfolding m n take_bit_eq_mask [symmetric] unsigned_take_bit_eq take_bit_eq_mod [where 'a = int]
    by simp
  also have "uint (of_nat n - 65536 :: u32) = (int n - 65536) mod 2 ^ 32"
  proof -
    have "uint (of_nat n :: u32) = int n"
      using assms by (simp only: unsigned_of_nat take_bit_eq_mod [where 'a = nat]) simp
    then show ?thesis by (simp add: uint_word_ariths)
  qed
  also have "(int n - 65536) mod 2 ^ 32 mod 65536 = (int n - 65536) mod 65536"
    by (rule mod_mod_cancel) simp
  also have "\<dots> = int n"
  proof -
    have "(int n - 65536) mod 65536 = int n mod 65536" by (simp only: minus_mod_self2)
    then show ?thesis using assms by simp
  qed
  also have "int n = uint (of_nat n :: u32)"
    using assms by (simp only: unsigned_of_nat take_bit_eq_mod [where 'a = nat]) simp
  finally show ?thesis by (simp only: word_uint_eq_iff)
qed

text \<open>What a block has to find, and what it leaves.\<close>

definition at_block :: "nat \<Rightarrow> u8 list \<Rightarrow> nat list \<Rightarrow> tinf_data \<Rightarrow> bool" where
  "at_block pos out bs d \<longleftrightarrow> d_bitcount d < 8 \<and> bits_of d = bs \<and> (pos + length bs) mod 8 = 0 \<and>
     d_dest d = out \<and> d_destLen d = of_nat (length out) \<and>
     length (t_trans (d_ltree d)) = 288 \<and> length (t_trans (d_dtree d)) = 288"

lemma same_mod_8: "(p + a) mod 8 = 0 \<Longrightarrow> (p + b) mod 8 = 0 \<Longrightarrow> a < 8 \<Longrightarrow> b < 8 \<Longrightarrow> a = (b::nat)"
proof -
  have *: "b \<le> a" if "(p + a) mod 8 = 0" "(p + b) mod 8 = 0" "b < 8" for a b :: nat
  proof -
    have "8 dvd (p + b) - (p + a)" using that by (intro dvd_diff_nat) auto
    then have "8 dvd b - a" by simp
    then show ?thesis using that(3) nat_dvd_not_less [of "b - a" 8] by fastforce
  qed
  assume "(p + a) mod 8 = 0" "(p + b) mod 8 = 0" "a < 8" "b < 8"
  with *[of a b] *[of b a] show "a = b" by simp
qed

lemma stored_block_spec:
  assumes "at_block pos out (pad @ low_bits 16 (length data) @ low_bits 16 (65535 - length data) @
      concat (map byte_bits data) @ rest) d"
    and "length data < 65536" "length pad < 8" "(pos + length pad) mod 8 = 0"
    and "length out + length data \<le> d_room d"
  shows "\<exists>d'. tinf_inflate_uncompressed_block d = Some (TINF_OK, d') \<and>
    at_block (pos + length pad + 32 + 8 * length data) (out @ data) rest d' \<and> d_room d' = d_room d"
proof -
  let ?n = "length data" and ?hd = "\<lambda>n. [of_nat n, of_nat (n div 256) :: u8]"
  have bits: "bits_of d = pad @ concat (map byte_bits (?hd ?n @ ?hd (65535 - ?n) @ data)) @ rest"
    using assms(1) by (simp add: at_block_def low_bits_16)
  have "(pos + length (bits_of d)) mod 8 = 0" using assms(1) by (simp add: at_block_def)
  then have "(pos + d_bitcount d) mod 8 = 0" by (simp add: length_bits_of flip: add.assoc)
  moreover have "d_bitcount d < 8" using assms(1) by (simp add: at_block_def)
  ultimately have pad: "d_bitcount d = length pad"
    by (rule same_mod_8 [OF _ assms(4) _ assms(3)])
  then have "concat (map byte_bits (d_source d)) =
      concat (map byte_bits (?hd ?n @ ?hd (65535 - ?n) @ data)) @ rest"
    using bits unfolding bits_of_def by (metis append_eq_append_conv length_low_bits)
  then obtain rs where rs: "d_source d = (?hd ?n @ ?hd (65535 - ?n) @ data) @ rs"
    "concat (map byte_bits rs) = rest"
    using byte_bits_split by blast
  have len: "256 * ucast (of_nat (?n div 256) :: u8) + ucast (of_nat ?n :: u8) = (of_nat ?n :: u32)"
    by (rule word_16 [OF assms(2)])
  have inv: "256 * ucast (of_nat ((65535 - ?n) div 256) :: u8) + ucast (of_nat (65535 - ?n) :: u8) =
      (of_nat (65535 - ?n) :: u32)"
    by (rule word_16) simp
  have un: "unat (of_nat ?n :: u32) = ?n" using assms(2) by (simp add: unat_of_nat)
  have src: "d_source d = of_nat ?n # of_nat (?n div 256) # of_nat (65535 - ?n) #
      of_nat ((65535 - ?n) div 256) # data @ rs" using rs(1) by simp
  have "tinf_inflate_uncompressed_block d = Some (TINF_OK,
      d\<lparr>d_source := rs, d_dest := out @ data, d_bitcount := 0,
        d_destLen := of_nat (length out) + of_nat ?n\<rparr>)"
    unfolding tinf_inflate_uncompressed_block_def src list.case Let_def len inv un
      stored_complement [OF assms(2)]
    using assms(1,5) by (simp add: at_block_def)
  moreover have "(pos + length pad + 32 + 8 * ?n + length rest) mod 8 = 0"
  proof -
    have "pos + length pad + 32 + 8 * ?n + length rest = (pos + length pad) + 8 * (4 + ?n + length rs)"
      using rs(2) length_bytes_bits [of rs] by simp
    then show ?thesis using assms(4) by (simp only: mod_mult_self2)
  qed
  ultimately show ?thesis
    using assms(1) rs(2) by (auto simp: at_block_def bits_of_def)
qed

lemma at_block_moved:
  assumes "at_block pos out (bs @ rest) d" "bits_of d' = rest" "d_bitcount d' < 8"
    "d_dest d' = res" "d_destLen d' = of_nat (length res)"
    "length (t_trans (d_ltree d')) = 288" "length (t_trans (d_dtree d')) = 288"
  shows "at_block (pos + length bs) res rest d'"
  using assms by (simp add: at_block_def add.assoc)

lemma block_spec:
  assumes "block_enc pos out res ty bs" "at_block pos out (bs @ rest) d" "length res \<le> d_room d"
  shows "\<exists>d'. (if ty = 0 then tinf_inflate_uncompressed_block d
            else if ty = 1 then tinf_inflate_fixed_block tinf_init d
            else tinf_inflate_dynamic_block tinf_init d) = Some (TINF_OK, d') \<and>
    at_block (pos + length bs) res rest d' \<and> d_room d' = d_room d"
  using assms(1)
proof cases
  case (enc_stored data pad)
  then show ?thesis
    using stored_block_spec [of pos out pad data rest d] assms(2,3)
    by (simp add: add.assoc length_bytes_bits)
next
  case (enc_fixed ts)
  have d: "d_bitcount d < 8" "bits_of d = bs @ rest" "d_dest d = out" "d_destLen d = of_nat (length out)"
    "length (t_trans (d_ltree d)) = 288" "length (t_trans (d_dtree d)) = 288"
    using assms(2) by (simp_all add: at_block_def)
  obtain d' where d': "tinf_inflate_fixed_block tinf_init d = Some (TINF_OK, d')" "bits_of d' = rest"
    "d_bitcount d' < 8" "d_dest d' = res"
    "d_destLen d' = d_destLen d + of_nat (length res - length out)" "same_trees d d'"
    using inflate_block_data_spec [OF enc_fixed(3) fixed_code_ok(1) fixed_trees(1) fixed_code_ok(2)
        fixed_trees(2) d(1,2), of "length out"] enc_fixed(1,4) d(3) assms(3)
    unfolding tinf_inflate_fixed_block_def by auto
  have "d_destLen d' = of_nat (length res)"
    using d'(5) d(4) tokens_out_grows [of out ts] enc_fixed(1) by simp
  then have "at_block (pos + length bs) res rest d'"
    using at_block_moved [OF assms(2) d'(2,3,4)] d'(6) d(5,6) by (simp add: same_trees_def)
  then show ?thesis using d'(1,6) enc_fixed(2) by (simp add: same_trees_def)
next
  case (enc_dynamic ls ds hs ts bs')
  have d: "d_bitcount d < 8" "bits_of d = hs @ bs' @ rest" "d_dest d = out"
    "d_destLen d = of_nat (length out)"
    "length (t_trans (d_ltree d)) = 288" "length (t_trans (d_dtree d)) = 288"
    using assms(2) enc_dynamic(3) by (simp_all add: at_block_def)
  obtain lt dt d1 where d1: "tinf_decode_trees (d_ltree d) (d_dtree d) d = Some (lt, dt, d1)"
    "tree_for lt ls" "tree_for dt ds" "bits_of d1 = bs' @ rest" "out_of d1 = out_of d" "d_bitcount d1 < 8"
    using decode_trees_spec [OF enc_dynamic(4,5,6) d(5,6,1,2)] by blast
  let ?d = "d1\<lparr>d_ltree := lt, d_dtree := dt\<rparr>"
  have o: "d_dest ?d = out" "d_room ?d = d_room d" "d_destLen ?d = of_nat (length out)"
    "bits_of ?d = bs' @ rest" "d_bitcount ?d < 8"
    using d1(4,5,6) d(3,4) by (simp_all add: out_of_def)
  obtain d' where d': "tinf_inflate_block_data tinf_init (length (d_dest d1)) lt dt ?d =
      Some (TINF_OK, d')" "bits_of d' = rest" "d_bitcount d' < 8" "d_dest d' = res"
    "d_destLen d' = d_destLen ?d + of_nat (length res - length out)" "same_trees ?d d'"
    using inflate_block_data_spec [OF enc_dynamic(7,5) d1(2) enc_dynamic(6) d1(3) o(5,4),
        of "length out"] enc_dynamic(1,8) o(1-3) assms(3) by auto
  have "d_destLen d' = of_nat (length res)"
    using d'(5) o(3) tokens_out_grows [of out ts] enc_dynamic(1) by simp
  moreover have "length (t_trans (d_ltree d')) = 288" "length (t_trans (d_dtree d')) = 288"
    using d'(6) d1(2,3) by (simp_all add: same_trees_def tree_for_def)
  ultimately have "at_block (pos + length bs) res rest d'"
    using at_block_moved [OF assms(2) d'(2,3,4)] by simp
  moreover have "d_room d' = d_room d" using d'(6) o(2) by (simp add: same_trees_def)
  moreover have "tinf_inflate_dynamic_block tinf_init d = Some (TINF_OK, d')"
    using d1(1) d'(1) by (simp add: tinf_inflate_dynamic_block_def)
  ultimately show ?thesis using enc_dynamic(2) by simp
qed

lemma block_type: "block_enc pos out res ty bs \<Longrightarrow> ty < 3"
  by (induction rule: block_enc.induct) auto

lemma block_grows: "block_enc pos out res ty bs \<Longrightarrow> length out \<le> length res"
  by (induction rule: block_enc.induct) (auto simp: tokens_out_grows)

lemma stream_grows: "stream_enc pos out res bs \<Longrightarrow> length out \<le> length res"
  by (induction rule: stream_enc.induct) (auto dest: block_grows)

text \<open>The three bits in front of a block.\<close>

lemma block_head:
  assumes "at_block pos out (fb # low_bits 2 ty @ bs) d" "ty < 3"
  obtains d1 d2 where "tinf_getbit d = Some (fb, d1)" "tinf_read_bits 2 0 d1 = Some (ty, d2)"
    "at_block (pos + 3) out bs d2" "d_room d2 = d_room d"
proof -
  have d: "d_bitcount d < 8" "bits_of d = [fb] @ low_bits 2 ty @ bs"
    using assms(1) by (simp_all add: at_block_def)
  obtain d1 where d1: "tinf_getbit d = Some (fb, d1)" "bits_of d1 = low_bits 2 ty @ bs"
    "out_of d1 = out_of d" "d_bitcount d1 < 8"
    using givesD [OF gives_getbit d] by blast
  obtain d2 where d2: "tinf_read_bits 2 0 d1 = Some (0 + ty, d2)" "bits_of d2 = bs"
    "out_of d2 = out_of d1" "d_bitcount d2 < 8"
    using givesD [OF gives_read_bits [of ty 2 0] d1(4,2)] assms(2) by auto
  have "at_block (pos + 3) out bs d2"
    using assms(1) d1(3) d2(2-4) by (simp add: at_block_def out_of_def) (simp only: ac_simps)
  moreover have "d_room d2 = d_room d" using d1(3) d2(3) by (simp add: out_of_def)
  ultimately show thesis using that d1(1) d2(1) by simp
qed

lemma uncompress_loop_spec:
  assumes "stream_enc pos out res bs" "at_block pos out (bs @ rest) d" "length res \<le> d_room d"
  shows "\<exists>d'. uncompress_loop tinf_init d = Some (TINF_OK, d') \<and> d_dest d' = res \<and>
    d_destLen d' = of_nat (length res)"
  using assms
proof (induction arbitrary: d)
  case (enc_last pos out res ty bs)
  note ty = block_type [OF enc_last(1)]
  obtain d1 d2 where h: "tinf_getbit d = Some (1, d1)" "tinf_read_bits 2 0 d1 = Some (ty, d2)"
    "at_block (pos + 3) out (bs @ rest) d2" "d_room d2 = d_room d"
    using block_head [OF _ ty, of pos out 1 "bs @ rest" d] enc_last.prems(1) by auto
  obtain d' where d': "(if ty = 0 then tinf_inflate_uncompressed_block d2
            else if ty = 1 then tinf_inflate_fixed_block tinf_init d2
            else tinf_inflate_dynamic_block tinf_init d2) = Some (TINF_OK, d')"
    "at_block (pos + 3 + length bs) res rest d'"
    using block_spec [OF enc_last(1) h(3)] h(4) enc_last.prems(2) by auto
  have "uncompress_loop tinf_init d = Some (TINF_OK, d')"
    using ty by (subst uncompress_loop.simps) (simp add: h(1,2) d'(1))
  then show ?case using d'(2) by (simp add: at_block_def)
next
  case (enc_more pos out mid ty bs res cs)
  note ty = block_type [OF enc_more(1)]
  obtain d1 d2 where h: "tinf_getbit d = Some (0, d1)" "tinf_read_bits 2 0 d1 = Some (ty, d2)"
    "at_block (pos + 3) out (bs @ cs @ rest) d2" "d_room d2 = d_room d"
    using block_head [OF _ ty, of pos out 0 "bs @ cs @ rest" d] enc_more.prems(1) by auto
  have "length mid \<le> d_room d2"
    using stream_grows [OF enc_more(2)] enc_more.prems(2) h(4) by simp
  then obtain d' where d': "(if ty = 0 then tinf_inflate_uncompressed_block d2
            else if ty = 1 then tinf_inflate_fixed_block tinf_init d2
            else tinf_inflate_dynamic_block tinf_init d2) = Some (TINF_OK, d')"
    "at_block (pos + 3 + length bs) mid (cs @ rest) d'" "d_room d' = d_room d2"
    using block_spec [OF enc_more(1) h(3)] by auto
  have "uncompress_loop tinf_init d = uncompress_loop tinf_init d'"
    using ty by (subst uncompress_loop.simps) (simp add: h(1,2) d'(1))
  then show ?case using enc_more.IH [OF d'(2)] d'(3) h(4) enc_more.prems(2) by simp
qed

lemma uncompress_stream:
  assumes "stream_enc 0 [] res bs" "concat (map byte_bits source) = bs @ rest" "length res \<le> room"
  shows "tinf_uncompress tinf_init room source = Some (TINF_OK, res, of_nat (length res))"
proof -
  let ?d = "\<lparr>d_source = source, d_tag = 0, d_bitcount = 0, d_dest = [], d_room = room,
            d_destLen = 0, d_ltree = no_tree, d_dtree = no_tree\<rparr>"
  have "length (bs @ rest) = 8 * length source" using length_bytes_bits [of source] assms(2) by simp
  then have "at_block 0 [] (bs @ rest) ?d"
    using assms(2) by (simp add: at_block_def bits_of_def no_tree_def)
  from uncompress_loop_spec [OF assms(1) this] assms(3) show ?thesis
    by (auto simp: tinf_uncompress_def)
qed

section \<open>Checksums\<close>

text \<open>The Adler checksum as RFC 1950 defines it: both sums modulo 65521 after every byte.\<close>

fun adler_ref :: "u8 list \<Rightarrow> nat \<times> nat \<Rightarrow> nat \<times> nat" where
  "adler_ref [] s = s"
| "adler_ref (b # bs) (s1, s2) =
     (let s1' = (s1 + unat b) mod 65521 in adler_ref bs (s1', (s2 + s1') mod 65521))"

fun adler_nat :: "u8 list \<Rightarrow> nat \<times> nat \<Rightarrow> nat \<times> nat" where
  "adler_nat [] s = s"
| "adler_nat (b # bs) (s1, s2) = adler_nat bs (s1 + unat b, s2 + (s1 + unat b))"

lemma adler_bytes_append: "adler_bytes (as @ bs) s = adler_bytes bs (adler_bytes as s)"
  by (induction as s rule: adler_bytes.induct) (auto simp: Let_def)

lemma adler_blocks_bytes:
  "adler_blocks i buf s = (drop (16 * i) buf, adler_bytes (take (16 * i) buf) s)"
proof (induction i arbitrary: buf s)
  case 0
  then show ?case by (cases s) simp
next
  case (Suc i)
  have "take (16 * Suc i) buf = take 16 buf @ take (16 * i) (drop 16 buf)"
    by (simp add: take_add)
  with Suc show ?case by (simp add: adler_bytes_append add.commute)
qed

lemma adler_nat_mod:
  "adler_ref bs (s1 mod 65521, s2 mod 65521) =
     (let (r1, r2) = adler_nat bs (s1, s2) in (r1 mod 65521, r2 mod 65521))"
proof (induction bs arbitrary: s1 s2)
  case (Cons b bs)
  have "(s1 mod 65521 + unat b) mod 65521 = (s1 + unat b) mod 65521"
    "(s2 mod 65521 + (s1 + unat b) mod 65521) mod 65521 = (s2 + (s1 + unat b)) mod 65521"
    by (simp_all add: mod_simps)
  then show ?case using Cons [of "s1 + unat b" "s2 + (s1 + unat b)"] by (simp add: Let_def)
qed simp

lemma adler_nat_bound:
  "fst (adler_nat bs (s1, s2)) \<le> s1 + 255 * length bs \<and>
   2 * snd (adler_nat bs (s1, s2)) \<le> 2 * s2 + 2 * length bs * s1 + 255 * length bs * (length bs + 1)"
proof (induction bs arbitrary: s1 s2)
  case (Cons b bs)
  have b: "unat b \<le> 255" using unat_less_256 [of b] by simp
  let ?k = "length bs"
  let ?r = "adler_nat bs (s1 + unat b, s2 + (s1 + unat b))"
  note IH = Cons [of "s1 + unat b" "s2 + (s1 + unat b)"]
  let ?rest = "2 * s2 + 2 * s1 + 2 * ?k * s1 + 255 * ?k * (?k + 1)"
  have "2 * snd ?r \<le> 2 * (s2 + (s1 + unat b)) + 2 * ?k * (s1 + unat b) + 255 * ?k * (?k + 1)"
    using IH by (rule conjunct2)
  also have "\<dots> = ?rest + unat b * (2 + 2 * ?k)" by (simp add: algebra_simps)
  also have "\<dots> \<le> ?rest + 255 * (2 + 2 * ?k)" using b by (intro add_left_mono mult_right_mono) auto
  also have "\<dots> = 2 * s2 + 2 * length (b # bs) * s1 + 255 * length (b # bs) * (length (b # bs) + 1)"
    by (simp add: algebra_simps)
  finally show ?case using conjunct1 [OF IH] b by (simp only: adler_nat.simps) simp
qed simp

lemma adler_nat_mono:
  "s1 \<le> fst (adler_nat bs (s1, s2)) \<and> s2 \<le> snd (adler_nat bs (s1, s2))"
proof (induction bs arbitrary: s1 s2)
  case (Cons b bs)
  show ?case using Cons [of "s1 + unat b" "s2 + (s1 + unat b)"] by simp
qed simp

text \<open>The sums of the code are exact as long as they fit into a word.\<close>

lemma adler_bytes_exact:
  assumes "fst (adler_nat bs (unat s1, unat s2)) < 2 ^ 32" "snd (adler_nat bs (unat s1, unat s2)) < 2 ^ 32"
  shows "unat (fst (adler_bytes bs (s1, s2))) = fst (adler_nat bs (unat s1, unat s2)) \<and>
    unat (snd (adler_bytes bs (s1, s2))) = snd (adler_nat bs (unat s1, unat s2))"
  using assms
proof (induction bs arbitrary: s1 s2)
  case (Cons b bs)
  let ?s1 = "s1 + ucast b"
  have m: "unat s1 + unat b < 2 ^ 32" "unat s2 + (unat s1 + unat b) < 2 ^ 32"
    using adler_nat_mono [of "unat s1 + unat b" bs "unat s2 + (unat s1 + unat b)"] Cons.prems by simp_all
  have c: "unat (ucast b :: u32) = unat b"
    using unat_less_256 [of b] by (simp add: unat_ucast)
  have 1: "unat ?s1 = unat s1 + unat b" using m(1) c by (simp add: unat_word_ariths)
  have 2: "unat (s2 + ?s1) = unat s2 + (unat s1 + unat b)"
    using m(2) 1 by (simp add: unat_word_ariths(1) [of s2])
  show ?case
    using Cons.IH [of ?s1 "s2 + ?s1"] Cons.prems by (simp add: Let_def 1 2)
qed simp

lemma adler_chunk:
  assumes "length bs \<le> 5552" "unat s1 \<le> 65520" "unat s2 \<le> 65520"
  shows "unat (fst (adler_bytes bs (s1, s2)) mod A32_BASE) = fst (adler_ref bs (unat s1, unat s2)) \<and>
    unat (snd (adler_bytes bs (s1, s2)) mod A32_BASE) = snd (adler_ref bs (unat s1, unat s2))"
proof -
  let ?n = "adler_nat bs (unat s1, unat s2)" and ?k = "length bs"
  have "2 * ?k * unat s1 \<le> 2 * 5552 * 65520" using assms by (intro mult_le_mono) auto
  moreover have "255 * ?k * (?k + 1) \<le> 255 * 5552 * 5553" using assms by (intro mult_le_mono) auto
  ultimately have lt: "fst ?n < 2 ^ 32" "snd ?n < 2 ^ 32"
    using adler_nat_bound [of bs "unat s1" "unat s2"] assms by auto
  have m: "unat s1 mod 65521 = unat s1" "unat s2 mod 65521 = unat s2" using assms by auto
  have "adler_ref bs (unat s1, unat s2) = (fst ?n mod 65521, snd ?n mod 65521)"
    using adler_nat_mod [of bs "unat s1" "unat s2"] unfolding m by (simp add: case_prod_beta)
  then show ?thesis
    using adler_bytes_exact [OF lt] by (simp add: A32_BASE_def unat_mod)
qed

lemma adler_ref_append: "adler_ref (as @ bs) s = adler_ref bs (adler_ref as s)"
  by (induction as s rule: adler_ref.induct) (auto simp: Let_def)

lemma adler_ref_range:
  "s1 \<le> 65520 \<Longrightarrow> s2 \<le> 65520 \<Longrightarrow> fst (adler_ref bs (s1, s2)) \<le> 65520 \<and> snd (adler_ref bs (s1, s2)) \<le> 65520"
proof (induction bs arbitrary: s1 s2)
  case (Cons b bs)
  have "x mod 65521 \<le> 65520" for x :: nat using mod_less_divisor [of 65521 x] by linarith
  with Cons.IH show ?case by (simp add: Let_def)
qed simp

lemma adler_loop_ref:
  assumes "len \<le> length buf" "unat s1 \<le> 65520" "unat s2 \<le> 65520"
  shows "unat (fst (adler_loop buf len s1 s2)) = fst (adler_ref (take len buf) (unat s1, unat s2)) \<and>
    unat (snd (adler_loop buf len s1 s2)) = snd (adler_ref (take len buf) (unat s1, unat s2))"
  using assms
proof (induction len arbitrary: buf s1 s2 rule: less_induct)
  case (less len)
  show ?case
  proof (cases "len = 0")
    case True
    then show ?thesis by (subst (1 2) adler_loop.simps) simp
  next
    case False
    define k where "k = (if len < A32_NMAX then len else A32_NMAX)"
    have k: "0 < k" "k \<le> len" "k \<le> 5552" using False by (auto simp: k_def A32_NMAX_def)
    let ?r = "adler_bytes (take k buf) (s1, s2)"
    let ?s1 = "fst ?r mod A32_BASE" and ?s2 = "snd ?r mod A32_BASE"
    have "16 * (k div 16) + k mod 16 = k" by simp
    then have tk: "take k buf = take (16 * (k div 16)) buf @ take (k mod 16) (drop (16 * (k div 16)) buf)"
      and dk: "drop (k mod 16) (drop (16 * (k div 16)) buf) = drop k buf"
      by (metis take_add) (metis drop_drop add.commute \<open>16 * (k div 16) + k mod 16 = k\<close>)
    have step: "adler_loop buf len s1 s2 = adler_loop (drop k buf) (len - k) ?s1 ?s2"
      using False unfolding tk adler_bytes_append
      by (subst adler_loop.simps)
        (simp add: k_def [symmetric] Let_def adler_blocks_bytes case_prod_beta dk)
    have c: "unat ?s1 = fst (adler_ref (take k buf) (unat s1, unat s2))"
      "unat ?s2 = snd (adler_ref (take k buf) (unat s1, unat s2))"
      using adler_chunk [of "take k buf" s1 s2] k less.prems by auto
    have r: "unat ?s1 \<le> 65520" "unat ?s2 \<le> 65520"
      unfolding c using adler_ref_range less.prems by auto
    have "take len buf = take k buf @ take (len - k) (drop k buf)"
      using k(2) by (metis le_add_diff_inverse take_add)
    moreover have "adler_ref (take k buf) (unat s1, unat s2) = (unat ?s1, unat ?s2)"
      unfolding c by simp
    ultimately show ?thesis
      unfolding step using less.IH [of "len - k" "drop k buf" ?s1 ?s2] k r less.prems(1)
      by (simp add: adler_ref_append)
  qed
qed

definition adler_sum :: "u8 list \<Rightarrow> nat" where
  "adler_sum bs = (let (s1, s2) = adler_ref bs (1, 0) in 65536 * s2 + s1)"

lemma push_or:
  assumes "unat (s1 :: u32) < 65536"
  shows "push_bit 16 s2 OR s1 = of_nat (65536 * unat s2 + unat s1)"
proof -
  have s1: "take_bit 16 s1 = s1"
    using assms by (simp only: word_unat_eq_iff unat_take_bit_mod) simp
  have "push_bit 16 s2 AND s1 = 0"
    by (subst s1 [symmetric]) (auto simp: bit_eq_iff bit_simps)
  then have "push_bit 16 s2 OR s1 = push_bit 16 s2 + s1" by (rule disjunctive_add_eq_or [symmetric])
  then show ?thesis by (simp add: push_bit_eq_mult)
qed

lemma adler32_sum:
  "tinf_adler32 data n =
     (if unat n \<le> length data then Some (of_nat (adler_sum (take (unat n) data))) else None)"
proof -
  let ?l = "adler_loop data (unat n) 1 0" and ?r = "adler_ref (take (unat n) data) (1, 0)"
  have "push_bit 16 (snd ?l) OR fst ?l = of_nat (65536 * snd ?r + fst ?r)"
    if n: "unat n \<le> length data"
  proof -
    have l: "unat (fst ?l) = fst ?r" "unat (snd ?l) = snd ?r"
      using adler_loop_ref [OF n, of 1 0] by simp_all
    moreover have "fst ?r \<le> 65520" by (rule conjunct1 [OF adler_ref_range]) simp_all
    then have "fst ?r < 65536" by simp
    ultimately show ?thesis using push_or [of "fst ?l" "snd ?l"] by simp
  qed
  then show ?thesis
    by (simp add: tinf_adler32_def adler_sum_def case_prod_beta Let_def)
qed

text \<open>The big-endian checksum behind a zlib stream, and its two header bytes.\<close>

definition be32 :: "nat \<Rightarrow> u8 list" where
  "be32 v = [of_nat (v div 16777216), of_nat (v div 65536), of_nat (v div 256), of_nat v]"

definition zlib_header_ok :: "u8 \<Rightarrow> u8 \<Rightarrow> bool" where
  "zlib_header_ok cmf flg \<longleftrightarrow> (256 * unat cmf + unat flg) mod 31 = 0 \<and> unat cmf mod 16 = 8 \<and>
     unat cmf div 16 \<le> 7 \<and> \<not> bit flg 5"

lemma be32_value:
  assumes "v < 2 ^ 32"
  shows "256 * (256 * (256 * ucast (of_nat (v div 16777216) :: u8) + ucast (of_nat (v div 65536) :: u8))
    + ucast (of_nat (v div 256) :: u8)) + ucast (of_nat v :: u8) = (of_nat v :: u32)"
proof -
  have c: "ucast (of_nat w :: u8) = (of_nat (w mod 256) :: u32)" for w
  proof -
    have "ucast (of_nat w :: u8) = (of_nat (unat (of_nat w :: u8)) :: u32)" by (simp only: of_nat_unat)
    then show ?thesis by (simp add: unat_of_nat)
  qed
  have v: "v mod 256 + 256 * (v div 256 mod 256 + 256 * (v div 65536 mod 256 + 256 * (v div 16777216 mod 256))) = v"
  proof -
    have d: "v div 65536 = v div 256 div 256" "v div 16777216 = v div 256 div 256 div 256"
      by (simp_all add: div_mult2_eq [symmetric])
    have "v div 256 div 256 div 256 mod 256 = v div 256 div 256 div 256"
      using assms by (simp add: div_mult2_eq [symmetric])
    then show ?thesis unfolding d by (simp only: mod_mult_div_eq)
  qed
  have "256 * (256 * (256 * ucast (of_nat (v div 16777216) :: u8) + ucast (of_nat (v div 65536) :: u8))
    + ucast (of_nat (v div 256) :: u8)) + ucast (of_nat v :: u8) =
    (of_nat (v mod 256 + 256 * (v div 256 mod 256 + 256 * (v div 65536 mod 256 + 256 * (v div 16777216 mod 256)))) :: u32)"
    unfolding c by (simp only: of_nat_add of_nat_mult of_nat_numeral ac_simps)
  then show ?thesis unfolding v .
qed

lemma adler_sum_less: "adler_sum bs < 2 ^ 32"
proof -
  have "fst (adler_ref bs (1, 0)) \<le> 65520" "snd (adler_ref bs (1, 0)) \<le> 65520"
    using adler_ref_range [of 1 0 bs] by simp_all
  then show ?thesis by (simp add: adler_sum_def case_prod_beta)
qed

lemma header_tests:
  assumes "zlib_header_ok cmf flg"
  shows "(256 * uint cmf + uint flg) mod 31 = 0" "cmf AND 0x0f = 8" "\<not> drop_bit 4 cmf > 7"
    "flg AND 0x20 = 0"
proof -
  have "256 * uint cmf + uint flg = int (256 * unat cmf + unat flg)"
    by (simp only: of_nat_add of_nat_mult of_nat_numeral uint_nat)
  moreover have "int (256 * unat cmf + unat flg) mod 31 = int ((256 * unat cmf + unat flg) mod 31)"
    by (simp only: zmod_int of_nat_numeral)
  moreover have "(256 * unat cmf + unat flg) mod 31 = 0" using assms by (simp only: zlib_header_ok_def)
  ultimately show "(256 * uint cmf + uint flg) mod 31 = 0" by (simp only: of_nat_0)
  have "cmf AND 0x0f = take_bit 4 cmf" by (simp only: take_bit_eq_mask mask_eq_exp_minus_1) simp
  also have "\<dots> = 8"
    using assms by (simp only: word_unat_eq_iff unat_take_bit_mod zlib_header_ok_def) simp
  finally show "cmf AND 0x0f = 8" .
  show "\<not> drop_bit 4 cmf > 7"
    unfolding linorder_not_less word_le_nat_alt unat_drop_bit_div
    using assms by (simp add: zlib_header_ok_def)
  have "\<not> bit flg 5" using assms unfolding zlib_header_ok_def by (elim conjE)
  then have "flg AND 2 ^ 5 = 0" by (simp only: and_exp_eq_0_iff_not_bit simp_thms)
  then show "flg AND 0x20 = 0" by simp
qed

text \<open>
  C9: The decompressor decodes deflate. Whatever sequence of stored blocks, blocks with the fixed
  codes and blocks that carry their own codes encodes the data, in whatever way a compressor chose
  codes, matches and run lengths, decompression succeeds, and the output and its announced length
  are the data.
\<close>

theorem uncompress_decodes:
  assumes "stream_enc 0 [] res bs" "concat (map byte_bits source) = bs @ rest" "length res \<le> room"
  shows "tinf_uncompress tinf_init room source = Some (TINF_OK, res, of_nat (length res))"
  by (rule uncompress_stream [OF assms])

lemma low_bits_numeral: "low_bits (numeral k) v = v mod 2 # low_bits (pred_numeral k) (v div 2)"
  by (simp add: numeral_eq_Suc)

lemma replicate_num: "replicate (numeral k) x = x # replicate (pred_numeral k) x"
  by (simp add: numeral_eq_Suc)

text \<open>Five times the letter a: a literal and a match of length 4 at distance 1.\<close>

definition aaaaa_bits :: "nat list" where
  "aaaaa_bits = [1, 1, 0, 1, 0, 0, 1, 0, 0, 0, 1, 0, 0, 0, 0, 0, 1, 0, 0, 0, 0, 0, 0, 0, 0, 0, 0, 0, 0, 0]"

lemma aaaaa_stream: "stream_enc 0 [] (replicate 5 97) aaaaa_bits"
proof -
  have f: "fixed_lengths ! 97 = 8" "fixed_lengths ! 256 = 7" "fixed_lengths ! 258 = 7"
    "fixed_dists ! 0 = 5" "length fixed_lengths = 288" "length fixed_dists = 32"
    by (simp_all add: fixed_lengths_def fixed_dists_def nth_append)
  have r: "rank fixed_lengths 97 = 97" "rank fixed_lengths 256 = 0" "rank fixed_lengths 258 = 2"
    "rank fixed_dists 0 = 0"
    by (simp_all add: rank_def f) (simp_all add: fixed_lengths_def count_list_replicate)
  have c: "first_code fixed_lengths 8 = 48" "first_code fixed_lengths 7 = 0" "first_code fixed_dists 5 = 0"
    by (simp_all add: first_code_numeral first_code_1 cnt_fixed cnt_fixed_dists del: first_code.simps(2) cnt.simps)
  have s: "sym_bits fixed_lengths 97 = [1, 0, 0, 1, 0, 0, 0, 1]"
    "sym_bits fixed_lengths 256 = replicate 7 0" "sym_bits fixed_lengths (257 + 1) = [0, 0, 0, 0, 0, 1, 0]"
    "sym_bits fixed_dists 0 = replicate 5 0"
    by (simp_all add: sym_bits_def sym_code_def f r c low_bits_numeral replicate_num)
  have l: "token_enc fixed_lengths fixed_dists (Lit 97) (sym_bits fixed_lengths 97)"
    using enc_lit [of "97 :: u8" fixed_lengths fixed_dists] by (simp add: f)
  have m: "token_enc fixed_lengths fixed_dists (Match 4 1)
      (sym_bits fixed_lengths (257 + 1) @ sym_bits fixed_dists 0)"
    using enc_match [of 1 fixed_lengths 0 0 fixed_dists 0]
    by (simp add: f rfc_length_base_def rfc_length_bits_def rfc_dist_base_def rfc_dist_bits_def)
  have e: "tokens_enc fixed_lengths fixed_dists [] (sym_bits fixed_lengths 256)"
    by (rule enc_end) (simp_all add: f)
  have out: "tokens_out [Lit 97, Match 4 1] [] = replicate 5 97"
    by (simp add: replicate_num upt_rec)
  have "block_enc (0 + 3) [] (tokens_out [Lit 97, Match 4 1] []) 1
      (sym_bits fixed_lengths 97 @ (sym_bits fixed_lengths (257 + 1) @ sym_bits fixed_dists 0) @
       sym_bits fixed_lengths 256)"
    by (rule enc_fixed [OF enc_token [OF l enc_token [OF m e]]]) simp
  from enc_last [OF this] show ?thesis
    unfolding out s by (simp add: aaaaa_bits_def replicate_num low_bits_numeral)
qed

lemma aaaaa_source: "concat (map byte_bits [0x4B, 0x04, 0x01, 0x00]) = aaaaa_bits @ [0, 0]"
  by (simp add: byte_bits_def aaaaa_bits_def low_bits_numeral)

theorem uncompress_decodes_witness:
  "tinf_uncompress tinf_init 5 [0x4B, 0x04, 0x01, 0x00] = Some (TINF_OK, replicate 5 97, of_nat (length (replicate 5 (97::u8))))"
  by (rule uncompress_decodes [OF aaaaa_stream aaaaa_source]) simp

text \<open>
  A zlib stream is accepted exactly when its checksum is the checksum of the data: with a valid
  header around an encoding of the data, the result is success when the last four bytes are the
  Adler checksum, and a data error for any other four bytes; the data is written in both cases.
\<close>

theorem zlib_checks_data:
  assumes "zlib_header_ok cmf flg" "stream_enc 0 [] res bs"
    and "concat (map byte_bits body) = bs @ pad"
    and "length res \<le> room" "length res < 2 ^ 32" "length body + 6 < 2 ^ 32" "v < 2 ^ 32"
  shows "tinf_zlib_uncompress tinf_init room n0 ([cmf, flg] @ body @ be32 v) (of_nat (length body + 6)) =
     Some (if v = adler_sum res then TINF_OK else TINF_DATA_ERROR, res, of_nat (length res))"
proof -
  let ?src = "[cmf, flg] @ body @ be32 v" and ?len = "of_nat (length body + 6) :: u32"
  have "unat ?len = length body + 6" using assms(6) by (simp only: unat_of_nat) simp
  moreover have "?len - 4 = of_nat (length body + 2)" by simp
  ultimately have i: "unat (?len - 4) = length body + 2"
    using assms(6) by (simp only: unat_of_nat) simp
  have nth: "?src ! (length body + 2 + k) = be32 v ! k" for k
    by (simp add: nth_append)
  have a: "?src ! (length body + 2) = of_nat (v div 16777216)"
    "?src ! (length body + 2 + 1) = of_nat (v div 65536)"
    "?src ! (length body + 2 + 2) = of_nat (v div 256)" "?src ! (length body + 2 + 3) = of_nat v"
    using nth [of 0] nth [of 1] nth [of 2] nth [of 3] by (simp_all add: be32_def)
  have h: "?src ! 0 = cmf" "?src ! 1 = flg" by simp_all
  have long: "\<not> length ?src < 2" "\<not> length body + 2 + 3 \<ge> length ?src" by (simp_all add: be32_def)
  have "concat (map byte_bits (drop 2 ?src)) = bs @ (pad @ concat (map byte_bits (be32 v)))"
    using assms(3) by simp
  then have u: "tinf_uncompress tinf_init room (drop 2 ?src) = Some (TINF_OK, res, of_nat (length res))"
    by (rule uncompress_stream [OF assms(2) _ assms(4)])
  have n: "unat (of_nat (length res) :: u32) = length res" using assms(5) by (simp add: unat_of_nat)
  have adler: "tinf_adler32 res (of_nat (length res)) = Some (of_nat (adler_sum res))"
    using adler32_sum [of res "of_nat (length res)"] by (simp add: n)
  have eq: "(of_nat v :: u32) = of_nat (adler_sum res) \<longleftrightarrow> v = adler_sum res"
    using assms(7) adler_sum_less [of res] by (simp add: word_unat_eq_iff unat_of_nat)
  show ?thesis
    unfolding tinf_zlib_uncompress_def Let_def i h a be32_value [OF assms(7)] u
    using long header_tests [OF assms(1)] by (simp add: adler eq)
qed

lemma header_789C: "zlib_header_ok 0x78 0x9C"
  unfolding zlib_header_ok_def by (simp add: bit_numeral_rec)

theorem zlib_checks_data_witness:
  "tinf_zlib_uncompress tinf_init 5 0 ([0x78, 0x9C] @ [0x4B, 0x04, 0x01, 0x00] @ be32 95683046)
     (of_nat (length [0x4B, 0x04, 0x01, 0x00::u8] + 6)) =
     Some (if 95683046 = adler_sum (replicate 5 97) then TINF_OK else TINF_DATA_ERROR,
       replicate 5 97, of_nat (length (replicate 5 (97::u8)))) \<and>
   adler_sum (replicate 5 97) = 95683046"
proof
  show "tinf_zlib_uncompress tinf_init 5 0 ([0x78, 0x9C] @ [0x4B, 0x04, 0x01, 0x00] @ be32 95683046)
     (of_nat (length [0x4B, 0x04, 0x01, 0x00::u8] + 6)) =
     Some (if 95683046 = adler_sum (replicate 5 97) then TINF_OK else TINF_DATA_ERROR,
       replicate 5 97, of_nat (length (replicate 5 (97::u8))))"
  proof (rule zlib_checks_data [OF header_789C aaaaa_stream aaaaa_source])
    show "length (replicate 5 (97 :: u8)) \<le> 5" by simp
    show "length (replicate 5 (97 :: u8)) < 2 ^ 32" by simp
    show "length [0x4B, 0x04, 0x01, 0x00 :: u8] + 6 < 2 ^ 32" by simp
    show "(95683046 :: nat) < 2 ^ 32" by simp
  qed
  have "adler_nat (replicate 5 97) (1, 0) = (486, 1460)" by (simp add: replicate_num)
  moreover have "(1 :: nat) mod 65521 = 1" "(0 :: nat) mod 65521 = 0" "(486 :: nat) mod 65521 = 486"
    "(1460 :: nat) mod 65521 = 1460" by (rule mod_less; simp)+
  ultimately have "adler_ref (replicate 5 97) (1, 0) = (486, 1460)"
    using adler_nat_mod [of "replicate 5 97" 1 0] by (simp only: Let_def prod.case)
  then show "adler_sum (replicate 5 97) = 95683046" by (simp only: adler_sum_def Let_def prod.case)
qed

text \<open>
  C10: The checksum routine, which adds up to 5552 bytes in 32-bit words, sixteen at a time, before it
  reduces its sums, agrees with the definition of the Adler checksum, which reduces both sums
  after every byte: for no data does a sum overflow in between.
\<close>

theorem adler32_exact:
  "tinf_adler32 data n =
     (if unat n \<le> length data then Some (of_nat (adler_sum (take (unat n) data))) else None)"
  by (rule adler32_sum)

end
