(* ===== verification/Ascii_Chars.thy ===== *)
theory Ascii_Chars
  imports Prelude
begin

text \<open>
  \<^verbatim>\<open>Common/Ascii\<close>: the classes of characters. A character code is an \<open>int\<close>; strings are
  strings of HOL characters, whose codes from 128 on are negative, as \<^verbatim>\<open>char\<close> is signed.
\<close>

unbundle bit_operations_syntax

definition ACP_CONTROL :: int where "ACP_CONTROL = 0x0001"
definition ACP_SPACE :: int where "ACP_SPACE = 0x0002"
definition ACP_PUNCT :: int where "ACP_PUNCT = 0x0004"
definition ACP_DIGIT :: int where "ACP_DIGIT = 0x0008"
definition ACP_HEXDIGIT :: int where "ACP_HEXDIGIT = 0x0010"
definition ACP_ALPHA :: int where "ACP_ALPHA = 0x0020"
definition ACP_LOWER :: int where "ACP_LOWER = 0x0040"
definition ACP_UPPER :: int where "ACP_UPPER = 0x0080"
definition ACP_GRAPH :: int where "ACP_GRAPH = 0x0100"
definition ACP_PRINT :: int where "ACP_PRINT = 0x0200"

lemmas acp_defs = ACP_CONTROL_def ACP_SPACE_def ACP_PUNCT_def ACP_DIGIT_def ACP_HEXDIGIT_def
  ACP_ALPHA_def ACP_LOWER_def ACP_UPPER_def ACP_GRAPH_def ACP_PRINT_def

definition CHARACTER_PROPERTIES :: "int list" where
  "CHARACTER_PROPERTIES =
     [ACP_CONTROL, ACP_CONTROL, ACP_CONTROL, ACP_CONTROL, ACP_CONTROL, ACP_CONTROL, ACP_CONTROL,
      ACP_CONTROL, ACP_CONTROL, ACP_CONTROL OR ACP_SPACE, ACP_CONTROL OR ACP_SPACE,
      ACP_CONTROL OR ACP_SPACE, ACP_CONTROL OR ACP_SPACE, ACP_CONTROL OR ACP_SPACE, ACP_CONTROL,
      ACP_CONTROL, ACP_CONTROL, ACP_CONTROL, ACP_CONTROL, ACP_CONTROL, ACP_CONTROL, ACP_CONTROL,
      ACP_CONTROL, ACP_CONTROL, ACP_CONTROL, ACP_CONTROL, ACP_CONTROL, ACP_CONTROL, ACP_CONTROL,
      ACP_CONTROL, ACP_CONTROL, ACP_CONTROL, ACP_SPACE OR ACP_PRINT,
      ACP_PUNCT OR ACP_GRAPH OR ACP_PRINT, ACP_PUNCT OR ACP_GRAPH OR ACP_PRINT,
      ACP_PUNCT OR ACP_GRAPH OR ACP_PRINT, ACP_PUNCT OR ACP_GRAPH OR ACP_PRINT,
      ACP_PUNCT OR ACP_GRAPH OR ACP_PRINT, ACP_PUNCT OR ACP_GRAPH OR ACP_PRINT,
      ACP_PUNCT OR ACP_GRAPH OR ACP_PRINT, ACP_PUNCT OR ACP_GRAPH OR ACP_PRINT,
      ACP_PUNCT OR ACP_GRAPH OR ACP_PRINT, ACP_PUNCT OR ACP_GRAPH OR ACP_PRINT,
      ACP_PUNCT OR ACP_GRAPH OR ACP_PRINT, ACP_PUNCT OR ACP_GRAPH OR ACP_PRINT,
      ACP_PUNCT OR ACP_GRAPH OR ACP_PRINT, ACP_PUNCT OR ACP_GRAPH OR ACP_PRINT,
      ACP_PUNCT OR ACP_GRAPH OR ACP_PRINT, ACP_DIGIT OR ACP_HEXDIGIT OR ACP_GRAPH OR ACP_PRINT,
      ACP_DIGIT OR ACP_HEXDIGIT OR ACP_GRAPH OR ACP_PRINT,
      ACP_DIGIT OR ACP_HEXDIGIT OR ACP_GRAPH OR ACP_PRINT,
      ACP_DIGIT OR ACP_HEXDIGIT OR ACP_GRAPH OR ACP_PRINT,
      ACP_DIGIT OR ACP_HEXDIGIT OR ACP_GRAPH OR ACP_PRINT,
      ACP_DIGIT OR ACP_HEXDIGIT OR ACP_GRAPH OR ACP_PRINT,
      ACP_DIGIT OR ACP_HEXDIGIT OR ACP_GRAPH OR ACP_PRINT,
      ACP_DIGIT OR ACP_HEXDIGIT OR ACP_GRAPH OR ACP_PRINT,
      ACP_DIGIT OR ACP_HEXDIGIT OR ACP_GRAPH OR ACP_PRINT,
      ACP_DIGIT OR ACP_HEXDIGIT OR ACP_GRAPH OR ACP_PRINT, ACP_PUNCT OR ACP_GRAPH OR ACP_PRINT,
      ACP_PUNCT OR ACP_GRAPH OR ACP_PRINT, ACP_PUNCT OR ACP_GRAPH OR ACP_PRINT,
      ACP_PUNCT OR ACP_GRAPH OR ACP_PRINT, ACP_PUNCT OR ACP_GRAPH OR ACP_PRINT,
      ACP_PUNCT OR ACP_GRAPH OR ACP_PRINT, ACP_PUNCT OR ACP_GRAPH OR ACP_PRINT,
      ACP_HEXDIGIT OR ACP_ALPHA OR ACP_UPPER OR ACP_GRAPH OR ACP_PRINT,
      ACP_HEXDIGIT OR ACP_ALPHA OR ACP_UPPER OR ACP_GRAPH OR ACP_PRINT,
      ACP_HEXDIGIT OR ACP_ALPHA OR ACP_UPPER OR ACP_GRAPH OR ACP_PRINT,
      ACP_HEXDIGIT OR ACP_ALPHA OR ACP_UPPER OR ACP_GRAPH OR ACP_PRINT,
      ACP_HEXDIGIT OR ACP_ALPHA OR ACP_UPPER OR ACP_GRAPH OR ACP_PRINT,
      ACP_HEXDIGIT OR ACP_ALPHA OR ACP_UPPER OR ACP_GRAPH OR ACP_PRINT,
      ACP_ALPHA OR ACP_UPPER OR ACP_GRAPH OR ACP_PRINT,
      ACP_ALPHA OR ACP_UPPER OR ACP_GRAPH OR ACP_PRINT,
      ACP_ALPHA OR ACP_UPPER OR ACP_GRAPH OR ACP_PRINT,
      ACP_ALPHA OR ACP_UPPER OR ACP_GRAPH OR ACP_PRINT,
      ACP_ALPHA OR ACP_UPPER OR ACP_GRAPH OR ACP_PRINT,
      ACP_ALPHA OR ACP_UPPER OR ACP_GRAPH OR ACP_PRINT,
      ACP_ALPHA OR ACP_UPPER OR ACP_GRAPH OR ACP_PRINT,
      ACP_ALPHA OR ACP_UPPER OR ACP_GRAPH OR ACP_PRINT,
      ACP_ALPHA OR ACP_UPPER OR ACP_GRAPH OR ACP_PRINT,
      ACP_ALPHA OR ACP_UPPER OR ACP_GRAPH OR ACP_PRINT,
      ACP_ALPHA OR ACP_UPPER OR ACP_GRAPH OR ACP_PRINT,
      ACP_ALPHA OR ACP_UPPER OR ACP_GRAPH OR ACP_PRINT,
      ACP_ALPHA OR ACP_UPPER OR ACP_GRAPH OR ACP_PRINT,
      ACP_ALPHA OR ACP_UPPER OR ACP_GRAPH OR ACP_PRINT,
      ACP_ALPHA OR ACP_UPPER OR ACP_GRAPH OR ACP_PRINT,
      ACP_ALPHA OR ACP_UPPER OR ACP_GRAPH OR ACP_PRINT,
      ACP_ALPHA OR ACP_UPPER OR ACP_GRAPH OR ACP_PRINT,
      ACP_ALPHA OR ACP_UPPER OR ACP_GRAPH OR ACP_PRINT,
      ACP_ALPHA OR ACP_UPPER OR ACP_GRAPH OR ACP_PRINT,
      ACP_ALPHA OR ACP_UPPER OR ACP_GRAPH OR ACP_PRINT, ACP_PUNCT OR ACP_GRAPH OR ACP_PRINT,
      ACP_PUNCT OR ACP_GRAPH OR ACP_PRINT, ACP_PUNCT OR ACP_GRAPH OR ACP_PRINT,
      ACP_PUNCT OR ACP_GRAPH OR ACP_PRINT, ACP_PUNCT OR ACP_GRAPH OR ACP_PRINT,
      ACP_PUNCT OR ACP_GRAPH OR ACP_PRINT,
      ACP_HEXDIGIT OR ACP_ALPHA OR ACP_LOWER OR ACP_GRAPH OR ACP_PRINT,
      ACP_HEXDIGIT OR ACP_ALPHA OR ACP_LOWER OR ACP_GRAPH OR ACP_PRINT,
      ACP_HEXDIGIT OR ACP_ALPHA OR ACP_LOWER OR ACP_GRAPH OR ACP_PRINT,
      ACP_HEXDIGIT OR ACP_ALPHA OR ACP_LOWER OR ACP_GRAPH OR ACP_PRINT,
      ACP_HEXDIGIT OR ACP_ALPHA OR ACP_LOWER OR ACP_GRAPH OR ACP_PRINT,
      ACP_HEXDIGIT OR ACP_ALPHA OR ACP_LOWER OR ACP_GRAPH OR ACP_PRINT,
      ACP_ALPHA OR ACP_LOWER OR ACP_GRAPH OR ACP_PRINT,
      ACP_ALPHA OR ACP_LOWER OR ACP_GRAPH OR ACP_PRINT,
      ACP_ALPHA OR ACP_LOWER OR ACP_GRAPH OR ACP_PRINT,
      ACP_ALPHA OR ACP_LOWER OR ACP_GRAPH OR ACP_PRINT,
      ACP_ALPHA OR ACP_LOWER OR ACP_GRAPH OR ACP_PRINT,
      ACP_ALPHA OR ACP_LOWER OR ACP_GRAPH OR ACP_PRINT,
      ACP_ALPHA OR ACP_LOWER OR ACP_GRAPH OR ACP_PRINT,
      ACP_ALPHA OR ACP_LOWER OR ACP_GRAPH OR ACP_PRINT,
      ACP_ALPHA OR ACP_LOWER OR ACP_GRAPH OR ACP_PRINT,
      ACP_ALPHA OR ACP_LOWER OR ACP_GRAPH OR ACP_PRINT,
      ACP_ALPHA OR ACP_LOWER OR ACP_GRAPH OR ACP_PRINT,
      ACP_ALPHA OR ACP_LOWER OR ACP_GRAPH OR ACP_PRINT,
      ACP_ALPHA OR ACP_LOWER OR ACP_GRAPH OR ACP_PRINT,
      ACP_ALPHA OR ACP_LOWER OR ACP_GRAPH OR ACP_PRINT,
      ACP_ALPHA OR ACP_LOWER OR ACP_GRAPH OR ACP_PRINT,
      ACP_ALPHA OR ACP_LOWER OR ACP_GRAPH OR ACP_PRINT,
      ACP_ALPHA OR ACP_LOWER OR ACP_GRAPH OR ACP_PRINT,
      ACP_ALPHA OR ACP_LOWER OR ACP_GRAPH OR ACP_PRINT,
      ACP_ALPHA OR ACP_LOWER OR ACP_GRAPH OR ACP_PRINT,
      ACP_ALPHA OR ACP_LOWER OR ACP_GRAPH OR ACP_PRINT, ACP_PUNCT OR ACP_GRAPH OR ACP_PRINT,
      ACP_PUNCT OR ACP_GRAPH OR ACP_PRINT, ACP_PUNCT OR ACP_GRAPH OR ACP_PRINT,
      ACP_PUNCT OR ACP_GRAPH OR ACP_PRINT, ACP_CONTROL]"

definition isAscii :: "int \<Rightarrow> bool" where
  "isAscii ch \<longleftrightarrow> (of_int ch :: u32) AND 0xFFFFFF80 = 0"

definition properties :: "int \<Rightarrow> int" where
  "properties ch = (if isAscii ch then CHARACTER_PROPERTIES ! nat ch else 0)"

definition hasProperties :: "int \<Rightarrow> int \<Rightarrow> bool" where
  "hasProperties ch props \<longleftrightarrow> properties ch AND props = props"

definition hasSomeProperties :: "int \<Rightarrow> int \<Rightarrow> bool" where
  "hasSomeProperties ch props \<longleftrightarrow> properties ch AND props \<noteq> 0"

definition isSpace :: "int \<Rightarrow> bool" where "isSpace ch = hasProperties ch ACP_SPACE"
definition isDigit :: "int \<Rightarrow> bool" where "isDigit ch = hasProperties ch ACP_DIGIT"
definition isHexDigit :: "int \<Rightarrow> bool" where "isHexDigit ch = hasProperties ch ACP_HEXDIGIT"
definition isPunct :: "int \<Rightarrow> bool" where "isPunct ch = hasProperties ch ACP_PUNCT"
definition isAlpha :: "int \<Rightarrow> bool" where "isAlpha ch = hasProperties ch ACP_ALPHA"
definition isAlphaNumeric :: "int \<Rightarrow> bool" where
  "isAlphaNumeric ch = hasSomeProperties ch (ACP_ALPHA OR ACP_DIGIT)"
definition isLower :: "int \<Rightarrow> bool" where "isLower ch = hasProperties ch ACP_LOWER"
definition isUpper :: "int \<Rightarrow> bool" where "isUpper ch = hasProperties ch ACP_UPPER"

definition toLower :: "int \<Rightarrow> int" where
  "toLower ch = (if isUpper ch then ch + 32 else ch)"

definition toUpper :: "int \<Rightarrow> int" where
  "toUpper ch = (if isLower ch then ch - 32 else ch)"

section \<open>The table and the ranges\<close>

text \<open>The classes as ranges of character codes.\<close>

definition class_bits :: "int \<Rightarrow> int" where
  "class_bits c =
     (if c < 32 \<or> c = 127 then ACP_CONTROL else ACP_PRINT) OR
     (if 9 \<le> c \<and> c \<le> 13 \<or> c = 32 then ACP_SPACE else 0) OR
     (if 48 \<le> c \<and> c \<le> 57 then ACP_DIGIT OR ACP_HEXDIGIT else 0) OR
     (if 65 \<le> c \<and> c \<le> 90 then ACP_ALPHA OR ACP_UPPER else 0) OR
     (if 97 \<le> c \<and> c \<le> 122 then ACP_ALPHA OR ACP_LOWER else 0) OR
     (if 65 \<le> c \<and> c \<le> 70 \<or> 97 \<le> c \<and> c \<le> 102 then ACP_HEXDIGIT else 0) OR
     (if 33 \<le> c \<and> c \<le> 47 \<or> 58 \<le> c \<and> c \<le> 64 \<or> 91 \<le> c \<and> c \<le> 96 \<or> 123 \<le> c \<and> c \<le> 126
      then ACP_PUNCT else 0) OR
     (if 33 \<le> c \<and> c \<le> 126 then ACP_GRAPH else 0)"

lemma table_ranges: "CHARACTER_PROPERTIES = map class_bits [0..127]"
  by code_simp

lemma and_high_bits: "(w :: u32) AND 0xFFFFFF80 = 0 \<longleftrightarrow> uint w < 128"
proof -
  have m: "(0xFFFFFF80 :: u32) = NOT (mask 7)" by (simp add: mask_eq_exp_minus_1 not_eq_complement)
  have "w AND NOT (mask 7) = 0 \<longleftrightarrow> take_bit 7 w = w"
    by (auto simp: bit_eq_iff bit_simps)
  also have "\<dots> \<longleftrightarrow> unat w mod 128 = unat w"
    by (simp only: word_unat_eq_iff unat_take_bit_mod) simp
  also have "\<dots> \<longleftrightarrow> unat w < 128"
    by (metis mod_less mod_less_divisor zero_less_numeral)
  finally show ?thesis unfolding m by (simp only: uint_nat of_nat_less_numeral_iff)
qed

lemma isAscii_range:
  assumes "- (2 ^ 31) \<le> ch" "ch < 2 ^ 31"
  shows "isAscii ch \<longleftrightarrow> 0 \<le> ch \<and> ch < 128"
proof -
  have u: "uint (of_int ch :: u32) = ch mod 4294967296"
    by (simp only: unsigned_of_int take_bit_eq_mod [where 'a = int]) simp
  show ?thesis
  proof (cases "0 \<le> ch")
    case True
    then show ?thesis using assms by (simp add: isAscii_def and_high_bits u)
  next
    case False
    then have "(ch + 4294967296) mod 4294967296 = ch + 4294967296"
      using assms by (intro mod_pos_pos_trivial) auto
    then have "ch mod 4294967296 = ch + 4294967296" by simp
    then show ?thesis using False assms by (simp add: isAscii_def and_high_bits u)
  qed
qed

text \<open>The code of a character, as \<^verbatim>\<open>char\<close> is signed.\<close>

definition code_of :: "char \<Rightarrow> int" where
  "code_of c = (let n = of_char c :: int in if n \<ge> 128 then n - 256 else n)"

definition char_at :: "int \<Rightarrow> char" where
  "char_at n = char_of (n mod 256)"

lemma char_at_code [simp]: "char_at (code_of c) = c"
proof -
  have "char_of (of_char c - 256 :: int) = c"
    by (metis char_of_mod_256 char_of_char minus_mod_self2)
  then show ?thesis by (simp add: char_at_def code_of_def Let_def)
qed

definition int_range :: "int \<Rightarrow> bool" where
  "int_range ch \<longleftrightarrow> - (2 ^ 31) \<le> ch \<and> ch < 2 ^ 31"

lemma properties_class:
  assumes "int_range ch"
  shows "properties ch = (if 0 \<le> ch \<and> ch < 128 then class_bits ch else 0)"
proof (cases "0 \<le> ch \<and> ch < 128")
  case True
  then have "map class_bits [0..127] ! nat ch = class_bits ch"
    using nth_upto [of 0 "nat ch" 127] by (subst nth_map) auto
  then show ?thesis using True assms
    by (simp add: properties_def isAscii_range int_range_def table_ranges)
next
  case False
  then show ?thesis using assms by (auto simp: properties_def isAscii_range int_range_def)
qed

lemma bits_apart:
  "bit (class_bits c) 0 \<longleftrightarrow> c < 32 \<or> c = 127"
  "bit (class_bits c) 1 \<longleftrightarrow> 9 \<le> c \<and> c \<le> 13 \<or> c = 32"
  "bit (class_bits c) 2 \<longleftrightarrow>
     33 \<le> c \<and> c \<le> 47 \<or> 58 \<le> c \<and> c \<le> 64 \<or> 91 \<le> c \<and> c \<le> 96 \<or> 123 \<le> c \<and> c \<le> 126"
  "bit (class_bits c) 3 \<longleftrightarrow> 48 \<le> c \<and> c \<le> 57"
  "bit (class_bits c) 4 \<longleftrightarrow> 48 \<le> c \<and> c \<le> 57 \<or> 65 \<le> c \<and> c \<le> 70 \<or> 97 \<le> c \<and> c \<le> 102"
  "bit (class_bits c) 5 \<longleftrightarrow> 65 \<le> c \<and> c \<le> 90 \<or> 97 \<le> c \<and> c \<le> 122"
  "bit (class_bits c) 6 \<longleftrightarrow> 97 \<le> c \<and> c \<le> 122"
  "bit (class_bits c) 7 \<longleftrightarrow> 65 \<le> c \<and> c \<le> 90"
  by (simp_all add: class_bits_def acp_defs bit_or_iff bit_numeral_rec if_distrib [of "\<lambda>x. bit x n" for n] cong: if_cong)

lemma and_exp_eq_exp: "(x AND 2 ^ n = 2 ^ n) \<longleftrightarrow> bit (x :: int) n"
proof
  assume "x AND 2 ^ n = 2 ^ n"
  then show "bit x n" using and_exp_eq_0_iff_not_bit [of x n] by auto
next
  assume b: "bit x n"
  show "x AND 2 ^ n = 2 ^ n"
    by (rule bit_eqI) (use b in \<open>auto simp: bit_simps\<close>)
qed

lemma has_bit:
  assumes "int_range ch"
  shows "hasProperties ch (2 ^ n) \<longleftrightarrow> 0 \<le> ch \<and> ch < 128 \<and> bit (class_bits ch) n"
  unfolding hasProperties_def and_exp_eq_exp properties_class [OF assms] by auto

lemma ascii_class:
  assumes "int_range ch"
  shows "isSpace ch \<longleftrightarrow> 9 \<le> ch \<and> ch \<le> 13 \<or> ch = 32"
    and "isDigit ch \<longleftrightarrow> 48 \<le> ch \<and> ch \<le> 57"
    and "isHexDigit ch \<longleftrightarrow> 48 \<le> ch \<and> ch \<le> 57 \<or> 65 \<le> ch \<and> ch \<le> 70 \<or> 97 \<le> ch \<and> ch \<le> 102"
    and "isPunct ch \<longleftrightarrow> 33 \<le> ch \<and> ch \<le> 47 \<or> 58 \<le> ch \<and> ch \<le> 64 \<or> 91 \<le> ch \<and> ch \<le> 96 \<or>
      123 \<le> ch \<and> ch \<le> 126"
    and "isAlpha ch \<longleftrightarrow> 65 \<le> ch \<and> ch \<le> 90 \<or> 97 \<le> ch \<and> ch \<le> 122"
    and "isLower ch \<longleftrightarrow> 97 \<le> ch \<and> ch \<le> 122"
    and "isUpper ch \<longleftrightarrow> 65 \<le> ch \<and> ch \<le> 90"
proof -
  note h = has_bit [OF assms]
  show "isSpace ch \<longleftrightarrow> 9 \<le> ch \<and> ch \<le> 13 \<or> ch = 32"
    using h [of 1] bits_apart(2) by (auto simp: isSpace_def acp_defs simp del: One_nat_def)
  show "isDigit ch \<longleftrightarrow> 48 \<le> ch \<and> ch \<le> 57"
    using h [of 3] by (auto simp: isDigit_def acp_defs bits_apart)
  show "isHexDigit ch \<longleftrightarrow> 48 \<le> ch \<and> ch \<le> 57 \<or> 65 \<le> ch \<and> ch \<le> 70 \<or> 97 \<le> ch \<and> ch \<le> 102"
    using h [of 4] by (auto simp: isHexDigit_def acp_defs bits_apart)
  show "isPunct ch \<longleftrightarrow> 33 \<le> ch \<and> ch \<le> 47 \<or> 58 \<le> ch \<and> ch \<le> 64 \<or> 91 \<le> ch \<and> ch \<le> 96 \<or>
      123 \<le> ch \<and> ch \<le> 126"
    using h [of 2] by (auto simp: isPunct_def acp_defs bits_apart)
  show "isAlpha ch \<longleftrightarrow> 65 \<le> ch \<and> ch \<le> 90 \<or> 97 \<le> ch \<and> ch \<le> 122"
    using h [of 5] by (auto simp: isAlpha_def acp_defs bits_apart)
  show "isLower ch \<longleftrightarrow> 97 \<le> ch \<and> ch \<le> 122"
    using h [of 6] by (auto simp: isLower_def acp_defs bits_apart)
  show "isUpper ch \<longleftrightarrow> 65 \<le> ch \<and> ch \<le> 90"
    using h [of 7] by (auto simp: isUpper_def acp_defs bits_apart)
qed

lemma isAlphaNumeric_class:
  assumes "int_range ch"
  shows "isAlphaNumeric ch \<longleftrightarrow> isAlpha ch \<or> isDigit ch"
proof -
  have "(p AND (2 ^ 5 OR 2 ^ 3) \<noteq> 0) \<longleftrightarrow> p AND 2 ^ 5 = 2 ^ 5 \<or> p AND 2 ^ 3 = 2 ^ 3" for p :: int
    unfolding and_exp_eq_exp bit.conj_disj_distrib or_eq_0_iff and_exp_eq_0_iff_not_bit by blast
  from this [of "properties ch"] show ?thesis
    by (simp add: isAlphaNumeric_def hasSomeProperties_def isAlpha_def isDigit_def hasProperties_def acp_defs)
qed

text \<open>Every byte of a string is a code the classes are defined for.\<close>

lemma code_range: "- 128 \<le> code_of c \<and> code_of c < 128"
proof -
  have "0 \<le> (of_char c :: int)" "(of_char c :: int) < 256" by (auto simp: of_char_def split: char.splits)
  then show ?thesis by (auto simp: code_of_def Let_def)
qed

lemma code_int_range [simp]: "int_range (code_of c)"
  using code_range [of c] by (simp add: int_range_def)

abbreviation isSpaceChar :: "char \<Rightarrow> bool" where
  "isSpaceChar c \<equiv> isSpace (code_of c)"

text \<open>
  The table of character properties, read through the bit masks of the classification functions,
  gives exactly the ASCII classes as ranges of codes, for every value of an int, negative and
  non-ASCII ones included; case conversion moves exactly the letters, by 32.
\<close>

theorem ascii_classes_exact:
  assumes "int_range ch"
  shows "(isSpace ch \<longleftrightarrow> 9 \<le> ch \<and> ch \<le> 13 \<or> ch = 32) \<and>
    (isDigit ch \<longleftrightarrow> 48 \<le> ch \<and> ch \<le> 57) \<and>
    (isHexDigit ch \<longleftrightarrow> 48 \<le> ch \<and> ch \<le> 57 \<or> 65 \<le> ch \<and> ch \<le> 70 \<or> 97 \<le> ch \<and> ch \<le> 102) \<and>
    (isPunct ch \<longleftrightarrow> 33 \<le> ch \<and> ch \<le> 126 \<and> \<not> isAlphaNumeric ch) \<and>
    (isAlpha ch \<longleftrightarrow> isLower ch \<or> isUpper ch) \<and>
    (isLower ch \<longleftrightarrow> 97 \<le> ch \<and> ch \<le> 122) \<and> (isUpper ch \<longleftrightarrow> 65 \<le> ch \<and> ch \<le> 90) \<and>
    toLower ch = (if 65 \<le> ch \<and> ch \<le> 90 then ch + 32 else ch) \<and>
    toUpper ch = (if 97 \<le> ch \<and> ch \<le> 122 then ch - 32 else ch)"
  unfolding isAlphaNumeric_class [OF assms] ascii_class [OF assms] toLower_def toUpper_def
  by auto

theorem ascii_classes_exact_witness: "isSpace 9 \<and> \<not> isSpace (- 1) \<and> toUpper 97 = 65"
  using ascii_classes_exact [of 9] ascii_classes_exact [of "- 1"] ascii_classes_exact [of 97]
  by (simp add: int_range_def)

end
