(* ===== verification/String_Tok.thy ===== *)
theory String_Tok
  imports Ascii_Chars
begin

text \<open>
  \<^verbatim>\<open>Common/StringTokenizer\<close>: splitting a string at separator characters. The iterators are
  the rest of the string; \<open>it3\<close>, which moves back over trailing white space, is an index
  into the token.
\<close>

definition TOK_IGNORE_EMPTY :: int where "TOK_IGNORE_EMPTY = 1"
definition TOK_TRIM :: int where "TOK_TRIM = 2"

definition opt_trim :: "int \<Rightarrow> bool" where
  "opt_trim options \<longleftrightarrow> options AND TOK_TRIM \<noteq> 0"

definition opt_ignore :: "int \<Rightarrow> bool" where
  "opt_ignore options \<longleftrightarrow> options AND TOK_IGNORE_EMPTY \<noteq> 0"

text \<open>The end of the token, with \<open>it3\<close> at the given index.\<close>

fun back_over :: "string \<Rightarrow> nat \<Rightarrow> nat" where
  "back_over tok 0 = (if isSpaceChar (tok ! 0) then 0 else 1)"
| "back_over tok (Suc i) =
     (if isSpaceChar (tok ! Suc i) then back_over tok i else Suc (Suc i))"

definition trim_end :: "int \<Rightarrow> string \<Rightarrow> string" where
  "trim_end options tok =
     (if tok \<noteq> [] \<and> opt_trim options then take (back_over tok (length tok - 1)) tok else tok)"

function tokens_loop :: "string \<Rightarrow> int \<Rightarrow> string \<Rightarrow> string list" where
  "tokens_loop separators options it1 =
     (if it1 = [] then []
      else
        (let it1' = (if opt_trim options then dropWhile isSpaceChar it1 else it1);
             tok = takeWhile (\<lambda>c. c \<notin> set separators) it1';
             it2 = dropWhile (\<lambda>c. c \<notin> set separators) it1';
             t = trim_end options tok;
             more = tokens_loop separators options (if it2 = [] then [] else tl it2)
         in if opt_ignore options then (if t \<noteq> [] then t # more else more) else t # more))"
  by pat_completeness auto
termination
proof (relation "measure (\<lambda>(separators, options, it1). length it1)")
  fix separators options and it1 x xa xb
  assume x: "it1 \<noteq> []" "x = (if opt_trim options then dropWhile isSpaceChar it1 else it1)"
    "xb = dropWhile (\<lambda>c. c \<notin> set separators) x"
  have "length xb \<le> length it1"
    unfolding x(2,3) by (auto intro: le_trans [OF length_dropWhile_le] length_dropWhile_le)
  then show "((separators, options, if xb = [] then [] else tl xb), separators, options, it1)
      \<in> measure (\<lambda>(separators, options, it1). length it1)"
    using x(1) by (cases xb) auto
qed simp

declare tokens_loop.simps [simp del]

definition StringTokenizer :: "string \<Rightarrow> string \<Rightarrow> int \<Rightarrow> string list" where
  "StringTokenizer str separators options = tokens_loop separators options str"

text \<open>\<^verbatim>\<open>operator []\<close> throws a range exception, here \<open>None\<close>.\<close>

definition token_at :: "string list \<Rightarrow> nat \<Rightarrow> string option" where
  "token_at toks index = (if index \<ge> length toks then None else Some (toks ! index))"

definition token_count :: "string list \<Rightarrow> nat" where
  "token_count toks = length toks"

section \<open>What the tokens are\<close>

text \<open>The fields between separators; an empty field at the very end does not count.\<close>

function fields :: "char set \<Rightarrow> string \<Rightarrow> string list" where
  "fields S s =
     (if s = [] then []
      else takeWhile (\<lambda>c. c \<notin> S) s # fields S (tl (dropWhile (\<lambda>c. c \<notin> S) s)))"
  by pat_completeness auto
termination
proof (relation "measure (\<lambda>(S, s). length s)")
  fix S and s :: string assume "s \<noteq> []"
  then have "0 < length s" by simp
  moreover have "length (dropWhile (\<lambda>c. c \<notin> S) s) \<le> length s" by (rule length_dropWhile_le)
  ultimately show "((S, tl (dropWhile (\<lambda>c. c \<notin> S) s)), S, s) \<in> measure (\<lambda>(S, s). length s)"
    by (simp only: in_measure prod.case length_tl)
qed simp

declare fields.simps [simp del]

definition trimmed :: "string \<Rightarrow> string" where
  "trimmed s = rev (dropWhile isSpaceChar (rev (dropWhile isSpaceChar s)))"

lemma back_over_trims:
  "i < length tok \<Longrightarrow>
   take (back_over tok i) tok = rev (dropWhile isSpaceChar (rev (take (Suc i) tok)))"
proof (induction i)
  case 0
  then show ?case by (cases tok) auto
next
  case (Suc i)
  have "rev (take (Suc (Suc i)) tok) = tok ! Suc i # rev (take (Suc i) tok)"
    using Suc.prems by (subst take_Suc_conv_app_nth) auto
  then show ?case using Suc by (auto simp: take_Suc_conv_app_nth)
qed

lemma trim_end_rev:
  "opt_trim options \<Longrightarrow> trim_end options tok = rev (dropWhile isSpaceChar (rev tok))"
  using back_over_trims [of "length tok - 1" tok] by (cases "tok = []") (auto simp: trim_end_def)

lemma takeWhile_dropWhile_space:
  "\<forall>c\<in>S. \<not> isSpaceChar c \<Longrightarrow>
   takeWhile (\<lambda>c. c \<notin> S) (dropWhile isSpaceChar s) = dropWhile isSpaceChar (takeWhile (\<lambda>c. c \<notin> S) s) \<and>
   dropWhile (\<lambda>c. c \<notin> S) (dropWhile isSpaceChar s) = dropWhile (\<lambda>c. c \<notin> S) s"
  by (induction s) auto

lemma tokens_loop_fields:
  assumes "opt_trim options \<Longrightarrow> \<forall>c\<in>set seps. \<not> isSpaceChar c"
  shows "tokens_loop seps options s =
    (let ts = map (if opt_trim options then trimmed else (\<lambda>t. t)) (fields (set seps) s)
     in if opt_ignore options then filter (\<lambda>t. t \<noteq> []) ts else ts)"
proof (induction s rule: length_induct)
  case (1 s)
  show ?case
  proof (cases "s = []")
    case True
    then show ?thesis by (simp add: tokens_loop.simps fields.simps)
  next
    case False
    let ?S = "set seps"
    let ?r = "tl (dropWhile (\<lambda>c. c \<notin> ?S) s)" and ?f = "takeWhile (\<lambda>c. c \<notin> ?S) s"
    have "length ?r < length s"
      using length_dropWhile_le [of "\<lambda>c. c \<notin> ?S" s] False by (cases s) auto
    note IH = 1 [rule_format, OF this]
    let ?s = "if opt_trim options then dropWhile isSpaceChar s else s"
    have d: "dropWhile (\<lambda>c. c \<notin> ?S) ?s = dropWhile (\<lambda>c. c \<notin> ?S) s"
      and t: "trim_end options (takeWhile (\<lambda>c. c \<notin> ?S) ?s) =
        (if opt_trim options then trimmed ?f else ?f)"
      using takeWhile_dropWhile_space [OF assms]
      by (auto simp: trim_end_rev trimmed_def) (simp_all add: trim_end_def)
    have r: "(if x = [] then [] else tl x) = tl x" for x :: string by simp
    have s: "tokens_loop seps options s =
      (let t = trim_end options (takeWhile (\<lambda>c. c \<notin> ?S) ?s); more = tokens_loop seps options ?r
       in if opt_ignore options then (if t \<noteq> [] then t # more else more) else t # more)"
      by (subst tokens_loop.simps) (simp only: Let_def d r False if_False)
    show ?thesis
      unfolding s t IH by (subst (2) fields.simps) (simp add: False Let_def)
  qed
qed

fun join :: "char \<Rightarrow> string list \<Rightarrow> string" where
  "join c [] = []"
| "join c [x] = x"
| "join c (x # y # xs) = x @ c # join c (y # xs)"

lemma fields_join:
  "\<lbrakk>\<forall>x\<in>set xs. set x \<inter> S = {}; c \<in> S; xs \<noteq> [] \<Longrightarrow> last xs \<noteq> []\<rbrakk> \<Longrightarrow> fields S (join c xs) = xs"
proof (induction c xs rule: join.induct)
  case (2 c x)
  then have "takeWhile (\<lambda>c. c \<notin> S) x = x" "dropWhile (\<lambda>c. c \<notin> S) x = []"
    by auto
  then show ?case using 2
    by (subst join.simps, subst fields.simps)
      (simp add: fields.simps [of S "[]"] del: takeWhile_eq_all_conv dropWhile_eq_Nil_conv)
next
  case (3 c x y xs)
  have "takeWhile (\<lambda>c. c \<notin> S) (x @ c # zs) = x" "dropWhile (\<lambda>c. c \<notin> S) (x @ c # zs) = c # zs" for zs
    using 3(2,3) by (auto simp: takeWhile_append dropWhile_append)
  then show ?case using 3 by (subst fields.simps) auto
qed (simp add: fields.simps)

text \<open>
  The tokens are the fields between the separators, trimmed and without the empty ones as the
  options say, unless white space separates and is trimmed at once; and splitting undoes
  joining: fields without separators and without outer white space, the last one not empty,
  joined by a separator, are found again.
\<close>

theorem tokenizer_splits:
  assumes "opt_trim options \<Longrightarrow> \<forall>c\<in>set seps. \<not> isSpaceChar c"
    and "\<forall>x\<in>set xs. x \<noteq> [] \<and> set x \<inter> set seps = {} \<and> trimmed x = x" and "c \<in> set seps"
  shows "StringTokenizer s seps options =
      (let ts = map (if opt_trim options then trimmed else (\<lambda>t. t)) (fields (set seps) s)
       in if opt_ignore options then filter (\<lambda>t. t \<noteq> []) ts else ts) \<and>
    StringTokenizer (join c xs) seps options = xs"
proof
  show 1: "StringTokenizer s seps options =
      (let ts = map (if opt_trim options then trimmed else (\<lambda>t. t)) (fields (set seps) s)
       in if opt_ignore options then filter (\<lambda>t. t \<noteq> []) ts else ts)" for s
    unfolding StringTokenizer_def by (rule tokens_loop_fields [OF assms(1)])
  have f: "fields (set seps) (join c xs) = xs"
    by (rule fields_join) (use assms(2,3) last_in_set in auto)
  have "map trimmed xs = xs" "filter (\<lambda>t. t \<noteq> []) xs = xs"
    using assms(2) by (auto intro: map_idI simp: filter_id_conv)
  then show "StringTokenizer (join c xs) seps options = xs"
    unfolding 1 f by simp
qed

theorem tokenizer_splits_witness:
  "StringTokenizer (join CHR '':'' [''a'', ''b'']) '':'' 3 = [''a'', ''b'']"
proof -
  have s: "isSpaceChar CHR '':'' = False" "isSpaceChar CHR ''a'' = False" "isSpaceChar CHR ''b'' = False"
    by (simp_all add: ascii_class code_of_def int_range_def)
  show ?thesis
    by (rule conjunct2 [OF tokenizer_splits [of 3 "'':''" "[''a'', ''b'']" "CHR '':''"]])
      (simp_all add: s trimmed_def)
qed

end
