(* ===== verification/Path_Names.thy ===== *)
theory Path_Names
  imports String_Tok
begin

text \<open>
  \<^verbatim>\<open>Common/Path.cpp\<close>, \<^verbatim>\<open>Path_UNIX.cpp\<close>: path names in the syntax of Unix, Windows and OpenVMS, as
  built for Unix. The home directory, the working directory, the environment and the
  existence of files are parameters.
\<close>

section \<open>Data\<close>

record path =
  p_node :: string
  p_device :: string
  p_name :: string
  p_version :: string
  p_dirs :: "string list"
  p_absolute :: bool

datatype style = PATH_UNIX | PATH_WINDOWS | PATH_VMS | PATH_NATIVE | PATH_GUESS

datatype path_error = PathSyntaxException string | SystemException string

type_synonym 'a path_result = "path_error + 'a"

definition empty_path :: path where
  "empty_path = \<lparr>p_node = [], p_device = [], p_name = [], p_version = [], p_dirs = [], p_absolute = False\<rparr>"

definition Path_absolute :: "bool \<Rightarrow> path" where
  "Path_absolute a = empty_path\<lparr>p_absolute := a\<rparr>"

definition path_clear :: "path \<Rightarrow> path" where
  "path_clear p = p\<lparr>p_node := [], p_device := [], p_name := [], p_dirs := [], p_version := [],
     p_absolute := False\<rparr>"

lemma path_clear_empty [simp]: "path_clear p = empty_path"
  by (simp add: path_clear_def empty_path_def)

abbreviation slash :: char where "slash \<equiv> CHR ''/''"
abbreviation backslash :: char where "backslash \<equiv> CHR 0x5C"
abbreviation colon :: char where "colon \<equiv> CHR '':''"
abbreviation dot :: char where "dot \<equiv> CHR ''.''"

section \<open>Directories and names\<close>

definition pushDirectory :: "string \<Rightarrow> path \<Rightarrow> path" where
  "pushDirectory dir p =
     (if dir \<noteq> [] \<and> dir \<noteq> ''.'' then
        (if dir = ''..'' then
           (if p_dirs p \<noteq> [] \<and> last (p_dirs p) \<noteq> ''..'' then p\<lparr>p_dirs := butlast (p_dirs p)\<rparr>
            else if \<not> p_absolute p then p\<lparr>p_dirs := p_dirs p @ [dir]\<rparr>
            else p)
         else p\<lparr>p_dirs := p_dirs p @ [dir]\<rparr>)
      else p)"

definition popDirectory :: "path \<Rightarrow> path option" where
  "popDirectory p = (if p_dirs p = [] then None else Some (p\<lparr>p_dirs := butlast (p_dirs p)\<rparr>))"

definition path_depth :: "path \<Rightarrow> nat" where
  "path_depth p = length (p_dirs p)"

definition path_directory :: "int \<Rightarrow> path \<Rightarrow> string option" where
  "path_directory n p =
     (if \<not> (0 \<le> n \<and> n \<le> int (length (p_dirs p))) then None
      else if n < int (length (p_dirs p)) then Some (p_dirs p ! nat n)
      else Some (p_name p))"

definition makeDirectory :: "path \<Rightarrow> path" where
  "makeDirectory p = (pushDirectory (p_name p) p)\<lparr>p_name := [], p_version := []\<rparr>"

definition makeFile :: "path \<Rightarrow> path" where
  "makeFile p =
     (if p_dirs p \<noteq> [] \<and> p_name p = [] then p\<lparr>p_name := last (p_dirs p), p_dirs := butlast (p_dirs p)\<rparr>
      else p)"

definition makeAbsolute :: "path \<Rightarrow> path \<Rightarrow> path" where
  "makeAbsolute base p =
     (if \<not> p_absolute p then
        (let tmp = fold pushDirectory (p_dirs p) (makeDirectory base)
         in p\<lparr>p_node := p_node tmp, p_device := p_device tmp, p_dirs := p_dirs tmp,
              p_absolute := p_absolute base\<rparr>)
      else p)"

definition path_absolute_of :: "path \<Rightarrow> path \<Rightarrow> path" where
  "path_absolute_of base p = (if \<not> p_absolute p then makeAbsolute base p else p)"

definition makeParent :: "path \<Rightarrow> path" where
  "makeParent p =
     (if p_name p = [] then
        (if p_dirs p = [] then (if \<not> p_absolute p then p\<lparr>p_dirs := [''..'']\<rparr> else p)
         else if last (p_dirs p) = ''..'' then p\<lparr>p_dirs := p_dirs p @ [''..'']\<rparr>
         else p\<lparr>p_dirs := butlast (p_dirs p)\<rparr>)
      else p\<lparr>p_name := [], p_version := []\<rparr>)"

definition path_append :: "path \<Rightarrow> path \<Rightarrow> path" where
  "path_append q p =
     (let p1 = makeDirectory p
      in p1\<lparr>p_dirs := p_dirs p1 @ p_dirs q, p_name := p_name q, p_version := p_version q\<rparr>)"

text \<open>The argument is another object than the path itself.\<close>

definition path_resolve :: "path \<Rightarrow> path \<Rightarrow> path" where
  "path_resolve q p =
     (if p_absolute q then q else (fold pushDirectory (p_dirs q) p)\<lparr>p_name := p_name q\<rparr>)"

definition Path_file :: "path \<Rightarrow> string \<Rightarrow> path" where
  "Path_file par fileName = (makeDirectory par)\<lparr>p_name := fileName\<rparr>"

definition Path_relative :: "path \<Rightarrow> path \<Rightarrow> path" where
  "Path_relative par rel = path_resolve rel par"

definition setNode :: "string \<Rightarrow> path \<Rightarrow> path" where
  "setNode node p = p\<lparr>p_node := node, p_absolute := p_absolute p \<or> node \<noteq> []\<rparr>"

definition setDevice :: "string \<Rightarrow> path \<Rightarrow> path" where
  "setDevice device p = p\<lparr>p_device := device, p_absolute := p_absolute p \<or> device \<noteq> []\<rparr>"

definition setFileName :: "string \<Rightarrow> path \<Rightarrow> path" where
  "setFileName name p = p\<lparr>p_name := name\<rparr>"

text \<open>\<^verbatim>\<open>rfind\<close>: the position of the last occurrence.\<close>

definition rfind :: "char \<Rightarrow> string \<Rightarrow> nat option" where
  "rfind c s =
     (if c \<in> set s then Some (length s - 1 - length (takeWhile (\<lambda>x. x \<noteq> c) (rev s))) else None)"

definition getBaseName :: "path \<Rightarrow> string" where
  "getBaseName p =
     (case rfind dot (p_name p) of Some pos \<Rightarrow> take pos (p_name p) | None \<Rightarrow> p_name p)"

definition getExtension :: "path \<Rightarrow> string" where
  "getExtension p =
     (case rfind dot (p_name p) of Some pos \<Rightarrow> drop (pos + 1) (p_name p) | None \<Rightarrow> [])"

definition setBaseName :: "string \<Rightarrow> path \<Rightarrow> path" where
  "setBaseName name p =
     (let ext = getExtension p
      in p\<lparr>p_name := (if ext \<noteq> [] then name @ ''.'' @ ext else name)\<rparr>)"

definition setExtension :: "string \<Rightarrow> path \<Rightarrow> path" where
  "setExtension extension p =
     (let b = getBaseName p
      in p\<lparr>p_name := (if extension \<noteq> [] then b @ ''.'' @ extension else b)\<rparr>)"

section \<open>Unix syntax\<close>

lemma length_tl_dropWhile:
  assumes "it \<noteq> []" shows "length (dropWhile P it) - Suc 0 < length it"
proof -
  have "0 < length it" using assms by simp
  with length_dropWhile_le [of P it] show ?thesis by linarith
qed

function unix_loop :: "string \<Rightarrow> path \<Rightarrow> path" where
  "unix_loop it p =
     (if it = [] then p
      else
        (let name = takeWhile (\<lambda>c. c \<noteq> slash) it;
             rest = dropWhile (\<lambda>c. c \<noteq> slash) it
         in if rest \<noteq> [] then
              unix_loop (tl rest)
                (if p_dirs p = [] then
                   (if name \<noteq> [] \<and> last name = colon then p\<lparr>p_device := butlast name\<rparr>
                    else pushDirectory name p)
                 else pushDirectory name p)
            else p\<lparr>p_name := name\<rparr>))"
  by pat_completeness auto
termination
proof (relation "measure (\<lambda>(it, p). length it)")
  fix it :: string and p :: path and name and rest :: string
  assume "it \<noteq> []" "rest = dropWhile (\<lambda>c. c \<noteq> slash) it" "rest \<noteq> []"
  then show "((tl rest, x), it, p) \<in> measure (\<lambda>(it, p). length it)" for x :: path
    by (simp add: length_tl_dropWhile)
qed simp

declare unix_loop.simps [simp del]

text \<open>
  A leading tilde stands for the home directory, which is parsed in turn; a home directory that
  starts with a tilde itself recurs for ever.
\<close>

partial_function (option) parseUnix :: "string \<Rightarrow> string \<Rightarrow> path option" where
  "parseUnix home path =
     (if path = [] then Some empty_path
      else if hd path = slash then Some (unix_loop (tl path) (empty_path\<lparr>p_absolute := True\<rparr>))
      else if hd path = CHR ''~'' \<and> (tl path = [] \<or> hd (tl path) = slash) then
        Option.bind (parseUnix home home)
          (\<lambda>cwd. Some (unix_loop (tl path) (empty_path\<lparr>p_dirs := p_dirs cwd, p_absolute := True\<rparr>)))
      else Some (unix_loop path empty_path))"

definition buildUnix :: "path \<Rightarrow> string" where
  "buildUnix p =
     (if p_device p \<noteq> [] then ''/'' @ p_device p @ '':/''
      else if p_absolute p then ''/'' else []) @
     concat (map (\<lambda>d. d @ ''/'') (p_dirs p)) @ p_name p"

section \<open>Windows syntax\<close>

definition win_sep :: "char \<Rightarrow> bool" where
  "win_sep c \<longleftrightarrow> c = backslash \<or> c = slash"

function win_loop :: "string \<Rightarrow> path \<Rightarrow> path" where
  "win_loop it p =
     (if it = [] then p
      else
        (let name = takeWhile (\<lambda>c. \<not> win_sep c) it;
             rest = dropWhile (\<lambda>c. \<not> win_sep c) it
         in if rest \<noteq> [] then win_loop (tl rest) (pushDirectory name p)
            else p\<lparr>p_name := name\<rparr>))"
  by pat_completeness auto
termination
proof (relation "measure (\<lambda>(it, p). length it)")
  fix it :: string and p :: path and name and rest :: string
  assume "it \<noteq> []" "rest = dropWhile (\<lambda>c. \<not> win_sep c) it" "rest \<noteq> []"
  then show "((tl rest, x), it, p) \<in> measure (\<lambda>(it, p). length it)" for x :: path
    by (simp add: length_tl_dropWhile)
qed simp

declare win_loop.simps [simp del]

definition is_letter :: "char \<Rightarrow> bool" where
  "is_letter d \<longleftrightarrow> code_of CHR ''a'' \<le> code_of d \<and> code_of d \<le> code_of CHR ''z'' \<or>
     code_of CHR ''A'' \<le> code_of d \<and> code_of d \<le> code_of CHR ''Z''"

definition win_finish :: "path \<Rightarrow> path" where
  "win_finish p =
     (if p_node p \<noteq> [] \<and> p_dirs p = [] \<and> p_name p \<noteq> [] then makeDirectory p else p)"

definition parseWindows :: "string \<Rightarrow> path path_result" where
  "parseWindows path =
     (let absolute = (path \<noteq> [] \<and> win_sep (hd path));
          it = (if absolute then tl path else path);
          p = empty_path\<lparr>p_absolute := absolute\<rparr>
      in if absolute \<and> it \<noteq> [] \<and> win_sep (hd it) then
           (let node = takeWhile (\<lambda>c. \<not> win_sep c) (tl it);
                rest = dropWhile (\<lambda>c. \<not> win_sep c) (tl it)
            in Inr (win_finish (win_loop (if rest \<noteq> [] then tl rest else []) (p\<lparr>p_node := node\<rparr>))))
         else if it \<noteq> [] \<and> tl it \<noteq> [] \<and> hd (tl it) = colon then
           (if absolute \<or> \<not> is_letter (hd it) then Inl (PathSyntaxException path)
            else
              (let rest = tl (tl it)
               in if rest = [] \<or> \<not> win_sep (hd rest) then Inl (PathSyntaxException path)
                  else Inr (win_finish (win_loop (tl rest) (p\<lparr>p_absolute := True, p_device := [hd it]\<rparr>)))))
         else Inr (win_finish (win_loop it p)))"

definition buildWindows :: "path \<Rightarrow> string" where
  "buildWindows p =
     (if p_node p \<noteq> [] then [backslash, backslash] @ p_node p @ [backslash]
      else if p_device p \<noteq> [] then p_device p @ [colon, backslash]
      else if p_absolute p then [backslash] else []) @
     concat (map (\<lambda>d. d @ [backslash]) (p_dirs p)) @ p_name p"

section \<open>OpenVMS syntax\<close>

text \<open>
  The names between the brackets. The two loops differ in what they do with a minus sign.
\<close>

definition vms_add :: "string \<Rightarrow> string list \<Rightarrow> string list" where
  "vms_add name dirs =
     (if name = [] then dirs
      else if name = ''-'' then
        (if dirs = [] \<or> last dirs = ''..'' then dirs @ [''..''] else butlast dirs)
      else dirs @ [name])"

definition vms_add_rooted :: "nat \<Rightarrow> string \<Rightarrow> string list \<Rightarrow> string list" where
  "vms_add_rooted d name dirs =
     (if name = [] then dirs
      else if name = ''-'' then (if length dirs > d then butlast dirs else dirs)
      else dirs @ [name])"

function vms_loop ::
    "(string \<Rightarrow> string list \<Rightarrow> string list) \<Rightarrow> string \<Rightarrow> string list \<Rightarrow> string \<times> string list" where
  "vms_loop add it dirs =
     (if it = [] \<or> hd it = CHR '']'' then (it, dirs)
      else
        (let minus = (hd it = CHR ''-'');
             name = (if minus then ''-'' else takeWhile (\<lambda>c. c \<noteq> dot \<and> c \<noteq> CHR '']'') it);
             it1 = (if minus then it else dropWhile (\<lambda>c. c \<noteq> dot \<and> c \<noteq> CHR '']'') it)
         in vms_loop add (if it1 \<noteq> [] \<and> hd it1 \<noteq> CHR '']'' then tl it1 else it1) (add name dirs)))"
  by pat_completeness auto
termination
proof (relation "measure (\<lambda>(add, it, dirs). length it)")
  fix add :: "string \<Rightarrow> string list \<Rightarrow> string list" and it :: string and dirs and minus and name it1 :: string
  assume a: "\<not> (it = [] \<or> hd it = CHR '']'')" "minus = (hd it = CHR ''-'')"
    "it1 = (if minus then it else dropWhile (\<lambda>c. c \<noteq> dot \<and> c \<noteq> CHR '']'') it)"
  then obtain c cs where it: "it = c # cs" "c \<noteq> CHR '']''" by (cases it) auto
  have le: "length (dropWhile (\<lambda>c. c \<noteq> dot \<and> c \<noteq> CHR '']'') xs) \<le> length xs" for xs :: string
    by (rule length_dropWhile_le)
  have "length (if it1 \<noteq> [] \<and> hd it1 \<noteq> CHR '']'' then tl it1 else it1) < length it"
    using a(2,3) it le [of cs] by (auto simp: less_Suc_eq_le split: if_splits)
  then show "((add, if it1 \<noteq> [] \<and> hd it1 \<noteq> CHR '']'' then tl it1 else it1, add name dirs), add, it, dirs)
      \<in> measure (\<lambda>(add, it, dirs). length it)" by simp
qed simp

declare vms_loop.simps [simp del]

text \<open>The text in brackets, from behind the opening one: what is left, the directories, absolute or not.\<close>

definition vms_brackets :: "string \<Rightarrow> string \<Rightarrow> bool \<Rightarrow> (string \<times> string list \<times> bool) path_result" where
  "vms_brackets path it absolute =
     (if it = [] then Inr (it, [], absolute)
      else
        (let abs1 = (hd it \<noteq> dot \<and> hd it \<noteq> CHR '']'' \<and> hd it \<noteq> CHR ''-'');
             it1 = (if hd it = dot then tl it else it);
             (it2, dirs) = vms_loop vms_add it1 []
         in if it2 = [] then Inl (PathSyntaxException path)
            else if tl it2 \<noteq> [] \<and> hd (tl it2) = CHR ''['' then
              (if \<not> abs1 then Inl (PathSyntaxException path)
               else
                 (let it3 = tl (tl it2)
                  in if it3 \<noteq> [] \<and> hd it3 = dot then Inl (PathSyntaxException path)
                     else
                       (let (it4, dirs') = vms_loop (vms_add_rooted (length dirs)) it3 dirs
                        in if it4 = [] then Inl (PathSyntaxException path)
                           else Inr (tl it4, dirs', abs1))))
            else Inr (tl it2, dirs, abs1)))"

definition vms_file :: "string \<Rightarrow> path \<Rightarrow> path" where
  "vms_file it p =
     (if it \<noteq> [] \<and> hd it = CHR '';'' then p\<lparr>p_version := tl it\<rparr> else p)"

definition parseVMS :: "string \<Rightarrow> path path_result" where
  "parseVMS path =
     (let name0 = takeWhile (\<lambda>c. c \<noteq> colon \<and> c \<noteq> CHR ''['' \<and> c \<noteq> CHR '';'') path;
          it0 = dropWhile (\<lambda>c. c \<noteq> colon \<and> c \<noteq> CHR ''['' \<and> c \<noteq> CHR '';'') path
      in if it0 = [] then Inr (empty_path\<lparr>p_name := name0\<rparr>)
         else
           (let (node, dev1, abs1, name1, it1) =
                  (if hd it0 = colon then
                     (if tl it0 \<noteq> [] \<and> hd (tl it0) = colon then (name0, [], True, [], tl (tl it0))
                      else ([], name0, True, [], tl it0))
                   else ([], [], False, name0, it0));
                (dev2, abs2, name2, it2) =
                  (if it1 \<noteq> [] \<and> dev1 = [] \<and> hd it1 \<noteq> CHR ''['' then
                     (let nm = name1 @ takeWhile (\<lambda>c. c \<noteq> colon \<and> c \<noteq> CHR '';'') it1;
                          it = dropWhile (\<lambda>c. c \<noteq> colon \<and> c \<noteq> CHR '';'') it1
                      in if it \<noteq> [] \<and> hd it = colon then (nm, True, [], tl it)
                         else (dev1, abs1, nm, it))
                   else (dev1, abs1, name1, it1));
                p = empty_path\<lparr>p_node := node, p_device := dev2\<rparr>
            in if name2 = [] then
                 (case (if it2 \<noteq> [] \<and> hd it2 = CHR ''['' then vms_brackets path (tl it2) abs2
                        else Inr (it2, [], abs2)) of
                    Inl e \<Rightarrow> Inl e
                  | Inr (it3, dirs, abs3) \<Rightarrow>
                      Inr (vms_file (dropWhile (\<lambda>c. c \<noteq> CHR '';'') it3)
                        (p\<lparr>p_dirs := dirs, p_absolute := abs3,
                           p_name := takeWhile (\<lambda>c. c \<noteq> CHR '';'') it3\<rparr>)))
               else Inr (vms_file it2 (p\<lparr>p_absolute := abs2, p_name := name2\<rparr>))))"

fun vms_dirs :: "bool \<Rightarrow> string list \<Rightarrow> string" where
  "vms_dirs first [] = []"
| "vms_dirs first (d # ds) =
     (if \<not> first \<and> d \<noteq> ''..'' then ''.'' else []) @ (if d = ''..'' then ''-'' else d) @ vms_dirs False ds"

definition buildVMS :: "path \<Rightarrow> string" where
  "buildVMS p =
     (if p_node p \<noteq> [] then p_node p @ ''::'' else []) @
     (if p_device p \<noteq> [] then p_device p @ '':'' else []) @
     (if p_dirs p \<noteq> [] then
        ''['' @ (if \<not> p_absolute p \<and> hd (p_dirs p) \<noteq> ''..'' then ''.'' else []) @
        vms_dirs True (p_dirs p) @ '']''
      else []) @
     p_name p @
     (if p_version p \<noteq> [] then '';'' @ p_version p else [])"

section \<open>Choosing a syntax\<close>

text \<open>
  The scan for telling characters. The cases for the brackets fall through to the next case.
\<close>

record guess =
  hasBackslash :: bool
  hasSlash :: bool
  hasOpenBracket :: bool
  hasClosBracket :: bool
  semiIt :: "string option"

fun guess_scan :: "string \<Rightarrow> guess \<Rightarrow> guess" where
  "guess_scan [] g = g"
| "guess_scan (c # it) g =
     guess_scan it
       (if c = backslash then g\<lparr>hasBackslash := True\<rparr>
        else if c = slash then g\<lparr>hasSlash := True\<rparr>
        else if c = CHR ''['' then
          g\<lparr>hasOpenBracket := True, hasClosBracket := True, semiIt := Some (c # it)\<rparr>
        else if c = CHR '']'' then
          g\<lparr>hasClosBracket := hasOpenBracket g, semiIt := Some (c # it)\<rparr>
        else if c = CHR '';'' then g\<lparr>semiIt := Some (c # it)\<rparr>
        else g)"

definition is_digit_char :: "char \<Rightarrow> bool" where
  "is_digit_char c \<longleftrightarrow> \<not> (code_of c < code_of CHR ''0'' \<or> code_of c > code_of CHR ''9'')"

definition parseGuess :: "string \<Rightarrow> string \<Rightarrow> path path_result option" where
  "parseGuess home path =
     (let isWindows = (length path > 2 \<and> path ! 1 = colon \<and> (path ! 2 = slash \<or> path ! 2 = backslash));
          g0 = \<lparr>hasBackslash = False, hasSlash = False, hasOpenBracket = False, hasClosBracket = False,
            semiIt = None\<rparr>;
          g = (if \<not> isWindows then guess_scan path g0 else g0)
      in if hasBackslash g \<or> isWindows then Some (parseWindows path)
         else if hasSlash g then map_option Inr (parseUnix home path)
         else
           (let isVMS =
              (if hasClosBracket g then True
               else (case semiIt g of
                       Some it \<Rightarrow> (\<forall>c\<in>set (tl it). is_digit_char c)
                     | None \<Rightarrow> False))
            in if isVMS then Some (parseVMS path) else map_option Inr (parseUnix home path)))"

fun assign_style :: "string \<Rightarrow> style \<Rightarrow> string \<Rightarrow> path path_result option" where
  "assign_style home PATH_UNIX path = map_option Inr (parseUnix home path)"
| "assign_style home PATH_WINDOWS path = Some (parseWindows path)"
| "assign_style home PATH_VMS path = Some (parseVMS path)"
| "assign_style home PATH_NATIVE path = map_option Inr (parseUnix home path)"
| "assign_style home PATH_GUESS path = parseGuess home path"

definition path_assign :: "string \<Rightarrow> string \<Rightarrow> path path_result option" where
  "path_assign home path = map_option Inr (parseUnix home path)"

fun toString_style :: "style \<Rightarrow> path \<Rightarrow> string" where
  "toString_style PATH_UNIX p = buildUnix p"
| "toString_style PATH_WINDOWS p = buildWindows p"
| "toString_style PATH_VMS p = buildVMS p"
| "toString_style PATH_NATIVE p = buildUnix p"
| "toString_style PATH_GUESS p = buildUnix p"

definition path_toString :: "path \<Rightarrow> string" where
  "path_toString p = buildUnix p"

definition tryParse_style :: "string \<Rightarrow> style \<Rightarrow> string \<Rightarrow> path \<Rightarrow> (bool \<times> path) option" where
  "tryParse_style home st path self =
     map_option (\<lambda>r. case r of Inl e \<Rightarrow> (False, self) | Inr p \<Rightarrow> (True, p)) (assign_style home st path)"

definition tryParse :: "string \<Rightarrow> string \<Rightarrow> path \<Rightarrow> (bool \<times> path) option" where
  "tryParse home path self =
     map_option (\<lambda>r. case r of Inl e \<Rightarrow> (False, self) | Inr p \<Rightarrow> (True, p)) (path_assign home path)"

definition parseDirectory_style :: "string \<Rightarrow> style \<Rightarrow> string \<Rightarrow> path path_result option" where
  "parseDirectory_style home st path =
     map_option (\<lambda>r. case r of Inl e \<Rightarrow> Inl e | Inr p \<Rightarrow> Inr (makeDirectory p)) (assign_style home st path)"

definition parseDirectory :: "string \<Rightarrow> string \<Rightarrow> path path_result option" where
  "parseDirectory home path =
     map_option (\<lambda>r. case r of Inl e \<Rightarrow> Inl e | Inr p \<Rightarrow> Inr (makeDirectory p)) (path_assign home path)"

section \<open>The environment\<close>

definition with_slash :: "string \<Rightarrow> string" where
  "with_slash path = (if path \<noteq> [] \<and> last path \<noteq> slash then path @ ''/'' else path)"

text \<open>The entries of the password file for the real and the effective user, and the variable.\<close>

definition homeImpl :: "string option \<Rightarrow> string option \<Rightarrow> string path_result \<Rightarrow> string path_result" where
  "homeImpl pwd epwd env =
     (case pwd of Some dir \<Rightarrow> Inr (with_slash dir)
      | None \<Rightarrow>
          (case epwd of Some dir \<Rightarrow> Inr (with_slash dir)
           | None \<Rightarrow> (case env of Inl e \<Rightarrow> Inl e | Inr v \<Rightarrow> Inr (with_slash v))))"

definition currentImpl :: "string option \<Rightarrow> string path_result" where
  "currentImpl cwd =
     (case cwd of
        Some dir \<Rightarrow> Inr (with_slash dir)
      | None \<Rightarrow> Inl (SystemException ''cannot get current directory''))"

definition tempImpl :: "string option \<Rightarrow> string" where
  "tempImpl tmp = (case tmp of Some dir \<Rightarrow> with_slash dir | None \<Rightarrow> ''/tmp/'')"

definition nullImpl :: string where
  "nullImpl = ''/dev/null''"

definition listRootsImpl :: "string list" where
  "listRootsImpl = [''/'']"

function expand_loop :: "(string \<Rightarrow> string option) \<Rightarrow> string \<Rightarrow> string" where
  "expand_loop getenv [] = []"
| "expand_loop getenv (c # it) =
     (if c = CHR ''$'' then
        (let braced = (it \<noteq> [] \<and> hd it = CHR ''{'');
             in_var = (\<lambda>c. if braced then c \<noteq> CHR ''}'' else isAlphaNumeric (code_of c) \<or> c = CHR ''_'');
             start = (if braced then tl it else it);
             var = takeWhile in_var start;
             rest = dropWhile in_var start;
             rest' = (if braced \<and> rest \<noteq> [] then tl rest else rest)
         in (case getenv var of Some val \<Rightarrow> val | None \<Rightarrow> []) @ expand_loop getenv rest')
      else c # expand_loop getenv it)"
  by pat_completeness auto
termination
proof (relation "measure (\<lambda>(getenv, it). length it)")
  fix getenv :: "string \<Rightarrow> string option" and c :: char and it :: string and braced in_var start
    and var :: string and rest rest'
  assume a: "start = (if braced then tl it else it)" "rest = dropWhile in_var start"
    "rest' = (if braced \<and> rest \<noteq> [] then tl rest else rest)"
  have "length rest' \<le> length rest" using a(3) by simp
  also have "\<dots> \<le> length start" unfolding a(2) by (rule length_dropWhile_le)
  also have "\<dots> \<le> length it" using a(1) by simp
  finally have "length rest' \<le> length it" .
  then show "((getenv, rest'), getenv, c # it) \<in> measure (\<lambda>(getenv, it). length it)" by simp
qed auto

declare expand_loop.simps(2) [simp del]

definition expandImpl :: "string \<Rightarrow> (string \<Rightarrow> string option) \<Rightarrow> string \<Rightarrow> string" where
  "expandImpl home getenv path =
     (if path \<noteq> [] \<and> hd path = CHR ''~'' then
        (if tl path \<noteq> [] \<and> hd (tl path) = slash then home @ expand_loop getenv (tl (tl path))
         else ''~'' @ expand_loop getenv (tl path))
      else expand_loop getenv path)"

section \<open>Searching a file\<close>

fun find_in :: "(string \<Rightarrow> bool) \<Rightarrow> string \<Rightarrow> string list \<Rightarrow> string \<Rightarrow> path option option" where
  "find_in exists_file home [] name = Some None"
| "find_in exists_file home (it # its) name =
     Option.bind (parseUnix home it)
       (\<lambda>p0. Option.bind (parseUnix home name)
          (\<lambda>q. (let p = path_resolve q (makeDirectory p0)
                in if exists_file (buildUnix p) then Some (Some p)
                   else find_in exists_file home its name)))"

definition find_list :: "(string \<Rightarrow> bool) \<Rightarrow> string \<Rightarrow> string \<Rightarrow> string \<Rightarrow> path option option" where
  "find_list exists_file home pathList name =
     find_in exists_file home
       (StringTokenizer pathList [colon] (TOK_IGNORE_EMPTY + TOK_TRIM)) name"

section \<open>Normal paths\<close>

text \<open>
  No directory is empty or a dot, and double dots stand only at the front of relative paths.
\<close>

definition plain :: "string \<Rightarrow> bool" where
  "plain d \<longleftrightarrow> d \<noteq> [] \<and> d \<noteq> ''.''"

definition normal_dirs :: "bool \<Rightarrow> string list \<Rightarrow> bool" where
  "normal_dirs a ds \<longleftrightarrow> (\<forall>d\<in>set ds. plain d) \<and>
     ''..'' \<notin> set (if a then ds else dropWhile (\<lambda>d. d = ''..'') ds)"

definition normal :: "path \<Rightarrow> bool" where
  "normal p \<longleftrightarrow> normal_dirs (p_absolute p) (p_dirs p)"

lemma normal_snoc:
  "normal_dirs a (ds @ [d]) \<longleftrightarrow> normal_dirs a ds \<and> plain d \<and>
     (d = ''..'' \<longrightarrow> \<not> a \<and> (ds = [] \<or> last ds = ''..''))"
proof -
  have "''..'' \<notin> set (dropWhile (\<lambda>d. d = ''..'') (ds @ [d])) \<longleftrightarrow>
    ''..'' \<notin> set (dropWhile (\<lambda>d. d = ''..'') ds) \<and> (d = ''..'' \<longrightarrow> ds = [] \<or> last ds = ''..'')"
  proof (cases "\<forall>x\<in>set ds. x = ''..''")
    case True
    then have dw: "dropWhile (\<lambda>d. d = ''..'') ds = []" by simp
    have "ds = [] \<or> last ds = ''..''" using True last_in_set by blast
    moreover have "dropWhile (\<lambda>d. d = ''..'') (ds @ [d]) = (if d = ''..'' then [] else [d])"
      using True by (simp add: dropWhile_append)
    ultimately show ?thesis unfolding dw by auto
  next
    case False
    then obtain x where x: "x \<in> set ds" "x \<noteq> ''..''" by auto
    then have e: "dropWhile (\<lambda>d. d = ''..'') (ds @ [d]) = dropWhile (\<lambda>d. d = ''..'') ds @ [d]"
      by auto
    have ne: "dropWhile (\<lambda>d. d = ''..'') ds \<noteq> []" using x by auto
    have "last (dropWhile (\<lambda>d. d = ''..'') ds) = last ds"
      using ne by (metis last_appendR takeWhile_dropWhile_id)
    moreover have "last (dropWhile (\<lambda>d. d = ''..'') ds) \<in> set (dropWhile (\<lambda>d. d = ''..'') ds)"
      using ne by (rule last_in_set)
    ultimately show ?thesis using x unfolding e by (auto simp: eq_commute [of "''..''"])
  qed
  then show ?thesis by (auto simp: normal_dirs_def plain_def)
qed

lemma normal_Nil [simp]: "normal_dirs a []"
  by (simp add: normal_dirs_def)

lemma normal_dotdot [simp]: "normal_dirs False [''..'']"
  by (simp add: normal_dirs_def plain_def)

lemma normal_butlast: "normal_dirs a ds \<Longrightarrow> normal_dirs a (butlast ds)"
  by (cases ds rule: rev_cases) (simp_all add: normal_snoc)

lemma pushDirectory_abs [simp]: "p_absolute (pushDirectory d p) = p_absolute p"
  by (simp add: pushDirectory_def)

lemma pushDirectory_normal [inv_intros]: "normal p \<Longrightarrow> normal (pushDirectory d p)"
  by (auto simp: normal_def pushDirectory_def normal_snoc normal_butlast plain_def)

lemma fold_push_normal: "normal p \<Longrightarrow> normal (fold pushDirectory ds p)"
  by (induction ds arbitrary: p) (auto intro: inv_intros)

lemma fold_push_abs [simp]: "p_absolute (fold pushDirectory ds p) = p_absolute p"
  by (induction ds arbitrary: p) auto

lemma normal_other [simp]:
  "normal (p\<lparr>p_name := n\<rparr>) = normal p" "normal (p\<lparr>p_version := v\<rparr>) = normal p"
  "normal (p\<lparr>p_device := d\<rparr>) = normal p" "normal (p\<lparr>p_node := x\<rparr>) = normal p"
  by (simp_all add: normal_def)

lemma makeDirectory_normal [inv_intros]: "normal p \<Longrightarrow> normal (makeDirectory p)"
  by (auto simp: makeDirectory_def intro: inv_intros)

lemma makeDirectory_abs [simp]: "p_absolute (makeDirectory p) = p_absolute p"
  by (simp add: makeDirectory_def)

lemma makeFile_normal [inv_intros]: "normal p \<Longrightarrow> normal (makeFile p)"
  by (auto simp: makeFile_def normal_def normal_butlast)

lemma makeParent_normal [inv_intros]: "normal p \<Longrightarrow> normal (makeParent p)"
proof -
  assume n: "normal p"
  have "\<not> p_absolute p" if "p_dirs p \<noteq> []" "last (p_dirs p) = ''..''"
  proof
    assume "p_absolute p"
    then have "''..'' \<notin> set (p_dirs p)" using n by (simp add: normal_def normal_dirs_def)
    then show False using that last_in_set [of "p_dirs p"] by simp
  qed
  then show ?thesis using n normal_snoc [of "p_absolute p" "[]" "''..''"]
    by (auto simp: makeParent_def normal_def normal_butlast normal_snoc plain_def)
qed

lemma makeAbsolute_normal [inv_intros]:
  "normal p \<Longrightarrow> normal base \<Longrightarrow> normal (makeAbsolute base p)"
  using fold_push_normal [OF makeDirectory_normal, of base "p_dirs p"]
  by (cases "p_absolute p") (simp_all add: makeAbsolute_def normal_def Let_def)

lemma resolve_normal [inv_intros]: "normal p \<Longrightarrow> normal q \<Longrightarrow> normal (path_resolve q p)"
  by (auto simp: path_resolve_def fold_push_normal)

lemma popDirectory_normal: "normal p \<Longrightarrow> popDirectory p = Some q \<Longrightarrow> normal q"
  by (auto simp: popDirectory_def normal_def normal_butlast split: if_splits)

lemma unix_loop_normal: "normal p \<Longrightarrow> normal (unix_loop it p) \<and> p_absolute (unix_loop it p) = p_absolute p"
proof (induction it p rule: unix_loop.induct)
  case (1 it p)
  define name where "name = takeWhile (\<lambda>c. c \<noteq> slash) it"
  define rest where "rest = dropWhile (\<lambda>c. c \<noteq> slash) it"
  let ?p = "if p_dirs p = [] then if name \<noteq> [] \<and> last name = colon then p\<lparr>p_device := butlast name\<rparr>
      else pushDirectory name p else pushDirectory name p"
  have e: "unix_loop it p = (if it = [] then p else if rest \<noteq> [] then unix_loop (tl rest) ?p
      else p\<lparr>p_name := name\<rparr>)"
    by (subst unix_loop.simps) (simp only: Let_def name_def rest_def)
  have "normal ?p" "p_absolute ?p = p_absolute p" using "1.prems" by (simp_all add: inv_intros)
  then show ?case
    using "1.IH" [OF _ name_def rest_def] "1.prems" unfolding e by (cases "it = []"; cases "rest = []") simp_all
qed

lemma win_loop_normal: "normal p \<Longrightarrow> normal (win_loop it p) \<and> p_absolute (win_loop it p) = p_absolute p"
proof (induction it p rule: win_loop.induct)
  case (1 it p)
  define name where "name = takeWhile (\<lambda>c. \<not> win_sep c) it"
  define rest where "rest = dropWhile (\<lambda>c. \<not> win_sep c) it"
  have e: "win_loop it p = (if it = [] then p else if rest \<noteq> [] then win_loop (tl rest) (pushDirectory name p)
      else p\<lparr>p_name := name\<rparr>)"
    by (subst win_loop.simps) (simp only: Let_def name_def rest_def)
  have "normal (pushDirectory name p)" using "1.prems" by (rule inv_intros)
  then show ?case
    using "1.IH" [OF _ name_def rest_def] "1.prems" unfolding e by (cases "it = []"; cases "rest = []") simp_all
qed

lemma empty_normal [simp]: "normal empty_path" "normal (empty_path\<lparr>p_absolute := a\<rparr>)"
  "normal (empty_path\<lparr>p_absolute := a, p_node := n\<rparr>)" "normal (empty_path\<lparr>p_absolute := a, p_device := n\<rparr>)"
  by (simp_all add: normal_def empty_path_def)

lemma parseUnix_slash:
  "parseUnix home (slash # s) = Some (unix_loop s (empty_path\<lparr>p_absolute := True\<rparr>))"
  by (subst parseUnix.simps) simp

lemma parseUnix_normal:
  assumes "home \<noteq> [] \<and> hd home = slash" "parseUnix home s = Some p"
  shows "normal p"
proof -
  obtain hm where home: "home = slash # hm" using assms(1) by (cases home) auto
  define q where "q = unix_loop hm (empty_path\<lparr>p_absolute := True\<rparr>)"
  have "normal q" "p_absolute q"
    using unix_loop_normal [of "empty_path\<lparr>p_absolute := True\<rparr>" hm] by (simp_all add: q_def)
  then have "normal (empty_path\<lparr>p_dirs := p_dirs q, p_absolute := True\<rparr>)"
    by (simp add: normal_def)
  then show ?thesis
    using assms(2) unix_loop_normal
    by (subst (asm) parseUnix.simps)
      (auto simp: home parseUnix_slash q_def split: if_splits)
qed

lemma win_finish_normal [inv_intros]: "normal p \<Longrightarrow> normal (win_finish p)"
  by (simp add: win_finish_def makeDirectory_normal)

lemma parseWindows_normal: "parseWindows s = Inr p \<Longrightarrow> normal p"
  by (auto simp: parseWindows_def Let_def win_loop_normal win_finish_normal split: if_splits)

section \<open>Round trips\<close>

lemma normal_prefix: "normal_dirs a (xs @ ys) \<Longrightarrow> normal_dirs a xs"
proof (induction ys rule: rev_induct)
  case (snoc y ys)
  then show ?case using normal_snoc [of a "xs @ ys" y] by simp
qed simp

lemma push_next:
  assumes "normal_dirs (p_absolute p) (p_dirs p @ d # ds)"
  shows "pushDirectory d p = p\<lparr>p_dirs := p_dirs p @ [d]\<rparr>"
proof -
  have "normal_dirs (p_absolute p) ((p_dirs p @ [d]) @ ds)" using assms by simp
  from normal_prefix [OF this] show ?thesis
    by (auto simp: normal_snoc pushDirectory_def plain_def)
qed

lemma takeWhile_sep:
  assumes "\<forall>c\<in>set d. P c" "\<not> P s"
  shows "takeWhile P (d @ s # rest) = d" "dropWhile P (d @ s # rest) = s # rest"
  using assms by (induction d) auto

lemma takeWhile_all:
  assumes "\<forall>c\<in>set d. P c" shows "takeWhile P d = d" "dropWhile P d = []"
  using assms by (induction d) auto

lemma unix_loop_dirs:
  assumes "normal_dirs (p_absolute p) (p_dirs p @ ds)" "\<forall>d\<in>set ds. slash \<notin> set d"
    and "p_dirs p = [] \<Longrightarrow> ds \<noteq> [] \<Longrightarrow> last (hd ds) \<noteq> colon" "slash \<notin> set nm" "p_name p = []"
  shows "unix_loop (concat (map (\<lambda>d. d @ ''/'') ds) @ nm) p = p\<lparr>p_dirs := p_dirs p @ ds, p_name := nm\<rparr>"
  using assms
proof (induction ds arbitrary: p)
  case Nil
  have "takeWhile (\<lambda>c. c \<noteq> slash) nm = nm" "dropWhile (\<lambda>c. c \<noteq> slash) nm = []"
    by (rule takeWhile_all, use Nil.prems(4) in auto)+
  then show ?case using Nil.prems(5) by (subst unix_loop.simps) (cases p; auto)
next
  case (Cons d ds)
  let ?s = "concat (map (\<lambda>d. d @ ''/'') ds) @ nm"
  have "\<forall>c\<in>set d. c \<noteq> slash" using Cons.prems(2) by auto
  then have tw: "takeWhile (\<lambda>c. c \<noteq> slash) (d @ slash # ?s) = d"
    "dropWhile (\<lambda>c. c \<noteq> slash) (d @ slash # ?s) = slash # ?s"
    by (simp_all add: takeWhile_sep)
  let ?p = "p\<lparr>p_dirs := p_dirs p @ [d]\<rparr>"
  have "unix_loop (d @ slash # ?s) p = unix_loop ?s ?p"
    using Cons.prems(3) push_next [OF Cons.prems(1)]
    by (subst unix_loop.simps) (simp only: tw Let_def, auto)
  also have "\<dots> = ?p\<lparr>p_dirs := p_dirs ?p @ ds, p_name := nm\<rparr>"
    by (rule Cons.IH) (use Cons.prems in auto)
  finally show ?case by simp
qed

text \<open>Paths that a Unix path name can express.\<close>

definition unix_path :: "path \<Rightarrow> bool" where
  "unix_path p \<longleftrightarrow> normal p \<and> p_node p = [] \<and> p_version p = [] \<and>
     (\<forall>d\<in>set (p_dirs p). slash \<notin> set d) \<and> slash \<notin> set (p_name p) \<and> slash \<notin> set (p_device p) \<and>
     (p_device p \<noteq> [] \<longrightarrow> p_absolute p) \<and>
     (p_dirs p \<noteq> [] \<longrightarrow> last (hd (p_dirs p)) \<noteq> colon) \<and>
     (\<not> p_absolute p \<longrightarrow> hd (p_dirs p @ [p_name p]) \<noteq> ''~'')"

lemma unix_roundtrip_lemma:
  assumes "unix_path p" shows "parseUnix home (buildUnix p) = Some p"
proof -
  let ?e = "empty_path\<lparr>p_absolute := p_absolute p, p_device := p_device p\<rparr>"
  let ?s = "concat (map (\<lambda>d. d @ ''/'') (p_dirs p)) @ p_name p"
  have p: "?e\<lparr>p_dirs := p_dirs ?e @ p_dirs p, p_name := p_name p\<rparr> = p"
    using assms by (cases p) (simp add: unix_path_def empty_path_def)
  have loop: "unix_loop ?s ?e = p"
    by (subst p [symmetric], rule unix_loop_dirs)
      (use assms in \<open>auto simp: unix_path_def normal_def empty_path_def\<close>)
  show ?thesis
  proof (cases "p_device p = []")
    case False
    let ?d = "p_device p @ '':''"
    have a: "p_absolute p" using assms False by (simp add: unix_path_def)
    have "\<forall>c\<in>set ?d. c \<noteq> slash" using assms by (auto simp: unix_path_def)
    then have tw: "takeWhile (\<lambda>c. c \<noteq> slash) (?d @ slash # ?s) = ?d"
      "dropWhile (\<lambda>c. c \<noteq> slash) (?d @ slash # ?s) = slash # ?s"
      by (rule takeWhile_sep, simp)+
    have "unix_loop (?d @ slash # ?s) (empty_path\<lparr>p_absolute := True\<rparr>) = unix_loop ?s ?e"
      by (subst unix_loop.simps) (simp only: tw Let_def, simp add: empty_path_def a)
    then show ?thesis using False loop by (simp add: buildUnix_def parseUnix_slash)
  next
    case True
    then have e: "?e = empty_path\<lparr>p_absolute := p_absolute p\<rparr>" by (simp add: empty_path_def)
    show ?thesis
    proof (cases "p_absolute p")
      case True
      then show ?thesis using \<open>p_device p = []\<close> loop e by (simp add: buildUnix_def parseUnix_slash)
    next
      case False
      then have l: "unix_loop ?s empty_path = p" using loop e by (simp add: empty_path_def)
      have hd: "hd (p_dirs p @ [p_name p]) \<noteq> ''~''" using assms False by (simp add: unix_path_def)
      have "?s = [] \<Longrightarrow> p = empty_path" using l by (subst (asm) unix_loop.simps) simp
      moreover have "hd ?s \<noteq> slash \<and> \<not> (hd ?s = CHR ''~'' \<and> (tl ?s = [] \<or> hd (tl ?s) = slash))"
        if ne: "?s \<noteq> []"
      proof (cases "p_dirs p")
        case Nil
        then show ?thesis using assms ne hd
          by (cases "p_name p"; cases "tl (p_name p)") (auto simp: unix_path_def)
      next
        case (Cons d ds)
        then have "plain d" "slash \<notin> set d" "d \<noteq> ''~''"
          using assms hd by (auto simp: unix_path_def normal_def normal_dirs_def)
        then show ?thesis unfolding Cons plain_def by (cases d; cases "tl d") auto
      qed
      ultimately show ?thesis using \<open>p_device p = []\<close> False l
        by (subst parseUnix.simps) (auto simp: buildUnix_def)
    qed
  qed
qed

lemma win_loop_dirs:
  assumes "normal_dirs (p_absolute p) (p_dirs p @ ds)" "\<forall>d\<in>set ds. \<forall>c\<in>set d. \<not> win_sep c"
    and "\<forall>c\<in>set nm. \<not> win_sep c" "p_name p = []"
  shows "win_loop (concat (map (\<lambda>d. d @ [backslash]) ds) @ nm) p = p\<lparr>p_dirs := p_dirs p @ ds, p_name := nm\<rparr>"
  using assms
proof (induction ds arbitrary: p)
  case Nil
  have "takeWhile (\<lambda>c. \<not> win_sep c) nm = nm" "dropWhile (\<lambda>c. \<not> win_sep c) nm = []"
    by (rule takeWhile_all, use Nil.prems(3) in auto)+
  then show ?case using Nil.prems(4) by (subst win_loop.simps) (cases p; auto)
next
  case (Cons d ds)
  let ?s = "concat (map (\<lambda>d. d @ [backslash]) ds) @ nm"
  have "\<forall>c\<in>set d. \<not> win_sep c" "win_sep backslash" using Cons.prems(2) by (auto simp: win_sep_def)
  then have tw: "takeWhile (\<lambda>c. \<not> win_sep c) (d @ backslash # ?s) = d"
    "dropWhile (\<lambda>c. \<not> win_sep c) (d @ backslash # ?s) = backslash # ?s"
    by (simp_all add: takeWhile_sep)
  let ?p = "p\<lparr>p_dirs := p_dirs p @ [d]\<rparr>"
  have "win_loop (d @ backslash # ?s) p = win_loop ?s ?p"
    using push_next [OF Cons.prems(1)] by (subst win_loop.simps) (simp only: tw Let_def, auto)
  also have "\<dots> = ?p\<lparr>p_dirs := p_dirs ?p @ ds, p_name := nm\<rparr>"
    by (rule Cons.IH) (use Cons.prems in auto)
  finally show ?case by simp
qed

lemma parseWindows_plain:
  assumes "\<not> (it \<noteq> [] \<and> win_sep (hd it))" "\<not> (it \<noteq> [] \<and> tl it \<noteq> [] \<and> hd (tl it) = colon)"
  shows "parseWindows it = Inr (win_finish (win_loop it (empty_path\<lparr>p_absolute := False\<rparr>)))"
    and "parseWindows (backslash # it) = Inr (win_finish (win_loop it (empty_path\<lparr>p_absolute := True\<rparr>)))"
proof -
  have c: "(it \<noteq> [] \<and> win_sep (hd it)) = False" "(it \<noteq> [] \<and> tl it \<noteq> [] \<and> hd (tl it) = colon) = False"
    using assms by blast+
  show "parseWindows it = Inr (win_finish (win_loop it (empty_path\<lparr>p_absolute := False\<rparr>)))"
    unfolding parseWindows_def Let_def c by (simp only: c simp_thms if_False)
  have b: "(backslash # it \<noteq> [] \<and> win_sep (hd (backslash # it))) = True" by (simp add: win_sep_def)
  show "parseWindows (backslash # it) = Inr (win_finish (win_loop it (empty_path\<lparr>p_absolute := True\<rparr>)))"
    unfolding parseWindows_def Let_def b by (simp only: c simp_thms if_False if_True list.sel)
qed

text \<open>Paths that a Windows path name can express.\<close>

definition windows_path :: "path \<Rightarrow> bool" where
  "windows_path p \<longleftrightarrow> normal p \<and> p_version p = [] \<and>
     (\<forall>d\<in>set (p_dirs p). \<forall>c\<in>set d. \<not> win_sep c) \<and> (\<forall>c\<in>set (p_name p). \<not> win_sep c) \<and>
     (p_node p \<noteq> [] \<or> p_device p \<noteq> [] \<longrightarrow> p_absolute p) \<and>
     (p_node p \<noteq> [] \<longrightarrow> p_device p = [] \<and> (\<forall>c\<in>set (p_node p). \<not> win_sep c) \<and>
        (p_dirs p \<noteq> [] \<or> p_name p = [])) \<and>
     (p_device p \<noteq> [] \<longrightarrow> (\<exists>d. p_device p = [d] \<and> is_letter d)) \<and>
     (p_node p = [] \<and> p_device p = [] \<longrightarrow>
        take 1 (tl (hd (p_dirs p @ [p_name p]))) \<noteq> '':'')"

lemma windows_roundtrip_lemma:
  assumes "windows_path p" shows "parseWindows (buildWindows p) = Inr p"
proof -
  let ?e = "empty_path\<lparr>p_absolute := p_absolute p, p_device := p_device p, p_node := p_node p\<rparr>"
  let ?s = "concat (map (\<lambda>d. d @ [backslash]) (p_dirs p)) @ p_name p"
  have p: "?e\<lparr>p_dirs := p_dirs ?e @ p_dirs p, p_name := p_name p\<rparr> = p"
    using assms by (cases p) (simp add: windows_path_def empty_path_def)
  have loop: "win_loop ?s ?e = p"
    by (subst p [symmetric], rule win_loop_dirs)
      (use assms in \<open>auto simp: windows_path_def normal_def empty_path_def\<close>)
  have fin: "win_finish p = p" using assms by (auto simp: windows_path_def win_finish_def)
  have sep [simp]: "win_sep backslash" "\<not> win_sep colon" by (simp_all add: win_sep_def)
  consider (node) "p_node p \<noteq> []" | (device) d where "p_node p = []" "p_device p = [d]" "is_letter d"
    | (none) "p_node p = []" "p_device p = []"
    using assms by (auto simp: windows_path_def)
  then show ?thesis
  proof cases
    case node
    then have n: "p_absolute p" "p_device p = []" "\<forall>c\<in>set (p_node p). \<not> win_sep c"
      using assms by (auto simp: windows_path_def)
    have tw: "takeWhile (\<lambda>c. \<not> win_sep c) (p_node p @ backslash # ?s) = p_node p"
      "dropWhile (\<lambda>c. \<not> win_sep c) (p_node p @ backslash # ?s) = backslash # ?s"
      by (rule takeWhile_sep, use n(3) in auto)+
    have "empty_path\<lparr>p_absolute := True, p_node := p_node p\<rparr> = ?e" using n by (simp add: empty_path_def)
    then show ?thesis using node loop fin
      by (simp add: buildWindows_def parseWindows_def Let_def tw)
  next
    case device
    then have "p_absolute p" using assms by (auto simp: windows_path_def)
    then have "empty_path\<lparr>p_absolute := True, p_device := [d]\<rparr> = ?e"
      using device by (simp add: empty_path_def)
    moreover have "\<not> win_sep d" using device(3)
      by (auto simp: win_sep_def is_letter_def code_of_def)
    ultimately show ?thesis using device loop fin
      by (simp add: buildWindows_def parseWindows_def Let_def)
  next
    case none
    have e: "empty_path\<lparr>p_absolute := p_absolute p\<rparr> = ?e" using none by (simp add: empty_path_def)
    have c: "take 1 (tl (hd (p_dirs p @ [p_name p]))) \<noteq> '':''" using assms none by (simp add: windows_path_def)
    have s: "?s \<noteq> [] \<Longrightarrow> \<not> win_sep (hd ?s)" "?s \<noteq> [] \<Longrightarrow> tl ?s \<noteq> [] \<Longrightarrow> hd (tl ?s) \<noteq> colon"
    proof -
      assume ne: "?s \<noteq> []"
      have "\<not> win_sep (hd ?s) \<and> (tl ?s \<noteq> [] \<longrightarrow> hd (tl ?s) \<noteq> colon)"
      proof (cases "p_dirs p")
        case Nil
        then show ?thesis using assms ne c
          by (cases "p_name p"; cases "tl (p_name p)") (auto simp: windows_path_def)
      next
        case (Cons d ds)
        then have "plain d" "\<forall>c\<in>set d. \<not> win_sep c"
          using assms by (auto simp: windows_path_def normal_def normal_dirs_def)
        then show ?thesis using c unfolding Cons plain_def by (cases d; cases "tl d") auto
      qed
      then show "\<not> win_sep (hd ?s)" "tl ?s \<noteq> [] \<Longrightarrow> hd (tl ?s) \<noteq> colon" by auto
    qed
    show ?thesis
    proof (cases "p_absolute p")
      case True
      have b: "buildWindows p = backslash # ?s" using none True by (simp add: buildWindows_def)
      have "\<not> (?s \<noteq> [] \<and> win_sep (hd ?s))" "\<not> (?s \<noteq> [] \<and> tl ?s \<noteq> [] \<and> hd (tl ?s) = colon)"
        using s by blast+
      from parseWindows_plain(2) [OF this] show ?thesis
        unfolding b using e loop fin True by simp
    next
      case False
      have b: "buildWindows p = ?s" using none False by (simp add: buildWindows_def)
      have "\<not> (?s \<noteq> [] \<and> win_sep (hd ?s))" "\<not> (?s \<noteq> [] \<and> tl ?s \<noteq> [] \<and> hd (tl ?s) = colon)"
        using s by blast+
      from parseWindows_plain(1) [OF this] show ?thesis
        unfolding b using e loop fin False by simp
    qed
  qed
qed

definition vms_dir :: "string \<Rightarrow> bool" where
  "vms_dir d \<longleftrightarrow> d \<noteq> [] \<and> hd d \<noteq> CHR ''-'' \<and> dot \<notin> set d \<and> CHR '']'' \<notin> set d"

definition vms_plain :: "string \<Rightarrow> bool" where
  "vms_plain s \<longleftrightarrow> (\<forall>c\<in>set s. c \<noteq> colon \<and> c \<noteq> CHR ''['' \<and> c \<noteq> CHR '';'')"

text \<open>Paths that an OpenVMS path name can express.\<close>

definition vms_path :: "path \<Rightarrow> bool" where
  "vms_path p \<longleftrightarrow> normal p \<and> (\<forall>d\<in>set (p_dirs p). d = ''..'' \<or> vms_dir d) \<and>
     vms_plain (p_node p) \<and> vms_plain (p_device p) \<and> vms_plain (p_name p) \<and>
     (p_dirs p = [] \<longrightarrow> p_absolute p = (p_node p \<noteq> [] \<or> p_device p \<noteq> []))"

lemma vms_loop_dot: "vms_loop add (dot # s) ds = vms_loop add s (add [] ds)"
  by (subst vms_loop.simps) (simp add: Let_def)

lemma vms_add_Nil [simp]: "vms_add [] ds = ds"
  by (simp add: vms_add_def)

lemma vms_dirs_False:
  "vms_dirs False ds = (if ds \<noteq> [] \<and> hd ds \<noteq> ''..'' then dot # vms_dirs True ds else vms_dirs True ds)"
  by (cases ds) auto

lemma vms_loop_dirs:
  assumes "normal_dirs a (acc @ ds)" "\<forall>d\<in>set ds. d = ''..'' \<or> vms_dir d"
  shows "vms_loop vms_add (vms_dirs True ds @ CHR '']'' # r) acc = (CHR '']'' # r, acc @ ds)"
  using assms
proof (induction ds arbitrary: acc)
  case Nil
  then show ?case by (subst vms_loop.simps) simp
next
  case (Cons d ds)
  let ?t = "vms_dirs False ds @ CHR '']'' # r"
  have n: "normal_dirs a (acc @ [d])" "normal_dirs a ((acc @ [d]) @ ds)"
    using normal_prefix [of a "acc @ [d]" ds] Cons.prems(1) by simp_all
  have next': "vms_loop vms_add ?t (acc @ [d]) = (CHR '']'' # r, acc @ d # ds)"
    using Cons.IH [OF n(2)] Cons.prems(2) by (cases ds) (auto simp: vms_dirs_False vms_loop_dot)
  show ?case
  proof (cases "d = ''..''")
    case True
    have "vms_add ''-'' acc = acc @ [d]" using n(1) True by (auto simp: vms_add_def normal_snoc)
    then show ?thesis using next' True by (subst vms_loop.simps) (simp add: Let_def)
  next
    case False
    then have d: "d \<noteq> []" "hd d \<noteq> CHR ''-''" "\<forall>c\<in>set d. c \<noteq> dot \<and> c \<noteq> CHR '']''"
      using Cons.prems(2) by (auto simp: vms_dir_def)
    have hd: "hd d \<noteq> CHR '']''" using d(1,3) by (cases d) auto
    have add: "vms_add d acc = acc @ [d]" using d(1,2) by (cases d) (auto simp: vms_add_def)
    show ?thesis
    proof (cases ds)
      case Nil
      have "takeWhile (\<lambda>c. c \<noteq> dot \<and> c \<noteq> CHR '']'') (d @ CHR '']'' # r) = d"
        "dropWhile (\<lambda>c. c \<noteq> dot \<and> c \<noteq> CHR '']'') (d @ CHR '']'' # r) = CHR '']'' # r"
        by (rule takeWhile_sep, use d(3) in auto)+
      then show ?thesis using Nil d(1,2) hd add next' False
        by (subst vms_loop.simps) (simp add: Let_def)
    next
      case (Cons e es)
      have "e \<noteq> ''..''"
      proof
        assume "e = ''..''"
        then have "normal_dirs a ((acc @ [d]) @ [''..''])"
          using normal_prefix [of a "acc @ [d, ''..'']" es] n(2) Cons by simp
        then show False using False by (subst (asm) normal_snoc) auto
      qed
      then have t: "?t = dot # vms_dirs True ds @ CHR '']'' # r" using Cons by simp
      have tw: "takeWhile (\<lambda>c. c \<noteq> dot \<and> c \<noteq> CHR '']'') (d @ ?t) = d"
        "dropWhile (\<lambda>c. c \<noteq> dot \<and> c \<noteq> CHR '']'') (d @ ?t) = ?t"
        unfolding t by (rule takeWhile_sep, use d(3) in auto)+
      have "vms_dirs True (d # ds) @ CHR '']'' # r = d @ ?t" using False by simp
      moreover have "vms_loop vms_add (d @ ?t) acc = vms_loop vms_add (tl ?t) (acc @ [d])"
        using d(1,2) hd add by (subst vms_loop.simps) (simp add: tw Let_def, simp add: t)
      moreover have "vms_loop vms_add (tl ?t) (acc @ [d]) = vms_loop vms_add ?t (acc @ [d])"
        unfolding t by (simp add: vms_loop_dot)
      ultimately show ?thesis using next' by simp
    qed
  qed
qed

lemma vms_brackets_dirs:
  assumes "normal_dirs a ds" "ds \<noteq> []" "\<forall>d\<in>set ds. d = ''..'' \<or> vms_dir d"
    and "r = [] \<or> hd r \<noteq> CHR ''[''"
  shows "vms_brackets path ((if \<not> a \<and> hd ds \<noteq> ''..'' then ''.'' else []) @ vms_dirs True ds @ CHR '']'' # r) abs0 =
    Inr (r, ds, a)"
proof -
  let ?s = "vms_dirs True ds @ CHR '']'' # r"
  have loop: "vms_loop vms_add ?s [] = (CHR '']'' # r, ds)"
    using vms_loop_dirs [of a "[]" ds r] assms(1,3) by simp
  obtain d es where ds: "ds = d # es" using assms(2) by (cases ds) auto
  show ?thesis
  proof (cases "d = ''..''")
    case True
    then have "\<not> a" using assms(1) ds by (auto simp: normal_dirs_def)
    moreover have "hd ?s = CHR ''-''" using ds True by simp
    ultimately show ?thesis using loop ds True assms(4) by (simp add: vms_brackets_def Let_def)
  next
    case False
    then have d: "d \<noteq> []" "hd d \<noteq> CHR ''-''" "hd d \<noteq> dot" "hd d \<noteq> CHR '']''"
      using assms(3) ds by (auto simp: vms_dir_def intro: hd_in_set) (metis hd_in_set)+
    define s where "s = ?s"
    have s: "hd s = hd d" "s \<noteq> []" "vms_loop vms_add s [] = (CHR '']'' # r, ds)"
      using ds False d(1) loop by (auto simp: s_def)
    have e: "(if \<not> a \<and> hd ds \<noteq> ''..'' then ''.'' else []) @ ?s = (if a then s else dot # s)"
      using ds False by (simp add: s_def)
    show ?thesis
      unfolding e using s d(2-4) assms(4) by (cases a) (auto simp: vms_brackets_def Let_def)
  qed
qed

text \<open>Behind node and device there are the directories, the name and the version.\<close>

definition vms_end :: "path \<Rightarrow> string" where
  "vms_end p = p_name p @ (if p_version p \<noteq> [] then CHR '';'' # p_version p else [])"

definition vms_tail :: "path \<Rightarrow> string" where
  "vms_tail p =
     (if p_dirs p \<noteq> [] then
        CHR ''['' # (if \<not> p_absolute p \<and> hd (p_dirs p) \<noteq> ''..'' then ''.'' else []) @
        vms_dirs True (p_dirs p) @ CHR '']'' # vms_end p
      else vms_end p)"

lemma buildVMS_parts:
  "buildVMS p = (if p_node p \<noteq> [] then p_node p @ colon # colon # [] else []) @
     (if p_device p \<noteq> [] then p_device p @ [colon] else []) @ vms_tail p"
  by (simp add: buildVMS_def vms_tail_def vms_end_def)

lemma vms_end_split:
  assumes "vms_path p" "\<And>c. c \<noteq> colon \<and> c \<noteq> CHR ''['' \<and> c \<noteq> CHR '';'' \<Longrightarrow> P c" "\<not> P (CHR '';'')"
  shows "takeWhile P (vms_end p) = p_name p"
    and "dropWhile P (vms_end p) = (if p_version p \<noteq> [] then CHR '';'' # p_version p else [])"
proof -
  have "\<forall>c\<in>set (p_name p). P c" using assms(1,2) by (auto simp: vms_path_def vms_plain_def)
  then show "takeWhile P (vms_end p) = p_name p"
    and "dropWhile P (vms_end p) = (if p_version p \<noteq> [] then CHR '';'' # p_version p else [])"
    using takeWhile_sep [of "p_name p" P "CHR '';''" "p_version p"] takeWhile_all [of "p_name p" P] assms(3)
    by (simp_all add: vms_end_def)
qed

lemma vms_end_head: "vms_path p \<Longrightarrow> vms_end p = [] \<or> hd (vms_end p) \<noteq> CHR ''[''"
  by (cases "p_name p") (auto simp: vms_end_def vms_path_def vms_plain_def)

lemma vms_end_colon: "vms_path p \<Longrightarrow> vms_end p = [] \<or> hd (vms_end p) \<noteq> colon"
  by (cases "p_name p") (auto simp: vms_end_def vms_path_def vms_plain_def)

lemma vms_file_end:
  "vms_file (if p_version p \<noteq> [] then CHR '';'' # p_version p else [])
     (empty_path\<lparr>p_node := p_node p, p_device := p_device p, p_dirs := p_dirs p,
        p_absolute := p_absolute p, p_name := p_name p\<rparr>) = p"
  by (cases p) (simp add: vms_file_def empty_path_def)

lemma vms_rest:
  assumes "vms_path p" "p_dirs p = [] \<Longrightarrow> abs2 = p_absolute p"
  shows "(case (if vms_tail p \<noteq> [] \<and> hd (vms_tail p) = CHR ''['' then vms_brackets path (tl (vms_tail p)) abs2
        else Inr (vms_tail p, [], abs2)) of
      Inl e \<Rightarrow> Inl e
    | Inr (it3, dirs, abs3) \<Rightarrow>
        Inr (vms_file (dropWhile (\<lambda>c. c \<noteq> CHR '';'') it3)
          (empty_path\<lparr>p_node := p_node p, p_device := p_device p, p_dirs := dirs, p_absolute := abs3,
             p_name := takeWhile (\<lambda>c. c \<noteq> CHR '';'') it3\<rparr>))) = (Inr p :: path path_result)"
proof -
  note split = vms_end_split [OF assms(1), of "\<lambda>c. c \<noteq> CHR '';''"]
  show ?thesis
  proof (cases "p_dirs p = []")
    case True
    then have t: "vms_tail p = vms_end p" by (simp add: vms_tail_def)
    have "\<not> (vms_end p \<noteq> [] \<and> hd (vms_end p) = CHR ''['')" using vms_end_head [OF assms(1)] by blast
    then show ?thesis
      using split vms_file_end [of p] True assms(2) unfolding t by (simp only: if_False sum.case prod.case) simp
  next
    case False
    have "vms_brackets path (tl (vms_tail p)) abs2 = Inr (vms_end p, p_dirs p, p_absolute p)"
      using vms_brackets_dirs [of "p_absolute p" "p_dirs p" "vms_end p" path abs2] False assms(1)
        vms_end_head [OF assms(1)]
      by (simp add: vms_tail_def vms_path_def normal_def)
    moreover have "vms_tail p \<noteq> [] \<and> hd (vms_tail p) = CHR ''[''" using False by (simp add: vms_tail_def)
    ultimately show ?thesis using split vms_file_end [of p] by (simp only: if_True sum.case prod.case) simp
  qed
qed

lemma plain_stop:
  assumes "vms_plain s" "x \<in> {colon, CHR ''['', CHR '';''}"
  shows "takeWhile (\<lambda>c. c \<noteq> colon \<and> c \<noteq> CHR ''['' \<and> c \<noteq> CHR '';'') (s @ x # r) = s"
    and "dropWhile (\<lambda>c. c \<noteq> colon \<and> c \<noteq> CHR ''['' \<and> c \<noteq> CHR '';'') (s @ x # r) = x # r"
  by (rule takeWhile_sep, use assms in \<open>auto simp: vms_plain_def\<close>)+

lemma plain_colon:
  assumes "vms_plain s"
  shows "takeWhile (\<lambda>c. c \<noteq> colon \<and> c \<noteq> CHR '';'') (s @ colon # r) = s"
    and "dropWhile (\<lambda>c. c \<noteq> colon \<and> c \<noteq> CHR '';'') (s @ colon # r) = colon # r"
  by (rule takeWhile_sep, use assms in \<open>auto simp: vms_plain_def\<close>)+

lemma vms_tail_head:
  assumes "vms_path p"
  shows "vms_tail p = [] \<or> hd (vms_tail p) \<noteq> colon"
  using vms_end_colon [OF assms] by (simp add: vms_tail_def)

lemma vms_end_Nil: "vms_end p = [] \<longleftrightarrow> p_name p = [] \<and> p_version p = []"
  by (simp add: vms_end_def)

lemma vms_roundtrip_lemma:
  assumes "vms_path p" shows "parseVMS (buildVMS p) = Inr p"
proof -
  let ?n = "p_node p" and ?d = "p_device p" and ?t = "vms_tail p"
  have pl: "vms_plain ?n" "vms_plain ?d" using assms by (simp_all add: vms_path_def)
  note th = vms_tail_head [OF assms]
  show ?thesis
  proof (cases "?n = []")
    case False
    show ?thesis
    proof (cases "?d = []")
      case d: False
      have b: "buildVMS p = ?n @ colon # colon # ?d @ colon # ?t"
        using False d by (simp add: buildVMS_parts)
      have hd: "hd ?d \<noteq> CHR ''[''" using pl(2) d by (cases ?d) (auto simp: vms_plain_def)
      have a: "p_dirs p = [] \<Longrightarrow> True = p_absolute p" using assms d by (simp add: vms_path_def)
      show ?thesis
        unfolding parseVMS_def b using False d hd vms_rest [OF assms a]
        by (simp add: plain_stop [OF pl(1)] plain_colon [OF pl(2)])
    next
      case True
      have b: "buildVMS p = ?n @ colon # colon # ?t" using False True by (simp add: buildVMS_parts)
      have a: "p_dirs p = [] \<Longrightarrow> True = p_absolute p" using assms False by (simp add: vms_path_def)
      show ?thesis
      proof (cases "p_dirs p = []")
        case dirs: False
        then have "hd ?t = CHR ''[''" by (simp add: vms_tail_def)
        then show ?thesis
          unfolding parseVMS_def b using False True vms_rest [OF assms a, unfolded True]
          by (simp add: plain_stop [OF pl(1)])
      next
        case dirs: True
        then have t: "?t = vms_end p" by (simp add: vms_tail_def)
        show ?thesis
          unfolding parseVMS_def b t
          using False True dirs vms_end_head [OF assms] vms_file_end [of p] a
          by (cases "p_name p = []"; cases "p_version p = []")
            (simp add: plain_stop [OF pl(1)] vms_end_Nil del: dropWhile_eq_Nil_conv;
             simp add: vms_end_split [OF assms] vms_end_Nil vms_file_def Let_def empty_path_def
               del: dropWhile_eq_Nil_conv)+
      qed
    qed
  next
    case True
    show ?thesis
    proof (cases "?d = []")
      case d: False
      have b: "buildVMS p = ?d @ colon # ?t" using True d by (simp add: buildVMS_parts)
      have a: "p_dirs p = [] \<Longrightarrow> True = p_absolute p" using assms d by (simp add: vms_path_def)
      have c: "(?t \<noteq> [] \<and> hd ?t = colon) = False" using th by blast
      show ?thesis
        unfolding parseVMS_def b using True d vms_rest [OF assms a, unfolded True]
        by (simp add: plain_stop [OF pl(2)] c; simp add: Let_def)
    next
      case d: True
      have b: "buildVMS p = ?t" using True d by (simp add: buildVMS_parts)
      show ?thesis
      proof (cases "p_dirs p = []")
        case dirs: False
        then obtain s where s: "?t = [] @ CHR ''['' # s" "?t = CHR ''['' # s" by (simp add: vms_tail_def)
        have tw: "takeWhile (\<lambda>c. c \<noteq> colon \<and> c \<noteq> CHR ''['' \<and> c \<noteq> CHR '';'') ?t = []"
          "dropWhile (\<lambda>c. c \<noteq> colon \<and> c \<noteq> CHR ''['' \<and> c \<noteq> CHR '';'') ?t = ?t"
          using s(2) by simp_all
        show ?thesis
          unfolding parseVMS_def b tw using True d vms_rest [OF assms, of False, unfolded True d] dirs s(2) by simp
      next
        case dirs: True
        then have t: "?t = vms_end p" by (simp add: vms_tail_def)
        have "\<not> p_absolute p" using assms dirs True d by (simp add: vms_path_def)
        then show ?thesis
          unfolding parseVMS_def b t
          using True d dirs vms_end_head [OF assms] vms_file_end [of p]
          by (cases "p_name p = []"; cases "p_version p = []")
            (simp add: vms_end_split [OF assms] vms_end_Nil del: dropWhile_eq_Nil_conv;
             simp add: vms_end_split [OF assms] vms_end_Nil vms_file_def Let_def empty_path_def
               del: dropWhile_eq_Nil_conv)+
      qed
    qed
  qed
qed

section \<open>Properties\<close>


definition ex_path :: path where
  "ex_path = \<lparr>p_node = [], p_device = [], p_name = ''x.c'', p_version = [], p_dirs = [''a'', ''b''],
     p_absolute = True\<rparr>"


text \<open>
  A path with a device that was read in the Unix syntax is relative, but is written as an absolute one, and
  an absolute path whose first directory ends in a colon is read back with a device.
\<close>

theorem device_path_becomes_absolute:
  "\<exists>p q. parseUnix home ''c:/b'' = Some p \<and> \<not> p_absolute p \<and> p_device p = ''c'' \<and>
     buildUnix p = ''/c:/b'' \<and> parseUnix home (buildUnix p) = Some q \<and> p_absolute q"
  by (simp add: parseUnix.simps unix_loop.simps buildUnix_def empty_path_def Let_def)

text \<open>The paths a program gets by parsing and moving about.\<close>

inductive navigated :: "string \<Rightarrow> path \<Rightarrow> bool" for home where
  nav_empty: "navigated home (Path_absolute a)"
| nav_unix: "parseUnix home s = Some p \<Longrightarrow> navigated home p"
| nav_windows: "parseWindows s = Inr p \<Longrightarrow> navigated home p"
| nav_push: "navigated home p \<Longrightarrow> navigated home (pushDirectory d p)"
| nav_pop: "navigated home p \<Longrightarrow> popDirectory p = Some q \<Longrightarrow> navigated home q"
| nav_directory: "navigated home p \<Longrightarrow> navigated home (makeDirectory p)"
| nav_file: "navigated home p \<Longrightarrow> navigated home (makeFile p)"
| nav_parent: "navigated home p \<Longrightarrow> navigated home (makeParent p)"
| nav_absolute: "navigated home p \<Longrightarrow> navigated home base \<Longrightarrow> navigated home (makeAbsolute base p)"
| nav_resolve: "navigated home p \<Longrightarrow> navigated home q \<Longrightarrow> navigated home (path_resolve q p)"
| nav_name: "navigated home p \<Longrightarrow> navigated home (setFileName n p)"

text \<open>
  The directories of a path stay in normal form: after any sequence of parsing Unix and Windows
  names, entering and leaving directories, resolving and making absolute, none is empty or a
  dot, an absolute path has no double dot, and a relative one has them only at the front.
\<close>

theorem paths_stay_normal:
  assumes "navigated home p" "home \<noteq> [] \<and> hd home = slash"
  shows "normal p"
  using assms(1)
proof induction
  case (nav_unix s p)
  then show ?case using parseUnix_normal [OF assms(2)] by simp
qed (auto simp: Path_absolute_def setFileName_def parseWindows_normal intro: inv_intros popDirectory_normal)

theorem paths_stay_normal_witness:
  "normal (makeParent (pushDirectory ''..'' (pushDirectory ''a'' (Path_absolute False))))"
  by (rule paths_stay_normal [where home = "''/''"])
    (auto intro: nav_parent nav_push nav_empty)

text \<open>Changing the directory from a location, given as the list of names from the root.\<close>

fun cd :: "string \<Rightarrow> string list \<Rightarrow> string list" where
  "cd d loc =
     (if d = [] \<or> d = ''.'' then loc else if d = ''..'' then butlast loc else loc @ [d])"

lemma push_cd:
  assumes "normal p" "p_absolute p"
  shows "p_dirs (pushDirectory d p) = cd d (p_dirs p)"
proof -
  have "''..'' \<notin> set (p_dirs p)" using assms by (simp add: normal_def normal_dirs_def)
  then have "p_dirs p \<noteq> [] \<Longrightarrow> last (p_dirs p) \<noteq> ''..''" using last_in_set by metis
  then show ?thesis using assms(2) by (cases "p_dirs p = []") (auto simp: pushDirectory_def)
qed

lemma fold_push_cd:
  "normal p \<Longrightarrow> p_absolute p \<Longrightarrow> p_dirs (fold pushDirectory ds p) = fold cd ds (p_dirs p)"
proof (induction ds arbitrary: p)
  case (Cons d ds)
  then show ?case using Cons.IH [of "pushDirectory d p"] by (simp add: pushDirectory_normal push_cd del: cd.simps)
qed simp

lemma fold_push_other:
  "p_node (fold pushDirectory ds p) = p_node p \<and> p_device (fold pushDirectory ds p) = p_device p"
  by (induction ds arbitrary: p) (auto simp: pushDirectory_def)

text \<open>
  Resolving a relative path against an absolute one, and making it absolute, yields the location
  that changing directory by its parts leads to, starting at the base with its file name taken
  as a directory when the path is made absolute; node and device are the base's.
\<close>

theorem relative_paths_resolve:
  assumes "normal base" "p_absolute base" "\<not> p_absolute p"
  shows "p_dirs (path_resolve p base) = fold cd (p_dirs p) (p_dirs base) \<and>
    p_absolute (path_resolve p base) \<and> p_name (path_resolve p base) = p_name p \<and>
    p_dirs (makeAbsolute base p) = fold cd (p_name base # p_dirs p) (p_dirs base) \<and>
    p_absolute (makeAbsolute base p) \<and> p_name (makeAbsolute base p) = p_name p \<and>
    p_node (makeAbsolute base p) = p_node base \<and> p_device (makeAbsolute base p) = p_device base"
proof -
  have "p_dirs (fold pushDirectory (p_dirs p) (makeDirectory base)) =
      fold cd (p_dirs p) (p_dirs (makeDirectory base))"
    by (rule fold_push_cd) (use assms in \<open>simp_all add: makeDirectory_normal\<close>)
  moreover have "p_dirs (makeDirectory base) = cd (p_name base) (p_dirs base)"
    using push_cd [OF assms(1,2)] by (simp add: makeDirectory_def del: cd.simps)
  moreover have "p_node (makeDirectory base) = p_node base" "p_device (makeDirectory base) = p_device base"
    by (simp_all add: makeDirectory_def pushDirectory_def)
  ultimately show ?thesis
    using assms fold_push_cd [OF assms(1,2)] fold_push_other
    by (simp add: path_resolve_def makeAbsolute_def Let_def del: cd.simps)
qed

theorem relative_paths_resolve_witness:
  "p_dirs (path_resolve (empty_path\<lparr>p_dirs := [''..'', ''c'']\<rparr>) ex_path) = [''a'', ''c'']"
proof -
  let ?q = "empty_path\<lparr>p_dirs := [''..'', ''c'']\<rparr>"
  have "normal ex_path" "p_absolute ex_path"
    by (simp_all add: ex_path_def normal_def normal_dirs_def plain_def)
  moreover have "\<not> p_absolute ?q" by (simp add: empty_path_def)
  ultimately have n: "normal ex_path" "p_absolute ex_path" "\<not> p_absolute ?q" by this+
  from conjunct1 [OF relative_paths_resolve [OF n]]
  have "p_dirs (path_resolve ?q ex_path) = fold cd (p_dirs ?q) (p_dirs ex_path)" .
  also have "\<dots> = [''a'', ''c'']" by (simp add: ex_path_def)
  finally show ?thesis .
qed

lemma guess_bracket:
  assumes "\<forall>c\<in>set s. c \<noteq> slash \<and> c \<noteq> backslash" "CHR ''['' \<in> set s \<or> hasOpenBracket g \<and> hasClosBracket g"
    and "\<not> hasBackslash g" "\<not> hasSlash g"
  shows "hasClosBracket (guess_scan s g) \<and> \<not> hasBackslash (guess_scan s g) \<and> \<not> hasSlash (guess_scan s g)"
  using assms
proof (induction s arbitrary: g)
  case (Cons c s)
  have c: "c \<noteq> slash" "c \<noteq> backslash" "\<forall>c\<in>set s. c \<noteq> slash \<and> c \<noteq> backslash" using Cons.prems(1) by auto
  consider "c = CHR ''[''" | "c = CHR '']''" | "c = CHR '';''"
    | "c \<noteq> CHR ''[''" "c \<noteq> CHR '']''" "c \<noteq> CHR '';''" by blast
  then show ?case
  proof cases
    case 1
    show ?thesis unfolding 1
      using Cons.IH [OF c(3), of "g\<lparr>hasOpenBracket := True, hasClosBracket := True, semiIt := Some (CHR ''['' # s)\<rparr>"]
        Cons.prems(3,4) by simp
  next
    case 2
    show ?thesis unfolding 2
      using Cons.IH [OF c(3), of "g\<lparr>hasClosBracket := hasOpenBracket g, semiIt := Some (CHR '']'' # s)\<rparr>"]
        Cons.prems(2-4) unfolding 2 by auto
  next
    case 3
    show ?thesis unfolding 3
      using Cons.IH [OF c(3), of "g\<lparr>semiIt := Some (CHR '';'' # s)\<rparr>"] Cons.prems(2-4) unfolding 3 by auto
  next
    case 4
    then show ?thesis using Cons.IH [OF c(3), of g] Cons.prems(2-4) c by auto
  qed
qed simp

text \<open>
  When the syntax is guessed, a file name with an opening bracket in it is taken for an OpenVMS
  name, closed or not, and everything from the bracket on is lost: what is parsed is the file
  whose name ends before the bracket.
\<close>

theorem guess_truncates_name:
  assumes "vms_plain n" "n \<noteq> []" "\<forall>c\<in>set (n @ CHR ''['' # r). c \<noteq> slash \<and> c \<noteq> backslash"
  shows "parseGuess home (n @ CHR ''['' # r) = Some (Inr (empty_path\<lparr>p_name := n\<rparr>))"
proof -
  let ?s = "n @ CHR ''['' # r"
  have w: "\<not> (length ?s > 2 \<and> ?s ! 1 = colon \<and> (?s ! 2 = slash \<or> ?s ! 2 = backslash))"
  proof
    assume "length ?s > 2 \<and> ?s ! 1 = colon \<and> (?s ! 2 = slash \<or> ?s ! 2 = backslash)"
    moreover from this have "?s ! 2 \<in> set ?s" by (intro nth_mem) simp
    ultimately show False using assms(3) by blast
  qed
  have g: "hasClosBracket (guess_scan ?s g) \<and> \<not> hasBackslash (guess_scan ?s g) \<and> \<not> hasSlash (guess_scan ?s g)"
    if "\<not> hasBackslash g" "\<not> hasSlash g" for g
    by (rule guess_bracket) (use assms(3) that in auto)
  have "parseVMS ?s = Inr (empty_path\<lparr>p_name := n\<rparr>)"
    unfolding parseVMS_def using assms(2)
    by (simp add: plain_stop [OF assms(1)]) (simp add: vms_file_def empty_path_def)
  then show ?thesis
    unfolding parseGuess_def Let_def if_not_P [OF w] using w g by (simp only: if_True) simp
qed

theorem guess_truncates_name_witness:
  "parseGuess ''/home/u/'' ''data[1].txt'' = Some (Inr (empty_path\<lparr>p_name := ''data''\<rparr>))"
  using guess_truncates_name [of "''data''" "''1].txt''" "''/home/u/''"]
  by (simp add: vms_plain_def)

end
