(* ===== verification/Sha1.thy ===== *)
theory Sha1
  imports Prelude
begin

text \<open>
  \<^verbatim>\<open>Common/SHA1Engine\<close> and \<^verbatim>\<open>Common/DigestEngine\<close>: the SHA-1 digest on a little-endian machine. The
  buffer of 16 words is kept as its 64 bytes; an access outside it is \<open>None\<close>.
\<close>

unbundle bit_operations_syntax

section \<open>The engine\<close>

record sha1_context =
  s_digest :: "u32 list"
  countLo :: u32
  countHi :: u32
  s_data :: "u8 list"
  slop :: nat

definition BLOCK_SIZE :: nat where "BLOCK_SIZE = 64"
definition DIGEST_SIZE :: nat where "DIGEST_SIZE = 20"

fun words_of :: "u8 list \<Rightarrow> u32 list" where
  "words_of (b0 # b1 # b2 # b3 # bs) = obj_val [b0, b1, b2, b3] # words_of bs"
| "words_of _ = []"

definition bytes_of :: "u32 list \<Rightarrow> u8 list" where
  "bytes_of ws = concat (map obj_bytes ws)"

definition reverse_word :: "u32 \<Rightarrow> u32" where
  "reverse_word w =
     (let value = push_bit 16 w OR drop_bit 16 w
      in drop_bit 8 (value AND 0xFF00FF00) OR push_bit 8 (value AND 0x00FF00FF))"

definition byteReverse :: "u8 list \<Rightarrow> u8 list" where
  "byteReverse buffer = bytes_of (map reverse_word (words_of buffer))"

definition f1 :: "u32 \<Rightarrow> u32 \<Rightarrow> u32 \<Rightarrow> u32" where "f1 x y z = (x AND y) OR (NOT x AND z)"
definition f2 :: "u32 \<Rightarrow> u32 \<Rightarrow> u32 \<Rightarrow> u32" where "f2 x y z = x XOR y XOR z"
definition f3 :: "u32 \<Rightarrow> u32 \<Rightarrow> u32 \<Rightarrow> u32" where
  "f3 x y z = (x AND y) OR (x AND z) OR (y AND z)"
definition f4 :: "u32 \<Rightarrow> u32 \<Rightarrow> u32 \<Rightarrow> u32" where "f4 x y z = x XOR y XOR z"

definition K1 :: u32 where "K1 = 0x5A827999"
definition K2 :: u32 where "K2 = 0x6ED9EBA1"
definition K3 :: u32 where "K3 = 0x8F1BBCDC"
definition K4 :: u32 where "K4 = 0xCA62C1D6"

definition rot :: "nat \<Rightarrow> u32 \<Rightarrow> u32" where
  "rot n x = push_bit n x OR drop_bit (32 - n) x"

text \<open>\<^verbatim>\<open>expand(count)\<close> writes the word behind the last one.\<close>

definition expand :: "u32 list \<Rightarrow> u32 list" where
  "expand W =
     (let count = length W
      in W @ [rot 1 (W ! (count - 3) XOR W ! (count - 8) XOR W ! (count - 14) XOR W ! (count - 16))])"

type_synonym regs = "u32 \<times> u32 \<times> u32 \<times> u32 \<times> u32"

definition subRound :: "(u32 \<Rightarrow> u32 \<Rightarrow> u32 \<Rightarrow> u32) \<Rightarrow> u32 \<Rightarrow> u32 \<Rightarrow> regs \<Rightarrow> regs" where
  "subRound f K w r =
     (case r of (A, B, C, D, E) \<Rightarrow> (rot 5 A + f B C D + E + w + K, A, rot 30 B, C, D))"

definition transform :: "sha1_context \<Rightarrow> sha1_context" where
  "transform c =
     (let W = (expand ^^ 64) (words_of (s_data c));
          d = s_digest c;
          r1 = fold (\<lambda>t. subRound f1 K1 (W ! t)) [0..<20] (d ! 0, d ! 1, d ! 2, d ! 3, d ! 4);
          r2 = fold (\<lambda>t. subRound f2 K2 (W ! t)) [20..<40] r1;
          r3 = fold (\<lambda>t. subRound f3 K3 (W ! t)) [40..<60] r2;
          (A, B, C, D, E) = fold (\<lambda>t. subRound f4 K4 (W ! t)) [60..<80] r3
      in c\<lparr>s_digest := [d ! 0 + A, d ! 1 + B, d ! 2 + C, d ! 3 + D, d ! 4 + E]\<rparr>)"

fun update_loop :: "u8 list \<Rightarrow> sha1_context \<Rightarrow> sha1_context option" where
  "update_loop [] c = Some c"
| "update_loop (b # bs) c =
     (if slop c \<ge> length (s_data c) then None
      else
        (let c1 = c\<lparr>s_data := (s_data c)[slop c := b], slop := slop c + 1\<rparr>
         in update_loop bs
              (if slop c1 = BLOCK_SIZE then
                 (transform (c1\<lparr>s_data := byteReverse (s_data c1)\<rparr>))\<lparr>slop := 0\<rparr>
               else c1)))"

definition updateImpl :: "u8 list \<Rightarrow> u32 \<Rightarrow> sha1_context \<Rightarrow> sha1_context option" where
  "updateImpl buffer count c =
     (if unat count > length buffer then None
      else
        (let carry = (countLo c + push_bit 3 count < countLo c);
             c1 = c\<lparr>countHi := (if carry then countHi c + 1 else countHi c) + drop_bit 29 count,
                    countLo := countLo c + push_bit 3 count\<rparr>
         in update_loop (take (unat count) buffer) c1))"

definition sha1_reset :: "sha1_context \<Rightarrow> sha1_context" where
  "sha1_reset c =
     \<lparr>s_digest = [0x67452301, 0xEFCDAB89, 0x98BADCFE, 0x10325476, 0xC3D2E1F0],
      countLo = 0, countHi = 0, s_data = replicate 64 0, slop = 0\<rparr>"

definition sha1_digest :: "sha1_context \<Rightarrow> u8 list \<times> sha1_context" where
  "sha1_digest c =
     (let lowBitcount = countLo c;
          highBitcount = countHi c;
          count = unat (drop_bit 3 (countLo c) AND 0x3F);
          data1 = (s_data c)[count := 0x80];
          count1 = count + 1;
          c2 = (if count1 > 56 then
                  (transform (c\<lparr>s_data := byteReverse (take count1 data1 @ replicate (64 - count1) 0)\<rparr>))
                else c);
          data2 = (if count1 > 56 then replicate 56 0 @ drop 56 (s_data c2)
                   else take count1 data1 @ replicate (56 - count1) 0 @ drop 56 data1);
          c3 = c2\<lparr>s_data := bytes_of ((words_of (byteReverse data2))[14 := highBitcount, 15 := lowBitcount])\<rparr>;
          c4 = transform c3;
          hash = map (\<lambda>i. ucast (drop_bit (8 * (3 - i mod 4)) (s_digest c4 ! (i div 4))) AND 0xff :: u8) [0..<DIGEST_SIZE]
      in (hash, sha1_reset c4))"

text \<open>The engine is created by a reset, and used by a sequence of updates.\<close>

definition SHA1Engine :: sha1_context where
  "SHA1Engine = sha1_reset \<lparr>s_digest = [], countLo = 0, countHi = 0, s_data = [], slop = 0\<rparr>"

fun sha1_updates :: "u8 list list \<Rightarrow> sha1_context \<Rightarrow> sha1_context option" where
  "sha1_updates [] c = Some c"
| "sha1_updates (m # ms) c = Option.bind (updateImpl m (of_nat (length m)) c) (sha1_updates ms)"

definition hex_digits :: string where
  "hex_digits = ''0123456789abcdef''"

definition digestToHex :: "u8 list \<Rightarrow> string" where
  "digestToHex bytes =
     concat (map (\<lambda>c. [hex_digits ! unat (drop_bit 4 c AND 0xF), hex_digits ! unat (c AND 0xF)]) bytes)"

section \<open>The standard\<close>

text \<open>FIPS 180: padding, message schedule, compression of one block.\<close>

fun be_words :: "u8 list \<Rightarrow> u32 list" where
  "be_words (b0 # b1 # b2 # b3 # bs) =
     of_nat (((unat b0 * 256 + unat b1) * 256 + unat b2) * 256 + unat b3) # be_words bs"
| "be_words _ = []"

definition be_bytes :: "nat \<Rightarrow> nat \<Rightarrow> u8 list" where
  "be_bytes n v = rev (le_bytes n v)"

definition sha_pad :: "u8 list \<Rightarrow> u8 list" where
  "sha_pad M =
     M @ [0x80] @ replicate ((119 - length M mod 64) mod 64) 0 @ be_bytes 8 (8 * length M)"

function sched :: "u32 list \<Rightarrow> nat \<Rightarrow> u32" where
  "sched M t =
     (if t < 16 then M ! t
      else word_rotl 1 (sched M (t - 3) XOR sched M (t - 8) XOR sched M (t - 14) XOR sched M (t - 16)))"
  by pat_completeness auto
termination by (relation "measure snd") auto

declare sched.simps [simp del]

definition sha_f :: "nat \<Rightarrow> u32 \<Rightarrow> u32 \<Rightarrow> u32 \<Rightarrow> u32" where
  "sha_f t x y z =
     (if t < 20 then (x AND y) XOR (NOT x AND z)
      else if t < 40 then x XOR y XOR z
      else if t < 60 then (x AND y) XOR (x AND z) XOR (y AND z)
      else x XOR y XOR z)"

definition sha_K :: "nat \<Rightarrow> u32" where
  "sha_K t = (if t < 20 then 0x5A827999 else if t < 40 then 0x6ED9EBA1
     else if t < 60 then 0x8F1BBCDC else 0xCA62C1D6)"

definition sha_round :: "u32 list \<Rightarrow> nat \<Rightarrow> regs \<Rightarrow> regs" where
  "sha_round M t r =
     (case r of (a, b, c, d, e) \<Rightarrow>
        (word_rotl 5 a + sha_f t b c d + e + sha_K t + sched M t, a, word_rotl 30 b, c, d))"

definition sha_compress :: "u32 list \<Rightarrow> u32 list \<Rightarrow> u32 list" where
  "sha_compress H M =
     (case fold (sha_round M) [0..<80] (H ! 0, H ! 1, H ! 2, H ! 3, H ! 4) of
        (a, b, c, d, e) \<Rightarrow> [a + H ! 0, b + H ! 1, c + H ! 2, d + H ! 3, e + H ! 4])"

function sha_blocks :: "u32 list \<Rightarrow> u8 list \<Rightarrow> u32 list" where
  "sha_blocks H bs =
     (if length bs < 64 then H
      else sha_blocks (sha_compress H (be_words (take 64 bs))) (drop 64 bs))"
  by pat_completeness auto
termination by (relation "measure (\<lambda>(H, bs). length bs)") auto

declare sha_blocks.simps [simp del]

definition sha_init :: "u32 list" where
  "sha_init = [0x67452301, 0xEFCDAB89, 0x98BADCFE, 0x10325476, 0xC3D2E1F0]"

definition sha1 :: "u8 list \<Rightarrow> u8 list" where
  "sha1 M = concat (map (\<lambda>w. be_bytes 4 (unat w)) (sha_blocks sha_init (sha_pad M)))"

section \<open>Words and bytes\<close>

lemma or_sum:
  assumes "unat (x :: u32) < 2 ^ k"
  shows "push_bit k y OR x = push_bit k y + x"
proof -
  have s: "take_bit k x = x" using assms by (simp only: word_unat_eq_iff unat_take_bit_mod) simp
  have "push_bit k y AND x = 0" by (subst s [symmetric]) (auto simp: bit_eq_iff bit_simps)
  then show ?thesis by (rule disjunctive_add_eq_or [symmetric])
qed

lemma obj_val4:
  "(obj_val [a, b, c, d] :: u32) =
     push_bit 8 (push_bit 8 (push_bit 8 (ucast d) OR ucast c) OR ucast b) OR ucast a"
proof -
  have u: "unat (ucast (x :: u8) :: u32) < 2 ^ 8" for x
    using unat_less_256 [of x] by (simp add: unat_ucast)
  have o: "(of_nat (unat (x :: u8)) :: u32) = ucast x" for x by (simp only: of_nat_unat)
  show ?thesis
    unfolding or_sum [OF u]
    by (simp add: push_bit_eq_mult obj_val_def o algebra_simps)
qed

lemma all_32: "(\<forall>n<32. P n) \<longleftrightarrow> P 0 \<and> P 1 \<and> P 2 \<and> P 3 \<and> P 4 \<and> P 5 \<and> P 6 \<and> P 7 \<and> P 8 \<and> P 9 \<and>
    P 10 \<and> P 11 \<and> P 12 \<and> P 13 \<and> P 14 \<and> P 15 \<and> P 16 \<and> P 17 \<and> P 18 \<and> P 19 \<and> P 20 \<and> P 21 \<and>
    P 22 \<and> P 23 \<and> P 24 \<and> P 25 \<and> P 26 \<and> P 27 \<and> P 28 \<and> P 29 \<and> P 30 \<and> P (31::nat)"
proof -
  have "(\<forall>n<32. P n) \<longleftrightarrow> (\<forall>n\<in>set [0..<32]. P n)" by auto
  also have "[0..<32::nat] = [0, 1, 2, 3, 4, 5, 6, 7, 8, 9, 10, 11, 12, 13, 14, 15, 16, 17, 18, 19, 20,
      21, 22, 23, 24, 25, 26, 27, 28, 29, 30, 31]" by (simp add: upt_rec)
  finally show ?thesis by simp
qed

lemma u32_eqI: "(\<forall>n<32. bit (x :: u32) n = bit y n) \<Longrightarrow> x = y"
  by (rule bit_word_eqI) simp

lemma bit_u8: "8 \<le> n \<Longrightarrow> \<not> bit (b :: u8) n"
  using bit_imp_le_length [of b n] by auto

lemma reverse_word_obj: "reverse_word (obj_val [a, b, c, d]) = obj_val [d, c, b, a]"
  unfolding obj_val4 reverse_word_def Let_def
  by (rule u32_eqI, unfold all_32)
    (simp add: bit_simps bit_numeral_rec bit_u8)

lemma be_words_rev: "map reverse_word (words_of bs) = be_words bs"
proof (induction bs rule: words_of.induct)
  case (1 b0 b1 b2 b3 bs)
  have "(obj_val [b3, b2, b1, b0] :: u32) =
      of_nat (((unat b0 * 256 + unat b1) * 256 + unat b2) * 256 + unat b3)"
    by (simp only: obj_val_def le_val.simps mult.commute [of _ "256 :: nat"] add.commute mult_0_right add_0)
  then show ?case by (simp only: be_words.simps words_of.simps list.map reverse_word_obj 1)
qed (simp_all only: be_words.simps words_of.simps list.map)

lemma length_4: "length xs = 4 \<Longrightarrow> \<exists>a b c d. xs = [a, b, c, d]"
  by (auto simp: length_Suc_conv numeral_eq_Suc)

lemma words_of_bytes_of [simp]: "words_of (bytes_of ws) = ws"
proof (induction ws)
  case (Cons w ws)
  obtain a b c d where o: "obj_bytes w = [a, b, c, d]"
    using length_4 [of "obj_bytes w"] by auto
  have "(obj_val [a, b, c, d] :: u32) = w"
    using obj_val_obj_bytes [of w] o by simp
  then show ?case using Cons by (simp add: bytes_of_def o)
qed (simp add: bytes_of_def)

lemma words_of_reverse: "words_of (byteReverse bs) = be_words bs"
  by (simp add: byteReverse_def be_words_rev)

lemma length_bytes_of [simp]: "length (bytes_of ws) = 4 * length ws"
  by (induction ws) (auto simp: bytes_of_def)

lemma length_words_of: "length (words_of bs) = length bs div 4"
  by (induction bs rule: words_of.induct) auto

lemma length_be_words: "length (be_words bs) = length bs div 4"
  by (induction bs rule: be_words.induct) auto

section \<open>Compression\<close>

lemma rot_rotl: "0 < n \<Longrightarrow> n < 32 \<Longrightarrow> rot n x = word_rotl n x"
proof (rule u32_eqI, intro allI impI)
  fix m :: nat assume n: "0 < n" "n < 32" and m: "m < 32"
  show "bit (rot n x) m = bit (word_rotl n x) m"
  proof (cases "n \<le> m")
    case True
    then have "\<not> bit x (32 - n + m)" using bit_imp_le_length [of x "32 - n + m"] by auto
    moreover have "(m + (32 - n)) mod 32 = m - n"
    proof -
      have "m + (32 - n) = 32 + (m - n)" using True n m by simp
      moreover have "m - n < 32" using m by simp
      ultimately show ?thesis by (simp only: mod_add_self1 mod_less)
    qed
    ultimately show ?thesis using True n m by (simp add: rot_def bit_simps)
  next
    case False
    have "(m + (32 - n)) mod 32 = 32 - n + m" using False n by simp
    then show ?thesis using False n m by (simp add: rot_def bit_simps)
  qed
qed

lemma expand_pow:
  assumes "length ws = 16"
  shows "length ((expand ^^ n) ws) = 16 + n \<and> (\<forall>t<16 + n. (expand ^^ n) ws ! t = sched ws t)"
proof (induction n)
  case 0
  then show ?case using assms by (simp add: sched.simps)
next
  case (Suc n)
  let ?W = "(expand ^^ n) ws"
  have l: "length ?W = 16 + n" using Suc by simp
  have "sched ws (16 + n) = word_rotl 1 (?W ! (13 + n) XOR ?W ! (8 + n) XOR ?W ! (2 + n) XOR ?W ! n)"
    using Suc by (subst sched.simps) simp
  then have "expand ?W = ?W @ [sched ws (16 + n)]"
    unfolding expand_def Let_def l by (simp add: rot_rotl)
  then show ?case using Suc l
    by (auto simp: nth_append intro!: arg_cong [of _ _ "sched ws"])
qed

lemma sha_f_eq:
  "t < 20 \<Longrightarrow> f1 = sha_f t" "20 \<le> t \<Longrightarrow> t < 40 \<Longrightarrow> f2 = sha_f t"
  "40 \<le> t \<Longrightarrow> t < 60 \<Longrightarrow> f3 = sha_f t" "60 \<le> t \<Longrightarrow> f4 = sha_f t"
  by (rule ext, rule ext, rule ext, rule bit_word_eqI,
      auto simp: f1_def f2_def f3_def f4_def sha_f_def bit_simps)+

lemma fold_rounds:
  assumes "\<And>t. a \<le> t \<Longrightarrow> t < b \<Longrightarrow> f = sha_f t \<and> K = sha_K t \<and> W ! t = sched ws t"
  shows "fold (\<lambda>t. subRound f K (W ! t)) [a..<b] r = fold (sha_round ws) [a..<b] r"
proof (rule fold_cong)
  fix t assume "t \<in> set [a..<b]"
  then have t: "f = sha_f t" "K = sha_K t" "W ! t = sched ws t" using assms [of t] by auto
  show "subRound f K (W ! t) = sha_round ws t"
  proof
    fix r show "subRound f K (W ! t) r = sha_round ws t r"
      by (cases r) (simp add: subRound_def sha_round_def t rot_rotl ac_simps)
  qed
qed simp_all

lemma transform_compress:
  assumes "length (words_of (s_data c)) = 16"
  shows "transform c = c\<lparr>s_digest := sha_compress (s_digest c) (words_of (s_data c))\<rparr>"
proof -
  let ?ws = "words_of (s_data c)" and ?d = "s_digest c"
  define W where "W = (expand ^^ 64) ?ws"
  have W: "t < 80 \<Longrightarrow> W ! t = sched ?ws t" for t
    using expand_pow [OF assms, of 64] by (simp add: W_def)
  let ?r = "(?d ! 0, ?d ! 1, ?d ! 2, ?d ! 3, ?d ! 4)"
  have "[0..<80::nat] = [0..<20] @ [20..<40] @ [40..<60] @ [60..<80]"
    by (simp add: upt_rec)
  then have "fold (sha_round ?ws) [0..<80] ?r =
      fold (\<lambda>t. subRound f4 K4 (W ! t)) [60..<80]
        (fold (\<lambda>t. subRound f3 K3 (W ! t)) [40..<60]
          (fold (\<lambda>t. subRound f2 K2 (W ! t)) [20..<40]
            (fold (\<lambda>t. subRound f1 K1 (W ! t)) [0..<20] ?r)))"
    using fold_rounds [of 0 20 f1 K1 W ?ws ?r] fold_rounds [of 20 40 f2 K2 W ?ws]
      fold_rounds [of 40 60 f3 K3 W ?ws] fold_rounds [of 60 80 f4 K4 W ?ws]
    by (simp add: W sha_f_eq sha_K_def K1_def K2_def K3_def K4_def del: upt_rec_numeral)
  then show ?thesis
    by (simp add: transform_def sha_compress_def Let_def W_def [symmetric] case_prod_beta add.commute
        del: upt_rec_numeral)
qed

section \<open>Updates and the final block\<close>

definition whole :: "'a list \<Rightarrow> 'a list" where
  "whole M = take (64 * (length M div 64)) M"

definition partial :: "'a list \<Rightarrow> 'a list" where
  "partial M = drop (64 * (length M div 64)) M"

lemma whole_partial: "whole M @ partial M = M"
  by (simp add: whole_def partial_def)

lemma length_partial: "length (partial M) = length M mod 64"
  by (simp add: partial_def minus_mult_div_eq_mod)

lemma whole_snoc:
  "whole (M @ [b]) = (if Suc (length M mod 64) = 64 then M @ [b] else whole M)"
  "partial (M @ [b]) = (if Suc (length M mod 64) = 64 then [] else partial M @ [b])"
proof -
  have d: "Suc (length M) div 64 = (if Suc (length M mod 64) = 64 then Suc (length M div 64) else length M div 64)"
    by (auto simp: div_Suc mod_Suc)
  have m: "Suc (length M mod 64) = 64 \<Longrightarrow> 64 * Suc (length M div 64) = Suc (length M)"
    using div_mult_mod_eq [of "length M" 64] by simp
  have le: "64 * (length M div 64) \<le> length M" by simp
  show "whole (M @ [b]) = (if Suc (length M mod 64) = 64 then M @ [b] else whole M)"
    using m le by (simp add: whole_def d)
  show "partial (M @ [b]) = (if Suc (length M mod 64) = 64 then [] else partial M @ [b])"
    using m le by (simp add: partial_def d)
qed

lemma sha_blocks_append:
  "64 dvd length as \<Longrightarrow> sha_blocks H (as @ bs) = sha_blocks (sha_blocks H as) bs"
proof (induction H as rule: sha_blocks.induct)
  case (1 H as)
  show ?case
  proof (cases "length as < 64")
    case True
    then have "as = []" using "1.prems" by (auto dest: dvd_imp_le)
    then show ?thesis by (simp add: sha_blocks.simps [of H "[]"])
  next
    case False
    then have "64 dvd length (drop 64 as)" using "1.prems" by simp
    with 1 False have "sha_blocks (sha_compress H (be_words (take 64 as))) (drop 64 as @ bs) =
        sha_blocks (sha_blocks (sha_compress H (be_words (take 64 as))) (drop 64 as)) bs" by simp
    moreover have "sha_blocks H (as @ bs) =
        sha_blocks (sha_compress H (be_words (take 64 as))) (drop 64 as @ bs)"
      using False by (subst sha_blocks.simps) simp
    moreover have "sha_blocks H as = sha_blocks (sha_compress H (be_words (take 64 as))) (drop 64 as)"
      using False by (subst sha_blocks.simps) simp
    ultimately show ?thesis by simp
  qed
qed

lemma sha_blocks_one:
  "length b = 64 \<Longrightarrow> sha_blocks H b = sha_compress H (be_words b)"
  by (subst sha_blocks.simps) (simp add: sha_blocks.simps [of _ "[]"])

text \<open>The state after the bytes \<open>M\<close>, apart from the counters.\<close>

definition sha_state :: "u8 list \<Rightarrow> sha1_context \<Rightarrow> bool" where
  "sha_state M c \<longleftrightarrow> s_digest c = sha_blocks sha_init (whole M) \<and> slop c = length M mod 64 \<and>
     length (s_data c) = 64 \<and> take (slop c) (s_data c) = partial M"

lemma length_byteReverse: "length bs = 64 \<Longrightarrow> length (byteReverse bs) = 64"
  by (simp add: byteReverse_def length_words_of)

lemma transform_fields [simp]:
  "countLo (transform c) = countLo c" "countHi (transform c) = countHi c" "slop (transform c) = slop c"
  "s_data (transform c) = s_data c"
  by (simp_all add: transform_def Let_def case_prod_beta)

lemma update_byte:
  assumes "sha_state M c"
  shows "\<exists>c'. update_loop (b # bs) c = update_loop bs c' \<and> sha_state (M @ [b]) c' \<and>
    countLo c' = countLo c \<and> countHi c' = countHi c"
proof -
  let ?c1 = "c\<lparr>s_data := (s_data c)[slop c := b], slop := slop c + 1\<rparr>"
  have s: "slop c = length M mod 64" "length (s_data c) = 64" "take (slop c) (s_data c) = partial M"
    "s_digest c = sha_blocks sha_init (whole M)"
    using assms by (auto simp: sha_state_def)
  have lt: "slop c < 64" using s(1) by simp
  have data: "take (slop c + 1) ((s_data c)[slop c := b]) = partial M @ [b]"
    using s(2,3) lt by (simp add: take_Suc_conv_app_nth)
  show ?thesis
  proof (cases "slop c + 1 = 64")
    case True
    let ?c2 = "(transform (?c1\<lparr>s_data := byteReverse (s_data ?c1)\<rparr>))\<lparr>slop := 0\<rparr>"
    have w: "whole (M @ [b]) = M @ [b]" "partial (M @ [b]) = []" "length (M @ [b]) mod 64 = 0"
      using whole_snoc [of M b] True s(1) by (simp_all add: mod_Suc)
    have d: "(s_data c)[slop c := b] = partial M @ [b]"
      using data True s(2) by simp
    have l64: "length (partial M @ [b]) = 64" using True s(1) by (simp add: length_partial)
    have "s_digest ?c2 = sha_compress (s_digest c) (be_words (partial M @ [b]))"
      using l64 by (simp add: transform_compress words_of_reverse d length_be_words)
    also have "\<dots> = sha_blocks sha_init (whole M @ (partial M @ [b]))"
      using s(4) l64 by (subst sha_blocks_append) (simp_all add: sha_blocks_one whole_def)
    also have "whole M @ (partial M @ [b]) = M @ [b]" by (simp add: whole_partial flip: append_assoc)
    finally have "sha_state (M @ [b]) ?c2"
      using w d l64 by (simp add: sha_state_def length_byteReverse)
    moreover have "update_loop (b # bs) c = update_loop bs ?c2"
      using lt s(2) True by (simp add: Let_def BLOCK_SIZE_def)
    ultimately show ?thesis by (intro exI [of _ ?c2]) simp
  next
    case False
    then have w: "whole (M @ [b]) = whole M" "partial (M @ [b]) = partial M @ [b]"
      "length (M @ [b]) mod 64 = slop c + 1"
      using whole_snoc [of M b] s(1) by (simp_all add: mod_Suc)
    have "sha_state (M @ [b]) ?c1"
      using w s data by (simp add: sha_state_def)
    moreover have "update_loop (b # bs) c = update_loop bs ?c1"
      using lt s(2) False by (simp add: Let_def BLOCK_SIZE_def)
    ultimately show ?thesis by (intro exI [of _ ?c1]) simp
  qed
qed

lemma update_loop_state:
  "sha_state M c \<Longrightarrow>
   \<exists>c'. update_loop bs c = Some c' \<and> sha_state (M @ bs) c' \<and> countLo c' = countLo c \<and> countHi c' = countHi c"
proof (induction bs arbitrary: M c)
  case (Cons b bs)
  obtain c1 where c1: "update_loop (b # bs) c = update_loop bs c1" "sha_state (M @ [b]) c1"
    "countLo c1 = countLo c" "countHi c1 = countHi c"
    using update_byte [OF Cons.prems] by blast
  with Cons.IH [OF c1(2)] show ?case by auto
qed simp

definition bit_count :: "sha1_context \<Rightarrow> nat" where
  "bit_count c = unat (countHi c) * 2 ^ 32 + unat (countLo c)"

lemma count_add:
  fixes hi lo cnt :: u32
  assumes "unat hi * 2 ^ 32 + unat lo + 8 * unat cnt < 2 ^ 64"
  shows "unat ((if lo + push_bit 3 cnt < lo then hi + 1 else hi) + drop_bit 29 cnt) * 2 ^ 32 +
    unat (lo + push_bit 3 cnt) = unat hi * 2 ^ 32 + unat lo + 8 * unat cnt"
proof -
  let ?n = "unat cnt" and ?q = "unat cnt div 2 ^ 29"
  let ?p = "8 * ?n mod 2 ^ 32"
  have p: "unat (push_bit 3 cnt) = ?p"
    by (simp add: push_bit_eq_mult unat_word_ariths mult.commute)
  have split: "8 * ?n = ?q * 2 ^ 32 + ?p"
  proof -
    have "8 * ?n div 2 ^ 32 = ?q"
      using div_mult2_eq [of "8 * ?n" 8 "2 ^ 29"] by simp
    then show ?thesis using div_mult_mod_eq [of "8 * ?n" "2 ^ 32"] by metis
  qed
  have q: "unat (drop_bit 29 cnt) = ?q" by (rule unat_drop_bit_div)
  have lo: "unat lo < 2 ^ 32" using unat_less_2p [of lo] by simp
  have s: "unat (lo + push_bit 3 cnt) = (unat lo + ?p) mod 2 ^ 32"
    by (simp only: unat_word_ariths p) simp
  have plt: "?p < 2 ^ 32" by simp
  show ?thesis
  proof (cases "unat lo + ?p < 2 ^ 32")
    case True
    then have s': "unat (lo + push_bit 3 cnt) = unat lo + ?p" unfolding s by simp
    then have "\<not> lo + push_bit 3 cnt < lo" by (simp add: word_less_nat_alt)
    moreover have "unat (hi + drop_bit 29 cnt) = unat hi + ?q"
    proof -
      have "(unat hi + ?q) * 2 ^ 32 < 2 ^ 32 * 2 ^ 32" using assms split by (simp add: algebra_simps)
      then have "unat hi + ?q < 2 ^ 32" by simp
      then show ?thesis by (simp only: unat_word_ariths q) simp
    qed
    ultimately show ?thesis using s' split by (simp add: algebra_simps)
  next
    case False
    have s': "unat (lo + push_bit 3 cnt) + 2 ^ 32 = unat lo + ?p"
    proof -
      have "unat lo + ?p = (unat lo + ?p - 2 ^ 32) + 2 ^ 32" using False by simp
      moreover have "unat lo + ?p - 2 ^ 32 < 2 ^ 32" using lo plt by linarith
      ultimately have "(unat lo + ?p) mod 2 ^ 32 = unat lo + ?p - 2 ^ 32"
        by (metis mod_add_self2 mod_less)
      then show ?thesis unfolding s using False by linarith
    qed
    then have "lo + push_bit 3 cnt < lo" using plt by (simp only: word_less_nat_alt)
    moreover have "unat (hi + 1 + drop_bit 29 cnt) = unat hi + 1 + ?q"
    proof -
      have "(unat hi + 1 + ?q) * 2 ^ 32 < 2 ^ 32 * 2 ^ 32" using assms split False by (simp add: algebra_simps)
      then have lt: "unat hi + 1 + ?q < 2 ^ 32" by simp
      then have "unat (hi + 1) = unat hi + 1" by (simp only: unat_word_ariths) simp
      then show ?thesis using lt by (simp only: unat_word_ariths(1) [of "hi + 1"] q) simp
    qed
    ultimately show ?thesis using s' split by (simp add: algebra_simps)
  qed
qed

lemma updateImpl_state:
  assumes "sha_state M c" "bit_count c = 8 * length M" "length m < 2 ^ 32" "length (M @ m) < 2 ^ 61"
  shows "\<exists>c'. updateImpl m (of_nat (length m)) c = Some c' \<and> sha_state (M @ m) c' \<and>
    bit_count c' = 8 * length (M @ m)"
proof -
  let ?n = "of_nat (length m) :: u32"
  have n: "unat ?n = length m" using assms(3) by (simp add: unat_of_nat)
  let ?c = "c\<lparr>countHi := (if countLo c + push_bit 3 ?n < countLo c then countHi c + 1 else countHi c) + drop_bit 29 ?n,
                    countLo := countLo c + push_bit 3 ?n\<rparr>"
  have "sha_state M ?c" using assms(1) unfolding sha_state_def by (cases c) simp
  moreover have "bit_count ?c = 8 * length (M @ m)"
    using count_add [of "countHi c" "countLo c" ?n] assms(2,4) n by (simp add: bit_count_def)
  ultimately show ?thesis
    using update_loop_state [of M ?c m] n by (auto simp: updateImpl_def bit_count_def Let_def)
qed

lemma updates_state:
  "\<lbrakk>sha_state M c; bit_count c = 8 * length M; \<forall>m\<in>set ms. length m < 2 ^ 32; length (M @ concat ms) < 2 ^ 61\<rbrakk> \<Longrightarrow>
   \<exists>c'. sha1_updates ms c = Some c' \<and> sha_state (M @ concat ms) c' \<and> bit_count c' = 8 * length (M @ concat ms)"
proof (induction ms arbitrary: M c)
  case (Cons m ms)
  obtain c1 where c1: "updateImpl m (of_nat (length m)) c = Some c1" "sha_state (M @ m) c1"
    "bit_count c1 = 8 * length (M @ m)"
    using updateImpl_state [OF Cons.prems(1,2), of m] Cons.prems(3,4) by auto
  have "\<forall>m\<in>set ms. length m < 2 ^ 32" "length ((M @ m) @ concat ms) < 2 ^ 61" using Cons.prems(3,4) by simp_all
  from Cons.IH [OF c1(2,3) this] show ?case using c1(1) by simp
qed simp

lemma reset_state: "sha_state [] (sha1_reset c) \<and> bit_count (sha1_reset c) = 0"
  by (simp add: sha_state_def sha1_reset_def bit_count_def whole_def partial_def sha_init_def
      sha_blocks.simps [of _ "[]"])

section \<open>The digest\<close>

lemma be_words_append: "4 dvd length xs \<Longrightarrow> be_words (xs @ ys) = be_words xs @ be_words ys"
proof (induction xs rule: be_words.induct)
  case (1 b0 b1 b2 b3 bs)
  have "4 dvd length bs" using 1(2) by (simp add: dvd_def) presburger
  then show ?case using 1(1) by simp
qed (auto dest: dvd_imp_le)

lemma le_bytes_4: "le_bytes 4 v = [of_nat v, of_nat (v div 256), of_nat (v div 256 div 256), of_nat (v div 256 div 256 div 256)]"
proof -
  have "le_bytes (Suc (Suc (Suc (Suc 0)))) v = [of_nat v, of_nat (v div 256), of_nat (v div 256 div 256), of_nat (v div 256 div 256 div 256)]"
    by (simp only: le_bytes.simps)
  then show ?thesis by (simp only: numeral_nat One_nat_def)
qed

lemma be_words_4: "be_words (be_bytes 4 v) = [of_nat v]"
proof -
  have "le_val (le_bytes 4 v) = v mod 256 ^ 4" by (rule le_val_le_bytes)
  then have "((unat (of_nat (v div 256 div 256 div 256) :: u8) * 256 + unat (of_nat (v div 256 div 256) :: u8)) * 256 +
      unat (of_nat (v div 256) :: u8)) * 256 + unat (of_nat v :: u8) = v mod 2 ^ 32"
    by (simp add: le_bytes_4)
  then have "be_words (be_bytes 4 v) = [of_nat (v mod 2 ^ 32)]"
    by (simp add: be_bytes_def le_bytes_4)
  also have "(of_nat (v mod 2 ^ 32) :: u32) = of_nat v"
    by (simp add: word_unat_eq_iff unat_of_nat)
  finally show ?thesis .
qed

lemma le_bytes_add: "le_bytes (m + n) v = le_bytes m v @ le_bytes n (v div 256 ^ m)"
  by (induction m arbitrary: v) (auto simp: div_mult2_eq)

lemma be_words_8: "be_words (be_bytes 8 v) = [of_nat (v div 2 ^ 32), of_nat v]"
proof -
  have "be_bytes 8 v = be_bytes 4 (v div 2 ^ 32) @ be_bytes 4 v"
    using le_bytes_add [of 4 4 v] by (simp add: be_bytes_def)
  moreover have "length (be_bytes 4 (v div 2 ^ 32)) = 4" by (simp add: be_bytes_def)
  ultimately show ?thesis by (simp add: be_words_append be_words_4)
qed

lemma bit_counters:
  assumes "bit_count c = n" "n < 2 ^ 64"
  shows "countHi c = of_nat (n div 2 ^ 32)" "countLo c = of_nat n"
proof -
  have lo: "unat (countLo c) < 2 ^ 32" using unat_less_2p [of "countLo c"] by simp
  have n: "n = unat (countHi c) * 2 ^ 32 + unat (countLo c)" using assms(1) by (simp add: bit_count_def)
  have "n div 2 ^ 32 = unat (countHi c)" "n mod 2 ^ 32 = unat (countLo c)"
    unfolding n using lo by simp_all
  then show "countHi c = of_nat (n div 2 ^ 32)" "countLo c = of_nat n"
    by (simp_all add: word_unat_eq_iff unat_of_nat)
qed

lemma digest_offset:
  assumes "bit_count c = 8 * l" "8 * l < 2 ^ 64"
  shows "unat (drop_bit 3 (countLo c) AND 0x3F) = l mod 64"
proof -
  have "unat (countLo c) = 8 * l mod (8 * 2 ^ 29)"
    by (simp only: bit_counters(2) [OF assms] unat_of_nat) simp
  also have "\<dots> = 8 * (l mod 2 ^ 29)" by (rule mod_mult_mult1)
  finally have "unat (countLo c) div 2 ^ 3 = l mod 2 ^ 29" by simp
  moreover have "(x :: u32) AND 0x3F = take_bit 6 x" for x
    using take_bit_eq_mask [of 6 x] by (simp add: mask_eq_exp_minus_1)
  ultimately have "unat (drop_bit 3 (countLo c) AND 0x3F) = l mod 2 ^ 29 mod 2 ^ 6"
    by (simp only: unat_take_bit_mod unat_drop_bit_div)
  also have "\<dots> = l mod 2 ^ 6" by (rule mod_mod_cancel) (simp add: le_imp_power_dvd)
  finally show ?thesis by simp
qed

lemma length_sha_compress [simp]: "length (sha_compress H M) = 5"
  by (simp add: sha_compress_def case_prod_beta del: upt_rec_numeral)

lemma last_block:
  assumes "length pre = 56" "length tl8 = 8"
  shows "s_digest (transform (c\<lparr>s_data := bytes_of ((words_of (byteReverse (pre @ tl8)))
      [14 := of_nat (n div 2 ^ 32), 15 := of_nat n])\<rparr>)) =
    sha_compress (s_digest c) (be_words (pre @ be_bytes 8 n))"
proof -
  have p: "length (be_words pre) = 14" "4 dvd length pre" using assms(1) by (simp_all add: length_be_words)
  obtain v w where "be_words tl8 = [v, w]"
    using assms(2) length_be_words [of tl8] by (auto simp: numeral_2_eq_2 length_Suc_conv)
  then have "(be_words (pre @ tl8))[14 := of_nat (n div 2 ^ 32), 15 := of_nat n] =
      be_words (pre @ be_bytes 8 n)"
    using p by (simp add: be_words_append be_words_8 list_update_append)
  moreover have "length (be_words (pre @ be_bytes 8 n)) = 16"
    using assms(1) by (simp add: length_be_words be_bytes_def)
  ultimately show ?thesis by (simp add: transform_compress words_of_reverse)
qed

lemma hash_byte:
  fixes w :: u32
  shows "(ucast (drop_bit (8 * j) w) AND 0xff :: u8) = of_nat (unat w div 256 ^ j)"
proof -
  have "(x :: u8) AND 0xff = x" for x
    using take_bit_word_eq_self [of 8 x] by (simp add: take_bit_eq_mask mask_eq_exp_minus_1)
  moreover have "(ucast (drop_bit (8 * j) w) :: u8) = of_nat (unat (drop_bit (8 * j) w))"
    by (simp only: of_nat_unat)
  ultimately show ?thesis by (simp add: unat_drop_bit_div power_mult)
qed

lemma be_bytes_4: "be_bytes 4 v =
    [of_nat (v div 256 ^ 3), of_nat (v div 256 ^ 2), of_nat (v div 256 ^ 1), of_nat (v div 256 ^ 0)]"
  by (simp add: be_bytes_def le_bytes_4 power2_eq_square power3_eq_cube flip: div_mult2_eq)

lemma hash_bytes:
  fixes H :: "u32 list"
  assumes "length H = 5"
  shows "map (\<lambda>i. ucast (drop_bit (8 * (3 - i mod 4)) (H ! (i div 4))) AND 0xff :: u8) [0..<DIGEST_SIZE] =
    concat (map (\<lambda>w. be_bytes 4 (unat w)) H)"
proof -
  obtain a b c d e where "H = [a, b, c, d, e]"
    using assms by (auto simp: numeral_eq_Suc length_Suc_conv)
  moreover have "[0..<20::nat] = [0, 1, 2, 3, 4, 5, 6, 7, 8, 9, 10, 11, 12, 13, 14, 15, 16, 17, 18, 19]"
    by (simp add: upt_rec)
  ultimately show ?thesis
    unfolding DIGEST_SIZE_def be_bytes_4 hash_byte by simp
qed


lemma digest_exact:
  assumes st: "sha_state M c" and n: "bit_count c = 8 * length M" "length M < 2 ^ 61"
  shows "sha1_digest c = (sha1 M, SHA1Engine)"
proof -
  define r where "r = length M mod 64"
  let ?n = "8 * length M"
  let ?p = "partial M @ [0x80]" and ?tail = "be_bytes 8 (8 * length M)"
  have big: "?n < 2 ^ 64" using n(2) by simp
  have st': "s_digest c = sha_blocks sha_init (whole M)" "length (s_data c) = 64" "take r (s_data c) = partial M"
    using st by (auto simp: sha_state_def r_def)
  have r: "r < 64" by (simp add: r_def)
  define D where "D = (s_data c)[r := 0x80]"
  have D: "take (Suc r) D = ?p" "length D = 64"
    using st'(2,3) r by (simp_all add: D_def take_Suc_conv_app_nth)
  have lp: "length ?p = Suc r" by (simp add: length_partial r_def)
  have wh: "64 dvd length (whole M)" by (simp add: whole_def)
  have off: "unat (drop_bit 3 (countLo c) AND 0x3F) = r" using digest_offset [OF n(1) big] by (simp add: r_def)
  note cnt = bit_counters [OF n(1) big]
  have pad: "sha_pad M = whole M @ ?p @ replicate ((119 - r) mod 64) 0 @ ?tail"
    by (simp add: sha_pad_def r_def whole_partial flip: append_assoc)
  have lt: "length ?tail = 8" by (simp add: be_bytes_def)
  have step: "sha_blocks sha_init (sha_pad M) =
      sha_blocks (s_digest c) (?p @ replicate ((119 - r) mod 64) 0 @ ?tail)"
    unfolding pad using sha_blocks_append [OF wh] st'(1) by simp
  let ?hash = "\<lambda>(H :: u32 list) i. ucast (drop_bit (8 * (3 - i mod 4)) (H ! (i div 4))) AND 0xff :: u8"
  have "length (sha_blocks H bs) = 5" if "length H = 5" for H bs
    using that by (induction H bs rule: sha_blocks.induct) (simp add: sha_blocks.simps)
  from this [of sha_init "sha_pad M"]
  have finish: "(map (?hash (sha_blocks sha_init (sha_pad M))) [0..<DIGEST_SIZE], sha1_reset x) = (sha1 M, SHA1Engine)"
    for x :: sha1_context
    by (subst hash_bytes) (simp_all add: sha_init_def sha1_def SHA1Engine_def sha1_reset_def)
  show ?thesis
  proof (cases "Suc r > 56")
    case False
    let ?pre = "?p @ replicate (56 - Suc r) 0"
    have z: "(119 - r) mod 64 = 56 - Suc r"
    proof -
      have "119 - r = 64 + (56 - Suc r)" using False by linarith
      then have "(119 - r) mod 64 = (56 - Suc r) mod 64" by (simp only: mod_add_self1)
      also have "\<dots> = 56 - Suc r" by (rule mod_less) simp
      finally show ?thesis .
    qed
    have "length ?pre = 56" "length (drop 56 D) = 8" using False lp D(2) by simp_all
    note last = last_block [OF this, where c = c and n = ?n]
    let ?c4 = "transform (c\<lparr>s_data := bytes_of ((words_of (byteReverse (?pre @ drop 56 D)))
      [14 := of_nat (?n div 2 ^ 32), 15 := of_nat ?n])\<rparr>)"
    have "sha_blocks sha_init (sha_pad M) = sha_compress (s_digest c) (be_words (?pre @ ?tail))"
      unfolding step z using \<open>length ?pre = 56\<close> lt by (simp add: sha_blocks_one)
    then have "s_digest ?c4 = sha_blocks sha_init (sha_pad M)" using last by (simp only:)
    moreover have "sha1_digest c = (map (?hash (s_digest ?c4)) [0..<DIGEST_SIZE], sha1_reset ?c4)"
      unfolding sha1_digest_def Let_def off D_def [symmetric]
      unfolding cnt Suc_eq_plus1 [symmetric] D(1)
      by (simp only: False if_False append_assoc)
    ultimately show ?thesis using finish by simp
  next
    case True
    let ?blk = "?p @ replicate (64 - Suc r) 0"
    let ?c2 = "transform (c\<lparr>s_data := byteReverse ?blk\<rparr>)"
    have z: "(119 - r) mod 64 = (64 - Suc r) + 56"
    proof -
      have "119 - r = (64 - Suc r) + 56" "(64 - Suc r) + 56 < 64" using True r by linarith+
      then show ?thesis by (simp only: mod_less)
    qed
    have b: "length ?blk = 64" using lp r by simp
    have "length (replicate 56 (0 :: u8)) = 56" "length (drop 56 (s_data ?c2)) = 8"
      using b by (simp_all add: length_byteReverse)
    note last = last_block [OF this, where c = ?c2 and n = ?n]
    let ?c4 = "transform (?c2\<lparr>s_data := bytes_of ((words_of (byteReverse (replicate 56 0 @ drop 56 (s_data ?c2))))
      [14 := of_nat (?n div 2 ^ 32), 15 := of_nat ?n])\<rparr>)"
    have s2: "s_digest ?c2 = sha_compress (s_digest c) (be_words ?blk)"
      using b by (simp add: transform_compress words_of_reverse length_be_words)
    have "sha_blocks sha_init (sha_pad M) = sha_blocks (s_digest c) (?blk @ (replicate 56 0 @ ?tail))"
      unfolding step z replicate_add by simp
    also have "\<dots> = sha_compress (s_digest ?c2) (be_words (replicate 56 0 @ ?tail))"
      unfolding s2 using b lt by (subst sha_blocks_append) (simp_all add: sha_blocks_one)
    finally have "s_digest ?c4 = sha_blocks sha_init (sha_pad M)" using last by (simp only:)
    moreover have "sha1_digest c = (map (?hash (s_digest ?c4)) [0..<DIGEST_SIZE], sha1_reset ?c4)"
      unfolding sha1_digest_def Let_def off D_def [symmetric]
      unfolding cnt Suc_eq_plus1 [symmetric] D(1)
      by (simp only: True if_True)
    ultimately show ?thesis using finish by simp
  qed
qed

text \<open>C20: hashing. For chunks of less than 4 GB each and less than \<open>2 ^ 61\<close> bytes together, the updates stay
  inside the buffer, and the digest is the SHA-1 digest of the concatenation as the standard
  defines it, however the data is cut; afterwards the engine is as new.\<close>

theorem sha1_exact:
  assumes "\<forall>m\<in>set ms. length m < 2 ^ 32" "length (concat ms) < 2 ^ 61"
  shows "Option.bind (sha1_updates ms SHA1Engine) (\<lambda>c. Some (sha1_digest c)) =
    Some (sha1 (concat ms), SHA1Engine)"
proof -
  have "sha_state [] SHA1Engine" "bit_count SHA1Engine = 8 * length ([] :: u8 list)"
    using reset_state by (simp_all add: SHA1Engine_def)
  from updates_state [OF this assms(1)] assms(2) digest_exact show ?thesis by auto
qed

theorem sha1_exact_witness:
  "Option.bind (sha1_updates [[97], [98, 99]] SHA1Engine) (\<lambda>c. Some (sha1_digest c)) =
    Some (sha1 [97, 98, 99], SHA1Engine)"
  using sha1_exact [of "[[97], [98, 99]]"] by simp

end
