(* ===== verification/String_Util.thy ===== *)
theory String_Util
  imports String_Tok "HOL-Library.Sublist"
begin

text \<open>
  \<^verbatim>\<open>Common/StringUtil.h\<close>: trimming, case, comparison, translation, replacement and concatenation
  of strings. Positions that are \<^verbatim>\<open>int\<close> counters are \<open>nat\<close>s one behind the source's, for
  strings of less than 2 GB; the \<^verbatim>\<open>size_type\<close> arguments of \<^verbatim>\<open>icompare\<close> are 64-bit words.
\<close>

section \<open>The operations\<close>

text \<open>\<^verbatim>\<open>std::string::find\<close>: the first position at which \<open>sub\<close> stands.\<close>

fun find_str :: "string \<Rightarrow> string \<Rightarrow> nat option" where
  "find_str sub [] = (if sub = [] then Some 0 else None)"
| "find_str sub (c # s) =
     (if take (length sub) (c # s) = sub then Some 0 else map_option Suc (find_str sub s))"

definition find_from :: "string \<Rightarrow> string \<Rightarrow> nat \<Rightarrow> nat option" where
  "find_from str sub start =
     (if start > length str then None else map_option ((+) start) (find_str sub (drop start str)))"

definition trimLeft :: "string \<Rightarrow> string" where
  "trimLeft str = dropWhile isSpaceChar str"

definition trimLeftInPlace :: "string \<Rightarrow> string" where
  "trimLeftInPlace str = drop (length (takeWhile isSpaceChar str)) str"

text \<open>The loop \<^verbatim>\<open>while (pos >= 0 && isSpace(str[pos])) --pos\<close>, with \<open>pos + 1\<close> as argument and result.\<close>

fun skip_back :: "string \<Rightarrow> nat \<Rightarrow> nat" where
  "skip_back str 0 = 0"
| "skip_back str (Suc pos) = (if isSpaceChar (str ! pos) then skip_back str pos else Suc pos)"

definition trimRight :: "string \<Rightarrow> string" where
  "trimRight str = take (skip_back str (length str)) str"

definition trimRightInPlace :: "string \<Rightarrow> string" where
  "trimRightInPlace str = take (skip_back str (length str)) str"

text \<open>The two loops of \<^verbatim>\<open>trim\<close>; \<open>e\<close> is \<open>last + 1\<close>.\<close>

function trim_first :: "string \<Rightarrow> nat \<Rightarrow> nat \<Rightarrow> nat" where
  "trim_first str first e =
     (if first < e \<and> isSpaceChar (str ! first) then trim_first str (Suc first) e else first)"
  by pat_completeness auto
termination by (relation "measure (\<lambda>(str, first, e). e - first)") auto

function trim_last :: "string \<Rightarrow> nat \<Rightarrow> nat \<Rightarrow> nat" where
  "trim_last str first e =
     (if first < e \<and> isSpaceChar (str ! (e - 1)) then trim_last str first (e - 1) else e)"
  by pat_completeness auto
termination by (relation "measure (\<lambda>(str, first, e). e)") auto

declare trim_first.simps [simp del] trim_last.simps [simp del]

definition trim :: "string \<Rightarrow> string" where
  "trim str =
     (let first = trim_first str 0 (length str); e = trim_last str first (length str)
      in take (e - first) (drop first str))"

definition trimInPlace :: "string \<Rightarrow> string" where
  "trimInPlace str =
     (let first = trim_first str 0 (length str); e = trim_last str first (length str)
      in drop first (take e str))"

definition lower_char :: "char \<Rightarrow> char" where
  "lower_char c = char_at (toLower (code_of c))"

definition upper_char :: "char \<Rightarrow> char" where
  "upper_char c = char_at (toUpper (code_of c))"

definition str_toUpper :: "string \<Rightarrow> string" where "str_toUpper str = map upper_char str"
definition str_toLower :: "string \<Rightarrow> string" where "str_toLower str = map lower_char str"

text \<open>The comparison loop; \<^verbatim>\<open>char\<close> values compare as signed numbers.\<close>

fun icompare :: "string \<Rightarrow> string \<Rightarrow> int" where
  "icompare (a # as) (b # bs) =
     (let c1 = code_of (lower_char a); c2 = code_of (lower_char b)
      in if c1 < c2 then -1 else if c1 > c2 then 1 else icompare as bs)"
| "icompare [] bs = (if bs = [] then 0 else -1)"
| "icompare (a # as) [] = 1"

text \<open>
  The range \<open>[pos, pos + n)\<close> of a string as the positional forms clamp it. The sum of two
  \<^verbatim>\<open>size_type\<close>s wraps, and iterators outside the string are \<open>None\<close>.
\<close>

definition clamp_range :: "string \<Rightarrow> u64 \<Rightarrow> u64 \<Rightarrow> string option" where
  "clamp_range str pos n =
     (let sz = of_nat (length str);
          pos1 = (if pos > sz then sz else pos);
          n1 = (if pos1 + n > sz then sz - pos1 else n)
      in if unat pos1 + unat n1 \<le> length str then Some (take (unat n1) (drop (unat pos1) str)) else None)"

definition icompare_it :: "string \<Rightarrow> u64 \<Rightarrow> u64 \<Rightarrow> string \<Rightarrow> int option" where
  "icompare_it str pos n rest2 = map_option (\<lambda>r. icompare r rest2) (clamp_range str pos n)"

definition icompare_n1_n2 :: "string \<Rightarrow> u64 \<Rightarrow> string \<Rightarrow> u64 \<Rightarrow> int option" where
  "icompare_n1_n2 str1 n1 str2 n2 =
     (let n2' = (if n2 > of_nat (length str2) then of_nat (length str2) else n2)
      in icompare_it str1 0 n1 (take (unat n2') str2))"

definition icompare_n :: "string \<Rightarrow> u64 \<Rightarrow> string \<Rightarrow> int option" where
  "icompare_n str1 n str2 =
     (let n' = (if n > of_nat (length str2) then of_nat (length str2) else n)
      in icompare_it str1 0 n' (take (unat n') str2))"

definition icompare_pos :: "string \<Rightarrow> u64 \<Rightarrow> u64 \<Rightarrow> string \<Rightarrow> int option" where
  "icompare_pos str1 pos n str2 = icompare_it str1 pos n str2"

definition icompare_pos2 :: "string \<Rightarrow> u64 \<Rightarrow> u64 \<Rightarrow> string \<Rightarrow> u64 \<Rightarrow> u64 \<Rightarrow> int option" where
  "icompare_pos2 str1 pos1 n1 str2 pos2 n2 =
     Option.bind (clamp_range str2 pos2 n2) (icompare_it str1 pos1 n1)"

text \<open>Here the second clamp changes the length of both ranges.\<close>

definition icompare_pos_n :: "string \<Rightarrow> u64 \<Rightarrow> u64 \<Rightarrow> string \<Rightarrow> u64 \<Rightarrow> int option" where
  "icompare_pos_n str1 pos1 n str2 pos2 =
     (let sz2 = of_nat (length str2);
          p = (if pos2 > sz2 then sz2 else pos2);
          n' = (if p + n > sz2 then sz2 - p else n)
      in if unat p + unat n' > length str2 then None
         else icompare_it str1 pos1 n' (take (unat n') (drop (unat p) str2)))"

text \<open>The forms with a C string, which ends at its zero byte; the loop also stops there.\<close>

definition c_str :: "string \<Rightarrow> string" where
  "c_str s = takeWhile (\<lambda>c. c \<noteq> CHR 0x00) s"

definition icompare_ptr :: "string \<Rightarrow> u64 \<Rightarrow> u64 \<Rightarrow> string option \<Rightarrow> int option" where
  "icompare_ptr str pos n ptr =
     (case ptr of None \<Rightarrow> None | Some p \<Rightarrow> icompare_it str pos n (c_str p))"

definition icompare_ptr_pos :: "string \<Rightarrow> u64 \<Rightarrow> string option \<Rightarrow> int option" where
  "icompare_ptr_pos str pos ptr = icompare_ptr str pos (of_nat (length str) - pos) ptr"

definition icompare_ptr_all :: "string \<Rightarrow> string option \<Rightarrow> int option" where
  "icompare_ptr_all str ptr = icompare_ptr str 0 (of_nat (length str)) ptr"

fun index_of :: "char \<Rightarrow> string \<Rightarrow> nat option" where
  "index_of c [] = None"
| "index_of c (x # xs) = (if x = c then Some 0 else map_option Suc (index_of c xs))"

fun translate :: "string \<Rightarrow> string \<Rightarrow> string \<Rightarrow> string" where
  "translate [] from to = []"
| "translate (c # str) from to =
     (case index_of c from of
        None \<Rightarrow> c # translate str from to
      | Some pos \<Rightarrow> if pos < length to then to ! pos # translate str from to else translate str from to)"

text \<open>\<^verbatim>\<open>replaceInPlace\<close>: the assertion, the search loop, and \<^verbatim>\<open>append\<close>'s range check.\<close>

lemma find_str_bound: "find_str sub s = Some i \<Longrightarrow> i + length sub \<le> length s"
proof (induction sub s arbitrary: i rule: find_str.induct)
  case (2 sub c s)
  show ?case
  proof (cases "take (length sub) (c # s) = sub")
    case True
    then have "length sub \<le> length (c # s)" by (metis length_take min.cobounded1)
    then show ?thesis using True 2 by simp
  next
    case False
    then show ?thesis using 2 by (auto split: if_splits)
  qed
qed (auto split: if_splits)

function replace_loop :: "string \<Rightarrow> string \<Rightarrow> string \<Rightarrow> nat \<Rightarrow> string \<Rightarrow> string option" where
  "replace_loop str from to start result =
     (if from = [] then None
      else
        (case find_from str from start of
           Some pos \<Rightarrow>
             replace_loop str from to (pos + length from) (result @ take (pos - start) (drop start str) @ to)
         | None \<Rightarrow> if start > length str then None else Some (result @ drop start str)))"
  by pat_completeness auto
termination
  by (relation "measure (\<lambda>(str, from, to, start, result). Suc (length str) - start)")
    (auto simp: find_from_def neq_Nil_conv split: if_splits dest!: find_str_bound)

declare replace_loop.simps [simp del]

definition replaceInPlace :: "string \<Rightarrow> string \<Rightarrow> string \<Rightarrow> nat \<Rightarrow> string option" where
  "replaceInPlace str from to start =
     (if from = [] then None else replace_loop str from to start (take start str))"

text \<open>The form for C strings, null pointers aside.\<close>

definition replaceInPlace_ptr :: "string \<Rightarrow> string \<Rightarrow> string \<Rightarrow> nat \<Rightarrow> string option" where
  "replaceInPlace_ptr str from to start =
     (if c_str from = [] then None else replace_loop str (c_str from) (c_str to) start (take start str))"

definition replace :: "string \<Rightarrow> string \<Rightarrow> string \<Rightarrow> nat \<Rightarrow> string option" where
  "replace str from to start = replaceInPlace str from to start"

definition cat2 :: "string \<Rightarrow> string \<Rightarrow> string" where "cat2 s1 s2 = s1 @ s2"
definition cat3 :: "string \<Rightarrow> string \<Rightarrow> string \<Rightarrow> string" where "cat3 s1 s2 s3 = (s1 @ s2) @ s3"

definition cat4 :: "string \<Rightarrow> string \<Rightarrow> string \<Rightarrow> string \<Rightarrow> string" where
  "cat4 s1 s2 s3 s4 = ((s1 @ s2) @ s3) @ s4"
definition cat5 :: "string \<Rightarrow> string \<Rightarrow> string \<Rightarrow> string \<Rightarrow> string \<Rightarrow> string" where
  "cat5 s1 s2 s3 s4 s5 = (((s1 @ s2) @ s3) @ s4) @ s5"
definition cat6 :: "string \<Rightarrow> string \<Rightarrow> string \<Rightarrow> string \<Rightarrow> string \<Rightarrow> string \<Rightarrow> string" where
  "cat6 s1 s2 s3 s4 s5 s6 = ((((s1 @ s2) @ s3) @ s4) @ s5) @ s6"

fun cat_loop :: "string \<Rightarrow> string list \<Rightarrow> string \<Rightarrow> string" where
  "cat_loop delim [] result = result"
| "cat_loop delim (x # xs) result =
     cat_loop delim xs ((if result \<noteq> [] then result @ delim else result) @ x)"

definition cat_delim :: "string \<Rightarrow> string list \<Rightarrow> string" where
  "cat_delim delim xs = cat_loop delim xs []"

section \<open>Trimming\<close>

lemma skip_back_trims:
  "e \<le> length s \<Longrightarrow> take (skip_back s e) s = rev (dropWhile isSpaceChar (rev (take e s)))"
proof (induction e)
  case (Suc e)
  have "rev (take (Suc e) s) = s ! e # rev (take e s)"
    using Suc.prems by (subst take_Suc_conv_app_nth) auto
  then show ?case using Suc by (auto simp: take_Suc_conv_app_nth)
qed simp

lemma trim_first_drops:
  assumes "e \<le> length s" "first \<le> e"
  shows "first \<le> trim_first s first e \<and> trim_first s first e \<le> e \<and>
    drop (trim_first s first e) (take e s) = dropWhile isSpaceChar (drop first (take e s))"
  using assms
proof (induction s first e rule: trim_first.induct)
  case (1 s first e)
  show ?case
  proof (cases "first < e")
    case True
    then have "drop first (take e s) = s ! first # drop (Suc first) (take e s)"
      using 1(2) by (subst Cons_nth_drop_Suc [symmetric]) auto
    then show ?thesis using 1 True by (subst (1 2 3) trim_first.simps) auto
  next
    case False
    then show ?thesis using 1 by (subst (1 2 3) trim_first.simps) simp
  qed
qed

lemma trim_last_takes:
  assumes "e \<le> length s" "first \<le> e"
  shows "first \<le> trim_last s first e \<and> trim_last s first e \<le> e \<and>
    drop first (take (trim_last s first e) s) = rev (dropWhile isSpaceChar (rev (drop first (take e s))))"
  using assms
proof (induction s first e rule: trim_last.induct)
  case (1 s first e)
  show ?case
  proof (cases "first < e")
    case True
    then obtain k where e: "e = Suc k" by (cases e) auto
    have "drop first (take e s) = drop first (take k s) @ [s ! k]"
      using 1(2) True e by (simp add: take_Suc_conv_app_nth)
    then show ?thesis using 1 True e by (subst (1 2 3) trim_last.simps) auto
  next
    case False
    then show ?thesis using 1 by (subst (1 2 3) trim_last.simps) simp
  qed
qed

lemma trim_exact: "trim s = trimmed s" "trimInPlace s = trimmed s" "trimRight s = rev (dropWhile isSpaceChar (rev s))"
proof -
  let ?f = "trim_first s 0 (length s)"
  have f: "?f \<le> length s" "drop ?f s = dropWhile isSpaceChar s"
    using trim_first_drops [of "length s" s 0] by auto
  have l: "drop ?f (take (trim_last s ?f (length s)) s) = trimmed s"
    using trim_last_takes [OF order_refl f(1)] f(2) by (simp add: trimmed_def)
  then show "trimInPlace s = trimmed s" by (simp add: trimInPlace_def Let_def)
  show "trim s = trimmed s" using l by (simp add: trim_def Let_def drop_take)
  show "trimRight s = rev (dropWhile isSpaceChar (rev s))"
    using skip_back_trims [of "length s" s] by (simp add: trimRight_def)
qed

section \<open>Comparison\<close>

definition lower_codes :: "string \<Rightarrow> int list" where
  "lower_codes s = map (\<lambda>c. code_of (lower_char c)) s"

lemma icompare_order:
  "icompare a b = (if lower_codes a = lower_codes b then 0
     else if ord_class.lexordp (lower_codes a) (lower_codes b) then -1 else 1)"
proof (induction a b rule: icompare.induct)
  case (1 a as b bs)
  then show ?case by (auto simp: lower_codes_def Let_def)
qed (auto simp: lower_codes_def)

lemma clamp_range_exact:
  assumes "length s < 2 ^ 64"
  shows "clamp_range s pos n =
    (if min (unat pos) (length s) + unat n < 2 ^ 64 then Some (take (unat n) (drop (unat pos) s)) else None)"
proof -
  define p where "p = (if pos > of_nat (length s) then of_nat (length s) else pos)"
  have sz: "unat (of_nat (length s) :: u64) = length s" using assms by (simp add: unat_of_nat)
  have p: "unat p = min (unat pos) (length s)" by (auto simp: p_def word_less_nat_alt sz)
  have c: "clamp_range s pos n =
      (let n1 = (if of_nat (length s) < p + n then of_nat (length s) - p else n)
       in if unat p + unat n1 \<le> length s then Some (take (unat n1) (drop (unat p) s)) else None)"
    by (simp add: clamp_range_def p_def Let_def)
  have d: "drop (unat pos) s = drop (unat p) s" by (simp add: p min_def)
  have n64: "unat n < 2 ^ 64" "unat p < 2 ^ 64" using unat_less_2p [of n] unat_less_2p [of p] by simp_all
  show ?thesis
  proof (cases "unat p + unat n < 2 ^ 64")
    case True
    then have s: "unat (p + n) = unat p + unat n" by (simp add: unat_word_ariths)
    have "unat p \<le> length s" by (simp add: p)
    then have "unat (of_nat (length s) - p) = length s - unat p"
      by (subst unat_sub) (simp_all add: word_le_nat_alt sz)
    then show ?thesis
      unfolding c Let_def word_less_nat_alt s sz d
      using True \<open>unat p \<le> length s\<close> by (simp add: p [symmetric])
  next
    case False
    have "unat (p + n) = (unat p + unat n) mod 2 ^ 64" by (simp add: unat_word_ariths)
    also have "\<dots> = unat p + unat n - 2 ^ 64" using False n64 by (simp add: le_mod_geq)
    finally have "unat (p + n) \<le> length s" using n64 p by linarith
    then have "\<not> p + n > of_nat (length s)" by (simp add: word_less_nat_alt sz)
    moreover have "\<not> unat p + unat n \<le> length s" using False assms by linarith
    ultimately show ?thesis
      unfolding c Let_def using False by (simp add: p)
  qed
qed

section \<open>Replacement\<close>

lemma find_str_first:
  "find_str sub s = Some i \<Longrightarrow> \<exists>pre rest. s = pre @ sub @ rest \<and> length pre = i \<and> (sub \<noteq> [] \<longrightarrow> \<not> sublist sub (pre @ butlast sub))"
proof (induction sub s arbitrary: i rule: find_str.induct)
  case (1 sub)
  then show ?case by (auto split: if_splits)
next
  case (2 sub c s)
  show ?case
  proof (cases "take (length sub) (c # s) = sub")
    case True
    then have "c # s = [] @ sub @ drop (length sub) (c # s)" by (metis append_Nil append_take_drop_id)
    moreover have "sub \<noteq> [] \<longrightarrow> \<not> sublist sub (butlast sub)"
      using sublist_length_le [of sub "butlast sub"] by (cases sub) auto
    ultimately show ?thesis using True 2(2) by auto
  next
    case False
    then obtain j where j: "find_str sub s = Some j" "i = Suc j" using 2(2) by auto
    obtain pre rest where pr: "s = pre @ sub @ rest" "length pre = j"
      "sub \<noteq> [] \<longrightarrow> \<not> sublist sub (pre @ butlast sub)"
      using 2(1) [OF False j(1)] by blast
    have "\<not> sublist sub ((c # pre) @ butlast sub)" if "sub \<noteq> []"
    proof
      assume "sublist sub ((c # pre) @ butlast sub)"
      then have "prefix sub (c # pre @ butlast sub)" using pr(3) that by (simp add: sublist_Cons_right)
      then have "prefix sub (c # s)"
        unfolding pr(1) by (metis append_Cons append_assoc append_butlast_last_id prefix_prefix that)
      then show False using False by (auto simp: prefix_def)
    qed
    then show ?thesis using pr j(2) by (intro exI [of _ "c # pre"] exI [of _ rest]) simp
  qed
qed

lemma find_str_None: "find_str sub s = None \<Longrightarrow> \<not> sublist sub s"
proof (induction sub s rule: find_str.induct)
  case (2 sub c s)
  then have n: "take (length sub) (c # s) \<noteq> sub" by auto
  then have "\<not> prefix sub (c # s)" by (auto simp: prefix_def)
  then show ?case using 2 n by (auto simp: sublist_Cons_right)
qed (auto split: if_splits)

text \<open>The pieces of a string, with a string between each two.\<close>

fun join_str :: "string \<Rightarrow> string list \<Rightarrow> string" where
  "join_str d [] = []"
| "join_str d [x] = x"
| "join_str d (x # y # xs) = x @ d @ join_str d (y # xs)"

lemma join_str_Cons: "xs \<noteq> [] \<Longrightarrow> join_str d (x # xs) = x @ d @ join_str d xs"
  by (cases xs) auto

text \<open>Cut at the leftmost occurrences of \<open>from\<close>, one after the other.\<close>

definition cut_at :: "string \<Rightarrow> string list \<Rightarrow> bool" where
  "cut_at from ps \<longleftrightarrow> ps \<noteq> [] \<and> \<not> sublist from (last ps) \<and>
     (\<forall>p\<in>set (butlast ps). \<not> sublist from (p @ butlast from))"

lemma replace_loop_exact:
  assumes "from \<noteq> []" "start \<le> length str"
  shows "\<exists>ps. cut_at from ps \<and> drop start str = join_str from ps \<and>
    replace_loop str from to start result = Some (result @ join_str to ps)"
  using assms
proof (induction str "from" to start result rule: replace_loop.induct)
  case (1 str fr to start result)
  show ?case
  proof (cases "find_str fr (drop start str)")
    case None
    have "\<not> sublist fr (drop start str)" by (rule find_str_None [OF None])
    moreover have "replace_loop str fr to start result = Some (result @ drop start str)"
      using None 1(2,3) by (subst replace_loop.simps) (simp add: find_from_def)
    ultimately show ?thesis by (intro exI [of _ "[drop start str]"]) (simp add: cut_at_def)
  next
    case (Some i)
    obtain pre rest where pr: "drop start str = pre @ fr @ rest" "length pre = i"
      "\<not> sublist fr (pre @ butlast fr)"
      using find_str_first [OF Some] 1(2) by blast
    have f: "find_from str fr start = Some (start + i)" using Some 1(3) by (simp add: find_from_def)
    have "length (drop start str) = i + length fr + length rest" using pr by simp
    then have le: "start + i + length fr \<le> length str" using 1(3) by simp
    have d: "drop (start + i + length fr) str = rest"
    proof -
      have "drop (start + i + length fr) str = drop (i + length fr) (drop start str)" by (simp add: ac_simps)
      then show ?thesis using pr by simp
    qed
    obtain ps where ps: "cut_at fr ps" "rest = join_str fr ps"
      "replace_loop str fr to (start + i + length fr) (result @ take (start + i - start) (drop start str) @ to) =
        Some ((result @ take (start + i - start) (drop start str) @ to) @ join_str to ps)"
      using 1(1) [OF 1(2) f 1(2) le] d by auto
    have "replace_loop str fr to start result = Some (result @ join_str to (pre # ps))"
      using ps f pr 1(2) by (subst replace_loop.simps) (simp add: cut_at_def join_str_Cons)
    moreover have "cut_at fr (pre # ps)" "drop start str = join_str fr (pre # ps)"
      using ps pr by (auto simp: cut_at_def join_str_Cons)
    ultimately show ?thesis by blast
  qed
qed

lemma cat_loop_join: "result \<noteq> [] \<Longrightarrow> cat_loop d xs result = join_str d (result # xs)"
proof (induction d xs result rule: cat_loop.induct)
  case (2 d x xs result)
  then show ?case by (cases xs) auto
qed simp

lemma cat_delim_join: "cat_delim d xs = join_str d (dropWhile (\<lambda>x. x = []) xs)"
  unfolding cat_delim_def
proof (induction xs)
  case (Cons x xs)
  then show ?case by (cases "x = []") (auto simp: cat_loop_join)
qed simp

section \<open>Properties\<close>

text \<open>
  C22: Replacing cuts the rest of the string from \<open>start\<close> on at the leftmost occurrences of \<open>from\<close>, one
  after the other, and puts \<open>to\<close> between the pieces; it returns for every \<open>from\<close> that is not empty
  and every \<open>start\<close> inside the string.
\<close>

theorem replace_exact:
  assumes "from \<noteq> []" "start \<le> length str"
  shows "\<exists>ps. cut_at from ps \<and> str = take start str @ join_str from ps \<and>
    replace str from to start = Some (take start str @ join_str to ps)"
proof -
  obtain ps where "cut_at from ps" "drop start str = join_str from ps"
    "replace_loop str from to start (take start str) = Some (take start str @ join_str to ps)"
    using replace_loop_exact [OF assms] by blast
  moreover have "str = take start str @ drop start str" by simp
  ultimately show ?thesis using assms(1)
    by (intro exI [of _ ps]) (simp add: replace_def replaceInPlace_def)
qed

theorem replace_exact_witness:
  "(\<exists>ps. cut_at ''aa'' ps \<and> ''xaaay'' = take 1 ''xaaay'' @ join_str ''aa'' ps \<and>
    replace ''xaaay'' ''aa'' ''b'' 1 = Some (take 1 ''xaaay'' @ join_str ''b'' ps)) \<and>
   replace ''xaaay'' ''aa'' ''b'' 1 = Some ''xbay''"
proof
  show "replace ''xaaay'' ''aa'' ''b'' 1 = Some ''xbay''" by code_simp
qed (use replace_exact [of "''aa''" 1 "''xaaay''" "''b''"] in simp)

text \<open>
  The positional comparison looks at the \<open>n\<close> characters from \<open>pos\<close>, as far as the string has them,
  and orders them and the other string by the codes of their lower case letters; but when the sum
  of \<open>n\<close> and the position reaches \<open>2 ^ 64\<close>, as for \<^verbatim>\<open>npos\<close> and any position but 0, it reads outside
  the string.
\<close>

theorem icompare_ranges:
  assumes "length s < 2 ^ 64"
  shows "icompare_pos s pos n t =
    (if min (unat pos) (length s) + unat n < 2 ^ 64
     then (let a = lower_codes (take (unat n) (drop (unat pos) s)); b = lower_codes t
           in Some (if a = b then 0 else if ord_class.lexordp a b then -1 else 1))
     else None)"
  by (simp add: icompare_pos_def icompare_it_def clamp_range_exact [OF assms] icompare_order Let_def)

theorem icompare_ranges_witness:
  "icompare_pos ''abc'' 1 2 ''BC'' = Some 0 \<and> icompare_pos ''abc'' 1 (- 1) ''BC'' = None"
proof
  have "lower_codes ''BC'' = lower_codes ''bc''" by code_simp
  then show "icompare_pos ''abc'' 1 2 ''BC'' = Some 0"
    using icompare_ranges [of "''abc''" 1 2 "''BC''"] by simp
  show "icompare_pos ''abc'' 1 (- 1) ''BC'' = None"
    using icompare_ranges [of "''abc''" 1 "- 1" "''BC''"] by (simp add: unsigned_minus_1_eq_mask mask_eq_exp_minus_1)
qed

end
