(* ===== verification/Number_Text.thy ===== *)
theory Number_Text
  imports String_Util
begin

text \<open>
  Numbers as text: \<^verbatim>\<open>atoi\<close> of the C library, decimal digits, and reading them back.
\<close>

section \<open>Reading\<close>

text \<open>
  \<^verbatim>\<open>atoi\<close> of the C library: white space, a sign, digits up to the first other character. A
  value outside \<^verbatim>\<open>int\<close> has no defined result.
\<close>

definition digit_val :: "char \<Rightarrow> int" where "digit_val c = code_of c - 48"

definition digits_val :: "string \<Rightarrow> int" where
  "digits_val s = foldl (\<lambda>v c. v * 10 + digit_val c) 0 s"

definition atoi :: "string \<Rightarrow> int option" where
  "atoi s =
     (let s1 = dropWhile isSpaceChar (c_str s);
          neg = (s1 \<noteq> [] \<and> s1 ! 0 = CHR ''-'');
          s2 = (if s1 \<noteq> [] \<and> (s1 ! 0 = CHR ''-'' \<or> s1 ! 0 = CHR ''+'') then tl s1 else s1);
          v = digits_val (takeWhile (\<lambda>c. isDigit (code_of c)) s2);
          r = (if neg then - v else v)
      in if int_range r then Some r else None)"

section \<open>Writing\<close>

definition digit_char :: "nat \<Rightarrow> char" where "digit_char d = char_of (int d + 48)"

fun dec :: "nat \<Rightarrow> string" where
  "dec n = (if n < 10 then [digit_char n] else dec (n div 10) @ [digit_char (n mod 10)])"

declare dec.simps [simp del]

lemma digit_char:
  assumes "d < 10"
  shows "code_of (digit_char d) = int d + 48"
proof -
  have "of_char (digit_char d) = (int d + 48) mod 256" by (simp add: digit_char_def)
  also have "\<dots> = int d + 48" using assms by (intro mod_pos_pos_trivial) auto
  finally show ?thesis using assms by (simp add: code_of_def Let_def)
qed

lemma digit_char_neq:
  assumes "d < 10"
  shows "digit_char d \<noteq> CHR ''/''" "digit_char d \<noteq> CHR '' ''" "digit_char d \<noteq> CHR 0x00"
    "digit_char d \<noteq> CHR ''-''" "digit_char d \<noteq> CHR ''+''" "\<not> isSpaceChar (digit_char d)" "isDigit (code_of (digit_char d))"
proof -
  have n: "digit_char d \<noteq> c" if "code_of c < 48" for c using digit_char [OF assms] that by auto
  show "digit_char d \<noteq> CHR ''/''" "digit_char d \<noteq> CHR '' ''" "digit_char d \<noteq> CHR 0x00"
    "digit_char d \<noteq> CHR ''-''" "digit_char d \<noteq> CHR ''+''"
    by (rule n, simp add: code_of_def)+
  show "\<not> isSpaceChar (digit_char d)" "isDigit (code_of (digit_char d))"
    using assms by (simp_all add: digit_char ascii_class int_range_def)
qed

lemma set_dec: "c \<in> set (dec n) \<Longrightarrow> \<exists>d<10. c = digit_char d"
proof (induction n rule: dec.induct)
  case (1 n)
  have "n mod 10 < 10" by simp
  moreover have "c \<in> set (if n < 10 then [digit_char n] else dec (n div 10) @ [digit_char (n mod 10)])"
    using 1(2) by (subst (asm) dec.simps)
  ultimately show ?case using 1(1) by (cases "n < 10") (auto intro: exI [of _ "n mod 10"])
qed

lemma dec_neq [simp]: "dec n \<noteq> []"
  by (subst dec.simps) simp

lemma digits_val_dec: "digits_val (dec n) = int n"
proof (induction n rule: dec.induct)
  case (1 n)
  show ?case
  proof (cases "n < 10")
    case True
    then show ?thesis by (subst dec.simps) (simp add: digits_val_def digit_val_def digit_char)
  next
    case False
    then have "digits_val (dec n) = int (n div 10) * 10 + int (n mod 10)"
      using 1 by (subst dec.simps) (simp add: digits_val_def digit_val_def digit_char)
    also have "\<dots> = int n" by (metis div_mult_mod_eq of_nat_add of_nat_mult of_nat_numeral)
    finally show ?thesis .
  qed
qed

lemma atoi_dec:
  assumes "n < 2 ^ 31"
  shows "atoi (dec n) = Some (int n)"
proof -
  have d: "c \<in> set (dec n) \<Longrightarrow> isDigit (code_of c) \<and> \<not> isSpaceChar c \<and> c \<noteq> CHR 0x00 \<and> c \<noteq> CHR ''-'' \<and> c \<noteq> CHR ''+''" for c
    by (drule set_dec, elim exE conjE) (simp add: digit_char_neq)
  obtain x xs where x: "dec n = x # xs" by (cases "dec n") auto
  have "c_str (dec n) = dec n" unfolding c_str_def using d by simp
  moreover have "dropWhile isSpaceChar (dec n) = dec n" using d [of x] x by simp
  moreover have "takeWhile (\<lambda>c. isDigit (code_of c)) (dec n) = dec n"
    using d by simp
  moreover have "dec n ! 0 \<noteq> CHR ''-''" "dec n ! 0 \<noteq> CHR ''+''" using d [of x] x by simp_all
  ultimately show ?thesis
    using assms unfolding atoi_def Let_def by (simp add: digits_val_dec int_range_def del: takeWhile_eq_all_conv)
qed

end
