(* ===== verification/Server_Cfg.thy ===== *)
theory Server_Cfg
  imports Number_Text Server_Config
begin

text \<open>
  \<^verbatim>\<open>Server/Cfg\<close> and the parts of \<^verbatim>\<open>Server/WorldServer\<close> that work on it: the configuration a
  process starts with, its list of administration addresses, and the connect list handed to
  the network layer. Parameters are the functions of the system (\<^verbatim>\<open>inet_addr\<close>, \<^verbatim>\<open>ntohl\<close>, the
  address of an interface) and of the Lua interpreter. Fields that the constructor leaves
  unset are its arguments.
\<close>

section \<open>The configuration\<close>

record ip_mask =
  im_addr :: u32
  im_mask :: u32

record cfg =
  serverType :: u8
  serverUID :: u8
  tcpPort :: u16
  serverConnectList :: "(u8 \<times> u8 \<times> string \<times> u16) list"
  ifName :: string
  serverIp :: u32
  scriptPath :: string
  serverLogName :: string
  serverDllName :: string
  dbHost :: string
  dbPort :: u16
  dbUser :: string
  dbPassword :: string
  dbSource :: string
  c_debug :: bool
  arenaHost :: string
  arenaPort :: u16
  channelName :: string
  slugName :: string
  channelNum :: int
  serverNum :: int
  c_filename :: string
  adminIPAllowed :: "ip_mask list"
  open_sockets :: nat

definition Cfg :: "u8 \<Rightarrow> u8 \<Rightarrow> cfg" where
  "Cfg ty uid =
     \<lparr>serverType = ty, serverUID = uid, tcpPort = 8889, serverConnectList = [], ifName = '''',
      serverIp = 0, scriptPath = '''', serverLogName = ''Test'', serverDllName = '''', dbHost = '''',
      dbPort = 3306, dbUser = '''', dbPassword = '''', dbSource = '''', c_debug = False, arenaHost = '''',
      arenaPort = 0, channelName = '''', slugName = '''', channelNum = 0, serverNum = 0,
      c_filename = ''conf/config_game.lua'', adminIPAllowed = [], open_sockets = 0\<rparr>"

definition setFilename :: "string \<Rightarrow> cfg \<Rightarrow> cfg" where "setFilename fn c = c\<lparr>c_filename := fn\<rparr>"
definition setServerType :: "u8 \<Rightarrow> cfg \<Rightarrow> cfg" where "setServerType type c = c\<lparr>serverType := type\<rparr>"
definition setServerUID :: "u8 \<Rightarrow> cfg \<Rightarrow> cfg" where "setServerUID uid c = c\<lparr>serverUID := uid\<rparr>"
definition setTcpPort :: "u16 \<Rightarrow> cfg \<Rightarrow> cfg" where "setTcpPort p c = c\<lparr>tcpPort := p\<rparr>"
definition setScriptPath :: "string \<Rightarrow> cfg \<Rightarrow> cfg" where "setScriptPath p c = c\<lparr>scriptPath := p\<rparr>"
definition setServerLogName :: "string \<Rightarrow> cfg \<Rightarrow> cfg" where "setServerLogName name c = c\<lparr>serverLogName := name\<rparr>"
definition setServerDllName :: "string \<Rightarrow> cfg \<Rightarrow> cfg" where "setServerDllName name c = c\<lparr>serverDllName := name\<rparr>"
definition setDatabase :: "string \<Rightarrow> u16 \<Rightarrow> string \<Rightarrow> string \<Rightarrow> string \<Rightarrow> cfg \<Rightarrow> cfg" where
  "setDatabase h p u pw s c =
     c\<lparr>dbHost := h, dbPort := p, dbUser := u, dbPassword := pw, dbSource := s\<rparr>"
definition setArenaServer :: "string \<Rightarrow> u16 \<Rightarrow> cfg \<Rightarrow> cfg" where
  "setArenaServer h p c = c\<lparr>arenaHost := h, arenaPort := p\<rparr>"
definition setChannelInfo :: "string \<Rightarrow> int \<Rightarrow> cfg \<Rightarrow> cfg" where
  "setChannelInfo sn num c = c\<lparr>slugName := sn, channelNum := num\<rparr>"
definition addConnectList :: "u8 \<Rightarrow> u8 \<Rightarrow> string \<Rightarrow> u16 \<Rightarrow> cfg \<Rightarrow> cfg" where
  "addConnectList type uid str p c = c\<lparr>serverConnectList := serverConnectList c @ [(type, uid, str, p)]\<rparr>"

text \<open>
  \<^verbatim>\<open>load\<close> runs the given script, or the configured file; \<open>doFile\<close> is what the script does
  to the configuration.
\<close>

definition cfg_load :: "(string \<Rightarrow> cfg \<Rightarrow> cfg) \<Rightarrow> string option \<Rightarrow> cfg \<Rightarrow> cfg" where
  "cfg_load doFile scriptStr c =
     (case scriptStr of Some s \<Rightarrow> doFile s c | None \<Rightarrow> doFile (c_filename c) c)"

text \<open>
  \<^verbatim>\<open>setIfName\<close>. \<open>socket\<close> says whether a descriptor is available, and \<open>ioctl\<close> finds the
  address for the 16 bytes of \<^verbatim>\<open>ifr_name\<close>; the descriptor is not closed.
\<close>

definition IF_NAMESIZE :: nat where "IF_NAMESIZE = 16"

definition ifr_name :: "string \<Rightarrow> string" where
  "ifr_name name =
     (let ilen = length (c_str name);
          ilen' = (if ilen > IF_NAMESIZE then IF_NAMESIZE - 1 else ilen);
          s = take ilen' (c_str name)
      in s @ replicate (IF_NAMESIZE - length s) (CHR 0x00))"

definition setIfName :: "bool \<Rightarrow> (string \<Rightarrow> u32 option) \<Rightarrow> string option \<Rightarrow> cfg \<Rightarrow> cfg" where
  "setIfName socket ioctl iname c =
     (let c1 = c\<lparr>ifName := (case iname of None \<Rightarrow> ''eth0'' | Some n \<Rightarrow> n)\<rparr>
      in if \<not> socket then c1
         else
           (let c2 = c1\<lparr>open_sockets := open_sockets c1 + 1\<rparr>
            in case ioctl (ifr_name (ifName c2)) of
                 None \<Rightarrow> c2
               | Some a \<Rightarrow> c2\<lparr>serverIp := a\<rparr>))"

section \<open>Administration addresses\<close>

definition parseAddress :: "(string \<Rightarrow> u32) \<Rightarrow> (u32 \<Rightarrow> u32) \<Rightarrow> string \<Rightarrow> ip_mask option" where
  "parseAddress inet_addr ntohl addr =
     (let tk = StringTokenizer addr ''/'' 0;
          mask0 = \<lparr>im_addr = 0, im_mask = 0\<rparr>
      in if length tk = 0 then Some mask0
         else
           map_option (\<lambda>m. m\<lparr>im_addr := ntohl (inet_addr (c_str (tk ! 0)))\<rparr>)
             (if length tk > 1 then
                (case atoi (tk ! 1) of
                   None \<Rightarrow> None
                 | Some n \<Rightarrow>
                     if int_range (32 - n) then Some (mask0\<lparr>im_mask := of_int (32 - n)\<rparr>) else None)
              else Some mask0))"

fun add_admin_ips :: "(string \<Rightarrow> u32) \<Rightarrow> (u32 \<Rightarrow> u32) \<Rightarrow> string list \<Rightarrow> cfg \<Rightarrow> cfg option" where
  "add_admin_ips inet_addr ntohl [] c = Some c"
| "add_admin_ips inet_addr ntohl (t # tk) c =
     (case parseAddress inet_addr ntohl t of
        None \<Rightarrow> None
      | Some ipm \<Rightarrow>
          add_admin_ips inet_addr ntohl tk
            (if im_mask ipm < 32 then c\<lparr>adminIPAllowed := adminIPAllowed c @ [ipm]\<rparr> else c))"

definition setAdminAllowedIP :: "(string \<Rightarrow> u32) \<Rightarrow> (u32 \<Rightarrow> u32) \<Rightarrow> string \<Rightarrow> cfg \<Rightarrow> cfg option" where
  "setAdminAllowedIP inet_addr ntohl str c = add_admin_ips inet_addr ntohl (StringTokenizer str '' '' 0) c"

text \<open>The list holds no mask from 32 on, so the shifts are defined.\<close>

definition isAdminIPAllowed :: "u32 \<Rightarrow> cfg \<Rightarrow> bool" where
  "isAdminIPAllowed ip c =
     (if adminIPAllowed c = [] then True
      else list_ex (\<lambda>m. drop_bit (unat (im_mask m)) (im_addr m XOR ip) = 0) (adminIPAllowed c))"

section \<open>The world server\<close>

text \<open>The arguments after the program name; every argument after \<^verbatim>\<open>--config\<close> is a file name.\<close>

fun parse_args :: "bool \<Rightarrow> string list \<Rightarrow> cfg \<Rightarrow> cfg" where
  "parse_args status [] c = c"
| "parse_args status (a # argv) c =
     (if status then parse_args status argv (setFilename a c)
      else if a = ''--config'' then parse_args True argv c
      else parse_args status argv c)"

definition ParseCommandInfor :: "string list \<Rightarrow> cfg \<Rightarrow> cfg" where
  "ParseCommandInfor argv c = parse_args False (tl argv) c"

text \<open>
  \<^verbatim>\<open>Init\<close>; \<open>rnd\<close> is the value of \<^verbatim>\<open>rand()\<close>.
\<close>

definition world_Init :: "(string \<Rightarrow> cfg \<Rightarrow> cfg) \<Rightarrow> int \<Rightarrow> string option \<Rightarrow> string option \<Rightarrow> int \<Rightarrow> cfg \<Rightarrow> cfg option" where
  "world_Init doFile rnd scriptStr serverName num c =
     (let c1 = (case serverName of
                  None \<Rightarrow> Some c
                | Some sn \<Rightarrow>
                    (case find_str ''_s'' sn of
                       None \<Rightarrow> Some c
                     | Some p \<Rightarrow>
                         map_option (\<lambda>n. c\<lparr>channelName := take p sn, serverNum := n, slugName := take p sn\<rparr>)
                           (atoi (drop (p + 2) sn))))
      in map_option
           (\<lambda>c. let c2 = cfg_load doFile scriptStr c
                in c2\<lparr>serverNum := (if num = 0 then uint (tcpPort c2) + rnd mod 1000 else num)\<rparr>) c1)"

text \<open>The configuration that \<^verbatim>\<open>Run\<close> starts the network with.\<close>

fun add_connects :: "(u8 \<times> u8 \<times> string \<times> u16) list \<Rightarrow> server_config \<Rightarrow> server_config" where
  "add_connects [] s = s"
| "add_connects ((type, uid, ip, port) # l) s = add_connects l (AddConnectList type uid ip port s)"

definition run_config :: "cfg \<Rightarrow> server_config" where
  "run_config c = add_connects (serverConnectList c) (ServerCommonConfig (serverType c) (serverUID c) (tcpPort c))"

section \<open>The address list\<close>

lemma plain_tokens:
  assumes "\<forall>x\<in>set xs. x \<noteq> [] \<and> c \<notin> set x"
  shows "StringTokenizer (join c xs) [c] 0 = xs"
proof -
  have o: "\<not> opt_trim 0" "\<not> opt_ignore 0" by (simp_all add: opt_trim_def opt_ignore_def)
  have "String_Tok.fields {c} (join c xs) = xs" using assms by (intro fields_join) auto
  then show ?thesis using o tokens_loop_fields [of 0 "[c]" "join c xs"] by (simp add: StringTokenizer_def Let_def)
qed

text \<open>An address with the length of its network prefix.\<close>

definition cidr :: "string \<times> nat \<Rightarrow> string" where
  "cidr e = fst e @ CHR ''/'' # dec (snd e)"

definition good_addr :: "string \<Rightarrow> bool" where
  "good_addr a \<longleftrightarrow> a \<noteq> [] \<and> CHR ''/'' \<notin> set a \<and> CHR '' '' \<notin> set a \<and> CHR 0x00 \<notin> set a"

definition cidr_mask :: "(string \<Rightarrow> u32) \<Rightarrow> (u32 \<Rightarrow> u32) \<Rightarrow> string \<times> nat \<Rightarrow> ip_mask" where
  "cidr_mask inet_addr ntohl e = \<lparr>im_addr = ntohl (inet_addr (fst e)), im_mask = of_int (32 - int (snd e))\<rparr>"

lemma parse_cidr:
  assumes "good_addr (fst e)" "snd e < 2 ^ 31"
  shows "parseAddress inet_addr ntohl (cidr e) = Some (cidr_mask inet_addr ntohl e)"
proof -
  have "CHR ''/'' \<notin> set (dec (snd e))" using set_dec digit_char_neq(1) by metis
  then have tk: "StringTokenizer (cidr e) ''/'' 0 = [fst e, dec (snd e)]"
    using plain_tokens [of "[fst e, dec (snd e)]" "CHR ''/''"] assms(1) by (simp add: cidr_def good_addr_def)
  have "c_str (fst e) = fst e"
    unfolding c_str_def using assms(1) by (intro takeWhile_eq_all_conv [THEN iffD2]) (auto simp: good_addr_def)
  then show ?thesis
    unfolding parseAddress_def Let_def tk
    using assms(2) by (simp add: atoi_dec cidr_mask_def int_range_def)
qed

lemma cidr_mask_small:
  assumes "snd e < 2 ^ 31"
  shows "im_mask (cidr_mask inet_addr ntohl e) < 32 \<longleftrightarrow> 1 \<le> snd e \<and> snd e \<le> 32"
    and "1 \<le> snd e \<Longrightarrow> snd e \<le> 32 \<Longrightarrow> unat (im_mask (cidr_mask inet_addr ntohl e)) = 32 - snd e"
proof -
  have u: "uint (of_int i :: u32) = i mod 4294967296" for i
    by (simp only: unsigned_of_int take_bit_eq_mod [where 'a = int]) simp
  have le: "uint (of_int (32 - int (snd e)) :: u32) = 32 - int (snd e)" if "snd e \<le> 32"
    using that unfolding u by (intro mod_pos_pos_trivial) auto
  show "im_mask (cidr_mask inet_addr ntohl e) < 32 \<longleftrightarrow> 1 \<le> snd e \<and> snd e \<le> 32"
  proof (cases "snd e \<le> 32")
    case True
    then show ?thesis using le by (auto simp: cidr_mask_def word_less_def)
  next
    case False
    have "(32 - int (snd e)) mod 4294967296 = (32 - int (snd e) + 4294967296) mod 4294967296"
      by (rule mod_add_self2 [symmetric])
    also have "\<dots> = 32 - int (snd e) + 4294967296" using False assms by (intro mod_pos_pos_trivial) auto
    finally have "uint (im_mask (cidr_mask inet_addr ntohl e)) = 32 - int (snd e) + 4294967296"
      unfolding cidr_mask_def ip_mask.simps u .
    then show ?thesis using False assms by (simp only: word_less_def) simp
  qed
  show "unat (im_mask (cidr_mask inet_addr ntohl e)) = 32 - snd e" if "1 \<le> snd e" "snd e \<le> 32"
    using le [OF that(2)] that by (simp add: cidr_mask_def flip: nat_uint_eq)
qed

lemma add_admin_ips_cidr:
  "\<forall>e\<in>set es. good_addr (fst e) \<and> snd e < 2 ^ 31 \<Longrightarrow>
   add_admin_ips inet_addr ntohl (map cidr es) c =
     Some (c\<lparr>adminIPAllowed := adminIPAllowed c @
       map (cidr_mask inet_addr ntohl) (filter (\<lambda>e. 1 \<le> snd e \<and> snd e \<le> 32) es)\<rparr>)"
  by (induction es arbitrary: c) (simp_all add: parse_cidr cidr_mask_small)

lemma drop_bit_xor_eq: "drop_bit k (x XOR y) = 0 \<longleftrightarrow> drop_bit k x = drop_bit k (y :: 'a::len word)"
  by (auto simp: bit_eq_iff bit_simps)

section \<open>The connect list\<close>

lemma add_connects_append: "add_connects (l @ l') s = add_connects l' (add_connects l s)"
  by (induction l s rule: add_connects.induct) auto

lemma add_connects_sorted: "config_sorted s \<Longrightarrow> config_sorted (add_connects l s)"
  by (induction l s rule: add_connects.induct) (auto intro: config_sorted_add)

lemma run_config_sorted: "config_sorted (run_config c)"
  unfolding run_config_def by (intro add_connects_sorted config_sorted_new)

text \<open>The number in the server name is overwritten at once.\<close>

lemma name_number_lost:
  "world_Init doFile rnd scriptStr sn num c = Some c' \<Longrightarrow>
   serverNum c' = (if num = 0 then uint (tcpPort c') + rnd mod 1000 else num)"
  by (auto simp: world_Init_def Let_def)

section \<open>Properties\<close>

text \<open>
  After reading a list of addresses with prefix lengths, an address is let in exactly when it
  agrees with one of the listed ones on the whole prefix; entries with a prefix of 0 or more than
  32 bits are dropped without notice, and when no other entry is left every address is let in.
\<close>

theorem admin_subnets:
  assumes "adminIPAllowed c = []" "\<forall>e\<in>set es. good_addr (fst e) \<and> snd e < 2 ^ 31"
  shows "\<exists>c'. setAdminAllowedIP inet_addr ntohl (join CHR '' '' (map cidr es)) c = Some c' \<and>
    isAdminIPAllowed ip c' =
      ((\<forall>(a, n)\<in>set es. n = 0 \<or> 32 < n) \<or>
       (\<exists>(a, n)\<in>set es. 1 \<le> n \<and> n \<le> 32 \<and> drop_bit (32 - n) (ntohl (inet_addr a)) = drop_bit (32 - n) ip))"
proof -
  have "CHR '' '' \<notin> set (dec n)" for n using set_dec digit_char_neq(2) by metis
  then have tk: "StringTokenizer (join CHR '' '' (map cidr es)) '' '' 0 = map cidr es"
    using assms(2) by (intro plain_tokens) (auto simp: cidr_def good_addr_def)
  let ?m = "cidr_mask inet_addr ntohl" and ?good = "\<lambda>e. 1 \<le> snd e \<and> snd e \<le> 32"
  let ?c = "c\<lparr>adminIPAllowed := map ?m (filter ?good es)\<rparr>"
  have 1: "setAdminAllowedIP inet_addr ntohl (join CHR '' '' (map cidr es)) c = Some ?c"
    using add_admin_ips_cidr [OF assms(2)] by (simp add: setAdminAllowedIP_def tk assms(1))
  have m: "drop_bit (unat (im_mask (?m e))) (im_addr (?m e) XOR ip) = 0 \<longleftrightarrow>
      drop_bit (32 - snd e) (ntohl (inet_addr (fst e))) = drop_bit (32 - snd e) ip" if "e \<in> set (filter ?good es)" for e
  proof -
    have "unat (im_mask (?m e)) = 32 - snd e" using that assms(2) by (intro cidr_mask_small(2)) auto
    moreover have "im_addr (?m e) = ntohl (inet_addr (fst e))" by (simp add: cidr_mask_def)
    ultimately show ?thesis by (simp only: drop_bit_xor_eq)
  qed
  have "isAdminIPAllowed ip ?c \<longleftrightarrow> (\<forall>e\<in>set es. \<not> ?good e) \<or>
      (\<exists>e\<in>set (filter ?good es). drop_bit (32 - snd e) (ntohl (inet_addr (fst e))) = drop_bit (32 - snd e) ip)"
    unfolding isAdminIPAllowed_def using m by (auto simp: list_ex_iff filter_empty_conv)
  also have "\<dots> \<longleftrightarrow> (\<forall>(a, n)\<in>set es. n = 0 \<or> 32 < n) \<or>
      (\<exists>(a, n)\<in>set es. 1 \<le> n \<and> n \<le> 32 \<and> drop_bit (32 - n) (ntohl (inet_addr a)) = drop_bit (32 - n) ip)"
    by force
  finally show ?thesis using 1 by blast
qed

theorem admin_subnets_witness:
  "\<exists>c'. setAdminAllowedIP (\<lambda>_. 0x00080A00) (\<lambda>x. 0x0A000800) ''10.0.8.0/24'' (Cfg 0 0) = Some c' \<and>
    isAdminIPAllowed 0x0A000807 c'"
proof -
  have "dec 24 = ''24''" by code_simp
  then show ?thesis
    using admin_subnets [of "Cfg 0 0" "[(''10.0.8.0'', 24)]" "\<lambda>_. 0x00080A00" "\<lambda>x. 0x0A000800" "0x0A000807"]
    by (simp add: Cfg_def good_addr_def cidr_def)
qed

text \<open>
  From the configuration to the network layer: after \<^verbatim>\<open>addConnectList\<close>, the configuration that the
  world server starts the network with finds the address under the number of the new server and
  all other servers where they were before.
\<close>

theorem world_connects:
  "GetIpFromConnectMap k (run_config (addConnectList ty uid ip port c)) =
     (if k = push_bit 8 (ucast ty) + ucast uid then ip else GetIpFromConnectMap k (run_config c)) \<and>
   GetPortFromConnectMap k (run_config (addConnectList ty uid ip port c)) =
     (if k = push_bit 8 (ucast ty) + ucast uid then port else GetPortFromConnectMap k (run_config c))"
proof -
  have "run_config (addConnectList ty uid ip port c) = AddConnectList ty uid ip port (run_config c)"
    by (simp add: run_config_def addConnectList_def add_connects_append)
  then have "map_of (m_ServerConnectMap (run_config (addConnectList ty uid ip port c))) =
      (map_of (m_ServerConnectMap (run_config c)))(push_bit 8 (ucast ty) + ucast uid \<mapsto> (ip, port))"
    using run_config_sorted [of c] by (simp add: AddConnectList_def map_of_map_put config_sorted_def)
  then show ?thesis by (simp add: GetIpFromConnectMap_def GetPortFromConnectMap_def)
qed

end
