(* ===== verification/Random_Gen.thy ===== *)
theory Random_Gen
  imports Ascii_Chars
begin

text \<open>
  \<^verbatim>\<open>Common/Random\<close>: the additive feedback generator of BSD. The state buffer is a list of 32-bit words,
  of which the first holds the type; the pointers are indices into the words behind it. An
  access outside the buffer and an overflow of an \<^verbatim>\<open>Int32\<close> are \<open>None\<close>.
\<close>

section \<open>The generator\<close>

definition TYPE_0 :: nat where "TYPE_0 = 0"
definition TYPE_1 :: nat where "TYPE_1 = 1"
definition TYPE_2 :: nat where "TYPE_2 = 2"
definition TYPE_3 :: nat where "TYPE_3 = 3"
definition TYPE_4 :: nat where "TYPE_4 = 4"
definition BREAK_0 :: int where "BREAK_0 = 8"
definition BREAK_1 :: int where "BREAK_1 = 32"
definition BREAK_2 :: int where "BREAK_2 = 64"
definition BREAK_3 :: int where "BREAK_3 = 128"
definition BREAK_4 :: int where "BREAK_4 = 256"
definition DEG_0 :: nat where "DEG_0 = 0"
definition DEG_1 :: nat where "DEG_1 = 7"
definition DEG_2 :: nat where "DEG_2 = 15"
definition DEG_3 :: nat where "DEG_3 = 31"
definition DEG_4 :: nat where "DEG_4 = 63"
definition SEP_0 :: nat where "SEP_0 = 0"
definition SEP_1 :: nat where "SEP_1 = 3"
definition SEP_2 :: nat where "SEP_2 = 1"
definition SEP_3 :: nat where "SEP_3 = 3"
definition SEP_4 :: nat where "SEP_4 = 1"
definition MAX_TYPES :: nat where "MAX_TYPES = 5"
definition NSHUFF :: nat where "NSHUFF = 50"

record rnd =
  r_buf :: "u32 list"
  randType :: nat
  randDeg :: nat
  randSep :: nat
  fptr :: nat
  rptr :: nat

definition st_get :: "rnd \<Rightarrow> nat \<Rightarrow> u32 option" where
  "st_get r i = (if Suc i < length (r_buf r) then Some (r_buf r ! Suc i) else None)"

definition st_set :: "rnd \<Rightarrow> nat \<Rightarrow> u32 \<Rightarrow> rnd option" where
  "st_set r i v = (if Suc i < length (r_buf r) then Some (r\<lparr>r_buf := (r_buf r)[Suc i := v]\<rparr>) else None)"

definition goodRand :: "u32 \<Rightarrow> u32 option" where
  "goodRand w =
     (let x = sint w;
          x0 = (if x = 0 then 123459876 else x);
          hi = c_div x0 127773;
          lo = c_mod x0 127773;
          a = 16807 * lo;
          b = 2836 * hi;
          y = a - b;
          z = (if y < 0 then y + 0x7FFFFFFF else y)
      in if int_range a \<and> int_range b \<and> int_range y \<and> int_range z then Some (of_int z) else None)"

definition rnd_next :: "rnd \<Rightarrow> (u32 \<times> rnd) option" where
  "rnd_next r =
     (if randType r = TYPE_0 then
        Option.bind (st_get r 0) (\<lambda>i.
        Option.bind (goodRand i) (\<lambda>g.
          let i' = g AND 0x7FFFFFFF
          in map_option (\<lambda>r'. (i', r')) (st_set r 0 i')))
      else
        Option.bind (st_get r (fptr r)) (\<lambda>vf.
        Option.bind (st_get r (rptr r)) (\<lambda>vr.
        Option.bind (st_set r (fptr r) (vf + vr)) (\<lambda>r1.
          let i = drop_bit 1 (vf + vr) AND 0x7FFFFFFF;
              f = fptr r + 1;
              q = rptr r + 1
          in Some (i,
               if f \<ge> randDeg r then r1\<lparr>fptr := 0, rptr := q\<rparr>
               else if q \<ge> randDeg r then r1\<lparr>fptr := f, rptr := 0\<rparr>
               else r1\<lparr>fptr := f, rptr := q\<rparr>)))))"

text \<open>The loops of \<^verbatim>\<open>seed\<close>: filling the table and discarding values.\<close>

fun fill_table :: "nat list \<Rightarrow> rnd \<Rightarrow> rnd option" where
  "fill_table [] r = Some r"
| "fill_table (i # is) r =
     Option.bind (st_get r (i - 1)) (\<lambda>v.
     Option.bind (goodRand v) (\<lambda>g.
     Option.bind (st_set r i g) (fill_table is)))"

fun discard :: "nat \<Rightarrow> rnd \<Rightarrow> rnd option" where
  "discard 0 r = Some r"
| "discard (Suc n) r = Option.bind (rnd_next r) (\<lambda>(_, r'). discard n r')"

definition seed :: "u32 \<Rightarrow> rnd \<Rightarrow> rnd option" where
  "seed x r =
     Option.bind (st_set r 0 x) (\<lambda>r0.
       if randType r0 = TYPE_0 then discard NSHUFF r0
       else
         Option.bind (fill_table [1..<randDeg r0] r0) (\<lambda>r1.
           discard (10 * randDeg r1) (r1\<lparr>fptr := randSep r1, rptr := 0\<rparr>)))"

text \<open>\<^verbatim>\<open>seed()\<close>, with the bytes that the random stream delivers.\<close>

definition seed_stream :: "u8 list \<Rightarrow> rnd \<Rightarrow> rnd option" where
  "seed_stream bytes r =
     (let len = (if randType r = TYPE_0 then 1 else randDeg r);
          ws = map (\<lambda>i. obj_val (take 4 (drop (4 * i) bytes))) [0..<len]
      in if length bytes < 4 * len \<or> length (r_buf r) < Suc len then None
         else Some (r\<lparr>r_buf := take 1 (r_buf r) @ ws @ drop (Suc len) (r_buf r)\<rparr>))"

text \<open>
  \<^verbatim>\<open>initState\<close> for a buffer of \<open>n\<close> bytes, whose words are \<open>buf\<close>; too small a buffer is a
  bugcheck.
\<close>

definition initState :: "u32 \<Rightarrow> u32 list \<Rightarrow> int \<Rightarrow> rnd option" where
  "initState s buf n =
     (if n < BREAK_0 then None
      else
        (let (ty, deg, sep) =
               (if n < BREAK_1 then (TYPE_0, DEG_0, SEP_0)
                else if n < BREAK_2 then (TYPE_1, DEG_1, SEP_1)
                else if n < BREAK_3 then (TYPE_2, DEG_2, SEP_2)
                else if n < BREAK_4 then (TYPE_3, DEG_3, SEP_3)
                else (TYPE_4, DEG_4, SEP_4))
         in Option.bind (seed s \<lparr>r_buf = buf, randType = ty, randDeg = deg, randSep = sep, fptr = 0, rptr = 0\<rparr>)
              (\<lambda>r. Some (r\<lparr>r_buf := (r_buf r)
                 [0 := if randType r = TYPE_0 then of_nat (randType r)
                       else of_nat (MAX_TYPES * rptr r + randType r)]\<rparr>))))"

text \<open>
  The constructor, with the contents of the new buffer and the time as arguments.
\<close>

definition Random :: "u32 list \<Rightarrow> u32 \<Rightarrow> int \<Rightarrow> rnd option" where
  "Random junk now stateSize =
     (if BREAK_0 \<le> stateSize \<and> stateSize \<le> BREAK_4 then initState now junk stateSize else None)"

definition next_mod :: "u32 \<Rightarrow> rnd \<Rightarrow> (u32 \<times> rnd) option" where
  "next_mod n r =
     Option.bind (rnd_next r) (\<lambda>(i, r'). if n = 0 then None else Some (i mod n, r'))"

definition nextChar :: "rnd \<Rightarrow> (u8 \<times> rnd) option" where
  "nextChar r = map_option (\<lambda>(i, r'). (ucast (drop_bit 3 i AND 0xFF), r')) (rnd_next r)"

definition nextBool :: "rnd \<Rightarrow> (bool \<times> rnd) option" where
  "nextBool r = map_option (\<lambda>(i, r'). (i AND 0x1000 \<noteq> 0, r')) (rnd_next r)"

text \<open>A sequence of values.\<close>

fun nexts :: "nat \<Rightarrow> rnd \<Rightarrow> u32 list option" where
  "nexts 0 r = Some []"
| "nexts (Suc k) r = Option.bind (rnd_next r) (\<lambda>(i, r'). map_option ((#) i) (nexts k r'))"

section \<open>The linear congruential part\<close>

text \<open>The sequence of Park and Miller.\<close>

definition minstd :: "int \<Rightarrow> int" where
  "minstd x = 16807 * (if x = 0 then 123459876 else x) mod 2147483647"

lemma reduce_once:
  assumes "- 2147483647 < y" "y < (2147483647 :: int)"
  shows "y mod 2147483647 = (if y < 0 then y + 2147483647 else y)"
proof (cases "y < 0")
  case True
  have "y mod 2147483647 = (y + 2147483647) mod 2147483647" by simp
  also have "\<dots> = y + 2147483647" using assms True by (intro mod_pos_pos_trivial) auto
  finally show ?thesis using True by simp
next
  case False
  then show ?thesis using assms by (simp add: mod_pos_pos_trivial)
qed

lemma schrage:
  assumes "int_range x"
  defines "hi \<equiv> c_div x 127773" and "lo \<equiv> c_mod x 127773"
  shows "\<bar>lo\<bar> < 127773" "\<bar>hi\<bar> \<le> 16807" "16807 * x mod 2147483647 = (16807 * lo - 2836 * hi) mod 2147483647"
proof -
  have hi: "hi = sgn x * (\<bar>x\<bar> div 127773)" by (simp add: hi_def c_div_def)
  have lo: "lo = sgn x * (\<bar>x\<bar> mod 127773)"
  proof -
    have "lo = sgn x * \<bar>x\<bar> - 127773 * (sgn x * (\<bar>x\<bar> div 127773))"
      by (simp add: lo_def c_mod_def hi_def [symmetric] hi mult_sgn_abs mult.commute [of "sgn x"])
    then show ?thesis by (simp add: minus_div_mult_eq_mod [symmetric] algebra_simps)
  qed
  have "\<bar>x\<bar> mod 127773 < 127773" "0 \<le> \<bar>x\<bar> mod 127773" by simp_all
  then show "\<bar>lo\<bar> < 127773" unfolding lo abs_mult abs_sgn_eq by simp
  have "\<bar>x\<bar> \<le> 2147483648" using assms(1) by (auto simp: int_range_def)
  then have "\<bar>x\<bar> div 127773 \<le> 2147483648 div 127773" by (rule zdiv_mono1) simp
  moreover have "0 \<le> \<bar>x\<bar> div 127773" by simp
  ultimately show "\<bar>hi\<bar> \<le> 16807" unfolding hi abs_mult abs_sgn_eq by simp
  have "lo = x - 127773 * hi" by (simp add: lo_def c_mod_def hi_def)
  then have "16807 * x = 16807 * lo - 2836 * hi + 2147483647 * hi" by (simp add: algebra_simps)
  then show "16807 * x mod 2147483647 = (16807 * lo - 2836 * hi) mod 2147483647"
    by (simp only: mod_mult_self2)
qed

lemma minstd_range: "0 \<le> minstd x \<and> minstd x < 2147483647"
  by (simp add: minstd_def)

lemma goodRand_exact: "goodRand w = Some (of_int (minstd (sint w)))"
proof -
  define x0 where "x0 = (if sint w = 0 then 123459876 else sint w)"
  have "- (2 ^ 31) \<le> sint w" "sint w < 2 ^ 31"
    using sint_greater_eq [of w] sint_less [of w] by simp_all
  then have r: "int_range x0" by (auto simp: x0_def int_range_def)
  note s = schrage [OF r]
  let ?a = "16807 * c_mod x0 127773" and ?b = "2836 * c_div x0 127773"
  have b: "\<bar>?a\<bar> \<le> 2147464004" "\<bar>?b\<bar> \<le> 47664652" "- 2147483647 < ?a - ?b" "?a - ?b < 2147483647"
  proof -
    show 1: "\<bar>?a\<bar> \<le> 2147464004" using s(1) by linarith
    show 2: "\<bar>?b\<bar> \<le> 47664652" using s(2) by linarith
    have "c_mod x0 127773 \<ge> 0 \<and> c_div x0 127773 \<ge> 0 \<or> c_mod x0 127773 \<le> 0 \<and> c_div x0 127773 \<le> 0"
    proof (cases "0 \<le> x0")
      case False
      then have "c_div x0 127773 = - (\<bar>x0\<bar> div 127773)" by (simp add: c_div_def)
      moreover have "c_mod x0 127773 = - (\<bar>x0\<bar> mod 127773)"
        unfolding c_mod_def calculation using False by (simp add: minus_div_mult_eq_mod [symmetric] algebra_simps)
      moreover have "0 \<le> \<bar>x0\<bar> div 127773" "0 \<le> \<bar>x0\<bar> mod 127773" by (simp_all add: pos_imp_zdiv_nonneg_iff)
      ultimately show ?thesis by linarith
    qed (simp add: pos_imp_zdiv_nonneg_iff)
    then show "- 2147483647 < ?a - ?b" "?a - ?b < 2147483647" using 1 2 by linarith+
  qed
  have m: "(if ?a - ?b < 0 then ?a - ?b + 2147483647 else ?a - ?b) = minstd (sint w)"
    using reduce_once [OF b(3,4)] s(3) by (simp add: minstd_def x0_def)
  have "int_range ?a" "int_range ?b" "int_range (?a - ?b)" "int_range (minstd (sint w))"
    using b minstd_range [of "sint w"] by (auto simp: int_range_def)
  then show ?thesis
    unfolding goodRand_def Let_def x0_def [symmetric] using m by simp
qed


section \<open>The additive feedback part\<close>

text \<open>The recurrence with the initial values \<open>z\<close>.\<close>

fun lag :: "nat \<Rightarrow> nat \<Rightarrow> (nat \<Rightarrow> u32) \<Rightarrow> nat \<Rightarrow> u32" where
  "lag d s z m =
     (if d = 0 \<or> s = 0 \<or> m < d then z m else lag d s z (m - d) + lag d s z (m - s))"

declare lag.simps [simp del]

text \<open>
  After \<open>n\<close> steps: the pointers, and the last \<open>d\<close> values around the table.
\<close>

definition lag_state :: "nat \<Rightarrow> nat \<Rightarrow> (nat \<Rightarrow> u32) \<Rightarrow> nat \<Rightarrow> rnd \<Rightarrow> bool" where
  "lag_state d s z n r \<longleftrightarrow> randType r \<noteq> TYPE_0 \<and> randDeg r = d \<and> d < length (r_buf r) \<and>
     fptr r = (s + n) mod d \<and> rptr r = n mod d \<and>
     (\<forall>j<d. r_buf r ! Suc ((s + n + j) mod d) = lag d s z (n + j))"

lemma mod_neq_shift:
  assumes "0 < k" "k < (d :: nat)"
  shows "(a + k) mod d \<noteq> a mod d"
proof
  assume "(a + k) mod d = a mod d"
  then have "d dvd k" by (metis add_diff_cancel_left' mod_eq_dvd_iff_nat le_add1)
  then show False using assms by (auto dest: dvd_imp_le)
qed

lemma ring_step: "0 < d \<Longrightarrow> a mod d + 1 \<ge> d \<Longrightarrow> Suc a mod d = (0 :: nat)"
  "0 < d \<Longrightarrow> a mod d + 1 < d \<Longrightarrow> Suc a mod d = (a mod d + 1 :: nat)"
  using mod_less_divisor [of d a] by (auto simp del: mod_less_divisor simp: mod_Suc)

lemma lag_step:
  assumes st: "lag_state d s z n r" and ds: "0 < s" "s < d"
  shows "\<exists>r'. rnd_next r = Some (drop_bit 1 (lag d s z (d + n)), r') \<and> lag_state d s z (Suc n) r'"
proof -
  let ?f = "(s + n) mod d" and ?q = "n mod d"
  let ?v = "lag d s z (d + n)"
  have p: "fptr r = ?f" "rptr r = ?q" "randType r \<noteq> TYPE_0" "randDeg r = d" "d < length (r_buf r)"
    using st by (auto simp: lag_state_def)
  have vals: "j < d \<Longrightarrow> r_buf r ! Suc ((s + n + j) mod d) = lag d s z (n + j)" for j
    using st by (auto simp: lag_state_def)
  have lt: "?f < d" "?q < d" using ds by simp_all
  then have le: "Suc ?f < length (r_buf r)" "Suc ?q < length (r_buf r)" using p(5) by linarith+
  have vf: "r_buf r ! Suc ?f = lag d s z n" using vals [of 0] ds by simp
  have "(s + n + (d - s)) mod d = ?q" using ds by simp
  then have vr: "r_buf r ! Suc ?q = lag d s z (n + (d - s))" using vals [of "d - s"] ds by simp
  have v: "lag d s z n + lag d s z (n + (d - s)) = ?v"
    using ds by (subst (3) lag.simps) (simp add: add.commute)
  let ?r1 = "r\<lparr>r_buf := (r_buf r)[Suc ?f := ?v]\<rparr>"
  have nx: "rnd_next r = Some (drop_bit 1 ?v AND 0x7FFFFFFF,
      if ?f + 1 \<ge> d then ?r1\<lparr>fptr := 0, rptr := ?q + 1\<rparr>
      else if ?q + 1 \<ge> d then ?r1\<lparr>fptr := ?f + 1, rptr := 0\<rparr>
      else ?r1\<lparr>fptr := ?f + 1, rptr := ?q + 1\<rparr>)"
    using p le by (simp add: rnd_next_def st_get_def st_set_def vf vr v Let_def)
  have "unat (drop_bit 1 ?v AND 0x7FFFFFFF) = unat (drop_bit 1 ?v)"
  proof -
    have "drop_bit 1 ?v AND 0x7FFFFFFF = take_bit 31 (drop_bit 1 ?v)"
      by (simp add: take_bit_eq_mask mask_eq_exp_minus_1)
    moreover have "unat (drop_bit 1 ?v) < 2 ^ 31"
      using unat_less_2p [of ?v] by (simp add: unat_drop_bit_div)
    ultimately show ?thesis by (simp only: unat_take_bit_mod mod_less)
  qed
  then have m: "drop_bit 1 ?v AND 0x7FFFFFFF = drop_bit 1 ?v" by (rule word_unat_eq_iff [THEN iffD2])
  define r' where "r' = (if ?f + 1 \<ge> d then ?r1\<lparr>fptr := 0, rptr := ?q + 1\<rparr>
      else if ?q + 1 \<ge> d then ?r1\<lparr>fptr := ?f + 1, rptr := 0\<rparr>
      else ?r1\<lparr>fptr := ?f + 1, rptr := ?q + 1\<rparr>)"
  have "fptr r' = (s + Suc n) mod d"
    using ring_step [of d "s + n"] ds by (auto simp: r'_def)
  moreover have "rptr r' = Suc n mod d"
  proof (cases "?f + 1 \<ge> d")
    case True
    have "?q + 1 < d"
    proof (rule ccontr)
      assume "\<not> ?q + 1 < d"
      then have "?f = ?q" using True lt by linarith
      then show False using mod_neq_shift [of s d n] ds by (simp add: add.commute)
    qed
    then show ?thesis using True ring_step(2) [of d n] ds by (simp add: r'_def)
  next
    case False
    then show ?thesis using ring_step [of d n] ds by (auto simp: r'_def)
  qed
  moreover have "r_buf r' ! Suc ((s + Suc n + j) mod d) = lag d s z (Suc n + j)" if j: "j < d" for j
  proof (cases "Suc j = d")
    case True
    then have "(s + Suc n + j) mod d = ?f" by (metis add_Suc_right add_Suc_shift mod_add_self2)
    moreover have "r_buf r' ! Suc ?f = ?v" using le by (simp add: r'_def)
    moreover have "Suc n + j = d + n" using True by simp
    ultimately show ?thesis by (simp only:)
  next
    case False
    have "(s + n + Suc j) mod d \<noteq> ?f" using mod_neq_shift [of "Suc j" d "s + n"] j False by simp
    then show ?thesis using vals [of "Suc j"] j False by (simp add: r'_def)
  qed
  ultimately have "lag_state d s z (Suc n) r'" using p by (auto simp: lag_state_def r'_def)
  then show ?thesis using nx m by (auto simp: r'_def)
qed

lemma lag_discard:
  "\<lbrakk>lag_state d s z n r; 0 < s; s < d\<rbrakk> \<Longrightarrow> \<exists>r'. discard k r = Some r' \<and> lag_state d s z (n + k) r'"
proof (induction k arbitrary: n r)
  case (Suc k)
  obtain r1 where "rnd_next r = Some (drop_bit 1 (lag d s z (d + n)), r1)" "lag_state d s z (Suc n) r1"
    using lag_step [OF Suc.prems] by blast
  then show ?case using Suc.IH [of "Suc n" r1] Suc.prems(2,3) by auto
qed simp

lemma lag_nexts:
  "\<lbrakk>lag_state d s z n r; 0 < s; s < d\<rbrakk> \<Longrightarrow>
   nexts k r = Some (map (\<lambda>i. drop_bit 1 (lag d s z (d + n + i))) [0..<k])"
proof (induction k arbitrary: n r)
  case (Suc k)
  obtain r1 where "rnd_next r = Some (drop_bit 1 (lag d s z (d + n)), r1)" "lag_state d s z (Suc n) r1"
    using lag_step [OF Suc.prems] by blast
  moreover have "[0..<Suc k] = 0 # map Suc [0..<k]" by (simp add: upt_conv_Cons map_Suc_upt)
  ultimately show ?case using Suc.IH [of "Suc n" r1] Suc.prems(2,3) by simp
qed simp

section \<open>Seeding\<close>

definition seed_val :: "u32 \<Rightarrow> nat \<Rightarrow> u32" where
  "seed_val x i = of_int ((minstd ^^ i) (sint x))"

lemma seed_val_0 [simp]: "seed_val x 0 = x"
  by (simp add: seed_val_def)

lemma sint_seed_val: "sint (seed_val x i) = (minstd ^^ i) (sint x)"
proof (cases i)
  case (Suc j)
  have "0 \<le> (minstd ^^ i) (sint x) \<and> (minstd ^^ i) (sint x) < 2147483647"
    using Suc minstd_range by simp
  then show ?thesis by (simp add: seed_val_def int_word_sint)
qed (simp add: seed_val_def)

lemma goodRand_seed: "goodRand (seed_val x i) = Some (seed_val x (Suc i))"
  unfolding goodRand_exact sint_seed_val by (simp add: seed_val_def)

lemma seed_val_bound: "unat (seed_val x (Suc i)) < 2 ^ 31"
proof -
  define m where "m = (minstd ^^ Suc i) (sint x)"
  have "m = minstd ((minstd ^^ i) (sint x))" by (simp only: m_def funpow.simps comp_apply)
  then have m: "0 \<le> m" "m < 2147483647" using minstd_range [of "(minstd ^^ i) (sint x)"] by blast+
  then have "uint (of_int m :: u32) = m"
    unfolding uint_word_of_int by (intro mod_pos_pos_trivial) auto
  then have "uint (seed_val x (Suc i)) < 2147483648"
    using m unfolding seed_val_def m_def [symmetric] by linarith
  then have "int (unat (seed_val x (Suc i))) < int (2 ^ 31)" by (simp only: uint_nat) simp
  then show ?thesis by (simp only: of_nat_less_iff)
qed

lemma and_31: "unat v < 2 ^ 31 \<Longrightarrow> (v :: u32) AND 0x7FFFFFFF = v"
proof -
  assume v: "unat v < 2 ^ 31"
  have "v AND 0x7FFFFFFF = take_bit 31 v" by (simp add: take_bit_eq_mask mask_eq_exp_minus_1)
  then show ?thesis using v by (simp only: word_unat_eq_iff unat_take_bit_mod mod_less)
qed

text \<open>The state of the trivial type after \<open>n\<close> steps.\<close>

definition lcg_state :: "u32 \<Rightarrow> nat \<Rightarrow> rnd \<Rightarrow> bool" where
  "lcg_state x n r \<longleftrightarrow> randType r = TYPE_0 \<and> 1 < length (r_buf r) \<and> r_buf r ! 1 = seed_val x n"

lemma lcg_step:
  assumes "lcg_state x n r"
  shows "\<exists>r'. rnd_next r = Some (seed_val x (Suc n), r') \<and> lcg_state x (Suc n) r'"
  using assms
  by (simp add: lcg_state_def rnd_next_def st_get_def st_set_def goodRand_seed and_31 [OF seed_val_bound] Let_def)

lemma lcg_discard: "lcg_state x n r \<Longrightarrow> \<exists>r'. discard k r = Some r' \<and> lcg_state x (n + k) r'"
proof (induction k arbitrary: n r)
  case (Suc k)
  obtain r1 where "rnd_next r = Some (seed_val x (Suc n), r1)" "lcg_state x (Suc n) r1"
    using lcg_step [OF Suc.prems] by blast
  then show ?case using Suc.IH [of "Suc n" r1] by auto
qed simp

lemma lcg_nexts: "lcg_state x n r \<Longrightarrow> nexts k r = Some (map (\<lambda>i. seed_val x (Suc (n + i))) [0..<k])"
proof (induction k arbitrary: n r)
  case (Suc k)
  obtain r1 where "rnd_next r = Some (seed_val x (Suc n), r1)" "lcg_state x (Suc n) r1"
    using lcg_step [OF Suc.prems] by blast
  moreover have "[0..<Suc k] = 0 # map Suc [0..<k]" by (simp add: upt_conv_Cons map_Suc_upt)
  ultimately show ?case using Suc.IH [of "Suc n" r1] by simp
qed simp

lemma fill_table_exact:
  "\<lbrakk>0 < i; i + k < length (r_buf r); \<forall>j<i. r_buf r ! Suc j = seed_val x j\<rbrakk> \<Longrightarrow>
   \<exists>b. fill_table [i..<i + k] r = Some (r\<lparr>r_buf := b\<rparr>) \<and> length b = length (r_buf r) \<and>
     (\<forall>j<i + k. b ! Suc j = seed_val x j)"
proof (induction k arbitrary: i r)
  case (Suc k)
  let ?r = "r\<lparr>r_buf := (r_buf r)[Suc i := seed_val x i]\<rparr>"
  have u: "[i..<i + Suc k] = i # [Suc i..<Suc i + k]" by (simp add: upt_conv_Cons)
  have "r_buf r ! Suc (i - 1) = seed_val x (i - 1)"
    using Suc.prems(1) Suc.prems(3) [rule_format, of "i - 1"] by simp
  then have "fill_table [i..<i + Suc k] r = fill_table [Suc i..<Suc i + k] ?r"
    unfolding u using Suc.prems goodRand_seed [of x "i - 1"] by (simp add: st_get_def st_set_def)
  moreover have "\<forall>j<Suc i. r_buf ?r ! Suc j = seed_val x j"
    using Suc.prems by (auto simp: less_Suc_eq)
  ultimately show ?case using Suc.IH [of "Suc i" ?r] Suc.prems by auto
qed (simp, metis rnd.surjective rnd.update_convs(1))

lemma seed_lag:
  assumes "randType r \<noteq> TYPE_0" "randDeg r = d" "randSep r = s" "0 < s" "s < d" "d < length (r_buf r)"
  shows "\<exists>r'. seed x r = Some r' \<and> lag_state d s (\<lambda>j. seed_val x ((s + j) mod d)) (10 * d) r'"
proof -
  let ?z = "\<lambda>j. seed_val x ((s + j) mod d)"
  let ?r0 = "r\<lparr>r_buf := (r_buf r)[Suc 0 := x]\<rparr>"
  have l: "Suc 0 < length (r_buf r)" using assms(5,6) by linarith
  obtain b where b: "fill_table [1..<1 + (d - 1)] ?r0 = Some (?r0\<lparr>r_buf := b\<rparr>)" "length b = length (r_buf r)"
    "\<forall>j<1 + (d - 1). b ! Suc j = seed_val x j"
    using fill_table_exact [of 1 "d - 1" ?r0 x] assms l by auto
  let ?r1 = "?r0\<lparr>r_buf := b, fptr := s, rptr := 0\<rparr>"
  have "lag_state d s ?z 0 ?r1"
    using assms b(2,3) by (auto simp: lag_state_def lag.simps [of d s ?z])
  from lag_discard [OF this assms(4,5), of "10 * d"]
  obtain r' where "discard (10 * d) ?r1 = Some r'" "lag_state d s ?z (10 * d) r'" by auto
  moreover have "seed x r = discard (10 * d) ?r1"
    using assms b(1) l by (simp add: seed_def st_set_def)
  ultimately show ?thesis by auto
qed

text \<open>The type word in front of the table is not read.\<close>

lemma lag_state_front: "lag_state d s z n r \<Longrightarrow> lag_state d s z n (r\<lparr>r_buf := (r_buf r)[0 := v]\<rparr>)"
  by (simp add: lag_state_def)

lemma lcg_state_front: "lcg_state x n r \<Longrightarrow> lcg_state x n (r\<lparr>r_buf := (r_buf r)[0 := v]\<rparr>)"
  by (simp add: lcg_state_def)

section \<open>Properties\<close>

text \<open>Degree and separation for a buffer of \<open>n\<close> bytes, and the value of the \<open>i\<close>-th call.\<close>

definition trinomial :: "int \<Rightarrow> nat \<times> nat" where
  "trinomial n = (if n < 64 then (7, 3) else if n < 128 then (15, 1) else if n < 256 then (31, 3) else (63, 1))"

definition random_value :: "int \<Rightarrow> u32 \<Rightarrow> nat \<Rightarrow> u32" where
  "random_value n x i =
     (if n < 32 then of_int ((minstd ^^ (51 + i)) (sint x))
      else (case trinomial n of (d, s) \<Rightarrow>
        drop_bit 1 (lag d s (\<lambda>j. of_int ((minstd ^^ ((s + j) mod d)) (sint x))) (11 * d + i))))"

text \<open>
  The generator with its table and its two pointers computes the additive feedback sequence
  \<open>z m = z (m - d) + z (m - s)\<close> of the trinomial for its buffer size, started with the numbers of
  Park and Miller for the seed and advanced by \<open>10 d\<close> steps; with less than 32 bytes it computes
  the sequence of Park and Miller itself. No access leaves the buffer, no \<^verbatim>\<open>Int32\<close> overflows, and
  all values are below \<open>2 ^ 31\<close>.
\<close>

theorem random_recurrence:
  assumes "8 \<le> n" "n \<le> 256" "length junk = nat n div 4"
  shows "Option.bind (Random junk now n) (nexts k) = Some (map (random_value n now) [0..<k]) \<and>
    (\<forall>i. unat (random_value n now i) < 2 ^ 31)"
proof (cases "n < 32")
  case True
  let ?r = "\<lparr>r_buf = junk, randType = TYPE_0, randDeg = DEG_0, randSep = SEP_0, fptr = 0, rptr = 0\<rparr>"
  have l: "1 < length junk" using assms by linarith
  then have "lcg_state now 0 (?r\<lparr>r_buf := junk[Suc 0 := now]\<rparr>)" by (simp add: lcg_state_def)
  from lcg_discard [OF this, of NSHUFF] obtain r1 where
    r1: "discard NSHUFF (?r\<lparr>r_buf := junk[Suc 0 := now]\<rparr>) = Some r1" "lcg_state now 50 r1"
    by (auto simp: NSHUFF_def)
  have "seed now ?r = Some r1" using r1(1) l by (simp add: seed_def st_set_def)
  then have "Random junk now n = Some (r1\<lparr>r_buf := (r_buf r1)[0 := of_nat (randType r1)]\<rparr>)"
    using assms True r1(2)
    by (simp add: Random_def initState_def BREAK_0_def BREAK_4_def BREAK_1_def lcg_state_def)
  moreover note lcg_nexts [OF lcg_state_front [OF r1(2), of "of_nat (randType r1)"], of k]
  moreover have v: "random_value n now i = seed_val now (Suc (50 + i))" for i
    using True by (simp add: random_value_def seed_val_def)
  moreover have "unat (seed_val now (51 + i)) < 2 ^ 31" for i
    using seed_val_bound [of now "50 + i"] by simp
  ultimately show ?thesis by (simp add: comp_def)
next
  case False
  obtain d s where ds: "trinomial n = (d, s)" by force
  have p: "0 < s" "s < d" "d < length junk" "d \<noteq> 0"
    using ds assms False unfolding trinomial_def by (auto split: if_splits)
  obtain ty where ty: "ty \<noteq> TYPE_0" "(if n < BREAK_1 then (TYPE_0, DEG_0, SEP_0)
                else if n < BREAK_2 then (TYPE_1, DEG_1, SEP_1)
                else if n < BREAK_3 then (TYPE_2, DEG_2, SEP_2)
                else if n < BREAK_4 then (TYPE_3, DEG_3, SEP_3)
                else (TYPE_4, DEG_4, SEP_4)) = (ty, d, s)"
    using ds False unfolding trinomial_def
    by (auto simp: BREAK_1_def BREAK_2_def BREAK_3_def BREAK_4_def TYPE_0_def TYPE_1_def TYPE_2_def
        TYPE_3_def TYPE_4_def DEG_1_def DEG_2_def DEG_3_def DEG_4_def SEP_1_def SEP_2_def SEP_3_def
        SEP_4_def split: if_splits)
  let ?r = "\<lparr>r_buf = junk, randType = ty, randDeg = d, randSep = s, fptr = 0, rptr = 0\<rparr>"
  let ?z = "\<lambda>j. seed_val now ((s + j) mod d)"
  obtain r1 where r1: "seed now ?r = Some r1" "lag_state d s ?z (10 * d) r1"
    using seed_lag [of ?r d s now] p ty(1) by auto
  obtain v where "Random junk now n = Some (r1\<lparr>r_buf := (r_buf r1)[0 := v]\<rparr>)"
    using assms ty(2) r1(1) by (simp add: Random_def initState_def BREAK_0_def BREAK_4_def)
  moreover note lag_nexts [OF lag_state_front [OF r1(2), of v] p(1,2), of k]
  moreover have val: "random_value n now i = drop_bit 1 (lag d s ?z (d + 10 * d + i))" for i
    using False by (simp add: random_value_def ds seed_val_def)
  moreover have "unat (drop_bit 1 w) < 2 ^ 31" for w :: u32
    using unat_less_2p [of w] by (simp add: unat_drop_bit_div)
  ultimately show ?thesis by (simp add: comp_def)
qed

theorem random_recurrence_witness:
  "Option.bind (Random (replicate 32 7) 42 128) (nexts 2) = Some [random_value 128 42 0, random_value 128 42 1]"
  using random_recurrence [of 128 "replicate 32 7" 42 2] by (simp add: upt_rec numeral_2_eq_2)

end
