(* ===== verification/Auto_Ptr.thy ===== *)
theory Auto_Ptr
  imports Prelude "HOL-Library.AList" "HOL-Library.Multiset"
begin

text \<open>
  \<^verbatim>\<open>Common/AutoPtr.h\<close> and \<^verbatim>\<open>Common/RefCountedObject\<close>: counted pointers. A heap has the live objects, each
  with its count and the \<^verbatim>\<open>AutoPtr\<close> members it consists of, and the \<^verbatim>\<open>AutoPtr\<close> variables of the
  program; a null pointer is \<open>None\<close>. Deleting an object runs the destructors of its members.
  Every access to an object or a variable that does not exist is \<open>None\<close>.
\<close>

section \<open>Objects and counts\<close>

type_synonym oid = nat
type_synonym ptr = "oid option"

record obj =
  rc :: int
  mem :: "ptr list"

record ptr_heap =
  objs :: "(oid \<times> obj) list"
  vars :: "(nat \<times> ptr) list"

text \<open>An \<^verbatim>\<open>AutoPtr\<close> is a variable, or a member of an object.\<close>

datatype loc = Var nat | Member oid nat

definition get_loc :: "loc \<Rightarrow> ptr_heap \<Rightarrow> ptr option" where
  "get_loc l h =
     (case l of
        Var v \<Rightarrow> map_of (vars h) v
      | Member x i \<Rightarrow>
          Option.bind (map_of (objs h) x) (\<lambda>ob. if i < length (mem ob) then Some (mem ob ! i) else None))"

definition set_loc :: "loc \<Rightarrow> ptr \<Rightarrow> ptr_heap \<Rightarrow> ptr_heap option" where
  "set_loc l p h =
     (case get_loc l h of
        None \<Rightarrow> None
      | Some _ \<Rightarrow>
          (case l of
             Var v \<Rightarrow> Some (h\<lparr>vars := AList.update v p (vars h)\<rparr>)
           | Member x i \<Rightarrow>
               map_option (\<lambda>ob. h\<lparr>objs := AList.update x (ob\<lparr>mem := (mem ob)[i := p]\<rparr>) (objs h)\<rparr>)
                 (map_of (objs h) x)))"

text \<open>\<^verbatim>\<open>new\<close> of a class with \<open>n\<close> members, at the address the allocator gives.\<close>

definition new_object :: "oid \<Rightarrow> nat \<Rightarrow> ptr_heap \<Rightarrow> ptr_heap option" where
  "new_object x n h =
     (if map_of (objs h) x \<noteq> None then None
      else Some (h\<lparr>objs := AList.update x \<lparr>rc = 1, mem = replicate n None\<rparr> (objs h)\<rparr>))"

definition obj_duplicate :: "oid \<Rightarrow> ptr_heap \<Rightarrow> ptr_heap option" where
  "obj_duplicate x h =
     map_option (\<lambda>ob. h\<lparr>objs := AList.update x (ob\<lparr>rc := rc ob + 1\<rparr>) (objs h)\<rparr>) (map_of (objs h) x)"

definition non_null :: "ptr list \<Rightarrow> oid list" where
  "non_null ps = map the (filter (\<lambda>p. p \<noteq> None) ps)"

lemma length_delete_less: "map_of xs k = Some v \<Longrightarrow> length (AList.delete k xs) < length xs"
proof (induction xs)
  case (Cons a xs)
  then show ?case using length_delete_le [of k xs] by (cases a) (auto split: if_splits)
qed simp

lemma length_update_old: "map_of xs k = Some v \<Longrightarrow> length (AList.update k w xs) = length xs"
  by (induction xs) (auto split: if_splits)

text \<open>
  The releases still to be done: at first the one asked for, and the members of every object
  that is deleted, the last member first.
\<close>

function release_all :: "oid list \<Rightarrow> ptr_heap \<Rightarrow> ptr_heap option" where
  "release_all [] h = Some h"
| "release_all (x # xs) h =
     (case map_of (objs h) x of
        None \<Rightarrow> None
      | Some ob \<Rightarrow>
          if rc ob - 1 = 0
          then release_all (non_null (rev (mem ob)) @ xs) (h\<lparr>objs := AList.delete x (objs h)\<rparr>)
          else release_all xs (h\<lparr>objs := AList.update x (ob\<lparr>rc := rc ob - 1\<rparr>) (objs h)\<rparr>))"
  by pat_completeness auto
termination
  by (relation "measures [\<lambda>(xs, h). length (objs h), \<lambda>(xs, h). length xs]")
    (auto simp: length_delete_less length_update_old)

definition obj_release :: "oid \<Rightarrow> ptr_heap \<Rightarrow> ptr_heap option" where
  "obj_release x h = release_all [x] h"

section \<open>AutoPtr\<close>

definition dup_ptr :: "ptr \<Rightarrow> ptr_heap \<Rightarrow> ptr_heap option" where
  "dup_ptr p h = (case p of None \<Rightarrow> Some h | Some x \<Rightarrow> obj_duplicate x h)"

definition release_ptr :: "ptr \<Rightarrow> ptr_heap \<Rightarrow> ptr_heap option" where
  "release_ptr p h = (case p of None \<Rightarrow> Some h | Some x \<Rightarrow> obj_release x h)"

text \<open>The constructors make a new variable.\<close>

definition AutoPtr :: "nat \<Rightarrow> ptr \<Rightarrow> ptr_heap \<Rightarrow> ptr_heap option" where
  "AutoPtr v p h =
     (if map_of (vars h) v \<noteq> None then None else Some (h\<lparr>vars := AList.update v p (vars h)\<rparr>))"

definition AutoPtr_shared :: "nat \<Rightarrow> ptr \<Rightarrow> bool \<Rightarrow> ptr_heap \<Rightarrow> ptr_heap option" where
  "AutoPtr_shared v p shared h =
     Option.bind (AutoPtr v p h) (\<lambda>h. if shared then dup_ptr p h else Some h)"

definition AutoPtr_copy :: "nat \<Rightarrow> loc \<Rightarrow> ptr_heap \<Rightarrow> ptr_heap option" where
  "AutoPtr_copy v l h =
     Option.bind (get_loc l h) (\<lambda>p. Option.bind (AutoPtr v p h) (dup_ptr p))"

definition AutoPtr_destroy :: "nat \<Rightarrow> ptr_heap \<Rightarrow> ptr_heap option" where
  "AutoPtr_destroy v h =
     Option.bind (map_of (vars h) v) (\<lambda>p.
       map_option (\<lambda>h. h\<lparr>vars := AList.delete v (vars h)\<rparr>) (release_ptr p h))"

definition assign_ptr :: "loc \<Rightarrow> ptr \<Rightarrow> ptr_heap \<Rightarrow> ptr_heap option" where
  "assign_ptr l p h =
     Option.bind (get_loc l h) (\<lambda>old.
       if old \<noteq> p then Option.bind (release_ptr old h) (set_loc l p) else Some h)"

definition assign_shared :: "loc \<Rightarrow> ptr \<Rightarrow> bool \<Rightarrow> ptr_heap \<Rightarrow> ptr_heap option" where
  "assign_shared l p shared h =
     Option.bind (get_loc l h) (\<lambda>old.
       if old \<noteq> p then
         Option.bind (release_ptr old h) (\<lambda>h1.
         Option.bind (set_loc l p h1) (\<lambda>h2. if shared then dup_ptr p h2 else Some h2))
       else Some h)"

text \<open>The pointer of the other \<^verbatim>\<open>AutoPtr\<close> is read after the release.\<close>

definition assign_auto :: "loc \<Rightarrow> loc \<Rightarrow> ptr_heap \<Rightarrow> ptr_heap option" where
  "assign_auto l l' h =
     (if l' \<noteq> l then
        Option.bind (get_loc l h) (\<lambda>old.
        Option.bind (release_ptr old h) (\<lambda>h1.
        Option.bind (get_loc l' h1) (\<lambda>p.
        Option.bind (set_loc l p h1) (dup_ptr p))))
      else Some h)"

definition assign_other :: "loc \<Rightarrow> loc \<Rightarrow> ptr_heap \<Rightarrow> ptr_heap option" where
  "assign_other l l' h =
     Option.bind (get_loc l h) (\<lambda>old.
     Option.bind (get_loc l' h) (\<lambda>p0.
       if p0 \<noteq> old then
         Option.bind (release_ptr old h) (\<lambda>h1.
         Option.bind (get_loc l' h1) (\<lambda>p.
         Option.bind (set_loc l p h1) (dup_ptr p)))
       else Some h))"

definition ptr_swap :: "loc \<Rightarrow> loc \<Rightarrow> ptr_heap \<Rightarrow> ptr_heap option" where
  "ptr_swap l l' h =
     Option.bind (get_loc l h) (\<lambda>p. Option.bind (get_loc l' h) (\<lambda>q.
     Option.bind (set_loc l q h) (set_loc l' p)))"

definition ptr_cast :: "nat \<Rightarrow> loc \<Rightarrow> (oid \<Rightarrow> bool) \<Rightarrow> ptr_heap \<Rightarrow> ptr_heap option" where
  "ptr_cast v l is_other h =
     Option.bind (get_loc l h) (\<lambda>p.
       AutoPtr_shared v (case p of None \<Rightarrow> None | Some x \<Rightarrow> if is_other x then Some x else None) True h)"

definition unsafeCast :: "nat \<Rightarrow> loc \<Rightarrow> ptr_heap \<Rightarrow> ptr_heap option" where
  "unsafeCast v l h = Option.bind (get_loc l h) (\<lambda>p. AutoPtr_shared v p True h)"

datatype ptr_error = NullPointerException

definition deref :: "loc \<Rightarrow> ptr_heap \<Rightarrow> (ptr_error + oid) option" where
  "deref l h =
     map_option (\<lambda>p. case p of Some x \<Rightarrow> Inr x | None \<Rightarrow> Inl NullPointerException) (get_loc l h)"

definition ptr_get :: "loc \<Rightarrow> ptr_heap \<Rightarrow> ptr option" where "ptr_get l h = get_loc l h"
definition isNull :: "loc \<Rightarrow> ptr_heap \<Rightarrow> bool option" where
  "isNull l h = map_option (\<lambda>p. p = None) (get_loc l h)"

definition ptr_duplicate :: "loc \<Rightarrow> ptr_heap \<Rightarrow> (ptr \<times> ptr_heap) option" where
  "ptr_duplicate l h =
     Option.bind (get_loc l h) (\<lambda>p. map_option (\<lambda>h. (p, h)) (dup_ptr p h))"

section \<open>What is counted\<close>

text \<open>All pointers held by variables and members.\<close>

definition slots :: "ptr_heap \<Rightarrow> ptr multiset" where
  "slots h = mset (map snd (vars h)) + (\<Sum>ob\<in>#mset (map snd (objs h)). mset (mem ob))"

definition live_count :: "ptr_heap \<Rightarrow> oid \<Rightarrow> int option" where
  "live_count h x = map_option rc (map_of (objs h) x)"

text \<open>
  The objects count the pointers to them and the references \<open>raw\<close> that the program holds by
  other means (from \<^verbatim>\<open>new\<close> or \<^verbatim>\<open>duplicate\<close>); objects without any are gone. Between two steps of
  an operation, \<open>raw\<close> is negative for a pointer that is not yet or no longer counted.
\<close>

definition counted :: "(oid \<Rightarrow> int) \<Rightarrow> ptr_heap \<Rightarrow> bool" where
  "counted raw h \<longleftrightarrow> distinct (map fst (objs h)) \<and> distinct (map fst (vars h)) \<and>
     (\<forall>x. 0 \<le> int (count (slots h) (Some x)) + raw x \<and>
       live_count h x = (if int (count (slots h) (Some x)) + raw x = 0 then None
         else Some (int (count (slots h) (Some x)) + raw x)))"

lemma delete_mset:
  "\<lbrakk>distinct (map fst xs); map_of xs k = Some v\<rbrakk> \<Longrightarrow>
   mset (map snd xs) = add_mset v (mset (map snd (AList.delete k xs)))"
proof (induction xs)
  case (Cons a xs)
  show ?case
  proof (cases "fst a = k")
    case True
    then have "AList.delete k xs = xs" using Cons.prems(1) by (auto intro: delete_id)
    then show ?thesis using True Cons.prems(2) by (cases a) auto
  next
    case False
    then show ?thesis using Cons by (cases a) auto
  qed
qed simp

lemma update_mset:
  "distinct (map fst xs) \<Longrightarrow> mset (map snd (AList.update k v xs)) = add_mset v (mset (map snd (AList.delete k xs)))"
proof (induction xs)
  case (Cons a xs)
  show ?case
  proof (cases "fst a = k")
    case True
    then have "AList.delete k xs = xs" using Cons.prems by (auto intro: delete_id)
    then show ?thesis using True by (cases a) auto
  next
    case False
    then show ?thesis using Cons by (cases a) auto
  qed
qed simp

definition bump :: "ptr \<Rightarrow> int \<Rightarrow> (oid \<Rightarrow> int) \<Rightarrow> oid \<Rightarrow> int" where
  "bump p k raw = (case p of None \<Rightarrow> raw | Some x \<Rightarrow> raw(x := raw x + k))"

lemma bump_apply: "bump p k raw x = raw x + (if p = Some x then k else 0)"
  by (auto simp: bump_def split: option.split)

lemma map_of_update: "map_of (AList.update k v xs) x = (if x = k then Some v else map_of xs x)"
  by (simp add: update_conv')

lemma map_of_delete_iff: "map_of (AList.delete k xs) x = (if x = k then None else map_of xs x)"
  by (simp add: delete_conv')

lemma slots_update_obj:
  assumes "distinct (map fst (objs h))" "map_of (objs h) x = Some ob"
  shows "slots (h\<lparr>objs := AList.update x ob' (objs h)\<rparr>) + mset (mem ob) = slots h + mset (mem ob')"
  by (simp add: slots_def update_mset [OF assms(1)] delete_mset [OF assms] ac_simps del: mset_map)

lemma slots_delete_obj:
  assumes "distinct (map fst (objs h))" "map_of (objs h) x = Some ob"
  shows "slots (h\<lparr>objs := AList.delete x (objs h)\<rparr>) + mset (mem ob) = slots h"
  by (simp add: slots_def delete_mset [OF assms] ac_simps del: mset_map)

lemma slots_new_obj:
  assumes "distinct (map fst (objs h))" "map_of (objs h) x = None"
  shows "slots (h\<lparr>objs := AList.update x ob' (objs h)\<rparr>) = slots h + mset (mem ob')"
proof -
  have "x \<notin> fst ` set (objs h)" using assms(2) by (simp add: map_of_eq_None_iff)
  then show ?thesis by (simp add: slots_def update_mset [OF assms(1)] delete_id ac_simps del: mset_map)
qed

lemma slots_update_var:
  assumes "distinct (map fst (vars h))" "map_of (vars h) v = Some p"
  shows "add_mset p (slots (h\<lparr>vars := AList.update v q (vars h)\<rparr>)) = add_mset q (slots h)"
  by (simp add: slots_def update_mset [OF assms(1)] delete_mset [OF assms] ac_simps del: mset_map)

lemma slots_delete_var:
  assumes "distinct (map fst (vars h))" "map_of (vars h) v = Some p"
  shows "slots h = add_mset p (slots (h\<lparr>vars := AList.delete v (vars h)\<rparr>))"
  by (simp add: slots_def delete_mset [OF assms] ac_simps del: mset_map)

lemma slots_new_var:
  assumes "distinct (map fst (vars h))" "map_of (vars h) v = None"
  shows "slots (h\<lparr>vars := AList.update v q (vars h)\<rparr>) = add_mset q (slots h)"
proof -
  have "v \<notin> fst ` set (vars h)" using assms(2) by (simp add: map_of_eq_None_iff)
  then show ?thesis by (simp add: slots_def update_mset [OF assms(1)] delete_id ac_simps del: mset_map)
qed

text \<open>One pointer more or less in the slots, with the counts as they are.\<close>

lemma counted_more:
  assumes "counted raw h" "slots h' = add_mset p (slots h)" "\<And>x. live_count h' x = live_count h x"
    "distinct (map fst (objs h'))" "distinct (map fst (vars h'))"
  shows "counted (bump p (- 1) raw) h'"
  using assms by (auto simp: counted_def bump_apply)

lemma counted_exchange:
  assumes "counted raw h" "add_mset p (slots h') = add_mset q (slots h)" "\<And>x. live_count h' x = live_count h x"
    "distinct (map fst (objs h'))" "distinct (map fst (vars h'))"
  shows "counted (bump q (- 1) (bump p 1 raw)) h'"
proof -
  have "int (count (slots h') (Some x)) + (if p = Some x then 1 else 0) =
      int (count (slots h) (Some x)) + (if q = Some x then 1 else 0)" for x
    using arg_cong [OF assms(2), of "\<lambda>M. int (count M (Some x))"] by (auto split: if_splits)
  then have "int (count (slots h') (Some x)) + bump q (- 1) (bump p 1 raw) x =
      int (count (slots h) (Some x)) + raw x" for x
    by (smt (verit) bump_apply)
  then show ?thesis using assms(1,3-5) by (simp add: counted_def)
qed

lemma set_loc_counted:
  assumes "counted raw h" "get_loc l h = Some p"
  shows "\<exists>h'. set_loc l q h = Some h' \<and> counted (bump q (- 1) (bump p 1 raw)) h' \<and>
    (\<forall>x. live_count h' x = live_count h x)"
proof (cases l)
  case (Var v)
  let ?h = "h\<lparr>vars := AList.update v q (vars h)\<rparr>"
  have v: "map_of (vars h) v = Some p" using assms(2) Var by (simp add: get_loc_def)
  have d: "distinct (map fst (vars h))" "distinct (map fst (objs h))" using assms(1) by (auto simp: counted_def)
  have "set_loc l q h = Some ?h" using assms(2) Var by (simp add: set_loc_def)
  moreover have "counted (bump q (- 1) (bump p 1 raw)) ?h"
    using d by (intro counted_exchange [OF assms(1) slots_update_var [OF d(1) v]])
      (simp_all add: live_count_def distinct_update)
  ultimately show ?thesis by (simp add: live_count_def)
next
  case (Member x i)
  then obtain ob where ob: "map_of (objs h) x = Some ob" "i < length (mem ob)" "mem ob ! i = p"
    using assms(2) by (auto simp: get_loc_def split: if_splits bind_splits)
  let ?ob = "ob\<lparr>mem := (mem ob)[i := q]\<rparr>"
  let ?h = "h\<lparr>objs := AList.update x ?ob (objs h)\<rparr>"
  have d: "distinct (map fst (vars h))" "distinct (map fst (objs h))" using assms(1) by (auto simp: counted_def)
  have "set_loc l q h = Some ?h" using assms(2) Member ob by (simp add: set_loc_def)
  moreover have s: "add_mset p (slots ?h) = add_mset q (slots h)"
  proof -
    have m: "add_mset p (mset ((mem ob)[i := q])) = add_mset q (mset (mem ob))"
    proof -
      have "p \<in># mset (mem ob)" using ob(2,3) nth_mem by fastforce
      then show ?thesis using ob by (simp add: mset_update)
    qed
    have "slots ?h + mset (mem ob) = slots h + mset ((mem ob)[i := q])"
      using slots_update_obj [OF d(2) ob(1), of ?ob] by simp
    then have "add_mset p (slots ?h) + mset (mem ob) = add_mset q (slots h) + mset (mem ob)"
      using m by (metis add_mset_add_single union_assoc union_commute)
    then show ?thesis by simp
  qed
  have l: "live_count ?h y = live_count h y" for y using ob by (simp add: live_count_def map_of_update)
  have "counted (bump q (- 1) (bump p 1 raw)) ?h"
    using assms(1) s l d by (intro counted_exchange) (simp_all add: distinct_update)
  ultimately show ?thesis using l by blast
qed

lemma duplicate_counted:
  assumes "counted raw h" "\<And>x. p = Some x \<Longrightarrow> live_count h x \<noteq> None"
  shows "\<exists>h'. dup_ptr p h = Some h' \<and> counted (bump p 1 raw) h' \<and> vars h' = vars h"
proof (cases p)
  case None
  then show ?thesis using assms(1) by (simp add: dup_ptr_def bump_def)
next
  case (Some x)
  then obtain ob where ob: "map_of (objs h) x = Some ob" using assms(2) by (auto simp: live_count_def)
  let ?ob = "ob\<lparr>rc := rc ob + 1\<rparr>"
  let ?h = "h\<lparr>objs := AList.update x ?ob (objs h)\<rparr>"
  have d: "distinct (map fst (objs h))" using assms(1) by (simp add: counted_def)
  have "slots ?h = slots h" using slots_update_obj [OF d ob, of ?ob] by simp
  moreover have "live_count ?h y = (if y = x then map_option ((+) 1) (live_count h x) else live_count h y)" for y
    using ob by (simp add: live_count_def map_of_update)
  ultimately have "counted (bump p 1 raw) ?h"
    using assms(1) assms(2) [OF Some] Some
    by (auto simp: counted_def bump_apply distinct_update split: if_splits)
  then show ?thesis using Some ob by (simp add: dup_ptr_def obj_duplicate_def)
qed


lemma count_non_null: "int (count_list (non_null ps) x) = int (count (mset ps) (Some x))"
  by (induction ps) (auto simp: non_null_def)

text \<open>Pending releases count as references; variables are not touched.\<close>

lemma release_all_counted:
  "\<lbrakk>counted (\<lambda>y. raw y + int (count_list xs y)) h;
    \<And>y. 0 \<le> int (count (mset (map snd (vars h))) (Some y)) + raw y\<rbrakk> \<Longrightarrow>
   \<exists>h'. release_all xs h = Some h' \<and> counted raw h' \<and> vars h' = vars h"
proof (induction xs h rule: release_all.induct)
  case (2 x xs h)
  let ?n = "\<lambda>h xs y. int (count (slots h) (Some y)) + (raw y + int (count_list xs y))"
  have c: "0 \<le> ?n h (x # xs) y" "live_count h y = (if ?n h (x # xs) y = 0 then None else Some (?n h (x # xs) y))" for y
    using 2(3) by (auto simp: counted_def)
  have d: "distinct (map fst (vars h))" "distinct (map fst (objs h))" using 2(3) by (auto simp: counted_def)
  have vs: "count (mset (map snd (vars h))) (Some y) \<le> count (slots h) (Some y)" for y
    by (simp add: slots_def del: mset_map)
  have pos: "0 < ?n h (x # xs) x" using 2(4) [of x] vs [of x] by simp
  then obtain ob where ob: "map_of (objs h) x = Some ob" "rc ob = ?n h (x # xs) x"
    using c(2) [of x] by (auto simp: live_count_def)
  show ?case
  proof (cases "rc ob - 1 = 0")
    case True
    let ?h = "h\<lparr>objs := AList.delete x (objs h)\<rparr>"
    have s: "int (count (slots ?h) (Some y)) + int (count (mset (mem ob)) (Some y)) = int (count (slots h) (Some y))" for y
      using slots_delete_obj [OF d(2) ob(1)] by (metis count_union of_nat_add)
    have n: "?n ?h (non_null (rev (mem ob)) @ xs) y = ?n h (x # xs) y - (if x = y then 1 else 0)" for y
      using s [of y] by (cases "x = y") (simp_all add: count_non_null)
    have "counted (\<lambda>y. raw y + int (count_list (non_null (rev (mem ob)) @ xs) y)) ?h"
      unfolding counted_def n
    proof (intro conjI allI)
      fix y
      show "0 \<le> ?n h (x # xs) y - (if x = y then 1 else 0)" using c(1) [of y] pos by (cases "x = y") auto
      show "live_count ?h y = (if ?n h (x # xs) y - (if x = y then 1 else 0) = 0 then None
          else Some (?n h (x # xs) y - (if x = y then 1 else 0)))"
        using c(2) [of y] True ob(2) by (auto simp: live_count_def map_of_delete_iff)
    qed (use d in \<open>simp_all add: distinct_delete\<close>)
    from 2(1) [OF ob(1) True this] 2(4) ob(1) True show ?thesis by simp
  next
    case False
    let ?ob = "ob\<lparr>rc := rc ob - 1\<rparr>"
    let ?h = "h\<lparr>objs := AList.update x ?ob (objs h)\<rparr>"
    have s: "slots ?h = slots h" using slots_update_obj [OF d(2) ob(1), of ?ob] by simp
    have n: "?n ?h xs y = ?n h (x # xs) y - (if x = y then 1 else 0)" for y unfolding s by simp
    have "counted (\<lambda>y. raw y + int (count_list xs y)) ?h"
      unfolding counted_def n
    proof (intro conjI allI)
      fix y
      show "0 \<le> ?n h (x # xs) y - (if x = y then 1 else 0)" using c(1) [of y] pos by (cases "x = y") auto
      show "live_count ?h y = (if ?n h (x # xs) y - (if x = y then 1 else 0) = 0 then None
          else Some (?n h (x # xs) y - (if x = y then 1 else 0)))"
        using c(2) [of y] False ob by (auto simp: live_count_def map_of_update)
    qed (use d in \<open>simp_all add: distinct_update\<close>)
    from 2(2) [OF ob(1) False this] 2(4) ob(1) False show ?thesis by simp
  qed
qed (simp add: counted_def)

lemma release_counted:
  assumes "counted raw h" "\<And>y. 0 \<le> int (count (mset (map snd (vars h))) (Some y)) + bump p (- 1) raw y"
  shows "\<exists>h'. release_ptr p h = Some h' \<and> counted (bump p (- 1) raw) h' \<and> vars h' = vars h"
proof (cases p)
  case None
  then show ?thesis using assms(1) by (simp add: release_ptr_def bump_def)
next
  case (Some x)
  have "raw = (\<lambda>y. bump p (- 1) raw y + int (count_list [x] y))"
    by (auto simp: bump_apply Some)
  then have "counted (\<lambda>y. bump p (- 1) raw y + int (count_list [x] y)) h" using assms(1) by simp
  from release_all_counted [OF this] assms(2) show ?thesis
    by (simp add: Some release_ptr_def obj_release_def)
qed

text \<open>A pointer that a variable or a member holds is live.\<close>

lemma get_loc_slots: "get_loc l h = Some p \<Longrightarrow> p \<in># slots h"
proof (cases l)
  case (Var v)
  assume "get_loc l h = Some p"
  then have "(v, p) \<in> set (vars h)" using Var by (simp add: get_loc_def map_of_SomeD)
  then show ?thesis by (force simp: slots_def)
next
  case (Member x i)
  assume "get_loc l h = Some p"
  then obtain ob where "map_of (objs h) x = Some ob" "i < length (mem ob)" "mem ob ! i = p"
    using Member by (auto simp: get_loc_def split: if_splits bind_splits)
  then have "(x, ob) \<in> set (objs h)" "p \<in> set (mem ob)" by (auto simp: map_of_SomeD)
  then show ?thesis by (force simp: slots_def)
qed

lemma live_if_counted:
  "\<lbrakk>counted raw h; 0 < int (count (slots h) (Some x)) + raw x\<rbrakk> \<Longrightarrow> live_count h x \<noteq> None"
  by (auto simp: counted_def)

section \<open>The operations keep the counts\<close>

lemma bump_cancel [simp]: "bump p 1 (bump p (- 1) raw) = raw" "bump p (- 1) (bump p 1 raw) = raw"
  by (simp_all add: bump_def split: option.split)

lemma bump_None [simp]: "bump None k raw = raw"
  by (simp add: bump_def)

lemma bump_comm: "bump p j (bump q k raw) = bump q k (bump p j raw)"
  by (rule ext) (simp add: bump_apply)

lemma vars_slots: "count (mset (map snd (vars h))) p \<le> count (slots h) p"
  by (simp add: slots_def del: mset_map)

text \<open>
  The common part of the assignments: the target is a variable, or a member that holds
  nothing yet.
\<close>

definition assignable :: "loc \<Rightarrow> ptr_heap \<Rightarrow> bool" where
  "assignable l h \<longleftrightarrow> (case l of Var v \<Rightarrow> map_of (vars h) v \<noteq> None | Member x i \<Rightarrow> get_loc l h = Some None)"

lemma release_old:
  assumes "counted raw h" "\<And>y. 0 \<le> raw y" "get_loc l h = Some old" "assignable l h"
  shows "\<exists>h1. release_ptr old h = Some h1 \<and> counted (bump old (- 1) raw) h1 \<and> get_loc l h1 = Some old \<and>
    vars h1 = vars h \<and> (old = None \<longrightarrow> h1 = h)"
proof (cases l)
  case (Var v)
  have v: "map_of (vars h) v = Some old" using assms(3) Var by (simp add: get_loc_def)
  then have "(v, old) \<in> set (vars h)" by (rule map_of_SomeD)
  then have "old \<in># mset (map snd (vars h))" by force
  then have k: "1 \<le> count (mset (map snd (vars h))) old" by (simp add: Suc_le_eq del: mset_map)
  have "0 \<le> int (count (mset (map snd (vars h))) (Some y)) + bump old (- 1) raw y" for y
  proof (cases "old = Some y")
    case True
    then have "bump old (- 1) raw y = raw y - 1" by (simp add: bump_apply)
    then show ?thesis using k [unfolded True] assms(2) [of y] by linarith
  next
    case False
    then have "bump old (- 1) raw y = raw y" by (simp add: bump_apply)
    then show ?thesis using assms(2) [of y] by linarith
  qed
  from release_counted [OF assms(1) this]
  obtain h1 where h1: "release_ptr old h = Some h1" "counted (bump old (- 1) raw) h1" "vars h1 = vars h"
    by blast
  then show ?thesis using v Var by (auto simp: get_loc_def release_ptr_def)
next
  case (Member x i)
  then have "old = None" using assms(3,4) by (simp add: assignable_def)
  then show ?thesis using assms(1,3) by (simp add: release_ptr_def)
qed

lemma set_new:
  assumes "counted (bump old (- 1) raw) h1" "get_loc l h1 = Some old"
  shows "\<exists>h2. set_loc l p h1 = Some h2 \<and> counted (bump p (- 1) raw) h2 \<and> (\<forall>x. live_count h2 x = live_count h1 x)"
  using set_loc_counted [OF assms, of p] by simp

lemma assign_ptr_counted:
  assumes "counted raw h" "\<And>y. 0 \<le> raw y" "assignable l h" "\<And>x. p = Some x \<Longrightarrow> 0 < raw x"
  shows "\<exists>h'. assign_ptr l p h = Some h' \<and> counted (if get_loc l h = Some p then raw else bump p (- 1) raw) h'"
proof -
  obtain old where old: "get_loc l h = Some old"
    using assms(3) by (auto simp: assignable_def get_loc_def split: loc.splits)
  obtain h1 where h1: "release_ptr old h = Some h1" "counted (bump old (- 1) raw) h1" "get_loc l h1 = Some old"
    using release_old [OF assms(1,2) old assms(3)] by blast
  show ?thesis using set_new [OF h1(2,3), of p] h1(1) old assms(1) by (auto simp: assign_ptr_def)
qed

lemma assign_shared_counted:
  assumes "counted raw h" "\<And>y. 0 \<le> raw y" "assignable l h" "\<And>x. p = Some x \<Longrightarrow> 0 < raw x"
  shows "\<exists>h'. assign_shared l p True h = Some h' \<and> counted raw h'"
proof -
  obtain old where old: "get_loc l h = Some old"
    using assms(3) by (auto simp: assignable_def get_loc_def split: loc.splits)
  show ?thesis
  proof (cases "old = p")
    case True
    then show ?thesis using assms(1) old by (simp add: assign_shared_def)
  next
    case False
    obtain h1 where h1: "release_ptr old h = Some h1" "counted (bump old (- 1) raw) h1" "get_loc l h1 = Some old"
      using release_old [OF assms(1,2) old assms(3)] by blast
    obtain h2 where h2: "set_loc l p h1 = Some h2" "counted (bump p (- 1) raw) h2" "\<And>x. live_count h2 x = live_count h1 x"
      using set_new [OF h1(2,3), of p] by blast
    have "live_count h2 x \<noteq> None" if "p = Some x" for x
    proof -
      have "0 < int (count (slots h1) (Some x)) + bump old (- 1) raw x"
        using assms(4) [OF that] False that by (auto simp: bump_apply)
      then show ?thesis using live_if_counted [OF h1(2)] h2(3) by simp
    qed
    then obtain h3 where "dup_ptr p h2 = Some h3" "counted (bump p 1 (bump p (- 1) raw)) h3"
      using duplicate_counted [OF h2(2), of p] by blast
    then show ?thesis
      using h1(1) h2(1) old False by (auto simp: assign_shared_def)
  qed
qed

text \<open>The source of a copy: a variable, or any place when nothing is released.\<close>

lemma two_vars:
  assumes "map_of vs v = Some p" "map_of vs w = Some p" "v \<noteq> w" "distinct (map fst vs)"
  shows "2 \<le> count (mset (map snd vs)) p"
proof -
  have "map_of (AList.delete v vs) w = Some p" using assms(2,3) by simp
  then have "p \<in># mset (map snd (AList.delete v vs))" by (force dest: map_of_SomeD)
  then have "1 \<le> count (mset (map snd (AList.delete v vs))) p" by (simp del: mset_map add: Suc_le_eq)
  then show ?thesis unfolding delete_mset [OF assms(4,1)] by (simp del: mset_map)
qed

lemma copy_live:
  assumes "counted raw h" "\<And>y. 0 \<le> raw y" "get_loc l h = Some old" "get_loc l' h = Some p" "l \<noteq> l'"
    "(\<exists>v w. l = Var v \<and> l' = Var w) \<or> old = None"
    "release_ptr old h = Some h1" "counted (bump old (- 1) raw) h1" "vars h1 = vars h" "old = None \<longrightarrow> h1 = h"
    "p = Some x"
  shows "get_loc l' h1 = Some p \<and> live_count h1 x \<noteq> None"
proof (cases "old = None")
  case True
  have "1 \<le> count (slots h) (Some x)" using get_loc_slots [OF assms(4)] assms(11) by (simp add: Suc_le_eq)
  then have "0 < int (count (slots h) (Some x)) + raw x" using assms(2) [of x] by linarith
  then show ?thesis using True assms(4,10) live_if_counted [OF assms(1)] by simp
next
  case False
  then obtain v w where vw: "l = Var v" "l' = Var w" using assms(6) by blast
  have m: "map_of (vars h1) v = Some old" "map_of (vars h1) w = Some p" "v \<noteq> w" "distinct (map fst (vars h1))"
    using assms(3-5,8,9) vw by (auto simp: get_loc_def counted_def)
  have "p \<in># mset (map snd (vars h1))" using m(2) by (force dest: map_of_SomeD)
  then have "1 \<le> count (mset (map snd (vars h1))) p" by (simp del: mset_map add: Suc_le_eq)
  then have c1: "1 \<le> count (slots h1) p" using vars_slots [of h1 p] by linarith
  have "0 < int (count (slots h1) (Some x)) + bump old (- 1) raw x"
  proof (cases "old = p")
    case True
    have "2 \<le> count (mset (map snd (vars h1))) p" using two_vars m True by metis
    then have "2 \<le> count (slots h1) (Some x)" using vars_slots [of h1 p] assms(11) by simp
    moreover have "bump old (- 1) raw x = raw x - 1" using True assms(11) by (simp add: bump_apply)
    ultimately show ?thesis using assms(2) [of x] by linarith
  next
    case False
    then have "bump old (- 1) raw x = raw x" using assms(11) by (simp add: bump_apply)
    then show ?thesis using c1 [unfolded assms(11)] assms(2) [of x] by linarith
  qed
  then show ?thesis using live_if_counted [OF assms(8)] m(2) vw by (simp add: get_loc_def)
qed

lemma copy_into:
  assumes "counted raw h" "\<And>y. 0 \<le> raw y" "assignable l h" "get_loc l h = Some old" "get_loc l' h = Some p" "l \<noteq> l'"
    "(\<exists>v w. l = Var v \<and> l' = Var w) \<or> old = None"
  shows "\<exists>h1 h2 h'. release_ptr old h = Some h1 \<and> get_loc l' h1 = Some p \<and> set_loc l p h1 = Some h2 \<and>
    dup_ptr p h2 = Some h' \<and> counted raw h'"
proof -
  obtain h1 where h1: "release_ptr old h = Some h1" "counted (bump old (- 1) raw) h1" "get_loc l h1 = Some old"
    "vars h1 = vars h" "old = None \<longrightarrow> h1 = h"
    using release_old [OF assms(1,2,4,3)] by blast
  obtain h2 where h2: "set_loc l p h1 = Some h2" "counted (bump p (- 1) raw) h2" "\<And>x. live_count h2 x = live_count h1 x"
    using set_new [OF h1(2,3), of p] by blast
  have live: "get_loc l' h1 = Some p \<and> live_count h1 x \<noteq> None" if "p = Some x" for x
    using copy_live [OF assms(1,2,4-7) h1(1,2,4,5) that] .
  have "get_loc l' h1 = Some p"
  proof (cases p)
    case None
    then show ?thesis using assms(5,7) h1(4,5) by (auto simp: get_loc_def)
  qed (use live in blast)
  moreover obtain h' where "dup_ptr p h2 = Some h'" "counted (bump p 1 (bump p (- 1) raw)) h'"
    using duplicate_counted [OF h2(2)] live h2(3) by metis
  ultimately show ?thesis using h1(1) h2(1) by auto
qed

section \<open>Programs\<close>

datatype ptr_op = New oid nat | Construct nat ptr | ConstructShared nat ptr | Copy nat loc | Destroy nat
  | AssignPtr loc ptr | AssignShared loc ptr | Assign loc loc | AssignOther loc loc | Swap loc loc
  | Cast nat loc | Duplicate loc | Release oid

fun exec :: "ptr_op \<Rightarrow> ptr_heap \<Rightarrow> ptr_heap option" where
  "exec (New x n) h = new_object x n h"
| "exec (Construct v p) h = AutoPtr v p h"
| "exec (ConstructShared v p) h = AutoPtr_shared v p True h"
| "exec (Copy v l) h = AutoPtr_copy v l h"
| "exec (Destroy v) h = AutoPtr_destroy v h"
| "exec (AssignPtr l p) h = assign_ptr l p h"
| "exec (AssignShared l p) h = assign_shared l p True h"
| "exec (Assign l l') h = assign_auto l l' h"
| "exec (AssignOther l l') h = assign_other l l' h"
| "exec (Swap l l') h = ptr_swap l l' h"
| "exec (Cast v l) h = unsafeCast v l h"
| "exec (Duplicate l) h = map_option snd (ptr_duplicate l h)"
| "exec (Release x) h = obj_release x h"

text \<open>
  What a client may do: it gives away only references it holds, and assigns from a member
  only when the target holds nothing that could own the member.
\<close>

definition holds :: "(oid \<Rightarrow> int) \<Rightarrow> ptr \<Rightarrow> bool" where
  "holds raw p \<longleftrightarrow> (case p of None \<Rightarrow> True | Some x \<Rightarrow> 0 < raw x)"

definition is_var :: "loc \<Rightarrow> bool" where "is_var l = (case l of Var v \<Rightarrow> True | Member x i \<Rightarrow> False)"

definition may_assign :: "loc \<Rightarrow> loc \<Rightarrow> ptr_heap \<Rightarrow> bool" where
  "may_assign l l' h \<longleftrightarrow> assignable l h \<and> get_loc l' h \<noteq> None \<and>
     (is_var l \<and> is_var l' \<or> get_loc l h = Some None)"

fun allowed :: "ptr_op \<Rightarrow> (oid \<Rightarrow> int) \<Rightarrow> ptr_heap \<Rightarrow> bool" where
  "allowed (New x n) raw h = (map_of (objs h) x = None)"
| "allowed (Construct v p) raw h = (map_of (vars h) v = None \<and> holds raw p)"
| "allowed (ConstructShared v p) raw h = (map_of (vars h) v = None \<and> holds raw p)"
| "allowed (Copy v l) raw h = (map_of (vars h) v = None \<and> get_loc l h \<noteq> None)"
| "allowed (Destroy v) raw h = (map_of (vars h) v \<noteq> None)"
| "allowed (AssignPtr l p) raw h = (assignable l h \<and> holds raw p)"
| "allowed (AssignShared l p) raw h = (assignable l h \<and> holds raw p)"
| "allowed (Assign l l') raw h = may_assign l l' h"
| "allowed (AssignOther l l') raw h = may_assign l l' h"
| "allowed (Swap l l') raw h = (get_loc l h \<noteq> None \<and> get_loc l' h \<noteq> None)"
| "allowed (Cast v l) raw h = (map_of (vars h) v = None \<and> get_loc l h \<noteq> None)"
| "allowed (Duplicate l) raw h = (get_loc l h \<noteq> None)"
| "allowed (Release x) raw h = (0 < raw x)"

fun raw_after :: "ptr_op \<Rightarrow> (oid \<Rightarrow> int) \<Rightarrow> ptr_heap \<Rightarrow> oid \<Rightarrow> int" where
  "raw_after (New x n) raw h = bump (Some x) 1 raw"
| "raw_after (Construct v p) raw h = bump p (- 1) raw"
| "raw_after (AssignPtr l p) raw h = (if get_loc l h = Some p then raw else bump p (- 1) raw)"
| "raw_after (Duplicate l) raw h = bump (the (get_loc l h)) 1 raw"
| "raw_after (Release x) raw h = bump (Some x) (- 1) raw"
| "raw_after _ raw h = raw"

lemma raw_after_nonneg:
  "\<lbrakk>\<And>y. 0 \<le> raw y; allowed c raw h\<rbrakk> \<Longrightarrow> 0 \<le> raw_after c raw h y"
  by (cases "(c, raw, h)" rule: raw_after.cases)
    (auto simp: bump_apply holds_def dest: spec [of _ y] split: option.splits)

lemma new_var_counted:
  assumes "counted raw h" "map_of (vars h) v = None"
  shows "\<exists>h'. AutoPtr v p h = Some h' \<and> counted (bump p (- 1) raw) h' \<and> (\<forall>x. live_count h' x = live_count h x)"
proof -
  let ?h = "h\<lparr>vars := AList.update v p (vars h)\<rparr>"
  have d: "distinct (map fst (vars h))" "distinct (map fst (objs h))" using assms(1) by (auto simp: counted_def)
  have "counted (bump p (- 1) raw) ?h"
    using d by (intro counted_more [OF assms(1) slots_new_var [OF d(1) assms(2)]])
      (simp_all add: live_count_def distinct_update)
  then show ?thesis using assms(2) by (simp add: AutoPtr_def live_count_def)
qed

lemma shared_counted:
  assumes "counted raw h" "map_of (vars h) v = None" "\<And>x. p = Some x \<Longrightarrow> live_count h x \<noteq> None"
  shows "\<exists>h'. AutoPtr_shared v p True h = Some h' \<and> counted raw h'"
proof -
  obtain h1 where h1: "AutoPtr v p h = Some h1" "counted (bump p (- 1) raw) h1" "\<And>x. live_count h1 x = live_count h x"
    using new_var_counted [OF assms(1,2)] by blast
  obtain h2 where "dup_ptr p h1 = Some h2" "counted (bump p 1 (bump p (- 1) raw)) h2"
    using duplicate_counted [OF h1(2)] assms(3) h1(3) by metis
  then show ?thesis using h1(1) by (simp add: AutoPtr_shared_def)
qed

lemma get_loc_live:
  assumes "counted raw h" "\<And>y. 0 \<le> raw y" "get_loc l h = Some (Some x)"
  shows "live_count h x \<noteq> None"
proof -
  have "1 \<le> count (slots h) (Some x)" using get_loc_slots [OF assms(3)] by (simp add: Suc_le_eq)
  then have "0 < int (count (slots h) (Some x)) + raw x" using assms(2) [of x] by linarith
  then show ?thesis by (rule live_if_counted [OF assms(1)])
qed

lemma holds_live:
  assumes "counted raw h" "holds raw (Some x)"
  shows "live_count h x \<noteq> None"
  using assms(2) by (intro live_if_counted [OF assms(1)]) (simp add: holds_def)

lemma may_assign_cases:
  assumes "may_assign l l' h"
  obtains old p where "get_loc l h = Some old" "get_loc l' h = Some p" "assignable l h"
    "(\<exists>v w. l = Var v \<and> l' = Var w) \<or> old = None"
  using assms by (auto simp: may_assign_def assignable_def is_var_def get_loc_def split: loc.splits)

lemma swap_counted:
  assumes "counted raw h" "get_loc l h = Some p" "get_loc l' h = Some q"
  shows "\<exists>h'. ptr_swap l l' h = Some h' \<and> counted raw h'"
proof -
  obtain h1 where h1: "set_loc l q h = Some h1" "counted (bump q (- 1) (bump p 1 raw)) h1"
    using set_loc_counted [OF assms(1,2)] by blast
  have "get_loc l' h1 = Some q"
    using assms(2,3) h1(1)
    by (auto simp: set_loc_def get_loc_def map_of_update nth_list_update split: loc.splits if_splits bind_splits)
  from set_loc_counted [OF h1(2) this, of p]
  obtain h2 where "set_loc l' p h1 = Some h2" "counted (bump p (- 1) (bump q 1 (bump q (- 1) (bump p 1 raw)))) h2"
    by blast
  then show ?thesis using assms(2,3) h1(1) by (simp add: ptr_swap_def)
qed

lemma destroy_counted:
  assumes "counted raw h" "\<And>y. 0 \<le> raw y" "map_of (vars h) v = Some p"
  shows "\<exists>h'. AutoPtr_destroy v h = Some h' \<and> counted raw h'"
proof -
  have "get_loc (Var v) h = Some p" "assignable (Var v) h" using assms(3) by (simp_all add: get_loc_def assignable_def)
  then obtain h1 where h1: "release_ptr p h = Some h1" "counted (bump p (- 1) raw) h1" "vars h1 = vars h"
    using release_old [OF assms(1,2)] by blast
  let ?h = "h1\<lparr>vars := AList.delete v (vars h1)\<rparr>"
  have d: "distinct (map fst (vars h1))" "distinct (map fst (objs h1))" using h1(2) by (auto simp: counted_def)
  have s: "slots h1 = add_mset p (slots ?h)" using slots_delete_var d(1) assms(3) h1(3) by metis
  have l: "live_count ?h x = live_count h1 x" for x by (simp add: live_count_def)
  have n: "int (count (slots ?h) (Some x)) + raw x = int (count (slots h1) (Some x)) + bump p (- 1) raw x" for x
    unfolding s by (simp add: bump_apply)
  have "counted raw ?h"
    using h1(2) d unfolding counted_def n l by (simp add: distinct_delete)
  then show ?thesis using assms(3) h1(1,3) by (simp add: AutoPtr_destroy_def)
qed

lemma new_object_counted:
  assumes "counted raw h" "map_of (objs h) x = None"
  shows "\<exists>h'. new_object x n h = Some h' \<and> counted (bump (Some x) 1 raw) h'"
proof -
  let ?h = "h\<lparr>objs := AList.update x \<lparr>rc = 1, mem = replicate n None\<rparr> (objs h)\<rparr>"
  have d: "distinct (map fst (vars h))" "distinct (map fst (objs h))" using assms(1) by (auto simp: counted_def)
  have s: "count (slots ?h) (Some y) = count (slots h) (Some y)" for y
    using slots_new_obj [OF d(2) assms(2), of "\<lparr>rc = 1, mem = replicate n None\<rparr>"] by simp
  have z: "int (count (slots h) (Some x)) + raw x = 0"
    using assms unfolding counted_def live_count_def by (auto split: if_splits)
  have l: "live_count ?h y = (if y = x then Some 1 else live_count h y)" for y
    by (simp add: live_count_def map_of_update)
  have "counted (bump (Some x) 1 raw) ?h"
    unfolding counted_def s l
  proof (intro conjI allI)
    fix y
    show "0 \<le> int (count (slots h) (Some y)) + bump (Some x) 1 raw y"
      using assms(1) z by (cases "y = x") (auto simp: counted_def bump_apply)
    show "(if y = x then Some 1 else live_count h y) = (if int (count (slots h) (Some y)) + bump (Some x) 1 raw y = 0
        then None else Some (int (count (slots h) (Some y)) + bump (Some x) 1 raw y))"
      using assms(1) z by (cases "y = x") (auto simp: counted_def bump_apply add.assoc [symmetric])
  qed (use d in \<open>simp_all add: distinct_update\<close>)
  then show ?thesis using assms(2) by (simp add: new_object_def)
qed

lemma exec_counted:
  assumes "counted raw h" "\<And>y. 0 \<le> raw y" "allowed c raw h"
  shows "\<exists>h'. exec c h = Some h' \<and> counted (raw_after c raw h) h'"
proof (cases c)
  case (New x n)
  then show ?thesis using new_object_counted [OF assms(1)] assms(3) by simp
next
  case (Construct v p)
  then show ?thesis using new_var_counted [OF assms(1), of v p] assms(3) by auto
next
  case (ConstructShared v p)
  then show ?thesis using shared_counted [OF assms(1), of v p] holds_live [OF assms(1)] assms(3) by auto
next
  case (Copy v l)
  then obtain p where p: "get_loc l h = Some p" using assms(3) by auto
  then show ?thesis
    using shared_counted [OF assms(1), of v p] get_loc_live [OF assms(1,2), of l] assms(3) Copy
    by (auto simp: AutoPtr_copy_def AutoPtr_shared_def)
next
  case (Destroy v)
  then show ?thesis using destroy_counted [OF assms(1,2)] assms(3) by auto
next
  case (AssignPtr l p)
  then have "assignable l h" "\<And>x. p = Some x \<Longrightarrow> 0 < raw x" using assms(3) by (auto simp: holds_def)
  from assign_ptr_counted [OF assms(1,2) this] show ?thesis using AssignPtr by simp
next
  case (AssignShared l p)
  then show ?thesis using assign_shared_counted [OF assms(1,2), of l p] assms(3) by (cases p) (auto simp: holds_def)
next
  case (Assign l l')
  show ?thesis
  proof (cases "l = l'")
    case False
    obtain old p where p: "get_loc l h = Some old" "get_loc l' h = Some p" "assignable l h"
      "(\<exists>v w. l = Var v \<and> l' = Var w) \<or> old = None"
      using may_assign_cases [of l l' h] assms(3) Assign by auto
    show ?thesis using copy_into [OF assms(1,2) p(3,1,2) False p(4)] p(1) Assign False
      by (auto simp: assign_auto_def)
  qed (use Assign assms(1) in \<open>simp add: assign_auto_def\<close>)
next
  case (AssignOther l l')
  obtain old p where p: "get_loc l h = Some old" "get_loc l' h = Some p" "assignable l h"
    "(\<exists>v w. l = Var v \<and> l' = Var w) \<or> old = None"
    using may_assign_cases [of l l' h] assms(3) AssignOther by auto
  show ?thesis
  proof (cases "old = p")
    case True
    then show ?thesis using p AssignOther assms(1) by (simp add: assign_other_def)
  next
    case False
    then have "l \<noteq> l'" using p by auto
    from copy_into [OF assms(1,2) p(3,1,2) this p(4)] show ?thesis
      using p AssignOther False by (auto simp: assign_other_def)
  qed
next
  case (Swap l l')
  then show ?thesis using swap_counted [OF assms(1)] assms(3) by auto
next
  case (Cast v l)
  then obtain p where p: "get_loc l h = Some p" using assms(3) by auto
  then show ?thesis
    using shared_counted [OF assms(1), of v p] get_loc_live [OF assms(1,2), of l] assms(3) Cast
    by (auto simp: unsafeCast_def)
next
  case (Duplicate l)
  then obtain p where p: "get_loc l h = Some p" using assms(3) by auto
  then show ?thesis using duplicate_counted [OF assms(1), of p] get_loc_live [OF assms(1,2), of l] Duplicate
    by (auto simp: ptr_duplicate_def)
next
  case (Release x)
  have "0 \<le> int (count (mset (map snd (vars h))) (Some y)) + bump (Some x) (- 1) raw y" for y
    using assms(2) [of y] assms(3) Release by (cases "y = x") (auto simp: bump_apply)
  from release_counted [OF assms(1) this] show ?thesis using Release by (auto simp: release_ptr_def)
qed


fun exec_all :: "ptr_op list \<Rightarrow> (oid \<Rightarrow> int) \<times> ptr_heap \<Rightarrow> ((oid \<Rightarrow> int) \<times> ptr_heap) option" where
  "exec_all [] s = Some s"
| "exec_all (c # cs) s = Option.bind (exec c (snd s)) (\<lambda>h'. exec_all cs (raw_after c (fst s) (snd s), h'))"

fun client_ok :: "ptr_op list \<Rightarrow> (oid \<Rightarrow> int) \<times> ptr_heap \<Rightarrow> bool" where
  "client_ok [] s = True"
| "client_ok (c # cs) s =
     (allowed c (fst s) (snd s) \<and>
      (case exec c (snd s) of None \<Rightarrow> True | Some h' \<Rightarrow> client_ok cs (raw_after c (fst s) (snd s), h')))"

lemma exec_all_counted:
  "\<lbrakk>counted raw h; \<And>y. 0 \<le> raw y; client_ok cs (raw, h)\<rbrakk> \<Longrightarrow>
   \<exists>raw' h'. exec_all cs (raw, h) = Some (raw', h') \<and> counted raw' h' \<and> (\<forall>y. 0 \<le> raw' y)"
proof (induction cs arbitrary: raw h)
  case (Cons c cs)
  have a: "allowed c raw h" using Cons.prems(3) by simp
  obtain h1 where h1: "exec c h = Some h1" "counted (raw_after c raw h) h1"
    using exec_counted [OF Cons.prems(1,2) a] by blast
  have "client_ok cs (raw_after c raw h, h1)" using Cons.prems(3) h1(1) by simp
  from Cons.IH [OF h1(2) raw_after_nonneg [OF Cons.prems(2) a] this] h1(1) show ?case by simp
qed auto

definition empty_heap :: ptr_heap where "empty_heap = \<lparr>objs = [], vars = []\<rparr>"

lemma empty_counted: "counted (\<lambda>_. 0) empty_heap"
  by (simp add: counted_def empty_heap_def slots_def live_count_def)

text \<open>A deleted object stays deleted.\<close>

lemma release_all_dead:
  "\<lbrakk>release_all xs h = Some h'; map_of (objs h) y = None\<rbrakk> \<Longrightarrow> map_of (objs h') y = None"
proof (induction xs h rule: release_all.induct)
  case (2 x xs h)
  show ?case
  proof (cases "map_of (objs h) x")
    case None
    then show ?thesis using 2(3) by simp
  next
    case (Some ob)
    then have "y \<noteq> x" using 2(4) by auto
    then show ?thesis using 2 Some by (auto simp: map_of_update map_of_delete_iff split: if_splits)
  qed
qed simp

section \<open>Properties\<close>



text \<open>
  The assignment releases the old object before it reads the other pointer: when that pointer is a
  member of the old object (as in walking down a list with a single counted pointer) and nothing
  else refers to the object, the read happens after the object is deleted.
\<close>

theorem assign_reads_deleted:
  assumes "get_loc (Var v) h = Some (Some x)" "live_count h x = Some 1"
  shows "assign_auto (Var v) (Member x i) h = None"
proof -
  obtain ob where ob: "map_of (objs h) x = Some ob" "rc ob = 1" using assms(2) by (auto simp: live_count_def)
  have "map_of (objs h1) x = None" if "release_ptr (Some x) h = Some h1" for h1
    using that ob release_all_dead [of "non_null (rev (mem ob))" "h\<lparr>objs := AList.delete x (objs h)\<rparr>" h1 x]
    by (simp add: release_ptr_def obj_release_def map_of_delete_iff)
  then have "get_loc (Member x i) h1 = None" if "release_ptr (Some x) h = Some h1" for h1
    using that by (simp add: get_loc_def)
  then show ?thesis using assms(1)
    by (cases "release_ptr (Some x) h") (auto simp: assign_auto_def)
qed

theorem assign_reads_deleted_witness:
  "assign_auto (Var 0) (Member 7 0)
     \<lparr>objs = [(7, \<lparr>rc = 1, mem = [Some 8]\<rparr>), (8, \<lparr>rc = 1, mem = [None]\<rparr>)], vars = [(0, Some 7)]\<rparr> = None"
  by (rule assign_reads_deleted) (simp_all add: get_loc_def live_count_def)

end
