(* ===== verification/Time_Spans.thy ===== *)
theory Time_Spans
  imports Prelude
begin

text \<open>
  \<^verbatim>\<open>Common/Timespan\<close> and \<^verbatim>\<open>Common/Timestamp\<close>: differences and points of time as 64-bit numbers of
  microseconds. A signed overflow is \<open>None\<close>; the conversion of a quotient to \<^verbatim>\<open>int\<close> wraps.
\<close>

section \<open>Timespan\<close>

definition int64_range :: "int \<Rightarrow> bool" where "int64_range n \<longleftrightarrow> - (2 ^ 63) \<le> n \<and> n < 2 ^ 63"

definition i64 :: "int \<Rightarrow> int option" where "i64 n = (if int64_range n then Some n else None)"

definition i64_add :: "int option \<Rightarrow> int option \<Rightarrow> int option" where
  "i64_add a b = Option.bind a (\<lambda>x. Option.bind b (\<lambda>y. i64 (x + y)))"

definition MILLISECONDS :: int where "MILLISECONDS = 1000"
definition SECONDS :: int where "SECONDS = 1000 * MILLISECONDS"
definition MINUTES :: int where "MINUTES = 60 * SECONDS"
definition HOURS :: int where "HOURS = 60 * MINUTES"
definition DAYS :: int where "DAYS = 24 * HOURS"

lemmas units = MILLISECONDS_def SECONDS_def MINUTES_def HOURS_def DAYS_def

definition Timespan :: int where "Timespan = 0"
definition Timespan_us :: "int \<Rightarrow> int" where "Timespan_us microseconds = microseconds"
definition Timespan_sec :: "int \<Rightarrow> int \<Rightarrow> int option" where
  "Timespan_sec seconds microseconds = i64_add (i64 (seconds * SECONDS)) (Some microseconds)"

definition Timespan_parts :: "int \<Rightarrow> int \<Rightarrow> int \<Rightarrow> int \<Rightarrow> int \<Rightarrow> int option" where
  "Timespan_parts days hours minutes seconds microseconds =
     i64_add (i64_add (i64_add (i64_add (Some microseconds) (i64 (seconds * SECONDS)))
       (i64 (minutes * MINUTES))) (i64 (hours * HOURS))) (i64 (days * DAYS))"

definition span_plus :: "int \<Rightarrow> int \<Rightarrow> int option" where "span_plus a b = i64 (a + b)"
definition span_minus :: "int \<Rightarrow> int \<Rightarrow> int option" where "span_minus a b = i64 (a - b)"

definition days :: "int \<Rightarrow> int" where "days span = to_int32 (c_div span DAYS)"
definition hours :: "int \<Rightarrow> int" where "hours span = to_int32 (c_mod (c_div span HOURS) 24)"
definition totalHours :: "int \<Rightarrow> int" where "totalHours span = to_int32 (c_div span HOURS)"
definition minutes :: "int \<Rightarrow> int" where "minutes span = to_int32 (c_mod (c_div span MINUTES) 60)"
definition totalMinutes :: "int \<Rightarrow> int" where "totalMinutes span = to_int32 (c_div span MINUTES)"
definition seconds :: "int \<Rightarrow> int" where "seconds span = to_int32 (c_mod (c_div span SECONDS) 60)"
definition totalSeconds :: "int \<Rightarrow> int" where "totalSeconds span = to_int32 (c_div span SECONDS)"
definition milliseconds :: "int \<Rightarrow> int" where
  "milliseconds span = to_int32 (c_mod (c_div span MILLISECONDS) 1000)"
definition totalMilliseconds :: "int \<Rightarrow> int" where "totalMilliseconds span = c_div span MILLISECONDS"
definition microseconds :: "int \<Rightarrow> int" where "microseconds span = to_int32 (c_mod span 1000)"
definition useconds :: "int \<Rightarrow> int" where "useconds span = to_int32 (c_mod span 1000000)"
definition totalMicroseconds :: "int \<Rightarrow> int" where "totalMicroseconds span = span"

section \<open>Timestamp\<close>

definition resolution :: int where "resolution = 1000000"

text \<open>\<^verbatim>\<open>update\<close> with the result of \<^verbatim>\<open>gettimeofday\<close>; its failure is an exception.\<close>

datatype time_error = SystemException

definition ts_update :: "(int \<times> int) option \<Rightarrow> time_error + int option" where
  "ts_update tv =
     (case tv of
        None \<Rightarrow> Inl SystemException
      | Some (tv_sec, tv_usec) \<Rightarrow> Inr (i64_add (i64 (tv_sec * resolution)) (Some tv_usec)))"

text \<open>The offset \<^verbatim>\<open>(TimeDiff(0x01b21dd2) << 32) + 0x13814000\<close>, in units of 100 nanoseconds.\<close>

definition UTC_OFFSET :: int where "UTC_OFFSET = 0x01b21dd2 * 2 ^ 32 + 0x13814000"

definition fromEpochTime :: "int \<Rightarrow> int option" where "fromEpochTime t = i64 (t * resolution)"
definition fromUtcTime :: "int \<Rightarrow> int option" where
  "fromUtcTime val = map_option (\<lambda>v. c_div v 10) (i64 (val - UTC_OFFSET))"
definition epochTime :: "int \<Rightarrow> int" where "epochTime ts = c_div ts resolution"
definition utcTime :: "int \<Rightarrow> int option" where
  "utcTime ts = i64_add (i64_add (i64 (ts * 10)) (Some (0x01b21dd2 * 2 ^ 32))) (Some 0x13814000)"
definition epochMicroseconds :: "int \<Rightarrow> int" where "epochMicroseconds ts = ts"
definition ts_plus :: "int \<Rightarrow> int \<Rightarrow> int option" where "ts_plus ts d = i64 (ts + d)"
definition ts_minus :: "int \<Rightarrow> int \<Rightarrow> int option" where "ts_minus ts d = i64 (ts - d)"
definition elapsed :: "int \<Rightarrow> int \<Rightarrow> int option" where "elapsed now ts = ts_minus now ts"
definition isElapsed :: "int \<Rightarrow> int \<Rightarrow> int \<Rightarrow> bool option" where
  "isElapsed now ts interval = map_option (\<lambda>diff. diff \<ge> interval) (ts_minus now ts)"

section \<open>Parts of a span\<close>

lemma c_div_neg: "0 < b \<Longrightarrow> c_div (- a) b = - c_div a b"
  by (simp add: c_div_def)

lemma c_mod_neg: "0 < b \<Longrightarrow> c_mod (- a) b = - c_mod a b"
  by (simp add: c_mod_def c_div_neg)

lemma to_int32_neg: "- (2 ^ 31) < n \<Longrightarrow> n < 2 ^ 31 \<Longrightarrow> to_int32 (- n) = - to_int32 n"
  by (subst (1 2) to_int32_id) auto

text \<open>The parts of a span that is not negative.\<close>

lemma parts_nonneg:
  assumes "0 \<le> t" "t \<le> 2 ^ 63"
  defines "d \<equiv> c_div t DAYS" and "h \<equiv> c_mod (c_div t HOURS) 24" and "m \<equiv> c_mod (c_div t MINUTES) 60"
    and "s \<equiv> c_mod (c_div t SECONDS) 60" and "ms \<equiv> c_mod (c_div t MILLISECONDS) 1000"
    and "u \<equiv> c_mod t 1000" and "us \<equiv> c_mod t 1000000"
  shows "t = d * DAYS + h * HOURS + m * MINUTES + s * SECONDS + us" "us = ms * 1000 + u"
    "0 \<le> d" "d < 2 ^ 31" "0 \<le> h" "h < 24" "0 \<le> m" "m < 60" "0 \<le> s" "s < 60" "0 \<le> ms" "ms < 1000"
    "0 \<le> u" "u < 1000" "0 \<le> us" "us < 1000000"
proof -
  define S where "S = t div 1000000"
  have q: "t div 60000000 = S div 60" "t div 3600000000 = S div 60 div 60" "t div 86400000000 = S div 60 div 60 div 24"
    "S = t div 1000 div 1000"
    unfolding S_def by (simp_all flip: zdiv_zmult2_eq)
  have defs: "d = S div 60 div 60 div 24" "h = S div 60 div 60 mod 24" "m = S div 60 mod 60" "s = S mod 60"
    "ms = t div 1000 mod 1000" "u = t mod 1000" "us = t mod 1000000"
    using assms(1) unfolding assms(3-) units
    by (simp_all add: q pos_imp_zdiv_nonneg_iff flip: S_def)
  have "t = S * 1000000 + us" "S = S div 60 * 60 + s" "S div 60 = S div 60 div 60 * 60 + m"
    "S div 60 div 60 = d * 24 + h"
    unfolding defs S_def by simp_all
  then show "t = d * DAYS + h * HOURS + m * MINUTES + s * SECONDS + us" unfolding units by linarith
  have "t = t div 1000 * 1000 + u" "t div 1000 = S * 1000 + ms" unfolding defs q(4) by simp_all
  then show "us = ms * 1000 + u" using \<open>t = S * 1000000 + us\<close> by linarith
  show "0 \<le> d" unfolding defs S_def using assms(1) by (simp add: pos_imp_zdiv_nonneg_iff)
  show "d < 2 ^ 31"
  proof -
    have "d = t div 86400000000" unfolding defs q ..
    also have "\<dots> \<le> 2 ^ 63 div 86400000000" using assms(2) by (rule zdiv_mono1) simp
    finally show ?thesis by simp
  qed
  show "0 \<le> h" "h < 24" "0 \<le> m" "m < 60" "0 \<le> s" "s < 60" "0 \<le> ms" "ms < 1000"
    "0 \<le> u" "u < 1000" "0 \<le> us" "us < 1000000"
    unfolding defs by simp_all
qed

text \<open>The accessors, and their values for the opposite span.\<close>

lemma parts_of_nonneg:
  assumes "0 \<le> t" "t \<le> 2 ^ 63"
  shows "days t = c_div t DAYS" "hours t = c_mod (c_div t HOURS) 24" "minutes t = c_mod (c_div t MINUTES) 60"
    "seconds t = c_mod (c_div t SECONDS) 60" "milliseconds t = c_mod (c_div t MILLISECONDS) 1000"
    "microseconds t = c_mod t 1000" "useconds t = c_mod t 1000000"
proof -
  have i: "0 \<le> n \<Longrightarrow> n < 2 ^ 31 \<Longrightarrow> to_int32 n = n" for n by (rule to_int32_id) auto
  note p = parts_nonneg [OF assms]
  show "days t = c_div t DAYS" unfolding days_def using p(3,4) by (rule i)
  show "hours t = c_mod (c_div t HOURS) 24" unfolding hours_def using p(5,6) by (intro i) auto
  show "minutes t = c_mod (c_div t MINUTES) 60" unfolding minutes_def using p(7,8) by (intro i) auto
  show "seconds t = c_mod (c_div t SECONDS) 60" unfolding seconds_def using p(9,10) by (intro i) auto
  show "milliseconds t = c_mod (c_div t MILLISECONDS) 1000" unfolding milliseconds_def using p(11,12) by (intro i) auto
  show "microseconds t = c_mod t 1000" unfolding microseconds_def using p(13,14) by (intro i) auto
  show "useconds t = c_mod t 1000000" unfolding useconds_def using p(15,16) by (intro i) auto
qed

lemma parts_opposite:
  assumes "0 \<le> t" "t \<le> 2 ^ 63"
  shows "days (- t) = - days t" "hours (- t) = - hours t" "minutes (- t) = - minutes t"
    "seconds (- t) = - seconds t" "milliseconds (- t) = - milliseconds t"
    "microseconds (- t) = - microseconds t" "useconds (- t) = - useconds t"
proof -
  have i: "0 \<le> n \<Longrightarrow> n < 2 ^ 31 \<Longrightarrow> to_int32 (- n) = - n" for n by (rule to_int32_id) auto
  note p = parts_nonneg [OF assms] and q = parts_of_nonneg [OF assms]
  have u: "0 < DAYS" "0 < HOURS" "0 < MINUTES" "0 < SECONDS" "0 < MILLISECONDS" by (simp_all add: units)
  note n = c_div_neg [OF u(1)] c_div_neg [OF u(2)] c_div_neg [OF u(3)] c_div_neg [OF u(4)] c_div_neg [OF u(5)]
  show "days (- t) = - days t" unfolding q unfolding days_def n using p(3,4) by (rule i)
  show "hours (- t) = - hours t" unfolding q unfolding hours_def n using p(5,6) by (subst c_mod_neg) (auto intro: i)
  show "minutes (- t) = - minutes t" unfolding q unfolding minutes_def n using p(7,8) by (subst c_mod_neg) (auto intro: i)
  show "seconds (- t) = - seconds t" unfolding q unfolding seconds_def n using p(9,10) by (subst c_mod_neg) (auto intro: i)
  show "milliseconds (- t) = - milliseconds t" unfolding q unfolding milliseconds_def n using p(11,12)
    by (subst c_mod_neg) (auto intro: i)
  show "microseconds (- t) = - microseconds t" unfolding q unfolding microseconds_def using p(13,14)
    by (subst c_mod_neg) (auto intro: i)
  show "useconds (- t) = - useconds t" unfolding q unfolding useconds_def using p(15,16)
    by (subst c_mod_neg) (auto intro: i)
qed

lemma parts_sum:
  assumes "int64_range t"
  shows "t = days t * DAYS + hours t * HOURS + minutes t * MINUTES + seconds t * SECONDS + useconds t"
    "useconds t = milliseconds t * 1000 + microseconds t"
    "0 \<le> t \<Longrightarrow> 0 \<le> days t \<and> 0 \<le> hours t \<and> 0 \<le> minutes t \<and> 0 \<le> seconds t \<and> 0 \<le> useconds t"
    "t \<le> 0 \<Longrightarrow> days t \<le> 0 \<and> hours t \<le> 0 \<and> minutes t \<le> 0 \<and> seconds t \<le> 0 \<and> useconds t \<le> 0"
    "\<bar>hours t\<bar> < 24" "\<bar>minutes t\<bar> < 60" "\<bar>seconds t\<bar> < 60" "\<bar>milliseconds t\<bar> < 1000" "\<bar>microseconds t\<bar> < 1000"
proof -
  define a where "a = \<bar>t\<bar>"
  have a: "0 \<le> a" "a \<le> 2 ^ 63" using assms by (auto simp: a_def int64_range_def)
  note p = parts_nonneg [OF a, folded parts_of_nonneg [OF a]] and o = parts_opposite [OF a]
  have t: "t = a \<or> t = - a \<and> 0 < a" by (auto simp: a_def)
  show "t = days t * DAYS + hours t * HOURS + minutes t * MINUTES + seconds t * SECONDS + useconds t"
    using t
  proof
    assume "t = a"
    then show ?thesis using p(1) by blast
  next
    assume "t = - a \<and> 0 < a"
    then have t: "t = - a" by simp
    show ?thesis unfolding t o mult_minus_left using p(1) by linarith
  qed
  from t show "useconds t = milliseconds t * 1000 + microseconds t"
    using p(2) o by auto
  from t show "\<bar>hours t\<bar> < 24" "\<bar>minutes t\<bar> < 60" "\<bar>seconds t\<bar> < 60" "\<bar>milliseconds t\<bar> < 1000" "\<bar>microseconds t\<bar> < 1000"
    using p o by auto
  show "0 \<le> t \<Longrightarrow> 0 \<le> days t \<and> 0 \<le> hours t \<and> 0 \<le> minutes t \<and> 0 \<le> seconds t \<and> 0 \<le> useconds t"
    using t p by auto
  show "days t \<le> 0 \<and> hours t \<le> 0 \<and> minutes t \<le> 0 \<and> seconds t \<le> 0 \<and> useconds t \<le> 0" if "t \<le> 0"
  proof -
    have "t = - a" using that by (simp add: a_def)
    then show ?thesis using o p by simp
  qed
qed

lemma i64_add_Some: "int64_range (x + y) \<Longrightarrow> i64_add (Some x) (Some y) = Some (x + y)"
  by (simp add: i64_add_def i64_def)

lemma i64_Some: "int64_range x \<Longrightarrow> i64 x = Some x"
  by (simp add: i64_def)

text \<open>Sums of parts of one sign stay between 0 and the whole.\<close>

lemma between:
  assumes "int64_range t" "0 \<le> x \<and> x \<le> t \<or> t \<le> x \<and> x \<le> 0"
  shows "int64_range x"
  using assms by (auto simp: int64_range_def)

lemma subsecond_signs:
  assumes "int64_range t"
  shows "0 \<le> t \<Longrightarrow> 0 \<le> milliseconds t \<and> 0 \<le> microseconds t"
    "t \<le> 0 \<Longrightarrow> milliseconds t \<le> 0 \<and> microseconds t \<le> 0"
proof -
  define a where "a = \<bar>t\<bar>"
  have a: "0 \<le> a" "a \<le> 2 ^ 63" using assms by (auto simp: a_def int64_range_def)
  note p = parts_nonneg [OF a, folded parts_of_nonneg [OF a]] and o = parts_opposite [OF a]
  show "0 \<le> t \<Longrightarrow> 0 \<le> milliseconds t \<and> 0 \<le> microseconds t" using p by (simp add: a_def)
  show "milliseconds t \<le> 0 \<and> microseconds t \<le> 0" if "t \<le> 0"
  proof -
    have "t = - a" using that by (simp add: a_def)
    then show ?thesis using o p by simp
  qed
qed

section \<open>Properties\<close>

text \<open>
  C25: The parts of a span put together again give the span, without overflow; the hours are below 24, the
  minutes and seconds below 60, the milliseconds and microseconds below 1000 in magnitude; and the days
  and all these parts are at least zero for a span that is at least zero and at most zero for a negative
  one (where the header promises 0 to 23, 0 to 59 and 0 to 999 for every span).
\<close>

theorem timespan_parts_exact:
  assumes "int64_range t"
  shows "Timespan_parts (days t) (hours t) (minutes t) (seconds t) (useconds t) = Some t \<and>
    useconds t = milliseconds t * 1000 + microseconds t \<and>
    \<bar>hours t\<bar> < 24 \<and> \<bar>minutes t\<bar> < 60 \<and> \<bar>seconds t\<bar> < 60 \<and> \<bar>milliseconds t\<bar> < 1000 \<and> \<bar>microseconds t\<bar> < 1000 \<and>
    (if 0 \<le> t then \<forall>part\<in>{days, hours, minutes, seconds, milliseconds, microseconds}. 0 \<le> part t
     else \<forall>part\<in>{days, hours, minutes, seconds, milliseconds, microseconds}. part t \<le> 0)"
proof -
  note p = parts_sum [OF assms]
  let ?d = "days t * DAYS" and ?h = "hours t * HOURS" and ?m = "minutes t * MINUTES" and ?s = "seconds t * SECONDS"
  have sg: "0 \<le> t \<and> 0 \<le> ?d \<and> 0 \<le> ?h \<and> 0 \<le> ?m \<and> 0 \<le> ?s \<and> 0 \<le> useconds t \<or>
      t \<le> 0 \<and> ?d \<le> 0 \<and> ?h \<le> 0 \<and> ?m \<le> 0 \<and> ?s \<le> 0 \<and> useconds t \<le> 0"
    using p(3,4) by (cases "0 \<le> t") (auto simp: units)
  have r: "int64_range ?d" "int64_range ?h" "int64_range ?m" "int64_range ?s" "int64_range (useconds t + ?s)"
    "int64_range (useconds t + ?s + ?m)" "int64_range (useconds t + ?s + ?m + ?h)"
    by (rule between [OF assms], use sg p(1) in linarith)+
  have t: "useconds t + ?s + ?m + ?h + ?d = t" using p(1) by linarith
  have "Timespan_parts (days t) (hours t) (minutes t) (seconds t) (useconds t) = Some t"
    unfolding Timespan_parts_def i64_Some [OF r(1)] i64_Some [OF r(2)] i64_Some [OF r(3)] i64_Some [OF r(4)]
      i64_add_Some [OF r(5)] i64_add_Some [OF r(6)] i64_add_Some [OF r(7)]
    using assms by (subst i64_add_Some) (simp_all add: t)
  then show ?thesis using p subsecond_signs [OF assms] by auto
qed

theorem timespan_parts_exact_witness:
  "hours (- 5400000000) = - 1 \<and> minutes (- 5400000000) = - 30 \<and>
   Timespan_parts (days (- 5400000000)) (hours (- 5400000000)) (minutes (- 5400000000))
     (seconds (- 5400000000)) (useconds (- 5400000000)) = Some (- 5400000000)"
proof (intro conjI)
  show "hours (- 5400000000) = - 1" "minutes (- 5400000000) = - 30" by code_simp+
  show "Timespan_parts (days (- 5400000000)) (hours (- 5400000000)) (minutes (- 5400000000))
     (seconds (- 5400000000)) (useconds (- 5400000000)) = Some (- 5400000000)"
    by (rule conjunct1 [OF timespan_parts_exact]) (simp add: int64_range_def)
qed

text \<open>
  Times in units of 100 nanoseconds since 1582 and times in seconds since 1970 come back.
\<close>

theorem utc_roundtrip:
  assumes "\<bar>t\<bar> \<le> 900000000000000000"
  shows "\<exists>v. utcTime t = Some v \<and> v = 10 * t + 122192928000000000 \<and> fromUtcTime v = Some t"
proof -
  have c: "c_div (t * 10) 10 = t" by (simp add: c_div_def abs_mult sgn_mult sgn_mult_abs)
  have r: "int64_range (t * 10)" "int64_range (t * 10 + 0x01b21dd2 * 2 ^ 32)"
    "int64_range (t * 10 + 0x01b21dd2 * 2 ^ 32 + 0x13814000)"
    using assms by (auto simp: int64_range_def)
  have "utcTime t = Some (t * 10 + 0x01b21dd2 * 2 ^ 32 + 0x13814000)"
    unfolding utcTime_def i64_Some [OF r(1)] i64_add_Some [OF r(2)] by (rule i64_add_Some [OF r(3)])
  moreover have "fromUtcTime (t * 10 + 0x01b21dd2 * 2 ^ 32 + 0x13814000) = Some t"
    using r(1) c by (simp add: fromUtcTime_def UTC_OFFSET_def i64_Some)
  ultimately show ?thesis by (intro exI) (auto simp: algebra_simps)
qed

end
