(* ===== verification/Mem_Cached.thy ===== *)
theory Mem_Cached
  imports String_Tok
begin

text \<open>
  \<^verbatim>\<open>Common/MCached\<close>: the wrapper of the memcached client. The library's answers are parameters: whether
  a handle is created, whether a host string parses and is accepted, and for every call its
  outcome, by the number of the call.
\<close>

section \<open>The client\<close>

record mcached =
  mc_inited :: bool
  mc_hosts :: "string list"

record mc_library =
  memcached_create :: bool
  servers_push :: "string \<Rightarrow> bool"

definition MCached :: mcached where "MCached = \<lparr>mc_inited = False, mc_hosts = []\<rparr>"

text \<open>The search for a token: \<^verbatim>\<open>continue\<close> is taken when the token is not empty.\<close>

fun host_found :: "string \<Rightarrow> string list \<Rightarrow> bool" where
  "host_found t [] = False"
| "host_found t (h # hosts) = (if t \<noteq> [] then host_found t hosts else if t = h then True else host_found t hosts)"

fun add_tokens :: "string list \<Rightarrow> string list \<Rightarrow> bool \<Rightarrow> bool \<times> string list" where
  "add_tokens [] hosts ret = (ret, hosts)"
| "add_tokens (t # tk) hosts ret =
     (if host_found t hosts then add_tokens tk hosts ret else add_tokens tk (hosts @ [t]) True)"

definition addHosts :: "string option \<Rightarrow> mcached \<Rightarrow> bool \<times> mcached" where
  "addHosts hosts m =
     (case hosts of
        None \<Rightarrow> (False, m)
      | Some s \<Rightarrow>
          if s = [] then (False, m)
          else
            (let tk = StringTokenizer s '','' 0
             in if length tk = 0 then (False, m)
                else (case add_tokens tk (mc_hosts m) False of (ret, hs) \<Rightarrow> (ret, m\<lparr>mc_hosts := hs\<rparr>))))"

text \<open>\<^verbatim>\<open>pushHost\<close> on an initialised client, \<^verbatim>\<open>init\<close>, and \<^verbatim>\<open>pushHost\<close> on any client.\<close>

definition push_inited :: "mc_library \<Rightarrow> string \<Rightarrow> mcached \<Rightarrow> bool \<times> mcached" where
  "push_inited lib s m = (if servers_push lib s then (True, snd (addHosts (Some s) m)) else (False, m))"

definition mc_init :: "mc_library \<Rightarrow> string option \<Rightarrow> mcached \<Rightarrow> bool \<times> mcached" where
  "mc_init lib hosts m =
     (if mc_inited m then (True, m)
      else if memcached_create lib then
        (let m1 = m\<lparr>mc_inited := True\<rparr>
         in case hosts of
              None \<Rightarrow> (False, m1)
            | Some s \<Rightarrow> if s = [] then (False, m1) else push_inited lib s m1)
      else (False, m))"

definition pushHost :: "mc_library \<Rightarrow> string option \<Rightarrow> mcached \<Rightarrow> bool \<times> mcached" where
  "pushHost lib hosts m =
     (case hosts of
        None \<Rightarrow> (False, m)
      | Some s \<Rightarrow>
          if s = [] then (False, m)
          else if \<not> mc_inited m then mc_init lib hosts m
          else push_inited lib s m)"

text \<open>
  \<^verbatim>\<open>get\<close>: the result is the null pointer (\<open>None\<close>) or the caller's buffer. An outcome is the value
  when the call succeeds with a value that is not empty.
\<close>

fun get_loop :: "nat \<Rightarrow> (nat \<Rightarrow> u8 list option) \<Rightarrow> nat \<Rightarrow> u8 list \<Rightarrow> u8 list" where
  "get_loop 0 reply k value = value"
| "get_loop (Suc retry) reply k value =
     (case reply k of
        Some v \<Rightarrow>
          if v \<noteq> [] then (let tlen = (if length v > length value then length value else length v)
                          in take tlen v @ drop tlen value)
          else get_loop retry reply (Suc k) value
      | None \<Rightarrow> get_loop retry reply (Suc k) value)"

definition mc_get :: "(nat \<Rightarrow> u8 list option) \<Rightarrow> string option \<Rightarrow> u8 list option \<Rightarrow> mcached \<Rightarrow> u8 list option" where
  "mc_get reply key value m =
     (case (key, value) of
        (Some k, Some v) \<Rightarrow> if k = [] \<or> v = [] \<or> mc_hosts m = [] then None else Some (get_loop 3 reply 0 v)
      | _ \<Rightarrow> None)"

fun set_loop :: "nat \<Rightarrow> (nat \<Rightarrow> bool) \<Rightarrow> nat \<Rightarrow> bool \<Rightarrow> bool" where
  "set_loop 0 rc k ok = ok"
| "set_loop (Suc retry) rc k ok = (if ok then ok else set_loop retry rc (Suc k) (rc k))"

definition mc_set :: "(nat \<Rightarrow> bool) \<Rightarrow> string option \<Rightarrow> u8 list option \<Rightarrow> mcached \<Rightarrow> bool" where
  "mc_set rc key value m =
     (case (key, value) of
        (Some k, Some v) \<Rightarrow> if k = [] \<or> v = [] \<or> mc_hosts m = [] then False else set_loop 2 rc 1 (rc 0)
      | _ \<Rightarrow> False)"

definition mc_del :: "bool \<Rightarrow> string option \<Rightarrow> bool" where
  "mc_del rc key = (case key of None \<Rightarrow> False | Some k \<Rightarrow> if k = [] then False else rc)"

section \<open>What it does\<close>

lemma host_found_empty: "host_found t hosts \<longleftrightarrow> t = [] \<and> [] \<in> set hosts"
  by (induction t hosts rule: host_found.induct) auto

lemma add_tokens_all:
  "[] \<notin> set tk \<Longrightarrow> add_tokens tk hosts ret = (ret \<or> tk \<noteq> [], hosts @ tk)"
  by (induction tk hosts ret rule: add_tokens.induct) (auto simp: host_found_empty)

lemma get_loop_replies:
  "get_loop n reply k value =
    (case List.find (\<lambda>r. r \<noteq> None \<and> r \<noteq> Some []) (map reply [k..<k + n]) of
       Some (Some v) \<Rightarrow> take (length value) v @ drop (length v) value
     | _ \<Rightarrow> value)"
proof (induction n arbitrary: k)
  case (Suc n)
  have u: "[k..<k + Suc n] = k # [Suc k..<Suc k + n]" by (simp add: upt_conv_Cons)
  show ?case
    unfolding u using Suc [of "Suc k"] by (auto simp: Let_def split: option.split)
qed simp

lemma set_loop_any: "set_loop n rc k ok \<longleftrightarrow> ok \<or> (\<exists>i\<in>{k..<k + n}. rc i)"
proof (induction n arbitrary: k ok)
  case (Suc n)
  have "{k..<k + Suc n} = insert k {Suc k..<Suc k + n}" by auto
  then show ?case using Suc [of "Suc k" "rc k"] by auto
qed simp

section \<open>Properties\<close>

text \<open>
  Reading gives the first value that one of three attempts delivers, cut to the buffer; when none
  does, it returns the buffer with the contents it had, and not the null pointer. Writing succeeds
  if and only if one of three attempts does.
\<close>

theorem mcached_retries:
  assumes "key \<noteq> []" "value \<noteq> []" "mc_hosts m \<noteq> []"
  shows "mc_get reply (Some key) (Some value) m = Some
      (if \<exists>i<3. reply i \<noteq> None \<and> reply i \<noteq> Some []
       then (let v = the (the (List.find (\<lambda>r. r \<noteq> None \<and> r \<noteq> Some []) [reply 0, reply 1, reply 2]))
             in take (length value) v @ drop (length v) value)
       else value) \<and>
    (mc_set rc (Some key) (Some value) m \<longleftrightarrow> (\<exists>i<3. rc i))"
proof
  have e: "(\<exists>i<3. P i) \<longleftrightarrow> P 0 \<or> P 1 \<or> P (2 :: nat)" for P
    by (auto simp: numeral_3_eq_3 numeral_2_eq_2 less_Suc_eq)
  have u: "map reply [0..<0 + 3] = [reply 0, reply 1, reply 2]" by (simp add: upt_rec numeral_2_eq_2)
  show "mc_get reply (Some key) (Some value) m = Some
      (if \<exists>i<3. reply i \<noteq> None \<and> reply i \<noteq> Some []
       then (let v = the (the (List.find (\<lambda>r. r \<noteq> None \<and> r \<noteq> Some []) [reply 0, reply 1, reply 2]))
             in take (length value) v @ drop (length v) value)
       else value)"
    using assms unfolding mc_get_def get_loop_replies u e
    by (auto simp: Let_def split: option.split)
  have "{1..<1 + 2} = {1, 2 :: nat}" by auto
  then show "mc_set rc (Some key) (Some value) m \<longleftrightarrow> (\<exists>i<3. rc i)"
    using assms unfolding mc_set_def set_loop_any e by auto
qed

theorem mcached_retries_witness:
  "mc_get (\<lambda>_. None) (Some ''k'') (Some [7, 7]) \<lparr>mc_inited = True, mc_hosts = [''h'']\<rparr> = Some [7, 7]"
  using mcached_retries [of "''k''" "[7, 7]" "\<lparr>mc_inited = True, mc_hosts = [''h'']\<rparr>" "\<lambda>_. None"] by simp

text \<open>
  Host names are never found among the known ones, so pushing the same hosts again lists them
  twice.
\<close>

theorem hosts_pushed_twice:
  assumes "mc_inited m" "servers_push lib s" "s \<noteq> []" "[] \<notin> set (StringTokenizer s '','' 0)"
    "StringTokenizer s '','' 0 \<noteq> []"
  shows "mc_hosts (snd (pushHost lib (Some s) m)) = mc_hosts m @ StringTokenizer s '','' 0"
  using assms by (simp add: pushHost_def push_inited_def addHosts_def Let_def add_tokens_all)

end
