(* ===== verification/Number_Format.thy ===== *)
theory Number_Format
  imports Complex_Main Number_Text
begin

text \<open>
  \<^verbatim>\<open>Common/NumberFormatter\<close>: numbers formatted by \<^verbatim>\<open>sprintf\<close> into a local buffer of 64 bytes. The
  conversions of \<^verbatim>\<open>sprintf\<close> that the file uses are written out; text that does not fit the
  buffer with its zero byte, and a failed assertion, are \<open>None\<close>. The integer overloads differ in
  the width of the word only. A finite \<^verbatim>\<open>double\<close> is its exact value.
\<close>

section \<open>Conversions\<close>

definition buffer64 :: "string \<Rightarrow> string option" where
  "buffer64 s = (if length s + 1 \<le> 64 then Some s else None)"

definition pad_to :: "char \<Rightarrow> nat \<Rightarrow> string \<Rightarrow> string" where
  "pad_to c w s = replicate (w - length s) c @ s"

definition sign_text :: "int \<Rightarrow> string" where
  "sign_text i = (if i < 0 then ''-'' else [])"

text \<open>\<^verbatim>\<open>%d\<close>, \<^verbatim>\<open>%*d\<close> and \<^verbatim>\<open>%0*d\<close>; the same for unsigned values.\<close>

definition fmt_d :: "int \<Rightarrow> string" where
  "fmt_d i = sign_text i @ dec (nat \<bar>i\<bar>)"

definition fmt_wd :: "nat \<Rightarrow> int \<Rightarrow> string" where
  "fmt_wd w i = pad_to CHR '' '' w (fmt_d i)"

definition fmt_0d :: "nat \<Rightarrow> int \<Rightarrow> string" where
  "fmt_0d w i = sign_text i @ pad_to CHR ''0'' (w - length (sign_text i)) (dec (nat \<bar>i\<bar>))"

definition hex_char :: "nat \<Rightarrow> char" where
  "hex_char d = ''0123456789ABCDEF'' ! d"

fun hex :: "nat \<Rightarrow> string" where
  "hex n = (if n < 16 then [hex_char n] else hex (n div 16) @ [hex_char (n mod 16)])"

declare hex.simps [simp del]

definition fmt_0X :: "nat \<Rightarrow> nat \<Rightarrow> string" where
  "fmt_0X w n = pad_to CHR ''0'' w (hex n)"

text \<open>\<^verbatim>\<open>%.*f\<close>: the exact value rounded half to even.\<close>

definition round_even :: "rat \<Rightarrow> int" where
  "round_even x =
     (let k = \<lfloor>x\<rfloor>; f = x - of_int k
      in if f < 1 / 2 then k else if f > 1 / 2 then k + 1 else if even k then k else k + 1)"

definition fmt_f :: "nat \<Rightarrow> rat \<Rightarrow> string" where
  "fmt_f p q =
     (let s = pad_to CHR ''0'' (p + 1) (dec (nat (round_even (\<bar>q\<bar> * 10 ^ p))));
          k = length s - p
      in (if q < 0 then ''-'' else []) @ (if p = 0 then s else take k s @ CHR ''.'' # drop k s))"

section \<open>The formatter\<close>

definition width_ok :: "int \<Rightarrow> bool" where "width_ok w \<longleftrightarrow> 0 < w \<and> w < 64"

definition emit :: "string \<Rightarrow> string \<Rightarrow> string option" where
  "emit str text = map_option (\<lambda>b. str @ b) (buffer64 text)"

definition append_s :: "string \<Rightarrow> 'a::len word \<Rightarrow> string option" where
  "append_s str v = emit str (fmt_d (sint v))"

definition append_sw :: "string \<Rightarrow> 'a::len word \<Rightarrow> int \<Rightarrow> string option" where
  "append_sw str v w = (if width_ok w then emit str (fmt_wd (nat w) (sint v)) else None)"

definition append0_s :: "string \<Rightarrow> 'a::len word \<Rightarrow> int \<Rightarrow> string option" where
  "append0_s str v w = (if width_ok w then emit str (fmt_0d (nat w) (sint v)) else None)"

definition appendHex_s :: "string \<Rightarrow> 'a::len word \<Rightarrow> string option" where
  "appendHex_s str v = emit str (hex (unat v))"

definition appendHex_sw :: "string \<Rightarrow> 'a::len word \<Rightarrow> int \<Rightarrow> string option" where
  "appendHex_sw str v w = (if width_ok w then emit str (fmt_0X (nat w) (unat v)) else None)"

definition append_u :: "string \<Rightarrow> 'a::len word \<Rightarrow> string option" where
  "append_u str v = emit str (fmt_d (uint v))"

definition append_uw :: "string \<Rightarrow> 'a::len word \<Rightarrow> int \<Rightarrow> string option" where
  "append_uw str v w = (if width_ok w then emit str (fmt_wd (nat w) (uint v)) else None)"

definition append0_u :: "string \<Rightarrow> 'a::len word \<Rightarrow> int \<Rightarrow> string option" where
  "append0_u str v w = (if width_ok w then emit str (fmt_0d (nat w) (uint v)) else None)"

definition append_f :: "string \<Rightarrow> rat \<Rightarrow> int \<Rightarrow> string option" where
  "append_f str value precision =
     (if 0 \<le> precision \<and> precision < 32 then emit str (fmt_f (nat precision) value) else None)"

definition append_wf :: "string \<Rightarrow> rat \<Rightarrow> int \<Rightarrow> int \<Rightarrow> string option" where
  "append_wf str value w precision =
     (if width_ok w \<and> 0 \<le> precision \<and> precision < w
      then emit str (pad_to CHR '' '' (nat w) (fmt_f (nat precision) value)) else None)"

definition append_ptr :: "string \<Rightarrow> u64 \<Rightarrow> string option" where
  "append_ptr str p = (let t = fmt_0X 16 (unat p) in if length t + 1 \<le> 24 then Some (str @ t) else None)"

text \<open>The \<^verbatim>\<open>format\<close> functions start with an empty string.\<close>

definition format_s :: "'a::len word \<Rightarrow> string option" where "format_s v = append_s [] v"
definition format_sw :: "'a::len word \<Rightarrow> int \<Rightarrow> string option" where "format_sw v w = append_sw [] v w"
definition format0_s :: "'a::len word \<Rightarrow> int \<Rightarrow> string option" where "format0_s v w = append0_s [] v w"
definition formatHex_s :: "'a::len word \<Rightarrow> string option" where "formatHex_s v = appendHex_s [] v"
definition formatHex_sw :: "'a::len word \<Rightarrow> int \<Rightarrow> string option" where "formatHex_sw v w = appendHex_sw [] v w"
definition format_u :: "'a::len word \<Rightarrow> string option" where "format_u v = append_u [] v"
definition format_uw :: "'a::len word \<Rightarrow> int \<Rightarrow> string option" where "format_uw v w = append_uw [] v w"
definition format0_u :: "'a::len word \<Rightarrow> int \<Rightarrow> string option" where "format0_u v w = append0_u [] v w"
definition format_f :: "rat \<Rightarrow> int \<Rightarrow> string option" where "format_f value precision = append_f [] value precision"
definition format_wf :: "rat \<Rightarrow> int \<Rightarrow> int \<Rightarrow> string option" where
  "format_wf value w precision = append_wf [] value w precision"
definition format_ptr :: "u64 \<Rightarrow> string option" where "format_ptr p = append_ptr [] p"

section \<open>Reading the text back\<close>

lemma length_dec: "n < 10 ^ k \<Longrightarrow> 0 < k \<Longrightarrow> length (dec n) \<le> k"
proof (induction n arbitrary: k rule: dec.induct)
  case (1 n)
  show ?case
  proof (cases "n < 10")
    case False
    define j where "j = k - 1"
    have "k \<noteq> 1" using "1.prems" False by auto
    then have k: "k = Suc j" "0 < j" using "1.prems"(2) by (auto simp: j_def)
    then have "n div 10 < 10 ^ j" using "1.prems"(1) by (simp add: less_mult_imp_div_less mult.commute)
    then show ?thesis using 1(1) [OF False] k by (subst dec.simps) (simp add: False)
  qed (use "1.prems" in \<open>subst dec.simps, simp\<close>)
qed

lemma dec_long: "10 ^ k \<le> n \<Longrightarrow> k < length (dec n)"
proof (induction n arbitrary: k rule: dec.induct)
  case (1 n)
  show ?case
  proof (cases k)
    case 0
    then show ?thesis by simp
  next
    case (Suc j)
    have "(10 :: nat) \<le> 10 ^ Suc j" by simp
    then have n: "\<not> n < 10" using "1.prems" unfolding Suc by linarith
    have "10 ^ j \<le> n div 10" using "1.prems" Suc by (simp add: less_eq_div_iff_mult_less_eq mult.commute)
    then show ?thesis using 1(1) [OF n] Suc n by (subst dec.simps) simp
  qed
qed

lemma digit_char_0: "digit_char 0 = CHR ''0''"
  by (simp add: digit_char_def) (code_simp)

lemma all_digits: "c \<in> set (replicate j CHR ''0'' @ dec n) \<Longrightarrow> \<exists>d<10. c = digit_char d"
  using set_dec digit_char_0 by (auto intro: exI [of _ 0])

lemma digits_val_zeros: "digits_val (replicate j CHR ''0'' @ s) = digits_val s"
proof (induction j)
  case (Suc j)
  have "digit_val CHR ''0'' = 0" by (simp add: digit_val_def code_of_def)
  then show ?case using Suc by (simp add: digits_val_def)
qed simp

lemma atoi_text:
  assumes "\<And>c. c \<in> set ds \<Longrightarrow> \<exists>d<10. c = digit_char d" "ds \<noteq> []" "sg = [] \<or> sg = ''-''"
    "int_range (if sg = [] then digits_val ds else - digits_val ds)"
  shows "atoi (replicate k CHR '' '' @ sg @ ds) = Some (if sg = [] then digits_val ds else - digits_val ds)"
proof -
  have d: "isDigit (code_of c) \<and> \<not> isSpaceChar c \<and> c \<noteq> CHR 0x00 \<and> c \<noteq> CHR ''-'' \<and> c \<noteq> CHR ''+''" if "c \<in> set ds" for c
    using assms(1) [OF that] by (elim exE conjE) (simp add: digit_char_neq)
  have sp: "isSpaceChar CHR '' ''" "\<not> isSpaceChar CHR ''-''"
    by (simp_all add: ascii_class code_of_def int_range_def)
  obtain x xs where x: "ds = x # xs" using assms(2) by (cases ds) auto
  let ?s = "replicate k CHR '' '' @ sg @ ds"
  have c: "c_str ?s = ?s"
    unfolding c_str_def using d assms(3) by (intro takeWhile_eq_all_conv [THEN iffD2]) auto
  have w: "dropWhile isSpaceChar ?s = sg @ ds"
  proof (induction k)
    case 0
    then show ?case using assms(3) sp(2) d [of x] x by (auto simp: x)
  qed (simp add: sp(1))
  have t: "takeWhile (\<lambda>c. isDigit (code_of c)) ds = ds"
    using d by simp
  have i: "x \<noteq> CHR ''-''" "x \<noteq> CHR ''+''" using d [of x] x by simp_all
  show ?thesis
    using assms(3,4) t i x unfolding atoi_def Let_def c w
    by (auto simp del: takeWhile_eq_all_conv)
qed

lemma nat_abs_val: "sign_text i = [] \<and> int (nat \<bar>i\<bar>) = i \<or> sign_text i = ''-'' \<and> - int (nat \<bar>i\<bar>) = i"
  by (auto simp: sign_text_def)

lemma atoi_fmt:
  assumes "int_range i"
  shows "atoi (replicate k CHR '' '' @ sign_text i @ replicate j CHR ''0'' @ dec (nat \<bar>i\<bar>)) = Some i"
proof -
  define ds where "ds = replicate j CHR ''0'' @ dec (nat \<bar>i\<bar>)"
  have v: "(if sign_text i = [] then digits_val ds else - digits_val ds) = i"
    using nat_abs_val [of i] by (auto simp only: ds_def digits_val_zeros digits_val_dec split: if_splits)
  have "atoi (replicate k CHR '' '' @ sign_text i @ ds) =
      Some (if sign_text i = [] then digits_val ds else - digits_val ds)"
  proof (rule atoi_text)
    show "\<And>c. c \<in> set ds \<Longrightarrow> \<exists>d<10. c = digit_char d" unfolding ds_def by (rule all_digits)
    show "ds \<noteq> []" by (simp add: ds_def)
    show "sign_text i = [] \<or> sign_text i = ''-''" by (simp add: sign_text_def)
  qed (simp only: v assms)
  then show ?thesis unfolding v unfolding ds_def .
qed

lemma fmt_d_length: "int_range i \<Longrightarrow> length (fmt_d i) \<le> 11"
proof -
  assume "int_range i"
  then have "nat \<bar>i\<bar> < 10 ^ 10" by (auto simp: int_range_def)
  then have "length (dec (nat \<bar>i\<bar>)) \<le> 10" by (rule length_dec) simp
  moreover have "length (sign_text i) \<le> 1" by (simp add: sign_text_def)
  ultimately show ?thesis unfolding fmt_d_def length_append by linarith
qed

lemma fmt_length:
  "length (fmt_wd w i) = max w (length (fmt_d i))" "length (fmt_0d w i) = max w (length (fmt_d i))"
  by (auto simp: fmt_wd_def fmt_0d_def fmt_d_def pad_to_def sign_text_def)

section \<open>Properties\<close>

text \<open>
  A formatted \<^verbatim>\<open>int\<close> always fits the buffer, in each of the three decimal formats with any width that
  passes the assertion; the padded text has the width asked for, or more when the number is
  longer; and \<^verbatim>\<open>atoi\<close> reads the number back.
\<close>

theorem number_roundtrip:
  fixes v :: u32
  assumes "0 < w" "w < 64"
  shows "(\<exists>t. append_s str v = Some (str @ t) \<and> atoi t = Some (sint v)) \<and>
    (\<exists>t. append_sw str v w = Some (str @ t) \<and> length t = max (nat w) (length (fmt_d (sint v))) \<and> atoi t = Some (sint v)) \<and>
    (\<exists>t. append0_s str v w = Some (str @ t) \<and> length t = max (nat w) (length (fmt_d (sint v))) \<and> atoi t = Some (sint v))"
proof -
  have r: "int_range (sint v)"
    using sint_greater_eq [of v] sint_less [of v] by (simp add: int_range_def)
  have l: "length (fmt_d (sint v)) \<le> 63" using fmt_d_length [OF r] by simp
  have w: "width_ok w" "nat w \<le> 63" using assms by (simp_all add: width_ok_def)
  have "atoi (fmt_d (sint v)) = Some (sint v)" using atoi_fmt [OF r, of 0 0] by (simp add: fmt_d_def)
  moreover have "atoi (fmt_wd (nat w) (sint v)) = Some (sint v)"
    using atoi_fmt [OF r, of "nat w - length (fmt_d (sint v))" 0] by (simp add: fmt_wd_def fmt_d_def pad_to_def)
  moreover have "atoi (fmt_0d (nat w) (sint v)) = Some (sint v)"
    using atoi_fmt [OF r, of 0 "nat w - length (sign_text (sint v)) - length (dec (nat \<bar>sint v\<bar>))"]
    by (simp add: fmt_0d_def pad_to_def)
  ultimately show ?thesis
    using l w by (simp add: append_s_def append_sw_def append0_s_def emit_def buffer64_def fmt_length)
qed

theorem number_roundtrip_witness:
  "append0_s ''n='' (- 42 :: u32) 6 = Some ''n=-00042'' \<and>
   (\<exists>t. append0_s ''n='' (- 42 :: u32) 6 = Some (''n='' @ t) \<and> length t = max (nat 6) (length (fmt_d (sint (- 42 :: u32)))) \<and>
      atoi t = Some (sint (- 42 :: u32)))"
proof
  show "append0_s ''n='' (- 42 :: u32) 6 = Some ''n=-00042''" by code_simp
qed (rule number_roundtrip [THEN conjunct2, THEN conjunct2], simp_all)

text \<open>
  Formatting a \<^verbatim>\<open>double\<close> of \<open>10 ^ 63\<close> or more with a precision writes behind the buffer of 64 bytes,
  whatever the precision.
\<close>

theorem double_overflows:
  assumes "10 ^ 63 \<le> \<bar>q\<bar>"
  shows "append_f str q precision = None"
proof -
  let ?p = "nat precision"
  have "(10 :: rat) ^ 63 * 10 ^ ?p \<le> \<bar>q\<bar> * 10 ^ ?p" using assms by (intro mult_right_mono) simp_all
  then have "of_int (10 ^ (63 + ?p)) \<le> \<bar>q\<bar> * 10 ^ ?p" by (simp add: power_add)
  then have "10 ^ (63 + ?p) \<le> \<lfloor>\<bar>q\<bar> * 10 ^ ?p\<rfloor>" by (simp only: le_floor_iff)
  also have "\<dots> \<le> round_even (\<bar>q\<bar> * 10 ^ ?p)" by (simp add: round_even_def Let_def)
  finally have "10 ^ (63 + ?p) \<le> nat (round_even (\<bar>q\<bar> * 10 ^ ?p))"
    by (metis nat_int nat_mono of_nat_numeral of_nat_power)
  then have "63 + ?p < length (dec (nat (round_even (\<bar>q\<bar> * 10 ^ ?p))))" by (rule dec_long)
  then have "64 \<le> length (fmt_f ?p q)" by (auto simp: fmt_f_def Let_def pad_to_def)
  then show ?thesis by (simp add: append_f_def emit_def buffer64_def)
qed

theorem double_overflows_witness: "append_f [] (2 ^ 210) 2 = None"
  by (rule double_overflows) simp

end
