(* ===== verification/Buffered_Stream.thy ===== *)
theory Buffered_Stream
  imports Prelude
begin

text \<open>
  \<^verbatim>\<open>Common/BufferedStreamBuf.h\<close>: the stream buffer with its get and put areas as indices into one
  buffer, and the functions of \<^verbatim>\<open>std::basic_streambuf\<close> that drive it. The device is a parameter:
  \<open>rd\<close> delivers characters for a number asked for (none at the end or on an error), and \<open>wr\<close> the
  number of characters it took. An access outside the buffer is \<open>None\<close>; the end of file as a
  result is the inner \<open>None\<close>.
\<close>

section \<open>The buffer\<close>

record ('c, 'd) sbuf =
  pBuffer :: "'c list"
  mode_in :: bool
  mode_out :: bool
  eback :: nat
  gptr :: nat
  egptr :: nat
  pptr :: nat
  device :: 'd

text \<open>The put area ends one before the buffer does.\<close>

definition epptr :: "('c, 'd) sbuf \<Rightarrow> nat" where
  "epptr b = length (pBuffer b) - 1"

definition BufferedStreamBuf :: "'c list \<Rightarrow> bool \<Rightarrow> bool \<Rightarrow> 'd \<Rightarrow> ('c, 'd) sbuf" where
  "BufferedStreamBuf mem inp outp d =
     \<lparr>pBuffer = mem, mode_in = inp, mode_out = outp, eback = 4, gptr = 4, egptr = 4, pptr = 0, device = d\<rparr>"

definition flushBuffer :: "('c list \<Rightarrow> 'd \<Rightarrow> int \<times> 'd) \<Rightarrow> ('c, 'd) sbuf \<Rightarrow> (int \<times> ('c, 'd) sbuf) option" where
  "flushBuffer wr b =
     (if pptr b > length (pBuffer b) then None
      else
        (let n = pptr b;
             (k, d) = wr (take n (pBuffer b)) (device b)
         in if k = int n then Some (int n, b\<lparr>pptr := 0, device := d\<rparr>)
            else Some (- 1, b\<lparr>device := d\<rparr>)))"

definition overflow :: "('c list \<Rightarrow> 'd \<Rightarrow> int \<times> 'd) \<Rightarrow> 'c option \<Rightarrow> ('c, 'd) sbuf \<Rightarrow> ('c option \<times> ('c, 'd) sbuf) option" where
  "overflow wr c b =
     (if \<not> mode_out b then Some (None, b)
      else
        Option.bind
          (case c of
             None \<Rightarrow> Some b
           | Some x \<Rightarrow>
               if pptr b < length (pBuffer b)
               then Some (b\<lparr>pBuffer := (pBuffer b)[pptr b := x], pptr := pptr b + 1\<rparr>) else None)
          (\<lambda>b1. map_option (\<lambda>(k, b2). (if k = - 1 then None else c, b2)) (flushBuffer wr b1)))"

definition sync_buf :: "('c list \<Rightarrow> 'd \<Rightarrow> int \<times> 'd) \<Rightarrow> ('c, 'd) sbuf \<Rightarrow> (int \<times> ('c, 'd) sbuf) option" where
  "sync_buf wr b =
     (if pptr b > 0 then map_option (\<lambda>(k, b1). (if k = - 1 then - 1 else 0, b1)) (flushBuffer wr b)
      else Some (0, b))"

text \<open>\<^verbatim>\<open>sputc\<close> of the standard library: the put area first, \<^verbatim>\<open>overflow\<close> when it is full.\<close>

definition sputc :: "('c list \<Rightarrow> 'd \<Rightarrow> int \<times> 'd) \<Rightarrow> 'c \<Rightarrow> ('c, 'd) sbuf \<Rightarrow> ('c option \<times> ('c, 'd) sbuf) option" where
  "sputc wr x b =
     (if pptr b < epptr b
      then Some (Some x, b\<lparr>pBuffer := (pBuffer b)[pptr b := x], pptr := pptr b + 1\<rparr>)
      else overflow wr (Some x) b)"

text \<open>
  \<^verbatim>\<open>underflow\<close>: keeps up to four characters for putting back in front of the new ones.
\<close>

definition underflow :: "(nat \<Rightarrow> 'd \<Rightarrow> 'c list \<times> 'd) \<Rightarrow> ('c, 'd) sbuf \<Rightarrow> ('c option \<times> ('c, 'd) sbuf) option" where
  "underflow rd b =
     (if \<not> mode_in b then Some (None, b)
      else if gptr b < egptr b then
        (if gptr b < length (pBuffer b) then Some (Some (pBuffer b ! gptr b), b) else None)
      else
        (let putback = (if gptr b - eback b > 4 then 4 else gptr b - eback b)
         in if gptr b > length (pBuffer b) \<or> 4 > length (pBuffer b) then None
            else
              (let mem1 = take (4 - putback) (pBuffer b) @ take putback (drop (gptr b - putback) (pBuffer b)) @
                          drop 4 (pBuffer b);
                   (xs, d) = rd (length mem1 - 4) (device b)
               in if xs = [] then Some (None, b\<lparr>pBuffer := mem1, device := d\<rparr>)
                  else if length xs > length mem1 - 4 then None
                  else Some (Some (xs ! 0),
                         b\<lparr>pBuffer := take 4 mem1 @ xs @ drop (4 + length xs) mem1, eback := 4 - putback,
                           gptr := 4, egptr := 4 + length xs, device := d\<rparr>))))"

text \<open>\<^verbatim>\<open>sbumpc\<close> of the standard library.\<close>

definition sbumpc :: "(nat \<Rightarrow> 'd \<Rightarrow> 'c list \<times> 'd) \<Rightarrow> ('c, 'd) sbuf \<Rightarrow> ('c option \<times> ('c, 'd) sbuf) option" where
  "sbumpc rd b =
     (if gptr b < egptr b then
        (if gptr b < length (pBuffer b) then Some (Some (pBuffer b ! gptr b), b\<lparr>gptr := gptr b + 1\<rparr>) else None)
      else
        map_option (\<lambda>(c, b1). case c of None \<Rightarrow> (None, b1) | Some x \<Rightarrow> (Some x, b1\<lparr>gptr := gptr b1 + 1\<rparr>))
          (underflow rd b))"

fun sputs :: "('c list \<Rightarrow> 'd \<Rightarrow> int \<times> 'd) \<Rightarrow> 'c list \<Rightarrow> ('c, 'd) sbuf \<Rightarrow> ('c, 'd) sbuf option" where
  "sputs wr [] b = Some b"
| "sputs wr (x # xs) b = Option.bind (sputc wr x b) (\<lambda>(r, b1). if r = None then None else sputs wr xs b1)"

text \<open>Up to \<open>n\<close> characters, fewer at the end of the file.\<close>

fun sgets :: "(nat \<Rightarrow> 'd \<Rightarrow> 'c list \<times> 'd) \<Rightarrow> nat \<Rightarrow> ('c, 'd) sbuf \<Rightarrow> ('c list \<times> ('c, 'd) sbuf) option" where
  "sgets rd 0 b = Some ([], b)"
| "sgets rd (Suc n) b =
     Option.bind (sbumpc rd b) (\<lambda>(c, b1).
       case c of None \<Rightarrow> Some ([], b1) | Some x \<Rightarrow> map_option (\<lambda>(xs, b2). (x # xs, b2)) (sgets rd n b1))"

section \<open>Writing\<close>

definition pending_out :: "('c, 'd) sbuf \<Rightarrow> 'c list" where
  "pending_out b = take (pptr b) (pBuffer b)"

lemma sputc_refines:
  assumes "\<And>xs d. fst (wr xs d) = int (length xs) \<and> contents (snd (wr xs d)) = contents d @ xs"
    "mode_out b" "pptr b < length (pBuffer b)"
  shows "\<exists>b'. sputc wr x b = Some (Some x, b') \<and> mode_out b' \<and> pptr b' < length (pBuffer b') \<and>
    length (pBuffer b') = length (pBuffer b) \<and>
    contents (device b') @ pending_out b' = contents (device b) @ pending_out b @ [x]"
proof (cases "pptr b < epptr b")
  case True
  then show ?thesis using assms(2,3)
    by (simp add: sputc_def pending_out_def epptr_def take_Suc_conv_app_nth)
next
  case False
  obtain k d where w: "wr (take (pptr b) (pBuffer b) @ [x]) (device b) = (k, d)" by force
  have "k = int (Suc (pptr b))" "contents d = contents (device b) @ take (pptr b) (pBuffer b) @ [x]"
    using assms(1) [of "take (pptr b) (pBuffer b) @ [x]" "device b"] assms(3) w by simp_all
  moreover have "take (Suc (pptr b)) ((pBuffer b)[pptr b := x]) = take (pptr b) (pBuffer b) @ [x]"
    using assms(3) by (simp add: take_Suc_conv_app_nth)
  moreover have "0 < length (pBuffer b)" using assms(3) by linarith
  ultimately show ?thesis
    using False assms(2,3) w by (simp add: sputc_def overflow_def flushBuffer_def pending_out_def)
qed

lemma sputs_refines:
  assumes "\<And>xs d. fst (wr xs d) = int (length xs) \<and> contents (snd (wr xs d)) = contents d @ xs"
  shows "\<lbrakk>mode_out b; pptr b < length (pBuffer b)\<rbrakk> \<Longrightarrow>
    \<exists>b'. sputs wr xs b = Some b' \<and> pptr b' < length (pBuffer b') \<and>
      contents (device b') @ pending_out b' = contents (device b) @ pending_out b @ xs"
proof (induction xs arbitrary: b)
  case (Cons x xs)
  obtain b1 where b1: "sputc wr x b = Some (Some x, b1)" "mode_out b1" "pptr b1 < length (pBuffer b1)"
    "contents (device b1) @ pending_out b1 = contents (device b) @ pending_out b @ [x]"
    using sputc_refines [OF assms Cons.prems] by blast
  from Cons.IH [OF b1(2,3)] obtain b2 where "sputs wr xs b1 = Some b2" "pptr b2 < length (pBuffer b2)"
    "contents (device b2) @ pending_out b2 = (contents (device b1) @ pending_out b1) @ xs" by auto
  then show ?case using b1(1,4) by simp
qed simp

lemma sync_refines:
  assumes "\<And>xs d. fst (wr xs d) = int (length xs) \<and> contents (snd (wr xs d)) = contents d @ xs"
    "pptr b < length (pBuffer b)"
  shows "\<exists>b'. sync_buf wr b = Some (0, b') \<and> contents (device b') = contents (device b) @ pending_out b \<and> pending_out b' = []"
proof (cases "pptr b = 0")
  case False
  obtain k d where w: "wr (take (pptr b) (pBuffer b)) (device b) = (k, d)" by force
  then have "k = int (pptr b)" "contents d = contents (device b) @ take (pptr b) (pBuffer b)"
    using assms(1) [of "take (pptr b) (pBuffer b)" "device b"] assms(2) by simp_all
  then show ?thesis using False assms(2) w by (simp add: sync_buf_def flushBuffer_def pending_out_def)
qed (simp add: sync_buf_def pending_out_def)

section \<open>Reading\<close>

definition pending_in :: "('c, 'd) sbuf \<Rightarrow> 'c list" where
  "pending_in b = drop (gptr b) (take (egptr b) (pBuffer b))"

definition in_ok :: "('c, 'd) sbuf \<Rightarrow> bool" where
  "in_ok b \<longleftrightarrow> mode_in b \<and> 4 < length (pBuffer b) \<and> eback b \<le> gptr b \<and> gptr b \<le> egptr b \<and> egptr b \<le> length (pBuffer b)"

lemma sbumpc_refines:
  assumes rd: "\<And>n d. 0 < n \<Longrightarrow> length (fst (rd n d)) \<le> n \<and> src d = fst (rd n d) @ src (snd (rd n d)) \<and>
      (fst (rd n d) = [] \<longrightarrow> src d = [])"
    and b: "in_ok b"
  shows "\<exists>b'. in_ok b' \<and> (case pending_in b @ src (device b) of
      [] \<Rightarrow> sbumpc rd b = Some (None, b')
    | x # xs \<Rightarrow> sbumpc rd b = Some (Some x, b') \<and> pending_in b' @ src (device b') = xs)"
proof (cases "gptr b < egptr b")
  case True
  let ?b = "b\<lparr>gptr := gptr b + 1\<rparr>"
  have "pending_in b = pBuffer b ! gptr b # pending_in ?b"
    using b True by (simp add: pending_in_def in_ok_def Cons_nth_drop_Suc [symmetric])
  moreover have "sbumpc rd b = Some (Some (pBuffer b ! gptr b), ?b)"
    using b True by (simp add: sbumpc_def in_ok_def)
  moreover have "in_ok ?b" using b True by (simp add: in_ok_def)
  ultimately show ?thesis by (intro exI [of _ ?b]) simp
next
  case False
  then have p: "pending_in b = []" by (simp add: pending_in_def)
  define pb where "pb = (if gptr b - eback b > 4 then 4 else gptr b - eback b)"
  define mem1 where "mem1 = take (4 - pb) (pBuffer b) @ take pb (drop (gptr b - pb) (pBuffer b)) @ drop 4 (pBuffer b)"
  have l: "length mem1 = length (pBuffer b)" "pb \<le> 4" "gptr b \<le> length (pBuffer b)" "4 < length (pBuffer b)" "mode_in b"
    using b by (auto simp: mem1_def pb_def in_ok_def)
  obtain xs d where x: "rd (length mem1 - 4) (device b) = (xs, d)" by force
  have r: "length xs \<le> length mem1 - 4" "src (device b) = xs @ src d" "xs = [] \<longrightarrow> src (device b) = []"
    using rd [of "length mem1 - 4" "device b"] x l by auto
  have u: "underflow rd b = (if xs = [] then Some (None, b\<lparr>pBuffer := mem1, device := d\<rparr>)
      else Some (Some (xs ! 0), b\<lparr>pBuffer := take 4 mem1 @ xs @ drop (4 + length xs) mem1, eback := 4 - pb,
                           gptr := 4, egptr := 4 + length xs, device := d\<rparr>))"
    using False l r(1) x
    by (simp add: underflow_def pb_def [symmetric] mem1_def [symmetric] Let_def not_le not_less)
  show ?thesis
  proof (cases xs)
    case Nil
    let ?b = "b\<lparr>pBuffer := mem1, device := d\<rparr>"
    have "in_ok ?b" using b l by (simp add: in_ok_def)
    moreover have "sbumpc rd b = Some (None, ?b)" using False u Nil by (simp add: sbumpc_def)
    ultimately show ?thesis using p r(3) Nil by (intro exI [of _ ?b]) simp
  next
    case (Cons y ys)
    let ?b = "b\<lparr>pBuffer := take 4 mem1 @ xs @ drop (4 + length xs) mem1, eback := 4 - pb,
       gptr := 5, egptr := 4 + length xs, device := d\<rparr>"
    have "sbumpc rd b = Some (Some y, ?b)" using False u Cons by (simp add: sbumpc_def)
    moreover have "pending_in ?b = ys"
      using l Cons by (simp add: pending_in_def)
    moreover have "length (take 4 mem1 @ xs @ drop (4 + length xs) mem1) = length (pBuffer b)"
      using l r(1) by simp
    then have "in_ok ?b" using l(1,4,5) r(1) Cons by (simp add: in_ok_def del: length_append; linarith)
    ultimately show ?thesis using p r(2) Cons by (intro exI [of _ ?b]) simp
  qed
qed

lemma sgets_refines:
  assumes rd: "\<And>n d. 0 < n \<Longrightarrow> length (fst (rd n d)) \<le> n \<and> src d = fst (rd n d) @ src (snd (rd n d)) \<and>
      (fst (rd n d) = [] \<longrightarrow> src d = [])"
  shows "in_ok b \<Longrightarrow> \<exists>b'. sgets rd n b = Some (take n (pending_in b @ src (device b)), b') \<and>
    (n \<le> length (pending_in b @ src (device b)) \<longrightarrow> pending_in b' @ src (device b') = drop n (pending_in b @ src (device b)))"
proof (induction n arbitrary: b)
  case (Suc n)
  obtain b1 where b1: "in_ok b1" "case pending_in b @ src (device b) of
      [] \<Rightarrow> sbumpc rd b = Some (None, b1)
    | x # xs \<Rightarrow> sbumpc rd b = Some (Some x, b1) \<and> pending_in b1 @ src (device b1) = xs"
    using sbumpc_refines [OF rd Suc.prems] by blast
  show ?case
  proof (cases "pending_in b @ src (device b)")
    case Nil
    then show ?thesis using b1(2) by simp
  next
    case (Cons x xs)
    then have "sbumpc rd b = Some (Some x, b1)" "pending_in b1 @ src (device b1) = xs" using b1(2) by simp_all
    then show ?thesis using Suc.IH [OF b1(1)] Cons by auto
  qed
qed simp

section \<open>Properties\<close>

text \<open>
  C23: With a device that takes what it is given, and one that delivers its characters in pieces of any
  size, the buffer is transparent: after a sequence of characters and a \<^verbatim>\<open>sync\<close> the device has all of
  them in order, and reading gives the characters of the device in order and the end of file when
  there are no more.
\<close>

theorem stream_transparent:
  assumes "\<And>xs d. fst (wr xs d) = int (length xs) \<and> contents (snd (wr xs d)) = contents d @ xs"
    and "\<And>n d. 0 < n \<Longrightarrow> length (fst (rd n d)) \<le> n \<and> src d = fst (rd n d) @ src (snd (rd n d)) \<and>
      (fst (rd n d) = [] \<longrightarrow> src d = [])"
    and "4 < length mem"
  shows "(\<exists>b b'. sputs wr xs (BufferedStreamBuf mem False True d) = Some b \<and> sync_buf wr b = Some (0, b') \<and>
      contents (device b') = contents d @ xs) \<and>
    (\<exists>b. sgets rd n (BufferedStreamBuf mem True False d') = Some (take n (src d'), b))"
proof
  let ?b = "BufferedStreamBuf mem False True d"
  have "mode_out ?b" "pptr ?b < length (pBuffer ?b)" using assms(3) by (auto simp: BufferedStreamBuf_def)
  from sputs_refines [OF assms(1) this] obtain b where b: "sputs wr xs ?b = Some b" "pptr b < length (pBuffer b)"
    "contents (device b) @ pending_out b = contents d @ xs"
    by (auto simp: BufferedStreamBuf_def pending_out_def)
  from sync_refines [OF assms(1) b(2)] b(1,3)
  show "\<exists>b b'. sputs wr xs ?b = Some b \<and> sync_buf wr b = Some (0, b') \<and> contents (device b') = contents d @ xs"
    by auto
  let ?i = "BufferedStreamBuf mem True False d'"
  have "in_ok ?i" "pending_in ?i = []" "device ?i = d'"
    using assms(3) by (auto simp: BufferedStreamBuf_def in_ok_def pending_in_def)
  then show "\<exists>b. sgets rd n ?i = Some (take n (src d'), b)"
    using sgets_refines [OF assms(2), of ?i n] by auto
qed

theorem stream_transparent_witness:
  "\<exists>b. sgets (\<lambda>n d. (take (min 2 n) d, drop (min 2 n) d)) 4
     (BufferedStreamBuf [0, 0, 0, 0, 0, 0, 0] True False [1, 2, 3, 4, 5 :: nat]) = Some (take 4 [1, 2, 3, 4, 5], b)"
  by (rule conjunct2 [OF stream_transparent [where wr = "\<lambda>xs d. (int (length xs), d @ xs)" and contents = "\<lambda>d. d"
      and src = "\<lambda>d. d" and d = "[] :: nat list" and xs = "[]"]])
    auto

text \<open>
  When the device refuses the characters of a full buffer, the overflow fails but keeps the character
  behind the put area; the next character, if the caller tries again, is stored behind the buffer.
\<close>

theorem overflow_leaves_buffer:
  assumes "mode_out b" "pptr b = epptr b" "1 < length (pBuffer b)" "\<And>xs d. fst (wr xs d) < int (length xs)"
  shows "\<exists>b'. sputc wr x b = Some (None, b') \<and> sputc wr y b' = None"
proof -
  have l: "pptr b < length (pBuffer b)" "Suc (pptr b) = length (pBuffer b)" using assms(2,3) by (simp_all add: epptr_def)
  let ?m = "(pBuffer b)[pptr b := x]"
  obtain k d where w: "wr (take (pptr b + 1) ?m) (device b) = (k, d)" by force
  have "k < int (pptr b + 1)" using assms(4) [of "take (pptr b + 1) ?m" "device b"] w l by simp
  then have "sputc wr x b = Some (None, b\<lparr>pBuffer := ?m, pptr := pptr b + 1, device := d\<rparr>)"
    using assms(1,2) l w by (simp add: sputc_def overflow_def flushBuffer_def)
  moreover have "sputc wr y (b\<lparr>pBuffer := ?m, pptr := pptr b + 1, device := d\<rparr>) = None"
    using assms(1) l by (simp add: sputc_def overflow_def epptr_def)
  ultimately show ?thesis by blast
qed

theorem overflow_leaves_buffer_witness:
  "\<exists>b'. sputc (\<lambda>xs d. (- 1, d)) 1 ((BufferedStreamBuf [0, 0, 0 :: nat] False True ())\<lparr>pptr := 2\<rparr>) = Some (None, b') \<and>
     sputc (\<lambda>xs d. (- 1, d)) 2 b' = None"
  by (rule overflow_leaves_buffer) (simp_all add: BufferedStreamBuf_def epptr_def)

end
