(* ===== verification/Posix_Fs.thy ===== *)
theory Posix_Fs
  imports Path_Names "HOL-Library.AList"
begin

text \<open>
  The calls of the operating system that \<^verbatim>\<open>Common/File_UNIX.cpp\<close> and \<^verbatim>\<open>Server/Log.cpp\<close> use, on a
  file system of directories, regular files and symbolic links: a list of entries under their absolute
  locations, whose order is the order \<^verbatim>\<open>readdir\<close> delivers. There are no hard links and devices; the calls
  fail for missing, existing or unsuitable files and for too many links on the way, never for
  permissions, space or lengths.
\<close>

section \<open>The file system\<close>

type_synonym location = "string list"

datatype fkind = Reg "u8 list" | Directory | Link string

record inode =
  i_kind :: fkind
  i_mode :: u32
  i_uid :: u32
  i_gid :: u32
  i_mtime :: int
  i_ctime :: int

record fsys =
  fs_entries :: "(location \<times> inode) list"
  fs_cwd :: location
  fs_euid :: u32
  fs_egid :: u32
  fs_umask :: u32
  fs_now :: int

datatype errno = EIO | EPERM | EACCES | ENOENT | ENOTDIR | EISDIR | EROFS | EEXIST | ENOSPC | EDQUOT
  | ENOTEMPTY | ENAMETOOLONG | ENFILE | EMFILE | EINVAL | ELOOP

abbreviation fs_at :: "fsys \<Rightarrow> location \<Rightarrow> inode option" where
  "fs_at s \<equiv> map_of (fs_entries s)"

definition kind_at :: "fsys \<Rightarrow> location \<Rightarrow> fkind option" where
  "kind_at s p = map_option i_kind (fs_at s p)"

definition fs_put :: "location \<Rightarrow> inode \<Rightarrow> fsys \<Rightarrow> fsys" where
  "fs_put p i s = s\<lparr>fs_entries := AList.update p i (fs_entries s)\<rparr>"

definition fs_del :: "location \<Rightarrow> fsys \<Rightarrow> fsys" where
  "fs_del p s = s\<lparr>fs_entries := AList.delete p (fs_entries s)\<rparr>"

definition new_inode :: "fkind \<Rightarrow> u32 \<Rightarrow> fsys \<Rightarrow> inode" where
  "new_inode k mode s =
     \<lparr>i_kind = k, i_mode = and mode (not (fs_umask s)), i_uid = fs_euid s, i_gid = fs_egid s,
      i_mtime = fs_now s, i_ctime = fs_now s\<rparr>"

definition kids :: "location \<Rightarrow> fsys \<Rightarrow> string list" where
  "kids d s = map (last \<circ> fst) (filter (\<lambda>(p, _). p \<noteq> [] \<and> butlast p = d) (fs_entries s))"

section \<open>Path names\<close>

fun comps :: "string \<Rightarrow> string list" where
  "comps [] = [[]]"
| "comps (c # s) = (if c = slash then [] # comps s else (c # hd (comps s)) # tl (comps s))"

text \<open>
  A symbolic link is replaced by the name it holds, with at most so many links on the way; the last one
  only when it is to be followed.
\<close>

fun walk :: "nat \<Rightarrow> bool \<Rightarrow> fsys \<Rightarrow> location \<Rightarrow> string list \<Rightarrow> errno + location" where
  "walk n follow s cur [] = Inr cur"
| "walk n follow s cur (c # cs) =
     (case kind_at s cur of
        None \<Rightarrow> Inl ENOENT
      | Some Directory \<Rightarrow>
          if c = [] \<or> c = ''.'' then walk n follow s cur cs
          else if c = ''..'' then walk n follow s (butlast cur) cs
          else
            (case kind_at s (cur @ [c]) of
               Some (Link target) \<Rightarrow>
                 if cs = [] \<and> \<not> follow then Inr (cur @ [c])
                 else if target = [] then Inl ENOENT
                 else
                   (case n of
                      0 \<Rightarrow> Inl ELOOP
                    | Suc m \<Rightarrow> walk m follow s (if hd target = slash then [] else cur) (comps target @ cs))
             | _ \<Rightarrow> walk n follow s (cur @ [c]) cs)
      | Some _ \<Rightarrow> Inl ENOTDIR)"

definition SYMLOOP_MAX :: nat where "SYMLOOP_MAX = 40"

definition locate :: "bool \<Rightarrow> string \<Rightarrow> fsys \<Rightarrow> errno + location" where
  "locate follow path s =
     (if path = [] then Inl ENOENT
      else walk SYMLOOP_MAX follow s (if hd path = slash then [] else fs_cwd s) (comps path))"

text \<open>The entry a name leads to.\<close>

definition find_entry :: "bool \<Rightarrow> string \<Rightarrow> fsys \<Rightarrow> errno + location \<times> inode" where
  "find_entry follow path s =
     (case locate follow path s of
        Inl e \<Rightarrow> Inl e
      | Inr p \<Rightarrow> (case fs_at s p of None \<Rightarrow> Inl ENOENT | Some i \<Rightarrow> Inr (p, i)))"

text \<open>The calls that make, remove or rename an entry ignore slashes at the end of its name.\<close>

definition drop_slashes :: "string \<Rightarrow> string" where
  "drop_slashes path = rev (dropWhile (\<lambda>c. c = slash) (rev path))"

definition entry_name :: "string \<Rightarrow> string" where
  "entry_name path = (if drop_slashes path = [] then path else drop_slashes path)"

section \<open>Calls\<close>

definition sys_stat :: "string \<Rightarrow> fsys \<Rightarrow> errno + inode" where
  "sys_stat path s = (case find_entry True path s of Inl e \<Rightarrow> Inl e | Inr (_, i) \<Rightarrow> Inr i)"

definition sys_lstat :: "string \<Rightarrow> fsys \<Rightarrow> errno + inode" where
  "sys_lstat path s = (case find_entry False path s of Inl e \<Rightarrow> Inl e | Inr (_, i) \<Rightarrow> Inr i)"

definition sys_mkdir :: "string \<Rightarrow> u32 \<Rightarrow> fsys \<Rightarrow> errno + fsys" where
  "sys_mkdir path mode s =
     (case locate False (entry_name path) s of
        Inl e \<Rightarrow> Inl e
      | Inr p \<Rightarrow> if fs_at s p \<noteq> None then Inl EEXIST else Inr (fs_put p (new_inode Directory mode s) s))"

definition sys_rmdir :: "string \<Rightarrow> fsys \<Rightarrow> errno + fsys" where
  "sys_rmdir path s =
     (case find_entry False (entry_name path) s of
        Inl e \<Rightarrow> Inl e
      | Inr (p, i) \<Rightarrow>
          (case i_kind i of
             Directory \<Rightarrow> if kids p s \<noteq> [] then Inl ENOTEMPTY else if p = [] then Inl EPERM else Inr (fs_del p s)
           | _ \<Rightarrow> Inl ENOTDIR))"

definition sys_unlink :: "string \<Rightarrow> fsys \<Rightarrow> errno + fsys" where
  "sys_unlink path s =
     (case find_entry False path s of
        Inl e \<Rightarrow> Inl e
      | Inr (p, i) \<Rightarrow> (case i_kind i of Directory \<Rightarrow> Inl EISDIR | _ \<Rightarrow> Inr (fs_del p s)))"

text \<open>\<^verbatim>\<open>open\<close> for reading; a descriptor is the location of its file.\<close>

definition sys_open_read :: "string \<Rightarrow> fsys \<Rightarrow> errno + location" where
  "sys_open_read path s = (case find_entry True path s of Inl e \<Rightarrow> Inl e | Inr (p, _) \<Rightarrow> Inr p)"

text \<open>
  \<^verbatim>\<open>O_CREAT\<close> with \<^verbatim>\<open>O_TRUNC\<close>, with \<^verbatim>\<open>O_EXCL\<close>, which does not follow a link, and with \<^verbatim>\<open>O_APPEND\<close>.
\<close>

definition sys_open_with :: "bool \<Rightarrow> (inode \<Rightarrow> fsys \<Rightarrow> errno + inode) \<Rightarrow> string \<Rightarrow> u32 \<Rightarrow> fsys \<Rightarrow> errno + location \<times> fsys" where
  "sys_open_with follow old path mode s =
     (case locate follow path s of
        Inl e \<Rightarrow> Inl e
      | Inr p \<Rightarrow>
          (case fs_at s p of
             None \<Rightarrow> if last path = slash then Inl EISDIR else Inr (p, fs_put p (new_inode (Reg []) mode s) s)
           | Some i \<Rightarrow> (case old i s of Inl e \<Rightarrow> Inl e | Inr i' \<Rightarrow> Inr (p, fs_put p i' s))))"

definition sys_open_trunc :: "string \<Rightarrow> u32 \<Rightarrow> fsys \<Rightarrow> errno + location \<times> fsys" where
  "sys_open_trunc = sys_open_with True (\<lambda>i s. case i_kind i of Directory \<Rightarrow> Inl EISDIR | Link _ \<Rightarrow> Inl ELOOP
     | Reg _ \<Rightarrow> Inr (i\<lparr>i_kind := Reg [], i_mtime := fs_now s, i_ctime := fs_now s\<rparr>))"

definition sys_open_excl :: "string \<Rightarrow> u32 \<Rightarrow> fsys \<Rightarrow> errno + location \<times> fsys" where
  "sys_open_excl = sys_open_with False (\<lambda>i s. Inl EEXIST)"

definition sys_open_append :: "string \<Rightarrow> u32 \<Rightarrow> fsys \<Rightarrow> errno + location \<times> fsys" where
  "sys_open_append = sys_open_with True (\<lambda>i s. case i_kind i of Directory \<Rightarrow> Inl EISDIR | Link _ \<Rightarrow> Inl ELOOP | Reg _ \<Rightarrow> Inr i)"

definition sys_fstat :: "location \<Rightarrow> fsys \<Rightarrow> errno + inode" where
  "sys_fstat p s = (case fs_at s p of None \<Rightarrow> Inl EIO | Some i \<Rightarrow> Inr i)"

definition sys_read :: "location \<Rightarrow> nat \<Rightarrow> nat \<Rightarrow> fsys \<Rightarrow> errno + u8 list" where
  "sys_read p pos n s =
     (case kind_at s p of
        None \<Rightarrow> Inl EIO | Some Directory \<Rightarrow> Inl EISDIR | Some (Link _) \<Rightarrow> Inl EINVAL | Some (Reg xs) \<Rightarrow> Inr (take n (drop pos xs)))"

definition sys_write :: "location \<Rightarrow> nat \<Rightarrow> u8 list \<Rightarrow> fsys \<Rightarrow> errno + fsys" where
  "sys_write p pos ys s =
     (case fs_at s p of
        None \<Rightarrow> Inl EIO
      | Some i \<Rightarrow>
          (case i_kind i of
             Directory \<Rightarrow> Inl EISDIR
           | Link _ \<Rightarrow> Inl EINVAL
           | Reg xs \<Rightarrow>
               Inr (fs_put p (i\<lparr>i_kind := Reg (take pos (xs @ replicate (pos - length xs) 0) @ ys @ drop (pos + length ys) xs),
                                i_mtime := fs_now s, i_ctime := fs_now s\<rparr>) s)))"

definition sys_truncate :: "string \<Rightarrow> nat \<Rightarrow> fsys \<Rightarrow> errno + fsys" where
  "sys_truncate path n s =
     (case find_entry True path s of
        Inl e \<Rightarrow> Inl e
      | Inr (p, i) \<Rightarrow>
          (case i_kind i of
             Directory \<Rightarrow> Inl EISDIR
           | Link _ \<Rightarrow> Inl EINVAL
           | Reg xs \<Rightarrow> Inr (fs_put p (i\<lparr>i_kind := Reg (take n (xs @ replicate (n - length xs) 0)),
                                i_mtime := fs_now s, i_ctime := fs_now s\<rparr>) s)))"

definition sys_chmod :: "string \<Rightarrow> u32 \<Rightarrow> fsys \<Rightarrow> errno + fsys" where
  "sys_chmod path mode s =
     (case find_entry True path s of
        Inl e \<Rightarrow> Inl e | Inr (p, i) \<Rightarrow> Inr (fs_put p (i\<lparr>i_mode := mode, i_ctime := fs_now s\<rparr>) s))"

definition sys_utime :: "string \<Rightarrow> int \<Rightarrow> fsys \<Rightarrow> errno + fsys" where
  "sys_utime path t s =
     (case find_entry True path s of
        Inl e \<Rightarrow> Inl e | Inr (p, i) \<Rightarrow> Inr (fs_put p (i\<lparr>i_mtime := t, i_ctime := fs_now s\<rparr>) s))"

fun lies_under :: "location \<Rightarrow> location \<Rightarrow> bool" where
  "lies_under [] q = True"
| "lies_under (c # cs) [] = False"
| "lies_under (c # cs) (d # ds) = (c = d \<and> lies_under cs ds)"

definition move_entries :: "location \<Rightarrow> location \<Rightarrow> fsys \<Rightarrow> fsys" where
  "move_entries p q s =
     s\<lparr>fs_entries := map (\<lambda>(r, i). (if lies_under p r then q @ drop (length p) r else r, i)) (AList.delete q (fs_entries s))\<rparr>"

definition sys_rename :: "string \<Rightarrow> string \<Rightarrow> fsys \<Rightarrow> errno + fsys" where
  "sys_rename from to s =
     (case find_entry False (entry_name from) s of
        Inl e \<Rightarrow> Inl e
      | Inr (p, i) \<Rightarrow>
          (case locate False (if i_kind i = Directory then entry_name to else to) s of
             Inl e \<Rightarrow> Inl e
           | Inr q \<Rightarrow>
               if p = q then Inr s
               else if lies_under p q then Inl EINVAL
               else
                 (case kind_at s q of
                    None \<Rightarrow> Inr (move_entries p q s)
                  | Some Directory \<Rightarrow>
                      if i_kind i \<noteq> Directory then Inl EISDIR
                      else if kids q s \<noteq> [] then Inl ENOTEMPTY else Inr (move_entries p q s)
                  | Some _ \<Rightarrow> if i_kind i = Directory then Inl ENOTDIR else Inr (move_entries p q s))))"

text \<open>\<^verbatim>\<open>opendir\<close> and the names \<^verbatim>\<open>readdir\<close> delivers.\<close>

definition sys_readdir :: "string \<Rightarrow> fsys \<Rightarrow> errno + string list" where
  "sys_readdir path s =
     (case find_entry True path s of
        Inl e \<Rightarrow> Inl e
      | Inr (p, i) \<Rightarrow>
          (case i_kind i of Directory \<Rightarrow> Inr (''.'' # ''..'' # kids p s) | _ \<Rightarrow> Inl ENOTDIR))"

section \<open>Well-formed file systems\<close>

definition fname :: "string \<Rightarrow> bool" where
  "fname c \<longleftrightarrow> c \<noteq> [] \<and> c \<noteq> ''.'' \<and> c \<noteq> ''..'' \<and> slash \<notin> set c"

definition fs_ok :: "fsys \<Rightarrow> bool" where
  "fs_ok s \<longleftrightarrow> distinct (map fst (fs_entries s)) \<and> kind_at s [] = Some Directory \<and>
     (\<forall>p\<in>set (map fst (fs_entries s)). (p \<noteq> [] \<longrightarrow> kind_at s (butlast p) = Some Directory) \<and> (\<forall>c\<in>set p. fname c))"

lemma fs_at_put [simp]: "fs_at (fs_put p i s) q = (if q = p then Some i else fs_at s q)"
  by (simp add: fs_put_def update_conv')

lemma fs_at_del: "fs_ok s \<Longrightarrow> fs_at (fs_del p s) q = (if q = p then None else fs_at s q)"
  by (simp add: fs_del_def delete_conv')

lemma kind_at_put [simp]: "kind_at (fs_put p i s) q = (if q = p then Some (i_kind i) else kind_at s q)"
  by (simp add: kind_at_def)

lemma kind_at_del: "fs_ok s \<Longrightarrow> kind_at (fs_del p s) q = (if q = p then None else kind_at s q)"
  by (simp add: kind_at_def fs_at_del)

lemma kind_None: "kind_at s p = None \<longleftrightarrow> fs_at s p = None"
  by (simp add: kind_at_def)

lemma kind_Some: "kind_at s p = Some k \<longleftrightarrow> (\<exists>i. fs_at s p = Some i \<and> i_kind i = k)"
  by (auto simp: kind_at_def)

lemma dom_entries: "p \<in> fst ` set (fs_entries s) \<longleftrightarrow> fs_at s p \<noteq> None"
  unfolding map_of_eq_None_iff by simp

lemma fs_okD:
  assumes "fs_ok s"
  shows "kind_at s [] = Some Directory" "\<And>p. fs_at s p \<noteq> None \<Longrightarrow> p \<noteq> [] \<Longrightarrow> kind_at s (butlast p) = Some Directory"
    "\<And>p c. fs_at s p \<noteq> None \<Longrightarrow> c \<in> set p \<Longrightarrow> fname c"
  using assms dom_entries [of _ s] by (auto simp: fs_ok_def)

lemma fs_okI:
  assumes "distinct (map fst (fs_entries s))" "kind_at s [] = Some Directory"
    "\<And>p. fs_at s p \<noteq> None \<Longrightarrow> (p \<noteq> [] \<longrightarrow> kind_at s (butlast p) = Some Directory) \<and> (\<forall>c\<in>set p. fname c)"
  shows "fs_ok s"
  using assms dom_entries [of _ s] by (auto simp: fs_ok_def)

lemma fs_ok_put:
  assumes "fs_ok s" "p \<noteq> [] \<Longrightarrow> kind_at s (butlast p) = Some Directory" "\<forall>c\<in>set p. fname c"
    "kind_at s p = Some Directory \<Longrightarrow> i_kind i = Directory"
  shows "fs_ok (fs_put p i s)"
proof (rule fs_okI)
  show "distinct (map fst (fs_entries (fs_put p i s)))" using assms(1) by (simp add: fs_ok_def fs_put_def distinct_update)
  show "kind_at (fs_put p i s) [] = Some Directory" using assms(4) fs_okD(1) [OF assms(1)] by auto
  show "(q \<noteq> [] \<longrightarrow> kind_at (fs_put p i s) (butlast q) = Some Directory) \<and> (\<forall>c\<in>set q. fname c)"
    if "fs_at (fs_put p i s) q \<noteq> None" for q
  proof (cases "q = p")
    case True
    then show ?thesis using assms(2,3) assms(4) by auto
  next
    case False
    then have "fs_at s q \<noteq> None" using that by simp
    from fs_okD(2) [OF assms(1) this] fs_okD(3) [OF assms(1) this] assms(4) show ?thesis by auto
  qed
qed

lemma fs_ok_del:
  assumes "fs_ok s" "p \<noteq> []" "\<And>q. fs_at s q \<noteq> None \<Longrightarrow> q \<noteq> [] \<Longrightarrow> butlast q \<noteq> p"
  shows "fs_ok (fs_del p s)"
proof (rule fs_okI)
  show "distinct (map fst (fs_entries (fs_del p s)))" using assms(1) by (simp add: fs_ok_def fs_del_def distinct_delete)
  show "kind_at (fs_del p s) [] = Some Directory" using assms(2) fs_okD(1) [OF assms(1)] by (simp add: kind_at_del assms(1))
  show "(q \<noteq> [] \<longrightarrow> kind_at (fs_del p s) (butlast q) = Some Directory) \<and> (\<forall>c\<in>set q. fname c)"
    if "fs_at (fs_del p s) q \<noteq> None" for q
    using that fs_okD(2,3) [OF assms(1), of q] assms(3) [of q] by (auto simp: fs_at_del kind_at_del assms(1) split: if_splits)
qed

lemma kids_set:
  "set (kids d s) = {c. fs_at s (d @ [c]) \<noteq> None}"
proof -
  have "c \<in> set (kids d s) \<longleftrightarrow> d @ [c] \<in> fst ` set (fs_entries s)" for c
  proof
    assume "c \<in> set (kids d s)"
    then obtain p i where "(p, i) \<in> set (fs_entries s)" "p \<noteq> []" "butlast p = d" "c = last p" by (auto simp: kids_def)
    then show "d @ [c] \<in> fst ` set (fs_entries s)" by (metis append_butlast_last_id fst_conv image_eqI)
  next
    assume "d @ [c] \<in> fst ` set (fs_entries s)"
    then obtain i where "(d @ [c], i) \<in> set (fs_entries s)" by auto
    then show "c \<in> set (kids d s)" unfolding kids_def by force
  qed
  then show ?thesis using dom_entries by auto
qed

lemma kids_distinct: "fs_ok s \<Longrightarrow> distinct (kids d s)"
proof -
  assume "fs_ok s"
  then have "distinct (map fst (filter (\<lambda>(p, _). p \<noteq> [] \<and> butlast p = d) (fs_entries s)))"
    by (simp add: fs_ok_def distinct_map_filter)
  moreover have "inj_on last (set (map fst (filter (\<lambda>(p, _). p \<noteq> [] \<and> butlast p = d) (fs_entries s))))"
    by (rule inj_onI) (auto, metis append_butlast_last_id)
  ultimately show ?thesis unfolding kids_def by (simp add: distinct_map flip: map_map)
qed

lemma dir_prefix:
  assumes "fs_ok s" "fs_at s (p @ q) \<noteq> None" "q \<noteq> []" shows "kind_at s p = Some Directory"
  using assms(2,3)
proof (induction q rule: rev_induct)
  case (snoc c q)
  then have k: "kind_at s (p @ q) = Some Directory" using fs_okD(2) [OF assms(1), of "p @ q @ [c]"] by (simp add: butlast_append)
  then have "fs_at s (p @ q) \<noteq> None" by (auto simp: kind_Some)
  with k snoc.IH show ?case by (cases "q = []") auto
qed simp

section \<open>Names of locations\<close>

definition abs_path :: "location \<Rightarrow> string" where
  "abs_path cs = (if cs = [] then ''/'' else concat (map (\<lambda>c. slash # c) cs))"

text \<open>The name from the root directory, or from the current directory.\<close>

definition name_of :: "bool \<Rightarrow> location \<Rightarrow> string" where
  "name_of absolute cs = (if absolute then abs_path cs else tl (abs_path cs))"

definition base_of :: "bool \<Rightarrow> fsys \<Rightarrow> location" where
  "base_of absolute s = (if absolute then [] else fs_cwd s)"

lemma base_of_abs [simp]: "base_of True s = []"
  by (simp add: base_of_def)

lemma comps_app: "slash \<notin> set c \<Longrightarrow> comps (c @ slash # t) = c # comps t"
  by (induction c) auto

lemma comps_last: "slash \<notin> set c \<Longrightarrow> comps c = [c]"
  by (induction c) auto

lemma comps_rel: "\<forall>c\<in>set cs. fname c \<Longrightarrow> cs \<noteq> [] \<Longrightarrow> comps (tl (abs_path cs)) = cs"
proof -
  have "\<forall>c\<in>set cs. fname c \<Longrightarrow> cs \<noteq> [] \<Longrightarrow> comps (tl (concat (map (\<lambda>c. slash # c) cs))) = cs"
  proof (induction cs)
    case (Cons c cs)
    then have c: "slash \<notin> set c" by (simp add: fname_def)
    show ?case
    proof (cases cs)
      case (Cons d ds)
      with Cons.IH Cons.prems show ?thesis using comps_app [OF c] by simp
    qed (simp add: comps_last [OF c])
  qed simp
  moreover assume "\<forall>c\<in>set cs. fname c" "cs \<noteq> []"
  ultimately show ?thesis by (simp add: abs_path_def)
qed

lemma comps_abs: "\<forall>c\<in>set cs. fname c \<Longrightarrow> cs \<noteq> [] \<Longrightarrow> comps (abs_path cs) = [] # cs"
  using comps_rel [of cs] by (cases cs) (auto simp: abs_path_def)

lemma rel_not_abs: "\<forall>c\<in>set cs. fname c \<Longrightarrow> cs \<noteq> [] \<Longrightarrow> tl (abs_path cs) \<noteq> [] \<and> hd (tl (abs_path cs)) \<noteq> slash"
  by (cases cs; cases "hd cs") (auto simp: abs_path_def fname_def)

lemma locate_name:
  assumes "fs_ok s" "\<forall>c\<in>set cs. fname c" "cs = [] \<Longrightarrow> absolute"
  shows "locate fo (name_of absolute cs) s = walk SYMLOOP_MAX fo s (base_of absolute s) cs"
proof (cases absolute)
  case True
  have "comps ''/'' = [[], []]" by simp
  then show ?thesis using True fs_okD(1) [OF assms(1)] comps_abs [OF assms(2)]
    by (cases cs) (auto simp: locate_def name_of_def abs_path_def)
next
  case False
  then have ne: "cs \<noteq> []" using assms(3) by blast
  show ?thesis using comps_rel [OF assms(2) ne] rel_not_abs [OF assms(2) ne] False
    by (simp add: locate_def name_of_def base_of_def)
qed

text \<open>Ways through directories only, where the last component may be a link that is not followed.\<close>

definition is_link :: "fkind \<Rightarrow> bool" where
  "is_link k = (case k of Link _ \<Rightarrow> True | _ \<Rightarrow> False)"

lemma is_link_simps [simp]: "is_link (Link t)" "\<not> is_link (Reg xs)" "\<not> is_link Directory"
  by (simp_all add: is_link_def)

definition linked :: "fsys \<Rightarrow> location \<Rightarrow> bool" where
  "linked s p \<longleftrightarrow> (case kind_at s p of Some k \<Rightarrow> is_link k | None \<Rightarrow> False)"

lemma linked_iff: "linked s p \<longleftrightarrow> (\<exists>t. kind_at s p = Some (Link t))"
  by (auto simp: linked_def is_link_def split: option.splits fkind.splits)

lemma walk_dirs:
  assumes "\<And>k. k < length cs \<Longrightarrow> kind_at s (cur @ take k cs) = Some Directory" "\<forall>c\<in>set cs. fname c"
    "fo \<Longrightarrow> \<not> linked s (cur @ cs)"
  shows "walk n fo s cur cs = Inr (cur @ cs)"
  using assms
proof (induction cs arbitrary: cur)
  case (Cons c cs)
  have d: "kind_at s cur = Some Directory" using Cons.prems(1) [of 0] by simp
  have ih: "walk n fo s (cur @ [c]) cs = Inr ((cur @ [c]) @ cs)"
    by (rule Cons.IH) (use Cons.prems(1) [of "Suc _"] Cons.prems(2,3) in auto)
  have "cs = [] \<and> \<not> fo" if "kind_at s (cur @ [c]) = Some (Link t)" for t
    using that Cons.prems(1) [of 1] Cons.prems(3) by (cases cs) (auto simp: linked_iff)
  then show ?case using d ih Cons.prems(2) by (auto simp: fname_def split: option.splits fkind.splits)
qed simp

lemma dirs_above:
  assumes "fs_ok s" "kind_at s (butlast p) = Some Directory" "k < length p"
  shows "kind_at s (take k p) = Some Directory"
proof -
  have b: "butlast p = take k p @ drop k (butlast p)"
    using assms(3) take_butlast [of k p] append_take_drop_id [of k "butlast p"] by simp
  show ?thesis
  proof (cases "drop k (butlast p) = []")
    case True
    then show ?thesis using b assms(2) by simp
  next
    case False
    have "fs_at s (take k p @ drop k (butlast p)) \<noteq> None" using b assms(2) by (simp add: kind_Some) auto
    then show ?thesis using dir_prefix [OF assms(1)] False by blast
  qed
qed

lemma walk_to:
  assumes "fs_ok s" "\<forall>c\<in>set cs. fname c" "kind_at s (butlast (cur @ cs)) = Some Directory" "fo \<Longrightarrow> \<not> linked s (cur @ cs)"
  shows "walk n fo s cur cs = Inr (cur @ cs)"
proof (rule walk_dirs [OF _ assms(2,4)])
  show "kind_at s (cur @ take k cs) = Some Directory" if "k < length cs" for k
    using dirs_above [OF assms(1,3), of "length cur + k"] that by simp
qed

lemma locate_to:
  assumes "fs_ok s" "\<forall>c\<in>set cs. fname c" "cs \<noteq> []" "kind_at s (butlast (base_of absolute s @ cs)) = Some Directory"
    "fo \<Longrightarrow> \<not> linked s (base_of absolute s @ cs)"
  shows "locate fo (name_of absolute cs) s = Inr (base_of absolute s @ cs)"
  using locate_name [OF assms(1,2)] walk_to [OF assms(1,2,4,5)] assms(3) by simp

lemma locate_abs:
  assumes "fs_ok s" "\<forall>c\<in>set cs. fname c" "cs \<noteq> [] \<Longrightarrow> kind_at s (butlast cs) = Some Directory" "fo \<Longrightarrow> \<not> linked s cs"
  shows "locate fo (abs_path cs) s = Inr cs"
  using locate_name [OF assms(1,2), of True fo] walk_to [OF assms(1,2), of "[]" fo] assms(3,4)
  by (cases "cs = []") (simp_all add: name_of_def)

lemma find_abs:
  assumes "fs_ok s" "fs_at s cs = Some i" "fo \<Longrightarrow> \<not> is_link (i_kind i)"
  shows "find_entry fo (abs_path cs) s = Inr (cs, i)"
proof -
  have "\<not> linked s cs" if fo using assms(2,3) that by (simp add: linked_def kind_at_def)
  then show ?thesis using locate_abs [OF assms(1), of cs fo] fs_okD(2,3) [OF assms(1), of cs] assms(2)
    by (auto simp: find_entry_def)
qed

text \<open>A location below a missing directory.\<close>

lemma walk_missing:
  assumes "\<forall>c\<in>set cs. fname c" "\<And>k. k < length cs \<Longrightarrow> kind_at s (cur @ take k cs) \<in> {None, Some Directory}"
    "cs \<noteq> [] \<and> kind_at s (cur @ butlast cs) = None"
  shows "walk n fo s cur cs = Inl ENOENT"
  using assms
proof (induction cs arbitrary: cur)
  case (Cons c cs)
  show ?case
  proof (cases "kind_at s cur = None")
    case False
    then have d: "kind_at s cur = Some Directory" using Cons.prems(2) [of 0] by auto
    have ne: "cs \<noteq> []" using Cons.prems(3) d by auto
    have ih: "walk n fo s (cur @ [c]) cs = Inl ENOENT"
      by (rule Cons.IH) (use Cons.prems(2) [of "Suc _"] Cons.prems(1,3) ne in auto)
    have c: "c \<noteq> []" "c \<noteq> ''.''" "c \<noteq> ''..''" using Cons.prems(1) by (auto simp: fname_def)
    have "kind_at s (cur @ [c]) = None \<or> kind_at s (cur @ [c]) = Some Directory" using Cons.prems(2) [of 1] ne by simp
    then show ?thesis by (elim disjE) (simp_all add: d c ih)
  qed simp
qed simp

lemma locate_missing:
  assumes "fs_ok s" "\<forall>c\<in>set cs. fname c" "cs \<noteq> []"
    "\<And>k. k < length cs \<Longrightarrow> kind_at s (base_of absolute s @ take k cs) \<in> {None, Some Directory}"
    "kind_at s (base_of absolute s @ butlast cs) = None"
  shows "locate fo (name_of absolute cs) s = Inl ENOENT"
  using locate_name [OF assms(1,2)] walk_missing [OF assms(2,4)] assms(3,5) by simp

end
