(* ===== verification/Files.thy ===== *)
theory Files
  imports Posix_Fs Time_Spans
begin

unbundle bit_operations_syntax

text \<open>
  \<^verbatim>\<open>Common/File.cpp\<close>, \<^verbatim>\<open>File_UNIX.cpp\<close>, \<^verbatim>\<open>DirectoryIterator.cpp\<close>: files and directories by name, on the
  file system of theory Posix_Fs. A \<^verbatim>\<open>File\<close> is its path name. An operation gives an exception or a
  value together with the state it leaves; \<open>None\<close> is undefined behaviour, or a recursion deeper
  than its fuel.
\<close>

section \<open>Results\<close>

datatype exn = IOException string | FileAccessDeniedException string | FileNotFoundException string
  | OpenFileException string | FileReadOnlyException string | FileExistsException string
  | FileException string | PathSyntaxException string | AssertionViolationException

type_synonym 'a fio = "fsys \<Rightarrow> ((exn + 'a) \<times> fsys) option"

definition retF :: "'a \<Rightarrow> 'a fio" where
  "retF x s = Some (Inr x, s)"

definition throwF :: "exn \<Rightarrow> 'a fio" where
  "throwF e s = Some (Inl e, s)"

definition bindF :: "'a fio \<Rightarrow> ('a \<Rightarrow> 'b fio) \<Rightarrow> 'b fio" where
  "bindF m f s =
     (case m s of None \<Rightarrow> None | Some (Inl e, s1) \<Rightarrow> Some (Inl e, s1) | Some (Inr x, s1) \<Rightarrow> f x s1)"

definition getF :: "(fsys \<Rightarrow> 'a) \<Rightarrow> 'a fio" where
  "getF f s = Some (Inr (f s), s)"

definition liftF :: "'a option \<Rightarrow> 'a fio" where
  "liftF x s = map_option (\<lambda>y. (Inr y, s)) x"

primrec each :: "('a \<Rightarrow> unit fio) \<Rightarrow> 'a list \<Rightarrow> unit fio" where
  "each f [] = retF ()"
| "each f (x # xs) = bindF (f x) (\<lambda>_. each f xs)"

definition two :: "string \<Rightarrow> string \<Rightarrow> string" where
  "two msg arg = (if arg \<noteq> [] then msg @ '': '' @ arg else msg)"

definition handleLastErrorImpl :: "errno \<Rightarrow> string \<Rightarrow> exn" where
  "handleLastErrorImpl e path =
     (case e of
        EIO \<Rightarrow> IOException path
      | EPERM \<Rightarrow> FileAccessDeniedException (two ''insufficient permissions'' path)
      | EACCES \<Rightarrow> FileAccessDeniedException path
      | ENOENT \<Rightarrow> FileNotFoundException path
      | ENOTDIR \<Rightarrow> OpenFileException (two ''not a directory'' path)
      | EISDIR \<Rightarrow> OpenFileException (two ''not a file'' path)
      | EROFS \<Rightarrow> FileReadOnlyException path
      | EEXIST \<Rightarrow> FileExistsException path
      | ENOSPC \<Rightarrow> FileException (two ''no space left on device'' path)
      | EDQUOT \<Rightarrow> FileException (two ''disk quota exceeded'' path)
      | ENOTEMPTY \<Rightarrow> FileException (two ''directory not empty'' path)
      | ENAMETOOLONG \<Rightarrow> PathSyntaxException path
      | ENFILE \<Rightarrow> FileException (two ''too many open files'' path)
      | EMFILE \<Rightarrow> FileException (two ''too many open files'' path)
      | EINVAL \<Rightarrow> FileException (two ''Invalid argument'' path)
      | ELOOP \<Rightarrow> FileException (two ''Too many levels of symbolic links'' path))"

text \<open>A call whose error becomes an exception.\<close>

definition ask :: "string \<Rightarrow> (fsys \<Rightarrow> errno + 'a) \<Rightarrow> 'a fio" where
  "ask path call s =
     (case call s of Inl e \<Rightarrow> Some (Inl (handleLastErrorImpl e path), s) | Inr x \<Rightarrow> Some (Inr x, s))"

definition call :: "string \<Rightarrow> (fsys \<Rightarrow> errno + fsys) \<Rightarrow> unit fio" where
  "call path c s =
     (case c s of Inl e \<Rightarrow> Some (Inl (handleLastErrorImpl e path), s) | Inr s1 \<Rightarrow> Some (Inr (), s1))"

definition asserted :: "string \<Rightarrow> 'a fio \<Rightarrow> 'a fio" where
  "asserted path m = (if path = [] then throwF AssertionViolationException else m)"

section \<open>Questions about a file\<close>

definition FileImpl :: "string \<Rightarrow> string" where
  "FileImpl path = (if length path > 1 \<and> last path = slash then butlast path else path)"

definition existsImpl :: "string \<Rightarrow> bool fio" where
  "existsImpl f = asserted f (getF (\<lambda>s. \<exists>i. sys_stat f s = Inr i))"

text \<open>The permission that applies to the process: owner, group, others.\<close>

definition permitted :: "bool \<Rightarrow> u32 \<Rightarrow> u32 \<Rightarrow> u32 \<Rightarrow> inode \<Rightarrow> fsys \<Rightarrow> bool" where
  "permitted root usr grp oth st s =
     (if root \<and> fs_euid s = 0 then True
      else if i_uid st = fs_euid s \<or> \<not> root \<and> fs_euid s = 0 then i_mode st AND usr \<noteq> 0
      else if i_gid st = fs_egid s then i_mode st AND grp \<noteq> 0
      else i_mode st AND oth \<noteq> 0)"

definition canReadImpl :: "string \<Rightarrow> bool fio" where
  "canReadImpl f = asserted f (bindF (ask f (sys_stat f)) (\<lambda>st. getF (permitted True 0x100 0x20 4 st)))"

definition canWriteImpl :: "string \<Rightarrow> bool fio" where
  "canWriteImpl f = asserted f (bindF (ask f (sys_stat f)) (\<lambda>st. getF (permitted True 0x80 0x10 2 st)))"

definition canExecuteImpl :: "string \<Rightarrow> bool fio" where
  "canExecuteImpl f = asserted f (bindF (ask f (sys_stat f)) (\<lambda>st. getF (permitted False 0x40 8 1 st)))"

definition isFileImpl :: "string \<Rightarrow> bool fio" where
  "isFileImpl f = asserted f (bindF (ask f (sys_stat f)) (\<lambda>st. retF (case i_kind st of Reg _ \<Rightarrow> True | _ \<Rightarrow> False)))"

definition isDirectoryImpl :: "string \<Rightarrow> bool fio" where
  "isDirectoryImpl f = asserted f (bindF (ask f (sys_stat f)) (\<lambda>st. retF (i_kind st = Directory)))"

definition isLinkImpl :: "string \<Rightarrow> bool fio" where
  "isLinkImpl f = asserted f (bindF (ask f (sys_lstat f)) (\<lambda>st. retF (is_link (i_kind st))))"

definition isHiddenImpl :: "string \<Rightarrow> string \<Rightarrow> bool fio" where
  "isHiddenImpl home f =
     asserted f (bindF (liftF (parseUnix home f)) (\<lambda>p. retF (take 1 (p_name (makeFile p)) = ''.'')))"

definition createdImpl :: "string \<Rightarrow> int fio" where
  "createdImpl f = asserted f (bindF (ask f (sys_stat f)) (\<lambda>st. liftF (fromEpochTime (i_ctime st))))"

definition getLastModifiedImpl :: "string \<Rightarrow> int fio" where
  "getLastModifiedImpl f = asserted f (bindF (ask f (sys_stat f)) (\<lambda>st. liftF (fromEpochTime (i_mtime st))))"

definition setLastModifiedImpl :: "int \<Rightarrow> string \<Rightarrow> unit fio" where
  "setLastModifiedImpl ts f = asserted f (call f (sys_utime f (epochTime ts)))"

definition getSizeImpl :: "string \<Rightarrow> nat fio" where
  "getSizeImpl f =
     asserted f (bindF (ask f (sys_stat f)) (\<lambda>st. case i_kind st of Reg xs \<Rightarrow> retF (length xs) | _ \<Rightarrow> liftF None))"

definition setSizeImpl :: "nat \<Rightarrow> string \<Rightarrow> unit fio" where
  "setSizeImpl n f = asserted f (call f (sys_truncate f n))"

definition setWriteableImpl :: "bool \<Rightarrow> string \<Rightarrow> unit fio" where
  "setWriteableImpl flag f =
     asserted f (bindF (ask f (sys_stat f)) (\<lambda>st.
       call f (sys_chmod f (if flag then i_mode st OR 0x80 else i_mode st AND NOT (0x80 OR 0x10 OR 2)))))"

definition setExecutableImpl :: "bool \<Rightarrow> string \<Rightarrow> unit fio" where
  "setExecutableImpl flag f =
     asserted f (bindF (ask f (sys_stat f)) (\<lambda>st.
       call f (sys_chmod f (if flag then i_mode st OR 0x40 else i_mode st AND NOT (0x40 OR 8 OR 1)))))"

definition setReadOnly :: "bool \<Rightarrow> string \<Rightarrow> unit fio" where
  "setReadOnly flag f = setWriteableImpl (\<not> flag) f"

section \<open>Creating, removing, renaming\<close>

definition createFileImpl :: "string \<Rightarrow> bool fio" where
  "createFileImpl f =
     asserted f (\<lambda>s. case sys_open_excl f 0x1B6 s of
        Inr (_, s1) \<Rightarrow> Some (Inr True, s1)
      | Inl e \<Rightarrow> if e = EEXIST then Some (Inr False, s) else Some (Inl (handleLastErrorImpl e f), s))"

text \<open>A failing \<^verbatim>\<open>mkdir\<close> is only printed.\<close>

definition createDirectoryImpl :: "string \<Rightarrow> bool fio" where
  "createDirectoryImpl f =
     asserted f (bindF (existsImpl f) (\<lambda>e. bindF (if e then isDirectoryImpl f else retF False) (\<lambda>d.
       if d then retF False
       else (\<lambda>s. Some (Inr True, case sys_mkdir f 0x1FF s of Inr s1 \<Rightarrow> s1 | Inl _ \<Rightarrow> s)))))"

definition removeImpl :: "string \<Rightarrow> unit fio" where
  "removeImpl f =
     asserted f (bindF (isLinkImpl f) (\<lambda>l. bindF (if \<not> l then isDirectoryImpl f else retF False) (\<lambda>d.
       call f (if d then sys_rmdir f else sys_unlink f))))"

definition renameToImpl :: "string \<Rightarrow> string \<Rightarrow> unit fio" where
  "renameToImpl path f = asserted f (call f (sys_rename f path))"

definition renameTo :: "string \<Rightarrow> string \<Rightarrow> string fio" where
  "renameTo path f = bindF (renameToImpl path f) (\<lambda>_. retF (FileImpl path))"

section \<open>Copying a file\<close>

text \<open>\<open>blk\<close> is the block size of the source's file system.\<close>

partial_function (option) copy_loop ::
    "nat \<Rightarrow> string \<Rightarrow> string \<Rightarrow> location \<Rightarrow> location \<Rightarrow> nat \<Rightarrow> fsys \<Rightarrow> ((exn + unit) \<times> fsys) option" where
  "copy_loop blk f path sd dd pos s =
     (case sys_read sd pos blk s of
        Inl e \<Rightarrow> Some (Inl (handleLastErrorImpl e f), s)
      | Inr xs \<Rightarrow>
          if xs = [] then Some (Inr (), s)
          else
            (case sys_write dd pos xs s of
               Inl e \<Rightarrow> Some (Inl (handleLastErrorImpl e path), s)
             | Inr s1 \<Rightarrow> copy_loop blk f path sd dd (pos + length xs) s1))"

definition copyToImpl :: "nat \<Rightarrow> string \<Rightarrow> string \<Rightarrow> unit fio" where
  "copyToImpl blk path f =
     asserted f (bindF (ask f (sys_open_read f)) (\<lambda>sd. bindF (ask f (sys_fstat sd)) (\<lambda>st s.
       case sys_open_trunc path (i_mode st AND 0x1C0) s of
         Inl e \<Rightarrow> Some (Inl (handleLastErrorImpl e path), s)
       | Inr (dd, s1) \<Rightarrow> copy_loop blk f path sd dd 0 s1)))"

section \<open>Directories\<close>

text \<open>
  \<^verbatim>\<open>DirectoryIterator\<close>: the files of the directory \<open>p\<close>, whose name for \<^verbatim>\<open>opendir\<close> is \<open>path\<close>. The names are
  taken when the directory is opened. The iterator compares equal to the end at an empty name.
\<close>

definition DirectoryIteratorImpl :: "string \<Rightarrow> string \<Rightarrow> string list fio" where
  "DirectoryIteratorImpl home path =
     bindF (liftF (parseUnix home path)) (\<lambda>p.
     bindF (ask path (sys_readdir (buildUnix (makeFile p)))) (\<lambda>names.
       retF (takeWhile (\<lambda>n. n \<noteq> []) (filter (\<lambda>n. n \<noteq> ''.'' \<and> n \<noteq> ''..'') names))))"

definition entry_file :: "path \<Rightarrow> string \<Rightarrow> string" where
  "entry_file p n = FileImpl (buildUnix (setFileName n (makeDirectory p)))"

definition DirectoryIterator_path :: "string \<Rightarrow> path \<Rightarrow> string list fio" where
  "DirectoryIterator_path home p =
     bindF (DirectoryIteratorImpl home (buildUnix p)) (\<lambda>ns. retF (map (entry_file p) ns))"

definition list_names :: "string \<Rightarrow> string \<Rightarrow> string list fio" where
  "list_names home f = bindF (liftF (parseUnix home f)) (\<lambda>_. DirectoryIteratorImpl home f)"

definition list_files :: "string \<Rightarrow> string \<Rightarrow> string list fio" where
  "list_files home f =
     bindF (liftF (parseUnix home f)) (\<lambda>p.
     bindF (DirectoryIteratorImpl home f) (\<lambda>ns. retF (map (entry_file p) ns)))"

primrec createDirectories :: "nat \<Rightarrow> string \<Rightarrow> string \<Rightarrow> unit fio" where
  "createDirectories 0 home f = liftF None"
| "createDirectories (Suc n) home f =
     bindF (existsImpl f) (\<lambda>e.
       if e then retF ()
       else
         bindF (liftF (parseUnix home f)) (\<lambda>p0.
           let p = makeDirectory p0
           in bindF (if path_depth p > 1 then createDirectories n home (FileImpl (buildUnix (makeParent p))) else retF ())
                (\<lambda>_. bindF (createDirectoryImpl f) (\<lambda>_. retF ()))))"

primrec remove_rec :: "nat \<Rightarrow> string \<Rightarrow> bool \<Rightarrow> string \<Rightarrow> unit fio" where
  "remove_rec 0 home recursive f = liftF None"
| "remove_rec (Suc n) home recursive f =
     bindF (if recursive then bindF (isLinkImpl f) (\<lambda>l. if l then retF False else isDirectoryImpl f) else retF False)
       (\<lambda>d. bindF (if d then bindF (list_files home f) (each (remove_rec n home True)) else retF ())
         (\<lambda>_. removeImpl f))"

definition path_isDirectory :: "path \<Rightarrow> bool" where
  "path_isDirectory p \<longleftrightarrow> p_name p = []"

text \<open>\<open>cp\<close> is \<^verbatim>\<open>copyTo\<close> for the entries. An absolute name has fewer directories than characters.\<close>

definition copyDirectory :: "string \<Rightarrow> (string \<Rightarrow> string \<Rightarrow> unit fio) \<Rightarrow> string \<Rightarrow> string \<Rightarrow> unit fio" where
  "copyDirectory home cp path f =
     bindF (createDirectories (Suc (length path)) home (FileImpl path)) (\<lambda>_.
     bindF (liftF (parseUnix home f)) (\<lambda>src.
     bindF (DirectoryIterator_path home (makeFile src)) (each (cp path))))"

primrec copyTo :: "nat \<Rightarrow> nat \<Rightarrow> string \<Rightarrow> string \<Rightarrow> string \<Rightarrow> unit fio" where
  "copyTo 0 blk home path f = liftF None"
| "copyTo (Suc n) blk home path f =
     bindF (liftF (parseUnix home f)) (\<lambda>src.
     bindF (liftF (parseUnix home path)) (\<lambda>dest.
     bindF (existsImpl (FileImpl path)) (\<lambda>e.
     bindF (if e then isDirectoryImpl (FileImpl path) else retF False) (\<lambda>d.
       let dest1 = (if d \<or> path_isDirectory dest then setFileName (p_name src) (makeDirectory dest) else dest)
       in bindF (isDirectoryImpl f) (\<lambda>isdir.
            if isdir then copyDirectory home (copyTo n blk home) (buildUnix dest1) f
            else copyToImpl blk (buildUnix dest1) f)))))"

text \<open>The new name of the object is the one asked for.\<close>

definition moveTo :: "nat \<Rightarrow> nat \<Rightarrow> string \<Rightarrow> string \<Rightarrow> string \<Rightarrow> string fio" where
  "moveTo n blk home path f =
     bindF (copyTo n blk home path f) (\<lambda>_. bindF (remove_rec n home True f) (\<lambda>_. retF (FileImpl path)))"

section \<open>Absolute names as paths\<close>

definition good_loc :: "location \<Rightarrow> bool" where
  "good_loc cs \<longleftrightarrow> (\<forall>c\<in>set cs. fname c) \<and> (cs \<noteq> [] \<longrightarrow> last (hd cs) \<noteq> colon)"

text \<open>The path of a name from the root directory, or from the current directory.\<close>

definition name_path :: "bool \<Rightarrow> location \<Rightarrow> string \<Rightarrow> path" where
  "name_path absolute ds n =
     \<lparr>p_node = [], p_device = [], p_name = n, p_version = [], p_dirs = ds, p_absolute = absolute\<rparr>"

abbreviation loc_path :: "location \<Rightarrow> string \<Rightarrow> path" where
  "loc_path \<equiv> name_path True"

lemmas loc_path_def = name_path_def [of True]

lemma good_locD: "good_loc cs \<Longrightarrow> c \<in> set cs \<Longrightarrow> fname c"
  by (simp add: good_loc_def)

lemma good_prefix: "good_loc (cs @ ds) \<Longrightarrow> good_loc cs"
  by (cases cs) (auto simp: good_loc_def)

lemma good_snoc: "good_loc cs \<Longrightarrow> fname c \<Longrightarrow> cs \<noteq> [] \<Longrightarrow> good_loc (cs @ [c])"
  by (cases cs) (auto simp: good_loc_def)

lemma good_take: "good_loc cs \<Longrightarrow> good_loc (take k cs)"
  using good_prefix [of "take k cs" "drop k cs"] by simp

lemma good_butlast: "good_loc cs \<Longrightarrow> good_loc (butlast cs)"
  by (simp add: butlast_conv_take good_take)

lemma abs_path_snoc: "abs_path (ds @ [n]) = (if ds = [] then [] else abs_path ds) @ slash # n"
  by (simp add: abs_path_def)

lemma build_loc: "buildUnix (loc_path ds n) = (if ds = [] then [] else abs_path ds) @ slash # n"
proof -
  have "slash # concat (map (\<lambda>d. d @ ''/'') ds) = concat (map (\<lambda>c. slash # c) ds) @ ''/''" by (induction ds) auto
  then show ?thesis by (simp add: buildUnix_def loc_path_def abs_path_def) 
qed

lemma abs_path_last: "good_loc cs \<Longrightarrow> cs \<noteq> [] \<Longrightarrow> last (abs_path cs) \<noteq> slash \<and> length (abs_path cs) > 1"
proof (cases cs rule: rev_cases)
  case (snoc ds n)
  assume "good_loc cs" "cs \<noteq> []"
  then have "fname n" using snoc by (simp add: good_loc_def)
  then have "n \<noteq> []" "slash \<notin> set n" by (auto simp: fname_def)
  moreover from this have "last n \<noteq> slash" using last_in_set [of n] by metis
  ultimately show ?thesis by (cases n) (auto simp: snoc abs_path_snoc)
qed simp

lemma abs_path_hd: "hd (abs_path cs) = slash" "abs_path cs \<noteq> []"
  by (cases cs; simp add: abs_path_def)+

lemma FileImpl_abs [simp]: "good_loc cs \<Longrightarrow> FileImpl (abs_path cs) = abs_path cs"
  using abs_path_last [of cs] by (cases "cs = []") (auto simp: FileImpl_def abs_path_def)

lemma drop_slashes_abs [simp]: "good_loc cs \<Longrightarrow> cs \<noteq> [] \<Longrightarrow> drop_slashes (abs_path cs) = abs_path cs"
proof -
  assume "good_loc cs" "cs \<noteq> []"
  from abs_path_last [OF this] have "rev (abs_path cs) \<noteq> []" "hd (rev (abs_path cs)) \<noteq> slash"
    by (auto simp: hd_rev)
  then have "dropWhile (\<lambda>c. c = slash) (rev (abs_path cs)) = rev (abs_path cs)" by (cases "rev (abs_path cs)") auto
  then show ?thesis by (simp add: drop_slashes_def)
qed

lemma FileImpl_dir: "good_loc ds \<Longrightarrow> FileImpl (buildUnix (loc_path ds [])) = abs_path ds"
  by (cases "ds = []") (auto simp: build_loc FileImpl_def abs_path_def abs_path_hd butlast_append)

lemma parse_loc:
  assumes "good_loc ds" "slash \<notin> set n"
  shows "parseUnix home (buildUnix (loc_path ds n)) = Some (loc_path ds n)"
proof (rule unix_roundtrip_lemma)
  have "normal_dirs True ds" using assms(1)
    by (auto simp: normal_dirs_def plain_def good_loc_def fname_def)
  then show "unix_path (loc_path ds n)" using assms
    by (auto simp: unix_path_def normal_def loc_path_def good_loc_def fname_def)
qed

lemma parse_abs:
  assumes "good_loc cs"
  shows "parseUnix home (abs_path cs) = Some (loc_path (butlast cs) (if cs = [] then [] else last cs))"
proof (cases cs rule: rev_cases)
  case Nil
  then show ?thesis using parse_loc [of "[]" "[]" home] by (simp add: build_loc abs_path_def good_loc_def)
next
  case (snoc ds n)
  then have "good_loc ds" "slash \<notin> set n" using assms good_prefix [of ds "[n]"] by (auto simp: good_loc_def fname_def)
  from parse_loc [OF this] show ?thesis by (simp add: snoc build_loc abs_path_snoc)
qed

lemma makeDirectory_loc:
  assumes "good_loc cs" shows "makeDirectory (loc_path (butlast cs) (if cs = [] then [] else last cs)) = loc_path cs []"
proof (cases cs rule: rev_cases)
  case (snoc ds n)
  then have "fname n" using assms by (simp add: good_loc_def)
  then show ?thesis by (simp add: snoc makeDirectory_def pushDirectory_def loc_path_def fname_def)
qed (simp add: makeDirectory_def pushDirectory_def loc_path_def)

lemma makeDirectory_dir [simp]: "makeDirectory (loc_path cs []) = loc_path cs []"
  by (simp add: makeDirectory_def pushDirectory_def loc_path_def)

lemma makeParent_loc: "good_loc cs \<Longrightarrow> cs \<noteq> [] \<Longrightarrow> makeParent (loc_path cs []) = loc_path (butlast cs) []"
  using last_in_set [of cs] by (auto simp: makeParent_def loc_path_def good_loc_def fname_def)

lemma makeFile_loc:
  "makeFile (loc_path cs []) = loc_path (butlast cs) (if cs = [] then [] else last cs)"
  "n \<noteq> [] \<Longrightarrow> makeFile (loc_path cs n) = loc_path cs n"
  by (auto simp: makeFile_def loc_path_def)

lemma setFileName_loc [simp]: "setFileName n (loc_path cs m) = loc_path cs n"
  by (simp add: setFileName_def loc_path_def)

lemma loc_path_sel [simp]: "p_name (loc_path cs n) = n" "p_dirs (loc_path cs n) = cs"
  by (simp_all add: loc_path_def)

lemma build_abs: "buildUnix (loc_path (butlast cs) (if cs = [] then [] else last cs)) = abs_path cs"
  by (cases cs rule: rev_cases) (simp_all add: build_loc abs_path_snoc abs_path_def)

section \<open>Rules for results\<close>

declare bindF_def [simp]

lemma fio_simps [simp]: "retF x s = Some (Inr x, s)" "getF g s = Some (Inr (g s), s)"
  "liftF (Some x) s = Some (Inr x, s)" "liftF None s = None"
  by (simp_all add: retF_def getF_def liftF_def)

lemma asserted_abs [simp]: "asserted (abs_path cs) m = m"
  by (simp add: asserted_def abs_path_hd)

lemma stat_abs:
  assumes "fs_ok s" "fs_at s cs = Some i" "\<not> is_link (i_kind i)"
  shows "sys_stat (abs_path cs) s = Inr i"
  using find_abs [OF assms(1,2), of True] assms(3) by (simp add: sys_stat_def)

lemma isDirectory_abs [simp]:
  assumes "fs_ok s" "fs_at s cs = Some i" "\<not> is_link (i_kind i)"
  shows "isDirectoryImpl (abs_path cs) s = Some (Inr (i_kind i = Directory), s)"
  using stat_abs [OF assms] by (simp add: isDirectoryImpl_def ask_def)

lemma isLink_abs [simp]:
  assumes "fs_ok s" "fs_at s cs = Some i"
  shows "isLinkImpl (abs_path cs) s = Some (Inr (is_link (i_kind i)), s)"
  using find_abs [OF assms, of False] by (simp add: isLinkImpl_def ask_def sys_lstat_def)

section \<open>Names from the root and from the current directory\<close>

text \<open>No file or link lies in the way to a location.\<close>

definition way_free :: "fsys \<Rightarrow> location \<Rightarrow> bool" where
  "way_free s cs \<longleftrightarrow> (\<forall>k\<le>length cs. kind_at s (take k cs) \<in> {None, Some Directory})"

lemma way_free_butlast: "way_free s cs \<Longrightarrow> way_free s (butlast cs)"
  by (auto simp: way_free_def butlast_conv_take min_def)

text \<open>A name that the path parser reads as it was meant: no leading tilde in a relative one.\<close>

definition good_name :: "bool \<Rightarrow> location \<Rightarrow> bool" where
  "good_name absolute cs \<longleftrightarrow> good_loc cs \<and> (\<not> absolute \<longrightarrow> cs \<noteq> [] \<and> hd cs \<noteq> ''~'')"

lemma good_name_abs [simp]: "good_name True cs = good_loc cs"
  by (simp add: good_name_def)

lemma name_of_abs [simp]: "name_of True cs = abs_path cs"
  by (simp add: name_of_def)

lemma good_name_butlast: "good_name ab cs \<Longrightarrow> butlast cs \<noteq> [] \<Longrightarrow> good_name ab (butlast cs)"
  using good_butlast [of cs] by (cases cs) (auto simp: good_name_def split: if_splits)

lemma good_name_snoc: "good_name ab cs \<Longrightarrow> fname c \<Longrightarrow> cs \<noteq> [] \<Longrightarrow> good_name ab (cs @ [c])"
  by (simp add: good_name_def good_snoc)

lemma good_nameD: "good_name ab cs \<Longrightarrow> \<forall>c\<in>set cs. fname c"
  by (simp add: good_name_def good_loc_def)

lemma name_snoc: "cs \<noteq> [] \<Longrightarrow> name_of ab (cs @ [n]) = name_of ab cs @ slash # n"
  by (auto simp: name_of_def abs_path_snoc abs_path_def neq_Nil_conv)

lemma name_last: "good_name ab cs \<Longrightarrow> cs \<noteq> [] \<Longrightarrow> last (name_of ab cs) \<noteq> slash \<and> name_of ab cs \<noteq> []"
proof -
  assume g: "good_name ab cs" "cs \<noteq> []"
  then have l: "last (abs_path cs) \<noteq> slash" "length (abs_path cs) > 1" using abs_path_last [of cs] by (auto simp: good_name_def)
  then have "tl (abs_path cs) \<noteq> []" by (cases "abs_path cs") auto
  with l show ?thesis by (auto simp: name_of_def last_tl)
qed

lemma FileImpl_id: "path \<noteq> [] \<Longrightarrow> last path \<noteq> slash \<Longrightarrow> FileImpl path = path"
  by (simp add: FileImpl_def)

lemma FileImpl_name_of: "good_name ab cs \<Longrightarrow> cs \<noteq> [] \<Longrightarrow> FileImpl (name_of ab cs) = name_of ab cs"
  using name_last by (simp add: FileImpl_id)

lemma entry_name_id: "path \<noteq> [] \<Longrightarrow> last path \<noteq> slash \<Longrightarrow> entry_name path = path"
proof -
  assume "path \<noteq> []" "last path \<noteq> slash"
  then have "dropWhile (\<lambda>c. c = slash) (rev path) = rev path" by (cases "rev path") (auto simp: last_rev [symmetric] hd_rev)
  then show ?thesis by (simp add: entry_name_def drop_slashes_def)
qed

lemma build_name:
  "buildUnix (name_path ab ds n) = (if ds = [] then (if ab then ''/'' else []) else name_of ab ds @ ''/'') @ n"
proof -
  have "slash # concat (map (\<lambda>d. d @ ''/'') ds) = concat (map (\<lambda>c. slash # c) ds) @ ''/''" by (induction ds) auto
  moreover from this have "concat (map (\<lambda>d. d @ ''/'') ds) = tl (concat (map (\<lambda>c. slash # c) ds)) @ ''/''" if "ds \<noteq> []"
    using that by (cases ds) (auto simp: neq_Nil_conv)
  ultimately show ?thesis by (auto simp: buildUnix_def name_path_def name_of_def abs_path_def)
qed

lemma build_name_of: "cs \<noteq> [] \<Longrightarrow> buildUnix (name_path ab (butlast cs) (last cs)) = name_of ab cs"
  by (cases cs rule: rev_cases) (auto simp: build_name name_snoc name_of_def abs_path_def)

lemma parse_name:
  assumes "good_name ab cs" "cs \<noteq> []"
  shows "parseUnix home (name_of ab cs) = Some (name_path ab (butlast cs) (last cs))"
proof -
  have g: "\<forall>c\<in>set cs. fname c" "cs \<noteq> [] \<Longrightarrow> last (hd cs) \<noteq> colon" using assms(1) by (auto simp: good_name_def good_loc_def)
  then have d: "\<forall>c\<in>set (butlast cs). fname c" "fname (last cs)" using assms(2) by (auto dest: in_set_butlastD)
  then have "normal_dirs ab (butlast cs)"
    by (auto simp: normal_dirs_def plain_def fname_def dest: set_dropWhileD)
  moreover have "hd (butlast cs @ [last cs]) = hd cs" using assms(2) by simp
  moreover have "hd (butlast cs) = hd cs" if "butlast cs \<noteq> []" using that by (cases cs) auto
  ultimately have "unix_path (name_path ab (butlast cs) (last cs))"
    using d g assms by (auto simp: unix_path_def normal_def name_path_def good_name_def fname_def)
  from unix_roundtrip_lemma [OF this] show ?thesis using build_name_of [OF assms(2)] by simp
qed

lemma makeDirectory_name:
  assumes "good_name ab cs" "cs \<noteq> []"
  shows "makeDirectory (name_path ab (butlast cs) (last cs)) = name_path ab cs []"
proof -
  have "fname (last cs)" using good_nameD [OF assms(1)] assms(2) by simp
  then show ?thesis using assms(2) by (simp add: makeDirectory_def pushDirectory_def name_path_def fname_def)
qed

lemma makeParent_name: "good_name ab cs \<Longrightarrow> cs \<noteq> [] \<Longrightarrow> makeParent (name_path ab cs []) = name_path ab (butlast cs) []"
  using good_nameD [of ab cs] last_in_set [of cs] by (auto simp: makeParent_def name_path_def fname_def)

lemma FileImpl_name_dir:
  assumes "good_name ab ds" "ds \<noteq> []" shows "FileImpl (buildUnix (name_path ab ds [])) = name_of ab ds"
  using name_last [OF assms] assms(2) by (simp add: build_name FileImpl_def)

lemma base_app_butlast: "cs \<noteq> [] \<Longrightarrow> butlast (b @ cs) = b @ butlast cs"
  by (simp add: butlast_append)

lemma stat_name:
  assumes "fs_ok s" "good_name ab cs" "cs \<noteq> []" "fs_at s (base_of ab s @ cs) = Some i" "\<not> is_link (i_kind i)"
  shows "sys_stat (name_of ab cs) s = Inr i"
proof -
  have "\<not> linked s (base_of ab s @ cs)" using assms(4,5) by (simp add: linked_def kind_at_def)
  then have "locate True (name_of ab cs) s = Inr (base_of ab s @ cs)"
    using locate_to [OF assms(1) good_nameD [OF assms(2)] assms(3), of ab True] fs_okD(2) [OF assms(1), of "base_of ab s @ cs"] assms(3,4)
    by simp
  then show ?thesis using assms(4) by (simp add: sys_stat_def find_entry_def)
qed

lemma exists_some:
  assumes "fs_ok s" "good_name ab cs" "cs \<noteq> []" "fs_at s (base_of ab s @ cs) = Some i" "\<not> is_link (i_kind i)"
  shows "existsImpl (name_of ab cs) s = Some (Inr True, s)"
  using stat_name [OF assms] name_last [OF assms(2,3)] by (simp add: existsImpl_def asserted_def)

lemma exists_abs:
  assumes "fs_ok s" "good_loc cs" "fs_at s cs = Some i" "\<not> is_link (i_kind i)"
  shows "existsImpl (abs_path cs) s = Some (Inr True, s)"
  using stat_abs [OF assms(1,3,4)] by (simp add: existsImpl_def)

lemma exists_none:
  assumes "fs_ok s" "good_name ab cs" "cs \<noteq> []" "fs_at s (base_of ab s @ cs) = None"
    and "\<And>k. k < length cs \<Longrightarrow> kind_at s (base_of ab s @ take k cs) \<in> {None, Some Directory}"
  shows "existsImpl (name_of ab cs) s = Some (Inr False, s)"
proof -
  let ?L = "base_of ab s @ cs"
  have b: "kind_at s (base_of ab s @ butlast cs) \<in> {None, Some Directory}"
    using assms(5) [of "length cs - 1"] assms(3) by (simp add: butlast_conv_take)
  have nl: "\<not> linked s ?L" using assms(4) by (simp add: linked_def kind_at_def)
  have "locate True (name_of ab cs) s = Inr ?L \<or> locate True (name_of ab cs) s = Inl ENOENT"
  proof (cases "kind_at s (base_of ab s @ butlast cs) = None")
    case True
    show ?thesis using locate_missing [OF assms(1) good_nameD [OF assms(2)] assms(3,5) True] by simp
  next
    case False
    then have "kind_at s (butlast ?L) = Some Directory" using b base_app_butlast [OF assms(3)] by auto
    from locate_to [OF assms(1) good_nameD [OF assms(2)] assms(3) this] nl show ?thesis by simp
  qed
  then have "sys_stat (name_of ab cs) s = Inl ENOENT" using assms(4) by (auto simp: sys_stat_def find_entry_def)
  then show ?thesis using name_last [OF assms(2,3)] by (simp add: existsImpl_def asserted_def)
qed

lemma way_freeD: "way_free s (b @ cs) \<Longrightarrow> k \<le> length cs \<Longrightarrow> kind_at s (b @ take k cs) \<in> {None, Some Directory}"
  unfolding way_free_def by (drule spec [of _ "length b + k"]) simp

lemma under_iff: "lies_under p q \<longleftrightarrow> (\<exists>r. q = p @ r)"
  by (induction p q rule: lies_under.induct) auto

section \<open>Creating directories\<close>

definition same_env :: "fsys \<Rightarrow> fsys \<Rightarrow> bool" where
  "same_env s s' \<longleftrightarrow> s' = s\<lparr>fs_entries := fs_entries s'\<rparr>"

lemma same_env_refl [simp]: "same_env s s"
  by (simp add: same_env_def)

lemma same_env_trans: "same_env s s1 \<Longrightarrow> same_env s1 s2 \<Longrightarrow> same_env s s2"
  by (cases s; cases s1; cases s2) (simp add: same_env_def)

lemma same_env_put: "same_env s s1 \<Longrightarrow> same_env s (fs_put p i s1)"
  by (cases s; cases s1) (simp add: same_env_def fs_put_def)

lemma same_env_del: "same_env s s1 \<Longrightarrow> same_env s (fs_del p s1)"
  by (cases s; cases s1) (simp add: same_env_def fs_del_def)

lemma new_inode_env: "same_env s s1 \<Longrightarrow> new_inode k m s1 = new_inode k m s"
  by (cases s; cases s1) (simp add: same_env_def new_inode_def)

lemma new_inode_kind [simp]: "i_kind (new_inode k m s) = k"
  by (simp add: new_inode_def)

lemma mkdir_name:
  assumes "fs_ok s" "good_name ab cs" "cs \<noteq> []" "kind_at s (butlast (base_of ab s @ cs)) = Some Directory"
    "fs_at s (base_of ab s @ cs) = None"
  shows "sys_mkdir (name_of ab cs) m s = Inr (fs_put (base_of ab s @ cs) (new_inode Directory m s) s)"
  using locate_to [OF assms(1) good_nameD [OF assms(2)] assms(3,4), of False] name_last [OF assms(2,3)] assms(5)
  by (simp add: sys_mkdir_def entry_name_id)

lemma createDirectory_name:
  assumes "fs_ok s" "good_name ab cs" "cs \<noteq> []" "kind_at s (butlast (base_of ab s @ cs)) = Some Directory"
    "fs_at s (base_of ab s @ cs) = None"
  shows "createDirectoryImpl (name_of ab cs) s = Some (Inr True, fs_put (base_of ab s @ cs) (new_inode Directory 0x1FF s) s)"
proof -
  have "kind_at s (base_of ab s @ take k cs) \<in> {None, Some Directory}" if "k < length cs" for k
    using dirs_above [OF assms(1,4), of "length (base_of ab s) + k"] that by simp
  from exists_none [OF assms(1-3,5) this] show ?thesis
    using mkdir_name [OF assms] name_last [OF assms(2,3)] by (simp add: createDirectoryImpl_def asserted_def)
qed

lemma fs_ok_mkdir:
  assumes "fs_ok s" "good_loc cs" "p \<noteq> []" "kind_at s (butlast p) = Some Directory" "p = b @ cs" "\<forall>c\<in>set b. fname c"
  shows "fs_ok (fs_put p (new_inode Directory m s') s)"
  using assms by (intro fs_ok_put) (auto simp: good_loc_def)

definition dirs_added :: "fsys \<Rightarrow> location \<Rightarrow> fsys \<Rightarrow> bool" where
  "dirs_added s cs s' \<longleftrightarrow> fs_ok s' \<and> same_env s s' \<and>
     (\<forall>q. fs_at s' q = (if fs_at s q = None \<and> lies_under q cs then Some (new_inode Directory 0x1FF s) else fs_at s q))"

lemma under_butlast: "cs \<noteq> [] \<Longrightarrow> lies_under q cs \<longleftrightarrow> q = cs \<or> lies_under q (butlast cs)"
proof (cases cs rule: rev_cases)
  case (snoc ds d)
  have "(\<exists>r. ds @ [d] = q @ r) \<longleftrightarrow> q = ds @ [d] \<or> (\<exists>r. ds = q @ r)" (is "?l \<longleftrightarrow> ?r")
  proof
    assume ?l
    then obtain r where r: "ds @ [d] = q @ r" by blast
    then show ?r by (cases r rule: rev_cases) auto
  qed (auto intro: exI [of _ "_ @ [d]"])
  then show ?thesis by (simp add: snoc under_iff)
qed simp

lemma dirs_added_refl:
  assumes "fs_ok s" "fs_at s p \<noteq> None" shows "dirs_added s p s"
proof -
  have "fs_at s q \<noteq> None" if "lies_under q p" for q
  proof -
    from that obtain r where r: "p = q @ r" by (auto simp: under_iff)
    show ?thesis
    proof (cases "r = []")
      case False
      then show ?thesis using dir_prefix [OF assms(1), of q r] r assms(2) by (auto simp: kind_Some)
    qed (use r assms(2) in simp)
  qed
  then show ?thesis using assms by (auto simp: dirs_added_def)
qed

lemma base_of_env: "same_env s s' \<Longrightarrow> base_of ab s' = base_of ab s"
  by (cases s; cases s') (simp add: same_env_def base_of_def)

lemma not_under_butlast: "p \<noteq> [] \<Longrightarrow> \<not> lies_under p (butlast p)"
proof
  assume "p \<noteq> []" "lies_under p (butlast p)"
  then obtain r where r: "butlast p = p @ r" by (auto simp: under_iff)
  then have "length (butlast p) = length p + length r" by simp
  then show False using \<open>p \<noteq> []\<close> unfolding length_butlast by (cases p) simp_all
qed

text \<open>Adding the last directory when those above it have been added.\<close>

lemma dirs_added_step:
  assumes "dirs_added s (butlast p) s1" "p \<noteq> []" "fs_at s p = None" "kind_at s (butlast p) \<in> {None, Some Directory}"
  shows "fs_ok s1" "same_env s s1" "fs_at s1 p = None" "kind_at s1 (butlast p) = Some Directory"
proof -
  show "fs_ok s1" "same_env s s1" "fs_at s1 p = None"
    using assms(1,3) not_under_butlast [OF assms(2)] by (simp_all add: dirs_added_def)
  have "fs_at s1 (butlast p) = (if fs_at s (butlast p) = None then Some (new_inode Directory 0x1FF s) else fs_at s (butlast p))"
    using assms(1) under_iff [of "butlast p" "butlast p"] by (simp add: dirs_added_def)
  then show "kind_at s1 (butlast p) = Some Directory" using assms(4) by (auto simp: kind_at_def split: if_splits)
qed

lemma createDirectories_adds:
  assumes ok: "fs_ok s" and b: "kind_at s (base_of ab s) = Some Directory"
  shows "\<lbrakk>good_name ab cs; cs \<noteq> []; way_free s (base_of ab s @ cs); length cs \<le> n\<rbrakk> \<Longrightarrow>
    \<exists>s'. createDirectories n home (name_of ab cs) s = Some (Inr (), s') \<and> dirs_added s (base_of ab s @ cs) s'"
proof (induction n arbitrary: cs)
  case (Suc n)
  note g = Suc.prems(1) and ne = Suc.prems(2)
  let ?L = "base_of ab s @ cs"
  have L: "?L \<noteq> []" "butlast ?L = base_of ab s @ butlast cs" using ne by (simp_all add: butlast_append)
  show ?case
  proof (cases "fs_at s ?L = None")
    case False
    then obtain i where i: "fs_at s ?L = Some i" by blast
    have "i_kind i = Directory" using way_freeD [OF Suc.prems(3), of "length cs"] i by (auto simp: kind_at_def)
    then show ?thesis using exists_some [OF ok g ne i] dirs_added_refl [OF ok False] by simp
  next
    case True
    let ?p = "name_path ab cs []"
    have way: "kind_at s (base_of ab s @ take k cs) \<in> {None, Some Directory}" if "k < length cs" for k
      using way_freeD [OF Suc.prems(3)] that by simp
    obtain s1 where s1: "dirs_added s (butlast ?L) s1"
      "(if path_depth ?p > 1 then createDirectories n home (FileImpl (buildUnix (makeParent ?p))) else retF ()) s = Some (Inr (), s1)"
    proof (cases "1 < length cs")
      case True
      then have ne1: "butlast cs \<noteq> []" by (cases cs rule: rev_cases) auto
      have gb: "good_name ab (butlast cs)" by (rule good_name_butlast [OF g ne1])
      have "length (butlast cs) \<le> n" using Suc.prems(4) by simp
      moreover have "way_free s (base_of ab s @ butlast cs)" using way_free_butlast [OF Suc.prems(3)] L(2) by simp
      ultimately obtain s1 where
        "createDirectories n home (name_of ab (butlast cs)) s = Some (Inr (), s1)" "dirs_added s (base_of ab s @ butlast cs) s1"
        using Suc.IH [OF gb ne1] by blast
      then show ?thesis using that True L(2) makeParent_name [OF g ne] FileImpl_name_dir [OF gb ne1]
        by (simp add: path_depth_def name_path_def)
    next
      case False
      then have "butlast cs = []" by (cases cs rule: rev_cases) auto
      moreover have "dirs_added s (base_of ab s) s" using dirs_added_refl [OF ok] b by (auto simp: kind_Some)
      ultimately show ?thesis using that [of s] False L(2) by (simp add: path_depth_def name_path_def)
    qed
    have "kind_at s (butlast ?L) \<in> {None, Some Directory}"
      using way [of "length cs - 1"] ne unfolding L(2) by (simp add: butlast_conv_take)
    note a = dirs_added_step [OF s1(1) L(1) True this]
    have base: "base_of ab s1 = base_of ab s" by (rule base_of_env [OF a(2)])
    let ?s = "fs_put ?L (new_inode Directory 0x1FF s1) s1"
    have mk: "createDirectoryImpl (name_of ab cs) s1 = Some (Inr True, ?s)"
      using createDirectory_name [OF a(1) g ne] a(3,4) base by simp
    have "createDirectories (Suc n) home (name_of ab cs) s = Some (Inr (), ?s)"
      using exists_none [OF ok g ne True way] parse_name [OF g ne] makeDirectory_name [OF g ne] s1(2) mk
      by (cases "Suc 0 < path_depth ?p") (simp_all add: Let_def)
    moreover have "fs_ok ?s"
    proof (rule fs_ok_mkdir [OF a(1) _ L(1) a(4) refl])
      show "good_loc cs" using g by (simp add: good_name_def)
      show "\<forall>c\<in>set (base_of ab s). fname c" using fs_okD(3) [OF ok, of "base_of ab s"] b by (auto simp: kind_Some)
    qed
    then have "dirs_added s ?L ?s"
      using s1(1) a(2) True by (auto simp: dirs_added_def new_inode_env [OF a(2)] same_env_put under_butlast [OF L(1)])
    ultimately show ?thesis by blast
  qed
qed simp

section \<open>Listing and removing\<close>

lemma FileImpl_name:
  assumes "fname c" shows "FileImpl (buildUnix (loc_path cs c)) = abs_path (cs @ [c])"
proof -
  have "c \<noteq> []" "slash \<notin> set c" using assms by (auto simp: fname_def)
  moreover from this have "last c \<noteq> slash" using last_in_set [of c] by metis
  ultimately show ?thesis by (cases c) (auto simp: FileImpl_def build_loc abs_path_snoc)
qed

lemma kid_name: "fs_ok s \<Longrightarrow> c \<in> set (kids cs s) \<Longrightarrow> fname c"
  using fs_okD(3) [of s "cs @ [c]"] by (auto simp: kids_set)

lemma iterator_names:
  assumes "fs_ok s" "good_loc cs" "kind_at s cs = Some Directory"
  shows "DirectoryIteratorImpl home (abs_path cs) s = Some (Inr (kids cs s), s)"
proof -
  let ?p = "loc_path (butlast cs) (if cs = [] then [] else last cs)"
  have "makeFile ?p = ?p"
    using good_locD [OF assms(2), of "last cs"] by (auto simp: makeFile_def loc_path_def fname_def)
  then have "buildUnix (makeFile ?p) = abs_path cs" by (simp only: build_abs)
  moreover have "takeWhile (\<lambda>n. n \<noteq> []) (filter (\<lambda>n. n \<noteq> ''.'' \<and> n \<noteq> ''..'') (kids cs s)) = kids cs s"
  proof -
    have "\<forall>n\<in>set (kids cs s). n \<noteq> [] \<and> n \<noteq> ''.'' \<and> n \<noteq> ''..''"
      using kid_name [OF assms(1)] by (auto simp: fname_def)
    then show ?thesis by (simp add: filter_True takeWhile_eq_all_conv)
  qed
  moreover obtain i where "fs_at s cs = Some i" "i_kind i = Directory" using assms(3) by (auto simp: kind_Some)
  ultimately show ?thesis using find_abs [OF assms(1), of cs _ True]
    by (simp add: DirectoryIteratorImpl_def parse_abs [OF assms(2)] ask_def sys_readdir_def)
qed

lemma list_files_abs:
  assumes "fs_ok s" "good_loc cs" "kind_at s cs = Some Directory"
  shows "list_files home (abs_path cs) s = Some (Inr (map (\<lambda>c. abs_path (cs @ [c])) (kids cs s)), s)"
proof -
  have "entry_file (loc_path (butlast cs) (if cs = [] then [] else last cs)) c = abs_path (cs @ [c])"
    if "c \<in> set (kids cs s)" for c
    using FileImpl_name [OF kid_name [OF assms(1) that]] by (simp only: entry_file_def makeDirectory_loc [OF assms(2)] setFileName_loc)
  then show ?thesis using iterator_names [OF assms]
    by (simp add: list_files_def parse_abs [OF assms(2)])
qed

definition tree_removed :: "fsys \<Rightarrow> (location \<Rightarrow> bool) \<Rightarrow> fsys \<Rightarrow> bool" where
  "tree_removed s P s' \<longleftrightarrow> fs_ok s' \<and> same_env s s' \<and> (\<forall>q. fs_at s' q = (if P q then None else fs_at s q))"

definition height_below :: "fsys \<Rightarrow> location \<Rightarrow> nat \<Rightarrow> bool" where
  "height_below s cs n \<longleftrightarrow> (\<forall>q. fs_at s q \<noteq> None \<and> lies_under cs q \<longrightarrow> length q < length cs + n)"

lemma height_kid:
  assumes "height_below s cs (Suc n)" shows "height_below s (cs @ [c]) n"
  using assms by (fastforce simp: height_below_def under_iff)

lemma height_removed: "height_below s cs n \<Longrightarrow> tree_removed s P s' \<Longrightarrow> height_below s' cs n"
  by (auto simp: height_below_def tree_removed_def split: if_splits)

lemma under_kids: "lies_under cs q \<longleftrightarrow> q = cs \<or> (\<exists>c. lies_under (cs @ [c]) q)"
proof -
  have "(\<exists>r. q = cs @ r) \<longleftrightarrow> q = cs \<or> (\<exists>c r. q = cs @ c # r)"
    by (metis append_Nil2 neq_Nil_conv)
  then show ?thesis by (simp add: under_iff)
qed

lemma under_diff: "lies_under (cs @ [c]) q \<Longrightarrow> lies_under (cs @ [d]) q \<Longrightarrow> c = d"
  by (auto simp: under_iff)

lemma each_removes:
  assumes step: "\<And>c s. \<lbrakk>fs_ok s; fs_at s (cs @ [c]) \<noteq> None; height_below s (cs @ [c]) n\<rbrakk> \<Longrightarrow>
      \<exists>s'. rm (abs_path (cs @ [c])) s = Some (Inr (), s') \<and> tree_removed s (lies_under (cs @ [c])) s'"
  shows "\<lbrakk>fs_ok s; \<forall>c\<in>set xs. fs_at s (cs @ [c]) \<noteq> None \<and> height_below s (cs @ [c]) n; distinct xs\<rbrakk> \<Longrightarrow>
    \<exists>s'. each rm (map (\<lambda>c. abs_path (cs @ [c])) xs) s = Some (Inr (), s') \<and>
      tree_removed s (\<lambda>q. \<exists>c\<in>set xs. lies_under (cs @ [c]) q) s'"
proof (induction xs arbitrary: s)
  case Nil
  then show ?case by (simp add: tree_removed_def)
next
  case (Cons x xs)
  then obtain s1 where s1: "rm (abs_path (cs @ [x])) s = Some (Inr (), s1)" "tree_removed s (lies_under (cs @ [x])) s1"
    using step [of s x] by auto
  have "\<forall>c\<in>set xs. fs_at s1 (cs @ [c]) \<noteq> None \<and> height_below s1 (cs @ [c]) n"
  proof
    fix c assume c: "c \<in> set xs"
    then have "\<not> lies_under (cs @ [x]) (cs @ [c])" using Cons.prems(3) by (auto simp: under_iff)
    then show "fs_at s1 (cs @ [c]) \<noteq> None \<and> height_below s1 (cs @ [c]) n"
      using c Cons.prems(2) s1(2) height_removed [OF _ s1(2)] by (auto simp: tree_removed_def)
  qed
  then obtain s2 where "each rm (map (\<lambda>c. abs_path (cs @ [c])) xs) s1 = Some (Inr (), s2)"
    "tree_removed s1 (\<lambda>q. \<exists>c\<in>set xs. lies_under (cs @ [c]) q) s2"
    using Cons.IH [of s1] Cons.prems(3) s1(2) by (auto simp: tree_removed_def)
  then show ?case using s1 by (auto simp: tree_removed_def intro: same_env_trans)
qed

lemma removeImpl_abs:
  assumes "fs_ok s" "good_loc cs" "cs \<noteq> []" "fs_at s cs = Some i" "i_kind i = Directory \<Longrightarrow> kids cs s = []"
  shows "removeImpl (abs_path cs) s = Some (Inr (), fs_del cs s)"
proof -
  have e: "entry_name (abs_path cs) = abs_path cs" using abs_path_last [OF assms(2,3)] by (intro entry_name_id) auto
  note f = find_abs [OF assms(1,4), of False]
  show ?thesis
    using assms(3,5) f isLink_abs [OF assms(1,4)] isDirectory_abs [OF assms(1,4)]
    by (cases "i_kind i") (simp_all add: removeImpl_def call_def sys_rmdir_def sys_unlink_def e)
qed

lemma remove_all_below:
  "\<lbrakk>fs_ok s; good_loc cs; cs \<noteq> []; fs_at s cs \<noteq> None; height_below s cs n\<rbrakk> \<Longrightarrow>
    \<exists>s'. remove_rec n home True (abs_path cs) s = Some (Inr (), s') \<and> tree_removed s (lies_under cs) s'"
proof (induction n arbitrary: cs s)
  case 0
  then show ?case using under_iff [of cs cs] by (auto simp: height_below_def)
next
  case (Suc n)
  note ok = Suc.prems(1) and g = Suc.prems(2) and ne = Suc.prems(3)
  obtain i where i: "fs_at s cs = Some i" using Suc.prems(4) by blast
  have kid: "fs_at s (cs @ c # r) = None" if "i_kind i \<noteq> Directory" for c r
    using dir_prefix [OF ok, of cs "c # r"] that i by (cases "fs_at s (cs @ c # r)") (auto simp: kind_at_def)
  show ?case
  proof (cases "i_kind i = Directory")
    case True
    then have d: "kind_at s cs = Some Directory" using i by (simp add: kind_at_def)
    have "\<exists>s'. remove_rec n home True (abs_path (cs @ [c])) s = Some (Inr (), s') \<and> tree_removed s (lies_under (cs @ [c])) s'"
      if "fs_ok s" "fs_at s (cs @ [c]) \<noteq> None" "height_below s (cs @ [c]) n" for c s
      using Suc.IH [OF that(1) good_snoc [OF g _ ne] _ that(2,3)] fs_okD(3) [OF that(1,2)] by auto
    then obtain s1 where s1: "each (remove_rec n home True) (map (\<lambda>c. abs_path (cs @ [c])) (kids cs s)) s = Some (Inr (), s1)"
      "tree_removed s (\<lambda>q. \<exists>c\<in>set (kids cs s). lies_under (cs @ [c]) q) s1"
      using each_removes [of cs n "remove_rec n home True" s "kids cs s"] ok height_kid [OF Suc.prems(5)] kids_distinct [OF ok]
      by (auto simp: kids_set)
    have ok1: "fs_ok s1" using s1(2) by (simp add: tree_removed_def)
    have at1: "fs_at s1 q = (if lies_under cs q \<and> q \<noteq> cs then None else fs_at s q)" for q
    proof -
      have "\<not> lies_under (cs @ [c]) cs" for c by (auto simp: under_iff)
      moreover have "fs_at s q = None" if "lies_under (cs @ [c]) q" "c \<notin> set (kids cs s)" for c
      proof (rule ccontr)
        assume n: "fs_at s q \<noteq> None"
        from that(1) obtain r where r: "q = (cs @ [c]) @ r" by (auto simp: under_iff)
        have "fs_at s (cs @ [c]) \<noteq> None"
          using n r dir_prefix [OF ok, of "cs @ [c]" r] by (cases "r = []") (auto simp: kind_Some)
        then show False using that(2) by (simp add: kids_set)
      qed
      ultimately show ?thesis using s1(2) under_kids [of cs q] by (auto simp: tree_removed_def)
    qed
    have "fs_at s1 cs = Some i" using at1 i by simp
    moreover have "kids cs s1 = []" using kids_set [of cs s1] by (simp add: at1 under_iff)
    ultimately have "removeImpl (abs_path cs) s1 = Some (Inr (), fs_del cs s1)" using removeImpl_abs [OF ok1 g ne] by simp
    then have "remove_rec (Suc n) home True (abs_path cs) s = Some (Inr (), fs_del cs s1)"
      using s1(1) isLink_abs [OF ok i] isDirectory_abs [OF ok i] True list_files_abs [OF ok g d] by simp
    moreover have "fs_ok (fs_del cs s1)"
      by (rule fs_ok_del [OF ok1 ne]) (metis append_butlast_last_id at1 under_iff append_self_conv not_Cons_self2)
    moreover have "fs_at (fs_del cs s1) q = (if lies_under cs q then None else fs_at s q)" for q
      using at1 [of q] under_iff [of cs cs] by (simp add: fs_at_del [OF ok1])
    moreover have "same_env s (fs_del cs s1)" using s1(2) by (simp add: tree_removed_def same_env_del)
    ultimately show ?thesis by (auto simp: tree_removed_def)
  next
    case False
    have "fs_ok (fs_del cs s)"
      by (rule fs_ok_del [OF ok ne]) (metis append_butlast_last_id kid [OF False] False)
    moreover have "lies_under cs q \<Longrightarrow> q \<noteq> cs \<Longrightarrow> fs_at s q = None" for q
      using kid [OF False] under_kids [of cs q] by (auto simp: under_iff)
    moreover have "remove_rec (Suc n) home True (abs_path cs) s = Some (Inr (), fs_del cs s)"
      using isLink_abs [OF ok i] isDirectory_abs [OF ok i] removeImpl_abs [OF ok g ne i] False
      by (cases "is_link (i_kind i)") simp_all
    ultimately show ?thesis using under_iff [of cs cs]
      by (auto simp: tree_removed_def fs_at_del [OF ok] same_env_del)
  qed
qed

section \<open>Copying\<close>

lemma copy_loop_copies:
  assumes "0 < blk" "sd \<noteq> dd"
  shows "\<lbrakk>fs_ok s; kind_at s sd = Some (Reg xs); kind_at s dd = Some (Reg (take pos xs)); pos \<le> length xs; dd \<noteq> []\<rbrakk> \<Longrightarrow>
    \<exists>s'. copy_loop blk f path sd dd pos s = Some (Inr (), s') \<and> fs_ok s' \<and> same_env s s' \<and>
      kind_at s' dd = Some (Reg xs) \<and> (\<forall>q. q \<noteq> dd \<longrightarrow> fs_at s' q = fs_at s q)"
proof (induction "length xs - pos" arbitrary: pos s rule: less_induct)
  case less
  let ?ys = "take blk (drop pos xs)"
  have r: "sys_read sd pos blk s = Inr ?ys" using less.prems(2) by (simp add: sys_read_def)
  show ?case
  proof (cases "?ys = []")
    case True
    then have "take pos xs = xs" using assms(1) less.prems(4) by simp
    then show ?thesis using r True less.prems by (subst copy_loop.simps) simp
  next
    case False
    obtain i where i: "fs_at s dd = Some i" "i_kind i = Reg (take pos xs)" using less.prems(3) by (auto simp: kind_Some)
    let ?n = "length ?ys"
    have t: "take pos xs @ ?ys = take (pos + ?n) xs" by (simp add: take_add min_def)
    let ?i = "i\<lparr>i_kind := Reg (take (pos + ?n) xs), i_mtime := fs_now s, i_ctime := fs_now s\<rparr>"
    let ?s = "fs_put dd ?i s"
    have w: "sys_write dd pos ?ys s = Inr ?s"
      using i less.prems(4) unfolding t [symmetric] by (simp add: sys_write_def)
    have ok: "fs_ok ?s" using less.prems(1,5) i fs_okD(2,3) [OF less.prems(1), of dd] by (intro fs_ok_put) (auto simp: kind_at_def)
    have n: "length xs - (pos + ?n) < length xs - pos" "pos + ?n \<le> length xs" using False less.prems(4) assms(1) by auto
    from less.hyps [OF n(1) ok _ _ n(2) less.prems(5)] obtain s' where s':
      "copy_loop blk f path sd dd (pos + ?n) ?s = Some (Inr (), s')" "fs_ok s'" "same_env ?s s'"
      "kind_at s' dd = Some (Reg xs)" "\<forall>q. q \<noteq> dd \<longrightarrow> fs_at s' q = fs_at ?s q"
      using less.prems(2) assms(2) by auto
    have "copy_loop blk f path sd dd pos s = Some (Inr (), s')"
      using r w s'(1) False by (subst copy_loop.simps) simp
    moreover have "same_env s s'" using same_env_trans [OF same_env_put [OF same_env_refl] s'(3)] .
    ultimately show ?thesis using s' by auto
  qed
qed

lemma open_trunc_abs:
  assumes "fs_ok s" "good_loc ds" "ds \<noteq> []" "kind_at s (butlast ds) = Some Directory" "kind_at s ds \<noteq> Some Directory"
    "\<not> linked s ds"
  shows "\<exists>i. sys_open_trunc (abs_path ds) m s = Inr (ds, fs_put ds i s) \<and> i_kind i = Reg []"
proof -
  have "locate True (abs_path ds) s = Inr ds" using locate_abs [OF assms(1)] good_locD [OF assms(2)] assms(4,6) by blast
  then show ?thesis using assms(5,6) abs_path_last [OF assms(2,3)]
    by (cases "fs_at s ds") (auto simp: sys_open_trunc_def sys_open_with_def kind_at_def linked_iff split: fkind.splits)
qed

lemma copyToImpl_abs:
  assumes "fs_ok s" "kind_at s cs = Some (Reg xs)" "good_loc ds" "ds \<noteq> []" "0 < blk" "cs \<noteq> ds"
    "kind_at s (butlast ds) = Some Directory" "kind_at s ds \<noteq> Some Directory" "\<not> linked s ds"
  shows "\<exists>s'. copyToImpl blk (abs_path ds) (abs_path cs) s = Some (Inr (), s') \<and> fs_ok s' \<and> same_env s s' \<and>
    kind_at s' ds = Some (Reg xs) \<and> (\<forall>q. q \<noteq> ds \<longrightarrow> fs_at s' q = fs_at s q)"
proof -
  obtain i where i: "fs_at s cs = Some i" using assms(2) by (auto simp: kind_Some)
  obtain j where j: "sys_open_trunc (abs_path ds) (i_mode i AND 0x1C0) s = Inr (ds, fs_put ds j s)" "i_kind j = Reg []"
    using open_trunc_abs [OF assms(1,3,4,7,8,9)] by blast
  have ok: "fs_ok (fs_put ds j s)" using assms(1,4,7,8) good_locD [OF assms(3)] j(2) by (intro fs_ok_put) auto
  obtain s' where s': "copy_loop blk (abs_path cs) (abs_path ds) cs ds 0 (fs_put ds j s) = Some (Inr (), s')" "fs_ok s'"
    "same_env (fs_put ds j s) s'" "kind_at s' ds = Some (Reg xs)" "\<forall>q. q \<noteq> ds \<longrightarrow> fs_at s' q = fs_at (fs_put ds j s) q"
    using copy_loop_copies [OF assms(5,6) ok, of xs 0 "abs_path cs" "abs_path ds"] assms(2,4,6) j(2) by auto
  have "copyToImpl blk (abs_path ds) (abs_path cs) s = Some (Inr (), s')"
    using s'(1) j(1) find_abs [OF assms(1) i, of True] i assms(2)
    by (simp add: kind_at_def copyToImpl_def ask_def sys_open_read_def sys_fstat_def)
  moreover have "same_env s s'" using same_env_trans [OF same_env_put [OF same_env_refl] s'(3)] .
  ultimately show ?thesis using s' by auto
qed

text \<open>No link and no deeper level below a directory that is to be copied.\<close>

definition copyable :: "fsys \<Rightarrow> location \<Rightarrow> nat \<Rightarrow> bool" where
  "copyable s cs n \<longleftrightarrow> height_below s cs n \<and> (\<forall>q. lies_under cs q \<longrightarrow> \<not> linked s q)"

lemma copyable_kid: "copyable s cs (Suc n) \<Longrightarrow> copyable s (cs @ [c]) n"
  using height_kid [of s cs n c] by (auto simp: copyable_def under_iff)

lemma copyable_same:
  assumes "\<And>r. fs_at s' (cs @ r) = fs_at s (cs @ r)" shows "copyable s' cs n = copyable s cs n"
  using assms unfolding copyable_def height_below_def under_iff linked_def kind_at_def by (metis (no_types, lifting))

text \<open>A copy of the tree at \<open>cs\<close> stands at \<open>ts\<close>, everything else is as it was.\<close>

definition tree_copied :: "fsys \<Rightarrow> location \<Rightarrow> location \<Rightarrow> fsys \<Rightarrow> bool" where
  "tree_copied s cs ts s' \<longleftrightarrow> fs_ok s' \<and> same_env s s' \<and> (\<forall>r. kind_at s' (ts @ r) = kind_at s (cs @ r)) \<and>
     (\<forall>q. \<not> lies_under ts q \<longrightarrow> fs_at s' q = fs_at s q)"

definition apart :: "location \<Rightarrow> location \<Rightarrow> bool" where
  "apart cs ts \<longleftrightarrow> \<not> lies_under cs ts \<and> \<not> lies_under ts cs"

lemma apart_no_common: "apart cs ts \<Longrightarrow> \<not> lies_under ts (cs @ r)"
  by (auto simp: apart_def under_iff append_eq_append_conv2)

lemma apart_kids: "apart cs ts \<Longrightarrow> apart (cs @ [c]) (ts @ [c])"
  using apart_no_common [of cs ts "[c] @ _"] apart_no_common [of ts cs "[c] @ _"]
  by (auto simp: apart_def under_iff append_eq_append_conv2)

lemma each_copies:
  assumes step: "\<And>c s. \<lbrakk>fs_ok s; fs_at s (cs @ [c]) \<noteq> None; copyable s (cs @ [c]) n; fs_at s (ts @ [c]) = None;
      kind_at s ts = Some Directory\<rbrakk> \<Longrightarrow>
      \<exists>s'. cp (abs_path (cs @ [c])) s = Some (Inr (), s') \<and> tree_copied s (cs @ [c]) (ts @ [c]) s'"
    and ap: "apart cs ts"
  shows "\<lbrakk>fs_ok s; distinct xs; kind_at s ts = Some Directory;
      \<forall>c\<in>set xs. fs_at s (cs @ [c]) \<noteq> None \<and> copyable s (cs @ [c]) n \<and> fs_at s (ts @ [c]) = None\<rbrakk> \<Longrightarrow>
    \<exists>s'. each cp (map (\<lambda>c. abs_path (cs @ [c])) xs) s = Some (Inr (), s') \<and> fs_ok s' \<and> same_env s s' \<and>
      (\<forall>c\<in>set xs. \<forall>r. kind_at s' (ts @ c # r) = kind_at s (cs @ c # r)) \<and>
      (\<forall>q. (\<forall>c\<in>set xs. \<not> lies_under (ts @ [c]) q) \<longrightarrow> fs_at s' q = fs_at s q)"
proof (induction xs arbitrary: s)
  case (Cons x xs)
  then obtain s1 where s1: "cp (abs_path (cs @ [x])) s = Some (Inr (), s1)" "tree_copied s (cs @ [x]) (ts @ [x]) s1"
    using step [of s x] by auto
  have ok1: "fs_ok s1" "same_env s s1" using s1(2) by (simp_all add: tree_copied_def)
  have new: "kind_at s1 (ts @ x # r) = kind_at s (cs @ x # r)" for r
  proof -
    have "kind_at s1 ((ts @ [x]) @ r) = kind_at s ((cs @ [x]) @ r)" using s1(2) unfolding tree_copied_def by blast
    then show ?thesis by simp
  qed
  have keep: "fs_at s1 q = fs_at s q" if "\<not> lies_under (ts @ [x]) q" for q using s1(2) that by (simp add: tree_copied_def)
  have src: "fs_at s1 (cs @ r) = fs_at s (cs @ r)" for r
    using apart_no_common [OF ap, of r] by (intro keep) (auto simp: under_iff)
  have ts: "kind_at s1 ts = Some Directory" using keep [of ts] Cons.prems(3) by (auto simp: under_iff kind_at_def)
  have "\<forall>c\<in>set xs. fs_at s1 (cs @ [c]) \<noteq> None \<and> copyable s1 (cs @ [c]) n \<and> fs_at s1 (ts @ [c]) = None"
  proof
    fix c assume c: "c \<in> set xs"
    then have "\<not> lies_under (ts @ [x]) (ts @ [c])" using Cons.prems(2) by (auto simp: under_iff)
    moreover have "copyable s1 (cs @ [c]) n \<longleftrightarrow> copyable s (cs @ [c]) n"
      using src [of "c # _"] by (intro copyable_same) simp
    ultimately show "fs_at s1 (cs @ [c]) \<noteq> None \<and> copyable s1 (cs @ [c]) n \<and> fs_at s1 (ts @ [c]) = None"
      using c Cons.prems(4) keep src by simp
  qed
  then obtain s2 where s2: "each cp (map (\<lambda>c. abs_path (cs @ [c])) xs) s1 = Some (Inr (), s2)" "fs_ok s2" "same_env s1 s2"
    "\<forall>c\<in>set xs. \<forall>r. kind_at s2 (ts @ c # r) = kind_at s1 (cs @ c # r)"
    "\<forall>q. (\<forall>c\<in>set xs. \<not> lies_under (ts @ [c]) q) \<longrightarrow> fs_at s2 q = fs_at s1 q"
    using Cons.IH [OF ok1(1) _ ts] Cons.prems(2) by auto
  have "kind_at s2 (ts @ x # r) = kind_at s (cs @ x # r)" for r
  proof -
    have "\<forall>c\<in>set xs. \<not> lies_under (ts @ [c]) (ts @ x # r)" using Cons.prems(2) by (auto simp: under_iff)
    then have "kind_at s2 (ts @ x # r) = kind_at s1 (ts @ x # r)" using s2(5) by (simp add: kind_at_def)
    then show ?thesis using new by simp
  qed
  moreover have "kind_at s1 (cs @ c # r) = kind_at s (cs @ c # r)" for c r using src by (simp add: kind_at_def)
  ultimately show ?case using s1(1) s2 keep same_env_trans [OF ok1(2) s2(3)] by auto
qed simp

lemma length_abs_path: "length cs \<le> length (abs_path cs)"
proof -
  have "length cs \<le> length (concat (map (\<lambda>c. slash # c) cs))" by (induction cs) auto
  then show ?thesis by (simp add: abs_path_def)
qed

text \<open>The name given for a target: the target's own, or that of the directory it goes to.\<close>

definition names_target :: "string \<Rightarrow> location \<Rightarrow> location \<Rightarrow> bool" where
  "names_target path ts cs \<longleftrightarrow> path = abs_path ts \<or> path = abs_path (butlast ts) \<and> last ts = last cs"

lemma copyTo_target:
  assumes ok: "fs_ok s" and g: "good_loc cs" "cs \<noteq> []" "good_loc ts" "ts \<noteq> []"
    and i: "fs_at s cs = Some i" "fs_at s ts = None" "kind_at s (butlast ts) = Some Directory" "\<not> is_link (i_kind i)"
    and p: "names_target path ts cs"
  shows "copyTo (Suc n) blk home path (abs_path cs) s =
    (if i_kind i = Directory then copyDirectory home (copyTo n blk home) (abs_path ts) (abs_path cs) s
     else copyToImpl blk (abs_path ts) (abs_path cs) s)"
proof -
  note src = parse_abs [OF g(1), of home] and fn = good_locD [OF g(3)]
  have nm: "last ts \<noteq> []" using fn [of "last ts"] g(4) by (simp add: fname_def)
  have tgt: "buildUnix (loc_path (butlast ts) (last ts)) = abs_path ts" using build_abs [of ts] g(4) by simp
  have none: "existsImpl (abs_path ts) s = Some (Inr False, s)"
    using exists_none [OF ok, of True ts] g(3,4) i(2) dirs_above [OF ok i(3)] by simp
  show ?thesis
  proof (cases "path = abs_path ts")
    case True
    then show ?thesis
      using src g i(2) parse_abs [OF g(3), of home] none isDirectory_abs [OF ok i(1,4)] nm tgt
      by (simp add: path_isDirectory_def Let_def)
  next
    case False
    then have q: "path = abs_path (butlast ts)" "last ts = last cs" using p by (simp_all add: names_target_def)
    obtain j where j: "fs_at s (butlast ts) = Some j" "i_kind j = Directory" using i(3) by (auto simp: kind_Some)
    have gb: "good_loc (butlast ts)" by (rule good_butlast [OF g(3)])
    obtain p0 where p0: "parseUnix home (abs_path (butlast ts)) = Some p0" "makeDirectory p0 = loc_path (butlast ts) []"
      using parse_abs [OF gb] makeDirectory_loc [OF gb] by blast
    have f: "FileImpl (abs_path (butlast ts)) = abs_path (butlast ts)" by (rule FileImpl_abs [OF gb])
    show ?thesis
      using src g q p0 exists_abs [OF ok gb j(1)] isDirectory_abs [OF ok j(1)] isDirectory_abs [OF ok i(1,4)] j tgt
      by (simp add: f Let_def)
  qed
qed

lemma no_children: "fs_ok s \<Longrightarrow> fs_at s p = None \<Longrightarrow> fs_at s (p @ r) = None"
  using dir_prefix [of s p r] by (cases "r = []"; cases "fs_at s (p @ r)") (auto simp: kind_at_def)

lemma new_dir_entry:
  assumes "dirs_added s ts s1" "fs_ok s" "ts \<noteq> []" "fs_at s ts = None" "kind_at s (butlast ts) = Some Directory"
  shows "fs_at s1 q = (if q = ts then Some (new_inode Directory 0x1FF s) else fs_at s q)"
proof -
  have "fs_at s q \<noteq> None" if u: "lies_under q (butlast ts)"
  proof (cases "q = butlast ts")
    case False
    obtain r where r: "butlast ts = q @ r" using u by (auto simp: under_iff)
    then have "r \<noteq> []" using False by auto
    with r show ?thesis using dir_prefix [OF assms(2), of q r] assms(5) by (auto simp: kind_Some)
  qed (use assms(5) in \<open>auto simp: kind_Some\<close>)
  then show ?thesis using assms(1,4) under_butlast [OF assms(3), of q] by (auto simp: dirs_added_def)
qed

lemma copy_tree:
  assumes blk: "0 < blk"
  shows "\<lbrakk>fs_ok s; good_loc cs; cs \<noteq> []; good_loc ts; ts \<noteq> []; fs_at s cs \<noteq> None; fs_at s ts = None;
      kind_at s (butlast ts) = Some Directory; apart cs ts; copyable s cs n; names_target path ts cs\<rbrakk> \<Longrightarrow>
    \<exists>s'. copyTo n blk home path (abs_path cs) s = Some (Inr (), s') \<and> tree_copied s cs ts s'"
proof (induction n arbitrary: cs ts path s)
  case 0
  then show ?case using under_iff [of cs cs] by (auto simp: copyable_def height_below_def)
next
  case (Suc n)
  note ok = Suc.prems(1) and g = Suc.prems(2-5) and ap = Suc.prems(9)
  obtain i where i: "fs_at s cs = Some i" using Suc.prems(6) by blast
  have nl: "\<not> is_link (i_kind i)"
    using Suc.prems(10) i under_iff [of cs cs] by (auto simp: copyable_def linked_def kind_at_def)
  note start = copyTo_target [OF ok g i Suc.prems(7,8) nl Suc.prems(11), of n blk home]
  note none = no_children [OF ok Suc.prems(7)]
  show ?case
  proof (cases "i_kind i")
    case (Reg xs)
    have "cs \<noteq> ts" using i Suc.prems(7) by auto
    obtain s' where s': "copyToImpl blk (abs_path ts) (abs_path cs) s = Some (Inr (), s')" "fs_ok s'" "same_env s s'"
      "kind_at s' ts = Some (Reg xs)" "\<forall>q. q \<noteq> ts \<longrightarrow> fs_at s' q = fs_at s q"
      using copyToImpl_abs [OF ok _ g(3,4) blk \<open>cs \<noteq> ts\<close> Suc.prems(8)] i Reg Suc.prems(7) by (auto simp: kind_at_def linked_iff)
    have "kind_at s' (ts @ r) = kind_at s (cs @ r)" for r
    proof (cases "r = []")
      case True
      then show ?thesis using s'(4) i Reg by (simp add: kind_at_def)
    next
      case False
      have "fs_at s (cs @ r) = None" using dir_prefix [OF ok, of cs r] False i Reg by (cases "fs_at s (cs @ r)") (auto simp: kind_at_def)
      then show ?thesis using s'(5) none [of r] False by (simp add: kind_at_def)
    qed
    moreover have "q \<noteq> ts" if "\<not> lies_under ts q" for q using that under_iff [of ts ts] by auto
    ultimately have "tree_copied s cs ts s'" using s' by (auto simp: tree_copied_def)
    then show ?thesis using start s'(1) Reg by auto
  next
    case Directory
    have way: "way_free s ts"
      using dirs_above [OF ok Suc.prems(8)] Suc.prems(7) by (auto simp: way_free_def kind_at_def le_less)
    obtain s1 where s1: "createDirectories (Suc (length (abs_path ts))) home (abs_path ts) s = Some (Inr (), s1)" "dirs_added s ts s1"
      using createDirectories_adds [OF ok, of True ts "Suc (length (abs_path ts))" home] fs_okD(1) [OF ok] g(3,4) way length_abs_path [of ts] by auto
    note at1 = new_dir_entry [OF s1(2) ok g(4) Suc.prems(7,8)]
    have ok1: "fs_ok s1" "same_env s s1" using s1(2) by (simp_all add: dirs_added_def)
    have src1: "fs_at s1 (cs @ r) = fs_at s (cs @ r)" for r
      using at1 apart_no_common [OF ap, of r] under_iff [of ts ts] by auto
    have dir1: "kind_at s1 cs = Some Directory" using src1 [of "[]"] i Directory by (simp add: kind_at_def)
    let ?ks = "kids cs s1"
    have it: "DirectoryIterator_path home (makeFile (loc_path (butlast cs) (last cs))) s1 =
        Some (Inr (map (\<lambda>c. abs_path (cs @ [c])) ?ks), s1)"
    proof -
      have f: "makeFile (loc_path (butlast cs) (last cs)) = loc_path (butlast cs) (last cs)"
        using good_locD [OF g(1), of "last cs"] g(2) by (intro makeFile_loc(2)) (auto simp: fname_def)
      have b: "buildUnix (loc_path (butlast cs) (last cs)) = abs_path cs" using build_abs [of cs] g(2) by simp
      have "entry_file (loc_path (butlast cs) (last cs)) c = abs_path (cs @ [c])" if "c \<in> set ?ks" for c
        using FileImpl_name [OF kid_name [OF ok1(1) that]] makeDirectory_loc [OF g(1)] g(2) by (simp add: entry_file_def)
      then show ?thesis using iterator_names [OF ok1(1) g(1) dir1] f b by (simp add: DirectoryIterator_path_def)
    qed
    have step: "\<exists>s'. copyTo n blk home (abs_path ts) (abs_path (cs @ [c])) s = Some (Inr (), s') \<and> tree_copied s (cs @ [c]) (ts @ [c]) s'"
      if "fs_ok s" "fs_at s (cs @ [c]) \<noteq> None" "copyable s (cs @ [c]) n" "fs_at s (ts @ [c]) = None" "kind_at s ts = Some Directory" for c s
    proof -
      have "fname c" using fs_okD(3) [OF that(1,2)] by simp
      then show ?thesis
        using Suc.IH [OF that(1) good_snoc [OF g(1) _ g(2)] _ good_snoc [OF g(3) _ g(4)] _ that(2,4) _ apart_kids [OF ap] that(3), of "abs_path ts"]
          that(5) by (simp add: names_target_def)
    qed
    have pre: "\<forall>c\<in>set ?ks. fs_at s1 (cs @ [c]) \<noteq> None \<and> copyable s1 (cs @ [c]) n \<and> fs_at s1 (ts @ [c]) = None"
    proof
      fix c assume "c \<in> set ?ks"
      moreover have "copyable s1 cs (Suc n)" using Suc.prems(10) copyable_same [OF src1] by simp
      ultimately show "fs_at s1 (cs @ [c]) \<noteq> None \<and> copyable s1 (cs @ [c]) n \<and> fs_at s1 (ts @ [c]) = None"
        using copyable_kid none [of "[c]"] at1 by (simp add: kids_set)
    qed
    have tdir: "kind_at s1 ts = Some Directory" using at1 by (simp add: kind_at_def)
    obtain s2 where s2: "each (copyTo n blk home (abs_path ts)) (map (\<lambda>c. abs_path (cs @ [c])) ?ks) s1 = Some (Inr (), s2)"
      "fs_ok s2" "same_env s1 s2" "\<forall>c\<in>set ?ks. \<forall>r. kind_at s2 (ts @ c # r) = kind_at s1 (cs @ c # r)"
      "\<forall>q. (\<forall>c\<in>set ?ks. \<not> lies_under (ts @ [c]) q) \<longrightarrow> fs_at s2 q = fs_at s1 q"
      using each_copies [OF step ap ok1(1) kids_distinct [OF ok1(1)] tdir pre] by blast
    have "kind_at s2 (ts @ r) = kind_at s (cs @ r)" for r
    proof (cases r)
      case Nil
      then show ?thesis using s2(5) at1 i Directory by (auto simp: kind_at_def under_iff)
    next
      case (Cons c q)
      show ?thesis
      proof (cases "c \<in> set ?ks")
        case True
        then show ?thesis using Cons s2(4) src1 [of "c # q"] by (simp add: kind_at_def)
      next
        case False
        then have "fs_at s1 (cs @ [c]) = None" by (simp add: kids_set)
        then have "fs_at s (cs @ c # q) = None" using no_children [OF ok, of "cs @ [c]" q] src1 [of "[c]"] by simp
        moreover have "\<forall>d\<in>set ?ks. \<not> lies_under (ts @ [d]) (ts @ c # q)" using False by (auto simp: under_iff)
        then have "fs_at s2 (ts @ c # q) = None" using s2(5) at1 none [of "c # q"] by simp
        ultimately show ?thesis using Cons by (simp add: kind_at_def)
      qed
    qed
    moreover have "fs_at s2 q = fs_at s q" if "\<not> lies_under ts q" for q
      using that s2(5) at1 under_kids [of ts q] by auto
    ultimately have "tree_copied s cs ts s2" using s2(2) same_env_trans [OF ok1(2) s2(3)] by (simp add: tree_copied_def)
    moreover have "copyDirectory home (copyTo n blk home) (abs_path ts) (abs_path cs) s = Some (Inr (), s2)"
      using s1(1) it s2(1) parse_abs [OF g(1), of home] g(2) FileImpl_abs [OF g(3)] by (simp add: copyDirectory_def)
    ultimately show ?thesis using start Directory by auto
  qed (use nl in simp)
qed

lemma height_exists: "\<exists>N. \<forall>n\<ge>N. height_below s cs n"
proof -
  let ?L = "set (map fst (fs_entries s))"
  have "length q \<le> Max (length ` ?L)" if "fs_at s q \<noteq> None" for q
    using that dom_entries [of q s] by (intro Max_ge) auto
  then have "\<forall>n\<ge>Suc (Max (length ` ?L)). height_below s cs n" by (fastforce simp: height_below_def)
  then show ?thesis by blast
qed

lemma removed_kind: "tree_removed s P s' \<Longrightarrow> kind_at s' q = (if P q then None else kind_at s q)"
  by (simp add: tree_removed_def kind_at_def)

lemma singleton_list: "distinct xs \<Longrightarrow> set xs = {c} \<Longrightarrow> xs = [c]"
  by (cases xs; cases "tl xs") auto

section \<open>Properties\<close>

text \<open>
  C26: For a name without empty, \<open>.\<close> and \<open>..\<close> components, absolute or relative to an existing current directory
  (whose first component does not end in a colon and, in a relative name, is not a tilde), when no file
  and no link is on the way and the system refuses nothing for permissions or space: \<^verbatim>\<open>createDirectories\<close>
  returns, has created exactly the missing directories on the way to the given one, and has left
  everything else as it was. (Failures of \<^verbatim>\<open>mkdir\<close> are only printed.)
\<close>

theorem create_directories:
  assumes "fs_ok s" "good_name absolute cs" "cs \<noteq> []" "kind_at s (base_of absolute s) = Some Directory"
    and "way_free s (base_of absolute s @ cs)"
  shows "\<exists>s'. createDirectories (length cs) home (name_of absolute cs) s = Some (Inr (), s') \<and> fs_ok s' \<and>
    (\<forall>q. fs_at s' q =
      (if fs_at s q = None \<and> lies_under q (base_of absolute s @ cs) then Some (new_inode Directory 0x1FF s) else fs_at s q))"
  using createDirectories_adds [OF assms(1,4,2,3,5), of "length cs" home] by (auto simp: dirs_added_def)

definition ex_fs :: fsys where
  "ex_fs = \<lparr>fs_entries = [([], \<lparr>i_kind = Directory, i_mode = 0x1ED, i_uid = 0, i_gid = 0, i_mtime = 0, i_ctime = 0\<rparr>),
      ([''a''], \<lparr>i_kind = Directory, i_mode = 0x1ED, i_uid = 7, i_gid = 7, i_mtime = 0, i_ctime = 0\<rparr>),
      ([''a'', ''x''], \<lparr>i_kind = Reg [1, 2, 3], i_mode = 0x1A4, i_uid = 7, i_gid = 7, i_mtime = 0, i_ctime = 0\<rparr>),
      ([''k''], \<lparr>i_kind = Directory, i_mode = 0x1ED, i_uid = 7, i_gid = 7, i_mtime = 0, i_ctime = 0\<rparr>),
      ([''k'', ''l''], \<lparr>i_kind = Link ''/a'', i_mode = 0x1FF, i_uid = 7, i_gid = 7, i_mtime = 0, i_ctime = 0\<rparr>)],
    fs_cwd = [], fs_euid = 7, fs_egid = 7, fs_umask = 0x12, fs_now = 0\<rparr>"

lemma ex_fs_ok: "fs_ok ex_fs" "way_free ex_fs [''a'', ''b'', ''c'']"
  by (auto simp: ex_fs_def fs_ok_def kind_at_def fname_def way_free_def less_Suc_eq_le [symmetric] take_Cons')

lemma ex_good: "good_loc [''a'']" "good_loc [''b'']" "good_loc [''a'', ''x'']" "good_loc [''a'', ''b'', ''c'']"
  by (simp_all add: good_loc_def fname_def)

theorem create_directories_witness:
  "\<exists>s'. createDirectories 3 [] ''/a/b/c'' ex_fs = Some (Inr (), s') \<and> kind_at s' [''a'', ''b''] = Some Directory"
proof -
  have g: "good_name True [''a'', ''b'', ''c'']" "way_free ex_fs (base_of True ex_fs @ [''a'', ''b'', ''c''])"
    "kind_at ex_fs (base_of True ex_fs) = Some Directory"
    using ex_good(4) ex_fs_ok(2) fs_okD(1) [OF ex_fs_ok(1)] by simp_all
  obtain s' where "createDirectories 3 [] ''/a/b/c'' ex_fs = Some (Inr (), s')"
    "\<forall>q. fs_at s' q = (if fs_at ex_fs q = None \<and> lies_under q [''a'', ''b'', ''c'']
      then Some (new_inode Directory 0x1FF ex_fs) else fs_at ex_fs q)"
    using create_directories [OF ex_fs_ok(1) g(1) _ g(3,2), of "[]"] by (auto simp: abs_path_def numeral_3_eq_3)
  then show ?thesis by (auto simp: kind_at_def ex_fs_def)
qed

text \<open>
  C27: Recursive removal of a file, directory or symbolic link given by an absolute name (without empty, \<open>.\<close>
  and \<open>..\<close> components, without links on the way, the first component not ending in a colon) ends whatever
  is below it, if the system refuses nothing for permissions: with enough recursion depth it returns without an
  error, and exactly what was named and all that was below it is gone. Links are removed and not followed:
  what they lead to stays.
\<close>

theorem remove_terminates:
  assumes "fs_ok s" "good_loc cs" "cs \<noteq> []" "fs_at s cs \<noteq> None"
  shows "\<exists>N. \<forall>n\<ge>N. \<exists>s'. remove_rec n home True (abs_path cs) s = Some (Inr (), s') \<and> fs_ok s' \<and>
    (\<forall>q. fs_at s' q = (if lies_under cs q then None else fs_at s q))"
proof -
  obtain N where "\<forall>n\<ge>N. height_below s cs n" using height_exists by blast
  then show ?thesis using remove_all_below [OF assms] by (fastforce simp: tree_removed_def)
qed

theorem remove_terminates_witness:
  "\<exists>N. \<forall>n\<ge>N. \<exists>s'. remove_rec n [] True ''/k'' ex_fs = Some (Inr (), s') \<and> fs_at s' [''k'', ''l''] = None \<and>
     kind_at s' [''a'', ''x''] = Some (Reg [1, 2, 3])"
proof -
  have g: "good_loc [''k'']" by (simp add: good_loc_def fname_def)
  have "\<exists>N. \<forall>n\<ge>N. \<exists>s'. remove_rec n [] True (abs_path [''k'']) ex_fs = Some (Inr (), s') \<and> fs_ok s' \<and>
    (\<forall>q. fs_at s' q = (if lies_under [''k''] q then None else fs_at ex_fs q))"
    by (rule remove_terminates [OF ex_fs_ok(1) g]) (simp_all add: ex_fs_def)
  moreover have "abs_path [''k''] = ''/k''" "lies_under [''k''] [''k'', ''l'']" "\<not> lies_under [''k''] [''a'', ''x'']"
    "kind_at ex_fs [''a'', ''x''] = Some (Reg [1, 2, 3])" by (simp_all add: abs_path_def ex_fs_def kind_at_def)
  ultimately show ?thesis by (metis kind_at_def)
qed

text \<open>
  C28: Moving a regular file or a directory with no symbolic link below it, both names absolute (without
  empty, \<open>.\<close> and \<open>..\<close> components, the first component not ending in a colon), to a free name in an existing
  directory outside of it ends, if the system refuses nothing for permissions or space: everything below it,
  with its contents, is then found below the new name, nothing is left of the old one, and all other files are
  untouched. (To a name inside of it it need not end: \<open>copy_into_itself\<close>; permissions and times are those of new files.)
\<close>

theorem move_moves:
  assumes "fs_ok s" "good_loc cs" "cs \<noteq> []" "good_loc ts" "ts \<noteq> []" "fs_at s cs \<noteq> None" "fs_at s ts = None"
    and "kind_at s (butlast ts) = Some Directory" "\<not> lies_under cs ts" "0 < blk" "\<And>r. \<not> linked s (cs @ r)"
  shows "\<exists>N. \<forall>n\<ge>N. \<exists>s'. moveTo n blk home (abs_path ts) (abs_path cs) s = Some (Inr (abs_path ts), s') \<and> fs_ok s' \<and>
    (\<forall>r. kind_at s' (ts @ r) = kind_at s (cs @ r) \<and> kind_at s' (cs @ r) = None) \<and>
    (\<forall>q. \<not> lies_under ts q \<and> \<not> lies_under cs q \<longrightarrow> fs_at s' q = fs_at s q)"
proof -
  have ap: "apart cs ts"
    using assms(6,7,9) no_children [OF assms(1), of ts] by (auto simp: apart_def under_iff)
  obtain N where N: "\<forall>n\<ge>N. height_below s cs n" using height_exists by blast
  have "\<exists>s'. moveTo n blk home (abs_path ts) (abs_path cs) s = Some (Inr (abs_path ts), s') \<and> fs_ok s' \<and>
      (\<forall>r. kind_at s' (ts @ r) = kind_at s (cs @ r) \<and> kind_at s' (cs @ r) = None) \<and>
      (\<forall>q. \<not> lies_under ts q \<and> \<not> lies_under cs q \<longrightarrow> fs_at s' q = fs_at s q)" if n: "N \<le> n" for n
  proof -
    have h: "height_below s cs n" using N n by blast
    obtain s1 where s1: "copyTo n blk home (abs_path ts) (abs_path cs) s = Some (Inr (), s1)" "tree_copied s cs ts s1"
      using copy_tree [OF assms(10,1-8) ap, of n "abs_path ts" home] h assms(11)
      by (auto simp: names_target_def copyable_def under_iff)
    have keep: "fs_at s1 q = fs_at s q" if "\<not> lies_under ts q" for q using s1(2) that by (simp add: tree_copied_def)
    have src: "fs_at s1 (cs @ r) = fs_at s (cs @ r)" for r using keep apart_no_common [OF ap] by blast
    have "height_below s1 cs n" using h src unfolding height_below_def under_iff by fastforce
    then obtain s2 where s2: "remove_rec n home True (abs_path cs) s1 = Some (Inr (), s2)" "tree_removed s1 (lies_under cs) s2"
      using remove_all_below [of s1 cs n home] assms(2,3,6) src [of "[]"] s1(2) by (auto simp: tree_copied_def)
    have "kind_at s2 (ts @ r) = kind_at s (cs @ r)" for r
    proof -
      have "\<not> lies_under cs (ts @ r)" using ap apart_no_common [of ts cs r] by (auto simp: apart_def)
      then show ?thesis using s1(2) removed_kind [OF s2(2)] by (simp add: tree_copied_def)
    qed
    moreover have "kind_at s2 (cs @ r) = None" for r using removed_kind [OF s2(2)] by (simp add: under_iff)
    ultimately show ?thesis using s1(1) s2 keep FileImpl_abs [OF assms(4)] by (auto simp: moveTo_def tree_removed_def)
  qed
  then show ?thesis by blast
qed

theorem move_moves_witness:
  "\<exists>N. \<forall>n\<ge>N. \<exists>s'. moveTo n 2 [] ''/b'' ''/a'' ex_fs = Some (Inr ''/b'', s') \<and>
     kind_at s' [''b'', ''x''] = Some (Reg [1, 2, 3]) \<and> kind_at s' [''a'', ''x''] = None"
proof -
  have "\<exists>N. \<forall>n\<ge>N. \<exists>s'. moveTo n 2 [] (abs_path [''b'']) (abs_path [''a'']) ex_fs = Some (Inr (abs_path [''b'']), s') \<and>
    fs_ok s' \<and> (\<forall>r. kind_at s' ([''b''] @ r) = kind_at ex_fs ([''a''] @ r) \<and> kind_at s' ([''a''] @ r) = None) \<and>
    (\<forall>q. \<not> lies_under [''b''] q \<and> \<not> lies_under [''a''] q \<longrightarrow> fs_at s' q = fs_at ex_fs q)"
    by (rule move_moves [OF ex_fs_ok(1) ex_good(1) _ ex_good(2)]) (simp_all add: ex_fs_def kind_at_def linked_def)
  moreover have "abs_path [''a''] = ''/a''" "abs_path [''b''] = ''/b''" "kind_at ex_fs [''a'', ''x''] = Some (Reg [1, 2, 3])"
    by (simp_all add: abs_path_def ex_fs_def kind_at_def)
  ultimately show ?thesis by (metis append_Cons append_Nil)
qed

text \<open>
  C38: Moving a file to its own name destroys it: opening the copy truncates the source, and the source
  is removed afterwards.
\<close>

theorem move_onto_itself:
  assumes "fs_ok s" "good_loc cs" "cs \<noteq> []" "kind_at s cs = Some (Reg xs)"
  shows "\<exists>s'. moveTo (Suc n) blk home (abs_path cs) (abs_path cs) s = Some (Inr (abs_path cs), s') \<and> fs_at s' cs = None"
proof -
  obtain i where i: "fs_at s cs = Some i" "i_kind i = Reg xs" using assms(4) by (auto simp: kind_Some)
  have par: "kind_at s (butlast cs) = Some Directory" using fs_okD(2) [OF assms(1)] i assms(3) by simp
  obtain j where j: "sys_open_trunc (abs_path cs) (i_mode i AND 0x1C0) s = Inr (cs, fs_put cs j s)" "i_kind j = Reg []"
    using open_trunc_abs [OF assms(1-3) par] assms(4) by (auto simp: linked_iff)
  let ?s = "fs_put cs j s"
  have ok: "fs_ok ?s" using assms(1,4) par good_locD [OF assms(2)] j(2) by (intro fs_ok_put) auto
  have "copy_loop blk (abs_path cs) (abs_path cs) cs cs 0 ?s = Some (Inr (), ?s)"
    using j(2) by (subst copy_loop.simps) (simp add: sys_read_def)
  then have "copyToImpl blk (abs_path cs) (abs_path cs) s = Some (Inr (), ?s)"
    using j(1) find_abs [OF assms(1) i(1), of True] i by (simp add: copyToImpl_def ask_def sys_open_read_def sys_fstat_def)
  moreover have "last cs \<noteq> []" using good_locD [OF assms(2), of "last cs"] assms(3) by (simp add: fname_def)
  moreover have "buildUnix (loc_path (butlast cs) (last cs)) = abs_path cs" using build_abs [of cs] assms(3) by simp
  ultimately have "copyTo (Suc n) blk home (abs_path cs) (abs_path cs) s = Some (Inr (), ?s)"
    using parse_abs [OF assms(2), of home] exists_abs [OF assms(1,2) i(1)] isDirectory_abs [OF assms(1) i(1)] i assms(2,3)
    by (simp add: path_isDirectory_def Let_def)
  moreover have "remove_rec (Suc n) home True (abs_path cs) ?s = Some (Inr (), fs_del cs ?s)"
    using isLink_abs [OF ok, of cs j] isDirectory_abs [OF ok, of cs j] removeImpl_abs [OF ok assms(2,3), of j] j(2) by simp
  ultimately have "moveTo (Suc n) blk home (abs_path cs) (abs_path cs) s = Some (Inr (abs_path cs), fs_del cs ?s)"
    using assms(2) unfolding moveTo_def by simp
  then show ?thesis using fs_at_del [OF ok, of cs cs] by auto
qed

theorem move_onto_itself_witness:
  "\<exists>s'. moveTo 1 512 [] ''/a/x'' ''/a/x'' ex_fs = Some (Inr ''/a/x'', s') \<and> fs_at s' [''a'', ''x''] = None"
proof -
  have "\<exists>s'. moveTo (Suc 0) 512 [] (abs_path [''a'', ''x'']) (abs_path [''a'', ''x'']) ex_fs =
      Some (Inr (abs_path [''a'', ''x'']), s') \<and> fs_at s' [''a'', ''x''] = None"
    by (rule move_onto_itself [OF ex_fs_ok(1) ex_good(3), of "[1, 2, 3]"]) (simp_all add: ex_fs_def kind_at_def)
  then show ?thesis by (simp add: abs_path_def)
qed

text \<open>
  Copying an empty directory to a new name inside of it never comes to an end: at every depth the
  directory just created is found as an entry to be copied into itself.
\<close>

theorem copy_into_itself:
  assumes "fs_ok s" "good_loc cs" "cs \<noteq> []" "kind_at s cs = Some Directory" "kids cs s = []" "fname c"
  shows "copyTo n blk home (abs_path (cs @ [c])) (abs_path cs) s = None"
proof -
  have "copyTo n blk home path (abs_path cs) s = None"
    if "fs_ok s" "good_loc cs" "cs \<noteq> []" "kind_at s cs = Some Directory" "kids cs s = []" "fname c"
      "names_target path (cs @ [c]) cs" for s cs c path
    using that
  proof (induction n arbitrary: s cs c path)
    case (Suc n)
    note ok = Suc.prems(1) and g = Suc.prems(2) and ne = Suc.prems(3)
    let ?ts = "cs @ [c]"
    have gt: "good_loc ?ts" by (rule good_snoc [OF g Suc.prems(6) ne])
    obtain i where i: "fs_at s cs = Some i" "i_kind i = Directory" using Suc.prems(4) by (auto simp: kind_Some)
    have none: "fs_at s ?ts = None" using Suc.prems(5) kids_set [of cs s] by auto
    have way: "way_free s ?ts"
    proof -
      have "kind_at s (take k cs) = Some Directory" if "k \<le> length cs" for k
        using dir_prefix [OF ok, of "take k cs" "drop k cs"] Suc.prems(4) i that by (cases "drop k cs = []") auto
      then show ?thesis using none by (auto simp: way_free_def kind_at_def le_Suc_eq)
    qed
    obtain s1 where s1: "createDirectories (Suc (length (abs_path ?ts))) home (abs_path ?ts) s = Some (Inr (), s1)" "dirs_added s ?ts s1"
      using createDirectories_adds [OF ok, of True ?ts "Suc (length (abs_path ?ts))" home] fs_okD(1) [OF ok] gt way length_abs_path [of ?ts] by auto
    have at1: "fs_at s1 q = (if q = ?ts then Some (new_inode Directory 0x1FF s) else fs_at s q)" for q
      using new_dir_entry [OF s1(2) ok _ none] Suc.prems(4) by simp
    have ok1: "fs_ok s1" using s1(2) by (simp add: dirs_added_def)
    have "set (kids cs s1) = {c}" using at1 kids_set [of cs s] Suc.prems(5) by (auto simp: kids_set)
    with kids_distinct [OF ok1, of cs] have k: "kids cs s1 = [c]" by (rule singleton_list)
    have "fs_at s (?ts @ [d]) = None" for d by (rule no_children [OF ok none])
    then have k2: "kids ?ts s1 = []" using at1 kids_set [of ?ts s1] by auto
    have nt: "names_target (abs_path ?ts) (?ts @ [c]) ?ts" unfolding names_target_def butlast_snoc last_snoc by blast
    have "copyTo n blk home (abs_path ?ts) (abs_path ?ts) s1 = None"
      using Suc.IH [OF ok1 gt _ _ k2 Suc.prems(6) nt] at1 by (simp add: kind_at_def)
    moreover have "DirectoryIterator_path home (makeFile (loc_path (butlast cs) (last cs))) s1 = Some (Inr [abs_path ?ts], s1)"
    proof -
      have f: "makeFile (loc_path (butlast cs) (last cs)) = loc_path (butlast cs) (last cs)"
        using good_locD [OF g, of "last cs"] ne by (intro makeFile_loc(2)) (auto simp: fname_def)
      have b: "buildUnix (loc_path (butlast cs) (last cs)) = abs_path cs" using build_abs [of cs] ne by simp
      have "entry_file (loc_path (butlast cs) (last cs)) c = abs_path ?ts"
        using FileImpl_name [OF Suc.prems(6)] makeDirectory_loc [OF g] ne by (simp add: entry_file_def)
      moreover have "kind_at s1 cs = Some Directory" using at1 i by (simp add: kind_at_def)
      ultimately show ?thesis using iterator_names [OF ok1 g] f b k by (simp add: DirectoryIterator_path_def)
    qed
    ultimately have "copyDirectory home (copyTo n blk home) (abs_path ?ts) (abs_path cs) s = None"
      using s1(1) parse_abs [OF g, of home] ne FileImpl_abs [OF gt] by (simp add: copyDirectory_def)
    then show ?case
      using copyTo_target [OF ok g ne gt _ i(1) none _ _ Suc.prems(7), of n blk home] Suc.prems(4) i(2) by simp
  qed simp
  from this [OF assms] show ?thesis by (simp add: names_target_def)
qed

theorem copy_into_itself_witness:
  "copyTo 1000 512 [] ''/a/b'' ''/a'' (fs_del [''a'', ''x''] ex_fs) = None"
proof -
  have "copyTo 1000 512 [] (abs_path ([''a''] @ [''b''])) (abs_path [''a'']) (fs_del [''a'', ''x''] ex_fs) = None"
    by (rule copy_into_itself [OF fs_ok_del [OF ex_fs_ok(1)] ex_good(1)])
      (auto simp: ex_fs_def fs_del_def kind_at_def kids_def fname_def split: if_splits)
  then show ?thesis by (simp add: abs_path_def)
qed

section \<open>Permissions\<close>

lemma find_put:
  assumes "fs_ok s" "fs_at s cs = Some i" "\<not> is_link (i_kind i)" "i_kind j = i_kind i"
  shows "sys_stat (abs_path cs) (fs_put cs j s) = Inr j"
proof (rule stat_abs)
  show "fs_ok (fs_put cs j s)" using assms fs_okD(2,3) [OF assms(1), of cs] by (intro fs_ok_put) (auto simp: kind_at_def)
qed (use assms(3,4) in simp_all)

lemma mask_bits:
  "(m OR 0x80 :: u32) AND 0x80 \<noteq> 0" "(m OR 0x80 :: u32) AND 0x10 = m AND 0x10" "(m OR 0x80 :: u32) AND 2 = m AND 2"
  "(m AND NOT (0x80 OR 0x10 OR 2) :: u32) AND 0x80 = 0" "(m AND NOT (0x80 OR 0x10 OR 2) :: u32) AND 0x10 = 0"
  "(m AND NOT (0x80 OR 0x10 OR 2) :: u32) AND 2 = 0"
proof -
  have "(m OR 0x80) AND 0x80 = (0x80 :: u32)" by (simp add: bit.conj_disj_distrib2 and.assoc and.commute and.left_commute)
  then show "(m OR 0x80 :: u32) AND 0x80 \<noteq> 0" by simp
  show "(m OR 0x80 :: u32) AND 0x10 = m AND 0x10" "(m OR 0x80 :: u32) AND 2 = m AND 2"
    by (simp_all add: bit.conj_disj_distrib2)
  show "(m AND NOT (0x80 OR 0x10 OR 2) :: u32) AND 0x80 = 0" "(m AND NOT (0x80 OR 0x10 OR 2) :: u32) AND 0x10 = 0"
    "(m AND NOT (0x80 OR 0x10 OR 2) :: u32) AND 2 = 0"
    by (simp_all add: and.assoc)
qed

text \<open>
  After \<^verbatim>\<open>setReadOnly\<close> only the superuser can write the file; after \<^verbatim>\<open>setWriteable\<close> its owner can,
  and others as before.
\<close>

theorem write_permission:
  assumes "fs_ok s" "fs_at s cs = Some i" "\<not> is_link (i_kind i)"
  shows "\<exists>s'. setWriteableImpl flag (abs_path cs) s = Some (Inr (), s') \<and>
    canWriteImpl (abs_path cs) s' = Some (Inr
      (fs_euid s = 0 \<or> flag \<and> (i_uid i = fs_euid s \<or> permitted True 0x80 0x10 2 i s)), s')"
proof -
  let ?m = "if flag then i_mode i OR 0x80 else i_mode i AND NOT (0x80 OR 0x10 OR 2)"
  let ?i = "i\<lparr>i_mode := ?m, i_ctime := fs_now s\<rparr>"
  let ?s = "fs_put cs ?i s"
  have "setWriteableImpl flag (abs_path cs) s = Some (Inr (), ?s)"
    using stat_abs [OF assms] find_abs [OF assms(1,2), of True] assms(3) by (simp add: setWriteableImpl_def ask_def call_def sys_chmod_def)
  moreover have "sys_stat (abs_path cs) ?s = Inr ?i" using find_put [OF assms, of ?i] by simp
  moreover have "fs_euid ?s = fs_euid s" "fs_egid ?s = fs_egid s" by (simp_all add: fs_put_def)
  moreover have "permitted True 0x80 0x10 2 ?i ?s = (fs_euid s = 0 \<or> flag \<and> (i_uid i = fs_euid s \<or> permitted True 0x80 0x10 2 i s))"
    using calculation(3,4) mask_bits [of "i_mode i"] by (simp add: permitted_def)
  ultimately show ?thesis by (intro exI [of _ ?s]) (simp add: canWriteImpl_def ask_def)
qed

end
