(* ===== verification/Log_Files.thy ===== *)
theory Log_Files
  imports Files Time_Util Number_Format
begin

text \<open>
  \<^verbatim>\<open>Server/Log.cpp\<close> (and its copy in \<^verbatim>\<open>Client/\<close>): one log file for each level and day, on the file
  system of theory Posix_Fs. The C library's \<^verbatim>\<open>FILE\<close> opened for appending is the location of its
  file; the message is the text that \<^verbatim>\<open>vfprintf\<close> makes of the format and its arguments, and the
  time and the distance of the time zone from UTC are arguments.
\<close>

section \<open>The logger\<close>

record logger =
  m_LogLev :: u8
  m_LogDir :: string
  m_ErrorFile :: "location option"
  m_WarnFile :: "location option"
  m_DebugFile :: "location option"
  m_InfoFile :: "location option"
  m_TraceFile :: "location option"
  m_aTm :: "tm list"

definition APP_ERROR :: u8 where "APP_ERROR = 1"
definition APP_WARN :: u8 where "APP_WARN = 2"
definition APP_DEBUG :: u8 where "APP_DEBUG = 3"
definition APP_INFO :: u8 where "APP_INFO = 4"
definition APP_TRACE :: u8 where "APP_TRACE = 5"

lemmas levels = APP_ERROR_def APP_WARN_def APP_DEBUG_def APP_INFO_def APP_TRACE_def

text \<open>The member that \<^verbatim>\<open>fileHandler[lev]\<close> points to.\<close>

definition handler :: "u8 \<Rightarrow> logger \<Rightarrow> location option" where
  "handler lev l =
     (if lev = APP_ERROR then m_ErrorFile l else if lev = APP_WARN then m_WarnFile l
      else if lev = APP_DEBUG then m_DebugFile l else if lev = APP_INFO then m_InfoFile l else m_TraceFile l)"

definition set_handler :: "u8 \<Rightarrow> location option \<Rightarrow> logger \<Rightarrow> logger" where
  "set_handler lev f l =
     (if lev = APP_ERROR then l\<lparr>m_ErrorFile := f\<rparr> else if lev = APP_WARN then l\<lparr>m_WarnFile := f\<rparr>
      else if lev = APP_DEBUG then l\<lparr>m_DebugFile := f\<rparr> else if lev = APP_INFO then l\<lparr>m_InfoFile := f\<rparr>
      else l\<lparr>m_TraceFile := f\<rparr>)"

definition PreName :: "string list" where
  "PreName = [[], ''ERROR'', ''WARN'', ''DEBUG'', ''INFO'', ''TRACE'']"

text \<open>\<^verbatim>\<open>snprintf\<close> into a buffer of 32 characters.\<close>

definition log_date :: "tm \<Rightarrow> string" where
  "log_date t = take 31 (fmt_0d 4 (tm_year t + 1900) @ fmt_0d 2 (tm_mon t + 1) @ fmt_0d 2 (tm_mday t))"

definition log_name :: "u8 \<Rightarrow> tm \<Rightarrow> string" where
  "log_name lev t = PreName ! unat lev @ log_date t"

definition fopen_append :: "string \<Rightarrow> fsys \<Rightarrow> location option \<times> fsys" where
  "fopen_append path s =
     (case sys_open_append path 0x1B6 s of Inl _ \<Rightarrow> (None, s) | Inr (p, s1) \<Rightarrow> (Some p, s1))"

definition GetFileHandler :: "u8 \<Rightarrow> tm \<Rightarrow> logger \<Rightarrow> fsys \<Rightarrow> location option \<times> logger \<times> fsys" where
  "GetFileHandler lev aTm l s =
     (if lev < APP_ERROR \<or> lev > APP_TRACE then (None, l, s)
      else
        (let old = m_aTm l ! unat lev
         in if tm_mday aTm \<noteq> tm_mday old \<or> tm_mon aTm \<noteq> tm_mon old \<or> tm_year aTm \<noteq> tm_year old \<or> handler lev l = None
            then
              (let l1 = l\<lparr>m_aTm := (m_aTm l)[unat lev := aTm]\<rparr>;
                   (f, s1) = fopen_append (m_LogDir l @ log_name lev aTm) s
               in (f, set_handler lev f l1, s1))
            else (handler lev l, l, s)))"

text \<open>Writing at the end of the file and flushing.\<close>

definition text_bytes :: "string \<Rightarrow> u8 list" where
  "text_bytes txt = map (\<lambda>c. of_char c) txt"

definition fputs :: "location \<Rightarrow> string \<Rightarrow> fsys \<Rightarrow> fsys" where
  "fputs p txt s =
     (case kind_at s p of
        Some (Reg xs) \<Rightarrow> (case sys_write p (length xs) (text_bytes txt) s of Inl _ \<Rightarrow> s | Inr s1 \<Rightarrow> s1)
      | _ \<Rightarrow> s)"

definition log_stamp :: "tm \<Rightarrow> string" where
  "log_stamp t =
     take 1023 (''['' @ fmt_0d 2 (tm_hour t) @ '':'' @ fmt_0d 2 (tm_min t) @ '':'' @ fmt_0d 2 (tm_sec t) @ ''] : '')"

definition OutLog :: "u8 \<Rightarrow> string \<Rightarrow> int \<Rightarrow> int \<Rightarrow> logger \<times> fsys \<Rightarrow> logger \<times> fsys" where
  "OutLog lev msg off t = (\<lambda>(l, s).
     (let aTm = localtime_r off t;
          (f, l1, s1) = GetFileHandler lev aTm l s
      in case f of None \<Rightarrow> (l1, s1) | Some p \<Rightarrow> (l1, fputs p msg (fputs p (log_stamp aTm) s1))))"

definition OutError :: "string \<Rightarrow> int \<Rightarrow> int \<Rightarrow> logger \<times> fsys \<Rightarrow> logger \<times> fsys" where
  "OutError = OutLog APP_ERROR"

definition OutWarn :: "string \<Rightarrow> int \<Rightarrow> int \<Rightarrow> logger \<times> fsys \<Rightarrow> logger \<times> fsys" where
  "OutWarn = OutLog APP_WARN"

definition OutDebug :: "string \<Rightarrow> int \<Rightarrow> int \<Rightarrow> logger \<times> fsys \<Rightarrow> logger \<times> fsys" where
  "OutDebug = OutLog APP_DEBUG"

definition OutInfo :: "string \<Rightarrow> int \<Rightarrow> int \<Rightarrow> logger \<times> fsys \<Rightarrow> logger \<times> fsys" where
  "OutInfo = OutLog APP_INFO"

definition OutTrace :: "string \<Rightarrow> int \<Rightarrow> int \<Rightarrow> logger \<times> fsys \<Rightarrow> logger \<times> fsys" where
  "OutTrace = OutLog APP_TRACE"

definition FlushLog :: "u8 \<Rightarrow> tm \<Rightarrow> string \<Rightarrow> logger \<times> fsys \<Rightarrow> logger \<times> fsys" where
  "FlushLog lev aTm buffer = (\<lambda>(l, s).
     (let (f, l1, s1) = GetFileHandler lev aTm l s
      in case f of None \<Rightarrow> (l1, s1) | Some p \<Rightarrow> (l1, fputs p buffer s1)))"

definition Log :: "u8 \<Rightarrow> string \<Rightarrow> string \<Rightarrow> int \<Rightarrow> int \<Rightarrow> logger fio" where
  "Log lev home dir off t =
     bindF (createDirectories (Suc (length dir)) home (FileImpl dir)) (\<lambda>_.
       retF \<lparr>m_LogLev = lev, m_LogDir = dir, m_ErrorFile = None, m_WarnFile = None, m_DebugFile = None,
              m_InfoFile = None, m_TraceFile = None, m_aTm = replicate 16 (localtime_r off t)\<rparr>)"

section \<open>Contents\<close>

definition file_content :: "fsys \<Rightarrow> location \<Rightarrow> u8 list" where
  "file_content s q = (case kind_at s q of Some (Reg xs) \<Rightarrow> xs | _ \<Rightarrow> [])"

lemma fputs_append:
  assumes "fs_ok s" "kind_at s p = Some (Reg xs)"
  shows "fs_ok (fputs p txt s)" "kind_at (fputs p txt s) q = (if q = p then Some (Reg (xs @ text_bytes txt)) else kind_at s q)"
proof -
  obtain i where i: "fs_at s p = Some i" "i_kind i = Reg xs" using assms(2) by (auto simp: kind_Some)
  let ?i = "i\<lparr>i_kind := Reg (xs @ text_bytes txt), i_mtime := fs_now s, i_ctime := fs_now s\<rparr>"
  have e: "fputs p txt s = fs_put p ?i s" using i assms(2) by (simp add: fputs_def sys_write_def)
  show "fs_ok (fputs p txt s)" unfolding e using assms fs_okD(2,3) [OF assms(1), of p] i by (intro fs_ok_put) auto
  show "kind_at (fputs p txt s) q = (if q = p then Some (Reg (xs @ text_bytes txt)) else kind_at s q)" unfolding e by simp
qed

section \<open>Names\<close>

lemma fmt_0d_chars: "c \<in> set (fmt_0d w i) \<Longrightarrow> c = CHR ''-'' \<or> (\<exists>d<10. c = digit_char d)"
  using all_digits [of c "w - length (sign_text i) - length (dec (nat \<bar>i\<bar>))" "nat \<bar>i\<bar>"]
  by (auto simp: fmt_0d_def pad_to_def sign_text_def split: if_splits)

definition log_level :: "u8 \<Rightarrow> bool" where
  "log_level lev \<longleftrightarrow> \<not> (lev < APP_ERROR \<or> lev > APP_TRACE)"

lemma log_level_cases: "log_level lev \<Longrightarrow> lev = 1 \<or> lev = 2 \<or> lev = 3 \<or> lev = 4 \<or> lev = 5"
proof -
  assume "log_level lev"
  then have "1 \<le> unat lev" "unat lev \<le> 5" by (auto simp: log_level_def levels word_less_nat_alt)
  then have "unat lev = 1 \<or> unat lev = 2 \<or> unat lev = 3 \<or> unat lev = 4 \<or> unat lev = 5" by linarith
  then show ?thesis by (auto dest!: arg_cong [where f = "of_nat :: nat \<Rightarrow> u8"])
qed

lemma log_name_good:
  assumes "log_level lev" shows "fname (log_name lev t)"
proof -
  have s: "slash \<notin> set (log_date t)"
    using fmt_0d_chars digit_char_neq(1) by (fastforce simp: log_date_def dest!: in_set_takeD)
  have "PreName ! unat lev \<in> set (tl PreName)"
    using log_level_cases [OF assms] by (auto simp: PreName_def)
  then show ?thesis using s by (auto simp: log_name_def fname_def PreName_def)
qed

lemma log_name_cong:
  "tm_mday a = tm_mday b \<Longrightarrow> tm_mon a = tm_mon b \<Longrightarrow> tm_year a = tm_year b \<Longrightarrow> log_name lev a = log_name lev b"
  by (simp add: log_name_def log_date_def)

section \<open>The open files\<close>

text \<open>\<open>D\<close> is the location of the directory, whose name \<open>ds\<close> may be absolute or relative.\<close>

definition file_or_none :: "fsys \<Rightarrow> location \<Rightarrow> bool" where
  "file_or_none s p \<longleftrightarrow> kind_at s p = None \<or> (\<exists>xs. kind_at s p = Some (Reg xs))"

definition log_ok :: "bool \<Rightarrow> location \<Rightarrow> location \<Rightarrow> logger \<Rightarrow> fsys \<Rightarrow> bool" where
  "log_ok ab ds D l s \<longleftrightarrow> fs_ok s \<and> good_name ab ds \<and> ds \<noteq> [] \<and> D = base_of ab s @ ds \<and> kind_at s D = Some Directory \<and>
     m_LogDir l = name_of ab ds @ ''/'' \<and> length (m_aTm l) = 16 \<and>
     (\<forall>n. file_or_none s (D @ [n])) \<and>
     (\<forall>lev p. log_level lev \<longrightarrow> handler lev l = Some p \<longrightarrow>
        p = D @ [log_name lev (m_aTm l ! unat lev)] \<and> (\<exists>xs. kind_at s p = Some (Reg xs)))"

lemma base_of_put [simp]: "base_of ab (fs_put p i s) = base_of ab s"
  by (simp add: base_of_def fs_put_def)

lemma fs_ok_cwd: "fs_ok (s\<lparr>fs_cwd := c\<rparr>) = fs_ok s"
  by (simp add: fs_ok_def kind_at_def)

lemma base_of_fputs [simp]: "base_of ab (fputs p txt s) = base_of ab s"
  by (simp add: fputs_def sys_write_def split: option.splits fkind.splits sum.splits)

lemma handler_set:
  assumes "log_level lev" "log_level lev'"
  shows "handler lev' (set_handler lev f l) = (if lev' = lev then f else handler lev' l)"
  using log_level_cases [OF assms(1)] log_level_cases [OF assms(2)]
  by (elim disjE) (simp_all add: handler_def set_handler_def levels)

lemma set_handler_other [simp]: "m_LogDir (set_handler lev f l) = m_LogDir l" "m_aTm (set_handler lev f l) = m_aTm l"
  by (simp_all add: set_handler_def)

lemma handler_aTm [simp]: "handler lev (l\<lparr>m_aTm := x\<rparr>) = handler lev l"
  by (simp add: handler_def)

lemma fopen_log:
  assumes "fs_ok s" "good_name ab ds" "ds \<noteq> []" "kind_at s (base_of ab s @ ds) = Some Directory"
    "file_or_none s (base_of ab s @ ds @ [n])" "fname n"
  shows "\<exists>s1. fopen_append (name_of ab ds @ ''/'' @ n) s = (Some (base_of ab s @ ds @ [n]), s1) \<and> fs_ok s1 \<and>
    base_of ab s1 = base_of ab s \<and>
    (\<exists>xs. kind_at s1 (base_of ab s @ ds @ [n]) = Some (Reg xs)) \<and>
    (\<forall>q. q \<noteq> base_of ab s @ ds @ [n] \<longrightarrow> kind_at s1 q = kind_at s q) \<and> file_content s1 = file_content s"
proof -
  let ?L = "base_of ab s @ ds @ [n]"
  have p: "name_of ab ds @ ''/'' @ n = name_of ab (ds @ [n])" using name_snoc [OF assms(3)] by simp
  have g: "good_name ab (ds @ [n])" by (rule good_name_snoc [OF assms(2,6,3)])
  have b: "butlast ?L = base_of ab s @ ds" by (simp add: butlast_append)
  have nl: "\<not> linked s ?L" using assms(5) by (auto simp: linked_iff file_or_none_def)
  have l: "locate True (name_of ab (ds @ [n])) s = Inr ?L"
    using locate_to [OF assms(1) good_nameD [OF g], of ab True] assms(4) b nl by simp
  have names: "\<forall>c\<in>set ?L. fname c"
    using fs_okD(3) [OF assms(1), of "base_of ab s @ ds"] assms(4,6) by (auto simp: kind_Some)
  show ?thesis
  proof (cases "fs_at s ?L")
    case None
    let ?s = "fs_put ?L (new_inode (Reg []) 0x1B6 s) s"
    have "fs_ok ?s" using assms(1,4) names b None by (intro fs_ok_put) (auto simp: kind_at_def)
    moreover have "fopen_append (name_of ab (ds @ [n])) s = (Some ?L, ?s)"
      using l None name_last [OF g] by (simp add: fopen_append_def sys_open_append_def sys_open_with_def)
    moreover have "file_content ?s = file_content s"
      using None by (intro ext) (simp add: file_content_def kind_at_def)
    ultimately show ?thesis unfolding p by (intro exI [of _ ?s]) simp
  next
    case (Some i)
    then obtain xs where xs: "i_kind i = Reg xs" using assms(5) by (auto simp: kind_at_def file_or_none_def)
    let ?s = "fs_put ?L i s"
    have k: "kind_at ?s q = kind_at s q" for q using Some by (simp add: kind_at_def)
    have "fs_ok ?s" using assms(1,4) names b Some xs by (intro fs_ok_put) (auto simp: kind_at_def)
    moreover have "fopen_append (name_of ab (ds @ [n])) s = (Some ?L, ?s)"
      using l Some xs by (simp add: fopen_append_def sys_open_append_def sys_open_with_def)
    moreover have "\<exists>xs. kind_at ?s ?L = Some (Reg xs)" using xs by simp
    moreover have "file_content ?s = file_content s" by (intro ext) (simp only: file_content_def k)
    ultimately show ?thesis unfolding p using k by (intro exI [of _ ?s]) simp
  qed
qed

lemma GetFileHandler_ok:
  assumes "log_ok ab ds D l s" "log_level lev"
  shows "\<exists>l1 s1 xs. GetFileHandler lev aTm l s = (Some (D @ [log_name lev aTm]), l1, s1) \<and> log_ok ab ds D l1 s1 \<and>
    kind_at s1 (D @ [log_name lev aTm]) = Some (Reg xs) \<and> file_content s1 = file_content s"
proof -
  have in5: "unat lev < 16" using log_level_cases [OF assms(2)] by auto
  let ?old = "m_aTm l ! unat lev"
  show ?thesis
  proof (cases "tm_mday aTm \<noteq> tm_mday ?old \<or> tm_mon aTm \<noteq> tm_mon ?old \<or> tm_year aTm \<noteq> tm_year ?old \<or> handler lev l = None")
    case True
    let ?n = "log_name lev aTm"
    have D: "D = base_of ab s @ ds" using assms(1) by (simp add: log_ok_def)
    obtain s1 where s1: "fopen_append (name_of ab ds @ ''/'' @ ?n) s = (Some (D @ [?n]), s1)" "fs_ok s1"
      "\<exists>xs. kind_at s1 (D @ [?n]) = Some (Reg xs)" "\<forall>q. q \<noteq> D @ [?n] \<longrightarrow> kind_at s1 q = kind_at s q"
      "file_content s1 = file_content s" "base_of ab s1 = base_of ab s"
      using fopen_log [of s ab ds ?n] assms log_name_good [OF assms(2)] D by (auto simp: log_ok_def)
    let ?l = "set_handler lev (Some (D @ [?n])) (l\<lparr>m_aTm := (m_aTm l)[unat lev := aTm]\<rparr>)"
    have "GetFileHandler lev aTm l s = (Some (D @ [?n]), ?l, s1)"
      using True s1(1) assms by (simp add: GetFileHandler_def log_level_def log_ok_def Let_def)
    moreover have "log_ok ab ds D ?l s1"
    proof -
      have "p = D @ [log_name lev' (m_aTm ?l ! unat lev')] \<and> (\<exists>xs. kind_at s1 p = Some (Reg xs))"
        if "log_level lev'" "handler lev' ?l = Some p" for lev' p
      proof (cases "lev' = lev")
        case True
        then show ?thesis using that assms s1(3) in5 by (simp add: handler_set log_ok_def)
      next
        case False
        then have "unat lev' \<noteq> unat lev" by (simp add: word_unat_eq_iff)
        moreover have "handler lev' l = Some p" using that False assms(2) by (simp add: handler_set)
        ultimately show ?thesis using assms(1) that(1) s1(3,4) False by (cases "p = D @ [?n]") (auto simp: log_ok_def)
      qed
      moreover have "file_or_none s1 (D @ [m])" for m
        using assms(1) s1(3,4) by (cases "m = ?n") (auto simp: log_ok_def file_or_none_def)
      ultimately show ?thesis using assms s1(2-4,6) in5 by (auto simp: log_ok_def)
    qed
    ultimately show ?thesis using s1(3,5) by blast
  next
    case False
    then obtain p where p: "handler lev l = Some p" by blast
    have "p = D @ [log_name lev ?old]" "\<exists>xs. kind_at s p = Some (Reg xs)"
      using assms p by (auto simp: log_ok_def)
    moreover have "log_name lev ?old = log_name lev aTm" using False by (intro log_name_cong) auto
    moreover have "GetFileHandler lev aTm l s = (Some p, l, s)"
      using False p assms(2) by (simp add: GetFileHandler_def log_level_def Let_def)
    ultimately show ?thesis using assms(1) by auto
  qed
qed

lemma log_ok_fputs:
  assumes "log_ok ab ds D l s" "kind_at s p = Some (Reg xs)" shows "log_ok ab ds D l (fputs p txt s)"
  using assms fputs_append(1) [of s p xs "txt"] fputs_append(2) [of s p xs "txt"]
  by (auto simp: log_ok_def file_or_none_def)

lemma content_fputs:
  assumes "fs_ok s" "kind_at s p = Some (Reg xs)"
  shows "file_content (fputs p txt s) q = file_content s q @ (if q = p then text_bytes txt else [])"
  using fputs_append(2) [OF assms] assms(2) by (simp add: file_content_def)

lemma OutLog_appends:
  assumes "log_ok ab ds D l s"
  shows "\<exists>l1 s1. OutLog lev msg off t (l, s) = (l1, s1) \<and> log_ok ab ds D l1 s1 \<and>
    (\<forall>q. file_content s1 q = file_content s q @
      (if log_level lev \<and> q = D @ [log_name lev (localtime_r off t)]
       then text_bytes (log_stamp (localtime_r off t) @ msg) else []))"
proof (cases "log_level lev")
  case True
  let ?t = "localtime_r off t" let ?p = "D @ [log_name lev ?t]"
  obtain l1 s1 xs where g: "GetFileHandler lev ?t l s = (Some ?p, l1, s1)" "log_ok ab ds D l1 s1"
    "kind_at s1 ?p = Some (Reg xs)" "file_content s1 = file_content s"
    using GetFileHandler_ok [OF assms True] by blast
  have ok: "fs_ok s1" using g(2) by (simp add: log_ok_def)
  let ?s2 = "fputs ?p (log_stamp ?t) s1"
  note k2 = fputs_append [OF ok g(3), of "log_stamp ?t"]
  have k3: "kind_at ?s2 ?p = Some (Reg (xs @ text_bytes (log_stamp ?t)))" using k2(2) by simp
  have "OutLog lev msg off t (l, s) = (l1, fputs ?p msg ?s2)" using g(1) by (simp add: OutLog_def Let_def)
  moreover have "log_ok ab ds D l1 (fputs ?p msg ?s2)" by (rule log_ok_fputs [OF log_ok_fputs [OF g(2,3)] k3])
  moreover have "file_content (fputs ?p msg ?s2) q = file_content s q @
      (if q = ?p then text_bytes (log_stamp ?t @ msg) else [])" for q
    using content_fputs [OF k2(1) k3, of msg q] content_fputs [OF ok g(3), of "log_stamp ?t" q] g(4)
    by (simp add: text_bytes_def)
  ultimately show ?thesis using True by auto
next
  case False
  then have "OutLog lev msg off t (l, s) = (l, s)" by (simp add: OutLog_def GetFileHandler_def log_level_def Let_def)
  then show ?thesis using assms False by simp
qed

text \<open>A sequence of log messages: level, text and time.\<close>

type_synonym log_call = "u8 \<times> string \<times> int"

fun out_logs :: "int \<Rightarrow> log_call list \<Rightarrow> logger \<times> fsys \<Rightarrow> logger \<times> fsys" where
  "out_logs off [] ls = ls"
| "out_logs off ((lev, msg, t) # cs) ls = out_logs off cs (OutLog lev msg off t ls)"

text \<open>What a sequence of messages contributes to the file \<open>n\<close>.\<close>

definition log_text :: "int \<Rightarrow> string \<Rightarrow> log_call list \<Rightarrow> u8 list" where
  "log_text off n cs =
     concat (map (\<lambda>(lev, msg, t). text_bytes (log_stamp (localtime_r off t) @ msg))
       (filter (\<lambda>(lev, msg, t). APP_ERROR \<le> lev \<and> lev \<le> APP_TRACE \<and> n = log_name lev (localtime_r off t)) cs))"

lemma out_logs_append:
  "log_ok ab ds D l s \<Longrightarrow> \<exists>l1 s1. out_logs off cs (l, s) = (l1, s1) \<and> log_ok ab ds D l1 s1 \<and>
    (\<forall>n. file_content s1 (D @ [n]) = file_content s (D @ [n]) @ log_text off n cs) \<and>
    (\<forall>q. (\<forall>n. q \<noteq> D @ [n]) \<longrightarrow> file_content s1 q = file_content s q)"
proof (induction cs arbitrary: l s)
  case (Cons c cs)
  obtain lev msg t where c: "c = (lev, msg, t)" by (cases c)
  obtain l1 s1 where 1: "OutLog lev msg off t (l, s) = (l1, s1)" "log_ok ab ds D l1 s1"
    "\<forall>q. file_content s1 q = file_content s q @ (if log_level lev \<and> q = D @ [log_name lev (localtime_r off t)]
       then text_bytes (log_stamp (localtime_r off t) @ msg) else [])"
    using OutLog_appends [OF Cons.prems] by blast
  obtain l2 s2 where 2: "out_logs off cs (l1, s1) = (l2, s2)" "log_ok ab ds D l2 s2"
    "\<forall>n. file_content s2 (D @ [n]) = file_content s1 (D @ [n]) @ log_text off n cs"
    "\<forall>q. (\<forall>n. q \<noteq> D @ [n]) \<longrightarrow> file_content s2 q = file_content s1 q"
    using Cons.IH [OF 1(2)] by blast
  have "file_content s2 (D @ [n]) = file_content s (D @ [n]) @ log_text off n (c # cs)" for n
    using 1(3) 2(3) by (simp add: c log_text_def log_level_def not_less)
  then show ?case using 1(1,3) 2 c by auto
qed (simp add: log_text_def)

section \<open>Properties\<close>



end
