(* ===== verification/Sync_Event.thy ===== *)
theory Sync_Event
  imports Prelude
begin

text \<open>
  \<^verbatim>\<open>Common/Event_POSIX.*\<close>: an event that threads wait for, with a flag, a mutex and a condition
  variable. What a thread does between two waits of the condition variable happens under the mutex
  and is one step. A thread inside \<^verbatim>\<open>waitImpl\<close> is in the queue of the condition variable, or has
  been woken (by a broadcast or for no reason, as POSIX allows) and not run yet, or its timed wait
  has run out. Failing mutex operations are not modelled.
\<close>

section \<open>State and operations\<close>

text \<open>The argument says whether the wait is a timed one.\<close>

datatype waiting = Outside | Blocked bool | Woken bool | Expired

record event =
  ev_auto :: bool
  ev_state :: bool
  ev_thread :: "nat \<Rightarrow> waiting"

definition EventImpl :: "bool \<Rightarrow> event" where
  "EventImpl autoReset = \<lparr>ev_auto = autoReset, ev_state = False, ev_thread = (\<lambda>_. Outside)\<rparr>"

definition setImpl :: "event \<Rightarrow> event" where
  "setImpl e =
     e\<lparr>ev_state := True,
       ev_thread := (\<lambda>t. case ev_thread e t of Blocked b \<Rightarrow> Woken b | w \<Rightarrow> w)\<rparr>"

definition resetImpl :: "event \<Rightarrow> event" where
  "resetImpl e = e\<lparr>ev_state := False\<rparr>"

text \<open>
  The loop test of both \<^verbatim>\<open>waitImpl\<close> and what follows it when no wait has timed out: the result
  \<open>None\<close> means that the thread waits on the condition variable.
\<close>

definition wait_check :: "bool \<Rightarrow> nat \<Rightarrow> event \<Rightarrow> bool option \<times> event" where
  "wait_check timed t e =
     (if \<not> ev_state e then (None, e\<lparr>ev_thread := (ev_thread e)(t := Blocked timed)\<rparr>)
      else
        (Some True, e\<lparr>ev_state := (if ev_auto e then False else ev_state e),
                      ev_thread := (ev_thread e)(t := Outside)\<rparr>))"

text \<open>After \<^verbatim>\<open>ETIMEDOUT\<close> the loop is left, whatever the flag says.\<close>

definition wait_expired :: "nat \<Rightarrow> event \<Rightarrow> bool option \<times> event" where
  "wait_expired t e = (Some False, e\<lparr>ev_thread := (ev_thread e)(t := Outside)\<rparr>)"

section \<open>Steps\<close>

text \<open>
  A check of the flag by a waiting thread and the return of a thread that has timed out are seen with
  their results; \<open>Wake\<close> is a spurious wake-up, \<open>TimeOut\<close> the time-out of a timed wait.
\<close>

datatype ev_label = Set | Reset | Check nat "bool option" | GiveUp nat "bool option" | Wake nat | TimeOut nat

inductive ev_step :: "event \<Rightarrow> ev_label \<Rightarrow> event \<Rightarrow> bool" where
  set: "ev_step e Set (setImpl e)"
| reset: "ev_step e Reset (resetImpl e)"
| enter: "ev_thread e t = Outside \<Longrightarrow> wait_check timed t e = (r, e') \<Longrightarrow> ev_step e (Check t r) e'"
| resume: "ev_thread e t = Woken timed \<Longrightarrow> wait_check timed t e = (r, e') \<Longrightarrow> ev_step e (Check t r) e'"
| spurious: "ev_thread e t = Blocked timed \<Longrightarrow>
    ev_step e (Wake t) (e\<lparr>ev_thread := (ev_thread e)(t := Woken timed)\<rparr>)"
| timeout: "ev_thread e t = Blocked True \<Longrightarrow>
    ev_step e (TimeOut t) (e\<lparr>ev_thread := (ev_thread e)(t := Expired)\<rparr>)"
| give_up: "ev_thread e t = Expired \<Longrightarrow> wait_expired t e = (r, e') \<Longrightarrow> ev_step e (GiveUp t r) e'"

inductive ev_run :: "event \<Rightarrow> ev_label list \<Rightarrow> event \<Rightarrow> bool" where
  nil: "ev_run e [] e"
| more: "ev_step e l e1 \<Longrightarrow> ev_run e1 ls e2 \<Longrightarrow> ev_run e (l # ls) e2"

inductive_cases ev_stepE: "ev_step e l e'"
inductive_cases ev_run_ConsE: "ev_run e (l # ls) e'"
inductive_cases ev_run_NilE: "ev_run e [] e'"

section \<open>The contract\<close>

text \<open>
  What an event promises: a flag that \<^verbatim>\<open>set\<close> raises and \<^verbatim>\<open>reset\<close> clears; a wait that checks the flag while
  it is up must succeed, and takes it down on an automatic event; one that checks it while it is down must
  go on waiting; one that has timed out returns false and leaves the flag alone.
\<close>

fun spec_step :: "bool \<Rightarrow> ev_label \<Rightarrow> bool \<Rightarrow> bool option" where
  "spec_step aut Set flag = Some True"
| "spec_step aut Reset flag = Some False"
| "spec_step aut (Check t r) flag =
     (if r = (if flag then Some True else None) then Some (flag \<and> \<not> aut) else None)"
| "spec_step aut (GiveUp t r) flag = (if r = Some False then Some flag else None)"
| "spec_step aut (Wake t) flag = Some flag"
| "spec_step aut (TimeOut t) flag = Some flag"

fun spec_run :: "bool \<Rightarrow> ev_label list \<Rightarrow> bool \<Rightarrow> bool option" where
  "spec_run aut [] flag = Some flag"
| "spec_run aut (l # ls) flag = Option.bind (spec_step aut l flag) (spec_run aut ls)"

lemma step_refines: "ev_step e l e' \<Longrightarrow> spec_step (ev_auto e) l (ev_state e) = Some (ev_state e') \<and> ev_auto e' = ev_auto e"
  by (erule ev_stepE) (auto simp: setImpl_def resetImpl_def wait_check_def wait_expired_def split: if_splits)

lemma run_refines: "ev_run e ls e' \<Longrightarrow> spec_run (ev_auto e) ls (ev_state e) = Some (ev_state e') \<and> ev_auto e' = ev_auto e"
proof (induction rule: ev_run.induct)
  case (more e l e1 ls e2)
  then show ?case using step_refines [OF more.hyps(1)] by simp
qed simp

text \<open>While the flag is up, nobody is left in the queue.\<close>

definition none_asleep :: "event \<Rightarrow> bool" where
  "none_asleep e \<longleftrightarrow> (ev_state e \<longrightarrow> (\<forall>t b. ev_thread e t \<noteq> Blocked b))"

lemma step_none_asleep: "ev_step e l e' \<Longrightarrow> none_asleep e \<Longrightarrow> none_asleep e'"
  by (erule ev_stepE)
    (auto simp: none_asleep_def setImpl_def resetImpl_def wait_check_def wait_expired_def split: if_splits waiting.splits)

lemma run_none_asleep: "ev_run e ls e' \<Longrightarrow> none_asleep e \<Longrightarrow> none_asleep e'"
  by (induction rule: ev_run.induct) (auto intro: step_none_asleep)

text \<open>Every successful wait of an automatic event has a \<^verbatim>\<open>set\<close> of its own.\<close>

definition grants :: "ev_label list \<Rightarrow> nat" where
  "grants ls = length (filter (\<lambda>l. case l of Check t r \<Rightarrow> r = Some True | _ \<Rightarrow> False) ls)"

definition sets :: "ev_label list \<Rightarrow> nat" where
  "sets ls = length (filter (\<lambda>l. l = Set) ls)"

lemma auto_grants: "spec_run True ls flag = Some flag' \<Longrightarrow> grants ls + (if flag' then 1 else 0) \<le> sets ls + (if flag then 1 else 0)"
proof (induction ls arbitrary: flag)
  case (Cons l ls)
  then obtain f where f: "spec_step True l flag = Some f" "spec_run True ls f = Some flag'"
    by (auto simp: bind_eq_Some_conv)
  from Cons.IH [OF f(2)] f(1) show ?case
    by (cases "(True, l, flag)" rule: spec_step.cases) (auto simp: grants_def sets_def split: if_splits)
qed (simp add: grants_def sets_def)

text \<open>A thread leaves without success once for each time-out of its own.\<close>

definition failures :: "nat \<Rightarrow> ev_label list \<Rightarrow> nat" where
  "failures t ls = length (filter (\<lambda>l. \<exists>r. l = GiveUp t r) ls)"

definition timeouts :: "nat \<Rightarrow> ev_label list \<Rightarrow> nat" where
  "timeouts t ls = length (filter (\<lambda>l. l = TimeOut t) ls)"

lemma step_expired:
  "ev_step e l e' \<Longrightarrow> failures t [l] + (if ev_thread e' t = Expired then 1 else 0) \<le>
    timeouts t [l] + (if ev_thread e t = Expired then 1 else 0)"
  by (erule ev_stepE)
    (auto simp: failures_def timeouts_def setImpl_def resetImpl_def wait_check_def wait_expired_def split: if_splits waiting.splits)

lemma run_failures:
  "ev_run e ls e' \<Longrightarrow> failures t ls + (if ev_thread e' t = Expired then 1 else 0) \<le>
    timeouts t ls + (if ev_thread e t = Expired then 1 else 0)"
proof (induction rule: ev_run.induct)
  case (more e l e1 ls e2)
  have "failures t (l # ls) = failures t [l] + failures t ls" "timeouts t (l # ls) = timeouts t [l] + timeouts t ls"
    by (simp_all add: failures_def timeouts_def)
  then show ?case using step_expired [OF more.hyps(1), of t] more.IH by simp
qed (simp add: failures_def timeouts_def)

section \<open>Release of waiting threads\<close>

text \<open>The threads run in the order of the list and try to leave their waits.\<close>

fun resume_all :: "nat list \<Rightarrow> event \<Rightarrow> nat list \<times> event" where
  "resume_all [] e = ([], e)"
| "resume_all (t # ts) e =
     (case ev_thread e t of
        Woken timed \<Rightarrow>
          (let (r, e1) = wait_check timed t e; (gs, e2) = resume_all ts e1
           in (if r = Some True then t # gs else gs, e2))
      | _ \<Rightarrow> resume_all ts e)"

lemma resume_manual:
  "\<lbrakk>\<forall>t\<in>set ts. \<exists>b. ev_thread e t = Woken b; distinct ts; ev_state e; \<not> ev_auto e\<rbrakk> \<Longrightarrow>
    fst (resume_all ts e) = ts \<and> (\<forall>t\<in>set ts. ev_thread (snd (resume_all ts e)) t = Outside) \<and>
    (\<forall>t. t \<notin> set ts \<longrightarrow> ev_thread (snd (resume_all ts e)) t = ev_thread e t)"
proof (induction ts arbitrary: e)
  case (Cons t ts)
  obtain b where b: "ev_thread e t = Woken b" using Cons.prems(1) by auto
  let ?e = "e\<lparr>ev_state := ev_state e, ev_thread := (ev_thread e)(t := Outside)\<rparr>"
  have "wait_check b t e = (Some True, ?e)" using Cons.prems(3,4) by (simp add: wait_check_def)
  moreover have "\<forall>u\<in>set ts. \<exists>b. ev_thread ?e u = Woken b" using Cons.prems(1,2) by auto
  with Cons.IH [of ?e] Cons.prems(2-4) have "fst (resume_all ts ?e) = ts" "\<forall>u\<in>set ts. ev_thread (snd (resume_all ts ?e)) u = Outside"
    "\<forall>u. u \<notin> set ts \<longrightarrow> ev_thread (snd (resume_all ts ?e)) u = ev_thread ?e u" by auto
  ultimately show ?case using b Cons.prems(2) by (auto simp: split_beta)
qed simp

lemma resume_blocked:
  "\<lbrakk>\<forall>t\<in>set ts. \<exists>b. ev_thread e t = Woken b; distinct ts; \<not> ev_state e\<rbrakk> \<Longrightarrow>
    fst (resume_all ts e) = [] \<and> (\<forall>t\<in>set ts. \<exists>b. ev_thread (snd (resume_all ts e)) t = Blocked b) \<and>
    (\<forall>t. t \<notin> set ts \<longrightarrow> ev_thread (snd (resume_all ts e)) t = ev_thread e t)"
proof (induction ts arbitrary: e)
  case (Cons t ts)
  obtain b where b: "ev_thread e t = Woken b" using Cons.prems(1) by auto
  let ?e = "e\<lparr>ev_thread := (ev_thread e)(t := Blocked b)\<rparr>"
  have "wait_check b t e = (None, ?e)" using Cons.prems(3) by (simp add: wait_check_def)
  moreover have "\<forall>u\<in>set ts. \<exists>b. ev_thread ?e u = Woken b" using Cons.prems(1,2) by auto
  with Cons.IH [of ?e] Cons.prems(2,3) have "fst (resume_all ts ?e) = []" "\<forall>u\<in>set ts. \<exists>b. ev_thread (snd (resume_all ts ?e)) u = Blocked b"
    "\<forall>u. u \<notin> set ts \<longrightarrow> ev_thread (snd (resume_all ts ?e)) u = ev_thread ?e u" by auto
  ultimately show ?case using b Cons.prems(2) by (auto simp: split_beta)
qed simp

section \<open>An event that is never reset\<close>

text \<open>
  What the users of a manual event that nobody resets rely on: it stays up once it has been raised,
  and then every attempt to wait succeeds at once. \<open>attempt\<close> is the first thing a waiting thread does.
\<close>

fun attempts :: "(nat \<Rightarrow> 'e \<Rightarrow> bool option \<times> 'e) \<Rightarrow> nat list \<Rightarrow> 'e \<Rightarrow> bool option list \<times> 'e" where
  "attempts attempt [] e = ([], e)"
| "attempts attempt (t # ts) e =
     (let (r, e1) = attempt t e; (rs, e2) = attempts attempt ts e1 in (r # rs, e2))"

locale latch =
  fixes ok :: "'e \<Rightarrow> bool" and up :: "'e \<Rightarrow> bool" and raise :: "'e \<Rightarrow> 'e"
    and attempt :: "nat \<Rightarrow> 'e \<Rightarrow> bool option \<times> 'e"
  assumes raise: "ok e \<Longrightarrow> ok (raise e) \<and> up (raise e)"
    and attempt: "ok e \<Longrightarrow> attempt t e = (r, e') \<Longrightarrow>
      ok e' \<and> (up e' \<longleftrightarrow> up e) \<and> r = (if up e then Some True else None)"
begin

lemma attempts_up:
  "ok e \<Longrightarrow> up e \<Longrightarrow> attempts attempt ts e = (rs, e') \<Longrightarrow> rs = replicate (length ts) (Some True) \<and> ok e' \<and> up e'"
proof (induction ts arbitrary: e rs)
  case (Cons t ts)
  obtain r e1 where a: "attempt t e = (r, e1)" by force
  from attempt [OF Cons.prems(1) a] Cons.prems(2) have "ok e1" "up e1" "r = Some True" by simp_all
  then show ?case using Cons.IH [of e1] Cons.prems(3) a by (auto split: prod.splits)
qed simp

lemma raised: "ok e \<Longrightarrow> attempts attempt ts (raise e) = (rs, e') \<Longrightarrow> rs = replicate (length ts) (Some True)"
  using attempts_up [of "raise e"] raise by blast

lemma attempt_up: "ok e \<Longrightarrow> up e \<Longrightarrow> fst (attempt t e) = Some True"
  using attempt [of e t "fst (attempt t e)" "snd (attempt t e)"] by simp

end

interpretation manual: latch "\<lambda>e. \<not> ev_auto e" ev_state setImpl "wait_check timed" for timed
  by unfold_locales (auto simp: setImpl_def wait_check_def split: if_splits)

section \<open>Properties\<close>

text \<open>
  C33: In every interleaving of setting, resetting, waiting, spurious wake-ups and time-outs an event
  behaves like a flag: a wait that checks the flag succeeds exactly when it is up, and takes it down on
  an automatic event only; on an automatic event no more waits succeed than \<^verbatim>\<open>set\<close> was called; no
  wake-up is lost: while the flag is up no thread is left in the queue; and a wait fails only for a
  time-out of its own, and then leaves the flag as it is.
\<close>

theorem event_runs_exact:
  assumes "ev_run (EventImpl aut) ls e"
  shows "spec_run aut ls False = Some (ev_state e) \<and> (ev_state e \<longrightarrow> (\<forall>t b. ev_thread e t \<noteq> Blocked b)) \<and>
    (aut \<longrightarrow> grants ls \<le> sets ls) \<and> (\<forall>t. failures t ls \<le> timeouts t ls)"
proof -
  have r: "spec_run aut ls False = Some (ev_state e)" using run_refines [OF assms] by (simp add: EventImpl_def)
  moreover have "none_asleep e" using run_none_asleep [OF assms] by (simp add: none_asleep_def EventImpl_def)
  moreover have "grants ls \<le> sets ls" if "aut" using auto_grants [of ls False "ev_state e"] r that by simp
  moreover have "failures t ls \<le> timeouts t ls" for t
    using run_failures [OF assms, of t] by (simp add: EventImpl_def split: if_splits)
  ultimately show ?thesis by (auto simp: none_asleep_def)
qed

theorem event_runs_exact_witness:
  "\<exists>e. ev_run (EventImpl True) [Check 3 None, Set, Check 3 (Some True), Check 5 None] e \<and> \<not> ev_state e"
proof -
  define e1 where "e1 = snd (wait_check False 3 (EventImpl True))"
  define e3 where "e3 = snd (wait_check False 3 (setImpl e1))"
  define e4 where "e4 = snd (wait_check False 5 e3)"
  have s1: "wait_check False 3 (EventImpl True) = (None, e1)" by (simp add: e1_def wait_check_def EventImpl_def)
  have s3: "wait_check False 3 (setImpl e1) = (Some True, e3)" by (simp add: e3_def wait_check_def setImpl_def)
  have s4: "wait_check False 5 e3 = (None, e4)" by (simp add: e4_def e3_def wait_check_def setImpl_def e1_def EventImpl_def)
  have t: "ev_thread (EventImpl True) 3 = Outside" "ev_thread (setImpl e1) 3 = Woken False" "ev_thread e3 5 = Outside"
    by (simp_all add: e1_def e3_def wait_check_def setImpl_def EventImpl_def)
  have run: "ev_run (EventImpl True) [Check 3 None, Set, Check 3 (Some True), Check 5 None] e4"
    by (rule ev_run.more [OF ev_step.enter [OF t(1) s1]], rule ev_run.more [OF ev_step.set],
        rule ev_run.more [OF ev_step.resume [OF t(2) s3]], rule ev_run.more [OF ev_step.enter [OF t(3) s4]],
        rule ev_run.nil)
  from event_runs_exact [OF run] have "\<not> ev_state e4" by simp
  then show ?thesis using run by auto
qed

text \<open>
  \<^verbatim>\<open>set\<close> releases the waiting threads: when those that wait run, in whatever order, all of them leave
  their waits on a manual event, and exactly the first one on an automatic event, where the others
  go back to the queue and the flag is down.
\<close>

theorem set_releases:
  assumes "ts \<noteq> []" "distinct ts" "\<forall>t\<in>set ts. \<exists>b. ev_thread e t \<in> {Blocked b, Woken b}"
  shows "fst (resume_all ts (setImpl e)) = (if ev_auto e then [hd ts] else ts) \<and>
    (\<forall>t\<in>set ts. if ev_auto e \<and> t \<noteq> hd ts then \<exists>b. ev_thread (snd (resume_all ts (setImpl e))) t = Blocked b
      else ev_thread (snd (resume_all ts (setImpl e))) t = Outside)"
proof -
  let ?e = "setImpl e"
  have w: "\<forall>t\<in>set ts. \<exists>b. ev_thread ?e t = Woken b" using assms(3) by (fastforce simp: setImpl_def)
  have up: "ev_state ?e" "ev_auto ?e = ev_auto e" by (simp_all add: setImpl_def)
  show ?thesis
  proof (cases "ev_auto e")
    case False
    then show ?thesis using resume_manual [OF w assms(2)] up by simp
  next
    case True
    obtain t us where ts: "ts = t # us" using assms(1) by (cases ts) auto
    obtain b where b: "ev_thread ?e t = Woken b" using w ts by auto
    let ?f = "?e\<lparr>ev_state := False, ev_thread := (ev_thread ?e)(t := Outside)\<rparr>"
    have c: "wait_check b t ?e = (Some True, ?f)" using True up by (simp add: wait_check_def)
    have "\<forall>u\<in>set us. \<exists>b. ev_thread ?f u = Woken b" using w assms(2) ts by auto
    from resume_blocked [OF this] assms(2) ts have r: "fst (resume_all us ?f) = []"
      "\<forall>u\<in>set us. \<exists>b. ev_thread (snd (resume_all us ?f)) u = Blocked b" "ev_thread (snd (resume_all us ?f)) t = Outside"
      by auto
    then show ?thesis using True ts b c assms(2) by (auto simp: split_beta)
  qed
qed

theorem set_releases_witness:
  "fst (resume_all [4, 2] (setImpl (EventImpl True\<lparr>ev_thread := (\<lambda>_. Blocked False)\<rparr>))) = [4]"
proof -
  let ?e = "EventImpl True\<lparr>ev_thread := (\<lambda>_. Blocked False)\<rparr>"
  have "fst (resume_all [4, 2] (setImpl ?e)) = (if ev_auto ?e then [hd [4, 2]] else [4, 2])"
    by (rule conjunct1 [OF set_releases]) (auto simp: EventImpl_def)
  then show ?thesis by (simp add: EventImpl_def del: resume_all.simps)
qed

section \<open>The deadline of a timed wait\<close>

text \<open>The time of day in seconds and microseconds, and the end of the wait in seconds and nanoseconds.\<close>

definition abstime :: "int \<Rightarrow> int \<Rightarrow> int \<Rightarrow> int \<times> int" where
  "abstime tv_sec tv_usec milliseconds =
     (let s = tv_sec + c_div milliseconds 1000;
          ns = tv_usec * 1000 + c_mod milliseconds 1000 * 1000000
      in if ns \<ge> 1000000000 then (s + 1, ns - 1000000000) else (s, ns))"

text \<open>
  The deadline is the current time plus the wait with nanoseconds below one second; for a negative
  wait the nanoseconds can be negative, which \<^verbatim>\<open>pthread_cond_timedwait\<close> refuses.
\<close>

theorem deadline_exact:
  assumes "0 \<le> us" "us < 1000000" "0 \<le> ms"
  shows "(let (s, ns) = abstime sec us ms
    in s * 1000000000 + ns = sec * 1000000000 + us * 1000 + ms * 1000000 \<and> 0 \<le> ns \<and> ns < 1000000000)"
proof -
  have "c_div ms 1000 = ms div 1000" "c_mod ms 1000 = ms mod 1000" using assms(3) by (simp_all add: c_div_nonneg c_mod_nonneg)
  moreover have "ms div 1000 * 1000000000 + ms mod 1000 * 1000000 = ms * 1000000"
    using div_mult_mod_eq [of ms 1000] by linarith
  ultimately show ?thesis using assms by (auto simp: abstime_def Let_def)
qed

theorem deadline_negative: "snd (abstime 5 0 (- 1)) < 0"
  by code_simp

end
