(* ===== verification/Thread_Control.thy ===== *)
theory Thread_Control
  imports Sync_Event Time_Spans
begin

text \<open>
  \<^verbatim>\<open>Common/Thread_POSIX.*\<close>: starting, ending and joining a thread, its priorities and \<^verbatim>\<open>sleep\<close>. The operating
  system's threads are numbered in the order of their creation; each goes through the phases of
  its entry function. \<^verbatim>\<open>done\<close> is a manual event of theory Sync_Event.
\<close>

section \<open>State\<close>

datatype priority = PRIO_LOWEST_IMPL | PRIO_LOW_IMPL | PRIO_NORMAL_IMPL | PRIO_HIGH_IMPL | PRIO_HIGHEST_IMPL

text \<open>
  In the body of the target; the target cleared; \<^verbatim>\<open>done\<close> set; returned from the entry function; joined.
\<close>

datatype entry = RunnableEntry | CallableEntry

datatype phase = InBody entry | Cleared | Signalled | Exited | Joined

record thread_data =
  td_pRunnableTarget :: "nat option"
  td_pCallbackTarget :: "(nat option \<times> nat) option"
  td_thread :: nat
  td_prio :: priority
  td_osPrio :: int
  td_done :: event
  td_stackSize :: int
  td_os :: "phase list"

text \<open>No handle yet is a number that no thread has.\<close>

definition ThreadImpl :: thread_data where
  "ThreadImpl =
     \<lparr>td_pRunnableTarget = None, td_pCallbackTarget = None, td_thread = 0, td_prio = PRIO_NORMAL_IMPL,
      td_osPrio = 0, td_done = EventImpl False, td_stackSize = 0, td_os = []\<rparr>"

definition isRunningImpl :: "thread_data \<Rightarrow> bool" where
  "isRunningImpl th \<longleftrightarrow> td_pRunnableTarget th \<noteq> None \<or>
     (case td_pCallbackTarget th of None \<Rightarrow> False | Some (cb, _) \<Rightarrow> cb \<noteq> None)"

section \<open>Priorities\<close>

definition mapPrio :: "int \<Rightarrow> int \<Rightarrow> priority \<Rightarrow> int" where
  "mapPrio pmin pmax prio =
     (case prio of
        PRIO_LOWEST_IMPL \<Rightarrow> pmin
      | PRIO_LOW_IMPL \<Rightarrow> pmin + c_div (pmax - pmin) 4
      | PRIO_NORMAL_IMPL \<Rightarrow> pmin + c_div (pmax - pmin) 2
      | PRIO_HIGH_IMPL \<Rightarrow> pmin + c_div (3 * (pmax - pmin)) 4
      | PRIO_HIGHEST_IMPL \<Rightarrow> pmax)"

definition reverseMapPrio :: "int \<Rightarrow> int \<Rightarrow> int \<Rightarrow> priority" where
  "reverseMapPrio pmin pmax prio =
     (let normal = pmin + c_div (pmax - pmin) 2
      in if prio = pmax then PRIO_HIGHEST_IMPL
         else if prio > normal then PRIO_HIGH_IMPL
         else if prio = normal then PRIO_NORMAL_IMPL
         else if prio > pmin then PRIO_LOW_IMPL
         else PRIO_LOWEST_IMPL)"

text \<open>
  \<^verbatim>\<open>sched\<close> says whether \<^verbatim>\<open>pthread_setschedparam\<close> accepts a value. The result is an exception's text, or
  nothing, with the state.
\<close>

definition setPriorityImpl :: "int \<Rightarrow> int \<Rightarrow> (int \<Rightarrow> bool) \<Rightarrow> priority \<Rightarrow> thread_data \<Rightarrow> string option \<times> thread_data" where
  "setPriorityImpl pmin pmax sched prio th =
     (if prio \<noteq> td_prio th then
        (let th1 = th\<lparr>td_prio := prio\<rparr>
         in if isRunningImpl th1 \<and> \<not> sched (mapPrio pmin pmax prio)
            then (Some ''cannot set thread priority'', th1) else (None, th1))
      else (None, th))"

definition setOSPriorityImpl :: "int \<Rightarrow> int \<Rightarrow> (int \<Rightarrow> bool) \<Rightarrow> int \<Rightarrow> thread_data \<Rightarrow> string option \<times> thread_data" where
  "setOSPriorityImpl pmin pmax sched prio th =
     (if prio \<noteq> td_osPrio th then
        (if (td_pRunnableTarget th \<noteq> None \<or> td_pCallbackTarget th \<noteq> None) \<and> \<not> sched prio
         then (Some ''cannot set thread priority'', th)
         else (None, th\<lparr>td_prio := reverseMapPrio pmin pmax prio, td_osPrio := prio\<rparr>))
      else (None, th))"

definition setStackSizeImpl :: "int \<Rightarrow> int \<Rightarrow> thread_data \<Rightarrow> thread_data" where
  "setStackSizeImpl stack_min n th =
     th\<lparr>td_stackSize := (if n \<noteq> 0 \<and> n < stack_min then stack_min else n)\<rparr>"

section \<open>Starting\<close>

text \<open>What the operating system answers: the stack size, the creation and the priority.\<close>

record os_answer =
  stack_ok :: bool
  create_ok :: bool
  sched_ok :: bool

definition after_create :: "os_answer \<Rightarrow> entry \<Rightarrow> thread_data \<Rightarrow> string option \<times> thread_data" where
  "after_create a k th =
     (let th1 = th\<lparr>td_thread := length (td_os th), td_os := td_os th @ [InBody k]\<rparr>
      in if td_prio th \<noteq> PRIO_NORMAL_IMPL \<and> \<not> sched_ok a then (Some ''cannot set thread priority'', th1)
         else (None, th1))"

definition startImpl :: "os_answer \<Rightarrow> nat \<Rightarrow> thread_data \<Rightarrow> string option \<times> thread_data" where
  "startImpl a target th =
     (if td_pRunnableTarget th \<noteq> None then (Some ''thread already running'', th)
      else if td_stackSize th \<noteq> 0 \<and> \<not> stack_ok a then (Some ''cannot set thread stack size'', th)
      else if \<not> create_ok a then (Some ''cannot start thread'', th\<lparr>td_pRunnableTarget := None\<rparr>)
      else after_create a RunnableEntry (th\<lparr>td_pRunnableTarget := Some target\<rparr>))"

definition startImpl_callable :: "os_answer \<Rightarrow> nat \<Rightarrow> nat \<Rightarrow> thread_data \<Rightarrow> string option \<times> thread_data" where
  "startImpl_callable a target pData th =
     (if (case td_pCallbackTarget th of None \<Rightarrow> False | Some (cb, _) \<Rightarrow> cb \<noteq> None)
      then (Some ''thread already running'', th)
      else if td_stackSize th \<noteq> 0 \<and> \<not> stack_ok a then (Some ''can not set thread stack size'', th)
      else if \<not> create_ok a then (Some ''cannot start thread'', th\<lparr>td_pCallbackTarget := Some (None, 0)\<rparr>)
      else after_create a CallableEntry (th\<lparr>td_pCallbackTarget := Some (Some target, pData)\<rparr>))"

section \<open>The entry functions\<close>

text \<open>
  Thread \<open>h\<close> comes back from the target, whether by an exception or not, and clears it; it sets \<^verbatim>\<open>done\<close>;
  it returns.
\<close>

definition runnableEntry_clears :: "nat \<Rightarrow> thread_data \<Rightarrow> thread_data" where
  "runnableEntry_clears h th = th\<lparr>td_pRunnableTarget := None, td_os := (td_os th)[h := Cleared]\<rparr>"

definition callableEntry_clears :: "nat \<Rightarrow> thread_data \<Rightarrow> thread_data" where
  "callableEntry_clears h th = th\<lparr>td_pCallbackTarget := Some (None, 0), td_os := (td_os th)[h := Cleared]\<rparr>"

definition entry_clears :: "entry \<Rightarrow> nat \<Rightarrow> thread_data \<Rightarrow> thread_data" where
  "entry_clears k = (case k of RunnableEntry \<Rightarrow> runnableEntry_clears | CallableEntry \<Rightarrow> callableEntry_clears)"

definition entry_signals :: "nat \<Rightarrow> thread_data \<Rightarrow> thread_data" where
  "entry_signals h th = th\<lparr>td_done := setImpl (td_done th), td_os := (td_os th)[h := Signalled]\<rparr>"

definition entry_returns :: "nat \<Rightarrow> thread_data \<Rightarrow> thread_data" where
  "entry_returns h th = th\<lparr>td_os := (td_os th)[h := Exited]\<rparr>"

section \<open>Joining\<close>

text \<open>The first part of both \<^verbatim>\<open>joinImpl\<close>: waiting for \<^verbatim>\<open>done\<close>; \<open>None\<close> in the result is waiting.\<close>

definition join_wait :: "bool \<Rightarrow> nat \<Rightarrow> thread_data \<Rightarrow> bool option \<times> thread_data" where
  "join_wait timed j th =
     (let (r, e) = wait_check timed j (td_done th) in (r, th\<lparr>td_done := e\<rparr>))"

datatype join_result = Blocks | Returned thread_data

text \<open>The second part, \<^verbatim>\<open>pthread_join\<close>: undefined for no thread and for one joined before.\<close>

definition join_thread :: "thread_data \<Rightarrow> join_result option" where
  "join_thread th =
     (if td_thread th \<ge> length (td_os th) then None
      else
        (case td_os th ! td_thread th of
           Joined \<Rightarrow> None
         | Exited \<Rightarrow> Some (Returned (th\<lparr>td_os := (td_os th)[td_thread th := Joined]\<rparr>))
         | _ \<Rightarrow> Some Blocks))"

section \<open>Sleeping\<close>

text \<open>
  What \<^verbatim>\<open>nanosleep\<close> does: it sleeps for the time given, is interrupted, or fails. The measured time
  of an interrupted sleep is in microseconds.
\<close>

datatype nap = Slept | Interrupted int | Failed

text \<open>The time of the sleeps and whether an exception is thrown; \<open>None\<close> when the list is too short.\<close>

fun sleep_loop :: "int \<Rightarrow> nap list \<Rightarrow> (int \<times> bool) option" where
  "sleep_loop remainingTime [] = None"
| "sleep_loop remainingTime (Slept # ns) = Some (totalSeconds remainingTime * 1000000 + useconds remainingTime, False)"
| "sleep_loop remainingTime (Failed # ns) = Some (0, remainingTime > 0)"
| "sleep_loop remainingTime (Interrupted waited # ns) =
     (let remaining1 = (if waited < remainingTime then remainingTime - waited else 0)
      in if remaining1 > 0 then map_option (\<lambda>(t, x). (waited + t, x)) (sleep_loop remaining1 ns)
         else Some (waited, False))"

definition sleepImpl :: "int \<Rightarrow> nap list \<Rightarrow> (int \<times> bool) option" where
  "sleepImpl ms ns = sleep_loop (1000 * ms) ns"

section \<open>Runs\<close>

text \<open>Whoever uses the thread, and the threads it starts, in any order.\<close>

inductive th_step :: "thread_data \<Rightarrow> thread_data \<Rightarrow> bool" where
  start: "startImpl a target th = (x, th') \<Longrightarrow> th_step th th'"
| start_callable: "startImpl_callable a target pData th = (x, th') \<Longrightarrow> th_step th th'"
| clears: "h < length (td_os th) \<Longrightarrow> td_os th ! h = InBody k \<Longrightarrow> th_step th (entry_clears k h th)"
| signals: "h < length (td_os th) \<Longrightarrow> td_os th ! h = Cleared \<Longrightarrow> th_step th (entry_signals h th)"
| returns: "h < length (td_os th) \<Longrightarrow> td_os th ! h = Signalled \<Longrightarrow> th_step th (entry_returns h th)"
| waits: "ev_step (td_done th) l e \<Longrightarrow> l \<noteq> Set \<Longrightarrow> l \<noteq> Reset \<Longrightarrow> th_step th (th\<lparr>td_done := e\<rparr>)"
| joins: "join_thread th = Some (Returned th') \<Longrightarrow> th_step th th'"

inductive_cases th_stepE: "th_step th th'"

definition reachable :: "thread_data \<Rightarrow> bool" where
  "reachable th \<longleftrightarrow> th_step\<^sup>*\<^sup>* ThreadImpl th"

definition ended :: "phase \<Rightarrow> bool" where
  "ended p \<longleftrightarrow> p \<in> {Signalled, Exited, Joined}"

lemma ended_simps [simp]: "ended Signalled" "ended Exited" "ended Joined" "\<not> ended (InBody k)" "\<not> ended Cleared"
  by (simp_all add: ended_def)

definition done_exact :: "thread_data \<Rightarrow> bool" where
  "done_exact th \<longleftrightarrow> \<not> ev_auto (td_done th) \<and> (ev_state (td_done th) \<longleftrightarrow> (\<exists>p\<in>set (td_os th). ended p))"

lemma ended_update:
  assumes "h < length ps" "ended p \<longleftrightarrow> ended (ps ! h)"
  shows "(\<exists>q\<in>set (ps[h := p]). ended q) \<longleftrightarrow> (\<exists>q\<in>set ps. ended q)"
proof -
  have nth: "(\<exists>q\<in>set xs. ended q) \<longleftrightarrow> (\<exists>i<length xs. ended (xs ! i))" for xs by (metis in_set_conv_nth)
  have "ended (ps[h := p] ! i) \<longleftrightarrow> ended (ps ! i)" if "i < length ps" for i
    using that assms by (simp add: nth_list_update)
  then show ?thesis unfolding nth by auto
qed

lemma after_create_done: "after_create a k th = (x, th') \<Longrightarrow> done_exact th \<Longrightarrow> done_exact th'"
  by (auto simp: after_create_def done_exact_def Let_def split: if_splits)

lemma step_done_exact: "th_step th th' \<Longrightarrow> done_exact th \<Longrightarrow> done_exact th'"
proof (erule th_stepE)
  fix a target x assume "startImpl a target th = (x, th')" and d: "done_exact th"
  moreover have "done_exact (th\<lparr>td_pRunnableTarget := t\<rparr>)" for t using d by (simp add: done_exact_def)
  ultimately show "done_exact th'" using after_create_done by (auto simp: startImpl_def split: if_splits)
next
  fix a target pData x assume "startImpl_callable a target pData th = (x, th')" and d: "done_exact th"
  moreover have "done_exact (th\<lparr>td_pCallbackTarget := t\<rparr>)" for t using d by (simp add: done_exact_def)
  ultimately show "done_exact th'" using after_create_done by (auto simp: startImpl_callable_def split: if_splits)
next
  fix h k assume "th' = entry_clears k h th" "h < length (td_os th)" "td_os th ! h = InBody k" "done_exact th"
  then show "done_exact th'"
    by (cases k) (simp_all add: entry_clears_def runnableEntry_clears_def callableEntry_clears_def done_exact_def ended_update)
next
  fix h assume "th' = entry_signals h th" "h < length (td_os th)" "done_exact th"
  then show "done_exact th'" using set_update_memI [of h "td_os th" Signalled] ended_simps(1)
    unfolding entry_signals_def done_exact_def setImpl_def by fastforce
next
  fix h assume "th' = entry_returns h th" "h < length (td_os th)" "td_os th ! h = Signalled" "done_exact th"
  then show "done_exact th'" by (simp add: entry_returns_def done_exact_def ended_update)
next
  fix l e assume e: "th' = th\<lparr>td_done := e\<rparr>" "ev_step (td_done th) l e" "l \<noteq> Set" "l \<noteq> Reset" and d: "done_exact th"
  from step_refines [OF e(2)] d have "\<not> ev_auto e" "spec_step False l (ev_state (td_done th)) = Some (ev_state e)"
    by (simp_all add: done_exact_def)
  moreover from this(2) e(3,4) have "ev_state e = ev_state (td_done th)"
    by (cases "(False, l, ev_state (td_done th))" rule: spec_step.cases) (auto split: if_splits)
  ultimately show "done_exact th'" using d e(1) by (simp add: done_exact_def)
next
  assume j: "join_thread th = Some (Returned th')" and d: "done_exact th"
  then have "td_thread th < length (td_os th)" "td_os th ! td_thread th = Exited"
    "th' = th\<lparr>td_os := (td_os th)[td_thread th := Joined]\<rparr>"
    by (auto simp: join_thread_def split: if_splits phase.splits)
  then show "done_exact th'" using d by (simp add: done_exact_def ended_update)
qed

lemma reachable_done: "reachable th \<Longrightarrow> done_exact th"
  unfolding reachable_def
proof (induction rule: rtranclp_induct)
  case base
  then show ?case by (simp add: done_exact_def ThreadImpl_def EventImpl_def)
qed (rule step_done_exact)

section \<open>Properties\<close>

text \<open>
  C34: In every interleaving of starting, running, waiting and joining, a thread that joins passes its
  wait exactly when some run of the thread has left its target; so for a thread that is started once,
  a join never overtakes the run.
\<close>

theorem join_waits_for_run:
  assumes "reachable th"
  shows "(fst (join_wait timed j th) = Some True \<longleftrightarrow> (\<exists>p\<in>set (td_os th). ended p)) \<and>
    (length (td_os th) = 1 \<longrightarrow> fst (join_wait timed j th) = Some True \<longrightarrow> ended (td_os th ! 0))"
proof -
  have d: "done_exact th" by (rule reachable_done [OF assms])
  then have "fst (join_wait timed j th) = Some True \<longleftrightarrow> ev_state (td_done th)"
    using manual.attempt [of "td_done th" timed j] by (auto simp: join_wait_def done_exact_def split: prod.splits)
  then show ?thesis using d by (cases "td_os th") (auto simp: done_exact_def)
qed

text \<open>
  A thread that has been started again after its end is not waited for by the time given: \<^verbatim>\<open>done\<close> is
  still set from the first run, so \<^verbatim>\<open>tryJoin\<close> passes at once and then blocks in \<^verbatim>\<open>pthread_join\<close>, without a
  time limit, for as long as the second run lasts.
\<close>

theorem restarted_tryjoin_blocks:
  assumes "reachable th" "p \<in> set (td_os th)" "ended p" "td_thread th < length (td_os th)" "td_os th ! td_thread th = InBody k"
  shows "\<exists>th'. join_wait True j th = (Some True, th') \<and> join_thread th' = Some Blocks"
proof -
  have "done_exact th" by (rule reachable_done [OF assms(1)])
  then have "\<not> ev_auto (td_done th)" "ev_state (td_done th)" using assms(2,3) by (auto simp: done_exact_def)
  from manual.attempt_up [OF this] have "fst (wait_check True j (td_done th)) = Some True" .
  then obtain e where "wait_check True j (td_done th) = (Some True, e)" by (cases "wait_check True j (td_done th)") simp
  then show ?thesis using assms(4,5) by (intro exI [of _ "th\<lparr>td_done := e\<rparr>"]) (simp add: join_wait_def join_thread_def)
qed

definition ex_answer :: os_answer where "ex_answer = \<lparr>stack_ok = True, create_ok = True, sched_ok = True\<rparr>"

text \<open>A thread that ran once, was not joined, and is running again.\<close>

definition ex_restarted :: thread_data where
  "ex_restarted =
     snd (startImpl_callable ex_answer 7 0 (entry_returns 0 (entry_signals 0 (entry_clears CallableEntry 0
       (snd (startImpl_callable ex_answer 7 0 ThreadImpl))))))"

lemmas ex_thread = ex_restarted_def ex_answer_def ThreadImpl_def startImpl_callable_def after_create_def entry_clears_def
  callableEntry_clears_def entry_signals_def entry_returns_def setImpl_def EventImpl_def

lemma ex_restarted_reachable: "reachable ex_restarted"
proof -
  let ?t1 = "snd (startImpl_callable ex_answer 7 0 ThreadImpl)"
  let ?t2 = "entry_clears CallableEntry 0 ?t1" let ?t3 = "entry_signals 0 ?t2" let ?t4 = "entry_returns 0 ?t3"
  have "th_step ThreadImpl ?t1" by (rule th_step.start_callable [OF surjective_pairing])
  moreover have "th_step ?t1 ?t2" by (rule th_step.clears) (simp_all add: ex_thread)
  moreover have "th_step ?t2 ?t3" by (rule th_step.signals) (simp_all add: ex_thread)
  moreover have "th_step ?t3 ?t4" by (rule th_step.returns) (simp_all add: ex_thread)
  moreover have "th_step ?t4 ex_restarted"
    unfolding ex_restarted_def by (rule th_step.start_callable [OF surjective_pairing])
  ultimately show ?thesis unfolding reachable_def by (meson converse_rtranclp_into_rtranclp rtranclp.rtrancl_refl)
qed

theorem join_waits_for_run_witness: "fst (join_wait False 3 ex_restarted) = Some True"
proof -
  have "\<exists>p\<in>set (td_os ex_restarted). ended p" by (simp add: ex_thread)
  then show ?thesis using join_waits_for_run [OF ex_restarted_reachable, of False 3] by blast
qed

theorem restarted_tryjoin_blocks_witness:
  "\<exists>th'. join_wait True 3 ex_restarted = (Some True, th') \<and> join_thread th' = Some Blocks"
  by (rule restarted_tryjoin_blocks [OF ex_restarted_reachable, where p = Exited and k = CallableEntry]) (simp_all add: ex_thread)

lemma prio_arith:
  fixes r :: int
  shows "0 \<le> r \<Longrightarrow> 0 \<le> r div 4 \<and> r div 4 \<le> r \<and> 0 \<le> r div 2 \<and> r div 2 \<le> r \<and> 0 \<le> 3 * r div 4 \<and> 3 * r div 4 \<le> r"
    and "4 \<le> r \<Longrightarrow> 0 < r div 4 \<and> r div 4 < r div 2 \<and> r div 2 < 3 * r div 4 \<and> 3 * r div 4 < r"
proof -
  have aux: "(0 \<le> r \<longrightarrow> 0 \<le> a \<and> a \<le> r \<and> 0 \<le> b \<and> b \<le> r \<and> 0 \<le> c \<and> c \<le> r) \<and> (4 \<le> r \<longrightarrow> 0 < a \<and> a < b \<and> b < c \<and> c < r)"
    if "a * 4 + x = r" "b * 2 + y = r" "c * 4 + z = 3 * r" "0 \<le> x" "x < 4" "0 \<le> y" "y < 2" "0 \<le> z" "z < 4"
    for a b c x y z :: int
    using that by auto
  note all = aux [OF div_mult_mod_eq div_mult_mod_eq div_mult_mod_eq pos_mod_sign pos_mod_bound pos_mod_sign pos_mod_bound
      pos_mod_sign pos_mod_bound]
  show "0 \<le> r \<Longrightarrow> 0 \<le> r div 4 \<and> r div 4 \<le> r \<and> 0 \<le> r div 2 \<and> r div 2 \<le> r \<and> 0 \<le> 3 * r div 4 \<and> 3 * r div 4 \<le> r"
    by (rule conjunct1 [OF all, rule_format]) simp_all
  show "4 \<le> r \<Longrightarrow> 0 < r div 4 \<and> r div 4 < r div 2 \<and> r div 2 < 3 * r div 4 \<and> 3 * r div 4 < r"
    by (rule conjunct2 [OF all, rule_format]) simp_all
qed

text \<open>
  The priorities are mapped into the range of the operating system in their order, and back to
  themselves when the range has at least five values; a range of one value, as Linux has for the
  policy used, maps back to the highest priority.
\<close>

theorem priorities_exact:
  assumes "pmin \<le> pmax"
  shows "pmin \<le> mapPrio pmin pmax p \<and> mapPrio pmin pmax p \<le> pmax \<and>
    (4 \<le> pmax - pmin \<longrightarrow> reverseMapPrio pmin pmax (mapPrio pmin pmax p) = p) \<and>
    (pmin = pmax \<longrightarrow> reverseMapPrio pmin pmax (mapPrio pmin pmax p) = PRIO_HIGHEST_IMPL)"
proof -
  define r where "r = pmax - pmin"
  have r: "pmax = pmin + r" "0 \<le> r" using assms by (simp_all add: r_def)
  then have d: "c_div r n = r div n" "c_div (3 * r) n = 3 * r div n" if "0 < n" for n
    using that by (simp_all add: c_div_nonneg)
  have m: "mapPrio pmin pmax p = pmin + (case p of PRIO_LOWEST_IMPL \<Rightarrow> 0 | PRIO_LOW_IMPL \<Rightarrow> r div 4 | PRIO_NORMAL_IMPL \<Rightarrow> r div 2
      | PRIO_HIGH_IMPL \<Rightarrow> 3 * r div 4 | PRIO_HIGHEST_IMPL \<Rightarrow> r)"
    unfolding mapPrio_def r_def [symmetric] by (cases p) (simp_all add: r(1) d)
  have v: "reverseMapPrio pmin pmax x = (if x = pmin + r then PRIO_HIGHEST_IMPL else if x > pmin + r div 2 then PRIO_HIGH_IMPL
      else if x = pmin + r div 2 then PRIO_NORMAL_IMPL else if x > pmin then PRIO_LOW_IMPL else PRIO_LOWEST_IMPL)" for x
    unfolding reverseMapPrio_def r_def [symmetric] by (simp add: r(1) d Let_def)
  show ?thesis unfolding m v using r prio_arith [of r] by (cases p) auto
qed

text \<open>
  \<^verbatim>\<open>sleep\<close> lasts at least as long as asked for, however often it is interrupted, unless it throws.
\<close>

theorem sleep_long_enough:
  assumes "0 \<le> ms" "ms < 2 ^ 31" "\<forall>w. Interrupted w \<in> set ns \<longrightarrow> 0 \<le> w" "sleepImpl ms ns = Some (t, exc)"
  shows "exc \<or> 1000 * ms \<le> t"
proof -
  have "\<lbrakk>0 \<le> r; r < 1000 * 2 ^ 31; \<forall>w. Interrupted w \<in> set ns \<longrightarrow> 0 \<le> w; sleep_loop r ns = Some (t, exc)\<rbrakk> \<Longrightarrow>
      exc \<or> r \<le> t" for r
  proof (induction r ns arbitrary: t rule: sleep_loop.induct)
    case (2 r ns)
    have "r div 1000000 < 2 ^ 31" "0 \<le> r div 1000000" "r mod 1000000 < 2 ^ 31" "0 \<le> r mod 1000000"
      using 2(1,2) by (auto intro: less_trans [OF pos_mod_bound])
    then have "totalSeconds r * 1000000 + useconds r = r"
      using 2(1) div_mult_mod_eq [of r 1000000] by (simp add: totalSeconds_def useconds_def units to_int32_id c_div_nonneg c_mod_nonneg)
    then show ?case using 2(4) by simp
  next
    case (4 r w ns)
    have w: "0 \<le> w" using 4(4) by simp
    show ?case
    proof (cases "w < r")
      case True
      then obtain t1 where t1: "sleep_loop (r - w) ns = Some (t1, exc)" "t = w + t1" using 4(5) by (auto simp: Let_def)
      have "exc \<or> r - w \<le> t1" by (rule 4(1)) (use True w 4(2-4) t1(1) in auto)
      then show ?thesis using t1(2) by linarith
    qed (use 4(5) in simp)
  qed (auto split: if_splits)
  then show ?thesis using assms by (simp add: sleepImpl_def)
qed

end
