(* ===== verification/Zip_Stream.thy ===== *)
theory Zip_Stream
  imports Prelude
begin

text \<open>
  \<^verbatim>\<open>Common/Zip.cpp\<close>: compressing into and uncompressing from vectors with zlib. The functions of zlib
  are parameters: \<open>inflate\<close> and \<open>deflate\<close> get the stream's state, the rest of the input and the
  space left, and give a code, how much input they took, the bytes they wrote and the new state.
  The loops need not end, which is \<open>None\<close>. The sizes of vectors are 64 bits wide, but the fields
  \<^verbatim>\<open>avail_in\<close> and \<^verbatim>\<open>avail_out\<close> of the stream, and the length of a dictionary, have zlib's 32-bit type
  \<^verbatim>\<open>uInt\<close>: longer input is cut to the length that the field holds.
\<close>

section \<open>Streams\<close>

datatype zret = Z_OK | Z_STREAM_END | Z_NEED_DICT | Z_ERRNO | Z_STREAM_ERROR | Z_DATA_ERROR | Z_MEM_ERROR
  | Z_BUF_ERROR | Z_VERSION_ERROR

definition hard_error :: "zret \<Rightarrow> bool" where
  "hard_error r \<longleftrightarrow> r \<in> {Z_ERRNO, Z_STREAM_ERROR, Z_DATA_ERROR, Z_VERSION_ERROR}"

type_synonym 'z coder = "'z \<Rightarrow> u8 list \<Rightarrow> nat \<Rightarrow> zret \<times> nat \<times> u8 list \<times> 'z"

text \<open>The value of a size in a field of type \<^verbatim>\<open>uInt\<close>, and the bytes that zlib sees of a buffer.\<close>

definition uInt :: "nat \<Rightarrow> nat" where
  "uInt n = n mod 2 ^ 32"

definition avail :: "u8 list \<Rightarrow> u8 list" where
  "avail xs = take (uInt (length xs)) xs"

lemma uInt_small [simp]: "n < 2 ^ 32 \<Longrightarrow> uInt n = n"
  by (simp add: uInt_def)

lemma avail_small [simp]: "length xs < 2 ^ 32 \<Longrightarrow> avail xs = xs"
  by (simp add: avail_def)

text \<open>\<^verbatim>\<open>m_dict\<close> and \<^verbatim>\<open>m_adler\<close>; the stream itself lives for one call.\<close>

record zip =
  m_dict :: "u8 list"
  m_adler :: u64

definition Zip :: "u8 list option \<Rightarrow> zip" where
  "Zip dict = \<lparr>m_dict = (case dict of Some d \<Rightarrow> d | None \<Rightarrow> []), m_adler = 0\<rparr>"

text \<open>What the loops end with: the data written, or an error, after which 0 is returned.\<close>

datatype zresult = Data "u8 list" | Nothing

section \<open>unzip\<close>

text \<open>
  The state of the loop: the input that is left, the output so far, and the size of the vector,
  which grows by the factor \<open>f\<close> (2 in a debug build, 4 otherwise). \<open>set_dict\<close> gives the code of
  \<^verbatim>\<open>inflateSetDictionary\<close>, the checksum afterwards and the new state.
\<close>

partial_function (option) unzip_loop ::
    "'z coder \<Rightarrow> ('z \<Rightarrow> u8 list \<Rightarrow> zret \<times> u64 \<times> 'z) \<Rightarrow> nat \<Rightarrow> zip \<Rightarrow> 'z \<Rightarrow> u8 list \<Rightarrow> u8 list \<Rightarrow> nat \<Rightarrow> zresult option" where
  "unzip_loop inflate set_dict f zp z inp out n =
     (if inp = [] then Some (Data out)
      else if length out \<ge> n then None
      else
        (let avail_out = uInt (n - length out);
             (ret, k, ys, z1) = inflate z inp avail_out;
             inp1 = drop k inp; out1 = out @ ys
         in if ret = Z_STREAM_END \<or> ret = Z_MEM_ERROR then Some (Data out1)
            else if ret = Z_BUF_ERROR \<or> avail_out - length ys = 0 then
              unzip_loop inflate set_dict f zp z1 inp1 out1 (n * f mod 2 ^ 64)
            else if ret = Z_NEED_DICT then
              (if m_dict zp \<noteq> [] then
                 (let (ret2, adler, z2) = set_dict z1 (avail (m_dict zp))
                  in if ret2 \<noteq> Z_OK \<or> adler \<noteq> m_adler zp then Some Nothing
                     else unzip_loop inflate set_dict f zp z2 inp1 out1 n)
               else unzip_loop inflate set_dict f zp z1 inp1 out1 n)
            else if hard_error ret then Some Nothing
            else unzip_loop inflate set_dict f zp z1 inp1 out1 n))"

text \<open>\<open>init\<close> is what \<^verbatim>\<open>inflateInit\<close> makes, if it succeeds.\<close>

definition unzip ::
    "'z coder \<Rightarrow> ('z \<Rightarrow> u8 list \<Rightarrow> zret \<times> u64 \<times> 'z) \<Rightarrow> 'z option \<Rightarrow> nat \<Rightarrow> u8 list \<Rightarrow> zip \<Rightarrow> zresult option" where
  "unzip inflate set_dict init f src zp =
     (if src = [] then Some Nothing
      else
        (case init of
           None \<Rightarrow> Some Nothing
         | Some z \<Rightarrow> unzip_loop inflate set_dict f zp z (avail src) [] (length src * f mod 2 ^ 64)))"

section \<open>zip\<close>

partial_function (option) zip_loop :: "'z coder \<Rightarrow> 'z \<Rightarrow> u8 list \<Rightarrow> u8 list \<Rightarrow> nat \<Rightarrow> zresult option" where
  "zip_loop deflate z inp out n =
     (if inp = [] then Some (Data out)
      else if length out \<ge> n then None
      else
        (let avail_out = uInt (n - length out);
             (ret, k, ys, z1) = deflate z inp avail_out;
             inp1 = drop k inp; out1 = out @ ys
         in if ret = Z_STREAM_END \<or> ret = Z_MEM_ERROR then Some (Data out1)
            else if ret = Z_BUF_ERROR \<or> avail_out - length ys = 0 then zip_loop deflate z1 inp1 out1 (n * 2 mod 2 ^ 64)
            else if hard_error ret then Some Nothing
            else zip_loop deflate z1 inp1 out1 n))"

definition zip_level :: "int \<Rightarrow> int" where
  "zip_level level = (if level > 9 \<or> level \<le> - 2 then - 1 else level)"

definition zip_data ::
    "'z coder \<Rightarrow> ('z \<Rightarrow> u8 list \<Rightarrow> zret \<times> u64 \<times> 'z) \<Rightarrow> (int \<Rightarrow> 'z option) \<Rightarrow> ('z \<Rightarrow> nat \<Rightarrow> nat) \<Rightarrow> u8 list \<Rightarrow> int \<Rightarrow> zip \<Rightarrow>
     (zresult \<times> zip) option" where
  "zip_data deflate set_dict init bound src level zp =
     (if src = [] then Some (Nothing, zp)
      else
        (case init (zip_level level) of
           None \<Rightarrow> Some (Nothing, zp)
         | Some z \<Rightarrow>
             (let (ret, adler, z1) = (if m_dict zp \<noteq> [] then set_dict z (avail (m_dict zp)) else (Z_OK, m_adler zp, z))
              in if ret \<noteq> Z_OK then Some (Nothing, zp)
                 else
                   (let zp1 = zp\<lparr>m_adler := adler\<rparr>
                    in map_option (\<lambda>r. (r, zp1)) (zip_loop deflate z1 (avail src) [] (bound z1 (length src)))))))"

section \<open>Properties\<close>

text \<open>
  What zlib documents of \<^verbatim>\<open>inflate\<close> on a whole stream: in the state \<open>z\<close> with the rest \<open>s\<close> of a stream whose
  data still to come are \<open>d\<close>, and with input and space, it writes as much of \<open>d\<close> as it can: either all of it,
  and then reports the end of the stream, or as much as there is space for. In the second case it may have
  taken any part of the input, also all of it: more of the data can be pending inside.
\<close>

definition inflates :: "'z coder \<Rightarrow> ('z \<Rightarrow> u8 list \<Rightarrow> u8 list \<Rightarrow> bool) \<Rightarrow> bool" where
  "inflates inflate R \<longleftrightarrow>
     (\<forall>z s d n. R z s d \<and> s \<noteq> [] \<and> 0 < n \<longrightarrow>
       (case inflate z s n of (ret, k, ys, z1) \<Rightarrow>
          length ys \<le> n \<and> ys = take (length ys) d \<and>
          (ret = Z_STREAM_END \<and> ys = d \<or> ret = Z_OK \<and> length ys = n \<and> k \<le> length s \<and> R z1 (drop k s) (drop n d))))"

text \<open>
  The loop of \<^verbatim>\<open>unzip\<close> ends with the input. A decoder that leaves input unread while data are pending is
  called again until they are written (zlib's decoder leaves at least the checksum behind the data).
\<close>

definition leaves_input :: "'z coder \<Rightarrow> ('z \<Rightarrow> u8 list \<Rightarrow> u8 list \<Rightarrow> bool) \<Rightarrow> bool" where
  "leaves_input inflate R \<longleftrightarrow>
     (\<forall>z s d n. R z s d \<and> s \<noteq> [] \<and> 0 < n \<and> n < length d \<longrightarrow>
       (case inflate z s n of (ret, k, ys, z1) \<Rightarrow> k < length s))"

lemma unzip_loop_inflates:
  assumes i: "inflates inflate R" and f: "1 < f"
  shows "\<lbrakk>R z s d; s \<noteq> []; length out < n; n < 2 ^ 32; (length out + length d) * f < 2 ^ 32\<rbrakk> \<Longrightarrow>
    \<exists>m. unzip_loop inflate set_dict f zp z s out n = Some (Data (out @ take m d)) \<and>
      (length out + length d \<le> n \<or> leaves_input inflate R \<longrightarrow> take m d = d)"
proof (induction "length d" arbitrary: z s d out n rule: less_induct)
  case less
  let ?room = "n - length out"
  obtain ret k ys z1 where c: "inflate z s ?room = (ret, k, ys, z1)" by (metis prod_cases4)
  have room: "uInt ?room = ?room" using less.prems(4) by simp
  have h: "ys = take (length ys) d"
    "ret = Z_STREAM_END \<and> ys = d \<or> ret = Z_OK \<and> length ys = ?room \<and> k \<le> length s \<and> R z1 (drop k s) (drop ?room d)"
    using i [unfolded inflates_def, rule_format, of z s d ?room] less.prems c by auto
  show ?case
  proof (cases "ret = Z_STREAM_END")
    case True
    then have "unzip_loop inflate set_dict f zp z s out n = Some (Data (out @ take (length d) d))"
      using c h less.prems room by (subst unzip_loop.simps) auto
    then show ?thesis by (rule_tac x = "length d" in exI) simp
  next
    case False
    with h(2) have o: "ret = Z_OK" "length ys = ?room" "R z1 (drop k s) (drop ?room d)" by auto
    have len: "?room \<le> length d" using h(1) o(2) by (metis length_take min.cobounded1)
    have n: "length out + ?room = n" using less.prems(3) by simp
    have "n * f \<le> (length out + length d) * f" using n len by (intro mult_le_mono1) simp
    then have fits: "n * f < 2 ^ 32" using less.prems(5) by linarith
    have grown: "n < n * f" using mult_less_mono2 [OF f, of n] less.prems(3) by simp
    have step: "unzip_loop inflate set_dict f zp z s out n = unzip_loop inflate set_dict f zp z1 (drop k s) (out @ ys) (n * f)"
      using c o(1,2) less.prems(2,3) room fits by (subst unzip_loop.simps) (simp add: hard_error_def)
    have ys: "ys = take ?room d" using h(1) o(2) by simp
    show ?thesis
    proof (cases "drop k s = []")
      case True
      have "unzip_loop inflate set_dict f zp z s out n = Some (Data (out @ take ?room d))"
        unfolding step True ys by (subst unzip_loop.simps) simp
      moreover have "take ?room d = d" if "leaves_input inflate R"
        using that [unfolded leaves_input_def, rule_format, of z s d ?room] c less.prems(1-3) True by fastforce
      moreover have "take ?room d = d" if "length out + length d \<le> n" using that by simp
      ultimately show ?thesis by blast
    next
      case False
      have total: "length (out @ ys) + length (drop ?room d) = length out + length d" using len o(2) by simp
      have short: "length (drop ?room d) < length d" using len less.prems(3) by simp
      have "length (out @ ys) < n * f" using grown n o(2) by simp
      note ih = less.hyps [OF short o(3) False this fits, unfolded total, OF less.prems(5)]
      then obtain m where m: "unzip_loop inflate set_dict f zp z1 (drop k s) (out @ ys) (n * f) =
          Some (Data ((out @ ys) @ take m (drop ?room d)))"
        "length out + length d \<le> n * f \<or> leaves_input inflate R \<longrightarrow> take m (drop ?room d) = drop ?room d" by blast
      have eq: "take (?room + m) d = ys @ take m (drop ?room d)" using ys by (simp add: take_add)
      have all: "ys @ drop ?room d = d" using ys by simp
      from m have "unzip_loop inflate set_dict f zp z s out n = Some (Data (out @ take (?room + m) d))"
        unfolding step eq by simp
      moreover have "take (?room + m) d = d" if "length out + length d \<le> n \<or> leaves_input inflate R"
      proof -
        have "length out + length d \<le> n * f \<or> leaves_input inflate R" using that grown by linarith
        with m(2) show ?thesis unfolding eq using all by simp
      qed
      ultimately show ?thesis by blast
    qed
  qed
qed


text \<open>A decoder for streams of a byte and a number: the byte so many times, then a last byte.\<close>

definition ex_inflate :: "nat coder" where
  "ex_inflate z s n =
     (if z \<le> n then (Z_STREAM_END, length s, replicate z (hd s), 0) else (Z_OK, 0, replicate n (hd s), z - n))"

definition ex_stream :: "nat \<Rightarrow> u8 list \<Rightarrow> u8 list \<Rightarrow> bool" where
  "ex_stream z s d \<longleftrightarrow> s \<noteq> [] \<and> d = replicate z (hd s)"

lemma ex_inflates: "inflates ex_inflate ex_stream"
  by (auto simp: inflates_def ex_inflate_def ex_stream_def min_def)

lemma ex_leaves: "leaves_input ex_inflate ex_stream"
  by (auto simp: leaves_input_def ex_inflate_def ex_stream_def)


text \<open>
  A decoder that keeps what zlib documents, but takes all its input with the first byte it writes: the
  loop ends with the input, and the rest of the data is lost.
\<close>

definition greedy_inflate :: "u8 list coder" where
  "greedy_inflate z s n =
     (let d = z @ s in if length d \<le> n then (Z_STREAM_END, length s, d, []) else (Z_OK, length s, take n d, drop n d))"

lemma greedy_inflates: "inflates greedy_inflate (\<lambda>z s d. d = z @ s)"
  by (auto simp: inflates_def greedy_inflate_def Let_def simp del: take_append drop_append)

theorem unzip_loses_pending:
  "unzip greedy_inflate (\<lambda>z d. (Z_OK, 0, z)) (Some [1, 2, 3]) 2 [4] (Zip None) = Some (Data [1, 2])"
  by (simp add: unzip_def unzip_loop.simps greedy_inflate_def hard_error_def)


text \<open>The stored form: the data and a last byte.\<close>

definition copy_inflate :: "unit coder" where
  "copy_inflate z s n =
     (if length s \<le> n + 1 then (Z_STREAM_END, length s, butlast s, ()) else (Z_OK, n, take n s, ()))"

lemma copy_inflates: "inflates copy_inflate (\<lambda>_ s d. s \<noteq> [] \<and> d = butlast s)"
proof -
  have "take n s = take n (butlast s)" "drop n s \<noteq> []" "drop n (butlast s) = butlast (drop n s)"
    if "\<not> length s \<le> n + 1" for n and s :: "u8 list"
    using that by (auto simp: butlast_conv_take drop_take)
  then show ?thesis by (auto simp: inflates_def copy_inflate_def)
qed

lemma copy_leaves: "leaves_input copy_inflate (\<lambda>_ s d. s \<noteq> [] \<and> d = butlast s)"
  by (auto simp: leaves_input_def copy_inflate_def)


text \<open>
  A stream that needs a dictionary makes \<^verbatim>\<open>unzip\<close> run for ever in an object without one: zlib keeps
  asking for the dictionary without taking any input, and the loop only ends with the input.
\<close>

theorem unzip_needs_dictionary:
  assumes "\<And>n. inflate z0 src n = (Z_NEED_DICT, k, [], z1)" "k < length src" "0 < f"
    and "\<And>n. inflate z1 (drop k src) n = (Z_NEED_DICT, 0, [], z1)" "m_dict zp = []" "length src * f < 2 ^ 32"
  shows "unzip inflate set_dict (Some z0) f src zp = None"
proof -
  let ?s = "drop k src" let ?n = "length src * f"
  have n: "0 < ?n" using assms(2,3) by (cases src) auto
  have k: "\<not> length src \<le> k" using assms(2) by simp
  have "length src \<le> ?n" using assms(3) by simp
  then have small: "length src < 2 ^ 32" "uInt ?n = ?n" using assms(6) by (linarith, simp)
  have stuck: "unzip_loop inflate set_dict f zp z1 ?s [] ?n = None"
  proof (rule ccontr)
    assume "unzip_loop inflate set_dict f zp z1 ?s [] ?n \<noteq> None"
    then obtain r where r: "unzip_loop inflate set_dict f zp z1 ?s [] ?n = Some r" by blast
    have "\<not> (inflate = inflate \<and> zp = zp \<and> z1 = z1 \<and> ?s = ?s \<and> [] = ([] :: u8 list) \<and> ?n = ?n)"
    proof (rule unzip_loop.raw_induct [where P = "\<lambda>i _ f' zp' z s out n _. \<not> (i = inflate \<and> zp' = zp \<and> z = z1 \<and> s = ?s \<and> out = [] \<and> n = ?n)", OF _ r], rule notI, elim conjE, goal_cases)
      case (1 rec i d g zp' z s out m y)
      have "rec inflate d g zp z1 ?s [] ?n = Some y"
        using 1(2) n small(2) k by (simp add: 1(3-) Let_def assms(4,5) del: mult_is_0)
      then show False using 1(1) by blast
    qed
    then show False by simp
  qed
  have "src \<noteq> []" using assms(2) by auto
  then show ?thesis using assms(1,5,6) n stuck small
    by (simp add: unzip_def) (subst unzip_loop.simps, simp add: Let_def)
qed

theorem unzip_needs_dictionary_witness:
  "unzip (\<lambda>z s n. (Z_NEED_DICT, if z then 6 else 0, [], False)) (\<lambda>z d. (Z_OK, 0, z)) (Some True) 2
     [0x78, 0xBB, 1, 2, 3, 4, 5, 6] (Zip None) = None"
  by (rule unzip_needs_dictionary [where k = 6 and ?z1.0 = False]) (simp_all add: Zip_def)

text \<open>
  A stream that was cut off is taken for a whole one: the loop ends with the input, and what has been
  written until then is returned as the data.
\<close>

theorem truncated_accepted:
  assumes "src \<noteq> []" "inflate z src (length src * f) = (Z_OK, length src, ys, z1)" "length ys < length src * f"
    "length src * f < 2 ^ 32"
  shows "unzip inflate set_dict (Some z) f src zp = Some (Data ys)"
proof -
  have "unzip_loop inflate set_dict f zp z1 [] ys (length src * f) = Some (Data ys)"
    by (subst unzip_loop.simps) simp
  moreover have f: "0 < f" using assms(3) by (cases f) auto
  have "length src \<le> length src * f" using f by simp
  then have "length src < 2 ^ 32" using assms(4) by linarith
  ultimately show ?thesis using assms f
    by (simp add: unzip_def) (subst unzip_loop.simps, simp add: hard_error_def Let_def)
qed

end
