(* ===== verification/Lua_Api.thy ===== *)
theory Lua_Api
  imports Number_Format
begin

text \<open>
  \<^verbatim>\<open>script/luajit/src/lj_api.c\<close>: the functions of the Lua C API that the binding uses, on the stack of
  the running C function (top first), its upvalues, and a heap of tables, functions and
  userdata. A table is the function from its keys to its values, with nil for what is absent.
  \<open>None\<close> is a call that the API does not allow, or a metamethod of the script's own, which is outside
  this model. Numbers are finite doubles, given by their values; garbage collection and the
  exhaustion of memory are not modelled.
\<close>

section \<open>Values and state\<close>

datatype lval = LNil | LBool bool | LLight nat | LNum rat | LStr string | LTab nat | LFun nat | LUd nat

record ltab =
  t_fields :: "lval \<Rightarrow> lval"
  t_meta :: "nat option"

text \<open>
  \<open>l_next\<close> is the next free address. The last three fields are functions of the interpreter that
  never change: the text of a number, the number in a text, and the length of a table.
\<close>

record ('f, 'u) lua =
  l_stack :: "lval list"
  l_up :: "lval list"
  l_tab :: "nat \<Rightarrow> ltab"
  l_fun :: "nat \<Rightarrow> 'f \<times> lval list"
  l_ud :: "nat \<Rightarrow> 'u \<times> nat option"
  l_nilmeta :: "nat option"
  l_next :: nat
  l_globals :: nat
  l_fromnumber :: "rat \<Rightarrow> string"
  l_scan :: "string \<Rightarrow> rat option"
  l_border :: "(lval \<Rightarrow> lval) \<Rightarrow> nat"

text \<open>A function of the API returns a value or raises a Lua error.\<close>

datatype ('a, 's) outcome = Done 'a 's | Raised lval 's

type_synonym ('s, 'a) lm = "'s \<Rightarrow> ('a, 's) outcome option"

definition retL :: "'a \<Rightarrow> ('s, 'a) lm" where
  "retL x s = Some (Done x s)"

definition bindL :: "('s, 'a) lm \<Rightarrow> ('a \<Rightarrow> ('s, 'b) lm) \<Rightarrow> ('s, 'b) lm" where
  "bindL m f s = Option.bind (m s) (\<lambda>r. case r of Done x s1 \<Rightarrow> f x s1 | Raised v s1 \<Rightarrow> Some (Raised v s1))"

primrec steps :: "('s, unit) lm list \<Rightarrow> ('s, unit) lm" where
  "steps [] = retL ()"
| "steps (a # as) = bindL a (\<lambda>_. steps as)"

definition getL :: "('s \<Rightarrow> 'a) \<Rightarrow> ('s, 'a) lm" where
  "getL f s = Some (Done (f s) s)"

definition modL :: "('s \<Rightarrow> 's) \<Rightarrow> ('s, unit) lm" where
  "modL f s = Some (Done () (f s))"

definition undefL :: "('s, 'a) lm" where
  "undefL s = None"

definition ofL :: "'a option \<Rightarrow> ('s, 'a) lm" where
  "ofL x s = map_option (\<lambda>y. Done y s) x"

section \<open>Indices\<close>

definition LUA_GLOBALSINDEX :: int where "LUA_GLOBALSINDEX = - 10002"

definition lua_upvalueindex :: "int \<Rightarrow> int" where
  "lua_upvalueindex i = LUA_GLOBALSINDEX - i"

text \<open>The position in a stack of \<open>n\<close> values.\<close>

definition stkindex2adr :: "int \<Rightarrow> nat \<Rightarrow> nat option" where
  "stkindex2adr idx n =
     (if idx > 0 then (if idx \<le> int n then Some (n - nat idx) else None)
      else if idx < 0 \<and> - idx \<le> int n then Some (nat (- idx) - 1)
      else None)"

text \<open>A positive index above the top is valid and has the value nil.\<close>

definition index2adr :: "int \<Rightarrow> ('f, 'u, 'z) lua_scheme \<Rightarrow> lval option" where
  "index2adr idx s =
     (if idx = LUA_GLOBALSINDEX then Some (LTab (l_globals s))
      else if idx < LUA_GLOBALSINDEX then
        (let i = nat (LUA_GLOBALSINDEX - idx)
         in Some (if i \<le> length (l_up s) then l_up s ! (i - 1) else LNil))
      else
        (case stkindex2adr idx (length (l_stack s)) of
           Some p \<Rightarrow> Some (l_stack s ! p)
         | None \<Rightarrow> if idx > 0 then Some LNil else None))"

definition at_index :: "int \<Rightarrow> (lval \<Rightarrow> ('f, 'u, 'z) lua_scheme \<Rightarrow> 'a) \<Rightarrow> (('f, 'u, 'z) lua_scheme, 'a) lm" where
  "at_index idx f s = map_option (\<lambda>v. Done (f v s) s) (index2adr idx s)"

section \<open>The stack\<close>

definition pushv :: "lval \<Rightarrow> ('f, 'u, 'z) lua_scheme \<Rightarrow> ('f, 'u, 'z) lua_scheme" where
  "pushv v s = s\<lparr>l_stack := v # l_stack s\<rparr>"

definition lua_gettop :: "('f, 'u, 'z) lua_scheme \<Rightarrow> int" where
  "lua_gettop s = int (length (l_stack s))"

definition lua_settop :: "int \<Rightarrow> (('f, 'u, 'z) lua_scheme, unit) lm" where
  "lua_settop idx s =
     (let st = l_stack s; n = length st
      in if idx \<ge> 0 then
           Some (Done () (s\<lparr>l_stack := (if int n < idx then replicate (nat idx - n) LNil @ st else drop (n - nat idx) st)\<rparr>))
         else if - (idx + 1) \<le> int n then Some (Done () (s\<lparr>l_stack := drop (nat (- (idx + 1))) st\<rparr>))
         else None)"

definition lua_pop :: "int \<Rightarrow> (('f, 'u, 'z) lua_scheme, unit) lm" where
  "lua_pop n = lua_settop (- n - 1)"

definition lua_remove :: "int \<Rightarrow> (('f, 'u, 'z) lua_scheme, unit) lm" where
  "lua_remove idx s =
     (case stkindex2adr idx (length (l_stack s)) of
        None \<Rightarrow> None
      | Some p \<Rightarrow> Some (Done () (s\<lparr>l_stack := take p (l_stack s) @ drop (Suc p) (l_stack s)\<rparr>)))"

definition lua_pushvalue :: "int \<Rightarrow> (('f, 'u, 'z) lua_scheme, unit) lm" where
  "lua_pushvalue idx s = map_option (\<lambda>v. Done () (pushv v s)) (index2adr idx s)"

section \<open>Types and conversions\<close>

definition lua_isfunction :: "lval \<Rightarrow> bool" where "lua_isfunction v \<longleftrightarrow> (\<exists>a. v = LFun a)"
definition lua_istable :: "lval \<Rightarrow> bool" where "lua_istable v \<longleftrightarrow> (\<exists>a. v = LTab a)"
definition lua_isnil :: "lval \<Rightarrow> bool" where "lua_isnil v \<longleftrightarrow> v = LNil"
definition lua_isboolean :: "lval \<Rightarrow> bool" where "lua_isboolean v \<longleftrightarrow> (\<exists>b. v = LBool b)"

definition lua_isuserdata :: "lval \<Rightarrow> bool" where
  "lua_isuserdata v \<longleftrightarrow> (case v of LUd _ \<Rightarrow> True | LLight _ \<Rightarrow> True | _ \<Rightarrow> False)"

definition lua_isnumber :: "lval \<Rightarrow> ('f, 'u, 'z) lua_scheme \<Rightarrow> bool" where
  "lua_isnumber v s \<longleftrightarrow> (case v of LNum _ \<Rightarrow> True | LStr str \<Rightarrow> l_scan s str \<noteq> None | _ \<Rightarrow> False)"

definition lua_tonumber :: "lval \<Rightarrow> ('f, 'u, 'z) lua_scheme \<Rightarrow> rat" where
  "lua_tonumber v s =
     (case v of LNum x \<Rightarrow> x | LStr str \<Rightarrow> (case l_scan s str of Some x \<Rightarrow> x | None \<Rightarrow> 0) | _ \<Rightarrow> 0)"

definition lua_toboolean :: "lval \<Rightarrow> bool" where
  "lua_toboolean v \<longleftrightarrow> v \<noteq> LNil \<and> v \<noteq> LBool False"

text \<open>A number on the stack is replaced by its text; \<open>None\<close> is the null pointer.\<close>

definition lua_tostring :: "int \<Rightarrow> (('f, 'u, 'z) lua_scheme, string option) lm" where
  "lua_tostring idx s =
     (case index2adr idx s of
        None \<Rightarrow> None
      | Some (LStr str) \<Rightarrow> Some (Done (Some str) s)
      | Some (LNum x) \<Rightarrow>
          (case stkindex2adr idx (length (l_stack s)) of
             Some p \<Rightarrow> Some (Done (Some (l_fromnumber s x)) (s\<lparr>l_stack := (l_stack s)[p := LStr (l_fromnumber s x)]\<rparr>))
           | None \<Rightarrow> None)
      | Some _ \<Rightarrow> Some (Done None s))"

text \<open>
  An address stands for the object that has it; texts are the same object if they are equal.
\<close>

definition lua_topointer :: "lval \<Rightarrow> lval option" where
  "lua_topointer v =
     (case v of LNil \<Rightarrow> None | LBool _ \<Rightarrow> None | LNum _ \<Rightarrow> None | LLight p \<Rightarrow> if p = 0 then None else Some v | _ \<Rightarrow> Some v)"

section \<open>Pushing values\<close>

definition lua_pushnil :: "(('f, 'u, 'z) lua_scheme, unit) lm" where
  "lua_pushnil = modL (pushv LNil)"

definition lua_pushnumber :: "rat \<Rightarrow> (('f, 'u, 'z) lua_scheme, unit) lm" where
  "lua_pushnumber x = modL (pushv (LNum x))"

text \<open>The nearest double of a 64-bit integer.\<close>

fun bit_length :: "nat \<Rightarrow> nat" where
  "bit_length n = (if n = 0 then 0 else Suc (bit_length (n div 2)))"

declare bit_length.simps [simp del]

definition to_double :: "int \<Rightarrow> rat" where
  "to_double n =
     (let a = nat \<bar>n\<bar>
      in if a \<le> 2 ^ 53 then of_int n
         else (let e = bit_length a - 53 in of_int (round_even (of_int n / 2 ^ e) * 2 ^ e)))"

definition lua_pushinteger :: "int \<Rightarrow> (('f, 'u, 'z) lua_scheme, unit) lm" where
  "lua_pushinteger n = modL (pushv (LNum (to_double n)))"

definition lua_pushboolean :: "bool \<Rightarrow> (('f, 'u, 'z) lua_scheme, unit) lm" where
  "lua_pushboolean b = modL (pushv (LBool b))"

definition lua_pushstring :: "string option \<Rightarrow> (('f, 'u, 'z) lua_scheme, unit) lm" where
  "lua_pushstring str = modL (pushv (case str of None \<Rightarrow> LNil | Some x \<Rightarrow> LStr x))"

definition lua_pushlightuserdata :: "nat \<Rightarrow> (('f, 'u, 'z) lua_scheme, unit) lm" where
  "lua_pushlightuserdata p = modL (pushv (LLight p))"

definition lua_pushcclosure :: "'f \<Rightarrow> nat \<Rightarrow> (('f, 'u, 'z) lua_scheme, unit) lm" where
  "lua_pushcclosure f n s =
     (if n \<le> length (l_stack s) then
        Some (Done () (s\<lparr>l_stack := LFun (l_next s) # drop n (l_stack s), l_next := l_next s + 1,
                         l_fun := (l_fun s)(l_next s := (f, rev (take n (l_stack s))))\<rparr>))
      else None)"

definition lua_newtable :: "(('f, 'u, 'z) lua_scheme, unit) lm" where
  "lua_newtable = modL (\<lambda>s. s\<lparr>l_stack := LTab (l_next s) # l_stack s, l_next := l_next s + 1,
     l_tab := (l_tab s)(l_next s := \<lparr>t_fields = (\<lambda>_. LNil), t_meta = None\<rparr>)\<rparr>)"

text \<open>With what is constructed in its memory.\<close>

definition lua_newuserdata :: "'u \<Rightarrow> (('f, 'u, 'z) lua_scheme, unit) lm" where
  "lua_newuserdata u = modL (\<lambda>s. s\<lparr>l_stack := LUd (l_next s) # l_stack s, l_next := l_next s + 1,
     l_ud := (l_ud s)(l_next s := (u, None))\<rparr>)"

section \<open>Tables\<close>

definition raw_fields :: "nat \<Rightarrow> ('f, 'u, 'z) lua_scheme \<Rightarrow> lval \<Rightarrow> lval" where
  "raw_fields a s = t_fields (l_tab s a)"

definition set_field :: "nat \<Rightarrow> lval \<Rightarrow> lval \<Rightarrow> ('f, 'u, 'z) lua_scheme \<Rightarrow> ('f, 'u, 'z) lua_scheme" where
  "set_field a k v s = s\<lparr>l_tab := (l_tab s)(a := (l_tab s a)\<lparr>t_fields := (t_fields (l_tab s a))(k := v)\<rparr>)\<rparr>"

text \<open>Whether a table has no metamethod of this name.\<close>

definition no_meta :: "string \<Rightarrow> nat \<Rightarrow> ('f, 'u, 'z) lua_scheme \<Rightarrow> bool" where
  "no_meta ev a s \<longleftrightarrow> (case t_meta (l_tab s a) of None \<Rightarrow> True | Some m \<Rightarrow> raw_fields m s (LStr ev) = LNil)"

definition index_error :: "('f, 'u, 'z) lua_scheme \<Rightarrow> lval \<Rightarrow> ('a, ('f, 'u, 'z) lua_scheme) outcome option" where
  "index_error s v =
     (case v of
        LUd a \<Rightarrow> if snd (l_ud s a) = None then Some (Raised (LStr ''attempt to index'') s) else None
      | LStr _ \<Rightarrow> None
      | LNil \<Rightarrow> if l_nilmeta s = None then Some (Raised (LStr ''attempt to index'') s) else None
      | _ \<Rightarrow> Some (Raised (LStr ''attempt to index'') s))"

definition lua_gettable :: "int \<Rightarrow> (('f, 'u, 'z) lua_scheme, unit) lm" where
  "lua_gettable idx s =
     (case (index2adr idx s, l_stack s) of
        (Some (LTab a), k # st) \<Rightarrow>
          (if raw_fields a s k \<noteq> LNil \<or> no_meta ''__index'' a s
           then Some (Done () (s\<lparr>l_stack := raw_fields a s k # st\<rparr>)) else None)
      | (Some v, k # st) \<Rightarrow> index_error s v
      | _ \<Rightarrow> None)"

definition lua_settable :: "int \<Rightarrow> (('f, 'u, 'z) lua_scheme, unit) lm" where
  "lua_settable idx s =
     (case (index2adr idx s, l_stack s) of
        (Some (LTab a), v # k # st) \<Rightarrow>
          (if raw_fields a s k \<noteq> LNil \<or> no_meta ''__newindex'' a s
           then (if k = LNil then Some (Raised (LStr ''table index is nil'') s)
                 else Some (Done () (set_field a k v (s\<lparr>l_stack := st\<rparr>))))
           else None)
      | (Some x, v # k # st) \<Rightarrow> index_error s x
      | _ \<Rightarrow> None)"

definition lua_rawget :: "int \<Rightarrow> (('f, 'u, 'z) lua_scheme, unit) lm" where
  "lua_rawget idx s =
     (case (index2adr idx s, l_stack s) of
        (Some (LTab a), k # st) \<Rightarrow> Some (Done () (s\<lparr>l_stack := raw_fields a s k # st\<rparr>))
      | _ \<Rightarrow> None)"

definition lua_rawgeti :: "int \<Rightarrow> int \<Rightarrow> (('f, 'u, 'z) lua_scheme, unit) lm" where
  "lua_rawgeti idx n s =
     (case index2adr idx s of
        Some (LTab a) \<Rightarrow> Some (Done () (pushv (raw_fields a s (LNum (of_int n))) s))
      | _ \<Rightarrow> None)"

definition lua_rawset :: "int \<Rightarrow> (('f, 'u, 'z) lua_scheme, unit) lm" where
  "lua_rawset idx s =
     (case (index2adr idx s, l_stack s) of
        (Some (LTab a), v # k # st) \<Rightarrow>
          (if k = LNil then Some (Raised (LStr ''table index is nil'') s)
           else Some (Done () (set_field a k v (s\<lparr>l_stack := st\<rparr>))))
      | _ \<Rightarrow> None)"

definition lua_rawseti :: "int \<Rightarrow> int \<Rightarrow> (('f, 'u, 'z) lua_scheme, unit) lm" where
  "lua_rawseti idx n s =
     (case (index2adr idx s, l_stack s) of
        (Some (LTab a), v # st) \<Rightarrow> Some (Done () (set_field a (LNum (of_int n)) v (s\<lparr>l_stack := st\<rparr>)))
      | _ \<Rightarrow> None)"

definition lua_getmetatable :: "int \<Rightarrow> (('f, 'u, 'z) lua_scheme, unit) lm" where
  "lua_getmetatable idx s =
     (let found = (\<lambda>m. Some (Done () (case m of None \<Rightarrow> s | Some a \<Rightarrow> pushv (LTab a) s)))
      in case index2adr idx s of
           None \<Rightarrow> None
         | Some (LTab a) \<Rightarrow> found (t_meta (l_tab s a))
         | Some (LUd a) \<Rightarrow> found (snd (l_ud s a))
         | Some LNil \<Rightarrow> found (l_nilmeta s)
         | Some (LStr _) \<Rightarrow> None
         | Some _ \<Rightarrow> found None)"

text \<open>The metatable of nil is one for all nils; those of the other plain types are not modelled.\<close>

definition lua_setmetatable :: "int \<Rightarrow> (('f, 'u, 'z) lua_scheme, unit) lm" where
  "lua_setmetatable idx s =
     (case (index2adr idx s, l_stack s) of
        (Some v, m # st) \<Rightarrow>
          (if m = LNil \<or> lua_istable m then
             (let mt = (case m of LTab a \<Rightarrow> Some a | _ \<Rightarrow> None); s1 = s\<lparr>l_stack := st\<rparr>
              in case v of
                   LTab a \<Rightarrow> Some (Done () (s1\<lparr>l_tab := (l_tab s)(a := (l_tab s a)\<lparr>t_meta := mt\<rparr>)\<rparr>))
                 | LUd a \<Rightarrow> Some (Done () (s1\<lparr>l_ud := (l_ud s)(a := (fst (l_ud s a), mt))\<rparr>))
                 | LNil \<Rightarrow> Some (Done () (s1\<lparr>l_nilmeta := mt\<rparr>))
                 | _ \<Rightarrow> None)
           else None)
      | _ \<Rightarrow> None)"

text \<open>\<^verbatim>\<open>luaL_getn\<close> of a table.\<close>

definition lua_objlen :: "int \<Rightarrow> (('f, 'u, 'z) lua_scheme, int) lm" where
  "lua_objlen idx s =
     (case index2adr idx s of
        Some (LTab a) \<Rightarrow> Some (Done (int (l_border s (raw_fields a s))) s)
      | _ \<Rightarrow> None)"

definition lua_error :: "(('f, 'u, 'z) lua_scheme, 'a) lm" where
  "lua_error s = (case l_stack s of v # st \<Rightarrow> Some (Raised v s) | [] \<Rightarrow> None)"

end
