(* ===== verification/Lua_Tinker.thy ===== *)
theory Lua_Tinker
  imports Lua_Api
begin

text \<open>
  \<^verbatim>\<open>script/lua_tinker.*\<close>: the binding of C++ values, functions and classes to Lua, over the API of
  theory Lua_Api. A type parameter of a template is a value of \<open>ctype\<close>, a C++ class is a number
  and an object a pointer into the program's own state. \<open>run\<close> is what calling a function from C
  does (the interpreter, which runs functions of the script); the \<open>float\<close> conversions and the
  enumerations are left out.
\<close>

section \<open>Types, values and the state\<close>

datatype ctype = Void_t | Bool_t | Int_t bool nat | Double_t | Cstr_t | S64_t | U64_t | Table_t | Obj_t nat

text \<open>\<open>CStr None\<close> and \<open>CPtr 0\<close> are null pointers; a table is the number of its \<^verbatim>\<open>table_obj\<close>.\<close>

datatype cval = CVoid | CBool bool | CInt int | CDouble rat | CStr "string option" | CPtr nat | CTable nat

text \<open>
  What is constructed in userdata: a 64-bit integer, a \<^verbatim>\<open>user\<close> (owning its object or not), a
  \<^verbatim>\<open>mem_var\<close> (the class, the type, reading and writing the member) and a pointer to a member function.
\<close>

datatype 'w ucontent = Bits u64 | User nat bool
  | MemVar nat ctype "nat \<Rightarrow> 'w \<Rightarrow> cval" "nat \<Rightarrow> cval \<Rightarrow> 'w \<Rightarrow> 'w"
  | Method "nat \<Rightarrow> cval list \<Rightarrow> 'w \<Rightarrow> (cval \<times> 'w) option"

text \<open>The C functions of closures, with the type parameters of the templates; and functions of the script.\<close>

datatype 'w cfun = On_error | Meta_get | Meta_set | Destroyer
  | Constructor nat "ctype list" "cval list \<Rightarrow> 'w \<Rightarrow> nat \<times> 'w"
  | Functor ctype "ctype list" | Mem_functor ctype nat "ctype list"
  | Tostring_s64 | Eq_s64 | Lt_s64 | Le_s64 | Tostring_u64 | Eq_u64 | Lt_u64 | Le_u64
  | Script nat

record table_obj =
  m_index :: int
  m_pointer :: "lval option"
  m_ref :: int

text \<open>
  The program's state, what was logged, \<^verbatim>\<open>class_name<T>\<close> of each class, the functions behind
  function pointers, how an object of the program is deleted, and the \<^verbatim>\<open>table_obj\<close>s.
\<close>

record 'w tinker = "('w cfun, 'w ucontent) lua" +
  t_world :: 'w
  t_log :: "string list"
  t_names :: "nat \<Rightarrow> string"
  t_code :: "nat \<Rightarrow> cval list \<Rightarrow> 'w \<Rightarrow> (cval \<times> 'w) option"
  t_delete :: "nat \<Rightarrow> 'w \<Rightarrow> 'w"
  t_objs :: "nat \<Rightarrow> table_obj option"
  t_nobj :: nat

type_synonym ('w, 'a) tk = "('w tinker, 'a) lm"

type_synonym 'w runner = "lval \<Rightarrow> lval list \<Rightarrow> ('w, lval list) tk"

definition str :: "string \<Rightarrow> ('w, unit) tk" where
  "str x = lua_pushstring (Some x)"

section \<open>Table objects\<close>

definition table_obj :: "int \<Rightarrow> ('w, nat) tk" where
  "table_obj index s =
     (case index2adr index s of
        None \<Rightarrow> None
      | Some v \<Rightarrow>
          Some (Done (t_nobj s) (s\<lparr>t_objs := (t_objs s)(t_nobj s \<mapsto> \<lparr>m_index = index, m_pointer = lua_topointer v, m_ref = 0\<rparr>),
                                   t_nobj := t_nobj s + 1\<rparr>)))"

definition inc_ref :: "nat \<Rightarrow> ('w, unit) tk" where
  "inc_ref t s =
     (case t_objs s t of None \<Rightarrow> None
      | Some ob \<Rightarrow> Some (Done () (s\<lparr>t_objs := (t_objs s)(t \<mapsto> ob\<lparr>m_ref := m_ref ob + 1\<rparr>)\<rparr>)))"

text \<open>\<^verbatim>\<open>table(L, index)\<close>.\<close>

definition table_at :: "int \<Rightarrow> ('w, nat) tk" where
  "table_at index s =
     (let i = (if index < 0 then lua_gettop s + index + 1 else index)
      in bindL (table_obj i) (\<lambda>t. bindL (inc_ref t) (\<lambda>_. retL t)) s)"

section \<open>Reading values from the stack\<close>

definition trunc :: "rat \<Rightarrow> int" where
  "trunc x = (if x \<ge> 0 then \<lfloor>x\<rfloor> else - \<lfloor>- x\<rfloor>)"

definition in_range :: "bool \<Rightarrow> nat \<Rightarrow> int \<Rightarrow> bool" where
  "in_range sg n x \<longleftrightarrow> (if sg then - (2 ^ (n - 1)) \<le> x \<and> x < 2 ^ (n - 1) else 0 \<le> x \<and> x < 2 ^ n)"

text \<open>The conversion of a double to an integer type is undefined outside of its range.\<close>

definition cast_int :: "bool \<Rightarrow> nat \<Rightarrow> rat \<Rightarrow> int option" where
  "cast_int sg n x = (if in_range sg n (trunc x) then Some (trunc x) else None)"

definition read_number :: "int \<Rightarrow> ('w, rat) tk" where
  "read_number index = at_index index lua_tonumber"

definition read_bits :: "bool \<Rightarrow> int \<Rightarrow> ('w, cval) tk" where
  "read_bits sg index s =
     (case index2adr index s of
        None \<Rightarrow> None
      | Some v \<Rightarrow>
          (if lua_isnumber v s then map_option (\<lambda>n. Done (CInt n) s) (cast_int sg 64 (lua_tonumber v s))
           else
             (case v of
                LUd a \<Rightarrow> (case fst (l_ud s a) of Bits b \<Rightarrow> Some (Done (CInt (if sg then sint b else uint b)) s) | _ \<Rightarrow> None)
              | _ \<Rightarrow> None)))"

text \<open>Nothing but being userdata is checked of an object.\<close>

definition lua2object :: "int \<Rightarrow> ('w, cval) tk" where
  "lua2object index =
     bindL (at_index index (\<lambda>v s. v)) (\<lambda>v.
       if \<not> lua_isuserdata v then
         bindL (str ''no class at first argument. (forgot ':' expression ?)'') (\<lambda>_. lua_error)
       else
         (\<lambda>s. case v of
                LUd a \<Rightarrow> (case fst (l_ud s a) of User p own \<Rightarrow> Some (Done (CPtr p) s) | _ \<Rightarrow> None)
              | _ \<Rightarrow> None))"

definition read_lua :: "ctype \<Rightarrow> int \<Rightarrow> ('w, cval) tk" where
  "read_lua ty index =
     (case ty of
        Void_t \<Rightarrow> retL CVoid
      | Bool_t \<Rightarrow> at_index index (\<lambda>v s. CBool (if lua_isboolean v then lua_toboolean v else lua_tonumber v s \<noteq> 0))
      | Int_t sg n \<Rightarrow> bindL (read_number index) (\<lambda>x. bindL (ofL (cast_int sg n x)) (\<lambda>k. retL (CInt k)))
      | Double_t \<Rightarrow> bindL (read_number index) (\<lambda>x. retL (CDouble x))
      | Cstr_t \<Rightarrow> bindL (lua_tostring index) (\<lambda>x. retL (CStr x))
      | S64_t \<Rightarrow> read_bits True index
      | U64_t \<Rightarrow> read_bits False index
      | Table_t \<Rightarrow> bindL (table_at index) (\<lambda>t. retL (CTable t))
      | Obj_t c \<Rightarrow> lua2object index)"

text \<open>The arguments of a call, from the given index on.\<close>

fun read_args :: "int \<Rightarrow> ctype list \<Rightarrow> ('w, cval list) tk" where
  "read_args index [] = retL []"
| "read_args index (ty # tys) =
     bindL (read_lua ty index) (\<lambda>v. bindL (read_args (index + 1) tys) (\<lambda>vs. retL (v # vs)))"

section \<open>Pushing values\<close>

definition push_meta :: "string \<Rightarrow> ('w, unit) tk" where
  "push_meta name = steps [str name, lua_gettable LUA_GLOBALSINDEX]"

definition push_bits :: "string \<Rightarrow> u64 \<Rightarrow> ('w, unit) tk" where
  "push_bits name b = steps [lua_newuserdata (Bits b), str name, lua_gettable LUA_GLOBALSINDEX, lua_setmetatable (- 2)]"

definition ptr2lua :: "nat \<Rightarrow> ('w, unit) tk" where
  "ptr2lua p = (if p \<noteq> 0 then lua_newuserdata (User p False) else lua_pushnil)"

text \<open>\<^verbatim>\<open>object2lua\<close> of a pointer.\<close>

definition object2lua :: "nat \<Rightarrow> nat \<Rightarrow> ('w, unit) tk" where
  "object2lua c p s = steps [ptr2lua p, push_meta (t_names s c), lua_setmetatable (- 2)] s"

text \<open>\<open>None\<close> is a value that is not of the type.\<close>

definition push_lua :: "ctype \<Rightarrow> cval \<Rightarrow> ('w, unit) tk" where
  "push_lua ty v =
     (case (ty, v) of
        (Bool_t, CBool b) \<Rightarrow> lua_pushboolean b
      | (Int_t sg n, CInt x) \<Rightarrow> lua_pushnumber (to_double x)
      | (Double_t, CDouble x) \<Rightarrow> lua_pushnumber x
      | (Cstr_t, CStr x) \<Rightarrow> lua_pushstring x
      | (S64_t, CInt x) \<Rightarrow> push_bits ''__s64'' (word_of_int x)
      | (U64_t, CInt x) \<Rightarrow> push_bits ''__u64'' (word_of_int x)
      | (Table_t, CTable t) \<Rightarrow> (\<lambda>s. case t_objs s t of None \<Rightarrow> None | Some ob \<Rightarrow> lua_pushvalue (m_index ob) s)
      | (Obj_t c, CPtr p) \<Rightarrow> object2lua c p
      | _ \<Rightarrow> undefL)"

fun push_args :: "ctype list \<Rightarrow> cval list \<Rightarrow> ('w, unit) tk" where
  "push_args (ty # tys) (v # vs) = bindL (push_lua ty v) (\<lambda>_. push_args tys vs)"
| "push_args [] [] = retL ()"
| "push_args _ _ = undefL"

text \<open>A table stays on the stack.\<close>

definition pop_lua :: "ctype \<Rightarrow> ('w, cval) tk" where
  "pop_lua ty =
     (case ty of
        Void_t \<Rightarrow> bindL (lua_pop 1) (\<lambda>_. retL CVoid)
      | Table_t \<Rightarrow> bindL (getL lua_gettop) (\<lambda>n. bindL (table_at n) (\<lambda>t. retL (CTable t)))
      | _ \<Rightarrow> bindL (read_lua ty (- 1)) (\<lambda>v. bindL (lua_pop 1) (\<lambda>_. retL v)))"

section \<open>Errors\<close>

text \<open>The text is formatted into a buffer of 4096 characters.\<close>

definition print_error :: "'w runner \<Rightarrow> string \<Rightarrow> ('w, unit) tk" where
  "print_error run text =
     (if length text \<ge> 4096 then undefL
      else
        bindL (steps [str ''_ALERT'', lua_gettable LUA_GLOBALSINDEX]) (\<lambda>_.
        bindL (at_index (- 1) (\<lambda>v s. v)) (\<lambda>f.
          if lua_isfunction f then
            bindL (lua_pop 1) (\<lambda>_. bindL (run f [LStr text]) (\<lambda>_. retL ()))
          else steps [modL (\<lambda>s. s\<lparr>t_log := t_log s @ [text]\<rparr>), lua_pop 1])))"

text \<open>The lines of the call stack that the interpreter reports at the error are the argument \<open>trace\<close>.\<close>

definition on_error :: "'w runner \<Rightarrow> string list \<Rightarrow> ('w, nat) tk" where
  "on_error run trace =
     bindL (lua_tostring (- 1)) (\<lambda>msg.
     bindL (print_error run (case msg of None \<Rightarrow> ''(null)'' | Some m \<Rightarrow> m)) (\<lambda>_.
     bindL (steps (map (print_error run) trace)) (\<lambda>_. retL 0)))"

section \<open>C functions\<close>

text \<open>Running a C function on its own stack: the last of its values are the results.\<close>

definition c_frame :: "lval list \<Rightarrow> lval list \<Rightarrow> ('w, nat) tk \<Rightarrow> ('w, lval list) tk" where
  "c_frame args ups body s =
     bindL body (\<lambda>n s1. Some (Done (rev (take n (l_stack s1))) (s1\<lparr>l_stack := l_stack s, l_up := l_up s\<rparr>)))
       (s\<lparr>l_stack := rev args, l_up := ups\<rparr>)"

text \<open>
  The arguments are read from the stack in the order of their indices; C++ leaves the order open,
  which makes no difference, as a read changes no other position. A table that was passed is not
  destroyed at the end of the call; what that would remove is in the frame that is given up.
\<close>

definition functor_invoke :: "ctype \<Rightarrow> ctype list \<Rightarrow> ('w, nat) tk" where
  "functor_invoke rty tys =
     bindL (read_args 1 tys) (\<lambda>vs s.
       case index2adr (lua_upvalueindex 1) s of
         Some (LLight p) \<Rightarrow>
           (case t_code s p vs (t_world s) of
              None \<Rightarrow> None
            | Some (v, w) \<Rightarrow>
                (if rty = Void_t then retL 0 else bindL (push_lua rty v) (\<lambda>_. retL 1)) (s\<lparr>t_world := w\<rparr>))
       | _ \<Rightarrow> None)"

definition mem_functor_invoke :: "ctype \<Rightarrow> nat \<Rightarrow> ctype list \<Rightarrow> ('w, nat) tk" where
  "mem_functor_invoke rty c tys =
     bindL (read_lua (Obj_t c) 1) (\<lambda>ob. bindL (read_args 2 tys) (\<lambda>vs s.
       case (ob, index2adr (lua_upvalueindex 1) s) of
         (CPtr p, Some (LUd a)) \<Rightarrow>
           (case fst (l_ud s a) of
              Method f \<Rightarrow>
                (case f p vs (t_world s) of
                   None \<Rightarrow> None
                 | Some (v, w) \<Rightarrow>
                     (if rty = Void_t then retL 0 else bindL (push_lua rty v) (\<lambda>_. retL 1)) (s\<lparr>t_world := w\<rparr>))
            | _ \<Rightarrow> None)
       | _ \<Rightarrow> None))"

text \<open>The memory of the userdata is taken before the arguments are read.\<close>

definition constructor :: "nat \<Rightarrow> ctype list \<Rightarrow> (cval list \<Rightarrow> 'w \<Rightarrow> nat \<times> 'w) \<Rightarrow> ('w, nat) tk" where
  "constructor c tys new s =
     (let a = l_next s
      in bindL (lua_newuserdata (Bits 0)) (\<lambda>_. bindL (read_args 2 tys) (\<lambda>vs s1.
           let (p, w) = new vs (t_world s1)
           in bindL (steps [push_meta (t_names s1 c), lua_setmetatable (- 2)]) (\<lambda>_. retL 1)
                (s1\<lparr>t_world := w, l_ud := (l_ud s1)(a := (User p True, snd (l_ud s1 a)))\<rparr>))) s)"

definition destroyer :: "('w, nat) tk" where
  "destroyer s =
     (case index2adr 1 s of
        Some (LUd a) \<Rightarrow>
          (case fst (l_ud s a) of
             User p own \<Rightarrow> Some (Done 0 (if own then s\<lparr>t_world := t_delete s p (t_world s)\<rparr> else s))
           | _ \<Rightarrow> None)
      | _ \<Rightarrow> None)"

section \<open>64-bit integers\<close>

text \<open>Comparing bytes as numbers, from the first on.\<close>

fun memcmp_lt :: "u8 list \<Rightarrow> u8 list \<Rightarrow> bool" where
  "memcmp_lt (x # xs) (y # ys) \<longleftrightarrow> x < y \<or> x = y \<and> memcmp_lt xs ys"
| "memcmp_lt _ _ \<longleftrightarrow> False"

definition bits_at :: "int \<Rightarrow> ('w, u64) tk" where
  "bits_at index s =
     (case index2adr index s of
        Some (LUd a) \<Rightarrow> (case fst (l_ud s a) of Bits b \<Rightarrow> Some (Done b s) | _ \<Rightarrow> None)
      | _ \<Rightarrow> None)"

definition compare_bits :: "(u64 \<Rightarrow> u64 \<Rightarrow> bool) \<Rightarrow> ('w, nat) tk" where
  "compare_bits f = bindL (bits_at 1) (\<lambda>x. bindL (bits_at 2) (\<lambda>y. bindL (lua_pushboolean (f x y)) (\<lambda>_. retL 1)))"

definition eq_s64 :: "('w, nat) tk" where
  "eq_s64 = compare_bits (\<lambda>x y. obj_bytes x = obj_bytes y)"

definition lt_s64 :: "('w, nat) tk" where
  "lt_s64 = compare_bits (\<lambda>x y. memcmp_lt (obj_bytes x) (obj_bytes y))"

definition le_s64 :: "('w, nat) tk" where
  "le_s64 = compare_bits (\<lambda>x y. \<not> memcmp_lt (obj_bytes y) (obj_bytes x))"

definition tostring_s64 :: "('w, nat) tk" where
  "tostring_s64 = bindL (bits_at 1) (\<lambda>x. bindL (str (fmt_d (sint x))) (\<lambda>_. retL 1))"

definition tostring_u64 :: "('w, nat) tk" where
  "tostring_u64 = bindL (bits_at 1) (\<lambda>x. bindL (str (dec (unat x))) (\<lambda>_. retL 1))"

text \<open>The functions for unsigned integers are written like those for signed ones.\<close>

definition eq_u64 :: "('w, nat) tk" where "eq_u64 = compare_bits (\<lambda>x y. obj_bytes x = obj_bytes y)"
definition lt_u64 :: "('w, nat) tk" where "lt_u64 = compare_bits (\<lambda>x y. memcmp_lt (obj_bytes x) (obj_bytes y))"
definition le_u64 :: "('w, nat) tk" where "le_u64 = compare_bits (\<lambda>x y. \<not> memcmp_lt (obj_bytes y) (obj_bytes x))"

text \<open>A C function as a field of the table on the top.\<close>

definition field_fun :: "string \<Rightarrow> 'w cfun \<Rightarrow> ('w, unit) tk" where
  "field_fun name f = steps [str name, lua_pushcclosure f 0, lua_rawset (- 3)]"

definition init_s64 :: "('w, unit) tk" where
  "init_s64 = steps [
     str ''__s64'', lua_newtable,
     str ''__name'', str ''__s64'', lua_rawset (- 3),
     field_fun ''__tostring'' Tostring_s64, field_fun ''__eq'' Eq_s64,
     field_fun ''__lt'' Lt_s64, field_fun ''__le'' Le_s64,
     lua_settable LUA_GLOBALSINDEX]"

definition init_u64 :: "('w, unit) tk" where
  "init_u64 = steps [
     str ''__u64'', lua_newtable,
     str ''__name'', str ''__u64'', lua_rawset (- 3),
     field_fun ''__tostring'' Tostring_u64, field_fun ''__eq'' Eq_u64,
     field_fun ''__lt'' Lt_u64, field_fun ''__le'' Le_u64,
     lua_settable LUA_GLOBALSINDEX]"

definition init_tinker :: "('w, unit) tk" where
  "init_tinker = steps [init_s64, init_u64]"

section \<open>Members of classes\<close>

text \<open>The search goes on in the parent as long as there is one, for ever in a cycle.\<close>

partial_function (option) invoke_parent :: "('w, unit) tk" where
  "invoke_parent s =
     Option.bind (steps [str ''__parent'', lua_rawget (- 2)] s) (\<lambda>r. case r of
       Raised v s1 \<Rightarrow> Some (Raised v s1)
     | Done _ s1 \<Rightarrow>
         if l_stack s1 \<noteq> [] \<and> lua_istable (hd (l_stack s1)) then
           Option.bind (steps [lua_pushvalue 2, lua_rawget (- 2)] s1) (\<lambda>r. case r of
             Raised v s2 \<Rightarrow> Some (Raised v s2)
           | Done _ s2 \<Rightarrow>
               if \<not> lua_isnil (hd (l_stack s2)) then lua_remove (- 2) s2
               else
                 Option.bind (lua_remove (- 1) s2) (\<lambda>r. case r of
                   Raised v s3 \<Rightarrow> Some (Raised v s3)
                 | Done _ s3 \<Rightarrow>
                     Option.bind (invoke_parent s3) (\<lambda>r. case r of
                       Raised v s4 \<Rightarrow> Some (Raised v s4)
                     | Done _ s4 \<Rightarrow> lua_remove (- 2) s4)))
         else Some (Done () s1))"

definition top_value :: "('w, lval) tk" where
  "top_value = at_index (- 1) (\<lambda>v s. v)"

text \<open>\<^verbatim>\<open>var_base::get\<close> and \<^verbatim>\<open>set\<close> of the userdata on the top.\<close>

definition var_get :: "('w, unit) tk" where
  "var_get s =
     (case index2adr (- 1) s of
        Some (LUd a) \<Rightarrow>
          (case fst (l_ud s a) of
             MemVar c ty rd wr \<Rightarrow>
               bindL (read_lua (Obj_t c) 1) (\<lambda>ob s1. case ob of CPtr p \<Rightarrow> push_lua ty (rd p (t_world s1)) s1 | _ \<Rightarrow> None) s
           | _ \<Rightarrow> None)
      | _ \<Rightarrow> None)"

definition var_set :: "('w, unit) tk" where
  "var_set s =
     (case index2adr (- 1) s of
        Some (LUd a) \<Rightarrow>
          (case fst (l_ud s a) of
             MemVar c ty rd wr \<Rightarrow>
               bindL (read_lua (Obj_t c) 1) (\<lambda>ob. bindL (read_lua ty 3) (\<lambda>v s1.
                 case ob of CPtr p \<Rightarrow> Some (Done () (s1\<lparr>t_world := wr p v (t_world s1)\<rparr>)) | _ \<Rightarrow> None)) s
           | _ \<Rightarrow> None)
      | _ \<Rightarrow> None)"

definition missing_text :: "string option \<Rightarrow> string" where
  "missing_text key =
     ''can't find '' @ [CHR 0x27] @ (case key of None \<Rightarrow> ''(null)'' | Some k \<Rightarrow> k) @ [CHR 0x27] @
     '' class variable. (forgot registering class variable ?)''"

definition meta_get :: "('w, nat) tk" where
  "meta_get =
     bindL (steps [lua_getmetatable 1, lua_pushvalue 2, lua_rawget (- 2)]) (\<lambda>_.
     bindL top_value (\<lambda>v.
     bindL
       (if lua_isuserdata v then steps [var_get, lua_remove (- 2)]
        else if lua_isnil v then
          bindL (steps [lua_remove (- 1), invoke_parent]) (\<lambda>_. bindL top_value (\<lambda>u.
            if lua_isnil u then
              bindL (lua_tostring 2) (\<lambda>key. bindL (str (missing_text key)) (\<lambda>_. lua_error))
            else retL ()))
        else retL ())
       (\<lambda>_. bindL (lua_remove (- 2)) (\<lambda>_. retL 1))))"

definition meta_set :: "('w, nat) tk" where
  "meta_set =
     bindL (steps [lua_getmetatable 1, lua_pushvalue 2, lua_rawget (- 2)]) (\<lambda>_.
     bindL top_value (\<lambda>v.
     bindL
       (if lua_isuserdata v then var_set
        else if lua_isnil v then steps [lua_pushvalue 2, lua_pushvalue 3, lua_rawset (- 4)]
        else retL ())
       (\<lambda>_. bindL (lua_settop 3) (\<lambda>_. retL 0))))"

section \<open>Registering\<close>

text \<open>
  The overloads of \<^verbatim>\<open>push_functor\<close> take the template for the type of the function, for a plain
  function and for a member function.
\<close>

definition push_functor :: "ctype \<Rightarrow> ctype list \<Rightarrow> ('w, unit) tk" where
  "push_functor rty tys = lua_pushcclosure (Functor rty tys) 1"

definition push_mem_functor :: "ctype \<Rightarrow> nat \<Rightarrow> ctype list \<Rightarrow> ('w, unit) tk" where
  "push_mem_functor rty c tys = lua_pushcclosure (Mem_functor rty c tys) 1"

text \<open>A global function, a global value, and reading one.\<close>

definition def_lua :: "string \<Rightarrow> ctype \<Rightarrow> ctype list \<Rightarrow> nat \<Rightarrow> ('w, unit) tk" where
  "def_lua name rty tys func = steps [
     str name, lua_pushlightuserdata func, push_functor rty tys, lua_settable LUA_GLOBALSINDEX]"

definition set_lua :: "string \<Rightarrow> ctype \<Rightarrow> cval \<Rightarrow> ('w, unit) tk" where
  "set_lua name ty v = steps [str name, push_lua ty v, lua_settable LUA_GLOBALSINDEX]"

definition get_lua :: "ctype \<Rightarrow> string \<Rightarrow> ('w, cval) tk" where
  "get_lua ty name = bindL (steps [str name, lua_gettable LUA_GLOBALSINDEX]) (\<lambda>_. pop_lua ty)"

text \<open>The name of a class is copied into 256 characters.\<close>

definition class_name :: "nat \<Rightarrow> string \<Rightarrow> ('w, unit) tk" where
  "class_name c name s = (if length name < 256 then Some (Done () (s\<lparr>t_names := (t_names s)(c := name)\<rparr>)) else None)"

definition class_add :: "nat \<Rightarrow> string \<Rightarrow> ('w, unit) tk" where
  "class_add c name = steps [
     class_name c name,
     str name, lua_newtable,
     str ''__name'', str name, lua_rawset (- 3),
     field_fun ''__index'' Meta_get, field_fun ''__newindex'' Meta_set, field_fun ''__gc'' Destroyer,
     lua_settable LUA_GLOBALSINDEX]"

text \<open>What is done to the table of a class, if it is registered.\<close>

definition in_class :: "nat \<Rightarrow> ('w, unit) tk list \<Rightarrow> ('w, unit) tk" where
  "in_class c body s =
     bindL (push_meta (t_names s c)) (\<lambda>_. bindL top_value (\<lambda>v.
       bindL (if lua_istable v then steps body else retL ()) (\<lambda>_. lua_pop 1))) s"

definition class_inh :: "nat \<Rightarrow> nat \<Rightarrow> ('w, unit) tk" where
  "class_inh c parent s = in_class c [str ''__parent'', push_meta (t_names s parent), lua_rawset (- 3)] s"

definition class_con :: "nat \<Rightarrow> ctype list \<Rightarrow> (cval list \<Rightarrow> 'w \<Rightarrow> nat \<times> 'w) \<Rightarrow> ('w, unit) tk" where
  "class_con c tys new = in_class c [
     lua_newtable, str ''__call'', lua_pushcclosure (Constructor c tys new) 0, lua_rawset (- 3), lua_setmetatable (- 2)]"

definition class_def :: "nat \<Rightarrow> string \<Rightarrow> ctype \<Rightarrow> ctype list \<Rightarrow> (nat \<Rightarrow> cval list \<Rightarrow> 'w \<Rightarrow> (cval \<times> 'w) option) \<Rightarrow> ('w, unit) tk" where
  "class_def c name rty tys func = in_class c [
     str name, lua_newuserdata (Method func), push_mem_functor rty c tys, lua_rawset (- 3)]"

definition class_mem ::
    "nat \<Rightarrow> string \<Rightarrow> nat \<Rightarrow> ctype \<Rightarrow> (nat \<Rightarrow> 'w \<Rightarrow> cval) \<Rightarrow> (nat \<Rightarrow> cval \<Rightarrow> 'w \<Rightarrow> 'w) \<Rightarrow> ('w, unit) tk" where
  "class_mem c name base ty rd wr = in_class c [str name, lua_newuserdata (MemVar base ty rd wr), lua_rawset (- 3)]"

end
