(* ===== verification/Lua_Calls.thy ===== *)
theory Lua_Calls
  imports Lua_Tinker
begin

text \<open>
  \<^verbatim>\<open>script/lua_tinker.*\<close>: calls from C++ into the script with their error handling, and calls of the
  bound C functions from the script.
\<close>

section \<open>Protected calls\<close>

definition adjust :: "nat \<Rightarrow> lval list \<Rightarrow> lval list" where
  "adjust n rs = take n (rs @ replicate n LNil)"

text \<open>
  \<^verbatim>\<open>lua_pcall\<close> with the handler at \<open>errfunc\<close>: whatever the function does, the caller's stack below it is
  left alone. The result says whether there was no error; the handler's result is the message.
  An error inside of the handler is not modelled.
\<close>

definition lua_pcall :: "'w runner \<Rightarrow> string list \<Rightarrow> nat \<Rightarrow> nat \<Rightarrow> int \<Rightarrow> ('w, bool) tk" where
  "lua_pcall run trace nargs nresults errfunc s =
     (let st = l_stack s
      in if length st \<le> nargs then None
         else
           (case index2adr errfunc s of
              Some (LFun h) \<Rightarrow>
                (let rest = drop (Suc nargs) st
                 in case run (st ! nargs) (rev (take nargs st)) (s\<lparr>l_stack := rest\<rparr>) of
                      None \<Rightarrow> None
                    | Some (Done rs s1) \<Rightarrow> Some (Done True (s1\<lparr>l_stack := rev (adjust nresults rs) @ rest, l_up := l_up s\<rparr>))
                    | Some (Raised v s1) \<Rightarrow>
                        (case fst (l_fun s1 h) of
                           On_error \<Rightarrow>
                             (case c_frame [v] (snd (l_fun s1 h)) (on_error run trace) s1 of
                                Some (Done ms s2) \<Rightarrow>
                                  Some (Done False (s2\<lparr>l_stack := adjust 1 ms @ rest, l_up := l_up s\<rparr>))
                              | _ \<Rightarrow> None)
                         | _ \<Rightarrow> None))
            | _ \<Rightarrow> None))"

section \<open>Chunks\<close>

text \<open>
  \<open>load\<close> compiles a file or a text: whether that succeeds, and the function or the error message.
\<close>

definition run_chunk :: "'w runner \<Rightarrow> string list \<Rightarrow> ('w, bool \<times> lval) tk \<Rightarrow> ('w, bool) tk" where
  "run_chunk run trace load =
     bindL (lua_pushcclosure On_error 0) (\<lambda>_.
     bindL (getL lua_gettop) (\<lambda>errfunc.
     bindL load (\<lambda>(loaded, v).
     bindL (modL (pushv v)) (\<lambda>_.
       if loaded then
         bindL (lua_pcall run trace 0 0 errfunc) (\<lambda>ok.
           if \<not> ok then bindL (steps [lua_pop 1, lua_pop 1]) (\<lambda>_. retL False)
           else bindL (lua_pop 1) (\<lambda>_. retL True))
       else
         bindL (lua_tostring (- 1)) (\<lambda>msg.
         bindL (print_error run (case msg of None \<Rightarrow> ''(null)'' | Some m \<Rightarrow> m)) (\<lambda>_.
         bindL (steps [lua_pop 1, lua_pop 1]) (\<lambda>_. retL False)))))))"

definition dofile :: "'w runner \<Rightarrow> string list \<Rightarrow> (string \<Rightarrow> ('w, bool \<times> lval) tk) \<Rightarrow> string \<Rightarrow> ('w, bool) tk" where
  "dofile run trace luaL_loadfile filename = run_chunk run trace (luaL_loadfile filename)"

definition dobuffer :: "'w runner \<Rightarrow> string list \<Rightarrow> (string \<Rightarrow> ('w, bool \<times> lval) tk) \<Rightarrow> string \<Rightarrow> ('w, bool) tk" where
  "dobuffer run trace luaL_loadbuffer buff = run_chunk run trace (luaL_loadbuffer buff)"

text \<open>A C string ends at its first zero.\<close>

definition dostring :: "'w runner \<Rightarrow> string list \<Rightarrow> (string \<Rightarrow> ('w, bool \<times> lval) tk) \<Rightarrow> string \<Rightarrow> ('w, bool) tk" where
  "dostring run trace luaL_loadbuffer buff = dobuffer run trace luaL_loadbuffer (takeWhile (\<lambda>c. c \<noteq> CHR 0x00) buff)"

section \<open>Calling a function of the script\<close>

definition not_a_function :: "string \<Rightarrow> string \<Rightarrow> string" where
  "not_a_function what name = what @ CHR 0x60 # name @ CHR 0x27 # '' (not a function)''"

text \<open>
  The seven overloads of \<^verbatim>\<open>call\<close> differ in the number of arguments. After an error the message is
  taken away, and so is what then lies below the top.
\<close>

definition call_top :: "'w runner \<Rightarrow> string list \<Rightarrow> ctype \<Rightarrow> ctype list \<Rightarrow> cval list \<Rightarrow> int \<Rightarrow> string \<Rightarrow> ('w, cval) tk" where
  "call_top run trace rty tys args errfunc text =
     bindL top_value (\<lambda>f.
     bindL
       (if lua_isfunction f then
          bindL (push_args tys args) (\<lambda>_.
          bindL (lua_pcall run trace (length tys) 1 errfunc) (\<lambda>ok. if ok then retL () else lua_pop 1))
        else print_error run text)
       (\<lambda>_. bindL (lua_remove (- 2)) (\<lambda>_. pop_lua rty)))"

definition call_lua :: "'w runner \<Rightarrow> string list \<Rightarrow> ctype \<Rightarrow> ctype list \<Rightarrow> string \<Rightarrow> cval list \<Rightarrow> ('w, cval) tk" where
  "call_lua run trace rty tys name args =
     bindL (lua_pushcclosure On_error 0) (\<lambda>_.
     bindL (getL lua_gettop) (\<lambda>errfunc.
     bindL (steps [str name, lua_gettable LUA_GLOBALSINDEX]) (\<lambda>_.
       call_top run trace rty tys args errfunc (not_a_function ''lua_tinker::call() attempt to call global '' name))))"

section \<open>Calls from the script\<close>

definition run_code :: "'w cfun \<Rightarrow> ('w, nat) tk" where
  "run_code code =
     (case code of
        Meta_get \<Rightarrow> meta_get
      | Meta_set \<Rightarrow> meta_set
      | Destroyer \<Rightarrow> destroyer
      | Constructor c tys new \<Rightarrow> constructor c tys new
      | Functor rty tys \<Rightarrow> functor_invoke rty tys
      | Mem_functor rty c tys \<Rightarrow> mem_functor_invoke rty c tys
      | Tostring_s64 \<Rightarrow> tostring_s64
      | Eq_s64 \<Rightarrow> eq_s64
      | Lt_s64 \<Rightarrow> lt_s64
      | Le_s64 \<Rightarrow> le_s64
      | Tostring_u64 \<Rightarrow> tostring_u64
      | Eq_u64 \<Rightarrow> eq_u64
      | Lt_u64 \<Rightarrow> lt_u64
      | Le_u64 \<Rightarrow> le_u64
      | _ \<Rightarrow> undefL)"

definition call_c :: "nat \<Rightarrow> lval list \<Rightarrow> ('w, lval list) tk" where
  "call_c f args s = c_frame args (snd (l_fun s f)) (run_code (fst (l_fun s f))) s"

text \<open>
  What the interpreter does for \<^verbatim>\<open>object.key\<close>, \<^verbatim>\<open>object.key = v\<close> and \<^verbatim>\<open>object:key(args)\<close> of userdata whose
  metatable has C functions as metamethods.
\<close>

definition metamethod :: "string \<Rightarrow> nat \<Rightarrow> ('w, nat) tk" where
  "metamethod ev u s =
     (case snd (l_ud s u) of
        None \<Rightarrow> Some (Raised (LStr ''attempt to index'') s)
      | Some m \<Rightarrow> (case raw_fields m s (LStr ev) of LFun f \<Rightarrow> Some (Done f s) | _ \<Rightarrow> None))"

definition script_get :: "nat \<Rightarrow> lval \<Rightarrow> ('w, lval) tk" where
  "script_get u key =
     bindL (metamethod ''__index'' u) (\<lambda>f. bindL (call_c f [LUd u, key]) (\<lambda>rs. retL (hd (rs @ [LNil]))))"

definition script_set :: "nat \<Rightarrow> lval \<Rightarrow> lval \<Rightarrow> ('w, unit) tk" where
  "script_set u key v =
     bindL (metamethod ''__newindex'' u) (\<lambda>f. bindL (call_c f [LUd u, key, v]) (\<lambda>_. retL ()))"

definition script_method :: "nat \<Rightarrow> string \<Rightarrow> lval list \<Rightarrow> ('w, lval list) tk" where
  "script_method u name args =
     bindL (script_get u (LStr name)) (\<lambda>f.
       case f of LFun g \<Rightarrow> call_c g (LUd u # args) | _ \<Rightarrow> (\<lambda>s. Some (Raised (LStr ''attempt to call'') s)))"

end
