(* ===== verification/Lua_Classes.thy ===== *)
theory Lua_Classes
  imports Lua_Calls
begin

text \<open>
  What a program of registrations with \<^verbatim>\<open>class_add\<close>, \<^verbatim>\<open>class_inh\<close>, \<^verbatim>\<open>class_def\<close> and \<^verbatim>\<open>class_mem\<close> means: an
  environment of classes with a parent and members. The tables that the binding builds represent
  it, and the metamethods look members up as it says.
\<close>

section \<open>Symbolic execution\<close>

named_theorems lua_exec

lemma bindL_Done [lua_exec]: "m s = Some (Done x s1) \<Longrightarrow> bindL m f s = f x s1" by (simp add: bindL_def)

lemma steps_exec [lua_exec]: "steps [] s = Some (Done () s)" "a s = Some (Done u s1) \<Longrightarrow> steps (a # as) s = steps as s1"
  by (simp_all add: retL_def bindL_def)

lemmas [lua_exec] = retL_def getL_def modL_def undefL_def ofL_def at_index_def pushv_def lua_gettop_def
  lua_settop_def lua_pop_def lua_remove_def lua_pushvalue_def lua_pushnil_def lua_pushnumber_def
  lua_pushboolean_def lua_pushstring_def lua_pushlightuserdata_def lua_pushcclosure_def lua_newtable_def
  lua_newuserdata_def raw_fields_def set_field_def no_meta_def lua_gettable_def lua_settable_def
  lua_rawget_def lua_rawset_def lua_getmetatable_def lua_setmetatable_def
  stkindex2adr_def index2adr_def LUA_GLOBALSINDEX_def str_def field_fun_def top_value_def push_meta_def push_functor_def push_mem_functor_def
  lua_istable_def lua_isnil_def lua_isfunction_def lua_isuserdata_def

declare steps.simps [simp del]

lemma steps_append: "steps as s = Some (Done () s1) \<Longrightarrow> steps (as @ bs) s = steps bs s1"
proof (induction as arbitrary: s)
  case (Cons a as)
  then show ?case by (auto simp: steps.simps bindL_def split: Option.bind_splits outcome.splits)
qed (simp add: steps.simps retL_def)

section \<open>The environment of classes\<close>

text \<open>A method of a class, or a variable of a base with its type and how it is read and written.\<close>

datatype 'w member = M_fun ctype nat "ctype list" "nat \<Rightarrow> cval list \<Rightarrow> 'w \<Rightarrow> (cval \<times> 'w) option"
  | M_var nat ctype "nat \<Rightarrow> 'w \<Rightarrow> cval" "nat \<Rightarrow> cval \<Rightarrow> 'w \<Rightarrow> 'w"

record 'w cls =
  cl_name :: string
  cl_parent :: "nat option"
  cl_members :: "string \<Rightarrow> 'w member option"

type_synonym 'w env = "nat \<Rightarrow> 'w cls option"

datatype 'w reg = Add nat string | Inh nat nat
  | Def nat string ctype "ctype list" "nat \<Rightarrow> cval list \<Rightarrow> 'w \<Rightarrow> (cval \<times> 'w) option"
  | Mem nat string nat ctype "nat \<Rightarrow> 'w \<Rightarrow> cval" "nat \<Rightarrow> cval \<Rightarrow> 'w \<Rightarrow> 'w"

fun reg_op :: "'w reg \<Rightarrow> ('w, unit) tk" where
  "reg_op (Add c name) = class_add c name"
| "reg_op (Inh c p) = class_inh c p"
| "reg_op (Def c name rty tys f) = class_def c name rty tys f"
| "reg_op (Mem c name b ty rd wr) = class_mem c name b ty rd wr"

definition put_member :: "nat \<Rightarrow> string \<Rightarrow> 'w member \<Rightarrow> 'w env \<Rightarrow> 'w env" where
  "put_member c name m e =
     (case e c of None \<Rightarrow> e | Some k \<Rightarrow> e(c \<mapsto> k\<lparr>cl_members := (cl_members k)(name \<mapsto> m)\<rparr>))"

fun spec_reg :: "'w reg \<Rightarrow> 'w env \<Rightarrow> 'w env" where
  "spec_reg (Add c name) e = e(c \<mapsto> \<lparr>cl_name = name, cl_parent = None, cl_members = (\<lambda>_. None)\<rparr>)"
| "spec_reg (Inh c p) e = (case e c of None \<Rightarrow> e | Some k \<Rightarrow> e(c \<mapsto> k\<lparr>cl_parent := Some p\<rparr>))"
| "spec_reg (Def c name rty tys f) e = put_member c name (M_fun rty c tys f) e"
| "spec_reg (Mem c name b ty rd wr) e = put_member c name (M_var b ty rd wr) e"

definition reserved :: "string set" where
  "reserved = {''__name'', ''__index'', ''__newindex'', ''__gc'', ''__parent''}"

text \<open>Classes have different names and are added before they are used, and no member has a reserved name.\<close>

fun reg_ok :: "'w reg \<Rightarrow> 'w env \<Rightarrow> bool" where
  "reg_ok (Add c name) e \<longleftrightarrow> e c = None \<and> length name < 256 \<and> (\<forall>d k. e d = Some k \<longrightarrow> cl_name k \<noteq> name)"
| "reg_ok (Inh c p) e \<longleftrightarrow> e c \<noteq> None \<and> e p \<noteq> None"
| "reg_ok (Def c name rty tys f) e \<longleftrightarrow> e c \<noteq> None \<and> name \<notin> reserved"
| "reg_ok (Mem c name b ty rd wr) e \<longleftrightarrow> e c \<noteq> None \<and> name \<notin> reserved"

fun spec_regs :: "'w reg list \<Rightarrow> 'w env \<Rightarrow> 'w env" where
  "spec_regs [] e = e"
| "spec_regs (r # rs) e = spec_regs rs (spec_reg r e)"

fun regs_ok :: "'w reg list \<Rightarrow> 'w env \<Rightarrow> bool" where
  "regs_ok [] e \<longleftrightarrow> True"
| "regs_ok (r # rs) e \<longleftrightarrow> reg_ok r e \<and> regs_ok rs (spec_reg r e)"

text \<open>The class and the member that a name means for an object of a class.\<close>

inductive resolves :: "'w env \<Rightarrow> string \<Rightarrow> nat \<Rightarrow> (nat \<times> 'w member) option \<Rightarrow> bool" for e name where
  own: "e c = Some k \<Longrightarrow> cl_members k name = Some m \<Longrightarrow> resolves e name c (Some (c, m))"
| up: "e c = Some k \<Longrightarrow> cl_members k name = None \<Longrightarrow> cl_parent k = Some p \<Longrightarrow> resolves e name p r \<Longrightarrow> resolves e name c r"
| none: "e c = Some k \<Longrightarrow> cl_members k name = None \<Longrightarrow> cl_parent k = None \<Longrightarrow> resolves e name c None"

inductive_cases resolvesE: "resolves e name c r"

section \<open>Representation\<close>

definition tab_of :: "'w tinker \<Rightarrow> nat \<Rightarrow> nat" where
  "tab_of s c = (case raw_fields (l_globals s) s (LStr (t_names s c)) of LTab a \<Rightarrow> a | _ \<Rightarrow> 0)"

definition is_method :: "'w tinker \<Rightarrow> ctype \<Rightarrow> nat \<Rightarrow> ctype list \<Rightarrow> (nat \<Rightarrow> cval list \<Rightarrow> 'w \<Rightarrow> (cval \<times> 'w) option) \<Rightarrow> nat \<Rightarrow> bool" where
  "is_method s rty c tys f g \<longleftrightarrow>
     (\<exists>u. g < l_next s \<and> u < l_next s \<and> l_fun s g = (Mem_functor rty c tys, [LUd u]) \<and> fst (l_ud s u) = Method f)"

fun represents :: "'w tinker \<Rightarrow> 'w member option \<Rightarrow> lval \<Rightarrow> bool" where
  "represents s None v \<longleftrightarrow> v = LNil"
| "represents s (Some (M_fun rty c tys f)) v \<longleftrightarrow> (\<exists>g. v = LFun g \<and> is_method s rty c tys f g)"
| "represents s (Some (M_var b ty rd wr)) v \<longleftrightarrow> (\<exists>u. v = LUd u \<and> u < l_next s \<and> fst (l_ud s u) = MemVar b ty rd wr)"

definition is_code :: "'w tinker \<Rightarrow> 'w cfun \<Rightarrow> lval \<Rightarrow> bool" where
  "is_code s code v \<longleftrightarrow> (\<exists>f. v = LFun f \<and> f < l_next s \<and> l_fun s f = (code, []))"

definition class_table :: "'w tinker \<Rightarrow> 'w cls \<Rightarrow> nat \<Rightarrow> bool" where
  "class_table s k a \<longleftrightarrow> a \<noteq> l_globals s \<and> a < l_next s \<and>
     is_code s Meta_get (raw_fields a s (LStr ''__index'')) \<and>
     is_code s Meta_set (raw_fields a s (LStr ''__newindex'')) \<and>
     raw_fields a s (LStr ''__parent'') = (case cl_parent k of None \<Rightarrow> LNil | Some p \<Rightarrow> LTab (tab_of s p)) \<and>
     (\<forall>m. m \<notin> reserved \<longrightarrow> represents s (cl_members k m) (raw_fields a s (LStr m)))"

definition rep :: "'w env \<Rightarrow> 'w tinker \<Rightarrow> bool" where
  "rep e s \<longleftrightarrow> t_meta (l_tab s (l_globals s)) = None \<and> l_globals s < l_next s \<and>
     (\<forall>c k. e c = Some k \<longrightarrow>
        t_names s c = cl_name k \<and> raw_fields (l_globals s) s (LStr (cl_name k)) = LTab (tab_of s c) \<and>
        class_table s k (tab_of s c) \<and> (\<forall>p. cl_parent k = Some p \<longrightarrow> e p \<noteq> None)) \<and>
     (\<forall>c d. e c \<noteq> None \<longrightarrow> e d \<noteq> None \<longrightarrow> tab_of s c = tab_of s d \<longrightarrow> c = d) \<and>
     (\<forall>c d k l. e c = Some k \<longrightarrow> e d = Some l \<longrightarrow> cl_name k = cl_name l \<longrightarrow> c = d)"

lemma in_class_tab:
  assumes "raw_fields (l_globals s) s (LStr (t_names s c)) = LTab a"
  shows "in_class c body s = bindL (steps body) (\<lambda>_. lua_pop 1) (s\<lparr>l_stack := LTab a # l_stack s\<rparr>)"
  using assms by (simp add: in_class_def lua_exec)

lemma class_def_exec:
  assumes "raw_fields (l_globals s) s (LStr (t_names s c)) = LTab a"
  shows "class_def c name rty tys f s = Some (Done () (set_field a (LStr name) (LFun (l_next s + 1))
    (s\<lparr>l_next := l_next s + 2, l_ud := (l_ud s)(l_next s := (Method f, None)),
       l_fun := (l_fun s)(l_next s + 1 := (Mem_functor rty c tys, [LUd (l_next s)]))\<rparr>)))"
  by (simp add: class_def_def in_class_tab [OF assms] lua_exec)

lemma class_mem_exec:
  assumes "raw_fields (l_globals s) s (LStr (t_names s c)) = LTab a"
  shows "class_mem c name b ty rd wr s = Some (Done () (set_field a (LStr name) (LUd (l_next s))
    (s\<lparr>l_next := l_next s + 1, l_ud := (l_ud s)(l_next s := (MemVar b ty rd wr, None))\<rparr>)))"
  by (simp add: class_mem_def in_class_tab [OF assms] lua_exec)

lemma class_inh_exec:
  assumes "raw_fields (l_globals s) s (LStr (t_names s c)) = LTab a" "raw_fields (l_globals s) s (LStr (t_names s p)) = LTab b"
  shows "class_inh c p s = Some (Done () (set_field a (LStr ''__parent'') (LTab b) s))"
  using assms by (simp add: class_inh_def in_class_tab [OF assms(1)] lua_exec)

lemma class_add_exec:
  assumes "t_meta (l_tab s (l_globals s)) = None" "l_globals s < l_next s" "length name < 256"
  shows "class_add c name s = Some (Done () (set_field (l_globals s) (LStr name) (LTab (l_next s))
    (s\<lparr>t_names := (t_names s)(c := name), l_next := l_next s + 4,
       l_fun := (l_fun s)(l_next s + 1 := (Meta_get, []), l_next s + 2 := (Meta_set, []), l_next s + 3 := (Destroyer, [])),
       l_tab := (l_tab s)(l_next s := \<lparr>t_fields = (\<lambda>_. LNil)(LStr ''__name'' := LStr name,
         LStr ''__index'' := LFun (l_next s + 1), LStr ''__newindex'' := LFun (l_next s + 2),
         LStr ''__gc'' := LFun (l_next s + 3)), t_meta = None\<rparr>)\<rparr>)))"
  using assms by (simp add: class_add_def class_name_def lua_exec eval_nat_numeral)

section \<open>Registering keeps the representation\<close>

lemma represents_mono:
  assumes "represents s m v" "l_next s \<le> l_next s'"
    "\<And>x. x < l_next s \<Longrightarrow> l_fun s' x = l_fun s x \<and> l_ud s' x = l_ud s x"
  shows "represents s' m v"
proof (cases m)
  case (Some k)
  then show ?thesis using assms by (cases k) (fastforce simp: is_method_def)+
qed (use assms in auto)

lemma is_code_mono:
  assumes "is_code s code v" "l_next s \<le> l_next s'"
    "\<And>x. x < l_next s \<Longrightarrow> l_fun s' x = l_fun s x \<and> l_ud s' x = l_ud s x"
  shows "is_code s' code v"
  using assms by (fastforce simp: is_code_def)

lemma repD:
  assumes "rep e s" "e c = Some k"
  shows "raw_fields (l_globals s) s (LStr (t_names s c)) = LTab (tab_of s c)" "t_names s c = cl_name k"
    "class_table s k (tab_of s c)" "cl_parent k = Some p \<Longrightarrow> e p \<noteq> None"
  using assms by (auto simp: rep_def)

text \<open>Writing one field of one class.\<close>

lemma rep_set_field:
  assumes r: "rep e s" and c: "e c = Some k"
    and old: "l_next s \<le> l_next s'" "\<And>x. x < l_next s \<Longrightarrow> l_fun s' x = l_fun s x \<and> l_ud s' x = l_ud s x"
      "l_tab s' = l_tab s" "l_globals s' = l_globals s" "t_names s' = t_names s"
    and key: "key \<notin> {''__name'', ''__index'', ''__newindex'', ''__gc''}"
    and k': "cl_name k' = cl_name k" "\<And>p. cl_parent k' = Some p \<Longrightarrow> e p \<noteq> None"
      "cl_parent k' \<noteq> cl_parent k \<or> key = ''__parent'' \<Longrightarrow> key = ''__parent'' \<and> v = (case cl_parent k' of None \<Rightarrow> LNil | Some p \<Rightarrow> LTab (tab_of s p))"
      "key \<notin> reserved \<Longrightarrow> represents s' (cl_members k' key) v" "\<And>m. m \<noteq> key \<Longrightarrow> cl_members k' m = cl_members k m"
  shows "rep (e(c \<mapsto> k')) (set_field (tab_of s c) (LStr key) v s')"
proof -
  let ?a = "tab_of s c" let ?s = "set_field ?a (LStr key) v s'"
  have ct: "class_table s k ?a" and a: "?a \<noteq> l_globals s" using repD(3) [OF r c] by (auto simp: class_table_def)
  have g: "raw_fields (l_globals s) ?s = raw_fields (l_globals s) s" using a old by (simp add: raw_fields_def set_field_def)
  have t: "tab_of ?s d = tab_of s d" for d using g old by (simp add: tab_of_def set_field_def)
  have f: "raw_fields b ?s x = (if b = ?a \<and> x = LStr key then v else raw_fields b s x)" for b x
    using old by (simp add: raw_fields_def set_field_def)
  have keep: "l_next s \<le> l_next ?s" "\<And>x. x < l_next s \<Longrightarrow> l_fun ?s x = l_fun s x \<and> l_ud ?s x = l_ud s x"
    using old by (auto simp: set_field_def)
  have other: "class_table ?s l (tab_of s d)" if "e d = Some l" "d \<noteq> c" for d l
  proof -
    have "tab_of s d \<noteq> ?a" using r c that by (auto simp: rep_def)
    then show ?thesis using repD(3) [OF r that(1)] old(4) keep f t
      by (auto simp: class_table_def set_field_def intro: is_code_mono represents_mono split: option.splits)
  qed
  have mine: "class_table ?s k' ?a"
    unfolding class_table_def
  proof (intro conjI allI impI)
    fix m assume m: "m \<notin> reserved"
    show "represents ?s (cl_members k' m) (raw_fields ?a ?s (LStr m))"
    proof (cases "m = key")
      case True
      have "represents ?s (cl_members k' key) v" using k'(4) m True
        by (auto intro!: represents_mono [where s = s'] simp: set_field_def)
      then show ?thesis using True f by simp
    next
      case False
      then show ?thesis using f k'(5) ct m keep by (auto simp: class_table_def intro: represents_mono)
    qed
  next
    show "raw_fields ?a ?s (LStr ''__parent'') = (case cl_parent k' of None \<Rightarrow> LNil | Some p \<Rightarrow> LTab (tab_of ?s p))"
    proof (cases "key = ''__parent''")
      case True
      then show ?thesis using f k'(3) t by (simp split: option.splits)
    next
      case False
      then have "cl_parent k' = cl_parent k" using k'(3) by blast
      then show ?thesis using f ct t False by (simp add: class_table_def split: option.splits)
    qed
  qed (use ct f keep key a old in \<open>auto simp: class_table_def set_field_def intro: is_code_mono\<close>)
  have e: "e c \<noteq> None" "cl_name k' = cl_name k" using c k'(1) by simp_all
  show ?thesis unfolding rep_def
  proof (intro conjI allI impI)
    show "t_meta (l_tab ?s (l_globals ?s)) = None" "l_globals ?s < l_next ?s"
      using r old(1,3,4) a by (simp_all add: rep_def set_field_def)
  next
    fix d l assume dl: "(e(c \<mapsto> k')) d = Some l"
    then obtain l0 where l0: "e d = Some l0" "cl_name l = cl_name l0" using c e by (auto split: if_splits)
    show "t_names ?s d = cl_name l" using repD(2) [OF r l0(1)] l0(2) old(5) by (simp add: set_field_def)
    then show "raw_fields (l_globals ?s) ?s (LStr (cl_name l)) = LTab (tab_of ?s d)"
      using repD(1,2) [OF r l0(1)] l0(2) g t old(4) by (simp add: set_field_def)
    show "class_table ?s l (tab_of ?s d)" using mine other dl t by (auto split: if_splits)
    show "(e(c \<mapsto> k')) p \<noteq> None" if "cl_parent l = Some p" for p
      using dl that k'(2) repD(4) [OF r] by (auto split: if_splits)
  next
    fix d d' assume "(e(c \<mapsto> k')) d \<noteq> None" "(e(c \<mapsto> k')) d' \<noteq> None" "tab_of ?s d = tab_of ?s d'"
    moreover from this have "e d \<noteq> None" "e d' \<noteq> None" using e by (auto split: if_splits)
    ultimately show "d = d'" using r t unfolding rep_def by metis
  next
    fix d d' l l' assume "(e(c \<mapsto> k')) d = Some l" "(e(c \<mapsto> k')) d' = Some l'" "cl_name l = cl_name l'"
    moreover from this obtain m m' where "e d = Some m" "e d' = Some m'" "cl_name m = cl_name m'"
      using c e by (auto split: if_splits)
    ultimately show "d = d'" using r unfolding rep_def by metis
  qed
qed

text \<open>Registering does not touch the stack and the program's own state.\<close>

definition same_view :: "'w tinker \<Rightarrow> 'w tinker \<Rightarrow> bool" where
  "same_view s s' \<longleftrightarrow> l_stack s' = l_stack s \<and> t_world s' = t_world s \<and> l_up s' = l_up s \<and>
     t_log s' = t_log s \<and> l_globals s' = l_globals s"

lemma same_view_simps [simp]:
  "same_view s s" "same_view s s1 \<Longrightarrow> same_view s1 s2 \<Longrightarrow> same_view s s2"
  "same_view s (set_field a k v s') = same_view s s'"
  by (simp_all add: same_view_def set_field_def)

lemma reg_parent:
  assumes "rep e s" "e c = Some k" "e p = Some l"
  shows "\<exists>s'. class_inh c p s = Some (Done () s') \<and> rep (spec_reg (Inh c p) e) s' \<and> same_view s s'"
proof -
  let ?s = "set_field (tab_of s c) (LStr ''__parent'') (LTab (tab_of s p)) s"
  have "class_inh c p s = Some (Done () ?s)" by (rule class_inh_exec) (use assms repD in blast)+
  moreover have "rep (e(c \<mapsto> k\<lparr>cl_parent := Some p\<rparr>)) ?s"
    by (rule rep_set_field [OF assms(1,2)]) (use assms(3) in \<open>auto simp: reserved_def\<close>)
  ultimately show ?thesis using assms(2) by (auto simp: set_field_def same_view_def)
qed

lemma reg_member:
  assumes "rep e s" "e c = Some k" "name \<notin> reserved"
  shows "\<exists>s'. class_def c name rty tys f s = Some (Done () s') \<and> rep (spec_reg (Def c name rty tys f) e) s' \<and> same_view s s'"
    and "\<exists>s'. class_mem c name b ty rd wr s = Some (Done () s') \<and> rep (spec_reg (Mem c name b ty rd wr) e) s' \<and> same_view s s'"
proof -
  have t: "raw_fields (l_globals s) s (LStr (t_names s c)) = LTab (tab_of s c)" by (rule repD(1) [OF assms(1,2)])
  have key: "name \<notin> {''__name'', ''__index'', ''__newindex'', ''__gc''}" "name \<noteq> ''__parent''"
    using assms(3) by (auto simp: reserved_def)
  let ?s1 = "s\<lparr>l_next := l_next s + 2, l_ud := (l_ud s)(l_next s := (Method f, None)),
       l_fun := (l_fun s)(l_next s + 1 := (Mem_functor rty c tys, [LUd (l_next s)]))\<rparr>"
  have "rep (e(c \<mapsto> k\<lparr>cl_members := (cl_members k)(name \<mapsto> M_fun rty c tys f)\<rparr>))
      (set_field (tab_of s c) (LStr name) (LFun (l_next s + 1)) ?s1)"
    by (rule rep_set_field [OF assms(1,2)]) (use key repD(4) [OF assms(1,2)] in \<open>auto simp: is_method_def\<close>)
  then show "\<exists>s'. class_def c name rty tys f s = Some (Done () s') \<and> rep (spec_reg (Def c name rty tys f) e) s' \<and> same_view s s'"
    using class_def_exec [OF t] assms(2) by (auto simp: put_member_def set_field_def same_view_def)
  let ?s2 = "s\<lparr>l_next := l_next s + 1, l_ud := (l_ud s)(l_next s := (MemVar b ty rd wr, None))\<rparr>"
  have "rep (e(c \<mapsto> k\<lparr>cl_members := (cl_members k)(name \<mapsto> M_var b ty rd wr)\<rparr>))
      (set_field (tab_of s c) (LStr name) (LUd (l_next s)) ?s2)"
    by (rule rep_set_field [OF assms(1,2)]) (use key repD(4) [OF assms(1,2)] in auto)
  then show "\<exists>s'. class_mem c name b ty rd wr s = Some (Done () s') \<and> rep (spec_reg (Mem c name b ty rd wr) e) s' \<and> same_view s s'"
    using class_mem_exec [OF t] assms(2) by (auto simp: put_member_def set_field_def same_view_def)
qed

lemma reg_class:
  assumes r: "rep e s" and ok: "reg_ok (Add c name) e"
  shows "\<exists>s'. class_add c name s = Some (Done () s') \<and> rep (spec_reg (Add c name) e) s' \<and> same_view s s'"
proof -
  let ?n = "l_next s"
  let ?s = "set_field (l_globals s) (LStr name) (LTab ?n)
    (s\<lparr>t_names := (t_names s)(c := name), l_next := ?n + 4,
       l_fun := (l_fun s)(?n + 1 := (Meta_get, []), ?n + 2 := (Meta_set, []), ?n + 3 := (Destroyer, [])),
       l_tab := (l_tab s)(?n := \<lparr>t_fields = (\<lambda>_. LNil)(LStr ''__name'' := LStr name,
         LStr ''__index'' := LFun (?n + 1), LStr ''__newindex'' := LFun (?n + 2),
         LStr ''__gc'' := LFun (?n + 3)), t_meta = None\<rparr>)\<rparr>)"
  have g: "t_meta (l_tab s (l_globals s)) = None" "l_globals s < ?n" using r by (auto simp: rep_def)
  have x: "class_add c name s = Some (Done () ?s)" using class_add_exec [OF g] ok by simp
  have c: "e c = None" and fresh: "\<And>d k. e d = Some k \<Longrightarrow> cl_name k \<noteq> name" using ok by auto
  have glob: "raw_fields (l_globals s) ?s y = (if y = LStr name then LTab ?n else raw_fields (l_globals s) s y)" for y
    using g(2) by (simp add: raw_fields_def set_field_def)
  have fld: "raw_fields b ?s y = raw_fields b s y" if "b < ?n" "b \<noteq> l_globals s" for b y
    using that by (simp add: raw_fields_def set_field_def)
  have told: "tab_of ?s d = tab_of s d" if d: "e d \<noteq> None" for d
  proof -
    obtain k where k: "e d = Some k" using d by auto
    then have "d \<noteq> c" using c by auto
    then show ?thesis using repD(2) [OF r k] fresh [OF k] glob by (simp add: tab_of_def set_field_def)
  qed
  have tnew: "tab_of ?s c = ?n" using glob by (simp add: tab_of_def set_field_def)
  have small: "tab_of s d < ?n" "tab_of s d \<noteq> l_globals s" if "e d \<noteq> None" for d
    using that repD(3) [OF r] by (auto simp: class_table_def)
  have keep: "?n \<le> l_next ?s" "\<And>x. x < ?n \<Longrightarrow> l_fun ?s x = l_fun s x \<and> l_ud ?s x = l_ud s x" by (auto simp: set_field_def)
  have old: "class_table ?s k (tab_of s d)" if k: "e d = Some k" for d k
  proof -
    have p: "tab_of ?s q = tab_of s q" if "cl_parent k = Some q" for q using told repD(4) [OF r k that] by blast
    have "raw_fields (tab_of s d) ?s y = raw_fields (tab_of s d) s y" for y using fld small k by simp
    then show ?thesis using repD(3) [OF r k] p keep
      by (auto simp: class_table_def set_field_def intro: is_code_mono represents_mono split: option.splits)
  qed
  let ?k = "\<lparr>cl_name = name, cl_parent = None, cl_members = (\<lambda>_. None)\<rparr> :: 'a cls"
  have new: "class_table ?s ?k ?n"
    using g(2) by (auto simp: class_table_def set_field_def raw_fields_def is_code_def reserved_def)
  have "rep (e(c \<mapsto> ?k)) ?s" unfolding rep_def
  proof (intro conjI allI impI)
    fix d k assume dk: "(e(c \<mapsto> ?k)) d = Some k"
    show "t_names ?s d = cl_name k" using dk repD(2) [OF r] by (auto simp: set_field_def split: if_splits)
    show "raw_fields (l_globals ?s) ?s (LStr (cl_name k)) = LTab (tab_of ?s d)"
      using dk glob tnew told fresh repD(1,2) [OF r, of d k] by (auto simp: set_field_def split: if_splits)
    show "class_table ?s k (tab_of ?s d)" using dk new old told tnew by (auto split: if_splits)
    show "(e(c \<mapsto> ?k)) p \<noteq> None" if "cl_parent k = Some p" for p
      using dk that repD(4) [OF r] by (auto split: if_splits)
  next
    fix d d' assume d: "(e(c \<mapsto> ?k)) d \<noteq> None" "(e(c \<mapsto> ?k)) d' \<noteq> None" "tab_of ?s d = tab_of ?s d'"
    have inj: "x = y" if "e x \<noteq> None" "e y \<noteq> None" "tab_of s x = tab_of s y" for x y
      using r that unfolding rep_def by blast
    have "tab_of ?s x \<noteq> ?n" if "e x \<noteq> None" for x using told small(1) [of x] that by simp
    then show "d = d'" using d tnew told inj by (cases "d = c"; cases "d' = c") (auto split: if_splits)
  next
    fix d d' k l assume "(e(c \<mapsto> ?k)) d = Some k" "(e(c \<mapsto> ?k)) d' = Some l" "cl_name k = cl_name l"
    then show "d = d'" using fresh r by (fastforce simp: rep_def split: if_splits)
  qed (use g in \<open>auto simp: set_field_def\<close>)
  then show ?thesis using x by (auto simp: set_field_def same_view_def)
qed

lemma reg_rep:
  assumes "rep e s" "reg_ok r e"
  shows "\<exists>s'. reg_op r s = Some (Done () s') \<and> rep (spec_reg r e) s' \<and> same_view s s'"
proof (cases r)
  case (Add c name)
  then show ?thesis using reg_class [OF assms(1)] assms(2) by simp
next
  case (Inh c p)
  then show ?thesis using reg_parent [OF assms(1)] assms(2) by fastforce
next
  case (Def c name rty tys f)
  then obtain k where "e c = Some k" "name \<notin> reserved" using assms(2) by auto
  then show ?thesis unfolding Def reg_op.simps by (rule reg_member(1) [OF assms(1)])
next
  case (Mem c name b ty rd wr)
  then obtain k where "e c = Some k" "name \<notin> reserved" using assms(2) by auto
  then show ?thesis unfolding Mem reg_op.simps by (rule reg_member(2) [OF assms(1)])
qed

lemma regs_rep:
  assumes "rep e s" "regs_ok rs e"
  shows "\<exists>s'. steps (map reg_op rs) s = Some (Done () s') \<and> rep (spec_regs rs e) s' \<and> same_view s s'"
  using assms
proof (induction rs arbitrary: e s)
  case Nil
  then show ?case by (simp add: lua_exec)
next
  case (Cons r rs)
  obtain s1 where s1: "reg_op r s = Some (Done () s1)" "rep (spec_reg r e) s1" "same_view s s1"
    using reg_rep [of e s r] Cons.prems by auto
  then show ?case using Cons.IH [OF s1(2)] Cons.prems(2) steps_exec(2) [of "reg_op r", OF s1(1)] same_view_simps(2) [OF s1(3)]
    by auto
qed

text \<open>Other global values stay as they are.\<close>

lemma reg_global:
  assumes "rep e s" "reg_ok r e" "\<forall>c. r \<noteq> Add c x" "reg_op r s = Some (Done () s')"
  shows "raw_fields (l_globals s) s' (LStr x) = raw_fields (l_globals s) s (LStr x)"
proof -
  have tab: "tab_of s c \<noteq> l_globals s" "raw_fields (l_globals s) s (LStr (t_names s c)) = LTab (tab_of s c)" if "e c = Some k" for c k
    using repD(1,3) [OF assms(1) that] by (auto simp: class_table_def)
  show ?thesis
  proof (cases r)
    case (Add c name)
    have "t_meta (l_tab s (l_globals s)) = None" "l_globals s < l_next s" using assms(1) by (auto simp: rep_def)
    from class_add_exec [OF this, of name c] Add assms(2,4) obtain s0 where
      "s' = set_field (l_globals s) (LStr name) (LTab (l_next s)) s0" "l_tab s0 (l_globals s) = l_tab s (l_globals s)"
      using \<open>l_globals s < l_next s\<close> by fastforce
    moreover have "name \<noteq> x" using Add assms(3) by blast
    ultimately show ?thesis by (simp add: raw_fields_def set_field_def)
  next
    case (Inh c p)
    then obtain k l where k: "e c = Some k" "e p = Some l" using assms(2) by auto
    show ?thesis using Inh assms(4) class_inh_exec [OF tab(2) [OF k(1)] tab(2) [OF k(2)]] tab(1) [OF k(1)]
      by (auto simp: raw_fields_def set_field_def)
  next
    case (Def c name rty tys f)
    then obtain k where k: "e c = Some k" using assms(2) by auto
    show ?thesis using Def assms(4) class_def_exec [OF tab(2) [OF k]] tab(1) [OF k] by (auto simp: raw_fields_def set_field_def)
  next
    case (Mem c name b ty rd wr)
    then obtain k where k: "e c = Some k" using assms(2) by auto
    show ?thesis using Mem assms(4) class_mem_exec [OF tab(2) [OF k]] tab(1) [OF k] by (auto simp: raw_fields_def set_field_def)
  qed
qed

lemma regs_global:
  assumes "rep e s" "regs_ok rs e" "\<forall>c. Add c x \<notin> set rs" "steps (map reg_op rs) s = Some (Done () s')"
  shows "raw_fields (l_globals s) s' (LStr x) = raw_fields (l_globals s) s (LStr x)"
  using assms
proof (induction rs arbitrary: e s)
  case Nil
  then show ?case by (simp add: lua_exec)
next
  case (Cons r rs)
  obtain s1 where s1: "reg_op r s = Some (Done () s1)" "rep (spec_reg r e) s1" "same_view s s1"
    using reg_rep [of e s r] Cons.prems by auto
  have "raw_fields (l_globals s1) s' (LStr x) = raw_fields (l_globals s1) s1 (LStr x)"
    by (rule Cons.IH [OF s1(2)]) (use Cons.prems steps_exec(2) [of "reg_op r", OF s1(1)] in auto)
  moreover have "raw_fields (l_globals s) s1 (LStr x) = raw_fields (l_globals s) s (LStr x)"
    by (rule reg_global [OF Cons.prems(1) _ _ s1(1)]) (use Cons.prems(2,3) in auto)
  ultimately show ?case using s1(3) by (simp add: same_view_def)
qed

text \<open>A state without classes: the table of globals has no metatable.\<close>

lemma rep_start:
  assumes "t_meta (l_tab s (l_globals s)) = None" "l_globals s < l_next s"
  shows "rep (\<lambda>_. None) s"
  using assms by (simp add: rep_def)

section \<open>Looking members up\<close>

lemma index_2: "l_stack s = xs @ [k, w] \<Longrightarrow> index2adr 2 s = Some k"
  by (simp add: index2adr_def stkindex2adr_def LUA_GLOBALSINDEX_def nth_append)

lemma index_1: "l_stack s = xs @ [w] \<Longrightarrow> index2adr 1 s = Some w"
  by (simp add: index2adr_def stkindex2adr_def LUA_GLOBALSINDEX_def nth_append)

text \<open>The representation does not depend on the stack and the upvalues.\<close>

lemma rep_cong:
  assumes "l_tab s' = l_tab s" "l_fun s' = l_fun s" "l_ud s' = l_ud s" "l_next s' = l_next s"
    "l_globals s' = l_globals s" "t_names s' = t_names s"
  shows "tab_of s' = tab_of s" "raw_fields a s' = raw_fields a s" "represents s' m v = represents s m v" "rep e s' = rep e s"
proof -
  show r: "raw_fields a s' = raw_fields a s" for a using assms by (simp add: raw_fields_def fun_eq_iff)
  then show t: "tab_of s' = tab_of s" using assms by (simp add: tab_of_def fun_eq_iff)
  have p: "represents s' m v = represents s m v" for m v
  proof (cases m)
    case (Some k)
    then show ?thesis using assms by (cases k) (simp_all add: is_method_def)
  qed simp
  then show "represents s' m v = represents s m v" .
  show "rep e s' = rep e s" using assms r t p by (simp add: rep_def class_table_def is_code_def cong: option.case_cong)
qed

text \<open>The field of the class that a name resolves to.\<close>

definition found_value :: "'w tinker \<Rightarrow> string \<Rightarrow> (nat \<times> 'w member) option \<Rightarrow> lval" where
  "found_value s key r = (case r of None \<Rightarrow> LNil | Some (d, m) \<Rightarrow> raw_fields (tab_of s d) s (LStr key))"

lemma found_value_cong:
  "tab_of s' = tab_of s \<Longrightarrow> (\<And>a. raw_fields a s' = raw_fields a s) \<Longrightarrow> found_value s' key r = found_value s key r"
  by (simp add: found_value_def split: option.splits)

lemma represents_not_nil: "represents s (Some m) v \<Longrightarrow> v \<noteq> LNil" by (cases m) auto

lemma class_fields:
  assumes "rep e s" "e c = Some k" "key \<notin> reserved"
  shows "represents s (cl_members k key) (raw_fields (tab_of s c) s (LStr key))"
    "raw_fields (tab_of s c) s (LStr ''__parent'') = (case cl_parent k of None \<Rightarrow> LNil | Some p \<Rightarrow> LTab (tab_of s p))"
  using repD(3) [OF assms(1,2)] assms(3) by (auto simp: class_table_def)

lemma parent_table:
  assumes "raw_fields a s (LStr ''__parent'') = v" "l_stack s = LTab a # st"
  shows "steps [str ''__parent'', lua_rawget (- 2)] s = Some (Done () (s\<lparr>l_stack := v # LTab a # st\<rparr>))"
  using assms by (simp add: lua_exec)

lemma key_field:
  assumes "l_stack s = LTab b # st" "l_stack s = xs @ [LStr key, w]"
  shows "steps [lua_pushvalue 2, lua_rawget (- 2)] s = Some (Done () (s\<lparr>l_stack := raw_fields b s (LStr key) # LTab b # st\<rparr>))"
proof -
  have "lua_pushvalue 2 s = Some (Done () (s\<lparr>l_stack := LStr key # l_stack s\<rparr>))"
    using index_2 [OF assms(2)] by (simp add: lua_pushvalue_def pushv_def)
  then show ?thesis using assms(1) by (simp add: lua_exec)
qed

lemma invoke_parent_none:
  assumes "raw_fields a s (LStr ''__parent'') = LNil" "l_stack s = LTab a # st"
  shows "invoke_parent s = Some (Done () (s\<lparr>l_stack := LNil # LTab a # st\<rparr>))"
  by (subst invoke_parent.simps) (simp add: parent_table [OF assms] lua_istable_def)

lemma invoke_parent_some:
  assumes p: "raw_fields a s (LStr ''__parent'') = LTab b" and st: "l_stack s = LTab a # ps @ [LStr key, w]"
  shows "invoke_parent s = (if raw_fields b s (LStr key) \<noteq> LNil
      then Some (Done () (s\<lparr>l_stack := raw_fields b s (LStr key) # LTab a # ps @ [LStr key, w]\<rparr>))
      else bindL invoke_parent (\<lambda>_. lua_remove (- 2)) (s\<lparr>l_stack := LTab b # LTab a # ps @ [LStr key, w]\<rparr>))"
proof -
  let ?s = "s\<lparr>l_stack := LTab b # LTab a # ps @ [LStr key, w]\<rparr>"
  have k: "steps [lua_pushvalue 2, lua_rawget (- 2)] ?s =
      Some (Done () (?s\<lparr>l_stack := raw_fields b s (LStr key) # LTab b # LTab a # ps @ [LStr key, w]\<rparr>))"
    using key_field [of ?s b "LTab a # ps @ [LStr key, w]" "LTab b # LTab a # ps" key w] by (simp add: raw_fields_def)
  show ?thesis
    by (subst invoke_parent.simps)
      (simp add: parent_table [OF p st] k lua_istable_def lua_isnil_def lua_remove_def stkindex2adr_def bindL_def)
qed

lemma invoke_parent_resolves:
  assumes "resolves e key p r" "rep e s" "key \<notin> reserved" "e c = Some k" "cl_parent k = Some p"
    "l_stack s = LTab (tab_of s c) # ps @ [LStr key, w]"
  shows "invoke_parent s = Some (Done () (s\<lparr>l_stack := found_value s key r # l_stack s\<rparr>))"
  using assms
proof (induction arbitrary: c k ps s)
  case (own p kp m)
  have "raw_fields (tab_of s p) s (LStr key) \<noteq> LNil"
    using class_fields(1) [OF own.prems(1) own.hyps(1) own.prems(2)] own.hyps(2) represents_not_nil by metis
  moreover have "raw_fields (tab_of s c) s (LStr ''__parent'') = LTab (tab_of s p)"
    using class_fields(2) [OF own.prems(1,3,2)] own.prems(4) by simp
  ultimately show ?case using invoke_parent_some [OF _ own.prems(5)] own.prems(5) by (simp add: found_value_def)
next
  case (up p kp p' r)
  let ?s = "s\<lparr>l_stack := LTab (tab_of s p) # LTab (tab_of s c) # ps @ [LStr key, w]\<rparr>"
  have "raw_fields (tab_of s p) s (LStr key) = LNil"
    using class_fields(1) [OF up.prems(1) up.hyps(1) up.prems(2)] up.hyps(2) by simp
  moreover have "raw_fields (tab_of s c) s (LStr ''__parent'') = LTab (tab_of s p)"
    using class_fields(2) [OF up.prems(1,3,2)] up.prems(4) by simp
  moreover have t: "tab_of ?s = tab_of s" "raw_fields a ?s = raw_fields a s" "rep e ?s" for a
    using rep_cong [of ?s s] up.prems(1) by simp_all
  moreover have "invoke_parent ?s = Some (Done () (?s\<lparr>l_stack := found_value ?s key r # l_stack ?s\<rparr>))"
    by (rule up.IH [OF t(3) up.prems(2) up.hyps(1,3), where ps = "LTab (tab_of s c) # ps"]) (simp add: t)
  moreover have "found_value ?s key r = found_value s key r" by (rule found_value_cong [OF t(1,2)])
  ultimately show ?case using invoke_parent_some [OF _ up.prems(5)] up.prems(5)
    by (simp add: bindL_def lua_remove_def stkindex2adr_def)
next
  case (none p kp)
  let ?s = "s\<lparr>l_stack := LTab (tab_of s p) # LTab (tab_of s c) # ps @ [LStr key, w]\<rparr>"
  have "raw_fields (tab_of s p) s (LStr key) = LNil" "raw_fields (tab_of s p) s (LStr ''__parent'') = LNil"
    using class_fields [OF none.prems(1) none.hyps(1) none.prems(2)] none.hyps(2,3) by simp_all
  moreover have "raw_fields (tab_of s c) s (LStr ''__parent'') = LTab (tab_of s p)"
    using class_fields(2) [OF none.prems(1,3,2)] none.prems(4) by simp
  ultimately show ?case
    using invoke_parent_some [OF _ none.prems(5)] none.prems(5) invoke_parent_none [of "tab_of s p" ?s]
    by (simp add: found_value_def bindL_def lua_remove_def stkindex2adr_def raw_fields_def)
qed

lemma bindL_Raised [lua_exec]: "m s = Some (Raised v s1) \<Longrightarrow> bindL m f s = Some (Raised v s1)" by (simp add: bindL_def)

lemma meta_get_start:
  assumes "snd (l_ud s u) = Some a" "l_stack s = [LStr key, LUd u]"
  shows "steps [lua_getmetatable 1, lua_pushvalue 2, lua_rawget (- 2)] s =
    Some (Done () (s\<lparr>l_stack := [raw_fields a s (LStr key), LTab a, LStr key, LUd u]\<rparr>))"
  using assms by (simp add: lua_exec)

lemma meta_get_own:
  assumes "snd (l_ud s u) = Some a" "l_stack s = [LStr key, LUd u]"
    "raw_fields a s (LStr key) = v" "v \<noteq> LNil" "\<not> lua_isuserdata v"
  shows "meta_get s = Some (Done 1 (s\<lparr>l_stack := [v, LStr key, LUd u]\<rparr>))"
  using assms by (simp add: meta_get_def lua_exec)

lemma meta_get_parent:
  assumes "snd (l_ud s u) = Some a" "l_stack s = [LStr key, LUd u]" "raw_fields a s (LStr key) = LNil"
    and p: "invoke_parent (s\<lparr>l_stack := [LTab a, LStr key, LUd u]\<rparr>) = Some (Done () (s\<lparr>l_stack := [v, LTab a, LStr key, LUd u]\<rparr>))"
  shows "meta_get s = (if v = LNil then Some (Raised (LStr (missing_text (Some key))) (s\<lparr>l_stack := [LStr (missing_text (Some key)), LNil, LTab a, LStr key, LUd u]\<rparr>))
    else Some (Done 1 (s\<lparr>l_stack := [v, LStr key, LUd u]\<rparr>)))"
proof -
  have y: "invoke_parent (s\<lparr>l_stack := [LTab a, LStr key, LUd u]\<rparr>) = Some (Done () (s\<lparr>l_stack := [v, LTab a, LStr key, LUd u]\<rparr>))"
    by (rule p)
  show ?thesis using assms(1-3)
    by (simp add: meta_get_def lua_exec y lua_tostring_def lua_error_def)
qed

lemma meta_get_var:
  assumes "snd (l_ud s u) = Some a" "l_stack s = [LStr key, LUd u]" "raw_fields a s (LStr key) = LUd v"
    and "fst (l_ud s v) = MemVar b ty rd wr" "fst (l_ud s u) = User p own"
    and "push_lua ty (rd p (t_world s)) (s\<lparr>l_stack := [LUd v, LTab a, LStr key, LUd u]\<rparr>) = Some (Done () s1)"
    and "l_stack s1 = [x, LUd v, LTab a, LStr key, LUd u]"
  shows "meta_get s = Some (Done 1 (s1\<lparr>l_stack := [x, LStr key, LUd u]\<rparr>))"
proof -
  have y: "var_get (s\<lparr>l_stack := [LUd v, LTab a, LStr key, LUd u]\<rparr>) = Some (Done () s1)"
    using assms(4-6) by (simp add: var_get_def read_lua_def lua2object_def lua_exec)
  show ?thesis using assms(1-3,7) by (simp add: meta_get_def lua_exec y)
qed

end
