(* ===== verification/Lua_Objects.thy ===== *)
theory Lua_Objects
  imports Lua_Classes
begin

text \<open>
  What a script can do with the C++ objects it is given: calling methods, reading and assigning
  variables, through the metamethods of theory Lua_Tinker and the classes of theory Lua_Classes.
\<close>

section \<open>The script's view of an object\<close>

text \<open>An object of a registered class, owned or not.\<close>

definition object_of :: "'w tinker \<Rightarrow> nat \<Rightarrow> nat \<Rightarrow> nat \<Rightarrow> bool" where
  "object_of s c p u \<longleftrightarrow> (\<exists>own. l_ud s u = (User p own, Some (tab_of s c)))"

lemma script_get_frame:
  assumes "rep e s" "e c = Some k" "object_of s c p u"
  shows "script_get u key s = bindL (c_frame [LUd u, key] [] meta_get) (\<lambda>rs. retL (hd (rs @ [LNil]))) s"
    "script_set u key v s = bindL (c_frame [LUd u, key, v] [] meta_set) (\<lambda>_. retL ()) s"
proof -
  obtain f g where f: "raw_fields (tab_of s c) s (LStr ''__index'') = LFun f" "l_fun s f = (Meta_get, [])"
    "raw_fields (tab_of s c) s (LStr ''__newindex'') = LFun g" "l_fun s g = (Meta_set, [])"
    using repD(3) [OF assms(1,2)] by (auto simp: class_table_def is_code_def)
  have "metamethod ''__index'' u s = Some (Done f s)" "metamethod ''__newindex'' u s = Some (Done g s)"
    using f assms(3) by (auto simp: metamethod_def object_of_def)
  then show "script_get u key s = bindL (c_frame [LUd u, key] [] meta_get) (\<lambda>rs. retL (hd (rs @ [LNil]))) s"
    "script_set u key v s = bindL (c_frame [LUd u, key, v] [] meta_set) (\<lambda>_. retL ()) s"
    using f by (simp_all add: script_get_def script_set_def call_c_def run_code_def bindL_def)
qed

lemma script_get_function:
  assumes r: "rep e s" and key: "key \<notin> reserved" and res: "resolves e key c (Some (d, M_fun rty b tys f))"
    and ob: "object_of s c p u"
  shows "\<exists>g. script_get u (LStr key) s = Some (Done (LFun g) s) \<and> is_method s rty b tys f g"
proof -
  let ?s = "s\<lparr>l_stack := [LStr key, LUd u], l_up := []\<rparr>" let ?a = "tab_of s c"
  have m: "snd (l_ud ?s u) = Some ?a" using ob by (auto simp: object_of_def)
  have st: "l_stack ?s = [LStr key, LUd u]" by simp
  have t: "tab_of ?s = tab_of s" "raw_fields a ?s = raw_fields a s" "rep e ?s" for a
    using rep_cong [of ?s s] r by simp_all
  obtain g where g: "meta_get ?s = Some (Done 1 (?s\<lparr>l_stack := [LFun g, LStr key, LUd u]\<rparr>))" "is_method s rty b tys f g"
    using res
  proof (cases rule: resolves.cases)
    case (own k)
    then obtain g where "raw_fields ?a s (LStr key) = LFun g" "is_method s rty b tys f g"
      using class_fields(1) [OF r _ key, of c k] by auto
    then show ?thesis using that meta_get_own [OF m st] t(2) by (simp add: lua_isuserdata_def)
  next
    case (up k q)
    let ?s1 = "?s\<lparr>l_stack := [LTab ?a, LStr key, LUd u]\<rparr>"
    have t1: "tab_of ?s1 = tab_of s" "raw_fields a ?s1 = raw_fields a s" "rep e ?s1" for a
      using rep_cong [of ?s1 s] r by simp_all
    have "invoke_parent ?s1 = Some (Done () (?s1\<lparr>l_stack := found_value ?s1 key (Some (d, M_fun rty b tys f)) # l_stack ?s1\<rparr>))"
      by (rule invoke_parent_resolves [OF up(4) t1(3) key up(1,3), where ps = "[]" and w = "LUd u"]) (use t1(1) in simp_all)
    moreover obtain kd where "e d = Some kd" "cl_members kd key = Some (M_fun rty b tys f)"
      using res by (induction c "Some (d, M_fun rty b tys f)" rule: resolves.induct) auto
    then obtain g where g: "raw_fields (tab_of s d) s (LStr key) = LFun g" "is_method s rty b tys f g"
      using class_fields(1) [OF r _ key, of d kd] by auto
    moreover have "raw_fields ?a s (LStr key) = LNil" using class_fields(1) [OF r up(1) key] up(2) by simp
    ultimately show ?thesis using that [OF _ g(2)] meta_get_parent [OF m st, of "LFun g"] t t1 by (simp add: found_value_def)
  qed
  have "c_frame [LUd u, LStr key] [] meta_get s = Some (Done [LFun g] s)"
    using g(1) by (simp add: c_frame_def bindL_def)
  moreover obtain k where "e c = Some k" using res by (auto elim: resolvesE)
  ultimately show ?thesis using g(2) script_get_frame(1) [OF r _ ob] by (auto simp: bindL_def retL_def)
qed

lemma resolves_member:
  "resolves e key c (Some (d, m)) \<Longrightarrow> \<exists>k. e d = Some k \<and> cl_members k key = Some m"
  by (induction c "Some (d, m)" rule: resolves.induct) auto

text \<open>The value that the search through the parents comes to.\<close>

lemma meta_get_inherited:
  assumes r: "rep e s" and key: "key \<notin> reserved" and k: "e c = Some k" "cl_members k key = None"
    and res: "resolves e key c r" and ob: "object_of s c p u" and st: "l_stack s = [LStr key, LUd u]"
  shows "meta_get s = (if found_value s key r = LNil
      then Some (Raised (LStr (missing_text (Some key))) (s\<lparr>l_stack := [LStr (missing_text (Some key)), LNil, LTab (tab_of s c), LStr key, LUd u]\<rparr>))
      else Some (Done 1 (s\<lparr>l_stack := [found_value s key r, LStr key, LUd u]\<rparr>)))"
proof (rule meta_get_parent [OF _ st])
  let ?s1 = "s\<lparr>l_stack := [LTab (tab_of s c), LStr key, LUd u]\<rparr>"
  have t: "tab_of ?s1 = tab_of s" "raw_fields a ?s1 = raw_fields a s" "rep e ?s1" for a
    using rep_cong [of ?s1 s] r by simp_all
  show "snd (l_ud s u) = Some (tab_of s c)" using ob by (auto simp: object_of_def)
  show "raw_fields (tab_of s c) s (LStr key) = LNil" using class_fields(1) [OF r k(1) key] k(2) by simp
  show "invoke_parent ?s1 = Some (Done () (s\<lparr>l_stack := [found_value s key r, LTab (tab_of s c), LStr key, LUd u]\<rparr>))"
  proof (cases "cl_parent k")
    case None
    then have "r = None" using res k by (auto elim: resolvesE)
    moreover have "raw_fields (tab_of s c) ?s1 (LStr ''__parent'') = LNil"
      using class_fields(2) [OF r k(1) key] None t by simp
    ultimately show ?thesis using invoke_parent_none [of "tab_of s c" ?s1] by (simp add: found_value_def)
  next
    case (Some q)
    then have q: "resolves e key q r" using res k by (auto elim: resolvesE)
    have "invoke_parent ?s1 = Some (Done () (?s1\<lparr>l_stack := found_value ?s1 key r # l_stack ?s1\<rparr>))"
      by (rule invoke_parent_resolves [OF q t(3) key k(1) Some, where ps = "[]" and w = "LUd u"]) (simp add: t)
    then show ?thesis using found_value_cong [of ?s1 s, OF t(1,2)] by simp
  qed
qed

lemma c_frame_done:
  assumes "body (s\<lparr>l_stack := rev args, l_up := ups\<rparr>) = Some (Done n s1)"
  shows "c_frame args ups body s = Some (Done (rev (take n (l_stack s1))) (s1\<lparr>l_stack := l_stack s, l_up := l_up s\<rparr>))"
  using assms by (simp add: c_frame_def bindL_def)

lemma script_get_inherited:
  assumes r: "rep e s" and key: "key \<notin> reserved" and k: "e c = Some k" "cl_members k key = None"
    and res: "resolves e key c r" and ob: "object_of s c p u"
  shows "r = None \<Longrightarrow> \<exists>s'. script_get u (LStr key) s = Some (Raised (LStr (missing_text (Some key))) s')"
    "r \<noteq> None \<Longrightarrow> script_get u (LStr key) s = Some (Done (found_value s key r) s)"
proof -
  let ?s = "s\<lparr>l_stack := [LStr key, LUd u], l_up := []\<rparr>"
  have t: "tab_of ?s = tab_of s" "raw_fields a ?s = raw_fields a s" "rep e ?s" for a
    using rep_cong [of ?s s] r by simp_all
  have ob1: "object_of ?s c p u" using ob t by (auto simp: object_of_def)
  note m = meta_get_inherited [OF t(3) key k res ob1, simplified t found_value_cong [of ?s s, OF t(1,2)], simplified]
  note g = script_get_frame(1) [OF r k(1) ob, of "LStr key"]
  have n: "r \<noteq> None \<Longrightarrow> found_value s key r \<noteq> LNil"
  proof -
    assume "r \<noteq> None"
    then obtain d mb where d: "r = Some (d, mb)" by auto
    then obtain kd where "e d = Some kd" "cl_members kd key = Some mb" using resolves_member res by blast
    then show "found_value s key r \<noteq> LNil" using d class_fields(1) [OF r _ key, of d kd] represents_not_nil by (auto simp: found_value_def)
  qed
  show "\<exists>s'. script_get u (LStr key) s = Some (Raised (LStr (missing_text (Some key))) s')" if "r = None"
    using g m that by (simp add: c_frame_def bindL_def found_value_def)
  show "script_get u (LStr key) s = Some (Done (found_value s key r) s)" if "r \<noteq> None"
    using g m n [OF that] by (simp add: c_frame_def bindL_def retL_def)
qed

lemma script_get_missing:
  assumes r: "rep e s" and key: "key \<notin> reserved" and k: "e c = Some k" "cl_members k key = None"
    and res: "resolves e key c None" and ob: "object_of s c p u"
  shows "\<exists>st. script_get u (LStr key) s = Some (Raised (LStr (missing_text (Some key))) (s\<lparr>l_stack := st, l_up := []\<rparr>))"
proof -
  let ?s = "s\<lparr>l_stack := [LStr key, LUd u], l_up := []\<rparr>"
  have t: "tab_of ?s = tab_of s" "raw_fields a ?s = raw_fields a s" "rep e ?s" for a
    using rep_cong [of ?s s] r by simp_all
  have ob1: "object_of ?s c p u" using ob t by (auto simp: object_of_def)
  note m = meta_get_inherited [OF t(3) key k res ob1, simplified t found_value_cong [of ?s s, OF t(1,2)], simplified]
  note g = script_get_frame(1) [OF r k(1) ob, of "LStr key"]
  show ?thesis
    by (rule exI [of _ "[LStr (missing_text (Some key)), LNil, LTab (tab_of s c), LStr key, LUd u]"])
      (use g m in \<open>simp add: c_frame_def bindL_def found_value_def\<close>)
qed

text \<open>
  A variable of a base class is not read through an object of a derived class: what the script gets is
  the userdata that describes the variable.
\<close>

theorem inherited_variable_not_read:
  assumes "rep e s" "key \<notin> reserved" "e c = Some k" "cl_members k key = None"
    and res: "resolves e key c (Some (d, M_var b ty rd wr))" and "object_of s c p u"
  shows "\<exists>v. script_get u (LStr key) s = Some (Done (LUd v) s) \<and> fst (l_ud s v) = MemVar b ty rd wr"
proof -
  obtain kd where "e d = Some kd" "cl_members kd key = Some (M_var b ty rd wr)" using resolves_member [OF res] by blast
  then obtain v where "raw_fields (tab_of s d) s (LStr key) = LUd v" "fst (l_ud s v) = MemVar b ty rd wr"
    using class_fields(1) [OF assms(1) _ assms(2), of d kd] by auto
  then show ?thesis using script_get_inherited(2) [OF assms] by (simp add: found_value_def)
qed

section \<open>Values that are converted without effects\<close>

definition plain_arg :: "ctype \<Rightarrow> lval \<Rightarrow> cval \<Rightarrow> bool" where
  "plain_arg ty a v \<longleftrightarrow>
     (case ty of
        Int_t sg n \<Rightarrow> (\<exists>x k. a = LNum x \<and> v = CInt k \<and> cast_int sg n x = Some k)
      | Bool_t \<Rightarrow> (\<exists>b. a = LBool b \<and> v = CBool b)
      | Double_t \<Rightarrow> (\<exists>x. a = LNum x \<and> v = CDouble x)
      | Cstr_t \<Rightarrow> (\<exists>x. a = LStr x \<and> v = CStr (Some x))
      | _ \<Rightarrow> False)"

fun plain_args :: "ctype list \<Rightarrow> lval list \<Rightarrow> cval list \<Rightarrow> bool" where
  "plain_args [] [] [] \<longleftrightarrow> True"
| "plain_args (ty # tys) (a # as) (v # vs) \<longleftrightarrow> plain_arg ty a v \<and> plain_args tys as vs"
| "plain_args _ _ _ \<longleftrightarrow> False"

lemma read_plain:
  assumes "plain_arg ty a v" "index2adr idx s = Some a"
  shows "read_lua ty idx s = Some (Done v s)"
  using assms
  by (cases ty) (auto simp: plain_arg_def read_lua_def read_number_def at_index_def lua_tonumber_def lua_isboolean_def lua_toboolean_def
      lua_tostring_def bindL_def retL_def ofL_def)

lemma index_rev:
  assumes "l_stack s = rev (ys @ a # as)"
  shows "index2adr (int (length ys) + 1) s = Some a"
  using assms by (simp add: index2adr_def stkindex2adr_def LUA_GLOBALSINDEX_def nth_append nat_add_distrib)

lemma read_args_plain:
  assumes "plain_args tys as vs" "l_stack s = rev (ys @ as)"
  shows "read_args (int (length ys) + 1) tys s = Some (Done vs s)"
  using assms
proof (induction tys as vs arbitrary: ys rule: plain_args.induct)
  case (2 ty tys a as v vs)
  have "read_lua ty (int (length ys) + 1) s = Some (Done v s)"
    using read_plain [OF _ index_rev [of s ys a as]] "2.prems" by simp
  moreover have "read_args (int (length (ys @ [a])) + 1) tys s = Some (Done vs s)" using "2.IH" [of "ys @ [a]"] "2.prems" by simp
  ultimately show ?case by (simp add: bindL_def retL_def add.commute)
qed (simp_all add: retL_def)

definition plain_value :: "ctype \<Rightarrow> cval \<Rightarrow> lval list option" where
  "plain_value ty v =
     (case ty of
        Void_t \<Rightarrow> Some []
      | Bool_t \<Rightarrow> (case v of CBool b \<Rightarrow> Some [LBool b] | _ \<Rightarrow> None)
      | Int_t sg n \<Rightarrow> (case v of CInt x \<Rightarrow> Some [LNum (to_double x)] | _ \<Rightarrow> None)
      | Double_t \<Rightarrow> (case v of CDouble x \<Rightarrow> Some [LNum x] | _ \<Rightarrow> None)
      | Cstr_t \<Rightarrow> (case v of CStr x \<Rightarrow> Some [case x of None \<Rightarrow> LNil | Some t \<Rightarrow> LStr t] | _ \<Rightarrow> None)
      | _ \<Rightarrow> None)"

lemma push_plain:
  assumes "plain_value ty v = Some rs" "ty \<noteq> Void_t"
  shows "\<exists>x. rs = [x] \<and> push_lua ty v s = Some (Done () (s\<lparr>l_stack := x # l_stack s\<rparr>))"
  using assms by (cases ty; cases v) (auto simp: plain_value_def push_lua_def lua_exec)

text \<open>A method call of the script on an object runs the method that the name means, on the object.\<close>

lemma method_runs:
  assumes r: "rep e s" and key: "key \<notin> reserved" and res: "resolves e key c (Some (d, M_fun rty b tys f))"
    and ob: "object_of s c p u" and args: "plain_args tys args vs"
    and f: "f p vs (t_world s) = Some (v, w)" "plain_value rty v = Some rs"
  shows "script_method u key args s = Some (Done rs (s\<lparr>t_world := w\<rparr>))"
proof -
  obtain g where g: "script_get u (LStr key) s = Some (Done (LFun g) s)" "is_method s rty b tys f g"
    using script_get_function [OF r key res ob] by blast
  then obtain q where q: "l_fun s g = (Mem_functor rty b tys, [LUd q])" "fst (l_ud s q) = Method f"
    by (auto simp: is_method_def)
  let ?s = "s\<lparr>l_stack := rev (LUd u # args), l_up := [LUd q]\<rparr>"
  have "index2adr 1 ?s = Some (LUd u)" using index_1 [of ?s "rev args" "LUd u"] by simp
  then have ob1: "read_lua (Obj_t b) 1 ?s = Some (Done (CPtr p) ?s)"
    using ob by (auto simp: read_lua_def lua2object_def at_index_def lua_isuserdata_def bindL_def object_of_def)
  have a: "read_args 2 tys ?s = Some (Done vs ?s)" using read_args_plain [OF args, of ?s "[LUd u]"] by simp
  have up: "index2adr (lua_upvalueindex 1) ?s = Some (LUd q)"
    by (simp add: lua_upvalueindex_def index2adr_def LUA_GLOBALSINDEX_def)
  have "\<exists>s1. mem_functor_invoke rty b tys ?s = Some (Done (length rs) s1) \<and> take (length rs) (l_stack s1) = rev rs \<and>
      s1\<lparr>l_stack := l_stack s, l_up := l_up s\<rparr> = s\<lparr>t_world := w\<rparr>"
  proof (cases "rty = Void_t")
    case True
    then have "rs = []" using f(2) by (simp add: plain_value_def)
    then show ?thesis using True ob1 a up q f by (simp add: mem_functor_invoke_def bindL_def retL_def)
  next
    case False
    obtain x where "rs = [x]" "push_lua rty v (?s\<lparr>t_world := w\<rparr>) = Some (Done () (?s\<lparr>t_world := w, l_stack := x # l_stack ?s\<rparr>))"
      using push_plain [OF f(2) False, of "?s\<lparr>t_world := w\<rparr>"] by auto
    then show ?thesis using False ob1 a up q f by (simp add: mem_functor_invoke_def bindL_def retL_def)
  qed
  then have "call_c g (LUd u # args) s = Some (Done rs (s\<lparr>t_world := w\<rparr>))"
    using q(1) by (auto simp: call_c_def run_code_def c_frame_def bindL_def)
  then show ?thesis using g(1) by (simp add: script_method_def bindL_def)
qed

section \<open>Objects as global values\<close>

text \<open>Writing a global that is not the name of a class.\<close>

lemma rep_global:
  assumes r: "rep e s" and fresh: "\<forall>d k. e d = Some k \<longrightarrow> cl_name k \<noteq> name"
    and old: "l_next s \<le> l_next s'" "\<And>x. x < l_next s \<Longrightarrow> l_fun s' x = l_fun s x \<and> l_ud s' x = l_ud s x"
      "l_tab s' = l_tab s" "l_globals s' = l_globals s" "t_names s' = t_names s"
  shows "rep e (set_field (l_globals s) (LStr name) v s')" "e c \<noteq> None \<Longrightarrow> tab_of (set_field (l_globals s) (LStr name) v s') c = tab_of s c"
proof -
  let ?s = "set_field (l_globals s) (LStr name) v s'"
  have g: "raw_fields (l_globals s) ?s y = (if y = LStr name then v else raw_fields (l_globals s) s y)" for y
    using old by (simp add: raw_fields_def set_field_def)
  have f: "raw_fields b ?s y = raw_fields b s y" if "b \<noteq> l_globals s" for b y
    using that old by (simp add: raw_fields_def set_field_def)
  have t: "tab_of ?s d = tab_of s d" if "e d = Some k" for d k
    using repD(2) [OF r that] fresh that g old by (simp add: tab_of_def set_field_def)
  then show "e c \<noteq> None \<Longrightarrow> tab_of ?s c = tab_of s c" by auto
  have keep: "l_next s \<le> l_next ?s" "\<And>x. x < l_next s \<Longrightarrow> l_fun ?s x = l_fun s x \<and> l_ud ?s x = l_ud s x"
    using old by (auto simp: set_field_def)
  have ct: "class_table ?s k (tab_of s d)" if k: "e d = Some k" for d k
  proof -
    have a: "tab_of s d \<noteq> l_globals s" using repD(3) [OF r k] by (simp add: class_table_def)
    have p: "tab_of ?s q = tab_of s q" if "cl_parent k = Some q" for q using t repD(4) [OF r k that] by blast
    show ?thesis using repD(3) [OF r k] p keep f [OF a] old(4)
      by (auto simp: class_table_def set_field_def intro: is_code_mono represents_mono split: option.splits)
  qed
  show "rep e ?s" unfolding rep_def
  proof (intro conjI allI impI)
    show "t_meta (l_tab ?s (l_globals ?s)) = None" "l_globals ?s < l_next ?s"
      using r old(1,3,4) by (simp_all add: rep_def set_field_def)
  next
    fix d k assume k: "e d = Some k"
    show "t_names ?s d = cl_name k" using repD(2) [OF r k] old(5) by (simp add: set_field_def)
    show "raw_fields (l_globals ?s) ?s (LStr (cl_name k)) = LTab (tab_of ?s d)"
      using repD(1,2) [OF r k] g t [OF k] fresh k old(4) by (simp add: set_field_def)
    show "class_table ?s k (tab_of ?s d)" using ct [OF k] t [OF k] by simp
    show "e q \<noteq> None" if "cl_parent k = Some q" for q using repD(4) [OF r k that] .
  next
    fix d d' assume "e d \<noteq> None" "e d' \<noteq> None" "tab_of ?s d = tab_of ?s d'"
    then show "d = d'" using r t unfolding rep_def by fastforce
  next
    fix d d' k l assume "e d = Some k" "e d' = Some l" "cl_name k = cl_name l"
    then show "d = d'" using r unfolding rep_def by blast
  qed
qed

lemma set_object:
  assumes r: "rep e s" and c: "e c = Some k" and fresh: "\<forall>d k. e d = Some k \<longrightarrow> cl_name k \<noteq> name" and p: "p \<noteq> 0"
  shows "\<exists>s' u. set_lua name (Obj_t c) (CPtr p) s = Some (Done () s') \<and> rep e s' \<and> same_view s s' \<and>
    raw_fields (l_globals s') s' (LStr name) = LUd u \<and> object_of s' c p u \<and>
    (\<forall>y. y \<noteq> name \<longrightarrow> raw_fields (l_globals s') s' (LStr y) = raw_fields (l_globals s) s (LStr y))"
proof -
  let ?s = "s\<lparr>l_next := l_next s + 1, l_ud := (l_ud s)(l_next s := (User p False, Some (tab_of s c)))\<rparr>"
  let ?s' = "set_field (l_globals s) (LStr name) (LUd (l_next s)) ?s"
  have m: "t_meta (l_tab s (l_globals s)) = None" using r by (simp add: rep_def)
  have x: "set_lua name (Obj_t c) (CPtr p) s = Some (Done () ?s')"
    using p repD(1) [OF r c] m by (simp add: set_lua_def push_lua_def object2lua_def ptr2lua_def lua_exec)
  have "rep e ?s'" "tab_of ?s' c = tab_of s c" using rep_global [OF r fresh, where s' = ?s] c by auto
  then show ?thesis using x by (auto simp: object_of_def set_field_def raw_fields_def same_view_def)
qed

text \<open>
  C13: Whatever classes are registered in whatever order, with whatever inheritance: a method that the script
  calls on an object runs the C++ function registered for the name in the nearest class, on the
  C++ object, with the converted arguments, and gives the script its converted result; neither
  registering nor calling leaves anything on the stack.
\<close>

theorem bound_method_runs:
  assumes "t_meta (l_tab s (l_globals s)) = None" "l_globals s < l_next s" "regs_ok rs (\<lambda>_. None)"
    and "resolves (spec_regs rs (\<lambda>_. None)) key c (Some (d, M_fun rty b tys f))" "key \<notin> reserved"
    and "\<forall>d k. spec_regs rs (\<lambda>_. None) d = Some k \<longrightarrow> cl_name k \<noteq> name" "p \<noteq> 0"
    and "plain_args tys args vs" "f p vs (t_world s) = Some (v, w)" "plain_value rty v = Some res"
  shows "\<exists>s' u. steps (map reg_op rs @ [set_lua name (Obj_t c) (CPtr p)]) s = Some (Done () s') \<and>
    raw_fields (l_globals s') s' (LStr name) = LUd u \<and>
    script_method u key args s' = Some (Done res (s'\<lparr>t_world := w\<rparr>)) \<and> l_stack s' = l_stack s \<and> t_world s' = t_world s"
proof -
  let ?e = "spec_regs rs (\<lambda>_. None)"
  obtain s1 where s1: "steps (map reg_op rs) s = Some (Done () s1)" "rep ?e s1" "same_view s s1"
    using regs_rep [OF rep_start [OF assms(1,2)] assms(3)] by blast
  obtain k where k: "?e c = Some k" using assms(4) by (auto elim: resolvesE)
  obtain s2 u where s2: "set_lua name (Obj_t c) (CPtr p) s1 = Some (Done () s2)" "rep ?e s2" "same_view s1 s2"
      "raw_fields (l_globals s2) s2 (LStr name) = LUd u" "object_of s2 c p u"
    using set_object [OF s1(2) k assms(6,7)] by blast
  have v: "l_stack s2 = l_stack s" "t_world s2 = t_world s" using s1(3) s2(3) by (simp_all add: same_view_def)
  have "steps (map reg_op rs @ [set_lua name (Obj_t c) (CPtr p)]) s = Some (Done () s2)"
    using steps_append [OF s1(1)] s2(1) by (simp add: lua_exec)
  then show ?thesis using method_runs [OF s2(2) assms(5,4) s2(5) assms(8) _ assms(10)] assms(9) v s2(4) by auto
qed

text \<open>A fresh interpreter over a number, and a method that adds to it.\<close>

definition ex_lua :: "'w \<Rightarrow> 'w tinker" where
  "ex_lua w = \<lparr>l_stack = [], l_up = [], l_tab = (\<lambda>_. \<lparr>t_fields = (\<lambda>_. LNil), t_meta = None\<rparr>),
     l_fun = (\<lambda>_. (Script 0, [])), l_ud = (\<lambda>_. (Bits 0, None)), l_nilmeta = None, l_next = 1, l_globals = 0,
     l_fromnumber = (\<lambda>x. fmt_d \<lfloor>x\<rfloor>), l_scan = (\<lambda>_. None), l_border = (\<lambda>_. 0),
     t_world = w, t_log = [], t_names = (\<lambda>_. []), t_code = (\<lambda>_ _ _. None), t_delete = (\<lambda>_ w. w),
     t_objs = (\<lambda>_. None), t_nobj = 0\<rparr>"

definition ex_method :: "nat \<Rightarrow> cval list \<Rightarrow> int \<Rightarrow> (cval \<times> int) option" where
  "ex_method p vs w = (case vs of [CInt x] \<Rightarrow> Some (CInt (w + x), w + x) | _ \<Rightarrow> None)"

definition ex_regs :: "int reg list" where
  "ex_regs = [Add 1 ''Base'', Def 1 ''add'' (Int_t True 32) [Int_t True 32] ex_method, Add 2 ''Derived'', Inh 2 1]"

lemma ex_resolves:
  "resolves (spec_regs ex_regs (\<lambda>_. None)) ''add'' 2 (Some (1, M_fun (Int_t True 32) 1 [Int_t True 32] ex_method))"
  by (rule resolves.up [where p = 1]; (rule resolves.own)?) (simp add: ex_regs_def put_member_def)+

lemma cast_half: "cast_int True 32 (5 / 2) = Some 2" by code_simp

theorem bound_method_runs_witness:
  "\<exists>s' u. steps (map reg_op ex_regs @ [set_lua ''obj'' (Obj_t 2) (CPtr 7)]) (ex_lua 40) = Some (Done () s') \<and>
    script_method u ''add'' [LNum (5 / 2)] s' = Some (Done [LNum 42] (s'\<lparr>t_world := 42\<rparr>))"
proof -
  have "\<exists>s' u. steps (map reg_op ex_regs @ [set_lua ''obj'' (Obj_t 2) (CPtr 7)]) (ex_lua 40) = Some (Done () s') \<and>
    raw_fields (l_globals s') s' (LStr ''obj'') = LUd u \<and>
    script_method u ''add'' [LNum (5 / 2)] s' = Some (Done [LNum 42] (s'\<lparr>t_world := 42\<rparr>)) \<and>
    l_stack s' = l_stack (ex_lua (40 :: int)) \<and> t_world s' = t_world (ex_lua 40 :: int tinker)"
  proof (rule bound_method_runs [OF _ _ _ ex_resolves, where vs = "[CInt 2]" and v = "CInt 42"])
    show "plain_args [Int_t True 32] [LNum (5 / 2)] [CInt 2]"
      using cast_half unfolding plain_args.simps plain_arg_def ctype.case by blast
    show "plain_value (Int_t True 32) (CInt 42) = Some [LNum 42]" by (simp add: plain_value_def to_double_def)
  qed (simp_all add: ex_lua_def ex_regs_def put_member_def reserved_def ex_method_def)
  then show ?thesis by blast
qed

section \<open>Variables\<close>

lemma script_set_nil:
  assumes r: "rep e s" and k: "e c = Some k" "cl_members k key = None" and key: "key \<notin> reserved" and ob: "object_of s c p u"
  shows "script_set u (LStr key) v s = Some (Done () (set_field (tab_of s c) (LStr key) v s))"
proof -
  have n: "raw_fields (tab_of s c) s (LStr key) = LNil" using class_fields(1) [OF r k(1) key] k(2) by simp
  have m: "snd (l_ud s u) = Some (tab_of s c)" using ob by (auto simp: object_of_def)
  have "meta_set (s\<lparr>l_stack := [v, LStr key, LUd u], l_up := []\<rparr>) =
      Some (Done 0 (set_field (tab_of s c) (LStr key) v (s\<lparr>l_stack := [v, LStr key, LUd u], l_up := []\<rparr>)))"
    using n m by (simp add: meta_set_def lua_exec)
  then show ?thesis using script_get_frame(2) [OF r k(1) ob] by (simp add: c_frame_def bindL_def retL_def set_field_def)
qed

text \<open>
  Assigning a name that the object's class does not have, not even if a base class has it, stores the
  value in the table of the class: from then on every object of the class has it.
\<close>

theorem unknown_assignment_shared:
  assumes "rep e s" "e c = Some k" "cl_members k key = None" "key \<notin> reserved" "object_of s c p u" "object_of s c q u'"
    and "v \<noteq> LNil" "\<not> lua_isuserdata v"
  shows "\<exists>s'. script_set u (LStr key) v s = Some (Done () s') \<and> t_world s' = t_world s \<and>
    script_get u' (LStr key) s' = Some (Done v s')"
proof -
  let ?a = "tab_of s c" let ?s = "set_field ?a (LStr key) v s"
  have ct: "class_table s k ?a" using repD(3) [OF assms(1,2)] .
  obtain f where f: "raw_fields ?a s (LStr ''__index'') = LFun f" "l_fun s f = (Meta_get, [])"
    using ct by (auto simp: class_table_def is_code_def)
  have i: "LStr key \<noteq> LStr ''__index''" using assms(4) by (auto simp: reserved_def)
  have m: "snd (l_ud ?s u') = Some ?a" using assms(6) by (auto simp: object_of_def set_field_def)
  have "meta_get (?s\<lparr>l_stack := [LStr key, LUd u'], l_up := []\<rparr>) =
      Some (Done 1 (?s\<lparr>l_stack := [v, LStr key, LUd u'], l_up := []\<rparr>))"
    using meta_get_own [of "?s\<lparr>l_stack := [LStr key, LUd u'], l_up := []\<rparr>" u' ?a key v] m assms(7,8)
    by (simp add: set_field_def raw_fields_def)
  moreover have "metamethod ''__index'' u' ?s = Some (Done f ?s)" "l_fun ?s f = (Meta_get, [])"
    using f m i by (auto simp: metamethod_def set_field_def raw_fields_def)
  ultimately have "script_get u' (LStr key) ?s = Some (Done v ?s)"
    by (simp add: script_get_def call_c_def run_code_def c_frame_def bindL_def retL_def set_field_def)
  then show ?thesis using script_set_nil [OF assms(1-5)] by (simp add: set_field_def)
qed

text \<open>A variable of the object's own class is read from and written to the C++ object.\<close>

lemma own_variable:
  assumes r: "rep e s" and k: "e c = Some k" "cl_members k key = Some (M_var b ty rd wr)" and key: "key \<notin> reserved"
    and ob: "object_of s c p u"
  shows "plain_arg ty a v \<Longrightarrow> script_set u (LStr key) a s = Some (Done () (s\<lparr>t_world := wr p v (t_world s)\<rparr>))"
    "plain_value ty (rd p (t_world s)) = Some [x] \<Longrightarrow> script_get u (LStr key) s = Some (Done x s)"
proof -
  obtain q where q: "raw_fields (tab_of s c) s (LStr key) = LUd q" "fst (l_ud s q) = MemVar b ty rd wr"
    using class_fields(1) [OF r k(1) key] k(2) by auto
  have m: "snd (l_ud s u) = Some (tab_of s c)" using ob by (auto simp: object_of_def)
  obtain own where o: "fst (l_ud s u) = User p own" using ob by (auto simp: object_of_def)
  show "script_set u (LStr key) a s = Some (Done () (s\<lparr>t_world := wr p v (t_world s)\<rparr>))" if a: "plain_arg ty a v"
  proof -
    let ?s = "s\<lparr>l_up := [], l_stack := [LUd q, LTab (tab_of s c), a, LStr key, LUd u]\<rparr>"
    have "index2adr 3 ?s = Some a" "index2adr 1 ?s = Some (LUd u)"
      by (simp_all add: index2adr_def stkindex2adr_def LUA_GLOBALSINDEX_def)
    then have "read_lua ty 3 ?s = Some (Done v ?s)" "read_lua (Obj_t b) 1 ?s = Some (Done (CPtr p) ?s)"
      using read_plain [OF a] o by (auto simp: read_lua_def lua2object_def at_index_def lua_isuserdata_def bindL_def)
    then have "var_set ?s = Some (Done () (?s\<lparr>t_world := wr p v (t_world s)\<rparr>))"
      using q(2) by (simp add: var_set_def index2adr_def stkindex2adr_def LUA_GLOBALSINDEX_def bindL_def)
    then have "meta_set (s\<lparr>l_stack := [a, LStr key, LUd u], l_up := []\<rparr>) =
        Some (Done 0 (s\<lparr>l_stack := [a, LStr key, LUd u], l_up := [], t_world := wr p v (t_world s)\<rparr>))"
      using q(1) m by (simp add: meta_set_def lua_exec)
    then show ?thesis using script_get_frame(2) [OF r k(1) ob] by (simp add: c_frame_def bindL_def retL_def)
  qed
  show "script_get u (LStr key) s = Some (Done x s)" if x: "plain_value ty (rd p (t_world s)) = Some [x]"
  proof -
    let ?s0 = "s\<lparr>l_stack := [LStr key, LUd u], l_up := []\<rparr>"
    have "ty \<noteq> Void_t" using x by (auto simp: plain_value_def)
    then have "push_lua ty (rd p (t_world ?s0)) (?s0\<lparr>l_stack := [LUd q, LTab (tab_of s c), LStr key, LUd u]\<rparr>) =
        Some (Done () (?s0\<lparr>l_stack := [x, LUd q, LTab (tab_of s c), LStr key, LUd u]\<rparr>))"
      using push_plain [OF x, of "?s0\<lparr>l_stack := [LUd q, LTab (tab_of s c), LStr key, LUd u]\<rparr>"] by auto
    then have "meta_get ?s0 = Some (Done 1 (?s0\<lparr>l_stack := [x, LStr key, LUd u]\<rparr>))"
      using meta_get_var [of ?s0 u "tab_of s c" key q b ty rd wr p own] m q o by (simp add: raw_fields_def)
    then show ?thesis using script_get_frame(1) [OF r k(1) ob] by (simp add: c_frame_def bindL_def retL_def)
  qed
qed

end
