(* ===== verification/Lua_Values.thy ===== *)
theory Lua_Values
  imports Lua_Objects
begin

text \<open>
  Values between C++ and the script: what is pushed is read back, and how the 64-bit integers,
  which are userdata, compare.
\<close>

section \<open>Round trips\<close>

lemma trunc_of_int [simp]: "trunc (of_int x) = x"
  by (simp add: trunc_def)

lemma to_double_exact: "\<bar>x\<bar> \<le> 2 ^ 53 \<Longrightarrow> to_double x = of_int x"
  by (simp add: to_double_def Let_def nat_le_iff)

text \<open>Values of a type that are not changed on their way through the interpreter.\<close>

definition fits :: "ctype \<Rightarrow> cval \<Rightarrow> bool" where
  "fits ty v \<longleftrightarrow>
     (case ty of
        Bool_t \<Rightarrow> (\<exists>b. v = CBool b)
      | Int_t sg n \<Rightarrow> (\<exists>x. v = CInt x \<and> in_range sg n x \<and> \<bar>x\<bar> \<le> 2 ^ 53)
      | Double_t \<Rightarrow> (\<exists>x. v = CDouble x)
      | Cstr_t \<Rightarrow> (\<exists>x. v = CStr x)
      | S64_t \<Rightarrow> (\<exists>x. v = CInt x \<and> in_range True 64 x)
      | U64_t \<Rightarrow> (\<exists>x. v = CInt x \<and> in_range False 64 x)
      | Obj_t c \<Rightarrow> (\<exists>p. v = CPtr p \<and> p \<noteq> 0)
      | _ \<Rightarrow> False)"

text \<open>A global name that is free or names a class.\<close>

definition meta_name :: "'w tinker \<Rightarrow> string \<Rightarrow> bool" where
  "meta_name s name \<longleftrightarrow> (case raw_fields (l_globals s) s (LStr name) of LNil \<Rightarrow> True | LTab _ \<Rightarrow> True | _ \<Rightarrow> False)"

lemma meta_nameD: "meta_name s name \<Longrightarrow> raw_fields (l_globals s) s (LStr name) = LNil \<or> (\<exists>a. raw_fields (l_globals s) s (LStr name) = LTab a)"
  by (simp add: meta_name_def split: lval.splits)

lemma push_bits_exec:
  assumes "t_meta (l_tab s (l_globals s)) = None" "meta_name s name"
  shows "\<exists>s1 m. push_bits name b s = Some (Done () s1) \<and> l_stack s1 = LUd (l_next s) # l_stack s \<and> l_ud s1 (l_next s) = (Bits b, m)"
  using meta_nameD [OF assms(2)] assms(1) by (auto simp: push_bits_def lua_exec)

lemma object2lua_exec:
  assumes "t_meta (l_tab s (l_globals s)) = None" "meta_name s (t_names s c)" "p \<noteq> 0"
  shows "\<exists>s1 m. object2lua c p s = Some (Done () s1) \<and> l_stack s1 = LUd (l_next s) # l_stack s \<and> l_ud s1 (l_next s) = (User p False, m)"
  using meta_nameD [OF assms(2)] assms(1,3) by (auto simp: object2lua_def ptr2lua_def lua_exec)

lemma index_top: "l_stack s = v # st \<Longrightarrow> index2adr (- 1) s = Some v"
  by (simp add: index2adr_def stkindex2adr_def LUA_GLOBALSINDEX_def)

lemma read_bits_userdata:
  assumes "l_stack s = LUd a # st" "fst (l_ud s a) = Bits b"
  shows "read_bits sg (- 1) s = Some (Done (CInt (if sg then sint b else uint b)) s)"
  using assms index_top [OF assms(1)] by (simp add: read_bits_def lua_isnumber_def)

lemma word_in_range:
  "in_range True 64 x \<Longrightarrow> sint (word_of_int x :: u64) = x" "in_range False 64 x \<Longrightarrow> uint (word_of_int x :: u64) = x"
  by (simp_all add: in_range_def signed_of_int signed_take_bit_int_eq_self unsigned_of_int take_bit_int_eq_self)

text \<open>
  C31: When the table of globals has no metatable and the global names of the classes and of \<^verbatim>\<open>__s64\<close> and \<^verbatim>\<open>__u64\<close>
  are free or hold tables, each of these values takes one place on the stack and is read back as it was
  pushed: truth values, floating-point numbers, integers of every width from \<^verbatim>\<open>char\<close> to \<^verbatim>\<open>long\<close> whose magnitude
  is at most \<open>2 ^ 53\<close> (they travel as doubles, so larger values of \<^verbatim>\<open>long\<close> and \<^verbatim>\<open>unsigned long\<close> are not meant), all
  values of the two 64-bit types \<^verbatim>\<open>long long\<close>, texts, null texts, and pointers to objects that are not null.
\<close>

theorem values_roundtrip:
  assumes "fits ty v" "t_meta (l_tab s (l_globals s)) = None" "meta_name s ''__s64''" "meta_name s ''__u64''"
    and "\<And>c. meta_name s (t_names s c)"
  shows "\<exists>s1 x. push_lua ty v s = Some (Done () s1) \<and> l_stack s1 = x # l_stack s \<and> read_lua ty (- 1) s1 = Some (Done v s1)"
proof (cases ty)
  case (Int_t sg n)
  then obtain x where x: "v = CInt x" "in_range sg n x" "\<bar>x\<bar> \<le> 2 ^ 53" using assms(1) by (auto simp: fits_def)
  have "to_double x = of_int x" by (rule to_double_exact [OF x(3)])
  then show ?thesis using x Int_t
    by (simp add: push_lua_def read_lua_def read_number_def cast_int_def lua_exec lua_tonumber_def)
next
  case S64_t
  then obtain x where x: "v = CInt x" "in_range True 64 x" using assms(1) by (auto simp: fits_def)
  obtain s1 m where s1: "push_bits ''__s64'' (word_of_int x) s = Some (Done () s1)" "l_stack s1 = LUd (l_next s) # l_stack s"
    "l_ud s1 (l_next s) = (Bits (word_of_int x), m)" using push_bits_exec [OF assms(2,3)] by blast
  then show ?thesis using S64_t x word_in_range(1) read_bits_userdata [OF s1(2)] by (auto simp: push_lua_def read_lua_def)
next
  case U64_t
  then obtain x where x: "v = CInt x" "in_range False 64 x" using assms(1) by (auto simp: fits_def)
  obtain s1 m where s1: "push_bits ''__u64'' (word_of_int x) s = Some (Done () s1)" "l_stack s1 = LUd (l_next s) # l_stack s"
    "l_ud s1 (l_next s) = (Bits (word_of_int x), m)" using push_bits_exec [OF assms(2,4)] by blast
  then show ?thesis using U64_t x word_in_range(2) read_bits_userdata [OF s1(2)] by (auto simp: push_lua_def read_lua_def)
next
  case (Obj_t c)
  then obtain p where p: "v = CPtr p" "p \<noteq> 0" using assms(1) by (auto simp: fits_def)
  obtain s1 m where s1: "object2lua c p s = Some (Done () s1)" "l_stack s1 = LUd (l_next s) # l_stack s"
    "l_ud s1 (l_next s) = (User p False, m)" using object2lua_exec [OF assms(2,5) p(2)] by blast
  then show ?thesis using Obj_t p index_top [OF s1(2)]
    by (simp add: push_lua_def read_lua_def lua2object_def at_index_def lua_isuserdata_def bindL_def)
next
  case Bool_t
  then obtain b where b: "v = CBool b" using assms(1) by (auto simp: fits_def)
  let ?s = "s\<lparr>l_stack := LBool b # l_stack s\<rparr>"
  have "read_lua Bool_t (- 1) ?s = Some (Done (CBool b) ?s)"
    by (simp add: read_lua_def lua_exec lua_isboolean_def lua_toboolean_def)
  then show ?thesis using Bool_t b by (auto simp: push_lua_def lua_pushboolean_def modL_def pushv_def)
next
  case Cstr_t
  then obtain x where "v = CStr x" using assms(1) by (auto simp: fits_def)
  then show ?thesis using Cstr_t
    by (cases x) (simp_all add: push_lua_def read_lua_def lua_exec lua_tostring_def)
qed (use assms(1) in \<open>auto simp: fits_def push_lua_def read_lua_def read_number_def lua_exec lua_tonumber_def
       lua_isboolean_def lua_toboolean_def\<close>)

theorem values_roundtrip_witness:
  "\<exists>s1 x. push_lua S64_t (CInt (- 3)) (ex_lua (0 :: int)) = Some (Done () s1) \<and> l_stack s1 = [x] \<and>
    read_lua S64_t (- 1) s1 = Some (Done (CInt (- 3)) s1)"
  using values_roundtrip [of S64_t "CInt (- 3)" "ex_lua (0 :: int)"]
  by (simp add: fits_def in_range_def meta_name_def raw_fields_def ex_lua_def)

section \<open>64-bit integers in the script\<close>

text \<open>The bytes of an integer as a number, the first byte being the most significant.\<close>

definition be_val :: "u8 list \<Rightarrow> nat" where
  "be_val bs = le_val (rev bs)"

lemma le_val_append: "le_val (xs @ ys) = le_val xs + 256 ^ length xs * le_val ys"
  by (induction xs) (simp_all add: algebra_simps)

lemma be_val_Cons: "be_val (x # xs) = unat x * 256 ^ length xs + be_val xs"
  by (simp add: be_val_def le_val_append)

lemma memcmp_lt_be_val: "length xs = length ys \<Longrightarrow> memcmp_lt xs ys \<longleftrightarrow> be_val xs < be_val ys"
proof (induction xs ys rule: memcmp_lt.induct)
  case (1 x xs y ys)
  let ?m = "256 ^ length ys :: nat"
  have l: "length xs = length ys" using "1.prems" by simp
  have b: "be_val xs < ?m" "be_val ys < ?m" using le_val_less [of "rev xs"] le_val_less [of "rev ys"] l by (simp_all add: be_val_def)
  have less: "unat u * ?m + c < unat w * ?m + d" if "u < w" "c < ?m" for u w :: u8 and c d
  proof -
    have "Suc (unat u) \<le> unat w" using that(1) by (simp add: word_less_nat_alt)
    then have "Suc (unat u) * ?m \<le> unat w * ?m" by (rule mult_le_mono1)
    then show ?thesis using that(2) by simp
  qed
  show ?case
  proof (cases x y rule: linorder_cases)
    case less
    then show ?thesis using \<open>\<And>u w c d. u < w \<Longrightarrow> c < ?m \<Longrightarrow> unat u * ?m + c < unat w * ?m + d\<close> [of x y] b l by (simp add: be_val_Cons)
  next
    case equal
    then show ?thesis using "1.IH" l by (simp add: be_val_Cons)
  next
    case greater
    then show ?thesis
      using \<open>\<And>u w c d. u < w \<Longrightarrow> c < ?m \<Longrightarrow> unat u * ?m + c < unat w * ?m + d\<close> [of y x "be_val ys" "be_val xs"] b l
      by (auto simp: be_val_Cons)
  qed
qed auto

text \<open>
  In the script two 64-bit integers are equal exactly when they are, but they are ordered by their bytes
  in memory as if the first one were the most significant, which on the target is the opposite
  of their order of magnitude: 256 is less than 1, and -1 is less than no integer.
\<close>

theorem int64_comparisons:
  assumes "fst (l_ud s a) = Bits x" "fst (l_ud s b) = Bits y"
  shows "c_frame [LUd a, LUd b] [] eq_s64 s = Some (Done [LBool (x = y)] s) \<and>
    c_frame [LUd a, LUd b] [] lt_s64 s = Some (Done [LBool (be_val (obj_bytes x) < be_val (obj_bytes y))] s) \<and>
    c_frame [LUd a, LUd b] [] le_s64 s = Some (Done [LBool (be_val (obj_bytes x) \<le> be_val (obj_bytes y))] s)"
proof -
  let ?s = "s\<lparr>l_stack := [LUd b, LUd a], l_up := []\<rparr>"
  have "bits_at 1 ?s = Some (Done x ?s)" "bits_at 2 ?s = Some (Done y ?s)"
    using assms by (simp_all add: bits_at_def index2adr_def stkindex2adr_def LUA_GLOBALSINDEX_def)
  then have c: "c_frame [LUd a, LUd b] [] (compare_bits f) s = Some (Done [LBool (f x y)] s)" for f
    by (simp add: compare_bits_def c_frame_def bindL_def lua_pushboolean_def modL_def pushv_def retL_def)
  have "obj_val (obj_bytes x) = x" "obj_val (obj_bytes y) = y" by (simp_all add: obj_val_obj_bytes)
  then have e: "obj_bytes x = obj_bytes y \<longleftrightarrow> x = y" by metis
  show ?thesis unfolding eq_s64_def lt_s64_def le_s64_def c e by (simp add: memcmp_lt_be_val not_less)
qed

theorem int64_comparisons_witness:
  "c_frame [LUd 1, LUd 2] [] lt_s64 (ex_lua (0 :: int)\<lparr>l_ud := (\<lambda>a. (Bits (if a = 1 then 256 else 1), None))\<rparr>) =
    Some (Done [LBool True] (ex_lua (0 :: int)\<lparr>l_ud := (\<lambda>a. (Bits (if a = 1 then 256 else 1), None))\<rparr>))"
proof -
  have n: "le_bytes (numeral k) v = of_nat v # le_bytes (pred_numeral k) (v div 256)" for k v
    by (simp only: numeral_eq_Suc [of k] le_bytes.simps)
  have "obj_bytes (256 :: u64) = [0, 1, 0, 0, 0, 0, 0, 0]" "obj_bytes (1 :: u64) = [1, 0, 0, 0, 0, 0, 0, 0]"
    by (simp_all add: obj_bytes_def n)
  then have "be_val (obj_bytes (256 :: u64)) < be_val (obj_bytes (1 :: u64))" by (simp add: be_val_def)
  then show ?thesis
    using int64_comparisons [of "ex_lua (0 :: int)\<lparr>l_ud := (\<lambda>a. (Bits (if a = 1 then 256 else 1), None))\<rparr>" 1 256 2 1] by simp
qed

end
