(* ===== verification/Lua_Protect.thy ===== *)
theory Lua_Protect
  imports Lua_Values
begin

text \<open>
  What calls into the script leave on the stack: chunks and successful calls leave it as it was, a
  call that fails takes one value of the caller's away.
\<close>

section \<open>Successful calls\<close>

fun plain_values :: "ctype list \<Rightarrow> cval list \<Rightarrow> lval list option" where
  "plain_values [] [] = Some []"
| "plain_values (ty # tys) (v # vs) =
     (case (plain_value ty v, plain_values tys vs) of (Some [x], Some xs) \<Rightarrow> Some (x # xs) | _ \<Rightarrow> None)"
| "plain_values _ _ = None"

lemma push_args_plain:
  assumes "plain_values tys vs = Some xs"
  shows "push_args tys vs s = Some (Done () (s\<lparr>l_stack := rev xs @ l_stack s\<rparr>))"
  using assms
proof (induction tys vs arbitrary: xs s rule: plain_values.induct)
  case (2 ty tys v vs)
  then obtain x ys where x: "plain_value ty v = Some [x]" "plain_values tys vs = Some ys" "xs = x # ys"
    by (auto split: option.splits list.splits)
  have "ty \<noteq> Void_t" using x(1) by (auto simp: plain_value_def)
  then have "push_lua ty v s = Some (Done () (s\<lparr>l_stack := x # l_stack s\<rparr>))" using push_plain [OF x(1)] by auto
  then show ?case using "2.IH" [OF x(2)] x(3) by (simp add: bindL_def)
qed (simp_all add: retL_def)

lemma plain_values_length: "plain_values tys vs = Some xs \<Longrightarrow> length xs = length tys"
  by (induction tys vs arbitrary: xs rule: plain_values.induct) (auto split: option.splits list.splits)

lemma index_from_bottom:
  assumes "l_stack s = xs @ h # st" "idx = int (Suc (length st))"
  shows "index2adr idx s = Some h"
  using assms by (simp add: index2adr_def stkindex2adr_def LUA_GLOBALSINDEX_def nth_append nat_add_distrib)

text \<open>The state in which the function is called: the handler is on the stack below it.\<close>

lemma call_start:
  assumes "t_meta (l_tab s (l_globals s)) = None" "raw_fields (l_globals s) s (LStr name) = f"
  shows "call_lua run trace rty tys name args s =
    call_top run trace rty tys args (int (Suc (length (l_stack s)))) (not_a_function ''lua_tinker::call() attempt to call global '' name)
      (s\<lparr>l_next := l_next s + 1, l_fun := (l_fun s)(l_next s := (On_error, [])), l_stack := f # LFun (l_next s) # l_stack s\<rparr>)"
  using assms by (simp add: call_lua_def lua_exec)

text \<open>
  C29: A call from C++ of a function of the script that succeeds gives the converted result, and the stack
  is afterwards as it was before, whatever the function does.
\<close>

theorem call_returns_result:
  assumes "t_meta (l_tab s (l_globals s)) = None" "raw_fields (l_globals s) s (LStr name) = LFun f"
    and "plain_values tys args = Some xs" "plain_arg rty x v"
    and "\<And>s0. \<exists>s1. run (LFun f) xs s0 = Some (Done (x # rs) s1)"
  shows "\<exists>s'. call_lua run trace rty tys name args s = Some (Done v s') \<and> l_stack s' = l_stack s \<and> l_up s' = l_up s"
proof -
  let ?n = "int (Suc (length (l_stack s)))" let ?h = "LFun (l_next s)"
  let ?s1 = "s\<lparr>l_next := l_next s + 1, l_fun := (l_fun s)(l_next s := (On_error, [])), l_stack := LFun f # ?h # l_stack s\<rparr>"
  let ?s2 = "?s1\<lparr>l_stack := rev xs @ LFun f # ?h # l_stack s\<rparr>"
  have p: "push_args tys args ?s1 = Some (Done () ?s2)" using push_args_plain [OF assms(3), of ?s1] by simp
  obtain s3 where s3: "run (LFun f) xs (?s2\<lparr>l_stack := ?h # l_stack s\<rparr>) = Some (Done (x # rs) s3)" using assms(5) by blast
  let ?s4 = "s3\<lparr>l_stack := x # ?h # l_stack s, l_up := l_up s\<rparr>"
  have "index2adr ?n ?s2 = Some ?h" by (rule index_from_bottom [where xs = "rev xs @ [LFun f]" and st = "l_stack s"]) simp_all
  then have pc: "lua_pcall run trace (length tys) 1 ?n ?s2 = Some (Done True ?s4)"
    using s3 plain_values_length [OF assms(3)] by (simp add: lua_pcall_def Let_def adjust_def nth_append)
  have t: "top_value ?s1 = Some (Done (LFun f) ?s1)" by (simp add: lua_exec)
  have r: "read_lua rty (- 1) (?s4\<lparr>l_stack := x # l_stack s\<rparr>) = Some (Done v (?s4\<lparr>l_stack := x # l_stack s\<rparr>))"
    by (rule read_plain [OF assms(4) index_top]) simp
  have ty: "rty \<noteq> Void_t" "rty \<noteq> Table_t" using assms(4) by (auto simp: plain_arg_def)
  have "pop_lua rty (?s4\<lparr>l_stack := x # l_stack s\<rparr>) = Some (Done v (?s4\<lparr>l_stack := l_stack s\<rparr>))"
    using ty r by (cases rty) (simp_all add: pop_lua_def bindL_def lua_pop_def lua_settop_def retL_def)
  then have "call_lua run trace rty tys name args s = Some (Done v (?s4\<lparr>l_stack := l_stack s\<rparr>))"
    unfolding call_start [OF assms(1,2)] call_top_def
    by (simp add: bindL_def t [simplified] p [simplified] pc [simplified] lua_isfunction_def retL_def lua_remove_def stkindex2adr_def)
  then show ?thesis by auto
qed

section \<open>Failing calls\<close>

lemma print_error_logs:
  assumes "length text < 4096" "t_meta (l_tab s (l_globals s)) = None" "raw_fields (l_globals s) s (LStr ''_ALERT'') = LNil"
  shows "print_error run text s = Some (Done () (s\<lparr>t_log := t_log s @ [text]\<rparr>))"
  using assms by (simp add: print_error_def lua_exec lua_isfunction_def)

lemma print_errors_log:
  assumes "list_all (\<lambda>t. length t < 4096) ts" "t_meta (l_tab s (l_globals s)) = None"
    and "raw_fields (l_globals s) s (LStr ''_ALERT'') = LNil"
  shows "steps (map (print_error run) ts) s = Some (Done () (s\<lparr>t_log := t_log s @ ts\<rparr>))"
  using assms
proof (induction ts arbitrary: s)
  case (Cons t ts)
  then have "print_error run t s = Some (Done () (s\<lparr>t_log := t_log s @ [t]\<rparr>))" by (simp add: print_error_logs)
  then show ?case using Cons by (simp add: steps_exec raw_fields_def)
qed (simp add: steps_exec)

lemma on_error_logs:
  assumes "list_all (\<lambda>t. length t < 4096) (msg # trace)" "t_meta (l_tab s (l_globals s)) = None"
    and "raw_fields (l_globals s) s (LStr ''_ALERT'') = LNil"
  shows "c_frame [LStr msg] ups (on_error run trace) s = Some (Done [] (s\<lparr>t_log := t_log s @ msg # trace\<rparr>))"
proof -
  let ?s = "s\<lparr>l_stack := [LStr msg], l_up := ups\<rparr>"
  let ?s1 = "?s\<lparr>t_log := t_log s @ [msg]\<rparr>"
  have "print_error run msg ?s = Some (Done () ?s1)"
    using assms print_error_logs [of msg ?s run] by (simp add: raw_fields_def)
  moreover have "steps (map (print_error run) trace) ?s1 = Some (Done () (?s1\<lparr>t_log := t_log s @ msg # trace\<rparr>))"
    using assms print_errors_log [of trace ?s1 run] by (simp add: raw_fields_def)
  ultimately show ?thesis by (simp add: c_frame_def on_error_def lua_tostring_def lua_exec)
qed

text \<open>
  C39: A call from C++ of a function of the script that raises an error logs the message and the call stack
  and gives zero, but takes a value away that the caller had on the stack: the error handler stays
  below the top and what is removed instead is the value under it. With an empty stack that access
  is outside of the stack.
\<close>

theorem failing_call_eats_stack:
  assumes g: "t_meta (l_tab s (l_globals s)) = None" and f: "raw_fields (l_globals s) s (LStr name) = LFun f"
    and al: "raw_fields (l_globals s) s (LStr ''_ALERT'') = LNil"
    and xs: "plain_values tys args = Some xs" and msg: "list_all (\<lambda>t. length t < 4096) (msg # trace)" and n: "0 < n"
    and run: "\<And>s0. run (LFun f) xs s0 = Some (Raised (LStr msg) (s0\<lparr>t_world := w s0\<rparr>))"
  shows "case l_stack s of
      [] \<Rightarrow> call_lua run trace (Int_t sg n) tys name args s = None
    | x # st \<Rightarrow> \<exists>s'. call_lua run trace (Int_t sg n) tys name args s = Some (Done (CInt 0) s') \<and>
        l_stack s' = st \<and> t_log s' = t_log s @ msg # trace"
proof -
  let ?n = "int (Suc (length (l_stack s)))" let ?h = "LFun (l_next s)"
  let ?s1 = "s\<lparr>l_next := l_next s + 1, l_fun := (l_fun s)(l_next s := (On_error, [])), l_stack := LFun f # ?h # l_stack s\<rparr>"
  let ?s2 = "?s1\<lparr>l_stack := rev xs @ LFun f # ?h # l_stack s\<rparr>"
  let ?s3 = "?s1\<lparr>l_stack := ?h # l_stack s\<rparr>"
  let ?s4 = "?s3\<lparr>t_world := w ?s3\<rparr>"
  let ?s5 = "?s4\<lparr>t_log := t_log s @ msg # trace\<rparr>"
  have p: "push_args tys args ?s1 = Some (Done () ?s2)" using push_args_plain [OF xs, of ?s1] by simp
  have i: "index2adr ?n ?s2 = Some ?h" by (rule index_from_bottom [where xs = "rev xs @ [LFun f]" and st = "l_stack s"]) simp_all
  have h: "c_frame [LStr msg] [] (on_error run trace) ?s4 = Some (Done [] ?s5)"
    using on_error_logs [OF msg, of ?s4 "[]" run] g al by (simp add: raw_fields_def)
  have pc: "lua_pcall run trace (length tys) 1 ?n ?s2 = Some (Done False (?s5\<lparr>l_stack := LNil # ?h # l_stack s\<rparr>))"
    using i h run [of ?s3] plain_values_length [OF xs] by (simp add: lua_pcall_def Let_def adjust_def nth_append)
  have t: "top_value ?s1 = Some (Done (LFun f) ?s1)" by (simp add: lua_exec)
  have c: "call_lua run trace (Int_t sg n) tys name args s =
      bindL (lua_remove (- 2)) (\<lambda>_. pop_lua (Int_t sg n)) (?s5\<lparr>l_stack := ?h # l_stack s\<rparr>)"
    unfolding call_start [OF g f] call_top_def
    by (simp add: bindL_def t [simplified] p [simplified] pc [simplified] lua_isfunction_def lua_pop_def lua_settop_def)
  show ?thesis
  proof (cases "l_stack s")
    case Nil
    then show ?thesis by (simp add: c bindL_def lua_remove_def stkindex2adr_def)
  next
    case (Cons x st)
    have "cast_int sg n 0 = Some 0" using n by (simp add: cast_int_def in_range_def trunc_def)
    then show ?thesis using Cons
      by (simp add: c pop_lua_def read_lua_def read_number_def lua_exec lua_tonumber_def)
  qed
qed

text \<open>A script with one function, at number 5: it gives 7, or it fails.\<close>

definition ex_script :: "lval list \<Rightarrow> int tinker" where
  "ex_script st = (ex_lua 0)\<lparr>l_stack := st, l_next := 9, l_tab := (\<lambda>_. \<lparr>t_fields = (\<lambda>_. LNil)(LStr ''update'' := LFun 5), t_meta = None\<rparr>)\<rparr>"

theorem call_returns_result_witness:
  "\<exists>s'. call_lua (\<lambda>_ args s. Some (Done (LNum 7 # args) (s\<lparr>t_world := 1\<rparr>))) [] (Int_t True 32) [Bool_t] ''update'' [CBool True] (ex_script [LNum 3]) =
    Some (Done (CInt 7) s') \<and> l_stack s' = [LNum 3]"
proof -
  have "cast_int True 32 7 = Some 7" by code_simp
  then have "plain_arg (Int_t True 32) (LNum 7) (CInt 7)" by (simp add: plain_arg_def)
  then show ?thesis
    using call_returns_result [where s = "ex_script [LNum 3]" and name = "''update''" and f = 5 and tys = "[Bool_t]" and
        args = "[CBool True]" and xs = "[LBool True]" and rty = "Int_t True 32" and x = "LNum 7" and v = "CInt 7" and
        rs = "[LBool True]" and trace = "[]" and run = "\<lambda>_ args s. Some (Done (LNum 7 # args) (s\<lparr>t_world := 1\<rparr>))"]
    by (auto simp: ex_script_def ex_lua_def raw_fields_def plain_value_def)
qed

theorem failing_call_eats_stack_witness:
  "\<exists>s'. call_lua (\<lambda>_ _ s. Some (Raised (LStr ''bad'') s)) [''line 1''] (Int_t True 32) [] ''update'' [] (ex_script [LNum 3, LNum 4]) =
    Some (Done (CInt 0) s') \<and> l_stack s' = [LNum 4] \<and> t_log s' = [''bad'', ''line 1'']"
  using failing_call_eats_stack [where s = "ex_script [LNum 3, LNum 4]" and name = "''update''" and f = 5 and tys = "[]" and
      args = "[]" and xs = "[]" and n = 32 and sg = True and msg = "''bad''" and trace = "[''line 1'']" and
      w = t_world and run = "\<lambda>_ _ s. Some (Raised (LStr ''bad'') s)"]
  by (auto simp: ex_script_def ex_lua_def raw_fields_def)

end
