(* ===== verification/Lua_Types.thy ===== *)
theory Lua_Types
  imports Lua_Protect
begin

text \<open>
  Types at the border of script and program: values that are read are of their declared C++ types,
  and a script cannot make a bound function see anything else.
\<close>

section \<open>Values and arguments\<close>

fun well_typed :: "'w tinker \<Rightarrow> ctype \<Rightarrow> cval \<Rightarrow> bool" where
  "well_typed s Void_t v \<longleftrightarrow> v = CVoid"
| "well_typed s Bool_t v \<longleftrightarrow> (\<exists>b. v = CBool b)"
| "well_typed s (Int_t sg n) v \<longleftrightarrow> (\<exists>k. v = CInt k \<and> in_range sg n k)"
| "well_typed s Double_t v \<longleftrightarrow> (\<exists>x. v = CDouble x)"
| "well_typed s Cstr_t v \<longleftrightarrow> (\<exists>x. v = CStr x)"
| "well_typed s S64_t v \<longleftrightarrow> (\<exists>k. v = CInt k \<and> in_range True 64 k)"
| "well_typed s U64_t v \<longleftrightarrow> (\<exists>k. v = CInt k \<and> in_range False 64 k)"
| "well_typed s Table_t v \<longleftrightarrow> (\<exists>t. v = CTable t \<and> t_objs s t \<noteq> None)"
| "well_typed s (Obj_t c) v \<longleftrightarrow> (\<exists>p. v = CPtr p)"

text \<open>
  What a value of the script must be: a number in the range of an integer type (what is not a number
  counts as 0), an object for an object, a number or one of the binding's 64-bit integers for these.
\<close>

definition bits_convertible :: "bool \<Rightarrow> 'w tinker \<Rightarrow> lval \<Rightarrow> bool" where
  "bits_convertible sg s a \<longleftrightarrow>
     (if lua_isnumber a s then cast_int sg 64 (lua_tonumber a s) \<noteq> None else \<exists>u b. a = LUd u \<and> fst (l_ud s u) = Bits b)"

fun convertible :: "'w tinker \<Rightarrow> ctype \<Rightarrow> lval \<Rightarrow> bool" where
  "convertible s (Int_t sg n) a \<longleftrightarrow> cast_int sg n (lua_tonumber a s) \<noteq> None"
| "convertible s S64_t a \<longleftrightarrow> bits_convertible True s a"
| "convertible s U64_t a \<longleftrightarrow> bits_convertible False s a"
| "convertible s (Obj_t c) a \<longleftrightarrow> (\<exists>u p own. a = LUd u \<and> fst (l_ud s u) = User p own)"
| "convertible s _ a \<longleftrightarrow> True"

lemma cast_int_range: "cast_int sg n x = Some k \<Longrightarrow> in_range sg n k"
  by (auto simp: cast_int_def split: if_splits)

lemma bits_in_range: "in_range True 64 (sint (b :: u64))" "in_range False 64 (uint (b :: u64))"
  using sint_lt [of b] sint_ge [of b] uint_lt2p [of b] by (simp_all add: in_range_def)

section \<open>Reading arguments\<close>

text \<open>Reading changes nothing below the position, and makes table objects only.\<close>

definition reads :: "int \<Rightarrow> 'w tinker \<Rightarrow> 'w tinker \<Rightarrow> bool" where
  "reads k s s' \<longleftrightarrow>
     (\<exists>st ob n. s' = s\<lparr>l_stack := st, t_objs := ob, t_nobj := n\<rparr> \<and> length st = length (l_stack s) \<and>
        (\<forall>j > 0. j \<noteq> k \<longrightarrow> index2adr j s' = index2adr j s) \<and> (\<forall>t. t_objs s t \<noteq> None \<longrightarrow> ob t \<noteq> None))"

lemma reads_refl: "reads k s s"
  unfolding reads_def by (rule exI [of _ "l_stack s"], rule exI [of _ "t_objs s"], rule exI [of _ "t_nobj s"]) simp

lemma reads_same:
  assumes "reads k s s'"
  shows "l_ud s' = l_ud s" "l_scan s' = l_scan s" "l_up s' = l_up s" "t_code s' = t_code s" "t_world s' = t_world s"
    "length (l_stack s') = length (l_stack s)" "t_objs s t \<noteq> None \<Longrightarrow> t_objs s' t \<noteq> None"
    "j > 0 \<Longrightarrow> j \<noteq> k \<Longrightarrow> index2adr j s' = index2adr j s"
  using assms by (auto simp: reads_def)

lemma positive_index: "idx > 0 \<Longrightarrow> \<exists>a. index2adr idx s = Some a"
  by (simp add: index2adr_def LUA_GLOBALSINDEX_def split: option.split)

lemma reads_table:
  assumes "idx > 0"
  shows "\<exists>t s'. table_at idx s = Some (Done t s') \<and> reads idx s s' \<and> t_objs s' t \<noteq> None"
proof -
  obtain a where a: "index2adr idx s = Some a" using positive_index [OF assms] by blast
  let ?ob = "\<lparr>m_index = idx, m_pointer = lua_topointer a, m_ref = 1\<rparr>"
  let ?s = "s\<lparr>t_objs := (t_objs s)(t_nobj s \<mapsto> ?ob), t_nobj := t_nobj s + 1\<rparr>"
  have "table_at idx s = Some (Done (t_nobj s) ?s)"
    using assms a by (simp add: table_at_def table_obj_def inc_ref_def bindL_def retL_def)
  moreover have "reads idx s ?s"
    unfolding reads_def
    by (rule exI [of _ "l_stack s"], rule exI [of _ "(t_objs s)(t_nobj s \<mapsto> ?ob)"], rule exI [of _ "t_nobj s + 1"])
      (simp add: index2adr_def LUA_GLOBALSINDEX_def split: option.split)
  ultimately show ?thesis by fastforce
qed

lemma reads_text:
  assumes "idx > 0"
  shows "\<exists>x s'. lua_tostring idx s = Some (Done x s') \<and> reads idx s s'"
proof -
  obtain a where a: "index2adr idx s = Some a" using positive_index [OF assms] by blast
  show ?thesis
  proof (cases "\<exists>y. a = LNum y")
    case True
    then obtain y where y: "a = LNum y" by blast
    then obtain q where q: "stkindex2adr idx (length (l_stack s)) = Some q"
      using a assms by (auto simp: index2adr_def LUA_GLOBALSINDEX_def split: option.splits if_splits)
    let ?st = "(l_stack s)[q := LStr (l_fromnumber s y)]"
    have o: "index2adr j (s\<lparr>l_stack := ?st\<rparr>) = index2adr j s" if "j > 0" "j \<noteq> idx" for j
    proof -
      have "r \<noteq> q" if "stkindex2adr j (length (l_stack s)) = Some r" for r
        using that q \<open>j \<noteq> idx\<close> \<open>j > 0\<close> assms by (auto simp: stkindex2adr_def split: if_splits)
      then show ?thesis using that by (auto simp: index2adr_def LUA_GLOBALSINDEX_def split: option.split)
    qed
    have "reads idx s (s\<lparr>l_stack := ?st\<rparr>)" unfolding reads_def
      by (rule exI [of _ ?st], rule exI [of _ "t_objs s"], rule exI [of _ "t_nobj s"]) (use o in simp)
    then show ?thesis using a y q by (auto simp: lua_tostring_def)
  next
    case False
    then show ?thesis using a reads_refl [of idx s] by (cases a) (auto simp: lua_tostring_def)
  qed
qed

lemma read_bits_typed:
  assumes "index2adr idx s = Some a" "bits_convertible sg s a"
  shows "\<exists>k. read_bits sg idx s = Some (Done (CInt k) s) \<and> in_range sg 64 k"
proof (cases "lua_isnumber a s")
  case True
  then show ?thesis using assms cast_int_range by (fastforce simp: read_bits_def bits_convertible_def)
next
  case False
  then show ?thesis using assms bits_in_range by (cases sg) (auto simp: read_bits_def bits_convertible_def)
qed

lemma read_lua_typed:
  assumes "idx > 0" "index2adr idx s = Some a" "convertible s ty a"
  shows "\<exists>v s'. read_lua ty idx s = Some (Done v s') \<and> well_typed s' ty v \<and> reads idx s s'"
proof (cases ty)
  case (Int_t sg n)
  then obtain k where "cast_int sg n (lua_tonumber a s) = Some k" using assms(3) by auto
  then show ?thesis using Int_t assms(2) cast_int_range reads_refl [of idx s]
    by (fastforce simp: read_lua_def read_number_def at_index_def bindL_def ofL_def retL_def)
next
  case Cstr_t
  then show ?thesis using reads_text [OF assms(1), of s] by (auto simp: read_lua_def bindL_def retL_def)
next
  case Table_t
  then show ?thesis using reads_table [OF assms(1), of s] by (fastforce simp: read_lua_def bindL_def retL_def)
next
  case S64_t
  then show ?thesis using read_bits_typed [OF assms(2), of True] assms(3) reads_refl [of idx s] by (auto simp: read_lua_def)
next
  case U64_t
  then show ?thesis using read_bits_typed [OF assms(2), of False] assms(3) reads_refl [of idx s] by (auto simp: read_lua_def)
next
  case (Obj_t c)
  then show ?thesis using assms(2,3) reads_refl [of idx s]
    by (auto simp: read_lua_def lua2object_def at_index_def bindL_def lua_isuserdata_def)
qed (use assms(2) reads_refl [of idx s] in \<open>auto simp: read_lua_def read_number_def at_index_def bindL_def retL_def\<close>)

text \<open>The arguments that a function sees: those that are missing are nil.\<close>

definition arg_at :: "lval list \<Rightarrow> nat \<Rightarrow> lval" where
  "arg_at args i = (if i < length args then args ! i else LNil)"

lemma index_arg: "index2adr (1 + int i) (s\<lparr>l_stack := rev args, l_up := ups\<rparr>) = Some (arg_at args i)"
proof (cases "i < length args")
  case True
  then have "rev args ! (length args - (1 + i)) = args ! i" by (simp add: rev_nth)
  then show ?thesis using True by (simp add: index2adr_def stkindex2adr_def LUA_GLOBALSINDEX_def arg_at_def nat_add_distrib)
qed (simp add: index2adr_def stkindex2adr_def LUA_GLOBALSINDEX_def arg_at_def)

lemma convertible_reads: "reads k s s' \<Longrightarrow> convertible s' ty a = convertible s ty a"
  by (cases ty) (simp_all add: reads_same bits_convertible_def lua_isnumber_def lua_tonumber_def split: lval.split)

lemma well_typed_reads: "reads k s s' \<Longrightarrow> well_typed s ty v \<Longrightarrow> well_typed s' ty v"
  by (cases ty) (auto dest: reads_same(7))

lemma read_args_typed:
  assumes "k > 0" "\<forall>i < length tys. \<exists>a. index2adr (k + int i) s = Some a \<and> convertible s (tys ! i) a"
  shows "\<exists>vs s'. read_args k tys s = Some (Done vs s') \<and> list_all2 (well_typed s') tys vs \<and>
    l_up s' = l_up s \<and> t_code s' = t_code s \<and> t_world s' = t_world s \<and> length (l_stack s') = length (l_stack s) \<and>
    (\<forall>ty v. well_typed s ty v \<longrightarrow> well_typed s' ty v)"
  using assms
proof (induction tys arbitrary: k s)
  case (Cons ty tys)
  obtain a where a: "index2adr k s = Some a" "convertible s ty a" using Cons.prems(2) by (force simp: All_less_Suc2)
  obtain v s1 where s1: "read_lua ty k s = Some (Done v s1)" "well_typed s1 ty v" "reads k s s1"
    using read_lua_typed [OF Cons.prems(1) a] by blast
  have "\<exists>b. index2adr (k + 1 + int i) s1 = Some b \<and> convertible s1 (tys ! i) b" if "i < length tys" for i
  proof -
    have "index2adr (k + 1 + int i) s1 = index2adr (k + 1 + int i) s" using reads_same(8) [OF s1(3)] Cons.prems(1) by simp
    moreover have "\<exists>b. index2adr (k + int (Suc i)) s = Some b \<and> convertible s ((ty # tys) ! Suc i) b"
      using Cons.prems(2) [rule_format, of "Suc i"] that by simp
    ultimately show ?thesis using convertible_reads [OF s1(3)] by (auto simp: algebra_simps)
  qed
  then obtain vs s2 where "read_args (k + 1) tys s1 = Some (Done vs s2)" "list_all2 (well_typed s2) tys vs"
    "l_up s2 = l_up s1" "t_code s2 = t_code s1" "t_world s2 = t_world s1" "length (l_stack s2) = length (l_stack s1)"
    "\<forall>ty v. well_typed s1 ty v \<longrightarrow> well_typed s2 ty v"
    using Cons.IH [of "k + 1" s1] Cons.prems(1) by auto
  then show ?case using s1 reads_same [OF s1(3)] well_typed_reads [OF s1(3)] by (auto simp: bindL_def retL_def)
qed (simp add: retL_def)

section \<open>Bound functions\<close>

text \<open>A C++ function that gives a value of its type for arguments of their types.\<close>

definition typed_function :: "ctype list \<Rightarrow> ctype \<Rightarrow> (cval list \<Rightarrow> 'w \<Rightarrow> (cval \<times> 'w) option) \<Rightarrow> bool" where
  "typed_function tys rty f \<longleftrightarrow>
     (\<forall>vs w s. list_all2 (well_typed (s :: 'w tinker)) tys vs \<longrightarrow> (\<exists>v w'. f vs w = Some (v, w') \<and> well_typed s rty v))"

definition plain_type :: "ctype \<Rightarrow> bool" where
  "plain_type ty \<longleftrightarrow> ty \<in> {Void_t, Bool_t, Double_t, Cstr_t} \<or> (\<exists>sg n. ty = Int_t sg n)"

text \<open>What the script gets as results.\<close>

definition result_ok :: "ctype \<Rightarrow> lval list \<Rightarrow> bool" where
  "result_ok ty rs \<longleftrightarrow>
     (case ty of
        Void_t \<Rightarrow> rs = []
      | Bool_t \<Rightarrow> (\<exists>b. rs = [LBool b])
      | Cstr_t \<Rightarrow> rs = [LNil] \<or> (\<exists>x. rs = [LStr x])
      | _ \<Rightarrow> (\<exists>x. rs = [LNum x]))"

lemma push_typed:
  assumes "well_typed s ty v" "plain_type ty" "ty \<noteq> Void_t"
  shows "\<exists>r. push_lua ty v s' = Some (Done () (s'\<lparr>l_stack := r # l_stack s'\<rparr>)) \<and> result_ok ty [r]"
  using assms
  by (cases ty) (force simp: plain_type_def result_ok_def push_lua_def lua_pushboolean_def lua_pushnumber_def lua_pushstring_def
      modL_def pushv_def split: option.split)+

text \<open>
  C15: Whatever a script passes to a bound C++ function whose result is nothing, a boolean, a number or a text, more or
  fewer arguments than it has, as long as each can be converted (numbers are in the range of integer types, what
  is passed for an object is some object): the call goes through, the function gets booleans, integers in range, numbers,
  texts and tables where it declares them, the script a result of the declared type, and the stack is
  unchanged. Where the function declares an object it gets the address of whatever object was passed: the
  binding does not look at its class.
\<close>

theorem bound_function_type_safe:
  assumes "l_fun s f = (Functor rty tys, [LLight p])" "plain_type rty" "typed_function tys rty (t_code s p)"
    and "\<forall>i < length tys. convertible s (tys ! i) (arg_at args i)"
  shows "\<exists>rs s'. call_c f args s = Some (Done rs s') \<and> result_ok rty rs \<and> l_stack s' = l_stack s \<and> l_up s' = l_up s"
proof -
  let ?s = "s\<lparr>l_stack := rev args, l_up := [LLight p]\<rparr>"
  have "convertible ?s ty a = convertible s ty a" for ty a
    by (cases ty) (simp_all add: bits_convertible_def lua_isnumber_def lua_tonumber_def split: lval.split)
  then have "\<forall>i < length tys. \<exists>a. index2adr (1 + int i) ?s = Some a \<and> convertible ?s (tys ! i) a"
    using assms(4) index_arg [where s = s and args = args] by metis
  then obtain vs s1 where s1: "read_args 1 tys ?s = Some (Done vs s1)" "list_all2 (well_typed s1) tys vs"
    "l_up s1 = [LLight p]" "t_code s1 = t_code s"
    using read_args_typed [of 1 tys ?s] by auto
  obtain v w where f: "t_code s p vs (t_world s1) = Some (v, w)" "well_typed s1 rty v"
    using assms(3) s1(2) unfolding typed_function_def by blast
  have up: "index2adr (lua_upvalueindex 1) s1 = Some (LLight p)"
    using s1(3) by (simp add: index2adr_def lua_upvalueindex_def LUA_GLOBALSINDEX_def)
  show ?thesis
  proof (cases "rty = Void_t")
    case True
    then show ?thesis using s1 f up assms(1)
      by (simp add: call_c_def c_frame_def run_code_def functor_invoke_def bindL_def retL_def result_ok_def)
  next
    case False
    obtain r where "push_lua rty v (s1\<lparr>t_world := w\<rparr>) = Some (Done () (s1\<lparr>t_world := w, l_stack := r # l_stack s1\<rparr>))" "result_ok rty [r]"
      using push_typed [OF f(2) assms(2) False, of "s1\<lparr>t_world := w\<rparr>"] by auto
    then show ?thesis using s1 f up assms(1) False
      by (simp add: call_c_def c_frame_def run_code_def functor_invoke_def bindL_def retL_def)
  qed
qed

text \<open>A function of an integer and a text, called with a boolean only.\<close>

definition ex_bound :: "int tinker" where
  "ex_bound = (ex_lua 0)\<lparr>l_fun := (\<lambda>_. (Functor Cstr_t [Int_t True 32, Cstr_t], [LLight 4])),
     t_code := (\<lambda>_ vs w. case vs of [CInt k, CStr x] \<Rightarrow> Some (CStr x, k) | _ \<Rightarrow> None)\<rparr>"

theorem bound_function_type_safe_witness:
  "\<exists>rs s'. call_c 3 [LBool True] ex_bound = Some (Done rs s') \<and> result_ok Cstr_t rs \<and> l_stack s' = []"
proof -
  have c: "cast_int True 32 0 = Some 0" by code_simp
  have "typed_function [Int_t True 32, Cstr_t] Cstr_t (t_code ex_bound 4)"
    by (auto simp: typed_function_def ex_bound_def list_all2_Cons1)
  moreover have "\<forall>i < length [Int_t True 32, Cstr_t]. convertible ex_bound ([Int_t True 32, Cstr_t] ! i) (arg_at [LBool True] i)"
    using c by (simp add: All_less_Suc2 arg_at_def lua_tonumber_def)
  ultimately show ?thesis
    using bound_function_type_safe [of ex_bound 3 Cstr_t "[Int_t True 32, Cstr_t]" 4 "[LBool True]"]
    by (auto simp: ex_bound_def ex_lua_def plain_type_def)
qed

end
