(* ===== verification/Lua_Tables.thy ===== *)
theory Lua_Tables
  imports Lua_Protect
begin

text \<open>
  \<^verbatim>\<open>script/lua_tinker.*\<close>: tables of the script in the hands of C++. A \<^verbatim>\<open>table\<close> shares a counted
  \<^verbatim>\<open>table_obj\<close>, which knows where on the Lua stack its table lies and takes it from there at the
  end; here it is the number of its \<^verbatim>\<open>table_obj\<close>.
\<close>

section \<open>Table objects\<close>

definition obj_at :: "nat \<Rightarrow> ('w, table_obj) tk" where
  "obj_at t s = map_option (\<lambda>ob. Done ob s) (t_objs s t)"

definition set_obj :: "nat \<Rightarrow> table_obj \<Rightarrow> ('w, unit) tk" where
  "set_obj t ob = modL (\<lambda>s. s\<lparr>t_objs := (t_objs s)(t \<mapsto> ob)\<rparr>)"

definition pointer_at :: "'w tinker \<Rightarrow> int \<Rightarrow> lval option" where
  "pointer_at s i = Option.bind (index2adr i s) lua_topointer"

text \<open>A table that is not where it was is looked for from the bottom of the stack.\<close>

definition validate :: "nat \<Rightarrow> ('w, bool) tk" where
  "validate t =
     bindL (obj_at t) (\<lambda>ob.
       case m_pointer ob of
         None \<Rightarrow> retL False
       | Some p \<Rightarrow>
           bindL (at_index (m_index ob) (\<lambda>v s. lua_topointer v)) (\<lambda>q.
             if q = Some p then retL True
             else
               bindL (getL (\<lambda>s. find (\<lambda>i. pointer_at s i = Some p) [1..lua_gettop s])) (\<lambda>found.
                 case found of
                   Some i \<Rightarrow> bindL (set_obj t (ob\<lparr>m_index := i\<rparr>)) (\<lambda>_. retL True)
                 | None \<Rightarrow> bindL (set_obj t (ob\<lparr>m_pointer := None\<rparr>)) (\<lambda>_. retL False))))"

definition table_obj_dtor :: "nat \<Rightarrow> ('w, unit) tk" where
  "table_obj_dtor t =
     bindL (validate t) (\<lambda>ok.
     bindL (if ok then bindL (obj_at t) (\<lambda>ob. lua_remove (m_index ob)) else retL ()) (\<lambda>_.
       modL (\<lambda>s. s\<lparr>t_objs := (t_objs s)(t := None)\<rparr>)))"

definition dec_ref :: "nat \<Rightarrow> ('w, unit) tk" where
  "dec_ref t =
     bindL (obj_at t) (\<lambda>ob.
     bindL (set_obj t (ob\<lparr>m_ref := m_ref ob - 1\<rparr>)) (\<lambda>_.
       if m_ref ob - 1 = 0 then table_obj_dtor t else retL ()))"

section \<open>Holders\<close>

definition table_new :: "('w, nat) tk" where
  "table_new =
     bindL lua_newtable (\<lambda>_.
     bindL (getL lua_gettop) (\<lambda>n.
     bindL (table_obj n) (\<lambda>t.
     bindL (inc_ref t) (\<lambda>_. retL t))))"

text \<open>This constructor does not count its reference.\<close>

definition table_named :: "string \<Rightarrow> ('w, nat) tk" where
  "table_named name =
     bindL (steps [str name, lua_gettable LUA_GLOBALSINDEX]) (\<lambda>_.
     bindL top_value (\<lambda>v.
     bindL
       (if \<not> lua_istable v then
          steps [lua_pop 1, lua_newtable, str name, lua_pushvalue (- 2), lua_settable LUA_GLOBALSINDEX]
        else retL ())
       (\<lambda>_. bindL (getL lua_gettop) table_obj)))"

definition table_copy :: "nat \<Rightarrow> ('w, nat) tk" where
  "table_copy t = bindL (inc_ref t) (\<lambda>_. retL t)"

definition table_destroy :: "nat \<Rightarrow> ('w, unit) tk" where
  "table_destroy t = dec_ref t"

section \<open>Fields\<close>

text \<open>The overloads for numbers and names differ in how the key is pushed.\<close>

definition table_set :: "nat \<Rightarrow> ('w, unit) tk \<Rightarrow> ctype \<Rightarrow> cval \<Rightarrow> ('w, unit) tk" where
  "table_set t key ty v =
     bindL (validate t) (\<lambda>ok.
       if ok then bindL (obj_at t) (\<lambda>ob. steps [key, push_lua ty v, lua_settable (m_index ob)])
       else retL ())"

definition table_get :: "nat \<Rightarrow> ('w, unit) tk \<Rightarrow> ctype \<Rightarrow> ('w, cval) tk" where
  "table_get t key ty =
     bindL (validate t) (\<lambda>ok.
     bindL (if ok then bindL (obj_at t) (\<lambda>ob. steps [key, lua_gettable (m_index ob)]) else lua_pushnil)
       (\<lambda>_. pop_lua ty))"

definition set_at :: "nat \<Rightarrow> int \<Rightarrow> ctype \<Rightarrow> cval \<Rightarrow> ('w, unit) tk" where
  "set_at t index = table_set t (lua_pushinteger index)"

definition get_at :: "nat \<Rightarrow> int \<Rightarrow> ctype \<Rightarrow> ('w, cval) tk" where
  "get_at t index = table_get t (lua_pushinteger index)"

definition set_name :: "nat \<Rightarrow> string \<Rightarrow> ctype \<Rightarrow> cval \<Rightarrow> ('w, unit) tk" where
  "set_name t name = table_set t (str name)"

definition get_name :: "nat \<Rightarrow> string \<Rightarrow> ctype \<Rightarrow> ('w, cval) tk" where
  "get_name t name = table_get t (str name)"

definition table_size :: "nat \<Rightarrow> ('w, cval) tk" where
  "table_size t =
     bindL (validate t) (\<lambda>ok.
     bindL
       (if ok then bindL (obj_at t) (\<lambda>ob. bindL (lua_objlen (m_index ob)) lua_pushinteger) else lua_pushnil)
       (\<lambda>_. pop_lua (Int_t True 32)))"

definition table_put :: "nat \<Rightarrow> ctype \<Rightarrow> cval \<Rightarrow> ('w, unit) tk" where
  "table_put t ty v =
     bindL (validate t) (\<lambda>ok.
       if ok then
         bindL (push_lua ty v) (\<lambda>_.
         bindL (table_size t) (\<lambda>n.
         bindL (obj_at t) (\<lambda>ob.
           case n of
             CInt k \<Rightarrow> if in_range True 32 (k + 1) then lua_rawseti (m_index ob) (k + 1) else undefL
           | _ \<Rightarrow> undefL)))
       else retL ())"

text \<open>A failing assertion ends the program.\<close>

definition table_fetch :: "nat \<Rightarrow> ctype \<Rightarrow> int \<Rightarrow> ('w, cval) tk" where
  "table_fetch t ty index =
     (if index < 1 then undefL
      else
        bindL (table_size t) (\<lambda>n.
          case n of
            CInt k \<Rightarrow>
              (if index > k then undefL
               else
                 bindL (validate t) (\<lambda>ok.
                 bindL (if ok then bindL (obj_at t) (\<lambda>ob. lua_rawgeti (m_index ob) index) else lua_pushnil)
                   (\<lambda>_. pop_lua ty)))
          | _ \<Rightarrow> undefL))"

section \<open>Functions\<close>

text \<open>These go to the index without a look at what is there.\<close>

definition table_def :: "nat \<Rightarrow> string \<Rightarrow> ctype \<Rightarrow> ctype list \<Rightarrow> nat \<Rightarrow> ('w, unit) tk" where
  "table_def t name rty tys func =
     bindL (steps [str name, lua_pushlightuserdata func, push_functor rty tys]) (\<lambda>_.
     bindL (obj_at t) (\<lambda>ob. lua_settable (m_index ob)))"

definition table_call :: "'w runner \<Rightarrow> string list \<Rightarrow> nat \<Rightarrow> ctype \<Rightarrow> ctype list \<Rightarrow> string \<Rightarrow> cval list \<Rightarrow> ('w, cval) tk" where
  "table_call run trace t rty tys name args =
     bindL (lua_pushcclosure On_error 0) (\<lambda>_.
     bindL (getL lua_gettop) (\<lambda>errfunc.
     bindL (str name) (\<lambda>_.
     bindL (obj_at t) (\<lambda>ob.
     bindL (lua_gettable (m_index ob)) (\<lambda>_.
       call_top run trace rty tys args errfunc
         (not_a_function
           (if tys = [] then ''lua_tinker::call() attempt to call table function ''
            else ''lua_tinker::call() attempt to table function '') name))))))"

section \<open>A table where its object says\<close>

definition lies :: "nat \<Rightarrow> nat \<Rightarrow> lval list \<Rightarrow> 'w tinker \<Rightarrow> bool" where
  "lies t a st s \<longleftrightarrow> (\<exists>ys ob. l_stack s = ys @ LTab a # st \<and> t_objs s t = Some ob \<and>
     m_index ob = int (Suc (length st)) \<and> m_pointer ob = Some (LTab a))"

lemma lies_cong: "lies t a st s \<Longrightarrow> l_stack s' = ys @ l_stack s \<Longrightarrow> t_objs s' = t_objs s \<Longrightarrow> lies t a st s'"
  unfolding lies_def by (metis append_assoc)

lemma lies_obj:
  assumes "lies t a st s"
  obtains ob where "obj_at t s = Some (Done ob s)" "index2adr (m_index ob) s = Some (LTab a)"
    "m_index ob = int (Suc (length st))" "t_objs s t = Some ob"
proof -
  obtain ys ob where s: "l_stack s = ys @ LTab a # st" "t_objs s t = Some ob" "m_index ob = int (Suc (length st))"
    using assms by (auto simp: lies_def)
  have "index2adr (m_index ob) s = Some (LTab a)" by (rule index_from_bottom [OF s(1)]) (simp add: s)
  then show ?thesis using that s by (simp add: obj_at_def)
qed

lemma validate_lies:
  assumes "lies t a st s"
  shows "validate t s = Some (Done True s)"
proof -
  obtain ob where ob: "obj_at t s = Some (Done ob s)" "index2adr (m_index ob) s = Some (LTab a)" "t_objs s t = Some ob"
    using lies_obj [OF assms] by metis
  moreover have "m_pointer ob = Some (LTab a)" using assms ob(3) by (auto simp: lies_def)
  ultimately show ?thesis by (simp add: validate_def bindL_def at_index_def lua_topointer_def retL_def)
qed

lemma pop_number:
  assumes "in_range True 32 n" "\<bar>n\<bar> \<le> 2 ^ 53"
  shows "pop_lua (Int_t True 32) (s\<lparr>l_stack := LNum (to_double n) # st\<rparr>) = Some (Done (CInt n) (s\<lparr>l_stack := st\<rparr>))"
  using assms by (simp add: pop_lua_def read_lua_def read_number_def cast_int_def to_double_exact lua_tonumber_def lua_exec)

lemma table_size_lies:
  assumes l: "lies t a st s" and n: "l_border s (raw_fields a s) = n" "n < 2 ^ 31"
  shows "table_size t s = Some (Done (CInt (int n)) s)"
proof -
  obtain ob where ob: "obj_at t s = Some (Done ob s)" "index2adr (m_index ob) s = Some (LTab a)"
    using lies_obj [OF l] by blast
  have "lua_objlen (m_index ob) s = Some (Done (int n) s)" using ob n by (simp add: lua_objlen_def)
  moreover have "pop_lua (Int_t True 32) (pushv (LNum (to_double (int n))) s) = Some (Done (CInt (int n)) s)"
    using pop_number [of "int n" "l_stack s" s] n by (simp add: pushv_def in_range_def)
  ultimately show ?thesis
    by (simp add: table_size_def bindL_def validate_lies [OF l] ob lua_pushinteger_def modL_def)
qed

lemma table_put_lies:
  assumes l: "lies t a st s" and n: "l_border s (raw_fields a s) = n" "n + 1 < 2 ^ 31"
    and x: "plain_value ty v = Some [x]"
  shows "table_put t ty v s = Some (Done () (set_field a (LNum (of_int (int n + 1))) x s))"
proof -
  let ?s = "s\<lparr>l_stack := x # l_stack s\<rparr>"
  have "ty \<noteq> Void_t" using x by (auto simp: plain_value_def)
  then have p: "push_lua ty v s = Some (Done () ?s)" using push_plain [OF x] by auto
  have l2: "lies t a st ?s" by (rule lies_cong [OF l, where ys = "[x]"]) simp_all
  then obtain ob where ob: "obj_at t ?s = Some (Done ob ?s)" "index2adr (m_index ob) ?s = Some (LTab a)"
    by (rule lies_obj)
  have "table_size t ?s = Some (Done (CInt (int n)) ?s)" using n by (intro table_size_lies [OF l2]) (simp_all add: raw_fields_def)
  moreover have "in_range True 32 (int n + 1)" using n by (simp add: in_range_def)
  ultimately show ?thesis
    by (simp add: table_put_def bindL_def validate_lies [OF l] p ob lua_rawseti_def set_field_def)
qed

lemma table_fetch_lies:
  assumes l: "lies t a st s" and n: "l_border s (raw_fields a s) = n" "n < 2 ^ 31" and i: "1 \<le> i" "i \<le> int n"
    and x: "plain_arg ty (raw_fields a s (LNum (of_int i))) v"
  shows "table_fetch t ty i s = Some (Done v s)"
proof -
  obtain ob where ob: "obj_at t s = Some (Done ob s)" "index2adr (m_index ob) s = Some (LTab a)"
    using lies_obj [OF l] by blast
  let ?s = "pushv (raw_fields a s (LNum (of_int i))) s"
  have r: "read_lua ty (- 1) ?s = Some (Done v ?s)" by (rule read_plain [OF x index_top]) (simp add: pushv_def)
  have "ty \<noteq> Void_t" "ty \<noteq> Table_t" using x by (auto simp: plain_arg_def)
  then have "pop_lua ty ?s = Some (Done v s)"
    using r by (cases ty) (simp_all add: pop_lua_def bindL_def lua_pop_def lua_settop_def retL_def pushv_def)
  then show ?thesis
    using i by (simp add: table_fetch_def bindL_def table_size_lies [OF l n] validate_lies [OF l] ob lua_rawgeti_def)
qed

lemma table_destroy_lies:
  assumes "l_stack s = ys @ LTab a # st" "t_objs s t = Some \<lparr>m_index = int (Suc (length st)), m_pointer = Some (LTab a), m_ref = 1\<rparr>"
  shows "table_destroy t s = Some (Done () (s\<lparr>t_objs := (t_objs s)(t := None), l_stack := ys @ st\<rparr>))"
proof -
  let ?s = "s\<lparr>t_objs := (t_objs s)(t \<mapsto> \<lparr>m_index = int (Suc (length st)), m_pointer = Some (LTab a), m_ref = 0\<rparr>)\<rparr>"
  have "lies t a st ?s" using assms by (auto simp: lies_def)
  note v = validate_lies [OF this]
  have "stkindex2adr (int (Suc (length st))) (length (ys @ LTab a # st)) = Some (length ys)" by (simp add: stkindex2adr_def)
  then show ?thesis
    using assms v by (simp add: table_destroy_def dec_ref_def obj_at_def set_obj_def bindL_def modL_def table_obj_dtor_def lua_remove_def)
qed

section \<open>A table as a list\<close>

text \<open>
  The length that the interpreter gives to a table whose positive integer keys are those up to \<open>n\<close>
  is \<open>n\<close>.
\<close>

definition list_fields :: "lval list \<Rightarrow> (lval \<Rightarrow> lval) \<Rightarrow> bool" where
  "list_fields xs f \<longleftrightarrow> (\<forall>i \<ge> 1. f (LNum (of_int i)) = (if i \<le> int (length xs) then xs ! (nat i - 1) else LNil))"

definition border_exact :: "((lval \<Rightarrow> lval) \<Rightarrow> nat) \<Rightarrow> bool" where
  "border_exact border \<longleftrightarrow> (\<forall>xs f. LNil \<notin> set xs \<and> list_fields xs f \<longrightarrow> border f = length xs)"

definition table_fill :: "nat \<Rightarrow> (ctype \<times> cval) list \<Rightarrow> ('w, unit) tk" where
  "table_fill t vs = steps (map (\<lambda>(ty, v). table_put t ty v) vs)"

lemma list_fields_put:
  assumes "list_fields xs f"
  shows "list_fields (xs @ [x]) (f(LNum (of_int (int (length xs) + 1)) := x))"
proof -
  have "of_int i = (of_int (int (length xs) + 1) :: rat) \<longleftrightarrow> i = int (length xs) + 1" for i by (simp only: of_int_eq_iff)
  then show ?thesis using assms by (auto simp: list_fields_def nth_append)
qed

lemma table_fill_exec:
  assumes "lies t a st s" "border_exact (l_border s)" "list_fields xs (raw_fields a s)" "LNil \<notin> set xs"
    and "list_all2 (\<lambda>(ty, v) y. plain_value ty v = Some [y] \<and> y \<noteq> LNil) vs ys" "length (xs @ ys) < 2 ^ 31"
  shows "\<exists>s'. table_fill t vs s = Some (Done () s') \<and> l_stack s' = l_stack s \<and> t_objs s' = t_objs s \<and> l_border s' = l_border s \<and>
    list_fields (xs @ ys) (raw_fields a s')"
  using assms(5,1-4,6)
proof (induction vs ys arbitrary: xs s rule: list_all2_induct)
  case Nil
  then show ?case by (auto simp: table_fill_def retL_def steps.simps)
next
  case (Cons tv vs y ys)
  obtain ty v where tv: "tv = (ty, v)" by (cases tv)
  have y: "plain_value ty v = Some [y]" "y \<noteq> LNil" using Cons.hyps(1) tv by auto
  have b: "l_border s (raw_fields a s) = length xs" using Cons.prems by (auto simp: border_exact_def)
  let ?s = "set_field a (LNum (of_int (int (length xs) + 1))) y s"
  have p: "table_put t ty v s = Some (Done () ?s)"
    by (rule table_put_lies [OF Cons.prems(1) b _ y(1)]) (use Cons.prems(5) in simp)
  have "list_fields (xs @ [y]) (raw_fields a ?s)"
    using list_fields_put [OF Cons.prems(3)] by (simp add: raw_fields_def set_field_def)
  moreover have "lies t a st ?s" by (rule lies_cong [OF Cons.prems(1), where ys = "[]"]) (simp_all add: set_field_def)
  ultimately obtain s' where "table_fill t vs ?s = Some (Done () s') \<and> l_stack s' = l_stack ?s \<and> t_objs s' = t_objs ?s \<and>
      l_border s' = l_border ?s \<and> list_fields ((xs @ [y]) @ ys) (raw_fields a s')"
    using Cons.IH [of ?s "xs @ [y]"] Cons.prems y(2) by (auto simp: set_field_def)
  then show ?case using p by (auto simp: table_fill_def tv steps_exec set_field_def)
qed

lemma table_new_exec:
  "table_new s = Some (Done (t_nobj s) (s\<lparr>l_stack := LTab (l_next s) # l_stack s, l_next := l_next s + 1,
     l_tab := (l_tab s)(l_next s := \<lparr>t_fields = (\<lambda>_. LNil), t_meta = None\<rparr>), t_nobj := t_nobj s + 1,
     t_objs := (t_objs s)(t_nobj s \<mapsto> \<lparr>m_index = int (Suc (length (l_stack s))), m_pointer = Some (LTab (l_next s)), m_ref = 1\<rparr>)\<rparr>))"
  by (simp add: table_new_def lua_exec table_obj_def inc_ref_def lua_topointer_def)

text \<open>
  C30: A table that C++ fills with \<^verbatim>\<open>put\<close> is the list of what was put, of up to 2^31 - 1 values:
  \<^verbatim>\<open>size\<close> is its length and \<^verbatim>\<open>fetch\<close> gives the element at each index, converted; when its holder is
  destroyed, the Lua stack is what it was before the table was made.
\<close>

theorem table_holds_list:
  assumes "border_exact (l_border s)" "list_all2 (\<lambda>(ty, v) y. plain_value ty v = Some [y] \<and> y \<noteq> LNil) vs xs"
    and "length xs < 2 ^ 31"
  shows "\<exists>t s1. bindL table_new (\<lambda>t. bindL (table_fill t vs) (\<lambda>_. retL t)) s = Some (Done t s1) \<and>
    table_size t s1 = Some (Done (CInt (int (length xs))) s1) \<and>
    (\<forall>i ty v. 1 \<le> i \<longrightarrow> i \<le> int (length xs) \<longrightarrow> plain_arg ty (xs ! (nat i - 1)) v \<longrightarrow> table_fetch t ty i s1 = Some (Done v s1)) \<and>
    (\<exists>s2. table_destroy t s1 = Some (Done () s2) \<and> l_stack s2 = l_stack s \<and> t_objs s2 = (t_objs s)(t := None))"
proof -
  let ?t = "t_nobj s" let ?a = "l_next s" let ?st = "l_stack s"
  obtain s0 where n: "table_new s = Some (Done ?t s0)" and s0: "l_stack s0 = LTab ?a # ?st" "l_border s0 = l_border s"
    "t_objs s0 = (t_objs s)(?t \<mapsto> \<lparr>m_index = int (Suc (length ?st)), m_pointer = Some (LTab ?a), m_ref = 1\<rparr>)"
    "list_fields [] (raw_fields ?a s0)"
    by (simp add: table_new_exec list_fields_def raw_fields_def)
  have l0: "lies ?t ?a ?st s0" by (auto simp: lies_def s0)
  obtain s1 where f: "table_fill ?t vs s0 = Some (Done () s1)" and s1: "l_stack s1 = l_stack s0" "t_objs s1 = t_objs s0"
    "l_border s1 = l_border s0" "list_fields xs (raw_fields ?a s1)"
    using table_fill_exec [OF l0 _ s0(4) _ assms(2)] assms(1,3) s0(2) by auto
  have l1: "lies ?t ?a ?st s1" by (rule lies_cong [OF l0, where ys = "[]"]) (simp_all add: s1)
  have "LNil \<notin> set xs" using assms(2) by (induction rule: list_all2_induct) auto
  then have b: "l_border s1 (raw_fields ?a s1) = length xs" using assms(1) s1(3,4) s0(2) by (auto simp: border_exact_def)
  have "table_fetch ?t ty i s1 = Some (Done v s1)"
    if "1 \<le> i" "i \<le> int (length xs)" "plain_arg ty (xs ! (nat i - 1)) v" for i ty v
    by (rule table_fetch_lies [OF l1 b assms(3)]) (use that s1(4) in \<open>simp_all add: list_fields_def\<close>)
  moreover have "table_destroy ?t s1 = Some (Done () (s1\<lparr>t_objs := (t_objs s1)(?t := None), l_stack := [] @ ?st\<rparr>))"
    by (rule table_destroy_lies [where a = ?a]) (simp_all add: s1 s0)
  moreover have "(t_objs s1)(?t := None) = (t_objs s)(?t := None)" by (simp add: s1 s0)
  ultimately show ?thesis using table_size_lies [OF l1 b assms(3)] n f by (auto simp: bindL_def retL_def)
qed

definition ex_border :: "(lval \<Rightarrow> lval) \<Rightarrow> nat" where
  "ex_border f = (LEAST n. f (LNum (of_int (int n + 1))) = LNil)"

lemma ex_border_exact: "border_exact ex_border"
  unfolding border_exact_def ex_border_def
proof (intro allI impI Least_equality)
  fix xs f n
  assume a: "LNil \<notin> set xs \<and> list_fields xs f"
  have f: "f (LNum (of_int (int n + 1))) = (if n < length xs then xs ! n else LNil)" for n
    using a [THEN conjunct2, unfolded list_fields_def, rule_format, of "int n + 1"] by (simp add: nat_add_distrib)
  show "f (LNum (of_int (int (length xs) + 1))) = LNil" by (simp only: f) simp
  show "length xs \<le> n" if "f (LNum (of_int (int n + 1))) = LNil"
    using f [of n] that a nth_mem [of n xs] by (cases "n < length xs") auto
qed

theorem table_holds_list_witness:
  "\<exists>t s1. bindL table_new (\<lambda>t. bindL (table_fill t [(Cstr_t, CStr (Some ''a'')), (Bool_t, CBool True)]) (\<lambda>_. retL t))
      ((ex_lua (0 :: int))\<lparr>l_border := ex_border\<rparr>) = Some (Done t s1) \<and>
    table_size t s1 = Some (Done (CInt 2) s1) \<and> table_fetch t Cstr_t 1 s1 = Some (Done (CStr (Some ''a'')) s1)"
proof -
  have "plain_arg Cstr_t ([LStr ''a'', LBool True] ! (nat 1 - 1)) (CStr (Some ''a''))" by (simp add: plain_arg_def)
  then show ?thesis
    using table_holds_list [of "(ex_lua (0 :: int))\<lparr>l_border := ex_border\<rparr>" "[(Cstr_t, CStr (Some ''a'')), (Bool_t, CBool True)]"
        "[LStr ''a'', LBool True]"] ex_border_exact
    by (fastforce simp: plain_value_def)
qed

section \<open>Fields by key\<close>

lemma pushes_key:
  "lua_pushinteger i s = Some (Done () (pushv (LNum (to_double i)) s))" "str name s = Some (Done () (pushv (LStr name) s))"
  by (simp_all add: lua_pushinteger_def str_def lua_pushstring_def modL_def)

lemma table_get_lies:
  assumes l: "lies t a st s" and m: "t_meta (l_tab s a) = None" and k: "\<And>s. key s = Some (Done () (pushv k s))"
    and x: "plain_arg ty (raw_fields a s k) v"
  shows "table_get t key ty s = Some (Done v s)"
proof -
  obtain ob where ob: "obj_at t s = Some (Done ob s)" "m_index ob = int (Suc (length st))" using lies_obj [OF l] by blast
  have "lies t a st (pushv k s)" by (rule lies_cong [OF l, where ys = "[k]"]) (simp_all add: pushv_def)
  then have i: "index2adr (int (Suc (length st))) (pushv k s) = Some (LTab a)" by (rule lies_obj) simp
  let ?s = "pushv (raw_fields a s k) s"
  have g: "lua_gettable (int (Suc (length st))) (pushv k s) = Some (Done () ?s)"
    unfolding lua_gettable_def i using m by (simp add: pushv_def raw_fields_def no_meta_def)
  have r: "read_lua ty (- 1) ?s = Some (Done v ?s)" by (rule read_plain [OF x index_top]) (simp add: pushv_def)
  have "ty \<noteq> Void_t" "ty \<noteq> Table_t" using x by (auto simp: plain_arg_def)
  then have "pop_lua ty ?s = Some (Done v s)"
    using r by (cases ty) (simp_all add: pop_lua_def bindL_def lua_pop_def lua_settop_def retL_def pushv_def)
  then show ?thesis
    unfolding table_get_def using g ob by (simp add: bindL_def validate_lies [OF l] steps_exec k del: of_nat_Suc)
qed

lemma table_set_lies:
  assumes l: "lies t a st s" and m: "t_meta (l_tab s a) = None" and k: "\<And>s. key s = Some (Done () (pushv k s))" "k \<noteq> LNil"
    and x: "plain_value ty v = Some [x]"
  shows "table_set t key ty v s = Some (Done () (set_field a k x s))"
proof -
  obtain ob where ob: "obj_at t s = Some (Done ob s)" "m_index ob = int (Suc (length st))" using lies_obj [OF l] by blast
  let ?s = "s\<lparr>l_stack := x # k # l_stack s\<rparr>"
  have "lies t a st ?s" by (rule lies_cong [OF l, where ys = "[x, k]"]) simp_all
  then have i: "index2adr (int (Suc (length st))) ?s = Some (LTab a)" by (rule lies_obj) simp
  have g: "lua_settable (int (Suc (length st))) ?s = Some (Done () (set_field a k x s))"
    unfolding lua_settable_def i using m k(2) by (simp add: set_field_def raw_fields_def no_meta_def)
  have "ty \<noteq> Void_t" using x by (auto simp: plain_value_def)
  then have "push_lua ty v (pushv k s) = Some (Done () ?s)" using push_plain [OF x, of "pushv k s"] by (auto simp: pushv_def)
  then show ?thesis
    unfolding table_set_def using g ob by (simp add: bindL_def validate_lies [OF l] steps_exec k del: of_nat_Suc)
qed

section \<open>Named tables\<close>

lemma table_named_exec:
  assumes "t_meta (l_tab s (l_globals s)) = None" "raw_fields (l_globals s) s (LStr name) = LTab a"
  shows "table_named name s = Some (Done (t_nobj s) (s\<lparr>l_stack := LTab a # l_stack s, t_nobj := t_nobj s + 1,
     t_objs := (t_objs s)(t_nobj s \<mapsto> \<lparr>m_index = int (Suc (length (l_stack s))), m_pointer = Some (LTab a), m_ref = 0\<rparr>)\<rparr>))"
  using assms by (simp add: table_named_def lua_exec table_obj_def lua_topointer_def)

text \<open>
  The holder of a global table that is made from its name does not count itself. Destroying it
  leaves the table on the Lua stack and its object in memory; and when a copy of it is destroyed,
  the object is freed while the first holder still points to it.
\<close>

theorem named_table_miscounted:
  assumes "t_meta (l_tab s (l_globals s)) = None" "raw_fields (l_globals s) s (LStr name) = LTab a"
  shows "\<exists>t s1. table_named name s = Some (Done t s1) \<and>
    (\<exists>s2. table_destroy t s1 = Some (Done () s2) \<and> l_stack s2 = LTab a # l_stack s \<and> t_objs s2 t \<noteq> None) \<and>
    (\<exists>s3. bindL (table_copy t) table_destroy s1 = Some (Done () s3) \<and> l_stack s3 = l_stack s \<and>
       get_name t key ty s3 = None \<and> table_destroy t s3 = None)"
proof -
  let ?t = "t_nobj s"
  obtain s1 where n: "table_named name s = Some (Done ?t s1)" and s1: "l_stack s1 = LTab a # l_stack s"
    "t_objs s1 ?t = Some \<lparr>m_index = int (Suc (length (l_stack s))), m_pointer = Some (LTab a), m_ref = 0\<rparr>"
    by (simp add: table_named_exec [OF assms])
  let ?s = "s1\<lparr>t_objs := (t_objs s1)(?t \<mapsto> \<lparr>m_index = int (Suc (length (l_stack s))), m_pointer = Some (LTab a), m_ref = 1\<rparr>)\<rparr>"
  have c: "table_copy ?t s1 = Some (Done ?t ?s)" by (simp add: table_copy_def inc_ref_def s1 bindL_def retL_def)
  have d: "table_destroy ?t ?s = Some (Done () (?s\<lparr>t_objs := (t_objs ?s)(?t := None), l_stack := [] @ l_stack s\<rparr>))"
    by (rule table_destroy_lies [where a = a]) (simp_all add: s1)
  have "get_name ?t key ty s' = None \<and> table_destroy ?t s' = None" if "t_objs s' ?t = None" for s' :: "'a tinker"
    using that by (simp add: get_name_def table_get_def validate_def table_destroy_def dec_ref_def obj_at_def bindL_def)
  moreover have "\<exists>s2. table_destroy ?t s1 = Some (Done () s2) \<and> l_stack s2 = LTab a # l_stack s \<and> t_objs s2 ?t \<noteq> None"
    by (simp add: table_destroy_def dec_ref_def obj_at_def set_obj_def bindL_def modL_def retL_def s1)
  ultimately show ?thesis using n c d by (auto simp: bindL_def)
qed

definition ex_conf :: "int tinker" where
  "ex_conf = (ex_lua 0)\<lparr>l_next := 9, l_tab := (\<lambda>_. \<lparr>t_fields = (\<lambda>_. LNil)(LStr ''conf'' := LTab 3), t_meta = None\<rparr>)\<rparr>"

theorem named_table_miscounted_witness:
  "\<exists>t s1 s2. table_named ''conf'' ex_conf = Some (Done t s1) \<and> table_destroy t s1 = Some (Done () s2) \<and> l_stack s2 = [LTab 3]"
proof -
  have "t_meta (l_tab ex_conf (l_globals ex_conf)) = None" "raw_fields (l_globals ex_conf) ex_conf (LStr ''conf'') = LTab 3"
    "l_stack ex_conf = []" by (simp_all add: ex_conf_def ex_lua_def raw_fields_def)
  with named_table_miscounted [of ex_conf "''conf''" 3] show ?thesis by metis
qed

section \<open>Tables that moved\<close>

text \<open>
  \<^verbatim>\<open>validate\<close> finds the table wherever it is on the stack, and afterwards the index is right; a table
  that is not on the stack any more is lost for good.
\<close>

lemma find_pointer:
  assumes "find (\<lambda>i. P i) [1..int n] = Some i"
  shows "P i \<and> 1 \<le> i \<and> i \<le> int n"
  using assms by (auto simp: find_Some_iff)

theorem validate_finds:
  assumes "t_objs s t = Some ob" "m_pointer ob = Some p" "m_index ob \<ge> 1"
  shows "\<exists>s'. validate t s = Some (Done (\<exists>i \<ge> 1. pointer_at s i = Some p) s') \<and> l_stack s' = l_stack s \<and>
    (case t_objs s' t of
       Some ob' \<Rightarrow> if \<exists>i \<ge> 1. pointer_at s i = Some p then m_pointer ob' = Some p \<and> pointer_at s' (m_index ob') = Some p
                  else m_pointer ob' = None
     | None \<Rightarrow> False)"
proof -
  have top: "i \<le> lua_gettop s" if "pointer_at s i = Some p" "i \<ge> 1" for i
    using that by (auto simp: pointer_at_def index2adr_def stkindex2adr_def lua_gettop_def LUA_GLOBALSINDEX_def lua_topointer_def split: if_splits)
  have "index2adr (m_index ob) s \<noteq> None"
    using assms(3) by (cases "stkindex2adr (m_index ob) (length (l_stack s))") (simp_all add: index2adr_def LUA_GLOBALSINDEX_def)
  then obtain v where v: "index2adr (m_index ob) s = Some v" by blast
  have eqv: "pointer_at (s\<lparr>t_objs := x\<rparr>) i = pointer_at s i" for i x
    by (simp add: pointer_at_def index2adr_def LUA_GLOBALSINDEX_def Let_def split: option.split)
  show ?thesis
  proof (cases "lua_topointer v = Some p")
    case True
    then have "pointer_at s (m_index ob) = Some p" by (simp add: pointer_at_def v)
    then show ?thesis using assms True v by (auto simp: validate_def obj_at_def bindL_def at_index_def retL_def)
  next
    case False
    show ?thesis
    proof (cases "find (\<lambda>i. pointer_at s i = Some p) [1..lua_gettop s]")
      case None
      then have "\<not> (\<exists>i \<ge> 1. pointer_at s i = Some p)" using top by (auto simp: find_None_iff)
      then show ?thesis using assms False v None
        by (simp add: validate_def obj_at_def bindL_def at_index_def retL_def getL_def set_obj_def modL_def)
    next
      case (Some i)
      then have i: "pointer_at s i = Some p" "1 \<le> i" using find_pointer [of _ "nat (lua_gettop s)"] by (auto simp: lua_gettop_def)
      then have "\<exists>i \<ge> 1. pointer_at s i = Some p" by blast
      then show ?thesis using assms False v Some i
        by (auto simp: validate_def obj_at_def bindL_def at_index_def retL_def getL_def set_obj_def modL_def eqv)
    qed
  qed
qed

end
