(* ===== verification/Config_Script.thy ===== *)
theory Config_Script
  imports Lua_Tables Server_Cfg
begin

text \<open>
  \<^verbatim>\<open>script/Script.cpp\<close> and \<^verbatim>\<open>Server/ConfigScript.cpp\<close>: an interpreter with its search path, and the one
  in which the configuration of the process is the object \<^verbatim>\<open>cfg\<close>. The program's state is the
  configuration, \<open>p\<close> the address of it. Parameters are opening an interpreter and its libraries, the
  compiler \<open>luaL_loadfile\<close>, the interpreter \<open>run\<close>, and the system's functions of theory Server_Cfg.
\<close>

section \<open>The configuration as an object of the script\<close>

definition with_text :: "(string \<Rightarrow> cfg \<Rightarrow> cfg) \<Rightarrow> nat \<Rightarrow> cval list \<Rightarrow> cfg \<Rightarrow> (cval \<times> cfg) option" where
  "with_text f p vs c = (case vs of [CStr (Some x)] \<Rightarrow> Some (CVoid, f (c_str x) c) | _ \<Rightarrow> None)"

definition with_int :: "(int \<Rightarrow> cfg \<Rightarrow> cfg) \<Rightarrow> nat \<Rightarrow> cval list \<Rightarrow> cfg \<Rightarrow> (cval \<times> cfg) option" where
  "with_int f p vs c = (case vs of [CInt x] \<Rightarrow> Some (CVoid, f x c) | _ \<Rightarrow> None)"

text \<open>
  The members of \<^verbatim>\<open>Cfg\<close> on values of their parameter types. A null pointer makes no \<^verbatim>\<open>std::string\<close>;
  only \<^verbatim>\<open>setIfName\<close> looks for it.
\<close>

definition call_addConnectList :: "nat \<Rightarrow> cval list \<Rightarrow> cfg \<Rightarrow> (cval \<times> cfg) option" where
  "call_addConnectList p vs c =
     (case vs of
        [CInt ty, CInt uid, CStr (Some x), CInt port] \<Rightarrow>
          Some (CVoid, addConnectList (word_of_int ty) (word_of_int uid) (c_str x) (word_of_int port) c)
      | _ \<Rightarrow> None)"

definition call_setDatabase :: "nat \<Rightarrow> cval list \<Rightarrow> cfg \<Rightarrow> (cval \<times> cfg) option" where
  "call_setDatabase p vs c =
     (case vs of
        [CStr (Some h), CInt port, CStr (Some u), CStr (Some pw), CStr (Some s)] \<Rightarrow>
          Some (CVoid, setDatabase (c_str h) (word_of_int port) (c_str u) (c_str pw) (c_str s) c)
      | _ \<Rightarrow> None)"

definition call_setIfName :: "bool \<Rightarrow> (string \<Rightarrow> u32 option) \<Rightarrow> nat \<Rightarrow> cval list \<Rightarrow> cfg \<Rightarrow> (cval \<times> cfg) option" where
  "call_setIfName socket ioctl p vs c =
     (case vs of [CStr x] \<Rightarrow> Some (CVoid, setIfName socket ioctl (map_option c_str x) c) | _ \<Rightarrow> None)"

definition call_setArenaServer :: "nat \<Rightarrow> cval list \<Rightarrow> cfg \<Rightarrow> (cval \<times> cfg) option" where
  "call_setArenaServer p vs c =
     (case vs of
        [CStr (Some h), CInt port] \<Rightarrow> Some (CVoid, setArenaServer (c_str h) (word_of_int port) c)
      | _ \<Rightarrow> None)"

definition UInt8_t :: ctype where "UInt8_t = Int_t False 8"
definition UInt16_t :: ctype where "UInt16_t = Int_t False 16"

type_synonym cfg_methods = "(string \<times> ctype list \<times> (nat \<Rightarrow> cval list \<Rightarrow> cfg \<Rightarrow> (cval \<times> cfg) option)) list"

definition config_methods :: "bool \<Rightarrow> (string \<Rightarrow> u32 option) \<Rightarrow> cfg_methods" where
  "config_methods socket ioctl = [
     (''setServerType'', [UInt8_t], with_int (\<lambda>x. setServerType (word_of_int x))),
     (''setServerUID'', [UInt8_t], with_int (\<lambda>x. setServerUID (word_of_int x))),
     (''setServerLogName'', [Cstr_t], with_text setServerLogName),
     (''setServerDllName'', [Cstr_t], with_text setServerDllName),
     (''setTcpPort'', [UInt16_t], with_int (\<lambda>x. setTcpPort (word_of_int x))),
     (''addConnectList'', [UInt8_t, UInt8_t, Cstr_t, UInt16_t], call_addConnectList),
     (''setDatabase'', [Cstr_t, UInt16_t, Cstr_t, Cstr_t, Cstr_t], call_setDatabase),
     (''setIfName'', [Cstr_t], call_setIfName socket ioctl),
     (''setScriptPath'', [Cstr_t], with_text setScriptPath),
     (''setArenaServer'', [Cstr_t, UInt16_t], call_setArenaServer)]"

text \<open>The class \<^verbatim>\<open>Cfg\<close> has the number 0.\<close>

definition ConfigScript :: "bool \<Rightarrow> (string \<Rightarrow> u32 option) \<Rightarrow> nat \<Rightarrow> (cfg, unit) tk" where
  "ConfigScript socket ioctl p =
     steps (class_add 0 ''Cfg'' # map (\<lambda>(name, tys, f). class_def 0 name Void_t tys f) (config_methods socket ioctl) @
            [set_lua ''cfg'' (Obj_t 0) (CPtr p)])"

section \<open>Interpreters\<close>

definition addPackagePath :: "(cfg, unit) tk" where
  "addPackagePath s =
     (let sp = scriptPath (t_world s)
      in if sp = [] then retL () s
         else
           bindL (get_lua Table_t ''package'') (\<lambda>pkg.
             case pkg of
               CTable t \<Rightarrow>
                 bindL (get_name t ''path'' Cstr_t) (\<lambda>path.
                   case path of
                     CStr (Some x) \<Rightarrow>
                       (let newpath = c_str x @ '';'' @ sp @ ''?.lua'' @ '';'' @ sp @ ''?/init.lua''
                        in bindL (set_name t ''path'' Cstr_t (CStr (Some (c_str newpath)))) (\<lambda>_. table_destroy t))
                   | _ \<Rightarrow> undefL)
             | _ \<Rightarrow> undefL) s)"

definition Script_new :: "(cfg tinker \<Rightarrow> cfg tinker) \<Rightarrow> (cfg, unit) tk \<Rightarrow> (cfg, unit) tk" where
  "Script_new lua_open luaL_openlibs = steps [modL lua_open, luaL_openlibs, addPackagePath]"

text \<open>The result is the new \<^verbatim>\<open>_scriptName\<close>. Neither \<^verbatim>\<open>init\<close> nor \<^verbatim>\<open>postInit\<close> does anything here.\<close>

definition Script_doFile :: "cfg runner \<Rightarrow> string list \<Rightarrow> (string \<Rightarrow> (cfg, bool \<times> lval) tk) \<Rightarrow> string \<Rightarrow> (cfg, string) tk" where
  "Script_doFile run trace luaL_loadfile fn = bindL (dofile run trace luaL_loadfile fn) (\<lambda>_. retL fn)"

definition Script_runScript :: "cfg runner \<Rightarrow> string list \<Rightarrow> (string \<Rightarrow> (cfg, bool \<times> lval) tk) \<Rightarrow> string \<Rightarrow> (cfg, unit) tk" where
  "Script_runScript run trace luaL_loadbuffer x = bindL (dostring run trace luaL_loadbuffer x) (\<lambda>_. retL ())"

definition Script_reload ::
    "(cfg tinker \<Rightarrow> cfg tinker) \<Rightarrow> (cfg, unit) tk \<Rightarrow> cfg runner \<Rightarrow> string list \<Rightarrow> (string \<Rightarrow> (cfg, bool \<times> lval) tk) \<Rightarrow> string \<Rightarrow> (cfg, unit) tk" where
  "Script_reload lua_open luaL_openlibs run trace luaL_loadfile scriptName =
     bindL (steps [modL lua_open, luaL_openlibs, addPackagePath]) (\<lambda>_.
     bindL (dofile run trace luaL_loadfile scriptName) (\<lambda>_. retL ()))"

definition Script_getTable :: "(cfg, nat) tk" where
  "Script_getTable = table_new"

definition Script_getTable_at :: "int \<Rightarrow> (cfg, nat) tk" where
  "Script_getTable_at index = table_at index"

definition Script_getTable_named :: "string \<Rightarrow> (cfg, nat) tk" where
  "Script_getTable_named name = table_named name"

text \<open>\<^verbatim>\<open>Cfg::load\<close>: only file names are loaded, also for a given script.\<close>

definition Cfg_load ::
    "(cfg tinker \<Rightarrow> cfg tinker) \<Rightarrow> (cfg, unit) tk \<Rightarrow> cfg runner \<Rightarrow> string list \<Rightarrow> (string \<Rightarrow> (cfg, bool \<times> lval) tk) \<Rightarrow>
     bool \<Rightarrow> (string \<Rightarrow> u32 option) \<Rightarrow> nat \<Rightarrow> string option \<Rightarrow> (cfg, string) tk" where
  "Cfg_load lua_open luaL_openlibs run trace luaL_loadfile socket ioctl p scriptStr =
     bindL (steps [Script_new lua_open luaL_openlibs, ConfigScript socket ioctl p]) (\<lambda>_ s.
       Script_doFile run trace luaL_loadfile (case scriptStr of Some x \<Rightarrow> x | None \<Rightarrow> c_str (c_filename (t_world s))) s)"

section \<open>Running a chunk\<close>

definition handler_pushed :: "'w tinker \<Rightarrow> 'w tinker" where
  "handler_pushed s = s\<lparr>l_stack := LFun (l_next s) # l_stack s, l_next := l_next s + 1, l_fun := (l_fun s)(l_next s := (On_error, []))\<rparr>"

lemma run_chunk_done:
  assumes "load (handler_pushed s) = Some (Done (True, LFun g) s1)" "l_stack s1 = l_stack (handler_pushed s)" "l_up s1 = l_up s"
    and "run (LFun g) [] s1 = Some (Done rs s2)"
  shows "run_chunk run trace load s = Some (Done True (s2\<lparr>l_stack := l_stack s, l_up := l_up s\<rparr>))"
proof -
  let ?h = "LFun (l_next s)"
  have st: "l_stack s1 = ?h # l_stack s" using assms(2) by (simp add: handler_pushed_def)
  have i: "index2adr (int (Suc (length (l_stack s)))) (pushv (LFun g) s1) = Some ?h"
    by (rule index_from_bottom [where xs = "[LFun g]" and st = "l_stack s"]) (simp_all add: pushv_def st)
  have same: "s1\<lparr>l_stack := ?h # l_stack s\<rparr> = s1" unfolding st [symmetric] by simp
  have "lua_pcall run trace 0 0 (int (Suc (length (l_stack s)))) (pushv (LFun g) s1) =
      Some (Done True (s2\<lparr>l_stack := ?h # l_stack s, l_up := l_up s\<rparr>))"
    using i assms(3,4) by (simp add: lua_pcall_def Let_def adjust_def pushv_def st same)
  then show ?thesis
    using assms(1) by (simp add: run_chunk_def bindL_def lua_pushcclosure_def handler_pushed_def getL_def lua_gettop_def
        modL_def lua_pop_def lua_settop_def retL_def pushv_def)
qed

lemma run_chunk_raised:
  assumes "load (handler_pushed s) = Some (Done (True, LFun g) s1)" "l_stack s1 = l_stack (handler_pushed s)" "l_up s1 = l_up s"
    and "run (LFun g) [] s1 = Some (Raised (LStr msg) s2)" "l_fun s2 (l_next s) = (On_error, [])"
    and "list_all (\<lambda>t. length t < 4096) (msg # trace)" "t_meta (l_tab s2 (l_globals s2)) = None"
    and "raw_fields (l_globals s2) s2 (LStr ''_ALERT'') = LNil"
  shows "run_chunk run trace load s = Some (Done False (s2\<lparr>l_stack := l_stack s, l_up := l_up s, t_log := t_log s2 @ msg # trace\<rparr>))"
proof -
  let ?h = "LFun (l_next s)"
  have st: "l_stack s1 = ?h # l_stack s" using assms(2) by (simp add: handler_pushed_def)
  have i: "index2adr (int (Suc (length (l_stack s)))) (pushv (LFun g) s1) = Some ?h"
    by (rule index_from_bottom [where xs = "[LFun g]" and st = "l_stack s"]) (simp_all add: pushv_def st)
  have same: "s1\<lparr>l_stack := ?h # l_stack s\<rparr> = s1" unfolding st [symmetric] by simp
  have "lua_pcall run trace 0 0 (int (Suc (length (l_stack s)))) (pushv (LFun g) s1) =
      Some (Done False (s2\<lparr>t_log := t_log s2 @ msg # trace, l_stack := LNil # ?h # l_stack s, l_up := l_up s\<rparr>))"
    using i assms(3-5) on_error_logs [OF assms(6-8), of "[]" run] by (simp add: lua_pcall_def Let_def adjust_def pushv_def st same)
  then show ?thesis
    using assms(1) by (simp add: run_chunk_def bindL_def lua_pushcclosure_def handler_pushed_def getL_def lua_gettop_def
        modL_def lua_pop_def lua_settop_def retL_def pushv_def steps.simps)
qed

section \<open>Calls of the script on the configuration\<close>

text \<open>\<open>cfg:key(args)\<close>\<close>

definition cfg_call :: "string \<times> lval list \<Rightarrow> (cfg, unit) tk" where
  "cfg_call c s =
     (case raw_fields (l_globals s) s (LStr ''cfg'') of
        LUd u \<Rightarrow> bindL (script_method u (fst c) (snd c)) (\<lambda>_. retL ()) s
      | LNil \<Rightarrow> Some (Raised (LStr ''attempt to index global cfg'') s)
      | _ \<Rightarrow> None)"

text \<open>What the calls mean: each converts its arguments and applies the member to the configuration.\<close>

fun config_calls :: "cfg_methods \<Rightarrow> nat \<Rightarrow> (string \<times> lval list) list \<Rightarrow> cfg \<Rightarrow> cfg \<Rightarrow> bool" where
  "config_calls ms p [] c c' \<longleftrightarrow> c' = c"
| "config_calls ms p ((key, args) # cs) c c' \<longleftrightarrow>
     (\<exists>tys f vs c1. map_of ms key = Some (tys, f) \<and> plain_args tys args vs \<and> f p vs c = Some (CVoid, c1) \<and> config_calls ms p cs c1 c')"

definition def_reg :: "string \<times> ctype list \<times> (nat \<Rightarrow> cval list \<Rightarrow> cfg \<Rightarrow> (cval \<times> cfg) option) \<Rightarrow> cfg reg" where
  "def_reg m = (case m of (name, tys, f) \<Rightarrow> Def 0 name Void_t tys f)"

lemma ConfigScript_regs:
  "ConfigScript socket ioctl p =
     steps (map reg_op (Add 0 ''Cfg'' # map def_reg (config_methods socket ioctl)) @ [set_lua ''cfg'' (Obj_t 0) (CPtr p)])"
proof -
  have "map (\<lambda>(name, tys, f). class_def 0 name Void_t tys f) ms = map reg_op (map def_reg ms)" for ms
    by (auto simp: def_reg_def)
  then show ?thesis unfolding ConfigScript_def by (simp only: list.map reg_op.simps append_Cons)
qed

definition as_member :: "ctype list \<times> (nat \<Rightarrow> cval list \<Rightarrow> cfg \<Rightarrow> (cval \<times> cfg) option) \<Rightarrow> cfg member" where
  "as_member m = M_fun Void_t 0 (fst m) (snd m)"

lemma spec_defs:
  assumes "e 0 = Some k" "distinct (map fst ms)"
  shows "\<exists>k'. spec_regs (map def_reg ms) e = e(0 \<mapsto> k') \<and> cl_name k' = cl_name k \<and> cl_parent k' = cl_parent k \<and>
    (\<forall>key. cl_members k' key = (case map_of ms key of Some m \<Rightarrow> Some (as_member m) | None \<Rightarrow> cl_members k key))"
  using assms
proof (induction ms arbitrary: e k)
  case (Cons m ms)
  obtain name tys f where m: "m = (name, tys, f)" by (cases m)
  let ?k = "k\<lparr>cl_members := (cl_members k)(name \<mapsto> M_fun Void_t 0 tys f)\<rparr>"
  have s: "spec_reg (def_reg m) e = e(0 \<mapsto> ?k)" using Cons.prems(1) by (simp add: m def_reg_def put_member_def)
  have n: "map_of ms name = None" using Cons.prems(2) by (simp add: m map_of_eq_None_iff)
  have "\<exists>k'. spec_regs (map def_reg ms) (e(0 \<mapsto> ?k)) = (e(0 \<mapsto> ?k))(0 \<mapsto> k') \<and> cl_name k' = cl_name ?k \<and> cl_parent k' = cl_parent ?k \<and>
      (\<forall>key. cl_members k' key = (case map_of ms key of Some m \<Rightarrow> Some (as_member m) | None \<Rightarrow> cl_members ?k key))"
    by (rule Cons.IH) (use Cons.prems(2) in simp_all)
  then obtain k' where k': "spec_regs (map def_reg ms) (e(0 \<mapsto> ?k)) = e(0 \<mapsto> k')" "cl_name k' = cl_name k" "cl_parent k' = cl_parent k"
    "\<forall>key. cl_members k' key = (case map_of ms key of Some m \<Rightarrow> Some (as_member m) | None \<Rightarrow> cl_members ?k key)"
    unfolding fun_upd_upd by (elim exE conjE) (rule that, simp_all)
  have "cl_members k' key = (case map_of (m # ms) key of Some m \<Rightarrow> Some (as_member m) | None \<Rightarrow> cl_members k key)" for key
    using k'(4) n by (simp add: m as_member_def split: option.split)
  then show ?case using k'(1-3) s by auto
next
  case Nil
  then have "e = e(0 \<mapsto> k)" by (simp add: fun_upd_idem)
  then show ?case by (intro exI [of _ k]) simp
qed

lemma defs_ok: "e 0 \<noteq> None \<Longrightarrow> \<forall>m\<in>set ms. fst m \<notin> reserved \<Longrightarrow> regs_ok (map def_reg ms) e"
  by (induction ms arbitrary: e) (auto simp: def_reg_def put_member_def split: prod.splits option.splits)

lemma def_reg_not_add: "Add c x \<notin> def_reg ` A"
  by (auto simp: def_reg_def split: prod.splits)

lemma config_methods_names:
  "distinct (map fst (config_methods socket ioctl))" "\<forall>m\<in>set (config_methods socket ioctl). fst m \<notin> reserved"
  by (simp_all add: config_methods_def reserved_def)

text \<open>The state of the interpreter in which the calls are made.\<close>

definition config_state :: "cfg_methods \<Rightarrow> nat \<Rightarrow> cfg tinker \<Rightarrow> bool" where
  "config_state ms p s \<longleftrightarrow> (\<exists>e u. rep e s \<and> raw_fields (l_globals s) s (LStr ''cfg'') = LUd u \<and> object_of s 0 p u \<and>
     raw_fields (l_globals s) s (LStr ''_ALERT'') = LNil \<and>
     (\<forall>key m. map_of ms key = Some m \<longrightarrow> key \<notin> reserved \<and> resolves e key 0 (Some (0, as_member m))) \<and>
     (\<forall>key. map_of ms key = None \<longrightarrow> resolves e key 0 None))"

lemma config_stateE:
  assumes "config_state ms p s"
  obtains e u where "rep e s" "raw_fields (l_globals s) s (LStr ''cfg'') = LUd u" "object_of s 0 p u"
    "raw_fields (l_globals s) s (LStr ''_ALERT'') = LNil"
    "\<forall>key m. map_of ms key = Some m \<longrightarrow> key \<notin> reserved \<and> resolves e key 0 (Some (0, as_member m))"
    "\<forall>key. map_of ms key = None \<longrightarrow> resolves e key 0 None"
  using assms unfolding config_state_def by blast

lemma config_state_world:
  assumes "config_state ms p s"
  shows "config_state ms p (s\<lparr>t_world := c1\<rparr>)"
proof -
  obtain e u where e: "rep e s" "raw_fields (l_globals s) s (LStr ''cfg'') = LUd u" "object_of s 0 p u"
    "raw_fields (l_globals s) s (LStr ''_ALERT'') = LNil"
    "\<forall>key m. map_of ms key = Some m \<longrightarrow> key \<notin> reserved \<and> resolves e key 0 (Some (0, as_member m))"
    "\<forall>key. map_of ms key = None \<longrightarrow> resolves e key 0 None"
    by (rule config_stateE [OF assms])
  have "rep e (s\<lparr>t_world := c1\<rparr>)" "object_of (s\<lparr>t_world := c1\<rparr>) 0 p u"
    "raw_fields (l_globals s) (s\<lparr>t_world := c1\<rparr>) x = raw_fields (l_globals s) s x" for x
    using e(1,3) rep_cong [of "s\<lparr>t_world := c1\<rparr>" s] by (simp_all add: object_of_def)
  then show ?thesis unfolding config_state_def using e(2,4-6) by (intro exI [of _ e] exI [of _ u]) simp
qed

lemma config_state_call:
  assumes "config_state ms p s" "map_of ms key = Some (tys, f)" "plain_args tys args vs" "f p vs (t_world s) = Some (CVoid, c1)"
  shows "cfg_call (key, args) s = Some (Done () (s\<lparr>t_world := c1\<rparr>))"
proof -
  obtain e u where e: "rep e s" "raw_fields (l_globals s) s (LStr ''cfg'') = LUd u" "object_of s 0 p u"
    "\<forall>key m. map_of ms key = Some m \<longrightarrow> key \<notin> reserved \<and> resolves e key 0 (Some (0, as_member m))"
    by (rule config_stateE [OF assms(1)]) blast
  then have key: "key \<notin> reserved" "resolves e key 0 (Some (0, M_fun Void_t 0 tys f))"
    using e(4) assms(2) by (auto simp: as_member_def)
  have "script_method u key args s = Some (Done [] (s\<lparr>t_world := c1\<rparr>))"
    by (rule method_runs [OF e(1) key e(3) assms(3,4)]) (simp add: plain_value_def)
  then show ?thesis using e(2) by (simp add: cfg_call_def bindL_def retL_def)
qed

lemma config_calls_run:
  assumes "config_state ms p s" "config_calls ms p cs (t_world s) c'"
  shows "steps (map cfg_call cs @ rest) s = steps rest (s\<lparr>t_world := c'\<rparr>)"
  using assms
proof (induction cs arbitrary: s)
  case (Cons c cs)
  obtain key args where c: "c = (key, args)" by (cases c)
  then obtain tys f vs c1 where f: "map_of ms key = Some (tys, f)" "plain_args tys args vs" "f p vs (t_world s) = Some (CVoid, c1)"
    "config_calls ms p cs c1 c'" using Cons.prems(2) by auto
  then show ?case using config_state_call [OF Cons.prems(1) f(1-3)] config_state_world [OF Cons.prems(1)]
      Cons.IH [of "s\<lparr>t_world := c1\<rparr>"] by (simp add: c steps_exec)
qed simp

text \<open>A call of something that is no member of the configuration raises an error.\<close>

lemma config_state_missing:
  assumes "config_state ms p s" "map_of ms key = None" "key \<notin> reserved"
  shows "\<exists>st. cfg_call (key, args) s = Some (Raised (LStr (missing_text (Some key))) (s\<lparr>l_stack := st, l_up := []\<rparr>))"
proof -
  obtain e u where e: "rep e s" "raw_fields (l_globals s) s (LStr ''cfg'') = LUd u" "object_of s 0 p u"
    "\<forall>key. map_of ms key = None \<longrightarrow> resolves e key 0 None"
    by (rule config_stateE [OF assms(1)]) blast
  have res: "resolves e key 0 None" using e(4) assms(2) by blast
  then obtain k where "e 0 = Some k" "cl_members k key = None" by (auto elim: resolvesE)
  from script_get_missing [OF e(1) assms(3) this res e(3)] obtain st where
    "script_get u (LStr key) s = Some (Raised (LStr (missing_text (Some key))) (s\<lparr>l_stack := st, l_up := []\<rparr>))" by blast
  then show ?thesis using e(2) by (auto simp: cfg_call_def script_method_def bindL_def)
qed

lemma ConfigScript_state:
  assumes "t_meta (l_tab s (l_globals s)) = None" "l_globals s < l_next s" "p \<noteq> 0"
    and "raw_fields (l_globals s) s (LStr ''_ALERT'') = LNil"
  shows "\<exists>s'. ConfigScript socket ioctl p s = Some (Done () s') \<and> same_view s s' \<and> config_state (config_methods socket ioctl) p s'"
proof -
  let ?ms = "config_methods socket ioctl" let ?k = "\<lparr>cl_name = ''Cfg'', cl_parent = None, cl_members = \<lambda>_. None\<rparr>"
  let ?e = "(\<lambda>_. None)(0 \<mapsto> ?k) :: cfg env" let ?rs = "Add 0 ''Cfg'' # map def_reg ?ms"
  obtain k where k: "spec_regs (map def_reg ?ms) ?e = ?e(0 \<mapsto> k)" "cl_name k = ''Cfg''" "cl_parent k = None"
    "\<forall>key. cl_members k key = (case map_of ?ms key of Some m \<Rightarrow> Some (as_member m) | None \<Rightarrow> None)"
    using spec_defs [of ?e ?k ?ms] config_methods_names(1) by (auto cong: option.case_cong)
  have sp: "spec_regs ?rs (\<lambda>_. None) = (\<lambda>_. None)(0 \<mapsto> k)" using k(1) by simp
  have ok: "regs_ok ?rs (\<lambda>_. None)" using defs_ok [of ?e ?ms] config_methods_names(2) by simp
  then obtain s1 where s1: "steps (map reg_op ?rs) s = Some (Done () s1)" "rep ((\<lambda>_. None)(0 \<mapsto> k)) s1" "same_view s s1"
    using regs_rep [OF rep_start [OF assms(1,2)], where rs = ?rs] sp by auto
  have a: "raw_fields (l_globals s) s1 (LStr ''_ALERT'') = LNil"
    using regs_global [OF rep_start [OF assms(1,2)] ok _ s1(1), of "''_ALERT''"] assms(4) by (simp add: def_reg_not_add)
  have fresh: "\<forall>d l. ((\<lambda>_. None)(0 \<mapsto> k)) d = Some l \<longrightarrow> cl_name l \<noteq> ''cfg''" using k(2) by (auto split: if_splits)
  obtain s2 u where s2: "set_lua ''cfg'' (Obj_t 0) (CPtr p) s1 = Some (Done () s2)" "rep ((\<lambda>_. None)(0 \<mapsto> k)) s2" "same_view s1 s2"
      "raw_fields (l_globals s2) s2 (LStr ''cfg'') = LUd u" "object_of s2 0 p u"
      "\<forall>y. y \<noteq> ''cfg'' \<longrightarrow> raw_fields (l_globals s2) s2 (LStr y) = raw_fields (l_globals s1) s1 (LStr y)"
    using set_object [OF s1(2) fun_upd_same fresh assms(3)] by blast
  have c: "ConfigScript socket ioctl p s = Some (Done () s2)"
    unfolding ConfigScript_regs steps_append [OF s1(1)] using s2(1) by (simp add: steps_exec)
  have "key \<notin> reserved \<and> resolves ((\<lambda>_. None)(0 \<mapsto> k)) key 0 (Some (0, as_member m))" if "map_of ?ms key = Some m" for key m
  proof
    show "key \<notin> reserved" using config_methods_names(2) map_of_SomeD [OF that] by fastforce
    show "resolves ((\<lambda>_. None)(0 \<mapsto> k)) key 0 (Some (0, as_member m))" using k(4) that by (intro resolves.own [where k = k]) (simp_all cong: option.case_cong)
  qed
  moreover have "resolves ((\<lambda>_. None)(0 \<mapsto> k)) key 0 None" if "map_of ?ms key = None" for key
    using k(3,4) that by (intro resolves.none [where k = k]) (simp_all cong: option.case_cong)
  moreover have "raw_fields (l_globals s2) s2 (LStr ''_ALERT'') = LNil" using s2(6) a s1(3) by (simp add: same_view_def)
  ultimately have "config_state ?ms p s2" unfolding config_state_def using s2(2,4,5) by blast
  moreover have "same_view s s2" by (rule same_view_simps(2) [OF s1(3) s2(3)])
  ultimately show ?thesis using c by blast
qed

section \<open>Loading the configuration\<close>

text \<open>
  What opening an interpreter gives: an empty stack, a table of globals without a metatable; the
  program's own state is not touched. The compiler makes a function of the file and runs nothing.
\<close>

definition opens :: "(cfg tinker \<Rightarrow> cfg tinker) \<Rightarrow> (cfg, unit) tk \<Rightarrow> cfg tinker \<Rightarrow> bool" where
  "opens lua_open luaL_openlibs s \<longleftrightarrow>
     (\<exists>s1. luaL_openlibs (lua_open s) = Some (Done () s1) \<and> l_stack s1 = [] \<and> l_up s1 = [] \<and>
        t_meta (l_tab s1 (l_globals s1)) = None \<and> l_globals s1 < l_next s1 \<and> t_world s1 = t_world s \<and> t_log s1 = t_log s \<and>
        raw_fields (l_globals s1) s1 (LStr ''cfg'') = LNil \<and> raw_fields (l_globals s1) s1 (LStr ''_ALERT'') = LNil)"

definition compiles :: "(string \<Rightarrow> (cfg, bool \<times> lval) tk) \<Rightarrow> string \<Rightarrow> nat \<Rightarrow> bool" where
  "compiles luaL_loadfile fn n \<longleftrightarrow>
     (\<forall>s. luaL_loadfile fn s = Some (Done (True, LFun (l_next s)) (s\<lparr>l_next := l_next s + 1, l_fun := (l_fun s)(l_next s := (Script n, []))\<rparr>)))"

text \<open>The interpreter runs the function \<open>n\<close> of the script, which makes these calls.\<close>

definition runs_calls :: "cfg runner \<Rightarrow> nat \<Rightarrow> (string \<times> lval list) list \<Rightarrow> bool" where
  "runs_calls run n calls \<longleftrightarrow>
     (\<forall>s g. l_fun s g = (Script n, []) \<longrightarrow> run (LFun g) [] s = bindL (steps (map cfg_call calls)) (\<lambda>_. retL []) s)"

definition chunk_state :: "nat \<Rightarrow> 'w tinker \<Rightarrow> 'w tinker" where
  "chunk_state n s = (handler_pushed s)\<lparr>l_next := l_next s + 2, l_fun := (l_fun s)(l_next s := (On_error, []), l_next s + 1 := (Script n, []))\<rparr>"

lemma compiles_chunk:
  assumes "compiles luaL_loadfile fn n"
  shows "luaL_loadfile fn (handler_pushed s) = Some (Done (True, LFun (l_next s + 1)) (chunk_state n s))"
  using assms by (simp add: compiles_def handler_pushed_def chunk_state_def)

lemma rep_mono:
  assumes r: "rep e s" and old: "l_next s \<le> l_next s'" "\<And>x. x < l_next s \<Longrightarrow> l_fun s' x = l_fun s x \<and> l_ud s' x = l_ud s x"
    "l_tab s' = l_tab s" "l_globals s' = l_globals s" "t_names s' = t_names s"
  shows "rep e s'"
proof -
  have f: "raw_fields a s' = raw_fields a s" for a using old by (simp add: raw_fields_def fun_eq_iff)
  have t: "tab_of s' = tab_of s" using f old by (simp add: tab_of_def fun_eq_iff)
  have "class_table s' k a" if "class_table s k a" for k a
    using that old f t by (auto simp: class_table_def intro: is_code_mono represents_mono split: option.splits)
  then show ?thesis using r old f t unfolding rep_def by auto
qed

lemma config_state_chunk:
  assumes "config_state ms p s"
  shows "config_state ms p (chunk_state n s)"
proof -
  obtain e u where e: "rep e s" "raw_fields (l_globals s) s (LStr ''cfg'') = LUd u" "object_of s 0 p u"
    "raw_fields (l_globals s) s (LStr ''_ALERT'') = LNil"
    "\<forall>key m. map_of ms key = Some m \<longrightarrow> key \<notin> reserved \<and> resolves e key 0 (Some (0, as_member m))"
    "\<forall>key. map_of ms key = None \<longrightarrow> resolves e key 0 None"
    by (rule config_stateE [OF assms])
  have same: "l_tab (chunk_state n s) = l_tab s" "l_globals (chunk_state n s) = l_globals s" "t_names (chunk_state n s) = t_names s"
      "l_ud (chunk_state n s) = l_ud s"
    by (simp_all add: chunk_state_def handler_pushed_def)
  have "rep e (chunk_state n s)" by (rule rep_mono [OF e(1)]) (simp_all add: chunk_state_def handler_pushed_def)
  moreover have "tab_of (chunk_state n s) = tab_of s" using same by (simp add: tab_of_def raw_fields_def fun_eq_iff)
  then have "object_of (chunk_state n s) 0 p u" using e(3) same by (simp add: object_of_def)
  moreover have "raw_fields (l_globals s) (chunk_state n s) x = raw_fields (l_globals s) s x" for x
    using same by (simp add: raw_fields_def)
  ultimately show ?thesis
    unfolding config_state_def using e(2,4-6) same(2) by (intro exI [of _ e] exI [of _ u]) simp
qed

section \<open>What a configuration script says\<close>

text \<open>
  The settings a script can make on \<^verbatim>\<open>cfg\<close>: the types of their arguments, and the parts of the configuration
  that they change. This is written from the names; nothing of the registration is used.
\<close>

definition setting_params :: "string \<Rightarrow> ctype list option" where
  "setting_params key =
     (if key \<in> {''setServerType'', ''setServerUID''} then Some [Int_t False 8]
      else if key = ''setTcpPort'' then Some [Int_t False 16]
      else if key \<in> {''setServerLogName'', ''setServerDllName'', ''setScriptPath'', ''setIfName''} then Some [Cstr_t]
      else if key = ''addConnectList'' then Some [Int_t False 8, Int_t False 8, Cstr_t, Int_t False 16]
      else if key = ''setDatabase'' then Some [Cstr_t, Int_t False 16, Cstr_t, Cstr_t, Cstr_t]
      else if key = ''setArenaServer'' then Some [Cstr_t, Int_t False 16]
      else None)"

inductive setting :: "bool \<Rightarrow> (string \<Rightarrow> u32 option) \<Rightarrow> string \<Rightarrow> cval list \<Rightarrow> cfg \<Rightarrow> cfg \<Rightarrow> bool" for socket ioctl where
  "setting socket ioctl ''setServerType'' [CInt x] c (c\<lparr>serverType := word_of_int x\<rparr>)"
| "setting socket ioctl ''setServerUID'' [CInt x] c (c\<lparr>serverUID := word_of_int x\<rparr>)"
| "setting socket ioctl ''setTcpPort'' [CInt x] c (c\<lparr>tcpPort := word_of_int x\<rparr>)"
| "setting socket ioctl ''setServerLogName'' [CStr (Some t)] c (c\<lparr>serverLogName := c_str t\<rparr>)"
| "setting socket ioctl ''setServerDllName'' [CStr (Some t)] c (c\<lparr>serverDllName := c_str t\<rparr>)"
| "setting socket ioctl ''setScriptPath'' [CStr (Some t)] c (c\<lparr>scriptPath := c_str t\<rparr>)"
| "n = (case t of None \<Rightarrow> ''eth0'' | Some x \<Rightarrow> c_str x) \<Longrightarrow>
   c' = (if socket then c\<lparr>ifName := n, open_sockets := open_sockets c + 1,
                           serverIp := (case ioctl (ifr_name n) of None \<Rightarrow> serverIp c | Some a \<Rightarrow> a)\<rparr>
         else c\<lparr>ifName := n\<rparr>) \<Longrightarrow>
   setting socket ioctl ''setIfName'' [CStr t] c c'"
| "setting socket ioctl ''addConnectList'' [CInt ty, CInt uid, CStr (Some host), CInt port] c
     (c\<lparr>serverConnectList := serverConnectList c @ [(word_of_int ty, word_of_int uid, c_str host, word_of_int port)]\<rparr>)"
| "setting socket ioctl ''setDatabase'' [CStr (Some host), CInt port, CStr (Some user), CStr (Some pw), CStr (Some source)] c
     (c\<lparr>dbHost := c_str host, dbPort := word_of_int port, dbUser := c_str user, dbPassword := c_str pw, dbSource := c_str source\<rparr>)"
| "setting socket ioctl ''setArenaServer'' [CStr (Some host), CInt port] c (c\<lparr>arenaHost := c_str host, arenaPort := word_of_int port\<rparr>)"

inductive settings :: "bool \<Rightarrow> (string \<Rightarrow> u32 option) \<Rightarrow> (string \<times> lval list) list \<Rightarrow> cfg \<Rightarrow> cfg \<Rightarrow> bool" for socket ioctl where
  nothing: "settings socket ioctl [] c c"
| call: "setting_params key = Some tys \<Longrightarrow> plain_args tys args vs \<Longrightarrow> setting socket ioctl key vs c c1 \<Longrightarrow>
    settings socket ioctl cs c1 c' \<Longrightarrow> settings socket ioctl ((key, args) # cs) c c'"

text \<open>The registered members are these settings.\<close>

lemma member_is_setting:
  assumes "setting socket ioctl key vs c c1"
  shows "\<exists>tys f. setting_params key = Some tys \<and> map_of (config_methods socket ioctl) key = Some (tys, f) \<and> f p vs c = Some (CVoid, c1)"
  using assms
proof (cases rule: setting.cases)
  case (7 n t)
  then show ?thesis
    by (simp add: setting_params_def config_methods_def call_setIfName_def setIfName_def Let_def split: option.splits)
qed (simp_all add: setting_params_def config_methods_def UInt8_t_def UInt16_t_def with_int_def with_text_def
    call_addConnectList_def call_setDatabase_def call_setArenaServer_def setServerType_def setServerUID_def setTcpPort_def
    setServerLogName_def setServerDllName_def setScriptPath_def addConnectList_def setDatabase_def setArenaServer_def)

lemma settings_calls: "settings socket ioctl cs c c' \<Longrightarrow> config_calls (config_methods socket ioctl) p cs c c'"
proof (induction rule: settings.induct)
  case (call key tys args vs c c1 cs c')
  from member_is_setting [OF call(3), of p] call(1,2,5) show ?case by auto
qed simp

lemma no_setting: "setting_params key = None \<Longrightarrow> map_of (config_methods socket ioctl) key = None"
  by (simp add: setting_params_def config_methods_def split: if_splits)

lemma log_same: "t_log s = l \<Longrightarrow> s\<lparr>t_log := l\<rparr> = s"
  by simp

text \<open>
  C14: Loading a configuration file into a process whose script path is not set yet, as at its start: the settings that
  the file makes on \<^verbatim>\<open>cfg\<close> change what their names say, one after the other, with the
  arguments converted to the types of the setting. If the file then calls something that is no setting, this
  is logged and the rest of it is skipped; what was set before stays. In both cases the name of the file is
  remembered. (The file is a list of such calls with convertible arguments, the compiler accepts it.)
\<close>

theorem configuration_loaded:
  assumes "opens lua_open luaL_openlibs s" "scriptPath (t_world s) = []" "p \<noteq> 0"
    and "fn = (case scriptStr of Some x \<Rightarrow> x | None \<Rightarrow> c_str (c_filename (t_world s)))"
    and "compiles luaL_loadfile fn n" "runs_calls run n (calls @ rest)"
    and "settings socket ioctl calls (t_world s) c'"
    and "rest = [] \<and> lines = [] \<or> (\<exists>key args more. rest = (key, args) # more \<and> setting_params key = None \<and> key \<notin> reserved \<and>
      lines = missing_text (Some key) # trace)" "list_all (\<lambda>t. length t < 4096) lines"
  shows "\<exists>s'. Cfg_load lua_open luaL_openlibs run trace luaL_loadfile socket ioctl p scriptStr s = Some (Done fn s') \<and>
    t_world s' = c' \<and> l_stack s' = [] \<and> t_log s' = t_log s @ lines"
proof -
  obtain s1 where s1: "luaL_openlibs (lua_open s) = Some (Done () s1)" "l_stack s1 = []" "l_up s1 = []"
      "t_meta (l_tab s1 (l_globals s1)) = None" "l_globals s1 < l_next s1" "t_world s1 = t_world s" "t_log s1 = t_log s"
      "raw_fields (l_globals s1) s1 (LStr ''_ALERT'') = LNil"
    using assms(1) by (auto simp: opens_def)
  have "addPackagePath s1 = Some (Done () s1)" using assms(2) s1(6) by (simp add: addPackagePath_def retL_def)
  then have n: "Script_new lua_open luaL_openlibs s = Some (Done () s1)" using s1(1) by (simp add: Script_new_def modL_def steps_exec)
  obtain s2 where s2: "ConfigScript socket ioctl p s1 = Some (Done () s2)" "same_view s1 s2" "config_state (config_methods socket ioctl) p s2"
    using ConfigScript_state [OF s1(4,5) assms(3) s1(8)] by blast
  have v: "l_stack s2 = []" "l_up s2 = []" "t_world s2 = t_world s" "t_log s2 = t_log s" using s2(2) s1 by (simp_all add: same_view_def)
  let ?s3 = "chunk_state n s2" let ?g = "l_next s2 + 1" let ?s4 = "?s3\<lparr>t_world := c'\<rparr>"
  have w: "t_world ?s3 = t_world s" by (simp add: chunk_state_def handler_pushed_def v)
  note cs3 = config_state_chunk [OF s2(3), of n]
  have "l_fun ?s3 ?g = (Script n, [])" by (simp add: chunk_state_def handler_pushed_def)
  then have "run (LFun ?g) [] ?s3 = bindL (steps (map cfg_call (calls @ rest))) (\<lambda>_. retL []) ?s3" using assms(6) by (simp add: runs_calls_def)
  also have "\<dots> = bindL (steps (map cfg_call rest)) (\<lambda>_. retL []) ?s4"
    using config_calls_run [OF cs3, of calls c' "map cfg_call rest"] settings_calls [OF assms(7)] w by (simp add: bindL_def)
  finally have r: "run (LFun ?g) [] ?s3 = bindL (steps (map cfg_call rest)) (\<lambda>_. retL []) ?s4" .
  have "\<exists>b. run_chunk run trace (luaL_loadfile fn) s2 = Some (Done b (?s4\<lparr>l_stack := l_stack s2, l_up := l_up s2, t_log := t_log s2 @ lines\<rparr>))"
    using assms(8)
  proof (elim disjE conjE exE)
    assume "rest = []" "lines = []"
    then have "run (LFun ?g) [] ?s3 = Some (Done [] ?s4)" using r by (simp add: steps_exec bindL_def retL_def)
    then have "run_chunk run trace (luaL_loadfile fn) s2 = Some (Done True (?s4\<lparr>l_stack := l_stack s2, l_up := l_up s2\<rparr>))"
      using run_chunk_done [of "luaL_loadfile fn" s2 ?g ?s3 run "[]" ?s4 trace] compiles_chunk [OF assms(5), of s2]
      by (simp add: chunk_state_def handler_pushed_def)
    moreover have "?s4\<lparr>l_stack := l_stack s2, l_up := l_up s2, t_log := t_log s2 @ lines\<rparr> = ?s4\<lparr>l_stack := l_stack s2, l_up := l_up s2\<rparr>"
      by (rule log_same) (simp add: chunk_state_def handler_pushed_def \<open>lines = []\<close>)
    ultimately show ?thesis by metis
  next
    fix key args more assume k: "rest = (key, args) # more" "setting_params key = None" "key \<notin> reserved" "lines = missing_text (Some key) # trace"
    obtain st where "cfg_call (key, args) ?s4 = Some (Raised (LStr (missing_text (Some key))) (?s4\<lparr>l_stack := st, l_up := []\<rparr>))"
      using config_state_missing [OF config_state_world [OF cs3] no_setting [OF k(2)] k(3)] by blast
    then have "run (LFun ?g) [] ?s3 = Some (Raised (LStr (missing_text (Some key))) (?s4\<lparr>l_stack := st, l_up := []\<rparr>))"
      using r k(1) by (simp add: steps.simps bindL_def)
    moreover obtain e u where "rep e ?s3" "raw_fields (l_globals ?s3) ?s3 (LStr ''_ALERT'') = LNil"
      by (rule config_stateE [OF cs3]) blast
    ultimately show ?thesis
      using run_chunk_raised [of "luaL_loadfile fn" s2 ?g ?s3 run "missing_text (Some key)" "?s4\<lparr>l_stack := st, l_up := []\<rparr>" trace]
        compiles_chunk [OF assms(5), of s2] assms(9) k(4)
      by (auto simp: chunk_state_def handler_pushed_def raw_fields_def rep_def)
  qed
  then obtain b where "run_chunk run trace (luaL_loadfile fn) s2 = Some (Done b (?s4\<lparr>l_stack := l_stack s2, l_up := l_up s2, t_log := t_log s2 @ lines\<rparr>))"
    by blast
  then have "Script_doFile run trace luaL_loadfile fn s2 = Some (Done fn (?s4\<lparr>l_stack := l_stack s2, l_up := l_up s2, t_log := t_log s2 @ lines\<rparr>))"
    by (simp add: Script_doFile_def dofile_def bindL_def retL_def)
  then show ?thesis using n s2(1) v assms(4) by (simp add: Cfg_load_def bindL_def steps_exec split: option.splits)
qed

text \<open>
  C40: A script that is loaded again is loaded into an interpreter in which the class and the object of
  the configuration are not registered any more, as the constructor does that and not \<^verbatim>\<open>init\<close>: its
  first call fails, which is logged, and the configuration stays as it was.
\<close>

theorem reload_forgets_registrations:
  assumes "opens lua_open luaL_openlibs s" "scriptPath (t_world s) = []" "compiles luaL_loadfile fn n" "runs_calls run n (call # calls)"
    and "list_all (\<lambda>t. length t < 4096) trace"
  shows "\<exists>s'. Script_reload lua_open luaL_openlibs run trace luaL_loadfile fn s = Some (Done () s') \<and>
    t_world s' = t_world s \<and> t_log s' = t_log s @ ''attempt to index global cfg'' # trace"
proof -
  obtain s1 where s1: "luaL_openlibs (lua_open s) = Some (Done () s1)" "l_stack s1 = []" "l_up s1 = []"
      "t_meta (l_tab s1 (l_globals s1)) = None" "t_world s1 = t_world s" "t_log s1 = t_log s"
      "raw_fields (l_globals s1) s1 (LStr ''cfg'') = LNil" "raw_fields (l_globals s1) s1 (LStr ''_ALERT'') = LNil"
    using assms(1) by (auto simp: opens_def)
  have "addPackagePath s1 = Some (Done () s1)" using assms(2) s1(5) by (simp add: addPackagePath_def retL_def)
  then have n: "steps [modL lua_open, luaL_openlibs, addPackagePath] s = Some (Done () s1)" using s1(1) by (simp add: modL_def steps_exec)
  let ?s3 = "chunk_state n s1" let ?g = "l_next s1 + 1" let ?msg = "''attempt to index global cfg''"
  have c: "cfg_call call ?s3 = Some (Raised (LStr ?msg) ?s3)"
    using s1(7) by (simp add: cfg_call_def chunk_state_def handler_pushed_def raw_fields_def)
  have "l_fun ?s3 ?g = (Script n, [])" by (simp add: chunk_state_def handler_pushed_def)
  then have r: "run (LFun ?g) [] ?s3 = Some (Raised (LStr ?msg) ?s3)" using assms(4) c by (simp add: runs_calls_def bindL_def steps.simps)
  have "run_chunk run trace (luaL_loadfile fn) s1 =
      Some (Done False (?s3\<lparr>l_stack := l_stack s1, l_up := l_up s1, t_log := t_log ?s3 @ ?msg # trace\<rparr>))"
    using run_chunk_raised [of "luaL_loadfile fn" s1 ?g ?s3 run] compiles_chunk [OF assms(3), of s1] r assms(5) s1(4,8)
    by (simp add: chunk_state_def handler_pushed_def raw_fields_def)
  then show ?thesis using n s1(5,6)
    by (simp add: Script_reload_def dofile_def bindL_def retL_def chunk_state_def handler_pushed_def)
qed

section \<open>The search path\<close>

text \<open>
  A new interpreter with a script path looks for modules there after the places it knows, and nothing
  is left on its stack.
\<close>

theorem package_path_extended:
  assumes g: "t_meta (l_tab s (l_globals s)) = None" "raw_fields (l_globals s) s (LStr ''package'') = LTab a"
    and a: "t_meta (l_tab s a) = None" "raw_fields a s (LStr ''path'') = LStr x" and sp: "scriptPath (t_world s) = sp" "sp \<noteq> []"
  shows "\<exists>s'. addPackagePath s = Some (Done () s') \<and> l_stack s' = l_stack s \<and> t_objs s' = (t_objs s)(t_nobj s := None) \<and>
    l_tab s' = l_tab (set_field a (LStr ''path'') (LStr (c_str (c_str x @ '';'' @ sp @ ''?.lua;'' @ sp @ ''?/init.lua''))) s)"
proof -
  let ?t = "t_nobj s" let ?st = "l_stack s"
  let ?ob = "\<lparr>m_index = int (Suc (length ?st)), m_pointer = Some (LTab a), m_ref = 1\<rparr>"
  let ?s1 = "s\<lparr>l_stack := LTab a # ?st, t_nobj := t_nobj s + 1, t_objs := (t_objs s)(?t \<mapsto> ?ob)\<rparr>"
  let ?path = "c_str (c_str x @ '';'' @ sp @ ''?.lua'' @ '';'' @ sp @ ''?/init.lua'')"
  let ?s2 = "set_field a (LStr ''path'') (LStr ?path) ?s1"
  have new: "get_lua Table_t ''package'' s = Some (Done (CTable ?t) ?s1)"
    using g by (simp add: get_lua_def pop_lua_def table_at_def table_obj_def inc_ref_def lua_topointer_def Let_def lua_exec)
  have l: "lies ?t a ?st ?s1" by (auto simp: lies_def)
  have get: "get_name ?t ''path'' Cstr_t ?s1 = Some (Done (CStr (Some x)) ?s1)" unfolding get_name_def
    by (rule table_get_lies [OF l _ pushes_key(2)]) (use a in \<open>simp_all add: plain_arg_def raw_fields_def\<close>)
  have set: "set_name ?t ''path'' Cstr_t (CStr (Some ?path)) ?s1 = Some (Done () ?s2)" unfolding set_name_def
    by (rule table_set_lies [OF l _ pushes_key(2)]) (use a in \<open>simp_all add: plain_value_def\<close>)
  have d: "table_destroy ?t ?s2 = Some (Done () (?s2\<lparr>t_objs := (t_objs ?s2)(?t := None), l_stack := [] @ ?st\<rparr>))"
    by (rule table_destroy_lies [where a = a]) (simp_all add: set_field_def)
  have "addPackagePath s = table_destroy ?t ?s2"
    using sp new get set by (simp add: addPackagePath_def bindL_def)
  then show ?thesis using d by (simp add: set_field_def)
qed

section \<open>An example\<close>

definition ex_open :: "cfg tinker \<Rightarrow> cfg tinker" where
  "ex_open s = (ex_lua (t_world s))\<lparr>t_log := t_log s\<rparr>"

definition ex_load :: "string \<Rightarrow> (cfg, bool \<times> lval) tk" where
  "ex_load fn s = Some (Done (True, LFun (l_next s)) (s\<lparr>l_next := l_next s + 1, l_fun := (l_fun s)(l_next s := (Script 1, []))\<rparr>))"

definition ex_calls :: "(string \<times> lval list) list" where
  "ex_calls = [(''setTcpPort'', [LNum 8103]), (''setServerType'', [LNum 0]),
     (''addConnectList'', [LNum 5, LNum 1, LStr ''127.0.0.1'', LNum 8102])]"

definition ex_run :: "cfg runner" where
  "ex_run f args s =
     (case f of
        LFun g \<Rightarrow> (case l_fun s g of (Script _, []) \<Rightarrow> bindL (steps (map cfg_call ex_calls)) (\<lambda>_. retL []) s | _ \<Rightarrow> None)
      | _ \<Rightarrow> None)"

lemma ex_script_facts: "opens ex_open (retL ()) s" "compiles ex_load fn 1" "runs_calls ex_run 1 ex_calls"
  by (simp_all add: opens_def ex_open_def ex_lua_def retL_def raw_fields_def compiles_def ex_load_def runs_calls_def ex_run_def)

lemma ex_int: "0 \<le> x \<Longrightarrow> x < 2 ^ n \<Longrightarrow> plain_arg (Int_t False n) (LNum (of_int x)) (CInt x)"
  by (simp add: plain_arg_def cast_int_def in_range_def)

lemma ex_settings:
  "settings True ioctl ex_calls c (addConnectList 5 1 ''127.0.0.1'' 8102 (setServerType 0 (setTcpPort 8103 c)))"
proof -
  have "plain_arg (Int_t False 16) (LNum 8103) (CInt 8103)" "plain_arg (Int_t False 8) (LNum 0) (CInt 0)"
    "plain_arg (Int_t False 8) (LNum 5) (CInt 5)" "plain_arg (Int_t False 8) (LNum 1) (CInt 1)"
    "plain_arg (Int_t False 16) (LNum 8102) (CInt 8102)" "plain_arg Cstr_t (LStr ''127.0.0.1'') (CStr (Some ''127.0.0.1''))"
    using ex_int [of 8103 16] ex_int [of 0 8] ex_int [of 5 8] ex_int [of 1 8] ex_int [of 8102 16] by (simp_all add: plain_arg_def)
  then have args: "plain_args [Int_t False 16] [LNum 8103] [CInt 8103]" "plain_args [Int_t False 8] [LNum 0] [CInt 0]"
    "plain_args [Int_t False 8, Int_t False 8, Cstr_t, Int_t False 16] [LNum 5, LNum 1, LStr ''127.0.0.1'', LNum 8102]
       [CInt 5, CInt 1, CStr (Some ''127.0.0.1''), CInt 8102]"
    by simp_all
  let ?c1 = "c\<lparr>tcpPort := word_of_int 8103\<rparr>" let ?c2 = "?c1\<lparr>serverType := word_of_int 0\<rparr>"
  have "settings True ioctl ex_calls c
      (?c2\<lparr>serverConnectList := serverConnectList ?c2 @ [(word_of_int 5, word_of_int 1, c_str ''127.0.0.1'', word_of_int 8102)]\<rparr>)"
    unfolding ex_calls_def
    by (rule settings.call [OF _ args(1) setting.intros(3)], simp add: setting_params_def,
        rule settings.call [OF _ args(2) setting.intros(1)], simp add: setting_params_def,
        rule settings.call [OF _ args(3) setting.intros(8) settings.nothing]) (simp add: setting_params_def)
  then show ?thesis by (simp add: addConnectList_def setServerType_def setTcpPort_def c_str_def)
qed

theorem configuration_loaded_witness:
  "\<exists>s'. Cfg_load ex_open (retL ()) ex_run [] ex_load True (\<lambda>_. None) 7 None (ex_lua (Cfg 9 9)) = Some (Done ''conf/config_game.lua'' s') \<and>
    t_world s' = addConnectList 5 1 ''127.0.0.1'' 8102 (setServerType 0 (setTcpPort 8103 (Cfg 9 9)))"
proof -
  have c: "compiles ex_load ''conf/config_game.lua'' 1" "runs_calls ex_run 1 (ex_calls @ [])" using ex_script_facts by simp_all
  have "\<exists>s'. Cfg_load ex_open (retL ()) ex_run [] ex_load True (\<lambda>_. None) 7 None (ex_lua (Cfg 9 9)) = Some (Done ''conf/config_game.lua'' s') \<and>
    t_world s' = addConnectList 5 1 ''127.0.0.1'' 8102 (setServerType 0 (setTcpPort 8103 (Cfg 9 9))) \<and> l_stack s' = [] \<and>
    t_log s' = t_log (ex_lua (Cfg 9 9)) @ []"
    by (rule configuration_loaded [OF ex_script_facts(1) _ _ _ c])
      (use ex_settings in \<open>simp_all add: ex_lua_def Cfg_def c_str_def\<close>)
  then show ?thesis by blast
qed

theorem reload_forgets_registrations_witness:
  "\<exists>s'. Script_reload ex_open (retL ()) ex_run [] ex_load ''conf/config_game.lua'' (ex_lua (Cfg 9 9)) = Some (Done () s') \<and>
    t_world s' = Cfg 9 9 \<and> t_log s' = [''attempt to index global cfg'']"
proof -
  have "t_world (ex_lua (Cfg 9 9)) = Cfg 9 9" "t_log (ex_lua (Cfg 9 9)) = []" "scriptPath (Cfg 9 9) = []" by (simp_all add: ex_lua_def Cfg_def)
  then show ?thesis
    using reload_forgets_registrations [OF ex_script_facts(1) _ ex_script_facts(2) ex_script_facts(3) [unfolded ex_calls_def], of "ex_lua (Cfg 9 9)" "[]"]
    by auto
qed

end
