(* ===== verification/Process_Env.thy ===== *)
theory Process_Env
  imports String_Util
begin

text \<open>
  \<^verbatim>\<open>Common/Environment*\<close>: environment variables. The environment of the process is a list of pointers to
  texts \<^verbatim>\<open>NAME=VALUE\<close>, and \<^verbatim>\<open>putenv\<close> puts the caller's own pointer into it: here the buffer of a string
  in \<^verbatim>\<open>_map\<close>. Buffers are addresses of a heap; \<open>grow\<close> is the capacity a string takes when it
  needs a larger buffer, and \<open>ok\<close> whether \<^verbatim>\<open>putenv\<close> finds memory. Reading a freed buffer is \<open>None\<close>.
\<close>

section \<open>State\<close>

datatype env_error = EnvNotFound string | EnvSystem string

record penv =
  en_heap :: "nat \<Rightarrow> string option"
  en_map :: "string \<Rightarrow> (nat \<times> nat) option"
  en_environ :: "nat list"
  en_next :: nat

text \<open>The capacity of an empty string.\<close>

definition SSO :: nat where "SSO = 15"

section \<open>The C library\<close>

definition env_match :: "string \<Rightarrow> string \<Rightarrow> bool" where
  "env_match name entry \<longleftrightarrow> take (length name) entry = name \<and> length name < length entry \<and> entry ! length name = CHR ''=''"

text \<open>The position of the first entry of this name.\<close>

fun env_find :: "(nat \<Rightarrow> string option) \<Rightarrow> string \<Rightarrow> nat list \<Rightarrow> nat option option" where
  "env_find h name [] = Some None"
| "env_find h name (a # as) =
     (case h a of
        None \<Rightarrow> None
      | Some e \<Rightarrow> if env_match name e then Some (Some 0) else map_option (map_option Suc) (env_find h name as))"

definition getenv :: "string \<Rightarrow> penv \<Rightarrow> string option option" where
  "getenv name s =
     map_option (map_option (\<lambda>i. drop (Suc (length name)) (the (en_heap s (en_environ s ! i)))))
       (env_find (en_heap s) name (en_environ s))"

text \<open>All entries of a name are removed by \<^verbatim>\<open>putenv\<close> of a text without an equals sign.\<close>

definition putenv :: "bool \<Rightarrow> nat \<Rightarrow> penv \<Rightarrow> (bool \<times> penv) option" where
  "putenv ok a s =
     (case en_heap s a of
        None \<Rightarrow> None
      | Some e \<Rightarrow>
          if CHR ''='' \<notin> set e then
            (if list_all (\<lambda>b. en_heap s b \<noteq> None) (en_environ s)
             then Some (True, s\<lparr>en_environ := filter (\<lambda>b. \<not> env_match e (the (en_heap s b))) (en_environ s)\<rparr>)
             else None)
          else
            (case env_find (en_heap s) (takeWhile (\<lambda>c. c \<noteq> CHR ''='') e) (en_environ s) of
               None \<Rightarrow> None
             | Some (Some i) \<Rightarrow> Some (True, s\<lparr>en_environ := (en_environ s)[i := a]\<rparr>)
             | Some None \<Rightarrow> if ok then Some (True, s\<lparr>en_environ := en_environ s @ [a]\<rparr>) else Some (False, s)))"

section \<open>Strings of the map\<close>

definition env_node :: "string \<Rightarrow> penv \<Rightarrow> penv" where
  "env_node name s =
     (case en_map s name of
        Some _ \<Rightarrow> s
      | None \<Rightarrow> s\<lparr>en_map := (en_map s)(name \<mapsto> (en_next s, SSO)), en_heap := (en_heap s)(en_next s \<mapsto> []), en_next := en_next s + 1\<rparr>)"

text \<open>
  An assigned text goes into the buffer if it fits, else into a new one, and the old one is freed. As a C
  string it ends at its first zero.
\<close>

definition env_assign :: "(nat \<Rightarrow> nat \<Rightarrow> nat) \<Rightarrow> string \<Rightarrow> string \<Rightarrow> penv \<Rightarrow> penv" where
  "env_assign grow name x s =
     (case en_map s name of
        None \<Rightarrow> s
      | Some (a, cap) \<Rightarrow>
          if length x \<le> cap then s\<lparr>en_heap := (en_heap s)(a \<mapsto> c_str x)\<rparr>
          else s\<lparr>en_heap := (en_heap s)(a := None, en_next s \<mapsto> c_str x), en_map := (en_map s)(name \<mapsto> (en_next s, grow cap (length x))),
                 en_next := en_next s + 1\<rparr>)"

section \<open>Environment\<close>

definition env_getImpl :: "string \<Rightarrow> penv \<Rightarrow> (env_error + string) option" where
  "env_getImpl name s =
     map_option (\<lambda>v. case v of Some x \<Rightarrow> Inr x | None \<Rightarrow> Inl (EnvNotFound name)) (getenv (c_str name) s)"

definition env_hasImpl :: "string \<Rightarrow> penv \<Rightarrow> bool option" where
  "env_hasImpl name s = map_option (\<lambda>v. v \<noteq> None) (getenv (c_str name) s)"

definition env_setImpl :: "(nat \<Rightarrow> nat \<Rightarrow> nat) \<Rightarrow> bool \<Rightarrow> string \<Rightarrow> string \<Rightarrow> penv \<Rightarrow> ((env_error + unit) \<times> penv) option" where
  "env_setImpl grow ok name value s =
     (let var = name @ ''='' @ value; s1 = env_assign grow name var (env_node name s)
      in case en_map s1 name of
           None \<Rightarrow> None
         | Some (a, cap) \<Rightarrow>
             map_option (\<lambda>(r, s2). (if r then Inr () else Inl (EnvSystem (''cannot set environment variable: '' @ name)), s2)) (putenv ok a s1))"

definition Environment_get :: "string \<Rightarrow> string \<Rightarrow> penv \<Rightarrow> (env_error + string) option" where
  "Environment_get name defaultValue s =
     Option.bind (env_hasImpl name s) (\<lambda>b. if b then env_getImpl name s else Some (Inr defaultValue))"

section \<open>The environment as a map\<close>

definition good_name :: "string \<Rightarrow> bool" where
  "good_name n \<longleftrightarrow> n \<noteq> [] \<and> CHR ''='' \<notin> set n \<and> CHR 0x00 \<notin> set n"

definition good_entry :: "string \<Rightarrow> bool" where
  "good_entry e \<longleftrightarrow> CHR ''='' \<in> set e \<and> CHR 0x00 \<notin> set e"

definition entry_name :: "string \<Rightarrow> string" where
  "entry_name e = takeWhile (\<lambda>c. c \<noteq> CHR ''='') e"

definition entry_value :: "string \<Rightarrow> string" where
  "entry_value e = tl (dropWhile (\<lambda>c. c \<noteq> CHR ''='') e)"

text \<open>Entries are live texts with different names, and a string of the map holds an entry of its name.\<close>

definition env_inv :: "penv \<Rightarrow> bool" where
  "env_inv s \<longleftrightarrow>
     (\<forall>a \<in> set (en_environ s). \<exists>e. en_heap s a = Some e \<and> good_entry e) \<and>
     distinct (map (\<lambda>a. entry_name (the (en_heap s a))) (en_environ s)) \<and>
     (\<forall>a. en_heap s a \<noteq> None \<longrightarrow> a < en_next s) \<and>
     (\<forall>n a c. en_map s n = Some (a, c) \<longrightarrow> good_name n \<and> a \<in> set (en_environ s) \<and> entry_name (the (en_heap s a)) = n)"

definition env_view :: "penv \<Rightarrow> string \<Rightarrow> string option" where
  "env_view s = map_of (map (\<lambda>a. (entry_name (the (en_heap s a)), entry_value (the (en_heap s a)))) (en_environ s))"

lemma entry_match:
  assumes "good_entry e" "CHR ''='' \<notin> set n"
  shows "env_match n e \<longleftrightarrow> entry_name e = n"
proof -
  obtain a b where e: "e = a @ CHR ''='' # b" "CHR ''='' \<notin> set a" using assms(1) split_list_first by (fastforce simp: good_entry_def)
  have n: "entry_name e = a" using e by (auto simp: entry_name_def takeWhile_append)
  have "n = a" if m: "env_match n e"
  proof (cases "length n" "length a" rule: linorder_cases)
    case less
    then have "a ! length n = CHR ''=''" using m e(1) by (simp add: env_match_def nth_append)
    then show ?thesis using less e(2) nth_mem by metis
  next
    case equal
    then show ?thesis using m e(1) by (simp add: env_match_def)
  next
    case greater
    have "n ! length a = take (length n) e ! length a" using m by (simp add: env_match_def)
    then have "n ! length a = CHR ''=''" using greater e(1) by (simp add: nth_append take_Cons')
    then show ?thesis using greater assms(2) nth_mem by metis
  qed
  then show ?thesis using n e(1) by (auto simp: env_match_def)
qed

lemma env_find_live:
  assumes "\<forall>a \<in> set as. \<exists>e. h a = Some e \<and> good_entry e" "CHR ''='' \<notin> set n"
  shows "\<exists>r. env_find h n as = Some r \<and>
    (case r of
       None \<Rightarrow> n \<notin> (\<lambda>a. entry_name (the (h a))) ` set as
     | Some i \<Rightarrow> i < length as \<and> entry_name (the (h (as ! i))) = n)"
  using assms
proof (induction as)
  case (Cons a as)
  then obtain e where e: "h a = Some e" "good_entry e" by auto
  obtain r where r: "env_find h n as = Some r" "case r of None \<Rightarrow> n \<notin> (\<lambda>a. entry_name (the (h a))) ` set as
     | Some i \<Rightarrow> i < length as \<and> entry_name (the (h (as ! i))) = n" using Cons by auto
  then show ?case using e entry_match [OF e(2) Cons.prems(2)] by (cases r) (auto split: if_splits)
qed simp

lemma view_at:
  assumes "env_inv s" "i < length (en_environ s)" "entry_name (the (en_heap s (en_environ s ! i))) = n"
  shows "env_view s n = Some (entry_value (the (en_heap s (en_environ s ! i))))"
proof -
  let ?f = "\<lambda>a. (entry_name (the (en_heap s a)), entry_value (the (en_heap s a)))"
  have "distinct (map fst (map ?f (en_environ s)))" using assms(1) by (simp add: env_inv_def comp_def)
  moreover have "?f (en_environ s ! i) \<in> set (map ?f (en_environ s))" using assms(2) by simp
  ultimately show ?thesis unfolding env_view_def using assms(3) by (simp add: map_of_eq_Some_iff)
qed

lemma view_none:
  assumes "n \<notin> (\<lambda>a. entry_name (the (en_heap s a))) ` set (en_environ s)"
  shows "env_view s n = None"
  using assms by (force simp: env_view_def map_of_eq_None_iff)

lemma good_entry_split:
  assumes "good_entry e"
  shows "e = entry_name e @ CHR ''='' # entry_value e"
proof -
  have "dropWhile (\<lambda>c. c \<noteq> CHR ''='') e \<noteq> []" using assms by (auto simp: good_entry_def)
  then obtain x xs where x: "dropWhile (\<lambda>c. c \<noteq> CHR ''='') e = x # xs" by (meson neq_Nil_conv)
  then have "x = CHR ''=''" using hd_dropWhile [of "\<lambda>c. c \<noteq> CHR ''=''" e] by simp
  then show ?thesis using takeWhile_dropWhile_id [of "\<lambda>c. c \<noteq> CHR ''=''" e] x by (simp add: entry_name_def entry_value_def)
qed

lemma getenv_view:
  assumes "env_inv s" "CHR ''='' \<notin> set n"
  shows "getenv n s = Some (env_view s n)"
proof -
  have live: "\<forall>a \<in> set (en_environ s). \<exists>e. en_heap s a = Some e \<and> good_entry e" using assms(1) by (simp add: env_inv_def)
  obtain r where r: "env_find (en_heap s) n (en_environ s) = Some r" "case r of None \<Rightarrow> n \<notin> (\<lambda>a. entry_name (the (en_heap s a))) ` set (en_environ s)
     | Some i \<Rightarrow> i < length (en_environ s) \<and> entry_name (the (en_heap s (en_environ s ! i))) = n"
    using env_find_live [OF live assms(2)] by blast
  show ?thesis
  proof (cases r)
    case None
    then show ?thesis using r view_none by (simp add: getenv_def)
  next
    case (Some i)
    then have i: "i < length (en_environ s)" "entry_name (the (en_heap s (en_environ s ! i))) = n" using r(2) by auto
    then obtain e where e: "en_heap s (en_environ s ! i) = Some e" "good_entry e" using live nth_mem by blast
    then have "drop (Suc (length n)) e = entry_value e" using good_entry_split [OF e(2)] i(2) by (metis append_eq_conv_conj drop_Suc_Cons e(1) drop_append option.sel drop0 append_Cons append.assoc append_Nil length_append_singleton)
    then show ?thesis using r(1) Some view_at [OF assms(1) i] e(1) by (simp add: getenv_def)
  qed
qed

section \<open>Setting a variable\<close>

definition env_pair :: "penv \<Rightarrow> nat \<Rightarrow> string \<times> string" where
  "env_pair s a = (entry_name (the (en_heap s a)), entry_value (the (en_heap s a)))"

lemma env_view_pairs: "env_view s = map_of (map (env_pair s) (en_environ s))"
  by (simp add: env_view_def env_pair_def [abs_def])

lemma env_map_of_update:
  assumes "distinct (map fst xs)" "i < length xs" "fst (xs ! i) = k"
  shows "map_of (xs[i := (k, v)]) = (map_of xs)(k \<mapsto> v)" "map fst (xs[i := (k, v)]) = map fst xs"
proof -
  show k: "map fst (xs[i := (k, v)]) = map fst xs" using assms(2,3) by (simp add: map_update list_update_same_conv)
  have d: "distinct (map fst (xs[i := (k, v)]))" using assms(1) k by simp
  show "map_of (xs[i := (k, v)]) = (map_of xs)(k \<mapsto> v)"
  proof
    fix x
    show "map_of (xs[i := (k, v)]) x = ((map_of xs)(k \<mapsto> v)) x"
    proof (cases "x = k")
      case True
      have "(k, v) \<in> set (xs[i := (k, v)])" using assms(2) by (simp add: set_update_memI)
      then show ?thesis using True d by (simp add: map_of_eq_Some_iff)
    next
      case False
      have "(x, w) \<in> set (xs[i := (k, v)]) \<longleftrightarrow> (x, w) \<in> set xs" for w
      proof
        assume "(x, w) \<in> set (xs[i := (k, v)])"
        then show "(x, w) \<in> set xs" using False set_update_subset_insert by fastforce
      next
        assume "(x, w) \<in> set xs"
        then obtain j where j: "j < length xs" "xs ! j = (x, w)" by (metis in_set_conv_nth)
        then have "j \<noteq> i" using False assms(3) by auto
        then show "(x, w) \<in> set (xs[i := (k, v)])" using j by (metis length_list_update nth_list_update_neq nth_mem)
      qed
      then have "map_of (xs[i := (k, v)]) x = Some w \<longleftrightarrow> map_of xs x = Some w" for w
        using d assms(1) by (simp add: map_of_eq_Some_iff)
      then show ?thesis using False by (metis fun_upd_other not_Some_eq)
    qed
  qed
qed

lemma entry_parts:
  assumes "good_name n"
  shows "good_entry (n @ ''='' @ v) \<longleftrightarrow> CHR 0x00 \<notin> set v" "entry_name (n @ ''='' @ v) = n" "entry_value (n @ ''='' @ v) = v"
proof -
  have t: "takeWhile (\<lambda>c. c \<noteq> CHR ''='') (n @ CHR ''='' # v) = n" "dropWhile (\<lambda>c. c \<noteq> CHR ''='') (n @ CHR ''='' # v) = CHR ''='' # v"
    using assms by (auto simp: good_name_def takeWhile_append dropWhile_append)
  then show "entry_name (n @ ''='' @ v) = n" "entry_value (n @ ''='' @ v) = v" by (simp_all add: entry_name_def entry_value_def)
  show "good_entry (n @ ''='' @ v) \<longleftrightarrow> CHR 0x00 \<notin> set v" using assms by (auto simp: good_entry_def good_name_def)
qed

text \<open>\<^verbatim>\<open>putenv\<close> of a buffer with a new or changed entry, in a state whose other buffers are those of \<open>s\<close>.\<close>

lemma putenv_entry:
  assumes inv: "env_inv s" and n: "good_name n" "CHR 0x00 \<notin> set v"
    and b: "en_heap s1 b = Some (n @ ''='' @ v)" "b < en_next s1" "b \<in> set (en_environ s) \<Longrightarrow> entry_name (the (en_heap s b)) = n"
    and same: "en_environ s1 = en_environ s" "\<And>a. a \<in> set (en_environ s) \<Longrightarrow> a \<noteq> b \<Longrightarrow> en_heap s1 a = en_heap s a"
      "\<And>a. en_heap s1 a \<noteq> None \<Longrightarrow> a < en_next s1"
    and maps: "\<And>m. m \<noteq> n \<Longrightarrow> en_map s1 m = en_map s m" "\<exists>c. en_map s1 n = Some (b, c)"
  shows "\<exists>s2. putenv True b s1 = Some (True, s2) \<and> env_inv s2 \<and> env_view s2 = (env_view s)(n \<mapsto> v)"
proof -
  let ?e = "n @ ''='' @ v" let ?as = "en_environ s" let ?h = "en_heap s1"
  have e: "good_entry ?e" "entry_name ?e = n" "entry_value ?e = v" using entry_parts [OF n(1)] n(2) by simp_all
  have eq: "CHR ''='' \<notin> set n" using n(1) by (simp add: good_name_def)
  have live: "\<forall>a \<in> set ?as. \<exists>e. en_heap s a = Some e \<and> good_entry e" using inv by (simp add: env_inv_def)
  have live1: "\<forall>a \<in> set ?as. \<exists>e. ?h a = Some e \<and> good_entry e" using live same(2) b(1) e(1) by metis
  have names: "entry_name (the (?h a)) = entry_name (the (en_heap s a))" if "a \<in> set ?as" for a
    using that same(2) b e(2) by (cases "a = b") auto
  have dist: "distinct (map (\<lambda>a. entry_name (the (en_heap s a))) ?as)" using inv by (simp add: env_inv_def)
  have pair: "env_pair s' b = (n, v)" if "en_heap s' = ?h" for s' using that b(1) e by (simp add: env_pair_def)
  have nodes: "good_name m \<and> a \<in> set ?as \<and> entry_name (the (en_heap s a)) = m" if "en_map s m = Some (a, c)" for m a c
    using inv that unfolding env_inv_def by blast
  obtain r where r: "env_find ?h n ?as = Some r" "case r of None \<Rightarrow> n \<notin> (\<lambda>a. entry_name (the (?h a))) ` set ?as
     | Some i \<Rightarrow> i < length ?as \<and> entry_name (the (?h (?as ! i))) = n"
    using env_find_live [OF live1 eq] by blast
  have put: "putenv True b s1 = (case env_find ?h n ?as of None \<Rightarrow> None
      | Some (Some i) \<Rightarrow> Some (True, s1\<lparr>en_environ := ?as[i := b]\<rparr>) | Some None \<Rightarrow> Some (True, s1\<lparr>en_environ := ?as @ [b]\<rparr>))"
    using b(1) e(1,2) same(1) by (simp add: putenv_def good_entry_def entry_name_def split: option.splits)
  show ?thesis
  proof (cases r)
    case None
    let ?s2 = "s1\<lparr>en_environ := ?as @ [b]\<rparr>"
    have nn: "n \<notin> (\<lambda>a. entry_name (the (en_heap s a))) ` set ?as" using r(2) None names by (auto simp: image_iff)
    then have nb: "b \<notin> set ?as" using b(3) by blast
    then have keep: "?h a = en_heap s a" if "a \<in> set ?as" for a using same(2) that by metis
    have "env_inv ?s2" unfolding env_inv_def
    proof (intro conjI ballI allI impI)
      show "\<exists>e. en_heap ?s2 a = Some e \<and> good_entry e" if "a \<in> set (en_environ ?s2)" for a
        using that live1 b(1) e(1) by auto
      show "distinct (map (\<lambda>a. entry_name (the (en_heap ?s2 a))) (en_environ ?s2))"
        using dist nn keep b(1) e(2) by (simp cong: map_cong image_cong)
      show "a < en_next ?s2" if "en_heap ?s2 a \<noteq> None" for a using same(3) that by simp
      fix m a c assume "en_map ?s2 m = Some (a, c)"
      then have "m = n \<and> a = b \<or> m \<noteq> n \<and> en_map s m = Some (a, c)" using maps by (cases "m = n") auto
      then show "good_name m" "a \<in> set (en_environ ?s2)" "entry_name (the (en_heap ?s2 a)) = m"
        using n(1) nodes b(1) e(2) keep by auto
    qed
    moreover have "env_view ?s2 = (env_view s)(n \<mapsto> v)"
    proof -
      have m: "map (env_pair ?s2) (en_environ ?s2) = map (env_pair s) ?as @ [(n, v)]"
        using keep pair [of ?s2] by (simp add: env_pair_def)
      have "map_of (map (env_pair s) ?as) n = None" using nn by (simp add: map_of_eq_None_iff env_pair_def image_image)
      then show ?thesis unfolding env_view_pairs m map_of_append by (auto simp: map_add_def fun_eq_iff split: option.split)
    qed
    ultimately show ?thesis using put r(1) None by simp
  next
    case (Some i)
    then have i: "i < length ?as" "entry_name (the (en_heap s (?as ! i))) = n" using r(2) names by auto
    let ?s2 = "s1\<lparr>en_environ := ?as[i := b]\<rparr>"
    have uniq: "j = i" if "j < length ?as" "entry_name (the (en_heap s (?as ! j))) = n" for j
      using that i dist by (auto simp: distinct_conv_nth)
    have other: "?as ! j \<noteq> b" if "j < length ?as" "j \<noteq> i" for j using uniq [OF that(1)] b(3) that nth_mem by metis
    have pairs: "map (env_pair ?s2) (en_environ ?s2) = (map (env_pair s) ?as)[i := (n, v)]"
    proof (rule nth_equalityI)
      fix j assume j: "j < length (map (env_pair ?s2) (en_environ ?s2))"
      show "map (env_pair ?s2) (en_environ ?s2) ! j = (map (env_pair s) ?as)[i := (n, v)] ! j"
        using j pair [of ?s2] same(2) other [of j] nth_mem [of j ?as] by (cases "j = i") (simp_all add: env_pair_def)
    qed simp
    have d: "distinct (map fst (map (env_pair s) ?as))" using dist by (simp add: env_pair_def comp_def)
    have f: "fst (map (env_pair s) ?as ! i) = n" using i by (simp add: env_pair_def)
    note upd = env_map_of_update [OF d _ f, of v]
    have "env_inv ?s2" unfolding env_inv_def
    proof (intro conjI ballI allI impI)
      show "\<exists>e. en_heap ?s2 a = Some e \<and> good_entry e" if "a \<in> set (en_environ ?s2)" for a
        using that live1 b(1) e(1) set_update_subset_insert [of ?as i b] by auto
      have "map (\<lambda>a. entry_name (the (en_heap ?s2 a))) (en_environ ?s2) = map fst (map (env_pair ?s2) (en_environ ?s2))"
        by (simp add: env_pair_def comp_def)
      then show "distinct (map (\<lambda>a. entry_name (the (en_heap ?s2 a))) (en_environ ?s2))" unfolding pairs using upd(2) i(1) d by simp
      show "a < en_next ?s2" if "en_heap ?s2 a \<noteq> None" for a using same(3) that by simp
      fix m a c assume "en_map ?s2 m = Some (a, c)"
      then have "m = n \<and> a = b \<or> m \<noteq> n \<and> en_map s m = Some (a, c)" using maps by (cases "m = n") auto
      then have "good_name m \<and> a \<in> set (en_environ ?s2) \<and> entry_name (the (en_heap ?s2 a)) = m"
      proof
        assume "m = n \<and> a = b"
        then show ?thesis using n(1) b(1) e(2) i(1) by (simp add: set_update_memI)
      next
        assume m: "m \<noteq> n \<and> en_map s m = Some (a, c)"
        then have a: "good_name m" "a \<in> set ?as" "entry_name (the (en_heap s a)) = m" using nodes by auto
        then obtain j where j: "j < length ?as" "?as ! j = a" by (metis in_set_conv_nth)
        then have "j \<noteq> i" using a(3) m i(2) by auto
        then have "a \<in> set (?as[i := b])" using j by (metis length_list_update nth_list_update_neq nth_mem)
        then show ?thesis using a names by simp
      qed
      then show "good_name m" "a \<in> set (en_environ ?s2)" "entry_name (the (en_heap ?s2 a)) = m" by blast+
    qed
    moreover have "env_view ?s2 = (env_view s)(n \<mapsto> v)" unfolding env_view_pairs pairs using upd(1) i(1) by simp
    ultimately show ?thesis using put r(1) Some by simp
  qed
qed

lemma c_str_plain: "CHR 0x00 \<notin> set x \<Longrightarrow> c_str x = x"
  unfolding c_str_def by (simp add: takeWhile_eq_all_conv) metis

text \<open>
  The environment is a map as long as no string of it has to move: a variable that is set is found with
  its value and no other one changes, and reading gives the value or throws if there is none.
\<close>

theorem environment_is_map:
  assumes inv: "env_inv s" and n: "good_name n" "CHR 0x00 \<notin> set v"
    and fits: "\<And>a c. en_map s n = Some (a, c) \<Longrightarrow> length n + 1 + length v \<le> c"
  shows "(\<exists>s2. env_setImpl grow True n v s = Some (Inr (), s2) \<and> env_inv s2 \<and> env_view s2 = (env_view s)(n \<mapsto> v)) \<and>
    env_getImpl n s = Some (case env_view s n of Some x \<Rightarrow> Inr x | None \<Rightarrow> Inl (EnvNotFound n))"
proof
  have eq: "CHR ''='' \<notin> set n" and cn: "c_str n = n" using n(1) c_str_plain by (auto simp: good_name_def)
  then show "env_getImpl n s = Some (case env_view s n of Some x \<Rightarrow> Inr x | None \<Rightarrow> Inl (EnvNotFound n))"
    using getenv_view [OF inv] by (simp add: env_getImpl_def)
  let ?e = "n @ ''='' @ v"
  have ce: "c_str ?e = ?e" using n by (intro c_str_plain) (auto simp: good_name_def)
  have live: "a < en_next s" if "a \<in> set (en_environ s)" for a using inv that unfolding env_inv_def by blast
  let ?s1 = "env_assign grow n ?e (env_node n s)"
  show "\<exists>s2. env_setImpl grow True n v s = Some (Inr (), s2) \<and> env_inv s2 \<and> env_view s2 = (env_view s)(n \<mapsto> v)"
  proof (cases "en_map s n")
    case (Some ac)
    obtain a c where ac: "ac = (a, c)" by (cases ac)
    then have a: "a \<in> set (en_environ s)" "entry_name (the (en_heap s a)) = n" using inv Some unfolding env_inv_def by blast+
    have s1: "?s1 = s\<lparr>en_heap := (en_heap s)(a \<mapsto> ?e)\<rparr>" using Some ac fits [of a c] ce by (simp add: env_assign_def env_node_def)
    have "\<exists>s2. putenv True a ?s1 = Some (True, s2) \<and> env_inv s2 \<and> env_view s2 = (env_view s)(n \<mapsto> v)"
      by (rule putenv_entry [OF inv n]) (use s1 a Some ac live inv in \<open>auto simp: env_inv_def split: if_splits\<close>)
    then show ?thesis using Some ac s1 by (auto simp: env_setImpl_def Let_def)
  next
    case None
    show ?thesis
    proof (cases "length ?e \<le> SSO")
      case True
      let ?a = "en_next s"
      have s1: "?s1 = s\<lparr>en_map := (en_map s)(n \<mapsto> (?a, SSO)), en_heap := (en_heap s)(?a \<mapsto> ?e), en_next := ?a + 1\<rparr>"
        using None True ce by (simp add: env_assign_def env_node_def)
      have "\<exists>s2. putenv True ?a ?s1 = Some (True, s2) \<and> env_inv s2 \<and> env_view s2 = (env_view s)(n \<mapsto> v)"
        by (rule putenv_entry [OF inv n]) (use s1 live inv in \<open>auto simp: env_inv_def less_Suc_eq split: if_splits\<close>)
      then show ?thesis using s1 by (auto simp: env_setImpl_def Let_def)
    next
      case False
      let ?a = "en_next s + 1"
      have s1: "?s1 = s\<lparr>en_map := (en_map s)(n \<mapsto> (?a, grow SSO (length ?e))),
          en_heap := (en_heap s)(en_next s := None, ?a \<mapsto> ?e), en_next := ?a + 1\<rparr>"
        using None False ce by (simp add: env_assign_def env_node_def)
      have nb: "?a \<notin> set (en_environ s)" using live [of ?a] by auto
      have "\<exists>s2. putenv True ?a ?s1 = Some (True, s2) \<and> env_inv s2 \<and> env_view s2 = (env_view s)(n \<mapsto> v)"
        by (rule putenv_entry [OF inv n]) (use s1 live nb inv in \<open>auto simp: env_inv_def less_Suc_eq split: if_splits\<close>)
      then show ?thesis using s1 by (auto simp: env_setImpl_def Let_def)
    qed
  qed
qed

lemma env_find_dead:
  assumes "a \<in> set as" "h a = None" "\<forall>b \<in> set as. b \<noteq> a \<longrightarrow> (\<exists>e. h b = Some e \<and> \<not> env_match n e)"
  shows "env_find h n as = None"
  using assms by (induction as) (force split: option.splits)+

text \<open>
  Setting a variable again to a longer value than its string has room for frees the text that the
  environment still points to, and \<^verbatim>\<open>putenv\<close> reads it when it looks for the variable.
\<close>

theorem longer_value_reads_freed:
  assumes inv: "env_inv s" and n: "good_name n" "CHR 0x00 \<notin> set v" and a: "en_map s n = Some (a, c)" "c < length n + 1 + length v"
  shows "env_setImpl grow ok n v s = None"
proof -
  let ?e = "n @ ''='' @ v" let ?b = "en_next s" let ?h = "(en_heap s)(a := None, ?b \<mapsto> ?e)"
  have ce: "c_str ?e = ?e" using n by (intro c_str_plain) (auto simp: good_name_def)
  have eq: "CHR ''='' \<notin> set n" using n(1) by (simp add: good_name_def)
  have e: "entry_name ?e = n" by (rule entry_parts [OF n(1)])
  have ae: "a \<in> set (en_environ s)" "entry_name (the (en_heap s a)) = n" using inv a(1) unfolding env_inv_def by blast+
  have live: "\<forall>x \<in> set (en_environ s). \<exists>e. en_heap s x = Some e \<and> good_entry e" using inv by (simp add: env_inv_def)
  have lt: "x < ?b" if "x \<in> set (en_environ s)" for x using inv that unfolding env_inv_def by blast
  have s1: "env_assign grow n ?e (env_node n s) = s\<lparr>en_heap := ?h, en_map := (en_map s)(n \<mapsto> (?b, grow c (length ?e))), en_next := ?b + 1\<rparr>"
    using a ce by (simp add: env_assign_def env_node_def)
  have "\<exists>e. ?h x = Some e \<and> \<not> env_match n e" if x: "x \<in> set (en_environ s)" "x \<noteq> a" for x
  proof -
    obtain e where e: "en_heap s x = Some e" "good_entry e" using live x(1) by blast
    have "inj_on (\<lambda>a. entry_name (the (en_heap s a))) (set (en_environ s))" using inv by (simp add: env_inv_def distinct_map)
    then have "entry_name e \<noteq> n" using x ae e(1) inj_onD [of "\<lambda>a. entry_name (the (en_heap s a))" "set (en_environ s)" x a] by auto
    then show ?thesis using e lt [OF x(1)] x(2) entry_match [OF e(2) eq] by auto
  qed
  then have "env_find ?h n (en_environ s) = None"
    using ae(1) lt [OF ae(1)] by (intro env_find_dead [of a]) auto
  then show ?thesis unfolding env_setImpl_def Let_def s1 using e by (simp add: putenv_def entry_name_def)
qed

definition ex_penv :: penv where
  "ex_penv = \<lparr>en_heap = (\<lambda>_. None)(0 \<mapsto> ''HOME=/''), en_map = (\<lambda>_. None), en_environ = [0], en_next = 1\<rparr>"

theorem environment_is_map_witness:
  "\<exists>s2. env_setImpl (\<lambda>_ n. n) True ''LANG'' ''C'' ex_penv = Some (Inr (), s2) \<and> env_view s2 = (env_view ex_penv)(''LANG'' \<mapsto> ''C'')"
proof -
  have "env_inv ex_penv" "good_name ''LANG''" by (auto simp: env_inv_def ex_penv_def good_entry_def good_name_def)
  then show ?thesis using environment_is_map [of ex_penv "''LANG''" "''C''" "\<lambda>_ n. n"] by (auto simp: ex_penv_def)
qed

definition ex_penv2 :: penv where
  "ex_penv2 = \<lparr>en_heap = (\<lambda>_. None)(0 \<mapsto> ''LANG=C''), en_map = (\<lambda>_. None)(''LANG'' \<mapsto> (0, 15)), en_environ = [0], en_next = 1\<rparr>"

theorem longer_value_reads_freed_witness:
  "env_setImpl (\<lambda>_ n. n) True ''LANG'' ''en_US.UTF-8'' ex_penv2 = None"
proof -
  have "env_inv ex_penv2" "good_name ''LANG''"
    by (auto simp: env_inv_def ex_penv2_def good_entry_def good_name_def entry_name_def split: if_splits)
  then show ?thesis using longer_value_reads_freed [of ex_penv2 "''LANG''" "''en_US.UTF-8''" 0 15] by (simp add: ex_penv2_def)
qed

end
