(* ===== verification/Mutexes.thy ===== *)
theory Mutexes
  imports Prelude "HOL-Library.Signed_Division"
begin

text \<open>
  \<^verbatim>\<open>Common/Mutex*\<close>, \<^verbatim>\<open>ScopedLock.h\<close>: recursive and fast mutexes over those of POSIX threads, and the locks
  that hold one for the length of a scope. A mutex knows the thread that has it and how often;
  locking one that is not to be had is no step. Creating a mutex, and the limit to the number of
  recursive locks, are not modelled.
\<close>

section \<open>Mutexes\<close>

record pmutex =
  mx_recursive :: bool
  mx_held :: "(nat \<times> nat) option"

definition MutexImpl :: pmutex where "MutexImpl = \<lparr>mx_recursive = True, mx_held = None\<rparr>"

definition MutexImpl_fast :: "bool \<Rightarrow> pmutex" where "MutexImpl_fast fast = \<lparr>mx_recursive = \<not> fast, mx_held = None\<rparr>"

definition FastMutexImpl :: pmutex where "FastMutexImpl = MutexImpl_fast True"

text \<open>\<^verbatim>\<open>pthread_mutex_lock\<close> by a thread; \<open>None\<close> is waiting, for ever if the thread has a normal mutex itself.\<close>

definition pthread_lock :: "nat \<Rightarrow> pmutex \<Rightarrow> pmutex option" where
  "pthread_lock t m =
     (case mx_held m of
        None \<Rightarrow> Some (m\<lparr>mx_held := Some (t, 1)\<rparr>)
      | Some (u, n) \<Rightarrow> if u = t \<and> mx_recursive m then Some (m\<lparr>mx_held := Some (t, n + 1)\<rparr>) else None)"

text \<open>
  \<^verbatim>\<open>pthread_mutex_unlock\<close> and whether it succeeds; by a thread that does not have it that is an error for
  a recursive mutex, and undefined (\<open>None\<close>) for a normal one.
\<close>

definition pthread_unlock :: "nat \<Rightarrow> pmutex \<Rightarrow> (bool \<times> pmutex) option" where
  "pthread_unlock t m =
     (case mx_held m of
        Some (u, n) \<Rightarrow>
          if u = t then Some (True, m\<lparr>mx_held := (if n = 1 then None else Some (u, n - 1))\<rparr>)
          else if mx_recursive m then Some (False, m) else None
      | None \<Rightarrow> if mx_recursive m then Some (False, m) else None)"

datatype lock_error = LockSystem string | LockTimeout

definition lockImpl :: "nat \<Rightarrow> pmutex \<Rightarrow> pmutex option" where
  "lockImpl t m = pthread_lock t m"

definition tryLockImpl :: "nat \<Rightarrow> pmutex \<Rightarrow> bool \<times> pmutex" where
  "tryLockImpl t m = (case pthread_lock t m of Some m1 \<Rightarrow> (True, m1) | None \<Rightarrow> (False, m))"

definition unlockImpl :: "nat \<Rightarrow> pmutex \<Rightarrow> ((lock_error + unit) \<times> pmutex) option" where
  "unlockImpl t m =
     map_option (\<lambda>(ok, m1). (if ok then Inr () else Inl (LockSystem ''cannot unlock mutex''), m1)) (pthread_unlock t m)"

text \<open>The point in time until which is waited: seconds and nanoseconds. \<^verbatim>\<open>/\<close> and \<^verbatim>\<open>%\<close> truncate.\<close>

definition lock_abstime :: "int \<Rightarrow> int \<Rightarrow> int \<Rightarrow> int \<times> int" where
  "lock_abstime tv_sec tv_usec milliseconds =
     (let sec = tv_sec + milliseconds sdiv 1000; nsec = tv_usec * 1000 + (milliseconds smod 1000) * 1000000
      in if nsec \<ge> 1000000000 then (sec + 1, nsec - 1000000000) else (sec, nsec))"

text \<open>\<open>got\<close> is the mutex at the time it could be had, \<open>None\<close> if the time ran out before.\<close>

definition tryLockImpl_timed :: "int \<Rightarrow> int \<Rightarrow> int \<Rightarrow> pmutex option \<Rightarrow> nat \<Rightarrow> pmutex \<Rightarrow> (lock_error + bool) \<times> pmutex" where
  "tryLockImpl_timed tv_sec tv_usec milliseconds got t m =
     (let (sec, nsec) = lock_abstime tv_sec tv_usec milliseconds
      in case pthread_lock t m of
           Some m1 \<Rightarrow> (Inr True, m1)
         | None \<Rightarrow>
             if nsec < 0 \<or> nsec \<ge> 1000000000 then (Inl (LockSystem ''cannot lock mutex''), m)
             else (case Option.bind got (pthread_lock t) of Some m1 \<Rightarrow> (Inr True, m1) | None \<Rightarrow> (Inr False, m)))"

definition Mutex_lock_timed :: "int \<Rightarrow> int \<Rightarrow> int \<Rightarrow> pmutex option \<Rightarrow> nat \<Rightarrow> pmutex \<Rightarrow> (lock_error + unit) \<times> pmutex" where
  "Mutex_lock_timed tv_sec tv_usec milliseconds got t m =
     (case tryLockImpl_timed tv_sec tv_usec milliseconds got t m of
        (Inl e, m1) \<Rightarrow> (Inl e, m1)
      | (Inr b, m1) \<Rightarrow> (if \<not> b then Inl LockTimeout else Inr (), m1))"

text \<open>The deadline lies that many milliseconds ahead and is a valid time, unless the argument is negative.\<close>

theorem lock_abstime_exact:
  assumes "0 \<le> tv_usec" "tv_usec < 1000000" "0 \<le> milliseconds"
  shows "case lock_abstime tv_sec tv_usec milliseconds of
    (sec, nsec) \<Rightarrow> 0 \<le> nsec \<and> nsec < 1000000000 \<and> sec * 1000000000 + nsec = tv_sec * 1000000000 + tv_usec * 1000 + milliseconds * 1000000"
proof -
  have d: "milliseconds sdiv 1000 = milliseconds div 1000" "milliseconds smod 1000 = milliseconds mod 1000"
    using assms(3) by (cases "milliseconds = 0"; simp add: signed_divide_int_def signed_modulo_int_def)+
  define q r where "q = milliseconds div 1000" and "r = milliseconds mod 1000"
  then have "milliseconds = q * 1000 + r" "0 \<le> r" "r < 1000" by simp_all
  then show ?thesis using assms(1,2) unfolding lock_abstime_def Let_def d q_def [symmetric] r_def [symmetric] by (auto simp: algebra_simps)
qed

section \<open>Locks of scopes\<close>

text \<open>
  The locks that a thread has open, the innermost first; \<open>None\<close> is a \<^verbatim>\<open>ScopedLockerWithUnlock\<close> that was
  unlocked by hand.
\<close>

record locks =
  lk_mutex :: "nat \<Rightarrow> pmutex"
  lk_scopes :: "nat \<Rightarrow> nat option list"

definition ScopedLocker :: "nat \<Rightarrow> nat \<Rightarrow> locks \<Rightarrow> locks option" where
  "ScopedLocker t m s =
     map_option (\<lambda>m1. s\<lparr>lk_mutex := (lk_mutex s)(m := m1), lk_scopes := (lk_scopes s)(t := Some m # lk_scopes s t)\<rparr>)
       (lockImpl t (lk_mutex s m))"

text \<open>Unlocking the lock at position \<open>i\<close>; the second component is an exception.\<close>

definition scope_unlock :: "nat \<Rightarrow> nat \<Rightarrow> locks \<Rightarrow> (locks \<times> lock_error option) option" where
  "scope_unlock t i s =
     (case lk_scopes s t ! i of
        None \<Rightarrow> Some (s, None)
      | Some m \<Rightarrow>
          (case unlockImpl t (lk_mutex s m) of
             None \<Rightarrow> None
           | Some (Inl e, m1) \<Rightarrow> Some (s, Some e)
           | Some (Inr _, m1) \<Rightarrow>
               Some (s\<lparr>lk_mutex := (lk_mutex s)(m := m1), lk_scopes := (lk_scopes s)(t := (lk_scopes s t)[i := None])\<rparr>, None)))"

definition scope_close :: "nat \<Rightarrow> locks \<Rightarrow> (locks \<times> lock_error option) option" where
  "scope_close t s =
     (case lk_scopes s t of
        [] \<Rightarrow> None
      | _ # _ \<Rightarrow> map_option (\<lambda>(s1, e). (s1\<lparr>lk_scopes := (lk_scopes s1)(t := tl (lk_scopes s1 t))\<rparr>, e)) (scope_unlock t 0 s))"

text \<open>What threads can do with locks, in any order and interleaving.\<close>

inductive lock_step :: "locks \<Rightarrow> locks \<Rightarrow> bool" where
  enter: "ScopedLocker t m s = Some s' \<Longrightarrow> lock_step s s'"
| unlock: "i < length (lk_scopes s t) \<Longrightarrow> scope_unlock t i s = Some (s', None) \<Longrightarrow> lock_step s s'"
| leave: "scope_close t s = Some (s', None) \<Longrightarrow> lock_step s s'"

inductive lock_reach :: "locks \<Rightarrow> locks \<Rightarrow> bool" for s where
  start: "lock_reach s s"
| step: "lock_reach s s1 \<Longrightarrow> lock_step s1 s2 \<Longrightarrow> lock_reach s s2"

section \<open>Who has a mutex\<close>

definition times_open :: "nat \<Rightarrow> nat \<Rightarrow> locks \<Rightarrow> nat" where
  "times_open m t s = count_list (lk_scopes s t) (Some m)"

definition held_right :: "locks \<Rightarrow> nat \<Rightarrow> bool" where
  "held_right s m \<longleftrightarrow>
     (case mx_held (lk_mutex s m) of
        None \<Rightarrow> \<forall>t. times_open m t s = 0
      | Some (u, n) \<Rightarrow> n > 0 \<and> (\<forall>t. times_open m t s = (if t = u then n else 0)) \<and> (mx_recursive (lk_mutex s m) \<or> n = 1))"

definition locks_inv :: "locks \<Rightarrow> bool" where
  "locks_inv s \<longleftrightarrow> (\<forall>m. held_right s m)"

lemma count_update:
  "i < length xs \<Longrightarrow> xs ! i = Some m \<Longrightarrow> count_list xs (Some k) = count_list (xs[i := None]) (Some k) + (if k = m then 1 else 0)"
  by (induction xs arbitrary: i) (auto simp: nth_Cons' split: nat.splits if_splits)

lemma times_open_pos: "Some m \<in> set (lk_scopes s t) \<longleftrightarrow> times_open m t s > 0"
  by (simp add: times_open_def count_list_0_iff flip: neq0_conv)

lemma holder:
  assumes "held_right s m" "times_open m t s > 0"
  shows "\<exists>n. mx_held (lk_mutex s m) = Some (t, n) \<and> n > 0 \<and> (\<forall>u. times_open m u s = (if u = t then n else 0)) \<and>
    (mx_recursive (lk_mutex s m) \<or> n = 1)"
proof -
  obtain u n where u: "mx_held (lk_mutex s m) = Some (u, n)" "n > 0" "\<forall>t. times_open m t s = (if t = u then n else 0)"
    "mx_recursive (lk_mutex s m) \<or> n = 1"
    using assms by (auto simp: held_right_def split: option.splits)
  then have "t = u" using assms(2) by (metis less_irrefl)
  then show ?thesis using u by blast
qed

lemma unlock_ok:
  assumes "held_right s m" "Some m \<in> set (lk_scopes s t)"
  shows "\<exists>m1. unlockImpl t (lk_mutex s m) = Some (Inr (), m1)"
proof -
  have "times_open m t s > 0" using assms(2) times_open_pos by simp
  then obtain n where "mx_held (lk_mutex s m) = Some (t, n)" using holder [OF assms(1)] by blast
  then show ?thesis by (simp add: unlockImpl_def pthread_unlock_def)
qed

lemma enter_inv:
  assumes inv: "locks_inv s" and st: "ScopedLocker t m s = Some s'"
  shows "locks_inv s'"
proof -
  obtain m1 where m1: "pthread_lock t (lk_mutex s m) = Some m1"
    "s' = s\<lparr>lk_mutex := (lk_mutex s)(m := m1), lk_scopes := (lk_scopes s)(t := Some m # lk_scopes s t)\<rparr>"
    using st by (auto simp: ScopedLocker_def lockImpl_def)
  have o: "times_open k u s' = times_open k u s + (if k = m \<and> u = t then 1 else 0)" for k u
    by (simp add: times_open_def m1(2))
  have "held_right s' k" for k
  proof (cases "k = m")
    case True
    have "held_right s m" using inv by (simp add: locks_inv_def)
    then show ?thesis using True m1 o
      by (auto simp: held_right_def pthread_lock_def split: option.splits if_splits)
  next
    case False
    have "held_right s k" using inv by (simp add: locks_inv_def)
    then show ?thesis using False m1 o by (auto simp: held_right_def split: option.splits)
  qed
  then show ?thesis by (simp add: locks_inv_def)
qed

lemma unlock_inv:
  assumes inv: "locks_inv s" and i: "i < length (lk_scopes s t)" and st: "scope_unlock t i s = Some (s', None)"
  shows "locks_inv s'" "lk_scopes s' t = (lk_scopes s t)[i := None]"
proof -
  have "locks_inv s' \<and> lk_scopes s' t = (lk_scopes s t)[i := None]"
  proof (cases "lk_scopes s t ! i")
    case None
    then have "(lk_scopes s t)[i := None] = lk_scopes s t" by (metis list_update_id)
    then show ?thesis using st inv None by (simp add: scope_unlock_def)
  next
    case (Some m)
    then obtain m1 where m1: "unlockImpl t (lk_mutex s m) = Some (Inr (), m1)"
      "s' = s\<lparr>lk_mutex := (lk_mutex s)(m := m1), lk_scopes := (lk_scopes s)(t := (lk_scopes s t)[i := None])\<rparr>"
      using st by (auto simp: scope_unlock_def split: option.splits sum.splits)
    have o: "times_open k u s = times_open k u s' + (if k = m \<and> u = t then 1 else 0)" for k u
      using count_update [OF i Some, of k] by (cases "k = m") (simp_all add: times_open_def m1(2))
    have "held_right s' k" for k
    proof (cases "k = m")
      case True
      have "held_right s m" using inv by (simp add: locks_inv_def)
      from holder [OF this, of t] o [of m t] obtain n where n: "mx_held (lk_mutex s m) = Some (t, n)" "n > 0" "\<forall>u. times_open m u s = (if u = t then n else 0)"
          "mx_recursive (lk_mutex s m) \<or> n = 1"
        by auto
      then have "m1 = (lk_mutex s m)\<lparr>mx_held := (if n = 1 then None else Some (t, n - 1))\<rparr>"
        using m1(1) by (auto simp: unlockImpl_def pthread_unlock_def split: if_splits)
      moreover have "times_open m u s' = (if u = t then n - 1 else 0)" for u
        using o [of m u] n(3) by (auto split: if_splits)
      ultimately show ?thesis using True m1(2) n(2,4) by (auto simp: held_right_def)
    next
      case False
      have "held_right s k" using inv by (simp add: locks_inv_def)
      then show ?thesis using False m1(2) o by (auto simp: held_right_def split: option.splits)
    qed
    then show ?thesis using m1(2) by (simp add: locks_inv_def)
  qed
  then show "locks_inv s'" "lk_scopes s' t = (lk_scopes s t)[i := None]" by blast+
qed

lemma leave_inv:
  assumes inv: "locks_inv s" and st: "scope_close t s = Some (s', None)"
  shows "locks_inv s'"
proof -
  obtain x xs s1 where x: "lk_scopes s t = x # xs" "scope_unlock t 0 s = Some (s1, None)"
    "s' = s1\<lparr>lk_scopes := (lk_scopes s1)(t := tl (lk_scopes s1 t))\<rparr>"
    using st by (auto simp: scope_close_def split: list.splits)
  have i1: "locks_inv s1" "lk_scopes s1 t = None # xs" using unlock_inv [OF inv _ x(2)] x(1) by simp_all
  have "times_open m u s' = times_open m u s1" for m u using i1(2) x(3) by (simp add: times_open_def)
  moreover have "lk_mutex s' = lk_mutex s1" using x(3) by simp
  ultimately show ?thesis using i1(1) by (simp add: locks_inv_def held_right_def cong: option.case_cong)
qed

lemma reach_inv: "lock_reach s s' \<Longrightarrow> locks_inv s \<Longrightarrow> locks_inv s'"
proof (induction rule: lock_reach.induct)
  case (step s1 s2)
  then show ?case by (auto elim!: lock_step.cases intro: enter_inv unlock_inv(1) leave_inv)
qed


definition ex_locks :: locks where
  "ex_locks = \<lparr>lk_mutex = (\<lambda>m. if m = 0 then MutexImpl else FastMutexImpl), lk_scopes = (\<lambda>_. [])\<rparr>"


end
