(* ===== verification/Random_Stream.thy ===== *)
theory Random_Stream
  imports Random_Gen Sha1
begin

text \<open>
  \<^verbatim>\<open>Common/RandomStream.*\<close>: the device of random bytes; \<^verbatim>\<open>PseudoRandom.*\<close> and \<^verbatim>\<open>URandom.*\<close>. What the random
  device of the system gives, the time, addresses and the contents of memory that was not written
  yet are arguments.
\<close>

section \<open>Bytes from generators and a digest\<close>

type_synonym mixer = "rnd \<times> rnd \<times> u32 \<times> sha1_context"

text \<open>The hundred rounds before a digest.\<close>

fun mix_rounds :: "nat \<Rightarrow> mixer \<Rightarrow> mixer option" where
  "mix_rounds 0 st = Some st"
| "mix_rounds (Suc k) (rnd1, rnd2, x, engine) =
     Option.bind (rnd_next rnd2) (\<lambda>(r, rnd2').
     Option.bind (updateImpl (obj_bytes r) 4 engine) (\<lambda>engine1.
     Option.bind (updateImpl (obj_bytes x) 4 engine1) (\<lambda>engine2.
     Option.bind (rnd_next rnd1) (\<lambda>(v, rnd1'). mix_rounds k (rnd1', rnd2', x + v, engine2)))))"

text \<open>
  Copying up to \<open>k\<close> bytes of a digest: the loop moves on once more than it means to, behind the byte it
  copies.
\<close>

fun copy_digest :: "u8 list \<Rightarrow> nat \<Rightarrow> u8 list \<Rightarrow> sha1_context \<Rightarrow> (u8 list \<times> sha1_context) option" where
  "copy_digest [] k buffer engine = Some (buffer, engine)"
| "copy_digest (b # it) k buffer engine =
     (if k = 0 then Some (buffer, engine)
      else
        Option.bind (updateImpl [b] 1 engine) (\<lambda>engine1.
          case it of [] \<Rightarrow> None | _ # it' \<Rightarrow> copy_digest it' (k - 1) (buffer @ [b]) engine1))"

partial_function (option) fill_buffer :: "nat \<Rightarrow> u8 list \<Rightarrow> mixer \<Rightarrow> (u8 list \<times> mixer) option" where
  "fill_buffer len buffer st =
     (if length buffer < len then
        Option.bind (mix_rounds 100 st) (\<lambda>st1.
        Option.bind (copy_digest (fst (sha1_digest (snd (snd (snd st1))))) (len - length buffer) buffer (snd (sha1_digest (snd (snd (snd st1))))))
          (\<lambda>(buffer1, engine). fill_buffer len buffer1 (fst st1, fst (snd st1), fst (snd (snd st1)), engine)))
      else Some (buffer, st))"

text \<open>
  \<open>urandom\<close> is what reading \<^verbatim>\<open>/dev/urandom\<close> gave, \<open>None\<close> if it failed. The result is the bytes and the new
  value of the static \<open>x\<close>.
\<close>

definition readFromDevice ::
    "u8 list option \<Rightarrow> u32 \<Rightarrow> u64 \<Rightarrow> u32 list \<Rightarrow> u32 list \<Rightarrow> u32 list \<Rightarrow> u8 list \<Rightarrow> u32 \<Rightarrow> (u8 list \<times> u32) option" where
  "readFromDevice urandom now this mem1 mem2 junk buffer x =
     (case urandom of
        Some (b # bs) \<Rightarrow> Some (b # bs, x)
      | _ \<Rightarrow>
          Option.bind (Random mem1 now 256) (\<lambda>rnd1.
          Option.bind (Random mem2 now 64) (\<lambda>rnd2.
          Option.bind (rnd_next rnd1) (\<lambda>(v, rnd1').
          Option.bind (sha1_updates [obj_bytes now, obj_bytes this, buffer, bytes_of junk] SHA1Engine) (\<lambda>engine.
            map_option (\<lambda>(out, _, _, x', _). (out, x')) (fill_buffer (length buffer) [] (rnd1', rnd2, x + v, engine)))))))"

section \<open>Generators that can go on for ever\<close>

definition endless :: "rnd \<Rightarrow> bool" where
  "endless r \<longleftrightarrow> (\<exists>d s z n. lag_state d s z n r \<and> 0 < s \<and> s < d)"

lemma endless_next: "endless r \<Longrightarrow> \<exists>v r'. rnd_next r = Some (v, r') \<and> endless r'"
  unfolding endless_def using lag_step by metis

text \<open>A context into which bytes can be written.\<close>

definition open_context :: "sha1_context \<Rightarrow> bool" where
  "open_context c \<longleftrightarrow> length (s_data c) = 64 \<and> slop c < 64"

lemma open_update:
  assumes "open_context c" "unat n \<le> length bs"
  shows "\<exists>c'. updateImpl bs n c = Some c' \<and> open_context c'"
proof -
  have loop: "\<exists>c'. update_loop bs c = Some c' \<and> open_context c'" if "open_context c" for bs c
    using that
  proof (induction bs arbitrary: c)
    case (Cons b bs)
    show ?case
    proof (cases "slop c + 1 = BLOCK_SIZE")
      case True
      then show ?thesis using Cons by (simp add: open_context_def Let_def BLOCK_SIZE_def length_byteReverse)
    next
      case False
      then show ?thesis using Cons by (simp add: open_context_def Let_def BLOCK_SIZE_def)
    qed
  qed simp
  show ?thesis using assms loop by (simp add: updateImpl_def Let_def open_context_def)
qed

lemma digest_open: "length (fst (sha1_digest c)) = 20" "open_context (snd (sha1_digest c))"
  by (simp_all add: sha1_digest_def Let_def DIGEST_SIZE_def open_context_def sha1_reset_def)

lemma open_bytes: "open_context c \<Longrightarrow> \<exists>c'. updateImpl m (of_nat (length m)) c = Some c' \<and> open_context c'"
  by (rule open_update) (simp_all add: unat_of_nat)

lemma open_updates: "open_context c \<Longrightarrow> \<exists>c'. sha1_updates ms c = Some c' \<and> open_context c'"
proof (induction ms arbitrary: c)
  case (Cons m ms)
  then show ?case using open_bytes [of c m] by fastforce
qed simp

lemma open_new: "open_context SHA1Engine"
  by (simp add: SHA1Engine_def open_context_def sha1_reset_def)

fun good_mixer :: "mixer \<Rightarrow> bool" where
  "good_mixer (rnd1, rnd2, x, engine) \<longleftrightarrow> endless rnd1 \<and> endless rnd2 \<and> open_context engine"

lemma mix_rounds_total: "good_mixer st \<Longrightarrow> \<exists>st'. mix_rounds k st = Some st' \<and> good_mixer st'"
proof (induction k arbitrary: st)
  case (Suc k)
  obtain rnd1 rnd2 x engine where st: "st = (rnd1, rnd2, x, engine)" by (cases st)
  then have g: "endless rnd1" "endless rnd2" "open_context engine" using Suc.prems by simp_all
  obtain r rnd2' where r: "rnd_next rnd2 = Some (r, rnd2')" "endless rnd2'" using endless_next [OF g(2)] by blast
  obtain v rnd1' where v: "rnd_next rnd1 = Some (v, rnd1')" "endless rnd1'" using endless_next [OF g(1)] by blast
  have l: "unat (4 :: u32) \<le> length (obj_bytes (w :: u32))" for w by (simp add: length_obj_bytes)
  obtain e1 where e1: "updateImpl (obj_bytes r) 4 engine = Some e1" "open_context e1"
    using open_update [OF g(3) l] by blast
  obtain e2 where e2: "updateImpl (obj_bytes x) 4 e1 = Some e2" "open_context e2"
    using open_update [OF e1(2) l] by blast
  show ?case using Suc.IH [of "(rnd1', rnd2', x + v, e2)"] r v e1 e2 st by simp
qed simp

text \<open>The bytes of a digest that are copied: the first, the third, and so on.\<close>

fun every_other :: "'a list \<Rightarrow> 'a list" where
  "every_other (a # b # xs) = a # every_other xs"
| "every_other xs = xs"

lemma length_every_other: "even (length xs) \<Longrightarrow> length (every_other xs) = length xs div 2"
  by (induction xs rule: every_other.induct) simp_all

lemma copy_digest_exact:
  "even (length d) \<Longrightarrow> open_context engine \<Longrightarrow>
   \<exists>engine'. copy_digest d k buffer engine = Some (buffer @ take k (every_other d), engine') \<and> open_context engine'"
proof (induction d arbitrary: k buffer engine rule: every_other.induct)
  case (1 a b xs)
  show ?case
  proof (cases k)
    case (Suc k')
    obtain e where e: "updateImpl [a] 1 engine = Some e" "open_context e"
      using open_update [OF 1(3), of 1 "[a]"] by auto
    then show ?thesis using 1(1) [of e k' "buffer @ [a]"] 1(2) Suc by simp
  qed (use 1(3) in simp)
qed simp_all

lemma fill_buffer_total:
  "good_mixer st \<Longrightarrow> length buffer \<le> len \<Longrightarrow>
   \<exists>out st'. fill_buffer len buffer st = Some (out, st') \<and> length out = len"
proof (induction "len - length buffer" arbitrary: buffer st rule: less_induct)
  case less
  show ?case
  proof (cases "length buffer < len")
    case False
    then show ?thesis using less.prems by (cases st) (simp add: fill_buffer.simps)
  next
    case True
    obtain st1 where st1: "mix_rounds 100 st = Some st1" "good_mixer st1"
      using mix_rounds_total [OF less.prems(1)] by blast
    obtain r1 r2 x e where s: "st1 = (r1, r2, x, e)" by (cases st1)
    let ?d = "fst (sha1_digest e)" and ?k = "len - length buffer"
    let ?b = "buffer @ take ?k (every_other ?d)"
    obtain e' where e': "copy_digest ?d ?k buffer (snd (sha1_digest e)) = Some (?b, e')" "open_context e'"
      using copy_digest_exact [of ?d] digest_open by force
    have l: "length (every_other ?d) = 10" by (simp add: length_every_other digest_open)
    have "len - length ?b < len - length buffer" "length ?b \<le> len" using True l by auto
    moreover have "good_mixer (r1, r2, x, e')" using st1(2) s e'(2) by simp
    ultimately obtain out st' where "fill_buffer len ?b (r1, r2, x, e') = Some (out, st')" "length out = len"
      using less.hyps [of ?b] by blast
    then show ?thesis using True st1(1) s e'(1) by (cases st') (subst fill_buffer.simps, simp)
  qed
qed

lemma Random_endless:
  assumes "n = 256 \<and> length mem = 64 \<or> n = 64 \<and> length mem = 16"
  shows "\<exists>r. Random mem now n = Some r \<and> endless r"
proof -
  obtain ty d s where t: "ty \<noteq> TYPE_0" "0 < s" "s < d" "d < length mem"
    "(if n < BREAK_1 then (TYPE_0, DEG_0, SEP_0)
      else if n < BREAK_2 then (TYPE_1, DEG_1, SEP_1)
      else if n < BREAK_3 then (TYPE_2, DEG_2, SEP_2)
      else if n < BREAK_4 then (TYPE_3, DEG_3, SEP_3)
      else (TYPE_4, DEG_4, SEP_4)) = (ty, d, s)"
  proof -
    show thesis
      using assms that [of TYPE_4 SEP_4 DEG_4] that [of TYPE_2 SEP_2 DEG_2]
      by (auto simp: BREAK_1_def BREAK_2_def BREAK_3_def BREAK_4_def TYPE_0_def TYPE_2_def TYPE_4_def
          DEG_2_def DEG_4_def SEP_2_def SEP_4_def)
  qed
  let ?r = "\<lparr>r_buf = mem, randType = ty, randDeg = d, randSep = s, fptr = 0, rptr = 0\<rparr>"
  obtain r' z where r': "seed now ?r = Some r'" "lag_state d s z (10 * d) r'"
    using seed_lag [of ?r d s now] t by auto
  have "Random mem now n = Some (r'\<lparr>r_buf := (r_buf r')[0 := if randType r' = TYPE_0 then of_nat (randType r')
      else of_nat (MAX_TYPES * rptr r' + randType r')]\<rparr>)"
    using assms r'(1) t(5) by (auto simp: Random_def initState_def BREAK_0_def BREAK_4_def)
  then show ?thesis using lag_state_front [OF r'(2)] t(2,3) unfolding endless_def by blast
qed

text \<open>
  without the device of the system the random stream still delivers: the two generators never
  leave their tables, the digest never leaves its block, and the loop, which copies ten bytes of
  every digest, ends with exactly the number of bytes asked for.
\<close>

theorem random_buf_fills:
  assumes "length mem1 = 64" "length mem2 = 16"
  shows "\<exists>out x'. readFromDevice None now this mem1 mem2 junk buffer x = Some (out, x') \<and> length out = length buffer"
proof -
  obtain r1 where r1: "Random mem1 now 256 = Some r1" "endless r1" using Random_endless [of 256 mem1] assms by auto
  obtain r2 where r2: "Random mem2 now 64 = Some r2" "endless r2" using Random_endless [of 64 mem2] assms by auto
  obtain v r1' where v: "rnd_next r1 = Some (v, r1')" "endless r1'" using endless_next [OF r1(2)] by blast
  let ?ms = "[obj_bytes now, obj_bytes this, buffer, bytes_of junk]"
  obtain e where e: "sha1_updates ?ms SHA1Engine = Some e" "open_context e" using open_updates [OF open_new] by blast
  have "good_mixer (r1', r2, x + v, e)" using v e r2 by simp
  from fill_buffer_total [OF this, of "[]" "length buffer"]
  obtain out r1'' r2'' x' e' where "fill_buffer (length buffer) [] (r1', r2, x + v, e) = Some (out, r1'', r2'', x', e')"
    "length out = length buffer" by (metis le0 list.size(3) prod_cases3)
  then show ?thesis using r1(1) r2(1) v(1) e(1) by (simp add: readFromDevice_def del: sha1_updates.simps)
qed

theorem random_buf_fills_witness:
  "\<exists>out x'. readFromDevice None 1 0 (replicate 64 0) (replicate 16 0) (replicate 32 0) (replicate 25 0) 7 = Some (out, x') \<and>
     length out = length (replicate 25 (0 :: u8))"
  by (rule random_buf_fills) simp_all

section \<open>Numbers in a range\<close>

text \<open>
  An integer as a \<^verbatim>\<open>double\<close>: the nearest with 53 significant bits, the even one of two. The numbers
  below stay under \<open>2 ^ 64\<close>, and a division by a power of two is exact.
\<close>

fun bit_len :: "nat \<Rightarrow> nat" where
  "bit_len n = (if n = 0 then 0 else Suc (bit_len (n div 2)))"

declare bit_len.simps [simp del]

definition to_double :: "nat \<Rightarrow> nat" where
  "to_double p =
     (let e = bit_len p - 53; q = p div 2 ^ e; m = p mod 2 ^ e
      in if 2 * m < 2 ^ e \<or> 2 * m = 2 ^ e \<and> even q then q * 2 ^ e else (q + 1) * 2 ^ e)"

definition RAND_MAX :: nat where "RAND_MAX = 2147483647"

text \<open>
  \<open>lo + (int) ((hi - lo + 1.0) * rand_r(_fptr) / (RAND_MAX + 1.0))\<close>: the C function draws from, and
  writes to, the word of the table behind the pointer; a value that is no \<^verbatim>\<open>int\<close> is \<open>None\<close>.
\<close>

definition scaled_draw :: "(u32 \<Rightarrow> nat \<times> u32) \<Rightarrow> u32 \<Rightarrow> u32 \<Rightarrow> rnd \<Rightarrow> (u32 \<times> rnd) option" where
  "scaled_draw rand_r lo hi r =
     Option.bind (st_get r (fptr r)) (\<lambda>s.
       let k = to_double ((unat hi - unat lo + 1) * fst (rand_r s)) div (RAND_MAX + 1)
       in if k < 2 ^ 31 then map_option (\<lambda>r'. (lo + of_nat k, r')) (st_set r (fptr r) (snd (rand_r s))) else None)"

definition URandom_range :: "(u32 \<Rightarrow> nat \<times> u32) \<Rightarrow> u32 \<Rightarrow> u32 \<Rightarrow> rnd \<Rightarrow> (u32 \<times> rnd) option" where
  "URandom_range rand_r a b r =
     (if a = b then Some (a, r)
      else if a > b then scaled_draw rand_r b a r
      else scaled_draw rand_r a b r)"

definition URandom_mod :: "u32 \<Rightarrow> rnd \<Rightarrow> (u32 \<times> rnd) option" where
  "URandom_mod m r = (if m = 0 then Some (0, r) else map_option (\<lambda>(i, r'). (i mod m, r')) (rnd_next r))"

lemma bit_len_bound: "p < 2 ^ bit_len p" "0 < p \<Longrightarrow> 2 ^ (bit_len p - 1) \<le> p"
proof (induction p rule: bit_len.induct)
  case (1 n)
  { case 1
    show ?case
    proof (cases "n = 0")
      case False
      then have "n div 2 < 2 ^ bit_len (n div 2)" by (rule "1.IH"(1))
      then have "n < 2 * 2 ^ bit_len (n div 2)" by linarith
      then show ?thesis using False by (simp add: bit_len.simps [of n])
    qed (simp add: bit_len.simps [of n])
  next
    case 2
    show ?case
    proof (cases "n div 2 = 0")
      case True
      then show ?thesis using 2 by (simp add: bit_len.simps [of n] bit_len.simps [of 0])
    next
      case False
      then have "2 ^ (bit_len (n div 2) - 1) \<le> n div 2" using "1.IH"(2) 2 by simp
      moreover obtain k where "bit_len (n div 2) = Suc k" using False by (auto simp: bit_len.simps [of "n div 2"])
      ultimately have "2 * 2 ^ k \<le> 2 * (n div 2)" "bit_len n = Suc (Suc k)"
        using 2 by (simp_all add: bit_len.simps [of n])
      then show ?thesis by simp
    qed }
qed

text \<open>Rounding adds at most half a unit, which is less than one part in \<open>2 ^ 53\<close>.\<close>

lemma to_double_le:
  assumes "0 < p"
  shows "2 ^ 53 * to_double p \<le> (2 ^ 53 + 1) * p"
proof -
  define e where "e = bit_len p - 53"
  define q where "q = p div 2 ^ e"
  define m where "m = p mod 2 ^ e"
  have p: "p = q * 2 ^ e + m" unfolding q_def m_def by (rule div_mult_mod_eq [symmetric])
  have t: "to_double p = (if 2 * m < 2 ^ e \<or> 2 * m = 2 ^ e \<and> even q then q * 2 ^ e else (q + 1) * 2 ^ e)"
    by (simp add: to_double_def Let_def e_def q_def m_def)
  show ?thesis
  proof (cases "e = 0")
    case True
    then have "m = 0" by (simp add: m_def)
    then show ?thesis using t p True by simp
  next
    case False
    then have "bit_len p - 1 = 52 + e" by (simp add: e_def)
    then have "2 ^ 52 * 2 ^ e \<le> p" using bit_len_bound(2) [OF assms] by (simp add: power_add)
    moreover have "2 * to_double p \<le> 2 * p + 2 ^ e" using t p by (auto split: if_splits)
    ultimately show ?thesis by simp
  qed
qed

lemma scaled_bound:
  assumes "v \<le> RAND_MAX" "n \<le> 2 ^ 32" "0 < n"
  shows "to_double (n * v) div (RAND_MAX + 1) < n"
proof (cases "v = 0")
  case True
  then show ?thesis using assms(3) by (simp add: to_double_def bit_len.simps)
next
  case False
  have "n * v \<le> n * 2147483647" using assms(1) by (simp add: RAND_MAX_def)
  moreover have "2 ^ 53 * to_double (n * v) \<le> (2 ^ 53 + 1) * (n * v)" using False assms(3) by (intro to_double_le) simp
  moreover have "(2 ^ 53 + 1) * (n * 2147483647) < 2 ^ 53 * (n * 2147483648)" using assms(3) by simp
  ultimately have "2 ^ 53 * to_double (n * v) < 2 ^ 53 * (n * 2147483648)"
    by (meson le_less_trans le_trans mult_le_mono2)
  then have "to_double (n * v) < n * (RAND_MAX + 1)" by (simp add: RAND_MAX_def)
  then show ?thesis by (rule less_mult_imp_div_less)
qed

text \<open>
  a number drawn between two bounds, given in either order, lies between them: the rounding of the
  \<^verbatim>\<open>double\<close> never reaches the number behind the upper one. It is drawn whenever the pointer is inside
  the table and the bounds are less than \<open>2 ^ 31\<close> apart.
\<close>

theorem urandom_between:
  assumes "\<And>s. fst (rand_r s) \<le> RAND_MAX" "Suc (fptr r) < length (r_buf r)"
    "unat b - unat a < 2 ^ 31" "unat a - unat b < 2 ^ 31"
  shows "\<exists>v r'. URandom_range rand_r a b r = Some (v, r') \<and> min a b \<le> v \<and> v \<le> max a b"
proof -
  have draw: "\<exists>v r'. scaled_draw rand_r lo hi r = Some (v, r') \<and> lo \<le> v \<and> v \<le> hi"
    if lt: "lo < hi" "unat hi - unat lo < 2 ^ 31" for lo hi
  proof -
    let ?n = "unat hi - unat lo + 1" and ?s = "r_buf r ! Suc (fptr r)"
    define k where "k = to_double (?n * fst (rand_r ?s)) div (RAND_MAX + 1)"
    have "k < ?n" unfolding k_def using lt(2) by (intro scaled_bound assms(1)) simp_all
    then have k: "k < 2 ^ 31" "unat lo + k \<le> unat hi" using lt by (simp_all add: word_less_nat_alt)
    have "unat (of_nat k :: u32) = k" using k(1) by (simp add: unat_of_nat)
    moreover have "unat lo + k < 2 ^ LENGTH(32)" using k(2) unat_less_2p [of hi] by linarith
    ultimately have "unat (lo + of_nat k) = unat lo + k" by (subst unat_add_lem [THEN iffD1]) simp_all
    moreover have "\<exists>r'. scaled_draw rand_r lo hi r = Some (lo + of_nat k, r')"
      using assms(2) k(1) unfolding k_def scaled_draw_def Let_def by (simp add: st_get_def st_set_def)
    ultimately show ?thesis using k(2) by (auto simp: word_le_nat_alt)
  qed
  consider "a = b" | "b < a" | "a < b" by force
  then show ?thesis
  proof cases
    case 2
    then show ?thesis using draw [OF 2 assms(4)] by (auto simp: URandom_range_def)
  next
    case 3
    then show ?thesis using draw [OF 3 assms(3)] by (auto simp: URandom_range_def)
  qed (simp add: URandom_range_def)
qed

theorem urandom_between_witness:
  "\<exists>v r'. URandom_range (\<lambda>s. (unat s mod 2147483648, s + 1)) 5 3
      \<lparr>r_buf = [0, 7], randType = 4, randDeg = 63, randSep = 1, fptr = 0, rptr = 0\<rparr> = Some (v, r') \<and>
      min 5 3 \<le> v \<and> v \<le> max 5 3"
proof (rule urandom_between)
  show "fst (unat s mod 2147483648, s + 1) \<le> RAND_MAX" for s :: u32
    using mod_less_divisor [of 2147483648 "unat s"] by (simp only: fst_conv RAND_MAX_def)
qed simp_all

text \<open>Over all 32-bit numbers the upper half of the values does not fit the \<^verbatim>\<open>int\<close> of the conversion.\<close>

lemma urandom_all_undefined:
  assumes "rand_r (r_buf r ! Suc (fptr r)) = (2 ^ 30, s')" "Suc (fptr r) < length (r_buf r)"
  shows "URandom_range rand_r 0 (- 1) r = None"
proof -
  have "bit_len (4294967296 * 2 ^ 30) = 63" by (simp add: bit_len.simps)
  then have "to_double (4294967296 * 2 ^ 30) div (RAND_MAX + 1) = 2 ^ 31"
    by (simp add: to_double_def Let_def RAND_MAX_def)
  moreover have "unat (- 1 :: u32) - unat (0 :: u32) + 1 = 4294967296"
    by (simp add: unsigned_minus_1_eq_mask mask_eq_exp_minus_1)
  ultimately show ?thesis
    using assms unfolding URandom_range_def scaled_draw_def by (simp add: st_get_def Let_def word_less_nat_alt)
qed

section \<open>Numbers from the C++ library\<close>

record prandom =
  random_fd :: int
  random_inited :: bool

definition init_seed :: "int \<Rightarrow> prandom \<Rightarrow> prandom" where
  "init_seed s p = p\<lparr>random_fd := s, random_inited := True\<rparr>"

text \<open>
  \<open>device\<close> and \<open>now\<close> are what the random device and the clock give, \<open>draw\<close> the first number of a new
  \<^verbatim>\<open>std::mt19937\<close> with a seed in a range.
\<close>

definition rand_between ::
    "u32 \<Rightarrow> int \<Rightarrow> (int \<Rightarrow> int \<Rightarrow> int \<Rightarrow> int) \<Rightarrow> int \<Rightarrow> int \<Rightarrow> prandom \<Rightarrow> int \<times> prandom" where
  "rand_between device now draw s e p =
     (let p1 = (if \<not> random_inited p then
                  (if random_fd p < 0 then p\<lparr>random_fd := sint (of_int (uint device + now) :: u32)\<rparr> else p)
                    \<lparr>random_inited := True\<rparr>
                else p)
      in (draw (random_fd p1) (min s e) (max s e), p1))"

definition PRandom :: "u32 \<Rightarrow> int \<Rightarrow> (int \<Rightarrow> int \<Rightarrow> int \<Rightarrow> int) \<Rightarrow> prandom \<Rightarrow> int \<times> prandom" where
  "PRandom device now draw = rand_between device now draw 0 0x7FFFFFFF"

definition PRandom_max :: "u32 \<Rightarrow> int \<Rightarrow> (int \<Rightarrow> int \<Rightarrow> int \<Rightarrow> int) \<Rightarrow> int \<Rightarrow> prandom \<Rightarrow> int \<times> prandom" where
  "PRandom_max device now draw m = rand_between device now draw 0 m"

definition PRandom_range ::
    "u32 \<Rightarrow> int \<Rightarrow> (int \<Rightarrow> int \<Rightarrow> int \<Rightarrow> int) \<Rightarrow> int \<Rightarrow> int \<Rightarrow> prandom \<Rightarrow> int \<times> prandom" where
  "PRandom_range device now draw a b = rand_between device now draw a b"

text \<open>
  Each call starts the engine again from the same seed: every later call for a range gives the number that
  the first call gave.
\<close>

theorem prandom_repeats:
  "case rand_between device now draw s e p of (v, p') \<Rightarrow>
     \<forall>device' now'. rand_between device' now' draw s e p' = (v, p')"
  by (simp add: rand_between_def Let_def)

end
