(* ===== verification/Spec2Isabelle.thy ===== *)
theory Spec2Isabelle
  imports Logic_Thread Examples Hash_List Binary_Reader Typed_Messages Node_Lists Time_Util Worker_Runner Deflate Path_Names Sha1 Server_Cfg Random_Gen Auto_Ptr Time_Spans Mem_Cached Number_Format Buffered_Stream Log_Files Thread_Control Zip_Stream Lua_Types Config_Script Process_Env Mutexes Random_Stream
begin

text \<open>
  The program is a game server process: it accepts client connections, dials its peer servers,
  cuts the byte streams into messages, hands them to one logic thread through a queue of
  preallocated blocks, and either relays them to another server, answers them itself or passes
  them to a managed program. All paths are relative to \<^verbatim>\<open>src/\<close>.

  The way of a message, and the theories that model its stations:

    (1) \<^verbatim>\<open>Network/TcpConduit.cpp\<close>, \<^verbatim>\<open>GameClient.cpp\<close>, \<^verbatim>\<open>ClientConn.cpp\<close> (theory Conduit): a
    connection's input buffer, the packet cutter \<^verbatim>\<open>parsePacket\<close>, output and deferred close.
    A libevent buffer is a byte list; how many bytes its pull-up makes contiguous is the
    parameter \<^verbatim>\<open>pull\<close>, with its documented promise (the bytes asked for) as hypothesis; what lies
    behind them is arbitrary. The cutter asks for eight bytes and reads ten, so a message's source
    address is what lies in the last two (\<^verbatim>\<open>seen_source\<close>); the theorems say that the cutter delivers
    everything else as it was sent, however the network splits it and with whatever memory there
    is, and that a deferred close sends everything first.

    (2) \<^verbatim>\<open>MsgHandler/MsgTypes.h\<close>, \<^verbatim>\<open>Common/Queue.h\<close> (Msg_Types), \<^verbatim>\<open>Common/MemBlockPool.*\<close> and the
    allocator in \<^verbatim>\<open>Server/GlobalObject.*\<close> (Msg_Pool): the header in front of a message, the
    queue as an explicit list of nodes, and the pools as explicit heap blocks with a map from
    addresses to bytes; \<^verbatim>\<open>malloc\<close> is a parameter with its documented behaviour as hypothesis.
    The theorems are about any client program of allocations and releases.

    (3) \<^verbatim>\<open>MsgHandler/MsgPopHandler.*\<close>, \<^verbatim>\<open>MsgHandler.*\<close> (Msg_Handler): the handler table and the loop
    that takes messages off the queue, calls the handlers and frees the blocks.

    (4) \<^verbatim>\<open>Server/Logic.cpp\<close> (Logic_Thread): registration, relay, and calls of the managed
    program, which is a parameter (a list of invoked methods is the only trace of it).

    (5) \<^verbatim>\<open>Network/TcpServer.cpp\<close> (Tcp_Server) and \<^verbatim>\<open>TcpMasterServer\<close>, \<^verbatim>\<open>TcpServerService\<close>,
    \<^verbatim>\<open>TcpClientService\<close>, \<^verbatim>\<open>NetworkWrapper\<close> (Tcp_Master): slaves with their slots, the reuse of
    free slots, the distribution of accepted sockets over slaves, lookup by connection id. The
    abstract specification of a slave is a table of connections (\<^verbatim>\<open>conn_table\<close>) and a function that says what
    each pending operation makes of it (\<^verbatim>\<open>table_op\<close>), which a round of the loop refines.

    (6) \<^verbatim>\<open>Common/Stream.h\<close> (Wire_Stream), \<^verbatim>\<open>Common/BinaryReader.h\<close> (Binary_Reader) and
    \<^verbatim>\<open>Common/Serialize.h\<close> (Serialize, Message_Kinds, Typed_Messages): message composition and parsing. The
    C++ templates are records of functions, one definition for each macro; locales state what a
    serialisable type promises. Message_Kinds describes the types of members by a datatype and puts the
    templates of a class together as the compiler does, so that the theorems about typed handlers
    quantify over every message class that the macros can declare.

    (7) \<^verbatim>\<open>Common/ServerCommon.h\<close> (Server_Config): numbers and addresses of the servers.

  The root theory composes them: its first theorem goes from the bytes of a client connection
  through cutter, queue, handler loop and relay to the output of the peers' connections. Theory
  Examples holds the concrete states on which properties with hypotheses are applied.

  Beside this way: \<^verbatim>\<open>Common/HashList.h\<close>, \<^verbatim>\<open>HashTable.h\<close> (Hash_List) are an open-addressing table
  that refines a map while it is only filled; \<^verbatim>\<open>Common/Node.h\<close> (Node_Lists) the intrusive lists,
  refined to lists; \<^verbatim>\<open>Common/TimeUtil.h\<close> (Time_Util) with a proleptic Gregorian calendar for
  \<^verbatim>\<open>localtime_r\<close> and \<^verbatim>\<open>mktime\<close> in a zone of fixed offset; \<^verbatim>\<open>Server/WorkerRunner.h\<close> (Worker_Runner)
  as a step relation over its timers; \<^verbatim>\<open>Common/TInf.cpp\<close> (Tinf), the decompressor, and its
  correctness against the deflate and zlib formats (Deflate).

  Utilities of \<^verbatim>\<open>Common/\<close> and the start of the process: \<^verbatim>\<open>Ascii.*\<close> and \<^verbatim>\<open>StringTokenizer.*\<close> (Ascii_Chars,
  String_Tok); \<^verbatim>\<open>Path.cpp\<close> with its four syntaxes (Path_Names); \<^verbatim>\<open>SHA1Engine.*\<close>, \<^verbatim>\<open>DigestEngine.*\<close>
  against the standard's definition of SHA-1 (Sha1); \<^verbatim>\<open>StringUtil.h\<close> (String_Util);
  \<^verbatim>\<open>NumberFormatter.*\<close> with the printf formats it uses and \<^verbatim>\<open>atoi\<close> (Number_Text, Number_Format);
  \<^verbatim>\<open>Random.*\<close> against its recurrence (Random_Gen); \<^verbatim>\<open>AutoPtr.h\<close>, \<^verbatim>\<open>RefCountedObject.h\<close> over an explicit
  heap of counted objects (Auto_Ptr); \<^verbatim>\<open>Timespan.*\<close>, \<^verbatim>\<open>Timestamp.*\<close> (Time_Spans);
  \<^verbatim>\<open>BufferedStreamBuf.h\<close> between the standard library's stream functions and a device that is a
  parameter (Buffered_Stream); \<^verbatim>\<open>MCached.*\<close> with the cache library as a parameter (Mem_Cached);
  \<^verbatim>\<open>Server/Cfg.*\<close> and the address rules of \<^verbatim>\<open>Server/WorldServer.cpp\<close> (Server_Cfg).

  What stands between the program and the operating system: \<^verbatim>\<open>File.*\<close>, \<^verbatim>\<open>File_UNIX.*\<close>,
  \<^verbatim>\<open>DirectoryIterator*\<close> (Files) on a model of the POSIX calls they use (Posix_Fs: a finite map from
  locations to directories, regular files and symbolic links with modes, owners and times; no hard links and
  devices; it refuses nothing for permissions, space or lengths, otherwise the errors are the standard's); the
  theorems give what creating, removing, copying and moving trees leave behind, for absolute names and,
  where directories are created, also relative ones. \<^verbatim>\<open>Server/Log.*\<close> (Log_Files) writes through it: to each
  file exactly its level's lines of its day are appended. \<^verbatim>\<open>Event_POSIX.*\<close> (Sync_Event) is a step relation over the threads inside a
  wait, with spurious wake-ups and time-outs, that refines a flag and shows every check of it with its result; \<^verbatim>\<open>Thread_POSIX.*\<close> (Thread_Control)
  runs on top of it, with the operating system's threads as phases of their entry functions.
  \<^verbatim>\<open>Zip.*\<close> (Zip_Stream) has zlib as a parameter with its documented contract as hypothesis, and zlib's 32-bit sizes;
  what the loop of unzip needs beyond the documentation is a definition of its own (\<^verbatim>\<open>leaves_input\<close>).
  \<^verbatim>\<open>Environment*\<close> (Process_Env) has the environment as pointers into a heap of texts, which shows what
  setting a variable twice does; \<^verbatim>\<open>Mutex_POSIX.*\<close>, \<^verbatim>\<open>ScopedLock.h\<close> (Mutexes) the scoped locks of
  several threads as a step relation: mutual exclusion, and when a lock is to be had. \<^verbatim>\<open>RandomStream.*\<close>,
  \<^verbatim>\<open>URandom.*\<close>, \<^verbatim>\<open>PseudoRandom.*\<close> (Random_Stream) compose the generator and the digest; the device, the clock, the
  C function \<^verbatim>\<open>rand_r\<close> and the engine of the C++ library are parameters.

  Scripts. Lua_Api is the part of the Lua C API that the binding calls (\<^verbatim>\<open>script/luajit/src/lj_api.c\<close>, the
  interpreter that the build links): a frame of the stack, upvalues, and a heap of tables, functions
  and userdata. Over it, \<^verbatim>\<open>script/lua_tinker.*\<close>: values, errors, classes and the metamethods that look
  members up (Lua_Tinker), protected calls, chunks and calls in both directions (Lua_Calls), tables in
  the hands of C++ (Lua_Tables). A C++ type parameter is a value of \<^verbatim>\<open>ctype\<close>, an object a pointer into the
  program's state, and calling a function of the script, compiling a file and the lines of a
  call stack are the parameters \<^verbatim>\<open>run\<close>, \<^verbatim>\<open>load\<close> and \<^verbatim>\<open>trace\<close>; the search through the parents of a class
  is a partial function, as it does not end in a cycle. Lua_Classes shows that registering keeps
  a heap that represents an abstract environment of classes with inheritance, Lua_Objects that
  the script's view of an object is what this environment says, Lua_Values and Lua_Types that values
  cross the border unchanged and typed, Lua_Protect what calls leave on the stack. Config_Script
  (\<^verbatim>\<open>script/Script.*\<close>, \<^verbatim>\<open>Server/ConfigScript.*\<close>) composes them with Server_Cfg: the configuration that
  loading a file gives is what the settings named by its script (\<^verbatim>\<open>setting\<close>, a specification apart from the
  table of registrations) make of it, up to the first call of something that is no setting.

  Conventions. Machine integers are words of their width; where the code uses int for a small
  value the model has int and says so. Every access to memory outside an object, every failed
  assertion and every undefined operation is the result None, so that a theorem that states a
  result states safety too. Loops are structural recursions over the data they walk, or carry
  a termination proof (the cutter by the bytes in the buffer, the decompressor by the bits that
  are left, its checksum by the bytes that are left). The loops that may not end are
  partial functions whose value None is not returning: the slave's search for a slot for a new
  connection, which does hang after a restart, the allocator's search for a block size, the loop
  that copies a file, and those around zlib, of which the one that uncompresses hangs without a
  dictionary. The recursions over directory trees carry a depth: creating parents needs no more
  than the length of the name, and the theorems about removing and moving say that every depth from
  some bound on is enough, so that the code's recursion ends; None is a deeper recursion. A name passes at most
  forty symbolic links.
  Probing in the hash list is bounded by the capacity: a longer probe meets the same slots again.

  Behaviour that differs from its evident intent is stated as theorems of the code as it is:
  misrouted messages for unregistered or undialled servers, the wrong source address of outgoing
  messages, the wrong connection closed, a day test that ignores the year, typed messages that
  no peer understands, and others, each beside its component.

  Not modelled: \<^verbatim>\<open>Client/\<close> (a second copy of the global object and exported wrappers that only
  forward), start-up and signal handling (\<^verbatim>\<open>Server/Main.cpp\<close>, \<^verbatim>\<open>WorkerThread.h\<close>), exceptions, thread-local
  values and atomic counters taken from the POCO library, the questions to the system in \<^verbatim>\<open>Environment*\<close>,
  and the Lua and LuaJIT interpreters under \<^verbatim>\<open>script/\<close>, which are third-party code, but for the API
  functions above. Of the binding, the \<^verbatim>\<open>float\<close> and enumeration conversions, garbage collection,
  metamethods that are script functions and the printing of stacks are left out. Threads of the
  server are modelled at the granularity of the queue operations, which the code protects with a mutex.
\<close>

section \<open>From the network to the network\<close>



section \<open>Registration and relaying\<close>

text \<open>
  C12: A registration links the sender's number to the connection it came over, answers on
  this connection with the acknowledgement addressed to the sender, and touches no other
  connection.
\<close>

theorem registration_links_and_answers:
  assumes "m_Active (l_net l)" and "master_inv (workers (m_TcpService (l_net l)))"
    and "0 < sid" and "sid < 2 ^ 31" and "conn_map (workers (m_TcpService (l_net l))) sid = Some c"
  shows "\<exists>l'. do_ProcessProxyLogic 1 body len tt ti st si sid l = Some l' \<and>
    m_mLinkedServer l' = (m_mLinkedServer l)(ucast (SPLIT_ID st si) \<mapsto> word_of_int sid) \<and>
    conn_map (workers (m_TcpService (l_net l'))) = (conn_map (workers (m_TcpService (l_net l))))
      (sid \<mapsto> conduit_send (frame 2 (SPLIT_ID st si) (SPLIT_ID tt ti)
         (obj_bytes (of_nat (length okay_text) :: u16) @ okay_text)) c)"
  using register_call [OF assms(1-4)] master_dir.deliver_view(1) [OF assms(2), of "(sid, b)" for b] assms(3-5)
  by simp

theorem registration_links_and_answers_witness:
  "\<exists>l'. do_ProcessProxyLogic 1 [] 0 1 1 2 7 2 ex_logic = Some l' \<and>
    m_mLinkedServer l' (ucast (SPLIT_ID 2 7)) = Some 2"
  using registration_links_and_answers [of ex_logic 2] ex_logic_net ex_master_inv ex_conn_map
  by fastforce

text \<open>
  A message of a client connection that is not for another server reaches the managed
  program exactly once, with the connection's id, the command and the sent data, if its
  payload is a 16-bit length with that many bytes behind it.
\<close>

theorem client_message_to_managed:
  assumes "cmd < 2 ^ 31" and "cmd \<noteq> 2" and "0 < length data" and "length data + 2 < 2 ^ 16"
    and "\<not> (t > 0 \<and> drop_bit 8 (uint s) \<noteq> 0xFF)"
    and "p = obj_bytes (of_nat (length data) :: u16) @ data"
    and "search MM_PROCESSMSG = Some meth" and "m_mInvokeMethods l MM_PROCESSMSG \<in> {None, Some (Some meth)}"
    and "- (2 ^ 31) \<le> uid" and "uid < 2 ^ 31"
  shows "\<exists>l'. run_call search (call_of (delivered GameClient uid (cmd, t, s, p))) l = Some l' \<and>
    l_invoked l' = l_invoked l @ [(Some meth, ArgMsg uid cmd data (of_nat (length data)))] \<and>
    l_net l' = l_net l"
proof -
  have p: "length p = length data + 2" by (simp add: assms(6) obj_bytes_u16)
  have "length p < 2 ^ 16" using assms(4) p by simp
  then have c: "call_of (delivered GameClient uid (cmd, t, s, p))
      = ProcessLogic cmd p (of_nat (length p)) (word_of_int uid)"
    using assms(5) by (simp add: call_of_delivered word_to_int32)
  have u: "to_int32 (uint (word_of_int uid :: u32)) = uid"
  proof -
    have "to_int32 (uint (word_of_int uid :: u32)) = sint (word_of_int uid :: u32)" by (simp add: to_int32_def)
    also have "\<dots> = to_int32 uid" by (simp add: to_int32_def)
    also have "\<dots> = uid" using assms(9,10) by simp
    finally show ?thesis .
  qed
  have "length data < 2 ^ 16" using assms(4) by simp
  from do_ProcessLogic_managed [where search = search and l = l and meth = meth, OF assms(2,7,8) this assms(3), of uid] show ?thesis
    by (simp only: c run_call_def logic_call.case u p) (simp only: assms(6))
qed

theorem client_message_to_managed_witness:
  "\<exists>l'. run_call (\<lambda>_. Some (9 :: nat)) (call_of (delivered GameClient 4 (7, 0, 0, [2, 0, 65, 66]))) ex_logic = Some l' \<and>
    l_invoked l' = [(Some 9, ArgMsg 4 7 [65, 66] 2)]"
proof -
  have b: "[2, 0, 65, 66] = obj_bytes (of_nat (length [65, 66 :: u8]) :: u16) @ [65, 66]"
    by (simp add: obj_bytes_u16)
  show ?thesis
    using client_message_to_managed [where l = ex_logic and uid = 4 and cmd = 7 and t = 0 and s = 0,
        OF _ _ _ _ _ b, of "\<lambda>_. Some 9" 9]
    by (auto simp: ex_logic_def)
qed

section \<open>Defects of the logic thread\<close>

text \<open>
  A message for a server that has not registered is not dropped: the linked-server map
  makes up session 0 for it, and the message goes to the connection with id 0.
\<close>

theorem unregistered_target_misrouted:
  assumes "m_Active (l_net l)" and "master_inv (workers (m_TcpService (l_net l)))"
    and "m_mLinkedServer l (ucast t) = None" and "cmd \<noteq> 1" and "relayed (cmd, t, s, p)"
    and "length p + 10 < 2 ^ 16" and "connUp (workers (m_TcpService (l_net l)) ! 0) 0 = None"
    and "conn_map (workers (m_TcpService (l_net l))) 0 = Some c"
  shows "\<exists>l'. run_call search (call_of (delivered GameClient uid (cmd, t, s, p))) l = Some l' \<and>
    conn_map (workers (m_TcpService (l_net l'))) 0 = Some (conduit_send (frame_of (cmd, t, s, p)) c)"
proof -
  let ?m = "m_TcpService (l_net l)"
  let ?l = "l\<lparr>m_mLinkedServer := (m_mLinkedServer l)(ucast t \<mapsto> 0)\<rparr>"
  have lp: "length p < 2 ^ 16" "length p + 10 < 2 ^ 64" using assms(6) by simp_all
  have n: "to_int32 (uint (of_nat (length p) :: u32)) = int (length p)"
  proof -
    have "uint (of_nat (length p) :: u32) = int (length p)" using lp by (simp add: uint_nat unat_of_nat)
    then show ?thesis using lp by simp
  qed
  have c: "call_of (delivered GameClient uid (cmd, t, s, p)) =
      ProcessProxyLogic cmd p (of_nat (length p)) (word_of_int (drop_bit 8 (uint t)))
        (word_of_int (uint t)) (word_of_int (drop_bit 8 (uint s))) (word_of_int (uint s)) (word_of_int uid)"
    using assms(5) by (simp add: call_of_delivered [OF lp(1)] relayed_def word_to_int32)
  have zero: "to_int32 (uint (0 :: u32)) = 0" by (simp add: to_int32_def)
  have run: "run_call search (call_of (delivered GameClient uid (cmd, t, s, p))) l
      = send_stream 0 \<lparr>wpos = 0, wbuf = frame cmd t s p\<rparr> ?l"
    unfolding c run_call_def using assms(3,4)
    by (simp add: do_ProcessProxyLogic_def split_target n zero linked_get_def ProxyMsg2Server_frame [OF assms(6)])
  have "length (frame cmd t s p) < 2 ^ 16" using assms(6) length_frame [OF lp(2)] by simp
  then have sz: "take (unat (of_nat (stream_size \<lparr>wpos = 0, wbuf = frame cmd t s p\<rparr>) :: u16)) (frame cmd t s p)
      = frame cmd t s p"
    by (simp add: stream_size_def unat_of_nat)
  have "peer_id 0 (workers ?m) = 0" using assms(7) by (simp add: peer_id_def)
  then obtain u where f: "master_findConn 0 ?m = Some (Some (place_of 0),
      ?m\<lparr>workers := (workers ?m)[0 := (workers ?m ! 0)\<lparr>connUp := u\<rparr>]\<rparr>)"
    using master_findConn_peer [OF assms(2), of 0] assms(8) by auto
  let ?m' = "?m\<lparr>workers := (workers ?m)[0 := (workers ?m ! 0)\<lparr>connUp := u\<rparr>]\<rparr>"
  have inv: "master_inv (workers ?m')" using master_inv_connUp [OF assms(2)] by simp
  have "workers ?m \<noteq> []" using assms(2) by (auto simp: master_inv_def WORKERS_def)
  then have "conn_map (workers ?m') 0 = Some c" using assms(8) by simp
  then have "conn_map (workers (send_at (Some (place_of 0)) (frame cmd t s p) ?m')) 0
      = Some (conduit_send (frame cmd t s p) c)"
    using send_at_map [OF inv, of 0 "frame cmd t s p"] by simp
  then show ?thesis using f assms(1) sz
    by (simp add: run send_stream_def SendMsgToClient_def frame_of_def)
qed

theorem unregistered_target_misrouted_witness:
  "\<exists>l'. run_call (\<lambda>_. None) (call_of (delivered GameClient 2 (7, 0x0909, 0x0301, [1]))) ex_logic = Some l' \<and>
    conn_map (workers (m_TcpService (l_net l'))) 0
      = Some (conduit_send (frame_of (7, 0x0909, 0x0301, [1])) (new_conduit GameClient 0 0))"
proof -
  have "connUp (workers ex_master ! 0) 0 = None" by (simp add: ex_master_def ex_slave_def new_slave_def)
  moreover have "m_mLinkedServer ex_logic (ucast (0x0909 :: u16)) = None" by (simp add: ex_logic_def)
  ultimately show ?thesis
    using unregistered_target_misrouted [of ex_logic "0x0909" 7 "0x0301" "[1]" "new_conduit GameClient 0 0" "\<lambda>_. None" 2]
      ex_logic_net ex_master_inv ex_conn_map0 by (simp add: relayed_def drop_bit_eq_div)
qed

text \<open>
  The source address that \<^verbatim>\<open>SendMsg\<close> and \<^verbatim>\<open>SendMsg2Server\<close> put into a message is the
  server's own number exactly for uid 0; the shift by \<open>8 + uid\<close> is undefined from uid 24 on,
  and between 8 and 23 the address is always 0.
\<close>

theorem source_address_wrong:
  "(source_expr type uid = Some (SPLIT_ID type uid) \<longleftrightarrow> uid = 0) \<and>
   (source_expr type uid = None \<longleftrightarrow> 24 \<le> unat uid) \<and>
   (unat uid < 8 \<or> 24 \<le> unat uid \<or> source_expr type uid = Some 0)"
proof (intro conjI)
  show "source_expr type uid = Some (SPLIT_ID type uid) \<longleftrightarrow> uid = 0" by (rule source_expr_right_iff)
  show "source_expr type uid = None \<longleftrightarrow> 24 \<le> unat uid" by (auto simp: source_expr_def Let_def)
  show "unat uid < 8 \<or> 24 \<le> unat uid \<or> source_expr type uid = Some 0"
    using source_expr_lost [of uid type] by linarith
qed

text \<open>
  The answer to a registration (command 2) always writes behind the end of a local array.
\<close>

theorem registered_protocol_overflows:
  "do_ProcessLogic search 2 body len sid l = None"
  by (simp add: do_ProcessLogic_def ProcessRegisteredProtocol_overflow)

end
